(* ===== verification/Prelude.thy ===== *)
theory Prelude
  imports Complex_Main "HOL-Library.AList" "HOL-Library.Multiset"
begin

text \<open>
  What every component of the development shares: the JavaScript values the code computes
  with (numbers that may be non-finite, strings of code units, insertion-ordered
  \<^verbatim>\<open>Map\<close>s), the array functions whose callbacks change state, and the lemma collections
  the component theories add to.

  A JavaScript number that is known to be finite is a \<^typ>\<open>real\<close>: rounding of IEEE
  doubles is idealised away. Where the code itself asks \<^verbatim>\<open>Number.isFinite\<close>, the
  argument is a \<open>js_number\<close>, and NaN and the two infinities, which that test does not
  distinguish, are its constructor \<open>NonFinite\<close>. Counters and generations that the code
  only increments from 0 are \<^typ>\<open>nat\<close>. A string is a list of code units below 256.
\<close>

named_theorems frame_simps \<open>fields an operation leaves alone\<close>
named_theorems js_map_simps \<open>lookups in insertion-ordered maps after updates\<close>

section \<open>Numbers\<close>

datatype js_number = Finite real | NonFinite

definition js_floor :: "real \<Rightarrow> real" where
  "js_floor x = of_int \<lfloor>x\<rfloor>"

definition js_round :: "real \<Rightarrow> real" where
  "js_round x = of_int \<lfloor>x + 1 / 2\<rfloor>"

text \<open>\<^verbatim>\<open>Math.max(lo, Math.min(hi, x))\<close>.\<close>

definition clamp :: "real \<Rightarrow> real \<Rightarrow> real \<Rightarrow> real" where
  "clamp lo hi x = max lo (min hi x)"

lemma clamp_bounds: "lo \<le> hi \<Longrightarrow> lo \<le> clamp lo hi x \<and> clamp lo hi x \<le> hi"
  by (simp add: clamp_def)

lemma clamp_id: "lo \<le> x \<Longrightarrow> x \<le> hi \<Longrightarrow> clamp lo hi x = x"
  by (simp add: clamp_def)

section \<open>Strings\<close>

text \<open>White space as \<^verbatim>\<open>String.prototype.trim\<close> removes it, below code unit 256.\<close>

definition js_space :: "char \<Rightarrow> bool" where
  "js_space c = (let n = (of_char c :: nat) in 9 \<le> n \<and> n \<le> 13 \<or> n = 32 \<or> n = 160)"

definition js_trim :: "string \<Rightarrow> string" where
  "js_trim s = rev (dropWhile js_space (rev (dropWhile js_space s)))"

definition control_char :: "char \<Rightarrow> bool" where
  "control_char c = (let n = (of_char c :: nat) in n \<le> 31 \<or> n = 127)"

definition ascii_lower :: "char \<Rightarrow> char" where
  "ascii_lower c = (let n = (of_char c :: nat) in if 65 \<le> n \<and> n \<le> 90 then char_of (n + 32) else c)"

lemma dropWhile_idem: "dropWhile P (dropWhile P xs) = dropWhile P xs"
  by (induction xs) auto

lemma dropWhile_hd_fixed: "xs = [] \<or> \<not> P (hd xs) \<Longrightarrow> dropWhile P xs = xs"
  by (cases xs) auto

lemma rev_dropWhile_keeps_hd:
  "xs = [] \<or> \<not> P (hd xs) \<Longrightarrow>
   rev (dropWhile P (rev xs)) = [] \<or> \<not> P (hd (rev (dropWhile P (rev xs))))"
proof (induction xs rule: rev_induct)
  case Nil
  then show ?case by simp
next
  case (snoc x xs)
  show ?case
  proof (cases "P x")
    case True
    with snoc have "xs = [] \<or> \<not> P (hd xs)" by (cases xs) auto
    with snoc.IH True show ?thesis by simp
  next
    case False
    with snoc.prems show ?thesis by simp
  qed
qed

lemma js_trim_idem [simp]: "js_trim (js_trim s) = js_trim s"
proof -
  let ?d = "dropWhile js_space s"
  have "?d = [] \<or> \<not> js_space (hd ?d)"
    using hd_dropWhile [of js_space s] by blast
  then have "dropWhile js_space (js_trim s) = js_trim s"
    unfolding js_trim_def by (intro dropWhile_hd_fixed rev_dropWhile_keeps_hd)
  then show ?thesis
    unfolding js_trim_def [of "js_trim s"]
    by (simp add: js_trim_def dropWhile_idem)
qed

lemma length_js_trim: "length (js_trim s) \<le> length s"
  unfolding js_trim_def
  by (metis length_dropWhile_le length_rev order_trans)

text \<open>A string property used as a condition: absent and empty strings are falsy.\<close>

definition truthy :: "string option \<Rightarrow> string option" where
  "truthy m = (case m of None \<Rightarrow> None | Some s \<Rightarrow> if s = [] then None else Some s)"

lemma truthy_Some_iff: "truthy m = Some s \<longleftrightarrow> m = Some s \<and> s \<noteq> []"
  by (auto simp: truthy_def split: option.splits)

lemma truthy_simps [simp]:
  "truthy None = None" "truthy (Some []) = None" "truthy (Some (c # cs)) = Some (c # cs)"
  by (simp_all add: truthy_def)

text \<open>Decimal rendering of a length, as in a template literal.\<close>

definition digit_char :: "nat \<Rightarrow> char" where
  "digit_char d = char_of (48 + d)"

fun show_nat :: "nat \<Rightarrow> string" where
  "show_nat n = (if n < 10 then [digit_char n] else show_nat (n div 10) @ [digit_char (n mod 10)])"

declare show_nat.simps [simp del]

lemma of_char_digit_char: "d < 10 \<Longrightarrow> of_char (digit_char d) = 48 + d"
  by (simp add: digit_char_def)

lemma digit_char_inj: "d < 10 \<Longrightarrow> e < 10 \<Longrightarrow> digit_char d = digit_char e \<longleftrightarrow> d = e"
  by (metis add_left_cancel of_char_digit_char)

lemma digit_char_not_colon: "d < 10 \<Longrightarrow> digit_char d \<noteq> CHR '':''"
proof
  assume d: "d < 10" and "digit_char d = CHR '':''"
  then have "(of_char (digit_char d) :: nat) = of_char (CHR '':'')" by simp
  with d show False by (simp add: of_char_digit_char)
qed

lemma show_nat_no_colon: "CHR '':'' \<notin> set (show_nat n)"
proof (induction n rule: show_nat.induct)
  case (1 n)
  then show ?case
    using digit_char_not_colon [of n] digit_char_not_colon [of "n mod 10"]
    by (subst show_nat.simps) auto
qed

lemma show_nat_nonempty: "show_nat n \<noteq> []"
  by (subst show_nat.simps) simp

lemma show_nat_inj: "show_nat m = show_nat n \<Longrightarrow> m = n"
proof (induction m arbitrary: n rule: show_nat.induct)
  case (1 m)
  show ?case
  proof (cases "m < 10")
    case True
    with "1.prems" show ?thesis
      using show_nat_nonempty [of "n div 10"]
      by (auto simp: show_nat.simps [of m] show_nat.simps [of n] digit_char_inj split: if_splits)
  next
    case False
    have "\<not> n < 10"
      using "1.prems" False show_nat_nonempty [of "m div 10"]
      by (auto simp: show_nat.simps [of m] show_nat.simps [of n])
    with "1.prems" False
    have "show_nat (m div 10) = show_nat (n div 10)" and "m mod 10 = n mod 10"
      by (auto simp: show_nat.simps [of m] show_nat.simps [of n] digit_char_inj)
    with "1.IH" [OF False] have "m div 10 = n div 10" by blast
    with \<open>m mod 10 = n mod 10\<close> show ?thesis by (metis div_mod_decomp)
  qed
qed

lemma colon_split_unique:
  assumes "xs @ CHR '':'' # ys = us @ CHR '':'' # vs"
    and "CHR '':'' \<notin> set xs" and "CHR '':'' \<notin> set us"
  shows "xs = us \<and> ys = vs"
  using assms
proof (induction xs arbitrary: us)
  case Nil
  then show ?case by (cases us) auto
next
  case (Cons x xs)
  then show ?case by (cases us) auto
qed

section \<open>Insertion-ordered maps\<close>

text \<open>
  A JavaScript \<^verbatim>\<open>Map\<close> whose iteration order the code observes is an association list
  with distinct keys: \<^verbatim>\<open>set\<close> overwrites in place or appends, \<^verbatim>\<open>delete\<close> removes the
  entry. Maps whose order is never observed are partial functions.
\<close>

type_synonym ('k, 'v) js_map = "('k \<times> 'v) list"

abbreviation map_get :: "('k, 'v) js_map \<Rightarrow> 'k \<Rightarrow> 'v option" where
  "map_get m k \<equiv> map_of m k"

abbreviation map_set :: "('k, 'v) js_map \<Rightarrow> 'k \<Rightarrow> 'v \<Rightarrow> ('k, 'v) js_map" where
  "map_set m k v \<equiv> AList.update k v m"

abbreviation map_delete :: "('k, 'v) js_map \<Rightarrow> 'k \<Rightarrow> ('k, 'v) js_map" where
  "map_delete m k \<equiv> AList.delete k m"

abbreviation map_keys :: "('k, 'v) js_map \<Rightarrow> 'k list" where
  "map_keys m \<equiv> map fst m"

definition map_wf :: "('k, 'v) js_map \<Rightarrow> bool" where
  "map_wf m \<longleftrightarrow> distinct (map_keys m)"

lemma map_get_set [simp, js_map_simps]:
  "map_get (map_set m k v) j = (if j = k then Some v else map_get m j)"
  by (simp add: AList.update_conv')

lemma map_get_delete [simp, js_map_simps]:
  "map_get (map_delete m k) j = (if j = k then None else map_get m j)"
  by (simp add: AList.delete_conv')

lemma map_wf_Nil [simp]: "map_wf []"
  by (simp add: map_wf_def)

lemma map_wf_set [simp, intro]: "map_wf m \<Longrightarrow> map_wf (map_set m k v)"
  by (simp add: map_wf_def AList.distinct_update)

lemma map_wf_delete [simp, intro]: "map_wf m \<Longrightarrow> map_wf (map_delete m k)"
  by (simp add: map_wf_def AList.distinct_delete)

lemma map_get_None_iff: "map_get m k = None \<longleftrightarrow> k \<notin> set (map_keys m)"
  by (simp add: map_of_eq_None_iff)

lemma dom_map_get: "dom (map_get m) = set (map_keys m)"
  by (simp add: dom_map_of_conv_image_fst)

lemma keys_map_set:
  "map_keys (map_set m k v) = (if k \<in> set (map_keys m) then map_keys m else map_keys m @ [k])"
  by (simp add: AList.update_keys)

lemma keys_map_delete: "map_keys (map_delete m k) = filter (\<lambda>j. j \<noteq> k) (map_keys m)"
  by (simp add: AList.delete_keys removeAll_filter_not_eq) (metis (full_types))

lemma length_map_set:
  "length (map_set m k v) = (if map_get m k = None then Suc (length m) else length m)"
  using arg_cong [OF keys_map_set [of k v m], of length]
  by (simp add: map_get_None_iff split: if_splits)

lemma length_map_delete:
  assumes "map_wf m"
  shows "length (map_delete m k) = (if map_get m k = None then length m else length m - 1)"
proof -
  have "length (map_delete m k) = length (filter (\<lambda>j. j \<noteq> k) (map_keys m))"
    using arg_cong [OF keys_map_delete [of k m], of length] by simp
  also have "filter (\<lambda>j. j \<noteq> k) (map_keys m) = remove1 k (map_keys m)"
    using assms
    by (simp add: map_wf_def distinct_remove1_removeAll removeAll_filter_not_eq) (metis (full_types))
  finally show ?thesis
    by (simp add: length_remove1 map_get_None_iff)
qed

lemma map_get_hd: "m \<noteq> [] \<Longrightarrow> map_get m (fst (hd m)) = Some (snd (hd m))"
  by (cases m) auto

lemma map_get_in_set: "map_get m k = Some v \<Longrightarrow> (k, v) \<in> set m"
  by (rule map_of_SomeD)

lemma map_get_from_set: "map_wf m \<Longrightarrow> (k, v) \<in> set m \<Longrightarrow> map_get m k = Some v"
  by (simp add: map_wf_def)

section \<open>Array functions with callbacks that change state\<close>

text \<open>\<^verbatim>\<open>xs.filter(f)\<close> and \<^verbatim>\<open>xs.some(f)\<close> where \<^verbatim>\<open>f\<close> reads and writes a state.\<close>

fun filter_state :: "('s \<Rightarrow> 'a \<Rightarrow> bool \<times> 's) \<Rightarrow> 's \<Rightarrow> 'a list \<Rightarrow> 'a list \<times> 's" where
  "filter_state f s [] = ([], s)"
| "filter_state f s (x # xs) =
     (let (keep, s1) = f s x; (ys, s2) = filter_state f s1 xs
      in (if keep then x # ys else ys, s2))"

fun some_state :: "('s \<Rightarrow> 'a \<Rightarrow> bool \<times> 's) \<Rightarrow> 's \<Rightarrow> 'a list \<Rightarrow> bool \<times> 's" where
  "some_state f s [] = (False, s)"
| "some_state f s (x # xs) =
     (let (hit, s1) = f s x in if hit then (True, s1) else some_state f s1 xs)"

lemma filter_state_subset: "filter_state f s xs = (ys, t) \<Longrightarrow> set ys \<subseteq> set xs"
  by (induction xs arbitrary: s ys t) (auto split: prod.splits if_splits, blast)

lemma filter_state_inv:
  assumes "\<And>s x b t. x \<in> set xs \<Longrightarrow> P s \<Longrightarrow> f s x = (b, t) \<Longrightarrow> P t"
    and "P s" and "filter_state f s xs = (ys, t)"
  shows "P t"
  using assms
proof (induction xs arbitrary: s ys t)
  case Nil
  then show ?case by simp
next
  case (Cons x xs)
  obtain b s1 where fx: "f s x = (b, s1)" by (cases "f s x")
  obtain zs s2 where fs: "filter_state f s1 xs = (zs, s2)" by (cases "filter_state f s1 xs")
  have "P s1" using Cons.prems fx by (metis list.set_intros(1))
  then have "P s2" using Cons.IH [OF _ _ fs] Cons.prems(1) by (metis list.set_intros(2))
  with Cons.prems(3) fx fs show ?case by simp
qed

lemma some_state_inv:
  assumes "\<And>s x b t. x \<in> set xs \<Longrightarrow> P s \<Longrightarrow> f s x = (b, t) \<Longrightarrow> P t"
    and "P s" and "some_state f s xs = (b, t)"
  shows "P t"
  using assms
proof (induction xs arbitrary: s)
  case Nil
  then show ?case by simp
next
  case (Cons x xs)
  obtain c s1 where fx: "f s x = (c, s1)" by (cases "f s x")
  then have s1: "P s1" using Cons.prems by (metis list.set_intros(1))
  show ?case
  proof (cases c)
    case True
    with Cons.prems(3) fx s1 show ?thesis by simp
  next
    case False
    with Cons.prems(3) fx have "some_state f s1 xs = (b, t)" by simp
    then show ?thesis
      by (rule Cons.IH [rotated 2]) (use s1 Cons.prems(1) in auto)
  qed
qed

text \<open>
  When the verdict on an element does not depend on the state changes of earlier
  callbacks, the stateful filter returns what a pure filter returns.
\<close>

lemma filter_state_pure:
  assumes verdict: "\<And>s x. x \<in> set xs \<Longrightarrow> P s \<Longrightarrow> fst (f s x) = q x"
    and keeps: "\<And>s x. x \<in> set xs \<Longrightarrow> P s \<Longrightarrow> P (snd (f s x))"
    and "P s"
  shows "fst (filter_state f s xs) = filter q xs"
  using assms
proof (induction xs arbitrary: s)
  case Nil
  then show ?case by simp
next
  case (Cons x xs)
  have "fst (filter_state f (snd (f s x)) xs) = filter q xs"
    by (rule Cons.IH) (use Cons.prems in auto)
  with Cons.prems(1) [of x s] Cons.prems(3) show ?case
    by (auto split: prod.splits)
qed

lemma some_state_pure:
  assumes verdict: "\<And>s x. x \<in> set xs \<Longrightarrow> P s \<Longrightarrow> fst (f s x) = q x"
    and keeps: "\<And>s x. x \<in> set xs \<Longrightarrow> P s \<Longrightarrow> P (snd (f s x))"
    and "P s"
  shows "fst (some_state f s xs) = list_ex q xs"
  using assms
proof (induction xs arbitrary: s)
  case Nil
  then show ?case by simp
next
  case (Cons x xs)
  have "fst (some_state f (snd (f s x)) xs) = list_ex q xs"
    by (rule Cons.IH) (use Cons.prems in auto)
  with Cons.prems(1) [of x s] Cons.prems(3) show ?case
    by (auto split: prod.splits)
qed

section \<open>Sorting with a comparator\<close>

text \<open>
  \<^verbatim>\<open>Array.prototype.sort\<close> is stable; with a consistent comparator it agrees with stable
  insertion.
\<close>

fun insert_by :: "('a \<Rightarrow> 'a \<Rightarrow> bool) \<Rightarrow> 'a \<Rightarrow> 'a list \<Rightarrow> 'a list" where
  "insert_by before x [] = [x]"
| "insert_by before x (y # ys) = (if before y x then y # insert_by before x ys else x # y # ys)"

text \<open>\<open>before y x\<close> says that \<open>y\<close> must stand before \<open>x\<close>: the comparator is negative.\<close>

fun sort_by :: "('a \<Rightarrow> 'a \<Rightarrow> bool) \<Rightarrow> 'a list \<Rightarrow> 'a list" where
  "sort_by before [] = []"
| "sort_by before (x # xs) = insert_by before x (sort_by before xs)"

lemma mset_insert_by [simp]: "mset (insert_by before x xs) = add_mset x (mset xs)"
  by (induction xs) auto

lemma mset_sort_by [simp]: "mset (sort_by before xs) = mset xs"
  by (induction xs) auto

lemma set_sort_by [simp]: "set (sort_by before xs) = set xs"
  by (metis mset_sort_by set_mset_mset)

lemma length_sort_by [simp]: "length (sort_by before xs) = length xs"
  by (metis mset_sort_by size_mset)

text \<open>First occurrences, in order: \<^verbatim>\<open>[...new Set(xs)]\<close>.\<close>

definition unique :: "'a list \<Rightarrow> 'a list" where
  "unique xs = rev (remdups (rev xs))"

lemma set_unique [simp]: "set (unique xs) = set xs"
  by (simp add: unique_def)

lemma distinct_unique [simp]: "distinct (unique xs)"
  by (simp add: unique_def)

lemma unique_Nil [simp]: "unique [] = []"
  by (simp add: unique_def)

lemma unique_eq_Nil [simp]: "unique xs = [] \<longleftrightarrow> xs = []"
  by (simp add: unique_def)

end
