(* ===== verification/Domain_Types.thy ===== *)
theory Domain_Types
  imports Prelude
begin

text \<open>
  The persisted data of \<^verbatim>\<open>src/shared/types.ts\<close> that the modelled components read:
  accounts, providers, pools, routes and request logs. Every optional property is an
  \<^typ>\<open>'a option\<close>, every string union a datatype. Display-only properties (labels, colours,
  masked credentials, proxy bindings) are left out: no modelled function reads them.
\<close>

section \<open>Protocols, provider kinds and statuses\<close>

datatype protocol = Anthropic_Messages | Openai_Responses | Openai_Chat | Gemini | Kiro_Claude

datatype pool_protocol = Wire protocol | Grok | Chatgpt_Web_Wm

definition supportsFastServiceTier :: "protocol \<Rightarrow> bool" where
  "supportsFastServiceTier p \<longleftrightarrow> p = Openai_Responses \<or> p = Openai_Chat"

definition supportsPoolFastServiceTier :: "pool_protocol \<Rightarrow> bool" where
  "supportsPoolFastServiceTier p \<longleftrightarrow> p = Wire Openai_Responses \<or> p = Wire Openai_Chat"

datatype provider_kind =
    K_anthropic
  | K_openai
  | K_deepseek
  | K_xai
  | K_google
  | K_openai_compatible
  | K_deepseek_compatible
  | K_xai_compatible
  | K_anthropic_compatible
  | K_kiro_compatible
  | K_custom

datatype source_type = Oauth_System | Official_Api | Relay

datatype account_status = Active | Cooldown | Disabled | Expired | Checking
datatype circuit_state = Closed | Open | Half_Open
datatype model_policy = All_Models | Selected_Models

datatype route_client = Claude | Codex | Gemini_Cli | Grokbuild | Deepseek_Harness

fun clientNativeProtocols :: "route_client \<Rightarrow> protocol" where
  "clientNativeProtocols Claude = Anthropic_Messages"
| "clientNativeProtocols Codex = Openai_Responses"
| "clientNativeProtocols Gemini_Cli = Gemini"
| "clientNativeProtocols Grokbuild = Openai_Responses"
| "clientNativeProtocols Deepseek_Harness = Openai_Responses"

section \<open>Capabilities and providers\<close>

datatype responses_compact_mode = Compact_Auto | Compact_Legacy | Compact_Passthrough | Compact_Native

datatype capability =
    Cap_streaming
  | Cap_nonStreaming
  | Cap_toolCalls
  | Cap_modelDiscovery
  | Cap_imageInput
  | Cap_imageGeneration
  | Cap_imageEdit
  | Cap_videoGeneration
  | Cap_videoEdit
  | Cap_live
  | Cap_webSearch
  | Cap_compact
  | Cap_websocket
  | Cap_promptCaching
  | Cap_reasoning
  | Cap_store
  | Cap_previousResponseId
  | Cap_parallelToolCalls

text \<open>
  The optional flags of a capability profile: \<^const>\<open>None\<close> is an absent flag. An object
  spread \<^verbatim>\<open>{...a, ...b}\<close> of two such objects is \<open>a ++ b\<close>.
\<close>

type_synonym capability_flags = "capability \<rightharpoonup> bool"

datatype profile_origin = Declared | Probed | Inferred

record capability_profile =
  prof_version :: nat
  prof_origin :: profile_origin
  prof_checkedAt :: "real option"
  prof_flags :: capability_flags

record model_definition =
  mdl_id :: string
  mdl_displayName :: "string option"
  mdl_contextWindow :: "real option"
  mdl_maxOutputTokens :: "real option"
  mdl_capabilities :: "capability_flags option"
  mdl_discoveredAt :: "real option"

record provider =
  prov_id :: string
  prov_name :: string
  prov_sourceType :: source_type
  prov_kind :: provider_kind
  prov_baseUrl :: string
  prov_protocol :: protocol
  prov_models :: "string list"
  prov_forceFastMode :: "bool option"
  prov_responsesCompactMode :: "responses_compact_mode option"
  prov_capabilityProfile :: "capability_profile option"
  prov_toolRoundtripVerified :: "bool option"
  prov_modelCatalog :: "model_definition list option"
  prov_createdAt :: real
  prov_updatedAt :: real

section \<open>Quota snapshots and policies\<close>

record quota_window =
  win_limit :: "real option"
  win_remaining :: "real option"
  win_resetAt :: "real option"

record account_quota =
  quota_requests :: "quota_window option"
  quota_tokens :: "quota_window option"
  quota_inputTokens :: "quota_window option"
  quota_outputTokens :: "quota_window option"
  quota_observedAt :: js_number

record grok_quota =
  grok_remainingPercent :: "real option"
  grok_limit :: "real option"
  grok_remaining :: "real option"
  grok_resetAt :: "real option"
  grok_observedAt :: real

record codex_window =
  cwin_usedPercent :: real
  cwin_resetAt :: "real option"

record codex_quota =
  codex_fiveHour :: "codex_window option"
  codex_sevenDay :: "codex_window option"
  codex_monthly :: "codex_window option"
  codex_observedAt :: real

datatype unavailable_behavior = Allow_Unavailable | Block_Unavailable

record quota_protection =
  qp_fiveHourRemainingPercent :: "js_number option"
  qp_sevenDayRemainingPercent :: "js_number option"
  qp_unavailableBehavior :: "unavailable_behavior option"
  qp_staleAfterMinutes :: "js_number option"

section \<open>Accounts\<close>

datatype credential_type = Api_Key | Chatgpt_Oauth | Chatgpt_Agent_Identity | Grok_Oauth

datatype cooldown_reason = Quota_Reason | Failure_Reason

datatype model_cooldown_reason = Not_Found | Permission | Plan_Restricted | Rate_Limit

record model_cooldown =
  mc_until :: real
  mc_reason :: model_cooldown_reason
  mc_statusCode :: "real option"
  mc_updatedAt :: real

text \<open>
  A persisted model cooldown before \<^verbatim>\<open>validModelCooldown\<close> has looked at it: a number that
  is missing, of another type or not finite is \<^const>\<open>NonFinite\<close>; the reason is any string.
\<close>

record raw_model_cooldown =
  raw_until :: js_number
  raw_reason :: string
  raw_statusCode :: "js_number option"
  raw_updatedAt :: js_number

record web_wm_capability =
  wm_version :: nat
  wm_protocolRevision :: string
  wm_model :: string
  wm_catalogModel :: string
  wm_turnModel :: string
  wm_workspacePlanType :: string
  wm_workspaceStructure :: string
  wm_verifiedAt :: js_number
  wm_latencyMs :: js_number

record account =
  acc_id :: string
  acc_providerId :: string
  acc_credentialType :: "credential_type option"
  acc_status :: account_status
  acc_priority :: real
  acc_weight :: real
  acc_maxConcurrency :: js_number
  acc_inFlight :: real
  acc_availableModels :: "string list"
  acc_modelsRefreshedAt :: "real option"
  acc_modelPolicy :: model_policy
  acc_modelAllowlist :: "string list"
  acc_chatgptWebWm :: "web_wm_capability option"
  acc_quota :: "account_quota option"
  acc_codexQuota :: "codex_quota option"
  acc_grokQuota :: "grok_quota option"
  acc_quotaProtection :: "quota_protection option"
  acc_cooldownUntil :: "real option"
  acc_cooldownReason :: "cooldown_reason option"
  acc_circuitState :: "circuit_state option"
  acc_consecutiveFailures :: "nat option"
  acc_modelCooldowns :: "(string, raw_model_cooldown option) js_map"
  acc_updatedAt :: real

section \<open>Pools, routes and logs\<close>

record pool_member =
  mem_accountId :: string
  mem_enabled :: bool
  mem_weight :: "js_number option"
  mem_order :: "js_number option"

datatype pool_kind = Standard | Relay_Aggregate

text \<open>The last constructor is any other value a corrupted or imported record may hold.\<close>

datatype pool_strategy =
    Balanced
  | Autobalanced
  | Priority
  | Round_Robin
  | Weighted_Random
  | Weighted_Round_Robin
  | Other_Strategy string

record pool =
  pool_id :: string
  pool_name :: string
  pool_kind :: pool_kind
  pool_protocol :: pool_protocol
  pool_strategy :: pool_strategy
  pool_members :: "pool_member list"
  pool_modelPolicy :: model_policy
  pool_modelAllowlist :: "string list"
  pool_stickySessions :: bool
  pool_stickyTtlMinutes :: js_number
  pool_maxRetries :: nat
  pool_forceFastMode :: bool
  pool_quotaProtection :: "quota_protection option"
  pool_createdAt :: real
  pool_updatedAt :: real

text \<open>
  A route's model maps hold \<^verbatim>\<open>unknown\<close> values in the functions that validate them:
  \<^const>\<open>None\<close> stands for a value that is not a string.
\<close>

type_synonym unknown_map = "(string, string option) js_map"

record route =
  route_id :: string
  route_client :: route_client
  route_enabled :: bool
  route_poolId :: string
  route_inboundProtocol :: protocol
  route_modelMap :: unknown_map
  route_modelSourceMap :: "unknown_map option"

datatype log_status = Log_Success | Log_Error | Log_Streaming

record request_log =
  log_accountId :: "string option"
  log_timestamp :: real
  log_status :: log_status
  log_latencyMs :: real
  log_upstreamFirstByteMs :: "real option"
  log_accountFirstTokenMs :: "real option"
  log_firstTokenMs :: "real option"
  log_outputTokens :: "real option"

end
