(* ===== verification/Expiry_Heap.thy ===== *)
theory Expiry_Heap
  imports Domain_Types
begin

text \<open>
  The binary min-heap of expiry times in \<^verbatim>\<open>src/main/gateway/scheduler.ts\<close>
  (\<^verbatim>\<open>pushExpiry\<close>, \<^verbatim>\<open>popExpiry\<close>, \<^verbatim>\<open>compactExpiryHeap\<close>): an array whose sift loops move a
  hole instead of swapping. The theory shows that both operations keep the heap order,
  that they add and remove exactly one entry, and that the entry removed is a least one;
  the locale \<open>expiry_queue\<close> is the contract the cleanup loops of the sticky cache use.
\<close>

record expiry_entry =
  ex_key :: string
  ex_expiresAt :: real

type_synonym expiry_heap = "expiry_entry list"

section \<open>Operations\<close>

text \<open>The hole at \<open>i\<close> moves towards the root until the entry fits.\<close>

fun sift_up :: "expiry_heap \<Rightarrow> nat \<Rightarrow> expiry_entry \<Rightarrow> expiry_heap" where
  "sift_up heap i entry =
     (if i = 0 then heap[i := entry]
      else let parent = (i - 1) div 2
           in if ex_expiresAt (heap ! parent) \<le> ex_expiresAt entry then heap[i := entry]
              else sift_up (heap[i := heap ! parent]) parent entry)"

declare sift_up.simps [simp del]

definition pushExpiry :: "expiry_heap \<Rightarrow> expiry_entry \<Rightarrow> expiry_heap" where
  "pushExpiry heap entry = sift_up (heap @ [entry]) (length heap) entry"

text \<open>The hole at \<open>i\<close> moves towards the leaves, always to the smaller child.\<close>

function sift_down :: "expiry_heap \<Rightarrow> nat \<Rightarrow> expiry_entry \<Rightarrow> expiry_heap" where
  "sift_down heap i lst =
     (let left = i * 2 + 1
      in if left \<ge> length heap then heap[i := lst]
         else
           let right = left + 1;
               child = (if right < length heap
                          \<and> ex_expiresAt (heap ! right) < ex_expiresAt (heap ! left)
                        then right else left)
           in if ex_expiresAt (heap ! child) \<ge> ex_expiresAt lst then heap[i := lst]
              else sift_down (heap[i := heap ! child]) child lst)"
  by pat_completeness auto
termination
  by (relation "measure (\<lambda>(heap, i, lst). length heap - i)") (auto simp: Let_def split: if_splits)

declare sift_down.simps [simp del]

definition popExpiry :: "expiry_heap \<Rightarrow> expiry_entry option \<times> expiry_heap" where
  "popExpiry heap =
     (case heap of
        [] \<Rightarrow> (None, [])
      | first # _ \<Rightarrow>
          let rest = butlast heap
          in if rest = [] then (Some first, rest)
             else (Some first, sift_down rest 0 (last heap)))"

text \<open>\<open>current\<close> is the live map as its keys and expiry times, in iteration order.\<close>

definition compactExpiryHeap :: "expiry_heap \<Rightarrow> (string \<times> real) list \<Rightarrow> expiry_heap" where
  "compactExpiryHeap heap current =
     (if length heap \<le> length current * 4 + 64 then heap
      else foldl (\<lambda>h (key, expiresAt). pushExpiry h \<lparr>ex_key = key, ex_expiresAt = expiresAt\<rparr>)
             [] current)"

section \<open>Heap order\<close>

definition parent_of :: "nat \<Rightarrow> nat" where
  "parent_of j = (j - 1) div 2"

definition is_heap :: "expiry_heap \<Rightarrow> bool" where
  "is_heap h \<longleftrightarrow>
     (\<forall>j. 0 < j \<and> j < length h \<longrightarrow> ex_expiresAt (h ! parent_of j) \<le> ex_expiresAt (h ! j))"

text \<open>
  The order everywhere except at the hole \<open>i\<close>: no pair that involves the hole is
  constrained, but the hole's parent is below the hole's children.
\<close>

definition heap_but :: "expiry_heap \<Rightarrow> nat \<Rightarrow> bool" where
  "heap_but h i \<longleftrightarrow>
     (\<forall>j. 0 < j \<and> j < length h \<and> j \<noteq> i \<and> parent_of j \<noteq> i \<longrightarrow>
        ex_expiresAt (h ! parent_of j) \<le> ex_expiresAt (h ! j))
   \<and> (\<forall>j. 0 < j \<and> j < length h \<and> parent_of j = i \<and> 0 < i \<longrightarrow>
        ex_expiresAt (h ! parent_of i) \<le> ex_expiresAt (h ! j))"

lemma parent_of_less: "0 < j \<Longrightarrow> parent_of j < j"
  by (simp add: parent_of_def)

lemma parent_of_child: "0 < j \<Longrightarrow> parent_of j = i \<longleftrightarrow> j = 2 * i + 1 \<or> j = 2 * i + 2"
  by (cases j) (auto simp: parent_of_def)

lemma heap_butD:
  "heap_but h i \<Longrightarrow> 0 < j \<Longrightarrow> j < length h \<Longrightarrow> j \<noteq> i \<Longrightarrow> parent_of j \<noteq> i \<Longrightarrow>
     ex_expiresAt (h ! parent_of j) \<le> ex_expiresAt (h ! j)"
  by (simp add: heap_but_def)

lemma heap_but_childD:
  "heap_but h i \<Longrightarrow> 0 < j \<Longrightarrow> j < length h \<Longrightarrow> parent_of j = i \<Longrightarrow> 0 < i \<Longrightarrow>
     ex_expiresAt (h ! parent_of i) \<le> ex_expiresAt (h ! j)"
  by (simp add: heap_but_def)

lemma is_heap_root_le:
  assumes "is_heap h" and "j < length h"
  shows "ex_expiresAt (h ! 0) \<le> ex_expiresAt (h ! j)"
  using assms(2)
proof (induction j rule: less_induct)
  case (less j)
  show ?case
  proof (cases "j = 0")
    case True
    then show ?thesis by simp
  next
    case False
    then have "parent_of j < j" by (simp add: parent_of_less)
    with less have "ex_expiresAt (h ! 0) \<le> ex_expiresAt (h ! parent_of j)" by simp
    also have "\<dots> \<le> ex_expiresAt (h ! j)"
      using assms(1) False less.prems by (simp add: is_heap_def)
    finally show ?thesis .
  qed
qed

text \<open>Placing an entry in the hole restores the order if it fits between its neighbours.\<close>

lemma heap_but_fill:
  assumes hole: "heap_but h i" and i: "i < length h"
    and up: "0 < i \<Longrightarrow> ex_expiresAt (h ! parent_of i) \<le> ex_expiresAt e"
    and down: "\<And>j. 0 < j \<Longrightarrow> j < length h \<Longrightarrow> parent_of j = i \<Longrightarrow> ex_expiresAt e \<le> ex_expiresAt (h ! j)"
  shows "is_heap (h[i := e])"
  unfolding is_heap_def
proof (intro allI impI, elim conjE)
  fix j
  assume j: "0 < j" "j < length (h[i := e])"
  have less: "parent_of j < j" using j by (simp add: parent_of_less)
  consider "j = i" | "parent_of j = i" "j \<noteq> i" | "parent_of j \<noteq> i" "j \<noteq> i" by blast
  then show "ex_expiresAt (h[i := e] ! parent_of j) \<le> ex_expiresAt (h[i := e] ! j)"
    by cases (use j i less up down hole heap_butD in \<open>auto simp: nth_list_update\<close>)
qed

text \<open>Moving the parent down into the hole moves the hole to the parent.\<close>

lemma heap_but_up:
  assumes hole: "heap_but h i" and i: "0 < i" "i < length h"
  shows "heap_but (h[i := h ! parent_of i]) (parent_of i)"
proof -
  let ?p = "parent_of i" and ?h = "h[i := h ! parent_of i]"
  have p: "?p < i" using i by (simp add: parent_of_less)
  have sib: "ex_expiresAt (h ! ?p) \<le> ex_expiresAt (h ! j)"
    if "0 < j" "j < length h" "parent_of j = ?p" "j \<noteq> i" for j
    using heap_butD [OF hole that(1,2)] that p by simp
  have top: "ex_expiresAt (h ! parent_of ?p) \<le> ex_expiresAt (h ! ?p)" if "0 < ?p"
    using heap_butD [OF hole that] p i parent_of_less [OF that] by simp
  show ?thesis
    unfolding heap_but_def
  proof (intro conjI allI impI; elim conjE)
    fix j
    assume j: "0 < j" "j < length ?h" "j \<noteq> ?p" "parent_of j \<noteq> ?p"
    then have "j \<noteq> i" by auto
    then show "ex_expiresAt (?h ! parent_of j) \<le> ex_expiresAt (?h ! j)"
      using j i heap_butD [OF hole, of j] heap_but_childD [OF hole, of j]
      by (cases "parent_of j = i") (auto simp: nth_list_update)
  next
    fix j
    assume j: "0 < j" "j < length ?h" "parent_of j = ?p" "0 < ?p"
    have "parent_of ?p \<noteq> i" using parent_of_less [OF j(4)] p by simp
    then show "ex_expiresAt (?h ! parent_of ?p) \<le> ex_expiresAt (?h ! j)"
      using top [OF j(4)] sib [of j] j i p by (cases "j = i") auto
  qed
qed

text \<open>Moving the smaller child up into the hole moves the hole to that child.\<close>

lemma heap_but_down:
  assumes hole: "heap_but h i" and c: "0 < c" "c < length h" "parent_of c = i"
    and least: "\<And>j. 0 < j \<Longrightarrow> j < length h \<Longrightarrow> parent_of j = i \<Longrightarrow> ex_expiresAt (h ! c) \<le> ex_expiresAt (h ! j)"
  shows "heap_but (h[i := h ! c]) c"
proof -
  let ?h = "h[i := h ! c]"
  have ic: "i < c" using c parent_of_less by blast
  show ?thesis
    unfolding heap_but_def
  proof (intro conjI allI impI; elim conjE)
    fix j
    assume j: "0 < j" "j < length ?h" "j \<noteq> c" "parent_of j \<noteq> c"
    have less: "parent_of j < j" using j by (simp add: parent_of_less)
    consider "j = i" | "parent_of j = i" "j \<noteq> i" | "parent_of j \<noteq> i" "j \<noteq> i" by blast
    then show "ex_expiresAt (?h ! parent_of j) \<le> ex_expiresAt (?h ! j)"
    proof cases
      case 1
      then show ?thesis
        using j c ic less heap_but_childD [OF hole c(1,2,3)] by auto
    next
      case 2
      then show ?thesis using j c ic least by auto
    next
      case 3
      then show ?thesis using j heap_butD [OF hole, of j] by auto
    qed
  next
    fix j
    assume j: "0 < j" "j < length ?h" "parent_of j = c" "0 < c"
    then have "c < j" using parent_of_less by blast
    then show "ex_expiresAt (?h ! parent_of c) \<le> ex_expiresAt (?h ! j)"
      using j c ic heap_butD [OF hole, of j] by auto
  qed
qed

section \<open>Pushing\<close>

lemma length_sift_up [simp]: "length (sift_up h i e) = length h"
  by (induction h i e rule: sift_up.induct) (subst sift_up.simps, simp add: Let_def)

lemma mset_hole_move:
  assumes "i < length h" and "j < length h" and "i \<noteq> j"
  shows "mset ((h[i := h ! j])[j := e]) = mset (h[i := e])"
proof -
  have "mset ((h[i := e])[i := (h[i := e]) ! j, j := (h[i := e]) ! i]) = mset (h[i := e])"
    using assms by (intro mset_swap) auto
  with assms show ?thesis by simp
qed

lemma mset_sift_up: "i < length h \<Longrightarrow> mset (sift_up h i e) = mset (h[i := e])"
proof (induction h i e rule: sift_up.induct)
  case (1 h i e)
  show ?case
  proof (cases "i = 0 \<or> ex_expiresAt (h ! ((i - 1) div 2)) \<le> ex_expiresAt e")
    case True
    then show ?thesis by (subst sift_up.simps) (auto simp: Let_def)
  next
    case False
    let ?p = "(i - 1) div 2"
    from False have p: "?p < i" by linarith
    with False have "mset (sift_up h i e) = mset (sift_up (h[i := h ! ?p]) ?p e)"
      by (subst sift_up.simps) (simp add: Let_def)
    also have "\<dots> = mset ((h[i := h ! ?p])[?p := e])"
      using "1.IH" "1.prems" False p by simp
    finally show ?thesis
      using mset_hole_move [of i h ?p e] "1.prems" p by simp
  qed
qed

lemma is_heap_sift_up:
  assumes "i < length h" and "heap_but h i"
    and "\<And>j. 0 < j \<Longrightarrow> j < length h \<Longrightarrow> parent_of j = i \<Longrightarrow> ex_expiresAt e \<le> ex_expiresAt (h ! j)"
  shows "is_heap (sift_up h i e)"
  using assms
proof (induction h i e rule: sift_up.induct)
  case (1 h i e)
  let ?p = "parent_of i"
  show ?case
  proof (cases "i = 0 \<or> ex_expiresAt (h ! ?p) \<le> ex_expiresAt e")
    case True
    then have "sift_up h i e = h[i := e]"
      by (subst sift_up.simps) (auto simp: Let_def parent_of_def)
    moreover have "is_heap (h[i := e])"
      using True "1.prems" by (intro heap_but_fill) auto
    ultimately show ?thesis by simp
  next
    case False
    then have i: "0 < i" and gt: "ex_expiresAt e < ex_expiresAt (h ! ?p)" by auto
    have p: "?p < i" using i by (rule parent_of_less)
    let ?h = "h[i := h ! ?p]"
    have "is_heap (sift_up ?h ?p e)"
      unfolding parent_of_def
    proof (rule "1.IH" [OF _ refl])
      show "i \<noteq> 0" "\<not> ex_expiresAt (h ! ((i - 1) div 2)) \<le> ex_expiresAt e"
        using False by (auto simp: parent_of_def)
      show "(i - 1) div 2 < length (h[i := h ! ((i - 1) div 2)])"
        using p "1.prems"(1) by (simp add: parent_of_def)
      show "heap_but (h[i := h ! ((i - 1) div 2)]) ((i - 1) div 2)"
        using heap_but_up [OF "1.prems"(2) i "1.prems"(1)] by (simp add: parent_of_def)
      fix j
      assume j: "0 < j" "j < length (h[i := h ! ((i - 1) div 2)])" "parent_of j = (i - 1) div 2"
      then have "parent_of j = ?p" by (simp add: parent_of_def)
      then have "ex_expiresAt (h ! ?p) \<le> ex_expiresAt (h ! j)" if "j \<noteq> i"
        using heap_butD [OF "1.prems"(2) j(1)] j(2) that p by simp
      with gt show "ex_expiresAt e \<le> ex_expiresAt (h[i := h ! ((i - 1) div 2)] ! j)"
        using j(2) by (cases "j = i") (auto simp: parent_of_def)
    qed
    moreover have "sift_up h i e = sift_up ?h ?p e"
      using False by (subst sift_up.simps) (auto simp: Let_def parent_of_def)
    ultimately show ?thesis by simp
  qed
qed

lemma length_pushExpiry [simp]: "length (pushExpiry h e) = Suc (length h)"
  by (simp add: pushExpiry_def)

lemma mset_pushExpiry: "mset (pushExpiry h e) = add_mset e (mset h)"
  by (simp add: pushExpiry_def mset_sift_up)

lemma set_pushExpiry [simp]: "set (pushExpiry h e) = insert e (set h)"
  by (metis mset_pushExpiry set_mset_add_mset_insert set_mset_mset)

lemma is_heap_pushExpiry:
  assumes "is_heap h"
  shows "is_heap (pushExpiry h e)"
proof -
  have par: "parent_of j \<noteq> length h" if "0 < j" "j < Suc (length h)" for j
    using parent_of_less [OF that(1)] that(2) by linarith
  have "heap_but (h @ [e]) (length h)"
    unfolding heap_but_def
  proof (intro conjI allI impI; elim conjE)
    fix j
    assume "0 < j" "j < length (h @ [e])" "j \<noteq> length h" "parent_of j \<noteq> length h"
    then show "ex_expiresAt ((h @ [e]) ! parent_of j) \<le> ex_expiresAt ((h @ [e]) ! j)"
      using assms parent_of_less [of j] by (auto simp: is_heap_def nth_append)
  qed (use par in auto)
  with par show ?thesis
    unfolding pushExpiry_def by (intro is_heap_sift_up) auto
qed

section \<open>Popping\<close>

lemma length_sift_down [simp]: "length (sift_down h i e) = length h"
  by (induction h i e rule: sift_down.induct) (subst sift_down.simps, simp add: Let_def)

lemma mset_sift_down: "i < length h \<Longrightarrow> mset (sift_down h i e) = mset (h[i := e])"
proof (induction h i e rule: sift_down.induct)
  case (1 h i e)
  let ?l = "i * 2 + 1"
  let ?c = "if ?l + 1 < length h \<and> ex_expiresAt (h ! (?l + 1)) < ex_expiresAt (h ! ?l) then ?l + 1 else ?l"
  show ?case
  proof (cases "?l \<ge> length h \<or> ex_expiresAt (h ! ?c) \<ge> ex_expiresAt e")
    case True
    then show ?thesis by (subst sift_down.simps) (auto simp: Let_def)
  next
    case False
    then have c: "?c < length h" "i < ?c" by auto
    have "sift_down h i e = sift_down (h[i := h ! ?c]) ?c e"
      using False by (subst sift_down.simps) (auto simp: Let_def)
    moreover have "mset (sift_down (h[i := h ! ?c]) ?c e) = mset ((h[i := h ! ?c])[?c := e])"
      using False c by (intro "1.IH" [OF refl _ refl refl]) auto
    ultimately show ?thesis
      using mset_hole_move [of i h ?c e] "1.prems" c by simp
  qed
qed

lemma is_heap_sift_down:
  assumes "i < length h" and "heap_but h i"
    and "0 < i \<Longrightarrow> ex_expiresAt (h ! parent_of i) \<le> ex_expiresAt e"
  shows "is_heap (sift_down h i e)"
  using assms
proof (induction h i e rule: sift_down.induct)
  case (1 h i e)
  let ?l = "i * 2 + 1"
  let ?c = "if ?l + 1 < length h \<and> ex_expiresAt (h ! (?l + 1)) < ex_expiresAt (h ! ?l) then ?l + 1 else ?l"
  have least: "ex_expiresAt (h ! ?c) \<le> ex_expiresAt (h ! j)"
    if "0 < j" "j < length h" "parent_of j = i" for j
    using that(2) iffD1 [OF parent_of_child [OF that(1)] that(3)] by (auto simp: mult.commute)
  show ?case
  proof (cases "?l \<ge> length h \<or> ex_expiresAt (h ! ?c) \<ge> ex_expiresAt e")
    case True
    have "ex_expiresAt e \<le> ex_expiresAt (h ! j)" if j: "0 < j" "j < length h" "parent_of j = i" for j
      using True least [OF j] iffD1 [OF parent_of_child [OF j(1)] j(3)] j(2) by auto
    then have "is_heap (h[i := e])"
      using "1.prems" by (intro heap_but_fill)
    moreover have "sift_down h i e = h[i := e]"
      using True by (subst sift_down.simps) (auto simp: Let_def)
    ultimately show ?thesis by simp
  next
    case False
    then have c: "0 < ?c" "?c < length h" "parent_of ?c = i" "i < ?c"
      by (auto simp: parent_of_def)
    have "is_heap (sift_down (h[i := h ! ?c]) ?c e)"
    proof (rule "1.IH" [OF refl _ refl refl])
      show "\<not> length h \<le> ?l" "\<not> ex_expiresAt e \<le> ex_expiresAt (h ! ?c)"
        using False by auto
      show "?c < length (h[i := h ! ?c])" using c by simp
      show "heap_but (h[i := h ! ?c]) ?c"
        using c least "1.prems"(2) by (intro heap_but_down) auto
      show "ex_expiresAt (h[i := h ! ?c] ! parent_of ?c) \<le> ex_expiresAt e"
        using False c "1.prems"(1) by (auto simp del: nth_list_update_eq split del: if_split)
          (simp add: c)
    qed
    moreover have "sift_down h i e = sift_down (h[i := h ! ?c]) ?c e"
      using False by (subst sift_down.simps) (auto simp: Let_def)
    ultimately show ?thesis by simp
  qed
qed

lemma popExpiry_Nil [simp]: "popExpiry [] = (None, [])"
  by (simp add: popExpiry_def)

lemma popExpiry_Cons:
  "popExpiry (e # h) =
     (Some e, if h = [] then [] else sift_down (butlast (e # h)) 0 (last h))"
  by (auto simp: popExpiry_def Let_def)

lemma mset_butlast_fill:
  assumes "h \<noteq> []"
  shows "mset ((butlast (e # h))[0 := last h]) = mset h"
proof -
  have "mset h = mset (butlast h @ [last h])" using assms by simp
  with assms show ?thesis by (simp del: append_butlast_last_id)
qed

lemma mset_popExpiry:
  assumes "popExpiry h = (Some e, h')"
  shows "mset h = add_mset e (mset h')"
proof (cases h)
  case Nil
  with assms show ?thesis by simp
next
  case (Cons x xs)
  show ?thesis
  proof (cases "xs = []")
    case True
    with assms Cons show ?thesis by (simp add: popExpiry_Cons)
  next
    case False
    then have "mset (sift_down (butlast (x # xs)) 0 (last xs)) = mset xs"
      using mset_butlast_fill [of xs x] by (simp add: mset_sift_down)
    moreover have "e = x" and "h' = sift_down (butlast (x # xs)) 0 (last xs)"
      using assms Cons False by (auto simp: popExpiry_Cons)
    ultimately show ?thesis using Cons by simp
  qed
qed

lemma length_popExpiry: "popExpiry h = (Some e, h') \<Longrightarrow> length h = Suc (length h')"
  using mset_popExpiry by (metis size_add_mset size_mset)

lemma set_popExpiry: "popExpiry h = (Some e, h') \<Longrightarrow> set h = insert e (set h')"
  using mset_popExpiry by (metis set_mset_add_mset_insert set_mset_mset)

lemma is_heap_popExpiry:
  assumes "is_heap h" and "popExpiry h = (Some e, h')"
  shows "is_heap h'"
proof (cases h)
  case Nil
  with assms show ?thesis by simp
next
  case (Cons x xs)
  show ?thesis
  proof (cases "xs = []")
    case True
    with assms Cons show ?thesis by (auto simp: popExpiry_Cons is_heap_def)
  next
    case False
    let ?b = "butlast (x # xs)"
    have len: "length ?b = length xs" by (simp del: butlast.simps)
    have "heap_but ?b 0"
      unfolding heap_but_def
    proof (intro conjI allI impI; elim conjE)
      fix j
      assume "0 < j" "j < length ?b" "j \<noteq> 0" "parent_of j \<noteq> 0"
      moreover from this have "parent_of j < length ?b" and "j < length h"
        using Cons len parent_of_less [of j] by (auto simp del: butlast.simps)
      moreover have "?b ! k = h ! k" if "k < length ?b" for k
        using nth_butlast [OF that] Cons by simp
      ultimately show "ex_expiresAt (?b ! parent_of j) \<le> ex_expiresAt (?b ! j)"
        using assms(1) by (simp add: is_heap_def del: butlast.simps)
    qed simp
    then have "is_heap (sift_down ?b 0 (last xs))"
      using False by (intro is_heap_sift_down) auto
    moreover have "h' = sift_down ?b 0 (last xs)"
      using assms Cons False by (auto simp: popExpiry_Cons)
    ultimately show ?thesis by simp
  qed
qed

lemma popExpiry_least:
  assumes "is_heap h" and "popExpiry h = (Some e, h')" and "x \<in> set h"
  shows "ex_expiresAt e \<le> ex_expiresAt x"
proof -
  from assms(3) obtain j where "j < length h" "h ! j = x" by (auto simp: in_set_conv_nth)
  moreover have "h ! 0 = e"
    using assms(2) by (cases h) (auto simp: popExpiry_Cons)
  ultimately show ?thesis using is_heap_root_le [OF assms(1)] by metis
qed

section \<open>Compaction\<close>

lemma foldl_pushExpiry:
  "is_heap h \<Longrightarrow>
     is_heap (foldl (\<lambda>h (key, t). pushExpiry h \<lparr>ex_key = key, ex_expiresAt = t\<rparr>) h xs)
     \<and> mset (foldl (\<lambda>h (key, t). pushExpiry h \<lparr>ex_key = key, ex_expiresAt = t\<rparr>) h xs)
         = mset h + mset (map (\<lambda>(key, t). \<lparr>ex_key = key, ex_expiresAt = t\<rparr>) xs)"
proof (induction xs arbitrary: h)
  case Nil
  then show ?case by simp
next
  case (Cons x xs)
  obtain key t where x: "x = (key, t)" by (cases x)
  have "is_heap (pushExpiry h \<lparr>ex_key = key, ex_expiresAt = t\<rparr>)"
    using Cons.prems by (rule is_heap_pushExpiry)
  from Cons.IH [OF this] x show ?case by (simp add: mset_pushExpiry)
qed

lemma is_heap_Nil [simp]: "is_heap []"
  by (simp add: is_heap_def)

lemma is_heap_compact: "is_heap h \<Longrightarrow> is_heap (compactExpiryHeap h cur)"
  using foldl_pushExpiry [of "[]" cur] by (simp add: compactExpiryHeap_def)

lemma set_foldl_pushExpiry_Nil:
  "set (foldl (\<lambda>h (key, t). pushExpiry h \<lparr>ex_key = key, ex_expiresAt = t\<rparr>) [] xs)
     = (\<lambda>(key, t). \<lparr>ex_key = key, ex_expiresAt = t\<rparr>) ` set xs"
  using foldl_pushExpiry [of "[]" xs]
  by (metis (no_types, lifting) add_0 is_heap_Nil list.set_map mset.simps(1) set_mset_mset)

text \<open>No live entry is lost: every key of the map that had a node still has one.\<close>

lemma compact_keeps_live:
  assumes "(k, t) \<in> set cur" and "\<lparr>ex_key = k, ex_expiresAt = t\<rparr> \<in> set h"
  shows "\<lparr>ex_key = k, ex_expiresAt = t\<rparr> \<in> set (compactExpiryHeap h cur)"
  using assms set_foldl_pushExpiry_Nil [of cur]
  by (auto simp: compactExpiryHeap_def intro: rev_image_eqI)

text \<open>The memory bound the compaction is for.\<close>

lemma length_compactExpiryHeap: "length (compactExpiryHeap h cur) \<le> length cur * 4 + 64"
proof (cases "length h \<le> length cur * 4 + 64")
  case True
  then show ?thesis by (simp add: compactExpiryHeap_def)
next
  case False
  have "size (mset (foldl (\<lambda>h (key, t). pushExpiry h \<lparr>ex_key = key, ex_expiresAt = t\<rparr>) [] cur)) = length cur"
    using foldl_pushExpiry [of "[]" cur] by simp
  with False show ?thesis by (simp add: compactExpiryHeap_def)
qed

section \<open>The queue contract\<close>

text \<open>
  What a cleanup loop relies on: a push adds one entry, a pop of a non-empty queue removes
  a least one. Popping while the least entry is due removes exactly the due entries.
\<close>

locale expiry_queue =
  fixes push :: "'q \<Rightarrow> 'e \<Rightarrow> 'q"
    and pop :: "'q \<Rightarrow> 'e option \<times> 'q"
    and entries :: "'q \<Rightarrow> 'e multiset"
    and due :: "'e \<Rightarrow> real"
    and invar :: "'q \<Rightarrow> bool"
  assumes push_entries: "entries (push q e) = add_mset e (entries q)"
    and push_invar: "invar q \<Longrightarrow> invar (push q e)"
    and pop_entries: "pop q = (Some e, q') \<Longrightarrow> entries q = add_mset e (entries q')"
    and pop_invar: "invar q \<Longrightarrow> pop q = (Some e, q') \<Longrightarrow> invar q'"
    and pop_least: "invar q \<Longrightarrow> pop q = (Some e, q') \<Longrightarrow> x \<in># entries q \<Longrightarrow> due e \<le> due x"
    and pop_None: "fst (pop q) = None \<Longrightarrow> entries q = {#}"
begin

inductive drains :: "real \<Rightarrow> 'q \<Rightarrow> 'e list \<Rightarrow> 'q \<Rightarrow> bool" for now where
  stop: "(\<And>e q'. pop q = (Some e, q') \<Longrightarrow> now < due e) \<Longrightarrow> drains now q [] q"
| step: "pop q = (Some e, q') \<Longrightarrow> due e \<le> now \<Longrightarrow> drains now q' es q'' \<Longrightarrow> drains now q (e # es) q''"

lemma drains_entries: "drains now q es q' \<Longrightarrow> entries q = mset es + entries q'"
  by (induction rule: drains.induct) (simp_all add: pop_entries)

lemma drains_invar: "drains now q es q' \<Longrightarrow> invar q \<Longrightarrow> invar q'"
  by (induction rule: drains.induct) (auto intro: pop_invar)

lemma drains_removed: "drains now q es q' \<Longrightarrow> e \<in> set es \<Longrightarrow> due e \<le> now"
  by (induction rule: drains.induct) auto

lemma drains_left:
  "drains now q es q' \<Longrightarrow> invar q \<Longrightarrow> x \<in># entries q' \<Longrightarrow> now < due x"
proof (induction rule: drains.induct)
  case (stop q)
  then obtain e q' where "pop q = (Some e, q')"
    by (metis empty_not_add_mset multi_member_split option.exhaust pop_None prod.collapse)
  with stop pop_least [of q e q' x] show ?case by fastforce
next
  case (step q e q' es q'')
  then show ?case using pop_invar by blast
qed

text \<open>So a drained queue holds exactly the entries that are not yet due.\<close>

lemma drains_exact:
  assumes "drains now q es q'" and "invar q"
  shows "entries q' = filter_mset (\<lambda>e. now < due e) (entries q)"
proof -
  have "filter_mset (\<lambda>e. now < due e) (mset es) = {#}"
    using drains_removed [OF assms(1)] by (force simp: filter_mset_eq_mempty_iff)
  moreover have "filter_mset (\<lambda>e. now < due e) (entries q') = entries q'"
    using drains_left [OF assms] by (intro filter_mset_eq_conv [THEN iffD2]) auto
  ultimately show ?thesis
    using drains_entries [OF assms(1)] by simp
qed

end

interpretation heap_queue: expiry_queue pushExpiry popExpiry mset ex_expiresAt is_heap
proof (unfold_locales, goal_cases)
  case (1 q e)
  show ?case by (rule mset_pushExpiry)
next
  case (2 q e)
  then show ?case by (rule is_heap_pushExpiry)
next
  case (3 q e q')
  then show ?case by (rule mset_popExpiry)
next
  case (4 q e q')
  then show ?case by (rule is_heap_popExpiry)
next
  case (5 q e q' x)
  then show ?case by (simp add: popExpiry_least)
next
  case (6 q)
  then show ?case by (cases q) (simp_all add: popExpiry_Cons)
qed

end
