(* ===== verification/Sticky_Cache.thy ===== *)
theory Sticky_Cache
  imports Expiry_Heap
begin

text \<open>
  Session affinity in \<^verbatim>\<open>src/main/gateway/scheduler.ts\<close>: the assignments of sessions to
  accounts, the one-shot avoidances after a proven failure, the LRU order that bounds both
  as one cache (globally and per pool), and the two expiry heaps. The fields of
  \<^verbatim>\<open>PoolScheduler\<close> these methods touch are grouped in the record \<open>sticky_cache\<close>; the
  clock value a method reads is its last argument.
\<close>

section \<open>State\<close>

datatype sticky_kind = Assignment | Avoidance

text \<open>\<^verbatim>\<open>StickyAssignment\<close> and \<^verbatim>\<open>StickyFailureAvoidance\<close> have the same three properties.\<close>

record sticky_entry =
  se_poolId :: string
  se_accountId :: string
  se_expiresAt :: real

record sticky_cache =
  sc_sticky :: "(string, sticky_entry) js_map"
  sc_stickyExpiry :: expiry_heap
  sc_stickyKeysByAccount :: "string \<rightharpoonup> string list"
  sc_avoidance :: "(string, sticky_entry) js_map"
  sc_failureExpiry :: expiry_heap
  sc_lru :: "(string, string \<times> sticky_kind) js_map"
  sc_lruByPool :: "string \<rightharpoonup> (string, sticky_kind) js_map"
  sc_maxEntries :: nat
  sc_maxEntriesPerPool :: nat

definition empty_sticky_cache :: "nat \<Rightarrow> nat \<Rightarrow> sticky_cache" where
  "empty_sticky_cache maxEntries maxPerPool =
     \<lparr>sc_sticky = [], sc_stickyExpiry = [], sc_stickyKeysByAccount = Map.empty,
      sc_avoidance = [], sc_failureExpiry = [], sc_lru = [], sc_lruByPool = Map.empty,
      sc_maxEntries = maxEntries, sc_maxEntriesPerPool = maxPerPool\<rparr>"

section \<open>Keys and lifetimes\<close>

definition MAX_STICKY_SESSION_ID_LENGTH :: nat where "MAX_STICKY_SESSION_ID_LENGTH = 256"
definition MAX_STICKY_POOL_ID_LENGTH :: nat where "MAX_STICKY_POOL_ID_LENGTH = 256"
definition MAX_STICKY_TTL_MINUTES :: real where "MAX_STICKY_TTL_MINUTES = 1440"

definition containsControlCharacter :: "string \<Rightarrow> bool" where
  "containsControlCharacter value = list_ex control_char value"

definition boundedStickyKey :: "string \<Rightarrow> string option \<Rightarrow> string option" where
  "boundedStickyKey poolId sessionId =
     (case sessionId of
        None \<Rightarrow> None
      | Some s \<Rightarrow>
          if length s = 0
             \<or> length s > MAX_STICKY_SESSION_ID_LENGTH
             \<or> length poolId = 0
             \<or> length poolId > MAX_STICKY_POOL_ID_LENGTH
             \<or> containsControlCharacter s
             \<or> containsControlCharacter poolId
          then None
          else Some (show_nat (length poolId) @ '':'' @ poolId @ s))"

definition boundedStickyTtlMs :: "js_number \<Rightarrow> real" where
  "boundedStickyTtlMs v =
     (let minutes =
            (case v of
               Finite x \<Rightarrow> max 1 (min MAX_STICKY_TTL_MINUTES (js_floor x))
             | NonFinite \<Rightarrow> 1)
      in minutes * 60000)"

section \<open>Operations\<close>

definition deleteStickyLru :: "string \<Rightarrow> sticky_kind option \<Rightarrow> sticky_cache \<Rightarrow> sticky_cache" where
  "deleteStickyLru key expectedKind c =
     (case map_get (sc_lru c) key of
        None \<Rightarrow> c
      | Some (poolId, kind) \<Rightarrow>
          if expectedKind \<noteq> None \<and> Some kind \<noteq> expectedKind then c
          else c\<lparr>sc_lru := map_delete (sc_lru c) key,
                 sc_lruByPool :=
                   (case sc_lruByPool c poolId of
                      None \<Rightarrow> sc_lruByPool c
                    | Some poolLru \<Rightarrow>
                        let poolLru' = map_delete poolLru key
                        in if poolLru' = [] then (sc_lruByPool c)(poolId := None)
                           else (sc_lruByPool c)(poolId \<mapsto> poolLru'))\<rparr>)"

definition touchStickyLru :: "string \<Rightarrow> string \<Rightarrow> sticky_kind \<Rightarrow> sticky_cache \<Rightarrow> sticky_cache" where
  "touchStickyLru key poolId kind c =
     (let c1 = deleteStickyLru key None c;
          poolLru = (case sc_lruByPool c1 poolId of None \<Rightarrow> [] | Some m \<Rightarrow> m)
      in c1\<lparr>sc_lru := map_set (sc_lru c1) key (poolId, kind),
            sc_lruByPool := (sc_lruByPool c1)(poolId \<mapsto> map_set poolLru key kind)\<rparr>)"

definition deleteSticky :: "string \<Rightarrow> sticky_cache \<Rightarrow> sticky_cache" where
  "deleteSticky key c =
     (case map_get (sc_sticky c) key of
        None \<Rightarrow> c
      | Some assignment \<Rightarrow>
          let c1 = deleteStickyLru key (Some Assignment)
                     (c\<lparr>sc_sticky := map_delete (sc_sticky c) key\<rparr>);
              accountId = se_accountId assignment
          in c1\<lparr>sc_stickyKeysByAccount :=
                  (case sc_stickyKeysByAccount c1 accountId of
                     None \<Rightarrow> sc_stickyKeysByAccount c1
                   | Some keys \<Rightarrow>
                       let keys' = filter (\<lambda>k. k \<noteq> key) keys
                       in if keys' = [] then (sc_stickyKeysByAccount c1)(accountId := None)
                          else (sc_stickyKeysByAccount c1)(accountId \<mapsto> keys'))\<rparr>)"

definition deleteStickyFailureAvoidance :: "string \<Rightarrow> sticky_cache \<Rightarrow> sticky_cache" where
  "deleteStickyFailureAvoidance key c =
     (if map_get (sc_avoidance c) key = None then c
      else deleteStickyLru key (Some Avoidance)
             (c\<lparr>sc_avoidance := map_delete (sc_avoidance c) key\<rparr>))"

fun evictStickyEntry :: "string \<Rightarrow> sticky_kind \<Rightarrow> sticky_cache \<Rightarrow> sticky_cache" where
  "evictStickyEntry key Assignment c = deleteSticky key c"
| "evictStickyEntry key Avoidance c = deleteStickyFailureAvoidance key c"

text \<open>
  The two eviction loops. They run while the cache is at its bound; the fuel is the number
  of LRU entries, and every eviction removes one (\<open>evict_pool_loop_exit\<close>,
  \<open>evict_global_loop_exit\<close> below show that the loops then end by their own condition).
\<close>

fun evict_pool_loop :: "nat \<Rightarrow> string \<Rightarrow> sticky_cache \<Rightarrow> sticky_cache" where
  "evict_pool_loop 0 poolId c = c"
| "evict_pool_loop (Suc fuel) poolId c =
     (let poolLru = (case sc_lruByPool c poolId of None \<Rightarrow> [] | Some m \<Rightarrow> m)
      in if length poolLru \<ge> sc_maxEntriesPerPool c then
           (case poolLru of
              [] \<Rightarrow> c
            | (key, kind) # _ \<Rightarrow> evict_pool_loop fuel poolId (evictStickyEntry key kind c))
         else c)"

fun evict_global_loop :: "nat \<Rightarrow> sticky_cache \<Rightarrow> sticky_cache" where
  "evict_global_loop 0 c = c"
| "evict_global_loop (Suc fuel) c =
     (if length (sc_lru c) \<ge> sc_maxEntries c then
        (case sc_lru c of
           [] \<Rightarrow> c
         | (key, (_, kind)) # _ \<Rightarrow> evict_global_loop fuel (evictStickyEntry key kind c))
      else c)"

definition enforceStickyCapacity :: "string \<Rightarrow> sticky_cache \<Rightarrow> sticky_cache" where
  "enforceStickyCapacity poolId c =
     (let c1 = evict_pool_loop (length (sc_lru c)) poolId c
      in evict_global_loop (length (sc_lru c1)) c1)"

text \<open>What deletions leave alone; the heaps in particular, so the cleanup loops terminate.\<close>

lemma deleteStickyLru_frame [simp, frame_simps]:
  "sc_sticky (deleteStickyLru k x c) = sc_sticky c"
  "sc_stickyExpiry (deleteStickyLru k x c) = sc_stickyExpiry c"
  "sc_stickyKeysByAccount (deleteStickyLru k x c) = sc_stickyKeysByAccount c"
  "sc_avoidance (deleteStickyLru k x c) = sc_avoidance c"
  "sc_failureExpiry (deleteStickyLru k x c) = sc_failureExpiry c"
  "sc_maxEntries (deleteStickyLru k x c) = sc_maxEntries c"
  "sc_maxEntriesPerPool (deleteStickyLru k x c) = sc_maxEntriesPerPool c"
  by (simp_all add: deleteStickyLru_def split: option.splits prod.splits)

lemma deleteSticky_frame [simp, frame_simps]:
  "sc_stickyExpiry (deleteSticky k c) = sc_stickyExpiry c"
  "sc_avoidance (deleteSticky k c) = sc_avoidance c"
  "sc_failureExpiry (deleteSticky k c) = sc_failureExpiry c"
  "sc_maxEntries (deleteSticky k c) = sc_maxEntries c"
  "sc_maxEntriesPerPool (deleteSticky k c) = sc_maxEntriesPerPool c"
  by (simp_all add: deleteSticky_def Let_def split: option.splits)

lemma deleteStickyFailureAvoidance_frame [simp, frame_simps]:
  "sc_sticky (deleteStickyFailureAvoidance k c) = sc_sticky c"
  "sc_stickyExpiry (deleteStickyFailureAvoidance k c) = sc_stickyExpiry c"
  "sc_stickyKeysByAccount (deleteStickyFailureAvoidance k c) = sc_stickyKeysByAccount c"
  "sc_failureExpiry (deleteStickyFailureAvoidance k c) = sc_failureExpiry c"
  "sc_maxEntries (deleteStickyFailureAvoidance k c) = sc_maxEntries c"
  "sc_maxEntriesPerPool (deleteStickyFailureAvoidance k c) = sc_maxEntriesPerPool c"
  by (simp_all add: deleteStickyFailureAvoidance_def)

text \<open>The two lazy-deletion loops of \<^verbatim>\<open>cleanupExpiredSticky\<close>.\<close>

function cleanup_assignments :: "real \<Rightarrow> sticky_cache \<Rightarrow> sticky_cache" where
  "cleanup_assignments now c =
     (case sc_stickyExpiry c of
        [] \<Rightarrow> c
      | e # _ \<Rightarrow>
          if ex_expiresAt e \<le> now then
            (case popExpiry (sc_stickyExpiry c) of
               (None, heap) \<Rightarrow> c\<lparr>sc_stickyExpiry := heap\<rparr>
             | (Some expired, heap) \<Rightarrow>
                 let c1 = c\<lparr>sc_stickyExpiry := heap\<rparr>
                 in cleanup_assignments now
                      (if map_option se_expiresAt (map_get (sc_sticky c1) (ex_key expired))
                            = Some (ex_expiresAt expired)
                       then deleteSticky (ex_key expired) c1 else c1))
          else c)"
  by pat_completeness auto
termination
  by (relation "measure (\<lambda>(now, c). length (sc_stickyExpiry c))")
    (auto simp del: popExpiry_Nil dest: length_popExpiry [OF sym])

declare cleanup_assignments.simps [simp del]

function cleanup_avoidances :: "real \<Rightarrow> sticky_cache \<Rightarrow> sticky_cache" where
  "cleanup_avoidances now c =
     (case sc_failureExpiry c of
        [] \<Rightarrow> c
      | e # _ \<Rightarrow>
          if ex_expiresAt e \<le> now then
            (case popExpiry (sc_failureExpiry c) of
               (None, heap) \<Rightarrow> c\<lparr>sc_failureExpiry := heap\<rparr>
             | (Some expired, heap) \<Rightarrow>
                 let c1 = c\<lparr>sc_failureExpiry := heap\<rparr>
                 in cleanup_avoidances now
                      (if map_option se_expiresAt (map_get (sc_avoidance c1) (ex_key expired))
                            = Some (ex_expiresAt expired)
                       then deleteStickyFailureAvoidance (ex_key expired) c1 else c1))
          else c)"
  by pat_completeness auto
termination
  by (relation "measure (\<lambda>(now, c). length (sc_failureExpiry c))")
    (auto simp del: popExpiry_Nil dest: length_popExpiry [OF sym])

declare cleanup_avoidances.simps [simp del]

definition cleanupExpiredSticky :: "real \<Rightarrow> sticky_cache \<Rightarrow> sticky_cache" where
  "cleanupExpiredSticky now c = cleanup_avoidances now (cleanup_assignments now c)"

definition live_expiries :: "(string, sticky_entry) js_map \<Rightarrow> (string \<times> real) list" where
  "live_expiries m = map (\<lambda>(k, e). (k, se_expiresAt e)) m"

definition setSticky :: "real \<Rightarrow> string \<Rightarrow> sticky_entry \<Rightarrow> sticky_cache \<Rightarrow> sticky_cache" where
  "setSticky now key assignment c =
     (let c1 = cleanupExpiredSticky now c;
          c2 = deleteSticky key c1;
          c3 = deleteStickyFailureAvoidance key c2;
          c4 = enforceStickyCapacity (se_poolId assignment) c3;
          accountId = se_accountId assignment;
          keys = (case sc_stickyKeysByAccount c4 accountId of None \<Rightarrow> [] | Some ks \<Rightarrow> ks);
          keys' = (if key \<in> set keys then keys else keys @ [key]);
          c5 = c4\<lparr>sc_sticky := map_set (sc_sticky c4) key assignment,
                  sc_stickyKeysByAccount := (sc_stickyKeysByAccount c4)(accountId \<mapsto> keys')\<rparr>;
          c6 = touchStickyLru key (se_poolId assignment) Assignment c5
      in c6\<lparr>sc_stickyExpiry :=
              compactExpiryHeap
                (pushExpiry (sc_stickyExpiry c6)
                   \<lparr>ex_key = key, ex_expiresAt = se_expiresAt assignment\<rparr>)
                (live_expiries (sc_sticky c6))\<rparr>)"

definition setStickyFailureAvoidance ::
    "real \<Rightarrow> string \<Rightarrow> sticky_entry \<Rightarrow> sticky_cache \<Rightarrow> sticky_cache" where
  "setStickyFailureAvoidance now key avoidance c =
     (let c1 = cleanupExpiredSticky now c;
          c2 = deleteSticky key c1;
          c3 = deleteStickyFailureAvoidance key c2;
          c4 = enforceStickyCapacity (se_poolId avoidance) c3;
          c5 = c4\<lparr>sc_avoidance := map_set (sc_avoidance c4) key avoidance\<rparr>;
          c6 = touchStickyLru key (se_poolId avoidance) Avoidance c5
      in c6\<lparr>sc_failureExpiry :=
              compactExpiryHeap
                (pushExpiry (sc_failureExpiry c6)
                   \<lparr>ex_key = key, ex_expiresAt = se_expiresAt avoidance\<rparr>)
                (live_expiries (sc_avoidance c6))\<rparr>)"

text \<open>
  A proven failure of the assigned account: the assignment is dropped only while it still
  points at that account, and becomes an avoidance for the rest of its lifetime.
\<close>

definition recordStickyFailure ::
    "real \<Rightarrow> string \<Rightarrow> string option \<Rightarrow> string \<Rightarrow> sticky_cache \<Rightarrow> bool \<times> sticky_cache" where
  "recordStickyFailure now poolId sessionId accountId c =
     (case boundedStickyKey poolId sessionId of
        None \<Rightarrow> (False, c)
      | Some key \<Rightarrow>
          let c1 = cleanupExpiredSticky now c
          in case map_get (sc_sticky c1) key of
               None \<Rightarrow> (False, c1)
             | Some assignment \<Rightarrow>
                 if se_accountId assignment \<noteq> accountId then (False, c1)
                 else
                   let c2 = deleteSticky key c1
                   in (True,
                       if se_expiresAt assignment > now then
                         setStickyFailureAvoidance now key
                           \<lparr>se_poolId = se_poolId assignment, se_accountId = accountId,
                            se_expiresAt = se_expiresAt assignment\<rparr> c2
                       else c2))"

text \<open>
  The loop of \<^verbatim>\<open>recordFailure\<close> over the sessions assigned to the failed account, on the
  copy of the key set taken before the loop.
\<close>

fun dropAccountAssignments :: "real \<Rightarrow> string \<Rightarrow> string list \<Rightarrow> sticky_cache \<Rightarrow> sticky_cache" where
  "dropAccountAssignments now accountId [] c = c"
| "dropAccountAssignments now accountId (key # keys) c =
     dropAccountAssignments now accountId keys
       (case map_get (sc_sticky c) key of
          None \<Rightarrow> c
        | Some assignment \<Rightarrow>
            if se_accountId assignment \<noteq> accountId then c
            else
              let c1 = deleteSticky key c
              in if se_expiresAt assignment > now then
                   setStickyFailureAvoidance now key
                     \<lparr>se_poolId = se_poolId assignment, se_accountId = accountId,
                      se_expiresAt = se_expiresAt assignment\<rparr> c1
                 else c1)"

definition failAccountAssignments :: "real \<Rightarrow> string \<Rightarrow> sticky_cache \<Rightarrow> sticky_cache" where
  "failAccountAssignments now accountId c =
     (let c1 = cleanupExpiredSticky now c;
          keys = (case sc_stickyKeysByAccount c1 accountId of None \<Rightarrow> [] | Some ks \<Rightarrow> ks)
      in dropAccountAssignments now accountId keys c1)"

definition clearSticky :: "sticky_cache \<Rightarrow> sticky_cache" where
  "clearSticky c = empty_sticky_cache (sc_maxEntries c) (sc_maxEntriesPerPool c)"

section \<open>Sessions with requests in flight\<close>

text \<open>
  \<^verbatim>\<open>activeStickySessions\<close> counts the running requests of a session on an account,
  \<^verbatim>\<open>activeStickySessionCounts\<close> the sessions an account serves. An inner map of the code
  is never empty: the outer entry goes with its last key.
\<close>

record active_sessions =
  as_sessions :: "string \<rightharpoonup> (string, nat) js_map"
  as_counts :: "string \<rightharpoonup> nat"

definition no_active_sessions :: active_sessions where
  "no_active_sessions = \<lparr>as_sessions = Map.empty, as_counts = Map.empty\<rparr>"

definition session_requests :: "active_sessions \<Rightarrow> string \<Rightarrow> string \<Rightarrow> nat" where
  "session_requests a key accountId =
     (case as_sessions a key of
        None \<Rightarrow> 0
      | Some accounts \<Rightarrow> (case map_get accounts accountId of None \<Rightarrow> 0 | Some n \<Rightarrow> n))"

definition session_count :: "active_sessions \<Rightarrow> string \<Rightarrow> nat" where
  "session_count a accountId = (case as_counts a accountId of None \<Rightarrow> 0 | Some n \<Rightarrow> n)"

definition activeStickySessionCount :: "active_sessions \<Rightarrow> string \<Rightarrow> string option \<Rightarrow> int" where
  "activeStickySessionCount a accountId excludingStickyKey =
     (let n = int (session_count a accountId)
      in case truthy excludingStickyKey of
           None \<Rightarrow> n
         | Some key \<Rightarrow> n - (if session_requests a key accountId > 0 then 1 else 0))"

definition acquireActiveStickySession :: "string \<Rightarrow> string \<Rightarrow> active_sessions \<Rightarrow> active_sessions" where
  "acquireActiveStickySession key accountId a =
     (let accounts = (case as_sessions a key of None \<Rightarrow> [] | Some m \<Rightarrow> m);
          current = (case map_get accounts accountId of None \<Rightarrow> 0 | Some n \<Rightarrow> n);
          a1 = (if current = 0
                then a\<lparr>as_counts := (as_counts a)(accountId \<mapsto> session_count a accountId + 1)\<rparr>
                else a)
      in a1\<lparr>as_sessions := (as_sessions a1)(key \<mapsto> map_set accounts accountId (current + 1))\<rparr>)"

definition releaseActiveStickySession :: "string \<Rightarrow> string \<Rightarrow> active_sessions \<Rightarrow> active_sessions" where
  "releaseActiveStickySession key accountId a =
     (case as_sessions a key of
        None \<Rightarrow> a
      | Some accounts \<Rightarrow>
          let remaining = (case map_get accounts accountId of None \<Rightarrow> 0 | Some n \<Rightarrow> n) - 1;
              (accounts', counts') =
                (if remaining > 0 then (map_set accounts accountId remaining, as_counts a)
                 else
                   let sessionCount = session_count a accountId - 1
                   in (map_delete accounts accountId,
                       if sessionCount > 0 then (as_counts a)(accountId \<mapsto> sessionCount)
                       else (as_counts a)(accountId := None)))
          in a\<lparr>as_counts := counts',
              as_sessions :=
                (if accounts' = [] then (as_sessions a)(key := None)
                 else (as_sessions a)(key \<mapsto> accounts'))\<rparr>)"

end
