(* ===== verification/Sticky_Proofs.thy ===== *)
theory Sticky_Proofs
  imports Sticky_Cache
begin

text \<open>
  Correctness of the session-affinity cache: its secondary indexes (the LRU of each pool,
  the keys of each account) are exactly what the primary maps determine, no key is both
  assigned and avoided, the expiry heaps never lose a live entry, the bounds hold, and every
  operation keeps all of it.
\<close>

section \<open>The indexes as views\<close>

text \<open>What the per-pool LRU of a pool must be: the global LRU restricted to the pool, in order.\<close>

definition pool_entries :: "string \<Rightarrow> (string, string \<times> sticky_kind) js_map \<Rightarrow> (string, sticky_kind) js_map" where
  "pool_entries p m = map (\<lambda>(k, q, kind). (k, kind)) (filter (\<lambda>(k, q, kind). q = p) m)"

definition pool_view :: "(string, string \<times> sticky_kind) js_map \<Rightarrow> string \<rightharpoonup> (string, sticky_kind) js_map" where
  "pool_view m p = (if pool_entries p m = [] then None else Some (pool_entries p m))"

text \<open>What the key set of an account must be: the keys assigned to it, in order.\<close>

definition account_keys :: "string \<Rightarrow> (string, sticky_entry) js_map \<Rightarrow> string list" where
  "account_keys a m = map fst (filter (\<lambda>(k, e). se_accountId e = a) m)"

definition account_view :: "(string, sticky_entry) js_map \<Rightarrow> string \<rightharpoonup> string list" where
  "account_view m a = (if account_keys a m = [] then None else Some (account_keys a m))"

lemma keys_pool_entries: "set (map_keys (pool_entries p m)) \<subseteq> set (map_keys m)"
  by (auto simp: pool_entries_def split: prod.splits intro: rev_image_eqI)

lemma map_wf_pool_entries: "map_wf m \<Longrightarrow> map_wf (pool_entries p m)"
  unfolding map_wf_def
proof (induction m)
  case Nil
  then show ?case by (simp add: pool_entries_def)
next
  case (Cons e m)
  obtain k q kind where e: "e = (k, q, kind)" by (cases e) auto
  have "k \<notin> set (map_keys (pool_entries p m))"
    using Cons.prems e keys_pool_entries [of p m] by auto
  with Cons e show ?case by (auto simp: pool_entries_def)
qed

lemma map_get_pool_entries:
  "map_wf m \<Longrightarrow> map_get (pool_entries p m) k = Some kind \<longleftrightarrow> map_get m k = Some (p, kind)"
proof (induction m)
  case Nil
  then show ?case by (simp add: pool_entries_def)
next
  case (Cons e m)
  obtain j q kd where e: "e = (j, q, kd)" by (cases e) auto
  have wf: "map_wf m" and notin: "j \<notin> set (map_keys m)"
    using Cons.prems e by (auto simp: map_wf_def)
  then have "map_get (pool_entries p m) j = None" and "map_get m j = None"
    using keys_pool_entries [of p m] by (auto simp: map_get_None_iff)
  then show ?case
    using Cons.IH [OF wf] e by (cases "k = j") (auto simp: pool_entries_def)
qed

lemma delete_absent: "map_get m k = None \<Longrightarrow> map_delete m k = m"
  by (simp add: delete_id map_of_eq_None_iff dom_map_of_conv_image_fst)

lemma pool_entries_delete: "pool_entries p (map_delete m k) = map_delete (pool_entries p m) k"
  by (induction m) (auto simp: pool_entries_def)

lemma account_keys_delete:
  "account_keys a (map_delete m k) = filter (\<lambda>j. j \<noteq> k) (account_keys a m)"
  by (induction m) (auto simp: account_keys_def)

lemma account_keys_iff:
  "map_wf m \<Longrightarrow> k \<in> set (account_keys a m) \<longleftrightarrow> (\<exists>e. map_get m k = Some e \<and> se_accountId e = a)"
  by (force simp: account_keys_def map_wf_def dest: map_of_SomeD)

lemma pool_entries_append:
  "pool_entries p (m @ [(k, q, kind)]) = pool_entries p m @ (if q = p then [(k, kind)] else [])"
  by (simp add: pool_entries_def)

lemma account_keys_append:
  "account_keys a (m @ [(k, e)]) = account_keys a m @ (if se_accountId e = a then [k] else [])"
  by (simp add: account_keys_def)

lemma map_set_absent: "map_get m k = None \<Longrightarrow> map_set m k v = m @ [(k, v)]"
  by (induction m) (auto split: if_splits)

section \<open>The invariant\<close>

fun lru_value :: "sticky_entry option \<Rightarrow> sticky_entry option \<Rightarrow> (string \<times> sticky_kind) option" where
  "lru_value (Some e) avoidance = Some (se_poolId e, Assignment)"
| "lru_value None (Some e) = Some (se_poolId e, Avoidance)"
| "lru_value None None = None"

definition lru_entry :: "sticky_cache \<Rightarrow> string \<Rightarrow> (string \<times> sticky_kind) option" where
  "lru_entry c k = lru_value (map_get (sc_sticky c) k) (map_get (sc_avoidance c) k)"

definition has_expiry :: "expiry_heap \<Rightarrow> (string, sticky_entry) js_map \<Rightarrow> bool" where
  "has_expiry heap m \<longleftrightarrow>
     is_heap heap
     \<and> (\<forall>k e. map_get m k = Some e \<longrightarrow> \<lparr>ex_key = k, ex_expiresAt = se_expiresAt e\<rparr> \<in> set heap)"

definition indexed :: "sticky_cache \<Rightarrow> bool" where
  "indexed c \<longleftrightarrow>
     map_wf (sc_sticky c) \<and> map_wf (sc_avoidance c) \<and> map_wf (sc_lru c)
     \<and> (\<forall>k. map_get (sc_sticky c) k = None \<or> map_get (sc_avoidance c) k = None)
     \<and> (\<forall>k. map_get (sc_lru c) k = lru_entry c k)
     \<and> sc_lruByPool c = pool_view (sc_lru c)
     \<and> sc_stickyKeysByAccount c = account_view (sc_sticky c)"

definition sticky_inv :: "sticky_cache \<Rightarrow> bool" where
  "sticky_inv c \<longleftrightarrow>
     indexed c
     \<and> has_expiry (sc_stickyExpiry c) (sc_sticky c)
     \<and> has_expiry (sc_failureExpiry c) (sc_avoidance c)"

lemma indexedD:
  assumes "indexed c"
  shows "map_wf (sc_sticky c)" "map_wf (sc_avoidance c)" "map_wf (sc_lru c)"
    and "map_get (sc_sticky c) k = None \<or> map_get (sc_avoidance c) k = None"
    and "map_get (sc_lru c) k = lru_entry c k"
    and "sc_lruByPool c = pool_view (sc_lru c)"
    and "sc_stickyKeysByAccount c = account_view (sc_sticky c)"
  using assms by (auto simp: indexed_def)

lemma indexedI:
  assumes "map_wf (sc_sticky c)" and "map_wf (sc_avoidance c)" and "map_wf (sc_lru c)"
    and "\<And>k. map_get (sc_sticky c) k = None \<or> map_get (sc_avoidance c) k = None"
    and "\<And>k. map_get (sc_lru c) k = lru_entry c k"
    and "sc_lruByPool c = pool_view (sc_lru c)"
    and "sc_stickyKeysByAccount c = account_view (sc_sticky c)"
  shows "indexed c"
  using assms by (simp add: indexed_def)

section \<open>Deletion\<close>

text \<open>Removing an LRU entry of the expected kind keeps the pool view.\<close>

lemma deleteStickyLru_view:
  assumes wf: "map_wf (sc_lru c)" and view: "sc_lruByPool c = pool_view (sc_lru c)"
    and hit: "map_get (sc_lru c) k = Some (p, kind)" and x: "x = None \<or> x = Some kind"
  shows "deleteStickyLru k x c =
    c\<lparr>sc_lru := map_delete (sc_lru c) k, sc_lruByPool := pool_view (map_delete (sc_lru c) k)\<rparr>"
proof -
  let ?m = "sc_lru c"
  have mem: "map_get (pool_entries p ?m) k = Some kind"
    using map_get_pool_entries [OF wf] hit by blast
  then have "pool_entries p ?m \<noteq> []" by auto
  then have old: "pool_view ?m p = Some (pool_entries p ?m)" by (simp add: pool_view_def)
  have other: "map_delete (pool_entries q ?m) k = pool_entries q ?m" if "q \<noteq> p" for q
  proof -
    have "map_get (pool_entries q ?m) k = None"
      using map_get_pool_entries [OF wf, of q k] hit that by (cases "map_get (pool_entries q ?m) k") auto
    then show ?thesis by (rule delete_absent)
  qed
  have "(if map_delete (pool_entries p ?m) k = [] then (pool_view ?m)(p := None)
         else (pool_view ?m)(p \<mapsto> map_delete (pool_entries p ?m) k)) = pool_view (map_delete ?m k)"
    using other by (auto simp: fun_eq_iff pool_view_def pool_entries_delete)
  with hit x old view show ?thesis
    by (auto simp: deleteStickyLru_def Let_def)
qed

lemma deleteStickyLru_miss: "map_get (sc_lru c) k = None \<Longrightarrow> deleteStickyLru k x c = c"
  by (simp add: deleteStickyLru_def)

text \<open>Under the invariant, deletion is deletion in the primary maps, with the views recomputed.\<close>

lemma deleteSticky_eq:
  assumes "indexed c"
  shows "deleteSticky k c =
    (if map_get (sc_sticky c) k = None then c
     else c\<lparr>sc_sticky := map_delete (sc_sticky c) k,
            sc_lru := map_delete (sc_lru c) k,
            sc_lruByPool := pool_view (map_delete (sc_lru c) k),
            sc_stickyKeysByAccount := account_view (map_delete (sc_sticky c) k)\<rparr>)"
proof (cases "map_get (sc_sticky c) k")
  case None
  then show ?thesis by (simp add: deleteSticky_def)
next
  case (Some e)
  note inv = indexedD [OF assms]
  let ?s = "sc_sticky c"
  have "map_get (sc_lru c) k = Some (se_poolId e, Assignment)"
    using inv(5) [of k] Some by (simp add: lru_entry_def)
  then have lru: "deleteStickyLru k (Some Assignment) (c\<lparr>sc_sticky := map_delete ?s k\<rparr>) =
      c\<lparr>sc_sticky := map_delete ?s k, sc_lru := map_delete (sc_lru c) k,
        sc_lruByPool := pool_view (map_delete (sc_lru c) k)\<rparr>"
    using inv(3,6) by (subst deleteStickyLru_view) auto
  let ?a = "se_accountId e"
  have mem: "k \<in> set (account_keys ?a ?s)"
    using account_keys_iff [OF inv(1)] Some by blast
  then have "account_keys ?a ?s \<noteq> []" by auto
  then have old: "account_view ?s ?a = Some (account_keys ?a ?s)" by (simp add: account_view_def)
  have other: "filter (\<lambda>j. j \<noteq> k) (account_keys b ?s) = account_keys b ?s" if "b \<noteq> ?a" for b
  proof -
    have "k \<notin> set (account_keys b ?s)" using account_keys_iff [OF inv(1)] Some that by auto
    then show ?thesis by (intro filter_True) auto
  qed
  have "(if filter (\<lambda>j. j \<noteq> k) (account_keys ?a ?s) = [] then (account_view ?s)(?a := None)
         else (account_view ?s)(?a \<mapsto> filter (\<lambda>j. j \<noteq> k) (account_keys ?a ?s)))
      = account_view (map_delete ?s k)"
    using other by (auto simp: fun_eq_iff account_view_def account_keys_delete)
  with Some old inv(7) show ?thesis
    unfolding deleteSticky_def Let_def
    by (cases "filter (\<lambda>j. j \<noteq> k) (account_keys ?a ?s) = []") (simp_all add: lru)
qed

lemma deleteStickyFailureAvoidance_eq:
  assumes "indexed c"
  shows "deleteStickyFailureAvoidance k c =
    (if map_get (sc_avoidance c) k = None then c
     else c\<lparr>sc_avoidance := map_delete (sc_avoidance c) k,
            sc_lru := map_delete (sc_lru c) k,
            sc_lruByPool := pool_view (map_delete (sc_lru c) k)\<rparr>)"
proof (cases "map_get (sc_avoidance c) k")
  case None
  then show ?thesis by (simp add: deleteStickyFailureAvoidance_def)
next
  case (Some e)
  note inv = indexedD [OF assms]
  have "map_get (sc_lru c) k = Some (se_poolId e, Avoidance)"
    using inv(4,5) [of k] Some by (simp add: lru_entry_def)
  then show ?thesis
    using Some inv(3,6) unfolding deleteStickyFailureAvoidance_def
    by (subst deleteStickyLru_view) auto
qed

lemma indexed_deleteSticky:
  assumes "indexed c"
  shows "indexed (deleteSticky k c)"
proof (cases "map_get (sc_sticky c) k")
  case None
  with assms show ?thesis by (simp add: deleteSticky_eq)
next
  case (Some e)
  note inv = indexedD [OF assms]
  have "map_get (sc_avoidance c) k = None" using inv(4) [of k] Some by simp
  with Some inv show ?thesis
    unfolding deleteSticky_eq [OF assms] by (intro indexedI) (auto simp: lru_entry_def)
qed

lemma indexed_deleteAvoidance:
  assumes "indexed c"
  shows "indexed (deleteStickyFailureAvoidance k c)"
proof (cases "map_get (sc_avoidance c) k")
  case None
  with assms show ?thesis by (simp add: deleteStickyFailureAvoidance_eq)
next
  case (Some e)
  note inv = indexedD [OF assms]
  have "map_get (sc_sticky c) k = None" using inv(4) [of k] Some by simp
  with Some inv show ?thesis
    unfolding deleteStickyFailureAvoidance_eq [OF assms]
    by (intro indexedI) (auto simp: lru_entry_def)
qed

lemma map_get_deleteSticky:
  "map_get (sc_sticky (deleteSticky k c)) j = (if j = k then None else map_get (sc_sticky c) j)"
  by (auto simp: deleteSticky_def Let_def split: option.splits)

lemma map_get_deleteAvoidance:
  "map_get (sc_avoidance (deleteStickyFailureAvoidance k c)) j =
     (if j = k then None else map_get (sc_avoidance c) j)"
  by (auto simp: deleteStickyFailureAvoidance_def)

lemma has_expiry_subset:
  "has_expiry h m \<Longrightarrow> (\<And>k e. map_get m' k = Some e \<Longrightarrow> map_get m k = Some e) \<Longrightarrow> has_expiry h m'"
  by (auto simp: has_expiry_def)

lemma sticky_inv_deleteSticky: "sticky_inv c \<Longrightarrow> sticky_inv (deleteSticky k c)"
  by (auto simp: sticky_inv_def indexed_deleteSticky map_get_deleteSticky
      intro: has_expiry_subset split: if_splits)

lemma sticky_inv_deleteAvoidance: "sticky_inv c \<Longrightarrow> sticky_inv (deleteStickyFailureAvoidance k c)"
  by (auto simp: sticky_inv_def indexed_deleteAvoidance map_get_deleteAvoidance
      intro: has_expiry_subset split: if_splits)

lemma sticky_inv_evict: "sticky_inv c \<Longrightarrow> sticky_inv (evictStickyEntry k kind c)"
  by (cases kind) (simp_all add: sticky_inv_deleteSticky sticky_inv_deleteAvoidance)

section \<open>Touching and inserting\<close>

lemma pool_list_view:
  "(case pool_view m p of None \<Rightarrow> [] | Some l \<Rightarrow> l) = pool_entries p m"
  by (simp add: pool_view_def)

lemma map_get_append_new: "map_get m k = None \<Longrightarrow>
   ([k \<mapsto> v] ++ map_get m) j = (if j = k then Some v else map_get m j)"
  by (auto simp: map_add_def split: option.splits)

lemma map_wf_append_new: "map_wf m \<Longrightarrow> map_get m k = None \<Longrightarrow> map_wf (m @ [(k, v)])"
  by (auto simp: map_wf_def map_of_eq_None_iff)

lemma touchStickyLru_view:
  assumes wf: "map_wf (sc_lru c)" and view: "sc_lruByPool c = pool_view (sc_lru c)"
  shows "touchStickyLru k p kind c =
    c\<lparr>sc_lru := map_delete (sc_lru c) k @ [(k, p, kind)],
      sc_lruByPool := pool_view (map_delete (sc_lru c) k @ [(k, p, kind)])\<rparr>"
proof -
  let ?m = "map_delete (sc_lru c) k"
  have c1: "deleteStickyLru k None c = c\<lparr>sc_lru := ?m, sc_lruByPool := pool_view ?m\<rparr>"
  proof (cases "map_get (sc_lru c) k")
    case None
    with view show ?thesis by (simp add: deleteStickyLru_miss delete_absent)
  next
    case (Some e)
    with wf view show ?thesis by (cases e) (simp add: deleteStickyLru_view)
  qed
  have absent: "map_get ?m k = None" by simp
  have "map_wf ?m" using wf by simp
  then have "map_get (pool_entries p ?m) k = None"
    using map_get_pool_entries [of ?m p k] absent by (cases "map_get (pool_entries p ?m) k") auto
  then have "map_set (pool_entries p ?m) k kind = pool_entries p (?m @ [(k, p, kind)])"
    by (simp add: map_set_absent pool_entries_append)
  then have "(pool_view ?m)(p \<mapsto> map_set (pool_entries p ?m) k kind)
      = pool_view (?m @ [(k, p, kind)])"
    by (auto simp: fun_eq_iff pool_view_def pool_entries_append)
  then show ?thesis
    using absent unfolding touchStickyLru_def c1 Let_def
    by (simp add: pool_list_view map_set_absent)
qed

lemma indexed_touch:
  assumes "indexed c" and "map_get (sc_lru c) k = Some (p, kind)"
  shows "indexed (touchStickyLru k p kind c)"
proof -
  note inv = indexedD [OF assms(1)]
  show ?thesis
    unfolding touchStickyLru_view [OF inv(3,6)]
    by (intro indexedI)
      (use inv assms(2) in \<open>simp_all add: lru_entry_def map_get_append_new map_wf_append_new\<close>)
qed

text \<open>What \<^verbatim>\<open>keys.add(stickyKey)\<close> leaves as the key set of the account.\<close>

definition add_account_key :: "string \<Rightarrow> string \<Rightarrow> sticky_cache \<Rightarrow> string list" where
  "add_account_key k a c =
     (let keys = (case sc_stickyKeysByAccount c a of None \<Rightarrow> [] | Some ks \<Rightarrow> ks)
      in if k \<in> set keys then keys else keys @ [k])"

lemma indexed_insert_assignment:
  assumes "indexed c" and "map_get (sc_sticky c) k = None" and "map_get (sc_avoidance c) k = None"
  shows "indexed (touchStickyLru k (se_poolId e) Assignment
    (c\<lparr>sc_sticky := map_set (sc_sticky c) k e,
       sc_stickyKeysByAccount := (sc_stickyKeysByAccount c)(se_accountId e \<mapsto>
         add_account_key k (se_accountId e) c)\<rparr>))"
    (is "indexed (touchStickyLru k _ _ ?c)")
proof -
  note inv = indexedD [OF assms(1)]
  let ?s = "sc_sticky c" and ?a = "se_accountId e"
  have lru: "map_get (sc_lru c) k = None"
    using inv(5) [of k] assms(2,3) by (simp add: lru_entry_def)
  have "k \<notin> set (account_keys ?a ?s)"
    using account_keys_iff [OF inv(1)] assms(2) by auto
  then have accounts: "(sc_stickyKeysByAccount c)(?a \<mapsto> add_account_key k ?a c)
      = account_view (map_set ?s k e)"
    using assms(2) inv(7)
    by (auto simp: fun_eq_iff add_account_key_def account_view_def account_keys_append
        map_set_absent Let_def)
  have touch: "touchStickyLru k (se_poolId e) Assignment ?c =
      ?c\<lparr>sc_lru := sc_lru c @ [(k, se_poolId e, Assignment)],
         sc_lruByPool := pool_view (sc_lru c @ [(k, se_poolId e, Assignment)])\<rparr>"
    using inv(3,6) lru by (subst touchStickyLru_view) (simp_all add: delete_absent)
  show ?thesis
    unfolding touch
    by (intro indexedI)
      (use inv lru assms(2,3) accounts in
        \<open>simp_all add: lru_entry_def map_get_append_new map_wf_append_new\<close>)
qed

lemma indexed_insert_avoidance:
  assumes "indexed c" and "map_get (sc_sticky c) k = None" and "map_get (sc_avoidance c) k = None"
  shows "indexed (touchStickyLru k (se_poolId e) Avoidance
    (c\<lparr>sc_avoidance := map_set (sc_avoidance c) k e\<rparr>))" (is "indexed (touchStickyLru k _ _ ?c)")
proof -
  note inv = indexedD [OF assms(1)]
  have lru: "map_get (sc_lru c) k = None"
    using inv(5) [of k] assms(2,3) by (simp add: lru_entry_def)
  have touch: "touchStickyLru k (se_poolId e) Avoidance ?c =
      ?c\<lparr>sc_lru := sc_lru c @ [(k, se_poolId e, Avoidance)],
         sc_lruByPool := pool_view (sc_lru c @ [(k, se_poolId e, Avoidance)])\<rparr>"
    using inv(3,6) lru by (subst touchStickyLru_view) (simp_all add: delete_absent)
  show ?thesis
    unfolding touch
    by (intro indexedI)
      (use inv lru assms(2,3) in
        \<open>simp_all add: lru_entry_def map_get_append_new map_wf_append_new\<close>)
qed

lemma touchStickyLru_frame [simp, frame_simps]:
  "sc_sticky (touchStickyLru k p x c) = sc_sticky c"
  "sc_stickyExpiry (touchStickyLru k p x c) = sc_stickyExpiry c"
  "sc_stickyKeysByAccount (touchStickyLru k p x c) = sc_stickyKeysByAccount c"
  "sc_avoidance (touchStickyLru k p x c) = sc_avoidance c"
  "sc_failureExpiry (touchStickyLru k p x c) = sc_failureExpiry c"
  "sc_maxEntries (touchStickyLru k p x c) = sc_maxEntries c"
  "sc_maxEntriesPerPool (touchStickyLru k p x c) = sc_maxEntriesPerPool c"
  by (simp_all add: touchStickyLru_def Let_def)

lemma sticky_inv_touch:
  "sticky_inv c \<Longrightarrow> map_get (sc_lru c) k = Some (p, kind) \<Longrightarrow> sticky_inv (touchStickyLru k p kind c)"
  by (simp add: sticky_inv_def indexed_touch)

text \<open>The heap after an insertion: pushed, perhaps compacted, and still complete.\<close>

lemma live_expiries_mem:
  "map_get m k = Some e \<Longrightarrow> (k, se_expiresAt e) \<in> set (live_expiries m)"
  by (force simp: live_expiries_def dest: map_of_SomeD)

lemma has_expiry_push:
  assumes "has_expiry h m"
  shows "has_expiry
    (compactExpiryHeap (pushExpiry h \<lparr>ex_key = k, ex_expiresAt = se_expiresAt e\<rparr>)
       (live_expiries (map_set m k e))) (map_set m k e)"
  unfolding has_expiry_def
proof (intro conjI allI impI)
  let ?h = "pushExpiry h \<lparr>ex_key = k, ex_expiresAt = se_expiresAt e\<rparr>"
  have "is_heap h" using assms by (simp add: has_expiry_def)
  then show "is_heap (compactExpiryHeap ?h (live_expiries (map_set m k e)))"
    by (intro is_heap_compact is_heap_pushExpiry)
  fix j x
  assume get: "map_get (map_set m k e) j = Some x"
  then have "\<lparr>ex_key = j, ex_expiresAt = se_expiresAt x\<rparr> \<in> set ?h"
    using assms by (auto simp: has_expiry_def split: if_splits)
  then show "\<lparr>ex_key = j, ex_expiresAt = se_expiresAt x\<rparr>
      \<in> set (compactExpiryHeap ?h (live_expiries (map_set m k e)))"
    using live_expiries_mem [OF get] by (rule compact_keeps_live [rotated])
qed

section \<open>Cleanup\<close>

text \<open>
  Popping a node and deleting the entry it expires keeps the heap complete: an entry that
  was renewed meanwhile has a node of its own.
\<close>

lemma has_expiry_pop:
  assumes "has_expiry h m" and "popExpiry h = (Some e, h')"
  shows "has_expiry h'
    (if map_option se_expiresAt (map_get m (ex_key e)) = Some (ex_expiresAt e)
     then map_delete m (ex_key e) else m)"
  unfolding has_expiry_def
proof (intro conjI allI impI)
  show "is_heap h'"
    using assms is_heap_popExpiry by (auto simp: has_expiry_def)
  fix k x
  assume get: "map_get (if map_option se_expiresAt (map_get m (ex_key e)) = Some (ex_expiresAt e)
     then map_delete m (ex_key e) else m) k = Some x"
  then have "map_get m k = Some x" by (auto split: if_splits)
  moreover from this get have "\<lparr>ex_key = k, ex_expiresAt = se_expiresAt x\<rparr> \<noteq> e"
    by (auto split: if_splits)
  ultimately show "\<lparr>ex_key = k, ex_expiresAt = se_expiresAt x\<rparr> \<in> set h'"
    using assms set_popExpiry [OF assms(2)] by (auto simp: has_expiry_def)
qed

lemma popExpiry_Some: "h \<noteq> [] \<Longrightarrow> \<exists>h'. popExpiry h = (Some (hd h), h')"
  by (cases h) (auto simp: popExpiry_Cons)

lemma sticky_deleteSticky: "sc_sticky (deleteSticky k c) = map_delete (sc_sticky c) k"
  by (cases "map_get (sc_sticky c) k")
    (simp_all add: deleteSticky_def Let_def delete_absent)

lemma avoidance_deleteAvoidance:
  "sc_avoidance (deleteStickyFailureAvoidance k c) = map_delete (sc_avoidance c) k"
  by (cases "map_get (sc_avoidance c) k")
    (simp_all add: deleteStickyFailureAvoidance_def delete_absent)

lemma indexed_heap_update [simp]:
  "indexed (c\<lparr>sc_stickyExpiry := h\<rparr>) = indexed c"
  "indexed (c\<lparr>sc_failureExpiry := h\<rparr>) = indexed c"
  by (simp_all add: indexed_def lru_entry_def)

text \<open>One round of a cleanup loop.\<close>

definition drop_assignment :: "expiry_entry \<Rightarrow> sticky_cache \<Rightarrow> sticky_cache" where
  "drop_assignment e c =
     (if map_option se_expiresAt (map_get (sc_sticky c) (ex_key e)) = Some (ex_expiresAt e)
      then deleteSticky (ex_key e) c else c)"

definition drop_avoidance :: "expiry_entry \<Rightarrow> sticky_cache \<Rightarrow> sticky_cache" where
  "drop_avoidance e c =
     (if map_option se_expiresAt (map_get (sc_avoidance c) (ex_key e)) = Some (ex_expiresAt e)
      then deleteStickyFailureAvoidance (ex_key e) c else c)"

lemma cleanup_assignments_step:
  assumes "sc_stickyExpiry c = e # h" and "ex_expiresAt e \<le> now" and "popExpiry (e # h) = (Some e, h')"
  shows "cleanup_assignments now c =
    cleanup_assignments now (drop_assignment e (c\<lparr>sc_stickyExpiry := h'\<rparr>))"
  using assms by (subst cleanup_assignments.simps) (simp add: drop_assignment_def Let_def)

lemma cleanup_avoidances_step:
  assumes "sc_failureExpiry c = e # h" and "ex_expiresAt e \<le> now" and "popExpiry (e # h) = (Some e, h')"
  shows "cleanup_avoidances now c =
    cleanup_avoidances now (drop_avoidance e (c\<lparr>sc_failureExpiry := h'\<rparr>))"
  using assms by (subst cleanup_avoidances.simps) (simp add: drop_avoidance_def Let_def)

lemma cleanup_assignments_stop:
  assumes "sc_stickyExpiry c = [] \<or> now < ex_expiresAt (hd (sc_stickyExpiry c))"
  shows "cleanup_assignments now c = c"
  using assms by (subst cleanup_assignments.simps) (auto split: list.split)

lemma cleanup_avoidances_stop:
  assumes "sc_failureExpiry c = [] \<or> now < ex_expiresAt (hd (sc_failureExpiry c))"
  shows "cleanup_avoidances now c = c"
  using assms by (subst cleanup_avoidances.simps) (auto split: list.split)

text \<open>
  An induction rule for both loops: a property that holds when the loop stops and is handed
  kept_sticky through a round holds of the result.
\<close>

lemma cleanup_assignments_induct:
  assumes stop: "\<And>c. sc_stickyExpiry c = [] \<or> now < ex_expiresAt (hd (sc_stickyExpiry c)) \<Longrightarrow> P c c"
    and round: "\<And>c e h h'. sc_stickyExpiry c = e # h \<Longrightarrow> ex_expiresAt e \<le> now
       \<Longrightarrow> popExpiry (e # h) = (Some e, h')
       \<Longrightarrow> P (drop_assignment e (c\<lparr>sc_stickyExpiry := h'\<rparr>))
             (cleanup_assignments now (drop_assignment e (c\<lparr>sc_stickyExpiry := h'\<rparr>)))
       \<Longrightarrow> P c (cleanup_assignments now (drop_assignment e (c\<lparr>sc_stickyExpiry := h'\<rparr>)))"
  shows "P c (cleanup_assignments now c)"
proof (induction "length (sc_stickyExpiry c)" arbitrary: c rule: less_induct)
  case less
  show ?case
  proof (cases "sc_stickyExpiry c = [] \<or> now < ex_expiresAt (hd (sc_stickyExpiry c))")
    case True
    then show ?thesis using stop by (simp add: cleanup_assignments_stop)
  next
    case False
    then obtain e h where c: "sc_stickyExpiry c = e # h" and due: "ex_expiresAt e \<le> now"
      by (cases "sc_stickyExpiry c") auto
    obtain h' where pop: "popExpiry (e # h) = (Some e, h')" using popExpiry_Some [of "e # h"] by auto
    have "length (sc_stickyExpiry (drop_assignment e (c\<lparr>sc_stickyExpiry := h'\<rparr>))) < length (sc_stickyExpiry c)"
      using length_popExpiry [OF pop] c by (simp add: drop_assignment_def)
    from round [OF c due pop less [OF this]] show ?thesis
      by (simp add: cleanup_assignments_step [OF c due pop])
  qed
qed

lemma cleanup_avoidances_induct:
  assumes stop: "\<And>c. sc_failureExpiry c = [] \<or> now < ex_expiresAt (hd (sc_failureExpiry c)) \<Longrightarrow> P c c"
    and round: "\<And>c e h h'. sc_failureExpiry c = e # h \<Longrightarrow> ex_expiresAt e \<le> now
       \<Longrightarrow> popExpiry (e # h) = (Some e, h')
       \<Longrightarrow> P (drop_avoidance e (c\<lparr>sc_failureExpiry := h'\<rparr>))
             (cleanup_avoidances now (drop_avoidance e (c\<lparr>sc_failureExpiry := h'\<rparr>)))
       \<Longrightarrow> P c (cleanup_avoidances now (drop_avoidance e (c\<lparr>sc_failureExpiry := h'\<rparr>)))"
  shows "P c (cleanup_avoidances now c)"
proof (induction "length (sc_failureExpiry c)" arbitrary: c rule: less_induct)
  case less
  show ?case
  proof (cases "sc_failureExpiry c = [] \<or> now < ex_expiresAt (hd (sc_failureExpiry c))")
    case True
    then show ?thesis using stop by (simp add: cleanup_avoidances_stop)
  next
    case False
    then obtain e h where c: "sc_failureExpiry c = e # h" and due: "ex_expiresAt e \<le> now"
      by (cases "sc_failureExpiry c") auto
    obtain h' where pop: "popExpiry (e # h) = (Some e, h')" using popExpiry_Some [of "e # h"] by auto
    have "length (sc_failureExpiry (drop_avoidance e (c\<lparr>sc_failureExpiry := h'\<rparr>))) < length (sc_failureExpiry c)"
      using length_popExpiry [OF pop] c by (simp add: drop_avoidance_def)
    from round [OF c due pop less [OF this]] show ?thesis
      by (simp add: cleanup_avoidances_step [OF c due pop])
  qed
qed

lemma sticky_inv_drop_assignment:
  assumes "sticky_inv c" and "sc_stickyExpiry c = h" and "popExpiry h = (Some e, h')"
  shows "sticky_inv (drop_assignment e (c\<lparr>sc_stickyExpiry := h'\<rparr>))"
proof -
  have inv: "indexed c" "has_expiry h (sc_sticky c)" "has_expiry (sc_failureExpiry c) (sc_avoidance c)"
    using assms(1,2) by (simp_all add: sticky_inv_def)
  from has_expiry_pop [OF inv(2) assms(3)] inv(1,3) show ?thesis
    by (auto simp: sticky_inv_def drop_assignment_def sticky_deleteSticky indexed_deleteSticky
        split: if_splits)
qed

lemma sticky_inv_drop_avoidance:
  assumes "sticky_inv c" and "sc_failureExpiry c = h" and "popExpiry h = (Some e, h')"
  shows "sticky_inv (drop_avoidance e (c\<lparr>sc_failureExpiry := h'\<rparr>))"
proof -
  have inv: "indexed c" "has_expiry (sc_stickyExpiry c) (sc_sticky c)" "has_expiry h (sc_avoidance c)"
    using assms(1,2) by (simp_all add: sticky_inv_def)
  from has_expiry_pop [OF inv(3) assms(3)] inv(1,2) show ?thesis
    by (auto simp: sticky_inv_def drop_avoidance_def avoidance_deleteAvoidance indexed_deleteAvoidance
        split: if_splits)
qed

text \<open>What the cleanup keeps of a map: exactly the entries that are not yet due.\<close>

definition unexpired :: "real \<Rightarrow> (string \<rightharpoonup> sticky_entry) \<Rightarrow> string \<rightharpoonup> sticky_entry" where
  "unexpired now m k = (case m k of None \<Rightarrow> None | Some e \<Rightarrow> if now < se_expiresAt e then Some e else None)"

lemma has_expiry_all_later:
  assumes "has_expiry h m" and "h = [] \<or> now < ex_expiresAt (hd h)"
  shows "unexpired now (map_get m) = map_get m"
proof
  fix k
  show "unexpired now (map_get m) k = map_get m k"
  proof (cases "map_get m k")
    case None
    then show ?thesis by (simp add: unexpired_def)
  next
    case (Some e)
    with assms(1) have mem: "\<lparr>ex_key = k, ex_expiresAt = se_expiresAt e\<rparr> \<in> set h" and "is_heap h"
      by (auto simp: has_expiry_def)
    then obtain h' where "popExpiry h = (Some (hd h), h')" using popExpiry_Some [of h] by force
    from popExpiry_least [OF \<open>is_heap h\<close> this mem] assms(2) mem have "now < se_expiresAt e" by auto
    with Some show ?thesis by (simp add: unexpired_def)
  qed
qed

lemma cleanup_assignments_spec:
  "sticky_inv c \<longrightarrow>
     sticky_inv (cleanup_assignments now c)
     \<and> map_get (sc_sticky (cleanup_assignments now c)) = unexpired now (map_get (sc_sticky c))
     \<and> sc_avoidance (cleanup_assignments now c) = sc_avoidance c"
proof (induction rule: cleanup_assignments_induct)
  case (1 c)
  then show ?case using has_expiry_all_later [of _ _ now] by (metis sticky_inv_def)
next
  case (2 c e h h')
  show ?case
  proof
    assume inv: "sticky_inv c"
    let ?c = "drop_assignment e (c\<lparr>sc_stickyExpiry := h'\<rparr>)"
    have "sticky_inv ?c" using sticky_inv_drop_assignment [OF inv "2.hyps"(1,3)] .
    moreover have "unexpired now (map_get (sc_sticky ?c)) = unexpired now (map_get (sc_sticky c))"
      using "2.hyps"(2)
      by (auto simp: fun_eq_iff unexpired_def drop_assignment_def map_get_deleteSticky split: option.splits)
    moreover have "sc_avoidance ?c = sc_avoidance c" by (simp add: drop_assignment_def)
    ultimately show "sticky_inv (cleanup_assignments now ?c)
       \<and> map_get (sc_sticky (cleanup_assignments now ?c)) = unexpired now (map_get (sc_sticky c))
       \<and> sc_avoidance (cleanup_assignments now ?c) = sc_avoidance c"
      using 2 by simp
  qed
qed

lemma cleanup_avoidances_spec:
  "sticky_inv c \<longrightarrow>
     sticky_inv (cleanup_avoidances now c)
     \<and> map_get (sc_avoidance (cleanup_avoidances now c)) = unexpired now (map_get (sc_avoidance c))
     \<and> sc_sticky (cleanup_avoidances now c) = sc_sticky c"
proof (induction rule: cleanup_avoidances_induct)
  case (1 c)
  then show ?case using has_expiry_all_later [of _ _ now] by (metis sticky_inv_def)
next
  case (2 c e h h')
  show ?case
  proof
    assume inv: "sticky_inv c"
    let ?c = "drop_avoidance e (c\<lparr>sc_failureExpiry := h'\<rparr>)"
    have "sticky_inv ?c" using sticky_inv_drop_avoidance [OF inv "2.hyps"(1,3)] .
    moreover have "unexpired now (map_get (sc_avoidance ?c)) = unexpired now (map_get (sc_avoidance c))"
      using "2.hyps"(2)
      by (auto simp: fun_eq_iff unexpired_def drop_avoidance_def map_get_deleteAvoidance split: option.splits)
    moreover have "sc_sticky ?c = sc_sticky c" by (simp add: drop_avoidance_def)
    ultimately show "sticky_inv (cleanup_avoidances now ?c)
       \<and> map_get (sc_avoidance (cleanup_avoidances now ?c)) = unexpired now (map_get (sc_avoidance c))
       \<and> sc_sticky (cleanup_avoidances now ?c) = sc_sticky c"
      using 2 by simp
  qed
qed

lemma cleanupExpiredSticky_spec:
  assumes "sticky_inv c"
  shows "sticky_inv (cleanupExpiredSticky now c)"
    and "map_get (sc_sticky (cleanupExpiredSticky now c)) = unexpired now (map_get (sc_sticky c))"
    and "map_get (sc_avoidance (cleanupExpiredSticky now c)) = unexpired now (map_get (sc_avoidance c))"
  using assms cleanup_assignments_spec [of c now] cleanup_avoidances_spec [of "cleanup_assignments now c" now]
  by (auto simp: cleanupExpiredSticky_def)

section \<open>Eviction\<close>

lemma lru_evict:
  assumes "indexed c" and "map_get (sc_lru c) k = Some (p, kind)"
  shows "sc_lru (evictStickyEntry k kind c) = map_delete (sc_lru c) k"
    and "map_get (sc_sticky (evictStickyEntry k kind c)) j = Some x \<Longrightarrow> map_get (sc_sticky c) j = Some x"
    and "map_get (sc_avoidance (evictStickyEntry k kind c)) j = Some x \<Longrightarrow> map_get (sc_avoidance c) j = Some x"
proof -
  have e: "lru_value (map_get (sc_sticky c) k) (map_get (sc_avoidance c) k) = Some (p, kind)"
    using indexedD(5) [OF assms(1)] assms(2) by (simp add: lru_entry_def)
  show "sc_lru (evictStickyEntry k kind c) = map_delete (sc_lru c) k"
    using e indexedD(4) [OF assms(1), of k]
    by (cases kind; cases "map_get (sc_sticky c) k"; cases "map_get (sc_avoidance c) k")
      (simp_all add: deleteSticky_eq [OF assms(1)] deleteStickyFailureAvoidance_eq [OF assms(1)])
  show "map_get (sc_sticky (evictStickyEntry k kind c)) j = Some x \<Longrightarrow> map_get (sc_sticky c) j = Some x"
    by (cases kind) (auto simp: map_get_deleteSticky split: if_splits)
  show "map_get (sc_avoidance (evictStickyEntry k kind c)) j = Some x \<Longrightarrow> map_get (sc_avoidance c) j = Some x"
    by (cases kind) (auto simp: map_get_deleteAvoidance split: if_splits)
qed

lemma evict_frame [simp, frame_simps]:
  "sc_stickyExpiry (evictStickyEntry k kind c) = sc_stickyExpiry c"
  "sc_failureExpiry (evictStickyEntry k kind c) = sc_failureExpiry c"
  "sc_maxEntries (evictStickyEntry k kind c) = sc_maxEntries c"
  "sc_maxEntriesPerPool (evictStickyEntry k kind c) = sc_maxEntriesPerPool c"
  by (cases kind; simp)+

text \<open>What one eviction, and so both loops, keep: \<open>shrinks c c'\<close>.\<close>

definition shrinks :: "sticky_cache \<Rightarrow> sticky_cache \<Rightarrow> bool" where
  "shrinks c c' \<longleftrightarrow>
     (\<forall>k e. map_get (sc_sticky c') k = Some e \<longrightarrow> map_get (sc_sticky c) k = Some e)
     \<and> (\<forall>k e. map_get (sc_avoidance c') k = Some e \<longrightarrow> map_get (sc_avoidance c) k = Some e)
     \<and> sc_stickyExpiry c' = sc_stickyExpiry c \<and> sc_failureExpiry c' = sc_failureExpiry c
     \<and> sc_maxEntries c' = sc_maxEntries c \<and> sc_maxEntriesPerPool c' = sc_maxEntriesPerPool c
     \<and> length (sc_lru c') \<le> length (sc_lru c)
     \<and> (\<forall>p. length (pool_entries p (sc_lru c')) \<le> length (pool_entries p (sc_lru c)))"

lemma shrinks_refl [simp]: "shrinks c c"
  by (simp add: shrinks_def)

lemma shrinks_trans: "shrinks c d \<Longrightarrow> shrinks d e \<Longrightarrow> shrinks c e"
  by (auto simp: shrinks_def intro: order_trans)

lemma length_map_delete_le: "length (map_delete m k) \<le> length m"
  by (simp add: length_delete_le)

lemma shrinks_evict:
  assumes "indexed c" and "map_get (sc_lru c) k = Some (p, kind)"
  shows "shrinks c (evictStickyEntry k kind c)"
  using lru_evict [OF assms] by (auto simp: shrinks_def length_map_delete_le pool_entries_delete)

lemma length_lru_evict:
  assumes "indexed c" and "map_get (sc_lru c) k = Some (p, kind)"
  shows "Suc (length (sc_lru (evictStickyEntry k kind c))) = length (sc_lru c)"
  using lru_evict(1) [OF assms] length_map_delete [OF indexedD(3) [OF assms(1)], of k] assms(2)
  by (cases "sc_lru c") auto

lemma pool_front:
  assumes "indexed c" and "pool_entries p (sc_lru c) = (k, kind) # l"
  shows "map_get (sc_lru c) k = Some (p, kind)"
  using map_get_pool_entries [OF indexedD(3) [OF assms(1)], of p k kind] assms(2) by simp

lemma pool_lru_list:
  "indexed c \<Longrightarrow> (case sc_lruByPool c p of None \<Rightarrow> [] | Some m \<Rightarrow> m) = pool_entries p (sc_lru c)"
  using indexedD(6) [of c] by (simp add: pool_list_view)

lemma evict_pool_loop_spec:
  assumes "sticky_inv c" and "length (sc_lru c) \<le> fuel"
  shows "sticky_inv (evict_pool_loop fuel p c) \<and> shrinks c (evict_pool_loop fuel p c)
    \<and> (0 < sc_maxEntriesPerPool c \<longrightarrow>
         length (pool_entries p (sc_lru (evict_pool_loop fuel p c))) < sc_maxEntriesPerPool c)"
  using assms
proof (induction fuel arbitrary: c)
  case 0
  then show ?case by (simp add: pool_entries_def)
next
  case (Suc fuel)
  have ix: "indexed c" using Suc.prems by (simp add: sticky_inv_def)
  show ?case
  proof (cases "pool_entries p (sc_lru c)")
    case Nil
    then show ?thesis using Suc.prems by (simp add: pool_lru_list [OF ix])
  next
    case (Cons e l)
    obtain k kind where e: "e = (k, kind)" by (cases e)
    note front = pool_front [OF ix Cons [unfolded e]]
    let ?c = "evictStickyEntry k kind c"
    show ?thesis
    proof (cases "length (pool_entries p (sc_lru c)) \<ge> sc_maxEntriesPerPool c")
      case False
      then show ?thesis using Suc.prems by (simp add: pool_lru_list [OF ix])
    next
      case True
      then have step: "evict_pool_loop (Suc fuel) p c = evict_pool_loop fuel p ?c"
        using Cons e by (simp add: pool_lru_list [OF ix])
      have "sticky_inv ?c" using Suc.prems by (simp add: sticky_inv_evict)
      moreover have "length (sc_lru ?c) \<le> fuel"
        using length_lru_evict [OF ix front] Suc.prems(2) by simp
      ultimately show ?thesis
        using Suc.IH [of ?c] shrinks_trans [OF shrinks_evict [OF ix front]] unfolding step by simp
    qed
  qed
qed

lemma evict_global_loop_spec:
  assumes "sticky_inv c" and "length (sc_lru c) \<le> fuel"
  shows "sticky_inv (evict_global_loop fuel c) \<and> shrinks c (evict_global_loop fuel c)
    \<and> (0 < sc_maxEntries c \<longrightarrow> length (sc_lru (evict_global_loop fuel c)) < sc_maxEntries c)"
  using assms
proof (induction fuel arbitrary: c)
  case 0
  then show ?case by simp
next
  case (Suc fuel)
  have ix: "indexed c" using Suc.prems by (simp add: sticky_inv_def)
  show ?case
  proof (cases "sc_lru c")
    case Nil
    then show ?thesis using Suc.prems by simp
  next
    case (Cons e l)
    obtain k p kind where e: "e = (k, p, kind)" by (cases e)
    have front: "map_get (sc_lru c) k = Some (p, kind)" using Cons e by simp
    let ?c = "evictStickyEntry k kind c"
    show ?thesis
    proof (cases "length (sc_lru c) \<ge> sc_maxEntries c")
      case False
      then show ?thesis using Suc.prems by simp
    next
      case True
      then have step: "evict_global_loop (Suc fuel) c = evict_global_loop fuel ?c"
        using Cons e by simp
      have "sticky_inv ?c" using Suc.prems by (simp add: sticky_inv_evict)
      moreover have "length (sc_lru ?c) \<le> fuel"
        using length_lru_evict [OF ix front] Suc.prems(2) by simp
      ultimately show ?thesis
        using Suc.IH [of ?c] shrinks_trans [OF shrinks_evict [OF ix front]] unfolding step by simp
    qed
  qed
qed

text \<open>So both loops end by their own condition: there is room for one more entry.\<close>

lemma enforceStickyCapacity_spec:
  assumes "sticky_inv c"
  shows "sticky_inv (enforceStickyCapacity p c)"
    and "shrinks c (enforceStickyCapacity p c)"
    and "0 < sc_maxEntries c \<Longrightarrow> length (sc_lru (enforceStickyCapacity p c)) < sc_maxEntries c"
    and "0 < sc_maxEntriesPerPool c \<Longrightarrow>
         length (pool_entries p (sc_lru (enforceStickyCapacity p c))) < sc_maxEntriesPerPool c"
proof -
  let ?c1 = "evict_pool_loop (length (sc_lru c)) p c"
  have p: "sticky_inv ?c1" "shrinks c ?c1" "0 < sc_maxEntriesPerPool c \<Longrightarrow>
       length (pool_entries p (sc_lru ?c1)) < sc_maxEntriesPerPool c"
    using evict_pool_loop_spec [OF assms, of "length (sc_lru c)" p] by auto
  let ?c2 = "evict_global_loop (length (sc_lru ?c1)) ?c1"
  have g: "sticky_inv ?c2" "shrinks ?c1 ?c2" "0 < sc_maxEntries ?c1 \<Longrightarrow> length (sc_lru ?c2) < sc_maxEntries ?c1"
    using evict_global_loop_spec [OF p(1), of "length (sc_lru ?c1)"] by auto
  have eq: "enforceStickyCapacity p c = ?c2" by (simp add: enforceStickyCapacity_def Let_def)
  show "sticky_inv (enforceStickyCapacity p c)" using g eq by simp
  show "shrinks c (enforceStickyCapacity p c)" using shrinks_trans [OF p(2) g(2)] eq by simp
  show "0 < sc_maxEntries c \<Longrightarrow> length (sc_lru (enforceStickyCapacity p c)) < sc_maxEntries c"
    using g(3) p(2) eq by (simp add: shrinks_def)
  show "0 < sc_maxEntriesPerPool c \<Longrightarrow>
         length (pool_entries p (sc_lru (enforceStickyCapacity p c))) < sc_maxEntriesPerPool c"
  proof -
    have "length (pool_entries p (sc_lru ?c2)) \<le> length (pool_entries p (sc_lru ?c1))"
      using g(2) unfolding shrinks_def by blast
    then show "length (pool_entries p (sc_lru (enforceStickyCapacity p c))) < sc_maxEntriesPerPool c"
      if "0 < sc_maxEntriesPerPool c"
      using p(3) [OF that] unfolding eq by (rule le_less_trans)
  qed
qed

section \<open>The bounds\<close>

definition heap_limit :: "sticky_cache \<Rightarrow> nat" where
  "heap_limit c = sc_maxEntries c * 4 + 64"

definition sticky_bounded :: "sticky_cache \<Rightarrow> bool" where
  "sticky_bounded c \<longleftrightarrow>
     0 < sc_maxEntries c \<and> 0 < sc_maxEntriesPerPool c
     \<and> length (sc_lru c) \<le> sc_maxEntries c
     \<and> (\<forall>p. length (pool_entries p (sc_lru c)) \<le> sc_maxEntriesPerPool c)
     \<and> length (sc_stickyExpiry c) \<le> heap_limit c
     \<and> length (sc_failureExpiry c) \<le> heap_limit c"

definition sticky_ok :: "sticky_cache \<Rightarrow> bool" where
  "sticky_ok c \<longleftrightarrow> sticky_inv c \<and> sticky_bounded c"

lemma sticky_bounded_shrinks: "sticky_bounded c \<Longrightarrow> shrinks c c' \<Longrightarrow> sticky_bounded c'"
  by (auto simp: sticky_bounded_def shrinks_def heap_limit_def intro: order_trans)

lemma shrinks_deleteSticky: "indexed c \<Longrightarrow> shrinks c (deleteSticky k c)"
  by (auto simp: shrinks_def deleteSticky_eq length_map_delete_le pool_entries_delete split: if_splits)

lemma shrinks_deleteAvoidance: "indexed c \<Longrightarrow> shrinks c (deleteStickyFailureAvoidance k c)"
  by (auto simp: shrinks_def deleteStickyFailureAvoidance_eq length_map_delete_le pool_entries_delete
      split: if_splits)

lemma sticky_inv_indexed: "sticky_inv c \<Longrightarrow> indexed c"
  by (simp add: sticky_inv_def)

lemma sticky_ok_deleteSticky: "sticky_ok c \<Longrightarrow> sticky_ok (deleteSticky k c)"
  unfolding sticky_ok_def
  using sticky_inv_deleteSticky sticky_bounded_shrinks shrinks_deleteSticky sticky_inv_indexed by blast

lemma sticky_ok_deleteAvoidance: "sticky_ok c \<Longrightarrow> sticky_ok (deleteStickyFailureAvoidance k c)"
  unfolding sticky_ok_def
  using sticky_inv_deleteAvoidance sticky_bounded_shrinks shrinks_deleteAvoidance sticky_inv_indexed
  by blast

lemma sticky_bounded_heap:
  "sticky_bounded c \<Longrightarrow> length h \<le> length (sc_stickyExpiry c) \<Longrightarrow> sticky_bounded (c\<lparr>sc_stickyExpiry := h\<rparr>)"
  "sticky_bounded c \<Longrightarrow> length h \<le> length (sc_failureExpiry c) \<Longrightarrow> sticky_bounded (c\<lparr>sc_failureExpiry := h\<rparr>)"
  by (auto simp: sticky_bounded_def heap_limit_def)

lemma sticky_ok_drop_assignment:
  assumes "sticky_ok c" and "sc_stickyExpiry c = e # h" and "popExpiry (e # h) = (Some e, h')"
  shows "sticky_ok (drop_assignment e (c\<lparr>sc_stickyExpiry := h'\<rparr>))"
proof -
  let ?c = "c\<lparr>sc_stickyExpiry := h'\<rparr>"
  have "sticky_bounded ?c"
    using assms length_popExpiry [OF assms(3)] by (auto simp: sticky_ok_def intro: sticky_bounded_heap)
  moreover have "indexed ?c" using assms(1) by (simp add: sticky_ok_def sticky_inv_def)
  ultimately show ?thesis
    using sticky_inv_drop_assignment [OF _ assms(2,3)] assms(1) sticky_bounded_shrinks shrinks_deleteSticky
    by (auto simp: sticky_ok_def drop_assignment_def)
qed

lemma sticky_ok_drop_avoidance:
  assumes "sticky_ok c" and "sc_failureExpiry c = e # h" and "popExpiry (e # h) = (Some e, h')"
  shows "sticky_ok (drop_avoidance e (c\<lparr>sc_failureExpiry := h'\<rparr>))"
proof -
  let ?c = "c\<lparr>sc_failureExpiry := h'\<rparr>"
  have "sticky_bounded ?c"
    using assms length_popExpiry [OF assms(3)] by (auto simp: sticky_ok_def intro: sticky_bounded_heap)
  moreover have "indexed ?c" using assms(1) by (simp add: sticky_ok_def sticky_inv_def)
  ultimately show ?thesis
    using sticky_inv_drop_avoidance [OF _ assms(2,3)] assms(1) sticky_bounded_shrinks shrinks_deleteAvoidance
    by (auto simp: sticky_ok_def drop_avoidance_def)
qed

lemma drop_frame [simp, frame_simps]:
  "sc_maxEntries (drop_assignment e c) = sc_maxEntries c"
  "sc_maxEntriesPerPool (drop_assignment e c) = sc_maxEntriesPerPool c"
  "sc_maxEntries (drop_avoidance e c) = sc_maxEntries c"
  "sc_maxEntriesPerPool (drop_avoidance e c) = sc_maxEntriesPerPool c"
  by (simp_all add: drop_assignment_def drop_avoidance_def)

lemma sticky_ok_cleanup:
  assumes "sticky_ok c"
  shows "sticky_ok (cleanupExpiredSticky now c)"
    and "sc_maxEntries (cleanupExpiredSticky now c) = sc_maxEntries c"
    and "sc_maxEntriesPerPool (cleanupExpiredSticky now c) = sc_maxEntriesPerPool c"
proof -
  define same where "same c c' \<longleftrightarrow> (sticky_ok c \<longrightarrow> sticky_ok c') \<and> sc_maxEntries c' = sc_maxEntries c
    \<and> sc_maxEntriesPerPool c' = sc_maxEntriesPerPool c" for c c'
  have "same c (cleanup_assignments now c)" for c
    by (induction rule: cleanup_assignments_induct) (auto simp: same_def dest: sticky_ok_drop_assignment)
  moreover have "same c (cleanup_avoidances now c)" for c
    by (induction rule: cleanup_avoidances_induct) (auto simp: same_def dest: sticky_ok_drop_avoidance)
  ultimately have "same c (cleanupExpiredSticky now c)"
    unfolding cleanupExpiredSticky_def same_def by metis
  with assms show "sticky_ok (cleanupExpiredSticky now c)"
    and "sc_maxEntries (cleanupExpiredSticky now c) = sc_maxEntries c"
    and "sc_maxEntriesPerPool (cleanupExpiredSticky now c) = sc_maxEntriesPerPool c"
    by (auto simp: same_def)
qed

text \<open>The LRU holds each entry of the two primary maps once.\<close>

lemma length_primary_maps:
  assumes "indexed c"
  shows "length (sc_sticky c) + length (sc_avoidance c) \<le> length (sc_lru c)"
proof -
  note inv = indexedD [OF assms]
  let ?ks = "map_keys (sc_sticky c) @ map_keys (sc_avoidance c)"
  have dis: "k \<notin> set (map_keys (sc_avoidance c))" if "k \<in> set (map_keys (sc_sticky c))" for k
    using inv(4) [of k] that by (auto simp: map_get_None_iff)
  have "distinct ?ks"
    using inv(1,2) dis by (auto simp: map_wf_def)
  moreover have "set ?ks \<subseteq> set (map_keys (sc_lru c))"
  proof
    fix k
    assume "k \<in> set ?ks"
    then have "map_get (sc_sticky c) k \<noteq> None \<or> map_get (sc_avoidance c) k \<noteq> None"
      unfolding map_get_None_iff by auto
    then have "map_get (sc_lru c) k \<noteq> None"
      using inv(5) [of k]
      by (cases "map_get (sc_sticky c) k"; cases "map_get (sc_avoidance c) k") (auto simp: lru_entry_def)
    then show "k \<in> set (map_keys (sc_lru c))" unfolding map_get_None_iff by simp
  qed
  ultimately have "length ?ks \<le> length (map_keys (sc_lru c))"
    by (metis card_length card_mono distinct_card finite_set order_trans)
  then show ?thesis by simp
qed

section \<open>Setting an entry\<close>

definition make_room :: "real \<Rightarrow> string \<Rightarrow> string \<Rightarrow> sticky_cache \<Rightarrow> sticky_cache" where
  "make_room now k p c =
     enforceStickyCapacity p
       (deleteStickyFailureAvoidance k (deleteSticky k (cleanupExpiredSticky now c)))"

lemma make_room_spec:
  assumes "sticky_ok c"
  shows "sticky_ok (make_room now k p c)"
    and "map_get (sc_sticky (make_room now k p c)) k = None"
    and "map_get (sc_avoidance (make_room now k p c)) k = None"
    and "length (sc_lru (make_room now k p c)) < sc_maxEntries (make_room now k p c)"
    and "length (pool_entries p (sc_lru (make_room now k p c))) < sc_maxEntriesPerPool (make_room now k p c)"
    and "sc_maxEntries (make_room now k p c) = sc_maxEntries c"
    and "map_get (sc_sticky (make_room now k p c)) j = Some x \<Longrightarrow>
         map_get (sc_sticky c) j = Some x \<and> now < se_expiresAt x"
    and "map_get (sc_avoidance (make_room now k p c)) j = Some x \<Longrightarrow>
         map_get (sc_avoidance c) j = Some x \<and> now < se_expiresAt x"
proof -
  let ?c1 = "cleanupExpiredSticky now c"
  let ?c3 = "deleteStickyFailureAvoidance k (deleteSticky k ?c1)"
  let ?c4 = "make_room now k p c"
  have inv: "sticky_inv c" using assms by (simp add: sticky_ok_def)
  have c3: "sticky_ok ?c3"
    using assms by (intro sticky_ok_deleteAvoidance sticky_ok_deleteSticky sticky_ok_cleanup)
  then have c3i: "sticky_inv ?c3" and b3: "sticky_bounded ?c3" by (simp_all add: sticky_ok_def)
  note e = enforceStickyCapacity_spec [OF c3i, of p]
  have eq: "?c4 = enforceStickyCapacity p ?c3" by (simp add: make_room_def)
  have sh: "shrinks ?c3 ?c4" using e(2) eq by simp
  show "sticky_ok ?c4" using e(1) sticky_bounded_shrinks [OF b3 sh] eq by (simp add: sticky_ok_def)
  have kept_sticky: "map_get (sc_sticky ?c3) j = Some x" if "map_get (sc_sticky ?c4) j = Some x" for j x
    using sh that by (auto simp: shrinks_def)
  have kept_avoidance: "map_get (sc_avoidance ?c3) j = Some x" if "map_get (sc_avoidance ?c4) j = Some x" for j x
    using sh that by (auto simp: shrinks_def)
  have s3: "map_get (sc_sticky ?c3) j = (if j = k then None else map_get (sc_sticky ?c1) j)" for j
    by (simp add: map_get_deleteSticky)
  have a3: "map_get (sc_avoidance ?c3) j = (if j = k then None else map_get (sc_avoidance ?c1) j)" for j
    by (simp add: map_get_deleteAvoidance)
  show "map_get (sc_sticky ?c4) k = None"
    using kept_sticky [of k] s3 [of k] by (cases "map_get (sc_sticky ?c4) k") auto
  show "map_get (sc_avoidance ?c4) k = None"
    using kept_avoidance [of k] a3 [of k] by (cases "map_get (sc_avoidance ?c4) k") auto
  have max: "sc_maxEntries ?c4 = sc_maxEntries ?c3" "sc_maxEntriesPerPool ?c4 = sc_maxEntriesPerPool ?c3"
    using sh by (simp_all add: shrinks_def)
  show "length (sc_lru ?c4) < sc_maxEntries ?c4"
    using e(3) b3 max eq by (simp add: sticky_bounded_def)
  show "length (pool_entries p (sc_lru ?c4)) < sc_maxEntriesPerPool ?c4"
    using e(4) b3 max eq by (simp add: sticky_bounded_def)
  show "sc_maxEntries ?c4 = sc_maxEntries c"
    using max sticky_ok_cleanup [OF assms] by simp
  show "map_get (sc_sticky ?c4) j = Some x \<Longrightarrow> map_get (sc_sticky c) j = Some x \<and> now < se_expiresAt x"
    using kept_sticky [of j x] s3 [of j] cleanupExpiredSticky_spec(2) [OF inv, of now]
    by (auto simp: unexpired_def split: if_splits option.splits)
  show "map_get (sc_avoidance ?c4) j = Some x \<Longrightarrow> map_get (sc_avoidance c) j = Some x \<and> now < se_expiresAt x"
    using kept_avoidance [of j x] a3 [of j] cleanupExpiredSticky_spec(3) [OF inv, of now]
    by (auto simp: unexpired_def split: if_splits option.splits)
qed

text \<open>The two insertions, on a cache with room.\<close>

definition insert_assignment :: "string \<Rightarrow> sticky_entry \<Rightarrow> sticky_cache \<Rightarrow> sticky_cache" where
  "insert_assignment k e c =
     (let c6 = touchStickyLru k (se_poolId e) Assignment
            (c\<lparr>sc_sticky := map_set (sc_sticky c) k e,
               sc_stickyKeysByAccount := (sc_stickyKeysByAccount c)(se_accountId e \<mapsto>
                 add_account_key k (se_accountId e) c)\<rparr>)
      in c6\<lparr>sc_stickyExpiry := compactExpiryHeap
              (pushExpiry (sc_stickyExpiry c) \<lparr>ex_key = k, ex_expiresAt = se_expiresAt e\<rparr>)
              (live_expiries (map_set (sc_sticky c) k e))\<rparr>)"

definition insert_avoidance :: "string \<Rightarrow> sticky_entry \<Rightarrow> sticky_cache \<Rightarrow> sticky_cache" where
  "insert_avoidance k e c =
     (let c6 = touchStickyLru k (se_poolId e) Avoidance
            (c\<lparr>sc_avoidance := map_set (sc_avoidance c) k e\<rparr>)
      in c6\<lparr>sc_failureExpiry := compactExpiryHeap
              (pushExpiry (sc_failureExpiry c) \<lparr>ex_key = k, ex_expiresAt = se_expiresAt e\<rparr>)
              (live_expiries (map_set (sc_avoidance c) k e))\<rparr>)"

lemma setSticky_alt: "setSticky now k e c = insert_assignment k e (make_room now k (se_poolId e) c)"
  by (simp add: setSticky_def insert_assignment_def make_room_def add_account_key_def Let_def)

lemma setStickyFailureAvoidance_alt:
  "setStickyFailureAvoidance now k e c = insert_avoidance k e (make_room now k (se_poolId e) c)"
  by (simp add: setStickyFailureAvoidance_def insert_avoidance_def make_room_def Let_def)

lemma lru_absent:
  "indexed c \<Longrightarrow> map_get (sc_sticky c) k = None \<Longrightarrow> map_get (sc_avoidance c) k = None
   \<Longrightarrow> map_get (sc_lru c) k = None"
  using indexedD(5) [of c k] by (simp add: lru_entry_def)

lemma lru_touch_new:
  assumes "indexed c" and "map_get (sc_sticky c) k = None" and "map_get (sc_avoidance c) k = None"
    and "sc_lru d = sc_lru c" and "sc_lruByPool d = sc_lruByPool c"
  shows "sc_lru (touchStickyLru k p x d) = sc_lru c @ [(k, p, x)]"
  using touchStickyLru_view [of d k p x] indexedD(3,6) [OF assms(1)] lru_absent [OF assms(1-3)] assms(4,5)
  by (simp add: delete_absent)

lemma room_for_one:
  assumes "sticky_bounded c" and "length (sc_lru c) < sc_maxEntries c"
    and "length (pool_entries p (sc_lru c)) < sc_maxEntriesPerPool c"
    and "sc_lru d = sc_lru c @ [(k, p, x)]" and "sc_maxEntries d = sc_maxEntries c"
    and "sc_maxEntriesPerPool d = sc_maxEntriesPerPool c"
    and "length (sc_stickyExpiry d) \<le> heap_limit c" and "length (sc_failureExpiry d) \<le> heap_limit c"
  shows "sticky_bounded d"
  using assms by (auto simp: sticky_bounded_def heap_limit_def pool_entries_append)

lemma length_map_update_le: "length (map_set m k v) \<le> Suc (length m)"
  by (simp add: length_map_set)

lemma length_live_expiries [simp]: "length (live_expiries m) = length m"
  by (simp add: live_expiries_def)

lemma compact_within_limit:
  assumes "indexed c" and "length (sc_lru c) < sc_maxEntries c"
  shows "length (compactExpiryHeap h (live_expiries (map_set (sc_sticky c) k e))) \<le> heap_limit c"
    and "length (compactExpiryHeap h (live_expiries (map_set (sc_avoidance c) k e))) \<le> heap_limit c"
proof -
  have "length (sc_sticky c) < sc_maxEntries c" and "length (sc_avoidance c) < sc_maxEntries c"
    using length_primary_maps [OF assms(1)] assms(2) by simp_all
  then have "length (map_set (sc_sticky c) k e) \<le> sc_maxEntries c"
    and "length (map_set (sc_avoidance c) k e) \<le> sc_maxEntries c"
    using length_map_update_le [of k e "sc_sticky c"] length_map_update_le [of k e "sc_avoidance c"]
    by simp_all
  then show "length (compactExpiryHeap h (live_expiries (map_set (sc_sticky c) k e))) \<le> heap_limit c"
    and "length (compactExpiryHeap h (live_expiries (map_set (sc_avoidance c) k e))) \<le> heap_limit c"
    using length_compactExpiryHeap [of h "live_expiries (map_set (sc_sticky c) k e)"]
      length_compactExpiryHeap [of h "live_expiries (map_set (sc_avoidance c) k e)"]
    by (simp_all add: heap_limit_def)
qed

lemma sticky_ok_insert_assignment:
  assumes "sticky_ok c" and "map_get (sc_sticky c) k = None" and "map_get (sc_avoidance c) k = None"
    and "length (sc_lru c) < sc_maxEntries c"
    and "length (pool_entries (se_poolId e) (sc_lru c)) < sc_maxEntriesPerPool c"
  shows "sticky_ok (insert_assignment k e c)"
proof -
  have inv: "indexed c" "has_expiry (sc_stickyExpiry c) (sc_sticky c)"
      "has_expiry (sc_failureExpiry c) (sc_avoidance c)" "sticky_bounded c"
    using assms(1) by (simp_all add: sticky_ok_def sticky_inv_def)
  have "indexed (insert_assignment k e c)"
    using indexed_insert_assignment [OF inv(1) assms(2,3)] by (simp add: insert_assignment_def Let_def)
  then have "sticky_inv (insert_assignment k e c)"
    using has_expiry_push [OF inv(2)] inv(3) by (simp add: sticky_inv_def insert_assignment_def Let_def)
  moreover have "sticky_bounded (insert_assignment k e c)"
    by (rule room_for_one [OF inv(4) assms(4,5), where k = k and x = Assignment])
      (use lru_touch_new [OF inv(1) assms(2,3)] compact_within_limit [OF inv(1) assms(4)] inv(4) in
        \<open>simp_all add: insert_assignment_def Let_def sticky_bounded_def\<close>)
  ultimately show ?thesis by (simp add: sticky_ok_def)
qed

lemma sticky_ok_insert_avoidance:
  assumes "sticky_ok c" and "map_get (sc_sticky c) k = None" and "map_get (sc_avoidance c) k = None"
    and "length (sc_lru c) < sc_maxEntries c"
    and "length (pool_entries (se_poolId e) (sc_lru c)) < sc_maxEntriesPerPool c"
  shows "sticky_ok (insert_avoidance k e c)"
proof -
  have inv: "indexed c" "has_expiry (sc_stickyExpiry c) (sc_sticky c)"
      "has_expiry (sc_failureExpiry c) (sc_avoidance c)" "sticky_bounded c"
    using assms(1) by (simp_all add: sticky_ok_def sticky_inv_def)
  have "indexed (insert_avoidance k e c)"
    using indexed_insert_avoidance [OF inv(1) assms(2,3)] by (simp add: insert_avoidance_def Let_def)
  then have "sticky_inv (insert_avoidance k e c)"
    using has_expiry_push [OF inv(3)] inv(2) by (simp add: sticky_inv_def insert_avoidance_def Let_def)
  moreover have "sticky_bounded (insert_avoidance k e c)"
    by (rule room_for_one [OF inv(4) assms(4,5), where k = k and x = Avoidance])
      (use lru_touch_new [OF inv(1) assms(2,3)] compact_within_limit [OF inv(1) assms(4)] inv(4) in
        \<open>simp_all add: insert_avoidance_def Let_def sticky_bounded_def\<close>)
  ultimately show ?thesis by (simp add: sticky_ok_def)
qed

lemma sticky_ok_setSticky: "sticky_ok c \<Longrightarrow> sticky_ok (setSticky now k e c)"
  unfolding setSticky_alt by (intro sticky_ok_insert_assignment make_room_spec)

lemma sticky_ok_setAvoidance: "sticky_ok c \<Longrightarrow> sticky_ok (setStickyFailureAvoidance now k e c)"
  unfolding setStickyFailureAvoidance_alt by (intro sticky_ok_insert_avoidance make_room_spec)

lemma map_get_setSticky: "map_get (sc_sticky (setSticky now k e c)) k = Some e"
  unfolding setSticky_alt by (simp add: insert_assignment_def Let_def)

lemma map_get_setAvoidance:
  "map_get (sc_avoidance (setStickyFailureAvoidance now k e c)) k = Some e"
  unfolding setStickyFailureAvoidance_alt by (simp add: insert_avoidance_def Let_def)

lemma setSticky_others:
  assumes "sticky_ok c" and "j \<noteq> k" and "map_get (sc_sticky (setSticky now k e c)) j = Some x"
  shows "map_get (sc_sticky c) j = Some x \<and> now < se_expiresAt x"
  using make_room_spec(7) [OF assms(1)] assms(2,3)
  by (simp add: setSticky_alt insert_assignment_def Let_def)

lemma setAvoidance_assignments:
  assumes "sticky_ok c" and "map_get (sc_sticky (setStickyFailureAvoidance now k e c)) j = Some x"
  shows "j \<noteq> k \<and> map_get (sc_sticky c) j = Some x \<and> now < se_expiresAt x"
proof -
  have get: "map_get (sc_sticky (make_room now k (se_poolId e) c)) j = Some x"
    using assms(2) by (simp add: setStickyFailureAvoidance_alt insert_avoidance_def Let_def)
  moreover have "j \<noteq> k"
    using get make_room_spec(2) [OF assms(1), of now k "se_poolId e"] by auto
  ultimately show ?thesis using make_room_spec(7) [OF assms(1)] by blast
qed

lemma Suc_length_map_delete:
  "map_wf m \<Longrightarrow> map_get m k = Some v \<Longrightarrow> Suc (length (map_delete m k)) = length m"
  by (cases "m = []") (simp_all add: length_map_delete)

lemma sticky_ok_touch:
  assumes "sticky_ok c" and "map_get (sc_lru c) k = Some (p, kind)"
  shows "sticky_ok (touchStickyLru k p kind c)"
proof -
  have inv: "sticky_inv c" "indexed c" "sticky_bounded c"
    using assms(1) by (simp_all add: sticky_ok_def sticky_inv_def)
  note wf = indexedD(3,6) [OF inv(2)]
  have lru: "sc_lru (touchStickyLru k p kind c) = map_delete (sc_lru c) k @ [(k, p, kind)]"
    by (simp add: touchStickyLru_view [OF wf])
  have "length (map_delete (sc_lru c) k @ [(k, p, kind)]) = length (sc_lru c)"
    using Suc_length_map_delete [OF wf(1) assms(2)] by simp
  moreover have "length (pool_entries q (map_delete (sc_lru c) k @ [(k, p, kind)]))
      \<le> length (pool_entries q (sc_lru c))" for q
  proof (cases "q = p")
    case False
    then show ?thesis by (simp add: pool_entries_append pool_entries_delete length_map_delete_le)
  next
    case True
    have "map_get (pool_entries p (sc_lru c)) k = Some kind"
      using map_get_pool_entries [OF wf(1)] assms(2) by blast
    then have "Suc (length (map_delete (pool_entries p (sc_lru c)) k)) = length (pool_entries p (sc_lru c))"
      by (intro Suc_length_map_delete map_wf_pool_entries wf(1))
    then show ?thesis using True by (simp add: pool_entries_append pool_entries_delete)
  qed
  ultimately have "sticky_bounded (touchStickyLru k p kind c)"
    using inv(3) by (auto simp: sticky_bounded_def lru heap_limit_def intro: order_trans)
  with sticky_inv_touch [OF inv(1) assms(2)] show ?thesis by (simp add: sticky_ok_def)
qed

section \<open>Failures\<close>

lemma sticky_ok_recordStickyFailure:
  "sticky_ok c \<Longrightarrow> sticky_ok (snd (recordStickyFailure now p sid a c))"
  unfolding recordStickyFailure_def Let_def
  by (simp add: sticky_ok_cleanup sticky_ok_deleteSticky sticky_ok_setAvoidance split: option.split)

text \<open>One round of the loop over an account's sessions.\<close>

lemma dropAccountAssignments_spec:
  "sticky_ok c \<Longrightarrow>
     sticky_ok (dropAccountAssignments now a ks c)
     \<and> (\<forall>k e. map_get (sc_sticky (dropAccountAssignments now a ks c)) k = Some e
          \<longrightarrow> map_get (sc_sticky c) k = Some e \<and> (k \<in> set ks \<longrightarrow> se_accountId e \<noteq> a))"
proof (induction ks arbitrary: c)
  case Nil
  then show ?case by simp
next
  case (Cons key ks)
  let ?c = "case map_get (sc_sticky c) key of
       None \<Rightarrow> c
     | Some assignment \<Rightarrow>
         if se_accountId assignment \<noteq> a then c
         else
           let c1 = deleteSticky key c
           in if se_expiresAt assignment > now then
                setStickyFailureAvoidance now key
                  \<lparr>se_poolId = se_poolId assignment, se_accountId = a,
                   se_expiresAt = se_expiresAt assignment\<rparr> c1
              else c1"
  have ok: "sticky_ok ?c"
    using Cons.prems
    by (simp add: Let_def sticky_ok_deleteSticky sticky_ok_setAvoidance split: option.split)
  have sub: "map_get (sc_sticky c) k = Some e \<and> (k = key \<longrightarrow> se_accountId e \<noteq> a)"
    if "map_get (sc_sticky ?c) k = Some e" for k e
  proof (cases "map_get (sc_sticky c) key")
    case None
    with that show ?thesis by auto
  next
    case (Some x)
    let ?d = "deleteSticky key c"
    show ?thesis
    proof (cases "se_accountId x \<noteq> a")
      case True
      with that Some show ?thesis by auto
    next
      case False
      have "map_get (sc_sticky ?d) k = Some e"
      proof (cases "se_expiresAt x > now")
        case True
        with False Some that show ?thesis
          using setAvoidance_assignments [OF sticky_ok_deleteSticky [OF Cons.prems]] by simp
      next
        case False
        with \<open>\<not> se_accountId x \<noteq> a\<close> Some that show ?thesis by simp
      qed
      then show ?thesis by (simp add: map_get_deleteSticky split: if_splits)
    qed
  qed
  have step: "dropAccountAssignments now a (key # ks) c = dropAccountAssignments now a ks ?c"
    by simp
  note IH = Cons.IH [OF ok]
  show ?case
    unfolding step
  proof (intro conjI allI impI)
    show "sticky_ok (dropAccountAssignments now a ks ?c)" using IH by blast
    fix k e
    assume "map_get (sc_sticky (dropAccountAssignments now a ks ?c)) k = Some e"
    then have k: "map_get (sc_sticky ?c) k = Some e" "k \<in> set ks \<longrightarrow> se_accountId e \<noteq> a"
      using IH by blast+
    from sub [OF k(1)] show "map_get (sc_sticky c) k = Some e" by blast
    assume "k \<in> set (key # ks)"
    with sub [OF k(1)] k(2) show "se_accountId e \<noteq> a" by auto
  qed
qed

lemma failAccountAssignments_spec:
  assumes "sticky_ok c"
  shows "sticky_ok (failAccountAssignments now a c)"
    and "map_get (sc_sticky (failAccountAssignments now a c)) k = Some e \<Longrightarrow>
         map_get (sc_sticky c) k = Some e \<and> now < se_expiresAt e \<and> se_accountId e \<noteq> a"
proof -
  let ?c = "cleanupExpiredSticky now c"
  let ?ks = "case sc_stickyKeysByAccount ?c a of None \<Rightarrow> [] | Some ks \<Rightarrow> ks"
  have ok: "sticky_ok ?c" using assms by (rule sticky_ok_cleanup)
  then have ix: "indexed ?c" by (simp add: sticky_ok_def sticky_inv_def)
  have keys: "?ks = account_keys a (sc_sticky ?c)"
    by (simp add: indexedD(7) [OF ix] account_view_def)
  have eq: "failAccountAssignments now a c = dropAccountAssignments now a ?ks ?c"
    by (simp add: failAccountAssignments_def Let_def)
  note spec = dropAccountAssignments_spec [OF ok, of now a ?ks]
  show "sticky_ok (failAccountAssignments now a c)" using spec unfolding eq by blast
  assume "map_get (sc_sticky (failAccountAssignments now a c)) k = Some e"
  then have get: "map_get (sc_sticky ?c) k = Some e" and out: "k \<in> set ?ks \<longrightarrow> se_accountId e \<noteq> a"
    using spec unfolding eq by blast+
  have "sticky_inv c" using assms by (simp add: sticky_ok_def)
  from get have "map_get (sc_sticky c) k = Some e \<and> now < se_expiresAt e"
    using cleanupExpiredSticky_spec(2) [OF \<open>sticky_inv c\<close>, of now]
    by (auto simp: unexpired_def split: option.splits if_splits)
  moreover have "se_accountId e \<noteq> a"
    using out get account_keys_iff [OF indexedD(1) [OF ix], of k a] unfolding keys by auto
  ultimately show "map_get (sc_sticky c) k = Some e \<and> now < se_expiresAt e \<and> se_accountId e \<noteq> a"
    by blast
qed

lemma sticky_ok_empty: "0 < m \<Longrightarrow> 0 < n \<Longrightarrow> sticky_ok (empty_sticky_cache m n)"
  by (auto simp: sticky_ok_def sticky_inv_def indexed_def sticky_bounded_def empty_sticky_cache_def
      has_expiry_def lru_entry_def pool_view_def pool_entries_def account_view_def account_keys_def
      fun_eq_iff heap_limit_def)

lemma sticky_ok_clearSticky: "sticky_ok c \<Longrightarrow> sticky_ok (clearSticky c)"
  unfolding clearSticky_def by (rule sticky_ok_empty) (auto simp: sticky_ok_def sticky_bounded_def)

end
