(* ===== verification/Capabilities.thy ===== *)
theory Capabilities
  imports Domain_Types
begin

text \<open>
  \<^verbatim>\<open>src/shared/source-capabilities.ts\<close>: the capability profile a provider is assumed to
  have, its normalisation against a persisted profile, and the model catalogue with
  per-model overrides.
\<close>

section \<open>Flags\<close>

definition capabilityKeys :: "capability list" where
  "capabilityKeys =
     [Cap_streaming, Cap_nonStreaming, Cap_toolCalls, Cap_modelDiscovery, Cap_imageInput,
      Cap_imageGeneration, Cap_imageEdit, Cap_videoGeneration, Cap_videoEdit, Cap_live,
      Cap_webSearch, Cap_compact, Cap_websocket, Cap_promptCaching, Cap_reasoning, Cap_store,
      Cap_previousResponseId, Cap_parallelToolCalls]"

lemma capabilityKeys_complete [simp]: "c \<in> set capabilityKeys"
  by (cases c) (simp_all add: capabilityKeys_def)

lemma distinct_capabilityKeys: "distinct capabilityKeys"
  by (simp add: capabilityKeys_def)

text \<open>The loop that copies every boolean flag, key by key, into an empty object.\<close>

fun copy_flags :: "capability list \<Rightarrow> capability_flags \<Rightarrow> capability_flags \<Rightarrow> capability_flags" where
  "copy_flags [] src acc = acc"
| "copy_flags (k # ks) src acc =
     copy_flags ks src (case src k of None \<Rightarrow> acc | Some b \<Rightarrow> acc(k \<mapsto> b))"

lemma copy_flags_lookup:
  "copy_flags ks src acc c = (if c \<in> set ks \<and> src c \<noteq> None then src c else acc c)"
  by (induction ks arbitrary: acc) (auto split: option.splits)

lemma copy_all_flags [simp]: "copy_flags capabilityKeys src Map.empty = src"
  by (rule ext) (auto simp: copy_flags_lookup)

definition has_flags :: "capability_flags \<Rightarrow> bool" where
  "has_flags m = list_ex (\<lambda>k. m k \<noteq> None) capabilityKeys"

section \<open>Inference\<close>

record capability_input =
  ci_protocol :: protocol
  ci_kind :: "provider_kind option"
  ci_sourceType :: "source_type option"
  ci_responsesCompactMode :: "responses_compact_mode option"
  ci_modelDiscovery :: "bool option"
  ci_streaming :: "bool option"
  ci_toolCalls :: "bool option"
  ci_origin :: "profile_origin option"
  ci_checkedAt :: "real option"

definition inferUpstreamCapabilities :: "capability_input \<Rightarrow> capability_profile" where
  "inferUpstreamCapabilities i =
     (let responses = (ci_protocol i = Openai_Responses);
          kiroClaude = (ci_protocol i = Kiro_Claude);
          officialResponses =
            (responses \<and> ci_sourceType i = Some Official_Api \<and> ci_kind i = Some K_openai);
          nativeGrok =
            (ci_kind i = Some K_xai
             \<and> (ci_sourceType i = Some Official_Api \<or> ci_sourceType i = Some Oauth_System));
          deepSeekResponses =
            (responses \<and> (ci_kind i = Some K_deepseek \<or> ci_kind i = Some K_deepseek_compatible));
          compact =
            (if deepSeekResponses then False
             else if responses then
               officialResponses
               \<or> ci_responsesCompactMode i = Some Compact_Auto
               \<or> ci_responsesCompactMode i = Some Compact_Native
               \<or> ci_responsesCompactMode i = Some Compact_Passthrough
               \<or> ci_responsesCompactMode i = Some Compact_Legacy
             else False);
          base = Map.empty
            (Cap_streaming := Some (case ci_streaming i of Some b \<Rightarrow> b | None \<Rightarrow> True),
             Cap_nonStreaming := Some True,
             Cap_toolCalls := Some (case ci_toolCalls i of Some b \<Rightarrow> b | None \<Rightarrow> \<not> kiroClaude),
             Cap_modelDiscovery :=
               (case ci_modelDiscovery i of
                  Some b \<Rightarrow> Some b
                | None \<Rightarrow> if kiroClaude then Some False else None),
             Cap_compact := Some compact);
          official =
            (if officialResponses then
               [Cap_webSearch \<mapsto> True, Cap_reasoning \<mapsto> True, Cap_store \<mapsto> True,
                Cap_previousResponseId \<mapsto> True, Cap_parallelToolCalls \<mapsto> True,
                Cap_websocket \<mapsto> True]
             else Map.empty);
          deepseek =
            (if deepSeekResponses then
               [Cap_imageInput \<mapsto> False, Cap_webSearch \<mapsto> True, Cap_promptCaching \<mapsto> False,
                Cap_reasoning \<mapsto> True, Cap_store \<mapsto> False, Cap_previousResponseId \<mapsto> False,
                Cap_parallelToolCalls \<mapsto> True]
             else Map.empty);
          grok =
            (if nativeGrok then
               [Cap_imageGeneration \<mapsto> True, Cap_imageEdit \<mapsto> True,
                Cap_videoGeneration \<mapsto> True, Cap_videoEdit \<mapsto> True]
             else Map.empty)
      in \<lparr>prof_version = 1,
          prof_origin = (case ci_origin i of Some x \<Rightarrow> x | None \<Rightarrow> Inferred),
          prof_checkedAt = ci_checkedAt i,
          prof_flags = base ++ official ++ deepseek ++ grok\<rparr>)"

section \<open>Normalisation\<close>

definition normalizeCapabilityProfile ::
  "capability_profile option \<Rightarrow> capability_profile \<Rightarrow> capability_profile" where
  "normalizeCapabilityProfile value fallback =
     (case value of
        None \<Rightarrow> fallback
      | Some v \<Rightarrow>
          if prof_version v \<noteq> 1 then fallback
          else
            \<lparr>prof_version = 1,
             prof_origin =
               (if prof_origin v = Declared \<or> prof_origin v = Probed then prof_origin v
                else prof_origin fallback),
             prof_checkedAt =
               (case prof_checkedAt v of
                  Some c \<Rightarrow> if c > 0 then Some (js_floor c) else prof_checkedAt fallback
                | None \<Rightarrow> prof_checkedAt fallback),
             prof_flags =
               prof_flags fallback ++ copy_flags capabilityKeys (prof_flags v) Map.empty\<rparr>)"

definition effectiveProviderCapabilities :: "provider \<Rightarrow> capability_profile" where
  "effectiveProviderCapabilities p =
     (let fallback = inferUpstreamCapabilities
            \<lparr>ci_protocol = prov_protocol p,
             ci_kind = Some (prov_kind p),
             ci_sourceType = Some (prov_sourceType p),
             ci_responsesCompactMode = prov_responsesCompactMode p,
             ci_modelDiscovery = None,
             ci_streaming = None,
             ci_toolCalls = None,
             ci_origin = None,
             ci_checkedAt = None\<rparr>
      in normalizeCapabilityProfile (prov_capabilityProfile p) fallback)"

section \<open>Model catalogues\<close>

definition positiveInteger :: "real option \<Rightarrow> real option" where
  "positiveInteger v =
     (case v of None \<Rightarrow> None | Some x \<Rightarrow> if js_floor x = x \<and> x > 0 then Some x else None)"

definition buildModelCatalog ::
  "string list \<Rightarrow> capability_profile \<Rightarrow> real option \<Rightarrow> model_definition list" where
  "buildModelCatalog models profile discoveredAt =
     (let capabilities = copy_flags capabilityKeys (prof_flags profile) Map.empty
      in map (\<lambda>key. \<lparr>mdl_id = key,
                    mdl_displayName = None,
                    mdl_contextWindow = None,
                    mdl_maxOutputTokens = None,
                    mdl_capabilities = (if has_flags capabilities then Some capabilities else None),
                    mdl_discoveredAt = discoveredAt\<rparr>)
           (unique (filter (\<lambda>m. m \<noteq> []) (map js_trim models))))"

definition normalizeModelItem :: "string \<Rightarrow> model_definition \<Rightarrow> model_definition" where
  "normalizeModelItem key item =
     (let capabilities =
            (case mdl_capabilities item of
               None \<Rightarrow> Map.empty
             | Some c \<Rightarrow> copy_flags capabilityKeys c Map.empty)
      in \<lparr>mdl_id = key,
          mdl_displayName =
            (case mdl_displayName item of
               None \<Rightarrow> None
             | Some d \<Rightarrow> if js_trim d \<noteq> [] then Some (take 128 (js_trim d)) else None),
          mdl_contextWindow = positiveInteger (mdl_contextWindow item),
          mdl_maxOutputTokens = positiveInteger (mdl_maxOutputTokens item),
          mdl_capabilities = (if has_flags capabilities then Some capabilities else None),
          mdl_discoveredAt = positiveInteger (mdl_discoveredAt item)\<rparr>)"

fun collect_catalog ::
  "model_definition list \<Rightarrow> (string, model_definition) js_map \<Rightarrow> (string, model_definition) js_map" where
  "collect_catalog [] byId = byId"
| "collect_catalog (item # items) byId =
     (let key = js_trim (mdl_id item)
      in if key = [] \<or> length key > 256 \<or> map_get byId key \<noteq> None then collect_catalog items byId
         else collect_catalog items (map_set byId key (normalizeModelItem key item)))"

fun add_inferred ::
  "model_definition list \<Rightarrow> (string, model_definition) js_map \<Rightarrow> (string, model_definition) js_map" where
  "add_inferred [] byId = byId"
| "add_inferred (item # items) byId =
     add_inferred items
       (if map_get byId (mdl_id item) = None then map_set byId (mdl_id item) item else byId)"

definition normalizeModelCatalog ::
  "model_definition list option \<Rightarrow> string list \<Rightarrow> capability_profile \<Rightarrow> model_definition list" where
  "normalizeModelCatalog value models fallbackProfile =
     (let byId = collect_catalog (case value of None \<Rightarrow> [] | Some v \<Rightarrow> v) [];
          inferred = buildModelCatalog models fallbackProfile None
      in map snd (add_inferred inferred byId))"

definition providerModelCapabilities :: "provider \<Rightarrow> string option \<Rightarrow> capability_flags" where
  "providerModelCapabilities p model =
     (let profile = effectiveProviderCapabilities p;
          selected =
            (case truthy model of
               None \<Rightarrow> None
             | Some m \<Rightarrow>
                 (case prov_modelCatalog p of
                    None \<Rightarrow> None
                  | Some catalog \<Rightarrow> find (\<lambda>item. mdl_id item = m) catalog))
      in prof_flags profile ++
           (case selected of
              None \<Rightarrow> Map.empty
            | Some item \<Rightarrow> (case mdl_capabilities item of None \<Rightarrow> Map.empty | Some c \<Rightarrow> c)))"

section \<open>Properties\<close>

text \<open>A persisted flag always wins over the inferred one; an absent flag falls back.\<close>

lemma normalizeCapabilityProfile_flags:
  assumes "prof_version v = 1"
  shows "prof_flags (normalizeCapabilityProfile (Some v) f) c =
    (case prof_flags v c of None \<Rightarrow> prof_flags f c | Some b \<Rightarrow> Some b)"
  using assms by (simp add: normalizeCapabilityProfile_def map_add_def split: option.splits)

lemma normalizeCapabilityProfile_None [simp]: "normalizeCapabilityProfile None f = f"
  by (simp add: normalizeCapabilityProfile_def)

lemma collect_catalog_wf: "map_wf m \<Longrightarrow> map_wf (collect_catalog items m)"
  by (induction items arbitrary: m) (auto simp: Let_def)

lemma collect_catalog_keeps:
  "map_get m k \<noteq> None \<Longrightarrow> map_get (collect_catalog items m) k = map_get m k"
  by (induction items arbitrary: m) (auto simp: Let_def)

lemma add_inferred_wf: "map_wf m \<Longrightarrow> map_wf (add_inferred items m)"
  by (induction items arbitrary: m) auto

lemma add_inferred_lookup:
  "map_get (add_inferred items m) k =
     (case map_get m k of Some v \<Rightarrow> Some v | None \<Rightarrow> find (\<lambda>i. mdl_id i = k) items)"
  by (induction items arbitrary: m) (auto split: option.splits)

definition keyed_by_id :: "(string, model_definition) js_map \<Rightarrow> bool" where
  "keyed_by_id m = list_all (\<lambda>(k, item). mdl_id item = k) m"

lemma set_map_set_subset: "set (map_set m k v) \<subseteq> insert (k, v) (set m)"
  by (induction m) auto

lemma keyed_by_id_set: "keyed_by_id m \<Longrightarrow> mdl_id item = k \<Longrightarrow> keyed_by_id (map_set m k item)"
  using set_map_set_subset [of k item m] by (auto simp: keyed_by_id_def list_all_iff)

lemma normalizeModelItem_id [simp]: "mdl_id (normalizeModelItem key item) = key"
  by (simp add: normalizeModelItem_def Let_def)

lemma collect_catalog_keyed: "keyed_by_id m \<Longrightarrow> keyed_by_id (collect_catalog items m)"
  by (induction items arbitrary: m) (auto simp: Let_def keyed_by_id_set)

lemma add_inferred_keyed: "keyed_by_id m \<Longrightarrow> keyed_by_id (add_inferred items m)"
  by (induction items arbitrary: m) (auto simp: keyed_by_id_set)

lemma keyed_by_id_ids: "keyed_by_id m \<Longrightarrow> map mdl_id (map snd m) = map_keys m"
  by (induction m) (auto simp: keyed_by_id_def)

lemma buildModelCatalog_ids:
  "map mdl_id (buildModelCatalog models p d) = unique (filter (\<lambda>m. m \<noteq> []) (map js_trim models))"
  by (simp add: buildModelCatalog_def Let_def comp_def)

lemma normalizeModelCatalog_ids:
  "map mdl_id (normalizeModelCatalog value models p) =
     map_keys (add_inferred (buildModelCatalog models p None)
       (collect_catalog (case value of None \<Rightarrow> [] | Some v \<Rightarrow> v) []))"
  unfolding normalizeModelCatalog_def Let_def
  by (intro keyed_by_id_ids add_inferred_keyed collect_catalog_keyed) (simp add: keyed_by_id_def)

end
