(* ===== verification/Eligibility.thy ===== *)
theory Eligibility
  imports Capabilities
begin

text \<open>
  \<^verbatim>\<open>src/shared/source-eligibility.ts\<close>: which accounts can be bound, are available and have
  capacity, and how the members of a pool are classified against a model and a list of
  required capabilities. The scheduler and the route preview both rest on it.
\<close>

section \<open>Binding, availability and capacity\<close>

definition isRouteAccountBindable :: "account \<Rightarrow> bool" where
  "isRouteAccountBindable a \<longleftrightarrow> acc_status a \<noteq> Disabled \<and> acc_status a \<noteq> Expired"

definition isRouteAccountRuntimeAvailable :: "account \<Rightarrow> real \<Rightarrow> bool" where
  "isRouteAccountRuntimeAvailable a now =
     (if \<not> isRouteAccountBindable a \<or> acc_status a = Checking then False
      else if acc_status a = Cooldown \<and> acc_cooldownUntil a = None then False
      else (case acc_cooldownUntil a of None \<Rightarrow> 0 | Some u \<Rightarrow> u) \<le> now)"

definition routeAccountInFlight :: "js_number \<Rightarrow> real" where
  "routeAccountInFlight v = (case v of Finite x \<Rightarrow> max 0 (js_floor x) | NonFinite \<Rightarrow> 0)"

definition routeAccountConcurrencyLimit :: "js_number \<Rightarrow> real" where
  "routeAccountConcurrencyLimit v = (case v of Finite x \<Rightarrow> max 1 (js_floor x) | NonFinite \<Rightarrow> 1)"

definition hasRouteAccountCapacity :: "js_number \<Rightarrow> js_number \<Rightarrow> bool" where
  "hasRouteAccountCapacity inFlight concurrencyLimit =
     (let active = routeAccountInFlight inFlight;
          limit = routeAccountConcurrencyLimit concurrencyLimit
      in active < limit)"

definition isRouteAccountCurrentlySchedulable :: "account \<Rightarrow> real \<Rightarrow> bool" where
  "isRouteAccountCurrentlySchedulable a now \<longleftrightarrow>
     isRouteAccountRuntimeAvailable a now
     \<and> hasRouteAccountCapacity (Finite (acc_inFlight a)) (acc_maxConcurrency a)"

section \<open>Model and capability eligibility\<close>

datatype capability_eligibility = Verified | Unknown | Unsupported

definition accountSupportsModel ::
  "account \<Rightarrow> string option \<Rightarrow> provider option \<Rightarrow> model_policy option \<Rightarrow> string list option \<Rightarrow> bool \<Rightarrow> bool" where
  "accountSupportsModel a model p poolModelPolicy poolModelAllowlist requireProvider =
     (if requireProvider \<and> p = None then False
      else (case truthy model of
        None \<Rightarrow> True
      | Some m \<Rightarrow>
          if poolModelPolicy = Some Selected_Models
             \<and> m \<notin> set (case poolModelAllowlist of None \<Rightarrow> [] | Some l \<Rightarrow> l) then False
          else
            let relayProbeExposesModel =
                  (case p of
                     None \<Rightarrow> False
                   | Some p \<Rightarrow> prov_sourceType p = Relay \<and> m \<in> set (prov_models p))
            in if acc_modelPolicy a = Selected_Models \<and> m \<notin> set (acc_modelAllowlist a) then False
               else if relayProbeExposesModel then True
               else if acc_modelsRefreshedAt a = None then True
               else m \<in> set (acc_availableModels a)))"

text \<open>The loop over the required capabilities, with its early return on a declared \<^verbatim>\<open>false\<close>.\<close>

fun check_capabilities :: "capability_flags \<Rightarrow> capability list \<Rightarrow> bool \<Rightarrow> capability_eligibility" where
  "check_capabilities flags [] unknown = (if unknown then Unknown else Verified)"
| "check_capabilities flags (c # cs) unknown =
     (if flags c = Some False then Unsupported
      else check_capabilities flags cs (unknown \<or> flags c \<noteq> Some True))"

definition accountCapabilityEligibility ::
  "provider option \<Rightarrow> string option \<Rightarrow> capability list \<Rightarrow> bool \<Rightarrow> capability_eligibility" where
  "accountCapabilityEligibility p model requiredCapabilities requireProvider =
     (case p of
        None \<Rightarrow>
          (if requireProvider then Unsupported
           else if requiredCapabilities \<noteq> [] then Unknown else Verified)
      | Some p \<Rightarrow>
          if requiredCapabilities = [] then Verified
          else check_capabilities (providerModelCapabilities p model) requiredCapabilities False)"

section \<open>Classification of a pool\<close>

record eligibility_input =
  ei_accounts :: "account list"
  ei_providers :: "provider list"
  ei_model :: "string option"
  ei_poolModelPolicy :: "model_policy option"
  ei_poolModelAllowlist :: "string list option"
  ei_requiredCapabilities :: "capability list option"
  ei_requireProvider :: bool

record eligibility_result =
  er_modelEligible :: "account list"
  er_verified :: "account list"
  er_unknown :: "account list"
  er_unsupported :: "account list"
  er_schedulable :: "account list"

text \<open>\<^verbatim>\<open>new Map(providers.map((p) => [p.id, p]))\<close>: the last provider with an id wins.\<close>

definition providers_by_id :: "provider list \<Rightarrow> string \<Rightarrow> provider option" where
  "providers_by_id ps i = map_of (rev (map (\<lambda>p. (prov_id p, p)) ps)) i"

definition evaluateSourceEligibility :: "eligibility_input \<Rightarrow> eligibility_result" where
  "evaluateSourceEligibility i =
     (let required = unique (case ei_requiredCapabilities i of None \<Rightarrow> [] | Some cs \<Rightarrow> cs);
          providerById = providers_by_id (ei_providers i);
          modelEligible = filter (\<lambda>a.
            accountSupportsModel a (ei_model i) (providerById (acc_providerId a))
              (ei_poolModelPolicy i) (ei_poolModelAllowlist i) (ei_requireProvider i))
            (ei_accounts i);
          status = (\<lambda>a. accountCapabilityEligibility (providerById (acc_providerId a))
            (ei_model i) required (ei_requireProvider i));
          verified = filter (\<lambda>a. status a = Verified) modelEligible;
          unknown = filter (\<lambda>a. status a = Unknown) modelEligible;
          unsupported = filter (\<lambda>a. status a \<noteq> Verified \<and> status a \<noteq> Unknown) modelEligible
      in \<lparr>er_modelEligible = modelEligible,
          er_verified = verified,
          er_unknown = unknown,
          er_unsupported = unsupported,
          er_schedulable = (if verified \<noteq> [] then verified else unknown)\<rparr>)"

section \<open>Lemmas\<close>

lemma routeAccountConcurrencyLimit_ge_1: "1 \<le> routeAccountConcurrencyLimit v"
  by (simp add: routeAccountConcurrencyLimit_def split: js_number.splits)

lemma routeAccountInFlight_nonneg: "0 \<le> routeAccountInFlight v"
  by (simp add: routeAccountInFlight_def split: js_number.splits)

lemma routeAccountInFlight_Finite_nat [simp]: "routeAccountInFlight (Finite (real n)) = real n"
  by (simp add: routeAccountInFlight_def js_floor_def)

lemma routeAccountConcurrencyLimit_idem [simp]:
  "routeAccountConcurrencyLimit (Finite (routeAccountConcurrencyLimit v)) = routeAccountConcurrencyLimit v"
  by (simp add: routeAccountConcurrencyLimit_def js_floor_def max_def split: js_number.splits)

lemma routeAccountConcurrencyLimit_int:
  "js_floor (routeAccountConcurrencyLimit v) = routeAccountConcurrencyLimit v"
  by (simp add: routeAccountConcurrencyLimit_def js_floor_def max_def split: js_number.splits)

lemma isRouteAccountRuntimeAvailable_bindable:
  "isRouteAccountRuntimeAvailable a now \<Longrightarrow> isRouteAccountBindable a"
  by (auto simp: isRouteAccountRuntimeAvailable_def split: if_splits)

lemma isRouteAccountRuntimeAvailable_cooldown:
  "isRouteAccountRuntimeAvailable a now \<Longrightarrow> acc_cooldownUntil a = Some u \<Longrightarrow> u \<le> now"
  by (auto simp: isRouteAccountRuntimeAvailable_def split: if_splits)

text \<open>What the capability loop computes, in one line per verdict.\<close>

lemma check_capabilities_Unsupported:
  "check_capabilities flags cs u = Unsupported \<longleftrightarrow> (\<exists>c \<in> set cs. flags c = Some False)"
  by (induction cs arbitrary: u) auto

lemma check_capabilities_Verified:
  "check_capabilities flags cs u = Verified \<longleftrightarrow> \<not> u \<and> (\<forall>c \<in> set cs. flags c = Some True)"
  by (induction cs arbitrary: u) auto

lemma accountCapabilityEligibility_Verified:
  "accountCapabilityEligibility (Some p) model cs r = Verified \<longleftrightarrow>
     (\<forall>c \<in> set cs. providerModelCapabilities p model c = Some True)"
  by (auto simp: accountCapabilityEligibility_def check_capabilities_Verified)

lemma accountCapabilityEligibility_Unsupported:
  "accountCapabilityEligibility (Some p) model cs r = Unsupported \<longleftrightarrow>
     (\<exists>c \<in> set cs. providerModelCapabilities p model c = Some False)"
  by (auto simp: accountCapabilityEligibility_def check_capabilities_Unsupported)

lemmas eligibility_simps =
  evaluateSourceEligibility_def Let_def

lemma er_verified_subset: "set (er_verified (evaluateSourceEligibility i)) \<subseteq> set (ei_accounts i)"
  by (auto simp: eligibility_simps)

lemma er_unknown_subset: "set (er_unknown (evaluateSourceEligibility i)) \<subseteq> set (ei_accounts i)"
  by (auto simp: eligibility_simps)

lemma er_tiers_disjoint:
  "set (er_verified (evaluateSourceEligibility i)) \<inter> set (er_unknown (evaluateSourceEligibility i)) = {}"
  by (auto simp: eligibility_simps)

lemma filter_partition3_mset:
  assumes "\<And>x. x \<in> set xs \<Longrightarrow> (P x \<and> \<not> Q x \<and> \<not> R x) \<or> (\<not> P x \<and> Q x \<and> \<not> R x) \<or> (\<not> P x \<and> \<not> Q x \<and> R x)"
  shows "mset xs = mset (filter P xs) + mset (filter Q xs) + mset (filter R xs)"
  using assms
proof (induction xs)
  case Nil
  then show ?case by simp
next
  case (Cons x xs)
  then have "mset xs = mset (filter P xs) + mset (filter Q xs) + mset (filter R xs)"
    by (intro Cons.IH) auto
  with Cons.prems [of x] show ?case by auto
qed

text \<open>Every schedulable member supports the model and lacks no required capability.\<close>

definition statically_eligible :: "eligibility_input \<Rightarrow> account \<Rightarrow> bool" where
  "statically_eligible i a =
     (let p = providers_by_id (ei_providers i) (acc_providerId a);
          required = unique (case ei_requiredCapabilities i of None \<Rightarrow> [] | Some cs \<Rightarrow> cs)
      in accountSupportsModel a (ei_model i) p (ei_poolModelPolicy i) (ei_poolModelAllowlist i)
           (ei_requireProvider i)
         \<and> accountCapabilityEligibility p (ei_model i) required (ei_requireProvider i) \<noteq> Unsupported)"

lemma er_tiers_statically_eligible:
  "set (er_verified (evaluateSourceEligibility i)) \<union> set (er_unknown (evaluateSourceEligibility i))
     = {a \<in> set (ei_accounts i). statically_eligible i a}"
  by (auto simp: eligibility_simps statically_eligible_def) (metis capability_eligibility.exhaust)+

lemma er_schedulable_statically_eligible:
  "a \<in> set (er_schedulable (evaluateSourceEligibility i)) \<Longrightarrow>
     a \<in> set (ei_accounts i) \<and> statically_eligible i a"
  using er_tiers_statically_eligible [of i]
  by (auto simp: eligibility_simps split: if_splits)

end
