(* ===== verification/Quota.thy ===== *)
theory Quota
  imports Eligibility
begin

text \<open>
  The quota functions of \<^verbatim>\<open>src/main/gateway/scheduler.ts\<close>: which quota observations make
  an account unavailable, when an observation without a reset time is probed again, how the
  reserve policy of an account or a pool blocks it, and how the remaining quota discounts
  an account's priority and weight.
\<close>

definition DEFAULT_CODEX_QUOTA_PROTECTION_STALE_MS :: real where
  "DEFAULT_CODEX_QUOTA_PROTECTION_STALE_MS = 2 * 60 * 60 * 1000"

definition UNKNOWN_RESET_QUOTA_RECHECK_MS :: real where
  "UNKNOWN_RESET_QUOTA_RECHECK_MS = 30000"

section \<open>The reserve policy\<close>

definition finiteReserve :: "js_number option \<Rightarrow> real option" where
  "finiteReserve v = (case v of Some (Finite x) \<Rightarrow> Some (clamp 0 100 x) | _ \<Rightarrow> None)"

definition finiteUsedPercent :: "js_number option \<Rightarrow> real option" where
  "finiteUsedPercent v = (case v of Some (Finite x) \<Rightarrow> Some (clamp 0 100 x) | _ \<Rightarrow> None)"

definition positiveFinite :: "js_number option \<Rightarrow> real option" where
  "positiveFinite v = (case v of Some (Finite x) \<Rightarrow> if x > 0 then Some x else None | _ \<Rightarrow> None)"

definition accountReportsCodexQuota :: "account \<Rightarrow> bool" where
  "accountReportsCodexQuota a \<longleftrightarrow>
     acc_credentialType a = Some Chatgpt_Oauth \<or> acc_credentialType a = Some Chatgpt_Agent_Identity"

definition window_used :: "codex_window option \<Rightarrow> js_number option" where
  "window_used w = map_option (\<lambda>w. Finite (cwin_usedPercent w)) w"

definition quotaProtectionBlocks :: "codex_quota option \<Rightarrow> quota_protection option \<Rightarrow> real \<Rightarrow> bool" where
  "quotaProtectionBlocks quota policy now =
     (case policy of
        None \<Rightarrow> False
      | Some policy \<Rightarrow>
          let protectsFiveHour = finiteReserve (qp_fiveHourRemainingPercent policy) \<noteq> None;
              protectsSevenDay = finiteReserve (qp_sevenDayRemainingPercent policy) \<noteq> None;
              blocks = (qp_unavailableBehavior policy = Some Block_Unavailable);
              staleAfterMs =
                (case positiveFinite (qp_staleAfterMinutes policy) of
                   Some m \<Rightarrow> m * 60000 | None \<Rightarrow> DEFAULT_CODEX_QUOTA_PROTECTION_STALE_MS)
          in if \<not> protectsFiveHour \<and> \<not> protectsSevenDay then False
             else
               (case quota of
                  None \<Rightarrow> blocks
                | Some quota \<Rightarrow>
                    if now - codex_observedAt quota > staleAfterMs then blocks
                    else
                      let fiveHourBlocks =
                            (case finiteReserve (qp_fiveHourRemainingPercent policy) of
                               None \<Rightarrow> False
                             | Some reserve \<Rightarrow>
                                 (case finiteUsedPercent (window_used (codex_fiveHour quota)) of
                                    None \<Rightarrow> blocks | Some used \<Rightarrow> 100 - used \<le> reserve));
                          sevenDay =
                            (case codex_sevenDay quota of None \<Rightarrow> codex_monthly quota | Some w \<Rightarrow> Some w);
                          sevenDayBlocks =
                            (case finiteReserve (qp_sevenDayRemainingPercent policy) of
                               None \<Rightarrow> False
                             | Some reserve \<Rightarrow>
                                 (case finiteUsedPercent (window_used sevenDay) of
                                    None \<Rightarrow> blocks | Some used \<Rightarrow> 100 - used \<le> reserve))
                      in fiveHourBlocks \<or> sevenDayBlocks))"

section \<open>Quota windows\<close>

definition quotaWindows :: "account \<Rightarrow> quota_window list" where
  "quotaWindows a =
     (case acc_quota a of
        None \<Rightarrow> []
      | Some q \<Rightarrow> List.map_filter (\<lambda>w. w)
          [quota_requests q, quota_tokens q, quota_inputTokens q, quota_outputTokens q])"

definition quotaObservedAt :: "account \<Rightarrow> real" where
  "quotaObservedAt a =
     (case acc_quota a of
        None \<Rightarrow> acc_updatedAt a
      | Some q \<Rightarrow> (case quota_observedAt q of Finite x \<Rightarrow> x | NonFinite \<Rightarrow> acc_updatedAt a))"

definition grokQuotaIsZero :: "account \<Rightarrow> bool" where
  "grokQuotaIsZero a =
     (case acc_grokQuota a of
        None \<Rightarrow> False
      | Some q \<Rightarrow>
          grok_remainingPercent q = Some 0
          \<or> (case grok_limit q of None \<Rightarrow> False | Some l \<Rightarrow> l > 0 \<and> grok_remaining q = Some 0))"

definition grokQuotaExhausted :: "account \<Rightarrow> real \<Rightarrow> bool" where
  "grokQuotaExhausted a now =
     (case acc_grokQuota a of
        None \<Rightarrow> False
      | Some q \<Rightarrow>
          if \<not> grokQuotaIsZero a then False
          else (case grok_resetAt q of
                  Some resetAt \<Rightarrow> resetAt > now
                | None \<Rightarrow> now < grok_observedAt q + UNKNOWN_RESET_QUOTA_RECHECK_MS))"

definition quotaExhausted :: "account \<Rightarrow> real \<Rightarrow> bool" where
  "quotaExhausted a now \<longleftrightarrow>
     grokQuotaExhausted a now
     \<or> list_ex (\<lambda>w. win_remaining w = Some 0
          \<and> (case win_resetAt w of
               Some resetAt \<Rightarrow> resetAt > now
             | None \<Rightarrow> now < quotaObservedAt a + UNKNOWN_RESET_QUOTA_RECHECK_MS)) (quotaWindows a)"

definition expiredResetlessQuotaObservation :: "account \<Rightarrow> real \<Rightarrow> real option" where
  "expiredResetlessQuotaObservation a now =
     (let genericResetless =
            list_ex (\<lambda>w. win_remaining w = Some 0 \<and> win_resetAt w = None) (quotaWindows a);
          grokResetless =
            grokQuotaIsZero a
            \<and> (case acc_grokQuota a of None \<Rightarrow> None | Some q \<Rightarrow> grok_resetAt q) = None
      in if \<not> genericResetless \<and> \<not> grokResetless then None
         else
           let observedAt =
                 (if grokResetless then
                    (case acc_grokQuota a of None \<Rightarrow> quotaObservedAt a | Some q \<Rightarrow> grok_observedAt q)
                  else quotaObservedAt a)
           in if now \<ge> observedAt + UNKNOWN_RESET_QUOTA_RECHECK_MS then Some observedAt else None)"

section \<open>Pressure\<close>

definition codex_pressure :: "account \<Rightarrow> real \<Rightarrow> real" where
  "codex_pressure a now =
     (case acc_codexQuota a of
        None \<Rightarrow> 0
      | Some q \<Rightarrow>
          if now - codex_observedAt q \<le> DEFAULT_CODEX_QUOTA_PROTECTION_STALE_MS then
            foldl (\<lambda>pressure window.
              (case window of
                 None \<Rightarrow> pressure
               | Some w \<Rightarrow>
                   if (case cwin_resetAt w of None \<Rightarrow> False | Some r \<Rightarrow> r \<le> now) then pressure
                   else max pressure (clamp 0 1 (cwin_usedPercent w / 100))))
              0 [codex_fiveHour q, codex_sevenDay q, codex_monthly q]
          else 0)"

definition grok_pressure :: "account \<Rightarrow> real \<Rightarrow> real \<Rightarrow> real" where
  "grok_pressure a now pressure =
     (case acc_grokQuota a of
        None \<Rightarrow> pressure
      | Some q \<Rightarrow>
          if (case grok_resetAt q of None \<Rightarrow> True | Some r \<Rightarrow> r > now) then
            (case grok_remainingPercent q of
               Some p \<Rightarrow> max pressure (clamp 0 1 (1 - p / 100))
             | None \<Rightarrow>
                 (case (grok_limit q, grok_remaining q) of
                    (Some l, Some r) \<Rightarrow>
                      if l > 0 then max pressure (clamp 0 1 (1 - r / l)) else pressure
                  | _ \<Rightarrow> pressure))
          else pressure)"

definition window_pressure :: "account \<Rightarrow> real \<Rightarrow> real \<Rightarrow> quota_window \<Rightarrow> real" where
  "window_pressure a now pressure w =
     (if (case win_resetAt w of None \<Rightarrow> False | Some r \<Rightarrow> r \<le> now) then pressure
      else if win_resetAt w = None \<and> now \<ge> quotaObservedAt a + UNKNOWN_RESET_QUOTA_RECHECK_MS
        then pressure
      else (case (win_limit w, win_remaining w) of
              (Some l, Some r) \<Rightarrow>
                if l \<le> 0 then pressure else max pressure (clamp 0 1 (1 - r / l))
            | _ \<Rightarrow> pressure))"

definition quotaPressure :: "account \<Rightarrow> real \<Rightarrow> real" where
  "quotaPressure a now =
     foldl (window_pressure a now) (grok_pressure a now (codex_pressure a now)) (quotaWindows a)"

definition effectivePriority :: "account \<Rightarrow> real \<Rightarrow> real" where
  "effectivePriority a now = acc_priority a + js_round (quotaPressure a now * 1000)"

definition effectiveWeight :: "account \<Rightarrow> real \<Rightarrow> real" where
  "effectiveWeight a now = max 0 (acc_weight a) * max (5 / 100) (1 - quotaPressure a now)"

section \<open>Lemmas\<close>

lemma clamp_unit: "0 \<le> clamp 0 1 x" "clamp 0 1 x \<le> 1"
  by (simp_all add: clamp_def)

lemma max_clamp_unit:
  "0 \<le> p \<Longrightarrow> p \<le> 1 \<Longrightarrow>
   0 \<le> max p (clamp 0 1 x) \<and> max p (clamp 0 1 x) \<le> 1 \<and> p \<le> max p (clamp 0 1 x)"
  by (simp add: clamp_unit)

lemma codex_pressure_bounds: "0 \<le> codex_pressure a now \<and> codex_pressure a now \<le> 1"
  by (auto simp: codex_pressure_def clamp_unit max.coboundedI1 split: option.splits)

lemma grok_pressure_bounds:
  "0 \<le> p \<Longrightarrow> p \<le> 1 \<Longrightarrow> 0 \<le> grok_pressure a now p \<and> grok_pressure a now p \<le> 1 \<and> p \<le> grok_pressure a now p"
  unfolding grok_pressure_def
  by (cases "acc_grokQuota a") (simp_all add: clamp_unit max.coboundedI1 split: option.split)

lemma window_pressure_bounds:
  "0 \<le> p \<Longrightarrow> p \<le> 1 \<Longrightarrow>
   0 \<le> window_pressure a now p w \<and> window_pressure a now p w \<le> 1 \<and> p \<le> window_pressure a now p w"
  unfolding window_pressure_def
  by (simp add: clamp_unit max.coboundedI1 split: option.split)

lemma fold_window_pressure_bounds:
  "0 \<le> p \<Longrightarrow> p \<le> 1 \<Longrightarrow>
   0 \<le> foldl (window_pressure a now) p ws \<and> foldl (window_pressure a now) p ws \<le> 1"
proof (induction ws arbitrary: p)
  case Nil
  then show ?case by simp
next
  case (Cons w ws)
  with window_pressure_bounds [of p a now w] show ?case by simp
qed

lemma quotaPressure_bounds: "0 \<le> quotaPressure a now \<and> quotaPressure a now \<le> 1"
  unfolding quotaPressure_def
  using codex_pressure_bounds [of a now] grok_pressure_bounds [of "codex_pressure a now" a now]
  by (intro fold_window_pressure_bounds) auto

lemma effectiveWeight_nonneg: "0 \<le> effectiveWeight a now"
  by (simp add: effectiveWeight_def)

lemma effectiveWeight_pos_iff: "0 < effectiveWeight a now \<longleftrightarrow> 0 < acc_weight a"
  by (auto simp: effectiveWeight_def zero_less_mult_iff max_def)

lemma effectiveWeight_bounds:
  "5 / 100 * max 0 (acc_weight a) \<le> effectiveWeight a now \<and> effectiveWeight a now \<le> max 0 (acc_weight a)"
proof -
  have "5 / 100 \<le> max (5 / 100) (1 - quotaPressure a now)" by simp
  moreover have "max (5 / 100) (1 - quotaPressure a now) \<le> 1"
    using quotaPressure_bounds [of a now] by simp
  ultimately show ?thesis
    unfolding effectiveWeight_def
    by (metis max.cobounded1 mult.commute mult_left_le mult_left_mono)
qed

lemma js_round_mono_0: "0 \<le> x \<Longrightarrow> 0 \<le> js_round x"
  by (simp add: js_round_def)

lemma effectivePriority_ge: "acc_priority a \<le> effectivePriority a now"
  using quotaPressure_bounds [of a now] js_round_mono_0 [of "quotaPressure a now * 1000"]
  by (simp add: effectivePriority_def)

lemma no_policy_never_blocks [simp]: "\<not> quotaProtectionBlocks q None now"
  by (simp add: quotaProtectionBlocks_def)

text \<open>
  An observation never both exhausts an account and is due for a probe because of its own
  window: the grace period ends exactly where the probe starts.
\<close>

lemma grok_exhausted_or_probed:
  assumes "grokQuotaIsZero a" and "acc_grokQuota a = Some q" and "grok_resetAt q = None"
  shows "grokQuotaExhausted a now \<longleftrightarrow> expiredResetlessQuotaObservation a now = None"
  using assms
  by (simp add: grokQuotaExhausted_def expiredResetlessQuotaObservation_def Let_def not_less)

end
