(* ===== verification/Performance.thy ===== *)
theory Performance
  imports Quota
begin

text \<open>
  The performance model of \<^verbatim>\<open>src/main/gateway/scheduler.ts\<close>: what one observed outcome does
  to an account's running averages and weights (\<open>observe\<close>), the cost the automatic strategy
  minimises, the metric that decides whether a session leaves its account, the 0-100 rating
  of \<^verbatim>\<open>getFitness\<close>, and the restoration from persisted request logs.
\<close>

section \<open>Constants\<close>

definition FAILURE_PENALTY_HALF_LIFE_MS :: real where "FAILURE_PENALTY_HALF_LIFE_MS = 5 * 60000"
definition PERFORMANCE_STALE_AFTER_MS :: real where "PERFORMANCE_STALE_AFTER_MS = 30 * 60000"
definition FITNESS_STALE_AFTER_MS :: real where "FITNESS_STALE_AFTER_MS = 24 * 60 * 60000"
definition PERFORMANCE_HYDRATION_WINDOW_MS :: real where
  "PERFORMANCE_HYDRATION_WINDOW_MS = 30 * 24 * 60 * 60000"
definition PERFORMANCE_HYDRATION_SAMPLES_PER_ACCOUNT :: nat where
  "PERFORMANCE_HYDRATION_SAMPLES_PER_ACCOUNT = 400"
definition FITNESS_HISTORY_HALF_LIFE_MS :: real where
  "FITNESS_HISTORY_HALF_LIFE_MS = 7 * 24 * 60 * 60000"
definition FITNESS_NEUTRAL_PRIOR :: real where "FITNESS_NEUTRAL_PRIOR = 72"
definition FITNESS_CONFIDENCE_SAMPLES :: real where "FITNESS_CONFIDENCE_SAMPLES = 12"
definition TRANSPORT_FALLBACK_UNCERTAINTY_MS :: real where "TRANSPORT_FALLBACK_UNCERTAINTY_MS = 1500"
definition TRANSPORT_FALLBACK_FLOOR_MS :: real where "TRANSPORT_FALLBACK_FLOOR_MS = 3000"

section \<open>State and samples\<close>

record performance_sample =
  ps_transportFirstBodyMs :: "js_number option"
  ps_semanticFirstTokenMs :: "js_number option"
  ps_firstTokenMs :: "js_number option"
  ps_outputTokens :: "js_number option"
  ps_generationDurationMs :: "js_number option"

definition no_sample :: performance_sample where
  "no_sample = \<lparr>ps_transportFirstBodyMs = None, ps_semanticFirstTokenMs = None,
     ps_firstTokenMs = None, ps_outputTokens = None, ps_generationDurationMs = None\<rparr>"

record performance_state =
  pf_healthRevision :: nat
  pf_resetEpoch :: nat
  pf_sampleCount :: nat
  pf_successCount :: nat
  pf_failureCount :: nat
  pf_performanceSampleCount :: nat
  pf_transportSampleCount :: nat
  pf_semanticSampleCount :: nat
  pf_throughputSampleCount :: nat
  pf_historySuccessWeight :: real
  pf_historyFailureWeight :: real
  pf_recentSuccessRate :: real
  pf_transportFirstBodyMs :: "real option"
  pf_semanticFirstTokenMs :: "real option"
  pf_outputTokensPerSecond :: "real option"
  pf_failurePenalty :: real
  pf_updatedAt :: real
  pf_dynamicConcurrency :: "real option"
  pf_successStreak :: nat

section \<open>One outcome\<close>

definition half_power :: "real \<Rightarrow> real" where
  "half_power x = (1 / 2) powr x"

definition positiveMetric :: "js_number option \<Rightarrow> real option" where
  "positiveMetric v = (case v of Some (Finite x) \<Rightarrow> if x > 0 then Some x else None | _ \<Rightarrow> None)"

definition updateEwma :: "real option \<Rightarrow> real option \<Rightarrow> real \<Rightarrow> real option" where
  "updateEwma current sample alpha =
     (case sample of
        None \<Rightarrow> current
      | Some s \<Rightarrow> (case current of None \<Rightarrow> Some s | Some c \<Rightarrow> Some (c + alpha * (s - c))))"

definition metricAlpha :: "nat \<Rightarrow> real" where
  "metricAlpha sampleCount = (if sampleCount < 5 then 45 / 100 else 18 / 100)"

definition decayedFailurePenaltyAt :: "performance_state option \<Rightarrow> real \<Rightarrow> real" where
  "decayedFailurePenaltyAt state observedAt =
     (case state of
        None \<Rightarrow> 0
      | Some st \<Rightarrow>
          if pf_failurePenalty st = 0 then 0
          else
            let elapsed = max 0 (observedAt - pf_updatedAt st)
            in pf_failurePenalty st * half_power (elapsed / FAILURE_PENALTY_HALF_LIFE_MS))"

definition had :: "performance_state option \<Rightarrow> (performance_state \<Rightarrow> 'a) \<Rightarrow> 'a \<Rightarrow> 'a" where
  "had existing field fallback = (case existing of None \<Rightarrow> fallback | Some st \<Rightarrow> field st)"

text \<open>
  The record \<^verbatim>\<open>observeOutcome\<close> stores: \<open>existing\<close> is the account's previous record,
  \<open>revision\<close> and \<open>epoch\<close> its current generations.
\<close>

definition observe ::
  "performance_state option \<Rightarrow> nat \<Rightarrow> nat \<Rightarrow> bool \<Rightarrow> performance_sample \<Rightarrow> real \<Rightarrow> bool \<Rightarrow> performance_state" where
  "observe existing revision epoch success sample observedAt adaptConcurrency =
     (let transportFirstBodyMs = positiveMetric (ps_transportFirstBodyMs sample);
          semanticFirstTokenMs = positiveMetric
            (case ps_semanticFirstTokenMs sample of None \<Rightarrow> ps_firstTokenMs sample | Some v \<Rightarrow> Some v);
          outputTokens = positiveMetric (ps_outputTokens sample);
          generationDurationMs = positiveMetric (ps_generationDurationMs sample);
          outputTokensPerSecond =
            (case (outputTokens, generationDurationMs) of
               (Some tokens, Some ms) \<Rightarrow> Some (tokens * 1000 / ms) | _ \<Rightarrow> None);
          elapsed = max 0 (observedAt - had existing pf_updatedAt observedAt);
          historyDecay = half_power (elapsed / FITNESS_HISTORY_HALF_LIFE_MS);
          historySuccessWeight =
            had existing pf_historySuccessWeight 0 * historyDecay + (if success then 1 else 0);
          historyFailureWeight =
            had existing pf_historyFailureWeight 0 * historyDecay + (if success then 0 else 1);
          recentAlpha = (if success then 12 / 100 else 28 / 100);
          outcome = (if success then 1 else 0);
          recentSuccessRate =
            (case updateEwma (map_option pf_recentSuccessRate existing) (Some outcome) recentAlpha of
               None \<Rightarrow> outcome | Some r \<Rightarrow> r);
          performanceSampleCount = had existing pf_performanceSampleCount 0
            + (if success \<and> (transportFirstBodyMs \<noteq> None \<or> semanticFirstTokenMs \<noteq> None
                              \<or> outputTokensPerSecond \<noteq> None) then 1 else 0);
          transportSampleCount = had existing pf_transportSampleCount 0
            + (if success \<and> transportFirstBodyMs \<noteq> None then 1 else 0);
          semanticSampleCount = had existing pf_semanticSampleCount 0
            + (if success \<and> semanticFirstTokenMs \<noteq> None then 1 else 0);
          throughputSampleCount = had existing pf_throughputSampleCount 0
            + (if success \<and> outputTokensPerSecond \<noteq> None then 1 else 0);
          successStreak =
            (if adaptConcurrency \<and> success then had existing pf_successStreak 0 + 1 else 0);
          grown = adaptConcurrency \<and> success \<and> successStreak \<ge> 8
      in \<lparr>pf_healthRevision = revision,
          pf_resetEpoch = epoch,
          pf_sampleCount = had existing pf_sampleCount 0 + 1,
          pf_successCount = had existing pf_successCount 0 + (if success then 1 else 0),
          pf_failureCount = had existing pf_failureCount 0 + (if success then 0 else 1),
          pf_performanceSampleCount = performanceSampleCount,
          pf_transportSampleCount = transportSampleCount,
          pf_semanticSampleCount = semanticSampleCount,
          pf_throughputSampleCount = throughputSampleCount,
          pf_historySuccessWeight = historySuccessWeight,
          pf_historyFailureWeight = historyFailureWeight,
          pf_recentSuccessRate = recentSuccessRate,
          pf_transportFirstBodyMs =
            updateEwma (had existing pf_transportFirstBodyMs None) transportFirstBodyMs
              (metricAlpha transportSampleCount),
          pf_semanticFirstTokenMs =
            updateEwma (had existing pf_semanticFirstTokenMs None) semanticFirstTokenMs
              (metricAlpha semanticSampleCount),
          pf_outputTokensPerSecond =
            updateEwma (had existing pf_outputTokensPerSecond None) outputTokensPerSecond
              (metricAlpha throughputSampleCount),
          pf_failurePenalty =
            (if success then decayedFailurePenaltyAt existing observedAt * (65 / 100)
             else decayedFailurePenaltyAt existing observedAt + 6),
          pf_updatedAt = observedAt,
          pf_dynamicConcurrency =
            (case had existing pf_dynamicConcurrency None of
               None \<Rightarrow> None | Some d \<Rightarrow> Some (d + (if grown then 1 else 0))),
          pf_successStreak = (if grown then 0 else successStreak)\<rparr>)"

section \<open>Costs\<close>

definition schedulerFirstTokenCostMs :: "performance_state \<Rightarrow> real" where
  "schedulerFirstTokenCostMs st =
     (case pf_semanticFirstTokenMs st of
        Some ms \<Rightarrow> ms
      | None \<Rightarrow>
          (case pf_transportFirstBodyMs st of
             Some ms \<Rightarrow> max TRANSPORT_FALLBACK_FLOOR_MS (ms + TRANSPORT_FALLBACK_UNCERTAINTY_MS)
           | None \<Rightarrow> 3000))"

definition performanceCost :: "performance_state option \<Rightarrow> real \<Rightarrow> real" where
  "performanceCost state now =
     (case state of
        None \<Rightarrow> 4
      | Some st \<Rightarrow>
          let firstTokenSeconds = schedulerFirstTokenCostMs st / 1000;
              outputPenalty =
                (case pf_outputTokensPerSecond st of None \<Rightarrow> 3 / 2 | Some r \<Rightarrow> 50 / max 1 r);
              elapsed = max 0 (now - pf_updatedAt st);
              failurePenalty =
                pf_failurePenalty st * half_power (elapsed / FAILURE_PENALTY_HALF_LIFE_MS)
          in min 20 firstTokenSeconds * (6 / 10) + min 20 outputPenalty * (14 / 10) + failurePenalty)"

definition estimatedPerformanceCost :: "performance_state option \<Rightarrow> real \<Rightarrow> real \<Rightarrow> real" where
  "estimatedPerformanceCost state unmeasuredPrior now =
     (case state of
        None \<Rightarrow> unmeasuredPrior
      | Some st \<Rightarrow>
          let measuredCost = performanceCost state now;
              staleRegression = clamp 0 1 ((now - pf_updatedAt st) / PERFORMANCE_STALE_AFTER_MS)
          in measuredCost * (1 - staleRegression) + unmeasuredPrior * staleRegression)"

definition conservativePerformancePrior :: "real list \<Rightarrow> real" where
  "conservativePerformancePrior costs =
     (if length costs = 0 then 4
      else
        let ordered = sort costs;
            p75 = ordered ! min (length ordered - 1) (nat \<lceil>real (length ordered) * (75 / 100)\<rceil> - 1)
        in max 4 (p75 * (115 / 100)))"

datatype metric_kind = Semantic | Transport

record sticky_metric =
  sm_kind :: metric_kind
  sm_valueMs :: real
  sm_sampleCount :: nat

definition stickyResponseMetric :: "performance_state option \<Rightarrow> sticky_metric option" where
  "stickyResponseMetric state =
     (case state of
        None \<Rightarrow> None
      | Some st \<Rightarrow>
          (case pf_semanticFirstTokenMs st of
             Some ms \<Rightarrow>
               Some \<lparr>sm_kind = Semantic, sm_valueMs = ms, sm_sampleCount = pf_semanticSampleCount st\<rparr>
           | None \<Rightarrow>
               (case pf_transportFirstBodyMs st of
                  Some ms \<Rightarrow>
                    Some \<lparr>sm_kind = Transport, sm_valueMs = ms,
                          sm_sampleCount = pf_transportSampleCount st\<rparr>
                | None \<Rightarrow> None)))"

section \<open>Fitness\<close>

definition roundedRating :: "real \<Rightarrow> real" where
  "roundedRating v = clamp 0 100 (js_round v)"

definition roundedPercent :: "real \<Rightarrow> real" where
  "roundedPercent v = clamp 0 100 (js_round (v * 1000) / 10)"

definition responseFitness :: "real option \<Rightarrow> real" where
  "responseFitness firstTokenMs =
     (case firstTokenMs of
        None \<Rightarrow> FITNESS_NEUTRAL_PRIOR
      | Some ms \<Rightarrow> 100 / (1 + (max 1 ms / 1800) powr (125 / 100)))"

definition throughputFitness :: "real option \<Rightarrow> real" where
  "throughputFitness tokensPerSecond =
     (case tokensPerSecond of
        None \<Rightarrow> FITNESS_NEUTRAL_PRIOR
      | Some r \<Rightarrow> 100 * (1 - exp (- max 0 r / 45)))"

record fitness_components =
  fc_reliability :: real
  fc_responsiveness :: real
  fc_throughput :: real
  fc_stability :: real

record fitness_snapshot =
  fit_score :: "real option"
  fit_sampleCount :: nat
  fit_successCount :: "nat option"
  fit_failureCount :: "nat option"
  fit_successRate :: "real option"
  fit_recentSuccessRate :: "real option"
  fit_confidence :: "real option"
  fit_firstTokenMs :: "real option"
  fit_semanticFirstTokenMs :: "real option"
  fit_transportFirstBodyMs :: "real option"
  fit_outputTokensPerSecond :: "real option"
  fit_failurePenalty :: real
  fit_components :: "fitness_components option"
  fit_updatedAt :: "real option"
  fit_stale :: bool
  fit_dynamicConcurrency :: "real option"

definition no_fitness :: fitness_snapshot where
  "no_fitness =
     \<lparr>fit_score = None, fit_sampleCount = 0, fit_successCount = None, fit_failureCount = None,
      fit_successRate = None, fit_recentSuccessRate = None, fit_confidence = None,
      fit_firstTokenMs = None, fit_semanticFirstTokenMs = None, fit_transportFirstBodyMs = None,
      fit_outputTokensPerSecond = None, fit_failurePenalty = 0, fit_components = None,
      fit_updatedAt = None, fit_stale = True, fit_dynamicConcurrency = None\<rparr>"

text \<open>The intermediate values of \<^verbatim>\<open>getFitness\<close> that the score is made of.\<close>

definition long_term_rate :: "performance_state \<Rightarrow> real \<Rightarrow> real" where
  "long_term_rate st elapsed =
     (let historyDecay = half_power (elapsed / FITNESS_HISTORY_HALF_LIFE_MS);
          successWeight = pf_historySuccessWeight st * historyDecay;
          failureWeight = pf_historyFailureWeight st * historyDecay
      in (successWeight + 8) / (successWeight + failureWeight + 10))"

definition recent_rate :: "performance_state \<Rightarrow> real \<Rightarrow> real" where
  "recent_rate st elapsed =
     (let recentMemory = half_power (elapsed / FITNESS_STALE_AFTER_MS)
      in clamp 0 1 (pf_recentSuccessRate st * recentMemory
                    + long_term_rate st elapsed * (1 - recentMemory)))"

definition confidence_ratio :: "performance_state \<Rightarrow> real \<Rightarrow> real" where
  "confidence_ratio st elapsed =
     (let historyDecay = half_power (elapsed / FITNESS_HISTORY_HALF_LIFE_MS);
          effectiveSamples = pf_historySuccessWeight st * historyDecay
                             + pf_historyFailureWeight st * historyDecay
      in 1 - exp (- effectiveSamples / FITNESS_CONFIDENCE_SAMPLES))"

definition stability_rating :: "account \<Rightarrow> performance_state \<Rightarrow> real \<Rightarrow> real" where
  "stability_rating a st elapsed =
     (let failurePenalty = pf_failurePenalty st * half_power (elapsed / FAILURE_PENALTY_HALF_LIFE_MS);
          circuitPenalty =
            (if acc_cooldownReason a = Some Failure_Reason \<or> acc_circuitState a = Some Open then 35
             else min 25 (max 0 (case acc_consecutiveFailures a of None \<Rightarrow> 0 | Some n \<Rightarrow> real n) * 6))
      in max 0 (100 * exp (- failurePenalty / 10) - circuitPenalty))"

definition fitness :: "account \<Rightarrow> performance_state option \<Rightarrow> real \<Rightarrow> fitness_snapshot" where
  "fitness a state now =
     (case state of
        None \<Rightarrow> no_fitness
      | Some st \<Rightarrow>
          if pf_sampleCount st = 0 then no_fitness
          else
            let elapsed = max 0 (now - pf_updatedAt st);
                longTermSuccessRate = long_term_rate st elapsed;
                recentSuccessRate = recent_rate st elapsed;
                reliability = 100 * (longTermSuccessRate * (65 / 100) + recentSuccessRate * (35 / 100));
                preferredFirstTokenMs =
                  (case pf_semanticFirstTokenMs st of
                     None \<Rightarrow> pf_transportFirstBodyMs st | Some ms \<Rightarrow> Some ms);
                responsiveness = responseFitness preferredFirstTokenMs;
                throughput = throughputFitness (pf_outputTokensPerSecond st);
                failurePenalty =
                  pf_failurePenalty st * half_power (elapsed / FAILURE_PENALTY_HALF_LIFE_MS);
                stability = stability_rating a st elapsed;
                rawScore = reliability * (48 / 100) + responsiveness * (24 / 100)
                           + throughput * (16 / 100) + stability * (12 / 100);
                confidenceRatio = confidence_ratio st elapsed;
                score = roundedRating
                  (rawScore * confidenceRatio + FITNESS_NEUTRAL_PRIOR * (1 - confidenceRatio))
            in \<lparr>fit_score = Some score,
                fit_sampleCount = pf_sampleCount st,
                fit_successCount = Some (pf_successCount st),
                fit_failureCount = Some (pf_failureCount st),
                fit_successRate = Some (roundedPercent longTermSuccessRate),
                fit_recentSuccessRate = Some (roundedPercent recentSuccessRate),
                fit_confidence = Some (roundedPercent confidenceRatio),
                fit_firstTokenMs = preferredFirstTokenMs,
                fit_semanticFirstTokenMs = pf_semanticFirstTokenMs st,
                fit_transportFirstBodyMs = pf_transportFirstBodyMs st,
                fit_outputTokensPerSecond = pf_outputTokensPerSecond st,
                fit_failurePenalty = failurePenalty,
                fit_components = Some
                  \<lparr>fc_reliability = roundedRating reliability,
                   fc_responsiveness = roundedRating responsiveness,
                   fc_throughput = roundedRating throughput,
                   fc_stability = roundedRating stability\<rparr>,
                fit_updatedAt = Some (pf_updatedAt st),
                fit_stale = (elapsed \<ge> FITNESS_STALE_AFTER_MS),
                fit_dynamicConcurrency = pf_dynamicConcurrency st\<rparr>)"

definition getFitness ::
    "(string \<rightharpoonup> performance_state) \<Rightarrow> real \<Rightarrow> account list \<Rightarrow> (string, fitness_snapshot) js_map" where
  "getFitness perf now accounts =
     foldl (\<lambda>result a. map_set result (acc_id a) (fitness a (perf (acc_id a)) now)) [] accounts"

section \<open>Restoration from request logs\<close>

definition failedAttemptDurationMs :: "request_log \<Rightarrow> real" where
  "failedAttemptDurationMs l =
     (case (log_firstTokenMs l, log_accountFirstTokenMs l) of
        (Some f, Some a) \<Rightarrow> max 0 (f - a) | _ \<Rightarrow> 0)"

definition transportFirstBodyPerformanceMs :: "request_log \<Rightarrow> real option" where
  "transportFirstBodyPerformanceMs l =
     (case log_upstreamFirstByteMs l of
        Some ms \<Rightarrow>
          let previousAttemptsMs =
                (case (log_firstTokenMs l, log_accountFirstTokenMs l) of
                   (Some f, Some a) \<Rightarrow> max 0 (f - a) | _ \<Rightarrow> 0)
          in positiveMetric (Some (Finite (max 0 (ms - previousAttemptsMs))))
      | None \<Rightarrow>
          if log_accountFirstTokenMs l = None
          then positiveMetric (map_option Finite (log_firstTokenMs l)) else None)"

definition semanticFirstTokenPerformanceMs :: "request_log \<Rightarrow> real option" where
  "semanticFirstTokenPerformanceMs l = positiveMetric (map_option Finite (log_accountFirstTokenMs l))"

definition log_sample :: "request_log \<Rightarrow> performance_sample" where
  "log_sample l =
     (let success = (log_status l = Log_Success);
          transport = (if success then transportFirstBodyPerformanceMs l else None);
          semantic = (if success then semanticFirstTokenPerformanceMs l else None);
          previousAttemptsMs = failedAttemptDurationMs l;
          generationStartedMs = (case transport of None \<Rightarrow> semantic | Some ms \<Rightarrow> Some ms)
      in \<lparr>ps_transportFirstBodyMs = map_option Finite transport,
          ps_semanticFirstTokenMs = map_option Finite semantic,
          ps_firstTokenMs = None,
          ps_outputTokens = map_option Finite (log_outputTokens l),
          ps_generationDurationMs =
            map_option (\<lambda>started. Finite (max 0 (log_latencyMs l - previousAttemptsMs - started)))
              generationStartedMs\<rparr>)"

definition log_usable :: "(string \<rightharpoonup> real) \<Rightarrow> real \<Rightarrow> request_log \<Rightarrow> bool" where
  "log_usable resetAt cutoff l =
     (case truthy (log_accountId l) of
        None \<Rightarrow> False
      | Some accountId \<Rightarrow>
          log_status l \<noteq> Log_Streaming
          \<and> \<not> log_timestamp l < cutoff
          \<and> (case resetAt accountId of None \<Rightarrow> True | Some r \<Rightarrow> \<not> log_timestamp l \<le> r))"

definition log_account :: "request_log \<Rightarrow> string" where
  "log_account l = (case log_accountId l of None \<Rightarrow> [] | Some i \<Rightarrow> i)"

text \<open>The last \<^verbatim>\<open>PERFORMANCE_HYDRATION_SAMPLES_PER_ACCOUNT\<close> logs by time, oldest first.\<close>

definition recent_logs :: "request_log list \<Rightarrow> request_log list" where
  "recent_logs logs =
     (let ordered = sort_by (\<lambda>a b. log_timestamp a < log_timestamp b) logs
      in drop (length ordered - PERFORMANCE_HYDRATION_SAMPLES_PER_ACCOUNT) ordered)"

definition hydrate_account ::
    "nat \<Rightarrow> nat \<Rightarrow> request_log list \<Rightarrow> performance_state option" where
  "hydrate_account revision epoch logs =
     foldl (\<lambda>st l. Some (observe st revision epoch (log_status l = Log_Success) (log_sample l)
                          (log_timestamp l) False))
       None (recent_logs logs)"

text \<open>
  \<open>revision\<close> and \<open>epoch\<close> are the generations of each account: restoring does not change them.
  An account with live samples keeps them.
\<close>

definition hydratePerformance ::
  "real \<Rightarrow> (string \<rightharpoonup> real) \<Rightarrow> (string \<Rightarrow> nat) \<Rightarrow> (string \<Rightarrow> nat) \<Rightarrow> request_log list
   \<Rightarrow> (string \<rightharpoonup> performance_state) \<Rightarrow> (string \<rightharpoonup> performance_state)" where
  "hydratePerformance now resetAt revision epoch logs perf =
     (let cutoff = now - PERFORMANCE_HYDRATION_WINDOW_MS;
          usable = filter (log_usable resetAt cutoff) logs
      in foldl (\<lambda>perf accountId.
                  if perf accountId \<noteq> None then perf
                  else perf(accountId :=
                         hydrate_account (revision accountId) (epoch accountId)
                           (filter (\<lambda>l. log_account l = accountId) usable)))
           perf (unique (map log_account usable)))"

end
