(* ===== verification/Health.thy ===== *)
theory Health
  imports Performance Sticky_Cache
begin

text \<open>
  Circuit state of accounts in \<^verbatim>\<open>src/main/gateway/scheduler.ts\<close>: cooldowns, consecutive
  failures, the generation counters that make concurrent outcomes a compare-and-set, the
  cooldowns of single models, and the availability test that combines them with quota. The
  fields of \<^verbatim>\<open>PoolScheduler\<close> involved form the record \<open>health_state\<close>; \<open>now\<close> is the clock
  value the operation reads.
\<close>

section \<open>State\<close>

record runtime_health =
  rh_accountId :: string
  rh_circuitState :: circuit_state
  rh_consecutiveFailures :: nat
  rh_cooldownUntil :: "real option"
  rh_lastFailureAt :: "real option"

record health_state =
  hs_health :: "string \<rightharpoonup> runtime_health"
  hs_revisions :: "string \<rightharpoonup> nat"
  hs_epochs :: "string \<rightharpoonup> nat"
  hs_reasons :: "string \<rightharpoonup> cooldown_reason"
  hs_modelCooldowns :: "string \<rightharpoonup> (string, model_cooldown) js_map"
  hs_performance :: "string \<rightharpoonup> performance_state"
  hs_performanceResetAt :: "string \<rightharpoonup> real"
  hs_quotaHalfOpen :: "string \<rightharpoonup> real"

definition empty_health :: health_state where
  "empty_health = \<lparr>hs_health = Map.empty, hs_revisions = Map.empty, hs_epochs = Map.empty,
     hs_reasons = Map.empty, hs_modelCooldowns = Map.empty, hs_performance = Map.empty,
     hs_performanceResetAt = Map.empty, hs_quotaHalfOpen = Map.empty\<rparr>"

text \<open>\<^verbatim>\<open>AccountSuccessResult\<close> and \<^verbatim>\<open>AccountFailureResult\<close>.\<close>

record outcome_result =
  oc_health :: runtime_health
  oc_applied :: bool
  oc_revision :: nat

record failure_options =
  fo_retryAfterMs :: "real option"
  fo_baseDelayMs :: "js_number option"
  fo_maxDelayMs :: "js_number option"
  fo_maxConcurrency :: "real option"
  fo_reason :: "cooldown_reason option"
  fo_expectedRevision :: "nat option"
  fo_expectedResetEpoch :: "nat option"

definition or_zero :: "real option \<Rightarrow> real" where
  "or_zero v = (case v of None \<Rightarrow> 0 | Some x \<Rightarrow> x)"

definition closed_health :: "string \<Rightarrow> runtime_health" where
  "closed_health accountId = \<lparr>rh_accountId = accountId, rh_circuitState = Closed,
     rh_consecutiveFailures = 0, rh_cooldownUntil = None, rh_lastFailureAt = None\<rparr>"

text \<open>\<^verbatim>\<open>existing?.cooldownUntil ?? 0\<close> and its like.\<close>

definition health_cooldown :: "runtime_health option \<Rightarrow> real" where
  "health_cooldown e = (case e of None \<Rightarrow> 0 | Some h \<Rightarrow> or_zero (rh_cooldownUntil h))"

definition health_failures :: "runtime_health option \<Rightarrow> nat" where
  "health_failures e = (case e of None \<Rightarrow> 0 | Some h \<Rightarrow> rh_consecutiveFailures h)"

definition health_lastFailure :: "runtime_health option \<Rightarrow> real option" where
  "health_lastFailure e = (case e of None \<Rightarrow> None | Some h \<Rightarrow> rh_lastFailureAt h)"

section \<open>Generations\<close>

definition getHealthRevision :: "health_state \<Rightarrow> string \<Rightarrow> nat" where
  "getHealthRevision h accountId = (case hs_revisions h accountId of None \<Rightarrow> 0 | Some n \<Rightarrow> n)"

definition getResetEpoch :: "health_state \<Rightarrow> string \<Rightarrow> nat" where
  "getResetEpoch h accountId = (case hs_epochs h accountId of None \<Rightarrow> 0 | Some n \<Rightarrow> n)"

definition bumpHealthRevision :: "string \<Rightarrow> health_state \<Rightarrow> nat \<times> health_state" where
  "bumpHealthRevision accountId h =
     (let nxt = getHealthRevision h accountId + 1
      in (nxt, h\<lparr>hs_revisions := (hs_revisions h)(accountId \<mapsto> nxt)\<rparr>))"

definition bumpResetEpoch :: "string \<Rightarrow> health_state \<Rightarrow> nat \<times> health_state" where
  "bumpResetEpoch accountId h =
     (let nxt = getResetEpoch h accountId + 1
      in (nxt, h\<lparr>hs_epochs := (hs_epochs h)(accountId \<mapsto> nxt)\<rparr>))"

section \<open>Circuit transitions\<close>

definition getHealth :: "real \<Rightarrow> string \<Rightarrow> health_state \<Rightarrow> runtime_health \<times> health_state" where
  "getHealth now accountId h =
     (case hs_health h accountId of
        None \<Rightarrow> (closed_health accountId, h)
      | Some state \<Rightarrow>
          let state' = (if rh_circuitState state = Open \<and> or_zero (rh_cooldownUntil state) \<le> now
                        then state\<lparr>rh_circuitState := Half_Open\<rparr> else state)
          in (state', h\<lparr>hs_health := (hs_health h)(accountId \<mapsto> state')\<rparr>))"

definition not_applied :: "real \<Rightarrow> string \<Rightarrow> nat \<Rightarrow> health_state \<Rightarrow> outcome_result \<times> health_state" where
  "not_applied now accountId revision h =
     (let (current, h') = getHealth now accountId h
      in (\<lparr>oc_health = current, oc_applied = False, oc_revision = revision\<rparr>, h'))"

definition store_health ::
    "runtime_health \<Rightarrow> cooldown_reason \<Rightarrow> string \<Rightarrow> health_state \<Rightarrow> outcome_result \<times> health_state" where
  "store_health state reason accountId h =
     (let (revision, h') = bumpHealthRevision accountId
            (h\<lparr>hs_health := (hs_health h)(accountId \<mapsto> state),
               hs_reasons := (hs_reasons h)(accountId \<mapsto> reason)\<rparr>)
      in (\<lparr>oc_health = state, oc_applied = True, oc_revision = revision\<rparr>, h'))"

definition mergeQuotaCooldown ::
    "real \<Rightarrow> string \<Rightarrow> real \<Rightarrow> nat \<Rightarrow> health_state \<Rightarrow> outcome_result \<times> health_state" where
  "mergeQuotaCooldown now accountId until revision h =
     (let existing = hs_health h accountId
      in if until \<le> health_cooldown existing then not_applied now accountId revision h
         else store_health
                \<lparr>rh_accountId = accountId, rh_circuitState = Open,
                 rh_consecutiveFailures = health_failures existing,
                 rh_cooldownUntil = Some until,
                 rh_lastFailureAt = health_lastFailure existing\<rparr>
                Quota_Reason accountId h)"

definition stale :: "nat option \<Rightarrow> nat \<Rightarrow> bool" where
  "stale expected actual = (case expected of None \<Rightarrow> False | Some e \<Rightarrow> e \<noteq> actual)"

definition setCooldown ::
  "real \<Rightarrow> string \<Rightarrow> real \<Rightarrow> nat option \<Rightarrow> nat option \<Rightarrow> health_state \<Rightarrow> outcome_result \<times> health_state" where
  "setCooldown now accountId until expectedRevision expectedResetEpoch h =
     (let revision = getHealthRevision h accountId;
          existing = hs_health h accountId
      in if stale expectedResetEpoch (getResetEpoch h accountId) then
           not_applied now accountId revision h
         else if stale expectedRevision revision then
           (if expectedResetEpoch \<noteq> None then mergeQuotaCooldown now accountId until revision h
            else not_applied now accountId revision h)
         else store_health
                \<lparr>rh_accountId = accountId, rh_circuitState = Open,
                 rh_consecutiveFailures = health_failures existing,
                 rh_cooldownUntil = Some (max until (health_cooldown existing)),
                 rh_lastFailureAt = health_lastFailure existing\<rparr>
                Quota_Reason accountId h)"

definition positiveDuration :: "js_number option \<Rightarrow> real \<Rightarrow> real" where
  "positiveDuration v fallback =
     (case v of Some (Finite x) \<Rightarrow> if x > 0 then x else fallback | _ \<Rightarrow> fallback)"

definition observeOutcome ::
  "string \<Rightarrow> bool \<Rightarrow> performance_sample \<Rightarrow> real \<Rightarrow> bool \<Rightarrow> health_state \<Rightarrow> health_state" where
  "observeOutcome accountId success sample observedAt adaptConcurrency h =
     h\<lparr>hs_performance := (hs_performance h)(accountId \<mapsto>
         observe (hs_performance h accountId) (getHealthRevision h accountId)
           (getResetEpoch h accountId) success sample observedAt adaptConcurrency)\<rparr>"

text \<open>The delay of the \<open>n\<close>-th consecutive failure, and its extension by \<^verbatim>\<open>Retry-After\<close>.\<close>

definition backoff_delay :: "failure_options \<Rightarrow> nat \<Rightarrow> real" where
  "backoff_delay options consecutiveFailures =
     (let baseDelayMs = positiveDuration (fo_baseDelayMs options) 30000;
          maxDelayMs = positiveDuration (fo_maxDelayMs options) (15 * 60000);
          exponent = min 20 (consecutiveFailures - 1)
      in min maxDelayMs (baseDelayMs * 2 ^ exponent))"

definition failure_delay :: "failure_options \<Rightarrow> nat \<Rightarrow> real" where
  "failure_delay options consecutiveFailures =
     max (backoff_delay options consecutiveFailures) (max 0 (or_zero (fo_retryAfterMs options)))"

text \<open>Halving the adaptive concurrency limit after a failure.\<close>

definition halve_concurrency :: "real option \<Rightarrow> performance_state option \<Rightarrow> real" where
  "halve_concurrency maxConcurrency before =
     max 1 (js_floor
       ((case had before pf_dynamicConcurrency None of
           Some d \<Rightarrow> d
         | None \<Rightarrow> max 1 (case maxConcurrency of None \<Rightarrow> 2 | Some m \<Rightarrow> m)) / 2))"

definition recordFailure ::
  "real \<Rightarrow> string \<Rightarrow> failure_options \<Rightarrow> sticky_cache \<times> health_state
   \<Rightarrow> outcome_result \<times> sticky_cache \<times> health_state" where
  "recordFailure now accountId options = (\<lambda>(c, h).
     let revision = getHealthRevision h accountId;
         existing = hs_health h accountId
     in if stale (fo_expectedResetEpoch options) (getResetEpoch h accountId) then
          (let (r, h') = not_applied now accountId revision h in (r, c, h'))
        else if stale (fo_expectedRevision options) revision then
          (if fo_reason options = Some Quota_Reason \<and> fo_expectedResetEpoch options \<noteq> None then
             (let failures = max 1 (health_failures existing);
                  (r, h') = mergeQuotaCooldown now accountId
                              (now + failure_delay options failures) revision h
              in (r, c, h'))
           else (let (r, h') = not_applied now accountId revision h in (r, c, h')))
        else
          let c' = failAccountAssignments now accountId c;
              failures = health_failures existing + 1;
              cooldownUntil = now + failure_delay options failures;
              state = \<lparr>rh_accountId = accountId, rh_circuitState = Open,
                       rh_consecutiveFailures = failures,
                       rh_cooldownUntil = Some (max cooldownUntil (health_cooldown existing)),
                       rh_lastFailureAt = Some now\<rparr>;
              reason = (if hs_reasons h accountId = Some Quota_Reason
                           \<and> health_cooldown existing > now
                        then Quota_Reason
                        else (case fo_reason options of None \<Rightarrow> Failure_Reason | Some r \<Rightarrow> r));
              (r, h1) = store_health state reason accountId h;
              before = hs_performance h1 accountId;
              h2 = observeOutcome accountId False no_sample now True h1
          in (r, c',
              (case hs_performance h2 accountId of
                 None \<Rightarrow> h2
               | Some updated \<Rightarrow>
                   h2\<lparr>hs_performance := (hs_performance h2)(accountId \<mapsto>
                       updated\<lparr>pf_dynamicConcurrency :=
                                 Some (halve_concurrency (fo_maxConcurrency options) before),
                               pf_successStreak := 0\<rparr>)\<rparr>)))"

definition recordSuccess ::
  "real \<Rightarrow> string \<Rightarrow> nat option \<Rightarrow> nat option \<Rightarrow> health_state \<Rightarrow> outcome_result \<times> health_state" where
  "recordSuccess now accountId expectedRevision expectedResetEpoch h =
     (let revision = getHealthRevision h accountId;
          existing = hs_health h accountId;
          superseded = stale expectedRevision revision
                       \<or> stale expectedResetEpoch (getResetEpoch h accountId);
          missingQuotaGeneration = expectedRevision = None \<and> existing \<noteq> None
                                   \<and> hs_reasons h accountId = Some Quota_Reason
      in if superseded \<or> missingQuotaGeneration then not_applied now accountId revision h
         else if existing \<noteq> None then
           (let (nxt, h') = bumpHealthRevision accountId
                  (h\<lparr>hs_health := (hs_health h)(accountId := None),
                     hs_reasons := (hs_reasons h)(accountId := None)\<rparr>)
            in (\<lparr>oc_health = closed_health accountId, oc_applied = True, oc_revision = nxt\<rparr>, h'))
         else (\<lparr>oc_health = closed_health accountId, oc_applied = True, oc_revision = revision\<rparr>, h))"

definition resetHealth ::
    "real \<Rightarrow> string \<Rightarrow> bool \<Rightarrow> health_state \<Rightarrow> runtime_health \<times> health_state" where
  "resetHealth now accountId clearPerformance h =
     (let h1 = h\<lparr>hs_health := (hs_health h)(accountId := None),
                hs_reasons := (hs_reasons h)(accountId := None),
                hs_modelCooldowns := (hs_modelCooldowns h)(accountId := None),
                hs_quotaHalfOpen := (hs_quotaHalfOpen h)(accountId := None)\<rparr>;
          h2 = (if clearPerformance
                then h1\<lparr>hs_performance := (hs_performance h1)(accountId := None),
                        hs_performanceResetAt := (hs_performanceResetAt h1)(accountId \<mapsto> now)\<rparr>
                else h1);
          (_, h3) = bumpResetEpoch accountId h2;
          (_, h4) = bumpHealthRevision accountId h3
      in (closed_health accountId, h4))"

definition recordPerformance ::
  "real \<Rightarrow> string \<Rightarrow> performance_sample \<Rightarrow> nat option \<Rightarrow> nat option \<Rightarrow> health_state
   \<Rightarrow> bool \<times> health_state" where
  "recordPerformance now accountId sample expectedRevision expectedResetEpoch h =
     (if stale expectedRevision (getHealthRevision h accountId)
         \<or> stale expectedResetEpoch (getResetEpoch h accountId)
      then (False, h)
      else (True, observeOutcome accountId True sample now True h))"

section \<open>Cooldowns of single models\<close>

definition MAX_MODEL_COOLDOWNS_PER_ACCOUNT :: nat where "MAX_MODEL_COOLDOWNS_PER_ACCOUNT = 256"
definition MAX_MODEL_KEY_LENGTH :: nat where "MAX_MODEL_KEY_LENGTH = 256"

definition normalizedModelCooldownKey :: "string \<Rightarrow> string option" where
  "normalizedModelCooldownKey value =
     (let normalized = js_trim value
      in if normalized = [] \<or> length normalized > MAX_MODEL_KEY_LENGTH
            \<or> containsControlCharacter normalized
         then None else Some normalized)"

definition reason_of_name :: "string \<Rightarrow> model_cooldown_reason option" where
  "reason_of_name s =
     (if s = ''not-found'' then Some Not_Found
      else if s = ''permission'' then Some Permission
      else if s = ''plan-restricted'' then Some Plan_Restricted
      else if s = ''rate-limit'' then Some Rate_Limit
      else None)"

fun reason_name :: "model_cooldown_reason \<Rightarrow> string" where
  "reason_name Not_Found = ''not-found''"
| "reason_name Permission = ''permission''"
| "reason_name Plan_Restricted = ''plan-restricted''"
| "reason_name Rate_Limit = ''rate-limit''"

text \<open>A cooldown of the runtime map, seen again as the unknown value the type guard takes.\<close>

definition raw_of :: "model_cooldown \<Rightarrow> raw_model_cooldown" where
  "raw_of c = \<lparr>raw_until = Finite (mc_until c), raw_reason = reason_name (mc_reason c),
     raw_statusCode = map_option Finite (mc_statusCode c), raw_updatedAt = Finite (mc_updatedAt c)\<rparr>"

definition valid_status_code :: "js_number option \<Rightarrow> bool" where
  "valid_status_code v =
     (case v of
        None \<Rightarrow> True
      | Some NonFinite \<Rightarrow> False
      | Some (Finite x) \<Rightarrow> js_floor x = x \<and> x \<ge> 400 \<and> x \<le> 599)"

definition validModelCooldown :: "raw_model_cooldown option \<Rightarrow> real \<Rightarrow> bool" where
  "validModelCooldown value now =
     (case value of
        None \<Rightarrow> False
      | Some c \<Rightarrow>
          (case raw_until c of Finite u \<Rightarrow> u > now | NonFinite \<Rightarrow> False)
          \<and> raw_updatedAt c \<noteq> NonFinite
          \<and> reason_of_name (raw_reason c) \<noteq> None
          \<and> valid_status_code (raw_statusCode c))"

text \<open>The spread copy \<^verbatim>\<open>{ ...cooldown }\<close> of a value the type guard accepted.\<close>

definition number_or_zero :: "js_number \<Rightarrow> real" where
  "number_or_zero v = (case v of Finite x \<Rightarrow> x | NonFinite \<Rightarrow> 0)"

definition typed_cooldown :: "raw_model_cooldown \<Rightarrow> model_cooldown" where
  "typed_cooldown c =
     \<lparr>mc_until = number_or_zero (raw_until c),
      mc_reason = (case reason_of_name (raw_reason c) of None \<Rightarrow> Not_Found | Some r \<Rightarrow> r),
      mc_statusCode = map_option number_or_zero (raw_statusCode c),
      mc_updatedAt = number_or_zero (raw_updatedAt c)\<rparr>"

definition prune_cooldowns :: "real \<Rightarrow> (string, model_cooldown) js_map \<Rightarrow> (string, model_cooldown) js_map" where
  "prune_cooldowns now m = filter (\<lambda>(model, c). validModelCooldown (Some (raw_of c)) now) m"

text \<open>
  \<^verbatim>\<open>pruneModelCooldownMap\<close> works on a map that is, or may become, the account's entry; what
  it leaves in the state is the pruned map, or nothing when that is empty. \<open>put_cooldowns\<close> is
  the state after it and the callers' \<^verbatim>\<open>if (size > 0) set\<close>.
\<close>

definition put_cooldowns ::
    "string \<Rightarrow> (string, model_cooldown) js_map \<Rightarrow> health_state \<Rightarrow> health_state" where
  "put_cooldowns accountId m h =
     h\<lparr>hs_modelCooldowns :=
         (if m = [] then (hs_modelCooldowns h)(accountId := None)
          else (hs_modelCooldowns h)(accountId \<mapsto> m))\<rparr>"

definition account_cooldowns :: "health_state \<Rightarrow> string \<Rightarrow> (string, model_cooldown) js_map" where
  "account_cooldowns h accountId =
     (case hs_modelCooldowns h accountId of None \<Rightarrow> [] | Some m \<Rightarrow> m)"

definition getModelCooldowns ::
    "real \<Rightarrow> string \<Rightarrow> health_state \<Rightarrow> (string, model_cooldown) js_map \<times> health_state" where
  "getModelCooldowns now accountId h =
     (case hs_modelCooldowns h accountId of
        None \<Rightarrow> ([], h)
      | Some m \<Rightarrow> let m' = prune_cooldowns now m in (m', put_cooldowns accountId m' h))"

text \<open>The first key with the least \<^verbatim>\<open>updatedAt\<close>.\<close>

fun oldest_cooldown :: "(string \<times> real) option \<Rightarrow> (string, model_cooldown) js_map \<Rightarrow> string option" where
  "oldest_cooldown best [] = map_option fst best"
| "oldest_cooldown best ((key, c) # m) =
     oldest_cooldown
       (case best of
          None \<Rightarrow> Some (key, mc_updatedAt c)
        | Some (_, t) \<Rightarrow> if mc_updatedAt c < t then Some (key, mc_updatedAt c) else best) m"

text \<open>
  The loop that bounds the map, at most once per entry: every round but the last deletes one.
\<close>

fun bound_cooldowns :: "nat \<Rightarrow> (string, model_cooldown) js_map \<Rightarrow> (string, model_cooldown) js_map" where
  "bound_cooldowns 0 m = m"
| "bound_cooldowns (Suc fuel) m =
     (if length m > MAX_MODEL_COOLDOWNS_PER_ACCOUNT then
        (case truthy (oldest_cooldown None m) of
           None \<Rightarrow> m
         | Some key \<Rightarrow> bound_cooldowns fuel (map_delete m key))
      else m)"

definition recordModelFailure ::
  "real \<Rightarrow> string \<Rightarrow> string \<Rightarrow> model_cooldown_reason \<Rightarrow> real \<Rightarrow> real option \<Rightarrow> health_state
   \<Rightarrow> (string, model_cooldown) js_map \<times> health_state" where
  "recordModelFailure now accountId model reason cooldown statusCode h =
     (case normalizedModelCooldownKey model of
        None \<Rightarrow> getModelCooldowns now accountId h
      | Some key \<Rightarrow>
          let cooldownMs = max 1000 (js_floor cooldown);
              m = prune_cooldowns now (account_cooldowns h accountId);
              nxt = \<lparr>mc_until = now + cooldownMs, mc_reason = reason, mc_statusCode = statusCode,
                     mc_updatedAt = now\<rparr>;
              replace = (case map_get m key of
                           None \<Rightarrow> True
                         | Some e \<Rightarrow> mc_updatedAt e \<le> mc_updatedAt nxt \<or> mc_until e < mc_until nxt);
              m1 = (if replace then map_set m key nxt else m);
              m2 = bound_cooldowns (length m1) m1
          in getModelCooldowns now accountId (put_cooldowns accountId m2 h))"

definition isModelAvailable :: "string \<Rightarrow> string \<Rightarrow> real \<Rightarrow> health_state \<Rightarrow> bool \<times> health_state" where
  "isModelAvailable accountId model now h =
     (case normalizedModelCooldownKey model of
        None \<Rightarrow> (True, h)
      | Some key \<Rightarrow>
          (case hs_modelCooldowns h accountId of
             None \<Rightarrow> (True, h)
           | Some m \<Rightarrow>
               (case map_get m key of
                  None \<Rightarrow> (True, h)
                | Some c \<Rightarrow>
                    if mc_until c > now then (False, h)
                    else (True, put_cooldowns accountId (map_delete m key) h))))"

definition hydrate_cooldown ::
  "real \<Rightarrow> (string, model_cooldown) js_map \<Rightarrow> string \<times> raw_model_cooldown option
   \<Rightarrow> (string, model_cooldown) js_map" where
  "hydrate_cooldown now m = (\<lambda>(rawModel, cooldown).
     (case normalizedModelCooldownKey rawModel of
        None \<Rightarrow> m
      | Some model \<Rightarrow>
          if \<not> validModelCooldown cooldown now then m
          else (case cooldown of
                  None \<Rightarrow> m
                | Some raw \<Rightarrow>
                    let c = typed_cooldown raw
                    in if (case map_get m model of
                             None \<Rightarrow> True | Some live \<Rightarrow> mc_updatedAt c \<ge> mc_updatedAt live)
                       then map_set m model c else m)))"

definition hydrateModelCooldowns :: "real \<Rightarrow> account \<Rightarrow> health_state \<Rightarrow> health_state" where
  "hydrateModelCooldowns now a h =
     (let m = foldl (hydrate_cooldown now) (account_cooldowns h (acc_id a)) (acc_modelCooldowns a)
      in put_cooldowns (acc_id a) (prune_cooldowns now m) h)"

section \<open>Hydration from the persisted accounts\<close>

text \<open>Runtime entries of accounts that are gone.\<close>

definition forget_removed_accounts :: "account list \<Rightarrow> health_state \<Rightarrow> health_state" where
  "forget_removed_accounts accounts h =
     (let known = set (map acc_id accounts)
      in h\<lparr>hs_health := (\<lambda>i. if i \<in> known then hs_health h i else None),
           hs_reasons := (\<lambda>i. if hs_health h i \<noteq> None \<and> i \<notin> known then None else hs_reasons h i),
           hs_modelCooldowns := (\<lambda>i. if i \<in> known then hs_modelCooldowns h i else None),
           hs_performance := (\<lambda>i. if i \<in> known then hs_performance h i else None),
           hs_quotaHalfOpen := (\<lambda>i. if i \<in> known then hs_quotaHalfOpen h i else None)\<rparr>)"

definition explicitlyRecovered :: "account \<Rightarrow> runtime_health \<Rightarrow> bool" where
  "explicitlyRecovered a live \<longleftrightarrow>
     acc_status a = Active
     \<and> acc_circuitState a \<noteq> Some Open \<and> acc_circuitState a \<noteq> Some Half_Open
     \<and> acc_cooldownUntil a = None
     \<and> acc_updatedAt a > or_zero (rh_lastFailureAt live)"

definition restore_open :: "account \<Rightarrow> health_state \<Rightarrow> health_state" where
  "restore_open a h =
     (if \<not> (acc_circuitState a = Some Open \<or> acc_circuitState a = Some Half_Open
             \<or> acc_status a = Cooldown)
      then h
      else
        let quota = (acc_cooldownReason a = Some Quota_Reason)
        in h\<lparr>hs_health := (hs_health h)(acc_id a \<mapsto>
               \<lparr>rh_accountId = acc_id a,
                rh_circuitState = (if acc_circuitState a = Some Half_Open then Half_Open else Open),
                rh_consecutiveFailures =
                  max (if quota then 0 else 1)
                    (case acc_consecutiveFailures a of None \<Rightarrow> 0 | Some n \<Rightarrow> n),
                rh_cooldownUntil = acc_cooldownUntil a,
                rh_lastFailureAt = Some (acc_updatedAt a)\<rparr>),
             hs_reasons := (hs_reasons h)(acc_id a \<mapsto> (if quota then Quota_Reason else Failure_Reason))\<rparr>)"

definition hydrate_account_health :: "real \<Rightarrow> health_state \<Rightarrow> account \<Rightarrow> health_state" where
  "hydrate_account_health now h a =
     (let h1 = hydrateModelCooldowns now a h
      in case hs_health h1 (acc_id a) of
           None \<Rightarrow> restore_open a h1
         | Some live \<Rightarrow>
             if \<not> explicitlyRecovered a live then h1
             else
               let (_, h2) = bumpHealthRevision (acc_id a)
                     (h1\<lparr>hs_health := (hs_health h1)(acc_id a := None),
                         hs_reasons := (hs_reasons h1)(acc_id a := None),
                         hs_quotaHalfOpen := (hs_quotaHalfOpen h1)(acc_id a := None)\<rparr>)
               in restore_open a h2)"

definition hydrate_health :: "real \<Rightarrow> account list \<Rightarrow> health_state \<Rightarrow> health_state" where
  "hydrate_health now accounts h =
     foldl (hydrate_account_health now) (forget_removed_accounts accounts h) accounts"

section \<open>Availability\<close>

text \<open>The in-place transition of an open circuit whose cooldown is over.\<close>

definition open_to_half_open :: "string \<Rightarrow> real \<Rightarrow> health_state \<Rightarrow> health_state" where
  "open_to_half_open accountId now h =
     (case hs_health h accountId of
        None \<Rightarrow> h
      | Some state \<Rightarrow>
          if rh_circuitState state = Open \<and> or_zero (rh_cooldownUntil state) \<le> now
          then h\<lparr>hs_health := (hs_health h)(accountId \<mapsto> state\<lparr>rh_circuitState := Half_Open\<rparr>)\<rparr>
          else h)"

text \<open>The half-open probe that a reset-less quota observation is owed once it is old.\<close>

definition admit_quota_probe :: "account \<Rightarrow> real \<Rightarrow> health_state \<Rightarrow> health_state" where
  "admit_quota_probe a now h =
     (case expiredResetlessQuotaObservation a now of
        None \<Rightarrow> h\<lparr>hs_quotaHalfOpen := (hs_quotaHalfOpen h)(acc_id a := None)\<rparr>
      | Some observedAt \<Rightarrow>
          if hs_quotaHalfOpen h (acc_id a) = Some observedAt then h
          else
            let h1 = h\<lparr>hs_quotaHalfOpen := (hs_quotaHalfOpen h)(acc_id a \<mapsto> observedAt)\<rparr>
            in if hs_health h1 (acc_id a) = None
               then h1\<lparr>hs_health := (hs_health h1)(acc_id a \<mapsto>
                          (closed_health (acc_id a))\<lparr>rh_circuitState := Half_Open\<rparr>),
                       hs_reasons := (hs_reasons h1)(acc_id a \<mapsto> Quota_Reason)\<rparr>
               else h1)"

text \<open>The verdict on an account after these two transitions; \<open>inFlight\<close> is its load.\<close>

definition admissible ::
    "account \<Rightarrow> quota_protection option \<Rightarrow> real \<Rightarrow> real \<Rightarrow> runtime_health option \<Rightarrow> bool" where
  "admissible a poolProtection now inFlight health =
     (let cooldownUntil = max (or_zero (acc_cooldownUntil a)) (health_cooldown health)
      in if \<not> isRouteAccountRuntimeAvailable a now then False
         else if quotaExhausted a now then False
         else if accountReportsCodexQuota a
                 \<and> (quotaProtectionBlocks (acc_codexQuota a) (acc_quotaProtection a) now
                    \<or> quotaProtectionBlocks (acc_codexQuota a) poolProtection now) then False
         else if cooldownUntil > now
                 \<or> (map_option rh_circuitState health = Some Half_Open \<and> inFlight > 0) then False
         else True)"

definition isAvailable ::
  "account \<Rightarrow> quota_protection option \<Rightarrow> real \<Rightarrow> string option \<Rightarrow> real \<Rightarrow> health_state
   \<Rightarrow> bool \<times> health_state" where
  "isAvailable a poolProtection now model inFlight h =
     (let (modelAvailable, h0) =
            (case truthy model of
               None \<Rightarrow> (True, h)
             | Some m \<Rightarrow> isModelAvailable (acc_id a) m now h)
      in if \<not> modelAvailable then (False, h0)
         else
           let h1 = open_to_half_open (acc_id a) now h0;
               h2 = admit_quota_probe a now h1
           in (admissible a poolProtection now inFlight (hs_health h2 (acc_id a)), h2))"

section \<open>Reset of everything\<close>

text \<open>The generations survive, and every account that had any state gets a new one.\<close>

definition clear_health :: "(string \<Rightarrow> bool) \<Rightarrow> health_state \<Rightarrow> health_state" where
  "clear_health active h =
     (let invalidated = (\<lambda>i. active i \<or> hs_health h i \<noteq> None \<or> hs_performance h i \<noteq> None
                             \<or> hs_revisions h i \<noteq> None)
      in h\<lparr>hs_health := Map.empty, hs_reasons := Map.empty, hs_modelCooldowns := Map.empty,
           hs_performance := Map.empty, hs_quotaHalfOpen := Map.empty,
           hs_revisions := (\<lambda>i. if invalidated i then Some (getHealthRevision h i + 1)
                                else hs_revisions h i)\<rparr>)"

end
