(* ===== verification/Health_Proofs.thy ===== *)
theory Health_Proofs
  imports Health Sticky_Proofs
begin

text \<open>
  Correctness of the circuit state: outcomes of concurrent attempts are a compare-and-set on
  the account's generation, cooldowns are never shortened, an explicit reset invalidates
  everything selected before it, and the cooldowns of single models are bounded and
  honoured.
\<close>

section \<open>Results of an outcome\<close>

lemma stale_None [simp]: "\<not> stale None n"
  by (simp add: stale_def)

lemma stale_Some [simp]: "stale (Some e) n \<longleftrightarrow> e \<noteq> n"
  by (simp add: stale_def)

lemma health_option_simps [simp]:
  "health_cooldown None = 0"
  "health_cooldown (Some st) = or_zero (rh_cooldownUntil st)"
  "health_failures None = 0"
  "health_failures (Some st) = rh_consecutiveFailures st"
  "or_zero None = 0"
  "or_zero (Some x) = x"
  by (simp_all add: health_cooldown_def health_failures_def or_zero_def)

lemma getHealth_frame [simp, frame_simps]:
  "hs_revisions (snd (getHealth now i h)) = hs_revisions h"
  "hs_epochs (snd (getHealth now i h)) = hs_epochs h"
  "hs_reasons (snd (getHealth now i h)) = hs_reasons h"
  "hs_modelCooldowns (snd (getHealth now i h)) = hs_modelCooldowns h"
  "hs_performance (snd (getHealth now i h)) = hs_performance h"
  "hs_performanceResetAt (snd (getHealth now i h)) = hs_performanceResetAt h"
  "hs_quotaHalfOpen (snd (getHealth now i h)) = hs_quotaHalfOpen h"
  by (simp_all add: getHealth_def Let_def split: option.split)

lemma getHealth_cooldown [simp]:
  "health_cooldown (hs_health (snd (getHealth now i h)) j) = health_cooldown (hs_health h j)"
  by (simp add: getHealth_def Let_def split: option.split)

lemma getHealth_failures [simp]:
  "health_failures (hs_health (snd (getHealth now i h)) j) = health_failures (hs_health h j)"
  by (simp add: getHealth_def Let_def split: option.split)

lemma not_applied_eq:
  "not_applied now i r h =
     (\<lparr>oc_health = fst (getHealth now i h), oc_applied = False, oc_revision = r\<rparr>,
      snd (getHealth now i h))"
  by (simp add: not_applied_def split: prod.split)

lemma revision_getHealth [simp]:
  "getHealthRevision (snd (getHealth now i h)) j = getHealthRevision h j"
  "getResetEpoch (snd (getHealth now i h)) j = getResetEpoch h j"
  by (simp_all add: getHealthRevision_def getResetEpoch_def)

lemma store_health_eq:
  "store_health st reason i h =
     (\<lparr>oc_health = st, oc_applied = True, oc_revision = getHealthRevision h i + 1\<rparr>,
      h\<lparr>hs_health := (hs_health h)(i \<mapsto> st), hs_reasons := (hs_reasons h)(i \<mapsto> reason),
        hs_revisions := (hs_revisions h)(i \<mapsto> getHealthRevision h i + 1)\<rparr>)"
  by (simp add: store_health_def bumpHealthRevision_def Let_def getHealthRevision_def)

lemma getHealthRevision_upd [simp]:
  "getHealthRevision (h\<lparr>hs_health := a, hs_reasons := b, hs_revisions := (hs_revisions h)(i \<mapsto> n)\<rparr>) j
     = (if j = i then n else getHealthRevision h j)"
  by (simp add: getHealthRevision_def)

text \<open>
  What an outcome that is not applied leaves alone. Only an open circuit whose cooldown is
  over may become half-open, as every read of it does.
\<close>

definition untouched :: "health_state \<Rightarrow> health_state \<Rightarrow> bool" where
  "untouched h h' \<longleftrightarrow>
     hs_revisions h' = hs_revisions h \<and> hs_epochs h' = hs_epochs h \<and> hs_reasons h' = hs_reasons h
     \<and> hs_modelCooldowns h' = hs_modelCooldowns h \<and> hs_performance h' = hs_performance h
     \<and> hs_performanceResetAt h' = hs_performanceResetAt h
     \<and> hs_quotaHalfOpen h' = hs_quotaHalfOpen h
     \<and> (\<forall>i. health_cooldown (hs_health h' i) = health_cooldown (hs_health h i)
          \<and> health_failures (hs_health h' i) = health_failures (hs_health h i))"

lemma untouched_getHealth: "untouched h (snd (getHealth now i h))"
  by (simp add: untouched_def)

lemma untouched_refl [simp]: "untouched h h"
  by (simp add: untouched_def)

text \<open>What an applied outcome does to the generations: exactly one more for its account.\<close>

definition advanced :: "string \<Rightarrow> health_state \<Rightarrow> health_state \<Rightarrow> bool" where
  "advanced i h h' \<longleftrightarrow>
     (\<forall>j. getHealthRevision h' j = getHealthRevision h j + (if j = i then 1 else 0))
     \<and> hs_epochs h' = hs_epochs h"

lemma mergeQuotaCooldown_cases:
  assumes "mergeQuotaCooldown now i t (getHealthRevision h i) h = (r, h')"
  shows "oc_revision r = getHealthRevision h' i
    \<and> (if oc_applied r then advanced i h h' else untouched h h')
    \<and> oc_applied r = (t > health_cooldown (hs_health h i))
    \<and> health_cooldown (hs_health h' i) = max t (health_cooldown (hs_health h i))"
  using assms untouched_getHealth [of h now i]
  by (auto simp: mergeQuotaCooldown_def Let_def not_applied_eq store_health_eq advanced_def max_def
      split: if_splits)

lemma setCooldown_cases:
  assumes "setCooldown now i t er ee h = (r, h')"
  shows "oc_revision r = getHealthRevision h' i
    \<and> (if oc_applied r then advanced i h h' else untouched h h')
    \<and> health_cooldown (hs_health h i) \<le> health_cooldown (hs_health h' i)"
proof -
  have applied: "store_health \<lparr>rh_accountId = i, rh_circuitState = Open,
        rh_consecutiveFailures = n, rh_cooldownUntil = Some (max t (health_cooldown (hs_health h i))),
        rh_lastFailureAt = l\<rparr> Quota_Reason i h = (r, h') \<Longrightarrow> ?thesis" for n l
    by (auto simp: store_health_eq advanced_def)
  have rejected: "not_applied now i (getHealthRevision h i) h = (r, h') \<Longrightarrow> ?thesis"
    using untouched_getHealth [of h now i] by (auto simp: not_applied_eq)
  show ?thesis
    using assms applied rejected mergeQuotaCooldown_cases [of now i t h r h']
    unfolding setCooldown_def Let_def by (auto split: if_splits)
qed

text \<open>
  The health part of an applied failure, before the performance record is updated.
\<close>

lemma advanced_performance [simp]:
  "advanced i h (h'\<lparr>hs_performance := p\<rparr>) = advanced i h h'"
  by (simp add: advanced_def getHealthRevision_def)

lemma recordFailure_applied_eq:
  assumes "\<not> stale (fo_expectedResetEpoch opts) (getResetEpoch h i)"
    and "\<not> stale (fo_expectedRevision opts) (getHealthRevision h i)"
  shows "\<exists>p reason. recordFailure now i opts (c, h) =
    (\<lparr>oc_health = \<lparr>rh_accountId = i, rh_circuitState = Open,
        rh_consecutiveFailures = health_failures (hs_health h i) + 1,
        rh_cooldownUntil = Some (max (now + failure_delay opts (health_failures (hs_health h i) + 1))
                                     (health_cooldown (hs_health h i))),
        rh_lastFailureAt = Some now\<rparr>,
      oc_applied = True, oc_revision = getHealthRevision h i + 1\<rparr>,
     failAccountAssignments now i c,
     h\<lparr>hs_health := (hs_health h)(i \<mapsto> \<lparr>rh_accountId = i, rh_circuitState = Open,
        rh_consecutiveFailures = health_failures (hs_health h i) + 1,
        rh_cooldownUntil = Some (max (now + failure_delay opts (health_failures (hs_health h i) + 1))
                                     (health_cooldown (hs_health h i))),
        rh_lastFailureAt = Some now\<rparr>),
       hs_reasons := (hs_reasons h)(i \<mapsto> reason),
       hs_revisions := (hs_revisions h)(i \<mapsto> getHealthRevision h i + 1),
       hs_performance := p\<rparr>)
    \<and> (\<exists>st. p = (hs_performance h)(i \<mapsto> st)
         \<and> pf_dynamicConcurrency st = Some (halve_concurrency (fo_maxConcurrency opts) (hs_performance h i))
         \<and> pf_successStreak st = 0)
    \<and> (hs_reasons h i = Some Quota_Reason \<and> health_cooldown (hs_health h i) > now
         \<longrightarrow> reason = Quota_Reason)"
  using assms
  by (simp add: recordFailure_def Let_def store_health_eq observeOutcome_def) force

lemma recordFailure_rejected:
  assumes "stale (fo_expectedResetEpoch opts) (getResetEpoch h i)
      \<or> stale (fo_expectedRevision opts) (getHealthRevision h i)"
    and "recordFailure now i opts (c, h) = (r, c', h')"
  shows "c' = c \<and> oc_revision r = getHealthRevision h' i
    \<and> (if oc_applied r then advanced i h h' else untouched h h')
    \<and> health_cooldown (hs_health h i) \<le> health_cooldown (hs_health h' i)"
proof -
  have rejected: "not_applied now i (getHealthRevision h i) h = (r, h') \<Longrightarrow> ?thesis" if "c' = c"
    using untouched_getHealth [of h now i] that by (auto simp: not_applied_eq)
  show ?thesis
    using assms rejected mergeQuotaCooldown_cases [of now i _ h r h']
    unfolding recordFailure_def Let_def by (fastforce split: if_splits prod.splits)
qed

lemma recordFailure_cases:
  assumes "recordFailure now i opts (c, h) = (r, c', h')"
  shows "oc_revision r = getHealthRevision h' i
    \<and> (if oc_applied r then advanced i h h' else untouched h h')
    \<and> health_cooldown (hs_health h i) \<le> health_cooldown (hs_health h' i)"
proof (cases "stale (fo_expectedResetEpoch opts) (getResetEpoch h i)
      \<or> stale (fo_expectedRevision opts) (getHealthRevision h i)")
  case True
  from recordFailure_rejected [OF this assms] show ?thesis by blast
next
  case False
  with recordFailure_applied_eq [of opts h i now c] assms show ?thesis
    by (auto simp: advanced_def getHealthRevision_def)
qed

lemma recordSuccess_cases:
  assumes "recordSuccess now i er ee h = (r, h')"
  shows "oc_revision r = getHealthRevision h' i
    \<and> (if oc_applied r
       then hs_health h' i = None \<and> (if hs_health h i = None then h' = h else advanced i h h')
       else untouched h h')"
  using assms untouched_getHealth [of h now i]
  by (auto simp: recordSuccess_def Let_def not_applied_eq bumpHealthRevision_def advanced_def
      getHealthRevision_def split: if_splits)

section \<open>First outcome of a generation wins\<close>

text \<open>A sequence of reports, each told whether it was applied.\<close>

fun run_reports :: "('x \<Rightarrow> 's \<Rightarrow> bool \<times> 's) \<Rightarrow> 'x list \<Rightarrow> 's \<Rightarrow> bool list \<times> 's" where
  "run_reports report [] s = ([], s)"
| "run_reports report (x # xs) s =
     (let (b, s1) = report x s; (bs, s2) = run_reports report xs s1 in (b # bs, s2))"

text \<open>
  The contract of an outcome report that carries the generation its attempt was selected
  under: a stale report is rejected, and an applied one moves the generation on.
\<close>

locale generation_guard =
  fixes generation :: "'s \<Rightarrow> nat"
    and expects :: "'x \<Rightarrow> nat"
    and report :: "'x \<Rightarrow> 's \<Rightarrow> bool \<times> 's"
  assumes stale_rejected: "expects x \<noteq> generation s \<Longrightarrow> \<not> fst (report x s)"
    and rejected_keeps: "\<not> fst (report x s) \<Longrightarrow> generation (snd (report x s)) = generation s"
    and applied_advances: "fst (report x s) \<Longrightarrow> generation (snd (report x s)) = Suc (generation s)"
begin

lemma generation_mono: "generation s \<le> generation (snd (report x s))"
  using rejected_keeps [of x s] applied_advances [of x s] by (cases "fst (report x s)") auto

lemma all_stale_rejected:
  assumes "\<And>x. x \<in> set xs \<Longrightarrow> expects x < generation s"
  shows "list_all (\<lambda>b. \<not> b) (fst (run_reports report xs s))"
  using assms
proof (induction xs arbitrary: s)
  case Nil
  then show ?case by simp
next
  case (Cons x xs)
  have rej: "\<not> fst (report x s)" using Cons.prems [of x] by (intro stale_rejected) simp
  then have "generation (snd (report x s)) = generation s" by (rule rejected_keeps)
  then have "list_all (\<lambda>b. \<not> b) (fst (run_reports report xs (snd (report x s))))"
    using Cons.prems by (intro Cons.IH) simp
  with rej show ?case by (auto split: prod.splits)
qed

text \<open>Of any number of reports from one generation, at most one is applied.\<close>

lemma at_most_one_applied:
  assumes "\<And>x. x \<in> set xs \<Longrightarrow> expects x = g"
  shows "length (filter (\<lambda>b. b) (fst (run_reports report xs s))) \<le> 1"
  using assms
proof (induction xs arbitrary: s)
  case Nil
  then show ?case by simp
next
  case (Cons x xs)
  obtain b s1 where r: "report x s = (b, s1)" by (cases "report x s")
  obtain bs s2 where rs: "run_reports report xs s1 = (bs, s2)" by (cases "run_reports report xs s1")
  show ?case
  proof (cases b)
    case True
    then have "generation s1 = Suc (generation s)" and "g = generation s"
      using applied_advances [of x s] stale_rejected [of x s] r Cons.prems [of x] by auto
    then have "list_all (\<lambda>b. \<not> b) bs"
      using all_stale_rejected [of xs s1] Cons.prems rs by simp
    then have "filter (\<lambda>b. b) bs = []" by (simp add: list_all_iff filter_empty_conv)
    with r rs show ?thesis by simp
  next
    case False
    with Cons.IH [of s1] Cons.prems r rs show ?thesis by simp
  qed
qed

end

text \<open>
  A failure that carries its revision but no reset epoch, at some clock time, and a quota
  cooldown that does.
\<close>

definition report_failure ::
  "string \<Rightarrow> real \<times> nat \<times> failure_options \<Rightarrow> sticky_cache \<times> health_state
   \<Rightarrow> bool \<times> sticky_cache \<times> health_state" where
  "report_failure i = (\<lambda>(now, g, opts) s.
     let (r, s') = recordFailure now i
           (opts\<lparr>fo_expectedRevision := Some g, fo_expectedResetEpoch := None\<rparr>) s
     in (oc_applied r, s'))"

definition report_cooldown ::
  "string \<Rightarrow> real \<times> nat \<times> real \<Rightarrow> health_state \<Rightarrow> bool \<times> health_state" where
  "report_cooldown i = (\<lambda>(now, g, until) h.
     let (r, h') = setCooldown now i until (Some g) None h in (oc_applied r, h'))"

lemma advanced_generation: "advanced i h h' \<Longrightarrow> getHealthRevision h' i = Suc (getHealthRevision h i)"
  by (simp add: advanced_def)

lemma untouched_generation: "untouched h h' \<Longrightarrow> getHealthRevision h' i = getHealthRevision h i"
  by (simp add: untouched_def getHealthRevision_def)

lemma report_failure_stale:
  "g \<noteq> getHealthRevision h i \<Longrightarrow> \<not> fst (report_failure i (now, g, opts) (c, h))"
  by (simp add: report_failure_def recordFailure_def Let_def not_applied_eq)

lemma report_cooldown_stale:
  "g \<noteq> getHealthRevision h i \<Longrightarrow> \<not> fst (report_cooldown i (now, g, t) h)"
  by (simp add: report_cooldown_def setCooldown_def Let_def not_applied_eq)

lemma report_failure_generation:
  "getHealthRevision (snd (snd (report_failure i x s))) i =
     (if fst (report_failure i x s) then Suc (getHealthRevision (snd s) i) else getHealthRevision (snd s) i)"
proof -
  obtain now g opts where x: "x = (now, g, opts)" by (cases x)
  obtain c h where s: "s = (c, h)" by (cases s)
  let ?o = "opts\<lparr>fo_expectedRevision := Some g, fo_expectedResetEpoch := None\<rparr>"
  obtain r c' h' where f: "recordFailure now i ?o (c, h) = (r, c', h')" by (metis prod_cases3)
  from recordFailure_cases [OF f] f show ?thesis
    by (auto simp: x s report_failure_def advanced_generation untouched_generation split: if_splits)
qed

lemma report_cooldown_generation:
  "getHealthRevision (snd (report_cooldown i x h)) i =
     (if fst (report_cooldown i x h) then Suc (getHealthRevision h i) else getHealthRevision h i)"
proof -
  obtain now g t where x: "x = (now, g, t)" by (cases x)
  obtain r h' where f: "setCooldown now i t (Some g) None h = (r, h')" by (metis prod.collapse)
  from setCooldown_cases [OF f] f show ?thesis
    by (auto simp: x report_cooldown_def advanced_generation untouched_generation split: if_splits)
qed

interpretation failures: generation_guard
  "\<lambda>s. getHealthRevision (snd s) i" "\<lambda>x. fst (snd x)" "report_failure i" for i
proof (unfold_locales, goal_cases)
  case (1 x s)
  then show ?case by (cases x, cases s) (simp add: report_failure_stale)
next
  case (2 x s)
  then show ?case by (simp add: report_failure_generation)
next
  case (3 x s)
  then show ?case by (simp add: report_failure_generation)
qed

interpretation cooldowns: generation_guard
  "\<lambda>h. getHealthRevision h i" "\<lambda>x. fst (snd x)" "report_cooldown i" for i
proof (unfold_locales, goal_cases)
  case (1 x s)
  then show ?case by (cases x) (simp add: report_cooldown_stale)
next
  case (2 x s)
  then show ?case by (simp add: report_cooldown_generation)
next
  case (3 x s)
  then show ?case by (simp add: report_cooldown_generation)
qed

section \<open>Every operation on health\<close>

inductive health_step :: "sticky_cache \<times> health_state \<Rightarrow> sticky_cache \<times> health_state \<Rightarrow> bool" where
  Failure: "recordFailure now i opts s = (r, s') \<Longrightarrow> health_step s s'"
| Set_Cooldown: "setCooldown now i t er ee h = (r, h') \<Longrightarrow> health_step (c, h) (c, h')"
| Success: "recordSuccess now i er ee h = (r, h') \<Longrightarrow> health_step (c, h) (c, h')"
| Reset: "resetHealth now i p h = (r, h') \<Longrightarrow> health_step (c, h) (c, h')"
| Performance: "recordPerformance now i sample er ee h = (b, h') \<Longrightarrow> health_step (c, h) (c, h')"
| Model_Failure: "recordModelFailure now i m reason ms code h = (r, h') \<Longrightarrow> health_step (c, h) (c, h')"
| Available: "isAvailable a q now m load h = (b, h') \<Longrightarrow> health_step (c, h) (c, h')"
| Read: "getHealth now i h = (r, h') \<Longrightarrow> health_step (c, h) (c, h')"
| Read_Models: "getModelCooldowns now i h = (r, h') \<Longrightarrow> health_step (c, h) (c, h')"
| Hydrate: "health_step (c, h) (c, hydrate_health now as h)"
| Hydrate_Performance: "health_step (c, h) (c, h\<lparr>hs_performance :=
     hydratePerformance now (hs_performanceResetAt h) (getHealthRevision h) (getResetEpoch h) logs (hs_performance h)\<rparr>)"
| Clear: "health_step (c, h) (clearSticky c, clear_health active h)"
| Sticky: "health_step (c, h) (c', h)"

lemma getModelCooldowns_frame [simp, frame_simps]:
  "hs_revisions (snd (getModelCooldowns now i h)) = hs_revisions h"
  "hs_epochs (snd (getModelCooldowns now i h)) = hs_epochs h"
  "hs_health (snd (getModelCooldowns now i h)) = hs_health h"
  "hs_performance (snd (getModelCooldowns now i h)) = hs_performance h"
  by (simp_all add: getModelCooldowns_def put_cooldowns_def Let_def split: option.split)

lemma put_cooldowns_frame [simp, frame_simps]:
  "hs_revisions (put_cooldowns i m h) = hs_revisions h"
  "hs_epochs (put_cooldowns i m h) = hs_epochs h"
  "hs_health (put_cooldowns i m h) = hs_health h"
  "hs_reasons (put_cooldowns i m h) = hs_reasons h"
  "hs_performance (put_cooldowns i m h) = hs_performance h"
  "hs_quotaHalfOpen (put_cooldowns i m h) = hs_quotaHalfOpen h"
  by (simp_all add: put_cooldowns_def)

lemma isModelAvailable_frame [simp, frame_simps]:
  "hs_revisions (snd (isModelAvailable i m now h)) = hs_revisions h"
  "hs_epochs (snd (isModelAvailable i m now h)) = hs_epochs h"
  "hs_health (snd (isModelAvailable i m now h)) = hs_health h"
  "hs_performance (snd (isModelAvailable i m now h)) = hs_performance h"
  by (simp_all add: isModelAvailable_def split: option.split)

lemma transition_frame [simp, frame_simps]:
  "hs_revisions (open_to_half_open i now h) = hs_revisions h"
  "hs_epochs (open_to_half_open i now h) = hs_epochs h"
  "hs_performance (open_to_half_open i now h) = hs_performance h"
  "hs_modelCooldowns (open_to_half_open i now h) = hs_modelCooldowns h"
  "hs_quotaHalfOpen (open_to_half_open i now h) = hs_quotaHalfOpen h"
  "hs_revisions (admit_quota_probe a now h) = hs_revisions h"
  "hs_epochs (admit_quota_probe a now h) = hs_epochs h"
  "hs_performance (admit_quota_probe a now h) = hs_performance h"
  "hs_modelCooldowns (admit_quota_probe a now h) = hs_modelCooldowns h"
  by (simp_all add: open_to_half_open_def admit_quota_probe_def Let_def split: option.split)

lemma isAvailable_frame [simp, frame_simps]:
  "hs_revisions (snd (isAvailable a q now m load h)) = hs_revisions h"
  "hs_epochs (snd (isAvailable a q now m load h)) = hs_epochs h"
  "hs_performance (snd (isAvailable a q now m load h)) = hs_performance h"
proof -
  have m: "hs_revisions h0 = hs_revisions h \<and> hs_epochs h0 = hs_epochs h \<and> hs_performance h0 = hs_performance h"
    if "isModelAvailable i x now h = (b, h0)" for i x b h0
    using isModelAvailable_frame [of i x now h] that by simp
  show "hs_revisions (snd (isAvailable a q now m load h)) = hs_revisions h"
    "hs_epochs (snd (isAvailable a q now m load h)) = hs_epochs h"
    "hs_performance (snd (isAvailable a q now m load h)) = hs_performance h"
    by (auto simp: isAvailable_def Let_def dest: m split: option.split prod.split)
qed

lemma recordModelFailure_frame [simp, frame_simps]:
  "hs_revisions (snd (recordModelFailure now i m reason ms code h)) = hs_revisions h"
  "hs_epochs (snd (recordModelFailure now i m reason ms code h)) = hs_epochs h"
  by (simp_all add: recordModelFailure_def Let_def split: option.split)

lemma hydrate_account_generations:
  "getHealthRevision h i \<le> getHealthRevision (hydrate_account_health now h a) i"
  "hs_epochs (hydrate_account_health now h a) = hs_epochs h"
  by (auto simp: hydrate_account_health_def hydrateModelCooldowns_def restore_open_def Let_def
      bumpHealthRevision_def getHealthRevision_def split: option.split)

lemma hydrate_health_generations:
  "getHealthRevision h i \<le> getHealthRevision (hydrate_health now as h) i
   \<and> hs_epochs (hydrate_health now as h) = hs_epochs h"
proof -
  have "getHealthRevision h i \<le> getHealthRevision (foldl (hydrate_account_health now) h as) i
      \<and> hs_epochs (foldl (hydrate_account_health now) h as) = hs_epochs h" for h
    by (induction as arbitrary: h) (auto simp: hydrate_account_generations
        intro: order_trans [OF hydrate_account_generations(1)])
  from this [of "forget_removed_accounts as h"] show ?thesis
    by (simp add: hydrate_health_def forget_removed_accounts_def getHealthRevision_def)
qed

lemma generations_step:
  assumes "health_step s s'"
  shows "getHealthRevision (snd s) i \<le> getHealthRevision (snd s') i
    \<and> getResetEpoch (snd s) i \<le> getResetEpoch (snd s') i"
  using assms
proof (induction rule: health_step.induct)
  case (Failure now j opts s r s')
  then show ?case
    using recordFailure_cases [of now j opts "fst s" "snd s" r "fst s'" "snd s'"]
    by (auto simp: advanced_def untouched_def getHealthRevision_def getResetEpoch_def split: if_splits)
next
  case (Set_Cooldown now j t er ee h r h' c)
  then show ?case
    using setCooldown_cases [of now j t er ee h r h']
    by (auto simp: advanced_def untouched_def getHealthRevision_def getResetEpoch_def split: if_splits)
next
  case (Success now j er ee h r h' c)
  then show ?case
    using recordSuccess_cases [of now j er ee h r h']
    by (auto simp: advanced_def untouched_def getHealthRevision_def getResetEpoch_def split: if_splits)
next
  case (Reset now j p h r h' c)
  then show ?case
    by (auto simp: resetHealth_def Let_def bumpResetEpoch_def bumpHealthRevision_def
        getHealthRevision_def getResetEpoch_def split: if_splits)
next
  case (Performance now j sample er ee h b h' c)
  then show ?case
    by (auto simp: recordPerformance_def observeOutcome_def getHealthRevision_def getResetEpoch_def
        split: if_splits)
next
  case (Model_Failure now j m reason ms code h r h' c)
  then have "h' = snd (recordModelFailure now j m reason ms code h)" by simp
  then show ?case by (simp add: getHealthRevision_def getResetEpoch_def)
next
  case (Available a q now m load h b h' c)
  then have "h' = snd (isAvailable a q now m load h)" by simp
  then show ?case by (simp add: getHealthRevision_def getResetEpoch_def)
next
  case (Read now j h r h' c)
  then have "h' = snd (getHealth now j h)" by simp
  then show ?case by simp
next
  case (Read_Models now j h r h' c)
  then have "h' = snd (getModelCooldowns now j h)" by simp
  then show ?case by (simp add: getHealthRevision_def getResetEpoch_def)
next
  case (Hydrate c h now as)
  then show ?case using hydrate_health_generations [of h i now as] by (simp add: getResetEpoch_def)
next
  case (Hydrate_Performance c h now logs)
  then show ?case by (simp add: getHealthRevision_def getResetEpoch_def)
next
  case (Clear c h active)
  then show ?case
    by (simp add: clear_health_def Let_def getHealthRevision_def getResetEpoch_def split: option.split)
next
  case (Sticky c h c')
  then show ?case by simp
qed

lemma generations_mono:
  "health_step\<^sup>*\<^sup>* s s' \<Longrightarrow>
   getHealthRevision (snd s) i \<le> getHealthRevision (snd s') i
   \<and> getResetEpoch (snd s) i \<le> getResetEpoch (snd s') i"
  by (induction rule: rtranclp_induct) (auto dest!: generations_step [where i = i])

text \<open>An outcome that captured an older reset epoch is never applied.\<close>

lemma old_epoch_rejected:
  assumes "e \<noteq> getResetEpoch h i"
  shows "\<not> oc_applied (fst (setCooldown now i t er (Some e) h))"
    and "fo_expectedResetEpoch opts = Some e \<Longrightarrow> \<not> oc_applied (fst (recordFailure now i opts (c, h)))"
    and "fo_expectedResetEpoch opts = Some e \<Longrightarrow> fst (snd (recordFailure now i opts (c, h))) = c"
    and "\<not> oc_applied (fst (recordSuccess now i er (Some e) h))"
    and "recordPerformance now i sample er (Some e) h = (False, h)"
  using assms
  by (auto simp: setCooldown_def recordFailure_def recordSuccess_def recordPerformance_def Let_def
      not_applied_eq)

lemma resetHealth_epoch: "getResetEpoch (snd (resetHealth now i p h)) i = Suc (getResetEpoch h i)"
  by (simp add: resetHealth_def Let_def bumpResetEpoch_def bumpHealthRevision_def getResetEpoch_def)

section \<open>Cooldowns of single models\<close>

lemma normalizedModelCooldownKey_idem [simp]:
  "normalizedModelCooldownKey m = Some k \<Longrightarrow> normalizedModelCooldownKey k = Some k"
  by (auto simp: normalizedModelCooldownKey_def Let_def split: if_splits)

lemma normalizedModelCooldownKey_nonempty: "normalizedModelCooldownKey m = Some k \<Longrightarrow> k \<noteq> []"
  by (auto simp: normalizedModelCooldownKey_def Let_def split: if_splits)

lemma reason_of_name_name [simp]: "reason_of_name (reason_name r) = Some r"
  by (cases r) (simp_all add: reason_of_name_def)

lemma valid_raw_of:
  "validModelCooldown (Some (raw_of c)) now \<longleftrightarrow>
     mc_until c > now \<and> valid_status_code (map_option Finite (mc_statusCode c))"
  by (simp add: validModelCooldown_def raw_of_def)

lemma typed_raw [simp]: "typed_cooldown (raw_of c) = c"
  by (cases c) (simp add: typed_cooldown_def raw_of_def number_or_zero_def option.map_comp comp_def
      option.map_ident)

text \<open>A well-formed map of model cooldowns: distinct normalised keys.\<close>

definition cooldowns_wf :: "(string, model_cooldown) js_map \<Rightarrow> bool" where
  "cooldowns_wf m \<longleftrightarrow>
     map_wf m \<and> (\<forall>k \<in> set (map_keys m). normalizedModelCooldownKey k = Some k)"

definition models_ok :: "health_state \<Rightarrow> bool" where
  "models_ok h \<longleftrightarrow>
     (\<forall>i m. hs_modelCooldowns h i = Some m \<longrightarrow> m \<noteq> [] \<and> cooldowns_wf m)"

lemma cooldowns_wf_Nil [simp]: "cooldowns_wf []"
  by (simp add: cooldowns_wf_def)

lemma cooldowns_wf_set:
  "cooldowns_wf m \<Longrightarrow> normalizedModelCooldownKey k = Some k \<Longrightarrow> cooldowns_wf (map_set m k c)"
  by (auto simp: cooldowns_wf_def keys_map_set)

lemma cooldowns_wf_delete: "cooldowns_wf m \<Longrightarrow> cooldowns_wf (map_delete m k)"
  by (auto simp: cooldowns_wf_def keys_map_delete)

lemma cooldowns_wf_filter: "cooldowns_wf m \<Longrightarrow> cooldowns_wf (filter P m)"
  by (auto simp: cooldowns_wf_def map_wf_def distinct_map_filter)

lemma cooldowns_wf_prune: "cooldowns_wf m \<Longrightarrow> cooldowns_wf (prune_cooldowns now m)"
  by (simp add: prune_cooldowns_def cooldowns_wf_filter)

lemma account_cooldowns_wf: "models_ok h \<Longrightarrow> cooldowns_wf (account_cooldowns h i)"
  by (auto simp: models_ok_def account_cooldowns_def split: option.split)

lemma models_ok_put: "models_ok h \<Longrightarrow> cooldowns_wf m \<Longrightarrow> models_ok (put_cooldowns i m h)"
  by (auto simp: models_ok_def put_cooldowns_def)

lemma account_cooldowns_put [simp]:
  "account_cooldowns (put_cooldowns i m h) j = (if j = i then m else account_cooldowns h j)"
  by (auto simp: account_cooldowns_def put_cooldowns_def)

lemma map_get_prune:
  assumes "map_wf m"
  shows "map_get (prune_cooldowns now m) k =
    (case map_get m k of
       None \<Rightarrow> None
     | Some c \<Rightarrow> if validModelCooldown (Some (raw_of c)) now then Some c else None)"
  using assms
proof (induction m)
  case Nil
  then show ?case by (simp add: prune_cooldowns_def)
next
  case (Cons e m)
  obtain j c where e: "e = (j, c)" by (cases e)
  have wf: "map_wf m" and "j \<notin> set (map_keys m)" using Cons.prems e by (auto simp: map_wf_def)
  then have "map_get m j = None" by (simp add: map_get_None_iff)
  with Cons.IH [OF wf] e show ?case
    by (cases "k = j") (auto simp: prune_cooldowns_def)
qed

text \<open>The oldest entry is one of the map, and never the newest when that stands last.\<close>

lemma oldest_cooldown_Some:
  "oldest_cooldown (Some (k, t)) m \<noteq> None"
  by (induction m arbitrary: k t) (auto split: option.split)

lemma oldest_cooldown_mem:
  "oldest_cooldown best m = Some k \<Longrightarrow> k \<in> set (map_keys m) \<or> (\<exists>t. best = Some (k, t))"
proof (induction best m rule: oldest_cooldown.induct)
  case (1 best)
  then show ?case by auto
next
  case (2 best key c m)
  then show ?case by (auto split: option.splits if_splits)
qed

lemma oldest_cooldown_not_last:
  assumes "oldest_cooldown best (m @ [(key, c)]) = Some k"
    and "best \<noteq> None \<or> m \<noteq> []"
    and "\<And>x. x \<in> set m \<Longrightarrow> mc_updatedAt (snd x) \<le> mc_updatedAt c"
    and "\<And>b t. best = Some (b, t) \<Longrightarrow> t \<le> mc_updatedAt c"
  shows "k \<in> set (map_keys m) \<or> (\<exists>t. best = Some (k, t))"
  using assms
proof (induction m arbitrary: best)
  case Nil
  then show ?case by (cases best) auto
next
  case (Cons e m)
  obtain j x where e: "e = (j, x)" by (cases e)
  let ?best = "case best of None \<Rightarrow> Some (j, mc_updatedAt x)
     | Some (_, t) \<Rightarrow> if mc_updatedAt x < t then Some (j, mc_updatedAt x) else best"
  have b: "?best \<noteq> None" by (cases best) auto
  have "k \<in> set (map_keys m) \<or> (\<exists>t. ?best = Some (k, t))"
  proof (rule Cons.IH)
    show "oldest_cooldown ?best (m @ [(key, c)]) = Some k" using Cons.prems(1) e by simp
    show "?best \<noteq> None \<or> m \<noteq> []" using b by blast
    show "mc_updatedAt (snd y) \<le> mc_updatedAt c" if "y \<in> set m" for y using Cons.prems(3) that by simp
    show "t \<le> mc_updatedAt c" if "?best = Some (b, t)" for b t
      using that Cons.prems(3) [of e] Cons.prems(4) e by (auto split: option.splits if_splits)
  qed
  then show ?case using e by (auto split: option.splits if_splits)
qed

lemma bound_cooldowns_wf: "cooldowns_wf m \<Longrightarrow> cooldowns_wf (bound_cooldowns n m)"
proof (induction n arbitrary: m)
  case 0
  then show ?case by simp
next
  case (Suc n)
  have "cooldowns_wf (bound_cooldowns n (map_delete m key))" for key
    using Suc by (intro Suc.IH cooldowns_wf_delete)
  with Suc.prems show ?case by (simp split: option.split)
qed

lemma bound_cooldowns_length:
  "cooldowns_wf m \<Longrightarrow> length m \<le> n \<Longrightarrow> length (bound_cooldowns n m) \<le> MAX_MODEL_COOLDOWNS_PER_ACCOUNT"
proof (induction n arbitrary: m)
  case 0
  then show ?case by simp
next
  case (Suc n)
  show ?case
  proof (cases "length m > MAX_MODEL_COOLDOWNS_PER_ACCOUNT")
    case False
    then show ?thesis by simp
  next
    case True
    then obtain e m' where m: "m = e # m'" by (cases m) auto
    obtain j c where e: "e = (j, c)" by (cases e)
    have "oldest_cooldown None m \<noteq> None" using m e oldest_cooldown_Some by simp
    then obtain k where k: "oldest_cooldown None m = Some k" by blast
    then have mem: "k \<in> set (map_keys m)" using oldest_cooldown_mem by fastforce
    then have "k \<noteq> []" using Suc.prems(1) normalizedModelCooldownKey_nonempty
      unfolding cooldowns_wf_def by blast
    then have step: "bound_cooldowns (Suc n) m = bound_cooldowns n (map_delete m k)"
      using True k by (simp add: truthy_def)
    have "map_get m k \<noteq> None" using mem unfolding map_get_None_iff by blast
    then obtain v where "map_get m k = Some v" by blast
    then have "Suc (length (map_delete m k)) = length m"
      using Suc.prems(1) by (intro Suc_length_map_delete) (simp_all add: cooldowns_wf_def)
    then show ?thesis
      unfolding step using Suc.prems by (intro Suc.IH cooldowns_wf_delete) simp_all
  qed
qed

text \<open>The newest entry survives the bound.\<close>

lemma map_delete_snoc: "k \<noteq> j \<Longrightarrow> map_delete (m @ [(j, c)]) k = map_delete m k @ [(j, c)]"
  by (induction m) auto

lemma bound_cooldowns_keeps_last:
  assumes "cooldowns_wf (m @ [(key, c)])" and "\<And>x. x \<in> set m \<Longrightarrow> mc_updatedAt (snd x) \<le> mc_updatedAt c"
  shows "\<exists>m'. bound_cooldowns n (m @ [(key, c)]) = m' @ [(key, c)] \<and> set m' \<subseteq> set m"
  using assms
proof (induction n arbitrary: m)
  case 0
  then show ?case by simp
next
  case (Suc n)
  show ?case
  proof (cases "length (m @ [(key, c)]) > MAX_MODEL_COOLDOWNS_PER_ACCOUNT")
    case False
    then show ?thesis by (auto split: option.split)
  next
    case True
    show ?thesis
    proof (cases "truthy (oldest_cooldown None (m @ [(key, c)]))")
      case None
      then show ?thesis by simp
    next
      case (Some k)
      then have k: "oldest_cooldown None (m @ [(key, c)]) = Some k" by (simp add: truthy_Some_iff)
      have "m \<noteq> []" using True by (cases m) (auto simp: MAX_MODEL_COOLDOWNS_PER_ACCOUNT_def)
      then have "k \<in> set (map_keys m)"
        using oldest_cooldown_not_last [OF k] Suc.prems(2) by auto
      moreover have "key \<notin> set (map_keys m)"
        using Suc.prems(1) by (auto simp: cooldowns_wf_def map_wf_def)
      ultimately have ne: "k \<noteq> key" by auto
      have step: "bound_cooldowns (Suc n) (m @ [(key, c)]) = bound_cooldowns n (map_delete m k @ [(key, c)])"
        using True Some ne by (simp add: map_delete_snoc)
      have sub: "set (map_delete m k) \<subseteq> set m" by (auto simp: AList.delete_eq)
      have "cooldowns_wf (map_delete m k @ [(key, c)])"
        using cooldowns_wf_delete [OF Suc.prems(1), of k] ne by (simp add: map_delete_snoc)
      from Suc.IH [OF this] sub Suc.prems(2) show ?thesis unfolding step by blast
    qed
  qed
qed

text \<open>What the account's map is after a model failure.\<close>

lemma getModelCooldowns_account:
  "models_ok h \<Longrightarrow>
   account_cooldowns (snd (getModelCooldowns now i h)) j =
     (if j = i then prune_cooldowns now (account_cooldowns h i) else account_cooldowns h j)"
  by (auto simp: getModelCooldowns_def account_cooldowns_def put_cooldowns_def Let_def
      prune_cooldowns_def split: option.split)

lemma models_ok_get: "models_ok h \<Longrightarrow> models_ok (snd (getModelCooldowns now i h))"
  by (auto simp: getModelCooldowns_def Let_def models_ok_def put_cooldowns_def cooldowns_wf_prune
      split: option.split)

lemma models_ok_recordModelFailure:
  assumes "models_ok h"
  shows "models_ok (snd (recordModelFailure now i m reason ms code h))"
proof (cases "normalizedModelCooldownKey m")
  case None
  then show ?thesis using assms by (simp add: recordModelFailure_def models_ok_get)
next
  case (Some key)
  have key: "normalizedModelCooldownKey key = Some key" using Some by simp
  show ?thesis
    unfolding recordModelFailure_def Let_def using Some assms key
    by (auto intro!: models_ok_get models_ok_put bound_cooldowns_wf cooldowns_wf_set
        cooldowns_wf_prune account_cooldowns_wf)
qed

lemma length_prune: "length (prune_cooldowns now m) \<le> length m"
  by (simp add: prune_cooldowns_def)

lemma recordModelFailure_bounded:
  assumes "models_ok h" and "normalizedModelCooldownKey m = Some key"
  shows "length (account_cooldowns (snd (recordModelFailure now i m reason ms code h)) i)
    \<le> MAX_MODEL_COOLDOWNS_PER_ACCOUNT"
proof -
  let ?p = "prune_cooldowns now (account_cooldowns h i)"
  let ?nxt = "\<lparr>mc_until = now + max 1000 (js_floor ms), mc_reason = reason, mc_statusCode = code, mc_updatedAt = now\<rparr>"
  define m1 where "m1 = (if (case map_get ?p key of None \<Rightarrow> True
      | Some e \<Rightarrow> mc_updatedAt e \<le> mc_updatedAt ?nxt \<or> mc_until e < mc_until ?nxt) then map_set ?p key ?nxt else ?p)"
  have wf: "cooldowns_wf m1"
    using assms unfolding m1_def by (auto intro!: cooldowns_wf_set cooldowns_wf_prune account_cooldowns_wf)
  let ?h = "put_cooldowns i (bound_cooldowns (length m1) m1) h"
  have eq: "recordModelFailure now i m reason ms code h = getModelCooldowns now i ?h"
    unfolding recordModelFailure_def m1_def Let_def by (simp only: assms(2) option.case)
  have "models_ok ?h" using assms(1) wf by (intro models_ok_put bound_cooldowns_wf)
  then have "account_cooldowns (snd (getModelCooldowns now i ?h)) i = prune_cooldowns now (bound_cooldowns (length m1) m1)"
    by (simp add: getModelCooldowns_account)
  with bound_cooldowns_length [OF wf, of "length m1"] length_prune show ?thesis
    unfolding eq by (metis order_refl order_trans)
qed

text \<open>
  A model that failed is excluded until its cooldown is over, unless the stored status code
  is not an error status, which the next read drops.
\<close>

lemma isModelAvailable_eq:
  assumes "models_ok h" and "normalizedModelCooldownKey m = Some key"
  shows "fst (isModelAvailable i m now h) =
    (case map_get (account_cooldowns h i) key of None \<Rightarrow> True | Some c \<Rightarrow> mc_until c \<le> now)"
  using assms by (auto simp: isModelAvailable_def account_cooldowns_def split: option.split)

lemma recordModelFailure_entry:
  assumes ok: "models_ok h" and key: "normalizedModelCooldownKey m = Some key"
    and code: "valid_status_code (map_option Finite code)"
    and past: "\<And>k c. map_get (account_cooldowns h i) k = Some c \<Longrightarrow> mc_updatedAt c \<le> now"
    and size: "length (account_cooldowns h i) \<le> MAX_MODEL_COOLDOWNS_PER_ACCOUNT"
  shows "map_get (account_cooldowns (snd (recordModelFailure now i m reason ms code h)) i) key =
    Some \<lparr>mc_until = now + max 1000 (js_floor ms), mc_reason = reason, mc_statusCode = code,
          mc_updatedAt = now\<rparr>"
proof -
  let ?p = "prune_cooldowns now (account_cooldowns h i)"
  let ?nxt = "\<lparr>mc_until = now + max 1000 (js_floor ms), mc_reason = reason, mc_statusCode = code, mc_updatedAt = now\<rparr>"
  have wfa: "cooldowns_wf (account_cooldowns h i)" using ok by (rule account_cooldowns_wf)
  have wfp: "cooldowns_wf ?p" using wfa by (rule cooldowns_wf_prune)
  have pastp: "mc_updatedAt c \<le> now" if "(k, c) \<in> set ?p" for k c
  proof -
    have "(k, c) \<in> set (account_cooldowns h i)" using that by (auto simp: prune_cooldowns_def)
    then have "map_get (account_cooldowns h i) k = Some c"
      using wfa by (intro map_get_from_set) (simp_all add: cooldowns_wf_def)
    then show ?thesis by (rule past)
  qed
  have rep: "(case map_get ?p key of None \<Rightarrow> True
      | Some e \<Rightarrow> mc_updatedAt e \<le> mc_updatedAt ?nxt \<or> mc_until e < mc_until ?nxt)"
    using pastp by (auto dest: map_get_in_set split: option.split)
  let ?m1 = "map_set ?p key ?nxt"
  let ?b = "bound_cooldowns (length ?m1) ?m1"
  have wf1: "cooldowns_wf ?m1" using wfp key by (intro cooldowns_wf_set) auto
  have bound: "map_get ?b key = Some ?nxt"
  proof (cases "map_get ?p key")
    case None
    then have m1: "?m1 = ?p @ [(key, ?nxt)]" by (rule map_set_absent)
    have "\<exists>m'. bound_cooldowns (length ?m1) (?p @ [(key, ?nxt)]) = m' @ [(key, ?nxt)] \<and> set m' \<subseteq> set ?p"
      using wf1 pastp unfolding m1 by (intro bound_cooldowns_keeps_last) auto
    then obtain m' where b: "?b = m' @ [(key, ?nxt)]" using m1 by auto
    have "cooldowns_wf ?b" using wf1 by (rule bound_cooldowns_wf)
    then show ?thesis
      by (intro map_get_from_set) (simp_all add: cooldowns_wf_def b)
  next
    case (Some e)
    then have "length ?m1 = length ?p" by (simp add: length_map_set)
    then have "\<not> length ?m1 > MAX_MODEL_COOLDOWNS_PER_ACCOUNT"
      using size length_prune [of now "account_cooldowns h i"] by simp
    then have "bound_cooldowns n ?m1 = ?m1" for n by (cases n) auto
    then show ?thesis by simp
  qed
  have eq: "recordModelFailure now i m reason ms code h = getModelCooldowns now i (put_cooldowns i ?b h)"
    unfolding recordModelFailure_def Let_def using rep by (simp only: key option.case if_True)
  have okb: "models_ok (put_cooldowns i ?b h)" using ok wf1 by (intro models_ok_put bound_cooldowns_wf)
  have "map_wf ?b" using bound_cooldowns_wf [OF wf1] by (simp add: cooldowns_wf_def)
  then show ?thesis
    using bound code max.cobounded1 [of 1000 "js_floor ms"]
    by (simp add: eq getModelCooldowns_account [OF okb] map_get_prune valid_raw_of)
qed

section \<open>Availability\<close>

lemma isModelAvailable_truth:
  "fst (isModelAvailable i m now h) \<longleftrightarrow>
     (case normalizedModelCooldownKey m of
        None \<Rightarrow> True
      | Some key \<Rightarrow>
          (case map_get (account_cooldowns h i) key of None \<Rightarrow> True | Some c \<Rightarrow> mc_until c \<le> now))"
  by (auto simp: isModelAvailable_def account_cooldowns_def split: option.split)

lemma isAvailable_split:
  "isAvailable a q now m load h =
     (if (case truthy m of None \<Rightarrow> True | Some x \<Rightarrow> fst (isModelAvailable (acc_id a) x now h))
      then
        (let h0 = (case truthy m of None \<Rightarrow> h | Some x \<Rightarrow> snd (isModelAvailable (acc_id a) x now h));
             h2 = admit_quota_probe a now (open_to_half_open (acc_id a) now h0)
         in (admissible a q now load (hs_health h2 (acc_id a)), h2))
      else (False, case truthy m of None \<Rightarrow> h | Some x \<Rightarrow> snd (isModelAvailable (acc_id a) x now h)))"
  by (auto simp: isAvailable_def Let_def split: option.split prod.split)

text \<open>The cooldown seen by the verdict is the one stored before: no transition changes it.\<close>

lemma transitions_cooldown [simp]:
  "health_cooldown (hs_health (open_to_half_open i now h) j) = health_cooldown (hs_health h j)"
  "health_cooldown (hs_health (admit_quota_probe a now h) j) = health_cooldown (hs_health h j)"
  by (auto simp: open_to_half_open_def admit_quota_probe_def closed_health_def Let_def
      split: option.split)

lemma isModelAvailable_health [simp]: "hs_health (snd (isModelAvailable i m now h)) = hs_health h"
  by (rule isModelAvailable_frame)

lemma isAvailable_sound:
  assumes "isAvailable a q now m load h = (True, h')"
  shows "isRouteAccountRuntimeAvailable a now"
    and "\<not> quotaExhausted a now"
    and "or_zero (acc_cooldownUntil a) \<le> now"
    and "health_cooldown (hs_health h (acc_id a)) \<le> now"
    and "accountReportsCodexQuota a \<Longrightarrow> \<not> quotaProtectionBlocks (acc_codexQuota a) (acc_quotaProtection a) now"
    and "accountReportsCodexQuota a \<Longrightarrow> \<not> quotaProtectionBlocks (acc_codexQuota a) q now"
    and "truthy m = Some x \<Longrightarrow> fst (isModelAvailable (acc_id a) x now h)"
    and "map_option rh_circuitState (hs_health h' (acc_id a)) = Some Half_Open \<Longrightarrow> load \<le> 0"
    and "map_option rh_circuitState (hs_health h' (acc_id a)) \<noteq> Some Open"
proof -
  let ?h0 = "case truthy m of None \<Rightarrow> h | Some x \<Rightarrow> snd (isModelAvailable (acc_id a) x now h)"
  let ?h2 = "admit_quota_probe a now (open_to_half_open (acc_id a) now ?h0)"
  have model: "case truthy m of None \<Rightarrow> True | Some x \<Rightarrow> fst (isModelAvailable (acc_id a) x now h)"
    and adm: "admissible a q now load (hs_health ?h2 (acc_id a))" and h': "h' = ?h2"
    using assms by (auto simp: isAvailable_split Let_def split: if_splits)
  have health0: "hs_health ?h0 = hs_health h" by (simp split: option.split)
  show "isRouteAccountRuntimeAvailable a now" "\<not> quotaExhausted a now"
    "or_zero (acc_cooldownUntil a) \<le> now"
    "accountReportsCodexQuota a \<Longrightarrow> \<not> quotaProtectionBlocks (acc_codexQuota a) (acc_quotaProtection a) now"
    "accountReportsCodexQuota a \<Longrightarrow> \<not> quotaProtectionBlocks (acc_codexQuota a) q now"
    "map_option rh_circuitState (hs_health h' (acc_id a)) = Some Half_Open \<Longrightarrow> load \<le> 0"
    using adm by (auto simp: admissible_def Let_def h' split: if_splits)
  have "health_cooldown (hs_health ?h2 (acc_id a)) \<le> now"
    using adm by (auto simp: admissible_def Let_def split: if_splits)
  then show cool: "health_cooldown (hs_health h (acc_id a)) \<le> now"
    by (simp add: health0)
  show "truthy m = Some x \<Longrightarrow> fst (isModelAvailable (acc_id a) x now h)" using model by simp
  show "map_option rh_circuitState (hs_health h' (acc_id a)) \<noteq> Some Open"
    using cool health0
    by (auto simp: h' admit_quota_probe_def open_to_half_open_def closed_health_def Let_def
        split: option.splits if_splits)
qed

lemma models_ok_isAvailable:
  assumes "models_ok h"
  shows "models_ok (snd (isAvailable a q now m load h))"
proof -
  have "models_ok (snd (isModelAvailable i x now h))" for i x
  proof -
    have "cooldowns_wf (map_delete (account_cooldowns h i) k)" for k
      using assms by (intro cooldowns_wf_delete account_cooldowns_wf)
    then show ?thesis
      using assms models_ok_put [OF assms]
      by (auto simp: isModelAvailable_def account_cooldowns_def split: option.split)
  qed
  then show ?thesis
    using assms by (auto simp: isAvailable_split Let_def models_ok_def split: option.split if_splits)
qed

end
