(* ===== verification/Performance_Proofs.thy ===== *)
theory Performance_Proofs
  imports Health
begin

text \<open>
  The ranges the performance model guarantees: its counters add up, its averages stay between
  the observations they average, its rates are rates, and the cost of a stale account moves
  between its own measurement and the prior.
\<close>

lemma half_power_pos [simp]: "0 < half_power x"
  by (simp add: half_power_def)

lemma half_power_le_1 [simp]: "0 \<le> x \<Longrightarrow> half_power x \<le> 1"
  by (simp add: half_power_def powr_le_one_le powr_le1)

section \<open>Averages\<close>

lemma ewma_between:
  fixes c s alpha :: real
  assumes "0 \<le> alpha" and "alpha \<le> 1"
  shows "min c s \<le> c + alpha * (s - c) \<and> c + alpha * (s - c) \<le> max c s"
proof -
  have eq: "c + alpha * (s - c) = (1 - alpha) * c + alpha * s" by (simp add: algebra_simps)
  have "(1 - alpha) * min c s + alpha * min c s \<le> (1 - alpha) * c + alpha * s"
    using assms by (intro add_mono mult_left_mono) auto
  moreover have "(1 - alpha) * c + alpha * s \<le> (1 - alpha) * max c s + alpha * max c s"
    using assms by (intro add_mono mult_left_mono) auto
  ultimately show ?thesis unfolding eq by (simp add: algebra_simps)
qed

lemma updateEwma_cases:
  assumes "updateEwma c s alpha = Some v" and "0 \<le> alpha" and "alpha \<le> 1"
  shows "(\<exists>x. (c = Some x \<or> s = Some x) \<and> x \<le> v) \<and> (\<exists>x. (c = Some x \<or> s = Some x) \<and> v \<le> x)"
proof (cases s)
  case None
  then show ?thesis using assms(1) by (auto simp: updateEwma_def)
next
  case s: (Some y)
  show ?thesis
  proof (cases c)
    case None
    then show ?thesis using assms(1) s by (auto simp: updateEwma_def)
  next
    case (Some x)
    then have "v = x + alpha * (y - x)" using assms(1) s by (simp add: updateEwma_def)
    with ewma_between [OF assms(2,3), of x y] Some s show ?thesis
      by (auto simp: min_def max_def split: if_splits)
  qed
qed

lemma updateEwma_pos:
  assumes "updateEwma c s alpha = Some v" and "0 \<le> alpha" and "alpha \<le> 1"
    and "\<And>x. c = Some x \<Longrightarrow> 0 < x" and "\<And>x. s = Some x \<Longrightarrow> 0 < x"
  shows "0 < v"
  using updateEwma_cases [OF assms(1-3)] assms(4,5) by force

lemma metricAlpha_range: "0 \<le> metricAlpha n \<and> metricAlpha n \<le> 1"
  by (simp add: metricAlpha_def)

lemma positiveMetric_pos: "positiveMetric v = Some x \<Longrightarrow> 0 < x"
  by (auto simp: positiveMetric_def split: option.splits js_number.splits if_splits)

section \<open>The invariant of a performance record\<close>

definition performance_ok :: "performance_state \<Rightarrow> bool" where
  "performance_ok st \<longleftrightarrow>
     pf_sampleCount st = pf_successCount st + pf_failureCount st
     \<and> 0 < pf_sampleCount st
     \<and> pf_performanceSampleCount st \<le> pf_successCount st
     \<and> pf_transportSampleCount st \<le> pf_performanceSampleCount st
     \<and> pf_semanticSampleCount st \<le> pf_performanceSampleCount st
     \<and> pf_throughputSampleCount st \<le> pf_performanceSampleCount st
     \<and> 0 \<le> pf_historySuccessWeight st \<and> pf_historySuccessWeight st \<le> real (pf_successCount st)
     \<and> 0 \<le> pf_historyFailureWeight st \<and> pf_historyFailureWeight st \<le> real (pf_failureCount st)
     \<and> 0 \<le> pf_recentSuccessRate st \<and> pf_recentSuccessRate st \<le> 1
     \<and> 0 \<le> pf_failurePenalty st
     \<and> (\<forall>x. pf_transportFirstBodyMs st = Some x \<longrightarrow> 0 < x)
     \<and> (\<forall>x. pf_semanticFirstTokenMs st = Some x \<longrightarrow> 0 < x)
     \<and> (\<forall>x. pf_outputTokensPerSecond st = Some x \<longrightarrow> 0 < x)
     \<and> (\<forall>d. pf_dynamicConcurrency st = Some d \<longrightarrow> 1 \<le> d)
     \<and> pf_successStreak st < 8"

definition maybe_ok :: "performance_state option \<Rightarrow> bool" where
  "maybe_ok p \<longleftrightarrow> (\<forall>st. p = Some st \<longrightarrow> performance_ok st)"

lemma had_simps [simp]: "had None f d = d" "had (Some st) f d = f st"
  by (simp_all add: had_def)

lemma decayed_nonneg: "maybe_ok p \<Longrightarrow> 0 \<le> decayedFailurePenaltyAt p t"
  by (auto simp: decayedFailurePenaltyAt_def maybe_ok_def performance_ok_def Let_def
      less_imp_le split: option.split)

lemma decayed_weight:
  "0 \<le> w \<Longrightarrow> w \<le> n \<Longrightarrow> 0 \<le> t \<Longrightarrow> 0 \<le> w * half_power t \<and> w * half_power t \<le> n"
  by (meson half_power_le_1 half_power_pos less_imp_le mult_left_le mult_nonneg_nonneg order_trans)

lemma rate_step:
  fixes r x alpha :: real
  assumes "0 \<le> r" "r \<le> 1" "0 \<le> x" "x \<le> 1" "0 \<le> alpha" "alpha \<le> 1"
  shows "0 \<le> r + alpha * (x - r) \<and> r + alpha * (x - r) \<le> 1"
  using ewma_between [OF assms(5,6), of r x] assms(1-4) by (auto simp: min_def max_def split: if_splits)

lemma observe_counts:
  fixes revision epoch success sample t adapt
  assumes "maybe_ok p"
  defines "s \<equiv> observe p revision epoch success sample t adapt"
  shows "pf_sampleCount s = pf_successCount s + pf_failureCount s \<and> 0 < pf_sampleCount s
    \<and> pf_performanceSampleCount s \<le> pf_successCount s
    \<and> pf_transportSampleCount s \<le> pf_performanceSampleCount s
    \<and> pf_semanticSampleCount s \<le> pf_performanceSampleCount s
    \<and> pf_throughputSampleCount s \<le> pf_performanceSampleCount s"
proof (cases p)
  case None
  then show ?thesis unfolding s_def by (simp add: observe_def Let_def)
next
  case (Some st)
  then show ?thesis
    using assms(1) unfolding s_def by (simp add: observe_def Let_def maybe_ok_def performance_ok_def)
qed

lemma observe_rates:
  fixes revision epoch success sample t adapt
  assumes "maybe_ok p"
  defines "s \<equiv> observe p revision epoch success sample t adapt"
  shows "0 \<le> pf_historySuccessWeight s \<and> pf_historySuccessWeight s \<le> real (pf_successCount s)
    \<and> 0 \<le> pf_historyFailureWeight s \<and> pf_historyFailureWeight s \<le> real (pf_failureCount s)
    \<and> 0 \<le> pf_recentSuccessRate s \<and> pf_recentSuccessRate s \<le> 1 \<and> 0 \<le> pf_failurePenalty s"
proof (cases p)
  case None
  then show ?thesis
    unfolding s_def by (simp add: observe_def Let_def updateEwma_def decayedFailurePenaltyAt_def)
next
  case (Some st)
  have ok: "performance_ok st" using assms(1) Some by (simp add: maybe_ok_def)
  let ?d = "half_power (max 0 (t - pf_updatedAt st) / FITNESS_HISTORY_HALF_LIFE_MS)"
  have el: "0 \<le> max 0 (t - pf_updatedAt st) / FITNESS_HISTORY_HALF_LIFE_MS"
    by (simp add: FITNESS_HISTORY_HALF_LIFE_MS_def)
  have w: "0 \<le> pf_historySuccessWeight st * ?d \<and> pf_historySuccessWeight st * ?d \<le> real (pf_successCount st)"
    "0 \<le> pf_historyFailureWeight st * ?d \<and> pf_historyFailureWeight st * ?d \<le> real (pf_failureCount st)"
    using ok by (auto simp: performance_ok_def intro!: decayed_weight [OF _ _ el])
  have r: "0 \<le> pf_recentSuccessRate st + alpha * (x - pf_recentSuccessRate st)
      \<and> pf_recentSuccessRate st + alpha * (x - pf_recentSuccessRate st) \<le> 1"
    if "0 \<le> x" "x \<le> 1" "0 \<le> alpha" "alpha \<le> 1" for x alpha
    using ok that by (intro rate_step) (auto simp: performance_ok_def)
  have pen: "0 \<le> decayedFailurePenaltyAt (Some st) t"
    using decayed_nonneg [OF assms(1)] Some by simp
  show ?thesis
    using w r [of 1 "12 / 100"] r [of 0 "28 / 100"] pen
    unfolding s_def Some by (simp add: observe_def Let_def updateEwma_def)
qed

lemma observe_metrics:
  fixes revision epoch success sample t adapt
  assumes "maybe_ok p"
  defines "s \<equiv> observe p revision epoch success sample t adapt"
  shows "pf_transportFirstBodyMs s = Some x \<Longrightarrow> 0 < x"
    and "pf_semanticFirstTokenMs s = Some x \<Longrightarrow> 0 < x"
    and "pf_outputTokensPerSecond s = Some x \<Longrightarrow> 0 < x"
    and "pf_dynamicConcurrency s = Some d \<Longrightarrow> 1 \<le> d"
    and "pf_successStreak s < 8"
proof -
  have old: "had p pf_transportFirstBodyMs None = Some y \<Longrightarrow> 0 < y"
    "had p pf_semanticFirstTokenMs None = Some y \<Longrightarrow> 0 < y"
    "had p pf_outputTokensPerSecond None = Some y \<Longrightarrow> 0 < y" for y
    using assms(1) by (cases p; simp add: maybe_ok_def performance_ok_def)+
  note alpha = metricAlpha_range [THEN conjunct1] metricAlpha_range [THEN conjunct2]
  show "pf_transportFirstBodyMs s = Some x \<Longrightarrow> 0 < x"
    unfolding s_def observe_def Let_def
    by (auto elim!: updateEwma_pos [OF _ alpha] dest: positiveMetric_pos old)
  show "pf_semanticFirstTokenMs s = Some x \<Longrightarrow> 0 < x"
    unfolding s_def observe_def Let_def
    by (auto elim!: updateEwma_pos [OF _ alpha] dest: positiveMetric_pos old)
  show "pf_outputTokensPerSecond s = Some x \<Longrightarrow> 0 < x"
    unfolding s_def observe_def Let_def
    by (auto elim!: updateEwma_pos [OF _ alpha] dest!: positiveMetric_pos old
        split: option.splits)
  show "pf_dynamicConcurrency s = Some d \<Longrightarrow> 1 \<le> d"
    using assms(1) unfolding s_def
    by (cases p) (auto simp: observe_def Let_def maybe_ok_def performance_ok_def split: option.splits)
  show "pf_successStreak s < 8"
    unfolding s_def by (simp add: observe_def Let_def)
qed

lemma performance_ok_observe:
  "maybe_ok p \<Longrightarrow> performance_ok (observe p revision epoch success sample t adapt)"
  unfolding performance_ok_def
  using observe_counts [of p revision epoch success sample t adapt]
    observe_rates [of p revision epoch success sample t adapt]
    observe_metrics [of p revision epoch success sample t adapt]
  by blast

lemma halve_concurrency_range:
  "1 \<le> halve_concurrency m p"
  "maybe_ok p \<Longrightarrow> had p pf_dynamicConcurrency None = Some d \<Longrightarrow> halve_concurrency m p \<le> d"
proof -
  show "1 \<le> halve_concurrency m p" by (simp add: halve_concurrency_def)
  assume "maybe_ok p" and d: "had p pf_dynamicConcurrency None = Some d"
  then have "1 \<le> d" by (cases p) (auto simp: maybe_ok_def performance_ok_def)
  moreover have "js_floor (d / 2) \<le> d / 2"
    unfolding js_floor_def by (rule of_int_floor_le)
  ultimately have "max 1 (js_floor (d / 2)) \<le> d" by linarith
  then show "halve_concurrency m p \<le> d" by (simp add: halve_concurrency_def d)
qed

section \<open>Costs\<close>

lemma performanceCost_nonneg:
  assumes "maybe_ok p"
  shows "0 \<le> performanceCost p now"
proof (cases p)
  case None
  then show ?thesis by (simp add: performanceCost_def)
next
  case (Some st)
  have ok: "performance_ok st" using assms Some by (simp add: maybe_ok_def)
  then have "0 \<le> schedulerFirstTokenCostMs st"
    by (auto simp: schedulerFirstTokenCostMs_def performance_ok_def TRANSPORT_FALLBACK_FLOOR_MS_def
        less_imp_le max.coboundedI1 split: option.split)
  moreover have "0 \<le> pf_failurePenalty st * half_power x" for x
    using ok half_power_pos [of x] by (simp add: performance_ok_def less_imp_le)
  ultimately show ?thesis
    using Some by (auto simp: performanceCost_def Let_def intro!: add_nonneg_nonneg split: option.split)
qed

text \<open>The estimate moves from the measurement to the prior as the measurement ages.\<close>

lemma estimatedPerformanceCost_between:
  "min (performanceCost (Some st) now) prior \<le> estimatedPerformanceCost (Some st) prior now
   \<and> estimatedPerformanceCost (Some st) prior now \<le> max (performanceCost (Some st) now) prior"
proof -
  let ?r = "clamp 0 1 ((now - pf_updatedAt st) / PERFORMANCE_STALE_AFTER_MS)"
  have "0 \<le> ?r" "?r \<le> 1" by (simp_all add: clamp_def)
  moreover have "estimatedPerformanceCost (Some st) prior now =
      performanceCost (Some st) now + ?r * (prior - performanceCost (Some st) now)"
    by (simp add: estimatedPerformanceCost_def Let_def algebra_simps)
  ultimately show ?thesis using ewma_between by simp
qed

lemma estimatedPerformanceCost_fresh:
  "now \<le> pf_updatedAt st \<Longrightarrow> estimatedPerformanceCost (Some st) prior now = performanceCost (Some st) now"
  by (simp add: estimatedPerformanceCost_def Let_def clamp_def PERFORMANCE_STALE_AFTER_MS_def
      divide_nonpos_pos max_def min_def)

lemma estimatedPerformanceCost_stale:
  "pf_updatedAt st + PERFORMANCE_STALE_AFTER_MS \<le> now \<Longrightarrow>
   estimatedPerformanceCost (Some st) prior now = prior"
  by (simp add: estimatedPerformanceCost_def Let_def clamp_def PERFORMANCE_STALE_AFTER_MS_def
      max_def min_def)

text \<open>The prior: at least three quarters of the measured costs are at or below its quartile.\<close>

definition quartile_index :: "nat \<Rightarrow> nat" where
  "quartile_index n = min (n - 1) (nat \<lceil>real n * (75 / 100)\<rceil> - 1)"

lemma quartile_index_bounds:
  assumes "0 < n"
  shows "quartile_index n < n" and "real n * (75 / 100) \<le> real (Suc (quartile_index n))"
proof -
  show "quartile_index n < n" using assms by (simp add: quartile_index_def)
  have pos: "0 < \<lceil>real n * (75 / 100)\<rceil>" using assms by simp
  have le: "\<lceil>real n * (75 / 100)\<rceil> \<le> int n"
    using assms by (simp add: ceiling_le_iff)
  have "int (Suc (quartile_index n)) = \<lceil>real n * (75 / 100)\<rceil>"
    using pos le assms by (simp add: quartile_index_def min_def) linarith
  then show "real n * (75 / 100) \<le> real (Suc (quartile_index n))"
    by (metis le_of_int_ceiling of_int_of_nat_eq)
qed

lemma sorted_prefix_count:
  assumes "sorted xs" and "i < length xs"
  shows "Suc i \<le> length (filter (\<lambda>x. x \<le> xs ! i) xs)"
proof -
  have "filter (\<lambda>x. x \<le> xs ! i) (take (Suc i) xs) = take (Suc i) xs"
    using assms by (intro filter_True) (auto simp: in_set_conv_nth sorted_nth_mono)
  then have "length (filter (\<lambda>x. x \<le> xs ! i) (take (Suc i) xs)) = Suc i"
    using assms(2) by simp
  moreover have "filter (\<lambda>x. x \<le> xs ! i) xs
      = filter (\<lambda>x. x \<le> xs ! i) (take (Suc i) xs) @ filter (\<lambda>x. x \<le> xs ! i) (drop (Suc i) xs)"
    by (metis append_take_drop_id filter_append)
  ultimately show ?thesis by simp
qed

lemma conservativePerformancePrior_eq:
  "costs \<noteq> [] \<Longrightarrow> conservativePerformancePrior costs =
     max 4 (sort costs ! quartile_index (length costs) * (115 / 100))"
  by (simp add: conservativePerformancePrior_def Let_def quartile_index_def)

lemma length_filter_mono:
  "(q :: real) \<le> r \<Longrightarrow> length (filter (\<lambda>x. x \<le> q) xs) \<le> length (filter (\<lambda>x. x \<le> r) xs)"
  by (induction xs) auto

lemma conservativePerformancePrior_covers:
  assumes "costs \<noteq> []" and "\<And>c. c \<in> set costs \<Longrightarrow> 0 \<le> c"
  shows "real (length costs) * (75 / 100)
    \<le> real (length (filter (\<lambda>c. c \<le> conservativePerformancePrior costs) costs))"
proof -
  let ?i = "quartile_index (length costs)" and ?q = "sort costs ! quartile_index (length costs)"
  have i: "?i < length (sort costs)" using quartile_index_bounds(1) assms(1) by simp
  have "?q \<in> set costs" using nth_mem [OF i] by simp
  then have "0 \<le> ?q" by (rule assms(2))
  then have le: "?q \<le> conservativePerformancePrior costs"
    by (simp add: conservativePerformancePrior_eq [OF assms(1)] le_max_iff_disj)
  have "mset (filter (\<lambda>x. x \<le> ?q) (sort costs)) = mset (filter (\<lambda>x. x \<le> ?q) costs)" by simp
  then have "length (filter (\<lambda>x. x \<le> ?q) (sort costs)) = length (filter (\<lambda>x. x \<le> ?q) costs)"
    by (rule mset_eq_length)
  moreover have "length (filter (\<lambda>x. x \<le> ?q) costs)
      \<le> length (filter (\<lambda>c. c \<le> conservativePerformancePrior costs) costs)"
    using le by (rule length_filter_mono)
  ultimately have "Suc ?i \<le> length (filter (\<lambda>c. c \<le> conservativePerformancePrior costs) costs)"
    using sorted_prefix_count [OF sorted_sort i] by simp
  with quartile_index_bounds(2) [of "length costs"] assms(1) show ?thesis by simp
qed

section \<open>Ratings\<close>

lemma long_term_rate_range:
  assumes "performance_ok st" and "0 \<le> t"
  shows "0 < long_term_rate st t \<and> long_term_rate st t < 1"
proof -
  let ?d = "half_power (t / FITNESS_HISTORY_HALF_LIFE_MS)"
  have "0 \<le> pf_historySuccessWeight st * ?d" "0 \<le> pf_historyFailureWeight st * ?d"
    using assms(1) half_power_pos [of "t / FITNESS_HISTORY_HALF_LIFE_MS"]
    by (simp_all add: performance_ok_def less_imp_le)
  then show ?thesis by (simp add: long_term_rate_def Let_def)
qed

text \<open>The clamp of the recent rate never acts: it is a mean of two rates.\<close>

lemma recent_rate_mean:
  assumes "performance_ok st" and "0 \<le> t"
  shows "recent_rate st t =
    pf_recentSuccessRate st * half_power (t / FITNESS_STALE_AFTER_MS)
    + long_term_rate st t * (1 - half_power (t / FITNESS_STALE_AFTER_MS))"
proof -
  let ?m = "half_power (t / FITNESS_STALE_AFTER_MS)"
  have m: "0 \<le> 1 - ?m" "1 - ?m \<le> 1"
    using assms(2) by (simp_all add: FITNESS_STALE_AFTER_MS_def less_imp_le)
  have "0 \<le> pf_recentSuccessRate st + (1 - ?m) * (long_term_rate st t - pf_recentSuccessRate st)
     \<and> pf_recentSuccessRate st + (1 - ?m) * (long_term_rate st t - pf_recentSuccessRate st) \<le> 1"
    using assms long_term_rate_range [OF assms] m
    by (intro rate_step) (auto simp: performance_ok_def)
  moreover have "pf_recentSuccessRate st * ?m + long_term_rate st t * (1 - ?m)
     = pf_recentSuccessRate st + (1 - ?m) * (long_term_rate st t - pf_recentSuccessRate st)"
    by (simp add: algebra_simps)
  ultimately show ?thesis by (simp add: recent_rate_def Let_def clamp_id)
qed

lemma confidence_ratio_range:
  assumes "performance_ok st" and "0 \<le> t"
  shows "0 \<le> confidence_ratio st t \<and> confidence_ratio st t < 1"
proof -
  let ?d = "half_power (t / FITNESS_HISTORY_HALF_LIFE_MS)"
  have "0 \<le> pf_historySuccessWeight st * ?d + pf_historyFailureWeight st * ?d"
    using assms(1) half_power_pos [of "t / FITNESS_HISTORY_HALF_LIFE_MS"]
    by (simp add: performance_ok_def less_imp_le)
  then show ?thesis
    by (simp add: confidence_ratio_def Let_def FITNESS_CONFIDENCE_SAMPLES_def)
qed

lemma responseFitness_range: "0 \<le> responseFitness x \<and> responseFitness x \<le> 100"
proof (cases x)
  case None
  then show ?thesis by (simp add: responseFitness_def FITNESS_NEUTRAL_PRIOR_def)
next
  case (Some ms)
  have pos: "0 \<le> (max 1 ms / 1800) powr (125 / 100)" by (rule powr_ge_zero)
  have bound: "0 \<le> y \<Longrightarrow> 0 \<le> 100 / (1 + y) \<and> 100 / (1 + y) \<le> (100 :: real)" for y
    by (simp add: divide_le_eq)
  show ?thesis using bound [OF pos] Some by (simp add: responseFitness_def)
qed

lemma throughputFitness_range: "0 \<le> throughputFitness x \<and> throughputFitness x \<le> 100"
  by (auto simp: throughputFitness_def FITNESS_NEUTRAL_PRIOR_def split: option.split)

lemma decayed_exp_range:
  assumes "performance_ok st"
  shows "exp (- (pf_failurePenalty st * half_power x) / 10) \<le> 1"
  using assms half_power_pos [of x] by (simp add: performance_ok_def less_imp_le)

lemma stability_range:
  assumes "performance_ok st"
  shows "0 \<le> stability_rating a st t \<and> stability_rating a st t \<le> 100"
proof -
  define e where "e = exp (- (pf_failurePenalty st * half_power (t / FAILURE_PENALTY_HALF_LIFE_MS)) / 10)"
  define c :: real where "c = (if acc_cooldownReason a = Some Failure_Reason \<or> acc_circuitState a = Some Open then 35
      else min 25 (max 0 (case acc_consecutiveFailures a of None \<Rightarrow> 0 | Some n \<Rightarrow> real n) * 6))"
  have "e \<le> 1" unfolding e_def by (rule decayed_exp_range [OF assms])
  moreover have "0 \<le> c" by (simp add: c_def)
  moreover have "stability_rating a st t = max 0 (100 * e - c)"
    by (simp add: stability_rating_def Let_def c_def e_def)
  ultimately show ?thesis by simp
qed

text \<open>
  The score: a mean, by the confidence, of the weighted components and the neutral prior. All
  of it lies in the range, so that the clamps of the rating change nothing.
\<close>

definition reliability_rating :: "performance_state \<Rightarrow> real \<Rightarrow> real" where
  "reliability_rating st t = 100 * (long_term_rate st t * (65 / 100) + recent_rate st t * (35 / 100))"

definition raw_score :: "account \<Rightarrow> performance_state \<Rightarrow> real \<Rightarrow> real" where
  "raw_score a st t =
     reliability_rating st t * (48 / 100)
     + responseFitness (case pf_semanticFirstTokenMs st of
                          None \<Rightarrow> pf_transportFirstBodyMs st | Some ms \<Rightarrow> Some ms) * (24 / 100)
     + throughputFitness (pf_outputTokensPerSecond st) * (16 / 100)
     + stability_rating a st t * (12 / 100)"

definition blended_score :: "account \<Rightarrow> performance_state \<Rightarrow> real \<Rightarrow> real" where
  "blended_score a st t =
     raw_score a st t * confidence_ratio st t + FITNESS_NEUTRAL_PRIOR * (1 - confidence_ratio st t)"

lemma recent_rate_range: "0 \<le> recent_rate st t \<and> recent_rate st t \<le> 1"
  by (simp add: recent_rate_def Let_def clamp_bounds)

lemma raw_score_range:
  assumes "performance_ok st" and "0 \<le> t"
  shows "0 \<le> raw_score a st t \<and> raw_score a st t \<le> 100"
proof -
  have "0 \<le> reliability_rating st t \<and> reliability_rating st t \<le> 100"
    using long_term_rate_range [OF assms] recent_rate_range [of st t]
    by (simp add: reliability_rating_def)
  then show ?thesis
    using responseFitness_range [of "case pf_semanticFirstTokenMs st of
        None \<Rightarrow> pf_transportFirstBodyMs st | Some ms \<Rightarrow> Some ms"]
      throughputFitness_range [of "pf_outputTokensPerSecond st"] stability_range [OF assms(1), of a t]
    by (simp add: raw_score_def)
qed

lemma blended_score_between:
  assumes "performance_ok st" and "0 \<le> t"
  shows "min (raw_score a st t) 72 \<le> blended_score a st t
     \<and> blended_score a st t \<le> max (raw_score a st t) 72"
proof -
  have "blended_score a st t = 72 + confidence_ratio st t * (raw_score a st t - 72)"
    by (simp add: blended_score_def FITNESS_NEUTRAL_PRIOR_def algebra_simps)
  moreover have "0 \<le> confidence_ratio st t" "confidence_ratio st t \<le> 1"
    using confidence_ratio_range [OF assms] by auto
  ultimately show ?thesis using ewma_between [of "confidence_ratio st t" 72 "raw_score a st t"]
    by (simp add: min.commute max.commute)
qed

lemma js_round_range: "0 \<le> x \<Longrightarrow> x \<le> 100 \<Longrightarrow> 0 \<le> js_round x \<and> js_round x \<le> 100"
proof -
  assume x: "0 \<le> x" "x \<le> 100"
  then have "0 \<le> \<lfloor>x + 1 / 2\<rfloor>" by simp
  moreover have "\<lfloor>x + 1 / 2\<rfloor> \<le> 100" using x by (simp add: floor_le_iff)
  ultimately show ?thesis by (simp add: js_round_def)
qed

lemma fitness_score_eq:
  assumes "performance_ok st"
  shows "fit_score (fitness a (Some st) now) = Some (js_round (blended_score a st (max 0 (now - pf_updatedAt st))))"
proof -
  let ?t = "max 0 (now - pf_updatedAt st)"
  have n: "pf_sampleCount st \<noteq> 0" using assms unfolding performance_ok_def by blast
  have "0 \<le> blended_score a st ?t \<and> blended_score a st ?t \<le> 100"
    using blended_score_between [OF assms, of ?t a] raw_score_range [OF assms, of ?t a] by auto
  then have r: "roundedRating (blended_score a st ?t) = js_round (blended_score a st ?t)"
    by (simp add: roundedRating_def clamp_id js_round_range)
  show ?thesis
    unfolding r [symmetric]
    using n by (simp add: fitness_def Let_def blended_score_def raw_score_def reliability_rating_def)
qed

section \<open>Restoration\<close>

lemma maybe_ok_None [simp]: "maybe_ok None"
  by (simp add: maybe_ok_def)

lemma hydrate_account_ok: "maybe_ok (hydrate_account revision epoch logs)"
proof -
  have "maybe_ok p \<Longrightarrow> maybe_ok (foldl (\<lambda>st l. Some (observe st revision epoch
      (log_status l = Log_Success) (log_sample l) (log_timestamp l) False)) p ls)" for p ls
  proof (induction ls arbitrary: p)
    case Nil
    then show ?case by simp
  next
    case (Cons l ls)
    have "maybe_ok (Some (observe p revision epoch (log_status l = Log_Success) (log_sample l)
        (log_timestamp l) False))"
      using performance_ok_observe [OF Cons.prems] by (simp add: maybe_ok_def)
    from Cons.IH [OF this] show ?case by simp
  qed
  then show ?thesis by (simp add: hydrate_account_def)
qed

end
