(* ===== verification/Health_Runs.thy ===== *)
theory Health_Runs
  imports Sticky_Proofs Health_Proofs Performance_Proofs
begin

text \<open>
  What a proven failure does to the session cache, exactly: the loop of \<^verbatim>\<open>recordFailure\<close>
  turns every live assignment of the account into an avoidance and evicts nothing, because each
  avoidance takes the place of the assignment it replaces.
  The invariants of whole runs of the health operations follow.
\<close>

section \<open>Maps with the same lookups\<close>

lemma same_lookups_mset:
  assumes "map_wf m" and "map_wf m'" and "map_get m = map_get m'"
  shows "mset m = mset m'"
proof -
  have "set m = set m'"
    using assms by (metis map_get_from_set map_get_in_set subrelI subset_antisym)
  moreover have "distinct m" "distinct m'"
    using assms(1,2) by (simp_all add: map_wf_def distinct_map)
  ultimately show ?thesis by (simp add: set_eq_iff_mset_eq_distinct)
qed

lemma same_lookups_sizes:
  assumes "map_wf m" and "map_wf m'" and "map_get m = map_get m'"
  shows "length m = length m'" and "length (pool_entries p m) = length (pool_entries p m')"
  using same_lookups_mset [OF assms]
  by (simp_all add: pool_entries_def mset_eq_length flip: size_mset)

section \<open>No eviction when there is room\<close>

lemma enforce_room:
  assumes "indexed c" and "length (sc_lru c) < sc_maxEntries c"
    and "length (pool_entries p (sc_lru c)) < sc_maxEntriesPerPool c"
  shows "enforceStickyCapacity p c = c"
proof -
  have "evict_pool_loop n p c = c" for n
    using assms(3) pool_lru_list [OF assms(1), of p] by (cases n) (simp_all add: Let_def)
  moreover have "evict_global_loop n c = c" for n
    using assms(2) by (cases n) simp_all
  ultimately show ?thesis by (simp add: enforceStickyCapacity_def)
qed

definition all_live :: "real \<Rightarrow> sticky_cache \<Rightarrow> bool" where
  "all_live now c \<longleftrightarrow>
     unexpired now (map_get (sc_sticky c)) = map_get (sc_sticky c)
     \<and> unexpired now (map_get (sc_avoidance c)) = map_get (sc_avoidance c)"

lemma all_live_cleanup: "sticky_inv c \<Longrightarrow> all_live now (cleanupExpiredSticky now c)"
  by (auto simp: all_live_def cleanupExpiredSticky_spec unexpired_def fun_eq_iff split: option.split)

lemma unexpired_upd:
  "unexpired now (m(k := v)) = (unexpired now m)(k := (case v of None \<Rightarrow> None
     | Some e \<Rightarrow> if now < se_expiresAt e then Some e else None))"
  by (auto simp: unexpired_def fun_eq_iff)

text \<open>Replacing a live assignment by an avoidance changes one key in each map.\<close>

lemma setAvoidance_replaces:
  fixes now k e
  assumes ok: "sticky_ok c" and live: "all_live now c" and e: "map_get (sc_sticky c) k = Some e"
    and x: "se_poolId x = se_poolId e" "now < se_expiresAt x"
  defines "d \<equiv> setStickyFailureAvoidance now k x (deleteSticky k c)"
  shows "sticky_ok d" and "map_get (sc_sticky d) = (map_get (sc_sticky c))(k := None)"
    and "map_get (sc_avoidance d) = (map_get (sc_avoidance c))(k \<mapsto> x)" and "all_live now d"
proof -
  let ?p = "se_poolId e"
  have ix: "indexed c" and bnd: "sticky_bounded c" using ok by (simp_all add: sticky_ok_def sticky_inv_def)
  define c1 where "c1 = deleteSticky k c"
  have c1: "sticky_ok c1" unfolding c1_def by (rule sticky_ok_deleteSticky [OF ok])
  then have inv1: "sticky_inv c1" and ix1: "indexed c1" by (simp_all add: sticky_ok_def sticky_inv_def)
  have no_av: "map_get (sc_avoidance c) k = None" using indexedD(4) [OF ix, of k] e by simp
  have lru_k: "map_get (sc_lru c) k = Some (?p, Assignment)"
    using indexedD(5) [OF ix, of k] e by (simp add: lru_entry_def)
  have lru1: "sc_lru c1 = map_delete (sc_lru c) k"
    using deleteSticky_eq [OF ix, of k] e by (simp add: c1_def)
  have m1: "map_get (sc_sticky c1) = (map_get (sc_sticky c))(k := None)" "sc_avoidance c1 = sc_avoidance c"
    by (auto simp: c1_def map_get_deleteSticky fun_eq_iff)
  have "Suc (length (sc_lru c1)) = length (sc_lru c)"
    unfolding lru1 by (rule Suc_length_map_delete [OF indexedD(3) [OF ix] lru_k])
  moreover have "Suc (length (pool_entries ?p (sc_lru c1))) = length (pool_entries ?p (sc_lru c))"
    unfolding lru1 pool_entries_delete
    using map_get_pool_entries [OF indexedD(3) [OF ix], of ?p k Assignment] lru_k
    by (intro Suc_length_map_delete map_wf_pool_entries indexedD(3) [OF ix]) simp
  moreover have "length (sc_lru c) \<le> sc_maxEntries c"
      "length (pool_entries ?p (sc_lru c)) \<le> sc_maxEntriesPerPool c"
    using bnd by (simp_all add: sticky_bounded_def)
  ultimately have room: "length (sc_lru c1) < sc_maxEntries c1"
      "length (pool_entries ?p (sc_lru c1)) < sc_maxEntriesPerPool c1"
    by (simp_all add: c1_def)
  define c2 where "c2 = cleanupExpiredSticky now c1"
  have c2: "sticky_ok c2" and max2: "sc_maxEntries c2 = sc_maxEntries c1" "sc_maxEntriesPerPool c2 = sc_maxEntriesPerPool c1"
    unfolding c2_def using sticky_ok_cleanup [OF c1] by simp_all
  have ix2: "indexed c2" using c2 by (simp add: sticky_ok_def sticky_inv_def)
  have m2: "map_get (sc_sticky c2) = map_get (sc_sticky c1)" "map_get (sc_avoidance c2) = map_get (sc_avoidance c1)"
    unfolding c2_def cleanupExpiredSticky_spec(2,3) [OF inv1] m1 unexpired_upd
    using live by (simp_all add: all_live_def)
  have "map_get (sc_lru c2) = map_get (sc_lru c1)"
    by (rule ext) (simp add: indexedD(5) [OF ix1] indexedD(5) [OF ix2] lru_entry_def m2)
  then have sizes: "length (sc_lru c2) = length (sc_lru c1)"
      "length (pool_entries ?p (sc_lru c2)) = length (pool_entries ?p (sc_lru c1))"
    using same_lookups_sizes [OF indexedD(3) [OF ix2] indexedD(3) [OF ix1]] by simp_all
  have k2: "map_get (sc_sticky c2) k = None" "map_get (sc_avoidance c2) k = None"
    using m1 m2 no_av by simp_all
  have room2: "make_room now k ?p c1 = c2"
    using k2 room sizes max2 enforce_room [OF ix2, of ?p]
    by (simp add: make_room_def c2_def [symmetric] deleteSticky_def deleteStickyFailureAvoidance_def)
  have d: "d = insert_avoidance k x c2"
    by (simp add: d_def setStickyFailureAvoidance_alt c1_def [symmetric] x room2)
  show "sticky_ok d" unfolding d_def by (intro sticky_ok_setAvoidance sticky_ok_deleteSticky ok)
  show sd: "map_get (sc_sticky d) = (map_get (sc_sticky c))(k := None)"
    using m1 m2 by (simp add: d insert_avoidance_def Let_def fun_eq_iff)
  show av: "map_get (sc_avoidance d) = (map_get (sc_avoidance c))(k \<mapsto> x)"
    using m1 m2 by (auto simp: d insert_avoidance_def Let_def fun_eq_iff)
  show "all_live now d"
    unfolding all_live_def sd av unexpired_upd using live x(2) by (simp add: all_live_def)
qed

section \<open>The loop over an account's sessions\<close>

lemma dropAccountAssignments_exact:
  assumes "sticky_ok c" and "all_live now c"
  shows "sticky_ok (dropAccountAssignments now i ks c) \<and> all_live now (dropAccountAssignments now i ks c)
    \<and> (\<forall>k. map_get (sc_sticky (dropAccountAssignments now i ks c)) k =
          (case map_get (sc_sticky c) k of None \<Rightarrow> None
           | Some x \<Rightarrow> if k \<in> set ks \<and> se_accountId x = i then None else Some x))
    \<and> (\<forall>k. map_get (sc_avoidance (dropAccountAssignments now i ks c)) k =
          (case map_get (sc_sticky c) k of
             None \<Rightarrow> map_get (sc_avoidance c) k
           | Some x \<Rightarrow> if k \<in> set ks \<and> se_accountId x = i then Some x else map_get (sc_avoidance c) k))"
  using assms
proof (induction ks arbitrary: c)
  case Nil
  then show ?case by (auto split: option.split)
next
  case (Cons key ks)
  show ?case
  proof (cases "\<exists>x. map_get (sc_sticky c) key = Some x \<and> se_accountId x = i")
    case False
    then have "dropAccountAssignments now i (key # ks) c = dropAccountAssignments now i ks c"
      by (auto split: option.split)
    then show ?thesis using Cons.IH [OF Cons.prems] False by (auto split: option.split)
  next
    case True
    then obtain x where x: "map_get (sc_sticky c) key = Some x" "se_accountId x = i" by blast
    have late: "now < se_expiresAt x"
    proof -
      have "unexpired now (map_get (sc_sticky c)) key = Some x"
        using Cons.prems(2) x by (simp add: all_live_def)
      then show ?thesis using x by (simp add: unexpired_def split: if_splits)
    qed
    let ?d = "setStickyFailureAvoidance now key x (deleteSticky key c)"
    have eq: "dropAccountAssignments now i (key # ks) c = dropAccountAssignments now i ks ?d"
    proof -
      have "\<lparr>se_poolId = se_poolId x, se_accountId = i, se_expiresAt = se_expiresAt x\<rparr> = x"
        using x(2) by simp
      note same = this
      have "dropAccountAssignments now i (key # ks) c = dropAccountAssignments now i ks
          (setStickyFailureAvoidance now key
             \<lparr>se_poolId = se_poolId x, se_accountId = i, se_expiresAt = se_expiresAt x\<rparr> (deleteSticky key c))"
        using x late by (simp add: Let_def)
      then show ?thesis unfolding same .
    qed
    note d = setAvoidance_replaces [OF Cons.prems x(1) refl late]
    have "map_get (sc_avoidance c) key = None"
      using Cons.prems(1) x indexedD(4) [of c key] by (simp add: sticky_ok_def sticky_inv_def)
    then show ?thesis
      unfolding eq using Cons.IH [OF d(1,4)] d(2,3) x by (auto split: option.split)
  qed
qed

lemma failAccountAssignments_exact:
  assumes "sticky_ok c"
  shows "map_get (sc_sticky (failAccountAssignments now i c)) k =
      (case unexpired now (map_get (sc_sticky c)) k of
         None \<Rightarrow> None | Some x \<Rightarrow> if se_accountId x = i then None else Some x)"
    and "map_get (sc_avoidance (failAccountAssignments now i c)) k =
      (case unexpired now (map_get (sc_sticky c)) k of
         Some x \<Rightarrow> if se_accountId x = i then Some x else None
       | None \<Rightarrow> unexpired now (map_get (sc_avoidance c)) k)"
proof -
  let ?c = "cleanupExpiredSticky now c"
  let ?ks = "case sc_stickyKeysByAccount ?c i of None \<Rightarrow> [] | Some ks \<Rightarrow> ks"
  have inv: "sticky_inv c" using assms by (simp add: sticky_ok_def)
  have ok: "sticky_ok ?c" by (rule sticky_ok_cleanup [OF assms])
  have ix: "indexed ?c" using ok by (simp add: sticky_ok_def sticky_inv_def)
  note m = cleanupExpiredSticky_spec(2,3) [OF inv, of now]
  have keys: "k \<in> set ?ks \<longleftrightarrow> (\<exists>x. map_get (sc_sticky ?c) k = Some x \<and> se_accountId x = i)" for k
    using account_keys_iff [OF indexedD(1) [OF ix], of k i] unfolding indexedD(7) [OF ix]
    by (cases "account_keys i (sc_sticky ?c)") (simp_all add: account_view_def)
  have excl: "map_get (sc_sticky ?c) k = Some x \<Longrightarrow> map_get (sc_avoidance ?c) k = None" for k x
    using indexedD(4) [OF ix, of k] by simp
  note loop = dropAccountAssignments_exact [OF ok all_live_cleanup [OF inv], of i ?ks]
  show "map_get (sc_sticky (failAccountAssignments now i c)) k =
      (case unexpired now (map_get (sc_sticky c)) k of
         None \<Rightarrow> None | Some x \<Rightarrow> if se_accountId x = i then None else Some x)"
    using loop keys [of k] by (auto simp: failAccountAssignments_def Let_def m split: option.split)
  show "map_get (sc_avoidance (failAccountAssignments now i c)) k =
      (case unexpired now (map_get (sc_sticky c)) k of
         Some x \<Rightarrow> if se_accountId x = i then Some x else None
       | None \<Rightarrow> unexpired now (map_get (sc_avoidance c)) k)"
    using loop keys [of k] excl [of k] by (auto simp: failAccountAssignments_def Let_def m split: option.split)
qed

section \<open>Runs of the health operations\<close>

text \<open>
  What every sequence of health operations keeps: the cooldowns of single models are stored under
  normalised keys, the performance statistics of every account are consistent, and the circuit
  entries carry their account's id and a cooldown reason, which no account without an entry has.
\<close>

definition circuits_ok :: "health_state \<Rightarrow> bool" where
  "circuits_ok h \<longleftrightarrow>
     (\<forall>i st. hs_health h i = Some st \<longrightarrow> rh_accountId st = i)
     \<and> (\<forall>i. hs_reasons h i = None \<longleftrightarrow> hs_health h i = None)"

definition statistics_ok :: "health_state \<Rightarrow> bool" where
  "statistics_ok h \<longleftrightarrow> (\<forall>i. maybe_ok (hs_performance h i))"

definition health_ok :: "health_state \<Rightarrow> bool" where
  "health_ok h \<longleftrightarrow> models_ok h \<and> statistics_ok h \<and> circuits_ok h"

lemma health_ok_empty: "health_ok empty_health"
  by (simp add: health_ok_def models_ok_def statistics_ok_def circuits_ok_def empty_health_def)

section \<open>Reading and storing circuit entries\<close>

lemma circuits_ok_store:
  "circuits_ok h \<Longrightarrow> rh_accountId st = i \<Longrightarrow> circuits_ok (snd (store_health st reason i h))"
  by (simp add: store_health_eq circuits_ok_def)

lemma circuits_ok_remove:
  "circuits_ok h \<Longrightarrow> hs_health h' = (hs_health h)(i := None) \<Longrightarrow>
   hs_reasons h' = (hs_reasons h)(i := None) \<Longrightarrow> circuits_ok h'"
  by (simp add: circuits_ok_def)

lemma circuits_ok_cong:
  "hs_health h' = hs_health h \<Longrightarrow> hs_reasons h' = hs_reasons h \<Longrightarrow> circuits_ok h' = circuits_ok h"
  by (simp add: circuits_ok_def)

lemma statistics_ok_cong: "hs_performance h' = hs_performance h \<Longrightarrow> statistics_ok h' = statistics_ok h"
  by (simp add: statistics_ok_def)

lemma models_ok_cong: "hs_modelCooldowns h' = hs_modelCooldowns h \<Longrightarrow> models_ok h' = models_ok h"
  by (simp add: models_ok_def)

lemma performance_only [simp]:
  "models_ok (h\<lparr>hs_performance := p\<rparr>) = models_ok h"
  "circuits_ok (h\<lparr>hs_performance := p\<rparr>) = circuits_ok h"
  by (simp_all add: models_ok_def circuits_ok_def)

lemma circuits_ok_getHealth: "circuits_ok h \<Longrightarrow> circuits_ok (snd (getHealth now i h))"
  by (auto simp: circuits_ok_def getHealth_def Let_def split: option.splits)

lemma health_ok_getHealth: "health_ok h \<Longrightarrow> health_ok (snd (getHealth now i h))"
  by (simp add: health_ok_def circuits_ok_getHealth statistics_ok_cong [of "snd (getHealth now i h)" h]
      models_ok_cong [of "snd (getHealth now i h)" h])

lemma health_ok_store:
  "health_ok h \<Longrightarrow> rh_accountId st = i \<Longrightarrow> health_ok (snd (store_health st reason i h))"
  by (simp add: health_ok_def circuits_ok_store)
    (simp add: store_health_eq models_ok_def statistics_ok_def)

lemma health_ok_mergeQuota: "health_ok h \<Longrightarrow> health_ok (snd (mergeQuotaCooldown now i t r h))"
  by (simp add: mergeQuotaCooldown_def Let_def not_applied_eq health_ok_getHealth health_ok_store)

lemma health_ok_setCooldown: "health_ok h \<Longrightarrow> health_ok (snd (setCooldown now i t er ee h))"
  by (simp add: setCooldown_def Let_def not_applied_eq health_ok_getHealth health_ok_store health_ok_mergeQuota)

lemma statistics_ok_observe:
  "statistics_ok h \<Longrightarrow> statistics_ok (observeOutcome i success sample t adapt h)"
  by (simp add: statistics_ok_def observeOutcome_def maybe_ok_def performance_ok_observe)

lemma health_ok_observe: "health_ok h \<Longrightarrow> health_ok (observeOutcome i success sample t adapt h)"
  using statistics_ok_observe [of h i success sample t adapt]
  by (simp add: health_ok_def observeOutcome_def)

lemma health_ok_performance:
  "health_ok h \<Longrightarrow> (\<And>i. maybe_ok (p i)) \<Longrightarrow> health_ok (h\<lparr>hs_performance := p\<rparr>)"
  by (simp add: health_ok_def statistics_ok_def)

lemma performance_ok_halved:
  "performance_ok st \<Longrightarrow>
   performance_ok (st\<lparr>pf_dynamicConcurrency := Some (halve_concurrency m p), pf_successStreak := 0\<rparr>)"
  using halve_concurrency_range(1) [of m p] by (auto simp: performance_ok_def)

lemma health_ok_recordFailure:
  assumes "health_ok h"
  shows "health_ok (snd (snd (recordFailure now i opts (c, h))))"
proof -
  have halved: "health_ok (case hs_performance g i of None \<Rightarrow> g
      | Some updated \<Rightarrow> g\<lparr>hs_performance := (hs_performance g)(i \<mapsto> updated\<lparr>pf_dynamicConcurrency :=
          Some (halve_concurrency m p), pf_successStreak := 0\<rparr>)\<rparr>)" if "health_ok g" for g m p
    using that
    by (auto split: option.split intro!: health_ok_performance performance_ok_halved
        simp: maybe_ok_def health_ok_def statistics_ok_def)
  show ?thesis
    using assms
    by (simp add: recordFailure_def Let_def split_beta not_applied_eq health_ok_getHealth
        health_ok_mergeQuota halved health_ok_observe health_ok_store)
qed

lemma health_ok_remove:
  "health_ok h \<Longrightarrow> health_ok (h\<lparr>hs_health := (hs_health h)(i := None),
     hs_reasons := (hs_reasons h)(i := None), hs_revisions := r\<rparr>)"
  by (simp add: health_ok_def models_ok_def statistics_ok_def circuits_ok_def)

lemma health_ok_recordSuccess: "health_ok h \<Longrightarrow> health_ok (snd (recordSuccess now i er ee h))"
  by (simp add: recordSuccess_def Let_def not_applied_eq health_ok_getHealth bumpHealthRevision_def
      health_ok_remove)

lemma health_ok_reset: "health_ok h \<Longrightarrow> health_ok (snd (resetHealth now i p h))"
  by (auto simp: resetHealth_def Let_def bumpHealthRevision_def bumpResetEpoch_def
      health_ok_def models_ok_def statistics_ok_def circuits_ok_def)

section \<open>Cooldowns of single models, and availability\<close>

lemma health_ok_models:
  "health_ok h \<Longrightarrow> models_ok h' \<Longrightarrow> hs_health h' = hs_health h \<Longrightarrow> hs_reasons h' = hs_reasons h \<Longrightarrow>
   hs_performance h' = hs_performance h \<Longrightarrow> health_ok h'"
  by (simp add: health_ok_def statistics_ok_def circuits_ok_def)

lemma health_ok_put: "health_ok h \<Longrightarrow> cooldowns_wf m \<Longrightarrow> health_ok (put_cooldowns i m h)"
  by (rule health_ok_models) (simp_all add: models_ok_put health_ok_def)

lemma health_ok_cooldowns: "health_ok h \<Longrightarrow> cooldowns_wf (account_cooldowns h i)"
  by (simp add: health_ok_def account_cooldowns_wf)

lemma health_ok_getModels: "health_ok h \<Longrightarrow> health_ok (snd (getModelCooldowns now i h))"
  using health_ok_cooldowns [of h i]
  by (auto simp: getModelCooldowns_def account_cooldowns_def Let_def split: option.split
      intro!: health_ok_put cooldowns_wf_prune)

lemma health_ok_recordModelFailure:
  assumes "health_ok h"
  shows "health_ok (snd (recordModelFailure now i m reason ms code h))"
proof (cases "normalizedModelCooldownKey m")
  case None
  then show ?thesis using assms by (simp add: recordModelFailure_def health_ok_getModels)
next
  case (Some key)
  have key: "normalizedModelCooldownKey key = Some key" using Some by simp
  show ?thesis
    unfolding recordModelFailure_def Let_def using Some assms key
    by (auto intro!: health_ok_getModels health_ok_put bound_cooldowns_wf cooldowns_wf_set
        cooldowns_wf_prune health_ok_cooldowns)
qed

lemma health_ok_isModelAvailable: "health_ok h \<Longrightarrow> health_ok (snd (isModelAvailable i m now h))"
  using health_ok_cooldowns [of h i]
  by (auto simp: isModelAvailable_def account_cooldowns_def split: option.split
      intro!: health_ok_put cooldowns_wf_delete)

lemma health_ok_transitions:
  "health_ok h \<Longrightarrow> health_ok (admit_quota_probe a now (open_to_half_open i now h))"
  by (auto simp: admit_quota_probe_def open_to_half_open_def health_ok_def models_ok_def statistics_ok_def
      circuits_ok_def closed_health_def Let_def split: option.splits)

lemma health_ok_isAvailable: "health_ok h \<Longrightarrow> health_ok (snd (isAvailable a q now m load h))"
  by (auto simp: isAvailable_split Let_def health_ok_transitions health_ok_isModelAvailable split: option.split)

section \<open>Hydration and reset\<close>

lemma cooldowns_wf_hydrate: "cooldowns_wf m \<Longrightarrow> cooldowns_wf (hydrate_cooldown now m entry)"
  by (auto simp: hydrate_cooldown_def Let_def split: option.split prod.split
      intro!: cooldowns_wf_set)

lemma health_ok_hydrateModels: "health_ok h \<Longrightarrow> health_ok (hydrateModelCooldowns now a h)"
proof -
  assume ok: "health_ok h"
  have "cooldowns_wf m \<Longrightarrow> cooldowns_wf (foldl (hydrate_cooldown now) m es)" for m es
    by (induction es arbitrary: m) (simp_all add: cooldowns_wf_hydrate)
  then show ?thesis
    using ok by (simp add: hydrateModelCooldowns_def Let_def health_ok_put cooldowns_wf_prune
        health_ok_cooldowns)
qed

lemma health_ok_restore: "health_ok h \<Longrightarrow> health_ok (restore_open a h)"
  by (simp add: restore_open_def Let_def health_ok_def models_ok_def statistics_ok_def circuits_ok_def)

lemma health_ok_recovered:
  "health_ok h \<Longrightarrow> health_ok (snd (bumpHealthRevision i (h\<lparr>hs_health := (hs_health h)(j := None),
     hs_reasons := (hs_reasons h)(j := None), hs_quotaHalfOpen := q\<rparr>)))"
  by (simp add: bumpHealthRevision_def Let_def health_ok_def models_ok_def statistics_ok_def circuits_ok_def)

lemma health_ok_hydrate_account: "health_ok h \<Longrightarrow> health_ok (hydrate_account_health now h a)"
  using health_ok_hydrateModels [of h now a]
  by (auto simp: hydrate_account_health_def Let_def split_beta health_ok_restore health_ok_recovered
      split: option.split)

lemma health_ok_forget: "health_ok h \<Longrightarrow> health_ok (forget_removed_accounts as h)"
  by (auto simp: forget_removed_accounts_def Let_def health_ok_def models_ok_def statistics_ok_def
      circuits_ok_def)

lemma health_ok_hydrate: "health_ok h \<Longrightarrow> health_ok (hydrate_health now as h)"
proof -
  assume "health_ok h"
  moreover have "health_ok g \<Longrightarrow> health_ok (foldl (hydrate_account_health now) g bs)" for g bs
    by (induction bs arbitrary: g) (simp_all add: health_ok_hydrate_account)
  ultimately show ?thesis by (simp add: hydrate_health_def health_ok_forget)
qed

lemma maybe_ok_hydratePerformance:
  assumes "\<And>i. maybe_ok (perf i)"
  shows "maybe_ok (hydratePerformance now resetAt revision epoch logs perf i)"
proof -
  define load where "load f = (\<lambda>perf accountId. if perf accountId \<noteq> None then perf
      else perf(accountId := hydrate_account (revision accountId) (epoch accountId) (f accountId)))"
    for f :: "string \<Rightarrow> request_log list"
  have "(\<And>i. maybe_ok (p i)) \<Longrightarrow> maybe_ok (foldl (load f) p ids i)" for f p ids
  proof (induction ids arbitrary: p)
    case (Cons j ids)
    have "maybe_ok (load f p j k)" for k
      using Cons.prems by (simp add: load_def hydrate_account_ok)
    then show ?case by (simp add: Cons.IH)
  qed simp
  then show ?thesis using assms by (simp add: hydratePerformance_def Let_def load_def)
qed

lemma health_ok_clear: "health_ok (clear_health active h)"
  by (simp add: clear_health_def Let_def health_ok_def models_ok_def statistics_ok_def circuits_ok_def)

section \<open>Every run\<close>

lemmas health_ok_ops = health_ok_setCooldown health_ok_recordSuccess health_ok_reset
  health_ok_recordModelFailure health_ok_isAvailable health_ok_getHealth health_ok_getModels

lemma health_ok_step:
  assumes "health_step s t" and "health_ok (snd s)"
  shows "health_ok (snd t)"
  using assms(1,2)
proof cases
  case (Failure now i opts r)
  then show ?thesis
    using health_ok_recordFailure [OF assms(2), of now i opts "fst s"] by simp
next
  case (Hydrate_Performance c h now logs)
  then show ?thesis
    using assms(2) maybe_ok_hydratePerformance [of "hs_performance h"]
    by (simp add: health_ok_performance health_ok_def statistics_ok_def)
next
  case (Performance now i sample er ee h b h' c)
  then show ?thesis using assms(2) by (auto simp: recordPerformance_def health_ok_observe split: if_splits)
qed (use assms(2) in \<open>auto dest!: arg_cong [where f = snd] simp: health_ok_hydrate health_ok_clear\<close>,
    (metis health_ok_ops)+)

lemma health_ok_run: "health_step\<^sup>*\<^sup>* s t \<Longrightarrow> health_ok (snd s) \<Longrightarrow> health_ok (snd t)"
  by (induction rule: rtranclp_induct) (auto intro: health_ok_step)

end
