(* ===== verification/Selection.thy ===== *)
theory Selection
  imports Health
begin

text \<open>
  The state of \<^verbatim>\<open>PoolScheduler\<close> in \<^verbatim>\<open>src/main/gateway/scheduler.ts\<close> as a whole, and the
  choice of one account among the candidates: the six strategies of \<^verbatim>\<open>pick\<close>, smooth weighted
  round robin, the automatic balance, and the two tests that let a session leave its account.

  What the code takes from outside is the record \<open>env\<close>: the clock (one value per synchronous
  operation), the random source (its \<open>n\<close>-th value; the state counts the calls),
  \<^verbatim>\<open>localeCompare\<close>, whose order depends on the host's locale, and which abort signals have
  fired.
\<close>

section \<open>State\<close>

record env =
  env_now :: real
  env_random :: "nat \<Rightarrow> real"
  env_compare :: "string \<Rightarrow> string \<Rightarrow> int"
  env_aborted :: "nat \<Rightarrow> bool"

datatype scheduler_error =
    No_Eligible_Account "string list" string
  | Model_Not_Exposed
  | Unsupported_Pool_Strategy pool_strategy
  | Wait_Aborted

record selection_input =
  in_pool :: pool
  in_accounts :: "account list"
  in_model :: string
  in_modelCooldownKey :: "string option"
  in_skipAccountModelCatalog :: bool
  in_sessionId :: "string option"
  in_excludedAccountIds :: "string list"
  in_providers :: "provider list option"
  in_requiredCapabilities :: "capability list option"

text \<open>A release closure: what it captured, and its \<^verbatim>\<open>released\<close> flag.\<close>

record lease =
  ls_stickyKey :: "string option"
  ls_accountId :: string
  ls_released :: bool

record selection =
  sel_account :: account
  sel_healthRevision :: nat
  sel_resetEpoch :: nat
  sel_lease :: lease

record smooth_state =
  ss_configuration :: "(string, real) js_map"
  ss_current :: "string \<rightharpoonup> real"

record capacity_waiter =
  cw_id :: nat
  cw_input :: selection_input
  cw_accountIds :: "string list"
  cw_poolId :: string
  cw_deadlineAt :: real
  cw_signal :: "nat option"
  cw_timeoutMs :: real
  cw_originalIds :: "string list"

text \<open>A settled promise: its waiter, and what it was resolved or rejected with.\<close>

type_synonym settlement = "nat \<times> (scheduler_error + selection)"

record scheduler =
  sd_active :: "string \<rightharpoonup> nat"
  sd_roundRobinOffsets :: "string \<rightharpoonup> nat"
  sd_smoothWeighted :: "string \<rightharpoonup> smooth_state"
  sd_sticky :: sticky_cache
  sd_sessions :: active_sessions
  sd_health :: health_state
  sd_waiters :: "(nat, capacity_waiter) js_map"
  sd_waiterCounts :: "string \<rightharpoonup> nat"
  sd_nextWaiterId :: nat
  sd_maxPending :: nat
  sd_maxPendingPerPool :: nat
  sd_draws :: nat
  sd_settled :: "settlement list"

definition draw :: "env \<Rightarrow> scheduler \<Rightarrow> real \<times> scheduler" where
  "draw e s = (env_random e (sd_draws s), s\<lparr>sd_draws := sd_draws s + 1\<rparr>)"

section \<open>Small helpers\<close>

definition isSupportedPoolStrategy :: "pool_strategy \<Rightarrow> bool" where
  "isSupportedPoolStrategy st \<longleftrightarrow>
     st = Priority \<or> st = Balanced \<or> st = Autobalanced \<or> st = Round_Robin
     \<or> st = Weighted_Round_Robin \<or> st = Weighted_Random"

definition isRelayAggregate :: "pool \<Rightarrow> bool" where
  "isRelayAggregate p \<longleftrightarrow> pool_kind p = Relay_Aggregate"

definition finiteNumber :: "js_number option \<Rightarrow> real \<Rightarrow> real" where
  "finiteNumber v fallback = (case v of Some (Finite x) \<Rightarrow> x | _ \<Rightarrow> fallback)"

definition positiveFiniteNumber :: "js_number option \<Rightarrow> real \<Rightarrow> real" where
  "positiveFiniteNumber v fallback =
     (case v of Some (Finite x) \<Rightarrow> if x > 0 then x else fallback | _ \<Rightarrow> fallback)"

definition active_slots :: "scheduler \<Rightarrow> string \<Rightarrow> nat" where
  "active_slots s accountId = (case sd_active s accountId of None \<Rightarrow> 0 | Some n \<Rightarrow> n)"

definition inFlight :: "scheduler \<Rightarrow> account \<Rightarrow> real" where
  "inFlight s a = max 0 (acc_inFlight a) + real (active_slots s (acc_id a))"

definition performance_of :: "scheduler \<Rightarrow> string \<Rightarrow> performance_state option" where
  "performance_of s accountId = hs_performance (sd_health s) accountId"

definition concurrencyLimit :: "scheduler \<Rightarrow> account \<Rightarrow> bool \<Rightarrow> real" where
  "concurrencyLimit s a adaptive =
     (let configured = routeAccountConcurrencyLimit (acc_maxConcurrency a)
      in if \<not> adaptive then configured
         else max 1 (min configured
                (routeAccountConcurrencyLimit
                  (Finite (case had (performance_of s (acc_id a)) pf_dynamicConcurrency None of
                             None \<Rightarrow> configured | Some d \<Rightarrow> d)))))"

definition hasPerformanceSample :: "scheduler \<Rightarrow> string \<Rightarrow> bool" where
  "hasPerformanceSample s accountId \<longleftrightarrow>
     had (performance_of s accountId) pf_performanceSampleCount 0 > 0"

text \<open>\<^verbatim>\<open>selectMinimum\<close>: the first candidate of least score, ties broken by the comparator.\<close>

definition selectMinimum ::
    "account list \<Rightarrow> (account \<Rightarrow> real) \<Rightarrow> (account \<Rightarrow> account \<Rightarrow> real) \<Rightarrow> account" where
  "selectMinimum candidates score tieBreak =
     fst (foldl (\<lambda>(selected, selectedScore) candidate.
            let candidateScore = score candidate
            in if candidateScore < selectedScore
                  \<or> candidateScore = selectedScore \<and> tieBreak candidate selected < 0
               then (candidate, candidateScore) else (selected, selectedScore))
          (hd candidates, score (hd candidates)) (tl candidates))"

section \<open>Relay aggregates\<close>

definition js_map_of :: "('k \<times> 'v) list \<Rightarrow> ('k, 'v) js_map" where
  "js_map_of entries = foldl (\<lambda>m (k, v). map_set m k v) [] entries"

record aggregate_index =
  ix_orderedAccountIds :: "string list"
  ix_orderByAccountId :: "(string, nat) js_map"
  ix_weightByAccountId :: "(string, real) js_map"
  ix_smoothConfiguration :: "(string, real) js_map"

text \<open>A member with its position in the pool and its effective order.\<close>

definition positioned_members :: "pool \<Rightarrow> (pool_member \<times> nat \<times> real) list" where
  "positioned_members p =
     map (\<lambda>(position, m). (m, position, finiteNumber (mem_order m) (real position)))
       (enumerate 0 (pool_members p))"

definition member_before ::
    "(string \<Rightarrow> string \<Rightarrow> int) \<Rightarrow> pool_member \<times> nat \<times> real \<Rightarrow> pool_member \<times> nat \<times> real \<Rightarrow> bool" where
  "member_before compare = (\<lambda>(ma, pa, oa) (mb, pb, ob).
     oa < ob \<or> oa = ob \<and> (pa < pb \<or> pa = pb \<and> compare (mem_accountId ma) (mem_accountId mb) < 0))"

definition getAggregatePoolIndex :: "env \<Rightarrow> pool \<Rightarrow> aggregate_index" where
  "getAggregatePoolIndex e p =
     (let orderedMembers = map fst (sort_by (member_before (env_compare e)) (positioned_members p));
          orderedAccountIds = map mem_accountId orderedMembers
      in \<lparr>ix_orderedAccountIds = orderedAccountIds,
          ix_orderByAccountId = js_map_of (map (\<lambda>(rank, i). (i, rank)) (enumerate 0 orderedAccountIds)),
          ix_weightByAccountId =
            js_map_of (map (\<lambda>m. (mem_accountId m, positiveFiniteNumber (mem_weight m) 1)) (pool_members p)),
          ix_smoothConfiguration =
            js_map_of (map (\<lambda>m. (mem_accountId m, positiveFiniteNumber (mem_weight m) 1))
              (filter mem_enabled orderedMembers))\<rparr>)"

definition orderAggregateCandidates :: "env \<Rightarrow> aggregate_index \<Rightarrow> account list \<Rightarrow> account list" where
  "orderAggregateCandidates e index candidates =
     (let candidatesById = js_map_of (map (\<lambda>a. (acc_id a, a)) candidates);
          known = List.map_filter (map_get candidatesById) (ix_orderedAccountIds index);
          unknown = filter (\<lambda>a. map_get (ix_orderByAccountId index) (acc_id a) = None) candidates
      in known @ sort_by (\<lambda>a b. env_compare e (acc_id a) (acc_id b) < 0) unknown)"

text \<open>Two maps with the same entries in the same order.\<close>

fun orderedMapEqual :: "(string, real) js_map \<Rightarrow> (string, real) js_map \<Rightarrow> bool" where
  "orderedMapEqual [] [] = True"
| "orderedMapEqual (a # left) (b # right) =
     (fst a = fst b \<and> snd a = snd b \<and> orderedMapEqual left right)"
| "orderedMapEqual left right = False"

fun configurationMatchesAccounts :: "(string, real) js_map \<Rightarrow> account list \<Rightarrow> real \<Rightarrow> bool" where
  "configurationMatchesAccounts [] [] now = True"
| "configurationMatchesAccounts (entry # configuration) (a # accounts) now =
     (fst entry = acc_id a \<and> snd entry = effectiveWeight a now
      \<and> configurationMatchesAccounts configuration accounts now)"
| "configurationMatchesAccounts configuration accounts now = False"

section \<open>Smooth weighted round robin\<close>

text \<open>
  One round over the ordered candidates: every current value grows by the weight, the
  first greatest one is selected and pays the total. The accumulator is the total weight,
  the selected account with its value (\<^const>\<open>None\<close> for the initial \<^verbatim>\<open>NEGATIVE_INFINITY\<close>), and
  the current values.
\<close>

definition smooth_step ::
  "(account \<Rightarrow> real) \<Rightarrow> real \<times> (account \<times> real) option \<times> (string \<rightharpoonup> real) \<Rightarrow> account
   \<Rightarrow> real \<times> (account \<times> real) option \<times> (string \<rightharpoonup> real)" where
  "smooth_step weight = (\<lambda>(totalWeight, selected, current) a.
     let w = weight a;
         value = (case current (acc_id a) of None \<Rightarrow> 0 | Some c \<Rightarrow> c) + w
     in (totalWeight + w,
         (case selected of
            None \<Rightarrow> Some (a, value)
          | Some (_, best) \<Rightarrow> if value > best then Some (a, value) else selected),
         current(acc_id a \<mapsto> value)))"

definition smooth_round ::
    "(account \<Rightarrow> real) \<Rightarrow> account list \<Rightarrow> (string \<rightharpoonup> real) \<Rightarrow> account option \<times> (string \<rightharpoonup> real)" where
  "smooth_round weight ordered current =
     (case foldl (smooth_step weight) (0, None, current) ordered of
        (totalWeight, None, current') \<Rightarrow> (None, current')
      | (totalWeight, Some (selected, value), current') \<Rightarrow>
          (Some selected, current'(acc_id selected \<mapsto> value - totalWeight)))"

definition pickSmoothWeighted ::
  "env \<Rightarrow> pool \<Rightarrow> account list \<Rightarrow> account list \<Rightarrow> scheduler \<Rightarrow> account option \<times> scheduler" where
  "pickSmoothWeighted e p candidates configuredAccounts s =
     (let now = env_now e;
          index = (if isRelayAggregate p then Some (getAggregatePoolIndex e p) else None);
          ordered = (case index of
                       None \<Rightarrow> candidates | Some ix \<Rightarrow> orderAggregateCandidates e ix candidates);
          stored = sd_smoothWeighted s (pool_id p);
          configurationChanged =
            (case stored of
               None \<Rightarrow> True
             | Some st \<Rightarrow>
                 (case index of
                    Some ix \<Rightarrow> \<not> orderedMapEqual (ss_configuration st) (ix_smoothConfiguration ix)
                  | None \<Rightarrow> \<not> configurationMatchesAccounts (ss_configuration st) configuredAccounts now));
          fresh = \<lparr>ss_configuration =
                     (case index of
                        Some ix \<Rightarrow> ix_smoothConfiguration ix
                      | None \<Rightarrow> js_map_of (map (\<lambda>a. (acc_id a, effectiveWeight a now)) configuredAccounts)),
                   ss_current = Map.empty\<rparr>;
          state = (case stored of
                     None \<Rightarrow> fresh | Some st \<Rightarrow> if configurationChanged then fresh else st);
          weightFor = (\<lambda>a. case index of
                         Some ix \<Rightarrow>
                           (case map_get (ix_weightByAccountId ix) (acc_id a) of None \<Rightarrow> 1 | Some w \<Rightarrow> w)
                       | None \<Rightarrow> effectiveWeight a now);
          hasPositiveWeight = list_ex (\<lambda>a. weightFor a > 0) ordered;
          (selected, current) =
            smooth_round (\<lambda>a. if hasPositiveWeight then weightFor a else 1) ordered (ss_current state)
      in (selected,
          s\<lparr>sd_smoothWeighted := (sd_smoothWeighted s)(pool_id p \<mapsto> state\<lparr>ss_current := current\<rparr>)\<rparr>))"

section \<open>Automatic balance\<close>

definition AUTO_BALANCED_EXPLORATION_RATE :: real where "AUTO_BALANCED_EXPLORATION_RATE = 5 / 100"
definition CONCURRENT_STICKY_SESSION_PENALTY :: real where "CONCURRENT_STICKY_SESSION_PENALTY = 120"
definition STICKY_ESCAPE_MINIMUM_SAMPLES :: nat where "STICKY_ESCAPE_MINIMUM_SAMPLES = 3"
definition STICKY_ESCAPE_MINIMUM_DELTA_MS :: real where "STICKY_ESCAPE_MINIMUM_DELTA_MS = 1000"
definition STICKY_ESCAPE_RATIO :: real where "STICKY_ESCAPE_RATIO = 3 / 2"

definition autoBalancedCost :: "env \<Rightarrow> scheduler \<Rightarrow> account \<Rightarrow> real \<Rightarrow> string option \<Rightarrow> real" where
  "autoBalancedCost e s a unmeasuredPrior stickyKey =
     (let now = env_now e;
          utilization = inFlight s a / concurrencyLimit s a True;
          performanceEstimate =
            estimatedPerformanceCost (performance_of s (acc_id a)) unmeasuredPrior now
      in utilization * 1000
         + of_int (activeStickySessionCount (sd_sessions s) (acc_id a) stickyKey)
             * CONCURRENT_STICKY_SESSION_PENALTY
         + quotaPressure a now * 200
         + performanceEstimate * 10
         + acc_priority a)"

text \<open>The prior from the measured candidates.\<close>

definition measured_prior :: "env \<Rightarrow> scheduler \<Rightarrow> account list \<Rightarrow> real" where
  "measured_prior e s measured =
     conservativePerformancePrior
       (map (\<lambda>a. performanceCost (performance_of s (acc_id a)) (env_now e)) measured)"

text \<open>The loop that collects the candidates of least cost, up to a tolerance of 0.001.\<close>

definition best_step ::
  "(account \<Rightarrow> real) \<Rightarrow> real option \<times> account list \<Rightarrow> account \<Rightarrow> real option \<times> account list" where
  "best_step cost = (\<lambda>(minimumCost, best) a.
     let c = cost a
     in (case minimumCost of
           None \<Rightarrow> (Some c, [a])
         | Some m \<Rightarrow>
             if c < m - 1 / 1000 then (Some c, [a])
             else if \<bar>c - m\<bar> < 1 / 1000 then (minimumCost, best @ [a])
             else (minimumCost, best)))"

definition best_candidates :: "(account \<Rightarrow> real) \<Rightarrow> account list \<Rightarrow> account list" where
  "best_candidates cost candidates = snd (foldl (best_step cost) (None, []) candidates)"

text \<open>\<^verbatim>\<open>xs[Math.min(xs.length - 1, Math.floor(random * xs.length))]\<close>.\<close>

definition random_element :: "'a list \<Rightarrow> real \<Rightarrow> 'a" where
  "random_element xs r = xs ! min (length xs - 1) (nat \<lfloor>r * real (length xs)\<rfloor>)"

definition pickAutoBalanced ::
    "env \<Rightarrow> account list \<Rightarrow> string option \<Rightarrow> scheduler \<Rightarrow> account \<times> scheduler" where
  "pickAutoBalanced e candidates stickyKey s =
     (let unmeasured = filter (\<lambda>a. \<not> hasPerformanceSample s (acc_id a)) candidates;
          measured = filter (\<lambda>a. hasPerformanceSample s (acc_id a)) candidates;
          (explore, s1) =
            (if unmeasured \<noteq> [] \<and> measured \<noteq> [] then
               (let (r, t) = draw e s in (r < AUTO_BALANCED_EXPLORATION_RATE, t))
             else (False, s))
      in if explore then
           (let (r, s2) = draw e s1 in (random_element unmeasured r, s2))
         else
           let prior = measured_prior e s1 measured;
               best = best_candidates (\<lambda>a. autoBalancedCost e s1 a prior stickyKey) candidates
           in if length best > 1 then
                (let (r, s2) = draw e s1 in (random_element best r, s2))
              else (hd best, s1))"

definition shouldEscapeSticky :: "env \<Rightarrow> scheduler \<Rightarrow> account \<Rightarrow> account list \<Rightarrow> bool" where
  "shouldEscapeSticky e s selected candidates =
     (let now = env_now e
      in case (performance_of s (acc_id selected),
               stickyResponseMetric (performance_of s (acc_id selected))) of
           (Some selectedPerformance, Some selectedMetric) \<Rightarrow>
             if sm_sampleCount selectedMetric < STICKY_ESCAPE_MINIMUM_SAMPLES
                \<or> now - pf_updatedAt selectedPerformance \<ge> PERFORMANCE_STALE_AFTER_MS
             then False
             else
               (case foldl (\<lambda>fastest a.
                       if acc_id a = acc_id selected then fastest
                       else
                         (case (performance_of s (acc_id a),
                                stickyResponseMetric (performance_of s (acc_id a))) of
                            (Some performance, Some metric) \<Rightarrow>
                              if sm_kind metric \<noteq> sm_kind selectedMetric
                                 \<or> sm_sampleCount metric < STICKY_ESCAPE_MINIMUM_SAMPLES
                                 \<or> now - pf_updatedAt performance \<ge> PERFORMANCE_STALE_AFTER_MS
                              then fastest
                              else (case fastest of
                                      None \<Rightarrow> Some (sm_valueMs metric)
                                    | Some f \<Rightarrow>
                                        if sm_valueMs metric < f then Some (sm_valueMs metric)
                                        else fastest)
                          | _ \<Rightarrow> fastest)) None candidates of
                  None \<Rightarrow> False
                | Some fastestMs \<Rightarrow>
                    sm_valueMs selectedMetric
                      \<ge> max (fastestMs + STICKY_ESCAPE_MINIMUM_DELTA_MS) (fastestMs * STICKY_ESCAPE_RATIO))
         | _ \<Rightarrow> False)"

definition shouldSpreadConcurrentSticky ::
    "env \<Rightarrow> scheduler \<Rightarrow> string \<Rightarrow> account \<Rightarrow> account list \<Rightarrow> bool" where
  "shouldSpreadConcurrentSticky e s stickyKey selected candidates =
     (let load = (\<lambda>a. activeStickySessionCount (sd_sessions s) (acc_id a) (Some stickyKey));
          selectedSessionLoad = load selected
      in if selectedSessionLoad \<le> 0 then False
         else if \<not> list_ex (\<lambda>a. acc_id a \<noteq> acc_id selected \<and> load a < selectedSessionLoad) candidates
         then False
         else
           let measured = filter (\<lambda>a. hasPerformanceSample s (acc_id a)) candidates;
               prior = measured_prior e s measured;
               cost = (\<lambda>a. autoBalancedCost e s a prior (Some stickyKey));
               selectedCost = cost selected
           in list_ex (\<lambda>a. acc_id a \<noteq> acc_id selected \<and> load a < selectedSessionLoad
                           \<and> cost a < selectedCost) candidates)"

section \<open>The strategies\<close>

definition MAX_SAFE_INTEGER :: real where "MAX_SAFE_INTEGER = 9007199254740991"

definition balanced_tie :: "env \<Rightarrow> account \<Rightarrow> account \<Rightarrow> real" where
  "balanced_tie e a b =
     (let pressure = quotaPressure a (env_now e) - quotaPressure b (env_now e)
      in if pressure \<noteq> 0 then pressure
         else if acc_priority a - acc_priority b \<noteq> 0 then acc_priority a - acc_priority b
         else of_int (env_compare e (acc_id a) (acc_id b)))"

text \<open>The loop of weighted random choice: the first candidate that takes the threshold below 0.\<close>

fun weighted_choice :: "(account \<Rightarrow> real) \<Rightarrow> real \<Rightarrow> account list \<Rightarrow> account option" where
  "weighted_choice weight threshold [] = None"
| "weighted_choice weight threshold (a # candidates) =
     (let threshold' = threshold - weight a
      in if threshold' < 0 then Some a else weighted_choice weight threshold' candidates)"

definition pick ::
  "env \<Rightarrow> pool \<Rightarrow> account list \<Rightarrow> account list \<Rightarrow> string option \<Rightarrow> scheduler
   \<Rightarrow> (scheduler_error + account) \<times> scheduler" where
  "pick e p candidates configuredAccounts stickyKey s =
     (let now = env_now e;
          index = (if isRelayAggregate p then Some (getAggregatePoolIndex e p) else None)
      in case pool_strategy p of
           Priority \<Rightarrow>
             (Inr (selectMinimum candidates
                (\<lambda>a. case index of
                       Some ix \<Rightarrow>
                         (case map_get (ix_orderByAccountId ix) (acc_id a) of
                            None \<Rightarrow> MAX_SAFE_INTEGER | Some rank \<Rightarrow> real rank)
                     | None \<Rightarrow> effectivePriority a now)
                (\<lambda>a b. inFlight s a - inFlight s b)), s)
         | Balanced \<Rightarrow>
             (Inr (selectMinimum candidates
                (\<lambda>a. inFlight s a / concurrencyLimit s a False) (balanced_tie e)), s)
         | Autobalanced \<Rightarrow> (let (a, s') = pickAutoBalanced e candidates stickyKey s in (Inr a, s'))
         | Round_Robin \<Rightarrow>
             (let ordered = (case index of
                               Some ix \<Rightarrow> orderAggregateCandidates e ix candidates
                             | None \<Rightarrow> candidates);
                  offset = (case sd_roundRobinOffsets s (pool_id p) of None \<Rightarrow> 0 | Some n \<Rightarrow> n)
              in (Inr (ordered ! (offset mod length ordered)),
                  s\<lparr>sd_roundRobinOffsets :=
                      (sd_roundRobinOffsets s)(pool_id p \<mapsto> (offset + 1) mod length ordered)\<rparr>))
         | Weighted_Round_Robin \<Rightarrow>
             (case pickSmoothWeighted e p candidates configuredAccounts s of
                (None, s') \<Rightarrow> (Inl (No_Eligible_Account [] ''''), s')
              | (Some a, s') \<Rightarrow> (Inr a, s'))
         | Weighted_Random \<Rightarrow>
             (let total = foldl (\<lambda>sum a. sum + effectiveWeight a now) 0 candidates;
                  (r, s') = draw e s
              in if total \<le> 0 then (Inr (candidates ! nat \<lfloor>r * real (length candidates)\<rfloor>), s')
                 else (case weighted_choice (\<lambda>a. effectiveWeight a now) (r * total) candidates of
                         Some a \<Rightarrow> (Inr a, s')
                       | None \<Rightarrow> (Inr (last candidates), s')))
         | Other_Strategy x \<Rightarrow> (Inl (Unsupported_Pool_Strategy (Other_Strategy x)), s))"

end
