(* ===== verification/Scheduler.thy ===== *)
theory Scheduler
  imports Selection
begin

text \<open>
  The operations of \<^verbatim>\<open>PoolScheduler\<close> (\<^verbatim>\<open>src/main/gateway/scheduler.ts\<close>): selection with
  acquisition of a slot, release, the queue of requests waiting for capacity, failure
  bookkeeping, configuration changes and the full reset. A call that throws is \<^const>\<open>Inl\<close> of
  its error, next to the state it leaves: what it changed before the throw stays changed.

  A promise of \<^verbatim>\<open>selectAndAcquireWhenAvailable\<close> that is not settled at once is a waiter of the
  queue; settling it appends to \<open>sd_settled\<close>. A timer that fires and an abort event are the
  steps \<open>waiterTimeout\<close> and \<open>signalAborted\<close>.
\<close>

section \<open>Construction\<close>

definition positiveBound :: "js_number option \<Rightarrow> nat \<Rightarrow> nat" where
  "positiveBound v fallback =
     (case v of Some (Finite x) \<Rightarrow> if x > 0 then max 1 (nat \<lfloor>x\<rfloor>) else fallback | _ \<Rightarrow> fallback)"

record scheduler_options =
  so_maxStickyEntries :: "js_number option"
  so_maxStickyEntriesPerPool :: "js_number option"
  so_maxPendingAcquisitions :: "js_number option"
  so_maxPendingAcquisitionsPerPool :: "js_number option"

definition new_scheduler :: "scheduler_options \<Rightarrow> scheduler" where
  "new_scheduler opts =
     (let maxSticky = positiveBound (so_maxStickyEntries opts) 10000;
          maxPending = positiveBound (so_maxPendingAcquisitions opts) 1024
      in \<lparr>sd_active = Map.empty, sd_roundRobinOffsets = Map.empty, sd_smoothWeighted = Map.empty,
          sd_sticky = empty_sticky_cache maxSticky
            (min maxSticky (positiveBound (so_maxStickyEntriesPerPool opts) 2000)),
          sd_sessions = no_active_sessions, sd_health = empty_health,
          sd_waiters = [], sd_waiterCounts = Map.empty, sd_nextWaiterId = 1,
          sd_maxPending = maxPending,
          sd_maxPendingPerPool =
            min maxPending (positiveBound (so_maxPendingAcquisitionsPerPool opts) 256),
          sd_draws = 0, sd_settled = []\<rparr>)"

section \<open>Availability of an account\<close>

definition schedulerAvailable ::
  "real \<Rightarrow> account \<Rightarrow> quota_protection option \<Rightarrow> string option \<Rightarrow> scheduler \<Rightarrow> bool \<times> scheduler" where
  "schedulerAvailable now a poolProtection model s =
     (let (available, h) = isAvailable a poolProtection now model (inFlight s a) (sd_health s)
      in (available, s\<lparr>sd_health := h\<rparr>))"

definition hasCapacity :: "scheduler \<Rightarrow> bool \<Rightarrow> account \<Rightarrow> bool" where
  "hasCapacity s adaptive a =
     hasRouteAccountCapacity (Finite (inFlight s a)) (Finite (concurrencyLimit s a adaptive))"

definition isEligible ::
  "real \<Rightarrow> account \<Rightarrow> pool \<Rightarrow> bool \<Rightarrow> string option \<Rightarrow> scheduler \<Rightarrow> bool \<times> scheduler" where
  "isEligible now a p adaptiveConcurrency model s =
     (let (available, s') = schedulerAvailable now a (pool_quotaProtection p) model s
      in if \<not> available then (False, s')
         else (hasCapacity s' adaptiveConcurrency a, s'))"

section \<open>Acquiring a slot\<close>

definition acquireAccountSlot :: "string \<Rightarrow> scheduler \<Rightarrow> scheduler" where
  "acquireAccountSlot accountId s =
     s\<lparr>sd_active := (sd_active s)(accountId \<mapsto> active_slots s accountId + 1)\<rparr>"

definition tryAcquireAccount ::
    "env \<Rightarrow> account \<Rightarrow> pool \<Rightarrow> scheduler \<Rightarrow> (scheduler_error + lease option) \<times> scheduler" where
  "tryAcquireAccount e a p s =
     (if \<not> isSupportedPoolStrategy (pool_strategy p) then
        (Inl (Unsupported_Pool_Strategy (pool_strategy p)), s)
      else
        let (eligible, s1) = isEligible (env_now e) a p (pool_strategy p = Autobalanced) None s
        in if \<not> eligible then (Inr None, s1)
           else (Inr (Some \<lparr>ls_stickyKey = None, ls_accountId = acc_id a, ls_released = False\<rparr>),
                 acquireAccountSlot (acc_id a) s1))"

section \<open>Selection\<close>

definition cooldown_key :: "selection_input \<Rightarrow> string" where
  "cooldown_key i = (case in_modelCooldownKey i of None \<Rightarrow> in_model i | Some k \<Rightarrow> k)"

definition source_eligibility :: "selection_input \<Rightarrow> eligibility_result" where
  "source_eligibility i =
     evaluateSourceEligibility
       \<lparr>ei_accounts = in_accounts i,
        ei_providers = (case in_providers i of None \<Rightarrow> [] | Some ps \<Rightarrow> ps),
        ei_model = (if in_skipAccountModelCatalog i then None else Some (in_model i)),
        ei_poolModelPolicy = Some (pool_modelPolicy (in_pool i)),
        ei_poolModelAllowlist = Some (pool_modelAllowlist (in_pool i)),
        ei_requiredCapabilities = in_requiredCapabilities i,
        ei_requireProvider = in_providers i \<noteq> None\<rparr>"

definition runtimeEligible :: "env \<Rightarrow> selection_input \<Rightarrow> scheduler \<Rightarrow> account \<Rightarrow> bool \<times> scheduler" where
  "runtimeEligible e i s a =
     (if acc_id a \<in> set (in_excludedAccountIds i) then (False, s)
      else isEligible (env_now e) a (in_pool i) (pool_strategy (in_pool i) = Autobalanced)
             (Some (cooldown_key i)) s)"

text \<open>The verified tier, and the unknown tier only when no verified member is runnable.\<close>

definition runnable_candidates ::
    "env \<Rightarrow> selection_input \<Rightarrow> eligibility_result \<Rightarrow> scheduler \<Rightarrow> account list \<times> scheduler" where
  "runnable_candidates e i r s =
     (let (verified, s1) = filter_state (runtimeEligible e i) s (er_verified r)
      in if verified \<noteq> [] then (verified, s1)
         else filter_state (runtimeEligible e i) s1 (er_unknown r))"

text \<open>
  What the session's assignment and avoidance decide before the strategy is asked: the
  account kept, the account just escaped from, the account avoided, and the cache after the
  LRU touches and deletions.
\<close>

definition resolve_sticky ::
  "env \<Rightarrow> pool \<Rightarrow> account list \<Rightarrow> string \<Rightarrow> scheduler
   \<Rightarrow> account option \<times> string option \<times> string option \<times> scheduler" where
  "resolve_sticky e p candidates key s =
     (let now = env_now e;
          c = sd_sticky s;
          (failedId, c1) =
            (case map_get (sc_avoidance c) key of
               None \<Rightarrow> (None, c)
             | Some avoidance \<Rightarrow>
                 if se_expiresAt avoidance > now then
                   (if list_ex (\<lambda>a. acc_id a \<noteq> se_accountId avoidance) candidates
                    then Some (se_accountId avoidance) else None,
                    touchStickyLru key (se_poolId avoidance) Avoidance c)
                 else (None, deleteStickyFailureAvoidance key c))
      in case map_get (sc_sticky c1) key of
           None \<Rightarrow> (None, None, failedId, s\<lparr>sd_sticky := c1\<rparr>)
         | Some assignment \<Rightarrow>
             if se_expiresAt assignment > now then
               (let c2 = touchStickyLru key (se_poolId assignment) Assignment c1;
                    kept = find (\<lambda>a. acc_id a = se_accountId assignment
                                     \<and> Some (acc_id a) \<noteq> failedId) candidates
                in case kept of
                     None \<Rightarrow> (None, None, failedId, s\<lparr>sd_sticky := c2\<rparr>)
                   | Some a \<Rightarrow>
                       if pool_strategy p = Autobalanced
                          \<and> (shouldEscapeSticky e s a candidates
                             \<or> shouldSpreadConcurrentSticky e s key a candidates)
                       then (None, Some (acc_id a), failedId, s\<lparr>sd_sticky := deleteSticky key c2\<rparr>)
                       else (Some a, None, failedId, s\<lparr>sd_sticky := c2\<rparr>))
             else (None, None, failedId, s\<lparr>sd_sticky := deleteSticky key c1\<rparr>))"

definition preferred_candidates ::
    "account list \<Rightarrow> string option \<Rightarrow> string option \<Rightarrow> account list" where
  "preferred_candidates candidates escapedId failedId =
     (let preferred =
            (if truthy escapedId \<noteq> None \<or> truthy failedId \<noteq> None
             then filter (\<lambda>a. Some (acc_id a) \<noteq> escapedId \<and> Some (acc_id a) \<noteq> failedId) candidates
             else candidates)
      in if preferred \<noteq> [] then preferred else candidates)"

text \<open>What happens once the account is chosen.\<close>

definition commit_selection ::
    "env \<Rightarrow> pool \<Rightarrow> string option \<Rightarrow> account \<Rightarrow> scheduler \<Rightarrow> selection \<times> scheduler" where
  "commit_selection e p stickyKey selected s =
     (let now = env_now e;
          s1 = acquireAccountSlot (acc_id selected) s;
          s2 = (case stickyKey of
                  None \<Rightarrow> s1
                | Some key \<Rightarrow>
                    s1\<lparr>sd_sessions := acquireActiveStickySession key (acc_id selected) (sd_sessions s1),
                       sd_sticky :=
                         setSticky now key
                           \<lparr>se_poolId = pool_id p, se_accountId = acc_id selected,
                            se_expiresAt = now + boundedStickyTtlMs (pool_stickyTtlMinutes p)\<rparr>
                           (deleteStickyFailureAvoidance key (sd_sticky s1))\<rparr>)
      in (\<lparr>sel_account = selected,
           sel_healthRevision = getHealthRevision (sd_health s2) (acc_id selected),
           sel_resetEpoch = getResetEpoch (sd_health s2) (acc_id selected),
           sel_lease = \<lparr>ls_stickyKey = stickyKey, ls_accountId = acc_id selected,
                        ls_released = False\<rparr>\<rparr>, s2))"

definition choose_and_commit ::
  "env \<Rightarrow> selection_input \<Rightarrow> account list \<Rightarrow> scheduler
   \<Rightarrow> (scheduler_error + selection) \<times> scheduler" where
  "choose_and_commit e i candidates s =
     (let p = in_pool i;
          stickyKey = (if pool_stickySessions p then boundedStickyKey (pool_id p) (in_sessionId i)
                       else None);
          (kept, escapedId, failedId, s1) =
            (case stickyKey of
               None \<Rightarrow> (None, None, None, s)
             | Some key \<Rightarrow> resolve_sticky e p candidates key s);
          (chosen, s2) =
            (case kept of
               Some a \<Rightarrow> (Inr a, s1)
             | None \<Rightarrow> pick e p (preferred_candidates candidates escapedId failedId)
                         (in_accounts i) stickyKey s1)
      in case chosen of
           Inl err \<Rightarrow> (Inl err, s2)
         | Inr a \<Rightarrow> (let (sel, s3) = commit_selection e p stickyKey a s2 in (Inr sel, s3)))"

definition no_eligible_message :: string where
  "no_eligible_message = ''No eligible account is available for this request''"

definition selectAndAcquire ::
    "env \<Rightarrow> selection_input \<Rightarrow> scheduler \<Rightarrow> (scheduler_error + selection) \<times> scheduler" where
  "selectAndAcquire e i s =
     (let p = in_pool i in
      if \<not> isSupportedPoolStrategy (pool_strategy p) then
        (Inl (Unsupported_Pool_Strategy (pool_strategy p)), s)
      else
        let s1 = s\<lparr>sd_sticky := cleanupExpiredSticky (env_now e) (sd_sticky s)\<rparr>;
            s2 = (if pool_strategy p \<noteq> Weighted_Round_Robin
                  then s1\<lparr>sd_smoothWeighted := (sd_smoothWeighted s1)(pool_id p := None)\<rparr> else s1)
        in if pool_modelPolicy p = Selected_Models \<and> in_model i \<notin> set (pool_modelAllowlist p) then
             (Inl Model_Not_Exposed, s2)
           else
             let r = source_eligibility i
             in if er_modelEligible r = [] then (Inl Model_Not_Exposed, s2)
                else
                  let (candidates, s3) = runnable_candidates e i r s2
                  in if candidates = [] then
                       (Inl (No_Eligible_Account
                          (map acc_id (er_verified r) @ map acc_id (er_unknown r))
                          no_eligible_message), s3)
                     else choose_and_commit e i candidates s3)"

section \<open>Waiting for capacity\<close>

definition capacityBlockedAccountIds ::
    "env \<Rightarrow> selection_input \<Rightarrow> scheduler \<Rightarrow> string list \<times> scheduler" where
  "capacityBlockedAccountIds e i s =
     (let r = source_eligibility i;
          adaptive = (pool_strategy (in_pool i) = Autobalanced);
          (blocked, s') =
            filter_state (\<lambda>s a.
              let (available, t) =
                    (if acc_id a \<in> set (in_excludedAccountIds i) then (False, s)
                     else schedulerAvailable (env_now e) a (pool_quotaProtection (in_pool i))
                            (Some (cooldown_key i)) s)
              in (available \<and> \<not> hasCapacity t adaptive a, t)) s (er_verified r @ er_unknown r)
      in (map acc_id blocked, s'))"

definition removeCapacityWaiter :: "capacity_waiter \<Rightarrow> scheduler \<Rightarrow> scheduler" where
  "removeCapacityWaiter w s =
     (if map_get (sd_waiters s) (cw_id w) = None then s
      else
        let remaining = (case sd_waiterCounts s (cw_poolId w) of None \<Rightarrow> 0 | Some n \<Rightarrow> n) - 1
        in s\<lparr>sd_waiters := map_delete (sd_waiters s) (cw_id w),
             sd_waiterCounts :=
               (if remaining = 0 then (sd_waiterCounts s)(cw_poolId w := None)
                else (sd_waiterCounts s)(cw_poolId w \<mapsto> remaining))\<rparr>)"

definition settle :: "capacity_waiter \<Rightarrow> (scheduler_error + selection) \<Rightarrow> scheduler \<Rightarrow> scheduler" where
  "settle w r s = s\<lparr>sd_settled := sd_settled s @ [(cw_id w, r)]\<rparr>"

definition rejectCapacityWaiter :: "capacity_waiter \<Rightarrow> scheduler_error \<Rightarrow> scheduler \<Rightarrow> scheduler" where
  "rejectCapacityWaiter w err s =
     (if map_get (sd_waiters s) (cw_id w) = None then s
      else settle w (Inl err) (removeCapacityWaiter w s))"

definition wait_deadline_message :: string where
  "wait_deadline_message = ''No account capacity became available before the scheduler wait deadline''"

definition queue_full_message :: string where
  "queue_full_message = ''The scheduler capacity wait queue is full''"

definition reset_message :: string where
  "reset_message = ''The scheduler was reset while waiting for account capacity''"

text \<open>
  The loop of \<^verbatim>\<open>fulfillOneCapacityWaiter\<close> over the waiters in insertion order; the callbacks
  of the loop delete at most the waiter it is at.
\<close>

fun fulfill_loop :: "env \<Rightarrow> string \<Rightarrow> capacity_waiter list \<Rightarrow> scheduler \<Rightarrow> bool \<times> scheduler" where
  "fulfill_loop e accountId [] s = (False, s)"
| "fulfill_loop e accountId (w # ws) s =
     (if accountId \<notin> set (cw_accountIds w) then fulfill_loop e accountId ws s
      else if (case cw_signal w of None \<Rightarrow> False | Some signal \<Rightarrow> env_aborted e signal) then
        fulfill_loop e accountId ws (rejectCapacityWaiter w Wait_Aborted s)
      else if cw_deadlineAt w \<le> env_now e then
        fulfill_loop e accountId ws
          (rejectCapacityWaiter w (No_Eligible_Account (cw_accountIds w) wait_deadline_message) s)
      else
        (case selectAndAcquire e (cw_input w) s of
           (Inr sel, s1) \<Rightarrow> (True, settle w (Inr sel) (removeCapacityWaiter w s1))
         | (Inl err, s1) \<Rightarrow>
             (case err of
                No_Eligible_Account _ _ \<Rightarrow>
                  (let (accountIds, s2) = capacityBlockedAccountIds e (cw_input w) s1
                   in if accountIds \<noteq> [] then
                        fulfill_loop e accountId ws
                          (s2\<lparr>sd_waiters := map_set (sd_waiters s2) (cw_id w)
                                              (w\<lparr>cw_accountIds := accountIds\<rparr>)\<rparr>)
                      else fulfill_loop e accountId ws (rejectCapacityWaiter w err s2))
              | _ \<Rightarrow> fulfill_loop e accountId ws (rejectCapacityWaiter w err s1))))"

definition fulfillOneCapacityWaiter :: "env \<Rightarrow> string \<Rightarrow> scheduler \<Rightarrow> bool \<times> scheduler" where
  "fulfillOneCapacityWaiter e accountId s = fulfill_loop e accountId (map snd (sd_waiters s)) s"

definition releaseAccountSlot :: "env \<Rightarrow> string \<Rightarrow> scheduler \<Rightarrow> scheduler" where
  "releaseAccountSlot e accountId s =
     (let remaining = active_slots s accountId - 1;
          s1 = s\<lparr>sd_active := (if remaining = 0 then (sd_active s)(accountId := None)
                              else (sd_active s)(accountId \<mapsto> remaining))\<rparr>
      in snd (fulfillOneCapacityWaiter e accountId s1))"

text \<open>Calling a release closure: the closure with its flag, and the state.\<close>

definition release :: "env \<Rightarrow> lease \<Rightarrow> scheduler \<Rightarrow> lease \<times> scheduler" where
  "release e l s =
     (if ls_released l then (l, s)
      else
        let s1 = (case ls_stickyKey l of
                    None \<Rightarrow> s
                  | Some key \<Rightarrow>
                      s\<lparr>sd_sessions := releaseActiveStickySession key (ls_accountId l) (sd_sessions s)\<rparr>)
        in (l\<lparr>ls_released := True\<rparr>, releaseAccountSlot e (ls_accountId l) s1))"

text \<open>The handoff check after registration: until one account id gives a slot.\<close>

fun handoff :: "env \<Rightarrow> string list \<Rightarrow> scheduler \<Rightarrow> scheduler" where
  "handoff e [] s = s"
| "handoff e (i # ids) s =
     (let (fulfilled, s') = fulfillOneCapacityWaiter e i s
      in if fulfilled then s' else handoff e ids s')"

datatype wait_outcome = Settled "scheduler_error + selection" | Waiting nat

definition enqueueCapacityWaiter ::
  "env \<Rightarrow> selection_input \<Rightarrow> string list \<Rightarrow> real \<Rightarrow> nat option \<Rightarrow> string list \<Rightarrow> scheduler
   \<Rightarrow> wait_outcome \<times> scheduler" where
  "enqueueCapacityWaiter e i accountIds deadlineAt signal originalIds s =
     (let poolId = pool_id (in_pool i);
          poolCount = (case sd_waiterCounts s poolId of None \<Rightarrow> 0 | Some n \<Rightarrow> n)
      in if length (sd_waiters s) \<ge> sd_maxPending s \<or> poolCount \<ge> sd_maxPendingPerPool s then
           (Settled (Inl (No_Eligible_Account originalIds queue_full_message)), s)
         else
           let wid = sd_nextWaiterId s;
               w = \<lparr>cw_id = wid, cw_input = i, cw_accountIds = accountIds, cw_poolId = poolId,
                    cw_deadlineAt = deadlineAt, cw_signal = signal,
                    cw_timeoutMs = max 1 (deadlineAt - env_now e), cw_originalIds = originalIds\<rparr>;
               s1 = s\<lparr>sd_nextWaiterId := wid + 1,
                      sd_waiters := map_set (sd_waiters s) wid w,
                      sd_waiterCounts := (sd_waiterCounts s)(poolId \<mapsto> poolCount + 1)\<rparr>
           in (Waiting wid, handoff e accountIds s1))"

definition DEFAULT_SCHEDULER_WAIT_MS :: real where "DEFAULT_SCHEDULER_WAIT_MS = 5000"
definition MAX_SCHEDULER_WAIT_MS :: real where "MAX_SCHEDULER_WAIT_MS = 30000"

definition bounded_wait :: "js_number \<Rightarrow> real" where
  "bounded_wait maxWaitMs =
     min MAX_SCHEDULER_WAIT_MS
       (max 0 (case maxWaitMs of Finite x \<Rightarrow> js_floor x | NonFinite \<Rightarrow> DEFAULT_SCHEDULER_WAIT_MS))"

definition selectAndAcquireWhenAvailable ::
  "env \<Rightarrow> selection_input \<Rightarrow> nat option \<Rightarrow> js_number option \<Rightarrow> js_number \<Rightarrow> scheduler
   \<Rightarrow> wait_outcome \<times> scheduler" where
  "selectAndAcquireWhenAvailable e i signal deadlineAt maxWaitMs s =
     (if (case signal of None \<Rightarrow> False | Some signal \<Rightarrow> env_aborted e signal) then
        (Settled (Inl Wait_Aborted), s)
      else
        (case selectAndAcquire e i s of
           (Inl (No_Eligible_Account originalIds message), s1) \<Rightarrow>
             (let err = Inl (No_Eligible_Account originalIds message);
                  (waitable, s2) = capacityBlockedAccountIds e i s1
              in if waitable = [] then (Settled err, s2)
                 else
                   let boundedWaitMs = bounded_wait maxWaitMs;
                       latest = env_now e + boundedWaitMs;
                       waitDeadlineAt =
                         (case deadlineAt of Some (Finite d) \<Rightarrow> min d latest | _ \<Rightarrow> latest)
                   in if boundedWaitMs = 0 \<or> waitDeadlineAt \<le> env_now e then (Settled err, s2)
                      else enqueueCapacityWaiter e i waitable waitDeadlineAt signal originalIds s2)
         | (r, s1) \<Rightarrow> (Settled r, s1)))"

text \<open>The timer of a waiter, and an abort event with its listeners in registration order.\<close>

definition waiterTimeout :: "capacity_waiter \<Rightarrow> scheduler \<Rightarrow> scheduler" where
  "waiterTimeout w s =
     rejectCapacityWaiter w (No_Eligible_Account (cw_originalIds w) wait_deadline_message) s"

definition signalAborted :: "nat \<Rightarrow> scheduler \<Rightarrow> scheduler" where
  "signalAborted signal s =
     foldl (\<lambda>s w. rejectCapacityWaiter w Wait_Aborted s) s
       (filter (\<lambda>w. cw_signal w = Some signal) (map snd (sd_waiters s)))"

section \<open>Alternatives to a failed account\<close>

definition hasUsableAlternative ::
  "env \<Rightarrow> account list \<Rightarrow> string \<Rightarrow> string \<Rightarrow> pool option \<Rightarrow> provider list option
   \<Rightarrow> capability list \<Rightarrow> string list \<Rightarrow> bool \<Rightarrow> scheduler \<Rightarrow> bool \<times> scheduler" where
  "hasUsableAlternative e accounts model accountId p providers requiredCapabilities
      excludedAccountIds skipAccountModelCatalog s =
     (let excluded = accountId # excludedAccountIds;
          r = evaluateSourceEligibility
                \<lparr>ei_accounts = filter (\<lambda>a. acc_id a \<notin> set excluded) accounts,
                 ei_providers = (case providers of None \<Rightarrow> [] | Some ps \<Rightarrow> ps),
                 ei_model = (if skipAccountModelCatalog then None else Some model),
                 ei_poolModelPolicy = map_option pool_modelPolicy p,
                 ei_poolModelAllowlist = map_option pool_modelAllowlist p,
                 ei_requiredCapabilities = Some requiredCapabilities,
                 ei_requireProvider = providers \<noteq> None\<rparr>;
          protection = (case p of None \<Rightarrow> None | Some p \<Rightarrow> pool_quotaProtection p);
          available = (\<lambda>s a. schedulerAvailable (env_now e) a protection (Some model) s);
          (verifiedAvailable, s1) = some_state available s (er_verified r)
      in if verifiedAvailable then (True, s1) else some_state available s1 (er_unknown r))"

section \<open>Outcomes\<close>

definition schedulerRecordStickyFailure ::
    "env \<Rightarrow> string \<Rightarrow> string option \<Rightarrow> string \<Rightarrow> scheduler \<Rightarrow> bool \<times> scheduler" where
  "schedulerRecordStickyFailure e poolId sessionId accountId s =
     (let (dropped, c) = recordStickyFailure (env_now e) poolId sessionId accountId (sd_sticky s)
      in (dropped, s\<lparr>sd_sticky := c\<rparr>))"

definition schedulerRecordFailure ::
    "env \<Rightarrow> string \<Rightarrow> failure_options \<Rightarrow> scheduler \<Rightarrow> outcome_result \<times> scheduler" where
  "schedulerRecordFailure e accountId options s =
     (let (r, c, h) = recordFailure (env_now e) accountId options (sd_sticky s, sd_health s)
      in (r, s\<lparr>sd_sticky := c, sd_health := h\<rparr>))"

text \<open>The operations that only touch health: each is \<open>f\<close> on that part of the state.\<close>

definition on_health :: "(health_state \<Rightarrow> 'r \<times> health_state) \<Rightarrow> scheduler \<Rightarrow> 'r \<times> scheduler" where
  "on_health f s = (let (r, h) = f (sd_health s) in (r, s\<lparr>sd_health := h\<rparr>))"

section \<open>Configuration changes and reset\<close>

definition hydrate :: "env \<Rightarrow> account list \<Rightarrow> pool list option \<Rightarrow> scheduler \<Rightarrow> scheduler" where
  "hydrate e accounts pools s =
     (let s1 = (case pools of
                  None \<Rightarrow> s
                | Some ps \<Rightarrow>
                    let known = set (map pool_id ps)
                    in s\<lparr>sd_roundRobinOffsets :=
                           (\<lambda>i. if i \<in> known then sd_roundRobinOffsets s i else None),
                         sd_smoothWeighted :=
                           (\<lambda>i. if i \<in> known then sd_smoothWeighted s i else None)\<rparr>)
      in s1\<lparr>sd_health := hydrate_health (env_now e) accounts (sd_health s1)\<rparr>)"

definition clear :: "scheduler \<Rightarrow> scheduler" where
  "clear s =
     (let s1 = foldl (\<lambda>s w. rejectCapacityWaiter w
                             (No_Eligible_Account (cw_accountIds w) reset_message) s)
                 s (map snd (sd_waiters s))
      in s1\<lparr>sd_active := Map.empty, sd_roundRobinOffsets := Map.empty,
            sd_smoothWeighted := Map.empty, sd_sticky := clearSticky (sd_sticky s1),
            sd_sessions := no_active_sessions,
            sd_health := clear_health (\<lambda>i. sd_active s1 i \<noteq> None) (sd_health s1)\<rparr>)"

section \<open>Catalogue checks of the module\<close>

definition accountAllowsModel :: "account \<Rightarrow> string \<Rightarrow> bool" where
  "accountAllowsModel a model =
     (if acc_modelPolicy a = Selected_Models then model \<in> set (acc_modelAllowlist a)
      else if acc_modelsRefreshedAt a \<noteq> None then model \<in> set (acc_availableModels a)
      else True)"

definition poolAllowsModel :: "pool \<Rightarrow> account list \<Rightarrow> string \<Rightarrow> bool" where
  "poolAllowsModel p accounts model =
     (if pool_modelPolicy p = Selected_Models \<and> model \<notin> set (pool_modelAllowlist p) then False
      else list_ex (\<lambda>a. accountAllowsModel a model) accounts)"

end
