(* ===== verification/Source_Protocols.thy ===== *)
theory Source_Protocols
  imports Domain_Types
begin

text \<open>
  Which accounts may share a pool: the source family of a provider kind
  (\<^verbatim>\<open>src/shared/source-family.ts\<close>), the verified Web WM capability
  (\<^verbatim>\<open>src/shared/wm-routing.ts\<close>) and the logical protocol under which an account is pooled
  (\<^verbatim>\<open>src/shared/pool-protocol.ts\<close>).
\<close>

section \<open>Source families\<close>

datatype source_family = F_openai | F_deepseek | F_grok | F_anthropic | F_google | F_kiro | F_custom

fun providerSourceFamily :: "provider_kind \<Rightarrow> source_family" where
  "providerSourceFamily K_openai = F_openai"
| "providerSourceFamily K_openai_compatible = F_openai"
| "providerSourceFamily K_deepseek = F_deepseek"
| "providerSourceFamily K_deepseek_compatible = F_deepseek"
| "providerSourceFamily K_xai = F_grok"
| "providerSourceFamily K_xai_compatible = F_grok"
| "providerSourceFamily K_anthropic = F_anthropic"
| "providerSourceFamily K_anthropic_compatible = F_anthropic"
| "providerSourceFamily K_kiro_compatible = F_kiro"
| "providerSourceFamily K_google = F_google"
| "providerSourceFamily K_custom = F_custom"

section \<open>Web WM capability\<close>

definition GPT_5_6_SOL_WM_MODEL :: string where
  "GPT_5_6_SOL_WM_MODEL = ''gpt-5.6-sol-wm''"

definition CHATGPT_WEB_WM_PROTOCOL_REVISION :: string where
  "CHATGPT_WEB_WM_PROTOCOL_REVISION = ''chatgpt-web-wm-v2''"

fun finite_positive :: "js_number \<Rightarrow> bool" where
  "finite_positive (Finite x) \<longleftrightarrow> x > 0"
| "finite_positive NonFinite \<longleftrightarrow> False"

fun finite_nonnegative :: "js_number \<Rightarrow> bool" where
  "finite_nonnegative (Finite x) \<longleftrightarrow> x \<ge> 0"
| "finite_nonnegative NonFinite \<longleftrightarrow> False"

definition hasVerifiedChatGptWebWm :: "account \<Rightarrow> bool" where
  "hasVerifiedChatGptWebWm a =
     (acc_credentialType a = Some Chatgpt_Oauth \<and>
      (case acc_chatgptWebWm a of
         None \<Rightarrow> False
       | Some c \<Rightarrow>
           wm_version c = 2
           \<and> wm_protocolRevision c = CHATGPT_WEB_WM_PROTOCOL_REVISION
           \<and> wm_model c = GPT_5_6_SOL_WM_MODEL
           \<and> wm_catalogModel c = GPT_5_6_SOL_WM_MODEL
           \<and> wm_turnModel c = GPT_5_6_SOL_WM_MODEL
           \<and> js_trim (wm_workspacePlanType c) \<noteq> []
           \<and> (wm_workspaceStructure c = ''personal'' \<or> wm_workspaceStructure c = ''workspace'')
           \<and> finite_positive (wm_verifiedAt c)
           \<and> finite_nonnegative (wm_latencyMs c)))"

definition isChatGptWebWmPoolProtocol :: "pool_protocol \<Rightarrow> bool" where
  "isChatGptWebWmPoolProtocol p \<longleftrightarrow> p = Chatgpt_Web_Wm"

definition isChatGptWebWmPassthroughModel :: "string \<Rightarrow> bool" where
  "isChatGptWebWmPassthroughModel m \<longleftrightarrow> map ascii_lower (js_trim m) = ''gpt-5.6-luna''"

section \<open>Pool protocols\<close>

definition isChatGptWebWmAccountCandidate :: "account \<Rightarrow> provider option \<Rightarrow> bool" where
  "isChatGptWebWmAccountCandidate a p =
     (case p of
        None \<Rightarrow> False
      | Some p \<Rightarrow>
          prov_kind p = K_openai
          \<and> prov_protocol p = Openai_Responses
          \<and> prov_sourceType p = Oauth_System
          \<and> acc_credentialType a = Some Chatgpt_Oauth)"

definition accountPoolProtocol :: "account \<Rightarrow> provider \<Rightarrow> pool_protocol" where
  "accountPoolProtocol a p =
     (if acc_credentialType a = Some Grok_Oauth
         \<or> (acc_credentialType a = Some Api_Key \<and> providerSourceFamily (prov_kind p) = F_grok)
      then Grok
      else Wire (prov_protocol p))"

definition accountMatchesPoolProtocol :: "pool_protocol \<Rightarrow> account \<Rightarrow> provider option \<Rightarrow> bool" where
  "accountMatchesPoolProtocol proto a p =
     (case p of
        None \<Rightarrow> False
      | Some p \<Rightarrow>
          if prov_sourceType p = Relay then False
          else if proto = Chatgpt_Web_Wm then
            isChatGptWebWmAccountCandidate a (Some p) \<and> hasVerifiedChatGptWebWm a
          else if proto = Grok \<and> providerSourceFamily (prov_kind p) \<noteq> F_grok then False
          else if proto = Grok \<and> acc_credentialType a = Some Grok_Oauth then
            prov_kind p = K_xai \<and> prov_sourceType p = Oauth_System
          else if proto = Grok \<and> acc_credentialType a \<noteq> Some Api_Key then False
          else accountPoolProtocol a p = proto)"

definition isGrokPoolProtocol :: "pool_protocol \<Rightarrow> bool" where
  "isGrokPoolProtocol p \<longleftrightarrow> p = Grok"

lemma accountPoolProtocol_not_web_wm [simp]: "accountPoolProtocol a p \<noteq> Chatgpt_Web_Wm"
  by (simp add: accountPoolProtocol_def)

text \<open>
  A provider-owned account matches at most one ordinary pool protocol: the one under which
  it is pooled. Only the Web WM protocol is an additional admission.
\<close>

lemma accountMatchesPoolProtocol_unique:
  assumes "accountMatchesPoolProtocol proto a (Some p)" and "proto \<noteq> Chatgpt_Web_Wm"
  shows "proto = accountPoolProtocol a p"
  using assms
  by (auto simp: accountMatchesPoolProtocol_def accountPoolProtocol_def split: if_splits)

lemma accountMatchesPoolProtocol_not_relay:
  "accountMatchesPoolProtocol proto a (Some p) \<Longrightarrow> prov_sourceType p \<noteq> Relay"
  by (auto simp: accountMatchesPoolProtocol_def split: if_splits)

lemma accountMatchesPoolProtocol_None [simp]: "\<not> accountMatchesPoolProtocol proto a None"
  by (simp add: accountMatchesPoolProtocol_def)

lemma accountMatchesPoolProtocol_web_wm:
  "accountMatchesPoolProtocol Chatgpt_Web_Wm a (Some p) \<longleftrightarrow>
     isChatGptWebWmAccountCandidate a (Some p) \<and> hasVerifiedChatGptWebWm a"
  by (auto simp: accountMatchesPoolProtocol_def isChatGptWebWmAccountCandidate_def)

end
