(* ===== verification/Route_Sources.thy ===== *)
theory Route_Sources
  imports Source_Protocols Eligibility
begin

text \<open>
  \<^verbatim>\<open>src/shared/route-sources.ts\<close>: what a route may point at. A source id names a persisted
  pool or a provider with exactly one API-key account, never both; the members of a pool
  must agree on protocol and source family; and each client accepts only some sources.
\<close>

section \<open>Types\<close>

datatype route_source_kind = Source_Standard | Source_Relay_Aggregate | Source_Official_Api | Source_Relay

fun kind_of_pool :: "pool_kind \<Rightarrow> route_source_kind" where
  "kind_of_pool Standard = Source_Standard"
| "kind_of_pool Relay_Aggregate = Source_Relay_Aggregate"

record route_source_summary =
  rs_id :: string
  rs_name :: string
  rs_kind :: route_source_kind
  rs_protocol :: pool_protocol
  rs_accountCount :: nat

record resolved_route_source =
  res_summary :: route_source_summary
  res_pool :: pool
  res_accounts :: "account list"
  res_persistedPool :: "pool option"
  res_provider :: "provider option"

record collections =
  col_pools :: "pool list"
  col_providers :: "provider list"
  col_accounts :: "account list"

datatype compatibility_mode = Mode_Native | Mode_Translated | Mode_Kiro_Claude | Mode_Unsupported

record compatibility =
  cmp_eligible :: bool
  cmp_inboundProtocol :: protocol
  cmp_sourceProtocol :: "pool_protocol option"
  cmp_mode :: compatibility_mode
  cmp_reason :: "string option"

datatype availability = Avail_All | Avail_Bindable | Avail_Schedulable

record topology_index =
  ti_accountsById :: "string \<rightharpoonup> account"
  ti_providersById :: "string \<rightharpoonup> provider"
  ti_duplicateAccountIds :: "string set"
  ti_duplicateProviderIds :: "string set"

section \<open>Topology\<close>

text \<open>One loop of the index: the first object with an id wins, later ones are evidence.\<close>

fun index_first :: "('a \<Rightarrow> string) \<Rightarrow> 'a list \<Rightarrow> (string \<rightharpoonup> 'a) \<Rightarrow> string set \<Rightarrow> (string \<rightharpoonup> 'a) \<times> string set" where
  "index_first key [] byId duplicates = (byId, duplicates)"
| "index_first key (x # xs) byId duplicates =
     (if byId (key x) \<noteq> None then index_first key xs byId (insert (key x) duplicates)
      else index_first key xs (byId(key x \<mapsto> x)) duplicates)"

definition createRouteSourceTopologyIndex :: "account list \<Rightarrow> provider list \<Rightarrow> topology_index" where
  "createRouteSourceTopologyIndex accounts providers =
     (let (accountsById, duplicateAccountIds) = index_first acc_id accounts Map.empty {};
          (providersById, duplicateProviderIds) = index_first prov_id providers Map.empty {}
      in \<lparr>ti_accountsById = accountsById, ti_providersById = providersById,
          ti_duplicateAccountIds = duplicateAccountIds,
          ti_duplicateProviderIds = duplicateProviderIds\<rparr>)"

definition collections_index :: "collections \<Rightarrow> topology_index" where
  "collections_index c = createRouteSourceTopologyIndex (col_accounts c) (col_providers c)"

text \<open>The loop over the declared members; \<^const>\<open>None\<close> is its early \<^verbatim>\<open>return false\<close>.\<close>

fun declared_members :: "topology_index \<Rightarrow> pool_member list \<Rightarrow> (account \<times> provider) list option" where
  "declared_members index [] = Some []"
| "declared_members index (m # ms) =
     (if mem_accountId m \<in> ti_duplicateAccountIds index then None
      else
        (case ti_accountsById index (mem_accountId m) of
           None \<Rightarrow> None
         | Some a \<Rightarrow>
             if acc_providerId a \<in> ti_duplicateProviderIds index then None
             else
               (case ti_providersById index (acc_providerId a) of
                  None \<Rightarrow> None
                | Some p \<Rightarrow> map_option (\<lambda>rest. (a, p) # rest) (declared_members index ms))))"

definition member_matches :: "pool \<Rightarrow> account \<times> provider \<Rightarrow> bool" where
  "member_matches pl = (\<lambda>(a, p).
     if pool_kind pl = Relay_Aggregate then
       prov_sourceType p = Relay \<and> Wire (prov_protocol p) = pool_protocol pl
     else if pool_protocol pl = Grok then
       (if prov_sourceType p = Relay then
          acc_credentialType a = Some Api_Key
          \<and> providerSourceFamily (prov_kind p) = F_grok
          \<and> accountPoolProtocol a p = Grok
        else accountMatchesPoolProtocol Grok a (Some p))
     else
       (if prov_sourceType p = Relay then
          acc_credentialType a \<noteq> Some Grok_Oauth \<and> Wire (prov_protocol p) = pool_protocol pl
        else accountMatchesPoolProtocol (pool_protocol pl) a (Some p)))"

definition isRouteSourcePoolTopologyValid :: "pool \<Rightarrow> topology_index \<Rightarrow> bool" where
  "isRouteSourcePoolTopologyValid pl index =
     (if length (pool_members pl) = 0 then False
      else
        (case declared_members index (pool_members pl) of
           None \<Rightarrow> False
         | Some declared \<Rightarrow>
             if length (unique (map (\<lambda>(a, p). providerSourceFamily (prov_kind p)) declared)) \<noteq> 1
             then False
             else list_all (member_matches pl) declared))"

definition hasVerifiedKiroToolBridge :: "provider option \<Rightarrow> bool" where
  "hasVerifiedKiroToolBridge p =
     (case p of
        None \<Rightarrow> False
      | Some p \<Rightarrow>
          prov_sourceType p = Relay
          \<and> prov_kind p = K_kiro_compatible
          \<and> prov_protocol p = Kiro_Claude
          \<and> prov_toolRoundtripVerified p = Some True
          \<and> (case prov_capabilityProfile p of
               None \<Rightarrow> False
             | Some profile \<Rightarrow>
                 prof_origin profile = Probed
                 \<and> (case prof_checkedAt profile of None \<Rightarrow> False | Some t \<Rightarrow> t > 0)
                 \<and> prof_flags profile Cap_toolCalls = Some True))"

section \<open>Resolution\<close>

definition enabled_member_ids :: "pool \<Rightarrow> string list" where
  "enabled_member_ids pl = unique (map mem_accountId (filter mem_enabled (pool_members pl)))"

definition persisted_source :: "pool \<Rightarrow> account list \<Rightarrow> resolved_route_source" where
  "persisted_source pl allAccounts =
     (let accounts = filter (\<lambda>a. acc_id a \<in> set (enabled_member_ids pl)) allAccounts
      in \<lparr>res_summary = \<lparr>rs_id = pool_id pl, rs_name = pool_name pl,
                         rs_kind = kind_of_pool (pool_kind pl),
                         rs_protocol = pool_protocol pl, rs_accountCount = length accounts\<rparr>,
          res_pool = pl, res_accounts = accounts, res_persistedPool = Some pl,
          res_provider = None\<rparr>)"

definition virtual_pool :: "provider \<Rightarrow> account \<Rightarrow> pool" where
  "virtual_pool p a =
     \<lparr>pool_id = prov_id p,
      pool_name = prov_name p,
      pool_kind = Standard,
      pool_protocol = accountPoolProtocol a p,
      pool_strategy = Priority,
      pool_members = [\<lparr>mem_accountId = acc_id a, mem_enabled = True,
                       mem_weight = Some (Finite 1), mem_order = Some (Finite 0)\<rparr>],
      pool_modelPolicy = All_Models,
      pool_modelAllowlist = [],
      pool_stickySessions = (prov_protocol p = Kiro_Claude),
      pool_stickyTtlMinutes = Finite 30,
      pool_maxRetries = 0,
      pool_forceFastMode =
        (supportsFastServiceTier (prov_protocol p) \<and> prov_forceFastMode p = Some True),
      pool_quotaProtection = None,
      pool_createdAt = prov_createdAt p,
      pool_updatedAt = max (prov_updatedAt p) (acc_updatedAt a)\<rparr>"

definition resolveRouteSource :: "string \<Rightarrow> collections \<Rightarrow> resolved_route_source option" where
  "resolveRouteSource sourceId c =
     (if sourceId = [] then None
      else
        let persistedPool = find (\<lambda>pl. pool_id pl = sourceId) (col_pools c);
            provider = find (\<lambda>p. prov_id p = sourceId) (col_providers c)
        in case (persistedPool, provider) of
             (Some _, Some _) \<Rightarrow> None
           | (Some pl, None) \<Rightarrow> Some (persisted_source pl (col_accounts c))
           | (None, None) \<Rightarrow> None
           | (None, Some p) \<Rightarrow>
               if prov_sourceType p \<noteq> Official_Api \<and> prov_sourceType p \<noteq> Relay then None
               else
                 (case filter (\<lambda>a. acc_providerId a = prov_id p) (col_accounts c) of
                    [a] \<Rightarrow>
                      if acc_credentialType a \<noteq> Some Api_Key then None
                      else
                        Some \<lparr>res_summary = \<lparr>rs_id = prov_id p, rs_name = prov_name p,
                                rs_kind = (if prov_sourceType p = Relay then Source_Relay
                                           else Source_Official_Api),
                                rs_protocol = accountPoolProtocol a p, rs_accountCount = 1\<rparr>,
                              res_pool = virtual_pool p a, res_accounts = [a],
                              res_persistedPool = None, res_provider = Some p\<rparr>
                  | _ \<Rightarrow> None))"

section \<open>Families of a source\<close>

text \<open>\<^verbatim>\<open>new Map(accounts.map((a) => [a.id, a]))\<close>: the last account with an id wins.\<close>

definition accounts_by_id :: "account list \<Rightarrow> string \<Rightarrow> account option" where
  "accounts_by_id as i = map_of (rev (map (\<lambda>a. (acc_id a, a)) as)) i"

definition isGrokRouteSource :: "resolved_route_source option \<Rightarrow> provider list \<Rightarrow> bool" where
  "isGrokRouteSource source providers =
     (case source of
        None \<Rightarrow> False
      | Some s \<Rightarrow>
          if rs_protocol (res_summary s) = Grok then True
          else if pool_kind (res_pool s) \<noteq> Relay_Aggregate \<or> length (res_accounts s) = 0 then False
          else list_all (\<lambda>a.
                 (case providers_by_id providers (acc_providerId a) of
                    None \<Rightarrow> False
                  | Some p \<Rightarrow>
                      prov_sourceType p = Relay
                      \<and> Wire (prov_protocol p) = pool_protocol (res_pool s)
                      \<and> providerSourceFamily (prov_kind p) = F_grok)) (res_accounts s))"

text \<open>The provider behind an enabled member, through the source's own accounts.\<close>

definition member_provider :: "resolved_route_source \<Rightarrow> provider list \<Rightarrow> string \<Rightarrow> provider option" where
  "member_provider s providers accountId =
     (case accounts_by_id (res_accounts s) accountId of
        None \<Rightarrow> None
      | Some a \<Rightarrow> providers_by_id providers (acc_providerId a))"

definition isNativeGrokRouteSource :: "resolved_route_source option \<Rightarrow> provider list \<Rightarrow> bool" where
  "isNativeGrokRouteSource source providers =
     (case source of
        None \<Rightarrow> False
      | Some s \<Rightarrow>
          let enabledAccountIds = enabled_member_ids (res_pool s)
          in if length enabledAccountIds = 0 then False
             else list_all (\<lambda>accountId.
                    (case member_provider s providers accountId of
                       None \<Rightarrow> False
                     | Some p \<Rightarrow> prov_protocol p = Openai_Responses
                                \<and> providerSourceFamily (prov_kind p) = F_grok)) enabledAccountIds)"

definition isKiroClaudeRouteSource :: "resolved_route_source option \<Rightarrow> provider list \<Rightarrow> bool" where
  "isKiroClaudeRouteSource source providers =
     (case source of
        None \<Rightarrow> False
      | Some s \<Rightarrow>
          if rs_protocol (res_summary s) \<noteq> Wire Kiro_Claude then False
          else if pool_kind (res_pool s) = Relay_Aggregate \<and> \<not> pool_stickySessions (res_pool s)
          then False
          else if pool_kind (res_pool s) \<noteq> Relay_Aggregate \<and> res_provider s = None then False
          else
            let enabledAccountIds = enabled_member_ids (res_pool s)
            in if length enabledAccountIds = 0 then False
               else list_all (\<lambda>accountId.
                      hasVerifiedKiroToolBridge (member_provider s providers accountId))
                      enabledAccountIds)"

definition kiro_shaped :: "provider option \<Rightarrow> bool" where
  "kiro_shaped p =
     (case p of
        None \<Rightarrow> False
      | Some p \<Rightarrow> prov_kind p = K_kiro_compatible \<or> prov_protocol p = Kiro_Claude)"

definition routeSourceUsesKiroClaude :: "resolved_route_source option \<Rightarrow> provider list \<Rightarrow> bool" where
  "routeSourceUsesKiroClaude source providers =
     (case source of
        None \<Rightarrow> False
      | Some s \<Rightarrow>
          if rs_protocol (res_summary s) = Wire Kiro_Claude \<or> kiro_shaped (res_provider s) then True
          else list_ex (\<lambda>a. kiro_shaped (providers_by_id providers (acc_providerId a)))
                 (res_accounts s))"

definition routeSourceUsesDeepSeek :: "resolved_route_source option \<Rightarrow> provider list \<Rightarrow> bool" where
  "routeSourceUsesDeepSeek source providers =
     (case source of
        None \<Rightarrow> False
      | Some s \<Rightarrow>
          if (case res_provider s of
                None \<Rightarrow> False | Some p \<Rightarrow> providerSourceFamily (prov_kind p) = F_deepseek) then True
          else length (res_accounts s) > 0
               \<and> list_all (\<lambda>a.
                   (case providers_by_id providers (acc_providerId a) of
                      None \<Rightarrow> False
                    | Some p \<Rightarrow> providerSourceFamily (prov_kind p) = F_deepseek)) (res_accounts s))"

section \<open>Compatibility with a client\<close>

definition unsupported :: "protocol \<Rightarrow> pool_protocol option \<Rightarrow> string \<Rightarrow> compatibility" where
  "unsupported inbound source reason =
     \<lparr>cmp_eligible = False, cmp_inboundProtocol = inbound, cmp_sourceProtocol = source,
      cmp_mode = Mode_Unsupported, cmp_reason = Some reason\<rparr>"

definition supported :: "protocol \<Rightarrow> pool_protocol \<Rightarrow> compatibility_mode \<Rightarrow> compatibility" where
  "supported inbound source mode =
     \<lparr>cmp_eligible = True, cmp_inboundProtocol = inbound, cmp_sourceProtocol = Some source,
      cmp_mode = mode, cmp_reason = None\<rparr>"

definition analyzeRouteSourceCompatibility ::
  "route_client \<Rightarrow> resolved_route_source option \<Rightarrow> provider list \<Rightarrow> topology_index \<Rightarrow> compatibility" where
  "analyzeRouteSourceCompatibility client source providers index =
     (let inboundProtocol = clientNativeProtocols client
      in case source of
           None \<Rightarrow> unsupported inboundProtocol None ''Route source not found.''
         | Some s \<Rightarrow>
             let sourceProtocol = rs_protocol (res_summary s);
                 no = unsupported inboundProtocol (Some sourceProtocol)
             in if \<not> isRouteSourcePoolTopologyValid (res_pool s) index then
                  no ''Route source members must use one valid pool protocol and source family.''
                else if sourceProtocol = Chatgpt_Web_Wm \<and> client \<noteq> Codex then
                  no ''ChatGPT Web WM pools are available only to Codex clients.''
                else if routeSourceUsesKiroClaude source providers then
                  (if client \<noteq> Claude then
                     no ''Kiro Claude sources are available only to Claude Code clients.''
                   else if \<not> isKiroClaudeRouteSource source providers then
                     no ''Complete the Kiro Claude two-round tool test before binding this source.''
                   else supported inboundProtocol sourceProtocol Mode_Kiro_Claude)
                else if routeSourceUsesDeepSeek source providers
                        \<and> client \<noteq> Codex \<and> client \<noteq> Deepseek_Harness then
                  no ''DeepSeek sources are available only to Codex and DeepSeek Harness clients.''
                else if client = Grokbuild \<and> \<not> isNativeGrokRouteSource source providers then
                  no ''Grok Build requires a Responses-native Grok source.''
                else supported inboundProtocol sourceProtocol
                       (if sourceProtocol = Chatgpt_Web_Wm \<or> Wire inboundProtocol = sourceProtocol
                        then Mode_Native else Mode_Translated))"

definition isRouteSourceEligibleForClient ::
  "route_client \<Rightarrow> resolved_route_source option \<Rightarrow> provider list \<Rightarrow> topology_index \<Rightarrow> bool" where
  "isRouteSourceEligibleForClient client source providers index =
     cmp_eligible (analyzeRouteSourceCompatibility client source providers index)"

section \<open>Menus\<close>

definition isBindableRouteAccount :: "account \<Rightarrow> bool" where
  "isBindableRouteAccount a = isRouteAccountBindable a"

definition isAvailableRouteAccount :: "account \<Rightarrow> bool" where
  "isAvailableRouteAccount a = isBindableRouteAccount a"

definition isCurrentlySchedulableRouteAccount :: "account \<Rightarrow> real \<Rightarrow> bool" where
  "isCurrentlySchedulableRouteAccount a now = isRouteAccountCurrentlySchedulable a now"

record list_options =
  lo_availableOnly :: "bool option"
  lo_availability :: "availability option"
  lo_client :: "route_client option"

definition effective_availability :: "list_options \<Rightarrow> availability" where
  "effective_availability opts =
     (case lo_availability opts of
        Some a \<Rightarrow> a
      | None \<Rightarrow> if lo_availableOnly opts = Some False then Avail_All else Avail_Bindable)"

definition listed ::
  "list_options \<Rightarrow> real \<Rightarrow> collections \<Rightarrow> topology_index \<Rightarrow> resolved_route_source \<Rightarrow> bool" where
  "listed opts now c index s =
     (if \<not> isRouteSourcePoolTopologyValid (res_pool s) index then False
      else if effective_availability opts = Avail_Bindable
              \<and> \<not> list_ex isBindableRouteAccount (res_accounts s) then False
      else if effective_availability opts = Avail_Schedulable
              \<and> \<not> list_ex (\<lambda>a. isCurrentlySchedulableRouteAccount a now) (res_accounts s) then False
      else (case lo_client opts of
              None \<Rightarrow> True
            | Some client \<Rightarrow> isRouteSourceEligibleForClient client (Some s) (col_providers c) index))"

fun list_sources_loop ::
  "list_options \<Rightarrow> real \<Rightarrow> collections \<Rightarrow> topology_index \<Rightarrow> string list \<Rightarrow> string list
   \<Rightarrow> route_source_summary list" where
  "list_sources_loop opts now c index [] seen = []"
| "list_sources_loop opts now c index (i # ids) seen =
     (if i \<in> set seen then list_sources_loop opts now c index ids seen
      else
        (case resolveRouteSource i c of
           None \<Rightarrow> list_sources_loop opts now c index ids (i # seen)
         | Some s \<Rightarrow>
             if listed opts now c index s
             then res_summary s # list_sources_loop opts now c index ids (i # seen)
             else list_sources_loop opts now c index ids (i # seen)))"

definition listRouteSources :: "collections \<Rightarrow> list_options \<Rightarrow> real \<Rightarrow> route_source_summary list" where
  "listRouteSources c opts now =
     list_sources_loop opts now c (collections_index c)
       (map pool_id (col_pools c) @ map prov_id (col_providers c)) []"

definition listRouteSourcesForClient ::
    "route_client \<Rightarrow> collections \<Rightarrow> list_options \<Rightarrow> real \<Rightarrow> route_source_summary list" where
  "listRouteSourcesForClient client c opts now =
     listRouteSources c (opts\<lparr>lo_client := Some client\<rparr>) now"

section \<open>Models of a source\<close>

definition account_catalog :: "provider list \<Rightarrow> account \<Rightarrow> string list" where
  "account_catalog providers a =
     (let providerModels =
            (case providers_by_id providers (acc_providerId a) of None \<Rightarrow> [] | Some p \<Rightarrow> prov_models p)
      in if acc_modelsRefreshedAt a = None then providerModels @ acc_modelAllowlist a
         else acc_availableModels a)"

definition account_allowed :: "account \<Rightarrow> string list option" where
  "account_allowed a =
     (if acc_modelPolicy a = Selected_Models
      then Some (filter (\<lambda>m. m \<noteq> []) (map js_trim (acc_modelAllowlist a))) else None)"

fun add_models :: "string list option \<Rightarrow> string list \<Rightarrow> string list \<Rightarrow> string list" where
  "add_models allowed [] models = models"
| "add_models allowed (candidate # catalog) models =
     (let model = js_trim candidate
      in if model = []
            \<or> (case allowed of None \<Rightarrow> False | Some ms \<Rightarrow> model \<notin> set ms)
            \<or> model \<in> set models
         then add_models allowed catalog models
         else add_models allowed catalog (models @ [model]))"

definition enumerateRouteSourceModels ::
    "resolved_route_source option \<Rightarrow> provider list \<Rightarrow> string list" where
  "enumerateRouteSourceModels source providers =
     (case source of
        None \<Rightarrow> []
      | Some s \<Rightarrow>
          if rs_protocol (res_summary s) = Chatgpt_Web_Wm then [''gpt-5.6-sol-wm'']
          else
            let models = foldl (\<lambda>models a.
                  add_models (account_allowed a) (account_catalog providers a) models) []
                  (filter isAvailableRouteAccount (res_accounts s))
            in if pool_modelPolicy (res_pool s) \<noteq> Selected_Models then models
               else unique (filter (\<lambda>m. m \<noteq> [] \<and> m \<in> set models)
                      (map js_trim (pool_modelAllowlist (res_pool s)))))"

section \<open>Runtime pools\<close>

definition hasRouteSourceIdCollision :: "string \<Rightarrow> collections \<Rightarrow> bool" where
  "hasRouteSourceIdCollision sourceId c =
     (list_ex (\<lambda>pl. pool_id pl = sourceId) (col_pools c)
      \<and> list_ex (\<lambda>p. prov_id p = sourceId) (col_providers c))"

fun append_runtime_loop ::
  "collections \<Rightarrow> string list \<Rightarrow> pool list \<Rightarrow> string list \<Rightarrow> string + pool list" where
  "append_runtime_loop c [] pools seen = Inr pools"
| "append_runtime_loop c (i # ids) pools seen =
     (if i = [] then append_runtime_loop c ids pools seen
      else if hasRouteSourceIdCollision i c then
        Inl ''A route source id conflicts with an existing pool id.''
      else if i \<in> set seen then append_runtime_loop c ids pools seen
      else
        (case resolveRouteSource i c of
           None \<Rightarrow> append_runtime_loop c ids pools seen
         | Some s \<Rightarrow>
             if res_provider s = None then append_runtime_loop c ids pools seen
             else append_runtime_loop c ids (pools @ [res_pool s]) (i # seen)))"

definition appendRuntimeRouteSourcePools :: "string list \<Rightarrow> collections \<Rightarrow> string + pool list" where
  "appendRuntimeRouteSourcePools routeSourceIds c =
     append_runtime_loop c routeSourceIds (col_pools c) (map pool_id (col_pools c))"

section \<open>Pool capacity\<close>

fun enabled_accounts_loop ::
    "(string \<Rightarrow> account option) \<Rightarrow> pool_member list \<Rightarrow> string list \<Rightarrow> account list" where
  "enabled_accounts_loop accountById [] seen = []"
| "enabled_accounts_loop accountById (m # ms) seen =
     (if \<not> mem_enabled m \<or> mem_accountId m \<in> set seen then enabled_accounts_loop accountById ms seen
      else
        (case accountById (mem_accountId m) of
           None \<Rightarrow> enabled_accounts_loop accountById ms seen
         | Some a \<Rightarrow> a # enabled_accounts_loop accountById ms (mem_accountId m # seen)))"

definition enabledPoolAccounts :: "pool \<Rightarrow> account list \<Rightarrow> account list" where
  "enabledPoolAccounts pl accounts =
     enabled_accounts_loop (accounts_by_id accounts) (pool_members pl) []"

record capacity_summary =
  cap_enabledAccounts :: "account list"
  cap_bindableAccounts :: "account list"
  cap_schedulableAccounts :: "account list"
  cap_inFlight :: real
  cap_capacity :: real

definition summarizePoolCapacity :: "pool \<Rightarrow> account list \<Rightarrow> real \<Rightarrow> capacity_summary" where
  "summarizePoolCapacity pl accounts now =
     (let enabledAccounts = enabledPoolAccounts pl accounts;
          bindableAccounts = filter isBindableRouteAccount enabledAccounts;
          schedulableAccounts =
            filter (\<lambda>a. isCurrentlySchedulableRouteAccount a now) bindableAccounts
      in \<lparr>cap_enabledAccounts = enabledAccounts,
          cap_bindableAccounts = bindableAccounts,
          cap_schedulableAccounts = schedulableAccounts,
          cap_inFlight =
            foldl (\<lambda>sum a. sum + routeAccountInFlight (Finite (acc_inFlight a))) 0 bindableAccounts,
          cap_capacity =
            foldl (\<lambda>sum a. sum + routeAccountConcurrencyLimit (acc_maxConcurrency a)) 0 bindableAccounts\<rparr>)"

end
