(* ===== verification/Route_Models.thy ===== *)
theory Route_Models
  imports Domain_Types
begin

text \<open>
  \<^verbatim>\<open>src/shared/route-models.ts\<close>: resolution and normalisation of the maps a route holds,
  from client-facing model names to upstream models and to sources. The maps come from
  imported JSON, so their values are unknown (\<^const>\<open>None\<close>: not a string) and the map itself
  may be absent or not an object (\<^const>\<open>None\<close>).
\<close>

section \<open>Names\<close>

definition MAX_ROUTE_MODEL_NAME_LENGTH :: nat where "MAX_ROUTE_MODEL_NAME_LENGTH = 256"

definition PROTOTYPE_POLLUTION_KEYS :: "string list" where
  "PROTOTYPE_POLLUTION_KEYS = [''__proto__'', ''constructor'', ''prototype'']"

definition hasControlCharacter :: "string \<Rightarrow> bool" where
  "hasControlCharacter value = list_ex control_char value"

definition isSafeRouteModelMapKey :: "string \<Rightarrow> bool" where
  "isSafeRouteModelMapKey value \<longleftrightarrow>
     length value > 0
     \<and> length value \<le> MAX_ROUTE_MODEL_NAME_LENGTH
     \<and> \<not> hasControlCharacter value
     \<and> value \<notin> set PROTOTYPE_POLLUTION_KEYS"

definition isSafeRouteModelMapTarget :: "string \<Rightarrow> bool" where
  "isSafeRouteModelMapTarget value =
     (let normalized = js_trim value
      in length normalized > 0
         \<and> length normalized \<le> MAX_ROUTE_MODEL_NAME_LENGTH
         \<and> \<not> hasControlCharacter normalized)"

definition normalizeTarget :: "string option \<Rightarrow> string option" where
  "normalizeTarget value =
     (case value of
        None \<Rightarrow> None
      | Some v \<Rightarrow>
          let normalized = js_trim v
          in if \<not> isSafeRouteModelMapTarget normalized then None else Some normalized)"

definition normalizeRouteSourceId :: "string option \<Rightarrow> string option" where
  "normalizeRouteSourceId value =
     (case value of
        None \<Rightarrow> None
      | Some v \<Rightarrow>
          let normalized = js_trim v
          in if normalized = [] \<or> length normalized > MAX_ROUTE_MODEL_NAME_LENGTH
                \<or> hasControlCharacter normalized
             then None else Some normalized)"

section \<open>Resolution\<close>

definition readOwnMapping :: "unknown_map option \<Rightarrow> string \<Rightarrow> string option" where
  "readOwnMapping modelMap source =
     (case modelMap of
        None \<Rightarrow> None
      | Some m \<Rightarrow>
          if \<not> isSafeRouteModelMapKey source then None
          else (case map_get m source of None \<Rightarrow> None | Some value \<Rightarrow> normalizeTarget value))"

definition resolveRouteModel :: "unknown_map option \<Rightarrow> string \<Rightarrow> string" where
  "resolveRouteModel modelMap requested =
     (case readOwnMapping modelMap requested of
        Some exact \<Rightarrow> exact
      | None \<Rightarrow>
          (case readOwnMapping modelMap ''*'' of Some target \<Rightarrow> target | None \<Rightarrow> requested))"

definition resolveRouteSourceId :: "string \<Rightarrow> unknown_map option \<Rightarrow> string \<Rightarrow> string" where
  "resolveRouteSourceId defaultSourceId modelSourceMap requestedModel =
     (if \<not> isSafeRouteModelMapKey requestedModel \<or> requestedModel = ''*'' then defaultSourceId
      else (case modelSourceMap of
              None \<Rightarrow> defaultSourceId
            | Some m \<Rightarrow>
                (case map_get m requestedModel of
                   None \<Rightarrow> defaultSourceId
                 | Some value \<Rightarrow>
                     (case normalizeRouteSourceId value of
                        None \<Rightarrow> defaultSourceId | Some i \<Rightarrow> i))))"

section \<open>Normalisation\<close>

definition normalize_model_entry ::
    "(string, string) js_map \<Rightarrow> string \<times> string option \<Rightarrow> (string, string) js_map" where
  "normalize_model_entry normalized = (\<lambda>(rawSource, rawTarget).
     let source = js_trim rawSource
     in case normalizeTarget rawTarget of
          None \<Rightarrow> normalized
        | Some target \<Rightarrow>
            if \<not> isSafeRouteModelMapKey source then normalized
            else map_set normalized source target)"

definition normalizeRouteModelMap :: "unknown_map option \<Rightarrow> (string, string) js_map" where
  "normalizeRouteModelMap modelMap =
     (case modelMap of None \<Rightarrow> [] | Some m \<Rightarrow> foldl normalize_model_entry [] m)"

definition normalize_source_entry ::
    "(string, string) js_map \<Rightarrow> string \<times> string option \<Rightarrow> (string, string) js_map" where
  "normalize_source_entry normalized = (\<lambda>(rawModel, rawSourceId).
     let model = js_trim rawModel
     in case normalizeRouteSourceId rawSourceId of
          None \<Rightarrow> normalized
        | Some sourceId \<Rightarrow>
            if model = ''*'' \<or> \<not> isSafeRouteModelMapKey model then normalized
            else map_set normalized model sourceId)"

definition normalizeRouteModelSourceMap :: "unknown_map option \<Rightarrow> (string, string) js_map" where
  "normalizeRouteModelSourceMap modelSourceMap =
     (case modelSourceMap of None \<Rightarrow> [] | Some m \<Rightarrow> foldl normalize_source_entry [] m)"

definition routeReferencedSourceIds :: "string \<Rightarrow> unknown_map option \<Rightarrow> string list" where
  "routeReferencedSourceIds poolId modelSourceMap =
     unique
       ((case normalizeRouteSourceId (Some poolId) of None \<Rightarrow> [] | Some i \<Rightarrow> [i])
        @ map snd (normalizeRouteModelSourceMap modelSourceMap))"

definition routeReferencesSource :: "string \<Rightarrow> unknown_map option \<Rightarrow> string \<Rightarrow> bool" where
  "routeReferencesSource poolId modelSourceMap sourceId =
     (case normalizeRouteSourceId (Some sourceId) of
        None \<Rightarrow> False
      | Some normalized \<Rightarrow> normalized \<in> set (routeReferencedSourceIds poolId modelSourceMap))"

datatype mapping_validation = Valid_Mapping string string | Invalid_Source | Invalid_Target

definition validateRouteModelMapping :: "string option \<Rightarrow> string option \<Rightarrow> mapping_validation" where
  "validateRouteModelMapping sourceValue targetValue =
     (case sourceValue of
        None \<Rightarrow> Invalid_Source
      | Some sv \<Rightarrow>
          let source = js_trim sv
          in if \<not> isSafeRouteModelMapKey source then Invalid_Source
             else (case targetValue of
                     None \<Rightarrow> Invalid_Target
                   | Some tv \<Rightarrow>
                       if \<not> isSafeRouteModelMapTarget tv then Invalid_Target
                       else Valid_Mapping source (js_trim tv)))"

section \<open>Lemmas\<close>

lemma normalizeTarget_safe: "normalizeTarget v = Some t \<Longrightarrow> isSafeRouteModelMapTarget t \<and> js_trim t = t"
  by (auto simp: normalizeTarget_def Let_def split: option.splits if_splits)

lemma normalizeTarget_idem [simp]: "normalizeTarget v = Some t \<Longrightarrow> normalizeTarget (Some t) = Some t"
  using normalizeTarget_safe [of v t] by (simp add: normalizeTarget_def Let_def)

lemma normalizeRouteSourceId_idem [simp]:
  "normalizeRouteSourceId v = Some i \<Longrightarrow> normalizeRouteSourceId (Some i) = Some i"
  by (auto simp: normalizeRouteSourceId_def Let_def split: option.splits if_splits)

lemma normalizeRouteSourceId_trim: "normalizeRouteSourceId v = Some i \<Longrightarrow> js_trim i = i"
  by (auto simp: normalizeRouteSourceId_def Let_def split: option.splits if_splits)

text \<open>
  What holds of a normalised map: distinct safe keys, each trimmed, with a safe trimmed
  value. The two loops share it.
\<close>

definition safe_entries :: "(string \<Rightarrow> bool) \<Rightarrow> (string option \<Rightarrow> string option) \<Rightarrow> (string, string) js_map \<Rightarrow> bool" where
  "safe_entries key tidy m \<longleftrightarrow>
     map_wf m \<and> (\<forall>(k, v) \<in> set m. key k \<and> js_trim k = k \<and> tidy (Some v) = Some v)"

lemma safe_entries_Nil [simp]: "safe_entries key tidy []"
  by (simp add: safe_entries_def)

lemma set_update_subset: "set (AList.update k v m) \<subseteq> insert (k, v) (set m)"
  by (induction m) auto

lemma safe_entries_set:
  "safe_entries key tidy m \<Longrightarrow> key k \<Longrightarrow> js_trim k = k \<Longrightarrow> tidy (Some v) = Some v
   \<Longrightarrow> safe_entries key tidy (map_set m k v)"
  using set_update_subset [of k v m] by (auto simp: safe_entries_def)

definition model_key :: "string \<Rightarrow> bool" where
  "model_key k \<longleftrightarrow> isSafeRouteModelMapKey k"

definition source_key :: "string \<Rightarrow> bool" where
  "source_key k \<longleftrightarrow> k \<noteq> ''*'' \<and> isSafeRouteModelMapKey k"

lemma normalize_model_entry_safe:
  "safe_entries model_key normalizeTarget m \<Longrightarrow>
   safe_entries model_key normalizeTarget (normalize_model_entry m entry)"
  by (auto simp: normalize_model_entry_def Let_def model_key_def split: prod.splits option.splits
      intro!: safe_entries_set)

lemma normalize_source_entry_safe:
  "safe_entries source_key normalizeRouteSourceId m \<Longrightarrow>
   safe_entries source_key normalizeRouteSourceId (normalize_source_entry m entry)"
  by (auto simp: normalize_source_entry_def Let_def source_key_def split: prod.splits option.splits
      intro!: safe_entries_set)

lemma foldl_preserves: "(\<And>s x. P s \<Longrightarrow> P (f s x)) \<Longrightarrow> P s \<Longrightarrow> P (foldl f s xs)"
  by (induction xs arbitrary: s) auto

lemma safe_normalizeRouteModelMap: "safe_entries model_key normalizeTarget (normalizeRouteModelMap m)"
  unfolding normalizeRouteModelMap_def
  by (cases m) (simp_all add: foldl_preserves [where P = "safe_entries model_key normalizeTarget"]
      normalize_model_entry_safe)

lemma safe_normalizeRouteModelSourceMap:
  "safe_entries source_key normalizeRouteSourceId (normalizeRouteModelSourceMap m)"
  unfolding normalizeRouteModelSourceMap_def
  by (cases m)
    (simp_all add: foldl_preserves [where P = "safe_entries source_key normalizeRouteSourceId"]
      normalize_source_entry_safe)

text \<open>A map that is already normalised, read again as unknown values, normalises to itself.\<close>

abbreviation as_unknown :: "(string, string) js_map \<Rightarrow> unknown_map" where
  "as_unknown m \<equiv> map (\<lambda>(k, v). (k, Some v)) m"

lemma map_set_append: "k \<notin> set (map_keys m) \<Longrightarrow> map_set m k v = m @ [(k, v)]"
  by (induction m) auto

lemma foldl_normalised_entries:
  assumes "safe_entries key tidy (pre @ m)"
    and step: "\<And>acc k v. key k \<Longrightarrow> js_trim k = k \<Longrightarrow> tidy (Some v) = Some v
                \<Longrightarrow> f acc (k, Some v) = map_set acc k v"
  shows "foldl f pre (as_unknown m) = pre @ m"
  using assms(1)
proof (induction m arbitrary: pre)
  case Nil
  then show ?case by simp
next
  case (Cons e m)
  obtain k v where e: "e = (k, v)" by (cases e)
  have "f pre (k, Some v) = map_set pre k v"
    using Cons.prems e by (intro step) (auto simp: safe_entries_def)
  also have "map_set pre k v = pre @ [(k, v)]"
    using Cons.prems e by (intro map_set_append) (auto simp: safe_entries_def map_wf_def)
  finally show ?case
    using Cons.IH [of "pre @ [(k, v)]"] Cons.prems e by simp
qed

lemma normalizeRouteModelMap_fixed:
  assumes "safe_entries model_key normalizeTarget m"
  shows "normalizeRouteModelMap (Some (as_unknown m)) = m"
proof -
  have "foldl normalize_model_entry [] (as_unknown m) = [] @ m"
    by (rule foldl_normalised_entries [where key = model_key and tidy = normalizeTarget])
      (use assms in \<open>auto simp: normalize_model_entry_def model_key_def\<close>)
  then show ?thesis by (simp add: normalizeRouteModelMap_def)
qed

lemma normalizeRouteModelSourceMap_fixed:
  assumes "safe_entries source_key normalizeRouteSourceId m"
  shows "normalizeRouteModelSourceMap (Some (as_unknown m)) = m"
proof -
  have "foldl normalize_source_entry [] (as_unknown m) = [] @ m"
    by (rule foldl_normalised_entries [where key = source_key and tidy = normalizeRouteSourceId])
      (use assms in \<open>auto simp: normalize_source_entry_def source_key_def\<close>)
  then show ?thesis by (simp add: normalizeRouteModelSourceMap_def)
qed

lemma map_get_as_unknown: "map_get (as_unknown m) k = map_option Some (map_get m k)"
  by (induction m) auto

lemma isSafeRouteModelMapKey_star [simp]: "isSafeRouteModelMapKey ''*''"
  by (simp add: isSafeRouteModelMapKey_def MAX_ROUTE_MODEL_NAME_LENGTH_def hasControlCharacter_def
      PROTOTYPE_POLLUTION_KEYS_def) (code_simp)

lemma resolveRouteModel_normalised:
  assumes "safe_entries model_key normalizeTarget m"
  shows "resolveRouteModel (Some (as_unknown m)) requested =
    (case map_get m requested of
       Some target \<Rightarrow> target
     | None \<Rightarrow> (case map_get m ''*'' of Some target \<Rightarrow> target | None \<Rightarrow> requested))"
proof -
  have read: "readOwnMapping (Some (as_unknown m)) k = map_get m k" for k
  proof (cases "map_get m k")
    case None
    then show ?thesis by (simp add: readOwnMapping_def map_get_as_unknown)
  next
    case (Some v)
    then have "(k, v) \<in> set m" by (rule map_get_in_set)
    with assms have "isSafeRouteModelMapKey k" "normalizeTarget (Some v) = Some v"
      by (auto simp: safe_entries_def model_key_def)
    with Some show ?thesis by (simp add: readOwnMapping_def map_get_as_unknown)
  qed
  show ?thesis unfolding resolveRouteModel_def read ..
qed

lemma unsafe_key_resolves_by_wildcard_only:
  "\<not> isSafeRouteModelMapKey requested \<Longrightarrow>
   resolveRouteModel m requested =
     (case readOwnMapping m ''*'' of Some target \<Rightarrow> target | None \<Rightarrow> requested)"
  by (auto simp: resolveRouteModel_def readOwnMapping_def split: option.splits)

lemma resolveRouteSourceId_referenced:
  assumes "map_wf m" and "resolveRouteSourceId d (Some m) model \<noteq> d" and "js_trim model = model"
  shows "model \<in> set (map_keys m)
    \<and> normalizeRouteSourceId (the (map_get m model)) = Some (resolveRouteSourceId d (Some m) model)"
  using assms
  by (auto simp: resolveRouteSourceId_def split: if_splits option.splits
      dest: map_get_in_set intro: rev_image_eqI)

end
