(* ===== verification/Route_Preview.thy ===== *)
theory Route_Preview
  imports Route_Sources Route_Models
begin

text \<open>
  \<^verbatim>\<open>src/shared/route-preview.ts\<close>: the static analysis of a route that the settings page
  shows. An issue keeps its code, severity and capability; the localised message is left
  out. \<open>now\<close> is the clock value of the default argument.
\<close>

datatype issue_code =
    Route_Disabled
  | Invalid_Inbound_Protocol
  | Source_Missing
  | Source_Overridden
  | Source_Unavailable
  | Protocol_Conversion
  | Model_Mapped
  | Model_Unavailable
  | Capability_Unsupported
  | Capability_Unknown

datatype severity = Sev_Info | Sev_Warning | Sev_Error

record preview_issue =
  iss_code :: issue_code
  iss_severity :: severity
  iss_capability :: "capability option"

datatype preview_status = Blocked | Warned | Ready

record preview_result =
  pv_status :: preview_status
  pv_sourceId :: string
  pv_sourceName :: "string option"
  pv_sourceProtocol :: "pool_protocol option"
  pv_inboundProtocol :: protocol
  pv_requestedModel :: "string option"
  pv_upstreamModel :: "string option"
  pv_eligibleAccountCount :: nat
  pv_issues :: "preview_issue list"

record preview_input =
  pin_route :: route
  pin_requestedModel :: "string option"
  pin_requiredCapabilities :: "capability list option"

definition issue :: "issue_code \<Rightarrow> severity \<Rightarrow> preview_issue" where
  "issue code sev = \<lparr>iss_code = code, iss_severity = sev, iss_capability = None\<rparr>"

definition capability_issue :: "issue_code \<Rightarrow> severity \<Rightarrow> capability \<Rightarrow> preview_issue" where
  "capability_issue code sev c = \<lparr>iss_code = code, iss_severity = sev, iss_capability = Some c\<rparr>"

definition preview_status_of :: "preview_issue list \<Rightarrow> preview_status" where
  "preview_status_of issues =
     (if list_ex (\<lambda>i. iss_severity i = Sev_Error) issues then Blocked
      else if list_ex (\<lambda>i. iss_severity i = Sev_Warning) issues then Warned
      else Ready)"

definition preview_result_of ::
  "string \<Rightarrow> protocol \<Rightarrow> string option \<Rightarrow> string option \<Rightarrow> nat \<Rightarrow> preview_issue list \<Rightarrow> preview_result" where
  "preview_result_of sourceId inbound requestedModel upstreamModel n issues =
     \<lparr>pv_status = preview_status_of issues, pv_sourceId = sourceId, pv_sourceName = None,
      pv_sourceProtocol = None, pv_inboundProtocol = inbound, pv_requestedModel = requestedModel,
      pv_upstreamModel = upstreamModel, pv_eligibleAccountCount = n, pv_issues = issues\<rparr>"

definition normalizeModel :: "string option \<Rightarrow> string option" where
  "normalizeModel value = truthy (map_option js_trim value)"

definition uniqueCapabilities :: "capability list option \<Rightarrow> capability list" where
  "uniqueCapabilities value = unique (case value of None \<Rightarrow> [] | Some cs \<Rightarrow> cs)"

definition routeSourceWireProtocols :: "account list \<Rightarrow> provider list \<Rightarrow> protocol list" where
  "routeSourceWireProtocols accounts providers =
     unique (List.map_filter
       (\<lambda>a. map_option prov_protocol (providers_by_id providers (acc_providerId a))) accounts)"

text \<open>The eligibility query of the preview, over given members and capabilities.\<close>

definition preview_eligibility ::
  "pool \<Rightarrow> provider list \<Rightarrow> string option \<Rightarrow> account list \<Rightarrow> capability list option \<Rightarrow> eligibility_result" where
  "preview_eligibility pl providers routedModel accounts capabilities =
     evaluateSourceEligibility
       \<lparr>ei_accounts = accounts,
        ei_providers = providers,
        ei_model = (if isChatGptWebWmPoolProtocol (pool_protocol pl) then None else routedModel),
        ei_poolModelPolicy = Some (pool_modelPolicy pl),
        ei_poolModelAllowlist = Some (pool_modelAllowlist pl),
        ei_requiredCapabilities = capabilities,
        ei_requireProvider = True\<rparr>"

text \<open>The loop over the required capabilities, one query each.\<close>

definition capability_issues ::
  "pool \<Rightarrow> provider list \<Rightarrow> string option \<Rightarrow> account list \<Rightarrow> capability list \<Rightarrow> preview_issue list" where
  "capability_issues pl providers routedModel modelEligible capabilities =
     List.map_filter (\<lambda>c.
       let only = preview_eligibility pl providers routedModel modelEligible (Some [c])
       in if er_verified only \<noteq> [] then None
          else if er_verified only = [] \<and> er_unknown only = []
          then Some (capability_issue Capability_Unsupported Sev_Error c)
          else Some (capability_issue Capability_Unknown Sev_Warning c)) capabilities"

text \<open>The members a preview considers: all of them, when the source itself is acceptable.\<close>

definition preview_accounts :: "route \<Rightarrow> resolved_route_source \<Rightarrow> collections \<Rightarrow> real \<Rightarrow> account list" where
  "preview_accounts r source c now =
     (if isRouteSourcePoolTopologyValid (res_pool source) (collections_index c)
         \<and> cmp_eligible (analyzeRouteSourceCompatibility (route_client r) (Some source)
                           (col_providers c) (collections_index c))
      then filter (\<lambda>a. isCurrentlySchedulableRouteAccount a now) (res_accounts source)
      else [])"

definition previewRoute :: "preview_input \<Rightarrow> collections \<Rightarrow> real \<Rightarrow> preview_result" where
  "previewRoute input c now =
     (let r = pin_route input;
          requestedModel = normalizeModel (pin_requestedModel input);
          routedModel = map_option (resolveRouteModel (Some (route_modelMap r))) requestedModel;
          sourceId =
            (case requestedModel of
               None \<Rightarrow> route_poolId r
             | Some m \<Rightarrow> resolveRouteSourceId (route_poolId r) (route_modelSourceMap r) m);
          issues1 =
            (if \<not> route_enabled r then [issue Route_Disabled Sev_Warning] else [])
            @ (if route_inboundProtocol r \<noteq> clientNativeProtocols (route_client r)
               then [issue Invalid_Inbound_Protocol Sev_Error] else [])
      in case resolveRouteSource sourceId c of
           None \<Rightarrow>
             preview_result_of sourceId (route_inboundProtocol r) requestedModel routedModel 0
               (issues1 @ [issue Source_Missing Sev_Error])
         | Some source \<Rightarrow>
             let pl = res_pool source;
                 providers = col_providers c;
                 webWm = isChatGptWebWmPoolProtocol (pool_protocol pl);
                 upstreamModel =
                   (case truthy routedModel of
                      None \<Rightarrow> routedModel
                    | Some m \<Rightarrow>
                        if webWm \<and> \<not> isChatGptWebWmPassthroughModel m
                        then Some GPT_5_6_SOL_WM_MODEL else routedModel);
                 eligibleAccounts = preview_accounts r source c now;
                 wires = routeSourceWireProtocols (res_accounts source) providers;
                 previewSourceProtocol =
                   (if length wires = 1 then Wire (hd wires) else rs_protocol (res_summary source));
                 converts =
                   (if length wires > 0 then list_ex (\<lambda>w. w \<noteq> route_inboundProtocol r) wires
                    else rs_protocol (res_summary source) \<noteq> Wire (route_inboundProtocol r));
                 eligibility =
                   preview_eligibility pl providers routedModel eligibleAccounts
                     (pin_requiredCapabilities input);
                 modelEligible = er_modelEligible eligibility;
                 required = uniqueCapabilities (pin_requiredCapabilities input);
                 issues2 =
                   issues1
                   @ (if sourceId \<noteq> route_poolId r then [issue Source_Overridden Sev_Info] else [])
                   @ (if eligibleAccounts = [] then [issue Source_Unavailable Sev_Error] else [])
                   @ (if converts then [issue Protocol_Conversion Sev_Info] else [])
                   @ (if requestedModel \<noteq> None \<and> requestedModel \<noteq> upstreamModel
                      then [issue Model_Mapped Sev_Info] else [])
                   @ (if truthy routedModel \<noteq> None \<and> eligibleAccounts \<noteq> [] \<and> modelEligible = []
                      then [issue Model_Unavailable Sev_Error]
                      else if truthy routedModel = None \<and> eligibleAccounts \<noteq> [] \<and> modelEligible = []
                      then [issue Source_Unavailable Sev_Error] else [])
                   @ capability_issues pl providers routedModel modelEligible required;
                 issues3 =
                   issues2
                   @ (if modelEligible \<noteq> [] \<and> required \<noteq> [] \<and> er_schedulable eligibility = []
                         \<and> \<not> list_ex (\<lambda>i. iss_code i = Capability_Unsupported) issues2
                      then [issue Capability_Unsupported Sev_Error] else [])
             in (preview_result_of sourceId (route_inboundProtocol r) requestedModel upstreamModel
                   (length (er_schedulable eligibility)) issues3)
                \<lparr>pv_sourceName := Some (rs_name (res_summary source)),
                 pv_sourceProtocol := Some previewSourceProtocol\<rparr>)"

end
