(* ===== verification/Selection_Proofs.thy ===== *)
theory Selection_Proofs
  imports Selection "HOL-Library.Product_Lexorder"
begin

text \<open>
  What each strategy of \<^verbatim>\<open>pick\<close> chooses: the least score, the next position of the rotation,
  the share smooth weighted round robin owes each member, the interval of the weighted draw,
  and the tolerance of the automatic balance.
\<close>

section \<open>The least score\<close>

abbreviation better ::
    "(account \<Rightarrow> real) \<Rightarrow> (account \<Rightarrow> account \<Rightarrow> real) \<Rightarrow> account \<Rightarrow> account \<Rightarrow> bool" where
  "better score tieBreak a b \<equiv> score a < score b \<or> score a = score b \<and> tieBreak a b < 0"

lemma minimum_loop:
  fixes K :: "account \<Rightarrow> 'k :: linorder"
  defines "step score tieBreak \<equiv> \<lambda>(selected, selectedScore) candidate.
            let candidateScore = score candidate
            in if candidateScore < selectedScore
                  \<or> candidateScore = selectedScore \<and> tieBreak candidate selected < 0
               then (candidate, candidateScore) else (selected, selectedScore :: real)"
  assumes lt: "\<And>a b. K a < K b \<Longrightarrow> better score tieBreak a b"
    and le: "\<And>a b. better score tieBreak a b \<Longrightarrow> K a \<le> K b"
  shows "fst (foldl (step score tieBreak) (a, score a) xs) \<in> insert a (set xs)
    \<and> (\<forall>b \<in> insert a (set xs). K (fst (foldl (step score tieBreak) (a, score a) xs)) \<le> K b)"
proof (induction xs arbitrary: a)
  case Nil
  then show ?case by simp
next
  case (Cons x xs)
  show ?case
  proof (cases "better score tieBreak x a")
    case True
    then have "step score tieBreak (a, score a) x = (x, score x)" by (simp add: step_def)
    moreover have "K x \<le> K a" by (rule le [OF True])
    ultimately show ?thesis using Cons.IH [of x] by (simp del: Let_def) (meson order_trans)
  next
    case False
    then have "step score tieBreak (a, score a) x = (a, score a)" by (auto simp: step_def Let_def)
    moreover have "K a \<le> K x" using False lt [of x a] by (meson not_le)
    ultimately show ?thesis using Cons.IH [of a] by (simp del: Let_def) (meson order_trans)
  qed
qed

lemma selectMinimum_key:
  fixes K :: "account \<Rightarrow> 'k :: linorder"
  assumes "candidates \<noteq> []"
    and lt: "\<And>a b. K a < K b \<Longrightarrow> better score tieBreak a b"
    and le: "\<And>a b. better score tieBreak a b \<Longrightarrow> K a \<le> K b"
  shows "selectMinimum candidates score tieBreak \<in> set candidates"
    and "b \<in> set candidates \<Longrightarrow> K (selectMinimum candidates score tieBreak) \<le> K b"
proof -
  obtain a xs where c: "candidates = a # xs" using assms(1) by (cases candidates) auto
  note loop = minimum_loop [where K = K and score = score and tieBreak = tieBreak and a = a and xs = xs, OF lt le]
  show "selectMinimum candidates score tieBreak \<in> set candidates"
    using loop unfolding selectMinimum_def c by simp
  show "b \<in> set candidates \<Longrightarrow> K (selectMinimum candidates score tieBreak) \<le> K b"
    using loop [THEN conjunct2] unfolding selectMinimum_def c by auto
qed

lemma selectMinimum_score:
  assumes "candidates \<noteq> []"
  shows "selectMinimum candidates score tieBreak \<in> set candidates"
    and "b \<in> set candidates \<Longrightarrow> score (selectMinimum candidates score tieBreak) \<le> score b"
  using selectMinimum_key [where K = score and score = score and tieBreak = tieBreak, OF assms]
  by fastforce+

lemma selectMinimum_difference:
  assumes "candidates \<noteq> []" and "b \<in> set candidates"
  shows "(score (selectMinimum candidates score (\<lambda>a b. load a - load b)),
          load (selectMinimum candidates score (\<lambda>a b. load a - load b))) \<le> (score b, load b)"
  by (rule selectMinimum_key(2) [where K = "\<lambda>a. (score a, load a)", OF assms(1) _ _ assms(2)]) auto

lemma selectMinimum_balanced:
  fixes e score
  assumes "candidates \<noteq> []" and "b \<in> set candidates"
  defines "a \<equiv> selectMinimum candidates score (balanced_tie e)"
  shows "(score a, quotaPressure a (env_now e), acc_priority a)
    \<le> (score b, quotaPressure b (env_now e), acc_priority b)"
  unfolding a_def
  by (rule selectMinimum_key(2) [where K = "\<lambda>a. (score a, quotaPressure a (env_now e), acc_priority a)",
        OF assms(1) _ _ assms(2)])
    (auto simp: balanced_tie_def Let_def split: if_splits)

section \<open>Relay order\<close>

lemma js_map_of_get:
  "map_get (js_map_of entries) k = map_get (rev entries) k"
proof -
  have "map_get (foldl (\<lambda>m (k, v). map_set m k v) m entries) k
      = (case map_get (rev entries) k of None \<Rightarrow> map_get m k | Some v \<Rightarrow> Some v)" for m
    by (induction entries arbitrary: m) (auto simp: map_add_def split: option.split)
  from this [of "[]"] show ?thesis by (simp add: js_map_of_def split: option.split)
qed

lemma js_map_of_keys [simp]: "fst ` set (js_map_of entries) = fst ` set entries"
proof -
  have "map_get (js_map_of entries) = map_get (rev entries)"
    by (rule ext) (rule js_map_of_get)
  then show ?thesis
    by (metis dom_map_of_conv_image_fst set_rev)
qed

lemma js_map_of_distinct: "distinct (map fst entries) \<Longrightarrow> js_map_of entries = entries"
proof -
  have "distinct (map fst (m @ entries)) \<Longrightarrow>
      foldl (\<lambda>m (k, v). map_set m k v) m entries = m @ entries" for m
  proof (induction entries arbitrary: m)
    case Nil
    then show ?case by simp
  next
    case (Cons p entries)
    obtain k v where p: "p = (k, v)" by (cases p)
    have "k \<notin> set (map_keys m)" using Cons.prems p by auto
    then have "map_set m k v = m @ [(k, v)]"
      by (induction m) (auto simp: p)
    with Cons.IH [of "m @ [(k, v)]"] Cons.prems p show ?case by simp
  qed
  from this [of "[]"] show "distinct (map fst entries) \<Longrightarrow> js_map_of entries = entries"
    by (simp add: js_map_of_def)
qed

lemma orderAggregateCandidates_subset:
  "set (orderAggregateCandidates e index candidates) \<subseteq> set candidates"
proof -
  have "a \<in> set candidates" if "map_get (js_map_of (map (\<lambda>a. (acc_id a, a)) candidates)) i = Some a" for i a
    using that map_of_SomeD by (fastforce simp: js_map_of_get)
  then show ?thesis
    by (auto simp: orderAggregateCandidates_def Let_def List.map_filter_def)
qed

lemma enumerate_swap_keys: "fst ` (\<lambda>(rank, i). (i, rank)) ` set (enumerate n xs) = set xs"
proof -
  have "fst ` (\<lambda>(rank, i). (i, rank)) ` set (enumerate n xs) = snd ` set (enumerate n xs)"
    by (force simp: image_iff)
  also have "\<dots> = set (map snd (enumerate n xs))" by (simp only: set_map)
  finally show ?thesis by (simp only: map_snd_enumerate)
qed

lemma index_keys:
  "fst ` set (ix_orderByAccountId (getAggregatePoolIndex e p))
    = set (ix_orderedAccountIds (getAggregatePoolIndex e p))"
  unfolding getAggregatePoolIndex_def Let_def aggregate_index.simps js_map_of_keys set_map
    enumerate_swap_keys ..

lemma orderAggregateCandidates_nonempty:
  assumes "candidates \<noteq> []"
  shows "orderAggregateCandidates e (getAggregatePoolIndex e p) candidates \<noteq> []"
proof -
  obtain a where a: "a \<in> set candidates" using assms by (cases candidates) auto
  let ?ix = "getAggregatePoolIndex e p"
  let ?m = "js_map_of (map (\<lambda>a. (acc_id a, a)) candidates)"
  show ?thesis
  proof (cases "acc_id a \<in> set (ix_orderedAccountIds ?ix)")
    case False
    then have "map_get (ix_orderByAccountId ?ix) (acc_id a) = None"
      by (simp add: map_get_None_iff index_keys)
    with a have "set (orderAggregateCandidates e ?ix candidates) \<noteq> {}"
      by (auto simp: orderAggregateCandidates_def Let_def)
    then show ?thesis by auto
  next
    case True
    have "acc_id a \<in> set (map_keys ?m)"
      using a by (simp add: image_image)
    then obtain b where "map_get ?m (acc_id a) = Some b"
      by (metis map_get_None_iff not_Some_eq)
    with True have "b \<in> set (orderAggregateCandidates e ?ix candidates)"
      by (auto simp: orderAggregateCandidates_def Let_def List.map_filter_def image_iff)
    then show ?thesis by auto
  qed
qed

section \<open>Weighted draw\<close>

lemma foldl_sum: "foldl (\<lambda>sum a. sum + f a) (x :: real) xs = x + sum_list (map f xs)"
  by (induction xs arbitrary: x) auto

lemma weighted_choice_Some:
  assumes "weighted_choice w t xs = Some a"
  shows "\<exists>ys zs. xs = ys @ a # zs \<and> t < sum_list (map w ys) + w a
    \<and> (ys = [] \<or> sum_list (map w ys) \<le> t)"
  using assms
proof (induction xs arbitrary: t)
  case Nil
  then show ?case by simp
next
  case (Cons x xs)
  show ?case
  proof (cases "t - w x < 0")
    case True
    with Cons.prems show ?thesis by (intro exI [of _ "[]"] exI [of _ xs]) (simp add: Let_def)
  next
    case False
    with Cons.prems have "weighted_choice w (t - w x) xs = Some a" by (simp add: Let_def)
    from Cons.IH [OF this] obtain ys zs where "xs = ys @ a # zs"
      "t - w x < sum_list (map w ys) + w a" "ys = [] \<or> sum_list (map w ys) \<le> t - w x" by blast
    with False show ?thesis by (intro exI [of _ "x # ys"] exI [of _ zs]) auto
  qed
qed

lemma weighted_choice_total:
  "t < sum_list (map w xs) \<Longrightarrow> 0 \<le> t \<Longrightarrow> weighted_choice w t xs \<noteq> None"
  by (induction xs arbitrary: t) (auto simp: Let_def)

lemma weighted_choice_positive:
  assumes "weighted_choice w t xs = Some a" and "0 \<le> t"
  shows "0 < w a"
proof -
  from weighted_choice_Some [OF assms(1)] obtain ys zs where
    "t < sum_list (map w ys) + w a" "ys = [] \<or> sum_list (map w ys) \<le> t" by blast
  with assms(2) show ?thesis by auto
qed

lemma weighted_choice_interval:
  assumes "xs = ys @ a # zs" and "sum_list (map w ys) \<le> t" and "t < sum_list (map w ys) + w a"
    and "\<And>x. x \<in> set xs \<Longrightarrow> 0 \<le> w x"
  shows "weighted_choice w t xs = Some a"
  using assms
proof (induction ys arbitrary: xs t)
  case Nil
  then show ?case by simp
next
  case (Cons y ys)
  have nonneg: "0 \<le> sum_list (map w ys)"
    by (rule sum_list_nonneg) (use Cons.prems in auto)
  have "weighted_choice w (t - w y) (ys @ a # zs) = Some a"
    by (rule Cons.IH [OF refl]) (use Cons.prems in auto)
  with Cons.prems nonneg show ?case by (simp add: Let_def)
qed

section \<open>The tolerance of the automatic balance\<close>

definition best_inv :: "(account \<Rightarrow> real) \<Rightarrow> account list \<Rightarrow> real option \<times> account list \<Rightarrow> bool" where
  "best_inv cost seen = (\<lambda>(m, best).
     case m of
       None \<Rightarrow> seen = []
     | Some c \<Rightarrow> best \<noteq> [] \<and> set best \<subseteq> set seen
         \<and> (\<forall>a \<in> set seen. c - 1 / 1000 \<le> cost a)
         \<and> (\<forall>a \<in> set best. \<bar>cost a - c\<bar> < 1 / 1000))"

lemma best_inv_step:
  "best_inv cost seen r \<Longrightarrow> best_inv cost (seen @ [a]) (best_step cost r a)"
  unfolding best_inv_def best_step_def Let_def
  by (cases r; cases "fst r") (auto split: if_splits)

lemma best_inv_loop:
  "best_inv cost seen r \<Longrightarrow> best_inv cost (seen @ xs) (foldl (best_step cost) r xs)"
proof (induction xs arbitrary: seen r)
  case Nil
  then show ?case by simp
next
  case (Cons x xs)
  from Cons.IH [OF best_inv_step [OF Cons.prems, of x]] show ?case by simp
qed

lemma best_candidates_near_minimum:
  assumes "candidates \<noteq> []"
  shows "best_candidates cost candidates \<noteq> []"
    and "set (best_candidates cost candidates) \<subseteq> set candidates"
    and "a \<in> set (best_candidates cost candidates) \<Longrightarrow> b \<in> set candidates \<Longrightarrow> cost a < cost b + 2 / 1000"
proof -
  obtain m best where r: "foldl (best_step cost) (None, []) candidates = (m, best)"
    by (cases "foldl (best_step cost) (None, []) candidates")
  have inv: "best_inv cost candidates (m, best)"
    using best_inv_loop [of cost "[]" "(None, [])" candidates] by (simp add: best_inv_def r)
  then obtain c where c: "m = Some c" using assms by (cases m) (auto simp: best_inv_def)
  have b: "best_candidates cost candidates = best" by (simp add: best_candidates_def r)
  show "best_candidates cost candidates \<noteq> []" "set (best_candidates cost candidates) \<subseteq> set candidates"
    using inv by (simp_all add: best_inv_def c b)
  show "cost a < cost b + 2 / 1000"
    if "a \<in> set (best_candidates cost candidates)" "b \<in> set candidates" for a b
  proof -
    have "\<bar>cost a - c\<bar> < 1 / 1000" "c - 1 / 1000 \<le> cost b"
      using inv that by (auto simp: best_inv_def c b)
    then show ?thesis by linarith
  qed
qed

lemma random_element_member: "xs \<noteq> [] \<Longrightarrow> random_element xs r \<in> set xs"
  unfolding random_element_def by (rule nth_mem) (cases xs; simp)

lemma pickAutoBalanced_member:
  assumes "candidates \<noteq> []"
  shows "fst (pickAutoBalanced e candidates key s) \<in> set candidates"
proof -
  have "random_element xs r \<in> set candidates" if "xs \<noteq> []" "set xs \<subseteq> set candidates" for xs r
    using random_element_member [OF that(1)] that(2) by auto
  moreover have "hd (best_candidates cost candidates) \<in> set candidates" for cost
    using best_candidates_near_minimum(1,2) [OF assms] hd_in_set by blast
  ultimately show ?thesis
    using best_candidates_near_minimum(1,2) [OF assms]
    by (auto simp: pickAutoBalanced_def Let_def draw_def)
qed

end
