(* ===== verification/Scheduler_Proofs.thy ===== *)
theory Scheduler_Proofs
  imports Scheduler Selection_Proofs Sticky_Proofs Health_Proofs
begin

text \<open>
  Selection with acquisition: which accounts can come out of it, that a slot is taken exactly
  once, what each step leaves alone, and that verified members go before unknown ones.
\<close>

section \<open>What an availability check touches\<close>

text \<open>The part of the health state that belongs to one account.\<close>

definition availability_view ::
  "health_state \<Rightarrow> string \<Rightarrow> runtime_health option \<times> (string, model_cooldown) js_map option \<times> real option" where
  "availability_view h i = (hs_health h i, hs_modelCooldowns h i, hs_quotaHalfOpen h i)"

lemma transitions_local:
  "j \<noteq> i \<Longrightarrow> availability_view (open_to_half_open i now h) j = availability_view h j"
  "j \<noteq> acc_id a \<Longrightarrow> availability_view (admit_quota_probe a now h) j = availability_view h j"
  "j \<noteq> i \<Longrightarrow> availability_view (snd (isModelAvailable i m now h)) j = availability_view h j"
  by (simp_all add: availability_view_def open_to_half_open_def admit_quota_probe_def
      isModelAvailable_def put_cooldowns_def Let_def split: option.split)

lemma isAvailable_local:
  "j \<noteq> acc_id a \<Longrightarrow> availability_view (snd (isAvailable a q now m load h)) j = availability_view h j"
  by (auto simp: isAvailable_split Let_def transitions_local split: option.split)

lemma transitions_depend:
  assumes "availability_view h i = availability_view h' i"
  shows "availability_view (open_to_half_open i now h) i = availability_view (open_to_half_open i now h') i"
    and "fst (isModelAvailable i m now h) = fst (isModelAvailable i m now h')"
    and "availability_view (snd (isModelAvailable i m now h)) i
       = availability_view (snd (isModelAvailable i m now h')) i"
  using assms
  by (simp_all add: availability_view_def open_to_half_open_def
      isModelAvailable_def put_cooldowns_def split: option.split)

lemma admit_depends:
  "availability_view h (acc_id a) = availability_view h' (acc_id a) \<Longrightarrow>
   availability_view (admit_quota_probe a now h) (acc_id a)
     = availability_view (admit_quota_probe a now h') (acc_id a)"
  by (auto simp: availability_view_def admit_quota_probe_def Let_def split: option.split)

lemma isAvailable_depends:
  assumes "availability_view h (acc_id a) = availability_view h' (acc_id a)"
  shows "fst (isAvailable a q now m load h) = fst (isAvailable a q now m load h')"
proof -
  define start where "start = (\<lambda>h. case truthy m of None \<Rightarrow> h | Some x \<Rightarrow> snd (isModelAvailable (acc_id a) x now h))"
  define final where "final = (\<lambda>h. admit_quota_probe a now (open_to_half_open (acc_id a) now (start h)))"
  have "availability_view (start h) (acc_id a) = availability_view (start h') (acc_id a)"
    using assms transitions_depend(3) [OF assms] by (simp add: start_def split: option.split)
  then have "availability_view (final h) (acc_id a) = availability_view (final h') (acc_id a)"
    unfolding final_def by (intro admit_depends transitions_depend(1))
  then have "hs_health (final h) (acc_id a) = hs_health (final h') (acc_id a)"
    by (simp add: availability_view_def)
  then show ?thesis
    using transitions_depend(2) [OF assms]
    by (auto simp: isAvailable_split Let_def final_def start_def split: option.splits)
qed

text \<open>Asking twice at one instant gives the same verdict.\<close>

lemma isModelAvailable_repeat:
  assumes "fst (isModelAvailable i m now h)"
  shows "fst (isModelAvailable i m now (snd (isModelAvailable i m now h)))"
  using assms
  by (auto simp: isModelAvailable_def put_cooldowns_def split: option.split)

lemma isModelAvailable_cooldowns:
  "hs_modelCooldowns h i = hs_modelCooldowns h' i \<Longrightarrow>
   fst (isModelAvailable i m now h) = fst (isModelAvailable i m now h')"
  by (simp add: isModelAvailable_def split: option.split)

lemma isModelAvailable_quota [simp]:
  "hs_quotaHalfOpen (snd (isModelAvailable i m now h)) = hs_quotaHalfOpen h"
  by (simp add: isModelAvailable_def split: option.split)

lemma transitions_settled:
  assumes "z = admit_quota_probe a now (open_to_half_open (acc_id a) now h)"
    and "hs_health x (acc_id a) = hs_health z (acc_id a)"
    and "hs_quotaHalfOpen x (acc_id a) = hs_quotaHalfOpen z (acc_id a)"
  shows "hs_health (admit_quota_probe a now (open_to_half_open (acc_id a) now x)) (acc_id a)
    = hs_health z (acc_id a)"
proof -
  have "hs_health (open_to_half_open (acc_id a) now x) (acc_id a) = hs_health z (acc_id a)"
    using assms(1,2)
    by (auto simp: open_to_half_open_def admit_quota_probe_def closed_health_def Let_def
        split: option.splits if_splits)
  moreover have "expiredResetlessQuotaObservation a now = Some t \<Longrightarrow> hs_quotaHalfOpen z (acc_id a) = Some t" for t
    using assms(1) by (auto simp: admit_quota_probe_def Let_def)
  ultimately show ?thesis
    using assms(3) by (auto simp: admit_quota_probe_def Let_def split: option.split)
qed

lemma isAvailable_repeat:
  "fst (isAvailable a q now m load (snd (isAvailable a q now m load h)))
    = fst (isAvailable a q now m load h)"
proof (cases "case truthy m of None \<Rightarrow> True | Some x \<Rightarrow> fst (isModelAvailable (acc_id a) x now h)")
  case False
  then show ?thesis
    by (auto simp: isAvailable_split isModelAvailable_def split: option.splits if_splits)
next
  case True
  define h0 where "h0 = (case truthy m of None \<Rightarrow> h | Some x \<Rightarrow> snd (isModelAvailable (acc_id a) x now h))"
  define z where "z = admit_quota_probe a now (open_to_half_open (acc_id a) now h0)"
  define x0 where "x0 = (case truthy m of None \<Rightarrow> z | Some x \<Rightarrow> snd (isModelAvailable (acc_id a) x now z))"
  have first: "isAvailable a q now m load h = (admissible a q now load (hs_health z (acc_id a)), z)"
    using True by (simp add: isAvailable_split Let_def h0_def z_def)
  have "hs_modelCooldowns z = hs_modelCooldowns h0" by (simp add: z_def)
  then have again: "case truthy m of None \<Rightarrow> True | Some x \<Rightarrow> fst (isModelAvailable (acc_id a) x now z)"
    using True isModelAvailable_repeat isModelAvailable_cooldowns [of z "acc_id a" h0]
    by (auto simp: h0_def split: option.splits)
  have "hs_health (admit_quota_probe a now (open_to_half_open (acc_id a) now x0)) (acc_id a)
      = hs_health z (acc_id a)"
    by (rule transitions_settled [OF z_def]) (simp_all add: x0_def split: option.split)
  then show ?thesis
    using again unfolding first by (simp add: isAvailable_split Let_def x0_def)
qed

section \<open>The verdict of the scheduler on one member\<close>

lemma schedulerAvailable_eq:
  "schedulerAvailable now a q m s =
     (fst (isAvailable a q now m (inFlight s a) (sd_health s)),
      s\<lparr>sd_health := snd (isAvailable a q now m (inFlight s a) (sd_health s))\<rparr>)"
  by (simp add: schedulerAvailable_def split_beta)

lemma health_irrelevant [simp]:
  "inFlight (s\<lparr>sd_health := h\<rparr>) a = inFlight s a"
  "active_slots (s\<lparr>sd_health := h\<rparr>) i = active_slots s i"
  by (simp_all add: inFlight_def active_slots_def)

lemma hasCapacity_health:
  "hs_performance h = hs_performance (sd_health s) \<Longrightarrow> hasCapacity (s\<lparr>sd_health := h\<rparr>) b a = hasCapacity s b a"
  by (simp add: hasCapacity_def concurrencyLimit_def performance_of_def Let_def cong: if_cong)

lemma isEligible_eq:
  "fst (isEligible now a p b m s) \<longleftrightarrow>
     fst (isAvailable a (pool_quotaProtection p) now m (inFlight s a) (sd_health s)) \<and> hasCapacity s b a"
  "snd (isEligible now a p b m s) =
     s\<lparr>sd_health := snd (isAvailable a (pool_quotaProtection p) now m (inFlight s a) (sd_health s))\<rparr>"
  by (simp_all add: isEligible_def schedulerAvailable_eq hasCapacity_health Let_def)

definition runnable :: "env \<Rightarrow> selection_input \<Rightarrow> scheduler \<Rightarrow> account \<Rightarrow> bool" where
  "runnable e i s a \<longleftrightarrow>
     acc_id a \<notin> set (in_excludedAccountIds i)
     \<and> fst (isAvailable a (pool_quotaProtection (in_pool i)) (env_now e) (Some (cooldown_key i))
              (inFlight s a) (sd_health s))
     \<and> hasCapacity s (pool_strategy (in_pool i) = Autobalanced) a"

lemma runtimeEligible_eq:
  "fst (runtimeEligible e i s a) = runnable e i s a"
  "\<exists>h. snd (runtimeEligible e i s a) = s\<lparr>sd_health := h\<rparr> \<and> hs_performance h = hs_performance (sd_health s)
     \<and> (\<forall>b. runnable e i (snd (runtimeEligible e i s a)) b = runnable e i s b
          \<or> acc_id b = acc_id a \<and> b \<noteq> a)"
proof -
  show "fst (runtimeEligible e i s a) = runnable e i s a"
    by (simp add: runtimeEligible_def runnable_def isEligible_eq)
  show "\<exists>h. snd (runtimeEligible e i s a) = s\<lparr>sd_health := h\<rparr> \<and> hs_performance h = hs_performance (sd_health s)
     \<and> (\<forall>b. runnable e i (snd (runtimeEligible e i s a)) b = runnable e i s b
          \<or> acc_id b = acc_id a \<and> b \<noteq> a)"
  proof (cases "acc_id a \<in> set (in_excludedAccountIds i)")
    case True
    then show ?thesis by (intro exI [of _ "sd_health s"]) (simp add: runtimeEligible_def)
  next
    case False
    let ?h = "snd (isAvailable a (pool_quotaProtection (in_pool i)) (env_now e) (Some (cooldown_key i))
        (inFlight s a) (sd_health s))"
    have s': "snd (runtimeEligible e i s a) = s\<lparr>sd_health := ?h\<rparr>"
      using False by (simp add: runtimeEligible_def isEligible_eq)
    have "runnable e i (s\<lparr>sd_health := ?h\<rparr>) b = runnable e i s b \<or> acc_id b = acc_id a \<and> b \<noteq> a" for b
    proof (cases "b = a")
      case True
      then show ?thesis by (simp add: runnable_def hasCapacity_health isAvailable_repeat)
    next
      case False
      show ?thesis
      proof (cases "acc_id b = acc_id a")
        case True
        with False show ?thesis by simp
      next
        case ne: False
        have "fst (isAvailable b q now m load ?h) = fst (isAvailable b q now m load (sd_health s))" for q now m load
          by (rule isAvailable_depends) (rule isAvailable_local [OF ne])
        then show ?thesis by (simp add: runnable_def hasCapacity_health)
      qed
    qed
    then show ?thesis unfolding s' by (intro exI [of _ ?h]) simp
  qed
qed

text \<open>So the tier's filter does not depend on the order in which it asks.\<close>

lemma runnable_filter:
  assumes "distinct (map acc_id (xs @ ys))"
  shows "fst (filter_state (runtimeEligible e i) s xs) = filter (runnable e i s) xs"
    and "\<exists>h. snd (filter_state (runtimeEligible e i) s xs) = s\<lparr>sd_health := h\<rparr>
       \<and> hs_performance h = hs_performance (sd_health s)
       \<and> (\<forall>b \<in> set (xs @ ys). runnable e i (s\<lparr>sd_health := h\<rparr>) b = runnable e i s b)"
proof -
  define P where "P = (\<lambda>t. (\<exists>h. t = s\<lparr>sd_health := h\<rparr> \<and> hs_performance h = hs_performance (sd_health s))
      \<and> (\<forall>b \<in> set (xs @ ys). runnable e i t b = runnable e i s b))"
  have P0: "P s" unfolding P_def by (auto intro!: exI [of _ "sd_health s"])
  have keep: "P (snd (runtimeEligible e i t x))" if "x \<in> set xs" "P t" for t x
  proof -
    obtain h where h: "snd (runtimeEligible e i t x) = t\<lparr>sd_health := h\<rparr>"
      "hs_performance h = hs_performance (sd_health t)"
      and v: "\<And>b. runnable e i (snd (runtimeEligible e i t x)) b = runnable e i t b
          \<or> acc_id b = acc_id x \<and> b \<noteq> x"
      using runtimeEligible_eq(2) [of e i t x] by blast
    have same: "b = x" if "b \<in> set (xs @ ys)" "acc_id b = acc_id x" for b
    proof -
      have "inj_on acc_id (set (xs @ ys))" using assms by (simp only: distinct_map)
      then show ?thesis using that \<open>x \<in> set xs\<close> by (meson UnI1 inj_onD set_append [THEN equalityD2, THEN subsetD])
    qed
    have "runnable e i (snd (runtimeEligible e i t x)) b = runnable e i t b" if "b \<in> set (xs @ ys)" for b
      using v [of b] same [OF that] by blast
    moreover obtain h0 where "t = s\<lparr>sd_health := h0\<rparr>" "hs_performance h0 = hs_performance (sd_health s)"
      using \<open>P t\<close> by (auto simp: P_def)
    ultimately show ?thesis
      using \<open>P t\<close> h unfolding P_def by auto
  qed
  show "fst (filter_state (runtimeEligible e i) s xs) = filter (runnable e i s) xs"
    by (rule filter_state_pure [where P = P]) (use P0 keep runtimeEligible_eq(1) in \<open>auto simp: P_def\<close>)
  have "P (snd (filter_state (runtimeEligible e i) s xs))"
  proof (rule filter_state_inv [where P = P and xs = xs and s = s and f = "runtimeEligible e i"
          and ys = "fst (filter_state (runtimeEligible e i) s xs)"])
    show "P t" if "x \<in> set xs" "P u" "runtimeEligible e i u x = (b, t)" for u x b t
      using keep [OF that(1,2)] that(3) by simp
  qed (use P0 in simp_all)
  then show "\<exists>h. snd (filter_state (runtimeEligible e i) s xs) = s\<lparr>sd_health := h\<rparr>
       \<and> hs_performance h = hs_performance (sd_health s)
       \<and> (\<forall>b \<in> set (xs @ ys). runnable e i (s\<lparr>sd_health := h\<rparr>) b = runnable e i s b)"
    unfolding P_def by auto
qed

lemma distinct_tiers:
  assumes "distinct (map acc_id (in_accounts i))"
  shows "distinct (map acc_id (er_verified (source_eligibility i) @ er_unknown (source_eligibility i)))"
proof -
  let ?V = "er_verified (source_eligibility i)" and ?U = "er_unknown (source_eligibility i)"
  have sub: "set ?V \<union> set ?U \<subseteq> set (in_accounts i)"
    using er_verified_subset er_unknown_subset by (fastforce simp: source_eligibility_def)
  have "inj_on acc_id (set (in_accounts i))" and d: "distinct (in_accounts i)"
    using assms by (simp_all add: distinct_map)
  then have "inj_on acc_id (set ?V \<union> set ?U)" using sub by (meson inj_on_subset)
  moreover have "distinct ?V" "distinct ?U"
    using d by (simp_all add: source_eligibility_def eligibility_simps)
  moreover have "set ?V \<inter> set ?U = {}"
    unfolding source_eligibility_def by (rule er_tiers_disjoint)
  ultimately show ?thesis by (simp only: distinct_map set_append distinct_append)
qed

text \<open>The candidates: the runnable verified members, else the runnable unknown ones.\<close>

lemma runnable_candidates_eq:
  assumes "distinct (map acc_id (in_accounts i))"
  defines "V \<equiv> er_verified (source_eligibility i)" and "U \<equiv> er_unknown (source_eligibility i)"
  shows "fst (runnable_candidates e i (source_eligibility i) s) =
      (if filter (runnable e i s) V \<noteq> [] then filter (runnable e i s) V else filter (runnable e i s) U)"
    and "\<exists>h. snd (runnable_candidates e i (source_eligibility i) s) = s\<lparr>sd_health := h\<rparr>
       \<and> hs_performance h = hs_performance (sd_health s)"
proof -
  note d = distinct_tiers [OF assms(1), folded V_def U_def]
  note first = runnable_filter [OF d, of e i s]
  obtain h where h: "snd (filter_state (runtimeEligible e i) s V) = s\<lparr>sd_health := h\<rparr>"
    "hs_performance h = hs_performance (sd_health s)"
    "\<And>b. b \<in> set (V @ U) \<Longrightarrow> runnable e i (s\<lparr>sd_health := h\<rparr>) b = runnable e i s b"
    using first(2) by blast
  have "distinct (map acc_id (U @ []))" using d by simp
  note second = runnable_filter [OF this, of e i "s\<lparr>sd_health := h\<rparr>"]
  have flip: "filter (runnable e i (s\<lparr>sd_health := h\<rparr>)) U = filter (runnable e i s) U"
    using h(3) by (intro filter_cong) auto
  show "fst (runnable_candidates e i (source_eligibility i) s) =
      (if filter (runnable e i s) V \<noteq> [] then filter (runnable e i s) V else filter (runnable e i s) U)"
    using first(1) second(1) flip h(1)
    by (simp add: runnable_candidates_def split_beta Let_def flip: V_def U_def)
  show "\<exists>h. snd (runnable_candidates e i (source_eligibility i) s) = s\<lparr>sd_health := h\<rparr>
       \<and> hs_performance h = hs_performance (sd_health s)"
    using second(2) h(1,2)
    by (auto simp: runnable_candidates_def split_beta Let_def simp flip: V_def U_def)
qed

section \<open>The pick\<close>

definition draws_ok :: "env \<Rightarrow> bool" where
  "draws_ok e \<longleftrightarrow> (\<forall>n. 0 \<le> env_random e n \<and> env_random e n < 1)"

text \<open>Everything but the strategies' own bookkeeping stays.\<close>

definition pick_frame :: "scheduler \<Rightarrow> scheduler \<Rightarrow> bool" where
  "pick_frame s t \<longleftrightarrow>
     t = s\<lparr>sd_draws := sd_draws t, sd_roundRobinOffsets := sd_roundRobinOffsets t,
            sd_smoothWeighted := sd_smoothWeighted t\<rparr>"

lemma pick_frame_refl [simp]: "pick_frame s s"
  by (simp add: pick_frame_def)

lemma pick_frame_draw [simp]: "pick_frame s (snd (draw e s))"
  by (simp add: pick_frame_def draw_def)

lemma draw_eq [simp]: "fst (draw e s) = env_random e (sd_draws s)" "snd (draw e s) = s\<lparr>sd_draws := sd_draws s + 1\<rparr>"
  by (simp_all add: draw_def)

lemma pickAutoBalanced_frame: "pick_frame s (snd (pickAutoBalanced e candidates key s))"
  by (auto simp: pickAutoBalanced_def Let_def split_beta pick_frame_def)

lemma pickSmoothWeighted_frame: "pick_frame s (snd (pickSmoothWeighted e p candidates configured s))"
  by (simp add: pickSmoothWeighted_def Let_def split_beta pick_frame_def)

lemma pick_preserves: "pick_frame s (snd (pick e p candidates configured key s))"
proof (cases "pool_strategy p")
  case Autobalanced
  then show ?thesis using pickAutoBalanced_frame by (simp add: pick_def split_beta)
next
  case Weighted_Round_Robin
  have "snd (pick e p candidates configured key s) = snd (pickSmoothWeighted e p candidates configured s)"
    using Weighted_Round_Robin by (simp add: pick_def split: prod.split option.split)
  then show ?thesis using pickSmoothWeighted_frame by simp
qed (auto simp: pick_def Let_def split_beta pick_frame_def split: option.split)

lemma smooth_step_member:
  "foldl (smooth_step w) (tw, sel, c) xs = (tw', sel', c') \<Longrightarrow>
   (sel' = sel \<or> (\<exists>a v. a \<in> set xs \<and> sel' = Some (a, v))) \<and> (xs \<noteq> [] \<longrightarrow> sel' \<noteq> None)"
proof (induction xs arbitrary: tw sel c)
  case Nil
  then show ?case by simp
next
  case (Cons x xs)
  obtain tw1 sel1 c1 where step: "smooth_step w (tw, sel, c) x = (tw1, sel1, c1)"
    by (cases "smooth_step w (tw, sel, c) x") auto
  then have sel1: "sel1 \<noteq> None" "sel1 = sel \<or> (\<exists>v. sel1 = Some (x, v))"
    by (auto simp: smooth_step_def Let_def split: option.splits if_splits)
  have "foldl (smooth_step w) (tw1, sel1, c1) xs = (tw', sel', c')" using Cons.prems step by simp
  from Cons.IH [OF this] sel1 show ?case by (cases xs) auto
qed

lemma pickSmoothWeighted_member:
  assumes "candidates \<noteq> []"
  shows "\<exists>a \<in> set candidates. fst (pickSmoothWeighted e p candidates configured s) = Some a"
proof -
  define xs where "xs = (if isRelayAggregate p
      then orderAggregateCandidates e (getAggregatePoolIndex e p) candidates else candidates)"
  have xs: "xs \<noteq> []" "set xs \<subseteq> set candidates"
    using assms orderAggregateCandidates_nonempty orderAggregateCandidates_subset by (auto simp: xs_def)
  have "\<exists>a \<in> set xs. fst (smooth_round w xs c) = Some a" for w c
    using smooth_step_member [of w 0 None c xs] xs(1)
    by (cases "foldl (smooth_step w) (0, None, c) xs") (fastforce simp: smooth_round_def)
  moreover have "\<exists>w c. fst (pickSmoothWeighted e p candidates configured s) = fst (smooth_round w xs c)"
    by (auto simp: pickSmoothWeighted_def Let_def split_beta xs_def)
  ultimately show ?thesis using xs(2) by (metis subsetD)
qed

lemma pick_member:
  assumes "candidates \<noteq> []" and "isSupportedPoolStrategy (pool_strategy p)" and "draws_ok e"
  shows "\<exists>a \<in> set candidates. fst (pick e p candidates configured key s) = Inr a"
proof -
  have len: "0 < length candidates" using assms(1) by simp
  show ?thesis
  proof (cases "pool_strategy p")
    case Priority
    then show ?thesis using selectMinimum_score(1) [OF assms(1)] by (simp add: pick_def)
  next
    case Balanced
    then show ?thesis using selectMinimum_score(1) [OF assms(1)] by (simp add: pick_def)
  next
    case Autobalanced
    then show ?thesis using pickAutoBalanced_member [OF assms(1)] by (simp add: pick_def split_beta)
  next
    case Round_Robin
    have "xs ! (n mod length xs) \<in> set candidates" if "xs \<noteq> []" "set xs \<subseteq> set candidates" for xs n
      using that nth_mem [of "n mod length xs" xs] by auto
    then show ?thesis
      using assms(1) orderAggregateCandidates_nonempty [OF assms(1)] orderAggregateCandidates_subset
      by (simp add: pick_def Round_Robin Let_def)
  next
    case Weighted_Round_Robin
    then show ?thesis
      using pickSmoothWeighted_member [OF assms(1), of e p configured s]
      by (cases "pickSmoothWeighted e p candidates configured s") (auto simp: pick_def)
  next
    case Weighted_Random
    let ?r = "env_random e (sd_draws s)"
    have r: "0 \<le> ?r" "?r < 1" using assms(3) by (auto simp: draws_ok_def)
    have "?r * real (length candidates) < real (length candidates)"
      using r(2) len by simp
    then have "nat \<lfloor>?r * real (length candidates)\<rfloor> < length candidates"
      using r(1) len by (simp add: nat_less_iff floor_less_iff)
    then have "candidates ! nat \<lfloor>?r * real (length candidates)\<rfloor> \<in> set candidates" by simp
    moreover have "a \<in> set candidates" if "weighted_choice w t candidates = Some a" for w t a
      using weighted_choice_Some [OF that] by auto
    ultimately show ?thesis
      using assms(1) by (auto simp: pick_def Weighted_Random Let_def split_beta split: option.split)
  next
    case (Other_Strategy x)
    then show ?thesis using assms(2) by (simp add: isSupportedPoolStrategy_def)
  qed
qed

section \<open>The session\<close>

lemma resolve_sticky_frame:
  "snd (snd (snd (resolve_sticky e p candidates key s)))
     = s\<lparr>sd_sticky := sd_sticky (snd (snd (snd (resolve_sticky e p candidates key s))))\<rparr>"
  by (simp add: resolve_sticky_def Let_def split_beta split: option.split)

lemma resolve_sticky_member:
  "fst (resolve_sticky e p candidates key s) = Some a \<Longrightarrow> a \<in> set candidates"
  by (auto simp: resolve_sticky_def Let_def split_beta find_Some_iff
      split: option.splits if_splits)

lemma preferred_candidates_subset:
  "candidates \<noteq> [] \<Longrightarrow>
   preferred_candidates candidates x y \<noteq> [] \<and> set (preferred_candidates candidates x y) \<subseteq> set candidates"
  by (auto simp: preferred_candidates_def Let_def)

section \<open>Selection\<close>

text \<open>What selection leaves alone apart from the acquisition itself.\<close>

definition selection_frame :: "scheduler \<Rightarrow> scheduler \<Rightarrow> bool" where
  "selection_frame s t \<longleftrightarrow>
     sd_active t = sd_active s \<and> sd_sessions t = sd_sessions s \<and> sd_waiters t = sd_waiters s
     \<and> sd_waiterCounts t = sd_waiterCounts s \<and> sd_nextWaiterId t = sd_nextWaiterId s
     \<and> sd_maxPending t = sd_maxPending s \<and> sd_maxPendingPerPool t = sd_maxPendingPerPool s
     \<and> sd_settled t = sd_settled s"

lemma selection_frame_refl [simp]: "selection_frame s s"
  by (simp add: selection_frame_def)

lemma selection_frame_trans:
  "selection_frame s t \<Longrightarrow> selection_frame t u \<Longrightarrow> selection_frame s u"
  by (simp add: selection_frame_def)

lemma pick_frame_selection:
  assumes "pick_frame s t"
  shows "selection_frame s t \<and> sd_health t = sd_health s \<and> sd_sticky t = sd_sticky s"
  by (subst (1 2 3) assms [unfolded pick_frame_def]) (simp add: selection_frame_def)

definition sticky_key :: "selection_input \<Rightarrow> string option" where
  "sticky_key i =
     (if pool_stickySessions (in_pool i) then boundedStickyKey (pool_id (in_pool i)) (in_sessionId i)
      else None)"

definition committed ::
    "env \<Rightarrow> selection_input \<Rightarrow> account \<Rightarrow> scheduler \<Rightarrow> (scheduler_error + selection) \<times> scheduler" where
  "committed e i a t =
     (Inr (fst (commit_selection e (in_pool i) (sticky_key i) a t)),
      snd (commit_selection e (in_pool i) (sticky_key i) a t))"

lemma choose_and_commit_spec:
  assumes "candidates \<noteq> []" and "isSupportedPoolStrategy (pool_strategy (in_pool i))" and "draws_ok e"
  shows "\<exists>a \<in> set candidates. \<exists>t. choose_and_commit e i candidates s = committed e i a t
    \<and> selection_frame s t \<and> sd_health t = sd_health s"
proof -
  let ?p = "in_pool i"
  define r where "r = (case sticky_key i of None \<Rightarrow> (None, None, None, s)
      | Some key \<Rightarrow> resolve_sticky e ?p candidates key s)"
  obtain kept x y s1 where r4: "r = (kept, x, y, s1)" by (cases r) auto
  have s1: "s1 = s\<lparr>sd_sticky := sd_sticky s1\<rparr>"
  proof (cases "sticky_key i")
    case None
    with r4 show ?thesis by (simp add: r_def)
  next
    case (Some key)
    with r4 resolve_sticky_frame [of e ?p candidates key s] show ?thesis by (simp add: r_def)
  qed
  have f1: "selection_frame s s1 \<and> sd_health s1 = sd_health s"
    by (subst s1, subst (2) s1) (simp add: selection_frame_def)
  show ?thesis
  proof (cases kept)
    case (Some a)
    have "a \<in> set candidates"
    proof (cases "sticky_key i")
      case None
      with r4 Some show ?thesis by (simp add: r_def)
    next
      case key: (Some key)
      with r4 Some resolve_sticky_member [of e ?p candidates key s a] show ?thesis by (simp add: r_def)
    qed
    moreover have "choose_and_commit e i candidates s = committed e i a s1"
      unfolding choose_and_commit_def Let_def sticky_key_def [symmetric]
      by (simp add: r4 [unfolded r_def] Some committed_def split_beta)
    ultimately show ?thesis using f1 by blast
  next
    case None
    let ?ys = "preferred_candidates candidates x y"
    obtain a where a: "a \<in> set ?ys" "fst (pick e ?p ?ys (in_accounts i) (sticky_key i) s1) = Inr a"
      using pick_member [OF _ assms(2,3)] preferred_candidates_subset [OF assms(1)] by blast
    obtain t where t: "pick e ?p ?ys (in_accounts i) (sticky_key i) s1 = (Inr a, t)"
      using a(2) by (metis prod.collapse)
    obtain sel u where u: "commit_selection e ?p (sticky_key i) a t = (sel, u)"
      by (cases "commit_selection e ?p (sticky_key i) a t")
    have "choose_and_commit e i candidates s = committed e i a t"
      unfolding choose_and_commit_def Let_def sticky_key_def [symmetric]
      by (simp add: r4 [unfolded r_def] None committed_def t u)
    moreover have "selection_frame s1 t \<and> sd_health t = sd_health s1"
      using pick_frame_selection [OF pick_preserves [of s1 e ?p ?ys]] t by (metis snd_conv)
    moreover have "a \<in> set candidates" using a(1) preferred_candidates_subset [OF assms(1)] by blast
    ultimately show ?thesis using f1 selection_frame_trans by metis
  qed
qed

lemma performance_of_irrelevant [simp]:
  "performance_of (s\<lparr>sd_sticky := c\<rparr>) = performance_of s"
  "performance_of (s\<lparr>sd_smoothWeighted := m\<rparr>) = performance_of s"
  by (rule ext, simp add: performance_of_def)+

lemma runnable_irrelevant [simp]:
  "runnable e i (s\<lparr>sd_sticky := c\<rparr>) = runnable e i s"
  "runnable e i (s\<lparr>sd_smoothWeighted := m\<rparr>) = runnable e i s"
  by (rule ext, simp add: runnable_def inFlight_def active_slots_def hasCapacity_def
      concurrencyLimit_def Let_def cong: if_cong)+

definition runnable_tier :: "env \<Rightarrow> selection_input \<Rightarrow> scheduler \<Rightarrow> account list" where
  "runnable_tier e i s =
     (let verified = filter (runnable e i s) (er_verified (source_eligibility i))
      in if verified \<noteq> [] then verified
         else filter (runnable e i s) (er_unknown (source_eligibility i)))"

definition model_exposed :: "selection_input \<Rightarrow> bool" where
  "model_exposed i \<longleftrightarrow>
     (pool_modelPolicy (in_pool i) = Selected_Models \<longrightarrow> in_model i \<in> set (pool_modelAllowlist (in_pool i)))
     \<and> er_modelEligible (source_eligibility i) \<noteq> []"

text \<open>
  The whole of selection in one equation: the check of the pool's policy and of the catalogue,
  then the runnable tier, then the choice.
\<close>

lemma selectAndAcquire_eq:
  assumes sup: "isSupportedPoolStrategy (pool_strategy (in_pool i))"
    and ids: "distinct (map acc_id (in_accounts i))"
  obtains t u where "selection_frame s t" "selection_frame s u"
    "sd_sticky u = cleanupExpiredSticky (env_now e) (sd_sticky s)"
    "sd_sticky t = cleanupExpiredSticky (env_now e) (sd_sticky s)"
    "hs_performance (sd_health u) = hs_performance (sd_health s)"
    "selectAndAcquire e i s =
      (if \<not> model_exposed i then (Inl Model_Not_Exposed, t)
       else if runnable_tier e i s = [] then
         (Inl (No_Eligible_Account (map acc_id (er_verified (source_eligibility i))
            @ map acc_id (er_unknown (source_eligibility i))) no_eligible_message), u)
       else choose_and_commit e i (runnable_tier e i s) u)"
proof -
  let ?p = "in_pool i" and ?r = "source_eligibility i"
  define s2 where "s2 = (let s1 = s\<lparr>sd_sticky := cleanupExpiredSticky (env_now e) (sd_sticky s)\<rparr>
      in if pool_strategy ?p \<noteq> Weighted_Round_Robin
         then s1\<lparr>sd_smoothWeighted := (sd_smoothWeighted s1)(pool_id ?p := None)\<rparr> else s1)"
  have f2: "selection_frame s s2" "sd_sticky s2 = cleanupExpiredSticky (env_now e) (sd_sticky s)"
    "sd_health s2 = sd_health s"
    by (simp_all add: s2_def Let_def selection_frame_def)
  have run2: "runnable e i s2 = runnable e i s" by (simp add: s2_def Let_def)
  obtain h where h: "snd (runnable_candidates e i ?r s2) = s2\<lparr>sd_health := h\<rparr>"
    "hs_performance h = hs_performance (sd_health s2)"
    using runnable_candidates_eq(2) [OF ids, of e s2] by blast
  have "fst (runnable_candidates e i ?r s2) = runnable_tier e i s"
    unfolding runnable_candidates_eq(1) [OF ids, of e s2] run2 runnable_tier_def Let_def ..
  with h have cand: "runnable_candidates e i ?r s2 = (runnable_tier e i s, s2\<lparr>sd_health := h\<rparr>)"
    by (metis prod.collapse)
  let ?s3 = "s2\<lparr>sd_health := h\<rparr>"
  have f3: "selection_frame s ?s3"
    by (rule selection_frame_trans [OF f2(1)]) (simp add: selection_frame_def)
  have eq: "selectAndAcquire e i s =
      (if \<not> model_exposed i then (Inl Model_Not_Exposed, s2)
       else if runnable_tier e i s = [] then
         (Inl (No_Eligible_Account (map acc_id (er_verified ?r) @ map acc_id (er_unknown ?r)) no_eligible_message), ?s3)
       else choose_and_commit e i (runnable_tier e i s) ?s3)"
    using sup cand unfolding selectAndAcquire_def Let_def s2_def [unfolded Let_def, symmetric]
    by (simp add: model_exposed_def)
  show thesis
    by (rule that [OF f2(1) f3 _ _ _ eq]) (simp_all add: f2 h)
qed

lemma selectAndAcquire_unsupported:
  "\<not> isSupportedPoolStrategy (pool_strategy (in_pool i)) \<Longrightarrow>
   selectAndAcquire e i s = (Inl (Unsupported_Pool_Strategy (pool_strategy (in_pool i))), s)"
  by (simp add: selectAndAcquire_def)

lemma selectAndAcquire_cases:
  assumes "draws_ok e" and ids: "distinct (map acc_id (in_accounts i))"
  obtains (Failed) err t where "selectAndAcquire e i s = (Inl err, t)" "selection_frame s t"
    "\<not> (isSupportedPoolStrategy (pool_strategy (in_pool i)) \<and> model_exposed i \<and> runnable_tier e i s \<noteq> [])"
  | (Selected) a t where "a \<in> set (runnable_tier e i s)" "selectAndAcquire e i s = committed e i a t"
    "selection_frame s t" "isSupportedPoolStrategy (pool_strategy (in_pool i))" "model_exposed i"
proof (cases "isSupportedPoolStrategy (pool_strategy (in_pool i))")
  case False
  show thesis by (rule Failed [OF selectAndAcquire_unsupported [OF False]]) (simp_all add: False)
next
  case sup: True
  obtain t u where tu: "selection_frame s t" "selection_frame s u"
    and eq: "selectAndAcquire e i s =
      (if \<not> model_exposed i then (Inl Model_Not_Exposed, t)
       else if runnable_tier e i s = [] then
         (Inl (No_Eligible_Account (map acc_id (er_verified (source_eligibility i))
            @ map acc_id (er_unknown (source_eligibility i))) no_eligible_message), u)
       else choose_and_commit e i (runnable_tier e i s) u)"
    by (rule selectAndAcquire_eq [OF sup ids])
  show thesis
  proof (cases "model_exposed i \<and> runnable_tier e i s \<noteq> []")
    case True
    then obtain a v where "a \<in> set (runnable_tier e i s)" "selection_frame u v"
      "choose_and_commit e i (runnable_tier e i s) u = committed e i a v"
      using choose_and_commit_spec [OF _ sup assms(1), of "runnable_tier e i s" u] by blast
    then show thesis
      using Selected [of a v] True sup eq tu(2) selection_frame_trans by auto
  next
    case False
    then show thesis
      using eq tu Failed by (cases "model_exposed i") auto
  qed
qed

text \<open>What a commitment does.\<close>

lemma commit_fields [simp]:
  "sel_account (fst (commit_selection e p k a t)) = a"
  "sel_lease (fst (commit_selection e p k a t)) = \<lparr>ls_stickyKey = k, ls_accountId = acc_id a, ls_released = False\<rparr>"
  "sd_active (snd (commit_selection e p k a t)) = (sd_active t)(acc_id a \<mapsto> active_slots t (acc_id a) + 1)"
  "sd_waiters (snd (commit_selection e p k a t)) = sd_waiters t"
  "sd_waiterCounts (snd (commit_selection e p k a t)) = sd_waiterCounts t"
  "sd_nextWaiterId (snd (commit_selection e p k a t)) = sd_nextWaiterId t"
  "sd_maxPending (snd (commit_selection e p k a t)) = sd_maxPending t"
  "sd_maxPendingPerPool (snd (commit_selection e p k a t)) = sd_maxPendingPerPool t"
  "sd_settled (snd (commit_selection e p k a t)) = sd_settled t"
  "sd_health (snd (commit_selection e p k a t)) = sd_health t"
  by (simp_all add: commit_selection_def acquireAccountSlot_def Let_def split: option.split)

lemma commit_generations:
  "sel_healthRevision (fst (commit_selection e p k a t)) = getHealthRevision (sd_health t) (acc_id a)"
  "sel_resetEpoch (fst (commit_selection e p k a t)) = getResetEpoch (sd_health t) (acc_id a)"
  by (simp_all add: commit_selection_def acquireAccountSlot_def Let_def split: option.split)

lemma commit_sticky:
  "sd_sticky (snd (commit_selection e p k a t)) =
     (case k of None \<Rightarrow> sd_sticky t
      | Some key \<Rightarrow> setSticky (env_now e) key
          \<lparr>se_poolId = pool_id p, se_accountId = acc_id a,
           se_expiresAt = env_now e + boundedStickyTtlMs (pool_stickyTtlMinutes p)\<rparr>
          (deleteStickyFailureAvoidance key (sd_sticky t)))"
  by (simp add: commit_selection_def acquireAccountSlot_def Let_def split: option.split)

section \<open>What the chosen account satisfies\<close>

lemma runnable_tier_runnable: "a \<in> set (runnable_tier e i s) \<Longrightarrow> runnable e i s a"
  by (auto simp: runnable_tier_def Let_def split: if_splits)

lemma runnable_tier_eligible:
  "a \<in> set (runnable_tier e i s) \<Longrightarrow>
   a \<in> set (er_verified (source_eligibility i)) \<union> set (er_unknown (source_eligibility i))"
  by (auto simp: runnable_tier_def Let_def split: if_splits)

lemma runnable_tier_verified_first:
  "a \<in> set (runnable_tier e i s) \<Longrightarrow> a \<notin> set (er_verified (source_eligibility i)) \<Longrightarrow>
   b \<in> set (er_verified (source_eligibility i)) \<Longrightarrow> \<not> runnable e i s b"
  by (auto simp: runnable_tier_def Let_def filter_empty_conv split: if_splits)

definition slot_limit :: "account \<Rightarrow> real" where
  "slot_limit a = routeAccountConcurrencyLimit (acc_maxConcurrency a)"

lemma concurrencyLimit_le: "concurrencyLimit s a b \<le> slot_limit a"
  using routeAccountConcurrencyLimit_ge_1 [of "acc_maxConcurrency a"]
  by (simp add: concurrencyLimit_def slot_limit_def Let_def)

lemma concurrencyLimit_ge_1: "1 \<le> concurrencyLimit s a b"
  using routeAccountConcurrencyLimit_ge_1 [of "acc_maxConcurrency a"]
  by (simp add: concurrencyLimit_def Let_def)

lemma hasCapacity_slots:
  assumes "hasCapacity s b a"
  shows "real (active_slots s (acc_id a)) + 1 \<le> slot_limit a"
proof -
  let ?n = "active_slots s (acc_id a)" and ?l = "concurrencyLimit s a b"
  have "int ?n \<le> \<lfloor>inFlight s a\<rfloor>" by (simp add: inFlight_def le_floor_iff)
  moreover have "js_floor (inFlight s a) < max 1 (js_floor ?l)"
    using assms by (simp add: hasCapacity_def hasRouteAccountCapacity_def routeAccountInFlight_def
        routeAccountConcurrencyLimit_def Let_def)
  moreover have "js_floor ?l \<le> ?l" unfolding js_floor_def by (rule of_int_floor_le)
  then have "max 1 (js_floor ?l) \<le> slot_limit a"
    using concurrencyLimit_ge_1 [of s a b] concurrencyLimit_le [of s a b] by linarith
  moreover have whole: "slot_limit a = of_int \<lfloor>slot_limit a\<rfloor>"
    using routeAccountConcurrencyLimit_int [of "acc_maxConcurrency a"]
    unfolding slot_limit_def js_floor_def by (rule sym)
  ultimately have "of_int (int ?n) < (of_int \<lfloor>slot_limit a\<rfloor> :: real)"
    unfolding js_floor_def by linarith
  then have "int ?n + 1 \<le> \<lfloor>slot_limit a\<rfloor>" unfolding of_int_less_iff by simp
  then have "real_of_int (int ?n + 1) \<le> of_int \<lfloor>slot_limit a\<rfloor>" unfolding of_int_le_iff .
  then show ?thesis by (subst whole) simp
qed

section \<open>Sessions\<close>

lemma sticky_lru_assignment:
  assumes "sticky_ok c" and "map_get (sc_sticky c) k = Some e"
  shows "map_get (sc_lru c) k = Some (se_poolId e, Assignment)"
    and "map_get (sc_avoidance c) k = None"
proof -
  have i: "indexed c" using assms(1) by (simp add: sticky_ok_def sticky_inv_def)
  show av: "map_get (sc_avoidance c) k = None" using indexedD(4) [OF i, of k] assms(2) by simp
  show "map_get (sc_lru c) k = Some (se_poolId e, Assignment)"
    using indexedD(5) [OF i, of k] assms(2) av by (simp add: lru_entry_def)
qed

lemma sticky_lru_avoidance:
  assumes "sticky_ok c" and "map_get (sc_avoidance c) k = Some e"
  shows "map_get (sc_lru c) k = Some (se_poolId e, Avoidance)"
    and "map_get (sc_sticky c) k = None"
proof -
  have i: "indexed c" using assms(1) by (simp add: sticky_ok_def sticky_inv_def)
  show st: "map_get (sc_sticky c) k = None" using indexedD(4) [OF i, of k] assms(2) by auto
  show "map_get (sc_lru c) k = Some (se_poolId e, Avoidance)"
    using indexedD(5) [OF i, of k] assms(2) st by (simp add: lru_entry_def)
qed

lemma touch_primary [simp]:
  "sc_sticky (touchStickyLru k p x c) = sc_sticky c"
  "sc_avoidance (touchStickyLru k p x c) = sc_avoidance c"
  by (simp_all add: touchStickyLru_def Let_def)

text \<open>\<open>resolve_sticky\<close> keeps the cache consistent, whatever it decides.\<close>

lemma sticky_ok_resolve:
  assumes "sticky_ok (sd_sticky s)"
  shows "sticky_ok (sd_sticky (snd (snd (snd (resolve_sticky e p candidates key s)))))"
proof -
  define c1 where "c1 = (case map_get (sc_avoidance (sd_sticky s)) key of
      None \<Rightarrow> sd_sticky s
    | Some avoidance \<Rightarrow>
        if se_expiresAt avoidance > env_now e
        then touchStickyLru key (se_poolId avoidance) Avoidance (sd_sticky s)
        else deleteStickyFailureAvoidance key (sd_sticky s))"
  have ok1: "sticky_ok c1"
    using assms sticky_lru_avoidance(1) [OF assms]
    by (simp add: c1_def sticky_ok_touch sticky_ok_deleteAvoidance split: option.split)
  have "sd_sticky (snd (snd (snd (resolve_sticky e p candidates key s)))) \<in>
      {c1, deleteSticky key c1} \<union>
      {c. \<exists>asg. map_get (sc_sticky c1) key = Some asg
          \<and> (c = touchStickyLru key (se_poolId asg) Assignment c1
             \<or> c = deleteSticky key (touchStickyLru key (se_poolId asg) Assignment c1))}"
    unfolding c1_def
    by (simp add: resolve_sticky_def Let_def split_beta split: option.split)
  then show ?thesis
    using ok1 sticky_lru_assignment(1) [OF ok1]
    by (auto simp: sticky_ok_touch sticky_ok_deleteSticky)
qed

lemma sticky_ok_choose:
  assumes "sticky_ok (sd_sticky s)"
  shows "sticky_ok (sd_sticky (snd (choose_and_commit e i candidates s)))"
proof -
  define r where "r = (case sticky_key i of None \<Rightarrow> (None, None, None, s)
      | Some key \<Rightarrow> resolve_sticky e (in_pool i) candidates key s)"
  obtain kept x y s1 where r4: "r = (kept, x, y, s1)" by (cases r) auto
  have ok1: "sticky_ok (sd_sticky s1)"
  proof (cases "sticky_key i")
    case None
    with r4 assms show ?thesis by (simp add: r_def)
  next
    case (Some key)
    with r4 sticky_ok_resolve [OF assms, of e "in_pool i" candidates key] show ?thesis by (simp add: r_def)
  qed
  have commit: "sticky_ok (sd_sticky (snd (commit_selection e (in_pool i) (sticky_key i) a t)))"
    if "sd_sticky t = sd_sticky s1" for a t
    using ok1 that by (simp add: commit_sticky sticky_ok_setSticky sticky_ok_deleteAvoidance split: option.split)
  define q where "q = (case kept of Some a \<Rightarrow> (Inr a, s1)
      | None \<Rightarrow> pick e (in_pool i) (preferred_candidates candidates x y) (in_accounts i) (sticky_key i) s1)"
  obtain chosen s2 where q2: "q = (chosen, s2)" by (cases q)
  have s2: "sd_sticky s2 = sd_sticky s1"
  proof (cases kept)
    case None
    then have "pick_frame s1 s2"
      using q2 pick_preserves [of s1 e "in_pool i" "preferred_candidates candidates x y" "in_accounts i" "sticky_key i"]
      by (simp add: q_def)
    then show ?thesis using pick_frame_selection by blast
  next
    case (Some a)
    with q2 show ?thesis by (simp add: q_def)
  qed
  have eq: "choose_and_commit e i candidates s =
      (case chosen of Inl err \<Rightarrow> (Inl err, s2)
       | Inr a \<Rightarrow> (let (sel, s3) = commit_selection e (in_pool i) (sticky_key i) a s2 in (Inr sel, s3)))"
    unfolding choose_and_commit_def Let_def sticky_key_def [symmetric]
    by (simp add: r4 [unfolded r_def] q2 [unfolded q_def])
  show ?thesis
    unfolding eq using commit [OF s2] ok1 s2 by (simp add: split_beta Let_def split: sum.split)
qed

lemma sticky_ok_selectAndAcquire:
  assumes "sticky_ok (sd_sticky s)" and "distinct (map acc_id (in_accounts i))"
  shows "sticky_ok (sd_sticky (snd (selectAndAcquire e i s)))"
proof (cases "isSupportedPoolStrategy (pool_strategy (in_pool i))")
  case False
  then show ?thesis using assms(1) by (simp add: selectAndAcquire_unsupported)
next
  case True
  have c: "sticky_ok (cleanupExpiredSticky (env_now e) (sd_sticky s))"
    using assms(1) by (rule sticky_ok_cleanup)
  show ?thesis
    by (rule selectAndAcquire_eq [OF True assms(2), of s e]) (use c sticky_ok_choose in auto)
qed

section \<open>Affinity and avoidance\<close>

lemma find_distinct:
  "distinct (map acc_id xs) \<Longrightarrow> a \<in> set xs \<Longrightarrow> find (\<lambda>b. acc_id b = acc_id a) xs = Some a"
  by (induction xs) auto

text \<open>A live assignment to a candidate is kept by every strategy but the automatic one.\<close>

lemma choose_keeps_assignment:
  assumes "sticky_ok (sd_sticky s)" and "sticky_key i = Some key"
    and "map_get (sc_sticky (sd_sticky s)) key = Some asg" and "env_now e < se_expiresAt asg"
    and "a \<in> set candidates" "acc_id a = se_accountId asg" "distinct (map acc_id candidates)"
    and "pool_strategy (in_pool i) \<noteq> Autobalanced"
  shows "\<exists>t. choose_and_commit e i candidates s = committed e i a t \<and> sd_active t = sd_active s"
proof -
  have av: "map_get (sc_avoidance (sd_sticky s)) key = None"
    by (rule sticky_lru_assignment(2) [OF assms(1,3)])
  have f: "find (\<lambda>b. acc_id b = se_accountId asg) candidates = Some a"
    using find_distinct [OF assms(7,5)] assms(6) by simp
  let ?t = "s\<lparr>sd_sticky := touchStickyLru key (se_poolId asg) Assignment (sd_sticky s)\<rparr>"
  have "resolve_sticky e (in_pool i) candidates key s = (Some a, None, None, ?t)"
    using assms(3,4,8) av f by (simp add: resolve_sticky_def Let_def)
  then have "choose_and_commit e i candidates s = committed e i a ?t"
    unfolding choose_and_commit_def Let_def sticky_key_def [symmetric]
    by (simp add: assms(2) committed_def split_beta)
  then show ?thesis by (intro exI [of _ ?t]) simp
qed

text \<open>An account a session has to avoid is not chosen while another candidate exists.\<close>

lemma choose_avoids:
  assumes "sticky_ok (sd_sticky s)" and "sticky_key i = Some key"
    and "map_get (sc_avoidance (sd_sticky s)) key = Some av" and "env_now e < se_expiresAt av"
    and "se_accountId av \<noteq> []"
    and "b \<in> set candidates" "acc_id b \<noteq> se_accountId av"
    and "isSupportedPoolStrategy (pool_strategy (in_pool i))" and "draws_ok e"
  shows "\<exists>a t. choose_and_commit e i candidates s = committed e i a t \<and> a \<in> set candidates
    \<and> acc_id a \<noteq> se_accountId av"
proof -
  let ?p = "in_pool i"
  have st: "map_get (sc_sticky (sd_sticky s)) key = None"
    by (rule sticky_lru_avoidance(2) [OF assms(1,3)])
  let ?s1 = "s\<lparr>sd_sticky := touchStickyLru key (se_poolId av) Avoidance (sd_sticky s)\<rparr>"
  have ex: "list_ex (\<lambda>a. acc_id a \<noteq> se_accountId av) candidates"
    using assms(6,7) by (auto simp: list_ex_iff)
  have r: "resolve_sticky e ?p candidates key s = (None, None, Some (se_accountId av), ?s1)"
    using assms(3,4) st ex by (simp add: resolve_sticky_def Let_def)
  let ?ys = "preferred_candidates candidates None (Some (se_accountId av))"
  have t: "truthy (Some (se_accountId av)) \<noteq> None" using assms(5) by (simp add: truthy_def)
  have ys: "?ys = filter (\<lambda>a. acc_id a \<noteq> se_accountId av) candidates"
    using t assms(6,7) by (auto simp: preferred_candidates_def Let_def filter_empty_conv)
  then have "?ys \<noteq> []" using assms(6,7) by (auto simp: filter_empty_conv)
  then obtain a where a: "a \<in> set ?ys" "fst (pick e ?p ?ys (in_accounts i) (sticky_key i) ?s1) = Inr a"
    using pick_member [OF _ assms(8,9)] by blast
  then obtain u where u: "pick e ?p ?ys (in_accounts i) (Some key) ?s1 = (Inr a, u)"
    unfolding assms(2) by (metis prod.collapse)
  have "choose_and_commit e i candidates s = committed e i a u"
    unfolding choose_and_commit_def Let_def sticky_key_def [symmetric]
    by (simp add: assms(2) r u committed_def split_beta)
  with a(1) show ?thesis unfolding ys by auto
qed

lemma runnable_tier_distinct:
  "distinct (map acc_id (in_accounts i)) \<Longrightarrow> distinct (map acc_id (runnable_tier e i s))"
  using distinct_tiers [of i] by (auto simp: runnable_tier_def Let_def distinct_map_filter)

lemma cleanup_live:
  assumes "sticky_ok c" and "now < se_expiresAt x"
  shows "map_get (sc_sticky c) k = Some x \<Longrightarrow> map_get (sc_sticky (cleanupExpiredSticky now c)) k = Some x"
    and "map_get (sc_avoidance c) k = Some x \<Longrightarrow> map_get (sc_avoidance (cleanupExpiredSticky now c)) k = Some x"
  using assms cleanupExpiredSticky_spec [of c now] by (auto simp: sticky_ok_def unexpired_def)

lemma selection_keeps_assignment:
  assumes ok: "sticky_ok (sd_sticky s)" and ids: "distinct (map acc_id (in_accounts i))"
    and sup: "isSupportedPoolStrategy (pool_strategy (in_pool i))" "pool_strategy (in_pool i) \<noteq> Autobalanced"
    and exposed: "model_exposed i"
    and key: "sticky_key i = Some key" "map_get (sc_sticky (sd_sticky s)) key = Some asg"
      "env_now e < se_expiresAt asg"
    and a: "a \<in> set (runnable_tier e i s)" "acc_id a = se_accountId asg"
  shows "\<exists>t. selectAndAcquire e i s = committed e i a t \<and> sd_active t = sd_active s"
proof -
  obtain t u where u: "selection_frame s u"
      "sd_sticky u = cleanupExpiredSticky (env_now e) (sd_sticky s)"
    and eq: "selectAndAcquire e i s =
      (if \<not> model_exposed i then (Inl Model_Not_Exposed, t)
       else if runnable_tier e i s = [] then
         (Inl (No_Eligible_Account (map acc_id (er_verified (source_eligibility i))
            @ map acc_id (er_unknown (source_eligibility i))) no_eligible_message), u)
       else choose_and_commit e i (runnable_tier e i s) u)"
    by (rule selectAndAcquire_eq [OF sup(1) ids])
  have "runnable_tier e i s \<noteq> []" using a(1) by auto
  then have eq: "selectAndAcquire e i s = choose_and_commit e i (runnable_tier e i s) u"
    using eq exposed by simp
  have oku: "sticky_ok (sd_sticky u)" unfolding u(2) using ok by (rule sticky_ok_cleanup)
  have live: "map_get (sc_sticky (sd_sticky u)) key = Some asg"
    unfolding u(2) by (rule cleanup_live(1) [OF ok key(3,2)])
  have "sd_active u = sd_active s" using u(1) by (simp add: selection_frame_def)
  then show ?thesis
    using choose_keeps_assignment [OF oku key(1) live key(3) a runnable_tier_distinct [OF ids] sup(2)]
    unfolding eq by metis
qed

lemma selection_avoids:
  assumes ok: "sticky_ok (sd_sticky s)" and ids: "distinct (map acc_id (in_accounts i))"
    and sup: "isSupportedPoolStrategy (pool_strategy (in_pool i))" and "draws_ok e"
    and exposed: "model_exposed i"
    and key: "sticky_key i = Some key" "map_get (sc_avoidance (sd_sticky s)) key = Some av"
      "env_now e < se_expiresAt av" "se_accountId av \<noteq> []"
    and b: "b \<in> set (runnable_tier e i s)" "acc_id b \<noteq> se_accountId av"
  shows "\<exists>a t. selectAndAcquire e i s = committed e i a t \<and> acc_id a \<noteq> se_accountId av"
proof -
  obtain t u where u: "selection_frame s u"
      "sd_sticky u = cleanupExpiredSticky (env_now e) (sd_sticky s)"
    and eq: "selectAndAcquire e i s =
      (if \<not> model_exposed i then (Inl Model_Not_Exposed, t)
       else if runnable_tier e i s = [] then
         (Inl (No_Eligible_Account (map acc_id (er_verified (source_eligibility i))
            @ map acc_id (er_unknown (source_eligibility i))) no_eligible_message), u)
       else choose_and_commit e i (runnable_tier e i s) u)"
    by (rule selectAndAcquire_eq [OF sup ids])
  have "runnable_tier e i s \<noteq> []" using b(1) by auto
  then have eq: "selectAndAcquire e i s = choose_and_commit e i (runnable_tier e i s) u"
    using eq exposed by simp
  have oku: "sticky_ok (sd_sticky u)" unfolding u(2) using ok by (rule sticky_ok_cleanup)
  have live: "map_get (sc_avoidance (sd_sticky u)) key = Some av"
    unfolding u(2) by (rule cleanup_live(2) [OF ok key(3,2)])
  show ?thesis
    using choose_avoids [OF oku key(1) live key(3,4) b sup assms(4)] unfolding eq by blast
qed

end
