(* ===== verification/Waiter_Proofs.thy ===== *)
theory Waiter_Proofs
  imports Scheduler_Proofs
begin

text \<open>
  The queue of requests waiting for capacity: its counters, its bounds, and the fact that
  every queued request is settled exactly once. Properties of the slots that selection and
  release keep are carried through the queue once, in a locale.
\<close>

section \<open>Queue bookkeeping\<close>

definition waiters_of :: "string \<Rightarrow> (nat, capacity_waiter) js_map \<Rightarrow> nat" where
  "waiters_of p m = length (filter (\<lambda>(k, w). cw_poolId w = p) m)"

definition waiters_ok :: "scheduler \<Rightarrow> bool" where
  "waiters_ok s \<longleftrightarrow>
     map_wf (sd_waiters s)
     \<and> (\<forall>(k, w) \<in> set (sd_waiters s). cw_id w = k)
     \<and> (\<forall>p. sd_waiterCounts s p =
           (if waiters_of p (sd_waiters s) = 0 then None else Some (waiters_of p (sd_waiters s))))
     \<and> length (sd_waiters s) \<le> sd_maxPending s
     \<and> (\<forall>p. waiters_of p (sd_waiters s) \<le> sd_maxPendingPerPool s)
     \<and> distinct (map_keys (sd_waiters s) @ map fst (sd_settled s))
     \<and> set (map_keys (sd_waiters s)) \<union> set (map fst (sd_settled s)) = {1..<sd_nextWaiterId s}
     \<and> 1 \<le> sd_nextWaiterId s"

lemma waiters_ok_cong:
  "waiters_ok s \<Longrightarrow> sd_waiters t = sd_waiters s \<Longrightarrow> sd_waiterCounts t = sd_waiterCounts s \<Longrightarrow>
   sd_nextWaiterId t = sd_nextWaiterId s \<Longrightarrow> sd_maxPending t = sd_maxPending s \<Longrightarrow>
   sd_maxPendingPerPool t = sd_maxPendingPerPool s \<Longrightarrow> sd_settled t = sd_settled s \<Longrightarrow> waiters_ok t"
  by (simp add: waiters_ok_def)

lemma waiters_ok_frame: "waiters_ok s \<Longrightarrow> selection_frame s t \<Longrightarrow> waiters_ok t"
  by (erule waiters_ok_cong) (simp_all add: selection_frame_def)

lemma waiters_ok_health [simp]: "waiters_ok (s\<lparr>sd_health := h\<rparr>) = waiters_ok s"
  by (simp add: waiters_ok_def)

lemma map_get_key: "map_get m k = Some w \<Longrightarrow> k \<in> set (map_keys m)"
  by (induction m) (auto split: if_splits)

lemma waiters_of_delete:
  assumes "map_wf m" and "map_get m k = Some w"
  shows "waiters_of p (map_delete m k) = waiters_of p m - (if cw_poolId w = p then 1 else 0)"
    and "cw_poolId w = p \<Longrightarrow> 0 < waiters_of p m"
  using assms
proof (induction m)
  case Nil
  {
    case 1
    then show ?case by simp
  next
    case 2
    then show ?case by simp
  }
next
  case (Cons x m)
  obtain j v where x: "x = (j, v)" by (cases x)
  have absent: "map_delete m j = m" if "j \<notin> set (map_keys m)"
    using that by (induction m) auto
  {
    case 1
    then show ?case
      using Cons.IH absent x by (auto simp: waiters_of_def map_wf_def split: if_splits)
  next
    case 2
    then show ?case
      using Cons.IH x by (auto simp: waiters_of_def map_wf_def split: if_splits)
  }
qed

lemma set_map_set: "set (map_set m k v) \<subseteq> insert (k, v) (set m)"
  by (induction m) auto

lemma waiters_of_set:
  assumes "map_get m k = Some w" and "cw_poolId v = cw_poolId w"
  shows "waiters_of p (map_set m k v) = waiters_of p m"
  using assms(1)
proof (induction m)
  case Nil
  then show ?case by simp
next
  case (Cons x m)
  obtain j u where x: "x = (j, u)" by (cases x)
  show ?case
  proof (cases "j = k")
    case True
    with Cons.prems assms(2) x show ?thesis by (simp add: waiters_of_def)
  next
    case False
    with Cons x show ?thesis by (simp add: waiters_of_def)
  qed
qed

section \<open>Settling, removing, updating\<close>

definition conclude :: "capacity_waiter \<Rightarrow> (scheduler_error + selection) \<Rightarrow> scheduler \<Rightarrow> scheduler" where
  "conclude w r s = settle w r (removeCapacityWaiter w s)"

lemma rejectCapacityWaiter_eq:
  "rejectCapacityWaiter w err s =
     (if map_get (sd_waiters s) (cw_id w) = None then s else conclude w (Inl err) s)"
  by (simp add: rejectCapacityWaiter_def conclude_def)

lemma conclude_fields [simp]:
  "sd_active (conclude w r s) = sd_active s"
  "sd_sticky (conclude w r s) = sd_sticky s"
  "sd_sessions (conclude w r s) = sd_sessions s"
  "sd_health (conclude w r s) = sd_health s"
  "sd_settled (conclude w r s) = sd_settled s @ [(cw_id w, r)]"
  "sd_nextWaiterId (conclude w r s) = sd_nextWaiterId s"
  "sd_maxPending (conclude w r s) = sd_maxPending s"
  "sd_maxPendingPerPool (conclude w r s) = sd_maxPendingPerPool s"
  by (simp_all add: conclude_def settle_def removeCapacityWaiter_def Let_def)

lemma map_delete_absent: "map_get m k = None \<Longrightarrow> map_delete m k = m"
  by (induction m) (auto split: if_splits)

lemma conclude_waiters [simp]: "sd_waiters (conclude w r s) = map_delete (sd_waiters s) (cw_id w)"
  by (simp add: conclude_def settle_def removeCapacityWaiter_def Let_def map_delete_absent)

lemma conclude_counts:
  "map_get (sd_waiters s) (cw_id w) \<noteq> None \<Longrightarrow>
   sd_waiterCounts (conclude w r s) = (sd_waiterCounts s)(cw_poolId w :=
     (let n = (case sd_waiterCounts s (cw_poolId w) of None \<Rightarrow> 0 | Some n \<Rightarrow> n) - 1
      in if n = 0 then None else Some n))"
  by (auto simp: conclude_def settle_def removeCapacityWaiter_def Let_def)

lemma waiters_okD:
  assumes "waiters_ok s"
  shows "map_wf (sd_waiters s)"
    and "(k, w) \<in> set (sd_waiters s) \<Longrightarrow> cw_id w = k"
    and "sd_waiterCounts s p =
           (if waiters_of p (sd_waiters s) = 0 then None else Some (waiters_of p (sd_waiters s)))"
    and "length (sd_waiters s) \<le> sd_maxPending s"
    and "waiters_of p (sd_waiters s) \<le> sd_maxPendingPerPool s"
    and "distinct (map_keys (sd_waiters s) @ map fst (sd_settled s))"
    and "set (map_keys (sd_waiters s)) \<union> set (map fst (sd_settled s)) = {1..<sd_nextWaiterId s}"
    and "1 \<le> sd_nextWaiterId s"
proof -
  note c = assms [unfolded waiters_ok_def]
  note c1 = c [THEN conjunct2] note c2 = c1 [THEN conjunct2] note c3 = c2 [THEN conjunct2]
  note c4 = c3 [THEN conjunct2] note c5 = c4 [THEN conjunct2] note c6 = c5 [THEN conjunct2]
  show "map_wf (sd_waiters s)" by (rule c [THEN conjunct1])
  show "(k, w) \<in> set (sd_waiters s) \<Longrightarrow> cw_id w = k" using c1 [THEN conjunct1] by auto
  show "sd_waiterCounts s p =
      (if waiters_of p (sd_waiters s) = 0 then None else Some (waiters_of p (sd_waiters s)))"
    by (rule c2 [THEN conjunct1, THEN spec])
  show "length (sd_waiters s) \<le> sd_maxPending s" by (rule c3 [THEN conjunct1])
  show "waiters_of p (sd_waiters s) \<le> sd_maxPendingPerPool s" by (rule c4 [THEN conjunct1, THEN spec])
  show "distinct (map_keys (sd_waiters s) @ map fst (sd_settled s))" by (rule c5 [THEN conjunct1])
  show "set (map_keys (sd_waiters s)) \<union> set (map fst (sd_settled s)) = {1..<sd_nextWaiterId s}"
    by (rule c6 [THEN conjunct1])
  show "1 \<le> sd_nextWaiterId s" by (rule c6 [THEN conjunct2])
qed

lemma waiters_ok_conclude:
  assumes ok: "waiters_ok s" and w: "map_get (sd_waiters s) (cw_id w) = Some w"
  shows "waiters_ok (conclude w r s)"
proof -
  let ?m = "sd_waiters s" and ?i = "cw_id w"
  let ?d = "map_delete ?m ?i"
  note D = waiters_okD [OF ok]
  note count = waiters_of_delete [OF D(1) w]
  have keys: "map_keys ?d = filter (\<lambda>j. j \<noteq> ?i) (map_keys ?m)" by (rule keys_map_delete)
  have i: "?i \<in> set (map_keys ?m)" by (rule map_get_key [OF w])
  have counts: "sd_waiterCounts (conclude w r s) p =
      (if waiters_of p ?d = 0 then None else Some (waiters_of p ?d))" for p
    using D(3) [of p] D(3) [of "cw_poolId w"] count(1) [of p] count(2) [of "cw_poolId w"] w
    by (simp add: conclude_counts Let_def)
  have short: "length ?d \<le> sd_maxPending s"
    using D(4) length_map_delete [OF D(1), of ?i] w by simp
  have pools: "waiters_of p ?d \<le> sd_maxPendingPerPool s" for p
    using D(5) [of p] count(1) [of p] by (simp add: le_diff_conv trans_le_add1)
  have ids: "\<forall>(k, v) \<in> set ?d. cw_id v = k"
    using D(2) by (auto simp: AList.delete_eq)
  have once: "distinct (map_keys ?d @ map fst (sd_settled s @ [(?i, r)]))"
    unfolding keys using D(6) i by auto
  have all: "set (map_keys ?d) \<union> set (map fst (sd_settled s @ [(?i, r)])) = {1..<sd_nextWaiterId s}"
    unfolding keys D(7) [symmetric] using i by auto
  show ?thesis
    unfolding waiters_ok_def conclude_waiters conclude_fields
    by (intro conjI allI map_wf_delete D(1) ids counts short pools once all D(8))
qed

definition relist :: "capacity_waiter \<Rightarrow> string list \<Rightarrow> scheduler \<Rightarrow> scheduler" where
  "relist w ids s = s\<lparr>sd_waiters := map_set (sd_waiters s) (cw_id w) (w\<lparr>cw_accountIds := ids\<rparr>)\<rparr>"

lemma relist_fields [simp]:
  "sd_active (relist w ids s) = sd_active s"
  "sd_sticky (relist w ids s) = sd_sticky s"
  "sd_sessions (relist w ids s) = sd_sessions s"
  "sd_settled (relist w ids s) = sd_settled s"
  "sd_waiterCounts (relist w ids s) = sd_waiterCounts s"
  "sd_nextWaiterId (relist w ids s) = sd_nextWaiterId s"
  "sd_maxPending (relist w ids s) = sd_maxPending s"
  "sd_maxPendingPerPool (relist w ids s) = sd_maxPendingPerPool s"
  "sd_waiters (relist w ids s) = map_set (sd_waiters s) (cw_id w) (w\<lparr>cw_accountIds := ids\<rparr>)"
  by (simp_all add: relist_def)

lemma waiters_ok_relist:
  assumes ok: "waiters_ok s" and w: "map_get (sd_waiters s) (cw_id w) = Some w"
  shows "waiters_ok (relist w ids s)"
proof -
  note D = waiters_okD [OF ok]
  let ?m = "map_set (sd_waiters s) (cw_id w) (w\<lparr>cw_accountIds := ids\<rparr>)"
  have i: "cw_id w \<in> set (map_keys (sd_waiters s))" by (rule map_get_key [OF w])
  have keys: "map_keys ?m = map_keys (sd_waiters s)"
    unfolding keys_map_set using i by (rule if_P)
  have len: "length ?m = length (sd_waiters s)"
    unfolding length_map_set w by simp
  have pools: "waiters_of p ?m = waiters_of p (sd_waiters s)" for p
    by (rule waiters_of_set [OF w]) simp
  have ids: "\<forall>(k, v) \<in> set ?m. cw_id v = k"
    using D(2) set_map_set [of "cw_id w" "w\<lparr>cw_accountIds := ids\<rparr>" "sd_waiters s"] by auto
  show ?thesis
    unfolding waiters_ok_def relist_fields keys len pools
    by (intro conjI allI map_wf_set D ids)
qed

section \<open>One turn of the loop over the waiters\<close>

text \<open>The waiters still to be visited are in the queue as the snapshot has them.\<close>

definition pending :: "capacity_waiter list \<Rightarrow> scheduler \<Rightarrow> bool" where
  "pending ws s \<longleftrightarrow>
     distinct (map cw_id ws) \<and> (\<forall>w \<in> set ws. map_get (sd_waiters s) (cw_id w) = Some w)"

lemma pending_snapshot:
  assumes "waiters_ok s"
  shows "pending (map snd (sd_waiters s)) s"
proof -
  note D = waiters_okD [OF assms]
  have "map cw_id (map snd (sd_waiters s)) = map_keys (sd_waiters s)"
    using D(2) by (auto intro!: map_cong)
  then have "distinct (map cw_id (map snd (sd_waiters s)))"
    using D(1) by (simp only: map_wf_def)
  moreover have "map_get (sd_waiters s) (cw_id w) = Some w" if "w \<in> snd ` set (sd_waiters s)" for w
    using that D(2) map_get_from_set [OF D(1)] by fastforce
  ultimately show ?thesis by (simp add: pending_def)
qed

text \<open>
  What the loop does with a waiter it does not serve: nothing, an early rejection, a
  rejection after a failed selection, or a new list of the accounts it waits for.
\<close>

inductive turn :: "env \<Rightarrow> capacity_waiter \<Rightarrow> scheduler \<Rightarrow> scheduler \<Rightarrow> bool" where
  Skip: "turn e w s s"
| Expire: "turn e w s (conclude w (Inl err) s)"
| Refuse: "selectAndAcquire e (cw_input w) s = (Inl err, s1) \<Longrightarrow>
     turn e w s (conclude w (Inl err') (s1\<lparr>sd_health := h\<rparr>))"
| Stay: "selectAndAcquire e (cw_input w) s = (Inl err, s1) \<Longrightarrow>
     turn e w s (relist w ids (s1\<lparr>sd_health := h\<rparr>))"

lemma capacityBlocked_frame: "\<exists>h. snd (capacityBlockedAccountIds e i s) = s\<lparr>sd_health := h\<rparr>"
proof -
  define f where "f = (\<lambda>s a. let (available, t) =
      (if acc_id a \<in> set (in_excludedAccountIds i) then (False, s)
       else schedulerAvailable (env_now e) a (pool_quotaProtection (in_pool i)) (Some (cooldown_key i)) s)
      in (available \<and> \<not> hasCapacity t (pool_strategy (in_pool i) = Autobalanced) a, t))"
  let ?P = "\<lambda>t. \<exists>h. t = s\<lparr>sd_health := h\<rparr>"
  have step: "?P u" if "f t x = (b, u)" "?P t" for t x b u
    using that by (auto simp: f_def schedulerAvailable_eq Let_def split: if_splits)
  have start: "?P s" by (rule exI [of _ "sd_health s"]) simp
  have "?P t" if "filter_state f s xs = (ys, t)" for xs ys t
    by (rule filter_state_inv [where P = ?P, OF _ start that]) (use step in blast)
  moreover have "snd (capacityBlockedAccountIds e i s) =
      snd (filter_state f s (er_verified (source_eligibility i) @ er_unknown (source_eligibility i)))"
    by (simp add: capacityBlockedAccountIds_def f_def Let_def split_beta)
  ultimately show ?thesis by (metis prod.collapse)
qed

lemma loop_turn:
  assumes w: "map_get (sd_waiters s) (cw_id w) = Some w" and "draws_ok e"
    and ids: "distinct (map acc_id (in_accounts (cw_input w)))"
  obtains (Grant) sel s1 where "selectAndAcquire e (cw_input w) s = (Inr sel, s1)"
      "fulfill_loop e i (w # ws) s = (True, conclude w (Inr sel) s1)"
      "i \<in> set (cw_accountIds w)" "env_now e < cw_deadlineAt w"
  | (Next) s' where "turn e w s s'" "fulfill_loop e i (w # ws) s = fulfill_loop e i ws s'"
proof -
  let ?aborted = "case cw_signal w of None \<Rightarrow> False | Some signal \<Rightarrow> env_aborted e signal"
  consider "i \<notin> set (cw_accountIds w)"
    | "i \<in> set (cw_accountIds w)" "?aborted"
    | "i \<in> set (cw_accountIds w)" "\<not> ?aborted" "cw_deadlineAt w \<le> env_now e"
    | "i \<in> set (cw_accountIds w)" "\<not> ?aborted" "env_now e < cw_deadlineAt w"
    by force
  then show thesis
  proof cases
    case 1
    then show thesis using Next [OF Skip] by simp
  next
    case 2
    then show thesis
      using Next [OF Expire [of e w s Wait_Aborted]] w by (simp add: rejectCapacityWaiter_eq)
  next
    case 3
    then show thesis
      using Next [OF Expire [of e w s "No_Eligible_Account (cw_accountIds w) wait_deadline_message"]] w
      by (simp add: rejectCapacityWaiter_eq)
  next
    case 4
    obtain r s1 where sel: "selectAndAcquire e (cw_input w) s = (r, s1)"
      by (cases "selectAndAcquire e (cw_input w) s")
    show thesis
    proof (cases r)
      case (Inr x)
      then show thesis using Grant [of x s1] sel 4 by (simp add: conclude_def)
    next
      case (Inl err)
      have "sd_waiters s1 = sd_waiters s"
        by (rule selectAndAcquire_cases [OF assms(2) ids, of s])
          (use sel Inl in \<open>auto simp: selection_frame_def committed_def\<close>)
      then have w1: "map_get (sd_waiters s1) (cw_id w) = Some w" using w by simp
      have refuse: thesis if "fulfill_loop e i (w # ws) s = fulfill_loop e i ws (rejectCapacityWaiter w err (s1\<lparr>sd_health := h\<rparr>))" for h
        using Next [OF Refuse [of e w s err s1 err h]] that sel Inl w1 by (simp add: rejectCapacityWaiter_eq)
      have same: "s1 = s1\<lparr>sd_health := sd_health s1\<rparr>" by simp
      show thesis
      proof (cases "\<exists>x y. err = No_Eligible_Account x y")
        case False
        then show thesis
          using refuse [of "sd_health s1"] 4 sel Inl by (cases err) simp_all
      next
        case True
        then obtain x y where err: "err = No_Eligible_Account x y" by blast
        obtain h where h: "snd (capacityBlockedAccountIds e (cw_input w) s1) = s1\<lparr>sd_health := h\<rparr>"
          using capacityBlocked_frame by blast
        obtain ids where blocked: "capacityBlockedAccountIds e (cw_input w) s1 = (ids, s1\<lparr>sd_health := h\<rparr>)"
          using h by (metis prod.collapse)
        show thesis
        proof (cases "ids = []")
          case True
          then show thesis using refuse [of h] 4 sel Inl err blocked by simp
        next
          case False
          then show thesis
            using Next [OF Stay [of e w s err s1 ids h]] 4 sel Inl err blocked
            by (simp add: relist_def)
        qed
      qed
    qed
  qed
qed

text \<open>What selection does to the queue: nothing.\<close>

definition queue_same :: "scheduler \<Rightarrow> scheduler \<Rightarrow> bool" where
  "queue_same s t \<longleftrightarrow>
     sd_waiters t = sd_waiters s \<and> sd_waiterCounts t = sd_waiterCounts s
     \<and> sd_nextWaiterId t = sd_nextWaiterId s \<and> sd_maxPending t = sd_maxPending s
     \<and> sd_maxPendingPerPool t = sd_maxPendingPerPool s \<and> sd_settled t = sd_settled s"

lemma queue_same_select:
  assumes "draws_ok e" and "distinct (map acc_id (in_accounts i))"
  shows "queue_same s (snd (selectAndAcquire e i s))"
  by (rule selectAndAcquire_cases [OF assms, of s])
    (auto simp: selection_frame_def committed_def queue_same_def)

lemma queue_same_waiters_ok: "queue_same s t \<Longrightarrow> waiters_ok t = waiters_ok s"
  unfolding queue_same_def waiters_ok_def by (elim conjE) (simp only:)

lemma pending_turn:
  assumes "pending (w # ws) s" and "turn e w s s'" and "draws_ok e"
    and ids: "distinct (map acc_id (in_accounts (cw_input w)))"
  shows "pending ws s'"
  using assms(2)
proof cases
  case Skip
  with assms(1) show ?thesis by (simp add: pending_def)
next
  case (Expire err)
  with assms(1) show ?thesis by (auto simp: pending_def image_iff)
next
  case (Refuse err s1 err' h)
  have "sd_waiters s1 = sd_waiters s"
    using queue_same_select [OF assms(3) ids, of s] Refuse(2) by (simp add: queue_same_def)
  with Refuse assms(1) show ?thesis by (auto simp: pending_def image_iff)
next
  case (Stay err s1 ids' h)
  have "sd_waiters s1 = sd_waiters s"
    using queue_same_select [OF assms(3) ids, of s] Stay(2) by (simp add: queue_same_def)
  with Stay assms(1) show ?thesis by (auto simp: pending_def image_iff)
qed

lemma fulfill_loop_rule:
  assumes env: "draws_ok e"
    and turn: "\<And>w s s'. w \<in> set ws \<Longrightarrow> map_get (sd_waiters s) (cw_id w) = Some w \<Longrightarrow> I s \<Longrightarrow>
      turn e w s s' \<Longrightarrow> I s'"
    and grant: "\<And>w s sel s1. w \<in> set ws \<Longrightarrow> map_get (sd_waiters s) (cw_id w) = Some w \<Longrightarrow> I s \<Longrightarrow>
      selectAndAcquire e (cw_input w) s = (Inr sel, s1) \<Longrightarrow> J (conclude w (Inr sel) s1)"
    and ids: "\<And>w. w \<in> set ws \<Longrightarrow> distinct (map acc_id (in_accounts (cw_input w)))"
    and "pending ws s" and "I s"
  shows "if fst (fulfill_loop e i ws s) then J (snd (fulfill_loop e i ws s))
         else I (snd (fulfill_loop e i ws s))"
  using assms(2-6)
proof (induction ws arbitrary: s)
  case Nil
  then show ?case by simp
next
  case (Cons w ws)
  have w: "map_get (sd_waiters s) (cw_id w) = Some w" using Cons.prems(4) by (simp add: pending_def)
  have d: "distinct (map acc_id (in_accounts (cw_input w)))" by (rule Cons.prems(3)) simp
  show ?case
  proof (rule loop_turn [OF w env d, of i ws])
    fix sel s1
    assume "selectAndAcquire e (cw_input w) s = (Inr sel, s1)"
      "fulfill_loop e i (w # ws) s = (True, conclude w (Inr sel) s1)"
    then show ?thesis using Cons.prems(2) [OF _ w Cons.prems(5)] by simp
  next
    fix s'
    assume t: "turn e w s s'" and l: "fulfill_loop e i (w # ws) s = fulfill_loop e i ws s'"
    have i: "I s'" using Cons.prems(1) [OF _ w Cons.prems(5) t] by simp
    have p: "pending ws s'" by (rule pending_turn [OF Cons.prems(4) t env d])
    show ?thesis
      unfolding l
    proof (rule Cons.IH [OF _ _ _ p i])
      show "I u'" if "v \<in> set ws" "map_get (sd_waiters u) (cw_id v) = Some v" "I u" "turn e v u u'" for v u u'
        using Cons.prems(1) [OF _ that(2-4)] that(1) by simp
      show "J (conclude v (Inr sel) u1)"
        if "v \<in> set ws" "map_get (sd_waiters u) (cw_id v) = Some v" "I u"
          "selectAndAcquire e (cw_input v) u = (Inr sel, u1)" for v u sel u1
        using Cons.prems(2) [OF _ that(2-4)] that(1) by simp
      show "distinct (map acc_id (in_accounts (cw_input v)))" if "v \<in> set ws" for v
        using Cons.prems(3) [of v] that by simp
    qed
  qed
qed

section \<open>Properties of the slots\<close>

definition input_ok :: "account set \<Rightarrow> selection_input \<Rightarrow> bool" where
  "input_ok A i \<longleftrightarrow> distinct (map acc_id (in_accounts i)) \<and> set (in_accounts i) \<subseteq> A"

definition queued_ok :: "account set \<Rightarrow> scheduler \<Rightarrow> bool" where
  "queued_ok A s \<longleftrightarrow> (\<forall>w \<in> snd ` set (sd_waiters s). input_ok A (cw_input w))"

definition queue_ok :: "account set \<Rightarrow> scheduler \<Rightarrow> bool" where
  "queue_ok A s \<longleftrightarrow> waiters_ok s \<and> queued_ok A s"

lemma queue_ok_same: "queue_same s t \<Longrightarrow> queue_ok A t = queue_ok A s"
  using queue_same_waiters_ok [of s t] by (simp add: queue_ok_def queued_ok_def queue_same_def)

lemma queue_ok_select:
  "draws_ok e \<Longrightarrow> input_ok A i \<Longrightarrow> queue_ok A (snd (selectAndAcquire e i s)) = queue_ok A s"
  by (rule queue_ok_same, rule queue_same_select) (simp_all add: input_ok_def)

lemma queue_ok_health [simp]: "queue_ok A (s\<lparr>sd_health := h\<rparr>) = queue_ok A s"
  by (rule queue_ok_same) (simp add: queue_same_def)

lemma queue_ok_input:
  "queue_ok A s \<Longrightarrow> map_get (sd_waiters s) (cw_id w) = Some w \<Longrightarrow> input_ok A (cw_input w)"
  using map_get_in_set [of "sd_waiters s" "cw_id w" w] by (force simp: queue_ok_def queued_ok_def)

lemma queue_ok_conclude:
  "queue_ok A s \<Longrightarrow> map_get (sd_waiters s) (cw_id w) = Some w \<Longrightarrow> queue_ok A (conclude w r s)"
  using waiters_ok_conclude [of s w r] by (auto simp: queue_ok_def queued_ok_def AList.delete_eq)

lemma queue_ok_relist:
  "queue_ok A s \<Longrightarrow> map_get (sd_waiters s) (cw_id w) = Some w \<Longrightarrow> queue_ok A (relist w ids s)"
  using waiters_ok_relist [of s w ids] queue_ok_input [of A s w]
    set_map_set [of "cw_id w" "w\<lparr>cw_accountIds := ids\<rparr>" "sd_waiters s"]
  by (force simp: queue_ok_def queued_ok_def)

definition free_slot :: "string \<Rightarrow> scheduler \<Rightarrow> scheduler" where
  "free_slot accountId s =
     (let remaining = active_slots s accountId - 1
      in s\<lparr>sd_active := (if remaining = 0 then (sd_active s)(accountId := None)
                         else (sd_active s)(accountId \<mapsto> remaining))\<rparr>)"

lemma releaseAccountSlot_eq:
  "releaseAccountSlot e i s = snd (fulfillOneCapacityWaiter e i (free_slot i s))"
  by (simp add: releaseAccountSlot_def free_slot_def Let_def)

lemma active_slots_free [simp]:
  "active_slots (free_slot i s) j = (if j = i then active_slots s i - 1 else active_slots s j)"
  by (simp add: free_slot_def active_slots_def Let_def)

lemma queue_same_free: "queue_same s (free_slot i s)"
  by (simp add: queue_same_def free_slot_def Let_def)

text \<open>Registration of a waiter, and rejection of many.\<close>

definition register :: "capacity_waiter \<Rightarrow> scheduler \<Rightarrow> scheduler" where
  "register w s =
     s\<lparr>sd_nextWaiterId := cw_id w + 1,
       sd_waiters := map_set (sd_waiters s) (cw_id w) w,
       sd_waiterCounts := (sd_waiterCounts s)(cw_poolId w \<mapsto>
         (case sd_waiterCounts s (cw_poolId w) of None \<Rightarrow> 0 | Some n \<Rightarrow> n) + 1)\<rparr>"

lemma register_fields [simp]:
  "sd_active (register w s) = sd_active s"
  "sd_sticky (register w s) = sd_sticky s"
  "sd_settled (register w s) = sd_settled s"
  "sd_maxPending (register w s) = sd_maxPending s"
  "sd_maxPendingPerPool (register w s) = sd_maxPendingPerPool s"
  "sd_nextWaiterId (register w s) = cw_id w + 1"
  "sd_waiters (register w s) = map_set (sd_waiters s) (cw_id w) w"
  by (simp_all add: register_def)

definition new_waiter ::
  "env \<Rightarrow> selection_input \<Rightarrow> string list \<Rightarrow> real \<Rightarrow> nat option \<Rightarrow> string list \<Rightarrow> scheduler \<Rightarrow> capacity_waiter" where
  "new_waiter e i accountIds deadlineAt signal originalIds s =
     \<lparr>cw_id = sd_nextWaiterId s, cw_input = i, cw_accountIds = accountIds, cw_poolId = pool_id (in_pool i),
      cw_deadlineAt = deadlineAt, cw_signal = signal, cw_timeoutMs = max 1 (deadlineAt - env_now e),
      cw_originalIds = originalIds\<rparr>"

definition queue_full :: "string \<Rightarrow> scheduler \<Rightarrow> bool" where
  "queue_full poolId s \<longleftrightarrow>
     length (sd_waiters s) \<ge> sd_maxPending s
     \<or> (case sd_waiterCounts s poolId of None \<Rightarrow> 0 | Some n \<Rightarrow> n) \<ge> sd_maxPendingPerPool s"

lemma enqueueCapacityWaiter_eq:
  "enqueueCapacityWaiter e i accountIds deadlineAt signal originalIds s =
     (if queue_full (pool_id (in_pool i)) s then
        (Settled (Inl (No_Eligible_Account originalIds queue_full_message)), s)
      else
        (Waiting (sd_nextWaiterId s),
         handoff e accountIds
           (register (new_waiter e i accountIds deadlineAt signal originalIds s) s)))"
  by (simp add: enqueueCapacityWaiter_def queue_full_def register_def new_waiter_def Let_def)

lemma waiters_of_append: "k \<notin> set (map_keys m) \<Longrightarrow>
  map_set m k w = m @ [(k, w)] \<and> waiters_of p (map_set m k w) = waiters_of p m + (if cw_poolId w = p then 1 else 0)"
  by (simp add: waiters_of_def) (induction m; auto)

lemma waiters_ok_register:
  assumes ok: "waiters_ok s" and room: "\<not> queue_full (cw_poolId w) s" and w: "cw_id w = sd_nextWaiterId s"
  shows "waiters_ok (register w s)"
proof -
  note D = waiters_okD [OF ok]
  let ?m = "map_set (sd_waiters s) (cw_id w) w"
  have new: "cw_id w \<notin> set (map_keys (sd_waiters s))" "cw_id w \<notin> set (map fst (sd_settled s))"
  proof -
    have "cw_id w \<notin> set (map_keys (sd_waiters s)) \<union> set (map fst (sd_settled s))"
      unfolding D(7) using w by simp
    then show "cw_id w \<notin> set (map_keys (sd_waiters s))" "cw_id w \<notin> set (map fst (sd_settled s))"
      by blast+
  qed
  have m: "?m = sd_waiters s @ [(cw_id w, w)]" using waiters_of_append [OF new(1)] by simp
  have count: "waiters_of p ?m = waiters_of p (sd_waiters s) + (if cw_poolId w = p then 1 else 0)" for p
    using waiters_of_append [OF new(1)] by blast
  have at: "(case sd_waiterCounts s p of None \<Rightarrow> 0 | Some n \<Rightarrow> n) = waiters_of p (sd_waiters s)" for p
    using D(3) [of p] by simp
  have counts: "sd_waiterCounts (register w s) p =
      (if waiters_of p ?m = 0 then None else Some (waiters_of p ?m))" for p
    using D(3) [of p] at [of "cw_poolId w"] by (simp add: register_def count)
  have short: "length ?m \<le> sd_maxPending s"
    using room D(4) by (simp add: m queue_full_def)
  have pools: "waiters_of p ?m \<le> sd_maxPendingPerPool s" for p
    using room D(5) [of p] at [of "cw_poolId w"] by (auto simp: count queue_full_def)
  have ids: "\<forall>(k, v) \<in> set ?m. cw_id v = k" using D(2) by (auto simp: m)
  have once: "distinct (map_keys ?m @ map fst (sd_settled s))" using D(6) new by (auto simp: m)
  have keys: "map_keys ?m = map_keys (sd_waiters s) @ [cw_id w]" unfolding m by simp
  have "set (map_keys ?m) \<union> set (map fst (sd_settled s)) = insert (cw_id w) {1..<sd_nextWaiterId s}"
    unfolding keys D(7) [symmetric] by auto
  also have "\<dots> = {1..<cw_id w + 1}" using D(8) w by auto
  finally have all: "set (map_keys ?m) \<union> set (map fst (sd_settled s)) = {1..<cw_id w + 1}" .
  show ?thesis
    unfolding waiters_ok_def register_fields
    by (intro conjI allI map_wf_set D(1) ids counts short pools once all) simp
qed

lemma queue_ok_register:
  assumes "queue_ok A s" and "\<not> queue_full (cw_poolId w) s" and "cw_id w = sd_nextWaiterId s"
    and "input_ok A (cw_input w)"
  shows "queue_ok A (register w s)"
  using assms waiters_ok_register [of s w] set_map_set [of "cw_id w" w "sd_waiters s"]
  by (force simp: queue_ok_def queued_ok_def)

definition reject_all :: "(capacity_waiter \<Rightarrow> scheduler_error) \<Rightarrow> capacity_waiter list \<Rightarrow> scheduler \<Rightarrow> scheduler" where
  "reject_all err ws s = foldl (\<lambda>s w. rejectCapacityWaiter w (err w) s) s ws"

lemma reject_all_rule:
  assumes "\<And>w r s. map_get (sd_waiters s) (cw_id w) = Some w \<Longrightarrow> I s \<Longrightarrow> I (conclude w r s)"
    and "pending ws s" and "I s"
  shows "I (reject_all err ws s)
    \<and> map_keys (sd_waiters (reject_all err ws s)) = filter (\<lambda>k. k \<notin> cw_id ` set ws) (map_keys (sd_waiters s))"
  using assms(2,3)
proof (induction ws arbitrary: s)
  case Nil
  then show ?case by (simp add: reject_all_def)
next
  case (Cons w ws)
  have w: "map_get (sd_waiters s) (cw_id w) = Some w" using Cons.prems(1) by (simp add: pending_def)
  let ?t = "conclude w (Inl (err w)) s"
  have step: "reject_all err (w # ws) s = reject_all err ws ?t"
    by (simp add: reject_all_def rejectCapacityWaiter_eq w)
  have "pending ws ?t" using Cons.prems(1) by (auto simp: pending_def image_iff)
  moreover have "I ?t" by (rule assms(1) [OF w Cons.prems(2)])
  moreover have "map_keys (sd_waiters ?t) = filter (\<lambda>k. k \<noteq> cw_id w) (map_keys (sd_waiters s))"
    unfolding conclude_waiters by (rule keys_map_delete)
  ultimately show ?case
    using Cons.IH [of ?t] unfolding step by (simp add: conj_commute)
qed

lemma signalAborted_eq:
  "signalAborted sig s = reject_all (\<lambda>w. Wait_Aborted)
     (filter (\<lambda>w. cw_signal w = Some sig) (map snd (sd_waiters s))) s"
  by (simp add: signalAborted_def reject_all_def)

lemma pending_filter: "pending ws s \<Longrightarrow> pending (filter P ws) s"
  by (auto simp: pending_def distinct_map_filter)

definition reset_slots :: "scheduler \<Rightarrow> scheduler" where
  "reset_slots s =
     s\<lparr>sd_active := Map.empty, sd_roundRobinOffsets := Map.empty,
       sd_smoothWeighted := Map.empty, sd_sticky := clearSticky (sd_sticky s),
       sd_sessions := no_active_sessions,
       sd_health := clear_health (\<lambda>i. sd_active s i \<noteq> None) (sd_health s)\<rparr>"

lemma clear_eq:
  "clear s = reset_slots (reject_all (\<lambda>w. No_Eligible_Account (cw_accountIds w) reset_message)
     (map snd (sd_waiters s)) s)"
  by (simp add: clear_def reset_slots_def reject_all_def Let_def)

lemma queue_same_reset: "queue_same s (reset_slots s)"
  by (simp add: queue_same_def reset_slots_def)

text \<open>
  A contract between selection and the rest: a property of the slots and the session cache
  that selection and the freeing of a slot keep survives every operation of the queue.
\<close>

locale slot_property =
  fixes A :: "account set"
    and Q :: "scheduler \<Rightarrow> bool"
  assumes select_keeps: "draws_ok e \<Longrightarrow> input_ok A i \<Longrightarrow> Q s \<Longrightarrow> Q (snd (selectAndAcquire e i s))"
    and free_keeps: "Q s \<Longrightarrow> Q (free_slot j s)"
    and view_keeps: "Q s \<Longrightarrow> sd_active t = sd_active s \<Longrightarrow> sd_sticky t = sd_sticky s \<Longrightarrow> Q t"
begin

definition holds :: "scheduler \<Rightarrow> bool" where
  "holds s \<longleftrightarrow> queue_ok A s \<and> Q s"

lemma select_holds: "draws_ok e \<Longrightarrow> input_ok A i \<Longrightarrow> holds s \<Longrightarrow> holds (snd (selectAndAcquire e i s))"
  using queue_ok_select select_keeps by (simp add: holds_def)

lemma health_holds: "holds s \<Longrightarrow> holds (s\<lparr>sd_health := h\<rparr>)"
  unfolding holds_def by (simp add: view_keeps [of s "s\<lparr>sd_health := h\<rparr>"])

lemma conclude_holds: "holds s \<Longrightarrow> map_get (sd_waiters s) (cw_id w) = Some w \<Longrightarrow> holds (conclude w r s)"
  unfolding holds_def by (simp add: queue_ok_conclude view_keeps [of s "conclude w r s"])

lemma relist_holds: "holds s \<Longrightarrow> map_get (sd_waiters s) (cw_id w) = Some w \<Longrightarrow> holds (relist w ids s)"
  unfolding holds_def by (simp add: queue_ok_relist view_keeps [of s "relist w ids s"])

lemma free_holds: "holds s \<Longrightarrow> holds (free_slot j s)"
  unfolding holds_def using free_keeps queue_ok_same [OF queue_same_free] by simp

lemma selected_waiter:
  assumes "holds s" and "map_get (sd_waiters s) (cw_id w) = Some w" and "draws_ok e"
    and "selectAndAcquire e (cw_input w) s = (r, s1)"
  shows "holds s1" and "map_get (sd_waiters s1) (cw_id w) = Some w"
proof -
  have i: "input_ok A (cw_input w)"
    using assms(1) by (intro queue_ok_input [OF _ assms(2)]) (simp add: holds_def)
  show "holds s1" using select_holds [OF assms(3) i assms(1)] assms(4) by simp
  show "map_get (sd_waiters s1) (cw_id w) = Some w"
    using queue_same_select [OF assms(3), of "cw_input w" s] i assms(2,4)
    by (simp add: input_ok_def queue_same_def)
qed

lemma turn_holds:
  assumes "map_get (sd_waiters s) (cw_id w) = Some w" and "holds s" and "turn e w s s'" and "draws_ok e"
  shows "holds s'"
  using assms(3)
proof cases
  case Skip
  with assms(2) show ?thesis by simp
next
  case (Expire err)
  with conclude_holds [OF assms(2,1)] show ?thesis by simp
next
  case (Refuse err s1 err' h)
  show ?thesis
    unfolding Refuse(1)
    using selected_waiter [OF assms(2,1,4) Refuse(2)] by (intro conclude_holds health_holds) simp_all
next
  case (Stay err s1 ids h)
  show ?thesis
    unfolding Stay(1)
    using selected_waiter [OF assms(2,1,4) Stay(2)] by (intro relist_holds health_holds) simp_all
qed

lemma fulfillOne_holds:
  assumes "draws_ok e" and "holds s"
  shows "holds (snd (fulfillOneCapacityWaiter e j s))"
proof -
  have ok: "waiters_ok s" using assms(2) by (simp add: holds_def queue_ok_def)
  have ids: "distinct (map acc_id (in_accounts (cw_input w)))" if "w \<in> set (map snd (sd_waiters s))" for w
    using that assms(2) by (auto simp: holds_def queue_ok_def queued_ok_def input_ok_def)
  have "if fst (fulfillOneCapacityWaiter e j s) then holds (snd (fulfillOneCapacityWaiter e j s))
      else holds (snd (fulfillOneCapacityWaiter e j s))"
    unfolding fulfillOneCapacityWaiter_def
  proof (rule fulfill_loop_rule [where I = holds and J = holds, OF assms(1)])
    show "holds u'" if "map_get (sd_waiters u) (cw_id w) = Some w" "holds u" "turn e w u u'" for w u u'
      by (rule turn_holds [OF that assms(1)])
    show "holds (conclude w (Inr sel) u1)"
      if "map_get (sd_waiters u) (cw_id w) = Some w" "holds u" "selectAndAcquire e (cw_input w) u = (Inr sel, u1)"
      for w u sel u1
      using selected_waiter [OF that(2,1) assms(1) that(3)] by (intro conclude_holds) simp_all
  qed (use ids pending_snapshot [OF ok] assms(2) in auto)
  then show ?thesis by (simp split: if_splits)
qed

lemma release_holds:
  assumes "draws_ok e" and "holds s"
  shows "holds (snd (release e l s))"
proof -
  have sessions: "holds (s\<lparr>sd_sessions := x\<rparr>)" for x
    using assms(2) queue_ok_same [of s "s\<lparr>sd_sessions := x\<rparr>" A] view_keeps [of s "s\<lparr>sd_sessions := x\<rparr>"]
    by (simp add: holds_def queue_same_def)
  show ?thesis
    using assms sessions fulfillOne_holds free_holds
    by (auto simp: release_def releaseAccountSlot_eq Let_def split: option.split)
qed

lemma handoff_holds: "draws_ok e \<Longrightarrow> holds s \<Longrightarrow> holds (handoff e ids s)"
proof (induction ids arbitrary: s)
  case Nil
  then show ?case by simp
next
  case (Cons i ids)
  obtain b t where t: "fulfillOneCapacityWaiter e i s = (b, t)" by (cases "fulfillOneCapacityWaiter e i s")
  then have "holds t" using fulfillOne_holds [OF Cons.prems, of i] by simp
  with Cons t show ?case by simp
qed

lemma register_holds:
  "holds s \<Longrightarrow> \<not> queue_full (cw_poolId w) s \<Longrightarrow> cw_id w = sd_nextWaiterId s \<Longrightarrow> input_ok A (cw_input w) \<Longrightarrow>
   holds (register w s)"
  unfolding holds_def using queue_ok_register [of A s w] view_keeps [of s "register w s"] by simp

lemma reject_all_holds:
  "holds s \<Longrightarrow> pending ws s \<Longrightarrow> holds (reject_all err ws s)"
  using reject_all_rule [where I = holds] conclude_holds by blast

lemma pending_all: "holds s \<Longrightarrow> pending (map snd (sd_waiters s)) s"
  by (rule pending_snapshot) (simp add: holds_def queue_ok_def)

lemma signalAborted_holds: "holds s \<Longrightarrow> holds (signalAborted sig s)"
  unfolding signalAborted_eq by (intro reject_all_holds pending_filter pending_all)

lemma waiterTimeout_holds: "holds s \<Longrightarrow> w \<in> snd ` set (sd_waiters s) \<Longrightarrow> holds (waiterTimeout w s)"
  using pending_all [of s] conclude_holds [of s w] by (auto simp: waiterTimeout_def rejectCapacityWaiter_eq pending_def)

lemma wait_holds:
  assumes "draws_ok e" and "input_ok A i" and "holds s"
  shows "holds (snd (selectAndAcquireWhenAvailable e i sig deadline limit s))"
proof -
  obtain r s1 where sel: "selectAndAcquire e i s = (r, s1)" by (cases "selectAndAcquire e i s")
  have s1: "holds s1" using select_holds [OF assms] sel by simp
  obtain ids s2 where blocked: "capacityBlockedAccountIds e i s1 = (ids, s2)"
    by (cases "capacityBlockedAccountIds e i s1")
  obtain h where "s2 = s1\<lparr>sd_health := h\<rparr>" using capacityBlocked_frame [of e i s1] blocked by auto
  then have s2: "holds s2" using health_holds [OF s1] by simp
  have queued: "holds (snd (enqueueCapacityWaiter e i ids d sig orig s2))" for d orig
    using s2 assms(1,2)
    by (simp add: enqueueCapacityWaiter_eq handoff_holds register_holds new_waiter_def)
  show ?thesis
    unfolding selectAndAcquireWhenAvailable_def sel
    using assms(3) s1 s2 queued blocked
    by (simp add: Let_def split: sum.split scheduler_error.split)
qed

end

end
