(* ===== verification/Scheduler_Runs.thy ===== *)
theory Scheduler_Runs
  imports Waiter_Proofs
begin

text \<open>
  Whole runs of the scheduler: the operations as a step relation, what holds in every
  reachable state (queue bookkeeping, concurrency limits, session cache), and the account of
  slots against leases and grants.
\<close>

section \<open>Runs of the scheduler\<close>

text \<open>
  The operations callers and timers perform, over a fixed set of configured accounts. Health
  reports only write the health part: \<open>Health\<close> stands for all of them. A release may be called
  with any lease.
\<close>

inductive sched_step :: "account set \<Rightarrow> scheduler \<Rightarrow> scheduler \<Rightarrow> bool" for A where
  Select: "draws_ok e \<Longrightarrow> input_ok A i \<Longrightarrow> sched_step A s (snd (selectAndAcquire e i s))"
| Wait: "draws_ok e \<Longrightarrow> input_ok A i \<Longrightarrow>
     sched_step A s (snd (selectAndAcquireWhenAvailable e i sig deadline limit s))"
| Try_Acquire: "a \<in> A \<Longrightarrow> sched_step A s (snd (tryAcquireAccount e a p s))"
| Release: "draws_ok e \<Longrightarrow> sched_step A s (snd (release e l s))"
| Timeout: "w \<in> snd ` set (sd_waiters s) \<Longrightarrow> sched_step A s (waiterTimeout w s)"
| Abort: "sched_step A s (signalAborted sig s)"
| Failure: "sched_step A s (snd (schedulerRecordFailure e j opts s))"
| Sticky_Failure: "sched_step A s (snd (schedulerRecordStickyFailure e p sid j s))"
| Health: "sched_step A s (s\<lparr>sd_health := h\<rparr>)"
| Hydrate: "sched_step A s (hydrate e accounts pools s)"
| Clear: "sched_step A s (clear s)"

definition sched_reachable :: "account set \<Rightarrow> scheduler_options \<Rightarrow> scheduler \<Rightarrow> bool" where
  "sched_reachable A opts s \<longleftrightarrow> (sched_step A)\<^sup>*\<^sup>* (new_scheduler opts) s"

text \<open>The contract extended to every operation.\<close>

locale slot_invariant = slot_property +
  assumes try_keeps: "a \<in> A \<Longrightarrow> Q s \<Longrightarrow> Q (snd (tryAcquireAccount e a p s))"
    and failure_keeps: "Q s \<Longrightarrow> Q (snd (schedulerRecordFailure e j opts s))"
    and sticky_failure_keeps: "Q s \<Longrightarrow> Q (snd (schedulerRecordStickyFailure e pid sid j s))"
    and reset_keeps: "Q s \<Longrightarrow> Q (reset_slots s)"
    and new_keeps: "Q (new_scheduler options)"
begin

lemma same_queue_holds: "holds s \<Longrightarrow> queue_same s t \<Longrightarrow> Q t \<Longrightarrow> holds t"
  using queue_ok_same by (simp add: holds_def)

lemma step_holds:
  assumes "sched_step A s t" and "holds s"
  shows "holds t"
  using assms(1)
proof cases
  case (Select e i)
  then show ?thesis using select_holds assms(2) by simp
next
  case (Wait e i sig deadline limit)
  then show ?thesis using wait_holds assms(2) by simp
next
  case (Try_Acquire a e p)
  have "queue_same s t"
    by (simp add: Try_Acquire tryAcquireAccount_def acquireAccountSlot_def isEligible_def
        schedulerAvailable_def queue_same_def Let_def split_beta)
  then show ?thesis
    using same_queue_holds [OF assms(2)] try_keeps Try_Acquire assms(2) by (simp add: holds_def)
next
  case (Release e l)
  then show ?thesis using release_holds assms(2) by simp
next
  case (Timeout w)
  then show ?thesis using waiterTimeout_holds assms(2) by simp
next
  case (Abort sig)
  then show ?thesis using signalAborted_holds assms(2) by simp
next
  case (Failure e j opts)
  have "queue_same s t" by (simp add: Failure schedulerRecordFailure_def queue_same_def split_beta Let_def)
  then show ?thesis
    using same_queue_holds [OF assms(2)] failure_keeps Failure assms(2) by (simp add: holds_def)
next
  case (Sticky_Failure e p sid j)
  have "queue_same s t"
    by (simp add: Sticky_Failure schedulerRecordStickyFailure_def queue_same_def split_beta Let_def)
  then show ?thesis
    using same_queue_holds [OF assms(2)] sticky_failure_keeps Sticky_Failure assms(2) by (simp add: holds_def)
next
  case (Health h)
  then show ?thesis using health_holds assms(2) by simp
next
  case (Hydrate e accounts pools)
  have "queue_same s t" "sd_active t = sd_active s" "sd_sticky t = sd_sticky s"
    by (simp_all add: Hydrate hydrate_def queue_same_def Let_def split: option.split)
  then show ?thesis
    using same_queue_holds [OF assms(2)] view_keeps [of s t] assms(2) by (simp add: holds_def)
next
  case Clear
  have r: "holds (reject_all (\<lambda>w. No_Eligible_Account (cw_accountIds w) reset_message) (map snd (sd_waiters s)) s)"
    by (intro reject_all_holds pending_all assms(2))
  then show ?thesis
    unfolding Clear clear_eq
    using same_queue_holds [OF r queue_same_reset] reset_keeps by (simp add: holds_def)
qed

lemma new_holds: "holds (new_scheduler options)"
  using new_keeps [of options]
  by (simp add: holds_def queue_ok_def queued_ok_def waiters_ok_def new_scheduler_def waiters_of_def Let_def)

lemma reachable_holds: "sched_reachable A options s \<Longrightarrow> holds s"
  unfolding sched_reachable_def
  by (induction rule: rtranclp_induct) (use new_holds step_holds in auto)

end

text \<open>The bookkeeping of the queue needs nothing but itself.\<close>

interpretation queue: slot_invariant A "\<lambda>s. True" for A
  by unfold_locales simp_all

section \<open>The concurrency limits\<close>

definition within_limits :: "account set \<Rightarrow> scheduler \<Rightarrow> bool" where
  "within_limits A s \<longleftrightarrow> (\<forall>a \<in> A. real (active_slots s (acc_id a)) \<le> slot_limit a)"

lemma active_slots_acquire [simp]:
  "active_slots (acquireAccountSlot i s) j = active_slots s j + (if j = i then 1 else 0)"
  by (simp add: acquireAccountSlot_def active_slots_def)

lemma active_slots_cong: "sd_active t = sd_active s \<Longrightarrow> active_slots t = active_slots s"
  by (rule ext) (simp add: active_slots_def)

lemma within_limits_acquire:
  assumes "inj_on acc_id A" and "within_limits A s" and "a \<in> A"
    and "real (active_slots s (acc_id a)) + 1 \<le> slot_limit a"
    and "\<And>j. active_slots t j = active_slots s j + (if j = acc_id a then 1 else 0)"
  shows "within_limits A t"
  using assms by (auto simp: within_limits_def dest: inj_onD)

lemma within_limits_select:
  assumes "inj_on acc_id A" and "draws_ok e" and "input_ok A i" and "within_limits A s"
  shows "within_limits A (snd (selectAndAcquire e i s))"
proof -
  have ids: "distinct (map acc_id (in_accounts i))" using assms(3) by (simp add: input_ok_def)
  show ?thesis
  proof (rule selectAndAcquire_cases [OF assms(2) ids, of s])
    fix err t
    assume "selectAndAcquire e i s = (Inl err, t)" "selection_frame s t"
    then show ?thesis
      using assms(4) active_slots_cong [of t s] by (simp add: within_limits_def selection_frame_def)
  next
    fix a t
    assume a: "a \<in> set (runnable_tier e i s)" and sel: "selectAndAcquire e i s = committed e i a t"
      and t: "selection_frame s t"
    have "a \<in> set (in_accounts i)"
      using runnable_tier_eligible [OF a] er_verified_subset er_unknown_subset
      by (fastforce simp: source_eligibility_def)
    then have aA: "a \<in> A" using assms(3) by (auto simp: input_ok_def)
    have room: "real (active_slots s (acc_id a)) + 1 \<le> slot_limit a"
      using runnable_tier_runnable [OF a]
      by (intro hasCapacity_slots [where b = "pool_strategy (in_pool i) = Autobalanced"]) (simp add: runnable_def)
    have "active_slots (snd (selectAndAcquire e i s)) j = active_slots s j + (if j = acc_id a then 1 else 0)" for j
      using t by (simp add: sel committed_def active_slots_def selection_frame_def)
    then show ?thesis by (rule within_limits_acquire [OF assms(1,4) aA room])
  qed
qed

lemma tryAcquire_cases:
  obtains (No) h where "snd (tryAcquireAccount e a p s) = s\<lparr>sd_health := h\<rparr>"
      "\<nexists>l. fst (tryAcquireAccount e a p s) = Inr (Some l)"
  | (Yes) h b where "tryAcquireAccount e a p s =
        (Inr (Some \<lparr>ls_stickyKey = None, ls_accountId = acc_id a, ls_released = False\<rparr>),
         acquireAccountSlot (acc_id a) (s\<lparr>sd_health := h\<rparr>))" "hasCapacity s b a"
proof (cases "isSupportedPoolStrategy (pool_strategy p)")
  case False
  then show thesis using No [of "sd_health s"] by (simp add: tryAcquireAccount_def)
next
  case True
  let ?b = "pool_strategy p = Autobalanced"
  obtain h where h: "snd (isEligible (env_now e) a p ?b None s) = s\<lparr>sd_health := h\<rparr>"
    using isEligible_eq(2) by blast
  show thesis
  proof (cases "fst (isEligible (env_now e) a p ?b None s)")
    case False
    then show thesis using No [of h] True h by (simp add: tryAcquireAccount_def split_beta Let_def)
  next
    case elig: True
    then have "hasCapacity s ?b a" by (simp add: isEligible_eq)
    then show thesis using Yes [of h ?b] True h elig by (simp add: tryAcquireAccount_def split_beta Let_def)
  qed
qed

lemma recordFailure_sticky:
  "fst (snd (recordFailure now j opts (c, h))) \<in> {c, failAccountAssignments now j c}"
proof (cases "stale (fo_expectedResetEpoch opts) (getResetEpoch h j)
      \<or> stale (fo_expectedRevision opts) (getHealthRevision h j)")
  case True
  obtain r c' h' where r: "recordFailure now j opts (c, h) = (r, c', h')"
    by (cases "recordFailure now j opts (c, h)") auto
  with recordFailure_rejected [OF True r] show ?thesis by simp
next
  case False
  then show ?thesis using recordFailure_applied_eq [of opts h j now c] by fastforce
qed

definition limits_kept :: "account set \<Rightarrow> scheduler \<Rightarrow> bool" where
  "limits_kept A s \<longleftrightarrow> (inj_on acc_id A \<longrightarrow> within_limits A s)"

lemma limits_kept_fewer:
  "limits_kept A s \<Longrightarrow> (\<And>j. active_slots t j \<le> active_slots s j) \<Longrightarrow> limits_kept A t"
  unfolding limits_kept_def within_limits_def by (meson of_nat_mono order_trans)

lemma slot_limit_nonneg: "0 \<le> slot_limit a"
  using routeAccountConcurrencyLimit_ge_1 [of "acc_maxConcurrency a"] by (simp add: slot_limit_def)

interpretation limits: slot_invariant A "limits_kept A" for A
proof
  show "limits_kept A (snd (selectAndAcquire e i s))" if "draws_ok e" "input_ok A i" "limits_kept A s" for e i s
    using within_limits_select that by (simp add: limits_kept_def)
  show "limits_kept A (free_slot j s)" if "limits_kept A s" for s j
    by (rule limits_kept_fewer [OF that]) simp
  show "limits_kept A t" if "limits_kept A s" "sd_active t = sd_active s" for s t
    by (rule limits_kept_fewer [OF that(1)]) (simp add: active_slots_cong [OF that(2)])
  show "limits_kept A (snd (tryAcquireAccount e a p s))" if "a \<in> A" "limits_kept A s" for a s e p
  proof (rule tryAcquire_cases [of e a p s])
    fix h
    assume "snd (tryAcquireAccount e a p s) = s\<lparr>sd_health := h\<rparr>"
    then show ?thesis by (intro limits_kept_fewer [OF that(2)]) simp
  next
    fix h b
    assume yes: "tryAcquireAccount e a p s =
        (Inr (Some \<lparr>ls_stickyKey = None, ls_accountId = acc_id a, ls_released = False\<rparr>),
         acquireAccountSlot (acc_id a) (s\<lparr>sd_health := h\<rparr>))" and room: "hasCapacity s b a"
    show ?thesis
      using that(2) within_limits_acquire [OF _ _ that(1) hasCapacity_slots [OF room],
          of "acquireAccountSlot (acc_id a) (s\<lparr>sd_health := h\<rparr>)"]
      by (simp add: limits_kept_def yes)
  qed
  show "limits_kept A (snd (schedulerRecordFailure e j opts s))" if "limits_kept A s" for s e j opts
    by (rule limits_kept_fewer [OF that]) (simp add: schedulerRecordFailure_def active_slots_def split_beta Let_def)
  show "limits_kept A (snd (schedulerRecordStickyFailure e pid sid j s))" if "limits_kept A s" for s e pid sid j
    by (rule limits_kept_fewer [OF that]) (simp add: schedulerRecordStickyFailure_def active_slots_def split_beta Let_def)
  show "limits_kept A (reset_slots s)" if "limits_kept A s" for s
    by (rule limits_kept_fewer [OF that]) (simp add: reset_slots_def active_slots_def)
  show "limits_kept A (new_scheduler options)" for options
    using slot_limit_nonneg by (simp add: limits_kept_def within_limits_def active_slots_def new_scheduler_def Let_def)
qed

section \<open>The session cache in a run\<close>

lemma positiveBound_pos: "0 < fallback \<Longrightarrow> 0 < positiveBound v fallback"
  by (auto simp: positiveBound_def less_max_iff_disj split: option.split js_number.split)

interpretation sticky: slot_invariant A "\<lambda>s. sticky_ok (sd_sticky s)" for A
proof
  show "sticky_ok (sd_sticky (snd (selectAndAcquire e i s)))" if "input_ok A i" "sticky_ok (sd_sticky s)" for e i s
    using sticky_ok_selectAndAcquire that by (simp add: input_ok_def)
  show "sticky_ok (sd_sticky (free_slot j s))" if "sticky_ok (sd_sticky s)" for j s
    using that by (simp add: free_slot_def Let_def)
  show "sticky_ok (sd_sticky t)" if "sticky_ok (sd_sticky s)" "sd_sticky t = sd_sticky s" for s t
    using that by simp
  show "sticky_ok (sd_sticky (snd (tryAcquireAccount e a p s)))" if "sticky_ok (sd_sticky s)" for e a p s
    by (rule tryAcquire_cases [of e a p s]) (use that in \<open>auto simp: acquireAccountSlot_def\<close>)
  show "sticky_ok (sd_sticky (snd (schedulerRecordFailure e j opts s)))" if "sticky_ok (sd_sticky s)" for e j opts s
    using that failAccountAssignments_spec(1) [OF that] recordFailure_sticky [of "env_now e" j opts "sd_sticky s" "sd_health s"]
    by (auto simp: schedulerRecordFailure_def split_beta Let_def)
  show "sticky_ok (sd_sticky (snd (schedulerRecordStickyFailure e pid sid j s)))" if "sticky_ok (sd_sticky s)" for e pid sid j s
    using sticky_ok_recordStickyFailure [OF that] by (simp add: schedulerRecordStickyFailure_def split_beta Let_def)
  show "sticky_ok (sd_sticky (reset_slots s))" if "sticky_ok (sd_sticky s)" for s
    using sticky_ok_clearSticky [OF that] by (simp add: reset_slots_def)
  show "sticky_ok (sd_sticky (new_scheduler options))" for options
    by (simp add: new_scheduler_def Let_def sticky_ok_empty positiveBound_pos)
qed

section \<open>Slots, leases and grants\<close>

definition granted_to :: "string \<Rightarrow> settlement \<Rightarrow> bool" where
  "granted_to j = (\<lambda>(k, r). case r of Inr sel \<Rightarrow> ls_accountId (sel_lease sel) = j | Inl _ \<Rightarrow> False)"

definition grants :: "string \<Rightarrow> scheduler \<Rightarrow> nat" where
  "grants j s = length (filter (granted_to j) (sd_settled s))"

text \<open>The slots in use that no settled waiter accounts for.\<close>

definition slot_balance :: "string \<Rightarrow> scheduler \<Rightarrow> int" where
  "slot_balance j s = int (active_slots s j) - int (grants j s)"

lemma slot_balance_cong:
  "sd_active t = sd_active s \<Longrightarrow> sd_settled t = sd_settled s \<Longrightarrow> slot_balance j t = slot_balance j s"
  by (simp add: slot_balance_def grants_def active_slots_def)

lemma slot_balance_failed:
  assumes "draws_ok e" and "distinct (map acc_id (in_accounts i))" and "selectAndAcquire e i s = (Inl err, t)"
  shows "slot_balance j t = slot_balance j s"
  by (rule selectAndAcquire_cases [OF assms(1,2), of s])
    (use assms(3) in \<open>auto simp: committed_def selection_frame_def intro: slot_balance_cong\<close>)

lemma slot_balance_selected:
  assumes "draws_ok e" and "distinct (map acc_id (in_accounts i))" and "selectAndAcquire e i s = (Inr sel, t)"
  shows "slot_balance j t = slot_balance j s + (if j = ls_accountId (sel_lease sel) then 1 else 0)"
    and "ls_accountId (sel_lease sel) = acc_id (sel_account sel)" and "\<not> ls_released (sel_lease sel)"
  by (rule selectAndAcquire_cases [OF assms(1,2), of s];
      use assms(3) in \<open>auto simp: committed_def selection_frame_def slot_balance_def grants_def active_slots_def\<close>)+

lemma slot_balance_conclude:
  "slot_balance j (conclude w r s) = slot_balance j s - (if granted_to j (cw_id w, r) then 1 else 0)"
  by (simp add: slot_balance_def grants_def active_slots_def)

lemma slot_balance_turn:
  assumes "turn e w s s'" and "draws_ok e" and "distinct (map acc_id (in_accounts (cw_input w)))"
  shows "slot_balance j s' = slot_balance j s"
  using assms(1)
proof cases
  case Skip
  then show ?thesis by simp
next
  case (Expire err)
  then show ?thesis by (simp add: slot_balance_conclude granted_to_def)
next
  case (Refuse err s1 err' h)
  with slot_balance_failed [OF assms(2,3) Refuse(2), of j] show ?thesis
    by (simp add: slot_balance_conclude granted_to_def slot_balance_cong [of "s1\<lparr>sd_health := h\<rparr>" s1])
next
  case (Stay err s1 ids h)
  with slot_balance_failed [OF assms(2,3) Stay(2), of j] show ?thesis
    by (simp add: slot_balance_cong [of "relist w ids (s1\<lparr>sd_health := h\<rparr>)" s1])
qed

lemma slot_balance_fulfillOne:
  assumes "draws_ok e" and "queue_ok A s"
  shows "slot_balance j (snd (fulfillOneCapacityWaiter e i s)) = slot_balance j s"
proof -
  have ok: "waiters_ok s" using assms(2) by (simp add: queue_ok_def)
  have ids: "distinct (map acc_id (in_accounts (cw_input w)))" if "w \<in> set (map snd (sd_waiters s))" for w
    using that assms(2) by (auto simp: queue_ok_def queued_ok_def input_ok_def)
  let ?I = "\<lambda>t. slot_balance j t = slot_balance j s"
  have "if fst (fulfillOneCapacityWaiter e i s) then ?I (snd (fulfillOneCapacityWaiter e i s))
      else ?I (snd (fulfillOneCapacityWaiter e i s))"
    unfolding fulfillOneCapacityWaiter_def
  proof (rule fulfill_loop_rule [where I = ?I and J = ?I, OF assms(1)])
    show "?I u'" if "w \<in> set (map snd (sd_waiters s))" "?I u" "turn e w u u'" for w u u'
      using slot_balance_turn [OF that(3) assms(1) ids [OF that(1)]] that(2) by simp
    show "?I (conclude w (Inr sel) u1)"
      if "w \<in> set (map snd (sd_waiters s))" "?I u" "selectAndAcquire e (cw_input w) u = (Inr sel, u1)" for w u sel u1
      using slot_balance_selected(1) [OF assms(1) ids [OF that(1)] that(3), of j] that(2)
      by (simp add: slot_balance_conclude granted_to_def)
  qed (use ids pending_snapshot [OF ok] in auto)
  then show ?thesis by (simp split: if_splits)
qed

text \<open>A release takes exactly one slot of its account out of the account, whatever waiters it serves.\<close>

lemma slot_balance_release:
  assumes "draws_ok e" and "queue_ok A s" and "\<not> ls_released l" and "0 < active_slots s (ls_accountId l)"
  shows "slot_balance j (snd (release e l s)) = slot_balance j s - (if j = ls_accountId l then 1 else 0)"
proof -
  define s1 where "s1 = (case ls_stickyKey l of None \<Rightarrow> s
    | Some key \<Rightarrow> s\<lparr>sd_sessions := releaseActiveStickySession key (ls_accountId l) (sd_sessions s)\<rparr>)"
  have s1: "queue_same s s1" "sd_active s1 = sd_active s" "sd_settled s1 = sd_settled s"
    by (simp_all add: s1_def queue_same_def split: option.split)
  have "queue_ok A (free_slot (ls_accountId l) s1)"
    using queue_ok_same [OF queue_same_free] queue_ok_same [OF s1(1)] assms(2) by simp
  then have "slot_balance j (snd (release e l s)) = slot_balance j (free_slot (ls_accountId l) s1)"
    using slot_balance_fulfillOne [OF assms(1)] assms(3)
    by (simp add: release_def releaseAccountSlot_eq Let_def s1_def)
  also have "\<dots> = slot_balance j s - (if j = ls_accountId l then 1 else 0)"
    using assms(4) s1 active_slots_cong [OF s1(2)] queue_same_free [of s1]
    by (simp add: slot_balance_def grants_def queue_same_def)
  finally show ?thesis .
qed

lemma release_twice: "release e' (fst (release e l s)) t = (fst (release e l s), t)"
  by (simp add: release_def Let_def)

lemma queue_ok_fulfillOne: "draws_ok e \<Longrightarrow> queue_ok A s \<Longrightarrow> queue_ok A (snd (fulfillOneCapacityWaiter e i s))"
  using queue.fulfillOne_holds by (simp add: queue.holds_def)

lemma slot_balance_handoff:
  "draws_ok e \<Longrightarrow> queue_ok A s \<Longrightarrow> slot_balance j (handoff e ids s) = slot_balance j s"
proof (induction ids arbitrary: s)
  case Nil
  then show ?case by simp
next
  case (Cons i ids)
  obtain b t where t: "fulfillOneCapacityWaiter e i s = (b, t)" by (cases "fulfillOneCapacityWaiter e i s")
  have "slot_balance j t = slot_balance j s" "queue_ok A t"
    using slot_balance_fulfillOne [OF Cons.prems, of j i] queue_ok_fulfillOne [OF Cons.prems, of i] t by simp_all
  with Cons t show ?case by simp
qed

text \<open>Waiting takes no slot that is not accounted for by a grant or by the returned lease.\<close>

lemma wait_unfold:
  "selectAndAcquireWhenAvailable e i sig deadline limit s =
     (if (case sig of None \<Rightarrow> False | Some g \<Rightarrow> env_aborted e g) then (Settled (Inl Wait_Aborted), s)
      else case selectAndAcquire e i s of
        (Inr sel, s1) \<Rightarrow> (Settled (Inr sel), s1)
      | (Inl err, s1) \<Rightarrow>
          (case err of
             No_Eligible_Account ids msg \<Rightarrow>
               (let (waitable, s2) = capacityBlockedAccountIds e i s1;
                    latest = env_now e + bounded_wait limit;
                    until = (case deadline of Some (Finite d) \<Rightarrow> min d latest | _ \<Rightarrow> latest)
                in if waitable = [] \<or> bounded_wait limit = 0 \<or> until \<le> env_now e then (Settled (Inl err), s2)
                   else enqueueCapacityWaiter e i waitable until sig ids s2)
           | _ \<Rightarrow> (Settled (Inl err), s1)))"
  by (simp add: selectAndAcquireWhenAvailable_def Let_def split_beta
      split: prod.split sum.split scheduler_error.split)

lemma slot_balance_wait:
  assumes "draws_ok e" and "input_ok A i" and "queue_ok A s"
    and w: "selectAndAcquireWhenAvailable e i sig deadline limit s = (r, t)"
  shows "slot_balance j t = slot_balance j s +
    (case r of Settled (Inr sel) \<Rightarrow> (if j = ls_accountId (sel_lease sel) then 1 else 0) | _ \<Rightarrow> 0)"
proof -
  let ?aborted = "case sig of None \<Rightarrow> False | Some g \<Rightarrow> env_aborted e g"
  have ids: "distinct (map acc_id (in_accounts i))" using assms(2) by (simp add: input_ok_def)
  obtain q s1 where sel: "selectAndAcquire e i s = (q, s1)" by (cases "selectAndAcquire e i s")
  have q1: "queue_ok A s1" using queue_ok_select [OF assms(1,2), of s] assms(3) sel by simp
  show ?thesis
  proof (cases q)
    case (Inr x)
    have "(r, t) = (if ?aborted then (Settled (Inl Wait_Aborted), s) else (Settled (Inr x), s1))"
      unfolding w [symmetric] wait_unfold sel Inr by simp
    then show ?thesis
      using slot_balance_selected(1) [OF assms(1) ids, of s x s1 j] sel Inr
      by (cases ?aborted) simp_all
  next
    case (Inl err)
    have b1: "slot_balance j s1 = slot_balance j s"
      using slot_balance_failed [OF assms(1) ids, of s err s1 j] sel Inl by simp
    obtain waitable s2 where blocked: "capacityBlockedAccountIds e i s1 = (waitable, s2)"
      by (cases "capacityBlockedAccountIds e i s1")
    obtain h where s2: "s2 = s1\<lparr>sd_health := h\<rparr>"
      using capacityBlocked_frame [of e i s1] blocked by auto
    have b2: "slot_balance j s2 = slot_balance j s1"
      by (rule slot_balance_cong) (simp_all add: s2)
    have q2: "queue_ok A s2" using q1 by (simp add: s2)
    have b3: "slot_balance j u = slot_balance j s2 \<and> (\<forall>x. v \<noteq> Settled (Inr x))"
      if "enqueueCapacityWaiter e i waitable d sig orig s2 = (v, u)" for d orig v u
    proof (cases "queue_full (pool_id (in_pool i)) s2")
      case True
      with that show ?thesis by (auto simp: enqueueCapacityWaiter_eq)
    next
      case False
      let ?n = "new_waiter e i waitable d sig orig s2"
      have "queue_ok A (register ?n s2)"
        using q2 False assms(2) by (intro queue_ok_register) (simp_all add: new_waiter_def)
      then have "slot_balance j (handoff e waitable (register ?n s2)) = slot_balance j (register ?n s2)"
        by (rule slot_balance_handoff [OF assms(1)])
      with that False show ?thesis
        by (auto simp: enqueueCapacityWaiter_eq slot_balance_cong [of "register ?n s2" s2])
    qed
    show ?thesis
    proof (cases "\<exists>x y. err = No_Eligible_Account x y")
      case False
      then have "(r, t) = (if ?aborted then (Settled (Inl Wait_Aborted), s) else (Settled (Inl err), s1))"
        unfolding w [symmetric] wait_unfold sel Inl by (cases err) simp_all
      then show ?thesis using b1 by (cases ?aborted) simp_all
    next
      case True
      then obtain x y where err: "err = No_Eligible_Account x y" by blast
      let ?latest = "env_now e + bounded_wait limit"
      let ?until = "case deadline of Some (Finite d) \<Rightarrow> min d ?latest | _ \<Rightarrow> ?latest"
      consider "r = Settled (Inl Wait_Aborted)" "t = s" | "r = Settled (Inl err)" "t = s2"
        | "enqueueCapacityWaiter e i waitable ?until sig x s2 = (r, t)"
      proof -
        have "(r, t) = (if ?aborted then (Settled (Inl Wait_Aborted), s)
            else if waitable = [] \<or> bounded_wait limit = 0 \<or> ?until \<le> env_now e then (Settled (Inl err), s2)
            else enqueueCapacityWaiter e i waitable ?until sig x s2)"
          unfolding w [symmetric] wait_unfold sel Inl err by (simp add: blocked Let_def)
        then show thesis
          using that by (cases ?aborted; cases "waitable = [] \<or> bounded_wait limit = 0 \<or> ?until \<le> env_now e")
            simp_all
      qed
      then show ?thesis
      proof cases
        case 3
        from b3 [OF this] b1 b2 show ?thesis by (auto split: wait_outcome.split sum.split)
      qed (use b1 b2 in auto)
    qed
  qed
qed

section \<open>One slot, one grant\<close>

definition refusals :: "settlement list \<Rightarrow> bool" where
  "refusals rs \<longleftrightarrow> (\<forall>(k, r) \<in> set rs. \<exists>err. r = Inl err)"

text \<open>One freed slot serves at most one waiter; all others it settles are refused.\<close>

lemma fulfillOne_settlements:
  assumes "draws_ok e" and "queue_ok A s"
  shows "\<exists>rs gs. sd_settled (snd (fulfillOneCapacityWaiter e i s)) = sd_settled s @ rs @ gs \<and> refusals rs
    \<and> (if fst (fulfillOneCapacityWaiter e i s) then \<exists>k sel. gs = [(k, Inr sel)] else gs = [])"
proof -
  have ok: "waiters_ok s" using assms(2) by (simp add: queue_ok_def)
  have ids: "distinct (map acc_id (in_accounts (cw_input w)))" if "w \<in> set (map snd (sd_waiters s))" for w
    using that assms(2) by (auto simp: queue_ok_def queued_ok_def input_ok_def)
  let ?I = "\<lambda>t. \<exists>rs. sd_settled t = sd_settled s @ rs \<and> refusals rs"
  let ?J = "\<lambda>t. \<exists>rs k sel. sd_settled t = sd_settled s @ rs @ [(k, Inr sel)] \<and> refusals rs"
  have same: "sd_settled u1 = sd_settled u"
    if "w \<in> set (map snd (sd_waiters s))" "selectAndAcquire e (cw_input w) u = (r, u1)" for w u r u1
    using queue_same_select [OF assms(1) ids [OF that(1)], of u] that(2) by (simp add: queue_same_def)
  have "if fst (fulfillOneCapacityWaiter e i s) then ?J (snd (fulfillOneCapacityWaiter e i s))
      else ?I (snd (fulfillOneCapacityWaiter e i s))"
    unfolding fulfillOneCapacityWaiter_def
  proof (rule fulfill_loop_rule [where I = ?I and J = ?J, OF assms(1)])
    show "?I u'" if w: "w \<in> set (map snd (sd_waiters s))" and I: "?I u" and t: "turn e w u u'" for w u u'
      using t
    proof cases
      case Skip
      with I show ?thesis by simp
    next
      case (Expire err)
      with I show ?thesis by (auto simp: refusals_def)
    next
      case (Refuse err u1 err' h)
      with I same [OF w Refuse(2)] show ?thesis by (auto simp: refusals_def)
    next
      case (Stay err u1 ids' h)
      with I same [OF w Stay(2)] show ?thesis by simp
    qed
    show "?J (conclude w (Inr sel) u1)"
      if w: "w \<in> set (map snd (sd_waiters s))" and I: "?I u"
        and sel: "selectAndAcquire e (cw_input w) u = (Inr sel, u1)" for w u sel u1
      using I same [OF w sel] by auto
  qed (use ids pending_snapshot [OF ok] in \<open>auto simp: refusals_def\<close>)
  then show ?thesis by (fastforce split: if_splits)
qed

section \<open>Reset\<close>

lemma clear_waiters:
  assumes "waiters_ok s"
  shows "sd_waiters (clear s) = []" and "waiters_ok (clear s)"
proof -
  let ?t = "reject_all (\<lambda>w. No_Eligible_Account (cw_accountIds w) reset_message) (map snd (sd_waiters s)) s"
  have r: "waiters_ok ?t \<and> map_keys (sd_waiters ?t)
      = filter (\<lambda>k. k \<notin> cw_id ` set (map snd (sd_waiters s))) (map_keys (sd_waiters s))"
    by (rule reject_all_rule [where I = waiters_ok, OF waiters_ok_conclude pending_snapshot [OF assms] assms])
  have "k \<in> cw_id ` set (map snd (sd_waiters s))" if "k \<in> set (map_keys (sd_waiters s))" for k
    using that waiters_okD(2) [OF assms] by force
  then have "map_keys (sd_waiters ?t) = []" using r by (simp add: filter_empty_conv)
  then show "sd_waiters (clear s) = []" by (simp add: clear_eq reset_slots_def)
  show "waiters_ok (clear s)"
    using r queue_same_waiters_ok [OF queue_same_reset, of ?t] by (simp add: clear_eq)
qed

text \<open>A lease carries no generation: released after a reset, it frees a slot taken since.\<close>

lemma release_frees_any_slot:
  assumes "\<not> ls_released l" and "sd_waiters s = []"
  shows "active_slots (snd (release e l s)) (ls_accountId l) = active_slots s (ls_accountId l) - 1"
  using assms
  by (simp add: release_def releaseAccountSlot_def fulfillOneCapacityWaiter_def active_slots_def Let_def
      split: option.split)

end
