(* ===== verification/Session_Proofs.thy ===== *)
theory Session_Proofs
  imports Sticky_Cache
begin

text \<open>
  The counters of running sticky requests: an account's session count is the number of
  sessions with a request in flight on it.
\<close>

definition sessions_ok :: "active_sessions \<Rightarrow> bool" where
  "sessions_ok s \<longleftrightarrow>
     (\<forall>i. finite {k. 0 < session_requests s k i} \<and> session_count s i = card {k. 0 < session_requests s k i})
     \<and> (\<forall>k m. as_sessions s k = Some m \<longrightarrow> m \<noteq> [] \<and> map_wf m \<and> (\<forall>(i, n) \<in> set m. 0 < n))"

lemma session_requests_acquire:
  "session_requests (acquireActiveStickySession key i s) k j =
     session_requests s k j + (if k = key \<and> j = i then 1 else 0)"
  by (simp add: acquireActiveStickySession_def session_requests_def Let_def split: option.split)

lemma session_count_acquire:
  "session_count (acquireActiveStickySession key i s) j =
     session_count s j + (if j = i \<and> session_requests s key i = 0 then 1 else 0)"
  by (auto simp: acquireActiveStickySession_def session_requests_def session_count_def Let_def split: option.split)

lemma acquire_as_sessions:
  "as_sessions (acquireActiveStickySession key i s) =
     (as_sessions s)(key \<mapsto> map_set (case as_sessions s key of None \<Rightarrow> [] | Some m \<Rightarrow> m) i (session_requests s key i + 1))"
  by (simp add: acquireActiveStickySession_def session_requests_def Let_def split: option.split)

lemma set_map_set_pos: "(\<forall>(j, m) \<in> set xs. 0 < (m :: nat)) \<Longrightarrow> 0 < n \<Longrightarrow> \<forall>(j, m) \<in> set (map_set xs i n). 0 < m"
  by (induction xs) auto

lemma map_set_not_Nil: "map_set xs i n \<noteq> []"
  by (cases xs) auto

lemma sessions_ok_acquire:
  assumes ok: "sessions_ok s"
  shows "sessions_ok (acquireActiveStickySession key i s)"
proof -
  let ?t = "acquireActiveStickySession key i s"
  have counts: "finite {k. 0 < session_requests ?t k j} \<and> session_count ?t j = card {k. 0 < session_requests ?t k j}" for j
  proof -
    have old: "finite {k. 0 < session_requests s k j}" "session_count s j = card {k. 0 < session_requests s k j}"
      using ok by (simp_all add: sessions_ok_def)
    show ?thesis
    proof (cases "j = i")
      case False
      then show ?thesis using old by (simp add: session_requests_acquire session_count_acquire)
    next
      case True
      have "{k. 0 < session_requests ?t k j} = insert key {k. 0 < session_requests s k j}"
        using True by (auto simp: session_requests_acquire)
      then show ?thesis
        using old True by (cases "session_requests s key i = 0")
          (auto simp: session_count_acquire card_insert_if)
    qed
  qed
  have "m \<noteq> [] \<and> map_wf m \<and> (\<forall>(j, n) \<in> set m. 0 < n)" if "as_sessions ?t k = Some m" for k m
  proof (cases "k = key")
    case False
    with that ok show ?thesis by (simp add: acquire_as_sessions sessions_ok_def)
  next
    case True
    let ?old = "case as_sessions s key of None \<Rightarrow> [] | Some m \<Rightarrow> m"
    have old: "map_wf ?old" "\<forall>(j, n) \<in> set ?old. 0 < n"
    proof -
      have "map_wf v \<and> (\<forall>(j, n) \<in> set v. 0 < n)" if "as_sessions s key = Some v" for v
        using ok that unfolding sessions_ok_def by blast
      then show "map_wf ?old" "\<forall>(j, n) \<in> set ?old. 0 < n"
        by (cases "as_sessions s key"; simp)+
    qed
    have m: "m = map_set ?old i (session_requests s key i + 1)"
      using that True unfolding acquire_as_sessions by simp
    show ?thesis
      unfolding m by (intro conjI map_set_not_Nil map_wf_set set_map_set_pos old) simp
  qed
  with counts show ?thesis unfolding sessions_ok_def by blast
qed

text \<open>A release of a session that is counted.\<close>

lemma release_as_sessions:
  assumes "as_sessions s key = Some m"
  shows "as_sessions (releaseActiveStickySession key i s) =
     (let m' = (if session_requests s key i > 1 then map_set m i (session_requests s key i - 1) else map_delete m i)
      in if m' = [] then (as_sessions s)(key := None) else (as_sessions s)(key \<mapsto> m'))"
  and "session_count (releaseActiveStickySession key i s) j =
     session_count s j - (if j = i \<and> session_requests s key i \<le> 1 then 1 else 0)"
  using assms
  by (auto simp: releaseActiveStickySession_def session_requests_def session_count_def Let_def
      split: option.split)

lemma session_requests_release:
  assumes "as_sessions s key = Some m"
  shows "session_requests (releaseActiveStickySession key i s) k j =
     session_requests s k j - (if k = key \<and> j = i then 1 else 0)"
proof -
  let ?m = "if session_requests s key i > 1 then map_set m i (session_requests s key i - 1) else map_delete m i"
  have new: "map_get ?m j = (if j = i then (if session_requests s key i > 1 then Some (session_requests s key i - 1) else None)
      else map_get m j)" by simp
  have "session_requests (releaseActiveStickySession key i s) key j =
      (case map_get ?m j of None \<Rightarrow> 0 | Some n \<Rightarrow> n)"
    by (cases "?m = []") (simp_all add: session_requests_def release_as_sessions(1) [OF assms] Let_def)
  then have "session_requests (releaseActiveStickySession key i s) key j = session_requests s key j - (if j = i then 1 else 0)"
    using assms unfolding new by (simp add: session_requests_def split: option.split)
  moreover have "session_requests (releaseActiveStickySession key i s) k j = session_requests s k j" if "k \<noteq> key"
    using that by (simp add: session_requests_def release_as_sessions(1) [OF assms] Let_def)
  ultimately show ?thesis by (cases "k = key") simp_all
qed

lemma set_map_delete: "set (map_delete xs i) \<subseteq> set xs"
  by (simp add: AList.delete_eq)

lemma sessions_ok_release:
  assumes ok: "sessions_ok s" and counted: "0 < session_requests s key i"
  shows "sessions_ok (releaseActiveStickySession key i s)"
proof -
  let ?t = "releaseActiveStickySession key i s"
  obtain m where m: "as_sessions s key = Some m"
    using counted by (auto simp: session_requests_def split: option.splits)
  have counts: "finite {k. 0 < session_requests ?t k j} \<and> session_count ?t j = card {k. 0 < session_requests ?t k j}" for j
  proof -
    have old: "finite {k. 0 < session_requests s k j}" "session_count s j = card {k. 0 < session_requests s k j}"
      using ok by (simp_all add: sessions_ok_def)
    show ?thesis
    proof (cases "j = i \<and> session_requests s key i = 1")
      case False
      then have "{k. 0 < session_requests ?t k j} = {k. 0 < session_requests s k j}"
        using counted by (auto simp: session_requests_release [OF m])
      then show ?thesis using old False counted by (auto simp: release_as_sessions(2) [OF m])
    next
      case True
      then have "{k. 0 < session_requests ?t k j} = {k. 0 < session_requests s k j} - {key}"
        by (auto simp: session_requests_release [OF m] split: if_splits)
      then show ?thesis
        using old True counted by (simp add: release_as_sessions(2) [OF m] card_Diff_singleton)
    qed
  qed
  have "v \<noteq> [] \<and> map_wf v \<and> (\<forall>(j, n) \<in> set v. 0 < n)" if "as_sessions ?t k = Some v" for k v
  proof (cases "k = key")
    case False
    with that ok show ?thesis by (auto simp: release_as_sessions(1) [OF m] sessions_ok_def Let_def split: if_splits)
  next
    case True
    have old: "map_wf m" "\<forall>(j, n) \<in> set m. 0 < n" using ok m by (auto simp: sessions_ok_def)
    then have "\<forall>(j, n) \<in> set (map_delete m i). 0 < n" using set_map_delete [of i m] by blast
    with that True old show ?thesis
      using set_map_set_pos [of m "session_requests s key i - 1" i]
      by (auto simp: release_as_sessions(1) [OF m] Let_def map_set_not_Nil split: if_splits)
  qed
  with counts show ?thesis unfolding sessions_ok_def by blast
qed

lemma sessions_ok_none: "sessions_ok no_active_sessions"
  by (simp add: sessions_ok_def no_active_sessions_def session_requests_def session_count_def)

end
