(* ===== verification/Scheduling_Properties.thy ===== *)
theory Scheduling_Properties
  imports Scheduler Route_Preview Scheduler_Runs Session_Proofs
begin

text \<open>
  Concrete accounts, pools, providers, requests and scheduler states. The witnesses of the
  properties are evaluated on them.
  The properties follow: selection, the concurrency limits and the queue of waiting requests.
\<close>

definition sample_account :: "string \<Rightarrow> real \<Rightarrow> real \<Rightarrow> account" where
  "sample_account i weight slots =
     \<lparr>acc_id = i, acc_providerId = ''p'', acc_credentialType = Some Api_Key, acc_status = Active,
      acc_priority = 0, acc_weight = weight, acc_maxConcurrency = Finite slots, acc_inFlight = 0,
      acc_availableModels = [], acc_modelsRefreshedAt = None, acc_modelPolicy = All_Models,
      acc_modelAllowlist = [], acc_chatgptWebWm = None, acc_quota = None, acc_codexQuota = None,
      acc_grokQuota = None, acc_quotaProtection = None, acc_cooldownUntil = None,
      acc_cooldownReason = None, acc_circuitState = None, acc_consecutiveFailures = None,
      acc_modelCooldowns = [], acc_updatedAt = 0\<rparr>"

lemma sample_account_fields [simp]:
  "acc_id (sample_account i weight slots) = i"
  "acc_maxConcurrency (sample_account i weight slots) = Finite slots"
  "acc_status (sample_account i weight slots) = Active"
  "acc_inFlight (sample_account i weight slots) = 0"
  by (simp_all add: sample_account_def)

abbreviation account_a :: account where "account_a \<equiv> sample_account ''a'' 2 1"
abbreviation account_b :: account where "account_b \<equiv> sample_account ''b'' 1 1"

definition sample_pool :: "pool_strategy \<Rightarrow> bool \<Rightarrow> pool" where
  "sample_pool strategy sticky =
     \<lparr>pool_id = ''q'', pool_name = ''Q'', pool_kind = Standard,
      pool_protocol = Wire Openai_Responses, pool_strategy = strategy,
      pool_members =
        [\<lparr>mem_accountId = ''a'', mem_enabled = True, mem_weight = None, mem_order = None\<rparr>,
         \<lparr>mem_accountId = ''b'', mem_enabled = True, mem_weight = None, mem_order = None\<rparr>],
      pool_modelPolicy = All_Models, pool_modelAllowlist = [],
      pool_stickySessions = sticky, pool_stickyTtlMinutes = Finite 30, pool_maxRetries = 0,
      pool_forceFastMode = False, pool_quotaProtection = None, pool_createdAt = 0,
      pool_updatedAt = 0\<rparr>"

definition sample_provider :: "string \<Rightarrow> source_type \<Rightarrow> provider" where
  "sample_provider i source =
     \<lparr>prov_id = i, prov_name = ''P'', prov_sourceType = source, prov_kind = K_openai_compatible,
      prov_baseUrl = '''', prov_protocol = Openai_Responses, prov_models = [''m''],
      prov_forceFastMode = None, prov_responsesCompactMode = None, prov_capabilityProfile = None,
      prov_toolRoundtripVerified = None, prov_modelCatalog = None, prov_createdAt = 0,
      prov_updatedAt = 0\<rparr>"

definition sample_env :: env where
  "sample_env = \<lparr>env_now = 1000, env_random = (\<lambda>n. 0), env_compare = (\<lambda>x y. 0),
     env_aborted = (\<lambda>n. False)\<rparr>"

definition sample_input :: "pool_strategy \<Rightarrow> string option \<Rightarrow> account list \<Rightarrow> selection_input" where
  "sample_input strategy session accounts =
     \<lparr>in_pool = sample_pool strategy (session \<noteq> None), in_accounts = accounts, in_model = ''m'',
      in_modelCooldownKey = None, in_skipAccountModelCatalog = False, in_sessionId = session,
      in_excludedAccountIds = [], in_providers = None, in_requiredCapabilities = None\<rparr>"

definition sample_options :: scheduler_options where
  "sample_options = \<lparr>so_maxStickyEntries = None, so_maxStickyEntriesPerPool = None,
     so_maxPendingAcquisitions = None, so_maxPendingAcquisitionsPerPool = None\<rparr>"

abbreviation fresh_scheduler :: scheduler where
  "fresh_scheduler \<equiv> new_scheduler sample_options"

section \<open>Properties of scheduling\<close>

text \<open>
  The properties of selection, of the concurrency limits, of session affinity and of the
  queue of waiting requests, each with a witness on the sample data.
\<close>

section \<open>Facts about the sample data\<close>

lemma sample_draws: "draws_ok sample_env"
  by (simp add: draws_ok_def sample_env_def)

lemmas sample_defs = sample_env_def sample_input_def sample_pool_def sample_account_def
  sample_options_def new_scheduler_def positiveBound_def empty_health_def

text \<open>The selection of a sample account, on any state without health records or load on it.\<close>

definition idle :: "string \<Rightarrow> scheduler \<Rightarrow> bool" where
  "idle j s \<longleftrightarrow> hs_health (sd_health s) j = None \<and> hs_modelCooldowns (sd_health s) j = None
     \<and> hs_quotaHalfOpen (sd_health s) j = None \<and> hs_performance (sd_health s) j = None \<and> sd_active s j = None"

lemma sample_runnable:
  assumes "idle j s" and "0 < slots"
  shows "runnable sample_env (sample_input strategy session accounts) s (sample_account j w slots)"
proof -
  let ?a = "sample_account j w slots"
  have "fst (isAvailable ?a None 1000 (Some ''m'') (inFlight s ?a) (sd_health s))"
    using assms(1)
    by (auto simp: idle_def isAvailable_def isModelAvailable_def Let_def open_to_half_open_def
        admit_quota_probe_def admissible_def isRouteAccountRuntimeAvailable_def isRouteAccountBindable_def
        quotaExhausted_def sample_account_def expiredResetlessQuotaObservation_def quotaWindows_def
        grokQuotaExhausted_def grokQuotaIsZero_def accountReportsCodexQuota_def split: option.splits)
  moreover have "hasCapacity s b ?a" for b
    using assms
    by (auto simp: hasCapacity_def concurrencyLimit_def performance_of_def hasRouteAccountCapacity_def inFlight_def
        active_slots_def idle_def sample_account_def routeAccountInFlight_def routeAccountConcurrencyLimit_def
        had_def js_floor_def Let_def)
  ultimately show ?thesis
    by (simp add: runnable_def sample_input_def sample_pool_def sample_env_def cooldown_key_def)
qed

lemma sample_tiers:
  "er_verified (source_eligibility (sample_input strategy session [account_a, account_b])) = [account_a, account_b]"
  "er_unknown (source_eligibility (sample_input strategy session [account_a, account_b])) = []"
  "er_modelEligible (source_eligibility (sample_input strategy session [account_a, account_b])) = [account_a, account_b]"
  by (simp_all add: source_eligibility_def evaluateSourceEligibility_def sample_input_def Let_def
      accountSupportsModel_def accountCapabilityEligibility_def sample_account_def sample_pool_def
      providers_by_id_def)

lemma sample_exposed: "model_exposed (sample_input strategy session [account_a, account_b])"
  by (simp add: model_exposed_def sample_tiers) (simp add: sample_input_def sample_pool_def)

lemma sample_tier:
  "idle ''a'' s \<Longrightarrow> idle ''b'' s \<Longrightarrow>
   runnable_tier sample_env (sample_input strategy session [account_a, account_b]) s = [account_a, account_b]"
  by (simp add: runnable_tier_def sample_tiers sample_runnable)

lemma sample_ids [simp]: "distinct (map acc_id (in_accounts (sample_input strategy session [account_a, account_b])))"
  by (simp add: sample_input_def sample_account_def)

lemma fresh_idle [simp]: "idle j fresh_scheduler"
  by (simp add: idle_def sample_defs Let_def)

lemma sample_selects:
  assumes "idle ''a'' s" and "idle ''b'' s" and "isSupportedPoolStrategy strategy"
  shows "\<exists>sel t. selectAndAcquire sample_env (sample_input strategy session [account_a, account_b]) s = (Inr sel, t)"
proof (rule selectAndAcquire_cases [OF sample_draws sample_ids, where s = s])
  fix err t
  assume "\<not> (isSupportedPoolStrategy (pool_strategy (in_pool (sample_input strategy session [account_a, account_b])))
      \<and> model_exposed (sample_input strategy session [account_a, account_b])
      \<and> runnable_tier sample_env (sample_input strategy session [account_a, account_b]) s \<noteq> [])"
  then show ?thesis using assms sample_exposed sample_tier by (simp add: sample_input_def sample_pool_def)
qed (simp add: committed_def)

section \<open>Selection\<close>

lemma hasCapacity_room:
  assumes "hasCapacity s b a"
  shows "inFlight s a < concurrencyLimit s a b"
proof -
  let ?x = "inFlight s a" and ?l = "concurrencyLimit s a b"
  have "0 \<le> ?x" by (simp add: inFlight_def)
  then have "\<lfloor>?x\<rfloor> < max 1 \<lfloor>?l\<rfloor>"
    using assms concurrencyLimit_ge_1 [of s a b]
    by (simp add: hasCapacity_def hasRouteAccountCapacity_def routeAccountInFlight_def
        routeAccountConcurrencyLimit_def js_floor_def max_def split: if_splits)
  moreover have "1 \<le> \<lfloor>?l\<rfloor>" using concurrencyLimit_ge_1 [of s a b] by simp
  ultimately have "\<lfloor>?x\<rfloor> + 1 \<le> \<lfloor>?l\<rfloor>" by linarith
  then show ?thesis by linarith
qed

text \<open>
  C1. A successful \<^verbatim>\<open>selectAndAcquire\<close> returns a configured account that is not excluded, passes
  the catalogue and capability test, is active with its persisted and runtime cooldowns over and
  its quota not exhausted, is not cooling down for the model, and had a free slot under its
  effective concurrency limit. It takes exactly one slot, of that account, and the lease and the
  generations it returns are that account's.
\<close>

theorem selection_sound:
  assumes "selectAndAcquire e i s = (Inr sel, t)" and "draws_ok e"
    and "distinct (map acc_id (in_accounts i))"
  shows "let a = sel_account sel; now = env_now e in
    a \<in> set (in_accounts i) \<and> acc_id a \<notin> set (in_excludedAccountIds i)
    \<and> a \<in> set (er_verified (source_eligibility i)) \<union> set (er_unknown (source_eligibility i))
    \<and> isRouteAccountRuntimeAvailable a now \<and> \<not> quotaExhausted a now
    \<and> or_zero (acc_cooldownUntil a) \<le> now
    \<and> health_cooldown (hs_health (sd_health s) (acc_id a)) \<le> now
    \<and> (cooldown_key i = [] \<or> fst (isModelAvailable (acc_id a) (cooldown_key i) now (sd_health s)))
    \<and> inFlight s a < concurrencyLimit s a (pool_strategy (in_pool i) = Autobalanced)
    \<and> (\<forall>j. active_slots t j = active_slots s j + (if j = acc_id a then 1 else 0))
    \<and> ls_accountId (sel_lease sel) = acc_id a \<and> \<not> ls_released (sel_lease sel)
    \<and> sel_healthRevision sel = getHealthRevision (sd_health t) (acc_id a)
    \<and> sel_resetEpoch sel = getResetEpoch (sd_health t) (acc_id a)"
proof (rule selectAndAcquire_cases [OF assms(2,3), of s])
  fix err u
  assume "selectAndAcquire e i s = (Inl err, u)"
  with assms(1) show ?thesis by simp
next
  fix a u
  assume a: "a \<in> set (runnable_tier e i s)" and sel: "selectAndAcquire e i s = committed e i a u"
    and u: "selection_frame s u"
  let ?key = "Some (cooldown_key i)"
  have run: "runnable e i s a" by (rule runnable_tier_runnable [OF a])
  then obtain h' where av: "isAvailable a (pool_quotaProtection (in_pool i)) (env_now e) ?key
      (inFlight s a) (sd_health s) = (True, h')"
    unfolding runnable_def by (metis prod.collapse)
  have key: "cooldown_key i = [] \<or> truthy ?key = Some (cooldown_key i)" by (auto simp: truthy_def)
  have tier: "a \<in> set (er_verified (source_eligibility i)) \<union> set (er_unknown (source_eligibility i))"
    by (rule runnable_tier_eligible [OF a])
  then have "a \<in> set (in_accounts i)"
    using er_verified_subset er_unknown_subset by (fastforce simp: source_eligibility_def)
  then show ?thesis
    using run tier isAvailable_sound [OF av] key u sel assms(1)
      hasCapacity_room [of s "pool_strategy (in_pool i) = Autobalanced" a]
    by (auto simp: runnable_def committed_def commit_generations selection_frame_def active_slots_def Let_def)
qed

theorem selection_sound_witness:
  "\<exists>sel t. selectAndAcquire sample_env (sample_input Balanced None [account_a, account_b]) fresh_scheduler = (Inr sel, t)
    \<and> inFlight fresh_scheduler (sel_account sel) < concurrencyLimit fresh_scheduler (sel_account sel) False"
proof -
  obtain sel t where sel: "selectAndAcquire sample_env (sample_input Balanced None [account_a, account_b])
      fresh_scheduler = (Inr sel, t)"
    using sample_selects [of fresh_scheduler Balanced None] by (auto simp: isSupportedPoolStrategy_def)
  from selection_sound [OF sel sample_draws sample_ids] show ?thesis
    using sel by (auto simp: Let_def sample_input_def sample_pool_def)
qed

text \<open>
  C2. The result of \<^verbatim>\<open>selectAndAcquire\<close> is decided by four tests, in this order: a strategy the
  code does not know, a model no member exposes, no member that can run now, and otherwise a
  member of the runnable tier is returned. The three failures are the three error classes, and the
  last one names the verified and then the unknown members.
\<close>

theorem selection_outcome:
  assumes "draws_ok e" and "distinct (map acc_id (in_accounts i))"
  shows "if \<not> isSupportedPoolStrategy (pool_strategy (in_pool i)) then
      selectAndAcquire e i s = (Inl (Unsupported_Pool_Strategy (pool_strategy (in_pool i))), s)
    else if \<not> model_exposed i then fst (selectAndAcquire e i s) = Inl Model_Not_Exposed
    else if runnable_tier e i s = [] then
      fst (selectAndAcquire e i s) = Inl (No_Eligible_Account
        (map acc_id (er_verified (source_eligibility i)) @ map acc_id (er_unknown (source_eligibility i)))
        no_eligible_message)
    else (\<exists>sel. fst (selectAndAcquire e i s) = Inr sel \<and> sel_account sel \<in> set (runnable_tier e i s))"
proof (cases "isSupportedPoolStrategy (pool_strategy (in_pool i))")
  case False
  then show ?thesis by (simp add: selectAndAcquire_unsupported)
next
  case True
  show ?thesis
  proof (rule selectAndAcquire_eq [OF True assms(2), where e = e and s = s])
    fix t u
    assume eq: "selectAndAcquire e i s =
      (if \<not> model_exposed i then (Inl Model_Not_Exposed, t)
       else if runnable_tier e i s = [] then
         (Inl (No_Eligible_Account (map acc_id (er_verified (source_eligibility i))
            @ map acc_id (er_unknown (source_eligibility i))) no_eligible_message), u)
       else choose_and_commit e i (runnable_tier e i s) u)"
    show ?thesis
    proof (cases "runnable_tier e i s = []")
      case False
      from choose_and_commit_spec [OF False True assms(1), of u] show ?thesis
        using True False eq by (auto simp: committed_def)
    qed (use True eq in auto)
  qed
qed

theorem selection_outcome_witness:
  "\<exists>sel. fst (selectAndAcquire sample_env (sample_input Weighted_Random None [account_a, account_b]) fresh_scheduler) = Inr sel"
  using selection_outcome [OF sample_draws sample_ids, of Weighted_Random None fresh_scheduler]
    sample_exposed [of Weighted_Random None] sample_tier [of fresh_scheduler Weighted_Random None]
  by (auto simp: isSupportedPoolStrategy_def sample_input_def sample_pool_def)

text \<open>
  A member whose capabilities are only presumed is selected only when no verified member can
  run: among the members with declared capabilities, none that is not excluded is available with a
  free slot.
\<close>

theorem verified_before_unknown:
  assumes "selectAndAcquire e i s = (Inr sel, t)" and "draws_ok e"
    and "distinct (map acc_id (in_accounts i))"
    and "sel_account sel \<notin> set (er_verified (source_eligibility i))"
    and "b \<in> set (er_verified (source_eligibility i))"
  shows "acc_id b \<in> set (in_excludedAccountIds i)
    \<or> \<not> fst (isAvailable b (pool_quotaProtection (in_pool i)) (env_now e) (Some (cooldown_key i))
              (inFlight s b) (sd_health s))
    \<or> \<not> hasCapacity s (pool_strategy (in_pool i) = Autobalanced) b"
proof (rule selectAndAcquire_cases [OF assms(2,3), of s])
  fix err u
  assume "selectAndAcquire e i s = (Inl err, u)"
  with assms(1) show ?thesis by simp
next
  fix a u
  assume "a \<in> set (runnable_tier e i s)" and "selectAndAcquire e i s = committed e i a u"
  then have "\<not> runnable e i s b"
    using assms by (intro runnable_tier_verified_first [of a]) (auto simp: committed_def)
  then show ?thesis by (simp add: runnable_def)
qed

text \<open>
  A pool whose verified member is excluded: its other member only presumably supports the search
  tool the request needs.
\<close>

definition two_tier_input :: selection_input where
  "two_tier_input = (sample_input Priority None [account_a\<lparr>acc_providerId := ''v''\<rparr>, account_b])
     \<lparr>in_excludedAccountIds := [''a''],
      in_providers := Some [sample_provider ''p'' Relay,
        (sample_provider ''v'' Relay)\<lparr>prov_capabilityProfile := Some
           \<lparr>prof_version = 1, prof_origin = Probed, prof_checkedAt = None,
            prof_flags = [Cap_webSearch \<mapsto> True]\<rparr>\<rparr>],
      in_requiredCapabilities := Some [Cap_webSearch]\<rparr>"

lemma two_tier_tiers:
  "er_verified (source_eligibility two_tier_input) = [account_a\<lparr>acc_providerId := ''v''\<rparr>]"
  "er_unknown (source_eligibility two_tier_input) = [account_b]"
  "er_modelEligible (source_eligibility two_tier_input) = [account_a\<lparr>acc_providerId := ''v''\<rparr>, account_b]"
  by code_simp+

lemma two_tier_selects:
  "\<exists>sel t. selectAndAcquire sample_env two_tier_input fresh_scheduler = (Inr sel, t) \<and> sel_account sel = account_b"
proof -
  have b: "runnable sample_env two_tier_input fresh_scheduler account_b"
    using sample_runnable [of "''b''" fresh_scheduler 1 Priority None "[account_a, account_b]" 1]
    by (simp add: runnable_def two_tier_input_def sample_input_def cooldown_key_def)
  have a: "\<not> runnable sample_env two_tier_input fresh_scheduler (account_a\<lparr>acc_providerId := ''v''\<rparr>)"
    by (simp add: runnable_def two_tier_input_def sample_account_def)
  have tier: "runnable_tier sample_env two_tier_input fresh_scheduler = [account_b]"
    by (simp add: runnable_tier_def two_tier_tiers a b)
  have ids: "distinct (map acc_id (in_accounts two_tier_input))"
    by (simp add: two_tier_input_def sample_input_def sample_account_def)
  show ?thesis
  proof (rule selectAndAcquire_cases [OF sample_draws ids, where s = fresh_scheduler])
    fix err t
    assume "\<not> (isSupportedPoolStrategy (pool_strategy (in_pool two_tier_input)) \<and> model_exposed two_tier_input
        \<and> runnable_tier sample_env two_tier_input fresh_scheduler \<noteq> [])"
    then show ?thesis
      by (simp add: tier model_exposed_def two_tier_tiers)
        (simp add: two_tier_input_def sample_input_def sample_pool_def isSupportedPoolStrategy_def)
  qed (simp add: committed_def tier)
qed

theorem verified_before_unknown_witness:
  "\<exists>sel t. selectAndAcquire sample_env two_tier_input fresh_scheduler = (Inr sel, t)
    \<and> sel_account sel = account_b
    \<and> (''a'' \<in> set (in_excludedAccountIds two_tier_input)
       \<or> fst (isAvailable (account_a\<lparr>acc_providerId := ''v''\<rparr>) None 1000 (Some ''m'')
            (inFlight fresh_scheduler (account_a\<lparr>acc_providerId := ''v''\<rparr>)) (sd_health fresh_scheduler)) = False
       \<or> hasCapacity fresh_scheduler False (account_a\<lparr>acc_providerId := ''v''\<rparr>) = False)"
proof -
  obtain sel t where sel: "selectAndAcquire sample_env two_tier_input fresh_scheduler = (Inr sel, t)"
      and b: "sel_account sel = account_b"
    using two_tier_selects by blast
  have "sel_account sel \<notin> set (er_verified (source_eligibility two_tier_input))"
    unfolding two_tier_tiers b by (simp add: sample_account_def)
  from verified_before_unknown [OF sel sample_draws _ this, of "account_a\<lparr>acc_providerId := ''v''\<rparr>"]
  show ?thesis using sel b
    by (simp add: two_tier_tiers) (simp add: two_tier_input_def sample_input_def sample_pool_def sample_env_def
        cooldown_key_def sample_account_def)
qed

section \<open>Whole runs\<close>

abbreviation sample_set :: "account set" where "sample_set \<equiv> {account_a, account_b}"

lemma sample_input_ok: "input_ok sample_set (sample_input strategy session [account_a, account_b])"
  by (simp add: input_ok_def sample_input_def)

lemma sample_inj: "inj_on acc_id sample_set"
  by auto

lemma sample_reachable:
  "sched_reachable sample_set sample_options
     (snd (selectAndAcquire sample_env (sample_input strategy session [account_a, account_b]) fresh_scheduler))"
  unfolding sched_reachable_def
  by (rule r_into_rtranclp, rule Select [OF sample_draws sample_input_ok])

text \<open>
  C16. In every state the operations can reach, over a fixed set of configured accounts with
  distinct ids and whatever the interleaving of selections, waits, releases, timeouts, aborts,
  outcomes, configuration changes and resets, the slots taken on an account never exceed its
  configured concurrency limit.
\<close>

theorem concurrency_limits_hold:
  assumes "sched_reachable A opts s" and "inj_on acc_id A" and "a \<in> A"
  shows "real (active_slots s (acc_id a)) \<le> routeAccountConcurrencyLimit (acc_maxConcurrency a)"
  using limits.reachable_holds [OF assms(1)] assms(2,3)
  by (simp add: limits.holds_def limits_kept_def within_limits_def slot_limit_def)

theorem concurrency_limits_hold_witness:
  "\<exists>s. sched_reachable sample_set sample_options s
    \<and> real (active_slots s ''a'') \<le> 1 \<and> active_slots s ''a'' + active_slots s ''b'' = 1"
proof -
  let ?i = "sample_input Balanced None [account_a, account_b]"
  obtain sel t where sel: "selectAndAcquire sample_env ?i fresh_scheduler = (Inr sel, t)"
    using sample_selects [of fresh_scheduler Balanced None] by (auto simp: isSupportedPoolStrategy_def)
  have reach: "sched_reachable sample_set sample_options t"
    using sample_reachable [of Balanced None] by (simp add: sel)
  have "active_slots t ''a'' + active_slots t ''b'' = 1"
  proof (rule selectAndAcquire_cases [OF sample_draws sample_ids, where s = fresh_scheduler])
    fix a u
    assume "a \<in> set (runnable_tier sample_env ?i fresh_scheduler)" and "selection_frame fresh_scheduler u"
      and "selectAndAcquire sample_env ?i fresh_scheduler = committed sample_env ?i a u"
    moreover from this have "a \<in> sample_set" using sample_tier [of fresh_scheduler Balanced None] by simp
    ultimately show ?thesis
      using sel by (auto simp: committed_def selection_frame_def active_slots_def new_scheduler_def Let_def)
  qed (use sel in simp)
  moreover have "real (active_slots t ''a'') \<le> 1"
    using concurrency_limits_hold [OF reach sample_inj, of account_a]
    by (simp add: sample_account_def routeAccountConcurrencyLimit_def js_floor_def)
  ultimately show ?thesis using reach by blast
qed

text \<open>
  C24. In every reachable state the queue of waiting requests is consistent: every waiter ever
  queued is either still queued or was settled exactly once, the queue and each pool's share of it
  are within their bounds, and the per-pool counters are exact, with no entry for a pool without
  waiters.
\<close>

theorem waiting_queue_consistent:
  assumes "sched_reachable A opts s"
  shows "distinct (map_keys (sd_waiters s) @ map fst (sd_settled s))
    \<and> set (map_keys (sd_waiters s)) \<union> set (map fst (sd_settled s)) = {1..<sd_nextWaiterId s}
    \<and> length (sd_waiters s) \<le> sd_maxPending s
    \<and> (\<forall>p. let n = length (filter (\<lambda>(k, w). cw_poolId w = p) (sd_waiters s))
           in n \<le> sd_maxPendingPerPool s \<and> sd_waiterCounts s p = (if n = 0 then None else Some n))"
  using queue.reachable_holds [OF assms]
  by (simp add: queue.holds_def queue_ok_def waiters_ok_def waiters_of_def)

theorem waiting_queue_consistent_witness:
  "let s = snd (selectAndAcquireWhenAvailable sample_env (sample_input Balanced None [account_a, account_b])
      None None (Finite 5000) fresh_scheduler)
   in distinct (map_keys (sd_waiters s) @ map fst (sd_settled s))
    \<and> length (sd_waiters s) \<le> sd_maxPending s"
proof -
  let ?i = "sample_input Balanced None [account_a, account_b]"
  let ?s = "snd (selectAndAcquireWhenAvailable sample_env ?i None None (Finite 5000) fresh_scheduler)"
  have "sched_reachable sample_set sample_options ?s"
    unfolding sched_reachable_def by (rule r_into_rtranclp, rule Wait [OF sample_draws sample_input_ok])
  from waiting_queue_consistent [OF this] show ?thesis by (simp add: Let_def)
qed

text \<open>
  C25. In every reachable state the session cache is consistent and bounded: no session is both
  assigned and avoided, the LRU order covers exactly the sessions of the two maps and stays within
  the global bound, so their entries together do, the index from accounts to sessions lists exactly
  the sessions assigned to an account, and the expiry heaps hold every live entry and at most four
  nodes per cache entry plus 64.
\<close>

theorem session_cache_consistent:
  assumes "sched_reachable A opts s"
  shows "let c = sd_sticky s in
    (\<forall>k. map_get (sc_sticky c) k = None \<or> map_get (sc_avoidance c) k = None)
    \<and> dom (map_get (sc_lru c)) = dom (map_get (sc_sticky c)) \<union> dom (map_get (sc_avoidance c))
    \<and> length (sc_sticky c) + length (sc_avoidance c) \<le> sc_maxEntries c
    \<and> (\<forall>a k. k \<in> set (case sc_stickyKeysByAccount c a of None \<Rightarrow> [] | Some ks \<Rightarrow> ks) \<longleftrightarrow>
          (\<exists>x. map_get (sc_sticky c) k = Some x \<and> se_accountId x = a))
    \<and> (\<forall>k x. map_get (sc_sticky c) k = Some x \<longrightarrow>
          \<lparr>ex_key = k, ex_expiresAt = se_expiresAt x\<rparr> \<in> set (sc_stickyExpiry c))
    \<and> (\<forall>k x. map_get (sc_avoidance c) k = Some x \<longrightarrow>
          \<lparr>ex_key = k, ex_expiresAt = se_expiresAt x\<rparr> \<in> set (sc_failureExpiry c))
    \<and> length (sc_stickyExpiry c) \<le> sc_maxEntries c * 4 + 64
    \<and> length (sc_failureExpiry c) \<le> sc_maxEntries c * 4 + 64"
proof -
  have ok: "sticky_ok (sd_sticky s)"
    using sticky.reachable_holds [OF assms] by (simp add: sticky.holds_def)
  then have inv: "indexed (sd_sticky s)" and exp: "has_expiry (sc_stickyExpiry (sd_sticky s)) (sc_sticky (sd_sticky s))"
    "has_expiry (sc_failureExpiry (sd_sticky s)) (sc_avoidance (sd_sticky s))"
    and bnd: "sticky_bounded (sd_sticky s)"
    by (simp_all add: sticky_ok_def sticky_inv_def)
  note ix = indexedD [OF inv]
  have lru: "dom (map_get (sc_lru (sd_sticky s)))
      = dom (map_get (sc_sticky (sd_sticky s))) \<union> dom (map_get (sc_avoidance (sd_sticky s)))"
  proof (rule set_eqI)
    fix k
    show "k \<in> dom (map_get (sc_lru (sd_sticky s))) \<longleftrightarrow>
        k \<in> dom (map_get (sc_sticky (sd_sticky s))) \<union> dom (map_get (sc_avoidance (sd_sticky s)))"
      using ix(5) [of k]
      by (cases "map_get (sc_sticky (sd_sticky s)) k"; cases "map_get (sc_avoidance (sd_sticky s)) k")
        (auto simp: lru_entry_def)
  qed
  have keys: "k \<in> set (case sc_stickyKeysByAccount (sd_sticky s) a of None \<Rightarrow> [] | Some ks \<Rightarrow> ks) \<longleftrightarrow>
      (\<exists>x. map_get (sc_sticky (sd_sticky s)) k = Some x \<and> se_accountId x = a)" for a k
    using account_keys_iff [OF ix(1), of k a] unfolding ix(7)
    by (cases "account_keys a (sc_sticky (sd_sticky s))") (simp_all add: account_view_def)
  show ?thesis
    using ix(4) lru keys exp bnd length_primary_maps [OF inv]
    by (simp add: Let_def has_expiry_def sticky_bounded_def heap_limit_def)
qed

theorem session_cache_consistent_witness:
  "let c = sd_sticky (snd (selectAndAcquire sample_env (sample_input Balanced (Some ''s'') [account_a, account_b])
      fresh_scheduler))
   in length (sc_sticky c) + length (sc_avoidance c) \<le> sc_maxEntries c
     \<and> length (sc_stickyExpiry c) \<le> sc_maxEntries c * 4 + 64"
  using session_cache_consistent [OF sample_reachable [of Balanced "Some ''s''"]] by (simp add: Let_def)

end
