(* ===== verification/Session_Properties.thy ===== *)
theory Session_Properties
  imports Scheduling_Properties
begin

text \<open>
  The properties of session affinity: keys, expiry, assignment, avoidance after a proven failure,
  and the count of running sessions.
  The last sections are about the structures behind it: keys, running sessions and the expiry heap.
\<close>

section \<open>A cache with one assignment or one avoidance\<close>

abbreviation sample_key :: string where "sample_key \<equiv> ''1:qs''"

abbreviation sample_entry :: sticky_entry where
  "sample_entry \<equiv> \<lparr>se_poolId = ''q'', se_accountId = ''b'', se_expiresAt = 5000\<rparr>"

lemma sample_sticky_key:
  "sticky_key (sample_input strategy (Some ''s'') accounts) = Some sample_key"
proof -
  have "boundedStickyKey ''q'' (Some ''s'') = Some sample_key"
    by code_simp
  then show ?thesis by (simp add: sticky_key_def sample_input_def sample_pool_def)
qed

definition assigned_scheduler :: scheduler where
  "assigned_scheduler = fresh_scheduler
     \<lparr>sd_sticky := setSticky 0 sample_key sample_entry (empty_sticky_cache 10 5)\<rparr>"

definition avoiding_scheduler :: scheduler where
  "avoiding_scheduler = fresh_scheduler
     \<lparr>sd_sticky := setStickyFailureAvoidance 0 sample_key sample_entry (empty_sticky_cache 10 5)\<rparr>"

lemma sample_caches:
  "sticky_ok (sd_sticky assigned_scheduler)"
  "map_get (sc_sticky (sd_sticky assigned_scheduler)) sample_key = Some sample_entry"
  "sticky_ok (sd_sticky avoiding_scheduler)"
  "map_get (sc_avoidance (sd_sticky avoiding_scheduler)) sample_key = Some sample_entry"
  by (simp_all add: assigned_scheduler_def avoiding_scheduler_def sticky_ok_setSticky sticky_ok_setAvoidance
      sticky_ok_empty map_get_setSticky map_get_setAvoidance)

lemma sample_cache_idle: "idle j assigned_scheduler" "idle j avoiding_scheduler"
  using fresh_idle [of j] by (simp_all add: idle_def assigned_scheduler_def avoiding_scheduler_def)

section \<open>Selection\<close>

text \<open>
  C28. A session keeps its account: while its assignment is alive and the account is among the
  members that can run, every strategy but the automatic balance selects it again, and the
  assignment is renewed for the pool's lifetime from now.
\<close>

theorem session_affinity:
  assumes "sticky_ok (sd_sticky s)" and "distinct (map acc_id (in_accounts i))"
    and "isSupportedPoolStrategy (pool_strategy (in_pool i))" and "pool_strategy (in_pool i) \<noteq> Autobalanced"
    and "model_exposed i" and "pool_stickySessions (in_pool i)"
    and "boundedStickyKey (pool_id (in_pool i)) (in_sessionId i) = Some key"
    and "map_get (sc_sticky (sd_sticky s)) key = Some asg" and "env_now e < se_expiresAt asg"
    and "a \<in> set (runnable_tier e i s)" and "acc_id a = se_accountId asg"
  shows "\<exists>sel t. selectAndAcquire e i s = (Inr sel, t) \<and> sel_account sel = a
    \<and> ls_stickyKey (sel_lease sel) = Some key
    \<and> map_get (sc_sticky (sd_sticky t)) key = Some \<lparr>se_poolId = pool_id (in_pool i), se_accountId = acc_id a,
        se_expiresAt = env_now e + boundedStickyTtlMs (pool_stickyTtlMinutes (in_pool i))\<rparr>"
proof -
  have key: "sticky_key i = Some key" using assms(6,7) by (simp add: sticky_key_def)
  obtain t where "selectAndAcquire e i s = committed e i a t"
    using selection_keeps_assignment [OF assms(1-5) key assms(8-11)] by blast
  then show ?thesis
    by (simp add: committed_def key commit_sticky map_get_setSticky)
qed

theorem session_affinity_witness:
  "\<exists>sel t. selectAndAcquire sample_env (sample_input Priority (Some ''s'') [account_a, account_b])
      assigned_scheduler = (Inr sel, t) \<and> sel_account sel = account_b"
proof -
  let ?i = "sample_input Priority (Some ''s'') [account_a, account_b]"
  have "boundedStickyKey (pool_id (in_pool ?i)) (in_sessionId ?i) = Some sample_key"
    "pool_stickySessions (in_pool ?i)" "pool_strategy (in_pool ?i) = Priority"
    using sample_sticky_key [of Priority "[account_a, account_b]"]
    by (simp_all add: sticky_key_def sample_input_def sample_pool_def)
  with session_affinity [OF sample_caches(1) sample_ids _ _ sample_exposed _ _ sample_caches(2),
      of Priority "Some ''s''" sample_env account_b]
  show ?thesis
    using sample_tier [OF sample_cache_idle(1) sample_cache_idle(1), of Priority "Some ''s''"]
    by (auto simp: isSupportedPoolStrategy_def sample_env_def)
qed

text \<open>
  C29. After a proven failure a session avoids the failed account: while its avoidance is alive and
  another member of the tier can run, the selection returns a different account, and the avoidance
  is replaced by an assignment to it.
\<close>

theorem failed_account_avoided:
  assumes "sticky_ok (sd_sticky s)" and "distinct (map acc_id (in_accounts i))"
    and "isSupportedPoolStrategy (pool_strategy (in_pool i))" and "draws_ok e"
    and "model_exposed i" and "pool_stickySessions (in_pool i)"
    and "boundedStickyKey (pool_id (in_pool i)) (in_sessionId i) = Some key"
    and "map_get (sc_avoidance (sd_sticky s)) key = Some av" and "env_now e < se_expiresAt av"
    and "se_accountId av \<noteq> []"
    and "b \<in> set (runnable_tier e i s)" and "acc_id b \<noteq> se_accountId av"
  shows "\<exists>sel t. selectAndAcquire e i s = (Inr sel, t) \<and> acc_id (sel_account sel) \<noteq> se_accountId av
    \<and> map_option se_accountId (map_get (sc_sticky (sd_sticky t)) key) = Some (acc_id (sel_account sel))"
proof -
  have key: "sticky_key i = Some key" using assms(6,7) by (simp add: sticky_key_def)
  obtain a t where "selectAndAcquire e i s = committed e i a t" and "acc_id a \<noteq> se_accountId av"
    using selection_avoids [OF assms(1-5) key assms(8-12)] by blast
  then show ?thesis
    by (simp add: committed_def key commit_sticky map_get_setSticky)
qed

theorem failed_account_avoided_witness:
  "\<exists>sel t. selectAndAcquire sample_env (sample_input Priority (Some ''s'') [account_a, account_b])
      avoiding_scheduler = (Inr sel, t) \<and> acc_id (sel_account sel) \<noteq> ''b''"
proof -
  let ?i = "sample_input Priority (Some ''s'') [account_a, account_b]"
  have "boundedStickyKey (pool_id (in_pool ?i)) (in_sessionId ?i) = Some sample_key"
    "pool_stickySessions (in_pool ?i)" "pool_strategy (in_pool ?i) = Priority"
    using sample_sticky_key [of Priority "[account_a, account_b]"]
    by (simp_all add: sticky_key_def sample_input_def sample_pool_def)
  with failed_account_avoided [OF sample_caches(3) sample_ids _ sample_draws sample_exposed _ _ sample_caches(4),
      of Priority "Some ''s''" account_a]
  show ?thesis
    using sample_tier [OF sample_cache_idle(2) sample_cache_idle(2), of Priority "Some ''s''"]
    by (auto simp: isSupportedPoolStrategy_def sample_env_def)
qed

section \<open>The cache\<close>

text \<open>
  The properties of the structures behind session affinity: the keys, the counts of running
  sessions and the expiry heap.
\<close>

section \<open>Keys\<close>

text \<open>
  A session key names one session of one pool: whatever characters the two identifiers are
  made of, the length prefix keeps different pairs apart.
\<close>

theorem session_keys_injective:
  assumes "boundedStickyKey p (Some s) = Some key" and "boundedStickyKey q (Some t) = Some key"
  shows "p = q \<and> s = t"
proof -
  have k: "show_nat (length p) @ '':'' @ p @ s = show_nat (length q) @ '':'' @ q @ t"
    using assms by (auto simp: boundedStickyKey_def split: if_splits)
  have split: "takeWhile (\<lambda>c. c \<noteq> CHR '':'') (show_nat n @ '':'' @ r) = show_nat n" for n r
    using show_nat_no_colon [of n] by (subst takeWhile_append2) auto
  have "show_nat (length p) = show_nat (length q)"
    using arg_cong [OF k, of "takeWhile (\<lambda>c. c \<noteq> CHR '':'')"] by (simp only: split)
  then have "length p = length q" by (rule show_nat_inj)
  with k show ?thesis by simp
qed

theorem session_keys_injective_witness:
  "{(p, t). boundedStickyKey p (Some t) = Some ''1:qs''} = {(''q'', ''s'')}"
proof -
  have "boundedStickyKey ''q'' (Some ''s'') = Some ''1:qs''" by code_simp
  then show ?thesis using session_keys_injective [of "''q''" "''s''"] by blast
qed

section \<open>Running sessions\<close>

text \<open>Requests of sessions starting and ending; only a request that is running ends.\<close>

inductive sessions_reachable :: "active_sessions \<Rightarrow> bool" where
  start: "sessions_reachable no_active_sessions"
| acquire: "sessions_reachable s \<Longrightarrow> sessions_reachable (acquireActiveStickySession key i s)"
| release: "sessions_reachable s \<Longrightarrow> 0 < session_requests s key i \<Longrightarrow>
     sessions_reachable (releaseActiveStickySession key i s)"

lemma sessions_reachable_ok: "sessions_reachable s \<Longrightarrow> sessions_ok s"
  by (induction rule: sessions_reachable.induct)
    (simp_all add: sessions_ok_none sessions_ok_acquire sessions_ok_release)

text \<open>
  The load an account carries in sessions is counted exactly: however requests of sessions start
  and end, the count of an account is the number of sessions with a request running on it, and the
  count that leaves a session out is the number of the others.
\<close>

theorem running_sessions_counted:
  assumes "sessions_reachable s"
  shows "finite {k. 0 < session_requests s k i}
    \<and> activeStickySessionCount s i None = int (card {k. 0 < session_requests s k i})
    \<and> (if key \<noteq> [] then activeStickySessionCount s i (Some key)
          = int (card {k. k \<noteq> key \<and> 0 < session_requests s k i}) else True)"
proof -
  let ?K = "{k. 0 < session_requests s k i}"
  have fin: "finite ?K" and n: "session_count s i = card ?K"
    using sessions_reachable_ok [OF assms] by (simp_all add: sessions_ok_def)
  have others: "{k. k \<noteq> key \<and> 0 < session_requests s k i} = ?K - {key}" by auto
  have "int (card ?K) - (if 0 < session_requests s key i then 1 else 0) = int (card (?K - {key}))"
  proof (cases "0 < session_requests s key i")
    case True
    then have "0 < card ?K" using fin by (auto simp: card_gt_0_iff)
    with True show ?thesis by (simp add: of_nat_diff)
  qed simp
  then show ?thesis
    using fin n unfolding others by (simp add: activeStickySessionCount_def truthy_def Let_def)
qed

theorem running_sessions_counted_witness:
  "activeStickySessionCount (releaseActiveStickySession ''k'' ''a'' (acquireActiveStickySession ''k'' ''a''
     (acquireActiveStickySession ''k'' ''a'' no_active_sessions))) ''a'' None = 1"
proof -
  let ?two = "acquireActiveStickySession ''k'' ''a'' (acquireActiveStickySession ''k'' ''a'' no_active_sessions)"
  let ?s = "releaseActiveStickySession ''k'' ''a'' ?two"
  have two: "session_requests ?two k j = (if k = ''k'' \<and> j = ''a'' then 2 else 0)" for k j
    by (simp add: session_requests_acquire) (simp add: session_requests_def no_active_sessions_def)
  then have "sessions_reachable ?s"
    by (intro sessions_reachable.intros) simp
  moreover obtain m where "as_sessions ?two ''k'' = Some m"
    using two [of "''k''" "''a''"] by (auto simp: session_requests_def split: option.splits)
  then have "session_requests ?s k j = (if k = ''k'' \<and> j = ''a'' then 1 else 0)" for k j
    by (simp add: session_requests_release two)
  then have "{k. 0 < session_requests ?s k ''a''} = {''k''}" by auto
  ultimately show ?thesis using running_sessions_counted [of ?s "''a''" "[]"] by simp
qed

section \<open>Expiry\<close>

text \<open>
  The array of \<^verbatim>\<open>pushExpiry\<close> and \<^verbatim>\<open>popExpiry\<close> is a priority queue: both keep the heap order, a
  push adds its entry, and a pop removes exactly one entry, one that expires no later than any other,
  and fails only on an empty heap.
\<close>

theorem expiry_heap_correct:
  assumes "is_heap h"
  shows "is_heap (pushExpiry h e) \<and> mset (pushExpiry h e) = add_mset e (mset h)
    \<and> (case popExpiry h of
         (None, h') \<Rightarrow> h = []
       | (Some x, h') \<Rightarrow> is_heap h' \<and> mset h = add_mset x (mset h')
           \<and> list_all (\<lambda>y. ex_expiresAt x \<le> ex_expiresAt y) h)"
proof (cases "popExpiry h")
  case (Pair r h')
  show ?thesis
  proof (cases r)
    case None
    with Pair have "h = []" using heap_queue.pop_None [of h] by simp
    then show ?thesis using assms Pair None by (simp add: is_heap_pushExpiry mset_pushExpiry)
  next
    case (Some x)
    with Pair assms show ?thesis
      using popExpiry_least [OF assms, of x h'] mset_popExpiry [of h x h']
      by (auto simp: is_heap_pushExpiry mset_pushExpiry is_heap_popExpiry list_all_iff)
  qed
qed

theorem expiry_heap_correct_witness:
  "let h = pushExpiry (pushExpiry [] \<lparr>ex_key = ''x'', ex_expiresAt = 9\<rparr>) \<lparr>ex_key = ''y'', ex_expiresAt = 4\<rparr>
   in map_option ex_key (fst (popExpiry h)) = Some ''y''"
proof -
  let ?x = "\<lparr>ex_key = ''x'', ex_expiresAt = 9\<rparr>" and ?y = "\<lparr>ex_key = ''y'', ex_expiresAt = 4 :: real\<rparr>"
  let ?h = "pushExpiry (pushExpiry [] ?x) ?y"
  have h: "is_heap ?h" "mset ?h = {#?y, ?x#}"
    by (simp_all add: is_heap_pushExpiry mset_pushExpiry del: mset_zero_iff)
  then have mem: "set ?h = {?y, ?x}" by (metis set_mset_add_mset_insert set_mset_empty set_mset_mset)
  obtain r h' where pop: "popExpiry ?h = (r, h')" by (cases "popExpiry ?h")
  moreover obtain z where z: "r = Some z"
    using expiry_heap_correct [OF h(1), of ?x] pop mem by (cases r) auto
  ultimately have "mset ?h = add_mset z (mset h')" "ex_expiresAt z \<le> 4"
    using expiry_heap_correct [OF h(1), of ?x] mem by (auto simp: list_all_iff)
  moreover from this(1) have "z \<in> set ?h" by (metis set_mset_add_mset_insert set_mset_mset insertI1)
  ultimately have "z = ?y" using mem by auto
  then show ?thesis using pop z by (simp add: Let_def)
qed

end
