(* ===== verification/Health_Properties.thy ===== *)
theory Health_Properties
  imports Health_Runs Session_Properties
begin

text \<open>
  The properties of the circuit state: what a proven failure changes, which outcomes of concurrent
  attempts count, what a reset invalidates, which accounts are available, and how the cooldowns of
  single models are kept.
\<close>

section \<open>Sample outcomes\<close>

definition sample_failure :: "nat option \<Rightarrow> failure_options" where
  "sample_failure revision = \<lparr>fo_retryAfterMs = None, fo_baseDelayMs = None, fo_maxDelayMs = None,
     fo_maxConcurrency = None, fo_reason = None, fo_expectedRevision = revision, fo_expectedResetEpoch = None\<rparr>"

lemma sample_failure_current [simp]:
  "stale (fo_expectedResetEpoch (sample_failure r)) n = False"
  "stale (fo_expectedRevision (sample_failure None)) n = False"
  "fo_expectedRevision (sample_failure r) = r"
  by (simp_all add: sample_failure_def)

lemma health_ok_models_ok: "health_ok h \<Longrightarrow> models_ok h"
  by (simp add: health_ok_def)

lemma fresh_revision [simp]: "getHealthRevision empty_health i = 0" "getResetEpoch empty_health i = 0"
  by (simp_all add: getHealthRevision_def getResetEpoch_def empty_health_def)

section \<open>Failures\<close>

text \<open>
  C30. A failure reported against the current generation opens the account's circuit: the count of
  consecutive failures and the generation advance by one, the cooldown lasts the backoff of that
  count or the server's retry delay, whichever is longer, and is never shorter than the cooldown
  that was running. No other account's circuit or generation changes.
\<close>

theorem failure_outcome:
  assumes "\<not> stale (fo_expectedResetEpoch opts) (getResetEpoch h i)"
    and "\<not> stale (fo_expectedRevision opts) (getHealthRevision h i)"
    and "recordFailure now i opts (c, h) = (r, c', h')"
  shows "let n = health_failures (hs_health h i) + 1 in
    oc_applied r \<and> hs_health h' = (hs_health h)(i \<mapsto> oc_health r)
    \<and> rh_circuitState (oc_health r) = Open \<and> rh_consecutiveFailures (oc_health r) = n
    \<and> rh_cooldownUntil (oc_health r) =
        Some (max (now + max (backoff_delay opts n) (or_zero (fo_retryAfterMs opts))) (health_cooldown (hs_health h i)))
    \<and> oc_revision r = getHealthRevision h i + 1
    \<and> (\<forall>j. getHealthRevision h' j = getHealthRevision h j + (if j = i then 1 else 0))
    \<and> hs_epochs h' = hs_epochs h"
proof -
  have "0 \<le> backoff_delay opts n" for n
    by (auto simp: backoff_delay_def positiveDuration_def Let_def min_def split: option.split js_number.split)
  then have "failure_delay opts n = max (backoff_delay opts n) (or_zero (fo_retryAfterMs opts))" for n
    by (auto simp: failure_delay_def max_def dest: order_trans) (metis order_antisym order_trans)
  with recordFailure_applied_eq [OF assms(1,2), of now c] assms(3) show ?thesis
    by (auto simp: Let_def getHealthRevision_def)
qed

theorem failure_outcome_witness:
  "oc_applied (fst (recordFailure 1000 ''a'' (sample_failure (Some 0)) (empty_sticky_cache 10 5, empty_health)))"
proof -
  obtain r c' h' where "recordFailure 1000 ''a'' (sample_failure (Some 0)) (empty_sticky_cache 10 5, empty_health)
      = (r, c', h')"
    by (metis prod_cases3)
  with failure_outcome [OF _ _ this] show ?thesis by (simp add: Let_def)
qed

text \<open>
  The same failure moves the sessions of the account: an unexpired assignment to it becomes an
  avoidance of it for the same time, every unexpired assignment to another account stays, and the
  other unexpired avoidances stay; nothing is evicted.
\<close>

theorem failure_moves_sessions:
  assumes "\<not> stale (fo_expectedResetEpoch opts) (getResetEpoch h i)"
    and "\<not> stale (fo_expectedRevision opts) (getHealthRevision h i)"
    and "sticky_ok c" and "recordFailure now i opts (c, h) = (r, c', h')"
  shows "map_get (sc_sticky c') k =
      (case map_get (sc_sticky c) k of
         None \<Rightarrow> None
       | Some x \<Rightarrow> if now < se_expiresAt x \<and> se_accountId x \<noteq> i then Some x else None)
    \<and> map_get (sc_avoidance c') k =
      (case map_get (sc_sticky c) k of
         Some x \<Rightarrow> if now < se_expiresAt x \<and> se_accountId x = i then Some x else None
       | None \<Rightarrow>
           (case map_get (sc_avoidance c) k of
              None \<Rightarrow> None | Some x \<Rightarrow> if now < se_expiresAt x then Some x else None))"
proof -
  have "c' = failAccountAssignments now i c"
    using recordFailure_applied_eq [OF assms(1,2), of now c] assms(4) by auto
  moreover have "map_get (sc_avoidance c) k = None" if "map_get (sc_sticky c) k = Some x" for x
    using assms(3) that indexedD(4) [of c k] by (simp add: sticky_ok_def sticky_inv_def)
  ultimately show ?thesis
    using failAccountAssignments_exact [OF assms(3), of now i k]
    by (auto simp: unexpired_def split: option.splits)
qed

theorem failure_moves_sessions_witness:
  "let (r, c', h') = recordFailure 1000 ''b'' (sample_failure None) (sd_sticky assigned_scheduler, empty_health)
   in map_get (sc_sticky c') sample_key = None \<and> map_get (sc_avoidance c') sample_key = Some sample_entry"
proof -
  obtain r c' h' where r: "recordFailure 1000 ''b'' (sample_failure None) (sd_sticky assigned_scheduler, empty_health)
      = (r, c', h')"
    by (metis prod_cases3)
  with failure_moves_sessions [OF _ _ sample_caches(1) r, of sample_key] show ?thesis
    by (simp add: sample_caches)
qed

text \<open>
  C31. Of the attempts started at one generation at most one failure counts: once a failure has
  been applied, and whatever happens to the scheduler's health afterwards, a failure that still
  expects the generation before it moves no session and leaves the count of consecutive failures and
  the performance statistics alone. Only a quota failure of the same reset epoch still has an
  effect: it may extend the cooldown.
\<close>

theorem superseded_failure_rejected:
  assumes "oc_applied (fst (recordFailure now i opts s))"
    and "health_step\<^sup>*\<^sup>* (snd (recordFailure now i opts s)) (c, h)"
    and "fo_expectedRevision opts' = Some (getHealthRevision (snd s) i)"
    and "recordFailure later i opts' (c, h) = (r, c', h')"
  shows "c' = c \<and> health_failures (hs_health h' i) = health_failures (hs_health h i)
    \<and> hs_performance h' = hs_performance h
    \<and> health_cooldown (hs_health h i) \<le> health_cooldown (hs_health h' i)
    \<and> (oc_applied r \<longrightarrow> fo_reason opts' = Some Quota_Reason
          \<and> fo_expectedResetEpoch opts' = Some (getResetEpoch h i))"
proof -
  have "getHealthRevision (snd (snd (recordFailure now i opts s))) i = Suc (getHealthRevision (snd s) i)"
    using recordFailure_cases [of now i opts "fst s" "snd s"] assms(1)
    by (cases "recordFailure now i opts s") (auto simp: advanced_def)
  then have "stale (fo_expectedRevision opts') (getHealthRevision h i)"
    using generations_mono [OF assms(2), of i] assms(3) by simp
  then show ?thesis
    using assms(4)
    by (auto simp: recordFailure_def mergeQuotaCooldown_def not_applied_eq store_health_eq Let_def
        split: if_splits prod.splits)
qed

theorem superseded_failure_rejected_witness:
  "let s = (empty_sticky_cache 10 5, empty_health);
       t = snd (recordFailure 1000 ''a'' (sample_failure (Some 0)) s);
       (r, c', h') = recordFailure 2000 ''a'' (sample_failure (Some 0)) t
   in oc_applied (fst (recordFailure 1000 ''a'' (sample_failure (Some 0)) s)) \<and> \<not> oc_applied r \<and> c' = fst t"
proof -
  let ?s = "(empty_sticky_cache 10 5, empty_health)"
  let ?t = "snd (recordFailure 1000 ''a'' (sample_failure (Some 0)) ?s)"
  obtain r c' h' where r: "recordFailure 2000 ''a'' (sample_failure (Some 0)) (fst ?t, snd ?t) = (r, c', h')"
    by (metis prod_cases3)
  have "oc_applied (fst (recordFailure 1000 ''a'' (sample_failure (Some 0)) ?s))"
    using recordFailure_applied_eq [of "sample_failure (Some 0)" empty_health "''a''" 1000 "fst ?s"] by auto
  with superseded_failure_rejected [OF this, of "fst ?t" "snd ?t" "sample_failure (Some 0)" 2000 r c' h'] r
  show ?thesis by (auto simp: sample_failure_def)
qed

text \<open>
  A late success does not undo a newer failure: after a failure has been applied, and whatever
  happens to the scheduler's health afterwards, a success or a timing that expects the generation
  before it is not applied, and the cooldowns, the failure counts and the statistics stay.
\<close>

theorem late_success_ignored:
  assumes "oc_applied (fst (recordFailure now i opts s))"
    and "health_step\<^sup>*\<^sup>* (snd (recordFailure now i opts s)) (c, h)"
    and "recordSuccess later i (Some (getHealthRevision (snd s) i)) epoch h = (r, h')"
  shows "\<not> oc_applied r
    \<and> (\<forall>j. health_cooldown (hs_health h' j) = health_cooldown (hs_health h j)
          \<and> health_failures (hs_health h' j) = health_failures (hs_health h j))
    \<and> hs_performance h' = hs_performance h
    \<and> recordPerformance later i sample (Some (getHealthRevision (snd s) i)) epoch h = (False, h)"
proof -
  have "getHealthRevision (snd (snd (recordFailure now i opts s))) i = Suc (getHealthRevision (snd s) i)"
    using recordFailure_cases [of now i opts "fst s" "snd s"] assms(1)
    by (cases "recordFailure now i opts s") (auto simp: advanced_def)
  then have "stale (Some (getHealthRevision (snd s) i)) (getHealthRevision h i)"
    using generations_mono [OF assms(2), of i] by simp
  then show ?thesis
    using assms(3) by (auto simp: recordSuccess_def recordPerformance_def not_applied_eq Let_def)
qed

theorem late_success_ignored_witness:
  "let t = snd (snd (recordFailure 1000 ''a'' (sample_failure None) (empty_sticky_cache 10 5, empty_health)));
       (r, h') = recordSuccess 2000 ''a'' (Some 0) None t
   in \<not> oc_applied r \<and> health_failures (hs_health h' ''a'') = 1"
proof -
  let ?s = "(empty_sticky_cache 10 5, empty_health)"
  let ?t = "snd (recordFailure 1000 ''a'' (sample_failure None) ?s)"
  obtain r h' where r: "recordSuccess 2000 ''a'' (Some 0) None (snd ?t) = (r, h')"
    by (metis prod.collapse)
  have f: "oc_applied (fst (recordFailure 1000 ''a'' (sample_failure None) ?s))"
      "health_failures (hs_health (snd ?t) ''a'') = 1"
    using recordFailure_applied_eq [of "sample_failure None" empty_health "''a''" 1000 "fst ?s"]
    by (auto simp: empty_health_def)
  with late_success_ignored [OF f(1), of "fst ?t" "snd ?t" 2000 None r h'] r show ?thesis by auto
qed

text \<open>
  An explicit reset of an account invalidates everything started before it: whatever happens
  afterwards, a cooldown, a failure, a success or a timing that still carries the account's earlier
  reset epoch is not applied, and such a failure moves no session.
\<close>

theorem reset_invalidates_outcomes:
  assumes "health_step\<^sup>*\<^sup>* (c, snd (resetHealth now i forget h)) (d, g)"
    and "fo_expectedResetEpoch opts = Some (getResetEpoch h i)"
  shows "\<not> oc_applied (fst (setCooldown later i t revision (Some (getResetEpoch h i)) g))
    \<and> \<not> oc_applied (fst (recordFailure later i opts (d, g)))
    \<and> fst (snd (recordFailure later i opts (d, g))) = d
    \<and> \<not> oc_applied (fst (recordSuccess later i revision (Some (getResetEpoch h i)) g))
    \<and> recordPerformance later i sample revision (Some (getResetEpoch h i)) g = (False, g)"
proof -
  have "getResetEpoch h i \<noteq> getResetEpoch g i"
    using generations_mono [OF assms(1), of i] resetHealth_epoch [of now i forget h] by simp
  from old_epoch_rejected [OF this] assms(2) show ?thesis by blast
qed

theorem reset_invalidates_outcomes_witness:
  "let h = snd (resetHealth 1000 ''a'' True empty_health)
   in oc_applied (fst (setCooldown 2000 ''a'' 9000 None (Some 0) h)) = False
    \<and> oc_applied (fst (setCooldown 2000 ''a'' 9000 None (Some 1) h))"
proof -
  let ?opts = "(sample_failure None)\<lparr>fo_expectedResetEpoch := Some 0\<rparr>"
  let ?h = "snd (resetHealth 1000 ''a'' True empty_health)"
  have "\<not> oc_applied (fst (setCooldown 2000 ''a'' 9000 None (Some 0) ?h))"
    using reset_invalidates_outcomes [where opts = ?opts and d = "empty_sticky_cache 10 5",
        OF rtranclp.rtrancl_refl] by simp
  moreover have "oc_applied (fst (setCooldown 2000 ''a'' 9000 None (Some 1) ?h))"
    using resetHealth_epoch [of 1000 "''a''" True empty_health]
    by (simp add: setCooldown_def store_health_eq Let_def)
  ultimately show ?thesis by (simp add: Let_def)
qed

text \<open>
  No report shortens a cooldown: neither a failure nor a quota cooldown, whatever generation it
  expects, makes an account available earlier than it would have been; and a success that does not
  say which generation it belongs to ends a cooldown only when it is not a quota cooldown.
\<close>

theorem cooldowns_never_shortened:
  "health_cooldown (hs_health h i) \<le> health_cooldown (hs_health (snd (snd (recordFailure now i opts (c, h)))) i)
   \<and> health_cooldown (hs_health h i) \<le> health_cooldown (hs_health (snd (setCooldown now i t revision epoch h)) i)
   \<and> health_cooldown (hs_health (snd (recordSuccess now i None epoch h)) i) =
        (if \<not> stale epoch (getResetEpoch h i) \<and> hs_reasons h i \<noteq> Some Quota_Reason then 0
         else health_cooldown (hs_health h i))"
  using recordFailure_cases [of now i opts c h] setCooldown_cases [of now i t revision epoch h]
  by (cases "recordFailure now i opts (c, h)"; cases "setCooldown now i t revision epoch h")
    (auto simp: recordSuccess_def not_applied_eq bumpHealthRevision_def Let_def)

section \<open>Availability\<close>

text \<open>
  C32. An account reported as available can be used now: its status and credentials allow it,
  neither its configured nor its runtime cooldown is running, its quota is not exhausted and no
  quota reserve, its own or the pool's, blocks it, the requested model is not cooling down, its
  circuit is not open, and a half-open circuit has no request in flight: one probe at a time.
\<close>

theorem availability_sound:
  assumes "isAvailable a q now m load h = (True, h')"
  shows "isRouteAccountRuntimeAvailable a now \<and> \<not> quotaExhausted a now
    \<and> max (or_zero (acc_cooldownUntil a)) (health_cooldown (hs_health h (acc_id a))) \<le> now
    \<and> (if accountReportsCodexQuota a
        then \<not> quotaProtectionBlocks (acc_codexQuota a) (acc_quotaProtection a) now
             \<and> \<not> quotaProtectionBlocks (acc_codexQuota a) q now else True)
    \<and> (case truthy m of None \<Rightarrow> True | Some model \<Rightarrow> fst (isModelAvailable (acc_id a) model now h))
    \<and> map_option rh_circuitState (hs_health h' (acc_id a)) \<noteq> Some Open
    \<and> (if map_option rh_circuitState (hs_health h' (acc_id a)) = Some Half_Open then load \<le> 0 else True)"
  using isAvailable_sound [OF assms] by (auto split: option.split)

theorem availability_sound_witness:
  "let (b, h') = isAvailable account_a None 1000 (Some ''m'') 0 empty_health
   in b \<and> map_option rh_circuitState (hs_health h' ''a'') \<noteq> Some Open"
proof -
  have "runnable sample_env (sample_input Balanced None [account_a, account_b]) fresh_scheduler account_a"
    by (rule sample_runnable) simp_all
  moreover have "inFlight fresh_scheduler account_a = 0" "sd_health fresh_scheduler = empty_health"
    by (simp_all add: sample_defs inFlight_def active_slots_def Let_def)
  ultimately have "fst (isAvailable account_a None 1000 (Some ''m'') 0 empty_health)"
    by (simp add: runnable_def cooldown_key_def) (simp add: sample_input_def sample_pool_def sample_env_def)
  then obtain h' where "isAvailable account_a None 1000 (Some ''m'') 0 empty_health = (True, h')"
    by (metis prod.collapse)
  with availability_sound [OF this] show ?thesis by simp
qed

section \<open>Runs of the health operations\<close>

text \<open>
  C33. In every state the health operations can reach, in any order and with any arguments, from a
  new scheduler: an account has a cooldown reason exactly when it has a circuit entry, the entry
  carries its id, its performance statistics are consistent (counts add up, rates lie between 0 and
  1, a concurrency limit learnt from failures is at least 1), and its model cooldowns are stored
  once per normalised model name, never as an empty map.
\<close>

theorem health_state_consistent:
  assumes "health_step\<^sup>*\<^sup>* (c, empty_health) (d, h)"
  shows "(hs_reasons h i = None \<longleftrightarrow> hs_health h i = None)
    \<and> (case hs_health h i of None \<Rightarrow> True | Some st \<Rightarrow> rh_accountId st = i)
    \<and> (case hs_performance h i of None \<Rightarrow> True | Some st \<Rightarrow>
          pf_sampleCount st = pf_successCount st + pf_failureCount st \<and> 0 < pf_sampleCount st
          \<and> 0 \<le> pf_recentSuccessRate st \<and> pf_recentSuccessRate st \<le> 1 \<and> 0 \<le> pf_failurePenalty st
          \<and> (case pf_dynamicConcurrency st of None \<Rightarrow> True | Some n \<Rightarrow> 1 \<le> n))
    \<and> (case hs_modelCooldowns h i of None \<Rightarrow> True | Some m \<Rightarrow>
          m \<noteq> [] \<and> distinct (map_keys m) \<and> list_all (\<lambda>k. normalizedModelCooldownKey k = Some k) (map_keys m))"
proof -
  have ok: "health_ok h" using health_ok_run [OF assms] health_ok_empty by simp
  moreover have "maybe_ok (hs_performance h i)" using ok by (simp add: health_ok_def statistics_ok_def)
  ultimately show ?thesis
    by (auto simp: health_ok_def circuits_ok_def models_ok_def cooldowns_wf_def map_wf_def list_all_iff
        maybe_ok_def performance_ok_def split: option.split)
qed

theorem health_state_consistent_witness:
  "let h = snd (snd (recordFailure 1000 ''a'' (sample_failure None) (empty_sticky_cache 10 5, empty_health)))
   in hs_reasons h ''a'' \<noteq> None \<and> map_option rh_accountId (hs_health h ''a'') = Some ''a''"
proof -
  let ?t = "snd (recordFailure 1000 ''a'' (sample_failure None) (empty_sticky_cache 10 5, empty_health))"
  have "health_step\<^sup>*\<^sup>* (empty_sticky_cache 10 5, empty_health) (fst ?t, snd ?t)"
    by (rule r_into_rtranclp, rule health_step.Failure [where r = "fst (recordFailure 1000 ''a'' (sample_failure None)
        (empty_sticky_cache 10 5, empty_health))"]) simp
  moreover have "hs_health (snd ?t) ''a'' \<noteq> None"
    using recordFailure_applied_eq [of "sample_failure None" empty_health "''a''" 1000 "empty_sticky_cache 10 5"]
    by auto
  ultimately show ?thesis using health_state_consistent [of "empty_sticky_cache 10 5" "fst ?t" "snd ?t" "''a''"]
    by (auto simp: Let_def)
qed

section \<open>Cooldowns of single models\<close>

text \<open>
  A model failure is honoured: from the failure on, and for its cooldown (at least a second),
  the account is unavailable for that model, whatever white space surrounds its name; when the
  cooldown is over it is available again. The map of an account keeps at most 256 entries.
\<close>

theorem model_cooldown_honoured:
  assumes "models_ok h" and "normalizedModelCooldownKey model = Some key"
    and "valid_status_code (map_option Finite code)"
    and "list_all (\<lambda>(k, c). mc_updatedAt c \<le> now) (account_cooldowns h i)"
    and "length (account_cooldowns h i) \<le> 256"
  shows "let h' = snd (recordModelFailure now i model reason cooldown code h) in
      fst (isModelAvailable i model later h') = (now + max 1000 (js_floor cooldown) \<le> later)
      \<and> length (account_cooldowns h' i) \<le> 256"
proof -
  let ?h = "snd (recordModelFailure now i model reason cooldown code h)"
  have "map_get (account_cooldowns h i) k = Some c \<Longrightarrow> mc_updatedAt c \<le> now" for k c
    using assms(4) map_get_in_set [of "account_cooldowns h i" k c] by (auto simp: list_all_iff)
  from recordModelFailure_entry [OF assms(1-3) this]
  have "map_get (account_cooldowns ?h i) key = Some \<lparr>mc_until = now + max 1000 (js_floor cooldown),
      mc_reason = reason, mc_statusCode = code, mc_updatedAt = now\<rparr>"
    using assms(5) by (simp add: MAX_MODEL_COOLDOWNS_PER_ACCOUNT_def)
  then have "fst (isModelAvailable i model later ?h) \<longleftrightarrow> now + max 1000 (js_floor cooldown) \<le> later"
    using isModelAvailable_eq [OF models_ok_recordModelFailure [OF assms(1)] assms(2), where now = later and i = i]
    by simp
  moreover have "length (account_cooldowns ?h i) \<le> 256"
    using recordModelFailure_bounded [OF assms(1,2), of now i reason cooldown code]
    by (simp add: MAX_MODEL_COOLDOWNS_PER_ACCOUNT_def)
  ultimately show ?thesis by (simp add: Let_def)
qed

theorem model_cooldown_honoured_witness:
  "let h' = snd (recordModelFailure 1000 ''a'' '' m '' Rate_Limit 60000 (Some 429) empty_health)
   in \<not> fst (isModelAvailable ''a'' '' m '' 60999 h') \<and> fst (isModelAvailable ''a'' '' m '' 61000 h')"
proof -
  have "normalizedModelCooldownKey '' m '' = Some ''m''" by code_simp
  from model_cooldown_honoured [OF health_ok_models_ok [OF health_ok_empty] this, of "Some 429" 1000 "''a''"
      Rate_Limit 60000]
  show ?thesis
    by (simp add: Let_def valid_status_code_def js_floor_def account_cooldowns_def empty_health_def)
qed

end
