(* ===== verification/Waiter_Order.thy ===== *)
theory Waiter_Order
  imports Scheduler_Runs
begin

text \<open>
  Which waiting requests a freed slot serves, refuses and leaves waiting: the loop of
  \<^verbatim>\<open>fulfillOneCapacityWaiter\<close> in \<^verbatim>\<open>src/main/gateway/scheduler.ts\<close> without the loop. What happens to the
  waiters it passes does not change the answers about the later ones, so all is decided in the state
  in which the slot became free.
\<close>

section \<open>Questions and later answers\<close>

text \<open>
  Asking whether an account is available can change its health record, but no later answer at the
  same instant, whatever pool and model it is asked for.
\<close>

lemma delete_last: "map_delete m k = [] \<Longrightarrow> map_get m j = Some v \<Longrightarrow> j = k"
  by (metis map_get_delete map_of.simps(1) option.distinct(1))

lemma model_verdict_stable:
  "fst (isModelAvailable i m' now (snd (isModelAvailable i m now h))) = fst (isModelAvailable i m' now h)"
  by (auto simp: isModelAvailable_def put_cooldowns_def not_less split: option.splits if_splits)
    (metis delete_last linorder_not_less option.inject)

lemma model_check_keeps [simp]:
  "hs_health (snd (isModelAvailable i m now h)) = hs_health h"
  "hs_performance (snd (isModelAvailable i m now h)) = hs_performance h"
  by (simp_all add: isModelAvailable_def put_cooldowns_def split: option.split)

lemma transition_health:
  assumes "hs_health x (acc_id a) = hs_health h (acc_id a)" and "hs_quotaHalfOpen x (acc_id a) = hs_quotaHalfOpen h (acc_id a)"
  shows "hs_health (admit_quota_probe a now (open_to_half_open (acc_id a) now x)) (acc_id a)
    = hs_health (admit_quota_probe a now (open_to_half_open (acc_id a) now h)) (acc_id a)"
  using assms by (auto simp: admit_quota_probe_def open_to_half_open_def Let_def split: option.split)

lemma isAvailable_stable:
  assumes "acc_id b = acc_id a \<Longrightarrow> b = a"
  shows "fst (isAvailable b q' now m' load' (snd (isAvailable a q now m load h))) = fst (isAvailable b q' now m' load' h)"
proof (cases "acc_id b = acc_id a")
  case False
  show ?thesis by (rule isAvailable_depends) (rule isAvailable_local [OF False])
next
  case True
  then have b: "b = a" by (rule assms)
  define h0 where "h0 = (case truthy m of None \<Rightarrow> h | Some x \<Rightarrow> snd (isModelAvailable (acc_id a) x now h))"
  define z where "z = admit_quota_probe a now (open_to_half_open (acc_id a) now h0)"
  define u where "u = snd (isAvailable a q now m load h)"
  have u: "u = z \<or> u = h0"
    by (auto simp: u_def isAvailable_split Let_def h0_def z_def)
  have h0: "hs_health h0 = hs_health h" "hs_quotaHalfOpen h0 = hs_quotaHalfOpen h"
    by (simp_all add: h0_def split: option.split)
  have cools: "hs_modelCooldowns u = hs_modelCooldowns h0" using u by (auto simp: z_def)
  have models: "fst (isModelAvailable (acc_id a) x now u) = fst (isModelAvailable (acc_id a) x now h)" for x
    using model_verdict_stable [of "acc_id a" x now _ h] isModelAvailable_cooldowns [of u "acc_id a" h0] cools
    by (auto simp: h0_def split: option.splits)
  define next_of where "next_of = (\<lambda>h. case truthy m' of None \<Rightarrow> h | Some x \<Rightarrow> snd (isModelAvailable (acc_id a) x now h))"
  have n: "hs_health (next_of y) = hs_health y" "hs_quotaHalfOpen (next_of y) = hs_quotaHalfOpen y" for y
    by (simp_all add: next_of_def split: option.split)
  define settled where "settled = (\<lambda>h. hs_health (admit_quota_probe a now (open_to_half_open (acc_id a) now h)) (acc_id a))"
  have "settled (next_of h) = hs_health z (acc_id a)"
    unfolding settled_def z_def by (rule transition_health) (simp_all add: n h0)
  moreover have "settled (next_of u) = hs_health z (acc_id a)"
    using u
  proof
    assume "u = z"
    then show ?thesis unfolding settled_def by (intro transitions_settled [OF z_def]) (simp_all add: n)
  next
    assume "u = h0"
    then show ?thesis unfolding settled_def z_def by (intro transition_health) (simp_all add: n)
  qed
  ultimately have "settled (next_of u) = settled (next_of h)" by simp
  then show ?thesis
    unfolding b u_def [symmetric] using models
    by (auto simp: isAvailable_split Let_def next_of_def settled_def split: option.splits)
qed

lemma isAvailable_performance: "hs_performance (snd (isAvailable a q now m load h)) = hs_performance h"
  by (auto simp: isAvailable_split Let_def admit_quota_probe_def open_to_half_open_def split: option.split)

text \<open>Two states that answer every such question alike.\<close>

definition same_verdicts :: "account set \<Rightarrow> env \<Rightarrow> scheduler \<Rightarrow> scheduler \<Rightarrow> bool" where
  "same_verdicts A e s t \<longleftrightarrow>
     sd_active t = sd_active s \<and> hs_performance (sd_health t) = hs_performance (sd_health s)
     \<and> (\<forall>a \<in> A. \<forall>q m load. fst (isAvailable a q (env_now e) m load (sd_health t))
           = fst (isAvailable a q (env_now e) m load (sd_health s)))"

lemma verdicts_refl [simp]: "same_verdicts A e s s"
  by (simp add: same_verdicts_def)

lemma verdicts_trans: "same_verdicts A e s t \<Longrightarrow> same_verdicts A e t u \<Longrightarrow> same_verdicts A e s u"
  by (simp add: same_verdicts_def)

lemma verdicts_cong: "sd_active t = sd_active s \<Longrightarrow> sd_health t = sd_health s \<Longrightarrow> same_verdicts A e s t"
  by (simp add: same_verdicts_def)

lemma verdicts_asked:
  assumes "inj_on acc_id A" and "a \<in> A"
  shows "same_verdicts A e s (s\<lparr>sd_health := snd (isAvailable a q (env_now e) m load (sd_health s))\<rparr>)"
proof -
  have "fst (isAvailable b q' (env_now e) m' load' (snd (isAvailable a q (env_now e) m load h)))
      = fst (isAvailable b q' (env_now e) m' load' h)" if "b \<in> A" for b q' m' load' h
    by (rule isAvailable_stable) (use assms that in \<open>blast dest: inj_onD\<close>)
  then show ?thesis using isAvailable_performance by (simp add: same_verdicts_def)
qed

lemma verdicts_capacity: "same_verdicts A e s t \<Longrightarrow> hasCapacity t b a = hasCapacity s b a"
  by (simp add: same_verdicts_def hasCapacity_def inFlight_def active_slots_def concurrencyLimit_def performance_of_def
      Let_def cong: if_cong)

lemma verdicts_load: "same_verdicts A e s t \<Longrightarrow> inFlight t a = inFlight s a"
  by (simp add: same_verdicts_def inFlight_def active_slots_def)

lemma verdicts_runnable:
  "same_verdicts A e s t \<Longrightarrow> a \<in> A \<Longrightarrow> runnable e i t a = runnable e i s a"
  using verdicts_capacity verdicts_load by (auto simp: runnable_def same_verdicts_def)

lemma eligible_accounts:
  "input_ok A i \<Longrightarrow> a \<in> set (er_verified (source_eligibility i) @ er_unknown (source_eligibility i)) \<Longrightarrow> a \<in> A"
  using er_verified_subset er_unknown_subset by (fastforce simp: input_ok_def source_eligibility_def)

lemma verdicts_tier:
  assumes "same_verdicts A e s t" and "input_ok A i"
  shows "runnable_tier e i t = runnable_tier e i s"
proof -
  have "filter (runnable e i t) (er_verified (source_eligibility i)) = filter (runnable e i s) (er_verified (source_eligibility i))"
    "filter (runnable e i t) (er_unknown (source_eligibility i)) = filter (runnable e i s) (er_unknown (source_eligibility i))"
    using verdicts_runnable [OF assms(1)] eligible_accounts [OF assms(2)] by (auto intro!: filter_cong)
  then show ?thesis unfolding runnable_tier_def by (simp only:)
qed

text \<open>A selection that fails and the search for accounts at capacity only ask.\<close>

lemma verdicts_select:
  assumes "selectAndAcquire e i s = (Inl err, t)" and "draws_ok e" and "input_ok A i" and "inj_on acc_id A"
  shows "same_verdicts A e s t"
proof -
  let ?r = "source_eligibility i" and ?p = "in_pool i"
  define s2 where "s2 = (let s1 = s\<lparr>sd_sticky := cleanupExpiredSticky (env_now e) (sd_sticky s)\<rparr>
      in if pool_strategy ?p \<noteq> Weighted_Round_Robin
         then s1\<lparr>sd_smoothWeighted := (sd_smoothWeighted s1)(pool_id ?p := None)\<rparr> else s1)"
  have s2: "same_verdicts A e s s2" by (rule verdicts_cong) (simp_all add: s2_def Let_def)
  have ask: "same_verdicts A e s2 v" if "x \<in> A" "same_verdicts A e s2 u" "runtimeEligible e i u x = (b, v)" for x u b v
  proof -
    have "v = u \<or> (\<exists>q m load. v = u\<lparr>sd_health := snd (isAvailable x q (env_now e) m load (sd_health u))\<rparr>)"
      using that(3) isEligible_eq(2) by (auto simp: runtimeEligible_def split: if_splits) (metis snd_conv)
    then show ?thesis using that(2) verdicts_trans verdicts_asked [OF assms(4) that(1)] by blast
  qed
  have tier: "same_verdicts A e s2 v" if "filter_state (runtimeEligible e i) u xs = (ys, v)" "same_verdicts A e s2 u" "set xs \<subseteq> A"
    for u v xs ys
    by (rule filter_state_inv [where P = "same_verdicts A e s2", OF _ that(2,1)]) (use ask that(3) in blast)
  have V: "set (er_verified ?r) \<subseteq> A" "set (er_unknown ?r) \<subseteq> A" using eligible_accounts [OF assms(3)] by auto
  have cand: "same_verdicts A e s2 v" if "runnable_candidates e i ?r s2 = (ys, v)" for ys v
    using that tier [OF _ verdicts_refl V(1)] tier [OF _ _ V(2)]
    by (fastforce simp: runnable_candidates_def split: prod.splits if_splits)
  have chosen: "\<exists>a t. choose_and_commit e i ys v = committed e i a t" if "runnable_candidates e i ?r s2 = (ys, v)" "ys \<noteq> []"
      "isSupportedPoolStrategy (pool_strategy ?p)" for ys v
    using choose_and_commit_spec [OF that(2,3) assms(2)] by blast
  have "t = s \<or> t = s2 \<or> (\<exists>ys. runnable_candidates e i ?r s2 = (ys, t))"
    using assms(1) chosen unfolding selectAndAcquire_def Let_def s2_def [unfolded Let_def, symmetric]
    by (fastforce simp: committed_def split: if_splits prod.splits)
  with s2 cand show ?thesis by (blast intro: verdicts_refl verdicts_trans)
qed

text \<open>The accounts that could serve a request but for their load.\<close>

definition busy_accounts :: "env \<Rightarrow> selection_input \<Rightarrow> scheduler \<Rightarrow> string list" where
  "busy_accounts e i s =
     map acc_id
       (filter (\<lambda>a. acc_id a \<notin> set (in_excludedAccountIds i)
            \<and> fst (isAvailable a (pool_quotaProtection (in_pool i)) (env_now e) (Some (cooldown_key i)) (inFlight s a) (sd_health s))
            \<and> \<not> hasCapacity s (pool_strategy (in_pool i) = Autobalanced) a)
         (er_verified (source_eligibility i) @ er_unknown (source_eligibility i)))"

lemma verdicts_busy:
  assumes "same_verdicts A e s t" and "input_ok A i"
  shows "busy_accounts e i t = busy_accounts e i s"
  unfolding busy_accounts_def
  using verdicts_capacity [OF assms(1)] verdicts_load [OF assms(1)] assms(1) eligible_accounts [OF assms(2)]
  by (intro arg_cong [where f = "map acc_id"] filter_cong) (auto simp: same_verdicts_def)

lemma blocked_busy:
  assumes "input_ok A i" and "inj_on acc_id A"
  shows "fst (capacityBlockedAccountIds e i s) = busy_accounts e i s"
    and "same_verdicts A e s (snd (capacityBlockedAccountIds e i s))"
proof -
  let ?r = "source_eligibility i" and ?ad = "pool_strategy (in_pool i) = Autobalanced"
  define f where "f = (\<lambda>s a. let (available, t) =
      (if acc_id a \<in> set (in_excludedAccountIds i) then (False, s)
       else schedulerAvailable (env_now e) a (pool_quotaProtection (in_pool i)) (Some (cooldown_key i)) s)
      in (available \<and> \<not> hasCapacity t ?ad a, t))"
  define busy where "busy = (\<lambda>a. acc_id a \<notin> set (in_excludedAccountIds i)
      \<and> fst (isAvailable a (pool_quotaProtection (in_pool i)) (env_now e) (Some (cooldown_key i)) (inFlight s a) (sd_health s))
      \<and> \<not> hasCapacity s ?ad a)"
  have eq: "capacityBlockedAccountIds e i s = map_prod (map acc_id) id (filter_state f s (er_verified ?r @ er_unknown ?r))"
    by (simp add: capacityBlockedAccountIds_def f_def Let_def split_beta map_prod_def)
  have after: "fst (f u a) = busy a \<and> same_verdicts A e s (snd (f u a))"
    if "a \<in> A" "same_verdicts A e s u" for u a
  proof -
    have v: "same_verdicts A e s (u\<lparr>sd_health := snd (isAvailable a q (env_now e) m load (sd_health u))\<rparr>)" for q m load
      using that verdicts_trans verdicts_asked [OF assms(2)] by blast
    show ?thesis
      using that v verdicts_capacity [OF v] verdicts_load [OF that(2)]
      by (auto simp: f_def busy_def schedulerAvailable_eq Let_def same_verdicts_def)
  qed
  have A: "a \<in> A" if "a \<in> set (er_verified ?r @ er_unknown ?r)" for a using eligible_accounts [OF assms(1) that] .
  have "fst (filter_state f s (er_verified ?r @ er_unknown ?r)) = filter busy (er_verified ?r @ er_unknown ?r)"
    by (rule filter_state_pure [where P = "same_verdicts A e s"]) (use after A in auto)
  then show "fst (capacityBlockedAccountIds e i s) = busy_accounts e i s"
    by (simp add: eq busy_accounts_def busy_def)
  have "same_verdicts A e s (snd (filter_state f s (er_verified ?r @ er_unknown ?r)))"
    by (rule filter_state_inv [where P = "same_verdicts A e s" and f = f and s = s
          and xs = "er_verified ?r @ er_unknown ?r" and ys = "fst (filter_state f s (er_verified ?r @ er_unknown ?r))"])
      (use after A in \<open>metis snd_conv\<close>, simp_all)
  then show "same_verdicts A e s (snd (capacityBlockedAccountIds e i s))" by (simp add: eq)
qed

section \<open>Who is served\<close>

text \<open>
  What becomes of the waiters, without the loop: the first one in the queue that can be served is; a
  waiter before it is refused with the error of its case, or waits on for the accounts that are busy.
\<close>

definition waiter_aborted :: "env \<Rightarrow> capacity_waiter \<Rightarrow> bool" where
  "waiter_aborted e w \<longleftrightarrow> (\<exists>g. cw_signal w = Some g \<and> env_aborted e g)"

definition servable :: "env \<Rightarrow> scheduler \<Rightarrow> capacity_waiter \<Rightarrow> bool" where
  "servable e s w \<longleftrightarrow>
     \<not> waiter_aborted e w \<and> env_now e < cw_deadlineAt w
     \<and> isSupportedPoolStrategy (pool_strategy (in_pool (cw_input w))) \<and> model_exposed (cw_input w)
     \<and> runnable_tier e (cw_input w) s \<noteq> []"

definition refusal :: "env \<Rightarrow> scheduler \<Rightarrow> capacity_waiter \<Rightarrow> scheduler_error option" where
  "refusal e s w =
     (let i = cw_input w; r = source_eligibility i in
      if waiter_aborted e w then Some Wait_Aborted
      else if cw_deadlineAt w \<le> env_now e then Some (No_Eligible_Account (cw_accountIds w) wait_deadline_message)
      else if \<not> isSupportedPoolStrategy (pool_strategy (in_pool i)) then
        Some (Unsupported_Pool_Strategy (pool_strategy (in_pool i)))
      else if \<not> model_exposed i then Some Model_Not_Exposed
      else if runnable_tier e i s = [] \<and> busy_accounts e i s = [] then
        Some (No_Eligible_Account (map acc_id (er_verified r) @ map acc_id (er_unknown r)) no_eligible_message)
      else None)"

definition refusal_log :: "env \<Rightarrow> scheduler \<Rightarrow> capacity_waiter list \<Rightarrow> settlement list" where
  "refusal_log e s ws = map (\<lambda>w. (cw_id w, Inl (the (refusal e s w)))) (filter (\<lambda>w. refusal e s w \<noteq> None) ws)"

definition passed_over :: "env \<Rightarrow> scheduler \<Rightarrow> capacity_waiter \<Rightarrow> scheduler \<Rightarrow> scheduler" where
  "passed_over e s w u =
     (case refusal e s w of Some err \<Rightarrow> conclude w (Inl err) u | None \<Rightarrow> relist w (busy_accounts e (cw_input w) s) u)"

lemma selection_error:
  assumes "\<not> (isSupportedPoolStrategy (pool_strategy (in_pool i)) \<and> model_exposed i \<and> runnable_tier e i s \<noteq> [])"
    and "distinct (map acc_id (in_accounts i))"
  obtains t where "selectAndAcquire e i s =
      (Inl (if \<not> isSupportedPoolStrategy (pool_strategy (in_pool i)) then Unsupported_Pool_Strategy (pool_strategy (in_pool i))
         else if \<not> model_exposed i then Model_Not_Exposed
         else No_Eligible_Account (map acc_id (er_verified (source_eligibility i)) @ map acc_id (er_unknown (source_eligibility i)))
           no_eligible_message), t)" "selection_frame s t"
proof (cases "isSupportedPoolStrategy (pool_strategy (in_pool i))")
  case True
  obtain t u where tu: "selection_frame s t" "selection_frame s u"
    and eq: "selectAndAcquire e i s =
      (if \<not> model_exposed i then (Inl Model_Not_Exposed, t)
       else if runnable_tier e i s = [] then
         (Inl (No_Eligible_Account (map acc_id (er_verified (source_eligibility i))
            @ map acc_id (er_unknown (source_eligibility i))) no_eligible_message), u)
       else choose_and_commit e i (runnable_tier e i s) u)"
    by (rule selectAndAcquire_eq [OF True assms(2)])
  show thesis
    using assms(1) True tu eq that [of t] that [of u] by (cases "model_exposed i") auto
next
  case False
  then show thesis using that [of s] selectAndAcquire_unsupported [OF False] by simp
qed

lemma loop_passes:
  assumes "draws_ok e" and "inj_on acc_id A" and "input_ok A (cw_input w)" and "same_verdicts A e s u"
    and "map_get (sd_waiters u) (cw_id w) = Some w" and "i \<in> set (cw_accountIds w)" and "\<not> servable e s w"
  obtains u' where "fulfill_loop e i (w # ws) u = fulfill_loop e i ws u'" "same_verdicts A e s u'"
    "sd_settled u' = sd_settled (passed_over e s w u)" "sd_waiters u' = sd_waiters (passed_over e s w u)"
proof -
  let ?i = "cw_input w"
  have aborted: "(case cw_signal w of None \<Rightarrow> False | Some signal \<Rightarrow> env_aborted e signal) \<longleftrightarrow> waiter_aborted e w"
    by (simp add: waiter_aborted_def split: option.split)
  have gone: "same_verdicts A e s (conclude w r v)" if "same_verdicts A e s v" for r v
    by (rule verdicts_trans [OF that]) (rule verdicts_cong; simp)
  have ids: "distinct (map acc_id (in_accounts ?i))" using assms(3) by (simp add: input_ok_def)
  consider "waiter_aborted e w" | "\<not> waiter_aborted e w" "cw_deadlineAt w \<le> env_now e"
    | "\<not> waiter_aborted e w" "env_now e < cw_deadlineAt w" by linarith
  then show thesis
  proof cases
    case 1
    then show thesis
      using that [of "conclude w (Inl Wait_Aborted) u"] assms(4-6) gone aborted
      by (simp add: rejectCapacityWaiter_eq passed_over_def refusal_def Let_def)
  next
    case 2
    then show thesis
      using that [of "conclude w (Inl (No_Eligible_Account (cw_accountIds w) wait_deadline_message)) u"] assms(4-6) gone aborted
      by (simp add: rejectCapacityWaiter_eq passed_over_def refusal_def Let_def)
  next
    case 3
    then have no: "\<not> (isSupportedPoolStrategy (pool_strategy (in_pool ?i)) \<and> model_exposed ?i \<and> runnable_tier e ?i s \<noteq> [])"
      using assms(7) by (simp add: servable_def)
    then have "\<not> (isSupportedPoolStrategy (pool_strategy (in_pool ?i)) \<and> model_exposed ?i \<and> runnable_tier e ?i u \<noteq> [])"
      using verdicts_tier [OF assms(4,3)] by simp
    then obtain t where t: "selectAndAcquire e ?i u =
      (Inl (if \<not> isSupportedPoolStrategy (pool_strategy (in_pool ?i)) then Unsupported_Pool_Strategy (pool_strategy (in_pool ?i))
         else if \<not> model_exposed ?i then Model_Not_Exposed
         else No_Eligible_Account (map acc_id (er_verified (source_eligibility ?i)) @ map acc_id (er_unknown (source_eligibility ?i)))
           no_eligible_message), t)" and frame: "selection_frame u t"
      by (rule selection_error [OF _ ids])
    have same: "same_verdicts A e s t" using verdicts_trans [OF assms(4) verdicts_select [OF t assms(1,3,2)]] .
    have w: "map_get (sd_waiters t) (cw_id w) = Some w" using assms(5) frame by (simp add: selection_frame_def)
    obtain ids' t' where b: "capacityBlockedAccountIds e ?i t = (ids', t')" by fastforce
    obtain h where h: "t' = t\<lparr>sd_health := h\<rparr>" using capacityBlocked_frame [of e ?i t] b by auto
    have ids': "ids' = busy_accounts e ?i s" and same': "same_verdicts A e s t'"
      using blocked_busy [OF assms(3,2), of e t] b verdicts_busy [OF same assms(3)] verdicts_trans [OF same] by auto
    show thesis
    proof (cases "isSupportedPoolStrategy (pool_strategy (in_pool ?i)) \<and> model_exposed ?i")
      case False
      then show thesis
        using 3 t w frame gone [OF same] aborted assms(6)
          that [of "conclude w (Inl (if \<not> isSupportedPoolStrategy (pool_strategy (in_pool ?i))
            then Unsupported_Pool_Strategy (pool_strategy (in_pool ?i)) else Model_Not_Exposed)) t"]
        by (auto simp: rejectCapacityWaiter_eq passed_over_def refusal_def Let_def selection_frame_def)
    next
      case True
      with no have tier: "runnable_tier e ?i s = []" by simp
      show thesis
      proof (cases "ids' = []")
        case none: True
        then show thesis
          using 3 True tier t w frame h ids' b gone [OF same'] aborted assms(6)
            that [of "conclude w (Inl (No_Eligible_Account (map acc_id (er_verified (source_eligibility ?i))
              @ map acc_id (er_unknown (source_eligibility ?i))) no_eligible_message)) t'"]
          by (simp add: rejectCapacityWaiter_eq passed_over_def refusal_def Let_def selection_frame_def)
      next
        case some: False
        have "same_verdicts A e s (relist w ids' t')"
          by (rule verdicts_trans [OF same']) (rule verdicts_cong; simp add: relist_def)
        then show thesis
          using 3 True tier t w frame h ids' b aborted assms(6) some that [of "relist w ids' t'"]
          by (simp add: passed_over_def refusal_def Let_def selection_frame_def flip: relist_def)
      qed
    qed
  qed
qed

lemma passed_over_waiters:
  assumes "map_get (sd_waiters u) (cw_id w) = Some w"
  shows "map_keys (sd_waiters (passed_over e s w u))
      = filter (\<lambda>k. k \<notin> set (map fst (refusal_log e s [w]))) (map_keys (sd_waiters u))"
    and "map_get (sd_waiters (passed_over e s w u)) k
      = (if k = cw_id w then if refusal e s w = None then Some (w\<lparr>cw_accountIds := busy_accounts e (cw_input w) s\<rparr>) else None
         else map_get (sd_waiters u) k)"
    and "sd_settled (passed_over e s w u) = sd_settled u @ refusal_log e s [w]"
  using map_get_key [OF assms]
  by (simp_all add: passed_over_def refusal_log_def keys_map_delete keys_map_set split: option.split)

text \<open>The waiters listed for an account: the loop from a state \<open>u\<close> that answers as \<open>s\<close> does.\<close>

definition served_in_order :: "env \<Rightarrow> string \<Rightarrow> scheduler \<Rightarrow> capacity_waiter list \<Rightarrow> scheduler \<Rightarrow> settlement list \<Rightarrow> scheduler \<Rightarrow> bool" where
  "served_in_order e i s ws u granted t \<longleftrightarrow>
     (let listed = filter (\<lambda>w. i \<in> set (cw_accountIds w)) ws;
          before = takeWhile (\<lambda>w. \<not> servable e s w) listed;
          refused = refusal_log e s before
      in sd_settled t = sd_settled u @ refused @ granted
         \<and> (case find (servable e s) listed of
              None \<Rightarrow> granted = [] \<and> sd_active t = sd_active u
            | Some w \<Rightarrow> (\<exists>sel. granted = [(cw_id w, Inr sel)] \<and> sel_account sel \<in> set (runnable_tier e (cw_input w) s)
                \<and> (\<forall>j. active_slots t j = active_slots u j + (if j = acc_id (sel_account sel) then 1 else 0))))
         \<and> map_keys (sd_waiters t) = filter (\<lambda>k. k \<notin> set (map fst (refused @ granted))) (map_keys (sd_waiters u))
         \<and> (\<forall>k \<in> set (map_keys (sd_waiters t)). map_get (sd_waiters t) k =
              (case find (\<lambda>w. cw_id w = k) before of
                 None \<Rightarrow> map_get (sd_waiters u) k
               | Some w \<Rightarrow> Some (w\<lparr>cw_accountIds := busy_accounts e (cw_input w) s\<rparr>))))"

lemma loop_serves:
  assumes "draws_ok e" and "input_ok A (cw_input w)" and "same_verdicts A e s u" and "map_get (sd_waiters u) (cw_id w) = Some w"
    and "i \<in> set (cw_accountIds w)" and "servable e s w"
  obtains sel t where "fulfill_loop e i (w # ws) u = (True, t)" "served_in_order e i s (w # ws) u [(cw_id w, Inr sel)] t"
proof -
  let ?i = "cw_input w"
  have ids: "distinct (map acc_id (in_accounts ?i))" using assms(2) by (simp add: input_ok_def)
  have tier: "runnable_tier e ?i u = runnable_tier e ?i s" by (rule verdicts_tier [OF assms(3,2)])
  show thesis
  proof (rule selectAndAcquire_cases [OF assms(1) ids, of u])
    fix a t
    assume a: "a \<in> set (runnable_tier e ?i u)" and sel: "selectAndAcquire e ?i u = committed e ?i a t" and f: "selection_frame u t"
    obtain x v where xv: "committed e ?i a t = (Inr x, v)" by (auto simp: committed_def)
    have v: "sel_account x = a" "sd_waiters v = sd_waiters u" "sd_settled v = sd_settled u"
      "\<And>j. active_slots v j = active_slots u j + (if j = acc_id a then 1 else 0)"
      using xv f by (auto simp: committed_def selection_frame_def active_slots_def)
    have loop: "fulfill_loop e i (w # ws) u = (True, conclude w (Inr x) v)"
      using assms(5,6) sel xv by (auto simp: servable_def waiter_aborted_def conclude_def split: option.split)
    have "served_in_order e i s (w # ws) u [(cw_id w, Inr x)] (conclude w (Inr x) v)"
      using assms(5,6) a tier v by (simp add: served_in_order_def Let_def refusal_log_def keys_map_delete active_slots_def)
    with loop show thesis by (rule that)
  next
    fix err t
    assume "\<not> (isSupportedPoolStrategy (pool_strategy (in_pool ?i)) \<and> model_exposed ?i \<and> runnable_tier e ?i u \<noteq> [])"
    then show thesis using assms(6) tier by (simp add: servable_def)
  qed
qed

lemma served_later:
  assumes "i \<in> set (cw_accountIds w)" and "\<not> servable e s w" and "cw_id w \<notin> cw_id ` set ws"
    and w: "map_get (sd_waiters u) (cw_id w) = Some w"
    and u': "sd_settled u' = sd_settled (passed_over e s w u)" "sd_waiters u' = sd_waiters (passed_over e s w u)"
      "sd_active u' = sd_active u"
    and rest: "served_in_order e i s ws u' granted t"
  shows "served_in_order e i s (w # ws) u granted t"
proof -
  let ?listed = "filter (\<lambda>w. i \<in> set (cw_accountIds w)) ws"
  let ?before = "takeWhile (\<lambda>w. \<not> servable e s w) ?listed"
  note over = passed_over_waiters [OF w, of e s, folded u'(1,2)]
  note d = rest [unfolded served_in_order_def Let_def]
  note d1 = conjunct1 [OF d] note d2 = conjunct2 [OF d, THEN conjunct1]
  note d3 = conjunct2 [OF d, THEN conjunct2, THEN conjunct1]
  note d4 = conjunct2 [OF d, THEN conjunct2, THEN conjunct2]
  have log: "refusal_log e s (w # ?before) = refusal_log e s [w] @ refusal_log e s ?before" by (simp add: refusal_log_def)
  have lists: "filter (\<lambda>w. i \<in> set (cw_accountIds w)) (w # ws) = w # ?listed"
    "takeWhile (\<lambda>w. \<not> servable e s w) (w # ?listed) = w # ?before"
    "find (servable e s) (w # ?listed) = find (servable e s) ?listed"
    using assms(1,2) by simp_all
  have settled: "sd_settled t = sd_settled u @ refusal_log e s (w # ?before) @ granted"
    unfolding d1 over(3) log by simp
  have keys: "map_keys (sd_waiters t) = filter (\<lambda>k. k \<notin> set (map fst (refusal_log e s (w # ?before) @ granted))) (map_keys (sd_waiters u))"
    unfolding d3 over(1) log filter_filter by (rule filter_cong) auto
  have apart: "find (\<lambda>v. cw_id v = cw_id w) ?before = None"
  proof -
    have "cw_id v \<noteq> cw_id w" if "v \<in> set ws" for v using assms(3) that by (metis image_eqI)
    then show ?thesis by (auto simp: find_None_iff dest!: set_takeWhileD)
  qed
  have entries: "map_get (sd_waiters t) k = (case find (\<lambda>v. cw_id v = k) (w # ?before) of
      None \<Rightarrow> map_get (sd_waiters u) k
    | Some v \<Rightarrow> Some (v\<lparr>cw_accountIds := busy_accounts e (cw_input v) s\<rparr>))" if k: "k \<in> set (map_keys (sd_waiters t))" for k
  proof (cases "k = cw_id w")
    case True
    have "cw_id w \<in> set (map_keys (sd_waiters u'))" using k unfolding True d3 by simp
    then have "map_get (sd_waiters u') (cw_id w) \<noteq> None" by (metis map_get_None_iff)
    then show ?thesis using bspec [OF d4 k] apart over(2) [of "cw_id w"] by (simp add: True split: if_splits)
  next
    case False
    then show ?thesis using bspec [OF d4 k] over(2) [of k] by (simp split: option.split)
  qed
  show ?thesis
    unfolding served_in_order_def Let_def lists
    by (intro conjI ballI settled keys entries d2 [unfolded u'(3) active_slots_cong [OF u'(3)]])
qed

lemma loop_outcome:
  assumes "draws_ok e" and "inj_on acc_id A" and "\<forall>w \<in> set ws. input_ok A (cw_input w)" and "pending ws u"
    and "same_verdicts A e s u"
  shows "\<exists>granted t. fulfill_loop e i ws u = (granted \<noteq> [], t) \<and> served_in_order e i s ws u granted t"
  using assms(3-5)
proof (induction ws arbitrary: u)
  case Nil
  then show ?case by (simp add: served_in_order_def refusal_log_def)
next
  case (Cons w ws)
  have w: "map_get (sd_waiters u) (cw_id w) = Some w" and in_w: "input_ok A (cw_input w)" and new: "cw_id w \<notin> cw_id ` set ws"
    using Cons.prems(1,2) by (auto simp: pending_def)
  show ?case
  proof (cases "i \<in> set (cw_accountIds w)")
    case False
    have p: "pending ws u" using Cons.prems(2) by (auto simp: pending_def)
    have "fulfill_loop e i (w # ws) u = fulfill_loop e i ws u"
      "served_in_order e i s (w # ws) = served_in_order e i s ws"
      using False by (simp_all add: served_in_order_def fun_eq_iff)
    then show ?thesis using Cons.IH [OF _ p Cons.prems(3)] Cons.prems(1) by simp
  next
    case listed: True
    show ?thesis
    proof (cases "servable e s w")
      case True
      show ?thesis
        by (rule loop_serves [OF assms(1) in_w Cons.prems(3) w listed True, of ws]) (intro exI conjI; simp)
    next
      case False
      obtain u' where u': "fulfill_loop e i (w # ws) u = fulfill_loop e i ws u'" "same_verdicts A e s u'"
        "sd_settled u' = sd_settled (passed_over e s w u)" "sd_waiters u' = sd_waiters (passed_over e s w u)"
        by (rule loop_passes [OF assms(1,2) in_w Cons.prems(3) w listed False])
      note over = passed_over_waiters [OF w, of e s, folded u'(3,4)]
      have p: "pending ws u'"
      proof -
        have "cw_id v \<noteq> cw_id w" if "v \<in> set ws" for v using new that by (metis image_eqI)
        then show ?thesis using Cons.prems(2) by (simp add: pending_def over(2))
      qed
      have active: "sd_active u' = sd_active u" using Cons.prems(3) u'(2) by (simp add: same_verdicts_def)
      obtain granted t where t: "fulfill_loop e i ws u' = (granted \<noteq> [], t)" "served_in_order e i s ws u' granted t"
        using Cons.IH [OF _ p u'(2)] Cons.prems(1) by auto
      have "served_in_order e i s (w # ws) u granted t"
        by (rule served_later [OF listed False new w u'(3,4) active t(2)])
      with t(1) u'(1) show ?thesis by auto
    qed
  qed
qed

end
