(* ===== verification/Queue_Properties.thy ===== *)
theory Queue_Properties
  imports Waiter_Order Session_Properties
begin

text \<open>
  The slots in use are the leases that are out. A run of the scheduler is followed together with the
  number of leases handed out per account and not released yet: returned by a call, or given to a
  waiting request in the settlement log. The full reset \<^verbatim>\<open>clear\<close> is left out of these runs, because
  it drops the slots of leases that are still out.
  The properties of leases and of the waiting requests follow.
\<close>

definition handed ::
  "lease option \<Rightarrow> scheduler \<Rightarrow> scheduler \<Rightarrow> (string \<Rightarrow> int) \<Rightarrow> (string \<Rightarrow> int)" where
  "handed l s t out = (\<lambda>j. out j + int (grants j t) - int (grants j s)
     + (case l of None \<Rightarrow> 0 | Some x \<Rightarrow> if ls_accountId x = j then 1 else 0))"

definition lease_of :: "scheduler_error + selection \<Rightarrow> lease option" where
  "lease_of r = (case r of Inl err \<Rightarrow> None | Inr sel \<Rightarrow> Some (sel_lease sel))"

definition lease_of_wait :: "wait_outcome \<Rightarrow> lease option" where
  "lease_of_wait r = (case r of Settled q \<Rightarrow> lease_of q | Waiting k \<Rightarrow> None)"

definition lease_of_try :: "scheduler_error + lease option \<Rightarrow> lease option" where
  "lease_of_try r = (case r of Inl err \<Rightarrow> None | Inr l \<Rightarrow> l)"

inductive lease_step ::
    "account set \<Rightarrow> scheduler \<times> (string \<Rightarrow> int) \<Rightarrow> scheduler \<times> (string \<Rightarrow> int) \<Rightarrow> bool" for A where
  Select: "draws_ok e \<Longrightarrow> input_ok A i \<Longrightarrow> selectAndAcquire e i s = (r, t) \<Longrightarrow>
     lease_step A (s, out) (t, handed (lease_of r) s t out)"
| Wait: "draws_ok e \<Longrightarrow> input_ok A i \<Longrightarrow>
     selectAndAcquireWhenAvailable e i sig deadline limit s = (w, t) \<Longrightarrow>
     lease_step A (s, out) (t, handed (lease_of_wait w) s t out)"
| Try_Acquire: "a \<in> A \<Longrightarrow> tryAcquireAccount e a p s = (l, t) \<Longrightarrow>
     lease_step A (s, out) (t, handed (lease_of_try l) s t out)"
| Release: "draws_ok e \<Longrightarrow> \<not> ls_released l \<Longrightarrow> 0 < out (ls_accountId l) \<Longrightarrow> release e l s = (l', t) \<Longrightarrow>
     lease_step A (s, out)
       (t, (handed None s t out)(ls_accountId l := handed None s t out (ls_accountId l) - 1))"
| Release_Again: "ls_released l \<Longrightarrow> lease_step A (s, out) (snd (release e l s), out)"
| Timeout: "w \<in> snd ` set (sd_waiters s) \<Longrightarrow> lease_step A (s, out) (waiterTimeout w s, handed None s (waiterTimeout w s) out)"
| Abort: "lease_step A (s, out) (signalAborted sig s, handed None s (signalAborted sig s) out)"
| Failure: "schedulerRecordFailure e j opts s = (r, t) \<Longrightarrow> lease_step A (s, out) (t, handed None s t out)"
| Sticky_Failure: "schedulerRecordStickyFailure e p sid j s = (b, t) \<Longrightarrow>
     lease_step A (s, out) (t, handed None s t out)"
| Health: "lease_step A (s, out) (s\<lparr>sd_health := h\<rparr>, out)"
| Hydrate: "lease_step A (s, out) (hydrate e accounts pools s, out)"

definition lease_reachable :: "account set \<Rightarrow> scheduler_options \<Rightarrow> scheduler \<Rightarrow> (string \<Rightarrow> int) \<Rightarrow> bool" where
  "lease_reachable A opts s out \<longleftrightarrow> (lease_step A)\<^sup>*\<^sup>* (new_scheduler opts, \<lambda>j. 0) (s, out)"

text \<open>These runs are runs of the scheduler.\<close>

lemma lease_step_sched:
  assumes "lease_step A x y" and "sched_reachable A opts (fst x)"
  shows "sched_reachable A opts (fst y)"
proof -
  have "(sched_step A)\<^sup>*\<^sup>* (fst x) (fst y)"
    using assms(1)
  proof cases
    case (Select e i s r t out)
    then show ?thesis using sched_step.Select [of e A i s] by (metis fst_conv r_into_rtranclp snd_conv)
  next
    case (Wait e i sig deadline limit s w t out)
    then show ?thesis
      using sched_step.Wait [of e A i s sig deadline limit] by (metis fst_conv r_into_rtranclp snd_conv)
  next
    case (Try_Acquire a e p s l t out)
    then show ?thesis using sched_step.Try_Acquire [of a A s e p] by (metis fst_conv r_into_rtranclp snd_conv)
  next
    case (Release e l out s l' t)
    then show ?thesis using sched_step.Release [of e A s l] by (metis fst_conv r_into_rtranclp snd_conv)
  next
    case (Release_Again l s out e)
    then show ?thesis by (simp add: release_def)
  next
    case (Timeout w s out)
    then show ?thesis using sched_step.Timeout [of w s A] by auto
  next
    case (Abort s out sig)
    then show ?thesis using sched_step.Abort [of A s sig] by auto
  next
    case (Failure e j opts s r t out)
    then show ?thesis using sched_step.Failure [of A s e j opts] by (metis fst_conv r_into_rtranclp snd_conv)
  next
    case (Sticky_Failure e p sid j s b t out)
    then show ?thesis
      using sched_step.Sticky_Failure [of A s e p sid j] by (metis fst_conv r_into_rtranclp snd_conv)
  next
    case (Health s out h)
    then show ?thesis using sched_step.Health [of A s h] by auto
  next
    case (Hydrate s out e accounts pools)
    then show ?thesis using sched_step.Hydrate [of A s e accounts pools] by auto
  qed
  with assms(2) show ?thesis unfolding sched_reachable_def by (rule rtranclp_trans)
qed

lemma slot_balance_reject_all: "slot_balance j (reject_all err ws s) = slot_balance j s"
proof -
  have "slot_balance j (rejectCapacityWaiter w e s) = slot_balance j s" for w e s
    by (simp add: rejectCapacityWaiter_eq slot_balance_conclude granted_to_def)
  then show ?thesis by (induction ws arbitrary: s) (simp_all add: reject_all_def)
qed

lemma slot_balance_timeout: "slot_balance j (waiterTimeout w s) = slot_balance j s"
  by (simp add: waiterTimeout_def rejectCapacityWaiter_eq slot_balance_conclude granted_to_def)

lemma slot_balance_try:
  assumes "tryAcquireAccount e a p s = (r, t)"
  shows "slot_balance j t = slot_balance j s +
    (case lease_of_try r of None \<Rightarrow> 0 | Some x \<Rightarrow> if ls_accountId x = j then 1 else 0)"
proof (rule tryAcquire_cases [of e a p s])
  fix h assume "snd (tryAcquireAccount e a p s) = s\<lparr>sd_health := h\<rparr>"
    and "\<nexists>l. fst (tryAcquireAccount e a p s) = Inr (Some l)"
  then show ?thesis using assms slot_balance_cong [of t s j]
    by (auto simp: lease_of_try_def split: sum.split option.split)
next
  fix h b
  assume "tryAcquireAccount e a p s =
      (Inr (Some \<lparr>ls_stickyKey = None, ls_accountId = acc_id a, ls_released = False\<rparr>),
       acquireAccountSlot (acc_id a) (s\<lparr>sd_health := h\<rparr>))"
  then show ?thesis
    using assms by (auto simp: lease_of_try_def slot_balance_def grants_def active_slots_def acquireAccountSlot_def)
qed

text \<open>The invariant: the slots taken on an account are its leases.\<close>

lemma lease_step_counts:
  assumes "lease_step A x y" and "queue_ok A (fst x)"
    and "\<And>j. int (active_slots (fst x) j) = snd x j"
  shows "int (active_slots (fst y) j) = snd y j"
proof -
  have settle: "int (active_slots t j) = handed l s t out j"
    if "slot_balance j t = slot_balance j s + (case l of None \<Rightarrow> 0 | Some x \<Rightarrow> if ls_accountId x = j then 1 else 0)"
      "int (active_slots s j) = out j" for l s t out
    using that by (simp add: slot_balance_def handed_def)
  show ?thesis
    using assms
  proof cases
    case (Select e i s r t out)
    have ids: "distinct (map acc_id (in_accounts i))" using Select(4) by (simp add: input_ok_def)
    show ?thesis
      using slot_balance_failed [OF Select(3) ids, where s = s and t = t and j = j]
        slot_balance_selected(1) [OF Select(3) ids, where s = s and t = t and j = j]
        Select assms(3) by (cases r) (auto simp: lease_of_def intro!: settle)
  next
    case (Wait e i sig deadline limit s w t out)
    then show ?thesis
      using slot_balance_wait [OF Wait(3,4) _ Wait(5), where j = j] assms(2,3)
      by (auto simp: lease_of_wait_def lease_of_def intro!: settle split: wait_outcome.splits sum.splits)
  next
    case (Try_Acquire a e p s l t out)
    then show ?thesis using slot_balance_try [OF Try_Acquire(4), where j = j] assms(3) by (auto intro!: settle)
  next
    case (Release e l out s l' t)
    then have "0 < active_slots s (ls_accountId l)" using assms(3) [of "ls_accountId l"] by simp
    then show ?thesis
      using slot_balance_release [OF Release(3) _ Release(4), where A = A and s = s and j = j] Release assms(2) assms(3) [of j]
      by (auto simp: slot_balance_def handed_def)
  next
    case (Release_Again l s out e)
    then show ?thesis using assms(3) by (simp add: release_def)
  next
    case (Timeout w s out)
    then show ?thesis using assms(3) slot_balance_timeout [of j w s] by (auto intro!: settle)
  next
    case (Abort s out sig)
    then show ?thesis
      using assms(3) slot_balance_reject_all by (auto simp: signalAborted_eq intro!: settle)
  next
    case (Failure e k opts s r t out)
    then show ?thesis using assms(3) slot_balance_cong [of t s j]
      by (auto simp: schedulerRecordFailure_def split_beta intro!: settle)
  next
    case (Sticky_Failure e p sid k s b t out)
    then show ?thesis using assms(3) slot_balance_cong [of t s j]
      by (auto simp: schedulerRecordStickyFailure_def split_beta intro!: settle)
  next
    case (Health s out h)
    then show ?thesis using assms(3) by (simp add: active_slots_def)
  next
    case (Hydrate s out e accounts pools)
    then show ?thesis
      using assms(3) [of j] active_slots_cong [of "hydrate e accounts pools s" s]
      by (simp add: hydrate_def Let_def split: option.splits)
  qed
qed

lemma lease_reachable_inv:
  assumes "lease_reachable A opts s out"
  shows "sched_reachable A opts s" and "int (active_slots s j) = out j"
proof -
  have "sched_reachable A opts (fst y) \<and> (\<forall>j. int (active_slots (fst y) j) = snd y j)"
    if "(lease_step A)\<^sup>*\<^sup>* (new_scheduler opts, \<lambda>j. 0) y" for y
    using that
  proof (induction rule: rtranclp_induct)
    case base
    show ?case
      by (simp add: sched_reachable_def active_slots_def new_scheduler_def Let_def)
  next
    case (step y z)
    then have "sched_reachable A opts (fst z)" using lease_step_sched by blast
    moreover have "queue_ok A (fst y)"
      using queue.reachable_holds step.IH by (auto simp: queue.holds_def)
    ultimately show ?case using lease_step_counts [OF step.hyps(2)] step.IH by blast
  qed
  from this [of "(s, out)"] assms show "sched_reachable A opts s" "int (active_slots s j) = out j"
    by (simp_all add: lease_reachable_def)
qed

section \<open>Properties of the queue\<close>

text \<open>
  The properties of leases and of the requests waiting for capacity: slots are leases, a freed slot
  serves the first waiting request that can use it and only that one, and an abort or the full reset
  settles every waiter it concerns.
\<close>

section \<open>Leases\<close>

lemma sample_lease_step:
  assumes "selectAndAcquire sample_env (sample_input strategy session [account_a, account_b]) fresh_scheduler = (Inr sel, t)"
  shows "lease_reachable sample_set sample_options t (handed (Some (sel_lease sel)) fresh_scheduler t (\<lambda>j. 0))"
  using lease_step.Select [OF sample_draws sample_input_ok assms, of "\<lambda>j. 0"]
  by (auto simp: lease_reachable_def lease_of_def)

text \<open>
  C19. The slots taken on an account are exactly its leases that are out: those returned by a call or
  given to a waiting request and not released yet, in every run of selections, waits, releases
  (repeated ones change nothing), timeouts, aborts, outcomes and configuration changes. The full reset
  \<^verbatim>\<open>clear\<close> is not among these steps; it forgets the slots of leases that are out. So the number
  of leases out never exceeds the account's configured limit, and when all are released no slot
  is left taken.
\<close>

theorem slots_are_leases:
  assumes "lease_reachable A opts s out"
  shows "int (active_slots s j) = out j
    \<and> (if inj_on acc_id A \<and> a \<in> A \<and> acc_id a = j
       then real_of_int (out j) \<le> routeAccountConcurrencyLimit (acc_maxConcurrency a) else True)"
proof -
  have "within_limits A s" if "inj_on acc_id A"
    using limits.reachable_holds [OF lease_reachable_inv(1) [OF assms]] that
    by (simp add: limits.holds_def limits_kept_def)
  then show ?thesis
    using lease_reachable_inv(2) [OF assms, of j]
    by (auto simp: within_limits_def slot_limit_def dest: sym)
qed

theorem slots_are_leases_witness:
  "\<exists>s out. lease_reachable sample_set sample_options s out \<and> int (active_slots s ''a'') = out ''a''
    \<and> out ''a'' + out ''b'' = 1"
proof -
  let ?i = "sample_input Balanced None [account_a, account_b]"
  obtain sel t where sel: "selectAndAcquire sample_env ?i fresh_scheduler = (Inr sel, t)"
    using sample_selects [of fresh_scheduler Balanced None] by (auto simp: isSupportedPoolStrategy_def)
  let ?out = "handed (Some (sel_lease sel)) fresh_scheduler t (\<lambda>j. 0)"
  have "active_slots t ''a'' + active_slots t ''b'' = 1"
  proof (rule selectAndAcquire_cases [OF sample_draws sample_ids, where s = fresh_scheduler])
    fix a u
    assume "a \<in> set (runnable_tier sample_env ?i fresh_scheduler)" and "selection_frame fresh_scheduler u"
      and "selectAndAcquire sample_env ?i fresh_scheduler = committed sample_env ?i a u"
    moreover from this have "a \<in> sample_set" using sample_tier [of fresh_scheduler Balanced None] by simp
    ultimately show ?thesis
      using sel by (auto simp: committed_def selection_frame_def active_slots_def new_scheduler_def Let_def)
  qed (use sel in simp)
  with sample_lease_step [OF sel] slots_are_leases [OF sample_lease_step [OF sel], of "''a''" account_a]
    slots_are_leases [OF sample_lease_step [OF sel], of "''b''" account_b]
  show ?thesis by (metis of_nat_1 of_nat_add)
qed

section \<open>Serving the waiting requests\<close>

text \<open>
  C34. When a slot of an account is freed, the requests that wait for the account are served in the
  order of the queue. The one served is the first that is not aborted, not past its deadline, of a pool
  with a known strategy whose model is exposed, and for which a member of the pool can run now; it gets
  such a member, exactly one slot of it is taken, and it leaves the queue. No request behind it is
  touched. One before it is refused with the error of its case and leaves the queue, or, when accounts
  that could serve it are only busy, waits on in its place for exactly those. If no request can be
  served, no slot is taken. All of this is decided in the state in which the slot became free.
\<close>

theorem first_waiter_served:
  assumes "queue_ok A s" and "inj_on acc_id A" and "draws_ok e"
  shows "let listed = filter (\<lambda>w. i \<in> set (cw_accountIds w)) (map snd (sd_waiters s));
      before = takeWhile (\<lambda>w. \<not> servable e s w) listed;
      refused = refusal_log e s before;
      (served, t) = fulfillOneCapacityWaiter e i s
    in \<exists>granted. served = (granted \<noteq> []) \<and> sd_settled t = sd_settled s @ refused @ granted
      \<and> (case find (servable e s) listed of
           None \<Rightarrow> granted = [] \<and> sd_active t = sd_active s
         | Some w \<Rightarrow> (\<exists>sel. granted = [(cw_id w, Inr sel)] \<and> sel_account sel \<in> set (runnable_tier e (cw_input w) s)
             \<and> (\<forall>j. active_slots t j = active_slots s j + (if j = acc_id (sel_account sel) then 1 else 0))))
      \<and> map_keys (sd_waiters t) = filter (\<lambda>k. k \<notin> set (map fst (refused @ granted))) (map_keys (sd_waiters s))
      \<and> (\<forall>k \<in> set (map_keys (sd_waiters t)). map_get (sd_waiters t) k =
           (case find (\<lambda>w. cw_id w = k) before of
              None \<Rightarrow> map_get (sd_waiters s) k
            | Some w \<Rightarrow> Some (w\<lparr>cw_accountIds := busy_accounts e (cw_input w) s\<rparr>)))"
proof -
  have "\<forall>w \<in> set (map snd (sd_waiters s)). input_ok A (cw_input w)" and "pending (map snd (sd_waiters s)) s"
    using assms(1) pending_snapshot by (simp_all add: queue_ok_def queued_ok_def)
  from loop_outcome [OF assms(3,2) this verdicts_refl, of i]
  obtain granted t where t: "fulfillOneCapacityWaiter e i s = (granted \<noteq> [], t)"
    and served: "served_in_order e i s (map snd (sd_waiters s)) s granted t"
    unfolding fulfillOneCapacityWaiter_def by blast
  show ?thesis
    unfolding t Let_def prod.case
    by (rule exI [of _ granted], rule conjI [OF refl]) (rule served [unfolded served_in_order_def Let_def])
qed

text \<open>Two waiting requests, the first past its deadline.\<close>

definition sample_waiter :: "nat \<Rightarrow> real \<Rightarrow> capacity_waiter" where
  "sample_waiter k deadline = \<lparr>cw_id = k, cw_input = sample_input Balanced None [account_a, account_b],
     cw_accountIds = [''a'', ''b''], cw_poolId = ''q'', cw_deadlineAt = deadline, cw_signal = None,
     cw_timeoutMs = 4000, cw_originalIds = [''a'', ''b'']\<rparr>"

definition waiting_scheduler :: scheduler where
  "waiting_scheduler = fresh_scheduler\<lparr>sd_waiters := [(1, sample_waiter 1 500), (2, sample_waiter 2 5000)],
     sd_waiterCounts := [''q'' \<mapsto> 2], sd_nextWaiterId := 3\<rparr>"

lemma waiting_idle: "idle j waiting_scheduler"
  using fresh_idle [of j] by (simp add: idle_def waiting_scheduler_def)

lemma waiting_ok: "queue_ok sample_set waiting_scheduler"
proof -
  have "waiters_of p (sd_waiters waiting_scheduler) = (if p = ''q'' then 2 else 0)" for p
    by (simp add: waiters_of_def waiting_scheduler_def sample_waiter_def)
  moreover have "2 \<le> sd_maxPending waiting_scheduler" "2 \<le> sd_maxPendingPerPool waiting_scheduler"
    "{Suc 0..<3} = {1, 2}"
    by (auto simp: waiting_scheduler_def new_scheduler_def sample_options_def Let_def positiveBound_def)
  ultimately show ?thesis
    using sample_input_ok [of Balanced None]
    by (auto simp: queue_ok_def queued_ok_def waiters_ok_def map_wf_def)
      (auto simp: waiting_scheduler_def sample_waiter_def new_scheduler_def Let_def)
qed

lemma waiting_servable: "servable sample_env waiting_scheduler (sample_waiter k deadline) \<longleftrightarrow> 1000 < deadline"
  using sample_tier [OF waiting_idle waiting_idle, of Balanced None] sample_exposed [of Balanced None]
  by (simp add: servable_def sample_waiter_def waiter_aborted_def isSupportedPoolStrategy_def)
    (simp add: sample_env_def sample_input_def sample_pool_def)

theorem first_waiter_served_witness:
  "\<exists>sel. fst (fulfillOneCapacityWaiter sample_env ''b'' waiting_scheduler)
    \<and> sd_settled (snd (fulfillOneCapacityWaiter sample_env ''b'' waiting_scheduler)) =
        [(1, Inl (No_Eligible_Account [''a'', ''b''] wait_deadline_message)), (2, Inr sel)]
    \<and> map_keys (sd_waiters (snd (fulfillOneCapacityWaiter sample_env ''b'' waiting_scheduler))) = []"
proof -
  have w: "map snd (sd_waiters waiting_scheduler) = [sample_waiter 1 500, sample_waiter 2 5000]"
    "sd_settled waiting_scheduler = []" "map_keys (sd_waiters waiting_scheduler) = [1, 2]"
    by (simp_all add: waiting_scheduler_def new_scheduler_def Let_def)
  have listed: "filter (\<lambda>w. ''b'' \<in> set (cw_accountIds w)) [sample_waiter 1 500, sample_waiter 2 5000]
      = [sample_waiter 1 500, sample_waiter 2 5000]"
    "cw_id (sample_waiter k d) = k" for k d by (simp_all add: sample_waiter_def)
  have log: "refusal_log sample_env waiting_scheduler [sample_waiter 1 500]
      = [(1, Inl (No_Eligible_Account [''a'', ''b''] wait_deadline_message))]"
    by (simp add: refusal_log_def refusal_def waiter_aborted_def sample_waiter_def sample_env_def)
  show ?thesis
    using first_waiter_served [OF waiting_ok sample_inj sample_draws, of "''b''"]
    unfolding Let_def w listed(1) by (auto simp: waiting_servable listed(2) log [unfolded One_nat_def] split_beta)
qed

lemma settled_reject_all:
  "pending ws s \<Longrightarrow> sd_settled (reject_all err ws s) = sd_settled s @ map (\<lambda>w. (cw_id w, Inl (err w))) ws"
proof (induction ws arbitrary: s)
  case Nil
  then show ?case by (simp add: reject_all_def)
next
  case (Cons w ws)
  have "rejectCapacityWaiter w (err w) s = conclude w (Inl (err w)) s"
    using Cons.prems by (simp add: rejectCapacityWaiter_eq pending_def)
  moreover have "pending ws (conclude w (Inl (err w)) s)"
  proof -
    have d: "distinct (map cw_id (w # ws))"
      and g: "\<forall>v \<in> set (w # ws). map_get (sd_waiters s) (cw_id v) = Some v"
      using Cons.prems unfolding pending_def by blast+
    have "cw_id v \<noteq> cw_id w" if "v \<in> set ws" for v
      using d that by (metis distinct.simps(2) image_eqI list.simps(9) set_map)
    then show ?thesis using d g unfolding pending_def by simp
  qed
  ultimately show ?case using Cons.IH by (simp add: reject_all_def)
qed

lemma signal_keys:
  assumes "waiters_ok s"
  shows "filter (\<lambda>k. k \<notin> cw_id ` set (filter (\<lambda>w. cw_signal w = Some g) (map snd (sd_waiters s)))) (map_keys (sd_waiters s))
    = map_keys (filter (\<lambda>(k, w). cw_signal w \<noteq> Some g) (sd_waiters s))"
proof -
  let ?m = "sd_waiters s"
  have wf: "distinct (map fst ?m)" using waiters_okD(1) [OF assms] by (simp add: map_wf_def)
  have id: "cw_id (snd x) = fst x" if "x \<in> set ?m" for x
    using waiters_okD(2) [OF assms, of "fst x" "snd x"] that by simp
  have "fst x \<in> cw_id ` set (filter (\<lambda>w. cw_signal w = Some g) (map snd ?m)) \<longleftrightarrow> cw_signal (snd x) = Some g"
    if x: "x \<in> set ?m" for x
  proof
    assume "fst x \<in> cw_id ` set (filter (\<lambda>w. cw_signal w = Some g) (map snd ?m))"
    then obtain y where y: "y \<in> set ?m" "cw_signal (snd y) = Some g" "fst x = cw_id (snd y)" by auto
    then have "fst x = fst y" using id by simp
    then have "x = y" using eq_key_imp_eq_value [OF wf] x y(1) by (metis prod.collapse)
    with y(2) show "cw_signal (snd x) = Some g" by simp
  next
    assume "cw_signal (snd x) = Some g"
    then show "fst x \<in> cw_id ` set (filter (\<lambda>w. cw_signal w = Some g) (map snd ?m))"
      using x id [OF x] by (intro image_eqI [of _ _ "snd x"]) simp_all
  qed
  then show ?thesis
    by (simp add: filter_map split_beta comp_def cong: filter_cong)
qed

text \<open>
  Releasing a lease gives the freed slot to at most one waiting request: in every reachable
  state, what a release adds to the settlements is some refusals, of waiters whose request was
  aborted, is too late or can no longer be satisfied, followed by at most one grant.
\<close>

theorem one_grant_per_release:
  assumes "sched_reachable A opts s" and "draws_ok e"
  shows "\<exists>refused granted. sd_settled (snd (release e l s)) = sd_settled s @ refused @ granted
    \<and> list_all (\<lambda>(k, r). isl r) refused \<and> list_all (\<lambda>(k, r). \<not> isl r) granted \<and> length granted \<le> 1"
proof (cases "ls_released l")
  case True
  then show ?thesis by (simp add: release_def)
next
  case False
  define s1 where "s1 = (case ls_stickyKey l of None \<Rightarrow> s
    | Some key \<Rightarrow> s\<lparr>sd_sessions := releaseActiveStickySession key (ls_accountId l) (sd_sessions s)\<rparr>)"
  have "queue_same s (free_slot (ls_accountId l) s1)"
    by (simp add: s1_def queue_same_def free_slot_def Let_def split: option.split)
  moreover have "queue_ok A s" using queue.reachable_holds [OF assms(1)] by (simp add: queue.holds_def)
  ultimately have "queue_ok A (free_slot (ls_accountId l) s1)"
      and log: "sd_settled (free_slot (ls_accountId l) s1) = sd_settled s"
    by (simp_all add: queue_ok_same) (simp add: queue_same_def)
  from fulfillOne_settlements [OF assms(2) this(1), of "ls_accountId l"]
  obtain rs gs where log': "sd_settled (snd (fulfillOneCapacityWaiter e (ls_accountId l) (free_slot (ls_accountId l) s1)))
        = sd_settled s @ rs @ gs" and "refusals rs" and g: "(\<exists>k sel. gs = [(k, Inr sel)]) \<or> gs = []"
    unfolding log by (auto split: if_splits)
  moreover have "snd (release e l s) =
      snd (fulfillOneCapacityWaiter e (ls_accountId l) (free_slot (ls_accountId l) s1))"
    using False by (simp add: release_def releaseAccountSlot_eq s1_def Let_def)
  ultimately show ?thesis by (intro exI [of _ rs] exI [of _ gs]) (auto simp: refusals_def list_all_iff)
qed

theorem one_grant_per_release_witness:
  "\<exists>granted. sd_settled (snd (release sample_env \<lparr>ls_stickyKey = None, ls_accountId = ''a'', ls_released = False\<rparr>
      fresh_scheduler)) = granted \<and> length granted \<le> 1"
proof -
  let ?t = "snd (release sample_env \<lparr>ls_stickyKey = None, ls_accountId = ''a'', ls_released = False\<rparr> fresh_scheduler)"
  have "sched_reachable sample_set sample_options fresh_scheduler" by (simp add: sched_reachable_def)
  from one_grant_per_release [OF this sample_draws]
  obtain rs gs where "sd_settled ?t = sd_settled fresh_scheduler @ rs @ gs" "length gs \<le> 1"
    by blast
  moreover have "sd_settled ?t = []"
    by (simp add: release_def releaseAccountSlot_def fulfillOneCapacityWaiter_def new_scheduler_def Let_def)
  ultimately show ?thesis by simp
qed

text \<open>
  C35. An abort and the full reset settle exactly the waiters they concern: in every reachable
  state an aborted signal refuses, in queue order, the waiters registered with that signal and keeps
  all others waiting; the reset refuses every waiter, naming the accounts it waited for, and leaves
  an empty queue.
\<close>

theorem aborts_and_resets_settle:
  assumes "sched_reachable A opts s"
  shows "sd_settled (signalAborted g s) = sd_settled s @
        map (\<lambda>w. (cw_id w, Inl Wait_Aborted)) (filter (\<lambda>w. cw_signal w = Some g) (map snd (sd_waiters s)))
    \<and> map_keys (sd_waiters (signalAborted g s)) =
        map_keys (filter (\<lambda>(k, w). cw_signal w \<noteq> Some g) (sd_waiters s))
    \<and> sd_settled (clear s) = sd_settled s @
        map (\<lambda>w. (cw_id w, Inl (No_Eligible_Account (cw_accountIds w) reset_message))) (map snd (sd_waiters s))
    \<and> sd_waiters (clear s) = []"
proof -
  have ok: "waiters_ok s"
    using queue.reachable_holds [OF assms] by (simp add: queue.holds_def queue_ok_def)
  have all: "pending (map snd (sd_waiters s)) s" by (rule pending_snapshot [OF ok])
  let ?ws = "filter (\<lambda>w. cw_signal w = Some g) (map snd (sd_waiters s))"
  have some: "pending ?ws s" by (rule pending_filter [OF all])
  have "map_keys (sd_waiters (signalAborted g s)) =
      filter (\<lambda>k. k \<notin> cw_id ` set ?ws) (map_keys (sd_waiters s))"
    unfolding signalAborted_eq by (rule conjunct2 [OF reject_all_rule [OF _ some]]) (rule TrueI)+
  also have "\<dots> = map_keys (filter (\<lambda>(k, w). cw_signal w \<noteq> Some g) (sd_waiters s))"
    by (rule signal_keys [OF ok])
  finally show ?thesis
    using settled_reject_all [OF some] settled_reject_all [OF all] clear_waiters(1) [OF ok]
    by (simp add: signalAborted_eq clear_eq reset_slots_def)
qed

theorem aborts_and_resets_settle_witness:
  "sd_settled (clear fresh_scheduler) = [] \<and> sd_waiters (clear fresh_scheduler) = []"
proof -
  have "sched_reachable sample_set sample_options fresh_scheduler" by (simp add: sched_reachable_def)
  from aborts_and_resets_settle [OF this] show ?thesis by (simp add: new_scheduler_def Let_def)
qed

section \<open>Leases across a reset\<close>

text \<open>
  The reset does not tell the leases that are out: a lease taken before \<^verbatim>\<open>clear\<close> and released
  after it gives back a slot of its account that may belong to a newer lease. On the sample pool,
  after a reset and a new selection, releasing a lease from before the reset leaves the account of
  the new selection with no slot taken, although its lease is out.
\<close>

theorem stale_lease_frees_newer_slot:
  "\<exists>sel t. selectAndAcquire sample_env (sample_input Balanced None [account_a, account_b]) (clear fresh_scheduler) = (Inr sel, t)
    \<and> \<not> ls_released (sel_lease sel) \<and> active_slots t (acc_id (sel_account sel)) = 1
    \<and> active_slots (snd (release sample_env
          \<lparr>ls_stickyKey = None, ls_accountId = acc_id (sel_account sel), ls_released = False\<rparr> t))
        (acc_id (sel_account sel)) = 0"
proof -
  let ?s = "clear fresh_scheduler" and ?i = "sample_input Balanced None [account_a, account_b]"
  have idle: "idle j ?s" for j
    by (simp add: idle_def clear_def clear_health_def new_scheduler_def Let_def)
  have empty: "sd_waiters ?s = []" "active_slots ?s j = 0" for j
    by (simp_all add: clear_def new_scheduler_def active_slots_def Let_def)
  obtain sel t where sel: "selectAndAcquire sample_env ?i ?s = (Inr sel, t)"
    using sample_selects [OF idle idle, of Balanced None] by (auto simp: isSupportedPoolStrategy_def)
  have "\<not> ls_released (sel_lease sel) \<and> active_slots t (acc_id (sel_account sel)) = 1 \<and> sd_waiters t = []"
  proof (rule selectAndAcquire_cases [OF sample_draws sample_ids, where s = ?s])
    fix a u
    assume "a \<in> set (runnable_tier sample_env ?i ?s)" and "selection_frame ?s u"
      and "selectAndAcquire sample_env ?i ?s = committed sample_env ?i a u"
    then show ?thesis
      using sel empty by (auto simp: committed_def selection_frame_def active_slots_def Let_def)
  qed (use sel in simp)
  moreover from this have "active_slots (snd (release sample_env
      \<lparr>ls_stickyKey = None, ls_accountId = acc_id (sel_account sel), ls_released = False\<rparr> t)) (acc_id (sel_account sel)) = 0"
    using release_frees_any_slot [of "\<lparr>ls_stickyKey = None, ls_accountId = acc_id (sel_account sel), ls_released = False\<rparr>" t]
    by simp
  ultimately show ?thesis using sel by blast
qed

end
