(* ===== verification/Fairness_Proofs.thy ===== *)
theory Fairness_Proofs
  imports Selection_Proofs
begin

text \<open>
  Repeated picks of one pool at one instant over an unchanged candidate list: round robin
  visits every position once per turn, and smooth weighted round robin serves each candidate
  in proportion to its weight, never more than one request ahead of its share.
\<close>

primrec pick_run ::
  "env \<Rightarrow> pool \<Rightarrow> account list \<Rightarrow> account list \<Rightarrow> string option \<Rightarrow> nat \<Rightarrow> scheduler
   \<Rightarrow> (scheduler_error + account) list \<times> scheduler" where
  "pick_run e p candidates configured key 0 s = ([], s)"
| "pick_run e p candidates configured key (Suc n) s =
     (let (picked, s1) = pick_run e p candidates configured key n s;
          (r, s2) = pick e p candidates configured key s1
      in (picked @ [r], s2))"

lemma length_pick_run: "length (fst (pick_run e p candidates configured key n s)) = n"
  by (induction n) (auto split: prod.splits)

section \<open>Rotation\<close>

definition rotation_order :: "env \<Rightarrow> pool \<Rightarrow> account list \<Rightarrow> account list" where
  "rotation_order e p candidates =
     (if isRelayAggregate p then orderAggregateCandidates e (getAggregatePoolIndex e p) candidates
      else candidates)"

lemma rotation_order_subset: "set (rotation_order e p candidates) \<subseteq> set candidates"
  using orderAggregateCandidates_subset by (simp add: rotation_order_def)

lemma rotation_order_nonempty: "candidates \<noteq> [] \<Longrightarrow> rotation_order e p candidates \<noteq> []"
  using orderAggregateCandidates_nonempty by (simp add: rotation_order_def)

definition offset_of :: "scheduler \<Rightarrow> pool \<Rightarrow> nat" where
  "offset_of s p = (case sd_roundRobinOffsets s (pool_id p) of None \<Rightarrow> 0 | Some n \<Rightarrow> n)"

lemma pick_round_robin:
  "pool_strategy p = Round_Robin \<Longrightarrow>
   pick e p candidates configured key s =
     (Inr (rotation_order e p candidates ! (offset_of s p mod length (rotation_order e p candidates))),
      s\<lparr>sd_roundRobinOffsets := (sd_roundRobinOffsets s)
          (pool_id p \<mapsto> (offset_of s p + 1) mod length (rotation_order e p candidates))\<rparr>)"
  by (simp add: pick_def rotation_order_def offset_of_def Let_def)

lemma rotation_positions:
  fixes e candidates
  assumes "pool_strategy p = Round_Robin"
  defines "xs \<equiv> rotation_order e p candidates"
  shows "fst (pick_run e p candidates configured key n s)
      = map (\<lambda>i. Inr (xs ! ((offset_of s p + i) mod length xs))) [0..<n]
    \<and> offset_of (snd (pick_run e p candidates configured key n s)) p mod length xs
      = (offset_of s p + n) mod length xs"
proof (induction n)
  case 0
  then show ?case by simp
next
  case (Suc n)
  obtain picked s1 where run: "pick_run e p candidates configured key n s = (picked, s1)"
    by (cases "pick_run e p candidates configured key n s")
  have at: "offset_of s1 p mod length xs = (offset_of s p + n) mod length xs"
    and picked: "picked = map (\<lambda>i. Inr (xs ! ((offset_of s p + i) mod length xs))) [0..<n]"
    using Suc run by simp_all
  have "Suc (offset_of s1 p) mod length xs = Suc (offset_of s p + n) mod length xs"
    using at by (metis mod_Suc_eq)
  then show ?case
    by (simp add: run picked pick_round_robin [OF assms(1)] at flip: xs_def) (simp add: offset_of_def)
qed

lemma rotation_turn:
  assumes "0 < length (xs :: 'a list)"
  shows "mset (map (\<lambda>i. xs ! ((k + i) mod length xs)) [0..<length xs]) = mset xs"
proof -
  have "map (\<lambda>i. xs ! ((k + i) mod length xs)) [0..<length xs] = rotate k xs"
    by (rule nth_equalityI) (simp_all add: nth_rotate add.commute)
  moreover have "mset (rotate k xs) = mset xs"
    by (metis mset_append append_take_drop_id rotate_drop_take union_commute)
  ultimately show ?thesis by simp
qed

section \<open>One round of smooth weighted round robin\<close>

definition current_value :: "(string \<rightharpoonup> real) \<Rightarrow> account \<Rightarrow> real" where
  "current_value c a = (case c (acc_id a) of None \<Rightarrow> 0 | Some v \<Rightarrow> v)"

lemma smooth_fold:
  assumes "distinct (map acc_id xs)"
    and "foldl (smooth_step w) (tw, sel, c) xs = (tw', sel', c')"
  shows "tw' = tw + sum_list (map w xs)
    \<and> (\<forall>a \<in> set xs. c' (acc_id a) = Some (current_value c a + w a))
    \<and> (\<forall>i. i \<notin> acc_id ` set xs \<longrightarrow> c' i = c i)
    \<and> (sel' = sel \<or> (\<exists>a \<in> set xs. sel' = Some (a, current_value c a + w a)))
    \<and> (xs \<noteq> [] \<longrightarrow> sel' \<noteq> None)
    \<and> (\<forall>a v. sel' = Some (a, v) \<longrightarrow> (\<forall>x \<in> set xs. current_value c x + w x \<le> v)
          \<and> (\<forall>b u. sel = Some (b, u) \<longrightarrow> u \<le> v))"
  using assms
proof (induction xs arbitrary: tw sel c)
  case Nil
  then show ?case by simp
next
  case (Cons x xs)
  let ?v = "current_value c x + w x"
  define sel1 where "sel1 = (case sel of None \<Rightarrow> Some (x, ?v)
      | Some (b, best) \<Rightarrow> if ?v > best then Some (x, ?v) else sel)"
  define c1 where "c1 = c(acc_id x \<mapsto> ?v)"
  have step: "smooth_step w (tw, sel, c) x = (tw + w x, sel1, c1)"
    unfolding smooth_step_def Let_def sel1_def c1_def current_value_def prod.case ..
  have other: "current_value c1 a = current_value c a" if "a \<in> set xs" for a
    using Cons.prems(1) that by (auto simp: image_iff c1_def current_value_def)
  have d: "distinct (map acc_id xs)" and x: "acc_id x \<notin> acc_id ` set xs"
    using Cons.prems(1) by auto
  have "foldl (smooth_step w) (tw + w x, sel1, c1) xs = (tw', sel', c')"
    using Cons.prems(2) step by simp
  note ih = Cons.IH [OF d this]
  have head: "c1 (acc_id x) = Some ?v" by (simp add: c1_def)
  have weight: "tw' = tw + sum_list (map w (x # xs))" using ih by simp
  have stored: "\<forall>a \<in> set (x # xs). c' (acc_id a) = Some (current_value c a + w a)"
    using ih x other head by auto
  have kept: "\<forall>i. i \<notin> acc_id ` set (x # xs) \<longrightarrow> c' i = c i"
    using ih by (simp add: c1_def)
  have member: "sel' = sel \<or> (\<exists>a \<in> set (x # xs). sel' = Some (a, current_value c a + w a))"
  proof (cases "sel' = sel1")
    case True
    then show ?thesis by (auto simp: sel1_def split: option.splits if_splits)
  next
    case False
    then obtain a where "a \<in> set xs" "sel' = Some (a, current_value c1 a + w a)" using ih by blast
    then show ?thesis using other by auto
  qed
  have some: "sel' \<noteq> None"
    using ih by (cases xs) (auto simp: sel1_def split: option.splits)
  have greatest: "(\<forall>y \<in> set (x # xs). current_value c y + w y \<le> v) \<and> (\<forall>b u. sel = Some (b, u) \<longrightarrow> u \<le> v)"
    if v: "sel' = Some (a, v)" for a v
  proof -
    have "\<forall>y \<in> set xs. current_value c y + w y \<le> v"
      using ih v other by auto
    moreover have "?v \<le> v \<and> (\<forall>b u. sel = Some (b, u) \<longrightarrow> u \<le> v)"
      using ih v by (auto simp: sel1_def split: option.splits if_splits)
    ultimately show ?thesis by simp
  qed
  show ?case using weight stored kept member some greatest by blast
qed

lemma smooth_round_spec:
  assumes "distinct (map acc_id xs)" and "xs \<noteq> []" and "smooth_round w xs c = (r, c')"
  shows "\<exists>a \<in> set xs. r = Some a
    \<and> (\<forall>x \<in> set xs. current_value c x + w x \<le> current_value c a + w a)
    \<and> (\<forall>x \<in> set xs. current_value c' x =
          current_value c x + w x - (if acc_id x = acc_id a then sum_list (map w xs) else 0))"
proof -
  obtain tw sel c1 where f: "foldl (smooth_step w) (0, None, c) xs = (tw, sel, c1)"
    by (cases "foldl (smooth_step w) (0, None, c) xs") auto
  note spec = smooth_fold [OF assms(1) f]
  then obtain a where a: "a \<in> set xs" "sel = Some (a, current_value c a + w a)"
    using assms(2) by auto
  have "smooth_round w xs c = (Some a, c1(acc_id a \<mapsto> current_value c a + w a - tw))"
    using f a(2) by (simp add: smooth_round_def)
  moreover have "tw = sum_list (map w xs)" using spec by simp
  moreover have "current_value c1 x = current_value c x + w x" if "x \<in> set xs" for x
    using spec that by (simp add: current_value_def [of c1])
  moreover have "x = a" if "x \<in> set xs" "acc_id x = acc_id a" for x
    using assms(1) that a(1) by (meson distinct_map inj_onD)
  ultimately show ?thesis
    using spec a assms(3) by (intro bexI [of _ a]) (auto simp: current_value_def [of "c1(_ \<mapsto> _)"]
        current_value_def [of c1])
qed

lemma sum_single_id:
  fixes K :: real
  assumes "distinct (map acc_id xs)" and "a \<in> set xs"
  shows "sum_list (map (\<lambda>x. f x - (if acc_id x = acc_id a then K else 0)) xs) = sum_list (map f xs) - K"
  using assms
proof (induction xs)
  case Nil
  then show ?case by simp
next
  case (Cons y ys)
  have tail: "sum_list (map (\<lambda>x. f x - (if acc_id x = acc_id a then K else 0)) ys) = sum_list (map f ys)"
    if "acc_id a \<notin> acc_id ` set ys"
    using that by (intro arg_cong [of _ _ sum_list] map_cong) (force simp: image_iff)+
  show ?case
  proof (cases "acc_id y = acc_id a")
    case True
    with Cons.prems(1) tail show ?thesis by auto
  next
    case False
    with Cons show ?thesis by auto
  qed
qed

lemma exists_above_mean:
  fixes f :: "'a \<Rightarrow> real"
  assumes "0 < sum_list (map f xs)"
  shows "\<exists>x \<in> set xs. 0 < f x"
proof (rule ccontr)
  assume "\<not> ?thesis"
  then have "sum_list (map f xs) \<le> 0" by (intro sum_list_nonpos) (auto simp: not_less)
  with assms show False by simp
qed

section \<open>Many rounds\<close>

primrec smooth_picks ::
    "(account \<Rightarrow> real) \<Rightarrow> account list \<Rightarrow> nat \<Rightarrow> account list \<times> (string \<rightharpoonup> real)" where
  "smooth_picks w xs 0 = ([], Map.empty)"
| "smooth_picks w xs (Suc n) =
     (let (picked, c) = smooth_picks w xs n; (r, c') = smooth_round w xs c in (picked @ [the r], c'))"

definition smooth_ok ::
    "(account \<Rightarrow> real) \<Rightarrow> account list \<Rightarrow> account list \<Rightarrow> (string \<rightharpoonup> real) \<Rightarrow> bool" where
  "smooth_ok w xs picked c \<longleftrightarrow>
     set picked \<subseteq> set xs
     \<and> sum_list (map (current_value c) xs) = 0
     \<and> (\<forall>x \<in> set xs. - sum_list (map w xs) < current_value c x
          \<and> current_value c x
            = real (length picked) * w x - sum_list (map w xs) * real (count_list picked x))"

lemma smooth_ok_round:
  assumes xs: "distinct (map acc_id xs)" "xs \<noteq> []" "\<And>x. x \<in> set xs \<Longrightarrow> 0 \<le> w x"
    "0 < sum_list (map w xs)"
    and ok: "smooth_ok w xs picked c" and r: "smooth_round w xs c = (r, c')"
  shows "\<exists>a. r = Some a \<and> smooth_ok w xs (picked @ [a]) c'"
proof -
  let ?W = "sum_list (map w xs)"
  obtain a where a: "a \<in> set xs" "r = Some a"
    and best: "\<And>x. x \<in> set xs \<Longrightarrow> current_value c x + w x \<le> current_value c a + w a"
    and new: "\<And>x. x \<in> set xs \<Longrightarrow> current_value c' x =
      current_value c x + w x - (if acc_id x = acc_id a then ?W else 0)"
    using smooth_round_spec [OF xs(1,2) r] by blast
  have same: "acc_id x = acc_id a \<longleftrightarrow> x = a" if "x \<in> set xs" for x
    using xs(1) that a(1) by (meson distinct_map inj_onD)
  have grown: "sum_list (map (\<lambda>x. current_value c x + w x) xs) = ?W"
    using ok by (simp add: smooth_ok_def sum_list_addf)
  have "sum_list (map (current_value c') xs)
      = sum_list (map (\<lambda>x. current_value c x + w x - (if acc_id x = acc_id a then ?W else 0)) xs)"
    using new by (intro arg_cong [of _ _ sum_list] map_cong) auto
  then have zero: "sum_list (map (current_value c') xs) = 0"
    using sum_single_id [OF xs(1) a(1), of "\<lambda>x. current_value c x + w x" ?W] grown by simp
  have "0 < current_value c a + w a"
    using exists_above_mean [of "\<lambda>x. current_value c x + w x" xs] grown xs(4) best by fastforce
  then have above: "- ?W < current_value c' x" if "x \<in> set xs" for x
    using that new [OF that] same [OF that] ok xs(3) [OF that]
    by (auto simp: smooth_ok_def)
  have closed: "current_value c' x =
      real (length (picked @ [a])) * w x - ?W * real (count_list (picked @ [a]) x)" if "x \<in> set xs" for x
    using that new [OF that] same [OF that] ok by (auto simp: smooth_ok_def algebra_simps)
  show ?thesis
    using a zero above closed ok by (auto simp: smooth_ok_def)
qed

lemma current_empty: "current_value Map.empty a = 0"
  by (simp add: current_value_def)

lemma sum_current_empty: "sum_list (map (current_value Map.empty) xs) = 0"
  by (induction xs) (simp_all add: current_empty)

lemma sum_list_real: "sum_list (map (\<lambda>x. real (k x)) xs) = real (sum_list (map k xs))"
  by (induction xs) simp_all

lemma smooth_picks_ok:
  assumes "distinct (map acc_id xs)" "xs \<noteq> []" "\<And>x. x \<in> set xs \<Longrightarrow> 0 \<le> w x"
    "0 < sum_list (map w xs)"
  shows "smooth_ok w xs (fst (smooth_picks w xs n)) (snd (smooth_picks w xs n))
    \<and> length (fst (smooth_picks w xs n)) = n"
proof (induction n)
  case 0
  with assms(4) show ?case by (simp add: smooth_ok_def sum_current_empty current_empty)
next
  case (Suc n)
  obtain picked c where p: "smooth_picks w xs n = (picked, c)" by (cases "smooth_picks w xs n")
  obtain r c' where r: "smooth_round w xs c = (r, c')" by (cases "smooth_round w xs c")
  have "smooth_ok w xs picked c" using Suc p by simp
  from smooth_ok_round [OF assms this r] Suc show ?case by (auto simp: p r)
qed

text \<open>No candidate is ever more than one request ahead of its share.\<close>

lemma smooth_picks_ahead:
  assumes "distinct (map acc_id xs)" "xs \<noteq> []" "\<And>x. x \<in> set xs \<Longrightarrow> 0 \<le> w x"
    "0 < sum_list (map w xs)" "a \<in> set xs"
  shows "real (count_list (fst (smooth_picks w xs n)) a) < real n * w a / sum_list (map w xs) + 1"
proof -
  have "- sum_list (map w xs)
      < real n * w a - sum_list (map w xs) * real (count_list (fst (smooth_picks w xs n)) a)"
    using smooth_picks_ok [OF assms(1-4), of n] assms(5) by (auto simp: smooth_ok_def)
  then have "real (count_list (fst (smooth_picks w xs n)) a) * sum_list (map w xs)
      < (real n * w a / sum_list (map w xs) + 1) * sum_list (map w xs)"
    using assms(4) by (simp add: algebra_simps)
  then show ?thesis using assms(4) by (simp only: mult_less_cancel_right_pos)
qed

text \<open>Over a window as long as the sum of natural weights, each candidate is served its weight.\<close>

lemma smooth_picks_window:
  assumes "distinct (map acc_id xs)" "xs \<noteq> []" "0 < sum_list (map k xs)" "a \<in> set xs"
  defines "w \<equiv> (\<lambda>x. real (k x))"
  shows "count_list (fst (smooth_picks w xs (sum_list (map k xs)))) a = k a"
proof -
  let ?n = "sum_list (map k xs)"
  let ?cnt = "count_list (fst (smooth_picks w xs ?n))" and ?c = "snd (smooth_picks w xs ?n)"
  have W: "sum_list (map w xs) = real ?n"
    by (simp add: w_def sum_list_real)
  have pos: "0 < sum_list (map w xs)" using assms(3) by (simp add: W)
  have ok: "smooth_ok w xs (fst (smooth_picks w xs ?n)) ?c" "length (fst (smooth_picks w xs ?n)) = ?n"
    using smooth_picks_ok [of xs w ?n] assms(1,2) pos by (auto simp: w_def)
  have val: "current_value ?c x = real ?n * (real (k x) - real (?cnt x))" if "x \<in> set xs" for x
    using ok that W by (simp add: smooth_ok_def w_def algebra_simps)
  have "?cnt x \<le> k x" if "x \<in> set xs" for x
  proof -
    have "- sum_list (map w xs) < current_value ?c x"
      using ok(1) that unfolding smooth_ok_def by blast
    then have "- real ?n < real ?n * (real (k x) - real (?cnt x))"
      unfolding W val [OF that] .
    then have "0 < real ?n * (real (k x) - real (?cnt x) + 1)" by (simp add: algebra_simps)
    then have "0 < real (k x) - real (?cnt x) + 1"
      using assms(3) by (simp add: zero_less_mult_iff)
    then show ?thesis by linarith
  qed
  then have "\<forall>x \<in> set xs. 0 \<le> current_value ?c x" using val by simp
  moreover have "sum_list (map (current_value ?c) xs) = 0" using ok by (simp add: smooth_ok_def)
  ultimately have "current_value ?c a = 0"
    using assms(4) by (subst (asm) sum_list_nonneg_eq_0_iff) auto
  then have "real ?n * (real (k a) - real (?cnt a)) = 0" unfolding val [OF assms(4)] .
  then have "real (?cnt a) = real (k a)"
    using assms(3) unfolding mult_eq_0_iff by linarith
  then show ?thesis by simp
qed

section \<open>The picks of a pool\<close>

definition smooth_weight :: "env \<Rightarrow> pool \<Rightarrow> account \<Rightarrow> real" where
  "smooth_weight e p a =
     (if isRelayAggregate p then
        (case map_get (ix_weightByAccountId (getAggregatePoolIndex e p)) (acc_id a) of
           None \<Rightarrow> 1 | Some w \<Rightarrow> w)
      else effectiveWeight a (env_now e))"

text \<open>When no weight is positive every candidate weighs the same.\<close>

definition smooth_share :: "env \<Rightarrow> pool \<Rightarrow> account list \<Rightarrow> account \<Rightarrow> real" where
  "smooth_share e p candidates a =
     (if list_ex (\<lambda>b. smooth_weight e p b > 0) (rotation_order e p candidates)
      then smooth_weight e p a else 1)"

definition smooth_configuration :: "env \<Rightarrow> pool \<Rightarrow> account list \<Rightarrow> (string, real) js_map" where
  "smooth_configuration e p configured =
     (if isRelayAggregate p then ix_smoothConfiguration (getAggregatePoolIndex e p)
      else js_map_of (map (\<lambda>a. (acc_id a, effectiveWeight a (env_now e))) configured))"

lemma orderedMapEqual_refl [simp]: "orderedMapEqual m m"
  by (induction m) auto

lemma configuration_matches:
  "configurationMatchesAccounts (map (\<lambda>a. (acc_id a, effectiveWeight a now)) xs) xs now"
  by (induction xs) auto

lemma smooth_configuration_matches:
  "distinct (map acc_id configured) \<Longrightarrow> \<not> isRelayAggregate p \<Longrightarrow>
   configurationMatchesAccounts (smooth_configuration e p configured) configured (env_now e)"
  by (simp add: smooth_configuration_def js_map_of_distinct configuration_matches comp_def)

text \<open>The rounds of a pool continue as long as the configuration stays.\<close>

definition smooth_current :: "env \<Rightarrow> pool \<Rightarrow> account list \<Rightarrow> scheduler \<Rightarrow> (string \<rightharpoonup> real) \<Rightarrow> bool" where
  "smooth_current e p configured s c \<longleftrightarrow>
     (case sd_smoothWeighted s (pool_id p) of
        None \<Rightarrow> c = Map.empty
      | Some st \<Rightarrow> ss_configuration st = smooth_configuration e p configured \<and> ss_current st = c)"

lemma pickSmoothWeighted_round:
  fixes candidates
  assumes "smooth_current e p configured s c" and "distinct (map acc_id configured)"
  defines "r \<equiv> smooth_round (smooth_share e p candidates) (rotation_order e p candidates) c"
  shows "fst (pickSmoothWeighted e p candidates configured s) = fst r
    \<and> smooth_current e p configured (snd (pickSmoothWeighted e p candidates configured s)) (snd r)"
proof -
  let ?ix = "getAggregatePoolIndex e p"
  have share: "smooth_share e p candidates =
      (\<lambda>a. if list_ex (\<lambda>b. smooth_weight e p b > 0) (rotation_order e p candidates)
           then smooth_weight e p a else 1)"
    by (rule ext) (simp add: smooth_share_def)
  show ?thesis
  proof (cases "sd_smoothWeighted s (pool_id p)")
    case None
    then show ?thesis
      using assms(1) unfolding r_def
      by (cases "isRelayAggregate p")
        (simp_all add: pickSmoothWeighted_def Let_def smooth_current_def smooth_configuration_def
          smooth_weight_def rotation_order_def split_beta share cong: if_cong)
  next
    case (Some st)
    then have st: "ss_configuration st = smooth_configuration e p configured" "ss_current st = c"
      using assms(1) by (simp_all add: smooth_current_def)
    show ?thesis
    proof (cases "isRelayAggregate p")
      case True
      with Some st show ?thesis
        unfolding r_def
        by (simp add: pickSmoothWeighted_def Let_def smooth_current_def smooth_configuration_def
            smooth_weight_def rotation_order_def split_beta share cong: if_cong)
    next
      case False
      then have m: "configurationMatchesAccounts (ss_configuration st) configured (env_now e)"
        using smooth_configuration_matches [OF assms(2)] st(1) by simp
      from False Some st m show ?thesis
        unfolding r_def
        by (simp add: pickSmoothWeighted_def Let_def smooth_current_def
            smooth_weight_def rotation_order_def split_beta share cong: if_cong)
    qed
  qed
qed

text \<open>A run of picks of a weighted pool is a run of rounds.\<close>

lemma smooth_weight_nonneg: "0 \<le> smooth_weight e p a"
proof -
  have "0 \<le> w" if "map_get (ix_weightByAccountId (getAggregatePoolIndex e p)) i = Some w" for i w
    using map_of_SomeD [OF that [unfolded getAggregatePoolIndex_def Let_def aggregate_index.simps
        js_map_of_get]]
    by (auto simp: positiveFiniteNumber_def split: option.splits js_number.splits if_splits)
  then show ?thesis
    by (auto simp: smooth_weight_def effectiveWeight_nonneg split: option.split)
qed

lemma smooth_share_nonneg: "0 \<le> smooth_share e p candidates a"
  by (simp add: smooth_share_def smooth_weight_nonneg)

lemma smooth_share_total:
  assumes "candidates \<noteq> []"
  shows "0 < sum_list (map (smooth_share e p candidates) (rotation_order e p candidates))"
proof -
  let ?xs = "rotation_order e p candidates" and ?w = "smooth_share e p candidates"
  obtain b where "b \<in> set ?xs"
    using rotation_order_nonempty [OF assms, of e p] by (meson last_in_set)
  then have "\<exists>a \<in> set ?xs. 0 < ?w a"
    by (cases "list_ex (\<lambda>b. smooth_weight e p b > 0) ?xs") (auto simp: smooth_share_def list_ex_iff)
  then obtain a where a: "a \<in> set ?xs" "0 < ?w a" by blast
  have "?w a \<le> sum_list (map ?w ?xs)"
    using a(1) by (intro member_le_sum_list) (auto simp: smooth_share_nonneg)
  with a(2) show ?thesis by simp
qed

lemma weighted_run:
  assumes "pool_strategy p = Weighted_Round_Robin" and "candidates \<noteq> []"
    and ids: "distinct (map acc_id (rotation_order e p candidates))" "distinct (map acc_id configured)"
    and "sd_smoothWeighted s (pool_id p) = None"
  defines "w \<equiv> smooth_share e p candidates" and "xs \<equiv> rotation_order e p candidates"
  shows "fst (pick_run e p candidates configured key n s) = map Inr (fst (smooth_picks w xs n))
    \<and> smooth_current e p configured (snd (pick_run e p candidates configured key n s))
         (snd (smooth_picks w xs n))"
proof (induction n)
  case 0
  with assms(5) show ?case by (simp add: smooth_current_def)
next
  case (Suc n)
  obtain picked s1 where run: "pick_run e p candidates configured key n s = (picked, s1)"
    by (cases "pick_run e p candidates configured key n s")
  obtain sel c where sm: "smooth_picks w xs n = (sel, c)" by (cases "smooth_picks w xs n")
  obtain r c' where rd: "smooth_round w xs c = (r, c')" by (cases "smooth_round w xs c")
  obtain q s2 where q: "pickSmoothWeighted e p candidates configured s1 = (q, s2)"
    by (cases "pickSmoothWeighted e p candidates configured s1")
  have "smooth_current e p configured s1 c" using Suc run sm by simp
  from pickSmoothWeighted_round [OF this ids(2), of candidates]
  have "q = r" and cur: "smooth_current e p configured s2 c'"
    using rd q by (simp_all add: w_def xs_def)
  moreover obtain a where a: "r = Some a"
    using smooth_round_spec [OF ids(1)[folded xs_def] _ rd] rotation_order_nonempty [OF assms(2)]
    by (auto simp: xs_def)
  ultimately have "pick e p candidates configured key s1 = (Inr a, s2)"
    using q by (simp add: pick_def assms(1))
  with run sm rd a cur Suc show ?case by simp
qed

end
