(* ===== verification/Strategy_Properties.thy ===== *)
theory Strategy_Properties
  imports Fairness_Proofs Scheduling_Properties
begin

text \<open>
  The properties of the pool strategies: exact weighted and plain rotation, proportional random
  choice, and the minimum each of the scoring strategies promises.
\<close>

section \<open>Facts used by the strategies\<close>

lemma smooth_round_cong:
  assumes "\<And>x. x \<in> set xs \<Longrightarrow> w x = w' x"
  shows "smooth_round w xs c = smooth_round w' xs c"
proof -
  have "foldl (smooth_step w) r xs = foldl (smooth_step w') r xs" for r
    by (rule foldl_cong) (simp_all add: smooth_step_def assms split: prod.split)
  then show ?thesis by (simp add: smooth_round_def)
qed

lemma smooth_picks_cong:
  "(\<And>x. x \<in> set xs \<Longrightarrow> w x = w' x) \<Longrightarrow> smooth_picks w xs n = smooth_picks w' xs n"
  by (induction n) (simp_all add: smooth_round_cong [of xs w w'])

lemma count_list_Inr: "count_list (map Inr xs) (Inr a) = count_list xs a"
  by (induction xs) simp_all

lemma sample_not_aggregate [simp]: "isRelayAggregate (sample_pool strategy sticky) = False"
  by (simp add: isRelayAggregate_def sample_pool_def)

lemma sample_rotation [simp]: "rotation_order e (sample_pool strategy sticky) xs = xs"
  by (simp add: rotation_order_def)

lemma sample_strategy [simp]: "pool_strategy (sample_pool strategy sticky) = strategy"
  by (simp add: sample_pool_def)

lemma sample_weight: "effectiveWeight (sample_account i w n) now = max 0 w"
  by (simp add: effectiveWeight_def quotaPressure_def sample_account_def codex_pressure_def
      grok_pressure_def quotaWindows_def accountReportsCodexQuota_def)

lemma sample_share [simp]:
  "smooth_share e (sample_pool strategy sticky) [account_a, account_b] account_a = 2"
  "smooth_share e (sample_pool strategy sticky) [account_a, account_b] account_b = 1"
  by (simp_all add: smooth_share_def smooth_weight_def sample_weight)

lemma sample_distinct: "account_a \<noteq> account_b"
  by (simp add: sample_account_def)

section \<open>Rotations\<close>

text \<open>
  C36. Weighted round robin is exact: from a fresh rotation, and with whole-number weights, every
  window of as many picks as the weights add up to returns each candidate exactly as often as its
  weight says.
\<close>

theorem weighted_rotation_exact:
  assumes "pool_strategy p = Weighted_Round_Robin" and "candidates \<noteq> []"
    and "distinct (map acc_id (rotation_order e p candidates))" and "distinct (map acc_id configured)"
    and "sd_smoothWeighted s (pool_id p) = None"
    and "\<And>x. x \<in> set (rotation_order e p candidates) \<Longrightarrow> smooth_share e p candidates x = real (k x)"
    and "a \<in> set (rotation_order e p candidates)"
  shows "count_list (fst (pick_run e p candidates configured key
      (sum_list (map k (rotation_order e p candidates))) s)) (Inr a) = k a"
proof -
  let ?xs = "rotation_order e p candidates" and ?w = "smooth_share e p candidates"
  have "map ?w ?xs = map (\<lambda>x. real (k x)) ?xs" using assms(6) by simp
  then have "0 < sum_list (map (\<lambda>x. real (k x)) ?xs)"
    using smooth_share_total [OF assms(2), of e p] by metis
  then have "0 < sum_list (map k ?xs)" by (simp add: sum_list_real)
  from smooth_picks_window [OF assms(3) rotation_order_nonempty [OF assms(2)] this assms(7)]
  show ?thesis
    using weighted_run [OF assms(1-5)] smooth_picks_cong [of ?xs ?w "\<lambda>x. real (k x)"] assms(6)
    by (simp add: count_list_Inr)
qed

theorem weighted_rotation_exact_witness:
  "count_list (fst (pick_run sample_env (sample_pool Weighted_Round_Robin False) [account_a, account_b]
      [account_a, account_b] None 3 fresh_scheduler)) (Inr account_a) = 2"
proof -
  let ?k = "\<lambda>x. if x = account_a then 2 else 1 :: nat"
  have share: "smooth_share sample_env (sample_pool Weighted_Round_Robin False) [account_a, account_b] x = real (?k x)"
    if "x \<in> set (rotation_order sample_env (sample_pool Weighted_Round_Robin False) [account_a, account_b])" for x
    using that sample_distinct by auto
  have "sd_smoothWeighted fresh_scheduler i = None" for i by (simp add: new_scheduler_def Let_def)
  with weighted_rotation_exact [OF _ _ _ _ _ share, of "[account_a, account_b]" fresh_scheduler account_a None]
  show ?thesis using sample_distinct [symmetric] by simp
qed

text \<open>
  Round robin gives each candidate one turn: whatever the pool's offset, as many picks as there
  are candidates return every one of them exactly once.
\<close>

theorem round_robin_turn:
  assumes "pool_strategy p = Round_Robin" and "candidates \<noteq> []"
  shows "mset (fst (pick_run e p candidates configured key (length (rotation_order e p candidates)) s))
    = mset (map Inr (rotation_order e p candidates))"
proof -
  let ?xs = "map Inr (rotation_order e p candidates)"
  let ?n = "length (rotation_order e p candidates)"
  have "0 < ?n" using rotation_order_nonempty [OF assms(2)] by simp
  then have "fst (pick_run e p candidates configured key ?n s)
      = map (\<lambda>i. ?xs ! ((offset_of s p + i) mod length ?xs)) [0..<length ?xs]"
    using rotation_positions [OF assms(1), of e candidates configured key ?n s] by simp
  then show ?thesis using rotation_turn [of ?xs "offset_of s p"] \<open>0 < ?n\<close> by simp
qed

theorem round_robin_turn_witness:
  "mset (fst (pick_run sample_env (sample_pool Round_Robin False) [account_a, account_b] [] None 2 fresh_scheduler))
    = {#Inr account_a, Inr account_b#}"
  using round_robin_turn [of "sample_pool Round_Robin False" "[account_a, account_b]" sample_env "[]" None
      fresh_scheduler] by (simp add: numeral_2_eq_2)

section \<open>Scores and chances\<close>

text \<open>
  Priority picks a candidate of least effective priority, and among those one with the fewest
  requests in flight; balanced picks one of least utilisation, then least quota pressure, then least
  priority.
\<close>

theorem priority_and_balanced_minimal:
  assumes "candidates \<noteq> []" and "b \<in> set candidates" and "\<not> isRelayAggregate p"
    and "pool_strategy p = (if balanced then Balanced else Priority)"
  shows "\<exists>a \<in> set candidates. pick e p candidates configured key s = (Inr a, s)
    \<and> (if balanced
       then (inFlight s a / concurrencyLimit s a False, quotaPressure a (env_now e), acc_priority a)
              \<le> (inFlight s b / concurrencyLimit s b False, quotaPressure b (env_now e), acc_priority b)
       else (effectivePriority a (env_now e), inFlight s a) \<le> (effectivePriority b (env_now e), inFlight s b))"
proof (cases balanced)
  case True
  let ?score = "\<lambda>a. inFlight s a / concurrencyLimit s a False"
  have "pick e p candidates configured key s = (Inr (selectMinimum candidates ?score (balanced_tie e)), s)"
    using assms(4) True by (simp add: pick_def)
  then show ?thesis
    using selectMinimum_balanced [OF assms(1,2), of ?score e] selectMinimum_score(1) [OF assms(1)] True by simp
next
  case False
  let ?score = "\<lambda>a. effectivePriority a (env_now e)"
  have "pick e p candidates configured key s =
      (Inr (selectMinimum candidates ?score (\<lambda>a b. inFlight s a - inFlight s b)), s)"
    using assms(3,4) False by (simp add: pick_def)
  then show ?thesis
    using selectMinimum_difference [OF assms(1,2), of ?score "inFlight s"] selectMinimum_score(1) [OF assms(1)] False
    by simp
qed

theorem priority_and_balanced_minimal_witness:
  "\<exists>a \<in> {account_a, account_b}. pick sample_env (sample_pool Balanced False) [account_a, account_b] [] None fresh_scheduler
      = (Inr a, fresh_scheduler)
    \<and> inFlight fresh_scheduler a / concurrencyLimit fresh_scheduler a False
        \<le> inFlight fresh_scheduler account_b / concurrencyLimit fresh_scheduler account_b False"
  using priority_and_balanced_minimal [of "[account_a, account_b]" account_b "sample_pool Balanced False" True
      sample_env "[]" None fresh_scheduler]
  by (auto simp: less_eq_prod_def less_imp_le)

text \<open>
  Weighted random choice is proportional: the candidate picked is the one in whose interval of
  the cumulative weights the draw falls, so each draw below the sum of the weights selects a
  candidate with a positive weight, over a range of draws as long as its share.
\<close>

theorem weighted_random_interval:
  assumes "pool_strategy p = Weighted_Random" and "candidates = before @ a # after"
    and "sum_list (map (\<lambda>x. effectiveWeight x (env_now e)) before) \<le>
           env_random e (sd_draws s) * sum_list (map (\<lambda>x. effectiveWeight x (env_now e)) candidates)"
    and "env_random e (sd_draws s) * sum_list (map (\<lambda>x. effectiveWeight x (env_now e)) candidates)
           < sum_list (map (\<lambda>x. effectiveWeight x (env_now e)) before) + effectiveWeight a (env_now e)"
  shows "pick e p candidates configured key s = (Inr a, s\<lparr>sd_draws := sd_draws s + 1\<rparr>)"
proof -
  let ?w = "\<lambda>x. effectiveWeight x (env_now e)"
  have "0 < ?w a" using assms(3,4) by linarith
  moreover have "0 \<le> sum_list (map ?w xs)" for xs by (rule sum_list_nonneg) (auto simp: effectiveWeight_nonneg)
  ultimately have "0 < sum_list (map ?w candidates)"
    using assms(2) by (simp add: add_nonneg_pos add_pos_nonneg)
  then show ?thesis
    using weighted_choice_interval [OF assms(2-4) effectiveWeight_nonneg] assms(1)
    by (simp add: pick_def draw_def foldl_sum Let_def)
qed

theorem weighted_random_interval_witness:
  "pick (sample_env\<lparr>env_random := \<lambda>n. 7 / 10\<rparr>) (sample_pool Weighted_Random False) [account_a, account_b] [] None
      fresh_scheduler = (Inr account_b, fresh_scheduler\<lparr>sd_draws := sd_draws fresh_scheduler + 1\<rparr>)"
  using weighted_random_interval [of "sample_pool Weighted_Random False" "[account_a, account_b]" "[account_a]"
      account_b "[]" "sample_env\<lparr>env_random := \<lambda>n. 7 / 10\<rparr>" fresh_scheduler "[]" None]
  by (simp add: sample_weight)

text \<open>The cost of a candidate does not depend on the draws made.\<close>

lemma autoBalancedCost_draws [simp]:
  "autoBalancedCost e (s\<lparr>sd_draws := n\<rparr>) = autoBalancedCost e s"
  "measured_prior e (s\<lparr>sd_draws := n\<rparr>) = measured_prior e s"
  by (simp_all add: fun_eq_iff autoBalancedCost_def measured_prior_def inFlight_def active_slots_def
      concurrencyLimit_def performance_of_def)

lemma best_pick_near_minimum:
  fixes cost candidates
  assumes "candidates \<noteq> []"
  defines "best \<equiv> best_candidates cost candidates"
  shows "x \<in> {hd best, random_element best r} \<Longrightarrow>
    x \<in> set candidates \<and> list_all (\<lambda>b. cost x < cost b + 2 / 1000) candidates"
proof -
  assume x: "x \<in> {hd best, random_element best r}"
  have ne: "best \<noteq> []" unfolding best_def by (rule best_candidates_near_minimum(1) [OF assms(1)])
  then have "x \<in> set best" using x random_element_member [OF ne, of r] by auto
  then show ?thesis
    using best_candidates_near_minimum(2,3) [OF assms(1), where cost = cost] by (auto simp: best_def list_all_iff)
qed

text \<open>
  Automatic balance picks a candidate whose cost is within 0.002 of the least cost of all
  candidates, unless it explores: then, with a draw under five percent and some candidate already
  measured, it picks one without a performance sample.
\<close>

theorem autobalanced_near_minimum:
  assumes "candidates \<noteq> []" and "pickAutoBalanced e candidates key s = (a, t)"
  shows "a \<in> set candidates
    \<and> (if env_random e (sd_draws s) < 5 / 100 \<and> list_ex (\<lambda>x. hasPerformanceSample s (acc_id x)) candidates
          \<and> list_ex (\<lambda>x. \<not> hasPerformanceSample s (acc_id x)) candidates
       then \<not> hasPerformanceSample s (acc_id a)
       else (let cost = \<lambda>x. autoBalancedCost e s x
                   (measured_prior e s (filter (\<lambda>y. hasPerformanceSample s (acc_id y)) candidates)) key
             in list_all (\<lambda>b. cost a < cost b + 2 / 1000) candidates))"
proof -
  let ?m = "filter (\<lambda>y. hasPerformanceSample s (acc_id y)) candidates"
  let ?u = "filter (\<lambda>y. \<not> hasPerformanceSample s (acc_id y)) candidates"
  let ?cost = "\<lambda>x. autoBalancedCost e s x (measured_prior e s ?m) key"
  let ?explore = "env_random e (sd_draws s) < 5 / 100 \<and> ?m \<noteq> [] \<and> ?u \<noteq> []"
  have cond: "?explore \<longleftrightarrow> env_random e (sd_draws s) < 5 / 100
      \<and> list_ex (\<lambda>x. hasPerformanceSample s (acc_id x)) candidates
      \<and> list_ex (\<lambda>x. \<not> hasPerformanceSample s (acc_id x)) candidates"
    by (auto simp: list_ex_iff filter_empty_conv)
  have "if ?explore then (\<exists>r. a = random_element ?u r)
      else (\<exists>r. a \<in> {hd (best_candidates ?cost candidates), random_element (best_candidates ?cost candidates) r})"
    using assms(2) by (auto simp: pickAutoBalanced_def draw_def AUTO_BALANCED_EXPLORATION_RATE_def Let_def split: if_splits)
  then obtain r where r: "if ?explore then a = random_element ?u r
      else a \<in> {hd (best_candidates ?cost candidates), random_element (best_candidates ?cost candidates) r}"
    by (auto split: if_splits)
  show ?thesis
  proof (cases ?explore)
    case True
    then have "a \<in> set ?u" using r random_element_member [of ?u r] by simp
    then show ?thesis using True unfolding cond [symmetric] by simp
  next
    case False
    then have "a \<in> {hd (best_candidates ?cost candidates), random_element (best_candidates ?cost candidates) r}"
      using r by meson
    then have "a \<in> set candidates \<and> list_all (\<lambda>b. ?cost a < ?cost b + 2 / 1000) candidates"
      by (rule best_pick_near_minimum [OF assms(1)])
    then show ?thesis using False unfolding cond [symmetric] Let_def by auto
  qed
qed

theorem autobalanced_near_minimum_witness:
  "fst (pickAutoBalanced sample_env [account_a, account_b] None fresh_scheduler) \<in> {account_a, account_b}"
proof -
  obtain a t where "pickAutoBalanced sample_env [account_a, account_b] None fresh_scheduler = (a, t)"
    by (metis prod.collapse)
  with autobalanced_near_minimum [OF _ this] show ?thesis by simp
qed

end
