(* ===== verification/Reasoning_Policy.thy ===== *)
theory Reasoning_Policy
  imports Prelude
begin

text \<open>
  \<^verbatim>\<open>src/shared/reasoning-policy.ts\<close>: the reasoning effort a request is sent with, after a
  source's mapping and cap. The order of \<^verbatim>\<open>REASONING_EFFORTS\<close>, by which the cap compares, is
  made the linear order of the type.
\<close>

datatype reasoning_effort = E_None | E_Minimal | E_Low | E_Medium | E_High | E_Xhigh | E_Max

definition REASONING_EFFORTS :: "reasoning_effort list" where
  "REASONING_EFFORTS = [E_None, E_Minimal, E_Low, E_Medium, E_High, E_Xhigh, E_Max]"

fun effort_name :: "reasoning_effort \<Rightarrow> string" where
  "effort_name E_None = ''none''"
| "effort_name E_Minimal = ''minimal''"
| "effort_name E_Low = ''low''"
| "effort_name E_Medium = ''medium''"
| "effort_name E_High = ''high''"
| "effort_name E_Xhigh = ''xhigh''"
| "effort_name E_Max = ''max''"

text \<open>\<^verbatim>\<open>REASONING_EFFORTS.indexOf(e)\<close>.\<close>

fun effort_index :: "reasoning_effort \<Rightarrow> nat" where
  "effort_index E_None = 0"
| "effort_index E_Minimal = 1"
| "effort_index E_Low = 2"
| "effort_index E_Medium = 3"
| "effort_index E_High = 4"
| "effort_index E_Xhigh = 5"
| "effort_index E_Max = 6"

lemma effort_index_nth: "REASONING_EFFORTS ! effort_index e = e"
  by (cases e) (simp_all add: REASONING_EFFORTS_def)

lemma effort_index_inj: "effort_index a = effort_index b \<Longrightarrow> a = b"
  by (metis effort_index_nth)

instantiation reasoning_effort :: linorder
begin

definition less_eq_reasoning_effort :: "reasoning_effort \<Rightarrow> reasoning_effort \<Rightarrow> bool" where
  "less_eq_reasoning_effort a b \<longleftrightarrow> effort_index a \<le> effort_index b"

definition less_reasoning_effort :: "reasoning_effort \<Rightarrow> reasoning_effort \<Rightarrow> bool" where
  "less_reasoning_effort a b \<longleftrightarrow> effort_index a < effort_index b"

instance
  by standard
    (auto simp: less_eq_reasoning_effort_def less_reasoning_effort_def intro: effort_index_inj)

end

section \<open>Operations\<close>

text \<open>\<^verbatim>\<open>toLowerCase\<close> below code unit 256.\<close>

definition js_lower :: "char \<Rightarrow> char" where
  "js_lower c =
     (let n = (of_char c :: nat)
      in if 65 \<le> n \<and> n \<le> 90 \<or> 192 \<le> n \<and> n \<le> 222 \<and> n \<noteq> 215 then char_of (n + 32) else c)"

definition normalizeReasoningEffort :: "string option \<Rightarrow> reasoning_effort option" where
  "normalizeReasoningEffort value =
     (case value of
        None \<Rightarrow> None
      | Some v \<Rightarrow>
          let normalized = map js_lower (js_trim v)
          in find (\<lambda>e. effort_name e = normalized) REASONING_EFFORTS)"

text \<open>\<open>value\<close> reads a property of the unknown object: \<^const>\<open>None\<close> unless it is a string.\<close>

fun collect_efforts ::
  "(string \<Rightarrow> string option) \<Rightarrow> reasoning_effort list \<Rightarrow> (reasoning_effort, reasoning_effort) js_map
   \<Rightarrow> (reasoning_effort, reasoning_effort) js_map" where
  "collect_efforts value [] result = result"
| "collect_efforts value (effort # efforts) result =
     collect_efforts value efforts
       (case normalizeReasoningEffort (value (effort_name effort)) of
          None \<Rightarrow> result
        | Some mapped \<Rightarrow> if mapped \<noteq> effort then map_set result effort mapped else result)"

definition normalizeReasoningEffortMap ::
  "(string \<Rightarrow> string option) option \<Rightarrow> (reasoning_effort, reasoning_effort) js_map option" where
  "normalizeReasoningEffortMap value =
     (case value of
        None \<Rightarrow> None
      | Some v \<Rightarrow>
          let result = collect_efforts v REASONING_EFFORTS []
          in if length result > 0 then Some result else None)"

definition applyReasoningEffortPolicy ::
  "string option \<Rightarrow> reasoning_effort option \<Rightarrow> (reasoning_effort \<Rightarrow> string option)
   \<Rightarrow> reasoning_effort option" where
  "applyReasoningEffortPolicy requested cap mapping =
     (case normalizeReasoningEffort requested of
        None \<Rightarrow> None
      | Some normalized \<Rightarrow>
          let mapped = (case normalizeReasoningEffort (mapping normalized) of
                          None \<Rightarrow> normalized | Some m \<Rightarrow> m)
          in case cap of
               None \<Rightarrow> Some mapped
             | Some c \<Rightarrow> Some (if effort_index mapped > effort_index c then c else mapped))"

section \<open>Lemmas\<close>

lemma applyReasoningEffortPolicy_min:
  assumes "normalizeReasoningEffort requested = Some e"
  shows "applyReasoningEffortPolicy requested (Some c) mapping =
    Some (min c (case normalizeReasoningEffort (mapping e) of None \<Rightarrow> e | Some m \<Rightarrow> m))"
  using assms
  by (auto simp: applyReasoningEffortPolicy_def Let_def min_def less_eq_reasoning_effort_def
      dest: effort_index_inj)

lemma collect_efforts_lookup:
  "map_get (collect_efforts v es m) e =
     (if e \<in> set es \<and> normalizeReasoningEffort (v (effort_name e)) \<noteq> None
         \<and> normalizeReasoningEffort (v (effort_name e)) \<noteq> Some e
      then normalizeReasoningEffort (v (effort_name e)) else map_get m e)"
  by (induction es arbitrary: m) (auto split: option.splits)

lemma REASONING_EFFORTS_all [simp]: "e \<in> set REASONING_EFFORTS"
  by (cases e) (simp_all add: REASONING_EFFORTS_def)

end
