(* ===== verification/OAuth_Gate.thy ===== *)
theory OAuth_Gate
  imports Prelude
begin

text \<open>
  \<^verbatim>\<open>src/main/auth/oauth-refresh-gate.ts\<close>: the gate that bounds concurrent OAuth token
  refreshes of one provider. Its functions are modelled one by one; the promises around them
  are the steps of \<open>gate_step\<close>: a request enters (\<open>Enter\<close>), a resolved waiter reserves its
  admission time (\<open>Admit\<close>), an owner finishes with an outcome (\<open>Finish\<close>), a queued waiter is
  aborted (\<open>Abort\<close>). A waiter is the number of its request.
\<close>

definition MAX_CONCURRENT_REFRESHES :: nat where "MAX_CONCURRENT_REFRESHES = 2"
definition MIN_ADMISSION_INTERVAL_MS :: real where "MIN_ADMISSION_INTERVAL_MS = 100"
definition MAX_PROVIDER_DEFER_MS :: real where "MAX_PROVIDER_DEFER_MS = 5000"

record gate =
  g_active :: nat
  g_queue :: "nat list"
  g_nextAdmissionAt :: real
  g_transientFailures :: nat
  g_deferUntil :: real

definition new_gate :: gate where
  "new_gate = \<lparr>g_active = 0, g_queue = [], g_nextAdmissionAt = 0, g_transientFailures = 0,
     g_deferUntil = 0\<rparr>"

section \<open>Functions\<close>

text \<open>The condition of the synchronous path of \<^verbatim>\<open>runOAuthRefreshRequest\<close>.\<close>

definition immediate :: "real \<Rightarrow> gate \<Rightarrow> bool" where
  "immediate now g \<longleftrightarrow>
     g_active g < MAX_CONCURRENT_REFRESHES
     \<and> length (g_queue g) = 0
     \<and> max (g_nextAdmissionAt g) (g_deferUntil g) \<le> now"

text \<open>\<^verbatim>\<open>acquire\<close>: whether the slot is granted at once; otherwise the waiter is queued.\<close>

definition gate_acquire :: "nat \<Rightarrow> gate \<Rightarrow> bool \<times> gate" where
  "gate_acquire waiter g =
     (if g_active g < MAX_CONCURRENT_REFRESHES \<and> length (g_queue g) = 0
      then (True, g\<lparr>g_active := g_active g + 1\<rparr>)
      else (False, g\<lparr>g_queue := g_queue g @ [waiter]\<rparr>))"

text \<open>
  The admission time and the state that has reserved it: \<^verbatim>\<open>reserveAdmission\<close> returns the delay
  \<open>admissionAt - now\<close>.
\<close>

definition admission_time :: "real \<Rightarrow> gate \<Rightarrow> real" where
  "admission_time now g = max (max now (g_nextAdmissionAt g)) (g_deferUntil g)"

definition reserveAdmission :: "real \<Rightarrow> gate \<Rightarrow> real \<times> gate" where
  "reserveAdmission now g =
     (let admissionAt = admission_time now g
      in (max 0 (admissionAt - now),
          g\<lparr>g_nextAdmissionAt := admissionAt + MIN_ADMISSION_INTERVAL_MS\<rparr>))"

definition recordTransientFailure :: "real \<Rightarrow> gate \<Rightarrow> gate" where
  "recordTransientFailure now g =
     (let failures = g_transientFailures g + 1;
          g1 = g\<lparr>g_transientFailures := failures\<rparr>
      in if failures < 3 then g1
         else
           let delayMs = min MAX_PROVIDER_DEFER_MS (250 * 2 ^ min 4 (failures - 3))
           in g1\<lparr>g_deferUntil := max (g_deferUntil g1) (now + delayMs)\<rparr>)"

definition recordHealthyEndpoint :: "gate \<Rightarrow> gate" where
  "recordHealthyEndpoint g = g\<lparr>g_transientFailures := 0, g_deferUntil := 0\<rparr>"

text \<open>How \<^verbatim>\<open>runOperation\<close>, or the delay before it, ends.\<close>

datatype outcome = Responded nat | Failed bool | Not_Started

definition record_outcome :: "real \<Rightarrow> outcome \<Rightarrow> gate \<Rightarrow> gate" where
  "record_outcome now r g =
     (case r of
        Responded status \<Rightarrow>
          if status = 429 \<or> status \<ge> 500 then recordTransientFailure now g
          else recordHealthyEndpoint g
      | Failed aborted \<Rightarrow> if aborted then g else recordTransientFailure now g
      | Not_Started \<Rightarrow> g)"

text \<open>
  The loop of \<^verbatim>\<open>release\<close> over the queue: the number of active owners, the waiters left, those
  resolved and those rejected because their signal had already fired.
\<close>

fun release_loop ::
  "(nat \<Rightarrow> bool) \<Rightarrow> nat \<Rightarrow> nat list \<Rightarrow> nat \<times> nat list \<times> nat list \<times> nat list" where
  "release_loop aborted active [] = (active, [], [], [])"
| "release_loop aborted active (w # queue) =
     (if active < MAX_CONCURRENT_REFRESHES then
        (if aborted w then
           (let (a, q, resolved, rejected) = release_loop aborted active queue
            in (a, q, resolved, w # rejected))
         else
           (let (a, q, resolved, rejected) = release_loop aborted (active + 1) queue
            in (a, q, w # resolved, rejected)))
      else (active, w # queue, [], []))"

definition gate_release :: "(nat \<Rightarrow> bool) \<Rightarrow> gate \<Rightarrow> nat list \<times> nat list \<times> gate" where
  "gate_release aborted g =
     (let (active, queue, resolved, rejected) = release_loop aborted (g_active g - 1) (g_queue g);
          g1 = g\<lparr>g_active := active, g_queue := queue\<rparr>
      in (resolved, rejected,
          if active = 0 \<and> length queue = 0
          then g1\<lparr>g_nextAdmissionAt := 0, g_transientFailures := 0, g_deferUntil := 0\<rparr>
          else g1))"

section \<open>Requests around the gate\<close>

text \<open>
  \<open>sys_granted\<close> holds a slot but has not reserved its admission time; \<open>sys_running\<close> has.
  \<open>sys_admissions\<close> are the admission times of the current burst, latest first.
\<close>

record gate_system =
  sys_gate :: gate
  sys_granted :: "nat list"
  sys_running :: "nat list"
  sys_admissions :: "real list"

definition new_system :: gate_system where
  "new_system = \<lparr>sys_gate = new_gate, sys_granted = [], sys_running = [], sys_admissions = []\<rparr>"

definition owners :: "gate_system \<Rightarrow> nat list" where
  "owners s = sys_granted s @ sys_running s"

definition known :: "gate_system \<Rightarrow> nat set" where
  "known s = set (owners s) \<union> set (g_queue (sys_gate s))"

definition admit :: "real \<Rightarrow> nat \<Rightarrow> gate_system \<Rightarrow> gate_system" where
  "admit now i s =
     s\<lparr>sys_gate := snd (reserveAdmission now (sys_gate s)),
       sys_running := i # sys_running s,
       sys_admissions := admission_time now (sys_gate s) # sys_admissions s\<rparr>"

definition enter :: "real \<Rightarrow> nat \<Rightarrow> gate_system \<Rightarrow> gate_system" where
  "enter now i s =
     (let g = sys_gate s
      in if immediate now g then admit now i (s\<lparr>sys_gate := g\<lparr>g_active := g_active g + 1\<rparr>\<rparr>)
         else
           let (granted, g1) = gate_acquire i g
           in s\<lparr>sys_gate := g1,
                sys_granted := (if granted then sys_granted s @ [i] else sys_granted s)\<rparr>)"

definition finish :: "real \<Rightarrow> (nat \<Rightarrow> bool) \<Rightarrow> nat \<Rightarrow> outcome \<Rightarrow> gate_system \<Rightarrow> gate_system" where
  "finish now aborted i r s =
     (let (resolved, rejected, g) = gate_release aborted (record_outcome now r (sys_gate s))
      in s\<lparr>sys_gate := g,
           sys_granted := remove1 i (sys_granted s) @ resolved,
           sys_running := remove1 i (sys_running s),
           sys_admissions := (if g_active g = 0 \<and> g_queue g = [] then [] else sys_admissions s)\<rparr>)"

definition abort_waiter :: "nat \<Rightarrow> gate_system \<Rightarrow> gate_system" where
  "abort_waiter i s = s\<lparr>sys_gate := (sys_gate s)\<lparr>g_queue := remove1 i (g_queue (sys_gate s))\<rparr>\<rparr>"

inductive gate_step :: "gate_system \<Rightarrow> gate_system \<Rightarrow> bool" where
  Enter: "i \<notin> known s \<Longrightarrow> gate_step s (enter now i s)"
| Admit: "i \<in> set (sys_granted s) \<Longrightarrow>
          gate_step s (admit now i (s\<lparr>sys_granted := remove1 i (sys_granted s)\<rparr>))"
| Finish: "i \<in> set (sys_running s) \<Longrightarrow> gate_step s (finish now aborted i r s)"
| Cancel: "i \<in> set (sys_granted s) \<Longrightarrow> gate_step s (finish now aborted i Not_Started s)"
| Abort: "i \<in> set (g_queue (sys_gate s)) \<Longrightarrow> gate_step s (abort_waiter i s)"

inductive gate_reachable :: "gate_system \<Rightarrow> bool" where
  start: "gate_reachable new_system"
| move: "gate_reachable s \<Longrightarrow> gate_step s t \<Longrightarrow> gate_reachable t"

section \<open>Invariant\<close>

definition spaced :: "real \<Rightarrow> real list \<Rightarrow> bool" where
  "spaced next ts \<longleftrightarrow>
     (\<forall>t \<in> set ts. t + MIN_ADMISSION_INTERVAL_MS \<le> next)
     \<and> sorted_wrt (\<lambda>later earlier. earlier + MIN_ADMISSION_INTERVAL_MS \<le> later) ts"

definition gate_invariant :: "gate_system \<Rightarrow> bool" where
  "gate_invariant s \<longleftrightarrow>
     (let g = sys_gate s
      in g_active g = length (owners s)
         \<and> g_active g \<le> MAX_CONCURRENT_REFRESHES
         \<and> (g_queue g \<noteq> [] \<longrightarrow> g_active g = MAX_CONCURRENT_REFRESHES)
         \<and> distinct (owners s @ g_queue g)
         \<and> spaced (g_nextAdmissionAt g) (sys_admissions s))"

lemma gate_invariantI:
  assumes "g_active (sys_gate s) = length (owners s)"
    and "g_active (sys_gate s) \<le> MAX_CONCURRENT_REFRESHES"
    and "g_queue (sys_gate s) \<noteq> [] \<Longrightarrow> g_active (sys_gate s) = MAX_CONCURRENT_REFRESHES"
    and "distinct (owners s @ g_queue (sys_gate s))"
    and "spaced (g_nextAdmissionAt (sys_gate s)) (sys_admissions s)"
  shows "gate_invariant s"
  using assms by (simp add: gate_invariant_def)

lemma gate_invariantD:
  assumes "gate_invariant s"
  shows "g_active (sys_gate s) = length (owners s)"
    and "g_active (sys_gate s) \<le> MAX_CONCURRENT_REFRESHES"
    and "g_queue (sys_gate s) \<noteq> [] \<Longrightarrow> g_active (sys_gate s) = MAX_CONCURRENT_REFRESHES"
    and "distinct (owners s @ g_queue (sys_gate s))"
    and "spaced (g_nextAdmissionAt (sys_gate s)) (sys_admissions s)"
  using assms by (simp_all add: gate_invariant_def Let_def)

lemma spaced_admit:
  "spaced next ts \<Longrightarrow> next \<le> t \<Longrightarrow> spaced (t + MIN_ADMISSION_INTERVAL_MS) (t # ts)"
  by (fastforce simp: spaced_def MIN_ADMISSION_INTERVAL_MS_def)

lemma spaced_Nil [simp]: "spaced next []"
  by (simp add: spaced_def)

lemma admission_time_ge: "g_nextAdmissionAt g \<le> admission_time now g"
  by (simp add: admission_time_def)

text \<open>
  The loop takes waiters from the front of the queue, in order, rejects the aborted ones,
  and stops with a full gate or an empty queue.
\<close>

lemma release_loop_spec:
  assumes "release_loop aborted active queue = (a, q, resolved, rejected)"
    and "active \<le> MAX_CONCURRENT_REFRESHES"
  shows "a = active + length resolved \<and> a \<le> MAX_CONCURRENT_REFRESHES
    \<and> (q \<noteq> [] \<longrightarrow> a = MAX_CONCURRENT_REFRESHES)
    \<and> (\<exists>pre. queue = pre @ q \<and> resolved = filter (\<lambda>w. \<not> aborted w) pre \<and> rejected = filter aborted pre)"
  using assms
proof (induction aborted active queue arbitrary: a q resolved rejected rule: release_loop.induct)
  case (1 aborted active)
  then show ?case by simp
next
  case (2 aborted active w queue)
  show ?case
  proof (cases "active < MAX_CONCURRENT_REFRESHES")
    case False
    with 2 show ?thesis by auto
  next
    case room: True
    show ?thesis
    proof (cases "aborted w")
      case True
      obtain a' q' rs rj where r: "release_loop aborted active queue = (a', q', rs, rj)"
        by (metis prod_cases4)
      with 2 room True have eq: "a = a'" "q = q'" "resolved = rs" "rejected = w # rj" by auto
      obtain pre where "queue = pre @ q'" "rs = filter (\<lambda>w. \<not> aborted w) pre" "rj = filter aborted pre"
        and rest: "a' = active + length rs \<and> a' \<le> MAX_CONCURRENT_REFRESHES
          \<and> (q' \<noteq> [] \<longrightarrow> a' = MAX_CONCURRENT_REFRESHES)"
        using "2.IH"(1) [OF room True r "2.prems"(2)] by blast
      then show ?thesis using True unfolding eq by (intro conjI exI [of _ "w # pre"]) auto
    next
      case False
      obtain a' q' rs rj where r: "release_loop aborted (active + 1) queue = (a', q', rs, rj)"
        by (metis prod_cases4)
      with 2 room False have eq: "a = a'" "q = q'" "resolved = w # rs" "rejected = rj" by auto
      have "active + 1 \<le> MAX_CONCURRENT_REFRESHES" using room by simp
      from "2.IH"(2) [OF room False r this]
      obtain pre where "queue = pre @ q'" "rs = filter (\<lambda>w. \<not> aborted w) pre" "rj = filter aborted pre"
        and rest: "a' = active + 1 + length rs \<and> a' \<le> MAX_CONCURRENT_REFRESHES
          \<and> (q' \<noteq> [] \<longrightarrow> a' = MAX_CONCURRENT_REFRESHES)"
        by blast
      then show ?thesis using False unfolding eq by (intro conjI exI [of _ "w # pre"]) auto
    qed
  qed
qed

lemma record_outcome_frame [simp]:
  "g_active (record_outcome now r g) = g_active g"
  "g_queue (record_outcome now r g) = g_queue g"
  "g_nextAdmissionAt (record_outcome now r g) = g_nextAdmissionAt g"
  by (simp_all add: record_outcome_def recordTransientFailure_def recordHealthyEndpoint_def
      Let_def split: outcome.splits)

lemma gate_invariant_new: "gate_invariant new_system"
  by (simp add: gate_invariant_def new_system_def new_gate_def owners_def)

lemma gate_invariant_admit:
  assumes "gate_invariant s" and "i \<in> set (sys_granted s)"
  shows "gate_invariant (admit now i (s\<lparr>sys_granted := remove1 i (sys_granted s)\<rparr>))"
proof -
  note inv = gate_invariantD [OF assms(1)]
  have perm: "mset (remove1 i (sys_granted s) @ i # sys_running s) = mset (owners s)"
    using assms(2) by (simp add: owners_def)
  then have "length (remove1 i (sys_granted s) @ i # sys_running s) = length (owners s)"
    by (rule mset_eq_length)
  moreover have "distinct (remove1 i (sys_granted s) @ i # sys_running s)"
    using perm inv(4) by (metis distinct_append mset_eq_imp_distinct_iff)
  moreover have "set (remove1 i (sys_granted s) @ i # sys_running s) = set (owners s)"
    using perm by (rule mset_eq_setD)
  ultimately show ?thesis
    using inv by (intro gate_invariantI)
      (auto simp: admit_def owners_def reserveAdmission_def Let_def
        intro!: spaced_admit admission_time_ge)
qed

lemma gate_invariant_enter:
  assumes "gate_invariant s" and "i \<notin> known s"
  shows "gate_invariant (enter now i s)"
proof -
  note inv = gate_invariantD [OF assms(1)]
  have new: "i \<notin> set (owners s)" "i \<notin> set (g_queue (sys_gate s))"
    using assms(2) by (auto simp: known_def)
  show ?thesis
  proof (cases "immediate now (sys_gate s)")
    case True
    then show ?thesis
      using inv new
      by (intro gate_invariantI)
        (auto simp: enter_def admit_def owners_def reserveAdmission_def immediate_def
          admission_time_def intro!: spaced_admit)
  next
    case False
    then show ?thesis
      using inv new
      by (intro gate_invariantI)
        (auto simp: enter_def owners_def gate_acquire_def Let_def split: if_splits)
  qed
qed

lemma gate_invariant_finish:
  assumes "gate_invariant s" and "i \<in> set (owners s)"
  shows "gate_invariant (finish now aborted i r s)"
proof -
  note inv = gate_invariantD [OF assms(1)]
  let ?g = "record_outcome now r (sys_gate s)"
  obtain a q resolved rejected
    where l: "release_loop aborted (g_active (sys_gate s) - Suc 0) (g_queue (sys_gate s))
                = (a, q, resolved, rejected)"
    by (metis prod_cases4)
  have "g_active (sys_gate s) - Suc 0 \<le> MAX_CONCURRENT_REFRESHES" using inv(2) by simp
  from release_loop_spec [OF l this]
  obtain pre where spec: "a = g_active (sys_gate s) - 1 + length resolved" "a \<le> MAX_CONCURRENT_REFRESHES"
      "q \<noteq> [] \<Longrightarrow> a = MAX_CONCURRENT_REFRESHES"
      "g_queue (sys_gate s) = pre @ q" "resolved = filter (\<lambda>w. \<not> aborted w) pre"
    by auto
  have dist: "distinct (sys_granted s)" "distinct (sys_running s)"
      "set (sys_granted s) \<inter> set (sys_running s) = {}"
      "distinct (pre @ q)" "set (owners s) \<inter> set (pre @ q) = {}"
    using inv(4) spec(4) by (auto simp: owners_def)
  have own: "owners (finish now aborted i r s)
      = remove1 i (sys_granted s) @ resolved @ remove1 i (sys_running s)"
    by (simp add: finish_def gate_release_def Let_def l owners_def)
  let ?rest = "remove1 i (sys_granted s) @ remove1 i (sys_running s)"
  have "mset (owners s) = add_mset i (mset ?rest)"
  proof (cases "i \<in> set (sys_granted s)")
    case True
    with dist(3) have "remove1 i (sys_running s) = sys_running s" by (auto intro: remove1_idem)
    with True show ?thesis by (simp add: owners_def)
  next
    case False
    with assms(2) have "i \<in> set (sys_running s)" by (simp add: owners_def)
    with False show ?thesis by (simp add: owners_def remove1_idem)
  qed
  then have perm: "mset (owners s) = mset (i # ?rest)" by simp
  have len: "length (owners s) = Suc (length ?rest)"
    using mset_eq_length [OF perm] by simp
  have "distinct (i # ?rest)"
    using perm inv(4) by (metis distinct_append mset_eq_imp_distinct_iff)
  then have rest: "distinct ?rest" by simp
  have sub: "set ?rest \<subseteq> set (owners s)"
    using mset_eq_setD [OF perm] by auto
  have len': "length (owners (finish now aborted i r s)) = a"
    using spec(1) inv(1) len by (simp add: own)
  have "distinct (?rest @ resolved @ q)"
    using rest sub dist(4,5) spec(5) by (auto simp: distinct_filter)
  moreover have "mset (?rest @ resolved @ q) = mset (owners (finish now aborted i r s) @ q)"
    by (simp add: own)
  ultimately have dist': "distinct (owners (finish now aborted i r s) @ q)"
    by (metis mset_eq_imp_distinct_iff)
  have "sys_gate (finish now aborted i r s) =
      (let g1 = ?g\<lparr>g_active := a, g_queue := q\<rparr>
       in if a = 0 \<and> q = [] then g1\<lparr>g_nextAdmissionAt := 0, g_transientFailures := 0, g_deferUntil := 0\<rparr>
          else g1)"
    by (simp add: finish_def gate_release_def Let_def l)
  moreover have "sys_admissions (finish now aborted i r s) =
      (if a = 0 \<and> q = [] then [] else sys_admissions s)"
    by (simp add: finish_def gate_release_def Let_def l)
  ultimately show ?thesis
    using len' dist' spec(2,3) inv(5) by (intro gate_invariantI) (auto simp: Let_def)
qed

lemma gate_invariant_abort:
  assumes "gate_invariant s"
  shows "gate_invariant (abort_waiter i s)"
proof -
  note inv = gate_invariantD [OF assms]
  have "set (remove1 i (g_queue (sys_gate s))) \<subseteq> set (g_queue (sys_gate s))"
    by (rule set_remove1_subset)
  moreover have "g_queue (sys_gate s) \<noteq> []" if "remove1 i (g_queue (sys_gate s)) \<noteq> []"
    using that by auto
  ultimately show ?thesis using inv
    by (intro gate_invariantI)
      (auto simp: abort_waiter_def owners_def distinct_remove1)
qed

lemma gate_invariant_step: "gate_step s t \<Longrightarrow> gate_invariant s \<Longrightarrow> gate_invariant t"
  by (induction rule: gate_step.induct)
    (simp_all add: gate_invariant_enter gate_invariant_admit gate_invariant_finish
      gate_invariant_abort owners_def)

lemma gate_invariant_reachable: "gate_reachable s \<Longrightarrow> gate_invariant s"
  by (induction rule: gate_reachable.induct) (auto intro: gate_invariant_new gate_invariant_step)

text \<open>The backoff of a burst.\<close>

lemma recordTransientFailure_bounds:
  "g_deferUntil g \<le> g_deferUntil (recordTransientFailure now g)
   \<and> g_deferUntil (recordTransientFailure now g) \<le> max (g_deferUntil g) (now + MAX_PROVIDER_DEFER_MS)"
  by (auto simp: recordTransientFailure_def Let_def MAX_PROVIDER_DEFER_MS_def)

end
