(* ===== verification/Service_Properties.thy ===== *)
theory Service_Properties
  imports Health_Properties Reasoning_Policy OAuth_Gate
begin

text \<open>
  The properties of the ratings shown for an account, of the reasoning policy and of the gate in
  front of the OAuth token requests.
\<close>

section \<open>Ratings\<close>

text \<open>
  The fitness score of an account that has statistics is the rounded blend of its measured
  rating (reliability, responsiveness, throughput and stability) with the neutral prior 72, weighted
  by the confidence in the samples; it lies between the two, up to rounding, and between 0 and 100.
\<close>

theorem fitness_score:
  assumes "health_step\<^sup>*\<^sup>* (c, empty_health) (d, h)" and "hs_performance h i = Some st"
  shows "let t = max 0 (now - pf_updatedAt st); blend = blended_score a st t in
    fit_score (fitness a (Some st) now) = Some (js_round blend)
    \<and> min (raw_score a st t) 72 \<le> blend \<and> blend \<le> max (raw_score a st t) 72
    \<and> 0 \<le> js_round blend \<and> js_round blend \<le> 100"
proof -
  let ?t = "max 0 (now - pf_updatedAt st)"
  have "health_ok h" using health_ok_run [OF assms(1)] health_ok_empty by simp
  then have ok: "performance_ok st" using assms(2) by (auto simp: health_ok_def statistics_ok_def maybe_ok_def)
  have between: "min (raw_score a st ?t) 72 \<le> blended_score a st ?t \<and> blended_score a st ?t \<le> max (raw_score a st ?t) 72"
    by (rule blended_score_between [OF ok]) simp
  moreover have "0 \<le> raw_score a st ?t" "raw_score a st ?t \<le> 100"
    using raw_score_range [OF ok, of ?t a] by simp_all
  ultimately have "0 \<le> js_round (blended_score a st ?t) \<and> js_round (blended_score a st ?t) \<le> 100"
    by (intro js_round_range) linarith+
  with between fitness_score_eq [OF ok, of a now] show ?thesis by (simp add: Let_def)
qed

theorem fitness_score_witness:
  "\<exists>st. hs_performance (snd (recordPerformance 1000 ''a'' no_sample None None empty_health)) ''a'' = Some st
    \<and> fit_score (fitness account_a (Some st) 2000) = Some (js_round (blended_score account_a st (max 0 (2000 - pf_updatedAt st))))"
proof -
  let ?h = "snd (recordPerformance 1000 ''a'' no_sample None None empty_health)"
  have "health_step\<^sup>*\<^sup>* (empty_sticky_cache 10 5, empty_health) (empty_sticky_cache 10 5, ?h)"
    by (rule r_into_rtranclp, rule health_step.Performance [OF prod.collapse [symmetric]])
  moreover obtain st where "hs_performance ?h ''a'' = Some st"
    by (simp add: recordPerformance_def observeOutcome_def)
  ultimately show ?thesis using fitness_score [of "empty_sticky_cache 10 5"] by (simp add: Let_def)
qed

section \<open>Reasoning effort\<close>

lemma effort_name_round [simp]: "normalizeReasoningEffort (Some (effort_name e)) = Some e"
proof -
  have "list_all (\<lambda>e. normalizeReasoningEffort (Some (effort_name e)) = Some e) REASONING_EFFORTS"
    by code_simp
  then show ?thesis by (simp add: list_all_iff)
qed

lemma normalized_lookup:
  "(case normalizeReasoningEffortMap (Some raw) of None \<Rightarrow> None | Some m \<Rightarrow> map_option effort_name (map_get m e))
   = (case normalizeReasoningEffort (raw (effort_name e)) of
        None \<Rightarrow> None | Some m \<Rightarrow> if m = e then None else Some (effort_name m))"
  using collect_efforts_lookup [of raw REASONING_EFFORTS "[]" e]
  by (auto simp: normalizeReasoningEffortMap_def Let_def split: option.splits)

text \<open>
  Normalising the effort map of a policy does not change what it does: through the stored map,
  which keeps only the recognised entries that differ from their key, a request gets the effort it
  would get from the raw map. The effort is absent exactly when the requested one is not recognised,
  and never above the cap.
\<close>

theorem reasoning_policy_normalized:
  "applyReasoningEffortPolicy requested cap (\<lambda>e. raw (effort_name e))
     = applyReasoningEffortPolicy requested cap (\<lambda>e. case normalizeReasoningEffortMap (Some raw) of
         None \<Rightarrow> None | Some m \<Rightarrow> map_option effort_name (map_get m e))
   \<and> (applyReasoningEffortPolicy requested cap mapping = None) = (normalizeReasoningEffort requested = None)
   \<and> (case (cap, applyReasoningEffortPolicy requested cap mapping) of
        (Some c, Some e) \<Rightarrow> e \<le> c | _ \<Rightarrow> True)"
proof -
  have "(case normalizeReasoningEffort (raw (effort_name e)) of None \<Rightarrow> e | Some m \<Rightarrow> m)
      = (case normalizeReasoningEffort (case normalizeReasoningEffortMap (Some raw) of
           None \<Rightarrow> None | Some m \<Rightarrow> map_option effort_name (map_get m e)) of None \<Rightarrow> e | Some m \<Rightarrow> m)" for e
    unfolding normalized_lookup
    by (auto simp: normalizeReasoningEffort_def [of None] split: option.split)
  then show ?thesis
    by (auto simp: applyReasoningEffortPolicy_def Let_def less_eq_reasoning_effort_def not_less
        split: option.splits)
qed

section \<open>The gate of the OAuth token requests\<close>

text \<open>
  C40. In every reachable state of the gate at most two token requests are in progress, no request
  waits while fewer are, every request is in one place only, and the admissions of a burst, that
  is since the gate was last idle, are at least the minimum interval apart, the next one not before the
  time the gate has reserved. A new burst starts without waiting for the last one.
\<close>

theorem oauth_gate_bounded:
  assumes "gate_reachable s"
  shows "length (owners s) \<le> MAX_CONCURRENT_REFRESHES
    \<and> g_active (sys_gate s) = length (owners s)
    \<and> (if g_queue (sys_gate s) \<noteq> [] then length (owners s) = MAX_CONCURRENT_REFRESHES else True)
    \<and> distinct (owners s @ g_queue (sys_gate s))
    \<and> sorted_wrt (\<lambda>later earlier. earlier + MIN_ADMISSION_INTERVAL_MS \<le> later) (sys_admissions s)
    \<and> list_all (\<lambda>t. t + MIN_ADMISSION_INTERVAL_MS \<le> g_nextAdmissionAt (sys_gate s)) (sys_admissions s)"
  using gate_invariantD [OF gate_invariant_reachable [OF assms]]
  by (auto simp: spaced_def list_all_iff)

text \<open>Three requests arriving at once: one runs, one holds a slot, one is queued.\<close>

lemma gate_samples:
  "enter 0 5 new_system = \<lparr>sys_gate = \<lparr>g_active = 1, g_queue = [],
     g_nextAdmissionAt = MIN_ADMISSION_INTERVAL_MS, g_transientFailures = 0, g_deferUntil = 0\<rparr>,
     sys_granted = [], sys_running = [5], sys_admissions = [0]\<rparr>"
  "enter 0 6 (enter 0 5 new_system) = \<lparr>sys_gate = \<lparr>g_active = 2, g_queue = [],
     g_nextAdmissionAt = MIN_ADMISSION_INTERVAL_MS, g_transientFailures = 0, g_deferUntil = 0\<rparr>,
     sys_granted = [6], sys_running = [5], sys_admissions = [0]\<rparr>"
  "enter 0 7 (enter 0 6 (enter 0 5 new_system)) = \<lparr>sys_gate = \<lparr>g_active = 2, g_queue = [7],
     g_nextAdmissionAt = MIN_ADMISSION_INTERVAL_MS, g_transientFailures = 0, g_deferUntil = 0\<rparr>,
     sys_granted = [6], sys_running = [5], sys_admissions = [0]\<rparr>"
proof -
  show one: "enter 0 5 new_system = \<lparr>sys_gate = \<lparr>g_active = 1, g_queue = [],
     g_nextAdmissionAt = MIN_ADMISSION_INTERVAL_MS, g_transientFailures = 0, g_deferUntil = 0\<rparr>,
     sys_granted = [], sys_running = [5], sys_admissions = [0]\<rparr>"
    by (simp add: enter_def new_system_def new_gate_def immediate_def admit_def reserveAdmission_def
        admission_time_def MAX_CONCURRENT_REFRESHES_def Let_def)
  show two: "enter 0 6 (enter 0 5 new_system) = \<lparr>sys_gate = \<lparr>g_active = 2, g_queue = [],
     g_nextAdmissionAt = MIN_ADMISSION_INTERVAL_MS, g_transientFailures = 0, g_deferUntil = 0\<rparr>,
     sys_granted = [6], sys_running = [5], sys_admissions = [0]\<rparr>"
    unfolding one by (simp add: enter_def immediate_def gate_acquire_def MAX_CONCURRENT_REFRESHES_def
        MIN_ADMISSION_INTERVAL_MS_def Let_def)
  show "enter 0 7 (enter 0 6 (enter 0 5 new_system)) = \<lparr>sys_gate = \<lparr>g_active = 2, g_queue = [7],
     g_nextAdmissionAt = MIN_ADMISSION_INTERVAL_MS, g_transientFailures = 0, g_deferUntil = 0\<rparr>,
     sys_granted = [6], sys_running = [5], sys_admissions = [0]\<rparr>"
    unfolding two by (simp add: enter_def immediate_def gate_acquire_def MAX_CONCURRENT_REFRESHES_def
        MIN_ADMISSION_INTERVAL_MS_def Let_def)
qed

lemma gate_sample: "gate_reachable (enter 0 7 (enter 0 6 (enter 0 5 new_system)))"
proof (rule gate_reachable.move [OF gate_reachable.move [OF gate_reachable.move [OF gate_reachable.start]]])
  show "gate_step new_system (enter 0 5 new_system)"
    by (rule gate_step.Enter) (simp add: known_def owners_def new_system_def new_gate_def)
  show "gate_step (enter 0 5 new_system) (enter 0 6 (enter 0 5 new_system))"
    by (rule gate_step.Enter) (simp add: gate_samples(1) known_def owners_def)
  show "gate_step (enter 0 6 (enter 0 5 new_system)) (enter 0 7 (enter 0 6 (enter 0 5 new_system)))"
    by (rule gate_step.Enter) (simp add: gate_samples(2) known_def owners_def)
qed

theorem oauth_gate_bounded_witness:
  "let s = enter 0 7 (enter 0 6 (enter 0 5 new_system))
   in g_queue (sys_gate s) = [7] \<and> length (owners s) = 2"
  using oauth_gate_bounded [OF gate_sample] by (simp add: Let_def MAX_CONCURRENT_REFRESHES_def gate_samples(3))

end
