(* ===== verification/Route_Proofs.thy ===== *)
theory Route_Proofs
  imports Route_Preview
begin

text \<open>
  What the route components promise: when a pool's topology is valid, which ids resolve, what
  the menus list, which models a source exposes, and what an unblocked preview means.
\<close>

section \<open>The topology index\<close>

lemma index_first_spec:
  "index_first key xs byId dups = (byId', dups') \<Longrightarrow>
   (\<forall>k. byId' k = (case byId k of Some x \<Rightarrow> Some x | None \<Rightarrow> find (\<lambda>x. key x = k) xs))
   \<and> (\<forall>k. k \<in> dups' \<longleftrightarrow> k \<in> dups \<or>
        length (filter (\<lambda>x. key x = k) xs) \<ge> (if byId k = None then 2 else 1))"
proof (induction xs arbitrary: byId dups)
  case Nil
  then show ?case by (auto split: option.split)
next
  case (Cons x xs)
  show ?case
  proof (cases "byId (key x) = None")
    case True
    then have "index_first key xs (byId(key x \<mapsto> x)) dups = (byId', dups')" using Cons.prems by simp
    note ih = Cons.IH [OF this]
    have "byId' k = (case byId k of Some y \<Rightarrow> Some y | None \<Rightarrow> find (\<lambda>y. key y = k) (x # xs))" for k
      using ih True by (cases "key x = k") (auto split: option.split)
    moreover have "k \<in> dups' \<longleftrightarrow> k \<in> dups \<or>
        length (filter (\<lambda>y. key y = k) (x # xs)) \<ge> (if byId k = None then 2 else 1)" for k
      using ih True by (cases "key x = k") auto
    ultimately show ?thesis by blast
  next
    case False
    then have "index_first key xs byId (insert (key x) dups) = (byId', dups')" using Cons.prems by simp
    note ih = Cons.IH [OF this]
    have "byId' k = (case byId k of Some y \<Rightarrow> Some y | None \<Rightarrow> find (\<lambda>y. key y = k) (x # xs))" for k
      using ih False by (cases "key x = k") (auto split: option.split)
    moreover have "k \<in> dups' \<longleftrightarrow> k \<in> dups \<or>
        length (filter (\<lambda>y. key y = k) (x # xs)) \<ge> (if byId k = None then 2 else 1)" for k
      using ih False by (cases "key x = k") auto
    ultimately show ?thesis by blast
  qed
qed

lemma filter_single_find:
  "(\<exists>x. filter P xs = [x]) \<longleftrightarrow> find P xs \<noteq> None \<and> \<not> 2 \<le> length (filter P xs)"
proof -
  have "find P xs = None \<longleftrightarrow> filter P xs = []"
    by (auto simp: find_None_iff filter_empty_conv)
  moreover have "(\<exists>x. ys = [x]) \<longleftrightarrow> ys \<noteq> [] \<and> \<not> 2 \<le> length ys" for ys :: "'a list"
    by (cases ys; cases "tl ys") auto
  ultimately show ?thesis by simp
qed

lemma filter_single_value: "filter P xs = [x] \<Longrightarrow> find P xs = Some x"
proof (induction xs)
  case Nil
  then show ?case by simp
next
  case (Cons y ys)
  then show ?case by (auto split: if_splits)
qed

text \<open>The index answers with the object when exactly one has the id.\<close>

lemma index_unique:
  fixes as ps
  defines "t \<equiv> createRouteSourceTopologyIndex as ps"
  shows "ti_accountsById t i = Some a \<and> i \<notin> ti_duplicateAccountIds t \<longleftrightarrow> filter (\<lambda>x. acc_id x = i) as = [a]"
    and "ti_providersById t j = Some p \<and> j \<notin> ti_duplicateProviderIds t \<longleftrightarrow> filter (\<lambda>x. prov_id x = j) ps = [p]"
proof -
  obtain ba da where a: "index_first acc_id as Map.empty {} = (ba, da)"
    by (cases "index_first acc_id as Map.empty {}")
  obtain bp dp where p: "index_first prov_id ps Map.empty {} = (bp, dp)"
    by (cases "index_first prov_id ps Map.empty {}")
  have fields: "ti_accountsById t = ba" "ti_duplicateAccountIds t = da"
    "ti_providersById t = bp" "ti_duplicateProviderIds t = dp"
    by (simp_all add: t_def createRouteSourceTopologyIndex_def a p)
  show "ti_accountsById t i = Some a \<and> i \<notin> ti_duplicateAccountIds t \<longleftrightarrow> filter (\<lambda>x. acc_id x = i) as = [a]"
    using index_first_spec [OF a] filter_single_find [of "\<lambda>x. acc_id x = i" as]
      filter_single_value [of "\<lambda>x. acc_id x = i" as]
    by (auto simp: fields)
  show "ti_providersById t j = Some p \<and> j \<notin> ti_duplicateProviderIds t \<longleftrightarrow> filter (\<lambda>x. prov_id x = j) ps = [p]" for p
    using index_first_spec [OF p] filter_single_find [of "\<lambda>x. prov_id x = j" ps]
      filter_single_value [of "\<lambda>x. prov_id x = j" ps]
    by (auto simp: fields)
qed

text \<open>A member with the account and the provider it names, when each is unique.\<close>

definition member_pair :: "account list \<Rightarrow> provider list \<Rightarrow> pool_member \<Rightarrow> account \<times> provider \<Rightarrow> bool" where
  "member_pair as ps m = (\<lambda>(a, p).
     filter (\<lambda>x. acc_id x = mem_accountId m) as = [a]
     \<and> filter (\<lambda>x. prov_id x = acc_providerId a) ps = [p])"

lemma declared_members_Some:
  "declared_members (createRouteSourceTopologyIndex as ps) ms = Some ds \<longleftrightarrow>
   list_all2 (member_pair as ps) ms ds"
proof (induction ms arbitrary: ds)
  case Nil
  then show ?case by auto
next
  case (Cons m ms)
  let ?t = "createRouteSourceTopologyIndex as ps"
  show ?case
  proof (cases "\<exists>a p. member_pair as ps m (a, p)")
    case True
    then obtain a p where ap: "filter (\<lambda>x. acc_id x = mem_accountId m) as = [a]"
      "filter (\<lambda>x. prov_id x = acc_providerId a) ps = [p]"
      by (auto simp: member_pair_def)
    have head: "member_pair as ps m d \<longleftrightarrow> d = (a, p)" for d
      using ap by (auto simp: member_pair_def)
    have "declared_members ?t (m # ms) = map_option (\<lambda>rest. (a, p) # rest) (declared_members ?t ms)"
      using index_unique(1) [of as ps "mem_accountId m" a, THEN iffD2, OF ap(1)]
        index_unique(2) [of as ps "acc_providerId a" p, THEN iffD2, OF ap(2)]
      by simp
    then show ?thesis using Cons.IH head by (cases ds) auto
  next
    case False
    have "declared_members ?t (m # ms) = None"
    proof (rule ccontr)
      assume "declared_members ?t (m # ms) \<noteq> None"
      then obtain a p where "ti_accountsById ?t (mem_accountId m) = Some a"
        "mem_accountId m \<notin> ti_duplicateAccountIds ?t"
        "ti_providersById ?t (acc_providerId a) = Some p"
        "acc_providerId a \<notin> ti_duplicateProviderIds ?t"
        by (auto split: if_splits option.splits)
      then have "member_pair as ps m (a, p)"
        using index_unique(1) [of as ps "mem_accountId m" a] index_unique(2) [of as ps "acc_providerId a" p]
        by (simp add: member_pair_def)
      with False show False by blast
    qed
    with False show ?thesis by (cases ds) auto
  qed
qed

lemma unique_singleton: "length (unique xs) = 1 \<longleftrightarrow> (\<exists>x. xs \<noteq> [] \<and> (\<forall>y \<in> set xs. y = x))"
proof
  assume "length (unique xs) = 1"
  then obtain x where "unique xs = [x]" by (auto simp: length_Suc_conv)
  then have "set xs = {x}" by (metis set_unique list.set(1) list.simps(15))
  then show "\<exists>x. xs \<noteq> [] \<and> (\<forall>y \<in> set xs. y = x)" by (intro exI [of _ x]) auto
next
  assume "\<exists>x. xs \<noteq> [] \<and> (\<forall>y \<in> set xs. y = x)"
  then obtain x where x: "xs \<noteq> []" "\<forall>y \<in> set xs. y = x" by blast
  then have "set (unique xs) = {x}" by (cases xs) auto
  then have "card (set (unique xs)) = 1" by (simp only: card.empty card.insert) simp
  then show "length (unique xs) = 1" using distinct_card [OF distinct_unique, of xs] by simp
qed

text \<open>
  A pool is valid when it has members and each names exactly one account and one provider, all
  of one family, each fit for the pool's protocol.
\<close>

lemma topology_valid_iff:
  "isRouteSourcePoolTopologyValid pl (createRouteSourceTopologyIndex as ps) \<longleftrightarrow>
   pool_members pl \<noteq> []
   \<and> (\<exists>family. \<forall>m \<in> set (pool_members pl). \<exists>a p. member_pair as ps m (a, p)
        \<and> providerSourceFamily (prov_kind p) = family \<and> member_matches pl (a, p))"
  (is "?valid \<longleftrightarrow> ?ne \<and> ?each")
proof
  assume valid: ?valid
  then have ne: ?ne by (auto simp: isRouteSourcePoolTopologyValid_def)
  from valid obtain ds where ds: "declared_members (createRouteSourceTopologyIndex as ps) (pool_members pl) = Some ds"
    and one: "length (unique (map (\<lambda>(a, p). providerSourceFamily (prov_kind p)) ds)) = 1"
    and fit: "list_all (member_matches pl) ds"
    by (auto simp: isRouteSourcePoolTopologyValid_def split: if_splits option.splits)
  from one obtain family where family: "\<forall>d \<in> set ds. providerSourceFamily (prov_kind (snd d)) = family"
    unfolding unique_singleton by (auto simp: split_beta)
  have "\<exists>d \<in> set ds. member_pair as ps m d" if "m \<in> set (pool_members pl)" for m
    using ds that unfolding declared_members_Some by (metis list_all2_conv_all_nth in_set_conv_nth)
  then have "\<exists>a p. member_pair as ps m (a, p) \<and> providerSourceFamily (prov_kind p) = family
      \<and> member_matches pl (a, p)" if "m \<in> set (pool_members pl)" for m
    using family fit that unfolding list_all_iff by (metis prod.collapse)
  then have ?each by blast
  with ne show "?ne \<and> ?each" ..
next
  assume h: "?ne \<and> ?each"
  then obtain family where f: "\<And>m. m \<in> set (pool_members pl) \<Longrightarrow> \<exists>d. member_pair as ps m d
      \<and> providerSourceFamily (prov_kind (snd d)) = family \<and> member_matches pl d"
    by fastforce
  then have "\<exists>d. \<forall>m. m \<in> set (pool_members pl) \<longrightarrow> member_pair as ps m (d m)
      \<and> providerSourceFamily (prov_kind (snd (d m))) = family \<and> member_matches pl (d m)"
    by (intro choice) blast
  then obtain d where d: "\<And>m. m \<in> set (pool_members pl) \<Longrightarrow> member_pair as ps m (d m)
      \<and> providerSourceFamily (prov_kind (snd (d m))) = family \<and> member_matches pl (d m)" by blast
  have dec: "declared_members (createRouteSourceTopologyIndex as ps) (pool_members pl) = Some (map d (pool_members pl))"
    unfolding declared_members_Some using d by (simp add: list_all2_map2 list_all2_same)
  have "length (unique (map (\<lambda>(a, p). providerSourceFamily (prov_kind p)) (map d (pool_members pl)))) = 1"
    unfolding unique_singleton using h d by (intro exI [of _ family]) (auto simp: split_beta)
  then show ?valid
    using h d dec by (simp add: isRouteSourcePoolTopologyValid_def list_all_iff)
qed

section \<open>Resolution\<close>

text \<open>An id in use by a pool and by a provider resolves to nothing; otherwise it names itself.\<close>

lemma find_key: "find (\<lambda>x. key x = k) xs = Some x \<Longrightarrow> x \<in> set xs \<and> key x = k"
  by (auto simp: find_Some_iff)

lemma resolve_persisted:
  assumes "resolveRouteSource i c = Some s" and "res_provider s = None"
  shows "\<exists>pl \<in> set (col_pools c). pool_id pl = i \<and> s = persisted_source pl (col_accounts c)"
    and "i \<notin> prov_id ` set (col_providers c)"
proof -
  obtain pl where "find (\<lambda>pl. pool_id pl = i) (col_pools c) = Some pl"
    "find (\<lambda>p. prov_id p = i) (col_providers c) = None" "s = persisted_source pl (col_accounts c)"
    using assms
    by (auto simp: resolveRouteSource_def Let_def split: if_splits option.splits list.splits)
  then show "\<exists>pl \<in> set (col_pools c). pool_id pl = i \<and> s = persisted_source pl (col_accounts c)"
    and "i \<notin> prov_id ` set (col_providers c)"
    using find_key by (fastforce simp: find_None_iff)+
qed

lemma resolve_virtual:
  assumes "resolveRouteSource i c = Some s" and "res_provider s = Some p"
  shows "p \<in> set (col_providers c) \<and> prov_id p = i \<and> prov_sourceType p \<in> {Official_Api, Relay}"
    and "i \<notin> pool_id ` set (col_pools c)"
    and "\<exists>a. filter (\<lambda>a. acc_providerId a = i) (col_accounts c) = [a] \<and> acc_credentialType a = Some Api_Key
        \<and> res_accounts s = [a] \<and> res_pool s = virtual_pool p a"
proof -
  have none: "find (\<lambda>pl. pool_id pl = i) (col_pools c) = None"
    and some: "find (\<lambda>p. prov_id p = i) (col_providers c) = Some p"
    and shape: "prov_sourceType p \<in> {Official_Api, Relay}"
      "\<exists>a. filter (\<lambda>a. acc_providerId a = prov_id p) (col_accounts c) = [a] \<and> acc_credentialType a = Some Api_Key
        \<and> res_accounts s = [a] \<and> res_pool s = virtual_pool p a"
    using assms
    by (auto simp: resolveRouteSource_def persisted_source_def Let_def split: if_splits option.splits list.splits)
  show p: "p \<in> set (col_providers c) \<and> prov_id p = i \<and> prov_sourceType p \<in> {Official_Api, Relay}"
    using find_key [OF some] shape(1) by simp
  show "i \<notin> pool_id ` set (col_pools c)" using none by (auto simp: find_None_iff)
  show "\<exists>a. filter (\<lambda>a. acc_providerId a = i) (col_accounts c) = [a] \<and> acc_credentialType a = Some Api_Key
        \<and> res_accounts s = [a] \<and> res_pool s = virtual_pool p a"
    using shape(2) p by simp
qed

lemma resolve_id:
  assumes "resolveRouteSource i c = Some s"
  shows "rs_id (res_summary s) = i \<and> pool_id (res_pool s) = i"
proof (cases "res_provider s")
  case None
  from resolve_persisted(1) [OF assms None] show ?thesis by (auto simp: persisted_source_def Let_def)
next
  case (Some p)
  have "rs_id (res_summary s) = prov_id p"
    using assms Some
    by (auto simp: resolveRouteSource_def persisted_source_def Let_def split: if_splits option.splits list.splits)
  with resolve_virtual(1,3) [OF assms Some] show ?thesis by (auto simp: virtual_pool_def)
qed

lemma collision_never_resolves: "hasRouteSourceIdCollision i c \<Longrightarrow> resolveRouteSource i c = None"
proof -
  assume "hasRouteSourceIdCollision i c"
  then have "find (\<lambda>pl. pool_id pl = i) (col_pools c) \<noteq> None"
    "find (\<lambda>p. prov_id p = i) (col_providers c) \<noteq> None"
    by (auto simp: hasRouteSourceIdCollision_def find_None_iff list_ex_iff)
  then show ?thesis by (auto simp: resolveRouteSource_def Let_def)
qed

lemma resolve_named: "resolveRouteSource i c = Some s \<Longrightarrow>
  i \<in> pool_id ` set (col_pools c) \<union> prov_id ` set (col_providers c)"
  by (cases "res_provider s") (auto dest: resolve_persisted(1) resolve_virtual(1))

section \<open>Menus\<close>

lemma list_sources_loop_spec:
  "(\<forall>r \<in> set (list_sources_loop opts now c index ids seen).
      \<exists>s. resolveRouteSource (rs_id r) c = Some s \<and> r = res_summary s \<and> listed opts now c index s)
   \<and> distinct (map rs_id (list_sources_loop opts now c index ids seen))
   \<and> rs_id ` set (list_sources_loop opts now c index ids seen)
     = {i \<in> set ids. i \<notin> set seen \<and> (\<exists>s. resolveRouteSource i c = Some s \<and> listed opts now c index s)}"
proof (induction ids arbitrary: seen)
  case Nil
  then show ?case by simp
next
  case (Cons i ids)
  consider "i \<in> set seen"
    | "i \<notin> set seen" "\<nexists>s. resolveRouteSource i c = Some s \<and> listed opts now c index s"
    | s where "i \<notin> set seen" "resolveRouteSource i c = Some s" "listed opts now c index s"
    by blast
  then show ?case
  proof cases
    case 1
    with Cons.IH [of seen] show ?thesis by auto
  next
    case 2
    then have "list_sources_loop opts now c index (i # ids) seen = list_sources_loop opts now c index ids (i # seen)"
      by (auto split: option.split)
    with 2 Cons.IH [of "i # seen"] show ?thesis by auto
  next
    case (3 s)
    then have "list_sources_loop opts now c index (i # ids) seen
        = res_summary s # list_sources_loop opts now c index ids (i # seen)"
      by simp
    with 3 Cons.IH [of "i # seen"] resolve_id [OF 3(2)] show ?thesis by auto
  qed
qed

text \<open>A menu lists each acceptable id once, and only those.\<close>

lemma listRouteSources_spec:
  "distinct (map rs_id (listRouteSources c opts now))"
  "i \<in> rs_id ` set (listRouteSources c opts now) \<longleftrightarrow>
     (\<exists>s. resolveRouteSource i c = Some s \<and> listed opts now c (collections_index c) s)"
  "r \<in> set (listRouteSources c opts now) \<Longrightarrow>
     \<exists>s. resolveRouteSource (rs_id r) c = Some s \<and> r = res_summary s"
  using list_sources_loop_spec [of opts now c "collections_index c" "map pool_id (col_pools c) @ map prov_id (col_providers c)" "[]"]
    resolve_named [of i c]
  by (auto simp: listRouteSources_def)

section \<open>Runtime pools\<close>

lemma append_runtime_loop_spec:
  "append_runtime_loop c ids pools seen = Inr result \<Longrightarrow>
   (\<forall>i \<in> set ids. i \<noteq> [] \<longrightarrow> \<not> hasRouteSourceIdCollision i c)
   \<and> (\<exists>new. result = pools @ new \<and> distinct (map pool_id new) \<and> set (map pool_id new) \<inter> set seen = {}
        \<and> pool_id ` set new = {i \<in> set ids. i \<notin> set seen \<and>
             (\<exists>s. resolveRouteSource i c = Some s \<and> res_provider s \<noteq> None)}
        \<and> (\<forall>pl \<in> set new. \<exists>s. resolveRouteSource (pool_id pl) c = Some s \<and> pl = res_pool s))"
proof (induction ids arbitrary: pools seen)
  case Nil
  then show ?case by simp
next
  case (Cons i ids)
  have empty: "resolveRouteSource [] c = None" by (simp add: resolveRouteSource_def)
  consider "i = []" | "i \<noteq> []" "hasRouteSourceIdCollision i c"
    | "i \<noteq> []" "\<not> hasRouteSourceIdCollision i c"
        "i \<in> set seen \<or> (\<nexists>s. resolveRouteSource i c = Some s \<and> res_provider s \<noteq> None)"
    | s where "i \<noteq> []" "\<not> hasRouteSourceIdCollision i c" "i \<notin> set seen"
        "resolveRouteSource i c = Some s" "res_provider s \<noteq> None"
    by blast
  then show ?case
  proof cases
    case 1
    with Cons.IH [of pools seen] Cons.prems empty show ?thesis by auto
  next
    case 2
    with Cons.prems show ?thesis by simp
  next
    case 3
    then have "append_runtime_loop c ids pools seen = Inr result"
      using Cons.prems by (auto split: option.splits if_splits)
    with 3 Cons.IH [OF this] show ?thesis by auto
  next
    case (4 s)
    then have "append_runtime_loop c ids (pools @ [res_pool s]) (i # seen) = Inr result"
      using Cons.prems by auto
    from Cons.IH [OF this] obtain new where new: "result = pools @ res_pool s # new"
      "distinct (map pool_id new)" "set (map pool_id new) \<inter> set (i # seen) = {}"
      "pool_id ` set new = {j \<in> set ids. j \<notin> set (i # seen) \<and>
             (\<exists>s. resolveRouteSource j c = Some s \<and> res_provider s \<noteq> None)}"
      "\<forall>pl \<in> set new. \<exists>s. resolveRouteSource (pool_id pl) c = Some s \<and> pl = res_pool s"
      and clean: "\<forall>i \<in> set ids. i \<noteq> [] \<longrightarrow> \<not> hasRouteSourceIdCollision i c" by auto
    have pid: "pool_id (res_pool s) = i" using resolve_id [OF 4(4)] by simp
    have "pool_id ` set (res_pool s # new) = {j \<in> set (i # ids). j \<notin> set seen \<and>
             (\<exists>s. resolveRouteSource j c = Some s \<and> res_provider s \<noteq> None)}"
      using new(4) 4 pid by auto
    moreover have "distinct (map pool_id (res_pool s # new))" using new(2,3) pid by auto
    moreover have "set (map pool_id (res_pool s # new)) \<inter> set seen = {}" using new(3) pid 4(3) by auto
    moreover have "\<forall>pl \<in> set (res_pool s # new). \<exists>s. resolveRouteSource (pool_id pl) c = Some s \<and> pl = res_pool s"
      using new(5) 4(4) pid by auto
    ultimately show ?thesis using clean 4(1,2) new(1) by auto
  qed
qed

section \<open>Members of a pool\<close>

lemma accounts_by_id_Some: "accounts_by_id as i = Some a \<Longrightarrow> a \<in> set as \<and> acc_id a = i"
  unfolding accounts_by_id_def by (auto dest!: map_of_SomeD)

lemma enabled_accounts_loop_spec:
  "(\<forall>a \<in> set (enabled_accounts_loop (accounts_by_id as) ms seen).
      a \<in> set as \<and> acc_id a \<notin> set seen
      \<and> (\<exists>m \<in> set ms. mem_enabled m \<and> mem_accountId m = acc_id a))
   \<and> distinct (map acc_id (enabled_accounts_loop (accounts_by_id as) ms seen))
   \<and> (\<forall>m \<in> set ms. mem_enabled m \<longrightarrow> mem_accountId m \<notin> set seen \<longrightarrow> accounts_by_id as (mem_accountId m) \<noteq> None \<longrightarrow>
        mem_accountId m \<in> acc_id ` set (enabled_accounts_loop (accounts_by_id as) ms seen))"
proof (induction ms arbitrary: seen)
  case Nil
  then show ?case by simp
next
  case (Cons m ms)
  show ?case
  proof (cases "mem_enabled m \<and> mem_accountId m \<notin> set seen \<and> accounts_by_id as (mem_accountId m) \<noteq> None")
    case True
    then obtain a where a: "accounts_by_id as (mem_accountId m) = Some a" by blast
    note a' = accounts_by_id_Some [OF a]
    have "enabled_accounts_loop (accounts_by_id as) (m # ms) seen
        = a # enabled_accounts_loop (accounts_by_id as) ms (mem_accountId m # seen)"
      using True a by simp
    with Cons.IH [of "mem_accountId m # seen"] a' True show ?thesis by auto
  next
    case False
    then have "enabled_accounts_loop (accounts_by_id as) (m # ms) seen = enabled_accounts_loop (accounts_by_id as) ms seen"
      by (auto split: option.split)
    with Cons.IH [of seen] False show ?thesis by auto
  qed
qed

section \<open>Models of a source\<close>

definition exposes :: "provider list \<Rightarrow> account \<Rightarrow> string \<Rightarrow> bool" where
  "exposes providers a model \<longleftrightarrow>
     model \<noteq> [] \<and> model \<in> js_trim ` set (account_catalog providers a)
     \<and> (case account_allowed a of None \<Rightarrow> True | Some ms \<Rightarrow> model \<in> set ms)"

lemma add_models_spec:
  "distinct models \<Longrightarrow> distinct (add_models allowed catalog models)
   \<and> set (add_models allowed catalog models) = set models \<union>
      {m. m \<noteq> [] \<and> m \<in> js_trim ` set catalog \<and> (case allowed of None \<Rightarrow> True | Some ms \<Rightarrow> m \<in> set ms)}"
proof (induction catalog arbitrary: models)
  case Nil
  then show ?case by simp
next
  case (Cons x catalog)
  let ?m = "js_trim x"
  show ?case
  proof (cases "?m = [] \<or> (case allowed of None \<Rightarrow> False | Some ms \<Rightarrow> ?m \<notin> set ms) \<or> ?m \<in> set models")
    case True
    then have "add_models allowed (x # catalog) models = add_models allowed catalog models" by (simp add: Let_def)
    with Cons.IH [OF Cons.prems] True show ?thesis by (auto split: option.splits)
  next
    case False
    then have "add_models allowed (x # catalog) models = add_models allowed catalog (models @ [?m])"
      by (simp add: Let_def)
    moreover have "distinct (models @ [?m])" using Cons.prems False by simp
    ultimately show ?thesis using Cons.IH [of "models @ [?m]"] False by (auto split: option.splits)
  qed
qed

lemma add_models_fold:
  "distinct models \<Longrightarrow>
   distinct (foldl (\<lambda>models a. add_models (account_allowed a) (account_catalog providers a) models) models as)
   \<and> set (foldl (\<lambda>models a. add_models (account_allowed a) (account_catalog providers a) models) models as)
     = set models \<union> {m. \<exists>a \<in> set as. exposes providers a m}"
proof (induction as arbitrary: models)
  case Nil
  then show ?case by simp
next
  case (Cons a as)
  let ?ms = "add_models (account_allowed a) (account_catalog providers a) models"
  have "distinct ?ms" "set ?ms = set models \<union> {m. exposes providers a m}"
    using add_models_spec [OF Cons.prems] by (auto simp: exposes_def)
  with Cons.IH [of ?ms] show ?case by auto
qed

lemma enumerateRouteSourceModels_spec:
  assumes "rs_protocol (res_summary s) \<noteq> Chatgpt_Web_Wm"
  shows "distinct (enumerateRouteSourceModels (Some s) providers)"
    and "m \<in> set (enumerateRouteSourceModels (Some s) providers) \<longleftrightarrow>
      (\<exists>a \<in> set (res_accounts s). isRouteAccountBindable a \<and> exposes providers a m)
      \<and> (pool_modelPolicy (res_pool s) = Selected_Models \<longrightarrow> m \<in> js_trim ` set (pool_modelAllowlist (res_pool s)))"
proof -
  let ?as = "filter isAvailableRouteAccount (res_accounts s)"
  note f = add_models_fold [of "[]" providers ?as]
  show "distinct (enumerateRouteSourceModels (Some s) providers)"
    using f assms by (simp add: enumerateRouteSourceModels_def Let_def)
  have ne: "exposes providers a m \<Longrightarrow> m \<noteq> []" for a by (simp add: exposes_def)
  show "m \<in> set (enumerateRouteSourceModels (Some s) providers) \<longleftrightarrow>
      (\<exists>a \<in> set (res_accounts s). isRouteAccountBindable a \<and> exposes providers a m)
      \<and> (pool_modelPolicy (res_pool s) = Selected_Models \<longrightarrow> m \<in> js_trim ` set (pool_modelAllowlist (res_pool s)))"
    using f assms ne
    by (auto simp: enumerateRouteSourceModels_def Let_def isAvailableRouteAccount_def isBindableRouteAccount_def)
qed

section \<open>Clients\<close>

lemma analyze_eligible_iff:
  "cmp_eligible (analyzeRouteSourceCompatibility client (Some s) providers index) \<longleftrightarrow>
     isRouteSourcePoolTopologyValid (res_pool s) index
     \<and> (rs_protocol (res_summary s) = Chatgpt_Web_Wm \<longrightarrow> client = Codex)
     \<and> (if routeSourceUsesKiroClaude (Some s) providers
        then client = Claude \<and> isKiroClaudeRouteSource (Some s) providers
        else (routeSourceUsesDeepSeek (Some s) providers \<longrightarrow> client \<in> {Codex, Deepseek_Harness})
             \<and> (client = Grokbuild \<longrightarrow> isNativeGrokRouteSource (Some s) providers))"
  by (simp add: analyzeRouteSourceCompatibility_def unsupported_def supported_def Let_def)

lemma analyze_reason_iff:
  "cmp_eligible (analyzeRouteSourceCompatibility client source providers index) \<longleftrightarrow>
   cmp_reason (analyzeRouteSourceCompatibility client source providers index) = None"
  "cmp_eligible (analyzeRouteSourceCompatibility client source providers index) \<longleftrightarrow>
   cmp_mode (analyzeRouteSourceCompatibility client source providers index) \<noteq> Mode_Unsupported"
  by (simp_all add: analyzeRouteSourceCompatibility_def unsupported_def supported_def Let_def split: option.split)

section \<open>Preview\<close>

lemma blocked_iff: "preview_status_of issues \<noteq> Blocked \<longleftrightarrow> (\<forall>i \<in> set issues. iss_severity i \<noteq> Sev_Error)"
  by (auto simp: preview_status_of_def list_ex_iff)

lemma ready_iff: "preview_status_of issues = Ready \<longleftrightarrow> (\<forall>i \<in> set issues. iss_severity i = Sev_Info)"
proof -
  have "x = Sev_Info \<longleftrightarrow> x \<noteq> Sev_Error \<and> x \<noteq> Sev_Warning" for x by (cases x) auto
  then show ?thesis by (auto simp: preview_status_of_def list_ex_iff)
qed

text \<open>Without a required capability every member that exposes the model is schedulable.\<close>

lemma no_requirement_schedulable:
  assumes "ei_requireProvider i" and "ei_requiredCapabilities i \<in> {None, Some []}"
  shows "er_schedulable (evaluateSourceEligibility i) = er_modelEligible (evaluateSourceEligibility i)"
proof -
  have req: "unique (case ei_requiredCapabilities i of None \<Rightarrow> [] | Some cs \<Rightarrow> cs) = []"
    using assms(2) by auto
  have known: "providers_by_id (ei_providers i) (acc_providerId a) \<noteq> None"
    if "a \<in> set (er_modelEligible (evaluateSourceEligibility i))" for a
  proof
    assume "providers_by_id (ei_providers i) (acc_providerId a) = None"
    with that assms(1) show False by (simp add: eligibility_simps accountSupportsModel_def)
  qed
  have "accountCapabilityEligibility (providers_by_id (ei_providers i) (acc_providerId a)) (ei_model i) []
      (ei_requireProvider i) = Verified"
    if "a \<in> set (er_modelEligible (evaluateSourceEligibility i))" for a
    using known [OF that] by (auto simp: accountCapabilityEligibility_def)
  then have "er_verified (evaluateSourceEligibility i) = er_modelEligible (evaluateSourceEligibility i)"
    unfolding eligibility_simps req by (auto intro!: filter_cong)
  moreover have "set (er_unknown (evaluateSourceEligibility i)) \<subseteq> set (er_modelEligible (evaluateSourceEligibility i))"
    by (auto simp: eligibility_simps)
  moreover have "er_schedulable (evaluateSourceEligibility i) =
      (if er_verified (evaluateSourceEligibility i) \<noteq> [] then er_verified (evaluateSourceEligibility i)
       else er_unknown (evaluateSourceEligibility i))"
    by (simp add: eligibility_simps)
  ultimately show ?thesis by (cases "er_verified (evaluateSourceEligibility i) = []") simp_all
qed

definition preview_source_id :: "preview_input \<Rightarrow> string" where
  "preview_source_id input =
     (case normalizeModel (pin_requestedModel input) of
        None \<Rightarrow> route_poolId (pin_route input)
      | Some m \<Rightarrow> resolveRouteSourceId (route_poolId (pin_route input)) (route_modelSourceMap (pin_route input)) m)"

definition preview_routed_model :: "preview_input \<Rightarrow> string option" where
  "preview_routed_model input =
     map_option (resolveRouteModel (Some (route_modelMap (pin_route input)))) (normalizeModel (pin_requestedModel input))"

text \<open>The members the preview counts, for a source that resolved.\<close>

definition preview_tiers :: "preview_input \<Rightarrow> resolved_route_source \<Rightarrow> collections \<Rightarrow> real \<Rightarrow> eligibility_result" where
  "preview_tiers input s c now =
     preview_eligibility (res_pool s) (col_providers c) (preview_routed_model input)
       (preview_accounts (pin_route input) s c now) (pin_requiredCapabilities input)"

lemma previewRoute_source_missing:
  "resolveRouteSource (preview_source_id input) c = None \<Longrightarrow>
   pv_status (previewRoute input c now) = Blocked \<and> pv_eligibleAccountCount (previewRoute input c now) = 0"
  by (simp add: previewRoute_def Let_def preview_source_id_def preview_result_of_def preview_status_of_def
      issue_def)

text \<open>An issue raised under a condition, in the two ways an issue list is searched.\<close>

lemma conditional_issue [simp]:
  "(\<forall>i \<in> set (if b then [x] else []). P i) \<longleftrightarrow> (b \<longrightarrow> P x)"
  "list_ex P (if b then [x] else []) \<longleftrightarrow> b \<and> P x"
  by (cases b; simp)+

lemma capability_issue_error:
  "i \<in> set (capability_issues pl ps m as cs) \<Longrightarrow> iss_code i = Capability_Unsupported \<Longrightarrow> iss_severity i = Sev_Error"
  by (auto simp: capability_issues_def List.map_filter_def capability_issue_def Let_def split: if_splits)

lemma previewRoute_source:
  fixes now
  assumes "resolveRouteSource (preview_source_id input) c = Some s"
  defines "E \<equiv> preview_tiers input s c now"
    and "C \<equiv> capability_issues (res_pool s) (col_providers c) (preview_routed_model input)
            (er_modelEligible (preview_tiers input s c now)) (uniqueCapabilities (pin_requiredCapabilities input))"
  shows "pv_eligibleAccountCount (previewRoute input c now) = length (er_schedulable E)"
    and "pv_sourceId (previewRoute input c now) = preview_source_id input"
    and "pv_status (previewRoute input c now) \<noteq> Blocked \<Longrightarrow>
      route_inboundProtocol (pin_route input) = clientNativeProtocols (route_client (pin_route input))"
    and "pv_status (previewRoute input c now) \<noteq> Blocked \<Longrightarrow> preview_accounts (pin_route input) s c now \<noteq> []"
    and "pv_status (previewRoute input c now) \<noteq> Blocked \<Longrightarrow> er_modelEligible E \<noteq> []"
    and "pv_status (previewRoute input c now) \<noteq> Blocked \<Longrightarrow> i \<in> set C \<Longrightarrow> iss_severity i \<noteq> Sev_Error"
    and "pv_status (previewRoute input c now) \<noteq> Blocked \<Longrightarrow>
      uniqueCapabilities (pin_requiredCapabilities input) = [] \<or> er_schedulable E \<noteq> []"
    and "pv_status (previewRoute input c now) = Ready \<Longrightarrow> route_enabled (pin_route input)"
    and "pv_status (previewRoute input c now) = Ready \<Longrightarrow> i \<in> set C \<Longrightarrow> False"
proof -
  note shape = previewRoute_def [of input c now, unfolded Let_def,
      folded preview_source_id_def preview_routed_model_def, unfolded assms(1) option.case,
      folded preview_tiers_def, folded C_def E_def]
  show "pv_eligibleAccountCount (previewRoute input c now) = length (er_schedulable E)"
    "pv_sourceId (previewRoute input c now) = preview_source_id input"
    unfolding shape preview_result_of_def by simp_all
  have sev: "iss_severity (issue code v) = v" "iss_code (issue code v) = code" for code v
    by (simp_all add: issue_def)
  show "route_inboundProtocol (pin_route input) = clientNativeProtocols (route_client (pin_route input))"
    if nb: "pv_status (previewRoute input c now) \<noteq> Blocked"
    using nb unfolding shape preview_result_of_def
    by (simp add: blocked_iff ball_Un sev split: if_splits)
  have some: "preview_accounts (pin_route input) s c now \<noteq> []"
    if nb: "pv_status (previewRoute input c now) \<noteq> Blocked"
    using nb unfolding shape preview_result_of_def
    by (simp add: blocked_iff ball_Un sev split: if_splits)
  then show "pv_status (previewRoute input c now) \<noteq> Blocked \<Longrightarrow> preview_accounts (pin_route input) s c now \<noteq> []" .
  have model: "er_modelEligible E \<noteq> []"
    if nb: "pv_status (previewRoute input c now) \<noteq> Blocked"
    using nb some [OF nb] unfolding shape preview_result_of_def
    by (auto simp: blocked_iff ball_Un sev split: if_splits)
  then show "pv_status (previewRoute input c now) \<noteq> Blocked \<Longrightarrow> er_modelEligible E \<noteq> []" .
  have cap: "iss_severity i \<noteq> Sev_Error" if nb: "pv_status (previewRoute input c now) \<noteq> Blocked" and "i \<in> set C" for i
    using nb that(2) unfolding shape preview_result_of_def
    by (simp add: blocked_iff ball_Un sev)
  then show "pv_status (previewRoute input c now) \<noteq> Blocked \<Longrightarrow> i \<in> set C \<Longrightarrow> iss_severity i \<noteq> Sev_Error" .
  have no: "\<not> list_ex (\<lambda>i. iss_code i = Capability_Unsupported) C"
    if nb: "pv_status (previewRoute input c now) \<noteq> Blocked"
    using cap [OF nb] capability_issue_error unfolding C_def list_ex_iff by blast
  show "uniqueCapabilities (pin_requiredCapabilities input) = [] \<or> er_schedulable E \<noteq> []"
    if nb: "pv_status (previewRoute input c now) \<noteq> Blocked"
  proof -
    have two: "(\<forall>i \<in> set (if b then [x] else if d then [y] else []). P i) \<longleftrightarrow> (b \<longrightarrow> P x) \<and> (\<not> b \<and> d \<longrightarrow> P y)"
      "list_ex P (if b then [x] else if d then [y] else []) \<longleftrightarrow> b \<and> P x \<or> \<not> b \<and> d \<and> P y" for P b d x y
      by (cases b; cases d; simp)+
    show ?thesis
      using nb no [OF nb] model [OF nb] unfolding shape preview_result_of_def
      by (simp add: blocked_iff ball_Un sev two)
  qed
  show "route_enabled (pin_route input)" if r: "pv_status (previewRoute input c now) = Ready"
    using r unfolding shape preview_result_of_def
    by (simp add: ready_iff ball_Un sev split: if_splits)
  show False if r: "pv_status (previewRoute input c now) = Ready" and "i \<in> set C"
  proof -
    have "iss_severity i = Sev_Info" using r that(2) unfolding shape preview_result_of_def
      by (simp add: ready_iff ball_Un sev)
    with that(2) show False
      by (auto simp: C_def capability_issues_def List.map_filter_def capability_issue_def Let_def split: if_splits)
  qed
qed

text \<open>An unblocked preview has members the scheduler's own classification accepts.\<close>

lemma unique_Nil_iff: "uniqueCapabilities caps = [] \<longleftrightarrow> caps \<in> {None, Some []}"
  by (auto simp: uniqueCapabilities_def split: option.split)

lemma previewRoute_schedulable:
  assumes "pv_status (previewRoute input c now) \<noteq> Blocked"
  shows "\<exists>s. resolveRouteSource (preview_source_id input) c = Some s
    \<and> er_schedulable (preview_tiers input s c now) \<noteq> []
    \<and> pv_eligibleAccountCount (previewRoute input c now) = length (er_schedulable (preview_tiers input s c now))"
proof -
  obtain s where s: "resolveRouteSource (preview_source_id input) c = Some s"
    using assms previewRoute_source_missing by fastforce
  note p = previewRoute_source [OF s, of now]
  have "er_schedulable (preview_tiers input s c now) \<noteq> []"
  proof (cases "uniqueCapabilities (pin_requiredCapabilities input) = []")
    case True
    then have "er_schedulable (preview_tiers input s c now) = er_modelEligible (preview_tiers input s c now)"
      unfolding preview_tiers_def preview_eligibility_def
      by (intro no_requirement_schedulable) (simp_all add: unique_Nil_iff)
    with p(5) [OF assms] show ?thesis by simp
  next
    case False
    with p(7) [OF assms] show ?thesis by simp
  qed
  with s p(1) show ?thesis by blast
qed

end
