(* ===== verification/Routing_Properties.thy ===== *)
theory Routing_Properties
  imports Route_Proofs Scheduling_Properties
begin

text \<open>
  The properties of routes: which pools are consistent, how a route's source is found, what the
  menus offer, which clients a source serves, and how the model maps of a route are kept.
\<close>

section \<open>A sample configuration\<close>

definition sample_collections :: collections where
  "sample_collections = \<lparr>col_pools = [sample_pool Priority False],
     col_providers = [sample_provider ''p'' Relay], col_accounts = [account_a, account_b]\<rparr>"

lemma sample_topology: "isRouteSourcePoolTopologyValid (sample_pool Priority False)
    (createRouteSourceTopologyIndex [account_a, account_b] [sample_provider ''p'' Relay])"
  by code_simp

lemma sample_resolves: "resolveRouteSource ''q'' sample_collections
    = Some (persisted_source (sample_pool Priority False) [account_a, account_b])"
  by (simp add: resolveRouteSource_def sample_collections_def sample_pool_def sample_provider_def
      hasRouteSourceIdCollision_def Let_def)

section \<open>Sources\<close>

text \<open>
  The topology check accepts a pool exactly when it has members and every member names one
  configured account, that account one configured provider, all of the same source family, with the
  credentials and the wire protocol the pool's kind asks for. A missing or duplicated id of any
  of them makes the pool invalid.
\<close>

theorem topology_valid_exact:
  "isRouteSourcePoolTopologyValid pl (createRouteSourceTopologyIndex as ps) \<longleftrightarrow>
   pool_members pl \<noteq> []
   \<and> (\<exists>family. list_all (\<lambda>m. \<exists>a p. filter (\<lambda>x. acc_id x = mem_accountId m) as = [a]
        \<and> filter (\<lambda>x. prov_id x = acc_providerId a) ps = [p]
        \<and> providerSourceFamily (prov_kind p) = family \<and> member_matches pl (a, p)) (pool_members pl))"
  unfolding topology_valid_iff by (simp add: list_all_iff member_pair_def)

text \<open>
  C37. A source id is never ambiguous: when it resolves, its summary and its pool carry that id, it
  names either one of the persisted pools and no provider, or one provider (a relay or an official
  API, with a single account, used through an API key) and no pool; and then the id is not in
  collision.
\<close>

theorem source_resolution:
  assumes "resolveRouteSource i c = Some s"
  shows "rs_id (res_summary s) = i \<and> pool_id (res_pool s) = i \<and> \<not> hasRouteSourceIdCollision i c
    \<and> (case res_provider s of
         None \<Rightarrow> i \<notin> prov_id ` set (col_providers c)
           \<and> (\<exists>pl \<in> set (col_pools c). pool_id pl = i \<and> s = persisted_source pl (col_accounts c))
       | Some p \<Rightarrow> i \<notin> pool_id ` set (col_pools c) \<and> p \<in> set (col_providers c) \<and> prov_id p = i
           \<and> prov_sourceType p \<in> {Official_Api, Relay}
           \<and> (\<exists>a. filter (\<lambda>a. acc_providerId a = i) (col_accounts c) = [a] \<and> acc_credentialType a = Some Api_Key
                \<and> res_accounts s = [a] \<and> res_pool s = virtual_pool p a))"
proof -
  have "\<not> hasRouteSourceIdCollision i c"
    using collision_never_resolves [of i c] assms by auto
  then show ?thesis
    using resolve_id [OF assms] resolve_persisted [OF assms] resolve_virtual [OF assms]
    by (cases "res_provider s") auto
qed

theorem source_resolution_witness:
  "resolveRouteSource ''q'' sample_collections = Some (persisted_source (sample_pool Priority False) [account_a, account_b])
   \<and> \<not> hasRouteSourceIdCollision ''q'' sample_collections"
  using source_resolution [OF sample_resolves] sample_resolves by simp

text \<open>
  The menu of sources is exact: it lists every id once, precisely the ids that resolve to a
  source with a valid topology that passes the availability and client filters of the request, each
  with the summary its resolution gives.
\<close>

theorem source_menu_exact:
  "distinct (map rs_id (listRouteSources c opts now))
   \<and> (i \<in> rs_id ` set (listRouteSources c opts now)) =
       (\<exists>s. resolveRouteSource i c = Some s
          \<and> isRouteSourcePoolTopologyValid (res_pool s) (collections_index c)
          \<and> (effective_availability opts \<noteq> Avail_Bindable \<or> list_ex isBindableRouteAccount (res_accounts s))
          \<and> (effective_availability opts \<noteq> Avail_Schedulable
              \<or> list_ex (\<lambda>a. isCurrentlySchedulableRouteAccount a now) (res_accounts s))
          \<and> (case lo_client opts of None \<Rightarrow> True
              | Some client \<Rightarrow> isRouteSourceEligibleForClient client (Some s) (col_providers c) (collections_index c)))
   \<and> list_all (\<lambda>r. map_option res_summary (resolveRouteSource (rs_id r) c) = Some r) (listRouteSources c opts now)"
proof -
  have "map_option res_summary (resolveRouteSource (rs_id r) c) = Some r" if "r \<in> set (listRouteSources c opts now)" for r
    using listRouteSources_spec(3) [OF that] by auto
  then show ?thesis
    unfolding listRouteSources_spec(2) list_all_iff
    using listRouteSources_spec(1) by (auto simp: listed_def)
qed

theorem source_menu_exact_witness:
  "distinct (map rs_id (listRouteSources sample_collections
     \<lparr>lo_availableOnly = None, lo_availability = None, lo_client = Some Codex\<rparr> 1000))"
  using source_menu_exact [of sample_collections] by blast

text \<open>
  Which clients a source serves is decided by its topology and its members alone: the ChatGPT
  web source only Codex, a Kiro Claude source only Claude, DeepSeek sources only Codex and the
  DeepSeek harness, and Grok Build only native Grok sources. A reason is given exactly when
  the source is not eligible, and the mode is unsupported exactly then.
\<close>

theorem client_compatibility_exact:
  "let r = analyzeRouteSourceCompatibility client (Some s) providers index in
    cmp_eligible r =
     (isRouteSourcePoolTopologyValid (res_pool s) index
      \<and> (if rs_protocol (res_summary s) = Chatgpt_Web_Wm then client = Codex else True)
      \<and> (if routeSourceUsesKiroClaude (Some s) providers
         then client = Claude \<and> isKiroClaudeRouteSource (Some s) providers
         else (if routeSourceUsesDeepSeek (Some s) providers then client \<in> {Codex, Deepseek_Harness} else True)
              \<and> (if client = Grokbuild then isNativeGrokRouteSource (Some s) providers else True)))
    \<and> cmp_eligible r = (cmp_reason r = None) \<and> cmp_eligible r = (cmp_mode r \<noteq> Mode_Unsupported)"
  using analyze_eligible_iff [of client s providers index]
    analyze_reason_iff [of client "Some s" providers index]
  by (auto simp: Let_def)

text \<open>
  The models a source offers are its members' models: apart from the ChatGPT web source, a model
  is listed, and listed once, exactly when some usable account of the source has it in the
  catalogue of the account or its provider and allows it, and the pool's own selection, if it
  has one, contains it.
\<close>

theorem source_models_exact:
  assumes "rs_protocol (res_summary s) \<noteq> Chatgpt_Web_Wm"
  shows "distinct (enumerateRouteSourceModels (Some s) providers)
    \<and> (m \<in> set (enumerateRouteSourceModels (Some s) providers)) =
       (list_ex (\<lambda>a. isRouteAccountBindable a \<and> m \<noteq> [] \<and> m \<in> js_trim ` set (account_catalog providers a)
            \<and> (case account_allowed a of None \<Rightarrow> True | Some ms \<Rightarrow> m \<in> set ms)) (res_accounts s)
        \<and> (if pool_modelPolicy (res_pool s) = Selected_Models
            then m \<in> js_trim ` set (pool_modelAllowlist (res_pool s)) else True))"
  using enumerateRouteSourceModels_spec [OF assms] by (auto simp: exposes_def list_ex_iff)

theorem source_models_exact_witness:
  "distinct (enumerateRouteSourceModels (resolveRouteSource ''q'' sample_collections) [sample_provider ''p'' Relay])"
proof -
  have "rs_protocol (res_summary (persisted_source (sample_pool Priority False) [account_a, account_b])) \<noteq> Chatgpt_Web_Wm"
    by (simp add: persisted_source_def sample_pool_def Let_def)
  from source_models_exact [OF this] show ?thesis unfolding sample_resolves by blast
qed

text \<open>
  C38. The model maps stored for a route are safe and stable: their keys are safe and trimmed and
  their targets valid, normalising them again changes nothing, and a requested model resolves through
  the stored map by its exact entry, else by the wildcard entry, else to itself.
\<close>

theorem route_maps_safe_and_stable:
  "let m = normalizeRouteModelMap raw; n = normalizeRouteModelSourceMap raw in
     normalizeRouteModelMap (Some (as_unknown m)) = m
     \<and> normalizeRouteModelSourceMap (Some (as_unknown n)) = n
     \<and> list_all (\<lambda>(k, v). isSafeRouteModelMapKey k \<and> js_trim k = k \<and> isSafeRouteModelMapTarget v) m
     \<and> list_all (\<lambda>(k, v). k \<noteq> ''*'' \<and> isSafeRouteModelMapKey k \<and> normalizeRouteSourceId (Some v) = Some v) n
     \<and> resolveRouteModel (Some (as_unknown m)) requested =
        (case map_get m requested of
           Some target \<Rightarrow> target
         | None \<Rightarrow> (case map_get m ''*'' of Some target \<Rightarrow> target | None \<Rightarrow> requested))"
proof -
  have m: "safe_entries model_key normalizeTarget (normalizeRouteModelMap raw)"
    and n: "safe_entries source_key normalizeRouteSourceId (normalizeRouteModelSourceMap raw)"
    by (rule safe_normalizeRouteModelMap, rule safe_normalizeRouteModelSourceMap)
  have "isSafeRouteModelMapTarget v" if "normalizeTarget (Some v) = Some v" for v
    using normalizeTarget_safe [OF that] by simp
  with m n show ?thesis
    by (simp add: Let_def normalizeRouteModelMap_fixed normalizeRouteModelSourceMap_fixed
        resolveRouteModel_normalised [OF m])
      (auto simp: safe_entries_def model_key_def source_key_def list_all_iff)
qed

end
