(* ===== verification/Event_Bytes.thy ===== *)
theory Event_Bytes
  imports Prelude "HOL-Library.Word"
begin

unbundle bit_operations_syntax

text \<open>
  The byte layer of \<^verbatim>\<open>src/main/gateway/kiro-event-stream.ts\<close>: the big-endian readers, the
  CRC-32 of the AWS event stream format with its table, and \<open>ByteQueue\<close>, the queue of
  received chunks the parser takes its frames from. A byte is an \<open>8 word\<close>; the CRC is computed
  on \<open>32 word\<close>, where the code's \<^verbatim>\<open>>>>\<close> is \<^const>\<open>drop_bit\<close>. The numbers the readers return are
  integers, with JavaScript's coercions to 32 bits written out.
\<close>

type_synonym byte = "8 word"

section \<open>Big-endian readers\<close>

definition readUint16 :: "byte list \<Rightarrow> nat \<Rightarrow> int" where
  "readUint16 bytes offset = push_bit 8 (uint (bytes ! offset)) OR uint (bytes ! (offset + 1))"

definition readInt16 :: "byte list \<Rightarrow> nat \<Rightarrow> int" where
  "readInt16 bytes offset =
     (let value = readUint16 bytes offset
      in if value AND 0x8000 \<noteq> 0 then value - 0x10000 else value)"

definition readUint32 :: "byte list \<Rightarrow> nat \<Rightarrow> int" where
  "readUint32 bytes offset =
     take_bit 32
       (uint (bytes ! offset) * 0x1000000 + push_bit 16 (uint (bytes ! (offset + 1)))
        + push_bit 8 (uint (bytes ! (offset + 2))) + uint (bytes ! (offset + 3)))"

text \<open>\<^verbatim>\<open>| 0\<close> reads the 32 bits as two's complement.\<close>

definition readInt32 :: "byte list \<Rightarrow> nat \<Rightarrow> int" where
  "readInt32 bytes offset = signed_take_bit 31 (readUint32 bytes offset)"

definition readBigInt64 :: "byte list \<Rightarrow> nat \<Rightarrow> int" where
  "readBigInt64 bytes offset =
     (let unsigned = push_bit 32 (readUint32 bytes offset) OR readUint32 bytes (offset + 4)
      in if unsigned AND push_bit 63 1 \<noteq> 0 then unsigned - push_bit 64 1 else unsigned)"

section \<open>CRC-32\<close>

definition crc32_shift :: "32 word \<Rightarrow> 32 word" where
  "crc32_shift value =
     (if value AND 1 \<noteq> 0 then 0xedb88320 XOR drop_bit 1 value else drop_bit 1 value)"

definition crc32_entry :: "32 word \<Rightarrow> 32 word" where
  "crc32_entry index = (crc32_shift ^^ 8) index"

definition createCrc32IeeeTable :: "32 word list" where
  "createCrc32IeeeTable = map (\<lambda>index. crc32_entry (of_nat index)) [0..<256]"

definition CRC32_IEEE_TABLE :: "32 word list" where
  "CRC32_IEEE_TABLE = createCrc32IeeeTable"

definition crc32_step :: "32 word \<Rightarrow> byte \<Rightarrow> 32 word" where
  "crc32_step crc byte =
     CRC32_IEEE_TABLE ! unat ((crc XOR ucast byte) AND 0xff) XOR drop_bit 8 crc"

definition crc32Ieee :: "byte list \<Rightarrow> 32 word" where
  "crc32Ieee bytes = foldl crc32_step 0xffffffff bytes XOR 0xffffffff"

section \<open>The queue of received chunks\<close>

record byte_queue =
  chunks :: "byte list list"
  headOffset :: nat
  byteLength :: nat

definition emptyQueue :: byte_queue where
  "emptyQueue = \<lparr>chunks = [], headOffset = 0, byteLength = 0\<rparr>"

definition queue_push :: "byte_queue \<Rightarrow> byte list \<Rightarrow> byte_queue" where
  "queue_push q chunk =
     (if chunk = [] then q
      else q\<lparr>chunks := chunks q @ [chunk], byteLength := byteLength q + length chunk\<rparr>)"

text \<open>
  The loop of \<^verbatim>\<open>peek\<close>: it copies from the chunks in turn, starting at the offset in the first
  one. Running out of chunks would be a \<^verbatim>\<open>TypeError\<close>; \<open>queue_peek\<close> guards against it.
\<close>

fun peek_loop :: "byte list list \<Rightarrow> nat \<Rightarrow> nat \<Rightarrow> byte list" where
  "peek_loop [] offset missing = []"
| "peek_loop (chunk # rest) offset missing =
     (if missing = 0 then []
      else let n = min (length chunk - offset) missing
           in take n (drop offset chunk) @ peek_loop rest 0 (missing - n))"

definition queue_peek :: "byte_queue \<Rightarrow> nat \<Rightarrow> byte list option" where
  "queue_peek q n =
     (if n > byteLength q then None else Some (peek_loop (chunks q) (headOffset q) n))"

fun discard_loop :: "byte list list \<Rightarrow> nat \<Rightarrow> nat \<Rightarrow> byte list list \<times> nat" where
  "discard_loop [] offset remaining = ([], offset)"
| "discard_loop (head # rest) offset remaining =
     (if remaining = 0 then (head # rest, offset)
      else let available = length head - offset
           in if remaining < available then (head # rest, offset + remaining)
              else discard_loop rest 0 (remaining - available))"

definition queue_discard :: "byte_queue \<Rightarrow> nat \<Rightarrow> byte_queue" where
  "queue_discard q n =
     (let (rest, offset) = discard_loop (chunks q) (headOffset q) n
      in \<lparr>chunks = rest, headOffset = offset, byteLength = byteLength q - n\<rparr>)"

definition queue_read :: "byte_queue \<Rightarrow> nat \<Rightarrow> (byte list \<times> byte_queue) option" where
  "queue_read q n =
     (case queue_peek q n of
        None \<Rightarrow> None
      | Some output \<Rightarrow> Some (output, queue_discard q n))"

definition queue_clear :: "byte_queue \<Rightarrow> byte_queue" where
  "queue_clear q = emptyQueue"

section \<open>The queue as a byte string\<close>

text \<open>
  The contract of a byte buffer: its contents are one byte string, pushing appends, peeking
  and reading return a prefix and reading removes it. Two buffers with equal contents answer
  alike, whatever chunks they received.
\<close>

locale byte_buffer =
  fixes ok :: "'q \<Rightarrow> bool"
    and contents :: "'q \<Rightarrow> byte list"
    and size_of :: "'q \<Rightarrow> nat"
    and push :: "'q \<Rightarrow> byte list \<Rightarrow> 'q"
    and peek :: "'q \<Rightarrow> nat \<Rightarrow> byte list option"
    and readb :: "'q \<Rightarrow> nat \<Rightarrow> (byte list \<times> 'q) option"
    and clear :: "'q \<Rightarrow> 'q"
  assumes size_contents: "ok q \<Longrightarrow> size_of q = length (contents q)"
    and ok_push: "ok q \<Longrightarrow> ok (push q c)"
    and contents_push: "ok q \<Longrightarrow> contents (push q c) = contents q @ c"
    and peek_prefix: "ok q \<Longrightarrow> n \<le> length (contents q) \<Longrightarrow> peek q n = Some (take n (contents q))"
    and peek_short: "ok q \<Longrightarrow> length (contents q) < n \<Longrightarrow> peek q n = None"
    and read_prefix: "ok q \<Longrightarrow> n \<le> length (contents q) \<Longrightarrow>
          \<exists>r. readb q n = Some (take n (contents q), r) \<and> ok r \<and> contents r = drop n (contents q)"
    and read_short: "ok q \<Longrightarrow> length (contents q) < n \<Longrightarrow> readb q n = None"
    and ok_clear: "ok (clear q)"
    and contents_clear: "contents (clear q) = []"
begin

lemma ok_foldl_push: "ok q \<Longrightarrow> ok (foldl push q cs)"
  by (induction cs arbitrary: q) (auto simp: ok_push)

lemma contents_foldl_push: "ok q \<Longrightarrow> contents (foldl push q cs) = contents q @ concat cs"
  by (induction cs arbitrary: q) (auto simp: ok_push contents_push)

lemma readE:
  assumes "ok q" "readb q n = Some (out, r)"
  shows "out = take n (contents q)" "ok r" "contents q = out @ contents r" "length out = n"
    "size_of r + n = size_of q"
proof -
  have n: "n \<le> length (contents q)"
    using assms read_short [of q n] by (cases "n \<le> length (contents q)") auto
  from read_prefix [OF assms(1) n] assms(2)
  have r: "out = take n (contents q)" "ok r" "contents r = drop n (contents q)" by auto
  then show "out = take n (contents q)" "ok r" by simp_all
  from r show "contents q = out @ contents r" "length out = n" using n by simp_all
  from r n assms(1) show "size_of r + n = size_of q" by (simp add: size_contents)
qed

end

definition queue_bytes :: "byte_queue \<Rightarrow> byte list" where
  "queue_bytes q = drop (headOffset q) (concat (chunks q))"

definition byte_queue_ok :: "byte_queue \<Rightarrow> bool" where
  "byte_queue_ok q \<longleftrightarrow>
     [] \<notin> set (chunks q)
     \<and> (if chunks q = [] then headOffset q = 0 else headOffset q < length (hd (chunks q)))
     \<and> byteLength q = length (queue_bytes q)"

lemma byte_queue_ok_offset: "byte_queue_ok q \<Longrightarrow> headOffset q \<le> length (concat (chunks q))"
  by (cases "chunks q") (auto simp: byte_queue_ok_def)

lemma queue_ok_push: "byte_queue_ok q \<Longrightarrow> byte_queue_ok (queue_push q c)"
  and queue_bytes_push: "byte_queue_ok q \<Longrightarrow> queue_bytes (queue_push q c) = queue_bytes q @ c"
proof -
  assume ok: "byte_queue_ok q"
  show *: "queue_bytes (queue_push q c) = queue_bytes q @ c"
    using byte_queue_ok_offset [OF ok] by (simp add: queue_bytes_def queue_push_def)
  then show "byte_queue_ok (queue_push q c)"
    using ok by (cases "chunks q") (auto simp: byte_queue_ok_def queue_push_def)
qed

lemma byte_queue_ok_empty [simp]: "byte_queue_ok emptyQueue"
  and queue_bytes_empty [simp]: "queue_bytes emptyQueue = []"
  by (simp_all add: byte_queue_ok_def queue_bytes_def emptyQueue_def)

lemma peek_loop_prefix:
  "cs \<noteq> [] \<longrightarrow> off \<le> length (hd cs) \<Longrightarrow> off + n \<le> length (concat cs) \<Longrightarrow>
   peek_loop cs off n = take n (drop off (concat cs))"
proof (induction cs arbitrary: off n)
  case Nil
  then show ?case by simp
next
  case (Cons c cs)
  then have off: "off \<le> length c" by simp
  show ?case
  proof (cases "n \<le> length c - off")
    case True
    then have "min (length c - off) n = n" by simp
    with off True show ?thesis
      by (cases "n = 0") (auto simp: Let_def, cases cs, auto)
  next
    case False
    then have m: "min (length c - off) n = length c - off" by simp
    have "peek_loop cs 0 (n - (length c - off)) = take (n - (length c - off)) (concat cs)"
      using Cons.IH [of 0 "n - (length c - off)"] Cons.prems(2) off by simp
    with m off False show ?thesis by (simp add: Let_def)
  qed
qed

lemma discard_loop_drop:
  assumes "[] \<notin> set cs" "if cs = [] then off = 0 else off < length (hd cs)"
    "off + n \<le> length (concat cs)" "discard_loop cs off n = (rest, off')"
  shows "[] \<notin> set rest \<and> (if rest = [] then off' = 0 else off' < length (hd rest))
    \<and> drop off' (concat rest) = drop (off + n) (concat cs)"
  using assms
proof (induction cs arbitrary: off n)
  case Nil
  then show ?case by auto
next
  case (Cons c cs)
  then have off: "off < length c" by simp
  show ?case
  proof (cases "n = 0 \<or> n < length c - off")
    case True
    then have "discard_loop (c # cs) off n = (c # cs, off + n)" by (auto simp: Let_def)
    with Cons.prems(4) have "rest = c # cs" "off' = off + n" by auto
    with True off Cons.prems(1) show ?thesis by auto
  next
    case False
    let ?m = "n - (length c - off)"
    have rec: "discard_loop cs 0 ?m = (rest, off')"
      using Cons.prems(4) False by (auto simp: Let_def)
    have prem: "[] \<notin> set cs" "if cs = [] then 0 = (0 :: nat) else 0 < length (hd cs)"
      "0 + ?m \<le> length (concat cs)"
      using Cons.prems(1,3) False off by (auto, metis hd_in_set)
    have "off + n = length c + ?m" using False off by linarith
    with Cons.IH [OF prem rec] off show ?thesis by simp
  qed
qed

lemma queue_read_prefix:
  assumes ok: "byte_queue_ok q" and n: "n \<le> length (queue_bytes q)"
  shows "\<exists>r. queue_read q n = Some (take n (queue_bytes q), r) \<and> byte_queue_ok r
    \<and> queue_bytes r = drop n (queue_bytes q)"
proof -
  obtain rest off' where d: "discard_loop (chunks q) (headOffset q) n = (rest, off')"
    by (metis surj_pair)
  have len: "headOffset q + n \<le> length (concat (chunks q))"
    using ok n byte_queue_ok_offset [OF ok] by (simp add: queue_bytes_def)
  have "\<not> n > byteLength q"
    using ok n by (simp add: byte_queue_ok_def)
  moreover have "peek_loop (chunks q) (headOffset q) n = take n (queue_bytes q)"
    using peek_loop_prefix [OF _ len] ok
    by (auto simp: byte_queue_ok_def queue_bytes_def split: if_splits)
  moreover have props: "[] \<notin> set rest" "if rest = [] then off' = 0 else off' < length (hd rest)"
    "drop off' (concat rest) = drop n (queue_bytes q)"
    using discard_loop_drop [OF _ _ len d] ok by (auto simp: byte_queue_ok_def queue_bytes_def add.commute)
  then have "queue_bytes (queue_discard q n) = drop n (queue_bytes q)"
    "byte_queue_ok (queue_discard q n)"
    using ok d by (simp_all add: byte_queue_ok_def queue_bytes_def queue_discard_def)
  ultimately show ?thesis
    by (simp add: queue_read_def queue_peek_def)
qed

lemma queue_short:
  "byte_queue_ok q \<Longrightarrow> length (queue_bytes q) < n \<Longrightarrow> queue_peek q n = None \<and> queue_read q n = None"
  by (auto simp: byte_queue_ok_def queue_bytes_def queue_peek_def queue_read_def)

interpretation bq: byte_buffer byte_queue_ok queue_bytes byteLength queue_push queue_peek queue_read
  queue_clear
proof unfold_locales
  fix q n
  assume ok: "byte_queue_ok q"
  show "byteLength q = length (queue_bytes q)"
    using ok by (simp add: byte_queue_ok_def queue_bytes_def)
  show "byte_queue_ok (queue_push q c)" for c
    using ok by (rule queue_ok_push)
  show "queue_bytes (queue_push q c) = queue_bytes q @ c" for c
    using ok by (rule queue_bytes_push)
  show "queue_peek q n = Some (take n (queue_bytes q))" if "n \<le> length (queue_bytes q)"
    using queue_read_prefix [OF ok that] by (auto simp: queue_read_def split: option.splits)
  show "queue_peek q n = None" "queue_read q n = None" if "length (queue_bytes q) < n"
    using queue_short [OF ok that] by auto
  show "\<exists>r. queue_read q n = Some (take n (queue_bytes q), r) \<and> byte_queue_ok r
    \<and> queue_bytes r = drop n (queue_bytes q)" if "n \<le> length (queue_bytes q)"
    by (rule queue_read_prefix [OF ok that])
qed (simp_all add: queue_clear_def)

section \<open>What the readers return\<close>

lemma uint_byte_bounds: "0 \<le> uint (b :: byte)" "uint (b :: byte) < 256"
  using uint_lt2p [of b] by simp_all

lemma readUint32_sum:
  "readUint32 bytes i =
     uint (bytes ! i) * 2 ^ 24 + uint (bytes ! (i + 1)) * 2 ^ 16
     + uint (bytes ! (i + 2)) * 2 ^ 8 + uint (bytes ! (i + 3))"
proof -
  let ?a = "uint (bytes ! i)" and ?b = "uint (bytes ! (i + 1))"
    and ?c = "uint (bytes ! (i + 2))" and ?d = "uint (bytes ! (i + 3))"
  have "0 \<le> ?a" "?a < 256" "0 \<le> ?b" "?b < 256" "0 \<le> ?c" "?c < 256" "0 \<le> ?d" "?d < 256"
    by (rule uint_byte_bounds)+
  then have "0 \<le> ?a * 2 ^ 24 + ?b * 2 ^ 16 + ?c * 2 ^ 8 + ?d"
    "?a * 2 ^ 24 + ?b * 2 ^ 16 + ?c * 2 ^ 8 + ?d < 2 ^ 32"
    by simp_all
  then show ?thesis
    by (simp add: readUint32_def push_bit_eq_mult take_bit_eq_mod mult.commute)
qed

lemma readUint32_bounds: "0 \<le> readUint32 bytes i" "readUint32 bytes i < 2 ^ 32"
  by (auto simp: readUint32_def intro: take_bit_int_less_exp [of 32, simplified])

lemma readUint16_sum: "readUint16 bytes i = uint (bytes ! i) * 2 ^ 8 + uint (bytes ! (i + 1))"
proof -
  have "push_bit 8 (uint (bytes ! i)) AND uint (bytes ! (i + 1)) = 0"
    by (rule bit_eqI) (auto simp: bit_simps bit_uint_iff dest: bit_imp_le_length)
  then have "push_bit 8 (uint (bytes ! i)) OR uint (bytes ! (i + 1))
      = push_bit 8 (uint (bytes ! i)) + uint (bytes ! (i + 1))"
    by (rule disjunctive_add_eq_or [symmetric])
  then show ?thesis by (simp add: readUint16_def push_bit_eq_mult)
qed

lemma readUint16_bounds: "0 \<le> readUint16 bytes i" "readUint16 bytes i < 2 ^ 16"
  using uint_byte_bounds [of "bytes ! i"] uint_byte_bounds [of "bytes ! (i + 1)"]
  by (simp_all add: readUint16_sum)

end
