(* ===== verification/Json_Text.thy ===== *)
theory Json_Text
  imports Event_Bytes
begin

text \<open>
  The standard-library functions \<^verbatim>\<open>src/main/gateway/kiro-event-stream.ts\<close> computes with: strings
  of UTF-16 code units, \<^verbatim>\<open>TextDecoder('utf-8', { fatal: true })\<close>, \<^verbatim>\<open>Buffer.byteLength\<close>, IEEE
  doubles, \<^verbatim>\<open>JSON.parse\<close> and \<^verbatim>\<open>JSON.stringify\<close>. A \<open>js_text\<close> is a list of code units. A \<open>double\<close> is
  an exact rational produced by rounding to the nearest double, ties to even; the two zeros,
  which nothing here tells apart, are one.
  The last section searches texts.
\<close>

type_synonym js_text = "nat list"

definition utf16 :: "string \<Rightarrow> js_text" where
  "utf16 s = map of_char s"

lemma utf16_inject [simp]: "utf16 s = utf16 t \<longleftrightarrow> s = t"
  by (auto simp: utf16_def inj_on_def dest: map_injective)

section \<open>Strings\<close>

text \<open>The code units \<^verbatim>\<open>trim()\<close> removes.\<close>

definition text_space :: "nat \<Rightarrow> bool" where
  "text_space u \<longleftrightarrow> 9 \<le> u \<and> u \<le> 13
     \<or> u \<in> set [0x20, 0xA0, 0x1680, 0x2028, 0x2029, 0x202F, 0x205F, 0x3000, 0xFEFF]
     \<or> 0x2000 \<le> u \<and> u \<le> 0x200A"

definition text_trim :: "js_text \<Rightarrow> js_text" where
  "text_trim s = rev (dropWhile text_space (rev (dropWhile text_space s)))"

definition text_lower :: "js_text \<Rightarrow> js_text" where
  "text_lower s = map (\<lambda>u. if 65 \<le> u \<and> u \<le> 90 then u + 32 else u) s"

definition text_starts :: "js_text \<Rightarrow> js_text \<Rightarrow> bool" where
  "text_starts s p \<longleftrightarrow> take (length p) s = p"

definition text_ends :: "js_text \<Rightarrow> js_text \<Rightarrow> bool" where
  "text_ends s p \<longleftrightarrow> length p \<le> length s \<and> drop (length s - length p) s = p"

definition high_surrogate :: "nat \<Rightarrow> bool" where
  "high_surrogate u \<longleftrightarrow> 0xD800 \<le> u \<and> u \<le> 0xDBFF"

definition low_surrogate :: "nat \<Rightarrow> bool" where
  "low_surrogate u \<longleftrightarrow> 0xDC00 \<le> u \<and> u \<le> 0xDFFF"

text \<open>\<^verbatim>\<open>[...s].length\<close>: the number of code points.\<close>

fun code_points :: "js_text \<Rightarrow> nat" where
  "code_points (u # v # s) =
     (if high_surrogate u \<and> low_surrogate v then 1 + code_points s else 1 + code_points (v # s))"
| "code_points [u] = 1"
| "code_points [] = 0"

text \<open>\<^verbatim>\<open>Buffer.byteLength(s, 'utf8')\<close>: an unpaired surrogate takes the three bytes of U+FFFD.\<close>

fun utf8_length :: "js_text \<Rightarrow> nat" where
  "utf8_length [] = 0"
| "utf8_length (u # s) =
     (if u < 0x80 then 1 + utf8_length s
      else if u < 0x800 then 2 + utf8_length s
      else case s of
          v # r \<Rightarrow> if high_surrogate u \<and> low_surrogate v then 4 + utf8_length r else 3 + utf8_length s
        | [] \<Rightarrow> 3)"

section \<open>Decoding UTF-8\<close>

definition cont :: "nat \<Rightarrow> nat \<Rightarrow> nat \<Rightarrow> bool" where
  "cont lo hi b \<longleftrightarrow> lo \<le> b \<and> b \<le> hi"

fun utf8_points :: "nat list \<Rightarrow> nat list option" where
  "utf8_points [] = Some []"
| "utf8_points (a # r) =
     (if a < 0x80 then map_option (\<lambda>ps. a # ps) (utf8_points r)
      else if 0xC2 \<le> a \<and> a \<le> 0xDF then
        (case r of
           b # r' \<Rightarrow>
             if cont 0x80 0xBF b
             then map_option (\<lambda>ps. ((a - 0xC0) * 64 + (b - 0x80)) # ps) (utf8_points r')
             else None
         | _ \<Rightarrow> None)
      else if 0xE0 \<le> a \<and> a \<le> 0xEF then
        (case r of
           b # c # r' \<Rightarrow>
             if cont (if a = 0xE0 then 0xA0 else 0x80) (if a = 0xED then 0x9F else 0xBF) b
               \<and> cont 0x80 0xBF c
             then map_option (\<lambda>ps. ((a - 0xE0) * 4096 + (b - 0x80) * 64 + (c - 0x80)) # ps)
                    (utf8_points r')
             else None
         | _ \<Rightarrow> None)
      else if 0xF0 \<le> a \<and> a \<le> 0xF4 then
        (case r of
           b # c # d # r' \<Rightarrow>
             if cont (if a = 0xF0 then 0x90 else 0x80) (if a = 0xF4 then 0x8F else 0xBF) b
               \<and> cont 0x80 0xBF c \<and> cont 0x80 0xBF d
             then map_option
                    (\<lambda>ps. ((a - 0xF0) * 262144 + (b - 0x80) * 4096 + (c - 0x80) * 64 + (d - 0x80)) # ps)
                    (utf8_points r')
             else None
         | _ \<Rightarrow> None)
      else None)"

definition point_units :: "nat \<Rightarrow> js_text" where
  "point_units p =
     (if p < 0x10000 then [p]
      else [0xD800 + (p - 0x10000) div 1024, 0xDC00 + (p - 0x10000) mod 1024])"

text \<open>The decoder drops one byte order mark at the start.\<close>

definition utf8_decode :: "byte list \<Rightarrow> js_text option" where
  "utf8_decode bytes =
     (let bs = map unat bytes;
          bs = (if take 3 bs = [0xEF, 0xBB, 0xBF] then drop 3 bs else bs)
      in map_option (\<lambda>ps. concat (map point_units ps)) (utf8_points bs))"

section \<open>Doubles\<close>

datatype double = Num rat | PosInf | NegInf | NaN

definition pow2 :: "int \<Rightarrow> rat" where
  "pow2 e = (if 0 \<le> e then 2 ^ nat e else 1 / 2 ^ nat (- e))"

definition pow10 :: "int \<Rightarrow> rat" where
  "pow10 e = (if 0 \<le> e then 10 ^ nat e else 1 / 10 ^ nat (- e))"

fun bit_count :: "nat \<Rightarrow> nat" where
  "bit_count n = (if n = 0 then 0 else Suc (bit_count (n div 2)))"

declare bit_count.simps [simp del]

definition floor_log2 :: "rat \<Rightarrow> int" where
  "floor_log2 q =
     (let (p, d) = quotient_of q; e = int (bit_count (nat p)) - int (bit_count (nat d))
      in if pow2 e \<le> q then e else e - 1)"

definition round_half_even :: "rat \<Rightarrow> int" where
  "round_half_even x =
     (let f = \<lfloor>x\<rfloor>; r = x - of_int f
      in if r < 1 / 2 then f else if r > 1 / 2 then f + 1 else if even f then f else f + 1)"

text \<open>The double nearest to a rational: 53 significant bits, exponents down to -1074.\<close>

definition to_double :: "rat \<Rightarrow> double" where
  "to_double q =
     (if q = 0 then Num 0
      else let u = max (floor_log2 \<bar>q\<bar> - 52) (-1074);
               v = of_int (round_half_even (\<bar>q\<bar> / pow2 u)) * pow2 u
           in if v \<ge> pow2 1024 then (if q > 0 then PosInf else NegInf)
              else Num (if q > 0 then v else - v))"

fun double_add :: "double \<Rightarrow> double \<Rightarrow> double" where
  "double_add (Num a) (Num b) = to_double (a + b)"
| "double_add NaN b = NaN"
| "double_add a NaN = NaN"
| "double_add PosInf NegInf = NaN"
| "double_add NegInf PosInf = NaN"
| "double_add PosInf b = PosInf"
| "double_add a PosInf = PosInf"
| "double_add NegInf b = NegInf"
| "double_add a NegInf = NegInf"

fun double_less :: "double \<Rightarrow> double \<Rightarrow> bool" where
  "double_less (Num a) (Num b) = (a < b)"
| "double_less (Num a) b = (b = PosInf)"
| "double_less NegInf b = (b \<noteq> NegInf \<and> b \<noteq> NaN)"
| "double_less a b = False"

text \<open>\<^verbatim>\<open>Number.isInteger\<close> and \<^verbatim>\<open>Number.isSafeInteger\<close>.\<close>

fun isInteger :: "double \<Rightarrow> bool" where
  "isInteger (Num q) = (of_int \<lfloor>q\<rfloor> = q)"
| "isInteger x = False"

fun isSafeInteger :: "double \<Rightarrow> bool" where
  "isSafeInteger (Num q) = (of_int \<lfloor>q\<rfloor> = q \<and> \<bar>q\<bar> \<le> 9007199254740991)"
| "isSafeInteger x = False"

section \<open>JSON values\<close>

text \<open>An object lists its properties in the order of \<^verbatim>\<open>Object.keys\<close>: array indices ascending,
  then the other names in order of insertion.\<close>

datatype json =
  JNull | JBool bool | JNum double | JStr js_text | JArr "json list" | JObj "(js_text \<times> json) list"

definition is_digit :: "nat \<Rightarrow> bool" where
  "is_digit u \<longleftrightarrow> 48 \<le> u \<and> u \<le> 57"

definition digits_value :: "js_text \<Rightarrow> nat" where
  "digits_value ds = foldl (\<lambda>n d. 10 * n + (d - 48)) 0 ds"

definition array_index :: "js_text \<Rightarrow> nat option" where
  "array_index k =
     (if k \<noteq> [] \<and> list_all is_digit k \<and> (hd k = 48 \<longrightarrow> k = [48]) \<and> digits_value k < 4294967295
      then Some (digits_value k) else None)"

fun index_insert :: "nat \<Rightarrow> js_text \<Rightarrow> json \<Rightarrow> (js_text \<times> json) list \<Rightarrow> (js_text \<times> json) list" where
  "index_insert i k v [] = [(k, v)]"
| "index_insert i k v ((k', v') # ps) =
     (case array_index k' of
        Some j \<Rightarrow> if j < i then (k', v') # index_insert i k v ps else (k, v) # (k', v') # ps
      | None \<Rightarrow> (k, v) # (k', v') # ps)"

text \<open>Assigning a property: an existing one keeps its place.\<close>

definition obj_set :: "(js_text \<times> json) list \<Rightarrow> js_text \<Rightarrow> json \<Rightarrow> (js_text \<times> json) list" where
  "obj_set ps k v =
     (if k \<in> set (map fst ps) then AList.update k v ps
      else case array_index k of
          Some i \<Rightarrow> index_insert i k v ps
        | None \<Rightarrow> ps @ [(k, v)])"

text \<open>Reading a property, \<^verbatim>\<open>undefined\<close> when absent.\<close>

abbreviation obj_get :: "(js_text \<times> json) list \<Rightarrow> string \<Rightarrow> json option" where
  "obj_get ps k \<equiv> map_of ps (utf16 k)"

section \<open>\<^verbatim>\<open>JSON.parse\<close>\<close>

datatype json_token =
  LBrace | RBrace | LBrack | RBrack | Comma | Colon | Scalar json

definition hex_digit :: "nat \<Rightarrow> nat option" where
  "hex_digit u =
     (if is_digit u then Some (u - 48)
      else if 97 \<le> u \<and> u \<le> 102 then Some (u - 87)
      else if 65 \<le> u \<and> u \<le> 70 then Some (u - 55) else None)"

definition hex4 :: "nat \<Rightarrow> nat \<Rightarrow> nat \<Rightarrow> nat \<Rightarrow> nat option" where
  "hex4 a b c d =
     (case (hex_digit a, hex_digit b, hex_digit c, hex_digit d) of
        (Some w, Some x, Some y, Some z) \<Rightarrow> Some (((w * 16 + x) * 16 + y) * 16 + z)
      | _ \<Rightarrow> None)"

definition escaped :: "nat \<Rightarrow> nat option" where
  "escaped u =
     map_of [(34, 34), (92, 92), (47, 47), (98, 8), (102, 12), (110, 10), (114, 13), (116, 9)] u"

definition prepend :: "nat \<Rightarrow> (js_text \<times> js_text) option \<Rightarrow> (js_text \<times> js_text) option" where
  "prepend u r = map_option (\<lambda>(s, rest). (u # s, rest)) r"

lemma prepend_Some: "prepend u r = Some (s, rest) \<longleftrightarrow> (\<exists>s'. r = Some (s', rest) \<and> s = u # s')"
  by (cases r) (auto simp: prepend_def)

text \<open>The rest of a string literal after its opening quote.\<close>

fun lex_string :: "js_text \<Rightarrow> (js_text \<times> js_text) option" where
  "lex_string [] = None"
| "lex_string (u # s) =
     (if u = 34 then Some ([], s)
      else if u < 32 then None
      else if u = 92 then
        (case s of
           [] \<Rightarrow> None
         | e # r \<Rightarrow>
             if e = 117 then
               (case r of
                  a # b # c # d # r' \<Rightarrow>
                    (case hex4 a b c d of None \<Rightarrow> None | Some x \<Rightarrow> prepend x (lex_string r'))
                | _ \<Rightarrow> None)
             else (case escaped e of None \<Rightarrow> None | Some x \<Rightarrow> prepend x (lex_string r)))
      else prepend u (lex_string s))"

lemma lex_string_shorter: "lex_string s = Some (t, r) \<Longrightarrow> length r < length s"
proof (induction s arbitrary: t r rule: measure_induct_rule [of length])
  case (less s)
  show ?case
  proof (cases s)
    case Nil
    with less.prems show ?thesis by simp
  next
    case (Cons u s')
    have IH: "length r < length s''"
      if "length s'' < length s" "lex_string s'' = Some (t', r)" for s'' t'
      using less.IH that by blast
    from less.prems Cons show ?thesis
      by (auto simp: prepend_Some split: if_splits list.splits option.splits dest!: IH [rotated])
  qed
qed

definition lex_digits :: "js_text \<Rightarrow> (js_text \<times> js_text) option" where
  "lex_digits s =
     (if takeWhile is_digit s = [] then None else Some (takeWhile is_digit s, dropWhile is_digit s))"

definition lex_fraction :: "js_text \<Rightarrow> (js_text \<times> js_text) option" where
  "lex_fraction s = (case s of u # r \<Rightarrow> if u = 46 then lex_digits r else Some ([], s) | [] \<Rightarrow> Some ([], s))"

definition lex_exponent :: "js_text \<Rightarrow> (int \<times> js_text) option" where
  "lex_exponent s =
     (case s of
        [] \<Rightarrow> Some (0, s)
      | u # r \<Rightarrow>
          if u = 101 \<or> u = 69 then
            (case r of
               [] \<Rightarrow> None
             | v # r' \<Rightarrow>
                 if v = 45 then map_option (\<lambda>(ds, t). (- int (digits_value ds), t)) (lex_digits r')
                 else map_option (\<lambda>(ds, t). (int (digits_value ds), t))
                        (lex_digits (if v = 43 then r' else r)))
          else Some (0, s))"

definition lex_unsigned :: "js_text \<Rightarrow> (rat \<times> js_text) option" where
  "lex_unsigned s =
     (case lex_digits s of
        None \<Rightarrow> None
      | Some (ds, r) \<Rightarrow>
          if hd ds = 48 \<and> length ds > 1 then None
          else case lex_fraction r of
              None \<Rightarrow> None
            | Some (fs, r') \<Rightarrow>
                (case lex_exponent r' of
                   None \<Rightarrow> None
                 | Some (e, t) \<Rightarrow>
                     Some (of_nat (digits_value (ds @ fs)) * pow10 (e - int (length fs)), t)))"

definition lex_number :: "js_text \<Rightarrow> (double \<times> js_text) option" where
  "lex_number s =
     (case s of
        [] \<Rightarrow> None
      | u # r \<Rightarrow>
          if u = 45 then map_option (\<lambda>(q, t). (to_double (- q), t)) (lex_unsigned r)
          else map_option (\<lambda>(q, t). (to_double q, t)) (lex_unsigned s))"

lemma lex_digits_shorter: "lex_digits s = Some (ds, r) \<Longrightarrow> length r < length s"
  by (cases s) (auto simp: lex_digits_def less_Suc_eq_le length_dropWhile_le split: if_splits)

lemma lex_fraction_shorter: "lex_fraction s = Some (ds, r) \<Longrightarrow> length r \<le> length s"
  by (auto simp: lex_fraction_def split: list.splits if_splits dest!: lex_digits_shorter)

lemma lex_exponent_shorter: "lex_exponent s = Some (e, r) \<Longrightarrow> length r \<le> length s"
  by (auto simp: lex_exponent_def split: list.splits if_splits dest!: lex_digits_shorter)

lemma lex_unsigned_shorter: "lex_unsigned s = Some (q, r) \<Longrightarrow> length r < length s"
  by (auto simp: lex_unsigned_def split: option.splits if_splits
      dest!: lex_digits_shorter lex_fraction_shorter lex_exponent_shorter)

lemma lex_number_shorter: "lex_number s = Some (x, r) \<Longrightarrow> length r < length s"
  by (auto simp: lex_number_def split: list.splits if_splits dest!: lex_unsigned_shorter)

definition literals :: "(js_text \<times> json) list" where
  "literals = [(utf16 ''true'', JBool True), (utf16 ''false'', JBool False), (utf16 ''null'', JNull)]"

definition lex_literal :: "js_text \<Rightarrow> (json \<times> js_text) option" where
  "lex_literal s =
     map_option (\<lambda>(name, v). (v, drop (length name) s)) (find (\<lambda>(name, v). text_starts s name) literals)"

lemma lex_literal_shorter: "lex_literal s = Some (v, r) \<Longrightarrow> length r < length s"
  by (auto simp: lex_literal_def literals_def utf16_def text_starts_def
      split: if_splits dest!: arg_cong [of _ _ length])

definition punctuator :: "nat \<Rightarrow> json_token option" where
  "punctuator u =
     map_of [(123, LBrace), (125, RBrace), (91, LBrack), (93, RBrack), (44, Comma), (58, Colon)] u"

function (sequential) json_lex :: "js_text \<Rightarrow> json_token list option" where
  "json_lex [] = Some []"
| "json_lex (u # s) =
     (if u \<in> {32, 9, 10, 13} then json_lex s
      else case punctuator u of
          Some t \<Rightarrow> map_option (\<lambda>ts. t # ts) (json_lex s)
        | None \<Rightarrow>
            if u = 34 then
              (case lex_string s of
                 None \<Rightarrow> None
               | Some (x, r) \<Rightarrow> map_option (\<lambda>ts. Scalar (JStr x) # ts) (json_lex r))
            else if u = 45 \<or> is_digit u then
              (case lex_number (u # s) of
                 None \<Rightarrow> None
               | Some (x, r) \<Rightarrow> map_option (\<lambda>ts. Scalar (JNum x) # ts) (json_lex r))
            else
              (case lex_literal (u # s) of
                 None \<Rightarrow> None
               | Some (x, r) \<Rightarrow> map_option (\<lambda>ts. Scalar x # ts) (json_lex r)))"
  by pat_completeness auto
termination
  by (relation "measure length")
    (auto dest!: lex_string_shorter lex_number_shorter lex_literal_shorter)

text \<open>The parser consumes one token at a time; open arrays and objects are on a stack.\<close>

datatype json_frame = In_Array "json list" | In_Object "(js_text \<times> json) list" js_text

datatype json_state =
  Want_Value "json_frame list"
| Want_Value_Or_End "json_frame list"
| Want_Key_Or_End "json_frame list"
| Want_Key "(js_text \<times> json) list" "json_frame list"
| Want_Colon "(js_text \<times> json) list" js_text "json_frame list"
| After_Value json "json_frame list"

definition json_open :: "json_token \<Rightarrow> json_frame list \<Rightarrow> json_state option" where
  "json_open t stack =
     (case t of
        Scalar v \<Rightarrow> Some (After_Value v stack)
      | LBrack \<Rightarrow> Some (Want_Value_Or_End stack)
      | LBrace \<Rightarrow> Some (Want_Key_Or_End stack)
      | _ \<Rightarrow> None)"

definition json_key :: "json_token \<Rightarrow> (js_text \<times> json) list \<Rightarrow> json_frame list \<Rightarrow> json_state option" where
  "json_key t ps stack = (case t of Scalar (JStr k) \<Rightarrow> Some (Want_Colon ps k stack) | _ \<Rightarrow> None)"

fun json_step :: "json_state \<Rightarrow> json_token \<Rightarrow> json_state option" where
  "json_step (Want_Value stack) t = json_open t stack"
| "json_step (Want_Value_Or_End stack) t =
     (if t = RBrack then Some (After_Value (JArr []) stack) else json_open t (In_Array [] # stack))"
| "json_step (Want_Key_Or_End stack) t =
     (if t = RBrace then Some (After_Value (JObj []) stack) else json_key t [] stack)"
| "json_step (Want_Key ps stack) t = json_key t ps stack"
| "json_step (Want_Colon ps k stack) t =
     (if t = Colon then Some (Want_Value (In_Object ps k # stack)) else None)"
| "json_step (After_Value v []) t = None"
| "json_step (After_Value v (In_Array vs # stack)) t =
     (if t = Comma then Some (Want_Value (In_Array (vs @ [v]) # stack))
      else if t = RBrack then Some (After_Value (JArr (vs @ [v])) stack)
      else None)"
| "json_step (After_Value v (In_Object ps k # stack)) t =
     (if t = Comma then Some (Want_Key (obj_set ps k v) stack)
      else if t = RBrace then Some (After_Value (JObj (obj_set ps k v)) stack)
      else None)"

fun json_run :: "json_state \<Rightarrow> json_token list \<Rightarrow> json option" where
  "json_run st [] = (case st of After_Value v [] \<Rightarrow> Some v | _ \<Rightarrow> None)"
| "json_run st (t # ts) = (case json_step st t of None \<Rightarrow> None | Some st' \<Rightarrow> json_run st' ts)"

text \<open>\<^verbatim>\<open>None\<close> is the \<^verbatim>\<open>SyntaxError\<close>.\<close>

definition json_parse :: "js_text \<Rightarrow> json option" where
  "json_parse s = (case json_lex s of None \<Rightarrow> None | Some ts \<Rightarrow> json_run (Want_Value []) ts)"

section \<open>\<^verbatim>\<open>JSON.stringify\<close>\<close>

definition hex_char :: "nat \<Rightarrow> nat" where
  "hex_char n = (if n < 10 then 48 + n else 87 + n)"

definition unicode_escape :: "nat \<Rightarrow> js_text" where
  "unicode_escape u =
     [92, 117, hex_char (u div 4096), hex_char (u div 256 mod 16), hex_char (u div 16 mod 16),
      hex_char (u mod 16)]"

definition quote_unit :: "nat \<Rightarrow> js_text" where
  "quote_unit u =
     (case map_of [(8, 98), (9, 116), (10, 110), (12, 102), (13, 114), (34, 34), (92, 92)] u of
        Some e \<Rightarrow> [92, e]
      | None \<Rightarrow> if u < 32 then unicode_escape u else [u])"

fun quote_units :: "js_text \<Rightarrow> js_text" where
  "quote_units [] = []"
| "quote_units (u # s) =
     (if high_surrogate u then
        (case s of
           v # r \<Rightarrow> if low_surrogate v then u # v # quote_units r
                   else unicode_escape u @ quote_units s
         | [] \<Rightarrow> unicode_escape u)
      else if low_surrogate u then unicode_escape u @ quote_units s
      else quote_unit u @ quote_units s)"

definition json_quote :: "js_text \<Rightarrow> js_text" where
  "json_quote s = 34 # quote_units s @ [34]"

text \<open>Decimal digits of a natural number.\<close>

definition text_of_nat :: "nat \<Rightarrow> js_text" where
  "text_of_nat n = utf16 (show_nat n)"

text \<open>
  \<^verbatim>\<open>Number::toString\<close> for a positive double: the fewest digits \<open>s\<close> with \<open>s * 10 ^ (n - k)\<close>
  rounding back to it, the closest when several do, then the decimal or exponent notation.
\<close>

definition digit_candidates :: "rat \<Rightarrow> int \<Rightarrow> nat \<Rightarrow> (int \<times> int) list" where
  "digit_candidates x n k =
     filter (\<lambda>(m, s). 10 ^ (k - 1) \<le> s \<and> s < 10 ^ k
                \<and> to_double (of_int s * pow10 (m - int k)) = Num x)
       (concat (map (\<lambda>m. let f = \<lfloor>x / pow10 (m - int k)\<rfloor> in [(m, f), (m, f + 1)]) [n, n + 1]))"

definition closest_digits :: "rat \<Rightarrow> int \<Rightarrow> nat \<Rightarrow> (int \<times> int) option" where
  "closest_digits x n k =
     (let distance = (\<lambda>(m, s). \<bar>of_int s * pow10 (m - int k) - x\<bar>)
      in case digit_candidates x n k of
           [] \<Rightarrow> None
         | c # cs \<Rightarrow> Some (foldl (\<lambda>best d. if distance d < distance best then d else best) c cs))"

fun floor_log10 :: "nat \<Rightarrow> nat" where
  "floor_log10 n = (if n < 10 then 0 else Suc (floor_log10 (n div 10)))"

declare floor_log10.simps [simp del]

definition decimal_exponent :: "rat \<Rightarrow> int" where
  "decimal_exponent x =
     (let (p, d) = quotient_of x; e = int (floor_log10 (nat p)) - int (floor_log10 (nat d))
      in if pow10 (e + 1) \<le> x then e + 2 else if pow10 e \<le> x then e + 1 else e)"

definition shortest_digits :: "rat \<Rightarrow> int \<Rightarrow> nat \<times> int \<times> int" where
  "shortest_digits x n =
     (case find (\<lambda>k. closest_digits x n k \<noteq> None) [1..<18] of
        Some k \<Rightarrow> (k, the (closest_digits x n k))
      | None \<Rightarrow> (17, n, \<lfloor>x / pow10 (n - 17)\<rfloor>))"

definition positive_text :: "rat \<Rightarrow> js_text" where
  "positive_text x =
     (let (k, n, s) = shortest_digits x (decimal_exponent x); ds = text_of_nat (nat s)
      in if int k \<le> n \<and> n \<le> 21 then ds @ replicate (nat n - k) 48
         else if 0 < n \<and> n \<le> 21 then take (nat n) ds @ [46] @ drop (nat n) ds
         else if -6 < n \<and> n \<le> 0 then [48, 46] @ replicate (nat (- n)) 48 @ ds
         else let e = n - 1; sign = (if e < 0 then 45 else 43 :: nat); es = text_of_nat (nat \<bar>e\<bar>)
              in if k = 1 then ds @ [101, sign] @ es
                 else take 1 ds @ [46] @ drop 1 ds @ [101, sign] @ es)"

text \<open>Non-finite numbers print as \<^verbatim>\<open>null\<close>.\<close>

fun json_number :: "double \<Rightarrow> js_text" where
  "json_number (Num q) =
     (if q = 0 then [48] else if q < 0 then 45 # positive_text (- q) else positive_text q)"
| "json_number x = utf16 ''null''"

fun comma_join :: "js_text list \<Rightarrow> js_text" where
  "comma_join [] = []"
| "comma_join [s] = s"
| "comma_join (s # t # ss) = s @ [44] @ comma_join (t # ss)"

fun json_stringify :: "json \<Rightarrow> js_text" where
  "json_stringify JNull = utf16 ''null''"
| "json_stringify (JBool b) = utf16 (if b then ''true'' else ''false'')"
| "json_stringify (JNum x) = json_number x"
| "json_stringify (JStr s) = json_quote s"
| "json_stringify (JArr vs) = [91] @ comma_join (map json_stringify vs) @ [93]"
| "json_stringify (JObj ps) =
     [123] @ comma_join (map (\<lambda>(k, v). json_quote k @ [58] @ json_stringify v) ps) @ [125]"

section \<open>Searching texts\<close>

text \<open>
  Searching in a text: \<^verbatim>\<open>indexOf\<close>, and where a text that does not contain a marker can still begin one.
  The filters of the event streams share these.
\<close>

text \<open>\<^verbatim>\<open>indexOf\<close>.\<close>

fun text_index :: "js_text \<Rightarrow> js_text \<Rightarrow> nat option" where
  "text_index m [] = (if m = [] then Some 0 else None)"
| "text_index m (u # s) = (if text_starts (u # s) m then Some 0 else map_option Suc (text_index m s))"

lemma text_index_Some:
  "text_index m s = Some i \<Longrightarrow> text_starts (drop i s) m \<and> i \<le> length s
     \<and> (\<forall>j < i. \<not> text_starts (drop j s) m)"
proof (induction s arbitrary: i)
  case Nil
  then show ?case by (auto simp: text_starts_def split: if_splits)
next
  case (Cons u s)
  show ?case
  proof (cases "text_starts (u # s) m")
    case True
    with Cons.prems show ?thesis by auto
  next
    case False
    with Cons.prems obtain k where k: "text_index m s = Some k" "i = Suc k" by auto
    with Cons.IH [OF k(1)] False show ?thesis
      by (auto simp: less_Suc_eq_0_disj)
  qed
qed

lemma text_index_None: "text_index m s = None \<Longrightarrow> \<not> text_starts (drop j s) m"
proof (induction s arbitrary: j)
  case Nil
  then show ?case by (auto simp: text_starts_def split: if_splits)
next
  case (Cons u s)
  then show ?case by (cases j) (auto split: if_splits)
qed

lemma text_starts_append_long:
  "length m \<le> length s \<Longrightarrow> text_starts (s @ t) m = text_starts s m"
  by (simp add: text_starts_def)

lemma find_longest:
  "(case find P (rev [1..<Suc m]) of
      Some k \<Rightarrow> k \<le> m \<and> P k \<and> (\<forall>n. P n \<longrightarrow> n \<le> m \<longrightarrow> n \<le> k)
    | None \<Rightarrow> \<forall>n. P n \<longrightarrow> n \<le> m \<longrightarrow> n = 0)"
proof (induction m)
  case 0
  then show ?case by simp
next
  case (Suc m)
  have "rev [1..<Suc (Suc m)] = Suc m # rev [1..<Suc m]" by simp
  with Suc show ?case
    by (auto simp: le_Suc_eq split: option.splits)
qed

end
