(* ===== verification/Event_Frames.thy ===== *)
theory Event_Frames
  imports Json_Text
begin

text \<open>
  The frame layer of \<^verbatim>\<open>src/main/gateway/kiro-event-stream.ts\<close>: the checks of the prelude, the
  lengths and the checksums of one AWS event stream frame, its headers, and the helpers that
  read JSON payloads. A thrown \<^verbatim>\<open>KiroStreamFailure\<close> is the left summand of a result. Its
  \<open>upstreamMessage\<close> is the text an upstream event brought along; where it is \<^const>\<open>None\<close> the
  message is the fixed wording of the failure code, which is not modelled.
\<close>

section \<open>Failures\<close>

record kiro_failure =
  failureCode :: js_text
  upstreamMessage :: "js_text option"
  errorType :: js_text

definition kiro_fail_as :: "string \<Rightarrow> string \<Rightarrow> kiro_failure" where
  "kiro_fail_as c t = \<lparr>failureCode = utf16 c, upstreamMessage = None, errorType = utf16 t\<rparr>"

definition kiro_fail :: "string \<Rightarrow> kiro_failure" where
  "kiro_fail c = kiro_fail_as c ''invalid_upstream_response''"

type_synonym 'a result = "kiro_failure + 'a"

definition and_then :: "'e + 'a \<Rightarrow> ('a \<Rightarrow> 'e + 'b) \<Rightarrow> 'e + 'b" where
  "and_then r f = (case r of Inl e \<Rightarrow> Inl e | Inr x \<Rightarrow> f x)"

lemma and_then_simps [simp]: "and_then (Inl e) f = Inl e" "and_then (Inr x) f = f x"
  by (simp_all add: and_then_def)

lemma and_then_Inr: "and_then r f = Inr y \<longleftrightarrow> (\<exists>x. r = Inr x \<and> f x = Inr y)"
  by (cases r) simp_all

lemma and_then_cong [fundef_cong]:
  "r = s \<Longrightarrow> (\<And>x. s = Inr x \<Longrightarrow> f x = g x) \<Longrightarrow> and_then r f = and_then s g"
  by (cases s) simp_all

section \<open>Headers\<close>

datatype header_value =
  HBool bool | HNumber int | HBigInt int | HString js_text | HBytes "byte list"

definition subarray :: "byte list \<Rightarrow> nat \<Rightarrow> nat \<Rightarrow> byte list" where
  "subarray bytes first until = take (until - first) (drop first bytes)"

definition decodeUtf8 :: "byte list \<Rightarrow> js_text result" where
  "decodeUtf8 bytes =
     (case utf8_decode bytes of
        None \<Rightarrow> Inl (kiro_fail ''kiro_event_stream_utf8'')
      | Some s \<Rightarrow> Inr s)"

definition ensureHeaderBytes :: "byte list \<Rightarrow> nat \<Rightarrow> nat \<Rightarrow> unit result" where
  "ensureHeaderBytes bytes offset n =
     (if offset + n > length bytes then Inl (kiro_fail ''kiro_event_stream_header_truncated'')
      else Inr ())"

definition fixed_length :: "nat \<Rightarrow> nat option" where
  "fixed_length valueType = map_of [(2, 1), (3, 2), (4, 4), (5, 8), (8, 8), (9, 16)] valueType"

definition fixed_value :: "nat \<Rightarrow> byte list \<Rightarrow> header_value" where
  "fixed_value valueType valueBytes =
     (if valueType = 2 then HNumber (uint (valueBytes ! 0))
      else if valueType = 3 then HNumber (readInt16 valueBytes 0)
      else if valueType = 4 then HNumber (readInt32 valueBytes 0)
      else if valueType = 5 \<or> valueType = 8 then HBigInt (readBigInt64 valueBytes 0)
      else HBytes valueBytes)"

definition parseHeaderValue :: "byte list \<Rightarrow> nat \<Rightarrow> nat \<Rightarrow> (header_value \<times> nat) result" where
  "parseHeaderValue bytes offset valueType =
     (if valueType = 0 then Inr (HBool True, offset)
      else if valueType = 1 then Inr (HBool False, offset)
      else case fixed_length valueType of
          Some n \<Rightarrow>
            and_then (ensureHeaderBytes bytes offset n) (\<lambda>_.
            Inr (fixed_value valueType (subarray bytes offset (offset + n)), offset + n))
        | None \<Rightarrow>
            if valueType = 6 \<or> valueType = 7 then
              and_then (ensureHeaderBytes bytes offset 2) (\<lambda>_.
              let n = nat (readUint16 bytes offset); start = offset + 2
              in and_then (ensureHeaderBytes bytes start n) (\<lambda>_.
                 let valueBytes = subarray bytes start (start + n)
                 in if valueType = 7
                    then and_then (decodeUtf8 valueBytes) (\<lambda>s. Inr (HString s, start + n))
                    else Inr (HBytes valueBytes, start + n)))
            else Inl (kiro_fail ''kiro_event_stream_header_type''))"

lemma parseHeaderValue_next:
  "parseHeaderValue bytes offset t = Inr (v, next) \<Longrightarrow> offset \<le> next"
  by (auto simp: parseHeaderValue_def Let_def and_then_Inr split: if_splits option.splits)

type_synonym headers = "(js_text, header_value) js_map"

text \<open>The loop of \<^verbatim>\<open>parseHeaders\<close>.\<close>

function parse_headers :: "byte list \<Rightarrow> nat \<Rightarrow> headers \<Rightarrow> headers result" where
  "parse_headers bytes offset hs =
     (if offset < length bytes then
        let nameLength = unat (bytes ! offset); start = offset + 1
        in if nameLength = 0 \<or> start + nameLength + 1 > length bytes
           then Inl (kiro_fail ''kiro_event_stream_header_invalid'')
           else and_then (decodeUtf8 (subarray bytes start (start + nameLength))) (\<lambda>name.
                if map_get hs name \<noteq> None then Inl (kiro_fail ''kiro_event_stream_header_duplicate'')
                else let typeAt = start + nameLength
                     in and_then (parseHeaderValue bytes (typeAt + 1) (unat (bytes ! typeAt)))
                          (\<lambda>parsed. parse_headers bytes (snd parsed) (map_set hs name (fst parsed))))
      else Inr hs)"
  by auto
termination
  by (relation "measure (\<lambda>(bytes, offset, hs). length bytes - offset)")
    (auto dest!: parseHeaderValue_next)

declare parse_headers.simps [simp del]

definition parseHeaders :: "byte list \<Rightarrow> headers result" where
  "parseHeaders bytes = parse_headers bytes 0 []"

definition requiredStringHeader :: "headers \<Rightarrow> string \<Rightarrow> js_text result" where
  "requiredStringHeader hs name =
     (case map_get hs (utf16 name) of
        Some (HString s) \<Rightarrow>
          if s = [] then Inl (kiro_fail ''kiro_event_stream_header_required'') else Inr s
      | _ \<Rightarrow> Inl (kiro_fail ''kiro_event_stream_header_required''))"

section \<open>Frames\<close>

definition MIN_FRAME_BYTES :: nat where "MIN_FRAME_BYTES = 16"

record parsed_frame =
  frame_headers :: headers
  frame_payload :: "byte list"

definition validatePreludeCrc :: "byte list \<Rightarrow> unit result" where
  "validatePreludeCrc prelude =
     (if uint (crc32Ieee (subarray prelude 0 8)) \<noteq> readUint32 prelude 8
      then Inl (kiro_fail ''kiro_event_stream_prelude_crc'') else Inr ())"

definition validateMessageCrc :: "byte list \<Rightarrow> unit result" where
  "validateMessageCrc frame =
     (if uint (crc32Ieee (subarray frame 0 (length frame - 4))) \<noteq> readUint32 frame (length frame - 4)
      then Inl (kiro_fail ''kiro_event_stream_message_crc'') else Inr ())"

definition validateFrameLengths :: "nat \<Rightarrow> nat \<Rightarrow> nat \<Rightarrow> unit result" where
  "validateFrameLengths totalLength headersLength maxFrameBytes =
     (if totalLength < MIN_FRAME_BYTES then Inl (kiro_fail ''kiro_event_stream_frame_length'')
      else if totalLength > maxFrameBytes
      then Inl (kiro_fail_as ''kiro_event_stream_frame_too_large'' ''frame_too_large'')
      else if int headersLength > int totalLength - int MIN_FRAME_BYTES
      then Inl (kiro_fail ''kiro_event_stream_headers_length'')
      else Inr ())"

definition parseFrame :: "byte list \<Rightarrow> nat \<Rightarrow> parsed_frame result" where
  "parseFrame frame headersLength =
     and_then (validateMessageCrc frame) (\<lambda>_.
     let payloadStart = 12 + headersLength
     in and_then (parseHeaders (subarray frame 12 payloadStart)) (\<lambda>hs.
        Inr \<lparr>frame_headers = hs, frame_payload = subarray frame payloadStart (length frame - 4)\<rparr>))"

section \<open>Reading JSON payloads\<close>

fun isJsonObject :: "json \<Rightarrow> bool" where
  "isJsonObject (JObj ps) = True"
| "isJsonObject v = False"

definition isJsonContentType :: "js_text \<Rightarrow> bool" where
  "isJsonContentType s =
     (let mediaType = text_lower (text_trim (takeWhile (\<lambda>u. u \<noteq> 59) s))
      in mediaType = utf16 ''application/json'' \<or> text_ends mediaType (utf16 ''+json''))"

definition isKiroEventStreamContentType :: "js_text option \<Rightarrow> bool" where
  "isKiroEventStreamContentType m =
     (case m of
        None \<Rightarrow> False
      | Some s \<Rightarrow>
          if s = [] then False
          else text_lower (text_trim (takeWhile (\<lambda>u. u \<noteq> 59) s))
                 = utf16 ''application/vnd.amazon.eventstream'')"

text \<open>The properties of the object a payload holds.\<close>

definition parseJsonObject :: "byte list \<Rightarrow> (js_text \<times> json) list result" where
  "parseJsonObject payload =
     and_then (decodeUtf8 payload) (\<lambda>s.
     case json_parse s of
       None \<Rightarrow> Inl (kiro_fail_as ''kiro_event_stream_invalid_json'' ''invalid_json'')
     | Some (JObj ps) \<Rightarrow> Inr ps
     | Some _ \<Rightarrow> Inl (kiro_fail ''kiro_event_stream_invalid_payload''))"

definition parseToolInput :: "js_text \<Rightarrow> (js_text \<times> json) list result" where
  "parseToolInput s =
     (case json_parse s of
        None \<Rightarrow> Inl (kiro_fail ''kiro_tool_input_json'')
      | Some (JObj ps) \<Rightarrow> Inr ps
      | Some _ \<Rightarrow> Inl (kiro_fail ''kiro_tool_input_shape''))"

definition requiredString :: "json option \<Rightarrow> js_text result" where
  "requiredString v =
     (case v of
        Some (JStr s) \<Rightarrow> if s = [] then Inl (kiro_fail ''kiro_event_stream_field_required'') else Inr s
      | _ \<Rightarrow> Inl (kiro_fail ''kiro_event_stream_field_required''))"

definition requiredStringAllowEmpty :: "json option \<Rightarrow> js_text result" where
  "requiredStringAllowEmpty v =
     (case v of
        Some (JStr s) \<Rightarrow> Inr s
      | _ \<Rightarrow> Inl (kiro_fail ''kiro_event_stream_field_required''))"

definition optionalString :: "json option \<Rightarrow> js_text option" where
  "optionalString v = (case v of Some (JStr s) \<Rightarrow> if s = [] then None else Some s | _ \<Rightarrow> None)"

definition requiredObject :: "json option \<Rightarrow> (js_text \<times> json) list result" where
  "requiredObject v =
     (case v of
        Some (JObj ps) \<Rightarrow> Inr ps
      | _ \<Rightarrow> Inl (kiro_fail ''kiro_event_stream_field_required''))"

definition optionalTokenCount :: "json option \<Rightarrow> double option result" where
  "optionalTokenCount v =
     (case v of
        None \<Rightarrow> Inr None
      | Some (JNum x) \<Rightarrow>
          if \<not> isSafeInteger x \<or> double_less x (Num 0) then Inl (kiro_fail ''kiro_usage_invalid'')
          else Inr (Some x)
      | _ \<Rightarrow> Inl (kiro_fail ''kiro_usage_invalid''))"

definition sumDefined :: "double option list \<Rightarrow> double option" where
  "sumDefined values =
     (let present = map the (filter (\<lambda>v. v \<noteq> None) values)
      in if present \<noteq> [] then Some (foldl double_add (Num 0) present) else None)"

end
