(* ===== verification/Tool_Schema.thy ===== *)
theory Tool_Schema
  imports Event_Frames
begin

text \<open>
  \<^verbatim>\<open>validateSchemaValue\<close> of \<^verbatim>\<open>src/main/gateway/kiro-event-stream.ts\<close> and its helpers: the
  validation of a tool call's input against the JSON schema the client declared for the tool. An
  issue is the path of the offending value and a reason; the wording of the reasons is not
  modelled. The argument \<open>re\<close> is the engine behind \<^verbatim>\<open>new RegExp(pattern, 'u')\<close>: \<^const>\<open>None\<close> for a
  pattern it rejects, otherwise the \<^verbatim>\<open>test\<close> of the expression.
  \<open>Schema_Meaning\<close> relates the validator to what the keywords of a schema mean.
\<close>

definition MAX_SCHEMA_VALIDATION_DEPTH :: nat where "MAX_SCHEMA_VALIDATION_DEPTH = 64"

datatype schema_reason =
  Too_Deep | Rejects_Every_Value | Node_Not_Object | Wrong_Type | Not_In_Enum | Not_Const
| Branches_Malformed | Not_All_Of | Not_Any_Of | Not_One_Of | Matches_Forbidden
| Below_Min_Length | Above_Max_Length | Pattern_Invalid | Pattern_Mismatch
| Below_Minimum | Above_Maximum | Not_Above_Exclusive_Minimum | Not_Below_Exclusive_Maximum
| Not_Multiple | Below_Min_Items | Above_Max_Items | Items_Not_Unique
| Below_Min_Properties | Above_Max_Properties | Property_Missing | Property_Not_Allowed

type_synonym schema_issue = "js_text \<times> schema_reason"

type_synonym regexp_engine = "js_text \<Rightarrow> (js_text \<Rightarrow> bool) option"

type_synonym properties = "(js_text \<times> json) list"

section \<open>Issues in the order of the checks\<close>

definition or_else :: "schema_issue option \<Rightarrow> schema_issue option \<Rightarrow> schema_issue option" where
  "or_else a b = (case a of None \<Rightarrow> b | Some i \<Rightarrow> Some i)"

lemma or_else_None [simp]: "or_else a b = None \<longleftrightarrow> a = None \<and> b = None"
  by (cases a) (simp_all add: or_else_def)

definition issue_when :: "bool \<Rightarrow> js_text \<Rightarrow> schema_reason \<Rightarrow> schema_issue option" where
  "issue_when b path reason = (if b then Some (path, reason) else None)"

lemma issue_when_None [simp]: "issue_when b path reason = None \<longleftrightarrow> \<not> b"
  by (simp add: issue_when_def)

primrec first_issue :: "('a \<Rightarrow> schema_issue option) \<Rightarrow> 'a list \<Rightarrow> schema_issue option" where
  "first_issue f [] = None"
| "first_issue f (x # xs) = or_else (f x) (first_issue f xs)"

lemma first_issue_cong [fundef_cong]:
  "xs = ys \<Longrightarrow> (\<And>x. x \<in> set ys \<Longrightarrow> f x = g x) \<Longrightarrow> first_issue f xs = first_issue g ys"
  by (induction ys arbitrary: xs) auto

lemma first_issue_None [simp]: "first_issue f xs = None \<longleftrightarrow> list_all (\<lambda>x. f x = None) xs"
  by (induction xs) simp_all

section \<open>Comparing JSON values\<close>

fun text_le :: "js_text \<Rightarrow> js_text \<Rightarrow> bool" where
  "text_le [] t = True"
| "text_le (u # s) [] = False"
| "text_le (u # s) (v # t) = (u < v \<or> u = v \<and> text_le s t)"

fun canonicalJson :: "json \<Rightarrow> js_text" where
  "canonicalJson (JArr vs) = [91] @ comma_join (map canonicalJson vs) @ [93]"
| "canonicalJson (JObj ps) =
     [123]
     @ comma_join (map (\<lambda>(k, s). json_quote k @ [58] @ s)
         (sort_by (\<lambda>a b. text_le (fst a) (fst b)) (map (\<lambda>(k, v). (k, canonicalJson v)) ps)))
     @ [125]"
| "canonicalJson v = json_stringify v"

definition jsonValuesEqual :: "json \<Rightarrow> json \<Rightarrow> bool" where
  "jsonValuesEqual a b \<longleftrightarrow> canonicalJson a = canonicalJson b"

definition hasDuplicateJsonValues :: "json list \<Rightarrow> bool" where
  "hasDuplicateJsonValues vs \<longleftrightarrow> \<not> distinct (map canonicalJson vs)"

section \<open>Types and paths\<close>

definition matches_type :: "json \<Rightarrow> json \<Rightarrow> bool" where
  "matches_type v t =
     (case t of
        JStr name \<Rightarrow>
          if name = utf16 ''null'' then v = JNull
          else if name = utf16 ''boolean'' then (case v of JBool _ \<Rightarrow> True | _ \<Rightarrow> False)
          else if name = utf16 ''object'' then isJsonObject v
          else if name = utf16 ''array'' then (case v of JArr _ \<Rightarrow> True | _ \<Rightarrow> False)
          else if name = utf16 ''number'' then (case v of JNum (Num _) \<Rightarrow> True | _ \<Rightarrow> False)
          else if name = utf16 ''integer'' then (case v of JNum x \<Rightarrow> isInteger x | _ \<Rightarrow> False)
          else if name = utf16 ''string'' then (case v of JStr _ \<Rightarrow> True | _ \<Rightarrow> False)
          else False
      | _ \<Rightarrow> False)"

definition matchesSchemaType :: "json \<Rightarrow> json \<Rightarrow> bool" where
  "matchesSchemaType v rawType =
     list_ex (matches_type v) (case rawType of JArr ts \<Rightarrow> ts | t \<Rightarrow> [t])"

definition identifier_start :: "nat \<Rightarrow> bool" where
  "identifier_start u \<longleftrightarrow> 65 \<le> u \<and> u \<le> 90 \<or> 97 \<le> u \<and> u \<le> 122 \<or> u = 95 \<or> u = 36"

definition schemaPropertyPath :: "js_text \<Rightarrow> js_text \<Rightarrow> js_text" where
  "schemaPropertyPath path name =
     (if name \<noteq> [] \<and> identifier_start (hd name)
         \<and> list_all (\<lambda>u. identifier_start u \<or> is_digit u) (tl name)
      then path @ [46] @ name
      else path @ [91] @ json_quote name @ [93])"

definition itemPath :: "js_text \<Rightarrow> nat \<Rightarrow> js_text" where
  "itemPath path index = path @ [91] @ text_of_nat index @ [93]"

text \<open>A keyword whose value is a non-negative safe integer.\<close>

definition isNonNegativeInteger :: "json option \<Rightarrow> rat option" where
  "isNonNegativeInteger v =
     (case v of
        Some (JNum (Num q)) \<Rightarrow> if isSafeInteger (Num q) \<and> 0 \<le> q then Some q else None
      | _ \<Rightarrow> None)"

definition below :: "nat \<Rightarrow> json option \<Rightarrow> bool" where
  "below n v = (case isNonNegativeInteger v of Some q \<Rightarrow> of_nat n < q | None \<Rightarrow> False)"

definition above :: "nat \<Rightarrow> json option \<Rightarrow> bool" where
  "above n v = (case isNonNegativeInteger v of Some q \<Rightarrow> of_nat n > q | None \<Rightarrow> False)"

section \<open>The checks of one node\<close>

definition type_issue :: "json \<Rightarrow> properties \<Rightarrow> js_text \<Rightarrow> schema_issue option" where
  "type_issue v schema path =
     or_else
       (issue_when
         (case obj_get schema ''type'' of None \<Rightarrow> False | Some t \<Rightarrow> \<not> matchesSchemaType v t)
         path Wrong_Type)
     (or_else
       (issue_when
         (case obj_get schema ''enum'' of
            Some (JArr cs) \<Rightarrow> \<not> list_ex (\<lambda>c. jsonValuesEqual c v) cs
          | _ \<Rightarrow> False)
         path Not_In_Enum)
       (issue_when
         (case obj_get schema ''const'' of None \<Rightarrow> False | Some c \<Rightarrow> \<not> jsonValuesEqual c v)
         path Not_Const))"

definition string_issue :: "regexp_engine \<Rightarrow> js_text \<Rightarrow> properties \<Rightarrow> js_text \<Rightarrow> schema_issue option" where
  "string_issue re s schema path =
     or_else (issue_when (below (code_points s) (obj_get schema ''minLength'')) path Below_Min_Length)
     (or_else (issue_when (above (code_points s) (obj_get schema ''maxLength'')) path Above_Max_Length)
     (case obj_get schema ''pattern'' of
        Some (JStr p) \<Rightarrow>
          (case re p of
             None \<Rightarrow> Some (path, Pattern_Invalid)
           | Some matching \<Rightarrow> issue_when (\<not> matching s) path Pattern_Mismatch)
      | _ \<Rightarrow> None))"

definition double_le :: "double \<Rightarrow> double \<Rightarrow> bool" where
  "double_le a b \<longleftrightarrow> a \<noteq> NaN \<and> b \<noteq> NaN \<and> (a = b \<or> double_less a b)"

text \<open>The quotient of a number by a positive one.\<close>

fun quotient :: "double \<Rightarrow> double \<Rightarrow> double" where
  "quotient (Num a) (Num b) = to_double (a / b)"
| "quotient (Num a) PosInf = Num 0"
| "quotient PosInf (Num b) = PosInf"
| "quotient NegInf (Num b) = NegInf"
| "quotient a b = NaN"

definition isMultipleOf :: "double \<Rightarrow> double \<Rightarrow> bool" where
  "isMultipleOf value divisor =
     (case quotient value divisor of
        Num q \<Rightarrow>
          (case to_double (q - of_int \<lfloor>q + 1 / 2\<rfloor>) of
             Num d \<Rightarrow> \<bar>d\<bar> \<le> pow2 (-52) * max 1 \<bar>q\<bar> * 8
           | _ \<Rightarrow> False)
      | _ \<Rightarrow> False)"

definition number_keyword :: "properties \<Rightarrow> string \<Rightarrow> (double \<Rightarrow> bool) \<Rightarrow> bool" where
  "number_keyword schema name p = (case obj_get schema name of Some (JNum x) \<Rightarrow> p x | _ \<Rightarrow> False)"

definition number_issue :: "double \<Rightarrow> properties \<Rightarrow> js_text \<Rightarrow> schema_issue option" where
  "number_issue x schema path =
     or_else (issue_when (number_keyword schema ''minimum'' (\<lambda>m. double_less x m)) path Below_Minimum)
     (or_else (issue_when (number_keyword schema ''maximum'' (\<lambda>m. double_less m x)) path Above_Maximum)
     (or_else (issue_when (number_keyword schema ''exclusiveMinimum'' (\<lambda>m. double_le x m)) path
                 Not_Above_Exclusive_Minimum)
     (or_else (issue_when (number_keyword schema ''exclusiveMaximum'' (\<lambda>m. double_le m x)) path
                 Not_Below_Exclusive_Maximum)
     (issue_when
        (number_keyword schema ''multipleOf'' (\<lambda>m. double_less (Num 0) m \<and> \<not> isMultipleOf x m))
        path Not_Multiple))))"

definition array_issue :: "json list \<Rightarrow> properties \<Rightarrow> js_text \<Rightarrow> schema_issue option" where
  "array_issue vs schema path =
     or_else (issue_when (below (length vs) (obj_get schema ''minItems'')) path Below_Min_Items)
     (or_else (issue_when (above (length vs) (obj_get schema ''maxItems'')) path Above_Max_Items)
     (issue_when (obj_get schema ''uniqueItems'' = Some (JBool True) \<and> hasDuplicateJsonValues vs)
        path Items_Not_Unique))"

definition object_issue :: "properties \<Rightarrow> properties \<Rightarrow> js_text \<Rightarrow> schema_issue option" where
  "object_issue ps schema path =
     or_else (issue_when (below (length ps) (obj_get schema ''minProperties'')) path Below_Min_Properties)
     (or_else (issue_when (above (length ps) (obj_get schema ''maxProperties'')) path Above_Max_Properties)
     (case obj_get schema ''required'' of
        Some (JArr names) \<Rightarrow>
          first_issue
            (\<lambda>n. case n of
                   JStr name \<Rightarrow>
                     issue_when (map_of ps name = None) (schemaPropertyPath path name) Property_Missing
                 | _ \<Rightarrow> None)
            names
      | _ \<Rightarrow> None))"

datatype branch_keyword = All_Of | Any_Of | One_Of

text \<open>\<open>valid\<close> tells which branches the value satisfies.\<close>

definition validateSchemaBranches ::
    "(json \<Rightarrow> bool) \<Rightarrow> json option \<Rightarrow> js_text \<Rightarrow> branch_keyword \<Rightarrow> schema_issue option" where
  "validateSchemaBranches valid rawBranches path keyword =
     (case rawBranches of
        None \<Rightarrow> None
      | Some (JArr branches) \<Rightarrow>
          if branches = [] then Some (path, Branches_Malformed)
          else let matches = length (filter valid branches)
               in (case keyword of
                     All_Of \<Rightarrow> issue_when (matches \<noteq> length branches) path Not_All_Of
                   | Any_Of \<Rightarrow> issue_when (matches = 0) path Not_Any_Of
                   | One_Of \<Rightarrow> issue_when (matches \<noteq> 1) path Not_One_Of)
      | Some _ \<Rightarrow> Some (path, Branches_Malformed))"

lemma validateSchemaBranches_cong [fundef_cong]:
  "raw = raw' \<Longrightarrow> path = path' \<Longrightarrow> k = k' \<Longrightarrow> (\<And>b. valid b = valid' b) \<Longrightarrow>
   validateSchemaBranches valid raw path k = validateSchemaBranches valid' raw' path' k'"
proof -
  assume eqs: "raw = raw'" "path = path'" "k = k'" and "\<And>b. valid b = valid' b"
  then have "valid = valid'" by blast
  with eqs show ?thesis by simp
qed

text \<open>The schema of one property of an object: the declared one, or what
  \<^verbatim>\<open>additionalProperties\<close> says.\<close>

datatype property_rule = Check_With json | Reject_Property | Accept_Property

definition rule_of_property :: "properties \<Rightarrow> js_text \<Rightarrow> property_rule" where
  "rule_of_property schema name =
     (case (case obj_get schema ''properties'' of Some (JObj qs) \<Rightarrow> map_of qs name | _ \<Rightarrow> None) of
        Some s \<Rightarrow> Check_With s
      | None \<Rightarrow>
          (case obj_get schema ''additionalProperties'' of
             Some (JBool False) \<Rightarrow> Reject_Property
           | Some (JBool True) \<Rightarrow> Check_With (JBool True)
           | Some (JObj s) \<Rightarrow> Check_With (JObj s)
           | _ \<Rightarrow> Accept_Property))"

section \<open>The validator\<close>

function (sequential) validateSchemaValue ::
    "regexp_engine \<Rightarrow> json \<Rightarrow> json \<Rightarrow> js_text \<Rightarrow> nat \<Rightarrow> schema_issue option" where
  "validateSchemaValue re v rawSchema path depth =
     (if depth > MAX_SCHEMA_VALIDATION_DEPTH then Some (path, Too_Deep)
      else case rawSchema of
        JBool True \<Rightarrow> None
      | JBool False \<Rightarrow> Some (path, Rejects_Every_Value)
      | JObj schema \<Rightarrow>
          or_else (type_issue v schema path)
          (or_else
            (validateSchemaBranches (\<lambda>b. validateSchemaValue re v b path (depth + 1) = None)
              (obj_get schema ''allOf'') path All_Of)
          (or_else
            (validateSchemaBranches (\<lambda>b. validateSchemaValue re v b path (depth + 1) = None)
              (obj_get schema ''anyOf'') path Any_Of)
          (or_else
            (validateSchemaBranches (\<lambda>b. validateSchemaValue re v b path (depth + 1) = None)
              (obj_get schema ''oneOf'') path One_Of)
          (or_else
            (case obj_get schema ''not'' of
               None \<Rightarrow> None
             | Some s \<Rightarrow>
                 issue_when (validateSchemaValue re v s path (depth + 1) = None) path Matches_Forbidden)
          (case v of
             JStr s \<Rightarrow> string_issue re s schema path
           | JNum x \<Rightarrow> number_issue x schema path
           | JArr vs \<Rightarrow>
               or_else (array_issue vs schema path)
                 (case obj_get schema ''items'' of
                    None \<Rightarrow> None
                  | Some s \<Rightarrow>
                      first_issue
                        (\<lambda>(i, item). validateSchemaValue re item s (itemPath path i) (depth + 1))
                        (enumerate 0 vs))
           | JObj ps \<Rightarrow>
               or_else (object_issue ps schema path)
                 (first_issue
                   (\<lambda>(name, w).
                     case rule_of_property schema name of
                       Check_With s \<Rightarrow>
                         validateSchemaValue re w s (schemaPropertyPath path name) (depth + 1)
                     | Reject_Property \<Rightarrow> Some (schemaPropertyPath path name, Property_Not_Allowed)
                     | Accept_Property \<Rightarrow> None)
                   ps)
           | _ \<Rightarrow> None)))))
      | _ \<Rightarrow> Some (path, Node_Not_Object))"
  by pat_completeness auto
termination
  by (relation "measure (\<lambda>(re, v, s, path, depth). 65 - depth)")
    (auto simp: MAX_SCHEMA_VALIDATION_DEPTH_def)

declare validateSchemaValue.simps [simp del]

end
