(* ===== verification/Thinking_Filter.thy ===== *)
theory Thinking_Filter
  imports Event_Frames Json_Text
begin

text \<open>
  \<open>ThinkingTagFilter\<close> and \<open>cumulativeDelta\<close> of \<^verbatim>\<open>src/main/gateway/kiro-event-stream.ts\<close>: the
  answer text arrives as growing snapshots, the filter turns their deltas into the visible text,
  without what stands between \<^verbatim>\<open><thinking>\<close> and \<^verbatim>\<open></thinking>\<close>. A marker may be split over any
  number of deltas.
  The proofs after it relate the filter to the visible part of a text.
\<close>

definition openTag :: js_text where "openTag = utf16 ''<thinking>''"
definition closeTag :: js_text where "closeTag = utf16 ''</thinking>''"

definition longestMarkerPrefixSuffix :: "js_text \<Rightarrow> js_text \<Rightarrow> nat" where
  "longestMarkerPrefixSuffix value marker =
     (let maxLength = min (length value) (length marker - 1)
      in case find (\<lambda>n. text_ends value (take n marker)) (rev [1..<Suc maxLength]) of
           Some n \<Rightarrow> n
         | None \<Rightarrow> 0)"

record thinking_filter =
  inside :: bool
  pending :: js_text

definition newFilter :: thinking_filter where
  "newFilter = \<lparr>inside = False, pending = []\<rparr>"

definition marker_of :: "bool \<Rightarrow> js_text" where
  "marker_of ins = (if ins then closeTag else openTag)"

lemma marker_of_nonempty [simp]: "marker_of ins \<noteq> []"
  by (simp add: marker_of_def openTag_def closeTag_def utf16_def)

lemma drop_marker_shorter: "input \<noteq> [] \<Longrightarrow> length (drop (i + length (marker_of b)) input) < length input"
  by (cases input; cases "marker_of b") simp_all

text \<open>The loop of \<open>push\<close>: the state it leaves, the visible text and whether hidden text advanced.\<close>

function filter_loop :: "bool \<Rightarrow> js_text \<Rightarrow> js_text \<Rightarrow> bool \<Rightarrow> thinking_filter \<times> js_text \<times> bool" where
  "filter_loop ins input out advanced =
     (if input = [] then (\<lparr>inside = ins, pending = []\<rparr>, out, advanced)
      else let marker = marker_of ins
           in case text_index marker input of
                Some i \<Rightarrow>
                  let before = take i input
                  in filter_loop (\<not> ins) (drop (i + length marker) input)
                       (if ins then out else out @ before)
                       (if ins then advanced \<or> before \<noteq> [] else advanced)
              | None \<Rightarrow>
                  let n = longestMarkerPrefixSuffix input marker;
                      ready = take (length input - n) input
                  in (\<lparr>inside = ins, pending = drop (length input - n) input\<rparr>,
                      if ins then out else out @ ready,
                      if ins then advanced \<or> ready \<noteq> [] else advanced))"
  by auto
termination
  by (relation "measure (\<lambda>(ins, input, out, advanced). length input)")
    (simp_all only: wf_measure in_measure case_prod_conv drop_marker_shorter simp_thms)

declare filter_loop.simps [simp del]

definition filter_push :: "thinking_filter \<Rightarrow> js_text \<Rightarrow> thinking_filter \<times> js_text \<times> bool" where
  "filter_push f delta = filter_loop (inside f) (pending f @ delta) [] False"

definition filter_finish :: "thinking_filter \<Rightarrow> thinking_filter \<times> js_text \<times> bool" where
  "filter_finish f =
     (if inside f then (f\<lparr>pending := []\<rparr>, [], pending f \<noteq> [])
      else (f\<lparr>pending := []\<rparr>, pending f, False))"

definition cumulativeDelta :: "js_text \<Rightarrow> js_text \<Rightarrow> js_text result" where
  "cumulativeDelta nxt previous =
     (if previous = [] then Inr nxt
      else if nxt = previous then Inr []
      else if text_starts nxt previous then Inr (drop (length previous) nxt)
      else Inl (kiro_fail ''kiro_cumulative_content_invalid''))"

section \<open>What the filter lets through\<close>

text \<open>
  The incremental thinking filter against a reference that sees the whole text: the text leaves
  the filter character by character unless a complete marker starts there. However the text is cut
  into deltas, the concatenated output is what the reference keeps.
\<close>

section \<open>Reference\<close>

text \<open>The characters of a text that stand outside (\<open>keep\<close> false) or inside the thinking markers,
  starting inside or outside.\<close>

function filtered_part :: "bool \<Rightarrow> bool \<Rightarrow> js_text \<Rightarrow> js_text" where
  "filtered_part keep ins [] = []"
| "filtered_part keep ins (u # s) =
     (if text_starts (u # s) (marker_of ins)
      then filtered_part keep (\<not> ins) (drop (length (marker_of ins)) (u # s))
      else (if ins = keep then [u] else []) @ filtered_part keep ins s)"
  by pat_completeness auto
termination
proof (relation "measure (\<lambda>(keep, ins, s). length s)", goal_cases)
  case (2 keep ins u s)
  then show ?case using drop_marker_shorter [of "u # s" 0 ins] by simp
qed simp_all

declare filtered_part.simps(2) [simp del]

definition visible_text :: "js_text \<Rightarrow> js_text" where
  "visible_text s = filtered_part False False s"

definition hidden_text :: "js_text \<Rightarrow> js_text" where
  "hidden_text s = filtered_part True False s"

lemma part_keeps:
  assumes "k \<le> length s"
    and "\<And>j. j < k \<Longrightarrow> \<not> text_starts (drop j (s @ t)) (marker_of ins)"
  shows "filtered_part keep ins (s @ t) = (if ins = keep then take k s else []) @ filtered_part keep ins (drop k s @ t)"
  using assms
proof (induction k arbitrary: s)
  case 0
  then show ?case by simp
next
  case (Suc k)
  then obtain u s' where s: "s = u # s'" by (cases s) auto
  have "\<not> text_starts (u # s' @ t) (marker_of ins)"
    using Suc.prems(2) [of 0] s by simp
  then have "filtered_part keep ins (s @ t) = (if ins = keep then [u] else []) @ filtered_part keep ins (s' @ t)"
    using s by (simp add: filtered_part.simps)
  moreover have "filtered_part keep ins (s' @ t) = (if ins = keep then take k s' else []) @ filtered_part keep ins (drop k s' @ t)"
  proof (rule Suc.IH)
    show "k \<le> length s'" using Suc.prems(1) s by simp
    fix j assume "j < k"
    then show "\<not> text_starts (drop j (s' @ t)) (marker_of ins)"
      using Suc.prems(2) [of "Suc j"] s by simp
  qed
  ultimately show ?case using s by simp
qed

lemma part_marker:
  assumes "text_starts s (marker_of ins)"
  shows "filtered_part keep ins (s @ t) = filtered_part keep (\<not> ins) (drop (length (marker_of ins)) s @ t)"
proof -
  have len: "length (marker_of ins) \<le> length s"
    using assms by (metis length_take min.cobounded1 min_def nle_le text_starts_def)
  then obtain u s' where s: "s = u # s'" by (cases s) (auto simp: marker_of_nonempty)
  have "text_starts (s @ t) (marker_of ins)"
    using assms len by (simp add: text_starts_def)
  moreover have "drop (length (marker_of ins)) (s @ t) = drop (length (marker_of ins)) s @ t"
    using len by simp
  ultimately show ?thesis using s by (simp add: filtered_part.simps)
qed

section \<open>Where markers can start\<close>

lemma longest_upper:
  assumes "text_ends value (take n marker)" "n \<le> length value" "n < length marker"
  shows "n \<le> longestMarkerPrefixSuffix value marker"
proof -
  have "n \<le> min (length value) (length marker - 1)" using assms by simp
  with assms(1) find_longest [of "\<lambda>n. text_ends value (take n marker)" "min (length value) (length marker - 1)"]
  show ?thesis
    unfolding longestMarkerPrefixSuffix_def Let_def by (auto split: option.splits simp del: upt_Suc min.bounded_iff)
qed

lemma longest_le: "longestMarkerPrefixSuffix value marker \<le> length value"
  using find_longest [of "\<lambda>n. text_ends value (take n marker)" "min (length value) (length marker - 1)"]
  unfolding longestMarkerPrefixSuffix_def Let_def
  by (auto split: option.splits simp del: upt_Suc)

text \<open>Without a complete marker in it, a text can only end in the start of one.\<close>

lemma no_marker_before_suffix:
  assumes none: "text_index m s = None" and m: "m \<noteq> []"
    and j: "j < length s - longestMarkerPrefixSuffix s m"
  shows "\<not> text_starts (drop j (s @ t)) m"
proof
  assume starts: "text_starts (drop j (s @ t)) m"
  let ?k = "length s - j"
  have jlen: "j < length s" using j by simp
  show False
  proof (cases "length m \<le> ?k")
    case True
    then have "text_starts (drop j s) m"
      using starts jlen by (simp add: text_starts_append_long)
    with text_index_None [OF none] show False by blast
  next
    case False
    have "take (length m) (drop j s @ t) = m" using starts jlen by (simp add: text_starts_def)
    then have "take ?k m = drop j s" using False by (metis append_eq_append_conv_if length_drop nat_le_linear take_append take_take min.absorb2 append.right_neutral diff_is_0_eq take_0 take_all)
    then have "text_ends s (take ?k m)" using jlen False by (simp add: text_ends_def)
    then have "?k \<le> longestMarkerPrefixSuffix s m"
      using False jlen by (intro longest_upper) auto
    with j show False by simp
  qed
qed

section \<open>One push\<close>

text \<open>A push moves a prefix of the text through: what the reference keeps of the text and any
  continuation is the output of the push and what it keeps of the pending text and the
  continuation.\<close>

lemma filter_loop_part:
  "filter_loop ins s out adv = (f, out', adv') \<Longrightarrow>
   \<exists>v h. out' = out @ v \<and> (adv' \<longleftrightarrow> adv \<or> h \<noteq> [])
     \<and> (\<forall>t. filtered_part False ins (s @ t) = v @ filtered_part False (inside f) (pending f @ t))
     \<and> (\<forall>t. filtered_part True ins (s @ t) = h @ filtered_part True (inside f) (pending f @ t))
     \<and> text_index (marker_of (inside f)) (pending f) = None"
proof (induction ins s out adv arbitrary: out' adv' rule: filter_loop.induct)
  case (1 ins s out adv)
  let ?m = "marker_of ins"
  show ?case
  proof (cases "s = []")
    case True
    with "1.prems" show ?thesis by (auto simp: filter_loop.simps)
  next
    case nonempty: False
    show ?thesis
    proof (cases "text_index ?m s")
      case None
      let ?n = "length s - longestMarkerPrefixSuffix s ?m"
      have eq: "f = \<lparr>inside = ins, pending = drop ?n s\<rparr>" "out' = (if ins then out else out @ take ?n s)"
        "adv' = (if ins then adv \<or> take ?n s \<noteq> [] else adv)"
        using "1.prems" nonempty None by (auto simp: filter_loop.simps Let_def)
      have *: "filtered_part keep ins (s @ t) = (if ins = keep then take ?n s else []) @ filtered_part keep ins (drop ?n s @ t)"
        for keep t
        by (rule part_keeps) (use no_marker_before_suffix [OF None] in auto)
      have "text_index ?m (drop k s) = None" for k
      proof (rule ccontr)
        assume "text_index ?m (drop k s) \<noteq> None"
        then obtain i where "text_index ?m (drop k s) = Some i" by auto
        from text_index_Some [OF this] text_index_None [OF None, of "i + k"] show False
          by (simp add: add.commute)
      qed
      with * eq show ?thesis
        by (intro exI [of _ "if ins then [] else take ?n s"] exI [of _ "if ins then take ?n s else []"])
          auto
    next
      case (Some i)
      let ?rest = "drop (i + length ?m) s"
      note idx = text_index_Some [OF Some]
      have fits: "length ?m \<le> length (drop i s)"
        using idx by (metis length_take min.cobounded1 min_def nle_le text_starts_def)
      have *: "filtered_part keep ins (s @ t) = (if ins = keep then take i s else []) @ filtered_part keep (\<not> ins) (?rest @ t)"
        for keep t
      proof -
        have "\<not> text_starts (drop j (s @ t)) ?m" if "j < i" for j
          using idx that fits by (simp add: text_starts_append_long)
        then have "filtered_part keep ins (s @ t) = (if ins = keep then take i s else []) @ filtered_part keep ins (drop i s @ t)"
          using idx by (intro part_keeps) auto
        with part_marker [of "drop i s" ins keep t] idx show ?thesis by (simp add: add.commute)
      qed
      have "filter_loop (\<not> ins) ?rest (if ins then out else out @ take i s)
          (if ins then adv \<or> take i s \<noteq> [] else adv) = (f, out', adv')"
        using "1.prems" nonempty Some by (simp add: filter_loop.simps [of ins s] Let_def)
      from "1.IH" [OF nonempty refl Some refl this]
      obtain v h where vh: "out' = (if ins then out else out @ take i s) @ v"
        "adv' \<longleftrightarrow> (if ins then adv \<or> take i s \<noteq> [] else adv) \<or> h \<noteq> []"
        "\<And>t. filtered_part False (\<not> ins) (?rest @ t) = v @ filtered_part False (inside f) (pending f @ t)"
        "\<And>t. filtered_part True (\<not> ins) (?rest @ t) = h @ filtered_part True (inside f) (pending f @ t)"
        "text_index (marker_of (inside f)) (pending f) = None"
        by blast
      show ?thesis
        by (intro exI [of _ "(if ins then [] else take i s) @ v"]
            exI [of _ "(if ins then take i s else []) @ h"])
          (use vh * in auto)
    qed
  qed
qed

lemma part_no_marker:
  assumes "text_index (marker_of ins) s = None"
  shows "filtered_part keep ins s = (if ins = keep then s else [])"
proof -
  have "filtered_part keep ins (s @ []) = (if ins = keep then take (length s) s else []) @ filtered_part keep ins (drop (length s) s @ [])"
    by (rule part_keeps) (use text_index_None [OF assms] in auto)
  then show ?thesis by simp
qed

section \<open>A whole text\<close>

text \<open>Pushing deltas one after the other, collecting the visible text and the progress signals.\<close>

fun filter_run :: "thinking_filter \<Rightarrow> js_text list \<Rightarrow> thinking_filter \<times> js_text \<times> bool" where
  "filter_run f [] = (f, [], False)"
| "filter_run f (d # ds) =
     (let (f1, s1, a1) = filter_push f d; (f2, s2, a2) = filter_run f1 ds
      in (f2, s1 @ s2, a1 \<or> a2))"

definition filter_all :: "js_text list \<Rightarrow> js_text \<times> bool" where
  "filter_all ds =
     (let (f, s, a) = filter_run newFilter ds; (f', s', a') = filter_finish f in (s @ s', a \<or> a'))"

definition filter_ok :: "thinking_filter \<Rightarrow> bool" where
  "filter_ok f \<longleftrightarrow> text_index (marker_of (inside f)) (pending f) = None"

lemma filter_ok_new [simp]: "filter_ok newFilter"
  by (simp add: filter_ok_def newFilter_def)

lemma filter_push_part:
  assumes "filter_push f d = (f', s, a)"
  shows "\<exists>h. (a \<longleftrightarrow> h \<noteq> []) \<and> filter_ok f'
    \<and> (\<forall>t. filtered_part False (inside f) (pending f @ d @ t) = s @ filtered_part False (inside f') (pending f' @ t))
    \<and> (\<forall>t. filtered_part True (inside f) (pending f @ d @ t) = h @ filtered_part True (inside f') (pending f' @ t))"
  using filter_loop_part [OF assms [unfolded filter_push_def]]
  by (auto simp: filter_ok_def)

lemma filter_run_part:
  "filter_ok f \<Longrightarrow> filter_run f ds = (f', s, a) \<Longrightarrow>
   \<exists>h. (a \<longleftrightarrow> h \<noteq> []) \<and> filter_ok f'
    \<and> (\<forall>t. filtered_part False (inside f) (pending f @ concat ds @ t) = s @ filtered_part False (inside f') (pending f' @ t))
    \<and> (\<forall>t. filtered_part True (inside f) (pending f @ concat ds @ t) = h @ filtered_part True (inside f') (pending f' @ t))"
proof (induction ds arbitrary: f s a f')
  case Nil
  then show ?case by auto
next
  case (Cons d ds)
  obtain f1 s1 a1 where p: "filter_push f d = (f1, s1, a1)" by (metis prod_cases3)
  obtain f2 s2 a2 where r: "filter_run f1 ds = (f2, s2, a2)" by (metis prod_cases3)
  have eqs: "f' = f2" "s = s1 @ s2" "a \<longleftrightarrow> a1 \<or> a2"
    using Cons.prems p r by auto
  from filter_push_part [OF p] obtain h1 where h1: "a1 \<longleftrightarrow> h1 \<noteq> []" "filter_ok f1"
    "\<And>t. filtered_part False (inside f) (pending f @ d @ t) = s1 @ filtered_part False (inside f1) (pending f1 @ t)"
    "\<And>t. filtered_part True (inside f) (pending f @ d @ t) = h1 @ filtered_part True (inside f1) (pending f1 @ t)"
    by blast
  from Cons.IH [OF h1(2) r] obtain h2 where h2: "a2 \<longleftrightarrow> h2 \<noteq> []" "filter_ok f2"
    "\<And>t. filtered_part False (inside f1) (pending f1 @ concat ds @ t) = s2 @ filtered_part False (inside f2) (pending f2 @ t)"
    "\<And>t. filtered_part True (inside f1) (pending f1 @ concat ds @ t) = h2 @ filtered_part True (inside f2) (pending f2 @ t)"
    by blast
  show ?case
    using h1 h2 eqs by (intro exI [of _ "h1 @ h2"]) simp
qed

lemma filter_finish_part:
  assumes "filter_ok f" "filter_finish f = (f', s, a)"
  shows "filtered_part False (inside f) (pending f) = s" "filtered_part True (inside f) (pending f) \<noteq> [] \<longleftrightarrow> a"
  using assms part_no_marker [of "inside f" "pending f"]
  by (auto simp: filter_ok_def filter_finish_def split: if_splits)

lemma filter_all_reference: "filter_all ds = (visible_text (concat ds), hidden_text (concat ds) \<noteq> [])"
proof -
  obtain f s a where r: "filter_run newFilter ds = (f, s, a)" by (metis prod_cases3)
  obtain f' s' a' where e: "filter_finish f = (f', s', a')" by (metis prod_cases3)
  from filter_run_part [OF filter_ok_new r] obtain h where h: "a \<longleftrightarrow> h \<noteq> []" "filter_ok f"
    "\<And>t. filtered_part False False (concat ds @ t) = s @ filtered_part False (inside f) (pending f @ t)"
    "\<And>t. filtered_part True False (concat ds @ t) = h @ filtered_part True (inside f) (pending f @ t)"
    by (auto simp: newFilter_def)
  have "visible_text (concat ds) = s @ s'" "hidden_text (concat ds) \<noteq> [] \<longleftrightarrow> a \<or> a'"
    using filter_finish_part [OF h(2) e] h(1) h(3) [of "[]"] h(4) [of "[]"]
    by (simp_all add: visible_text_def hidden_text_def)
  with r e show ?thesis by (simp add: filter_all_def)
qed

end
