(* ===== verification/Canonical_Events.thy ===== *)
theory Canonical_Events
  imports Json_Text
begin

text \<open>
  The protocol-neutral events of \<^verbatim>\<open>src/main/gateway/streaming.ts\<close>, which the stream parsers emit and
  the encoders consume. An absent message of an error is one whose wording is not modelled.
\<close>

datatype content_type = Text_Content | Refusal_Content
datatype tool_type = Function_Call | Custom_Tool_Call

datatype stop_reason =
  Stop_Normal | Stop_Length | Stop_Tool_Calls | Stop_Content_Filter | Stop_Error | Stop_Other

record usage_counts =
  inputTokens :: "double option"
  outputTokens :: "double option"
  totalTokens :: "double option"
  cachedInputTokens :: "double option"
  cacheCreationInputTokens :: "double option"
  cacheCreation5mInputTokens :: "double option"
  cacheCreation1hInputTokens :: "double option"
  reasoningTokens :: "double option"

definition no_usage :: usage_counts where
  "no_usage =
     \<lparr>inputTokens = None, outputTokens = None, totalTokens = None, cachedInputTokens = None,
      cacheCreationInputTokens = None, cacheCreation5mInputTokens = None,
      cacheCreation1hInputTokens = None, reasoningTokens = None\<rparr>"

text \<open>The properties of a tool call delta are its index, id, name, arguments, tool type and output
  index; of an error event its message, code and type.\<close>

datatype canonical_event =
  Start "js_text option" "js_text option" "double option"
| Text_Delta js_text "nat option" "content_type option"
| Reasoning_Progress
| Tool_Call_Delta nat "js_text option" "js_text option" "js_text option" "tool_type option" "nat option"
| Tool_Call_Complete nat
| Message_Complete nat
| Usage usage_counts
| Stop stop_reason "js_text option"
| Error_Event "js_text option" "js_text option" "js_text option"
| Done

end
