(* ===== verification/Kiro_Stream.thy ===== *)
theory Kiro_Stream
  imports Tool_Schema Thinking_Filter Canonical_Events
begin

text \<open>
  \<open>KiroEventStreamParser\<close> of \<^verbatim>\<open>src/main/gateway/kiro-event-stream.ts\<close>: the incremental parser
  that turns the bytes of a Kiro response into canonical stream events. Its read-only fields are a
  \<open>kiro_config\<close>, its mutable ones a \<open>kiro_parser\<close>. An operation that may throw returns the state
  it leaves, which keeps what was assigned before the throw, and the failure, if any.
\<close>

section \<open>Configuration\<close>

record kiro_config =
  declaredToolNames :: "js_text list"
  declaredToolSchemas :: "(js_text, json) js_map"
  maxFrameBytes :: nat
  maxCumulativeTextCharacters :: nat
  maxToolCount :: nat
  maxTotalToolInputBytes :: nat
  maxActiveToolCount :: nat
  maxPendingToolCount :: nat
  maxCompletedToolCount :: nat
  regexp :: regexp_engine

record kiro_options =
  o_declaredToolNames :: "js_text list"
  o_declaredTools :: "(js_text \<times> json) list"
  o_maxFrameBytes :: "double option"
  o_maxCumulativeTextCharacters :: "double option"
  o_maxToolCount :: "double option"
  o_maxTotalToolInputBytes :: "double option"
  o_maxActiveToolCount :: "double option"
  o_maxPendingToolCount :: "double option"
  o_maxCompletedToolCount :: "double option"

datatype option_error = Type_Error js_text | Range_Error string

definition DEFAULT_MAX_FRAME_BYTES :: nat where "DEFAULT_MAX_FRAME_BYTES = 4 * 1024 * 1024"
definition DEFAULT_MAX_CUMULATIVE_TEXT_CHARACTERS :: nat where
  "DEFAULT_MAX_CUMULATIVE_TEXT_CHARACTERS = 16 * 1024 * 1024"
definition DEFAULT_MAX_TOOL_COUNT :: nat where "DEFAULT_MAX_TOOL_COUNT = 128"
definition DEFAULT_MAX_TOTAL_TOOL_INPUT_BYTES :: nat where
  "DEFAULT_MAX_TOTAL_TOOL_INPUT_BYTES = 4 * 1024 * 1024"
definition DEFAULT_MAX_ACTIVE_TOOL_COUNT :: nat where "DEFAULT_MAX_ACTIVE_TOOL_COUNT = 64"
definition DEFAULT_MAX_PENDING_TOOL_COUNT :: nat where "DEFAULT_MAX_PENDING_TOOL_COUNT = 64"
definition DEFAULT_MAX_COMPLETED_TOOL_COUNT :: nat where "DEFAULT_MAX_COMPLETED_TOOL_COUNT = 128"

definition normalizeLimit :: "double option \<Rightarrow> nat \<Rightarrow> nat \<Rightarrow> string \<Rightarrow> option_error + nat" where
  "normalizeLimit value fallback minimum name =
     (case value of
        None \<Rightarrow> Inr fallback
      | Some (Num q) \<Rightarrow>
          if \<not> isSafeInteger (Num q) \<or> q < of_nat minimum then Inl (Range_Error name)
          else Inr (nat \<lfloor>q\<rfloor>)
      | Some _ \<Rightarrow> Inl (Range_Error name))"

text \<open>The declared tools in order: names must be present and new, schemas objects.\<close>

fun declare_tools ::
    "(js_text \<times> json) list \<Rightarrow> js_text list \<times> (js_text, json) js_map
     \<Rightarrow> option_error + (js_text list \<times> (js_text, json) js_map)" where
  "declare_tools [] (names, schemas) = Inr (names, schemas)"
| "declare_tools ((name, schema) # entries) (names, schemas) =
     (if name = [] then Inl (Type_Error name)
      else if \<not> isJsonObject schema then Inl (Type_Error name)
      else if map_get schemas name \<noteq> None then Inl (Type_Error name)
      else declare_tools entries
             (if name \<in> set names then names else names @ [name], map_set schemas name schema))"

definition opt_then :: "option_error + 'a \<Rightarrow> ('a \<Rightarrow> option_error + 'b) \<Rightarrow> option_error + 'b" where
  "opt_then r f = (case r of Inl e \<Rightarrow> Inl e | Inr x \<Rightarrow> f x)"

definition new_config :: "regexp_engine \<Rightarrow> kiro_options \<Rightarrow> option_error + kiro_config" where
  "new_config re opts =
     opt_then (declare_tools (o_declaredTools opts) (unique (o_declaredToolNames opts), []))
       (\<lambda>(names, schemas).
     opt_then (normalizeLimit (o_maxFrameBytes opts) DEFAULT_MAX_FRAME_BYTES MIN_FRAME_BYTES
       ''maxFrameBytes'') (\<lambda>frame.
     opt_then (normalizeLimit (o_maxCumulativeTextCharacters opts)
       DEFAULT_MAX_CUMULATIVE_TEXT_CHARACTERS 1 ''maxCumulativeTextCharacters'') (\<lambda>characters.
     opt_then (normalizeLimit (o_maxToolCount opts) DEFAULT_MAX_TOOL_COUNT 1 ''maxToolCount'') (\<lambda>tools.
     opt_then (normalizeLimit (o_maxTotalToolInputBytes opts) DEFAULT_MAX_TOTAL_TOOL_INPUT_BYTES 1
       ''maxTotalToolInputBytes'') (\<lambda>inputs.
     opt_then (normalizeLimit (o_maxActiveToolCount opts) DEFAULT_MAX_ACTIVE_TOOL_COUNT 1
       ''maxActiveToolCount'') (\<lambda>active.
     opt_then (normalizeLimit (o_maxPendingToolCount opts) DEFAULT_MAX_PENDING_TOOL_COUNT 1
       ''maxPendingToolCount'') (\<lambda>waiting.
     opt_then (normalizeLimit (o_maxCompletedToolCount opts) DEFAULT_MAX_COMPLETED_TOOL_COUNT 1
       ''maxCompletedToolCount'') (\<lambda>completed.
     Inr \<lparr>declaredToolNames = names, declaredToolSchemas = schemas, maxFrameBytes = frame,
          maxCumulativeTextCharacters = characters, maxToolCount = tools,
          maxTotalToolInputBytes = inputs, maxActiveToolCount = active,
          maxPendingToolCount = waiting, maxCompletedToolCount = completed, regexp = re\<rparr>))))))))"

section \<open>State\<close>

datatype input_mode = Fragments | Object_Input

record tool_state =
  t_index :: nat
  t_id :: js_text
  t_name :: "js_text option"
  inputParts :: "js_text list"
  inputCharacters :: nat
  inputMode :: "input_mode option"

record completed_tool =
  c_index :: nat
  c_id :: js_text
  c_name :: js_text
  c_arguments :: js_text

record kiro_diagnostics =
  recognizedEventCount :: nat
  assistantResponseEventCount :: nat
  reasoningEventCount :: nat
  toolUseEventCount :: nat
  completedToolUseCount :: nat
  usageEventCount :: nat
  structuralRecoveryCount :: nat
  conversationId :: "js_text option"
  utteranceId :: "js_text option"
  invalidStateReason :: "js_text option"

definition emptyDiagnostics :: kiro_diagnostics where
  "emptyDiagnostics =
     \<lparr>recognizedEventCount = 0, assistantResponseEventCount = 0, reasoningEventCount = 0,
      toolUseEventCount = 0, completedToolUseCount = 0, usageEventCount = 0,
      structuralRecoveryCount = 0, conversationId = None, utteranceId = None,
      invalidStateReason = None\<rparr>"

record kiro_parser =
  bytes :: byte_queue
  events :: "canonical_event list"
  tools :: "(js_text, tool_state) js_map"
  completedTools :: "(nat, completed_tool) js_map"
  completedToolIds :: "js_text list"
  thinkingTagFilter :: thinking_filter
  diagnostics :: kiro_diagnostics
  lastAssistantContent :: js_text
  lastReasoningContent :: js_text
  nextToolIndex :: nat
  nextToolIndexToEmit :: nat
  totalToolInputBytes :: nat
  sawFrame :: bool
  sawCompletedTool :: bool
  failed :: bool
  finished :: bool

definition new_parser :: kiro_parser where
  "new_parser =
     \<lparr>bytes = emptyQueue, events = [], tools = [], completedTools = [], completedToolIds = [],
      thinkingTagFilter = newFilter, diagnostics = emptyDiagnostics, lastAssistantContent = [],
      lastReasoningContent = [], nextToolIndex = 0, nextToolIndexToEmit = 0,
      totalToolInputBytes = 0, sawFrame = False, sawCompletedTool = False, failed = False,
      finished = False\<rparr>"

type_synonym step_outcome = "kiro_parser \<times> kiro_failure option"

text \<open>Sequencing with exceptions.\<close>

definition proceed :: "step_outcome \<Rightarrow> (kiro_parser \<Rightarrow> step_outcome) \<Rightarrow> step_outcome" where
  "proceed r f = (case r of (p, None) \<Rightarrow> f p | (p, Some e) \<Rightarrow> (p, Some e))"

definition checked :: "kiro_parser \<Rightarrow> 'a result \<Rightarrow> ('a \<Rightarrow> step_outcome) \<Rightarrow> step_outcome" where
  "checked p r f = (case r of Inl e \<Rightarrow> (p, Some e) | Inr x \<Rightarrow> f x)"

definition emit :: "kiro_parser \<Rightarrow> canonical_event list \<Rightarrow> kiro_parser" where
  "emit p es = p\<lparr>events := events p @ es\<rparr>"

section \<open>Text and reasoning\<close>

text \<open>What a filter result makes visible: progress of hidden text, then the visible text.\<close>

definition filtered_events :: "js_text \<Rightarrow> bool \<Rightarrow> canonical_event list" where
  "filtered_events visible advanced =
     (if advanced then [Reasoning_Progress] else [])
     @ (if visible \<noteq> [] then [Text_Delta visible None None] else [])"

definition handleAssistantResponse :: "kiro_config \<Rightarrow> kiro_parser \<Rightarrow> properties \<Rightarrow> step_outcome" where
  "handleAssistantResponse c p payload =
     checked p (requiredStringAllowEmpty (obj_get payload ''content'')) (\<lambda>content.
     checked p (cumulativeDelta content (lastAssistantContent p)) (\<lambda>delta.
     let p = p\<lparr>lastAssistantContent := content\<rparr>
     in if length content > maxCumulativeTextCharacters c
        then (p, Some (kiro_fail ''kiro_cumulative_text_too_large''))
        else if delta = [] then (p, None)
        else let (f, visible, advanced) = filter_push (thinkingTagFilter p) delta
             in (emit (p\<lparr>thinkingTagFilter := f\<rparr>) (filtered_events visible advanced), None)))"

definition handleReasoning :: "kiro_config \<Rightarrow> kiro_parser \<Rightarrow> properties \<Rightarrow> step_outcome" where
  "handleReasoning c p payload =
     (let shown = (case optionalString (obj_get payload ''text'') of None \<Rightarrow> [] | Some s \<Rightarrow> s);
          redacted = (case optionalString (obj_get payload ''redactedContent'') of None \<Rightarrow> [] | Some s \<Rightarrow> s)
      in if shown = [] \<and> redacted = [] then (p, None)
         else if shown \<noteq> [] then
           checked p (cumulativeDelta shown (lastReasoningContent p)) (\<lambda>delta.
           let p = p\<lparr>lastReasoningContent := shown\<rparr>
           in if length shown > maxCumulativeTextCharacters c
              then (p, Some (kiro_fail ''kiro_cumulative_reasoning_too_large''))
              else if delta = [] \<and> redacted = [] then (p, None)
              else (emit p [Reasoning_Progress], None))
         else (emit p [Reasoning_Progress], None))"

section \<open>Tool calls\<close>

definition nameTool :: "tool_state \<Rightarrow> json option \<Rightarrow> tool_state result" where
  "nameTool st v =
     (case v of
        None \<Rightarrow> Inr st
      | Some _ \<Rightarrow>
          and_then (requiredString v) (\<lambda>name.
          if t_name st \<noteq> None \<and> t_name st \<noteq> Some name
          then Inl (kiro_fail ''kiro_tool_name_changed'')
          else Inr (st\<lparr>t_name := Some name\<rparr>)))"

text \<open>The input of one event as text, and the encoding it uses from now on.\<close>

definition inputPart :: "tool_state \<Rightarrow> json \<Rightarrow> (js_text \<times> input_mode) result" where
  "inputPart st v =
     (case v of
        JStr s \<Rightarrow>
          if inputMode st = Some Object_Input
          then Inl (kiro_fail ''kiro_tool_input_mixed_encoding'') else Inr (s, Fragments)
      | JObj ps \<Rightarrow>
          if inputMode st \<noteq> None then Inl (kiro_fail ''kiro_tool_input_repeated_object'')
          else Inr (json_stringify (JObj ps), Object_Input)
      | _ \<Rightarrow> Inl (kiro_fail ''kiro_tool_input_invalid''))"

text \<open>The tool, the total of input bytes and the failure \<open>appendToolInput\<close> leaves.\<close>

definition appendToolInput ::
    "kiro_config \<Rightarrow> nat \<Rightarrow> tool_state \<Rightarrow> json \<Rightarrow> tool_state \<times> nat \<times> kiro_failure option" where
  "appendToolInput c used st v =
     (case inputPart st v of
        Inl e \<Rightarrow> (st, used, Some e)
      | Inr (part, mode) \<Rightarrow>
          let st = st\<lparr>inputMode := Some mode, inputCharacters := inputCharacters st + length part\<rparr>;
              used = used + utf8_length part
          in if used > maxTotalToolInputBytes c
             then (st, used, Some (kiro_fail ''kiro_tool_input_total_too_large''))
             else if inputCharacters st > maxFrameBytes c
             then (st, used, Some (kiro_fail ''kiro_tool_input_too_large''))
             else (st\<lparr>inputParts := inputParts st @ [part]\<rparr>, used, None))"

definition prepareCompletedTool :: "kiro_config \<Rightarrow> tool_state \<Rightarrow> bool \<Rightarrow> completed_tool result" where
  "prepareCompletedTool c st recovered =
     (case t_name st of
        None \<Rightarrow> Inl (kiro_fail ''kiro_tool_name_missing'')
      | Some name \<Rightarrow>
          if name = [] then Inl (kiro_fail ''kiro_tool_name_missing'')
          else if name \<notin> set (declaredToolNames c) then Inl (kiro_fail ''kiro_tool_undeclared'')
          else
            let trimmed = text_trim (concat (inputParts st));
                rawInput = (if trimmed = [] then utf16 ''{}'' else trimmed)
            in and_then (parseToolInput rawInput) (\<lambda>parsedInput.
               if (case map_get (declaredToolSchemas c) name of
                     None \<Rightarrow> False
                   | Some schema \<Rightarrow>
                       validateSchemaValue (regexp c) (JObj parsedInput) schema (utf16 ''$'') 0 \<noteq> None)
               then Inl (kiro_fail ''kiro_tool_input_schema'')
               else if recovered \<and> parsedInput \<noteq> [] then Inl (kiro_fail ''kiro_tool_stop_missing'')
               else Inr \<lparr>c_index = t_index st, c_id = t_id st, c_name = name,
                         c_arguments = json_stringify (JObj parsedInput)\<rparr>))"

text \<open>Completed calls leave in the order of their indices.\<close>

function emitReadyTools :: "kiro_parser \<Rightarrow> kiro_parser" where
  "emitReadyTools p =
     (case map_get (completedTools p) (nextToolIndexToEmit p) of
        None \<Rightarrow> p
      | Some tool \<Rightarrow>
          emitReadyTools
            (emit (p\<lparr>completedTools := map_delete (completedTools p) (c_index tool),
                     nextToolIndexToEmit := nextToolIndexToEmit p + 1\<rparr>)
              [Tool_Call_Delta (c_index tool) (Some (c_id tool)) (Some (c_name tool))
                 (Some (c_arguments tool)) None None,
               Tool_Call_Complete (c_index tool)]))"
  by auto

lemma ready_keys_shrink:
  fixes n i :: nat
  assumes "map_get m n = Some tool"
  shows "length (filter (\<lambda>k. n + 1 \<le> k) (map_keys (map_delete m i))) < length (filter (\<lambda>k. n \<le> k) (map_keys m))"
proof -
  have le: "length (filter (\<lambda>k. n + 1 \<le> k) (filter P ks)) \<le> length (filter (\<lambda>k. n + 1 \<le> k) ks)"
    for ks and P :: "nat \<Rightarrow> bool"
    by (induction ks) auto
  have lt: "length (filter (\<lambda>k. n + 1 \<le> k) ks) < length (filter (\<lambda>k. n \<le> k) ks)"
    if "n \<in> set ks" for ks
    using that
  proof (induction ks)
    case Nil
    then show ?case by simp
  next
    case (Cons k ks)
    have "length (filter (\<lambda>k. n + 1 \<le> k) ks) \<le> length (filter (\<lambda>k. n \<le> k) ks)"
      by (induction ks) auto
    with Cons show ?case by auto
  qed
  have "n \<in> set (map_keys m)"
    using assms by (metis map_get_None_iff option.distinct(1))
  from le_less_trans [OF le [of "\<lambda>j. j \<noteq> i" "map_keys m"] lt [OF this]] show ?thesis
    by (simp only: keys_map_delete)
qed

termination emitReadyTools
  by (relation "measure (\<lambda>p. length (filter (\<lambda>k. nextToolIndexToEmit p \<le> k) (map_keys (completedTools p))))")
    (simp_all add: emit_def ready_keys_shrink [simplified])

declare emitReadyTools.simps [simp del]

definition commitCompletedTool ::
    "kiro_config \<Rightarrow> kiro_parser \<Rightarrow> tool_state \<Rightarrow> completed_tool \<Rightarrow> bool \<Rightarrow> step_outcome" where
  "commitCompletedTool c p st completed recovered =
     (if length (completedToolIds p) \<ge> maxCompletedToolCount c
      then (p, Some (kiro_fail ''kiro_tool_completed_limit''))
      else if t_index st \<noteq> nextToolIndexToEmit p \<and> length (completedTools p) \<ge> maxPendingToolCount c
      then (p, Some (kiro_fail ''kiro_tool_pending_limit''))
      else
        let d = diagnostics p;
            d = d\<lparr>completedToolUseCount := completedToolUseCount d + 1\<rparr>;
            d = (if recovered then d\<lparr>structuralRecoveryCount := structuralRecoveryCount d + 1\<rparr> else d)
        in (emitReadyTools
              (p\<lparr>tools := map_delete (tools p) (t_id st),
                 completedToolIds := List.insert (t_id st) (completedToolIds p),
                 completedTools := map_set (completedTools p) (t_index st) completed,
                 sawCompletedTool := True, diagnostics := d\<rparr>), None))"

definition completeTool :: "kiro_config \<Rightarrow> kiro_parser \<Rightarrow> tool_state \<Rightarrow> bool \<Rightarrow> step_outcome" where
  "completeTool c p st recovered =
     checked p (prepareCompletedTool c st recovered) (\<lambda>completed.
     commitCompletedTool c p st completed recovered)"

text \<open>The tool an event is about: a known one, or a new one within the limits.\<close>

definition claimTool :: "kiro_config \<Rightarrow> kiro_parser \<Rightarrow> js_text \<Rightarrow> (tool_state \<times> kiro_parser) result" where
  "claimTool c p toolUseId =
     (case map_get (tools p) toolUseId of
        Some st \<Rightarrow> Inr (st, p)
      | None \<Rightarrow>
          if nextToolIndex p \<ge> maxToolCount c then Inl (kiro_fail ''kiro_tool_count_limit'')
          else if length (tools p) \<ge> maxActiveToolCount c
          then Inl (kiro_fail ''kiro_tool_active_limit'')
          else let st = \<lparr>t_index = nextToolIndex p, t_id = toolUseId, t_name = None, inputParts = [],
                         inputCharacters = 0, inputMode = None\<rparr>
               in Inr (st, p\<lparr>nextToolIndex := nextToolIndex p + 1,
                             tools := map_set (tools p) toolUseId st\<rparr>))"

text \<open>The tool is mutated in place: what the code assigned to it is in the map.\<close>

definition put_tool :: "kiro_parser \<Rightarrow> tool_state \<Rightarrow> kiro_parser" where
  "put_tool p st = p\<lparr>tools := map_set (tools p) (t_id st) st\<rparr>"

definition stopTool :: "kiro_config \<Rightarrow> kiro_parser \<Rightarrow> tool_state \<Rightarrow> json option \<Rightarrow> step_outcome" where
  "stopTool c p st v =
     (case v of
        None \<Rightarrow> (p, None)
      | Some (JBool b) \<Rightarrow> if b then completeTool c p st False else (p, None)
      | Some _ \<Rightarrow> (p, Some (kiro_fail ''kiro_tool_stop_invalid'')))"

text \<open>The rest of the event, once the tool is known: its name, its input, whether it stops.\<close>

definition extendTool :: "kiro_config \<Rightarrow> kiro_parser \<Rightarrow> properties \<Rightarrow> tool_state \<Rightarrow> step_outcome" where
  "extendTool c p payload st =
     (let (st, used, e) =
        (case obj_get payload ''input'' of
           None \<Rightarrow> (st, totalToolInputBytes p, None)
         | Some v \<Rightarrow> appendToolInput c (totalToolInputBytes p) st v);
          p = (put_tool p st)\<lparr>totalToolInputBytes := used\<rparr>
      in case e of
           Some e \<Rightarrow> (p, Some e)
         | None \<Rightarrow> stopTool c p st (obj_get payload ''stop''))"

definition handleToolUse :: "kiro_config \<Rightarrow> kiro_parser \<Rightarrow> properties \<Rightarrow> step_outcome" where
  "handleToolUse c p payload =
     checked p (requiredString (obj_get payload ''toolUseId'')) (\<lambda>toolUseId.
     if toolUseId \<in> set (completedToolIds p) then (p, Some (kiro_fail ''kiro_tool_id_reused''))
     else checked p (claimTool c p toolUseId) (\<lambda>(st, p).
          checked p (nameTool st (obj_get payload ''name'')) (extendTool c p payload)))"

text \<open>At the end of the stream: all unfinished tools are prepared before any is committed.\<close>

fun prepare_all :: "kiro_config \<Rightarrow> tool_state list \<Rightarrow> (tool_state \<times> completed_tool) list result" where
  "prepare_all c [] = Inr []"
| "prepare_all c (st # sts) =
     and_then (prepareCompletedTool c st True) (\<lambda>completed.
     and_then (prepare_all c sts) (\<lambda>rest. Inr ((st, completed) # rest)))"

fun commit_all :: "kiro_config \<Rightarrow> kiro_parser \<Rightarrow> (tool_state \<times> completed_tool) list \<Rightarrow> step_outcome" where
  "commit_all c p [] = (p, None)"
| "commit_all c p ((st, completed) # rest) =
     proceed (commitCompletedTool c p st completed True) (\<lambda>p. commit_all c p rest)"

definition recoverOrRejectUnfinishedTools :: "kiro_config \<Rightarrow> kiro_parser \<Rightarrow> step_outcome" where
  "recoverOrRejectUnfinishedTools c p =
     (let pending = sort_by (\<lambda>a b. t_index a < t_index b) (map snd (tools p))
      in checked p (prepare_all c pending) (\<lambda>prepared. commit_all c p prepared))"

section \<open>Usage and metadata\<close>

text \<open>\<open>compactUsage\<close> drops undefined properties; here they are \<^const>\<open>None\<close> already.\<close>

definition metadata_usage :: "properties \<Rightarrow> usage_counts result" where
  "metadata_usage payload =
     and_then (requiredObject (obj_get payload ''tokenUsage'')) (\<lambda>u.
     and_then (optionalTokenCount (obj_get u ''uncachedInputTokens'')) (\<lambda>uncached.
     and_then (optionalTokenCount (obj_get u ''cacheReadInputTokens'')) (\<lambda>cacheRead.
     and_then (optionalTokenCount (obj_get u ''cacheWriteInputTokens'')) (\<lambda>cacheWrite.
     and_then (optionalTokenCount (obj_get u ''outputTokens'')) (\<lambda>output.
     let input = sumDefined [uncached, cacheRead, cacheWrite]
     in and_then (optionalTokenCount (obj_get u ''totalTokens'')) (\<lambda>reported.
        and_then (optionalTokenCount (obj_get u ''reasoningTokens'')) (\<lambda>reasoning.
        Inr (no_usage\<lparr>inputTokens := input, outputTokens := output,
              totalTokens := (case reported of None \<Rightarrow> sumDefined [input, output] | Some n \<Rightarrow> Some n),
              cachedInputTokens := cacheRead, cacheCreationInputTokens := cacheWrite,
              reasoningTokens := reasoning\<rparr>))))))))"

definition metering_usage :: "properties \<Rightarrow> usage_counts result" where
  "metering_usage payload =
     and_then (optionalTokenCount (obj_get payload ''inputTokens'')) (\<lambda>input.
     and_then (optionalTokenCount (obj_get payload ''outputTokens'')) (\<lambda>output.
     Inr (no_usage\<lparr>inputTokens := input, outputTokens := output,
           totalTokens := sumDefined [input, output]\<rparr>)))"

definition handleUsage :: "js_text \<Rightarrow> kiro_parser \<Rightarrow> properties \<Rightarrow> step_outcome" where
  "handleUsage eventType p payload =
     checked p
       (if eventType = utf16 ''metadataEvent'' then metadata_usage payload else metering_usage payload)
       (\<lambda>u. if u \<noteq> no_usage then (emit p [Usage u], None) else (p, None))"

definition handleInvalidState :: "kiro_parser \<Rightarrow> properties \<Rightarrow> step_outcome" where
  "handleInvalidState p payload =
     (let reason = (case optionalString (obj_get payload ''reason'') of
                      None \<Rightarrow> utf16 ''invalid_state'' | Some r \<Rightarrow> r)
      in (p\<lparr>diagnostics := (diagnostics p)\<lparr>invalidStateReason := Some reason\<rparr>\<rparr>,
          Some \<lparr>failureCode = reason, upstreamMessage = optionalString (obj_get payload ''message''),
                errorType = utf16 ''kiro_invalid_state''\<rparr>))"

definition handleMessageMetadata :: "kiro_parser \<Rightarrow> properties \<Rightarrow> step_outcome" where
  "handleMessageMetadata p payload =
     (let d = diagnostics p;
          d = (case optionalString (obj_get payload ''conversationId'') of
                 None \<Rightarrow> d | Some s \<Rightarrow> d\<lparr>conversationId := Some s\<rparr>);
          d = (case optionalString (obj_get payload ''utteranceId'') of
                 None \<Rightarrow> d | Some s \<Rightarrow> d\<lparr>utteranceId := Some s\<rparr>)
      in (p\<lparr>diagnostics := d\<rparr>, None))"

section \<open>Frames\<close>

definition KIRO_JSON_EVENT_TYPES :: "js_text list" where
  "KIRO_JSON_EVENT_TYPES = map utf16
     [''assistantResponseEvent'', ''reasoningContentEvent'', ''toolUseEvent'', ''metadataEvent'',
      ''meteringEvent'', ''invalidStateEvent'', ''messageMetadataEvent'']"

definition KIRO_IGNORED_EVENT_TYPES :: "js_text list" where
  "KIRO_IGNORED_EVENT_TYPES = map utf16
     [''contextUsageEvent'', ''followupPromptEvent'', ''citationEvent'', ''codeEvent'',
      ''codeReferenceEvent'', ''supplementaryWebLinksEvent'', ''intentsEvent'',
      ''interactionComponentsEvent'', ''dryRunSucceedEvent'', ''initial-response'']"

definition recognize :: "(kiro_diagnostics \<Rightarrow> kiro_diagnostics) \<Rightarrow> kiro_parser \<Rightarrow> kiro_parser" where
  "recognize counting p =
     p\<lparr>diagnostics := counting ((diagnostics p)\<lparr>recognizedEventCount := recognizedEventCount (diagnostics p) + 1\<rparr>)\<rparr>"

definition handleEvent :: "kiro_config \<Rightarrow> kiro_parser \<Rightarrow> js_text \<Rightarrow> properties \<Rightarrow> step_outcome" where
  "handleEvent c p eventType payload =
     (if eventType = utf16 ''assistantResponseEvent'' then
        handleAssistantResponse c
          (recognize (\<lambda>d. d\<lparr>assistantResponseEventCount := assistantResponseEventCount d + 1\<rparr>) p) payload
      else if eventType = utf16 ''reasoningContentEvent'' then
        handleReasoning c
          (recognize (\<lambda>d. d\<lparr>reasoningEventCount := reasoningEventCount d + 1\<rparr>) p) payload
      else if eventType = utf16 ''toolUseEvent'' then
        handleToolUse c (recognize (\<lambda>d. d\<lparr>toolUseEventCount := toolUseEventCount d + 1\<rparr>) p) payload
      else if eventType = utf16 ''metadataEvent'' \<or> eventType = utf16 ''meteringEvent'' then
        handleUsage eventType
          (recognize (\<lambda>d. d\<lparr>usageEventCount := usageEventCount d + 1\<rparr>) p) payload
      else if eventType = utf16 ''invalidStateEvent'' then
        handleInvalidState (recognize (\<lambda>d. d) p) payload
      else if eventType = utf16 ''messageMetadataEvent'' then
        handleMessageMetadata (recognize (\<lambda>d. d) p) payload
      else (p, None))"

definition handleFrame :: "kiro_config \<Rightarrow> kiro_parser \<Rightarrow> parsed_frame \<Rightarrow> step_outcome" where
  "handleFrame c p frame =
     checked p (requiredStringHeader (frame_headers frame) '':message-type'') (\<lambda>messageType.
     checked p (requiredStringHeader (frame_headers frame) '':content-type'') (\<lambda>contentType.
     if \<not> isJsonContentType contentType
     then (p, Some (kiro_fail ''kiro_event_stream_content_type''))
     else if messageType = utf16 ''exception'' then
       checked p (requiredStringHeader (frame_headers frame) '':exception-type'') (\<lambda>exceptionType.
       checked p (parseJsonObject (frame_payload frame)) (\<lambda>payload.
       (p, Some \<lparr>failureCode = exceptionType,
                 upstreamMessage = optionalString (obj_get payload ''message''),
                 errorType = utf16 ''kiro_exception''\<rparr>)))
     else if messageType \<noteq> utf16 ''event''
     then (p, Some (kiro_fail ''kiro_event_stream_message_type''))
     else checked p (requiredStringHeader (frame_headers frame) '':event-type'') (\<lambda>eventType.
       if eventType \<in> set KIRO_IGNORED_EVENT_TYPES then (recognize (\<lambda>d. d) p, None)
       else if eventType \<notin> set KIRO_JSON_EVENT_TYPES then (p, None)
       else checked p (parseJsonObject (frame_payload frame)) (\<lambda>payload.
            handleEvent c p eventType payload))))"

definition emitFailure :: "kiro_parser \<Rightarrow> kiro_failure \<Rightarrow> kiro_parser" where
  "emitFailure p e =
     (if failed p then p
      else emit (p\<lparr>failed := True, bytes := queue_clear (bytes p)\<rparr>)
             [Error_Event (upstreamMessage e) (Some (failureCode e)) (Some (errorType e)),
              Stop Stop_Error (Some (failureCode e)), Done])"

definition fail_on :: "step_outcome \<Rightarrow> kiro_parser" where
  "fail_on r = (case r of (p, None) \<Rightarrow> p | (p, Some e) \<Rightarrow> emitFailure p e)"

end
