(* ===== verification/Kiro_Parser.thy ===== *)
theory Kiro_Parser
  imports Kiro_Stream
begin

text \<open>
  The loop and the public operations of \<open>KiroEventStreamParser\<close> in
  \<^verbatim>\<open>src/main/gateway/kiro-event-stream.ts\<close>, \<open>push\<close> and \<open>finish\<close>, and \<open>KiroEventStreamCollector\<close>,
  which gathers the events of one response. The stream of \<open>collectKiroEventStreamBody\<close> is the list
  of the chunks its reader delivers.
\<close>

section \<open>What handling a frame leaves alone\<close>

lemma proceed_inv:
  "Q (fst r) \<Longrightarrow> (\<And>p. r = (p, None) \<Longrightarrow> Q (fst (f p))) \<Longrightarrow> Q (fst (proceed r f))"
  by (cases r) (auto simp: proceed_def split: option.splits)

lemma checked_inv:
  "Q p \<Longrightarrow> (\<And>x. r = Inr x \<Longrightarrow> Q (fst (f x))) \<Longrightarrow> Q (fst (checked p r f))"
  by (cases r) (auto simp: checked_def)

text \<open>Whatever holds of all that the tool calls write is kept by their operations.\<close>

locale tool_frame =
  fixes Q :: "kiro_parser \<Rightarrow> bool"
  assumes tools_law: "Q p \<Longrightarrow> Q (p\<lparr>tools := a\<rparr>)"
    and completed_law: "Q p \<Longrightarrow> Q (p\<lparr>completedTools := b\<rparr>)"
    and ids_law: "Q p \<Longrightarrow> Q (p\<lparr>completedToolIds := d\<rparr>)"
    and index_law: "Q p \<Longrightarrow> Q (p\<lparr>nextToolIndex := n\<rparr>)"
    and emit_law: "Q p \<Longrightarrow> Q (p\<lparr>nextToolIndexToEmit := n\<rparr>)"
    and input_law: "Q p \<Longrightarrow> Q (p\<lparr>totalToolInputBytes := n\<rparr>)"
    and saw_law: "Q p \<Longrightarrow> Q (p\<lparr>sawCompletedTool := h\<rparr>)"
    and count_law: "Q p \<Longrightarrow> Q (p\<lparr>diagnostics := g\<rparr>)"
    and events_law: "Q p \<Longrightarrow> Q (emit p [Tool_Call_Delta i x y z None None, Tool_Call_Complete i])"
begin

lemmas tool_laws =
  tools_law completed_law ids_law index_law emit_law input_law saw_law count_law events_law

lemma checked_keeps: "Q p \<Longrightarrow> (\<And>x. r = Inr x \<Longrightarrow> Q (fst (f x))) \<Longrightarrow> Q (fst (checked p r f))"
  by (rule checked_inv)

lemma ready_keeps: "Q p \<Longrightarrow> Q (emitReadyTools p)"
proof (induction p rule: emitReadyTools.induct)
  case (1 p)
  then show ?case
    by (subst emitReadyTools.simps) (simp add: tool_laws split: option.splits)
qed

lemma commit_keeps: "Q p \<Longrightarrow> Q (fst (commitCompletedTool c p st x b))"
  by (simp add: commitCompletedTool_def Let_def ready_keeps tool_laws)

lemma complete_keeps: "Q p \<Longrightarrow> Q (fst (completeTool c p st b))"
  unfolding completeTool_def by (intro checked_keeps commit_keeps)

lemma stop_keeps: "Q p \<Longrightarrow> Q (fst (stopTool c p st v))"
  unfolding stopTool_def by (simp add: complete_keeps split: option.splits json.splits)

lemma claim_keeps: "Q p \<Longrightarrow> claimTool c p i = Inr (st, q) \<Longrightarrow> Q q"
  by (auto simp: claimTool_def Let_def tool_laws split: option.splits if_splits)

lemma extend_keeps: "Q p \<Longrightarrow> Q (fst (extendTool c p payload st))"
  unfolding extendTool_def Let_def put_tool_def
  by (simp add: stop_keeps tool_laws split: prod.splits option.splits)

lemma tool_use_keeps: "Q p \<Longrightarrow> Q (fst (handleToolUse c p payload))"
  unfolding handleToolUse_def
  by (rule checked_keeps, assumption)
    (auto split: prod.splits intro!: checked_keeps extend_keeps elim: claim_keeps)

lemma commit_all_keeps: "Q p \<Longrightarrow> Q (fst (commit_all c p xs))"
proof (induction c p xs rule: commit_all.induct)
  case (2 c p st completed rest)
  from commit_keeps [OF 2(2), of c st completed True] show ?case
    unfolding commit_all.simps by (rule proceed_inv [where Q = Q]) (use 2 commit_keeps in \<open>metis fst_conv\<close>)
qed simp

lemma recover_keeps: "Q p \<Longrightarrow> Q (fst (recoverOrRejectUnfinishedTools c p))"
  unfolding recoverOrRejectUnfinishedTools_def Let_def
  by (intro checked_keeps commit_all_keeps)

end

lemma emit_fields [simp]:
  "events (emit p es) = events p @ es" "bytes (emit p es) = bytes p" "tools (emit p es) = tools p"
  "completedTools (emit p es) = completedTools p" "completedToolIds (emit p es) = completedToolIds p"
  "thinkingTagFilter (emit p es) = thinkingTagFilter p" "diagnostics (emit p es) = diagnostics p"
  "lastAssistantContent (emit p es) = lastAssistantContent p"
  "lastReasoningContent (emit p es) = lastReasoningContent p"
  "nextToolIndex (emit p es) = nextToolIndex p"
  "nextToolIndexToEmit (emit p es) = nextToolIndexToEmit p"
  "totalToolInputBytes (emit p es) = totalToolInputBytes p" "sawFrame (emit p es) = sawFrame p"
  "sawCompletedTool (emit p es) = sawCompletedTool p" "failed (emit p es) = failed p"
  "finished (emit p es) = finished p"
  by (simp_all add: emit_def)

lemma ready_fields [simp]:
  "tools (emitReadyTools p) = tools p" "nextToolIndex (emitReadyTools p) = nextToolIndex p"
  "sawCompletedTool (emitReadyTools p) = sawCompletedTool p"
  "completedToolIds (emitReadyTools p) = completedToolIds p"
  "totalToolInputBytes (emitReadyTools p) = totalToolInputBytes p"
  "lastAssistantContent (emitReadyTools p) = lastAssistantContent p"
  "lastReasoningContent (emitReadyTools p) = lastReasoningContent p"
  by (induction p rule: emitReadyTools.induct; subst emitReadyTools.simps; simp split: option.splits)+

definition io_frame :: "kiro_parser \<Rightarrow> kiro_parser \<Rightarrow> bool" where
  "io_frame p q \<longleftrightarrow>
     bytes q = bytes p \<and> failed q = failed p \<and> finished q = finished p \<and> sawFrame q = sawFrame p"

lemmas io_checked = checked_inv [where Q = "io_frame q" for q]

lemma io_frame_refl [simp]: "io_frame p p"
  by (simp add: io_frame_def)

lemma io_frame_trans: "io_frame p q \<Longrightarrow> io_frame q r \<Longrightarrow> io_frame p r"
  by (simp add: io_frame_def)

lemma io_frame_emit [simp]: "io_frame p (emit q es) = io_frame p q"
  by (simp add: io_frame_def)

lemma io_frame_updates [simp]:
  "io_frame p (q\<lparr>tools := a\<rparr>) = io_frame p q" "io_frame p (q\<lparr>completedTools := b\<rparr>) = io_frame p q"
  "io_frame p (q\<lparr>completedToolIds := d\<rparr>) = io_frame p q"
  "io_frame p (q\<lparr>thinkingTagFilter := e\<rparr>) = io_frame p q"
  "io_frame p (q\<lparr>diagnostics := g\<rparr>) = io_frame p q"
  "io_frame p (q\<lparr>lastAssistantContent := h\<rparr>) = io_frame p q"
  "io_frame p (q\<lparr>lastReasoningContent := i\<rparr>) = io_frame p q"
  "io_frame p (q\<lparr>nextToolIndex := j\<rparr>) = io_frame p q"
  "io_frame p (q\<lparr>nextToolIndexToEmit := k\<rparr>) = io_frame p q"
  "io_frame p (q\<lparr>totalToolInputBytes := l\<rparr>) = io_frame p q"
  "io_frame p (q\<lparr>sawCompletedTool := m\<rparr>) = io_frame p q"
  by (simp_all add: io_frame_def)

lemma io_frame_recognize [simp]: "io_frame p (recognize f q) = io_frame p q"
  by (simp add: recognize_def)

interpretation io: tool_frame "io_frame q" for q
  by unfold_locales simp_all

lemma io_frame_handleAssistantResponse: "io_frame q p \<Longrightarrow> io_frame q (fst (handleAssistantResponse c p payload))"
  unfolding handleAssistantResponse_def Let_def
  by (intro io_checked) (simp_all split: prod.splits)

lemma io_frame_handleReasoning: "io_frame q p \<Longrightarrow> io_frame q (fst (handleReasoning c p payload))"
  unfolding handleReasoning_def Let_def by (simp add: io_checked)

lemma io_frame_handleUsage: "io_frame q p \<Longrightarrow> io_frame q (fst (handleUsage t p payload))"
  unfolding handleUsage_def by (rule io_checked) simp_all

lemma io_frame_handleEvent: "io_frame q p \<Longrightarrow> io_frame q (fst (handleEvent c p t payload))"
  unfolding handleEvent_def
  by (simp add: io_frame_handleAssistantResponse io_frame_handleReasoning io.tool_use_keeps
      io_frame_handleUsage handleInvalidState_def handleMessageMetadata_def Let_def)

lemma io_frame_handleFrame: "io_frame q p \<Longrightarrow> io_frame q (fst (handleFrame c p frame))"
  unfolding handleFrame_def
  by (intro io_checked) (auto intro!: io_checked io_frame_handleEvent)

lemma handleFrame_io [simp]:
  "bytes (fst (handleFrame c p frame)) = bytes p" "failed (fst (handleFrame c p frame)) = failed p"
  "finished (fst (handleFrame c p frame)) = finished p"
  "sawFrame (fst (handleFrame c p frame)) = sawFrame p"
  using io_frame_handleFrame [of p p c frame] by (simp_all add: io_frame_def)

lemma failed_emitFailure [simp]: "failed (emitFailure p e)"
  by (simp add: emitFailure_def)

lemma fail_on_io:
  "failed (fail_on r) \<or> r = (fail_on r, None)"
  by (cases r) (auto simp: fail_on_def split: option.splits)

section \<open>Draining complete frames\<close>

text \<open>The lengths a prelude announces, once its checksum and its lengths are valid.\<close>

definition readPrelude :: "kiro_config \<Rightarrow> byte list \<Rightarrow> (nat \<times> nat) result" where
  "readPrelude c prelude =
     and_then (validatePreludeCrc prelude) (\<lambda>_.
     let totalLength = nat (readUint32 prelude 0); headersLength = nat (readUint32 prelude 4)
     in and_then (validateFrameLengths totalLength headersLength (maxFrameBytes c)) (\<lambda>_.
        Inr (totalLength, headersLength)))"

lemma readPrelude_bounds:
  "readPrelude c prelude = Inr (n, h) \<Longrightarrow> 16 \<le> n \<and> n \<le> maxFrameBytes c \<and> h + 16 \<le> n"
  by (auto simp: readPrelude_def and_then_Inr Let_def validateFrameLengths_def MIN_FRAME_BYTES_def
      split: if_splits)

definition internal_failure :: kiro_failure where
  "internal_failure = kiro_fail ''kiro_event_stream_internal''"

text \<open>The queue throws when fewer bytes are there than asked for; \<open>asKiroFailure\<close> wraps that.\<close>

function drainFrames :: "kiro_config \<Rightarrow> kiro_parser \<Rightarrow> kiro_parser" where
  "drainFrames c p =
     (if \<not> failed p \<and> \<not> finished p \<and> byteLength (bytes p) \<ge> 12 then
        (case queue_peek (bytes p) 12 of
           None \<Rightarrow> emitFailure p internal_failure
         | Some prelude \<Rightarrow>
             (case readPrelude c prelude of
                Inl e \<Rightarrow> emitFailure p e
              | Inr (totalLength, headersLength) \<Rightarrow>
                  if byteLength (bytes p) < totalLength then p
                  else (case queue_read (bytes p) totalLength of
                          None \<Rightarrow> emitFailure p internal_failure
                        | Some (frame, rest) \<Rightarrow>
                            (case parseFrame frame headersLength of
                               Inl e \<Rightarrow> emitFailure (p\<lparr>bytes := rest\<rparr>) e
                             | Inr parsed \<Rightarrow>
                                 drainFrames c
                                   (fail_on (handleFrame c (p\<lparr>bytes := rest, sawFrame := True\<rparr>) parsed))))))
      else p)"
  by auto

lemma queue_read_byteLength: "queue_read q n = Some (out, r) \<Longrightarrow> byteLength r + n = byteLength q"
  by (auto simp: queue_read_def queue_peek_def queue_discard_def split: option.splits if_splits prod.splits)

termination drainFrames
proof (relation "measure (\<lambda>(c, p). if failed p then 0 else Suc (byteLength (bytes p)))", goal_cases)
  case 1
  then show ?case by simp
next
  case (2 c p prelude ns totalLength headersLength fr frame rest parsed)
  let ?r = "handleFrame c (p\<lparr>bytes := rest, sawFrame := True\<rparr>) parsed"
  have "16 \<le> totalLength" using 2 readPrelude_bounds by blast
  moreover have "byteLength rest + totalLength = byteLength (bytes p)"
    using 2 queue_read_byteLength by blast
  ultimately have "byteLength rest < byteLength (bytes p)" by simp
  moreover have "failed (fail_on ?r) \<or> bytes (fail_on ?r) = rest"
  proof (rule disjCI)
    assume "bytes (fail_on ?r) \<noteq> rest"
    moreover have "bytes (fst ?r) = rest" by simp
    ultimately show "failed (fail_on ?r)" using fail_on_io [of ?r] by (metis fst_conv)
  qed
  ultimately show ?case using 2 by auto
qed

declare drainFrames.simps [simp del]

section \<open>Public operations\<close>

definition drainEvents :: "kiro_parser \<Rightarrow> kiro_parser \<times> canonical_event list" where
  "drainEvents p = (p\<lparr>events := []\<rparr>, events p)"

definition push :: "kiro_config \<Rightarrow> kiro_parser \<Rightarrow> byte list \<Rightarrow> kiro_parser \<times> canonical_event list" where
  "push c p chunk =
     (if finished p \<or> failed p \<or> chunk = [] then (p, [])
      else drainEvents (drainFrames c (p\<lparr>bytes := queue_push (bytes p) chunk\<rparr>)))"

text \<open>The end of a well-formed stream: recovered tools, the tail of the text, the stop reason.\<close>

definition close_stream :: "kiro_config \<Rightarrow> kiro_parser \<Rightarrow> step_outcome" where
  "close_stream c p =
     proceed (recoverOrRejectUnfinishedTools c p) (\<lambda>p.
     let p = emitReadyTools p;
         (f, visible, advanced) = filter_finish (thinkingTagFilter p);
         p = emit (p\<lparr>thinkingTagFilter := f\<rparr>) (filtered_events visible advanced)
     in (emit p
           [if sawCompletedTool p then Stop Stop_Tool_Calls (Some (utf16 ''tool_use''))
            else Stop Stop_Normal (Some (utf16 ''end_turn'')),
            Done], None))"

definition finish_step :: "kiro_config \<Rightarrow> kiro_parser \<Rightarrow> kiro_parser" where
  "finish_step c p =
     (if failed p then p
      else let p = drainFrames c p
           in if failed p then p
              else if byteLength (bytes p) > 0
              then emitFailure p (kiro_fail ''kiro_event_stream_truncated'')
              else if \<not> sawFrame p then emitFailure p (kiro_fail ''kiro_event_stream_empty'')
              else if recognizedEventCount (diagnostics p) = 0
              then emitFailure p (kiro_fail ''kiro_event_stream_unrecognized'')
              else fail_on (close_stream c p))"

definition finish_stream :: "kiro_config \<Rightarrow> kiro_parser \<Rightarrow> kiro_parser \<times> canonical_event list" where
  "finish_stream c p =
     (if finished p then (p, [])
      else drainEvents ((finish_step c p)\<lparr>finished := True\<rparr>))"

section \<open>The collector\<close>

record collected_tool =
  k_index :: nat
  k_id :: "js_text option"
  k_name :: "js_text option"
  k_arguments :: js_text
  k_complete :: bool

record collected_call =
  call_index :: nat
  call_id :: js_text
  call_name :: js_text
  call_input :: properties

record collected_response =
  r_text :: js_text
  r_tools :: "collected_call list"
  r_usage :: "usage_counts option"
  r_stopReason :: "stop_reason option"
  r_structuralRecoveryCount :: nat
  r_recognizedEventCount :: nat
  r_error :: "canonical_event option"

record collector =
  parser :: kiro_parser
  collectedTools :: "(nat, collected_tool) js_map"
  collectedText :: js_text
  collectedUsage :: "usage_counts option"
  stopReason :: "stop_reason option"
  collectedError :: "canonical_event option"
  complete :: bool
  response :: "collected_response option"

definition new_collector :: collector where
  "new_collector =
     \<lparr>parser = new_parser, collectedTools = [], collectedText = [], collectedUsage = None,
      stopReason = None, collectedError = None, complete = False, response = None\<rparr>"

definition overriding :: "'a option \<Rightarrow> 'a option \<Rightarrow> 'a option" where
  "overriding old new = (case new of None \<Rightarrow> old | Some x \<Rightarrow> Some x)"

definition mergeUsage :: "usage_counts option \<Rightarrow> usage_counts \<Rightarrow> usage_counts" where
  "mergeUsage previous nxt =
     (case previous of
        None \<Rightarrow> nxt
      | Some u \<Rightarrow>
          \<lparr>inputTokens = overriding (inputTokens u) (inputTokens nxt),
           outputTokens = overriding (outputTokens u) (outputTokens nxt),
           totalTokens = overriding (totalTokens u) (totalTokens nxt),
           cachedInputTokens = overriding (cachedInputTokens u) (cachedInputTokens nxt),
           cacheCreationInputTokens =
             overriding (cacheCreationInputTokens u) (cacheCreationInputTokens nxt),
           cacheCreation5mInputTokens =
             overriding (cacheCreation5mInputTokens u) (cacheCreation5mInputTokens nxt),
           cacheCreation1hInputTokens =
             overriding (cacheCreation1hInputTokens u) (cacheCreation1hInputTokens nxt),
           reasoningTokens = overriding (reasoningTokens u) (reasoningTokens nxt)\<rparr>)"

definition fresh_tool :: "nat \<Rightarrow> collected_tool" where
  "fresh_tool i = \<lparr>k_index = i, k_id = None, k_name = None, k_arguments = [], k_complete = False\<rparr>"

fun consume_event :: "collector \<Rightarrow> canonical_event \<Rightarrow> collector" where
  "consume_event k (Text_Delta s _ _) = k\<lparr>collectedText := collectedText k @ s\<rparr>"
| "consume_event k (Tool_Call_Delta i toolId name args _ _) =
     (let st = (case map_get (collectedTools k) i of None \<Rightarrow> fresh_tool i | Some st \<Rightarrow> st);
          st = st\<lparr>k_id := overriding (k_id st) toolId, k_name := overriding (k_name st) name,
                  k_arguments := (case args of None \<Rightarrow> k_arguments st | Some a \<Rightarrow> k_arguments st @ a)\<rparr>
      in k\<lparr>collectedTools := map_set (collectedTools k) i st\<rparr>)"
| "consume_event k (Tool_Call_Complete i) =
     (case map_get (collectedTools k) i of
        None \<Rightarrow> k
      | Some st \<Rightarrow> k\<lparr>collectedTools := map_set (collectedTools k) i (st\<lparr>k_complete := True\<rparr>)\<rparr>)"
| "consume_event k (Usage u) = k\<lparr>collectedUsage := Some (mergeUsage (collectedUsage k) u)\<rparr>"
| "consume_event k (Stop reason _) = k\<lparr>stopReason := Some reason\<rparr>"
| "consume_event k (Error_Event m c t) =
     (if collectedError k = None then k\<lparr>collectedError := Some (Error_Event m c t)\<rparr> else k)"
| "consume_event k Done = k\<lparr>complete := True\<rparr>"
| "consume_event k _ = k"

definition consume :: "collector \<Rightarrow> canonical_event list \<Rightarrow> collector" where
  "consume k es = foldl consume_event k es"

text \<open>\<^const>\<open>None\<close> when the collector is already finished, which throws.\<close>

definition collector_push :: "kiro_config \<Rightarrow> collector \<Rightarrow> byte list \<Rightarrow> collector option" where
  "collector_push c k chunk =
     (if response k \<noteq> None then None
      else let (p, es) = push c (parser k) chunk in Some (consume (k\<lparr>parser := p\<rparr>) es))"

definition incomplete_error :: canonical_event where
  "incomplete_error =
     Error_Event None (Some (utf16 ''kiro_tool_incomplete'')) (Some (utf16 ''invalid_upstream_response''))"

text \<open>The calls in order; an incomplete one is an error, an input that is not a JSON object throws.\<close>

fun collect_calls ::
    "collected_tool list \<Rightarrow> (canonical_event option \<times> collected_call list) result" where
  "collect_calls [] = Inr (None, [])"
| "collect_calls (st # sts) =
     (case (k_complete st, k_id st, k_name st) of
        (True, Some toolId, Some name) \<Rightarrow>
          if toolId = [] \<or> name = [] then Inr (Some incomplete_error, [])
          else and_then (parseToolInput (k_arguments st)) (\<lambda>input.
               and_then (collect_calls sts) (\<lambda>(e, calls).
               Inr (e, \<lparr>call_index = k_index st, call_id = toolId, call_name = name,
                        call_input = input\<rparr> # calls)))
      | _ \<Rightarrow> Inr (Some incomplete_error, []))"

definition collector_finish ::
    "kiro_config \<Rightarrow> collector \<Rightarrow> collector \<times> collected_response result" where
  "collector_finish c k =
     (case response k of
        Some r \<Rightarrow> (k, Inr r)
      | None \<Rightarrow>
          let (p, es) = finish_stream c (parser k);
              k = consume (k\<lparr>parser := p\<rparr>) es;
              collected =
                (if collectedError k = None
                 then collect_calls (sort_by (\<lambda>a b. k_index a < k_index b) (map snd (collectedTools k)))
                 else Inr (None, []))
          in case collected of
               Inl e \<Rightarrow> (k, Inl e)
             | Inr (e, calls) \<Rightarrow>
                 let k = (case e of None \<Rightarrow> k | Some x \<Rightarrow> k\<lparr>collectedError := Some x\<rparr>);
                     broken = (collectedError k \<noteq> None);
                     r = \<lparr>r_text = collectedText k, r_tools = (if broken then [] else calls),
                          r_usage = collectedUsage k,
                          r_stopReason = (if broken then Some Stop_Error else stopReason k),
                          r_structuralRecoveryCount = structuralRecoveryCount (diagnostics p),
                          r_recognizedEventCount = recognizedEventCount (diagnostics p),
                          r_error = collectedError k\<rparr>
                 in (k\<lparr>response := Some r\<rparr>, Inr r))"

text \<open>The reader is cancelled once the collector is complete.\<close>

fun collect_chunks :: "kiro_config \<Rightarrow> collector \<Rightarrow> byte list list \<Rightarrow> collector option" where
  "collect_chunks c k [] = Some k"
| "collect_chunks c k (chunk # later) =
     (case collector_push c k chunk of
        None \<Rightarrow> None
      | Some k' \<Rightarrow> if complete k' then Some k' else collect_chunks c k' later)"

definition collectKiroEventStreamBody ::
    "kiro_config \<Rightarrow> byte list list \<Rightarrow> collected_response result option" where
  "collectKiroEventStreamBody c received =
     map_option (\<lambda>k. snd (collector_finish c k)) (collect_chunks c new_collector received)"

end
