(* ===== verification/Drain_Proofs.thy ===== *)
theory Drain_Proofs
  imports Kiro_Parser
begin

text \<open>
  The parser does not depend on how the bytes were cut into chunks. Its specification
  \<open>flat_drain\<close> works on one byte string and keeps all events; the loop over the queue refines it,
  and it processes a concatenation piece by piece.
\<close>

section \<open>Handlers do not look at the buffer or at earlier events\<close>

definition rebase :: "byte_queue \<Rightarrow> canonical_event list \<Rightarrow> kiro_parser \<Rightarrow> kiro_parser" where
  "rebase q es p = p\<lparr>bytes := q, events := es @ events p\<rparr>"

definition rebase_outcome :: "byte_queue \<Rightarrow> canonical_event list \<Rightarrow> step_outcome \<Rightarrow> step_outcome" where
  "rebase_outcome q es r = (rebase q es (fst r), snd r)"

lemma rebase_fields [simp]:
  "bytes (rebase q es p) = q" "events (rebase q es p) = es @ events p"
  "tools (rebase q es p) = tools p" "completedTools (rebase q es p) = completedTools p"
  "completedToolIds (rebase q es p) = completedToolIds p"
  "thinkingTagFilter (rebase q es p) = thinkingTagFilter p"
  "diagnostics (rebase q es p) = diagnostics p"
  "lastAssistantContent (rebase q es p) = lastAssistantContent p"
  "lastReasoningContent (rebase q es p) = lastReasoningContent p"
  "nextToolIndex (rebase q es p) = nextToolIndex p"
  "nextToolIndexToEmit (rebase q es p) = nextToolIndexToEmit p"
  "totalToolInputBytes (rebase q es p) = totalToolInputBytes p"
  "sawFrame (rebase q es p) = sawFrame p" "sawCompletedTool (rebase q es p) = sawCompletedTool p"
  "failed (rebase q es p) = failed p" "finished (rebase q es p) = finished p"
  by (simp_all add: rebase_def)

lemma rebase_updates [simp]:
  "(rebase q es p)\<lparr>tools := a\<rparr> = rebase q es (p\<lparr>tools := a\<rparr>)"
  "(rebase q es p)\<lparr>completedTools := b\<rparr> = rebase q es (p\<lparr>completedTools := b\<rparr>)"
  "(rebase q es p)\<lparr>completedToolIds := d\<rparr> = rebase q es (p\<lparr>completedToolIds := d\<rparr>)"
  "(rebase q es p)\<lparr>thinkingTagFilter := e\<rparr> = rebase q es (p\<lparr>thinkingTagFilter := e\<rparr>)"
  "(rebase q es p)\<lparr>diagnostics := g\<rparr> = rebase q es (p\<lparr>diagnostics := g\<rparr>)"
  "(rebase q es p)\<lparr>lastAssistantContent := h\<rparr> = rebase q es (p\<lparr>lastAssistantContent := h\<rparr>)"
  "(rebase q es p)\<lparr>lastReasoningContent := i\<rparr> = rebase q es (p\<lparr>lastReasoningContent := i\<rparr>)"
  "(rebase q es p)\<lparr>nextToolIndex := j\<rparr> = rebase q es (p\<lparr>nextToolIndex := j\<rparr>)"
  "(rebase q es p)\<lparr>nextToolIndexToEmit := k\<rparr> = rebase q es (p\<lparr>nextToolIndexToEmit := k\<rparr>)"
  "(rebase q es p)\<lparr>totalToolInputBytes := l\<rparr> = rebase q es (p\<lparr>totalToolInputBytes := l\<rparr>)"
  "(rebase q es p)\<lparr>sawFrame := n\<rparr> = rebase q es (p\<lparr>sawFrame := n\<rparr>)"
  "(rebase q es p)\<lparr>sawCompletedTool := m\<rparr> = rebase q es (p\<lparr>sawCompletedTool := m\<rparr>)"
  "(rebase q es p)\<lparr>failed := o1\<rparr> = rebase q es (p\<lparr>failed := o1\<rparr>)"
  "(rebase q es p)\<lparr>finished := o2\<rparr> = rebase q es (p\<lparr>finished := o2\<rparr>)"
  "(rebase q es p)\<lparr>bytes := q'\<rparr> = rebase q' es p"
  by (simp_all add: rebase_def)

lemma rebase_emit [simp]: "emit (rebase q es p) new = rebase q es (emit p new)"
  by (simp add: rebase_def emit_def)

lemma rebase_outcome_pair [simp]: "rebase_outcome q es (p, e) = (rebase q es p, e)"
  by (simp add: rebase_outcome_def)

lemma rebase_recognize [simp]: "recognize f (rebase q es p) = rebase q es (recognize f p)"
  by (simp add: recognize_def)

lemma rebase_put [simp]: "put_tool (rebase q es p) st = rebase q es (put_tool p st)"
  by (simp add: put_tool_def)

lemma rebase_checked:
  "(\<And>x. r = Inr x \<Longrightarrow> f x = rebase_outcome q es (g x)) \<Longrightarrow>
   checked (rebase q es p) r f = rebase_outcome q es (checked p r g)"
  by (cases r) (simp_all add: checked_def)

lemma rebase_proceed:
  "(\<And>p. r = (p, None) \<Longrightarrow> f (rebase q es p) = rebase_outcome q es (g p)) \<Longrightarrow>
   proceed (rebase_outcome q es r) f = rebase_outcome q es (proceed r g)"
  by (cases r) (auto simp: proceed_def split: option.splits)

lemma rebase_emitReadyTools [simp]: "emitReadyTools (rebase q es p) = rebase q es (emitReadyTools p)"
proof (induction p rule: emitReadyTools.induct)
  case (1 p)
  show ?case
  proof (cases "map_get (completedTools p) (nextToolIndexToEmit p)")
    case None
    then show ?thesis by (simp add: emitReadyTools.simps [of p] emitReadyTools.simps [of "rebase q es p"])
  next
    case (Some tool)
    from 1 [OF Some] show ?thesis
      by (simp add: emitReadyTools.simps [of p] emitReadyTools.simps [of "rebase q es p"] Some)
  qed
qed

lemma rebase_handleAssistantResponse:
  "handleAssistantResponse c (rebase q es p) payload = rebase_outcome q es (handleAssistantResponse c p payload)"
  unfolding handleAssistantResponse_def Let_def rebase_fields
  by (intro rebase_checked) (simp_all split: prod.splits)

lemma rebase_handleReasoning:
  "handleReasoning c (rebase q es p) payload = rebase_outcome q es (handleReasoning c p payload)"
  unfolding handleReasoning_def Let_def rebase_fields
  by (simp add: rebase_checked)

lemma rebase_commit:
  "commitCompletedTool c (rebase q es p) st x b = rebase_outcome q es (commitCompletedTool c p st x b)"
  by (simp add: commitCompletedTool_def Let_def)

lemma rebase_complete:
  "completeTool c (rebase q es p) st b = rebase_outcome q es (completeTool c p st b)"
  unfolding completeTool_def by (intro rebase_checked rebase_commit)

lemma rebase_stop: "stopTool c (rebase q es p) st v = rebase_outcome q es (stopTool c p st v)"
  unfolding stopTool_def by (simp add: rebase_complete split: option.splits json.splits)

lemma rebase_claim:
  "claimTool c (rebase q es p) i = map_sum id (\<lambda>(st, p). (st, rebase q es p)) (claimTool c p i)"
  by (simp add: claimTool_def Let_def split: option.splits)

lemma checked_map: "checked p (map_sum id h r) f = checked p r (\<lambda>x. f (h x))"
  by (cases r) (simp_all add: checked_def)

lemma rebase_extend:
  "extendTool c (rebase q es p) payload st = rebase_outcome q es (extendTool c p payload st)"
  unfolding extendTool_def Let_def
  by (simp add: rebase_stop split: prod.splits option.splits)

lemma rebase_handleToolUse:
  "handleToolUse c (rebase q es p) payload = rebase_outcome q es (handleToolUse c p payload)"
  unfolding handleToolUse_def rebase_claim checked_map
  by (rule rebase_checked) (auto simp: rebase_checked rebase_extend split: prod.splits)

lemma rebase_commit_all: "commit_all c (rebase q es p) xs = rebase_outcome q es (commit_all c p xs)"
proof (induction c p xs rule: commit_all.induct)
  case (2 c p st completed rest)
  then show ?case by (simp add: rebase_commit rebase_proceed)
qed simp

lemma rebase_recover:
  "recoverOrRejectUnfinishedTools c (rebase q es p) = rebase_outcome q es (recoverOrRejectUnfinishedTools c p)"
  unfolding recoverOrRejectUnfinishedTools_def Let_def rebase_fields
  by (intro rebase_checked rebase_commit_all)

lemma rebase_handleEvent: "handleEvent c (rebase q es p) t payload = rebase_outcome q es (handleEvent c p t payload)"
  unfolding handleEvent_def
  by (simp add: rebase_handleAssistantResponse rebase_handleReasoning rebase_handleToolUse
      handleUsage_def handleInvalidState_def handleMessageMetadata_def Let_def rebase_checked)

lemma rebase_handleFrame: "handleFrame c (rebase q es p) fr = rebase_outcome q es (handleFrame c p fr)"
  unfolding handleFrame_def
  by (intro rebase_checked) (auto intro!: rebase_checked simp: rebase_handleEvent)

text \<open>A failure clears the buffer, so only the events are carried along.\<close>

lemma rebase_emitFailure:
  "emitFailure (rebase q es p) e = rebase (if failed p then q else emptyQueue) es (emitFailure p e)"
  by (simp add: emitFailure_def queue_clear_def)

section \<open>The specification on one byte string\<close>

function flat_drain :: "kiro_config \<Rightarrow> kiro_parser \<Rightarrow> byte list \<Rightarrow> kiro_parser \<times> byte list" where
  "flat_drain c p bs =
     (if failed p then (p, [])
      else if length bs < 12 then (p, bs)
      else case readPrelude c (take 12 bs) of
          Inl e \<Rightarrow> (emitFailure p e, [])
        | Inr (n, h) \<Rightarrow>
            if length bs < n then (p, bs)
            else case parseFrame (take n bs) h of
                Inl e \<Rightarrow> (emitFailure p e, [])
              | Inr parsed \<Rightarrow>
                  flat_drain c (fail_on (handleFrame c (p\<lparr>sawFrame := True\<rparr>) parsed)) (drop n bs))"
  by auto
termination
proof (relation "measure (\<lambda>(c, p, bs). length bs)", goal_cases)
  case (2 c p bs ns n h parsed)
  then have "16 \<le> n" using readPrelude_bounds by blast
  with 2 show ?case by simp
qed simp

declare flat_drain.simps [simp del]

text \<open>The state of the parser without its buffer.\<close>

definition unbuffered :: "kiro_parser \<Rightarrow> kiro_parser" where
  "unbuffered p = p\<lparr>bytes := emptyQueue\<rparr>"

lemma unbuffered_rebase: "unbuffered p = rebase emptyQueue [] p"
  by (simp add: unbuffered_def rebase_def)

lemma unbuffered_fail_on:
  "unbuffered (fail_on r) = fail_on (rebase_outcome emptyQueue [] r)"
  by (cases r) (auto simp: fail_on_def unbuffered_rebase emitFailure_def queue_clear_def split: option.splits)

lemma emitFailure_bytes: "\<not> failed p \<Longrightarrow> bytes (emitFailure p e) = emptyQueue"
  by (simp add: emitFailure_def queue_clear_def)

lemma unbuffered_emitFailure: "unbuffered (emitFailure p e) = emitFailure (unbuffered p) e"
  by (simp add: emitFailure_def unbuffered_def emit_def queue_clear_def)

lemma drain_refines:
  assumes "byte_queue_ok (bytes p)" "\<not> finished p" "failed p \<longrightarrow> bytes p = emptyQueue"
  shows "flat_drain c (unbuffered p) (queue_bytes (bytes p))
      = (unbuffered (drainFrames c p), queue_bytes (bytes (drainFrames c p)))
    \<and> byte_queue_ok (bytes (drainFrames c p)) \<and> \<not> finished (drainFrames c p)
    \<and> (failed (drainFrames c p) \<longrightarrow> bytes (drainFrames c p) = emptyQueue)"
  using assms
proof (induction c p rule: drainFrames.induct)
  case (1 c p)
  let ?bs = "queue_bytes (bytes p)"
  have len: "byteLength (bytes p) = length ?bs"
    using "1.prems"(1) by (rule bq.size_contents)
  have f: "failed (unbuffered p) = failed p" by (simp add: unbuffered_def)
  consider (failed) "failed p" | (short) "\<not> failed p" "length ?bs < 12" | (go) "\<not> failed p" "12 \<le> length ?bs"
    by linarith
  then show ?case
  proof cases
    case failed
    with "1.prems" show ?thesis
      by (simp add: drainFrames.simps [of c p] flat_drain.simps f)
  next
    case short
    with "1.prems" len show ?thesis
      by (simp add: drainFrames.simps [of c p] flat_drain.simps f)
  next
    case go
    have peek: "queue_peek (bytes p) 12 = Some (take 12 ?bs)"
      using bq.peek_prefix "1.prems"(1) go by blast
    show ?thesis
    proof (cases "readPrelude c (take 12 ?bs)")
      case (Inl e)
      with go "1.prems" len peek show ?thesis
        by (simp add: drainFrames.simps [of c p] flat_drain.simps f emitFailure_bytes unbuffered_emitFailure)
          (simp add: emitFailure_def)
    next
      case (Inr nh)
      obtain n h where nh: "nh = (n, h)" by (cases nh)
      show ?thesis
      proof (cases "length ?bs < n")
        case True
        with Inr nh go "1.prems" len peek show ?thesis
          by (simp add: drainFrames.simps [of c p] flat_drain.simps f)
      next
        case False
        then obtain r where r: "queue_read (bytes p) n = Some (take n ?bs, r)" "byte_queue_ok r"
          "queue_bytes r = drop n ?bs"
          using bq.read_prefix [of "bytes p" n] "1.prems"(1) by auto
        let ?p = "p\<lparr>bytes := r\<rparr>"
        show ?thesis
        proof (cases "parseFrame (take n ?bs) h")
          case (Inl e)
          with Inr nh False go "1.prems" len peek r show ?thesis
            by (simp add: drainFrames.simps [of c p] flat_drain.simps f emitFailure_bytes)
              (simp add: emitFailure_def unbuffered_def emit_def queue_clear_def)
        next
          case (Inr parsed)
          let ?r = "handleFrame c (?p\<lparr>sawFrame := True\<rparr>) parsed"
          let ?q = "fail_on ?r"
          have d: "drainFrames c p = drainFrames c ?q"
            using go "1.prems" len peek \<open>readPrelude c (take 12 ?bs) = Inr nh\<close> nh False r Inr
            by (simp add: drainFrames.simps [of c p])
          have "(unbuffered p)\<lparr>sawFrame := True\<rparr> = rebase emptyQueue [] (?p\<lparr>sawFrame := True\<rparr>)"
            by (cases p) (simp add: unbuffered_def rebase_def)
          then have "handleFrame c ((unbuffered p)\<lparr>sawFrame := True\<rparr>) parsed = rebase_outcome emptyQueue [] ?r"
            by (simp only: rebase_handleFrame)
          then have fl: "flat_drain c (unbuffered p) ?bs = flat_drain c (unbuffered ?q) (drop n ?bs)"
            using go \<open>readPrelude c (take 12 ?bs) = Inr nh\<close> nh False Inr
            by (simp add: flat_drain.simps [of c "unbuffered p"] f unbuffered_fail_on)
          have fin: "\<not> finished ?q"
            using "1.prems"(2) handleFrame_io(3) [of c "?p\<lparr>sawFrame := True\<rparr>" parsed]
            by (cases ?r) (auto simp: fail_on_def emitFailure_def split: option.splits)
          have bytes: "bytes ?q = (if failed ?q then emptyQueue else r)"
            using go handleFrame_io(1,2) [of c "?p\<lparr>sawFrame := True\<rparr>" parsed]
            by (cases ?r) (auto simp: fail_on_def emitFailure_def queue_clear_def split: option.splits)
          have IH: "byte_queue_ok (bytes ?q) \<Longrightarrow> \<not> finished ?q \<Longrightarrow> failed ?q \<longrightarrow> bytes ?q = emptyQueue \<Longrightarrow>
            flat_drain c (unbuffered ?q) (queue_bytes (bytes ?q))
              = (unbuffered (drainFrames c ?q), queue_bytes (bytes (drainFrames c ?q)))
            \<and> byte_queue_ok (bytes (drainFrames c ?q)) \<and> \<not> finished (drainFrames c ?q)
            \<and> (failed (drainFrames c ?q) \<longrightarrow> bytes (drainFrames c ?q) = emptyQueue)"
            using "1.IH" [OF _ peek \<open>readPrelude c (take 12 ?bs) = Inr nh\<close> nh [symmetric] _ r(1) refl Inr]
              go "1.prems" len False by simp
          show ?thesis
          proof (cases "failed ?q")
            case True
            then have "flat_drain c (unbuffered ?q) (drop n ?bs) = flat_drain c (unbuffered ?q) (queue_bytes (bytes ?q))"
              by (simp add: flat_drain.simps unbuffered_def)
            with IH True bytes fin show ?thesis unfolding d fl by simp
          next
            case nf: False
            with IH bytes fin r show ?thesis unfolding d fl by simp
          qed
        qed
      qed
    qed
  qed
qed

section \<open>Piece by piece\<close>

lemma flat_drain_append:
  "flat_drain c p (xs @ ys) = (let (q, r) = flat_drain c p xs in flat_drain c q (r @ ys))"
proof (induction c p xs rule: flat_drain.induct)
  case (1 c p xs)
  consider (stop) "failed p \<or> length xs < 12" | (go) "\<not> failed p" "12 \<le> length xs"
    by linarith
  then show ?case
  proof cases
    case stop
    then show ?thesis
      by (cases "failed p") (simp_all add: flat_drain.simps [of c p xs] flat_drain.simps [of c p "xs @ ys"]
          flat_drain.simps [of c p ys])
  next
    case go
    have t: "take 12 (xs @ ys) = take 12 xs" using go by simp
    show ?thesis
    proof (cases "readPrelude c (take 12 xs)")
      case (Inl e)
      with go t show ?thesis
        by (simp add: flat_drain.simps [of c p xs] flat_drain.simps [of c p "xs @ ys"]
            flat_drain.simps [of c "emitFailure p e"])
    next
      case (Inr nh)
      obtain n h where nh: "nh = (n, h)" by (cases nh)
      show ?thesis
      proof (cases "length xs < n")
        case True
        with go Inr nh show ?thesis by (simp add: flat_drain.simps [of c p xs])
      next
        case False
        then have tn: "take n (xs @ ys) = take n xs" "drop n (xs @ ys) = drop n xs @ ys" by simp_all
        show ?thesis
        proof (cases "parseFrame (take n xs) h")
          case (Inl e)
          with go t Inr nh False tn show ?thesis
            by (simp add: flat_drain.simps [of c p xs] flat_drain.simps [of c p "xs @ ys"]
                flat_drain.simps [of c "emitFailure p e"])
        next
          case frame: (Inr parsed)
          have "\<not> length xs < 12" using go by simp
          from 1 [OF go(1) this Inr nh [symmetric] False frame] show ?thesis
            using go t Inr nh False tn frame
            by (simp add: flat_drain.simps [of c p xs] flat_drain.simps [of c p "xs @ ys"])
        qed
      qed
    qed
  qed
qed

lemma rebase_inject: "rebase q es x = rebase q es y \<longleftrightarrow> rebase emptyQueue [] x = rebase emptyQueue [] y"
  by (cases x; cases y) (simp add: rebase_def)

lemma flat_drain_idle: "flat_drain c p xs = (q, r) \<Longrightarrow> flat_drain c q r = (q, r)"
  using flat_drain_append [of c p xs "[]"] by simp

lemma fail_on_rebase: "fail_on (rebase_outcome emptyQueue es r) = rebase emptyQueue es (fail_on r)"
  by (cases r) (auto simp: fail_on_def rebase_emitFailure split: option.splits)

lemma flat_drain_rebase:
  "flat_drain c (rebase emptyQueue es p) xs
    = (rebase emptyQueue es (fst (flat_drain c p xs)), snd (flat_drain c p xs))"
proof (induction c p xs rule: flat_drain.induct)
  case (1 c p xs)
  show ?case
  proof (cases "\<not> failed p \<and> \<not> length xs < 12 \<and> (\<exists>n h parsed. readPrelude c (take 12 xs) = Inr (n, h)
      \<and> \<not> length xs < n \<and> parseFrame (take n xs) h = Inr parsed)")
    case True
    then obtain n h parsed where go: "\<not> failed p" "\<not> length xs < 12"
      "readPrelude c (take 12 xs) = Inr (n, h)" "\<not> length xs < n" "parseFrame (take n xs) h = Inr parsed"
      by auto
    from 1 [OF go(1-3) refl go(4-5)] go show ?thesis
      by (simp add: flat_drain.simps [of c p xs] flat_drain.simps [of c "rebase emptyQueue es p" xs]
          rebase_handleFrame fail_on_rebase)
  next
    case False
    then show ?thesis
      by (auto simp: flat_drain.simps [of c p xs] flat_drain.simps [of c "rebase emptyQueue es p" xs]
          rebase_emitFailure split: sum.splits)
  qed
qed

section \<open>Whole streams\<close>

text \<open>Pushing chunk after chunk, and the events and diagnostics of a stream pushed and finished.\<close>

fun feed :: "kiro_config \<Rightarrow> kiro_parser \<Rightarrow> byte list list \<Rightarrow> kiro_parser \<times> canonical_event list" where
  "feed c p [] = (p, [])"
| "feed c p (chunk # later) =
     (let (p1, es1) = push c p chunk; (p2, es2) = feed c p1 later in (p2, es1 @ es2))"

definition run_stream :: "kiro_config \<Rightarrow> byte list list \<Rightarrow> kiro_parser \<times> canonical_event list" where
  "run_stream c received =
     (let (p, es) = feed c new_parser received; (p', es') = finish_stream c p in (p', es @ es'))"

definition stream_events :: "kiro_config \<Rightarrow> byte list list \<Rightarrow> canonical_event list" where
  "stream_events c received = snd (run_stream c received)"

definition stream_diagnostics :: "kiro_config \<Rightarrow> byte list list \<Rightarrow> kiro_diagnostics" where
  "stream_diagnostics c received = diagnostics (fst (run_stream c received))"

text \<open>Between pushes the queue is consistent, nothing is left to drain and no event is kept.\<close>

definition stream_ok :: "kiro_config \<Rightarrow> kiro_parser \<Rightarrow> bool" where
  "stream_ok c p \<longleftrightarrow>
     byte_queue_ok (bytes p) \<and> \<not> finished p \<and> (failed p \<longrightarrow> bytes p = emptyQueue) \<and> events p = []
     \<and> flat_drain c (unbuffered p) (queue_bytes (bytes p)) = (unbuffered p, queue_bytes (bytes p))"

lemma stream_ok_new [simp]: "stream_ok c new_parser"
  by (simp add: stream_ok_def new_parser_def flat_drain.simps)

lemma push_flat:
  assumes ok: "stream_ok c p" and push: "push c p chunk = (p', es)"
  shows "stream_ok c p'"
    and "flat_drain c (unbuffered p) (queue_bytes (bytes p) @ chunk)
      = (rebase emptyQueue es p', queue_bytes (bytes p'))"
proof -
  have "stream_ok c p' \<and> flat_drain c (unbuffered p) (queue_bytes (bytes p) @ chunk)
      = (rebase emptyQueue es p', queue_bytes (bytes p'))"
  proof (cases "failed p \<or> chunk = []")
    case True
    then have "p' = p" "es = []" using push ok by (auto simp: push_def stream_ok_def)
    moreover have "flat_drain c (unbuffered p) (queue_bytes (bytes p) @ chunk)
      = (unbuffered p, queue_bytes (bytes p))"
      using True ok flat_drain.simps [of c "unbuffered p"]
      by (cases "failed p") (auto simp: stream_ok_def unbuffered_def)
    ultimately show ?thesis using ok by (simp add: unbuffered_rebase)
  next
    case False
    let ?q = "p\<lparr>bytes := queue_push (bytes p) chunk\<rparr>"
    let ?d = "drainFrames c ?q"
    have eqs: "p' = ?d\<lparr>events := []\<rparr>" "es = events ?d"
      using push False ok by (auto simp: push_def drainEvents_def stream_ok_def)
    have q: "byte_queue_ok (bytes ?q)" "queue_bytes (bytes ?q) = queue_bytes (bytes p) @ chunk"
      "unbuffered ?q = unbuffered p" "\<not> finished ?q" "failed ?q \<longrightarrow> bytes ?q = emptyQueue"
      using ok False bq.ok_push [of "bytes p" chunk] bq.contents_push [of "bytes p" chunk]
      by (auto simp: stream_ok_def unbuffered_def)
    note d = drain_refines [OF q(1,4,5), of c, unfolded q(2,3)]
    then have idle: "flat_drain c (unbuffered ?d) (queue_bytes (bytes ?d)) = (unbuffered ?d, queue_bytes (bytes ?d))"
      by (blast intro: flat_drain_idle)
    have re: "unbuffered ?d = rebase emptyQueue es p'"
      by (simp add: unbuffered_def rebase_def eqs)
    have "flat_drain c (rebase emptyQueue es p') (queue_bytes (bytes p')) = (rebase emptyQueue es p', queue_bytes (bytes p'))"
      using idle re by (simp add: eqs(1))
    moreover have "rebase emptyQueue es p' = rebase emptyQueue es (unbuffered p')"
      by (simp add: rebase_def unbuffered_def)
    ultimately have fl: "flat_drain c (rebase emptyQueue es (unbuffered p')) (queue_bytes (bytes p'))
        = (rebase emptyQueue es (unbuffered p'), queue_bytes (bytes p'))"
      by metis
    obtain g r where g: "flat_drain c (unbuffered p') (queue_bytes (bytes p')) = (g, r)" by fastforce
    have "rebase emptyQueue es g = rebase emptyQueue es (unbuffered p')" "r = queue_bytes (bytes p')"
      using fl unfolding flat_drain_rebase g by simp_all
    note \<open>rebase emptyQueue es g = rebase emptyQueue es (unbuffered p')\<close>
    moreover have "rebase emptyQueue [] g = g"
      using flat_drain_rebase [of c "[]" p' "queue_bytes (bytes p')"] g
      by (auto simp: unbuffered_rebase rebase_def)
    moreover have "rebase emptyQueue [] (unbuffered p') = unbuffered p'"
      by (simp add: unbuffered_def rebase_def)
    ultimately have "g = unbuffered p'"
      using rebase_inject [THEN iffD1, of emptyQueue es g "unbuffered p'"] by metis
    with g \<open>r = queue_bytes (bytes p')\<close>
    have idle': "flat_drain c (unbuffered p') (queue_bytes (bytes p')) = (unbuffered p', queue_bytes (bytes p'))"
      by simp
    show ?thesis
      using d idle' re eqs by (simp add: stream_ok_def)
  qed
  then show "stream_ok c p'" "flat_drain c (unbuffered p) (queue_bytes (bytes p) @ chunk)
      = (rebase emptyQueue es p', queue_bytes (bytes p'))" by blast+
qed

lemma feed_flat:
  assumes "stream_ok c p" "feed c p cs = (p', es)"
  shows "stream_ok c p'"
    and "flat_drain c (unbuffered p) (queue_bytes (bytes p) @ concat cs)
      = (rebase emptyQueue es p', queue_bytes (bytes p'))"
proof -
  have "stream_ok c p' \<and> flat_drain c (unbuffered p) (queue_bytes (bytes p) @ concat cs)
      = (rebase emptyQueue es p', queue_bytes (bytes p'))"
    using assms
  proof (induction cs arbitrary: p p' es)
    case Nil
    then show ?case by (auto simp: stream_ok_def unbuffered_rebase)
  next
    case (Cons chunk cs)
    obtain p1 es1 where p1: "push c p chunk = (p1, es1)" by fastforce
    obtain p2 es2 where p2: "feed c p1 cs = (p2, es2)" by fastforce
    have eqs: "p' = p2" "es = es1 @ es2" using Cons.prems p1 p2 by auto
    note step = push_flat [OF Cons.prems(1) p1]
    from Cons.IH [OF step(1) p2]
    have later: "stream_ok c p2" "flat_drain c (unbuffered p1) (queue_bytes (bytes p1) @ concat cs)
      = (rebase emptyQueue es2 p2, queue_bytes (bytes p2))" by blast+
    have "flat_drain c (unbuffered p) (queue_bytes (bytes p) @ concat (chunk # cs))
      = flat_drain c (rebase emptyQueue es1 p1) (queue_bytes (bytes p1) @ concat cs)"
      using flat_drain_append [of c "unbuffered p" "queue_bytes (bytes p) @ chunk" "concat cs"] step(2)
      by simp
    also have "rebase emptyQueue es1 p1 = rebase emptyQueue es1 (unbuffered p1)"
      by (simp add: rebase_def unbuffered_def)
    also have "flat_drain c \<dots> (queue_bytes (bytes p1) @ concat cs)
      = (rebase emptyQueue es1 (rebase emptyQueue es2 p2), queue_bytes (bytes p2))"
      by (simp add: flat_drain_rebase later(2))
    finally show ?case using later(1) eqs by (simp add: rebase_def)
  qed
  then show "stream_ok c p'" "flat_drain c (unbuffered p) (queue_bytes (bytes p) @ concat cs)
      = (rebase emptyQueue es p', queue_bytes (bytes p'))" by blast+
qed

section \<open>The end of a stream\<close>

lemma rebase_close: "close_stream c (rebase q es p) = rebase_outcome q es (close_stream c p)"
  unfolding close_stream_def rebase_recover Let_def
  by (intro rebase_proceed) (simp split: prod.splits)

text \<open>What \<open>finish\<close> does to a drained stream with \<open>n\<close> bytes left over.\<close>

definition flat_finish :: "kiro_config \<Rightarrow> kiro_parser \<Rightarrow> nat \<Rightarrow> kiro_parser" where
  "flat_finish c p n =
     (if failed p then p
      else if n > 0 then emitFailure p (kiro_fail ''kiro_event_stream_truncated'')
      else if \<not> sawFrame p then emitFailure p (kiro_fail ''kiro_event_stream_empty'')
      else if recognizedEventCount (diagnostics p) = 0
      then emitFailure p (kiro_fail ''kiro_event_stream_unrecognized'')
      else fail_on (close_stream c p))"

lemma finish_step_flat:
  assumes ok: "stream_ok c p"
  shows "unbuffered (finish_step c p) = flat_finish c (unbuffered p) (length (queue_bytes (bytes p)))"
proof (cases "failed p")
  case True
  then show ?thesis by (simp add: finish_step_def flat_finish_def unbuffered_def)
next
  case False
  let ?d = "drainFrames c p"
  have d: "unbuffered ?d = unbuffered p" "queue_bytes (bytes ?d) = queue_bytes (bytes p)"
    "byte_queue_ok (bytes ?d)"
    using drain_refines [of p c] ok by (simp_all add: stream_ok_def)
  have fields: "failed ?d = failed (unbuffered p)" "sawFrame ?d = sawFrame (unbuffered p)"
    "diagnostics ?d = diagnostics (unbuffered p)"
    using d(1) by (simp_all add: unbuffered_rebase) (metis rebase_fields)+
  have "byteLength (bytes ?d) = length (queue_bytes (bytes p))"
    using bq.size_contents d by simp
  moreover have "unbuffered (fail_on (close_stream c ?d)) = fail_on (close_stream c (unbuffered p))"
    unfolding unbuffered_fail_on rebase_close [symmetric] using d(1) by (simp add: unbuffered_rebase)
  ultimately show ?thesis
    using False fields d(1)
    by (simp add: finish_step_def flat_finish_def Let_def unbuffered_emitFailure)
qed

lemma flat_finish_rebase:
  "flat_finish c (rebase emptyQueue es p) n = rebase emptyQueue es (flat_finish c p n)"
  by (simp add: flat_finish_def rebase_emitFailure rebase_close fail_on_rebase)

text \<open>The whole run on one byte string: drain it, then end the stream.\<close>

definition flat_run :: "kiro_config \<Rightarrow> byte list \<Rightarrow> kiro_parser" where
  "flat_run c bs = (let (p, r) = flat_drain c new_parser bs in flat_finish c p (length r))"

lemma run_stream_flat:
  assumes "run_stream c received = (p, es)"
  shows "unbuffered p = (flat_run c (concat received))\<lparr>events := [], finished := True\<rparr>"
    and "es = events (flat_run c (concat received))"
proof -
  obtain p1 es1 where f: "feed c new_parser received = (p1, es1)" by fastforce
  note flat = feed_flat [OF stream_ok_new f]
  let ?s = "finish_step c p1"
  have nf: "\<not> finished p1" using flat(1) by (simp add: stream_ok_def)
  have eqs: "p = ?s\<lparr>finished := True, events := []\<rparr>" "es = es1 @ events ?s"
    using assms f nf by (auto simp: run_stream_def finish_stream_def drainEvents_def)
  have "unbuffered new_parser = new_parser" by (simp add: unbuffered_def new_parser_def)
  then have "flat_drain c new_parser (concat received) = (rebase emptyQueue es1 p1, queue_bytes (bytes p1))"
    using flat(2) by (simp add: new_parser_def)
  moreover have "rebase emptyQueue es1 p1 = rebase emptyQueue es1 (unbuffered p1)"
    by (simp add: rebase_def unbuffered_def)
  ultimately have "flat_run c (concat received)
      = rebase emptyQueue es1 (flat_finish c (unbuffered p1) (length (queue_bytes (bytes p1))))"
    by (simp add: flat_run_def flat_finish_rebase)
  also have "\<dots> = rebase emptyQueue es1 (unbuffered ?s)"
    by (simp add: finish_step_flat [OF flat(1)])
  finally have r: "flat_run c (concat received) = rebase emptyQueue es1 (unbuffered ?s)" .
  show "unbuffered p = (flat_run c (concat received))\<lparr>events := [], finished := True\<rparr>"
    unfolding r eqs by (cases ?s) (simp add: rebase_def unbuffered_def)
  show "es = events (flat_run c (concat received))"
    unfolding r eqs by (simp add: unbuffered_def)
qed

lemma run_stream_chunks:
  assumes "concat xs = concat ys"
  shows "stream_events c xs = stream_events c ys" "stream_diagnostics c xs = stream_diagnostics c ys"
proof -
  obtain p es where x: "run_stream c xs = (p, es)" by fastforce
  obtain q fs where y: "run_stream c ys = (q, fs)" by fastforce
  show "stream_events c xs = stream_events c ys"
    using run_stream_flat(2) [OF x] run_stream_flat(2) [OF y] assms by (simp add: stream_events_def x y)
  have "unbuffered p = unbuffered q"
    using run_stream_flat(1) [OF x] run_stream_flat(1) [OF y] assms by simp
  then show "stream_diagnostics c xs = stream_diagnostics c ys"
    by (simp add: stream_diagnostics_def x y unbuffered_rebase) (metis rebase_fields(7))
qed

end
