(* ===== verification/Event_Shape.thy ===== *)
theory Event_Shape
  imports Drain_Proofs
begin

text \<open>
  Invariants of a running stream: the locale collects what an invariant has to show of the
  handlers, its lemmas carry it through frames, drained bytes and pushed chunks. The first
  invariant is the shape of the events: only progress before the end, then one of the two endings.
\<close>

section \<open>Invariants of running streams\<close>

locale parser_invariant =
  fixes c :: kiro_config and I :: "kiro_parser \<Rightarrow> bool"
  assumes diagnostics: "I (q\<lparr>diagnostics := d\<rparr>) = I q"
    and frame_seen: "I q \<Longrightarrow> I (q\<lparr>sawFrame := True\<rparr>)"
    and failure: "I q \<Longrightarrow> \<not> failed q \<Longrightarrow> I (emitFailure q e)"
    and usage: "I q \<Longrightarrow> \<not> failed q \<Longrightarrow> I (emit q [Usage u])"
    and answer: "I q \<Longrightarrow> \<not> failed q \<Longrightarrow> I (fail_on (handleAssistantResponse c q payload))"
    and reasoning: "I q \<Longrightarrow> \<not> failed q \<Longrightarrow> I (fail_on (handleReasoning c q payload))"
    and tool_use: "I q \<Longrightarrow> \<not> failed q \<Longrightarrow> I (fail_on (handleToolUse c q payload))"
begin

lemma fail_on_checked:
  "I p \<Longrightarrow> \<not> failed p \<Longrightarrow> (\<And>x. r = Inr x \<Longrightarrow> I (fail_on (f x))) \<Longrightarrow> I (fail_on (checked p r f))"
  by (cases r) (auto simp: checked_def fail_on_def failure)

lemma recognize_keeps: "I (recognize f q) = I q"
  by (simp add: recognize_def diagnostics)

lemma failed_recognize [simp]: "failed (recognize f q) = failed q"
  by (simp add: recognize_def)

lemma event_keeps:
  assumes "I p" "\<not> failed p"
  shows "I (fail_on (handleEvent c p t payload))"
  using assms
  unfolding handleEvent_def handleUsage_def handleInvalidState_def handleMessageMetadata_def Let_def
  by (auto simp: fail_on_def [of "(_, None)"] fail_on_def [of "(_, Some _)"] recognize_keeps diagnostics
      usage answer reasoning tool_use failure intro!: fail_on_checked)

lemma frame_keeps:
  assumes "I p" "\<not> failed p"
  shows "I (fail_on (handleFrame c p fr))"
  using assms unfolding handleFrame_def
  by (auto simp: fail_on_def [of "(_, None)"] fail_on_def [of "(_, Some _)"] recognize_keeps
      failure event_keeps intro!: fail_on_checked)

lemma drain_keeps: "I p \<Longrightarrow> I (fst (flat_drain c p bs))"
proof (induction bs arbitrary: p rule: measure_induct_rule [of length])
  case (less bs)
  show ?case
  proof (cases "\<not> failed p \<and> \<not> length bs < 12 \<and> (\<exists>n h parsed. readPrelude c (take 12 bs) = Inr (n, h)
      \<and> \<not> length bs < n \<and> parseFrame (take n bs) h = Inr parsed)")
    case True
    then obtain n h parsed where go: "\<not> failed p" "\<not> length bs < 12"
      "readPrelude c (take 12 bs) = Inr (n, h)" "\<not> length bs < n" "parseFrame (take n bs) h = Inr parsed"
      by auto
    have "16 \<le> n" using readPrelude_bounds [OF go(3)] by blast
    then have "length (drop n bs) < length bs" using go by simp
    moreover have "I (fail_on (handleFrame c (p\<lparr>sawFrame := True\<rparr>) parsed))"
      using frame_keeps [OF frame_seen [OF less.prems]] go(1) by simp
    ultimately have "I (fst (flat_drain c (fail_on (handleFrame c (p\<lparr>sawFrame := True\<rparr>) parsed)) (drop n bs)))"
      by (rule less.IH)
    with go show ?thesis by (simp add: flat_drain.simps [of c p bs])
  next
    case False
    with less.prems failure show ?thesis
      by (auto simp: flat_drain.simps [of c p bs] split: sum.splits)
  qed
qed

text \<open>After any pushes the state, with all events emitted so far, satisfies the invariant.\<close>

lemma feed_keeps:
  assumes "I new_parser" "feed c new_parser received = (p, es)"
  shows "I (rebase emptyQueue es p)"
proof -
  have "unbuffered new_parser = new_parser" "queue_bytes (bytes new_parser) = []"
    by (simp_all add: unbuffered_def new_parser_def)
  with feed_flat(2) [OF stream_ok_new assms(2)]
  have "rebase emptyQueue es p = fst (flat_drain c new_parser (concat received))" by simp
  with drain_keeps [OF assms(1)] show ?thesis by simp
qed

end

section \<open>Events before and at the end\<close>

fun progress :: "canonical_event \<Rightarrow> bool" where
  "progress (Stop r s) = False"
| "progress (Error_Event m c t) = False"
| "progress Done = False"
| "progress e = True"

definition failure_ending :: "canonical_event list \<Rightarrow> bool" where
  "failure_ending es \<longleftrightarrow>
     (\<exists>m code t. es = [Error_Event m (Some code) t, Stop Stop_Error (Some code), Done])"

definition regular_ending :: "canonical_event list \<Rightarrow> bool" where
  "regular_ending es \<longleftrightarrow>
     es = [Stop Stop_Tool_Calls (Some (utf16 ''tool_use'')), Done]
     \<or> es = [Stop Stop_Normal (Some (utf16 ''end_turn'')), Done]"

definition event_shape :: "kiro_parser \<Rightarrow> bool" where
  "event_shape p \<longleftrightarrow>
     (if failed p then \<exists>pre es. events p = pre @ es \<and> list_all progress pre \<and> failure_ending es
      else list_all progress (events p))"

text \<open>A handler only appends progress and leaves the verdict to \<^const>\<open>fail_on\<close>.\<close>

definition advances :: "kiro_parser \<Rightarrow> kiro_parser \<Rightarrow> bool" where
  "advances p q \<longleftrightarrow> failed q = failed p \<and> (\<exists>es. events q = events p @ es \<and> list_all progress es)"

lemma advances_refl [simp]: "advances p p"
  by (simp add: advances_def)

lemma advances_trans: "advances p q \<Longrightarrow> advances q r \<Longrightarrow> advances p r"
  by (auto simp: advances_def)

lemma advances_emit: "advances p q \<Longrightarrow> list_all progress es \<Longrightarrow> advances p (emit q es)"
  by (auto simp: advances_def)

lemma advances_updates [simp]:
  "advances p (q\<lparr>tools := a\<rparr>) = advances p q" "advances p (q\<lparr>completedTools := b\<rparr>) = advances p q"
  "advances p (q\<lparr>completedToolIds := d\<rparr>) = advances p q"
  "advances p (q\<lparr>thinkingTagFilter := e\<rparr>) = advances p q"
  "advances p (q\<lparr>diagnostics := g\<rparr>) = advances p q"
  "advances p (q\<lparr>lastAssistantContent := h\<rparr>) = advances p q"
  "advances p (q\<lparr>lastReasoningContent := i\<rparr>) = advances p q"
  "advances p (q\<lparr>nextToolIndex := j\<rparr>) = advances p q"
  "advances p (q\<lparr>nextToolIndexToEmit := k\<rparr>) = advances p q"
  "advances p (q\<lparr>totalToolInputBytes := l\<rparr>) = advances p q"
  "advances p (q\<lparr>sawCompletedTool := m\<rparr>) = advances p q"
  by (simp_all add: advances_def)

lemmas adv_checked = checked_inv [where Q = "advances q" for q]

lemma progress_filtered [simp]: "list_all progress (filtered_events v a)"
  by (simp add: filtered_events_def)

interpretation adv: tool_frame "advances q" for q
  by unfold_locales (simp_all add: advances_emit)

lemma advances_answer: "advances q p \<Longrightarrow> advances q (fst (handleAssistantResponse c p payload))"
  unfolding handleAssistantResponse_def Let_def
  by (intro adv_checked) (simp_all add: advances_emit split: prod.splits)

lemma advances_reasoning: "advances q p \<Longrightarrow> advances q (fst (handleReasoning c p payload))"
  unfolding handleReasoning_def Let_def by (simp add: adv_checked advances_emit)

lemma shape_advances: "event_shape p \<Longrightarrow> \<not> failed p \<Longrightarrow> advances p q \<Longrightarrow> event_shape q"
  by (auto simp: event_shape_def advances_def)

lemma shape_failure: "event_shape p \<Longrightarrow> \<not> failed p \<Longrightarrow> event_shape (emitFailure p e)"
  unfolding event_shape_def emitFailure_def emit_def failure_ending_def
  by simp (rule exI [of _ "events p"], simp)

lemma shape_fail_on:
  "event_shape p \<Longrightarrow> \<not> failed p \<Longrightarrow> advances p (fst r) \<Longrightarrow> event_shape (fail_on r)"
  by (cases r) (auto simp: fail_on_def advances_def shape_advances
      intro!: shape_failure shape_advances [of p] split: option.splits)

interpretation shape: parser_invariant c event_shape for c
proof unfold_locales
  fix q d e u payload
  show "event_shape (q\<lparr>diagnostics := d\<rparr>) = event_shape q" by (simp add: event_shape_def)
  assume q: "event_shape q"
  then show "event_shape (q\<lparr>sawFrame := True\<rparr>)" by (simp add: event_shape_def)
  assume nf: "\<not> failed q"
  show "event_shape (emitFailure q e)" by (rule shape_failure [OF q nf])
  show "event_shape (emit q [Usage u])"
    using q nf by (simp add: event_shape_def)
  show "event_shape (fail_on (handleAssistantResponse c q payload))"
    "event_shape (fail_on (handleReasoning c q payload))"
    "event_shape (fail_on (handleToolUse c q payload))"
    using q nf by (auto intro!: shape_fail_on [of q] advances_answer advances_reasoning adv.tool_use_keeps)
qed

lemma shape_new [simp]: "event_shape new_parser"
  by (simp add: event_shape_def new_parser_def)

text \<open>A finished stream ends once, regularly or with a failure.\<close>

definition well_ended :: "canonical_event list \<Rightarrow> bool" where
  "well_ended es \<longleftrightarrow>
     (\<exists>pre fin. es = pre @ fin \<and> list_all progress pre \<and> (failure_ending fin \<or> regular_ending fin))"

lemma close_stream_ended:
  assumes "event_shape p" "\<not> failed p"
  shows "well_ended (events (fail_on (close_stream c p)))"
proof -
  obtain q e where r: "recoverOrRejectUnfinishedTools c p = (q, e)" by fastforce
  have adv: "advances p q" using adv.recover_keeps [of p p c] r by simp
  have shape: "event_shape q" "\<not> failed q"
    using shape_advances [OF assms adv] adv assms by (auto simp: advances_def)
  show ?thesis
  proof (cases e)
    case (Some f)
    then have "fail_on (close_stream c p) = emitFailure q f"
      by (simp add: close_stream_def r proceed_def fail_on_def)
    with shape_failure [OF shape, of f] show ?thesis
      by (auto simp: event_shape_def well_ended_def)
  next
    case None
    let ?q = "emitReadyTools q"
    obtain f v a where f: "filter_finish (thinkingTagFilter ?q) = (f, v, a)" by (metis prod_cases3)
    have "advances q ?q" by (rule adv.ready_keeps) simp
    with shape have "list_all progress (events ?q)"
      by (auto simp: event_shape_def advances_def)
    moreover have "events (fail_on (close_stream c p)) = (events ?q @ filtered_events v a)
      @ [if sawCompletedTool ?q then Stop Stop_Tool_Calls (Some (utf16 ''tool_use''))
            else Stop Stop_Normal (Some (utf16 ''end_turn'')), Done]"
      by (simp add: close_stream_def r None proceed_def fail_on_def Let_def f)
    ultimately show ?thesis
      unfolding well_ended_def
    proof (intro exI conjI)
      show "events (fail_on (close_stream c p)) = (events ?q @ filtered_events v a)
      @ [if sawCompletedTool ?q then Stop Stop_Tool_Calls (Some (utf16 ''tool_use''))
            else Stop Stop_Normal (Some (utf16 ''end_turn'')), Done]" by fact
    qed (simp_all add: \<open>list_all progress (events ?q)\<close> regular_ending_def)
  qed
qed

lemma flat_finish_ended:
  assumes "event_shape p"
  shows "well_ended (events (flat_finish c p n))"
proof (cases "failed p")
  case True
  with assms show ?thesis by (auto simp: flat_finish_def event_shape_def well_ended_def)
next
  case False
  have "well_ended (events (emitFailure p e))" for e
    using shape_failure [OF assms False, of e] by (auto simp: event_shape_def well_ended_def)
  with False close_stream_ended [OF assms False] show ?thesis by (simp add: flat_finish_def)
qed

lemma stream_events_flat: "stream_events c received = events (flat_run c (concat received))"
  using run_stream_flat(2) [of c received] by (cases "run_stream c received") (simp add: stream_events_def)

lemma stream_well_ended: "well_ended (stream_events c received)"
  unfolding stream_events_flat flat_run_def
  using flat_finish_ended [OF shape.drain_keeps [OF shape_new]]
  by (simp add: case_prod_beta Let_def)

end
