(* ===== verification/Call_Proofs.thy ===== *)
theory Call_Proofs
  imports Event_Shape
begin

text \<open>
  The tool calls of a stream: they leave in the order of their indices, each one whole, with
  different ids, under declared names and with arguments that satisfy the declared schema.
\<close>

section \<open>What an emitted call looks like\<close>

fun is_tool_event :: "canonical_event \<Rightarrow> bool" where
  "is_tool_event (Tool_Call_Delta i j n a t u) = True"
| "is_tool_event (Tool_Call_Complete i) = True"
| "is_tool_event e = False"

definition call_events :: "completed_tool \<Rightarrow> canonical_event list" where
  "call_events t =
     [Tool_Call_Delta (c_index t) (Some (c_id t)) (Some (c_name t)) (Some (c_arguments t)) None None,
      Tool_Call_Complete (c_index t)]"

definition valid_call :: "kiro_config \<Rightarrow> completed_tool \<Rightarrow> bool" where
  "valid_call c t \<longleftrightarrow>
     c_id t \<noteq> [] \<and> c_name t \<noteq> [] \<and> c_name t \<in> set (declaredToolNames c)
     \<and> (\<exists>ps. c_arguments t = json_stringify (JObj ps)
          \<and> (case map_get (declaredToolSchemas c) (c_name t) of
               None \<Rightarrow> True
             | Some schema \<Rightarrow> validateSchemaValue (regexp c) (JObj ps) schema (utf16 ''$'') 0 = None))"

lemma prepared_call_valid:
  assumes "prepareCompletedTool c st b = Inr t" "t_id st \<noteq> []"
  shows "valid_call c t \<and> c_index t = t_index st \<and> c_id t = t_id st"
proof -
  obtain name where name: "t_name st = Some name" using assms
    by (auto simp: prepareCompletedTool_def split: option.splits)
  with assms obtain ps where ps: "name \<noteq> []" "name \<in> set (declaredToolNames c)"
    "\<not> (case map_get (declaredToolSchemas c) name of None \<Rightarrow> False
        | Some schema \<Rightarrow> validateSchemaValue (regexp c) (JObj ps) schema (utf16 ''$'') 0 \<noteq> None)"
    "t = \<lparr>c_index = t_index st, c_id = t_id st, c_name = name, c_arguments = json_stringify (JObj ps)\<rparr>"
    by (auto simp: prepareCompletedTool_def Let_def and_then_Inr split: if_splits)
  then show ?thesis using assms(2)
    by (auto simp: valid_call_def split: option.splits)
qed

section \<open>The invariant\<close>

text \<open>The entry at \<open>k\<close> is the only one with its value of \<open>f\<close>.\<close>

definition alone :: "('k, 'v) js_map \<Rightarrow> ('v \<Rightarrow> 'a) \<Rightarrow> 'k \<Rightarrow> 'v \<Rightarrow> bool" where
  "alone m f k x \<longleftrightarrow> (\<forall>j u. map_get m j = Some u \<and> f u = f x \<longrightarrow> j = k)"

lemma aloneI: "(\<And>j u. map_get m j = Some u \<Longrightarrow> f u = f x \<Longrightarrow> j = k) \<Longrightarrow> alone m f k x"
  by (auto simp: alone_def)

lemma aloneD: "alone m f k x \<Longrightarrow> map_get m j = Some u \<Longrightarrow> f u = f x \<Longrightarrow> j = k"
  by (auto simp: alone_def)

lemma alone_delete: "alone m f k x \<Longrightarrow> alone (map_delete m i) f k x"
  by (auto simp: alone_def)

lemma alone_set: "alone m f k x \<Longrightarrow> f y \<noteq> f x \<or> i = k \<Longrightarrow> alone (map_set m i y) f k x"
  by (auto simp: alone_def)

lemma alone_new: "(\<And>j u. map_get m j = Some u \<Longrightarrow> f u \<noteq> f x) \<Longrightarrow> alone (map_set m k x) f k x"
  by (auto simp: alone_def split: if_splits)

text \<open>Some unfinished tool has index \<open>i\<close>.\<close>

definition holds_index :: "(js_text, tool_state) js_map \<Rightarrow> nat \<Rightarrow> bool" where
  "holds_index m i \<longleftrightarrow> (\<exists>k st. map_get m k = Some st \<and> t_index st = i)"

lemma holds_indexI: "map_get m k = Some st \<Longrightarrow> holds_index m (t_index st)"
  by (auto simp: holds_index_def)

lemma holds_indexE:
  assumes "holds_index m i"
  obtains k st where "map_get m k = Some st" "t_index st = i"
  using assms by (auto simp: holds_index_def)

lemma index_delete:
  assumes "map_get m k = Some st" "alone m t_index k st"
  shows "holds_index (map_delete m k) i \<longleftrightarrow> holds_index m i \<and> i \<noteq> t_index st"
proof
  assume "holds_index (map_delete m k) i"
  then obtain j u where "map_get (map_delete m k) j = Some u" "t_index u = i" by (rule holds_indexE)
  then have "map_get m j = Some u" "j \<noteq> k" "t_index u = i" by (auto split: if_splits)
  with aloneD [OF assms(2), of j u] show "holds_index m i \<and> i \<noteq> t_index st"
    by (auto intro: holds_indexI)
next
  assume i: "holds_index m i \<and> i \<noteq> t_index st"
  then obtain j u where u: "map_get m j = Some u" "t_index u = i" by (auto elim: holds_indexE)
  with i assms(1) have "j \<noteq> k" by auto
  with u show "holds_index (map_delete m k) i"
    using holds_indexI [of "map_delete m k" j u] by simp
qed

lemma index_set:
  assumes "map_get m k = None \<or> (\<exists>st0. map_get m k = Some st0 \<and> t_index st0 = t_index st)"
  shows "holds_index (map_set m k st) i \<longleftrightarrow> holds_index m i \<or> i = t_index st"
proof
  assume "holds_index (map_set m k st) i"
  then obtain j u where "map_get (map_set m k st) j = Some u" "t_index u = i" by (rule holds_indexE)
  then show "holds_index m i \<or> i = t_index st"
    by (cases "j = k") (auto intro: holds_indexI)
next
  assume i: "holds_index m i \<or> i = t_index st"
  show "holds_index (map_set m k st) i"
  proof (cases "i = t_index st")
    case True
    then show ?thesis using holds_indexI [of "map_set m k st" k st] by simp
  next
    case False
    with i obtain j u where u: "map_get m j = Some u" "t_index u = i" by (auto elim: holds_indexE)
    with assms False have "j \<noteq> k" by auto
    with u show ?thesis using holds_indexI [of "map_set m k st" j u] by simp
  qed
qed

text \<open>\<open>ts\<close> are the calls emitted so far.\<close>

definition calls_inv :: "kiro_config \<Rightarrow> kiro_parser \<Rightarrow> completed_tool list \<Rightarrow> bool" where
  "calls_inv c p ts \<longleftrightarrow>
     filter is_tool_event (events p) = concat (map call_events ts)
     \<and> map c_index ts = [0..<nextToolIndexToEmit p]
     \<and> (\<forall>t\<in>set ts. valid_call c t \<and> c_id t \<in> set (completedToolIds p))
     \<and> distinct (map c_id ts)
     \<and> (\<forall>i t. map_get (completedTools p) i = Some t \<longrightarrow>
          c_index t = i \<and> valid_call c t \<and> nextToolIndexToEmit p \<le> i
          \<and> c_id t \<in> set (completedToolIds p) \<and> c_id t \<notin> c_id ` set ts
          \<and> alone (completedTools p) c_id i t)
     \<and> (\<forall>k st. map_get (tools p) k = Some st \<longrightarrow>
          t_id st = k \<and> k \<noteq> [] \<and> k \<notin> set (completedToolIds p) \<and> nextToolIndexToEmit p \<le> t_index st
          \<and> map_get (completedTools p) (t_index st) = None
          \<and> alone (tools p) t_index k st)
     \<and> (\<forall>i. i < nextToolIndex p \<longleftrightarrow>
          i < nextToolIndexToEmit p \<or> map_get (completedTools p) i \<noteq> None
          \<or> holds_index (tools p) i)
     \<and> (sawCompletedTool p \<longleftrightarrow> ts \<noteq> [] \<or> (\<exists>i. map_get (completedTools p) i \<noteq> None))
     \<and> map_wf (tools p)"

lemma pendingD:
  assumes "calls_inv c p ts" "map_get (completedTools p) i = Some t"
  shows "c_index t = i" "valid_call c t" "nextToolIndexToEmit p \<le> i" "c_id t \<in> set (completedToolIds p)"
    "c_id t \<notin> c_id ` set ts" "alone (completedTools p) c_id i t"
  using assms unfolding calls_inv_def by blast+

lemma openD:
  assumes "calls_inv c p ts" "map_get (tools p) k = Some st"
  shows "t_id st = k" "k \<notin> set (completedToolIds p)" "nextToolIndexToEmit p \<le> t_index st"
    "map_get (completedTools p) (t_index st) = None"
    "alone (tools p) t_index k st" "t_index st < nextToolIndex p" "k \<noteq> []"
  using assms holds_indexI [OF assms(2)] unfolding calls_inv_def by blast+

lemma emittedD:
  assumes "calls_inv c p ts"
  shows "filter is_tool_event (events p) = concat (map call_events ts)"
    "map c_index ts = [0..<nextToolIndexToEmit p]" "distinct (map c_id ts)"
    "t \<in> set ts \<Longrightarrow> valid_call c t" "t \<in> set ts \<Longrightarrow> c_id t \<in> set (completedToolIds p)"
    "sawCompletedTool p \<longleftrightarrow> ts \<noteq> [] \<or> (\<exists>i. map_get (completedTools p) i \<noteq> None)"
  using assms unfolding calls_inv_def by blast+

lemma indexD:
  assumes "calls_inv c p ts"
  shows "i < nextToolIndex p \<longleftrightarrow>
    i < nextToolIndexToEmit p \<or> map_get (completedTools p) i \<noteq> None
    \<or> holds_index (tools p) i"
  using assms unfolding calls_inv_def by blast

definition drained :: "kiro_parser \<Rightarrow> bool" where
  "drained p \<longleftrightarrow> map_get (completedTools p) (nextToolIndexToEmit p) = None"

definition calls_ok :: "kiro_config \<Rightarrow> kiro_parser \<Rightarrow> bool" where
  "calls_ok c p \<longleftrightarrow> drained p \<and> (\<exists>ts. calls_inv c p ts)"

definition tool_view ::
    "kiro_parser \<Rightarrow> (js_text, tool_state) js_map \<times> (nat, completed_tool) js_map \<times> js_text list
     \<times> nat \<times> nat \<times> bool \<times> canonical_event list" where
  "tool_view p = (tools p, completedTools p, completedToolIds p, nextToolIndex p, nextToolIndexToEmit p,
     sawCompletedTool p, filter is_tool_event (events p))"

lemma calls_ok_view: "tool_view p = tool_view q \<Longrightarrow> calls_ok c p \<Longrightarrow> calls_ok c q"
  by (simp add: tool_view_def calls_ok_def calls_inv_def drained_def)

lemma tool_view_emit: "\<forall>e\<in>set es. \<not> is_tool_event e \<Longrightarrow> tool_view (emit p es) = tool_view p"
  by (simp add: tool_view_def filter_empty_conv)

lemma tool_view_updates [simp]:
  "tool_view (p\<lparr>thinkingTagFilter := a\<rparr>) = tool_view p" "tool_view (p\<lparr>diagnostics := b\<rparr>) = tool_view p"
  "tool_view (p\<lparr>lastAssistantContent := s\<rparr>) = tool_view p"
  "tool_view (p\<lparr>lastReasoningContent := s\<rparr>) = tool_view p"
  "tool_view (p\<lparr>totalToolInputBytes := n\<rparr>) = tool_view p" "tool_view (p\<lparr>sawFrame := d\<rparr>) = tool_view p"
  "tool_view (p\<lparr>failed := e\<rparr>) = tool_view p" "tool_view (p\<lparr>bytes := q\<rparr>) = tool_view p"
  by (simp_all add: tool_view_def)

lemma filtered_no_tool: "\<forall>e\<in>set (filtered_events v a). \<not> is_tool_event e"
  by (auto simp: filtered_events_def)

lemma tool_view_failure: "tool_view (emitFailure p e) = tool_view p"
  by (simp add: emitFailure_def tool_view_emit)

lemma tool_view_fail_on: "tool_view (fail_on r) = tool_view (fst r)"
  by (cases r) (auto simp: fail_on_def tool_view_failure split: option.splits)

lemma tool_view_answer: "tool_view (fst (handleAssistantResponse c p payload)) = tool_view p"
  unfolding handleAssistantResponse_def Let_def
  by (rule checked_inv [where Q = "\<lambda>q. tool_view q = tool_view p"],
      simp, rule checked_inv [where Q = "\<lambda>q. tool_view q = tool_view p"])
    (simp_all add: tool_view_emit filtered_no_tool split: prod.splits)

lemma tool_view_reasoning: "tool_view (fst (handleReasoning c p payload)) = tool_view p"
  unfolding handleReasoning_def Let_def
  by (auto simp: tool_view_emit intro!: checked_inv [where Q = "\<lambda>q. tool_view q = tool_view p"])

section \<open>Emission in order\<close>

lemma calls_inv_emit_one:
  assumes inv: "calls_inv c p ts"
    and tool: "map_get (completedTools p) (nextToolIndexToEmit p) = Some t"
  shows "calls_inv c
    (emit (p\<lparr>completedTools := map_delete (completedTools p) (c_index t),
             nextToolIndexToEmit := nextToolIndexToEmit p + 1\<rparr>) (call_events t)) (ts @ [t])"
proof -
  let ?n = "nextToolIndexToEmit p"
  note t = pendingD [OF inv tool]
  have ev: "filter is_tool_event (call_events t) = call_events t"
    by (simp add: call_events_def)
  have later: "nextToolIndexToEmit p + 1 \<le> i" if "map_get (completedTools p) i = Some u" "i \<noteq> ?n" for i u
    using pendingD(3) [OF inv that(1)] that(2) by simp
  have open_tool: "nextToolIndexToEmit p + 1 \<le> t_index st" if "map_get (tools p) k = Some st" for k st
  proof -
    have "t_index st \<noteq> ?n" using openD(4) [OF inv that] tool by auto
    with openD(3) [OF inv that] show ?thesis by simp
  qed
  show ?thesis
    unfolding calls_inv_def
  proof (intro conjI, goal_cases)
    case 1
    show ?case using inv by (simp add: calls_inv_def ev)
  next
    case 2
    show ?case using inv t by (simp add: calls_inv_def)
  next
    case 3
    show ?case using inv t by (auto simp: calls_inv_def)
  next
    case 4
    show ?case using inv t by (simp add: calls_inv_def)
  next
    case 5
    show ?case
    proof (intro allI impI, goal_cases)
      case (1 i u)
      then have u: "map_get (completedTools p) i = Some u" "i \<noteq> ?n"
        using t(1) by (simp_all split: if_splits)
      have "c_id u \<noteq> c_id t" using aloneD [OF pendingD(6) [OF inv tool] u(1)] u(2) by metis
      then have "c_id u \<notin> c_id ` set (ts @ [t])" using pendingD(5) [OF inv u(1)] by simp
      then show ?case
        using pendingD(1,2,4) [OF inv u(1)] alone_delete [OF pendingD(6) [OF inv u(1)]] later [OF u] by simp
    qed
  next
    case 6
    show ?case
      using inv open_tool unfolding calls_inv_def by simp
  next
    case 7
    show ?case
      using indexD [OF inv] t(1) tool by (auto simp: less_Suc_eq)
  next
    case 8
    show ?case using emittedD(6) [OF inv] tool by auto
  next
    case 9
    show ?case using inv by (simp add: calls_inv_def)
  qed
qed

lemma calls_inv_ready:
  "calls_inv c p ts \<Longrightarrow> calls_ok c (emitReadyTools p)"
proof (induction p arbitrary: ts rule: emitReadyTools.induct)
  case (1 p)
  show ?case
  proof (cases "map_get (completedTools p) (nextToolIndexToEmit p)")
    case None
    with 1 show ?thesis
      by (subst emitReadyTools.simps) (auto simp: calls_ok_def drained_def)
  next
    case (Some t)
    from 1(1) [OF Some calls_inv_emit_one [OF 1(2) Some, unfolded call_events_def]] Some show ?thesis
      by (subst emitReadyTools.simps) simp
  qed
qed

section \<open>Tool events\<close>

lemma calls_ok_commit:
  assumes ok: "calls_ok c p" and st: "map_get (tools p) (t_id st) = Some st0" "t_index st0 = t_index st"
    and call: "valid_call c x" "c_index x = t_index st" "c_id x = t_id st"
  shows "calls_ok c (fst (commitCompletedTool c p st x b))"
proof -
  obtain ts where inv: "calls_inv c p ts" using ok by (auto simp: calls_ok_def)
  note new = openD(2-5) [OF inv st(1), unfolded st(2)]
  have fresh: "t_id st \<notin> c_id ` set ts" "\<And>i t. map_get (completedTools p) i = Some t \<Longrightarrow> c_id t \<noteq> t_id st"
  proof -
    show "t_id st \<notin> c_id ` set ts" using emittedD(5) [OF inv] new(1) by auto
    show "c_id t \<noteq> t_id st" if "map_get (completedTools p) i = Some t" for i t
      using pendingD(4) [OF inv that] new(1) by metis
  qed
  let ?q = "\<lambda>d. p\<lparr>tools := map_delete (tools p) (t_id st),
              completedToolIds := List.insert (t_id st) (completedToolIds p),
              completedTools := map_set (completedTools p) (t_index st) x,
              sawCompletedTool := True, diagnostics := d\<rparr>"
  have "calls_inv c (?q d) ts" for d
    unfolding calls_inv_def
  proof (intro conjI, goal_cases)
    case 5
    show ?case
    proof (intro allI impI, goal_cases)
      case (1 i u)
      show ?case
      proof (cases "i = t_index st")
        case True
        with 1 have "u = x" by simp
        moreover have "alone (map_set (completedTools p) (t_index st) x) c_id (t_index st) x"
          by (rule alone_new) (use fresh(2) call(3) in auto)
        ultimately show ?thesis
          using True call new(2) fresh(1) by simp
      next
        case False
        with 1 have u: "map_get (completedTools p) i = Some u" by simp
        have "alone (map_set (completedTools p) (t_index st) x) c_id i u"
          by (rule alone_set [OF pendingD(6) [OF inv u]]) (use fresh(2) [OF u] call(3) in auto)
        then show ?thesis
          using pendingD(1-5) [OF inv u] by simp
      qed
    qed
  next
    case 6
    show ?case
    proof (intro allI impI, goal_cases)
      case (1 k u)
      then have u: "map_get (tools p) k = Some u" "k \<noteq> t_id st" by (simp_all split: if_splits)
      have "t_index u \<noteq> t_index st" using aloneD [OF new(4) u(1)] u(2) st(2) by metis
      then show ?case
        using openD(1-4,7) [OF inv u(1)] alone_delete [OF openD(5) [OF inv u(1)]] u(2) by simp
    qed
  next
    case 7
    have "holds_index (tools p) (t_index st)" using holds_indexI [OF st(1)] st(2) by simp
    then show ?case
      using indexD [OF inv] index_delete [OF st(1)] new st(2) by (auto simp: less_Suc_eq)
  qed (use inv in \<open>auto simp: calls_inv_def\<close>)
  from calls_inv_ready [OF this] ok show ?thesis
    by (auto simp: commitCompletedTool_def Let_def)
qed

lemma calls_ok_put:
  assumes "calls_ok c p" "map_get (tools p) (t_id st) = Some st0" "t_index st0 = t_index st"
  shows "calls_ok c (put_tool p st)"
proof -
  obtain ts where inv: "calls_inv c p ts" using assms by (auto simp: calls_ok_def)
  have "calls_inv c (put_tool p st) ts"
    unfolding calls_inv_def put_tool_def
  proof (intro conjI, goal_cases)
    case 6
    show ?case
    proof (intro allI impI, goal_cases)
      case (1 k u)
      obtain u0 where u0: "map_get (tools p) k = Some u0" "t_index u0 = t_index u" "t_id u = k"
      proof (cases "k = t_id st")
        case True
        with 1 have "u = st" by simp
        with True show thesis using assms(2,3) by (intro that [of st0]) simp_all
      next
        case False
        with 1 have u: "map_get (tools p) k = Some u" by simp
        from openD(1) [OF inv u] show thesis by (intro that [OF u]) simp_all
      qed
      have "alone (map_set (tools p) (t_id st) st) t_index k u"
      proof (rule aloneI)
        fix j v
        assume v: "map_get (map_set (tools p) (t_id st) st) j = Some v" "t_index v = t_index u"
        obtain v0 where "map_get (tools p) j = Some v0" "t_index v0 = t_index v"
          using v(1) assms(2,3) by (cases "j = t_id st") simp_all
        with aloneD [OF openD(5) [OF inv u0(1)]] u0(2) v(2) show "j = k" by simp
      qed
      then show ?case
        using openD(2-4,7) [OF inv u0(1)] u0(2,3) by simp
    qed
  next
    case 7
    have "holds_index (tools p) (t_index st)" using holds_indexI [OF assms(2)] assms(3) by simp
    then show ?case
      using indexD [OF inv] assms(2,3) by (auto simp: index_set)
  qed (use inv in \<open>auto simp: calls_inv_def\<close>)
  with assms(1) show ?thesis by (auto simp: calls_ok_def drained_def put_tool_def)
qed

lemma calls_ok_claim:
  assumes ok: "calls_ok c p" and fresh: "i \<notin> set (completedToolIds p)" "i \<noteq> []"
    and claim: "claimTool c p i = Inr (st, q)"
  shows "calls_ok c q \<and> map_get (tools q) (t_id st) = Some st \<and> completedToolIds q = completedToolIds p"
proof (cases "map_get (tools p) i")
  case (Some st')
  then have "st = st'" "q = p" using claim by (simp_all add: claimTool_def)
  with ok Some show ?thesis unfolding calls_ok_def calls_inv_def by auto
next
  case None
  then have eqs: "st = \<lparr>t_index = nextToolIndex p, t_id = i, t_name = None, inputParts = [],
                         inputCharacters = 0, inputMode = None\<rparr>"
    "q = p\<lparr>nextToolIndex := nextToolIndex p + 1, tools := map_set (tools p) i st\<rparr>"
    using claim by (auto simp: claimTool_def Let_def split: if_splits)
  obtain ts where inv: "calls_inv c p ts" using ok by (auto simp: calls_ok_def)
  have above: "nextToolIndexToEmit p \<le> nextToolIndex p" "map_get (completedTools p) (nextToolIndex p) = None"
    using indexD [OF inv, of "nextToolIndex p"] by auto
  have others: "t_index u \<noteq> nextToolIndex p" if "map_get (tools p) k = Some u" for k u
    using openD(6) [OF inv that] by simp
  have "calls_inv c q ts"
    unfolding calls_inv_def
  proof (intro conjI, goal_cases)
    case 6
    show ?case
    proof (intro allI impI, goal_cases)
      case (1 k u)
      show ?case
      proof (cases "k = i")
        case True
        with 1 have "u = st" by (simp add: eqs(2))
        moreover have "alone (tools q) t_index i st"
          unfolding eqs(2) using others by (simp add: eqs(1) alone_new)
        ultimately show ?thesis
          using True fresh above by (simp add: eqs(1)) (simp add: eqs(2))
      next
        case False
        with 1 have u: "map_get (tools p) k = Some u" by (simp add: eqs(2))
        note u' = openD [OF inv u]
        have "alone (tools q) t_index k u"
          unfolding eqs(2) using others [OF u] by (simp add: alone_set [OF u'(5)] eqs(1))
        with u'(1-4,6,7) show ?thesis by (simp add: eqs(2))
      qed
    qed
  next
    case 7
    show ?case
      using indexD [OF inv] above(1) None by (auto simp: eqs index_set less_Suc_eq)
  qed (use inv in \<open>auto simp: calls_inv_def eqs\<close>)
  with ok show ?thesis by (auto simp: calls_ok_def drained_def eqs)
qed

lemma nameTool_keeps: "nameTool st v = Inr st' \<Longrightarrow> t_index st' = t_index st \<and> t_id st' = t_id st"
  by (auto simp: nameTool_def and_then_Inr split: option.splits if_splits)

lemma append_keeps:
  "appendToolInput c n st v = (st', n', e) \<Longrightarrow> t_index st' = t_index st \<and> t_id st' = t_id st"
  by (auto simp: appendToolInput_def Let_def split: sum.splits prod.splits if_splits)

lemma calls_ok_complete:
  assumes "calls_ok c p" "map_get (tools p) (t_id st) = Some st0" "t_index st0 = t_index st"
  shows "calls_ok c (fst (completeTool c p st b))"
  unfolding completeTool_def
proof (rule checked_inv [where Q = "calls_ok c"])
  fix x assume "prepareCompletedTool c st b = Inr x"
  moreover have "t_id st \<noteq> []" using assms(1) openD(7) [OF _ assms(2)] by (auto simp: calls_ok_def)
  ultimately have "valid_call c x \<and> c_index x = t_index st \<and> c_id x = t_id st" by (rule prepared_call_valid)
  then show "calls_ok c (fst (commitCompletedTool c p st x b))"
    by (intro calls_ok_commit [OF assms]) simp_all
qed (rule assms(1))

lemma calls_ok_stop:
  assumes "calls_ok c p" "map_get (tools p) (t_id st) = Some st0" "t_index st0 = t_index st"
  shows "calls_ok c (fst (stopTool c p st v))"
  using assms(1) calls_ok_complete [OF assms] unfolding stopTool_def
  by (auto split: option.splits json.splits)

lemma calls_ok_extend:
  assumes ok: "calls_ok c p" and st: "map_get (tools p) (t_id st) = Some st0" "t_index st0 = t_index st"
  shows "calls_ok c (fst (extendTool c p payload st))"
proof -
  obtain st' used e where app: "(case obj_get payload ''input'' of None \<Rightarrow> (st, totalToolInputBytes p, None)
      | Some v \<Rightarrow> appendToolInput c (totalToolInputBytes p) st v) = (st', used, e)"
    by (metis prod_cases3)
  have keeps: "t_index st' = t_index st" "t_id st' = t_id st"
    using app append_keeps by (auto split: option.splits)
  let ?p = "(put_tool p st')\<lparr>totalToolInputBytes := used\<rparr>"
  have "calls_ok c (put_tool p st')"
    by (rule calls_ok_put [OF ok, of _ st0]) (use st keeps in simp_all)
  then have "calls_ok c ?p"
    by (rule calls_ok_view [rotated]) simp
  moreover have "map_get (tools ?p) (t_id st') = Some st'" by (simp add: put_tool_def)
  ultimately show ?thesis
    by (simp add: extendTool_def app Let_def calls_ok_stop split: option.splits)
qed

lemma calls_ok_tool_use: "calls_ok c p \<Longrightarrow> calls_ok c (fst (handleToolUse c p payload))"
  unfolding handleToolUse_def
proof (rule checked_inv [where Q = "calls_ok c"], assumption)
  fix i
  assume ok: "calls_ok c p" and "requiredString (obj_get payload ''toolUseId'') = Inr i"
  then have nonempty: "i \<noteq> []"
    by (auto simp: requiredString_def split: option.splits json.splits if_splits)
  show "calls_ok c (fst (if i \<in> set (completedToolIds p) then (p, Some (kiro_fail ''kiro_tool_id_reused''))
    else checked p (claimTool c p i) (\<lambda>(st, p). checked p (nameTool st (obj_get payload ''name'')) (extendTool c p payload))))"
  proof (cases "i \<in> set (completedToolIds p)")
    case False
    have "calls_ok c (fst (checked p (claimTool c p i)
      (\<lambda>(st, p). checked p (nameTool st (obj_get payload ''name'')) (extendTool c p payload))))"
    proof (rule checked_inv [where Q = "calls_ok c", OF ok], clarify)
      fix st q assume "claimTool c p i = Inr (st, q)"
      note q = calls_ok_claim [OF ok False nonempty this]
      show "calls_ok c (fst (checked q (nameTool st (obj_get payload ''name'')) (extendTool c q payload)))"
      proof (rule checked_inv [where Q = "calls_ok c"])
        fix st' assume "nameTool st (obj_get payload ''name'') = Inr st'"
        with nameTool_keeps [OF this] q show "calls_ok c (fst (extendTool c q payload st'))"
          by (intro calls_ok_extend [of c q st' st]) simp_all
      qed (use q in simp)
    qed
    with False show ?thesis by simp
  qed (simp add: ok)
qed

lemma calls_ok_fail_on: "calls_ok c (fst r) \<Longrightarrow> calls_ok c (fail_on r)"
  by (rule calls_ok_view [OF tool_view_fail_on [symmetric]])

interpretation calls: parser_invariant c "calls_ok c" for c
proof unfold_locales
  fix q d e u payload
  show "calls_ok c (q\<lparr>diagnostics := d\<rparr>) = calls_ok c q"
    using calls_ok_view [of "q\<lparr>diagnostics := d\<rparr>" q c] calls_ok_view [of q "q\<lparr>diagnostics := d\<rparr>" c] by auto
  assume q: "calls_ok c q"
  show "calls_ok c (q\<lparr>sawFrame := True\<rparr>)" "calls_ok c (emitFailure q e)" "calls_ok c (emit q [Usage u])"
    by (rule calls_ok_view [OF _ q], simp add: tool_view_failure tool_view_emit)+
  show "calls_ok c (fail_on (handleAssistantResponse c q payload))"
    "calls_ok c (fail_on (handleReasoning c q payload))"
    "calls_ok c (fail_on (handleToolUse c q payload))"
    using q calls_ok_tool_use [OF q, of payload]
    by (auto intro!: calls_ok_fail_on intro: calls_ok_view [OF _ q] simp: tool_view_answer tool_view_reasoning)
qed

lemma calls_ok_new: "calls_ok c new_parser"
  by (auto simp: calls_ok_def drained_def calls_inv_def new_parser_def holds_index_def map_wf_def
      intro!: exI [of _ "[]"])

section \<open>The end of the stream\<close>

lemma commit_tools:
  "commitCompletedTool c p st x b = (q, None) \<Longrightarrow>
     tools q = map_delete (tools p) (t_id st) \<and> nextToolIndex q = nextToolIndex p"
  by (auto simp: commitCompletedTool_def Let_def split: if_splits)

lemma commit_fails:
  "commitCompletedTool c p st x b = (q, Some e) \<Longrightarrow> q = p"
  by (auto simp: commitCompletedTool_def Let_def split: if_splits)

lemma calls_ok_commit_all:
  assumes "calls_ok c p" "distinct (map (\<lambda>y. t_id (fst y)) xs)"
    and "list_all (\<lambda>y. map_get (tools p) (t_id (fst y)) = Some (fst y) \<and> prepareCompletedTool c (fst y) True = Inr (snd y)) xs"
  shows "calls_ok c (fst (commit_all c p xs))
    \<and> (snd (commit_all c p xs) = None \<longrightarrow>
         tools (fst (commit_all c p xs)) = foldl map_delete (tools p) (map (\<lambda>y. t_id (fst y)) xs))"
  using assms
proof (induction c p xs rule: commit_all.induct)
  case (2 c p st x rest)
  obtain q e where q: "commitCompletedTool c p st x True = (q, e)" by fastforce
  have st: "map_get (tools p) (t_id st) = Some st" "prepareCompletedTool c st True = Inr x"
    using 2(4) by simp_all
  have "t_id st \<noteq> []" using 2(2) openD(7) [OF _ st(1)] by (auto simp: calls_ok_def)
  from prepared_call_valid [OF st(2) this] have "calls_ok c q"
    using calls_ok_commit [OF 2(2) st(1) refl, of x True] q by simp
  show ?case
  proof (cases e)
    case (Some f)
    with \<open>calls_ok c q\<close> show ?thesis by (simp add: q proceed_def)
  next
    case None
    note q = q [unfolded None]
    have tools: "tools q = map_delete (tools p) (t_id st)" using commit_tools [OF q] by simp
    have later: "list_all (\<lambda>y. map_get (tools q) (t_id (fst y)) = Some (fst y) \<and> prepareCompletedTool c (fst y) True = Inr (snd y)) rest"
      unfolding list_all_iff
    proof
      fix y assume y: "y \<in> set rest"
      then have "t_id (fst y) \<in> set (map (\<lambda>y. t_id (fst y)) rest)" by simp
      moreover have "t_id st \<notin> set (map (\<lambda>y. t_id (fst y)) rest)" using 2(3) by simp
      ultimately have "t_id (fst y) \<noteq> t_id st" by metis
      with 2(4) y show "map_get (tools q) (t_id (fst y)) = Some (fst y)
          \<and> prepareCompletedTool c (fst y) True = Inr (snd y)"
        by (simp add: tools list_all_iff)
    qed
    from 2(1) [OF \<open>calls_ok c q\<close> _ later] 2(3) show ?thesis by (simp add: q proceed_def tools)
  qed
qed simp

lemma prepared_all:
  "prepare_all c sts = Inr xs \<Longrightarrow>
     map fst xs = sts \<and> list_all (\<lambda>y. prepareCompletedTool c (fst y) True = Inr (snd y)) xs"
  by (induction sts arbitrary: xs) (auto simp: and_then_Inr)

lemma delete_all:
  "map_keys (foldl map_delete m ks) = filter (\<lambda>k. k \<notin> set ks) (map_keys m)"
proof (induction ks arbitrary: m)
  case (Cons k ks)
  then show ?case by (simp only: foldl.simps keys_map_delete) (simp add: conj_commute)
qed simp

lemma calls_ok_recover:
  assumes ok: "calls_ok c p"
  shows "calls_ok c (fst (recoverOrRejectUnfinishedTools c p))
    \<and> (snd (recoverOrRejectUnfinishedTools c p) = None \<longrightarrow> tools (fst (recoverOrRejectUnfinishedTools c p)) = [])"
proof -
  let ?sts = "sort_by (\<lambda>a b. t_index a < t_index b) (map snd (tools p))"
  obtain ts where inv: "calls_inv c p ts" using ok by (auto simp: calls_ok_def)
  have wf: "distinct (map_keys (tools p))" using inv by (auto simp: calls_inv_def map_wf_def)
  have entry: "map_get (tools p) (t_id st) = Some st" if "st \<in> snd ` set (tools p)" for st
  proof -
    from that obtain k where "(k, st) \<in> set (tools p)" by auto
    then have "map_get (tools p) k = Some st" using wf by simp
    with openD(1) [OF inv this] show ?thesis by simp
  qed
  have ids: "map t_id (map snd (tools p)) = map_keys (tools p)"
  proof (simp only: map_map, rule map_cong [OF refl])
    fix y assume "y \<in> set (tools p)"
    then have "map_get (tools p) (fst y) = Some (snd y)" using wf by simp
    from openD(1) [OF inv this] show "(t_id \<circ> snd) y = fst y" by simp
  qed
  have mset: "mset (map t_id ?sts) = mset (map_keys (tools p))"
    unfolding ids [symmetric] by (simp only: mset_map mset_sort_by)
  then have distinct: "distinct (map t_id ?sts)" and set: "set (map t_id ?sts) = set (map_keys (tools p))"
    using wf mset_eq_imp_distinct_iff mset_eq_setD by blast+
  show ?thesis
  proof (cases "prepare_all c ?sts")
    case (Inl e)
    then show ?thesis using ok by (simp add: recoverOrRejectUnfinishedTools_def checked_def)
  next
    case (Inr xs)
    note xs = prepared_all [OF Inr]
    have "map (\<lambda>y. t_id (fst y)) xs = map t_id (map fst xs)" by simp
    then have ks: "map (\<lambda>y. t_id (fst y)) xs = map t_id ?sts" using xs by simp
    have all: "list_all (\<lambda>y. map_get (tools p) (t_id (fst y)) = Some (fst y) \<and> prepareCompletedTool c (fst y) True = Inr (snd y)) xs"
    proof -
      have "map_get (tools p) (t_id (fst y)) = Some (fst y)" if "y \<in> set xs" for y
      proof (rule entry)
        have "fst y \<in> set (map fst xs)" using that by simp
        then show "fst y \<in> snd ` set (tools p)" using xs by simp
      qed
      with xs show ?thesis by (auto simp: list_all_iff)
    qed
    have "map_keys (foldl map_delete (tools p) (map t_id ?sts)) = []"
      unfolding delete_all set by (simp add: filter_empty_conv)
    then have "foldl map_delete (tools p) (map t_id ?sts) = []" by simp
    with calls_ok_commit_all [OF ok _ all] ks distinct show ?thesis
      by (simp add: recoverOrRejectUnfinishedTools_def checked_def Inr)
  qed
qed

text \<open>Once no tool is open every index given has been emitted.\<close>

lemma calls_complete:
  assumes "calls_inv c p ts" "drained p" "tools p = []"
  shows "nextToolIndexToEmit p = nextToolIndex p" "completedTools p = []"
proof -
  have no: "\<not> holds_index (tools p) i" for i using assms(3) by (simp add: holds_index_def)
  have "\<not> nextToolIndexToEmit p < nextToolIndex p"
    using indexD [OF assms(1), of "nextToolIndexToEmit p"] no assms(2) by (simp add: drained_def)
  moreover have "nextToolIndexToEmit p \<le> nextToolIndex p"
    using indexD [OF assms(1), of "nextToolIndex p"] by auto
  ultimately show eq: "nextToolIndexToEmit p = nextToolIndex p" by simp
  have none: "map_get (completedTools p) i = None" for i
  proof (cases "map_get (completedTools p) i")
    case (Some t)
    then have "i < nextToolIndex p" using indexD [OF assms(1), of i] by simp
    with pendingD(3) [OF assms(1) Some] eq show ?thesis by simp
  qed
  show "completedTools p = []"
  proof (cases "completedTools p")
    case (Cons y ys)
    with none [of "fst y"] show ?thesis by simp
  qed
qed

section \<open>The calls of a finished stream\<close>

definition delivered :: "kiro_config \<Rightarrow> canonical_event list \<Rightarrow> completed_tool list \<Rightarrow> bool" where
  "delivered c es ts \<longleftrightarrow>
     filter is_tool_event es = concat (map call_events ts)
     \<and> map c_index ts = [0..<length ts] \<and> distinct (map c_id ts) \<and> list_all (valid_call c) ts"

definition stop_reasons :: "canonical_event list \<Rightarrow> stop_reason list" where
  "stop_reasons es = concat (map (\<lambda>e. case e of Stop r s \<Rightarrow> [r] | _ \<Rightarrow> []) es)"

lemma stop_reasons_append [simp]: "stop_reasons (xs @ ys) = stop_reasons xs @ stop_reasons ys"
  by (simp add: stop_reasons_def)

lemma stop_reasons_progress: "list_all progress es \<Longrightarrow> stop_reasons es = []"
  unfolding stop_reasons_def by (induction es) (auto split: canonical_event.splits)

lemma failed_reasons: "event_shape p \<Longrightarrow> failed p \<Longrightarrow> stop_reasons (events p) = [Stop_Error]"
  by (auto simp: event_shape_def failure_ending_def stop_reasons_progress) (simp add: stop_reasons_def)

lemma delivered_inv: "calls_inv c p ts \<Longrightarrow> delivered c (events p) ts \<and> length ts = nextToolIndexToEmit p"
  (is "?inv \<Longrightarrow> _")
proof -
  assume inv: ?inv
  have "length ts = nextToolIndexToEmit p"
    using arg_cong [OF emittedD(2) [OF inv], of length] by simp
  moreover from this have "map c_index ts = [0..<length ts]" using emittedD(2) [OF inv] by simp
  ultimately show ?thesis
    using emittedD(1,3) [OF inv] emittedD(4) [OF inv] by (simp add: delivered_def list_all_iff)
qed

definition calls_outcome :: "kiro_config \<Rightarrow> kiro_parser \<Rightarrow> bool" where
  "calls_outcome c p \<longleftrightarrow>
     (\<exists>ts. delivered c (events p) ts
        \<and> (if failed p then stop_reasons (events p) = [Stop_Error]
           else length ts = nextToolIndex p
             \<and> stop_reasons (events p) = [if ts = [] then Stop_Normal else Stop_Tool_Calls]))"

lemma outcome_failed:
  assumes "calls_ok c p" "event_shape p" "failed p"
  shows "calls_outcome c p"
  using assms(1,3) delivered_inv failed_reasons [OF assms(2,3)] by (auto simp: calls_outcome_def calls_ok_def)

lemma outcome_failure:
  assumes "calls_ok c p" "event_shape p" "\<not> failed p"
  shows "calls_outcome c (emitFailure p e)"
  by (rule outcome_failed) (use assms calls.failure shape.failure in auto)

lemma close_calls:
  assumes ok: "calls_ok c p" and shape: "event_shape p" "\<not> failed p"
  shows "calls_outcome c (fail_on (close_stream c p))"
proof -
  obtain q e where r: "recoverOrRejectUnfinishedTools c p = (q, e)" by fastforce
  have q: "calls_ok c q" "event_shape q" "\<not> failed q" "e = None \<Longrightarrow> tools q = []"
    using calls_ok_recover [OF ok] adv.recover_keeps [of p p c] shape_advances [OF shape, of q] shape r
    by (auto simp: advances_def)
  show ?thesis
  proof (cases e)
    case (Some f)
    with outcome_failure [OF q(1-3), of f] show ?thesis
      by (simp add: close_stream_def r proceed_def fail_on_def)
  next
    case None
    obtain ts0 where "calls_inv c q ts0" using q(1) by (auto simp: calls_ok_def)
    from calls_inv_ready [OF this] have ready: "calls_ok c (emitReadyTools q)" .
    let ?q = "emitReadyTools q"
    obtain ts where inv: "calls_inv c ?q ts" "drained ?q" using ready by (auto simp: calls_ok_def)
    have emitted: "nextToolIndexToEmit ?q = nextToolIndex q" "completedTools ?q = []"
      using calls_complete [OF inv] q(4) None by simp_all
    obtain f v a where f: "filter_finish (thinkingTagFilter ?q) = (f, v, a)" by (metis prod_cases3)
    let ?fin = "[if sawCompletedTool ?q then Stop Stop_Tool_Calls (Some (utf16 ''tool_use''))
            else Stop Stop_Normal (Some (utf16 ''end_turn'')), Done]"
    have close: "fail_on (close_stream c p) = emit (emit (?q\<lparr>thinkingTagFilter := f\<rparr>) (filtered_events v a)) ?fin"
      by (simp add: close_stream_def r None proceed_def fail_on_def Let_def f)
    have "advances q ?q" by (rule adv.ready_keeps) simp
    then have p: "list_all progress (events ?q)" "\<not> failed ?q"
      using q(2,3) by (auto simp: event_shape_def advances_def)
    have saw: "sawCompletedTool q \<longleftrightarrow> ts \<noteq> []"
      using emittedD(6) [OF inv(1)] emitted(2) by simp
    have "delivered c (events (fail_on (close_stream c p))) ts"
      using delivered_inv [OF inv(1)] filtered_no_tool [of v a]
      by (auto simp: close delivered_def filter_empty_conv)
    moreover have "stop_reasons (events (fail_on (close_stream c p)))
        = [if ts = [] then Stop_Normal else Stop_Tool_Calls]"
      using p(1) by (simp add: close stop_reasons_progress saw) (simp add: stop_reasons_def)
    moreover have "nextToolIndex (fail_on (close_stream c p)) = length ts" "\<not> failed (fail_on (close_stream c p))"
      using delivered_inv [OF inv(1)] emitted(1) p(2) by (simp_all add: close)
    ultimately show ?thesis by (auto simp: calls_outcome_def)
  qed
qed

lemma flat_run_calls: "calls_outcome c (flat_run c bs)"
proof -
  obtain p left where d: "flat_drain c new_parser bs = (p, left)" by fastforce
  have p: "calls_ok c p" "event_shape p"
    using calls.drain_keeps [OF calls_ok_new, of c bs] shape.drain_keeps [OF shape_new, of c bs] d by simp_all
  show ?thesis
  proof (cases "failed p")
    case True
    with outcome_failed [OF p] show ?thesis by (simp add: flat_run_def d flat_finish_def)
  next
    case False
    with outcome_failure [OF p] close_calls [OF p] show ?thesis
      by (simp add: flat_run_def d flat_finish_def)
  qed
qed

end
