(* ===== verification/Text_Proofs.thy ===== *)
theory Text_Proofs
  imports Event_Shape Thinking_Filter
begin

text \<open>
  The text of a stream: what leaves is the visible part of the last cumulative snapshot, whatever
  the snapshots and the chunks; hidden reasoning between the tags never leaves.
\<close>

section \<open>The text that left\<close>

definition text_of :: "canonical_event list \<Rightarrow> js_text" where
  "text_of es = concat (map (\<lambda>e. case e of Text_Delta s _ _ \<Rightarrow> s | _ \<Rightarrow> []) es)"

lemma text_of_append [simp]: "text_of (xs @ ys) = text_of xs @ text_of ys"
  by (simp add: text_of_def)

lemma text_of_other [simp]:
  "text_of [] = []" "text_of (Reasoning_Progress # es) = text_of es"
  "text_of (Tool_Call_Delta i x y z t n # es) = text_of es" "text_of (Tool_Call_Complete i # es) = text_of es"
  "text_of (Usage u # es) = text_of es" "text_of (Stop r m # es) = text_of es" "text_of (Done # es) = text_of es"
  "text_of (Error_Event x y z # es) = text_of es"
  by (simp_all add: text_of_def)

lemma text_of_filtered [simp]: "text_of (filtered_events v a) = v"
  by (simp add: filtered_events_def text_of_def)

section \<open>The invariant\<close>

text \<open>The filter has seen the accepted snapshots piece by piece.\<close>

definition text_ok :: "kiro_parser \<Rightarrow> bool" where
  "text_ok p \<longleftrightarrow>
     (\<exists>ds a k. filter_run newFilter ds = (thinkingTagFilter p, text_of (events p), a)
        \<and> concat ds = take k (lastAssistantContent p)
        \<and> (failed p \<or> concat ds = lastAssistantContent p))"

lemma filter_run_snoc:
  assumes "filter_run f ds = (g, s, a)" "filter_push g d = (h, t, b)"
  shows "filter_run f (ds @ [d]) = (h, s @ t, a \<or> b)"
  using assms
proof (induction ds arbitrary: f s a)
  case (Cons e ds)
  obtain g1 s1 a1 where g1: "filter_push f e = (g1, s1, a1)" by (metis prod_cases3)
  obtain g2 s2 a2 where g2: "filter_run g1 ds = (g2, s2, a2)" by (metis prod_cases3)
  from Cons.prems have "g2 = g" "s = s1 @ s2" "a = (a1 \<or> a2)" by (simp_all add: g1 g2)
  with Cons.IH [of g1 s2 a2] Cons.prems(2) g2 show ?case by (simp add: g1)
qed simp

lemma cumulative_delta:
  "cumulativeDelta content previous = Inr delta \<Longrightarrow> content = previous @ delta"
  unfolding cumulativeDelta_def text_starts_def
  by (auto split: if_splits) (metis append_take_drop_id)

definition text_view :: "kiro_parser \<Rightarrow> thinking_filter \<times> js_text \<times> js_text" where
  "text_view p = (thinkingTagFilter p, text_of (events p), lastAssistantContent p)"

lemma text_ok_view: "text_ok p \<Longrightarrow> text_view q = text_view p \<Longrightarrow> failed q \<or> \<not> failed p \<Longrightarrow> text_ok q"
  unfolding text_ok_def text_view_def by auto

interpretation shown: tool_frame "\<lambda>p. text_view p = v \<and> failed p = b" for v b
  by unfold_locales (simp_all add: text_view_def)

lemma text_view_failure: "text_view (emitFailure p e) = text_view p"
  by (simp add: emitFailure_def text_view_def)

lemma text_ok_fail_on: "text_ok (fst r) \<Longrightarrow> text_ok (fail_on r)"
  by (cases r) (auto simp: fail_on_def text_view_failure intro: text_ok_view split: option.splits)

lemma text_view_updates [simp]:
  "text_view (p\<lparr>lastReasoningContent := s\<rparr>) = text_view p"
  "text_view (emit p [Reasoning_Progress]) = text_view p"
  by (simp_all add: text_view_def)

lemma text_view_reasoning: "text_view (fst (handleReasoning c p payload)) = text_view p"
  unfolding handleReasoning_def Let_def
  by (simp add: checked_inv [where Q = "\<lambda>q. text_view q = text_view p"])

lemma failed_reasoning: "failed (fst (handleReasoning c p payload)) = failed p"
  using io_frame_handleReasoning [of p p c payload] by (simp add: io_frame_def)

lemma text_ok_answer:
  assumes ok: "text_ok p" and nf: "\<not> failed p"
  shows "text_ok (fail_on (handleAssistantResponse c p payload))"
proof (cases "requiredStringAllowEmpty (obj_get payload ''content'')")
  case (Inl e)
  then show ?thesis
    using text_ok_view [OF ok text_view_failure] nf by (simp add: handleAssistantResponse_def checked_def fail_on_def)
next
  case content: (Inr content)
  show ?thesis
  proof (cases "cumulativeDelta content (lastAssistantContent p)")
    case (Inl e)
    then show ?thesis
      using text_ok_view [OF ok text_view_failure] nf content
      by (simp add: handleAssistantResponse_def checked_def fail_on_def)
  next
    case delta: (Inr delta)
    note whole = cumulative_delta [OF delta]
    obtain ds a where run: "filter_run newFilter ds = (thinkingTagFilter p, text_of (events p), a)"
      "concat ds = lastAssistantContent p"
      using ok nf by (auto simp: text_ok_def)
    obtain f v b where push: "filter_push (thinkingTagFilter p) delta = (f, v, b)" by (metis prod_cases3)
    have next_run: "filter_run newFilter (ds @ [delta]) = (f, text_of (events p) @ v, a \<or> b)"
      by (rule filter_run_snoc [OF run(1) push])
    show ?thesis
    proof (cases "length content > maxCumulativeTextCharacters c")
      case True
      have "concat ds = take (length (lastAssistantContent p)) content" using run(2) whole by simp
      with True run(1) show ?thesis
        by (auto simp: handleAssistantResponse_def checked_def fail_on_def Let_def content delta
            emitFailure_def nf text_ok_def)
    next
      case False
      show ?thesis
      proof (cases "delta = []")
        case True
        with False have "fail_on (handleAssistantResponse c p payload) = p\<lparr>lastAssistantContent := content\<rparr>"
          by (simp add: handleAssistantResponse_def checked_def fail_on_def Let_def content delta)
        also have "\<dots> = p" using whole True by simp
        finally show ?thesis using ok by simp
      next
        case nonempty: False
        have "concat (ds @ [delta]) = content" using run(2) whole by simp
        with next_run have "text_ok (emit (p\<lparr>lastAssistantContent := content, thinkingTagFilter := f\<rparr>) (filtered_events v b))"
          unfolding text_ok_def
          by (intro exI [of _ "ds @ [delta]"] exI [of _ "a \<or> b"] exI [of _ "length content"]) simp
        with False nonempty push show ?thesis
          by (simp add: handleAssistantResponse_def checked_def fail_on_def Let_def content delta)
      qed
    qed
  qed
qed

interpretation answer_text: parser_invariant c text_ok for c
proof unfold_locales
  fix q d e u payload
  show "text_ok (q\<lparr>diagnostics := d\<rparr>) = text_ok q" by (simp add: text_ok_def)
  assume q: "text_ok q"
  show "text_ok (q\<lparr>sawFrame := True\<rparr>)" using q by (simp add: text_ok_def)
  assume nf: "\<not> failed q"
  show "text_ok (emitFailure q e)" by (rule text_ok_view [OF q text_view_failure]) (simp add: nf)
  show "text_ok (emit q [Usage u])" by (rule text_ok_view [OF q]) (simp_all add: nf text_view_def)
  show "text_ok (fail_on (handleAssistantResponse c q payload))" by (rule text_ok_answer [OF q nf])
  show "text_ok (fail_on (handleReasoning c q payload))"
    by (intro text_ok_fail_on text_ok_view [OF q]) (simp_all add: nf text_view_reasoning failed_reasoning)
  show "text_ok (fail_on (handleToolUse c q payload))"
    using shown.tool_use_keeps [of q "text_view q" False c payload] nf
    by (intro text_ok_fail_on text_ok_view [OF q]) simp_all
qed

lemma text_ok_new: "text_ok new_parser"
  by (auto simp: text_ok_def new_parser_def intro!: exI [of _ "[]"])

section \<open>The text of a finished stream\<close>

definition text_outcome :: "kiro_parser \<Rightarrow> bool" where
  "text_outcome p \<longleftrightarrow>
     (if failed p
      then \<exists>k rest. visible_text (take k (lastAssistantContent p)) = text_of (events p) @ rest
      else text_of (events p) = visible_text (lastAssistantContent p))"

lemma text_failed:
  assumes "text_ok p" "failed p"
  shows "text_outcome p"
proof -
  obtain ds a k where run: "filter_run newFilter ds = (thinkingTagFilter p, text_of (events p), a)"
    "concat ds = take k (lastAssistantContent p)"
    using assms by (auto simp: text_ok_def)
  obtain f v b where "filter_finish (thinkingTagFilter p) = (f, v, b)" by (metis prod_cases3)
  with run filter_all_reference [of ds]
  have "visible_text (take k (lastAssistantContent p)) = text_of (events p) @ v"
    by (simp add: filter_all_def)
  with assms(2) show ?thesis by (auto simp: text_outcome_def)
qed

lemma text_failure: "text_ok p \<Longrightarrow> \<not> failed p \<Longrightarrow> text_outcome (emitFailure p e)"
  by (rule text_failed) (simp_all add: answer_text.failure)

lemma text_close:
  assumes ok: "text_ok p" "\<not> failed p"
  shows "text_outcome (fail_on (close_stream c p))"
proof -
  obtain q e where r: "recoverOrRejectUnfinishedTools c p = (q, e)" by fastforce
  have v: "text_view q = text_view p" "\<not> failed q"
    using shown.recover_keeps [of p "text_view p" False c] r ok by simp_all
  have q: "text_ok q" by (rule text_ok_view [OF ok(1) v(1)]) (simp add: ok)
  show ?thesis
  proof (cases e)
    case (Some x)
    with text_failure [OF q v(2), of x] show ?thesis
      by (simp add: close_stream_def r proceed_def fail_on_def)
  next
    case None
    let ?q = "emitReadyTools q"
    have w: "text_view ?q = text_view q" "\<not> failed ?q"
      using shown.ready_keeps [of q "text_view q" False] v by simp_all
    obtain ds a where run: "filter_run newFilter ds = (thinkingTagFilter ?q, text_of (events ?q), a)"
      "concat ds = lastAssistantContent ?q"
      using q v(2) w(1) by (auto simp: text_ok_def text_view_def)
    obtain f s b where f: "filter_finish (thinkingTagFilter ?q) = (f, s, b)" by (metis prod_cases3)
    have "text_of (events ?q) @ s = visible_text (lastAssistantContent ?q)"
      using filter_all_reference [of ds] run f by (simp add: filter_all_def)
    with w(2) show ?thesis
      by (simp add: close_stream_def r None proceed_def fail_on_def Let_def f text_outcome_def)
  qed
qed

lemma flat_run_text: "text_outcome (flat_run c bs)"
proof -
  obtain p left where d: "flat_drain c new_parser bs = (p, left)" by fastforce
  have p: "text_ok p" using answer_text.drain_keeps [OF text_ok_new, of c bs] d by simp
  show ?thesis
    using text_failed [OF p] text_failure [OF p] text_close [OF p]
    by (cases "failed p") (simp_all add: flat_run_def d flat_finish_def)
qed

end
