(* ===== verification/Collector_Proofs.thy ===== *)
theory Collector_Proofs
  imports Call_Proofs Text_Proofs
begin

text \<open>
  The collector of a whole response: although it stops reading as soon as the stream has ended, its
  result is a function of all the events of the stream.
\<close>

section \<open>What the events determine\<close>

fun is_error_event :: "canonical_event \<Rightarrow> bool" where
  "is_error_event (Error_Event m c t) = True"
| "is_error_event e = False"

definition usage_of :: "canonical_event list \<Rightarrow> usage_counts option" where
  "usage_of es = foldl (\<lambda>u e. case e of Usage v \<Rightarrow> Some (mergeUsage u v) | _ \<Rightarrow> u) None es"

fun parse_calls :: "completed_tool list \<Rightarrow> collected_call list result" where
  "parse_calls [] = Inr []"
| "parse_calls (t # ts) =
     and_then (parseToolInput (c_arguments t)) (\<lambda>input.
     and_then (parse_calls ts) (\<lambda>calls.
     Inr (\<lparr>call_index = c_index t, call_id = c_id t, call_name = c_name t, call_input = input\<rparr> # calls)))"

definition summary ::
    "canonical_event list \<Rightarrow> kiro_diagnostics \<Rightarrow> completed_tool list \<Rightarrow> collected_response result" where
  "summary es d ts =
     (let response = \<lambda>calls stop e.
        \<lparr>r_text = text_of es, r_tools = calls, r_usage = usage_of es, r_stopReason = Some stop,
         r_structuralRecoveryCount = structuralRecoveryCount d,
         r_recognizedEventCount = recognizedEventCount d, r_error = e\<rparr>
      in case find is_error_event es of
           Some e \<Rightarrow> Inr (response [] Stop_Error (Some e))
         | None \<Rightarrow>
             and_then (parse_calls ts) (\<lambda>calls.
             Inr (response calls (if ts = [] then Stop_Normal else Stop_Tool_Calls) None)))"

section \<open>Consuming events\<close>

lemma consume_Nil [simp]: "consume k [] = k"
  by (simp add: consume_def)

lemma consume_Cons [simp]: "consume k (e # es) = consume (consume_event k e) es"
  by (simp add: consume_def)

lemma consume_append [simp]: "consume k (es @ fs) = consume (consume k es) fs"
  by (simp add: consume_def)

lemma consume_event_parser: "consume_event (k\<lparr>parser := p\<rparr>) e = (consume_event k e)\<lparr>parser := p\<rparr>"
  by (cases e) (auto simp: Let_def split: option.splits)

lemma consume_parser: "consume (k\<lparr>parser := p\<rparr>) es = (consume k es)\<lparr>parser := p\<rparr>"
  by (induction es arbitrary: k) (simp_all add: consume_event_parser)

lemma consume_event_frame [simp]:
  "response (consume_event k e) = response k" "parser (consume_event k e) = parser k"
  by (cases e; auto simp: Let_def split: option.splits)+

lemma consume_frame [simp]: "response (consume k es) = response k" "parser (consume k es) = parser k"
  by (induction es arbitrary: k) simp_all

lemma consume_complete: "complete (consume k es) \<longleftrightarrow> complete k \<or> Done \<in> set es"
proof (induction es arbitrary: k)
  case (Cons e es)
  then show ?case by (cases e) (auto simp: Let_def split: option.splits)
qed simp

lemma consume_text: "collectedText (consume k es) = collectedText k @ text_of es"
proof (induction es arbitrary: k)
  case (Cons e es)
  then show ?case by (cases e) (auto simp: Let_def text_of_def split: option.splits)
qed (simp add: text_of_def)

lemma consume_usage:
  "collectedUsage (consume k es) =
     foldl (\<lambda>u e. case e of Usage v \<Rightarrow> Some (mergeUsage u v) | _ \<Rightarrow> u) (collectedUsage k) es"
proof (induction es arbitrary: k)
  case (Cons e es)
  then show ?case by (cases e) (auto simp: Let_def split: option.splits)
qed simp

lemma consume_error:
  "collectedError (consume k es) =
     (case collectedError k of Some e \<Rightarrow> Some e | None \<Rightarrow> find is_error_event es)"
proof (induction es arbitrary: k)
  case (Cons e es)
  then show ?case by (cases e) (auto simp: Let_def split: option.splits)
qed (simp split: option.splits)

lemma consume_stop:
  "stopReason (consume k es) = (if stop_reasons es = [] then stopReason k else Some (List.last (stop_reasons es)))"
proof (induction es arbitrary: k)
  case (Cons e es)
  then show ?case by (cases e) (auto simp: Let_def stop_reasons_def split: option.splits)
qed (simp add: stop_reasons_def)

lemma consume_other_event:
  "\<not> is_tool_event e \<Longrightarrow> collectedTools (consume_event k e) = collectedTools k"
  by (cases e) simp_all

lemma consume_tool_event:
  "is_tool_event e \<Longrightarrow> collectedTools k = collectedTools k' \<Longrightarrow>
     collectedTools (consume_event k e) = collectedTools (consume_event k' e)"
  by (cases e) (auto simp: Let_def split: option.splits)

lemma consume_tools:
  "collectedTools k = collectedTools k' \<Longrightarrow>
     collectedTools (consume k es) = collectedTools (consume k' (filter is_tool_event es))"
proof (induction es arbitrary: k k')
  case (Cons e es)
  show ?case
  proof (cases "is_tool_event e")
    case True
    from Cons.IH [OF consume_tool_event [OF True Cons.prems]] True show ?thesis by simp
  next
    case False
    from Cons.IH [of "consume_event k e" k'] consume_other_event [OF False] Cons.prems False show ?thesis by simp
  qed
qed simp

definition collected_of :: "completed_tool \<Rightarrow> collected_tool" where
  "collected_of t = \<lparr>k_index = c_index t, k_id = Some (c_id t), k_name = Some (c_name t),
     k_arguments = c_arguments t, k_complete = True\<rparr>"

lemma collected_fields [simp]:
  "k_index (collected_of t) = c_index t" "k_id (collected_of t) = Some (c_id t)"
  "k_name (collected_of t) = Some (c_name t)" "k_arguments (collected_of t) = c_arguments t"
  "k_complete (collected_of t)"
  by (simp_all add: collected_of_def)

lemma set_new: "map_get m k = None \<Longrightarrow> map_set m k v = m @ [(k, v)]"
  by (induction m) (auto split: if_splits)

lemma set_again: "map_set (map_set m k v) k w = map_set m k w"
  by (induction m) auto

lemma consume_calls:
  assumes "distinct (map c_index ts)" "\<And>t. t \<in> set ts \<Longrightarrow> map_get (collectedTools k) (c_index t) = None"
  shows "collectedTools (consume k (concat (map call_events ts))) =
    collectedTools k @ map (\<lambda>t. (c_index t, collected_of t)) ts"
  using assms
proof (induction ts arbitrary: k)
  case (Cons t ts)
  have new: "map_get (collectedTools k) (c_index t) = None" using Cons.prems(2) by simp
  let ?k = "consume k (call_events t)"
  have "collectedTools ?k = map_set (collectedTools k) (c_index t) (collected_of t)"
    by (simp add: call_events_def Let_def new fresh_tool_def overriding_def set_again collected_of_def)
  then have one: "collectedTools ?k = collectedTools k @ [(c_index t, collected_of t)]"
    by (simp only: set_new [OF new])
  have "collectedTools (consume ?k (concat (map call_events ts))) =
      collectedTools ?k @ map (\<lambda>t. (c_index t, collected_of t)) ts"
  proof (rule Cons.IH)
    fix u assume u: "u \<in> set ts"
    then have "c_index u \<in> set (map c_index ts)" by simp
    with Cons.prems(1) have "c_index u \<noteq> c_index t" by auto
    moreover have "map_get (collectedTools k) (c_index u) = None" using Cons.prems(2) u by simp
    ultimately show "map_get (collectedTools ?k) (c_index u) = None"
      unfolding one by (simp add: map_of_eq_None_iff)
  qed (use Cons.prems in simp)
  then show ?case by (simp add: one)
qed simp

lemma sorted_already:
  assumes "sorted (map k_index xs)"
  shows "sort_by (\<lambda>a b. k_index a < k_index b) xs = xs"
  using assms
proof (induction xs)
  case (Cons x xs)
  then show ?case by (cases xs) auto
qed simp

lemma collect_calls_parsed:
  assumes "\<And>t. t \<in> set ts \<Longrightarrow> c_id t \<noteq> [] \<and> c_name t \<noteq> []"
  shows "collect_calls (map collected_of ts) = and_then (parse_calls ts) (\<lambda>calls. Inr (None, calls))"
  using assms
proof (induction ts)
  case (Cons t ts)
  then have "collect_calls (map collected_of ts) = and_then (parse_calls ts) (\<lambda>calls. Inr (None, calls))"
    "c_id t \<noteq> []" "c_name t \<noteq> []" by simp_all
  then show ?case
    by (cases "parse_calls ts"; cases "parseToolInput (c_arguments t)") (simp_all add: and_then_def)
qed (simp add: and_then_def)

section \<open>Reading until the stream has ended\<close>

lemma push_done:
  assumes ok: "stream_ok c p" and nf: "\<not> failed p" and push: "push c p chunk = (q, es)"
  shows "Done \<in> set es \<longleftrightarrow> failed q"
proof -
  have "event_shape (unbuffered p)" using ok nf by (simp add: event_shape_def unbuffered_def stream_ok_def)
  from shape.drain_keeps [OF this, of c "queue_bytes (bytes p) @ chunk"]
  have shape: "event_shape (rebase emptyQueue es q)" using push_flat(2) [OF ok push] by simp
  have "events q = []" using push_flat(1) [OF ok push] by (simp add: stream_ok_def)
  then show ?thesis
  proof (cases "failed q")
    case True
    with shape \<open>events q = []\<close> show ?thesis by (auto simp: event_shape_def failure_ending_def)
  next
    case False
    with shape \<open>events q = []\<close> have "\<forall>e\<in>set es. progress e" by (simp add: event_shape_def list_all_iff)
    then have "Done \<in> set es \<Longrightarrow> progress Done" by blast
    with False show ?thesis by auto
  qed
qed

lemma feed_failed: "failed p \<Longrightarrow> feed c p xs = (p, [])"
  by (induction xs) (simp_all add: push_def)

lemma collect_feed:
  assumes "stream_ok c (parser k)" "\<not> failed (parser k)" "\<not> complete k" "response k = None"
    and "feed c (parser k) xs = (p, es)"
  shows "collect_chunks c k xs = Some ((consume k es)\<lparr>parser := p\<rparr>)"
  using assms
proof (induction xs arbitrary: k p es)
  case (Cons x xs)
  obtain q fs where push: "push c (parser k) x = (q, fs)" by fastforce
  obtain p' gs where rest: "feed c q xs = (p', gs)" by fastforce
  have eqs: "p = p'" "es = fs @ gs" using Cons.prems(5) by (simp_all add: push rest)
  let ?k = "(consume k fs)\<lparr>parser := q\<rparr>"
  have k: "collector_push c k x = Some ?k"
    using Cons.prems(4) push by (simp add: collector_push_def consume_parser)
  have complete: "complete ?k \<longleftrightarrow> Done \<in> set fs" using Cons.prems(3) by (simp add: consume_complete)
  show ?case
  proof (cases "failed q")
    case True
    then have "p' = q" "gs = []" using rest feed_failed by auto
    moreover have "complete ?k" using True push_done [OF Cons.prems(1,2) push] complete by simp
    ultimately show ?thesis by (simp add: k eqs)
  next
    case False
    then have "\<not> complete ?k" using push_done [OF Cons.prems(1,2) push] complete by auto
    moreover have "collect_chunks c ?k xs = Some ((consume ?k gs)\<lparr>parser := p'\<rparr>)"
      by (rule Cons.IH) (use False calculation Cons.prems(4) rest push_flat(1) [OF Cons.prems(1) push] in simp_all)
    ultimately show ?thesis by (simp add: k eqs consume_parser)
  qed
qed simp

section \<open>The collected response\<close>

definition closing :: "collector \<Rightarrow> kiro_diagnostics \<Rightarrow> collected_response result" where
  "closing k d =
     (case (if collectedError k = None
            then collect_calls (sort_by (\<lambda>a b. k_index a < k_index b) (map snd (collectedTools k)))
            else Inr (None, [])) of
        Inl e \<Rightarrow> Inl e
      | Inr (e, calls) \<Rightarrow>
          let k = (case e of None \<Rightarrow> k | Some x \<Rightarrow> k\<lparr>collectedError := Some x\<rparr>);
              broken = (collectedError k \<noteq> None)
          in Inr \<lparr>r_text = collectedText k, r_tools = (if broken then [] else calls),
                  r_usage = collectedUsage k,
                  r_stopReason = (if broken then Some Stop_Error else stopReason k),
                  r_structuralRecoveryCount = structuralRecoveryCount d,
                  r_recognizedEventCount = recognizedEventCount d, r_error = collectedError k\<rparr>)"

lemma closing_parser: "closing (k\<lparr>parser := p\<rparr>) d = closing k d"
  by (auto simp: closing_def Let_def split: sum.splits option.splits)

lemma collector_finish_closing:
  assumes "response k = None" "finish_stream c (parser k) = (q, fs)"
  shows "snd (collector_finish c k) = closing (consume k fs) (diagnostics q)"
  using assms
  by (auto simp: collector_finish_def closing_def Let_def consume_parser split: sum.splits option.splits)

lemma summary_of_events:
  assumes "delivered c es ts"
    and stops: "stop_reasons es = [Stop_Error] \<or> stop_reasons es = [if ts = [] then Stop_Normal else Stop_Tool_Calls]"
    and errors: "find is_error_event es = None \<Longrightarrow> stop_reasons es \<noteq> [Stop_Error]"
  defines "k \<equiv> consume new_collector es"
  shows "closing k d = summary es d ts"
proof -
  have new: "collectedText new_collector = []" "collectedUsage new_collector = None"
    "collectedError new_collector = None" "collectedTools new_collector = []" "stopReason new_collector = None"
    by (simp_all add: new_collector_def)
  have k: "collectedText k = text_of es" "collectedUsage k = usage_of es"
    "collectedError k = find is_error_event es"
    "stopReason k = (if stop_reasons es = [] then None else Some (List.last (stop_reasons es)))"
    by (simp_all add: k_def consume_text consume_usage consume_error consume_stop usage_of_def new)
  have ts: "filter is_tool_event es = concat (map call_events ts)" "map c_index ts = [0..<length ts]"
    "\<And>t. t \<in> set ts \<Longrightarrow> c_id t \<noteq> [] \<and> c_name t \<noteq> []"
    using assms(1) by (auto simp: delivered_def list_all_iff valid_call_def)
  have "collectedTools k = map (\<lambda>t. (c_index t, collected_of t)) ts"
    unfolding k_def consume_tools [OF refl, of new_collector es] ts(1)
    by (subst consume_calls) (simp_all add: ts(2) new)
  then have tools: "map snd (collectedTools k) = map collected_of ts" by simp
  have "sort_by (\<lambda>a b. k_index a < k_index b) (map collected_of ts) = map collected_of ts"
    by (rule sorted_already) (simp add: o_def ts(2))
  with tools have calls: "collect_calls (sort_by (\<lambda>a b. k_index a < k_index b) (map snd (collectedTools k)))
      = and_then (parse_calls ts) (\<lambda>calls. Inr (None, calls))"
    by (simp add: collect_calls_parsed [OF ts(3)])
  show ?thesis
  proof (cases "find is_error_event es")
    case (Some e)
    then show ?thesis by (simp add: closing_def k summary_def)
  next
    case None
    have "stop_reasons es = [if ts = [] then Stop_Normal else Stop_Tool_Calls]"
      using stops errors [OF None] by simp
    with None show ?thesis
      by (cases "parse_calls ts") (simp_all add: closing_def k calls summary_def and_then_def)
  qed
qed

lemma errors_of_ended:
  "well_ended es \<Longrightarrow> find is_error_event es = None \<Longrightarrow> stop_reasons es \<noteq> [Stop_Error]"
  by (auto simp: well_ended_def failure_ending_def regular_ending_def find_None_iff stop_reasons_progress)
    (auto simp: stop_reasons_def)

lemma collected_summary:
  "\<exists>ts. delivered c (stream_events c received) ts
     \<and> collectKiroEventStreamBody c received
       = Some (summary (stream_events c received) (stream_diagnostics c received) ts)"
proof -
  obtain p es where f: "feed c new_parser received = (p, es)" by fastforce
  obtain q fs where fin: "finish_stream c p = (q, fs)" by fastforce
  have events: "stream_events c received = es @ fs" "stream_diagnostics c received = diagnostics q"
    by (simp_all add: stream_events_def stream_diagnostics_def run_stream_def f fin)
  have "calls_outcome c (flat_run c (concat received))" by (rule flat_run_calls)
  then obtain ts where ts: "delivered c (es @ fs) ts"
    "stop_reasons (es @ fs) = [Stop_Error] \<or> stop_reasons (es @ fs) = [if ts = [] then Stop_Normal else Stop_Tool_Calls]"
    unfolding calls_outcome_def stream_events_flat [symmetric] events(1) by (auto split: if_splits)
  have new: "parser new_collector = new_parser" "complete new_collector = False" "response new_collector = None"
    by (simp_all add: new_collector_def)
  have "\<not> failed new_parser" by (simp add: new_parser_def)
  with collect_feed [of c new_collector received p es]
  have "collect_chunks c new_collector received = Some ((consume new_collector es)\<lparr>parser := p\<rparr>)"
    by (simp add: new f)
  moreover have "snd (collector_finish c ((consume new_collector es)\<lparr>parser := p\<rparr>))
      = closing (consume new_collector (es @ fs)) (diagnostics q)"
    by (subst collector_finish_closing [of _ c q fs]) (simp_all add: new fin consume_parser closing_parser)
  moreover have "closing (consume new_collector (es @ fs)) (diagnostics q) = summary (es @ fs) (diagnostics q) ts"
    by (rule summary_of_events [OF ts])
      (use errors_of_ended [of "es @ fs"] stream_well_ended [of c received] events(1) in simp)
  ultimately show ?thesis
    unfolding events collectKiroEventStreamBody_def using ts(1) by auto
qed

end
