(* ===== verification/Limit_Proofs.thy ===== *)
theory Limit_Proofs
  imports Event_Shape
begin

text \<open>
  What a stream can make the parser hold: the number of tools, pending and completed calls, the
  input of the tools, the snapshots and the bytes that wait for the rest of a frame.
\<close>

section \<open>The limits\<close>

definition counts :: "kiro_config \<Rightarrow> kiro_parser \<Rightarrow> bool" where
  "counts c p \<longleftrightarrow>
     list_all (\<lambda>(k, st). t_id st = k) (tools p)
     \<and> nextToolIndex p \<le> maxToolCount c \<and> length (tools p) \<le> maxActiveToolCount c
     \<and> length (completedToolIds p) \<le> maxCompletedToolCount c
     \<and> length (completedTools p) \<le> maxPendingToolCount c"

definition input_fits :: "kiro_config \<Rightarrow> tool_state \<Rightarrow> bool" where
  "input_fits c st \<longleftrightarrow>
     length (concat (inputParts st)) = inputCharacters st \<and> inputCharacters st \<le> maxFrameBytes c"

definition sizes :: "kiro_config \<Rightarrow> kiro_parser \<Rightarrow> bool" where
  "sizes c p \<longleftrightarrow>
     totalToolInputBytes p \<le> maxTotalToolInputBytes c
     \<and> list_all (\<lambda>(k, st). input_fits c st) (tools p)
     \<and> length (lastAssistantContent p) \<le> maxCumulativeTextCharacters c
     \<and> length (lastReasoningContent p) \<le> maxCumulativeTextCharacters c"

definition within_stream_limits :: "kiro_config \<Rightarrow> kiro_parser \<Rightarrow> bool" where
  "within_stream_limits c p \<longleftrightarrow> counts c p \<and> (failed p \<or> sizes c p)"

definition good :: "kiro_config \<Rightarrow> step_outcome \<Rightarrow> bool" where
  "good c r \<longleftrightarrow> counts c (fst r) \<and> (snd r = None \<longrightarrow> sizes c (fst r))"

lemma good_pair [simp]:
  "good c (p, None) \<longleftrightarrow> counts c p \<and> sizes c p" "good c (p, Some e) \<longleftrightarrow> counts c p"
  by (simp_all add: good_def)

lemma good_checked:
  "counts c p \<Longrightarrow> (\<And>x. r = Inr x \<Longrightarrow> good c (f x)) \<Longrightarrow> good c (checked p r f)"
  by (cases r) (auto simp: checked_def)

definition count_view ::
    "kiro_parser \<Rightarrow> (js_text, tool_state) js_map \<times> nat \<times> js_text list \<times> (nat, completed_tool) js_map" where
  "count_view p = (tools p, nextToolIndex p, completedToolIds p, completedTools p)"

lemma counts_view: "count_view p = count_view q \<Longrightarrow> counts c p = counts c q"
  by (simp add: count_view_def counts_def)

lemma counts_updates [simp]:
  "counts c (emit p es) = counts c p" "counts c (p\<lparr>thinkingTagFilter := f\<rparr>) = counts c p"
  "counts c (p\<lparr>diagnostics := d\<rparr>) = counts c p" "counts c (p\<lparr>lastAssistantContent := s\<rparr>) = counts c p"
  "counts c (p\<lparr>lastReasoningContent := s\<rparr>) = counts c p" "counts c (p\<lparr>totalToolInputBytes := n\<rparr>) = counts c p"
  "counts c (p\<lparr>sawFrame := b\<rparr>) = counts c p" "counts c (p\<lparr>failed := b\<rparr>) = counts c p"
  "counts c (p\<lparr>bytes := q\<rparr>) = counts c p" "counts c (emitFailure p e) = counts c p"
  by (simp_all add: counts_def emitFailure_def)

lemma good_fail_on: "good c r \<Longrightarrow> within_stream_limits c (fail_on r)"
  by (cases r) (auto simp: good_def fail_on_def within_stream_limits_def split: option.splits)

section \<open>Entries of the tool map\<close>

lemma all_set: "list_all P m \<Longrightarrow> P (k, v) \<Longrightarrow> list_all P (map_set m k v)"
  by (induction m) (auto split: if_splits)

lemma all_delete: "list_all P m \<Longrightarrow> list_all P (map_delete m k)"
  by (induction m) (auto simp: AList.delete_eq)

lemma all_get: "list_all P m \<Longrightarrow> map_get m k = Some v \<Longrightarrow> P (k, v)"
  by (auto simp: list_all_iff dest: map_of_SomeD)

lemma length_delete_le: "length (map_delete m k) \<le> length m"
  by (simp add: AList.delete_eq)

lemma length_delete_less: "map_get m k \<noteq> None \<Longrightarrow> length (map_delete m k) < length m"
  unfolding AList.delete_eq by (rule length_filter_less [of "(k, the (map_get m k))"]) (auto dest: map_of_SomeD)

section \<open>Handlers\<close>

lemma ready_shorter: "length (completedTools (emitReadyTools p)) \<le> length (completedTools p)"
proof (induction p rule: emitReadyTools.induct)
  case (1 p)
  show ?case
  proof (cases "map_get (completedTools p) (nextToolIndexToEmit p)")
    case None
    then show ?thesis by (subst emitReadyTools.simps) simp
  next
    case (Some t)
    have "length (map_delete (completedTools p) (c_index t)) \<le> length (completedTools p)"
      by (rule length_delete_le)
    with 1 [OF Some] Some show ?thesis by (subst emitReadyTools.simps) simp
  qed
qed

lemma ready_strictly_shorter:
  assumes "map_get (completedTools p) (nextToolIndexToEmit p) = Some t" "c_index t = nextToolIndexToEmit p"
  shows "length (completedTools (emitReadyTools p)) < length (completedTools p)"
proof -
  let ?q = "emit (p\<lparr>completedTools := map_delete (completedTools p) (c_index t),
                     nextToolIndexToEmit := nextToolIndexToEmit p + 1\<rparr>)
              [Tool_Call_Delta (c_index t) (Some (c_id t)) (Some (c_name t))
                 (Some (c_arguments t)) None None, Tool_Call_Complete (c_index t)]"
  have "emitReadyTools p = emitReadyTools ?q" by (subst emitReadyTools.simps) (simp add: assms(1))
  moreover have "length (completedTools ?q) < length (completedTools p)"
    using length_delete_less [of "completedTools p" "c_index t"] assms by simp
  ultimately show ?thesis using ready_shorter [of ?q] by simp
qed

lemma good_commit:
  assumes p: "counts c p" "sizes c p" and x: "c_index x = t_index st"
  shows "good c (commitCompletedTool c p st x b)"
proof (cases "length (completedToolIds p) \<ge> maxCompletedToolCount c
    \<or> t_index st \<noteq> nextToolIndexToEmit p \<and> length (completedTools p) \<ge> maxPendingToolCount c")
  case True
  with p show ?thesis by (auto simp: commitCompletedTool_def)
next
  case False
  let ?q = "\<lambda>d. p\<lparr>tools := map_delete (tools p) (t_id st),
                 completedToolIds := List.insert (t_id st) (completedToolIds p),
                 completedTools := map_set (completedTools p) (t_index st) x,
                 sawCompletedTool := True, diagnostics := d\<rparr>"
  have "length (completedTools (emitReadyTools (?q d))) \<le> maxPendingToolCount c" for d
  proof (cases "t_index st = nextToolIndexToEmit p")
    case True
    then have "length (completedTools (emitReadyTools (?q d))) < length (completedTools (?q d))"
      by (intro ready_strictly_shorter [of _ x]) (simp_all add: x)
    also have "\<dots> \<le> Suc (length (completedTools p))" by (simp add: length_map_set)
    finally show ?thesis using p(1) by (simp add: counts_def)
  next
    case far: False
    have "length (completedTools (emitReadyTools (?q d))) \<le> length (completedTools (?q d))"
      by (rule ready_shorter)
    also have "\<dots> \<le> Suc (length (completedTools p))" by (simp add: length_map_set)
    finally show ?thesis using False far by simp
  qed
  moreover have "length (List.insert (t_id st) (completedToolIds p)) \<le> maxCompletedToolCount c"
    using False by (simp add: List.insert_def)
  moreover have "length (map_delete (tools p) (t_id st)) \<le> maxActiveToolCount c"
    using p(1) length_delete_le [of "t_id st" "tools p"] by (simp add: counts_def)
  ultimately show ?thesis
    using p False by (auto simp: commitCompletedTool_def Let_def counts_def sizes_def all_delete)
qed

lemma good_complete:
  assumes "counts c p" "sizes c p"
  shows "good c (completeTool c p st b)"
  unfolding completeTool_def
proof (rule good_checked [OF assms(1)])
  fix x assume "prepareCompletedTool c st b = Inr x"
  then have "c_index x = t_index st"
    by (auto simp: prepareCompletedTool_def Let_def and_then_Inr split: option.splits if_splits)
  with assms show "good c (commitCompletedTool c p st x b)" by (rule good_commit)
qed

lemma good_stop: "counts c p \<Longrightarrow> sizes c p \<Longrightarrow> good c (stopTool c p st v)"
  by (simp add: stopTool_def good_complete split: option.splits json.splits)

lemma input_append:
  assumes "appendToolInput c n st v = (st', n', e)" "input_fits c st"
  shows "t_id st' = t_id st" "e = None \<Longrightarrow> input_fits c st' \<and> n' \<le> maxTotalToolInputBytes c"
  using assms by (auto simp: appendToolInput_def input_fits_def Let_def split: sum.splits prod.splits if_splits)

lemma good_extend:
  assumes p: "counts c p" "sizes c p" and st: "map_get (tools p) (t_id st) \<noteq> None" "input_fits c st"
  shows "good c (extendTool c p payload st)"
proof -
  obtain st' used e where app: "(case obj_get payload ''input'' of None \<Rightarrow> (st, totalToolInputBytes p, None)
      | Some v \<Rightarrow> appendToolInput c (totalToolInputBytes p) st v) = (st', used, e)"
    by (metis prod_cases3)
  have st': "t_id st' = t_id st" "e = None \<Longrightarrow> input_fits c st' \<and> used \<le> maxTotalToolInputBytes c"
    using app p(2) st(2) input_append [of c _ st _ st' used e]
    by (auto simp: sizes_def split: option.splits)
  have counts: "counts c (put_tool p st')"
    using p(1) st(1) by (auto simp: counts_def put_tool_def st'(1) length_map_set intro!: all_set)
  have "sizes c ((put_tool p st')\<lparr>totalToolInputBytes := used\<rparr>)" if "e = None"
    using p(2) st'(2) [OF that] by (simp add: sizes_def put_tool_def all_set)
  with counts show ?thesis
    by (simp add: extendTool_def app Let_def good_stop split: option.splits)
qed

lemma good_claim:
  assumes p: "counts c p" "sizes c p" and claim: "claimTool c p i = Inr (st, q)"
  shows "counts c q \<and> sizes c q \<and> map_get (tools q) (t_id st) \<noteq> None \<and> input_fits c st"
proof (cases "map_get (tools p) i")
  case (Some st')
  have "t_id st' = i" "input_fits c st'"
    using p all_get [OF _ Some] by (auto simp: counts_def sizes_def)
  with Some claim p show ?thesis by (simp add: claimTool_def)
next
  case None
  with claim p show ?thesis
    by (auto simp: claimTool_def Let_def counts_def sizes_def input_fits_def length_map_set
        intro!: all_set split: if_splits)
qed

lemma good_tool_use:
  assumes p: "counts c p" "sizes c p"
  shows "good c (handleToolUse c p payload)"
  unfolding handleToolUse_def
proof (rule good_checked [OF p(1)])
  fix i
  have "good c (checked p (claimTool c p i)
      (\<lambda>(st, p). checked p (nameTool st (obj_get payload ''name'')) (extendTool c p payload)))"
  proof (rule good_checked [OF p(1)], clarify)
    fix st q assume "claimTool c p i = Inr (st, q)"
    note q = good_claim [OF p this]
    show "good c (checked q (nameTool st (obj_get payload ''name'')) (extendTool c q payload))"
    proof (rule good_checked)
      fix st' assume "nameTool st (obj_get payload ''name'') = Inr st'"
      then have "t_id st' = t_id st" "input_fits c st' = input_fits c st"
        by (auto simp: nameTool_def and_then_Inr input_fits_def split: option.splits if_splits)
      with q show "good c (extendTool c q payload st')" by (intro good_extend) simp_all
    qed (use q in simp)
  qed
  with p show "good c (if i \<in> set (completedToolIds p) then (p, Some (kiro_fail ''kiro_tool_id_reused''))
    else checked p (claimTool c p i) (\<lambda>(st, p). checked p (nameTool st (obj_get payload ''name'')) (extendTool c p payload)))"
    by simp
qed

lemma good_answer: "counts c p \<Longrightarrow> sizes c p \<Longrightarrow> good c (handleAssistantResponse c p payload)"
  unfolding handleAssistantResponse_def Let_def
  by (intro good_checked) (auto simp: sizes_def split: prod.splits)

lemma good_reasoning: "counts c p \<Longrightarrow> sizes c p \<Longrightarrow> good c (handleReasoning c p payload)"
  unfolding handleReasoning_def Let_def
  by (auto simp: sizes_def intro!: good_checked)

interpretation limits: parser_invariant c "within_stream_limits c" for c
proof unfold_locales
  fix q d e u payload
  show "within_stream_limits c (q\<lparr>diagnostics := d\<rparr>) = within_stream_limits c q"
    by (simp add: within_stream_limits_def sizes_def)
  assume q: "within_stream_limits c q"
  then show "within_stream_limits c (q\<lparr>sawFrame := True\<rparr>)" by (simp add: within_stream_limits_def sizes_def)
  assume nf: "\<not> failed q"
  from q nf have p: "counts c q" "sizes c q" by (simp_all add: within_stream_limits_def)
  show "within_stream_limits c (emitFailure q e)" using p by (simp add: within_stream_limits_def)
  show "within_stream_limits c (emit q [Usage u])" using p by (simp add: within_stream_limits_def sizes_def)
  show "within_stream_limits c (fail_on (handleAssistantResponse c q payload))"
    "within_stream_limits c (fail_on (handleReasoning c q payload))"
    "within_stream_limits c (fail_on (handleToolUse c q payload))"
    using p by (simp_all add: good_fail_on good_answer good_reasoning good_tool_use)
qed

lemma within_new: "within_stream_limits c new_parser"
  by (simp add: within_stream_limits_def counts_def sizes_def new_parser_def)

section \<open>Bytes that wait\<close>

lemma waiting_bytes:
  assumes "16 \<le> maxFrameBytes c"
  shows "length (snd (flat_drain c p bs)) < maxFrameBytes c
    \<and> (failed (fst (flat_drain c p bs)) \<longrightarrow> snd (flat_drain c p bs) = [])"
  using assms
proof (induction c p bs rule: flat_drain.induct)
  case (1 c p bs)
  show ?case
  proof (cases "failed p \<or> length bs < 12")
    case True
    with 1(2) show ?thesis by (auto simp: flat_drain.simps [of c p bs])
  next
    case going: False
    show ?thesis
    proof (cases "readPrelude c (take 12 bs)")
      case (Inl e)
      with going 1(2) show ?thesis by (simp add: flat_drain.simps [of c p bs])
    next
      case (Inr nh)
      then obtain n h where nh: "readPrelude c (take 12 bs) = Inr (n, h)" by (cases nh) auto
      from readPrelude_bounds [OF nh] have "n \<le> maxFrameBytes c" by simp
      with 1(1) [OF _ _ nh refl] 1(2) going show ?thesis
        by (cases "length bs < n") (auto simp: flat_drain.simps [of c p bs] nh split: sum.splits)
    qed
  qed
qed

lemma normalizeLimit_minimum:
  "normalizeLimit v fallback minimum name = Inr n \<Longrightarrow> minimum \<le> fallback \<Longrightarrow> minimum \<le> n"
  by (auto simp: normalizeLimit_def le_nat_iff le_floor_iff split: option.splits double.splits if_splits)

lemma opt_then_Inr: "opt_then r f = Inr y \<longleftrightarrow> (\<exists>x. r = Inr x \<and> f x = Inr y)"
  by (cases r) (auto simp: opt_then_def)

lemma config_frame_bytes:
  assumes "new_config re opts = Inr c"
  shows "16 \<le> maxFrameBytes c"
proof -
  from assms have "normalizeLimit (o_maxFrameBytes opts) DEFAULT_MAX_FRAME_BYTES MIN_FRAME_BYTES
       ''maxFrameBytes'' = Inr (maxFrameBytes c)"
    by (auto simp: new_config_def opt_then_Inr split: prod.splits)
  from normalizeLimit_minimum [OF this] show ?thesis
    by (simp add: DEFAULT_MAX_FRAME_BYTES_def MIN_FRAME_BYTES_def)
qed

lemma feed_within:
  assumes "16 \<le> maxFrameBytes c" "feed c new_parser received = (p, es)"
  shows "within_stream_limits c p" "length (queue_bytes (bytes p)) < maxFrameBytes c"
    "failed p \<Longrightarrow> queue_bytes (bytes p) = []"
proof -
  have "within_stream_limits c (rebase emptyQueue es p)" by (rule limits.feed_keeps [OF within_new assms(2)])
  then show "within_stream_limits c p" by (simp add: within_stream_limits_def counts_def sizes_def)
  have "unbuffered new_parser = new_parser" "queue_bytes (bytes new_parser) = []"
    by (simp_all add: unbuffered_def new_parser_def)
  with feed_flat(2) [OF stream_ok_new assms(2)]
  have "flat_drain c new_parser (concat received) = (rebase emptyQueue es p, queue_bytes (bytes p))" by simp
  with waiting_bytes [OF assms(1), of new_parser "concat received"]
  show "length (queue_bytes (bytes p)) < maxFrameBytes c" "failed p \<Longrightarrow> queue_bytes (bytes p) = []"
    by simp_all
qed

end
