(* ===== verification/Schema_Meaning.thy ===== *)
theory Schema_Meaning
  imports Tool_Schema
begin

text \<open>
  What the schema validator of \<^verbatim>\<open>src/main/gateway/kiro-event-stream.ts\<close> accepts, in the words of
  JSON Schema and with none of the validator's helpers: when two values are the same, which type
  names fit a value, what a limit is, when a number is a multiple, which schema a property of an
  object has to satisfy. The proofs relate the two, check by check. The validator compares values by
  canonical texts; that this is sameness needs that such a text can be read back, its quoted strings,
  its bare values and what its commas separate.
\<close>

section \<open>Values that are the same\<close>

text \<open>
  Two values are the same if they have the same structure, whatever the order of the properties of
  their objects. \<open>JNum\<close> is compared by the decimal text of the number; an infinite number, which no
  JSON text denotes, counts as \<open>null\<close>.
\<close>

definition values_at :: "(js_text \<times> 'a) list \<Rightarrow> js_text \<Rightarrow> 'a list" where
  "values_at ps k = map snd (filter (\<lambda>p. fst p = k) ps)"

inductive same_json :: "json \<Rightarrow> json \<Rightarrow> bool" where
  same_null: "same_json JNull JNull"
| same_bool: "same_json (JBool b) (JBool b)"
| same_string: "same_json (JStr s) (JStr s)"
| same_number: "json_number x = json_number y \<Longrightarrow> same_json (JNum x) (JNum y)"
| null_number: "\<forall>q. x \<noteq> Num q \<Longrightarrow> same_json JNull (JNum x)"
| number_null: "\<forall>q. x \<noteq> Num q \<Longrightarrow> same_json (JNum x) JNull"
| same_array: "list_all2 same_json vs ws \<Longrightarrow> same_json (JArr vs) (JArr ws)"
| same_object: "\<forall>k. list_all2 same_json (values_at ps k) (values_at qs k) \<Longrightarrow> same_json (JObj ps) (JObj qs)"
monos list_all2_mono

section \<open>Reading canonical texts back\<close>

text \<open>The units that end a value inside an array or an object.\<close>

definition ends_value :: "js_text \<Rightarrow> bool" where
  "ends_value r \<longleftrightarrow> r = [] \<or> hd r \<in> {44, 93, 125}"

lemma ends_value_simps [simp]: "ends_value []" "ends_value (u # r) \<longleftrightarrow> u = 44 \<or> u = 93 \<or> u = 125"
  by (simp_all add: ends_value_def)

text \<open>Numbers, truth values and \<open>null\<close>: no unit of them means anything else in JSON.\<close>

definition bare :: "js_text \<Rightarrow> bool" where
  "bare s \<longleftrightarrow> s \<noteq> [] \<and> list_all (\<lambda>u. u \<notin> {34, 44, 91, 93, 123, 125}) s"

lemma bare_split:
  assumes "bare s" "bare t" "ends_value r" "ends_value r'" "s @ r = t @ r'"
  shows "s = t \<and> r = r'"
proof -
  let ?in = "\<lambda>u. u \<notin> {34, 44, 91, 93, 123, 125 :: nat}"
  have cut: "takeWhile ?in (x @ y) = x" if "bare x" "ends_value y" for x y
    using that by (cases y) (auto simp: bare_def list_all_iff takeWhile_append2)
  have "s = t" using cut [OF assms(1,3)] cut [OF assms(2,4)] unfolding assms(5) by (rule trans [OF sym])
  with assms(5) show ?thesis by simp
qed

definition plain_unit :: "nat \<Rightarrow> bool" where
  "plain_unit u \<longleftrightarrow> u \<in> {43, 45, 46, 101} \<or> is_digit u"

lemma plain_nat: "list_all plain_unit (text_of_nat n)" "text_of_nat n \<noteq> []"
proof (induction n rule: show_nat.induct)
  case (1 n)
  {
    case 1
    then show ?case using "1.IH"(1)
      by (subst text_of_nat_def, subst show_nat.simps)
        (auto simp: text_of_nat_def utf16_def list_all_iff of_char_digit_char plain_unit_def is_digit_def)
  next
    case 2
    then show ?case by (simp add: text_of_nat_def utf16_def show_nat_nonempty)
  }
qed

lemma plain_take: "list_all plain_unit s \<Longrightarrow> list_all plain_unit (take n s)"
  "list_all plain_unit s \<Longrightarrow> list_all plain_unit (drop n s)"
  "plain_unit u \<Longrightarrow> list_all plain_unit (replicate n u)"
  by (auto simp: list_all_iff dest: in_set_takeD in_set_dropD)

lemma plain_positive: "list_all plain_unit (positive_text q)" "positive_text q \<noteq> []"
proof -
  have "plain_unit 46" "plain_unit 101" "plain_unit 43" "plain_unit 45" "plain_unit 48"
    by (simp_all add: plain_unit_def is_digit_def)
  then show "list_all plain_unit (positive_text q)"
    by (simp add: positive_text_def Let_def plain_nat plain_take split: prod.split)
  show "positive_text q \<noteq> []"
    by (auto simp: positive_text_def Let_def plain_nat split: prod.splits)
qed

lemma finite_number: "list_all plain_unit (json_number (Num q)) \<and> json_number (Num q) \<noteq> []"
  by (simp add: plain_positive) (simp add: plain_unit_def is_digit_def)

lemma plain_bare: "list_all plain_unit s \<Longrightarrow> s \<noteq> [] \<Longrightarrow> bare s"
  by (auto simp: bare_def plain_unit_def is_digit_def list_all_iff)

lemma bare_words: "bare (utf16 ''null'')" "bare (utf16 ''true'')" "bare (utf16 ''false'')"
  by (simp_all add: bare_def utf16_def)

lemma bare_number: "bare (json_number x)"
  using finite_number plain_bare bare_words(1) by (cases x) (auto simp del: json_number.simps(1))

lemma words_differ:
  "utf16 w = json_number (Num q) \<Longrightarrow> \<not> list_ex (\<lambda>c. (of_char c :: nat) \<in> {108, 117}) w"
proof
  assume w: "utf16 w = json_number (Num q)" and "list_ex (\<lambda>c. (of_char c :: nat) \<in> {108, 117}) w"
  then obtain c where "c \<in> set w" "(of_char c :: nat) \<in> {108, 117}" by (auto simp: list_ex_iff)
  then have "(of_char c :: nat) \<in> set (utf16 w)" and "\<not> plain_unit (of_char c)"
    by (auto simp: utf16_def plain_unit_def is_digit_def)
  with finite_number [of q] show False unfolding w list_all_iff by blast
qed

text \<open>A quoted text ends where the lexer of JSON texts says.\<close>

lemma hex_char_digit: "n < 16 \<Longrightarrow> hex_digit (hex_char n) = Some n"
  by (auto simp: hex_char_def hex_digit_def is_digit_def)

lemma lex_escape:
  assumes "u < 65536" "lex_string r = Some (t, r')"
  shows "lex_string (unicode_escape u @ r) = Some (u # t, r')"
proof -
  have "u div 4096 < 16" using assms(1) by simp
  then have "hex4 (hex_char (u div 4096)) (hex_char (u div 256 mod 16)) (hex_char (u div 16 mod 16)) (hex_char (u mod 16))
     = Some (((u div 4096 * 16 + u div 256 mod 16) * 16 + u div 16 mod 16) * 16 + u mod 16)"
    by (simp add: hex4_def hex_char_digit)
  moreover have "((u div 4096 * 16 + u div 256 mod 16) * 16 + u div 16 mod 16) * 16 + u mod 16 = u"
  proof -
    have "u div 4096 = u div 16 div 16 div 16" "u div 256 = u div 16 div 16"
      by (simp_all add: div_mult2_eq [symmetric])
    then show ?thesis by (simp only: div_mult_mod_eq)
  qed
  ultimately have "hex4 (hex_char (u div 4096)) (hex_char (u div 256 mod 16)) (hex_char (u div 16 mod 16)) (hex_char (u mod 16))
     = Some u" by simp
  moreover have "lex_string ([92, 117, a, b, c, d] @ r) = Some (u # t, r')" if "hex4 a b c d = Some u" for a b c d
    using assms(2) that by (simp add: prepend_def)
  ultimately show ?thesis unfolding unicode_escape_def by blast
qed

lemma lex_unit:
  assumes "lex_string r = Some (t, r')"
  shows "lex_string (quote_unit u @ r) = Some (u # t, r')"
proof (cases "map_of [(8 :: nat, 98 :: nat), (9, 116), (10, 110), (12, 102), (13, 114), (34, 34), (92, 92)] u")
  case None
  then have "u \<noteq> 34" "u \<noteq> 92" by (auto split: if_splits)
  with None assms lex_escape [of u r t r'] show ?thesis
    by (auto simp: quote_unit_def prepend_def simp del: map_of.simps)
next
  case (Some e)
  then have "e \<noteq> 117 \<and> escaped e = Some u" by (auto simp: escaped_def split: if_splits)
  with Some assms show ?thesis by (simp add: quote_unit_def prepend_def del: map_of.simps)
qed

lemma lex_pair:
  "high_surrogate u \<Longrightarrow> low_surrogate v \<Longrightarrow> lex_string r = Some (t, r') \<Longrightarrow> lex_string (u # v # r) = Some (u # v # t, r')"
  by (simp add: high_surrogate_def low_surrogate_def prepend_def)

lemma lex_quote: "lex_string (quote_units s @ 34 # r) = Some (s, r)"
proof (induction s rule: quote_units.induct)
  case 1
  show ?case by simp
next
  case (2 u s)
  have small: "u < 65536" if "high_surrogate u \<or> low_surrogate u"
    using that by (auto simp: high_surrogate_def low_surrogate_def)
  show ?case
  proof (cases "high_surrogate u")
    case True
    show ?thesis
    proof (cases s)
      case Nil
      then show ?thesis using True lex_escape [OF small, of "34 # r" "[]" r] by simp
    next
      case (Cons v s')
      show ?thesis
      proof (cases "low_surrogate v")
        case True
        then show ?thesis
          using \<open>high_surrogate u\<close> Cons lex_pair [OF \<open>high_surrogate u\<close> True "2.IH"(1) [OF \<open>high_surrogate u\<close> Cons True]]
          by (simp del: lex_string.simps)
      next
        case False
        then show ?thesis
          using \<open>high_surrogate u\<close> Cons lex_escape [OF small "2.IH"(2) [OF \<open>high_surrogate u\<close> Cons False]]
          by (simp del: lex_string.simps)
      qed
    qed
  next
    case False
    show ?thesis
    proof (cases "low_surrogate u")
      case True
      then show ?thesis using False lex_escape [OF small "2.IH"(3) [OF False True]] by (simp del: lex_string.simps)
    next
      case low: False
      then show ?thesis using False lex_unit [OF "2.IH"(4) [OF False low], of u] by (simp del: lex_string.simps)
    qed
  qed
qed

lemma quote_split: "json_quote s @ r = json_quote t @ r' \<longleftrightarrow> s = t \<and> r = r'"
proof
  assume "json_quote s @ r = json_quote t @ r'"
  then have "quote_units s @ 34 # r = quote_units t @ 34 # r'" by (simp add: json_quote_def)
  with lex_quote [of s r] have "lex_string (quote_units t @ 34 # r') = Some (s, r)" by (simp only:)
  with lex_quote [of t r'] show "s = t \<and> r = r'" by (simp only: option.inject prod.inject)
qed simp

text \<open>Values joined by commas.\<close>

lemma comma_join_Cons: "comma_join (s # ss) = s @ (if ss = [] then [] else 44 # comma_join ss)"
  by (cases ss) simp_all

definition separable :: "js_text \<Rightarrow> js_text \<Rightarrow> bool" where
  "separable s t \<longleftrightarrow> (\<forall>r r'. ends_value r \<longrightarrow> ends_value r' \<longrightarrow> s @ r = t @ r' \<longrightarrow> s = t \<and> r = r')"

lemma commas_split:
  assumes "\<forall>s \<in> set ss. \<forall>t \<in> set ts. separable s t" and "\<forall>s \<in> set ss \<union> set ts. \<not> ends_value s"
    and "comma_join ss @ c # r = comma_join ts @ c # r'" and "c \<in> {93, 125}"
  shows "ss = ts \<and> r = r'"
  using assms(1-3)
proof (induction ss arbitrary: ts)
  case Nil
  then show ?case using assms(4) by (cases ts) (auto simp: comma_join_Cons ends_value_def Cons_eq_append_conv)
next
  case (Cons s ss)
  have c: "ends_value (c # x)" "c \<noteq> 44" for x using assms(4) by auto
  show ?case
  proof (cases ts)
    case Nil
    then show ?thesis
      using Cons.prems(2,3) c by (auto simp: comma_join_Cons ends_value_def append_eq_Cons_conv)
  next
    case (Cons t us)
    let ?tail = "\<lambda>xs x. if xs = [] then c # x else 44 # comma_join xs @ c # x"
    have "s @ ?tail ss r = t @ ?tail us r'" using Cons.prems(3) Cons by (simp add: comma_join_Cons split: if_splits)
    moreover have "separable s t" using Cons.prems(1) Cons by simp
    moreover have "ends_value (?tail ss r)" "ends_value (?tail us r')" using c by auto
    ultimately have st: "s = t" and tail: "?tail ss r = ?tail us r'" unfolding separable_def by blast+
    have "ss = us \<and> r = r'"
    proof (cases "ss = [] \<or> us = []")
      case True
      then show ?thesis using tail c(2) by (auto split: if_splits)
    next
      case False
      then have "comma_join ss @ c # r = comma_join us @ c # r'" using tail by simp
      with Cons.IH [of us] Cons.prems(1,2) Cons show ?thesis by auto
    qed
    with st Cons show ?thesis by simp
  qed
qed

section \<open>Sorting the properties\<close>

lemma text_le_refl: "text_le s s"
  by (induction s) simp_all

lemma text_le_trans: "text_le s t \<Longrightarrow> text_le t r \<Longrightarrow> text_le s r"
proof (induction s t arbitrary: r rule: text_le.induct)
  case (3 u s v t)
  then show ?case by (cases r) auto
qed auto

lemma text_le_total: "text_le s t \<or> text_le t s"
  by (induction s t rule: text_le.induct) auto

lemma text_le_antisym: "text_le s t \<Longrightarrow> text_le t s \<Longrightarrow> s = t"
proof (induction s t rule: text_le.induct)
  case (1 t)
  then show ?case by (cases t) simp_all
qed auto

abbreviation key_le :: "js_text \<times> 'a \<Rightarrow> js_text \<times> 'a \<Rightarrow> bool" where
  "key_le a b \<equiv> text_le (fst a) (fst b)"

lemma sorted_insert: "sorted_wrt key_le xs \<Longrightarrow> sorted_wrt key_le (insert_by key_le x xs)"
proof (induction xs)
  case (Cons y ys)
  have "set (insert_by key_le x ys) = insert x (set ys)"
    using mset_insert_by [of key_le x ys] by (metis set_mset_add_mset_insert set_mset_mset)
  with Cons text_le_total [of "fst x" "fst y"] text_le_trans [of "fst x" "fst y"] show ?case by auto
qed simp

lemma sorted_sort: "sorted_wrt key_le (sort_by key_le xs)"
  by (induction xs) (simp_all add: sorted_insert)

lemma insert_at:
  "sorted_wrt key_le xs \<Longrightarrow>
    filter (\<lambda>p. fst p = k) (insert_by key_le x xs) = filter (\<lambda>p. fst p = k) xs @ (if fst x = k then [x] else [])"
proof (induction xs)
  case (Cons y ys)
  show ?case
  proof (cases "key_le y x")
    case False
    then have "fst z \<noteq> fst x" if "z \<in> set (y # ys)" for z using that Cons.prems text_le_refl [of "fst x"] by auto
    then have "filter (\<lambda>p. fst p = k) (y # ys) = []" if "fst x = k" using that by (auto simp: filter_empty_conv)
    with False show ?thesis by auto
  qed (use Cons in auto)
qed simp

lemma sort_at: "filter (\<lambda>p. fst p = k) (sort_by key_le xs) = rev (filter (\<lambda>p. fst p = k) xs)"
  by (induction xs) (simp_all add: insert_at sorted_sort)

lemma sorted_unique:
  assumes "sorted_wrt key_le xs" "sorted_wrt key_le ys" "\<forall>k. filter (\<lambda>p. fst p = k) xs = filter (\<lambda>p. fst p = k) ys"
  shows "xs = ys"
  using assms
proof (induction xs arbitrary: ys)
  case Nil
  show ?case using Nil.prems(3) [rule_format, of "fst (hd ys)"] by (cases ys) simp_all
next
  case (Cons x xs)
  have keys: "\<exists>q \<in> set bs. fst q = fst p" if "p \<in> set as" "\<forall>k. filter (\<lambda>p. fst p = k) as = filter (\<lambda>p. fst p = k) bs"
    for p :: "js_text \<times> 'a" and as bs
    using that by (metis (mono_tags, lifting) filter_empty_conv)
  obtain y ys' where ys: "ys = y # ys'" using keys [of x "x # xs" ys] Cons.prems(3) by (cases ys) auto
  have "key_le y x"
    using keys [of x "x # xs" ys] Cons.prems(2,3) text_le_refl [of "fst y"] unfolding ys by force
  moreover have "key_le x y"
    using keys [of y ys "x # xs"] Cons.prems(1,3) text_le_refl [of "fst x"] unfolding ys by force
  ultimately have k: "fst x = fst y" by (rule text_le_antisym [rotated])
  have xy: "x = y" using Cons.prems(3) [rule_format, of "fst x"] k by (simp add: ys)
  have "filter (\<lambda>p. fst p = k) xs = filter (\<lambda>p. fst p = k) ys'" for k
    using Cons.prems(3) [rule_format, of k] by (auto simp: ys xy split: if_splits)
  with Cons xy show ?case by (simp add: ys)
qed

lemma sort_equal:
  "sort_by key_le xs = sort_by key_le ys \<longleftrightarrow> (\<forall>k. values_at xs k = values_at ys k)"
proof -
  have v: "filter (\<lambda>p. fst p = k) xs = filter (\<lambda>p. fst p = k) ys \<longleftrightarrow> values_at xs k = values_at ys k" for k
  proof -
    have "filter (\<lambda>p. fst p = k) zs = map (Pair k) (values_at zs k)" for zs :: "(js_text \<times> 'a) list"
      by (induction zs) (auto simp: values_at_def)
    then show ?thesis by (metis values_at_def)
  qed
  have "sort_by key_le xs = sort_by key_le ys \<longleftrightarrow> (\<forall>k. filter (\<lambda>p. fst p = k) xs = filter (\<lambda>p. fst p = k) ys)"
    using sorted_unique [OF sorted_sort sorted_sort, of xs ys] by (metis sort_at rev_is_rev_conv)
  with v show ?thesis by simp
qed

section \<open>Canonical texts\<close>

definition object_entry :: "js_text \<times> js_text \<Rightarrow> js_text" where
  "object_entry = (\<lambda>(k, s). json_quote k @ [58] @ s)"

lemma canonical_object:
  "canonicalJson (JObj ps) = 123 # comma_join (map object_entry (sort_by key_le (map (\<lambda>(k, v). (k, canonicalJson v)) ps))) @ [125]"
  by (simp add: object_entry_def)

lemma bare_json:
  "bare (canonicalJson JNull)" "bare (canonicalJson (JBool b))" "bare (canonicalJson (JNum x))"
  using bare_number bare_words by simp_all

lemma bare_begins: "bare s \<Longrightarrow> \<not> ends_value s"
  by (cases s) (simp_all add: bare_def)

lemma canonical_begins: "\<not> ends_value (canonicalJson v)"
proof (cases v)
  case (JObj ps)
  then show ?thesis unfolding JObj canonical_object by simp
next
  case (JStr s)
  then show ?thesis by (simp add: json_quote_def)
next
  case (JArr vs)
  then show ?thesis by simp
qed (use bare_begins bare_json in blast)+

lemma entry_begins: "\<not> ends_value (object_entry e)"
  by (simp add: object_entry_def json_quote_def split: prod.split)

lemma entries_separable: "separable s t \<Longrightarrow> separable (object_entry (k, s)) (object_entry (l, t))"
  by (simp add: separable_def object_entry_def quote_split)

text \<open>The first unit tells strings, arrays, objects and bare values apart.\<close>

lemma first_units:
  "hd (canonicalJson (JStr s)) = 34" "hd (canonicalJson (JArr vs)) = 91" "hd (canonicalJson (JObj ps)) = 123"
  by (simp_all add: json_quote_def)

lemma bare_hd: "bare s \<Longrightarrow> hd s \<noteq> 34 \<and> hd s \<noteq> 91 \<and> hd s \<noteq> 123"
  by (cases s) (simp_all add: bare_def)

lemma separable_first: "hd (canonicalJson a) \<noteq> hd (canonicalJson b) \<Longrightarrow> separable (canonicalJson a) (canonicalJson b)"
  unfolding separable_def by (metis canonical_begins ends_value_def hd_append2)

lemma separable_bare: "bare (canonicalJson a) \<Longrightarrow> separable (canonicalJson a) (canonicalJson b)"
proof (cases b)
  case (JStr s)
  assume "bare (canonicalJson a)"
  then show ?thesis using separable_first [of a b] bare_hd first_units JStr by metis
next
  case (JArr vs)
  assume "bare (canonicalJson a)"
  then show ?thesis using separable_first [of a b] bare_hd first_units JArr by metis
next
  case (JObj ps)
  assume "bare (canonicalJson a)"
  then show ?thesis using separable_first [of a b] bare_hd first_units JObj by metis
qed (use bare_split bare_json in \<open>auto simp: separable_def simp del: canonicalJson.simps\<close>)

lemma separable_sym: "separable s t \<Longrightarrow> separable t s"
  unfolding separable_def by metis

text \<open>A canonical text never runs on into what follows it.\<close>

lemma canonical_separable: "separable (canonicalJson a) (canonicalJson b)"
proof (induction a arbitrary: b)
  case (JArr vs)
  show ?case
  proof (cases b)
    case b: (JArr ws)
    have "map canonicalJson vs = map canonicalJson ws \<and> r = r'"
      if "comma_join (map canonicalJson vs) @ 93 # r = comma_join (map canonicalJson ws) @ 93 # r'" for r r'
      by (rule commas_split [OF _ _ that]) (use JArr.IH canonical_begins in auto)
    then show ?thesis by (auto simp: separable_def b)
  qed (use separable_bare [OF bare_json(1)] separable_bare [OF bare_json(2)] separable_bare [OF bare_json(3)]
        separable_first [of "JArr vs"] first_units in \<open>auto intro: separable_sym simp del: canonicalJson.simps\<close>)
next
  case (JObj ps)
  let ?e = "\<lambda>ps. map object_entry (sort_by key_le (map (\<lambda>(k, v). (k, canonicalJson v)) ps))"
  show ?case
  proof (cases b)
    case b: (JObj qs)
    have "?e ps = ?e qs \<and> r = r'"
      if eq: "comma_join (?e ps) @ 125 # r = comma_join (?e qs) @ 125 # r'" for r r'
    proof (rule commas_split [OF _ _ eq])
      show "\<forall>s \<in> set (?e ps). \<forall>t \<in> set (?e qs). separable s t"
        using JObj.IH entries_separable by fastforce
    qed (auto simp: entry_begins)
    then show ?thesis unfolding separable_def b canonical_object by auto
  qed (use separable_bare [OF bare_json(1)] separable_bare [OF bare_json(2)] separable_bare [OF bare_json(3)]
        separable_first [of "JObj ps"] first_units in \<open>auto intro: separable_sym simp del: canonicalJson.simps\<close>)
next
  case (JStr s)
  show ?case
  proof (cases b)
    case b: (JStr t)
    then show ?thesis by (simp add: separable_def quote_split)
  qed (use separable_bare [OF bare_json(1)] separable_bare [OF bare_json(2)] separable_bare [OF bare_json(3)]
        separable_first [of "JStr s"] first_units in \<open>auto intro: separable_sym simp del: canonicalJson.simps\<close>)
qed (use separable_bare [OF bare_json(1)] separable_bare [OF bare_json(2)] separable_bare [OF bare_json(3)] in
      \<open>simp_all del: canonicalJson.simps\<close>)

lemma array_equal:
  "canonicalJson (JArr vs) = canonicalJson (JArr ws) \<longleftrightarrow> map canonicalJson vs = map canonicalJson ws"
proof
  assume "canonicalJson (JArr vs) = canonicalJson (JArr ws)"
  then have "comma_join (map canonicalJson vs) @ 93 # [] = comma_join (map canonicalJson ws) @ 93 # []" by simp
  from commas_split [OF _ _ this] show "map canonicalJson vs = map canonicalJson ws"
    using canonical_separable canonical_begins by auto
qed simp

lemma object_equal:
  "canonicalJson (JObj ps) = canonicalJson (JObj qs) \<longleftrightarrow>
    (\<forall>k. map canonicalJson (values_at ps k) = map canonicalJson (values_at qs k))"
proof -
  let ?s = "\<lambda>ps. sort_by key_le (map (\<lambda>(k, v). (k, canonicalJson v)) ps)"
  have each: "values_at (map (\<lambda>(k, v). (k, canonicalJson v)) ps) k = map canonicalJson (values_at ps k)" for ps k
    by (induction ps) (auto simp: values_at_def)
  have inj: "inj object_entry"
    by (rule injI) (auto simp: object_entry_def quote_split)
  have "canonicalJson (JObj ps) = canonicalJson (JObj qs) \<longleftrightarrow> map object_entry (?s ps) = map object_entry (?s qs)"
  proof
    assume "canonicalJson (JObj ps) = canonicalJson (JObj qs)"
    then have *: "comma_join (map object_entry (?s ps)) @ 125 # [] = comma_join (map object_entry (?s qs)) @ 125 # []"
      unfolding canonical_object by simp
    show "map object_entry (?s ps) = map object_entry (?s qs)"
    proof (rule conjunct1 [OF commas_split [OF _ _ *]])
      show "\<forall>s \<in> set (map object_entry (?s ps)). \<forall>t \<in> set (map object_entry (?s qs)). separable s t"
        using canonical_separable entries_separable by fastforce
    qed (auto simp: entry_begins)
  qed (simp only: canonical_object)
  also have "\<dots> \<longleftrightarrow> ?s ps = ?s qs" by (rule inj_map_eq_map [OF inj])
  finally show ?thesis by (simp only: sort_equal each)
qed

text \<open>The texts are equal exactly for values that are the same.\<close>

lemma same_canonical: "same_json a b \<Longrightarrow> canonicalJson a = canonicalJson b"
proof (induction rule: same_json.induct)
  case (same_array vs ws)
  then have "map canonicalJson vs = map canonicalJson ws"
    by (simp add: list_all2_conv_all_nth list_eq_iff_nth_eq)
  then show ?case by (simp only: array_equal)
next
  case (same_object ps qs)
  then have "map canonicalJson (values_at ps k) = map canonicalJson (values_at qs k)" for k
    by (simp add: list_all2_conv_all_nth list_eq_iff_nth_eq)
  then show ?case unfolding object_equal by blast
next
  case (null_number x)
  then show ?case by (cases x) simp_all
next
  case (number_null x)
  then show ?case by (cases x) simp_all
qed simp_all

lemma bare_equal:
  "canonicalJson JNull = canonicalJson b \<Longrightarrow> same_json JNull b"
  "canonicalJson (JBool t) = canonicalJson b \<Longrightarrow> same_json (JBool t) b"
  "canonicalJson (JNum x) = canonicalJson b \<Longrightarrow> same_json (JNum x) b"
proof -
  have word: "utf16 ''null'' \<noteq> json_number (Num q)" "utf16 ''true'' \<noteq> json_number (Num q)"
    "utf16 ''false'' \<noteq> json_number (Num q)" for q
    using words_differ [of "''null''" q] words_differ [of "''true''" q] words_differ [of "''false''" q] by auto
  note word' = word [symmetric]
  have other: "\<exists>u \<in> {34, 91, 123}. hd (canonicalJson b) = u" if "\<forall>t y. b \<noteq> JNull \<and> b \<noteq> JBool t \<and> b \<noteq> JNum y"
    using that first_units by (cases b) auto
  have bare: "\<exists>t y. b = JNull \<or> b = JBool t \<or> b = JNum y" if "canonicalJson a = canonicalJson b" "bare (canonicalJson a)" for a
    using that other bare_hd [of "canonicalJson b"] by auto
  show "canonicalJson JNull = canonicalJson b \<Longrightarrow> same_json JNull b"
  proof -
    assume eq: "canonicalJson JNull = canonicalJson b"
    show "same_json JNull b"
    proof (cases b)
      case (JNum y)
      then show ?thesis using eq word by (cases y) (auto intro: same_json.intros simp del: json_number.simps(1))
    qed (use bare [OF eq bare_json(1)] eq in \<open>auto intro: same_json.intros split: if_splits\<close>)
  qed
  show "canonicalJson (JBool t) = canonicalJson b \<Longrightarrow> same_json (JBool t) b"
  proof -
    assume eq: "canonicalJson (JBool t) = canonicalJson b"
    show "same_json (JBool t) b"
    proof (cases b)
      case (JNum y)
      then show ?thesis using eq word by (cases y) (auto simp del: json_number.simps(1) split: if_splits)
    qed (use bare [OF eq bare_json(2)] eq in \<open>auto intro: same_json.intros split: if_splits\<close>)
  qed
  show "canonicalJson (JNum x) = canonicalJson b \<Longrightarrow> same_json (JNum x) b"
  proof -
    assume eq: "canonicalJson (JNum x) = canonicalJson b"
    show "same_json (JNum x) b"
    proof (cases b)
      case JNull
      then show ?thesis using eq word' by (cases x) (auto intro: same_json.intros simp del: json_number.simps(1))
    next
      case (JBool t)
      then show ?thesis using eq word' by (cases x) (auto simp del: json_number.simps(1) split: if_splits)
    next
      case (JNum y)
      then show ?thesis using eq by (auto intro: same_json.intros)
    qed (use bare [OF eq bare_json(3)] in auto)
  qed
qed

lemma canonical_same: "canonicalJson a = canonicalJson b \<Longrightarrow> same_json a b"
proof (induction a arbitrary: b)
  case (JStr s)
  have "hd (canonicalJson b) = 34" using JStr first_units(1) [of s] by (simp only:)
  then obtain t where "b = JStr t" using first_units bare_hd bare_json by (cases b) auto
  with JStr quote_split [of s "[]" t "[]"] show ?case by (auto intro: same_json.intros)
next
  case (JArr vs)
  have "hd (canonicalJson b) = 91" using JArr.prems first_units(2) [of vs] by (simp only:)
  then obtain ws where b: "b = JArr ws" using first_units bare_hd bare_json by (cases b) auto
  have "list_all2 same_json vs ws"
    using JArr.prems JArr.IH unfolding b array_equal by (auto simp: list_all2_conv_all_nth list_eq_iff_nth_eq)
  then show ?case unfolding b by (rule same_array)
next
  case (JObj ps)
  have "hd (canonicalJson b) = 123" using JObj.prems first_units(3) [of ps] by (simp only:)
  then obtain qs where b: "b = JObj qs" using first_units bare_hd bare_json by (cases b) auto
  have "list_all2 same_json (values_at ps k) (values_at qs k)" for k
  proof -
    have IH: "same_json v w" if "v \<in> set (values_at ps k)" "canonicalJson v = canonicalJson w" for v w
      using that JObj.IH [of _ v w] by (auto simp: values_at_def)
    have "map canonicalJson (values_at ps k) = map canonicalJson (values_at qs k)"
      using JObj.prems unfolding b object_equal by blast
    with IH show ?thesis by (auto simp: list_all2_conv_all_nth list_eq_iff_nth_eq)
  qed
  then show ?case unfolding b by (intro same_object) blast
qed (use bare_equal in blast)+

lemma same_json_exact: "jsonValuesEqual a b \<longleftrightarrow> same_json a b"
  unfolding jsonValuesEqual_def using same_canonical canonical_same by blast

section \<open>What a schema demands\<close>

text \<open>A condition on a keyword that may be absent.\<close>

definition keyword_holds :: "properties \<Rightarrow> string \<Rightarrow> (json \<Rightarrow> bool) \<Rightarrow> bool" where
  "keyword_holds schema name p = (case obj_get schema name of None \<Rightarrow> True | Some x \<Rightarrow> p x)"

text \<open>The names of the types a value has: a finite number is a \<^verbatim>\<open>number\<close>, a whole one an \<^verbatim>\<open>integer\<close> too.\<close>

inductive has_type :: "json \<Rightarrow> string \<Rightarrow> bool" where
  "has_type JNull ''null''"
| "has_type (JBool b) ''boolean''"
| "has_type (JStr s) ''string''"
| "has_type (JArr vs) ''array''"
| "has_type (JObj ps) ''object''"
| "has_type (JNum (Num q)) ''number''"
| "has_type (JNum (Num (of_int z))) ''integer''"

definition of_type :: "json \<Rightarrow> json \<Rightarrow> bool" where
  "of_type v t \<longleftrightarrow>
     (\<exists>name. has_type v name \<and> (t = JStr (utf16 name) \<or> (\<exists>ts. t = JArr ts \<and> JStr (utf16 name) \<in> set ts)))"

text \<open>A limit on a length is a natural number that a double holds exactly.\<close>

definition length_limit :: "properties \<Rightarrow> string \<Rightarrow> nat \<Rightarrow> bool" where
  "length_limit schema name k \<longleftrightarrow> k < 2 ^ 53 \<and> obj_get schema name = Some (JNum (Num (of_nat k)))"

definition length_holds :: "properties \<Rightarrow> string \<Rightarrow> string \<Rightarrow> nat \<Rightarrow> bool" where
  "length_holds schema smallest largest n \<longleftrightarrow>
     (\<forall>k. length_limit schema smallest k \<longrightarrow> k \<le> n) \<and> (\<forall>k. length_limit schema largest k \<longrightarrow> n \<le> k)"

definition string_holds :: "regexp_engine \<Rightarrow> js_text \<Rightarrow> properties \<Rightarrow> bool" where
  "string_holds re s schema \<longleftrightarrow>
     length_holds schema ''minLength'' ''maxLength'' (code_points s)
     \<and> (\<forall>p. obj_get schema ''pattern'' = Some (JStr p) \<longrightarrow> (\<exists>matching. re p = Some matching \<and> matching s))"

text \<open>The order of the numbers, with the two infinities; \<^const>\<open>NaN\<close> compares with nothing.\<close>

inductive smaller :: "double \<Rightarrow> double \<Rightarrow> bool" where
  "a < b \<Longrightarrow> smaller (Num a) (Num b)"
| "smaller NegInf (Num a)"
| "smaller (Num a) PosInf"
| "smaller NegInf PosInf"

text \<open>
  A multiple: the quotient, rounded to a double, differs from the nearest whole number by at most
  eight units of relative rounding error.
\<close>

inductive rounded_quotient :: "double \<Rightarrow> double \<Rightarrow> rat \<Rightarrow> bool" where
  "to_double (a / b) = Num q \<Longrightarrow> rounded_quotient (Num a) (Num b) q"
| "rounded_quotient (Num a) PosInf 0"

definition near_integer :: "rat \<Rightarrow> bool" where
  "near_integer q \<longleftrightarrow>
     (\<exists>z :: int. \<exists>d. \<bar>q - of_int z\<bar> \<le> 1 / 2 \<and> to_double \<bar>q - of_int z\<bar> = Num d
        \<and> d \<le> 8 / 2 ^ 52 * max 1 \<bar>q\<bar>)"

definition number_holds :: "double \<Rightarrow> properties \<Rightarrow> bool" where
  "number_holds x schema \<longleftrightarrow>
     (\<forall>m. obj_get schema ''minimum'' = Some (JNum m) \<longrightarrow> \<not> smaller x m)
     \<and> (\<forall>m. obj_get schema ''maximum'' = Some (JNum m) \<longrightarrow> \<not> smaller m x)
     \<and> (\<forall>m. obj_get schema ''exclusiveMinimum'' = Some (JNum m) \<longrightarrow> smaller m x \<or> m = NaN \<or> x = NaN)
     \<and> (\<forall>m. obj_get schema ''exclusiveMaximum'' = Some (JNum m) \<longrightarrow> smaller x m \<or> m = NaN \<or> x = NaN)
     \<and> (\<forall>m. obj_get schema ''multipleOf'' = Some (JNum m) \<longrightarrow> smaller (Num 0) m \<longrightarrow>
           (\<exists>q. rounded_quotient x m q \<and> near_integer q))"

definition array_holds :: "json list \<Rightarrow> properties \<Rightarrow> bool" where
  "array_holds vs schema \<longleftrightarrow>
     length_holds schema ''minItems'' ''maxItems'' (length vs)
     \<and> (obj_get schema ''uniqueItems'' = Some (JBool True) \<longrightarrow>
          (\<forall>i j. i < j \<longrightarrow> j < length vs \<longrightarrow> \<not> same_json (vs ! i) (vs ! j)))"

definition object_holds :: "properties \<Rightarrow> properties \<Rightarrow> bool" where
  "object_holds ps schema \<longleftrightarrow>
     length_holds schema ''minProperties'' ''maxProperties'' (length ps)
     \<and> (\<forall>names name. obj_get schema ''required'' = Some (JArr names) \<longrightarrow> JStr name \<in> set names \<longrightarrow> name \<in> fst ` set ps)"

definition branches_hold :: "(json list \<Rightarrow> bool) \<Rightarrow> json \<Rightarrow> bool" where
  "branches_hold p x \<longleftrightarrow> (\<exists>bs. x = JArr bs \<and> bs \<noteq> [] \<and> p bs)"

text \<open>The schema that \<^verbatim>\<open>properties\<close> declares for a property.\<close>

definition declared_schema :: "properties \<Rightarrow> js_text \<Rightarrow> json option" where
  "declared_schema schema name = (case obj_get schema ''properties'' of Some (JObj qs) \<Rightarrow> map_of qs name | _ \<Rightarrow> None)"

text \<open>
  A property satisfies its declared schema; one without satisfies \<^verbatim>\<open>additionalProperties\<close> if that is a
  schema, an object or a truth value.
\<close>

definition property_holds :: "(json \<Rightarrow> bool) \<Rightarrow> properties \<Rightarrow> js_text \<Rightarrow> bool" where
  "property_holds p schema name \<longleftrightarrow>
     (\<forall>x. declared_schema schema name = Some x \<longrightarrow> p x)
     \<and> (declared_schema schema name = None \<longrightarrow>
          (\<forall>b. obj_get schema ''additionalProperties'' = Some (JBool b) \<longrightarrow> b \<and> p (JBool b))
          \<and> (\<forall>qs. obj_get schema ''additionalProperties'' = Some (JObj qs) \<longrightarrow> p (JObj qs)))"

text \<open>
  A value satisfies a schema whose nested schemas reach at most \<open>n\<close> levels deep, level by level.
\<close>

primrec schema_holds :: "nat \<Rightarrow> regexp_engine \<Rightarrow> json \<Rightarrow> json \<Rightarrow> bool" where
  "schema_holds 0 re v s = False"
| "schema_holds (Suc n) re v s =
     (case s of
        JBool b \<Rightarrow> b
      | JObj schema \<Rightarrow>
          keyword_holds schema ''type'' (of_type v)
          \<and> keyword_holds schema ''enum'' (\<lambda>x. \<forall>cs. x = JArr cs \<longrightarrow> (\<exists>c \<in> set cs. same_json c v))
          \<and> keyword_holds schema ''const'' (\<lambda>c. same_json c v)
          \<and> keyword_holds schema ''allOf'' (branches_hold (list_all (schema_holds n re v)))
          \<and> keyword_holds schema ''anyOf'' (branches_hold (list_ex (schema_holds n re v)))
          \<and> keyword_holds schema ''oneOf'' (branches_hold (\<lambda>bs. \<exists>!i. i < length bs \<and> schema_holds n re v (bs ! i)))
          \<and> keyword_holds schema ''not'' (\<lambda>x. \<not> schema_holds n re v x)
          \<and> (\<forall>s. v = JStr s \<longrightarrow> string_holds re s schema)
          \<and> (\<forall>x. v = JNum x \<longrightarrow> number_holds x schema)
          \<and> (\<forall>vs. v = JArr vs \<longrightarrow> array_holds vs schema
               \<and> keyword_holds schema ''items'' (\<lambda>x. list_all (\<lambda>w. schema_holds n re w x) vs))
          \<and> (\<forall>ps. v = JObj ps \<longrightarrow> object_holds ps schema
               \<and> list_all (\<lambda>(name, w). property_holds (schema_holds n re w) schema name) ps)
      | _ \<Rightarrow> False)"

section \<open>The checks of a node decide its demands\<close>

lemma matches_of_type:
  "matches_type v t \<longleftrightarrow> (\<exists>name. has_type v name \<and> t = JStr (utf16 name))"
proof -
  have whole: "isInteger (Num q) \<longleftrightarrow> (\<exists>z. q = of_int z)" for q by (auto intro: sym)
  show ?thesis
    by (cases v; cases t) (auto simp: matches_type_def has_type.simps whole simp del: isInteger.simps(1) split: double.splits if_splits)
qed

lemma matches_schema_type: "matchesSchemaType v t \<longleftrightarrow> of_type v t"
  by (cases t) (auto simp: matchesSchemaType_def of_type_def matches_of_type list_ex_iff)

lemma type_issue_None:
  "type_issue v schema path = None \<longleftrightarrow>
     keyword_holds schema ''type'' (of_type v)
     \<and> keyword_holds schema ''enum'' (\<lambda>x. \<forall>cs. x = JArr cs \<longrightarrow> (\<exists>c \<in> set cs. same_json c v))
     \<and> keyword_holds schema ''const'' (\<lambda>c. same_json c v)"
  by (auto simp: type_issue_def keyword_holds_def list_ex_iff same_json_exact matches_schema_type
      split: option.splits json.splits)

lemma limit_iff:
  "isNonNegativeInteger (obj_get schema name) = Some q \<longleftrightarrow> (\<exists>k. length_limit schema name k \<and> q = of_nat k)"
proof
  assume "isNonNegativeInteger (obj_get schema name) = Some q"
  then have q: "obj_get schema name = Some (JNum (Num q))" "isSafeInteger (Num q)" "0 \<le> q"
    by (auto simp: isNonNegativeInteger_def split: option.splits json.splits double.splits if_splits)
  then obtain z where z: "q = of_int z" "0 \<le> z" "z \<le> 9007199254740991"
    by (metis abs_of_nonneg isSafeInteger.simps(1) of_int_0_le_iff of_int_le_numeral_iff)
  then have "length_limit schema name (nat z) \<and> q = of_nat (nat z)"
    using q(1) by (simp add: length_limit_def nat_less_iff)
  then show "\<exists>k. length_limit schema name k \<and> q = of_nat k" by blast
next
  assume "\<exists>k. length_limit schema name k \<and> q = of_nat k"
  then obtain k where k: "k < 2 ^ 53" "obj_get schema name = Some (JNum (Num (of_nat k)))" "q = of_nat k"
    by (auto simp: length_limit_def)
  have "(of_nat k :: rat) \<le> of_nat 9007199254740991" using k(1) unfolding of_nat_le_iff by simp
  then show "isNonNegativeInteger (obj_get schema name) = Some q"
    using k by (simp add: isNonNegativeInteger_def)
qed

lemma below_iff: "below n (obj_get schema name) \<longleftrightarrow> (\<exists>k. length_limit schema name k \<and> n < k)"
  and above_iff: "above n (obj_get schema name) \<longleftrightarrow> (\<exists>k. length_limit schema name k \<and> k < n)"
proof -
  have one: "length_limit schema name k \<Longrightarrow> length_limit schema name l \<Longrightarrow> k = l" for k l
    by (simp add: length_limit_def)
  show "below n (obj_get schema name) \<longleftrightarrow> (\<exists>k. length_limit schema name k \<and> n < k)"
    "above n (obj_get schema name) \<longleftrightarrow> (\<exists>k. length_limit schema name k \<and> k < n)"
  proof (atomize (full), cases "isNonNegativeInteger (obj_get schema name)")
    case None
    then have "\<not> length_limit schema name k" for k using limit_iff [of schema name "of_nat k"] by auto
    with None show "(below n (obj_get schema name) \<longleftrightarrow> (\<exists>k. length_limit schema name k \<and> n < k))
      \<and> (above n (obj_get schema name) \<longleftrightarrow> (\<exists>k. length_limit schema name k \<and> k < n))"
      by (simp add: below_def above_def)
  next
    case (Some q)
    then obtain k where "length_limit schema name k" "q = of_nat k" using limit_iff by blast
    with Some one show "(below n (obj_get schema name) \<longleftrightarrow> (\<exists>k. length_limit schema name k \<and> n < k))
      \<and> (above n (obj_get schema name) \<longleftrightarrow> (\<exists>k. length_limit schema name k \<and> k < n))"
      by (auto simp: below_def above_def)
  qed
qed

lemma length_issue_None:
  "\<not> below n (obj_get schema smallest) \<and> \<not> above n (obj_get schema largest) \<longleftrightarrow> length_holds schema smallest largest n"
  by (auto simp: below_iff above_iff length_holds_def not_less)

lemma string_issue_None: "string_issue re s schema path = None \<longleftrightarrow> string_holds re s schema"
  unfolding string_issue_def string_holds_def or_else_None issue_when_None length_issue_None [symmetric]
  by (auto split: option.split json.split)

text \<open>Numbers.\<close>

lemma smaller_iff: "smaller a b \<longleftrightarrow> double_less a b"
  by (cases a; cases b) (auto simp: smaller.simps)

lemma smaller_total: "double_le x m \<longleftrightarrow> \<not> (smaller m x \<or> m = NaN \<or> x = NaN)"
  by (cases x; cases m) (auto simp: smaller.simps double_le_def)

lemma rounded_abs: "to_double \<bar>x\<bar> = (case to_double x of Num d \<Rightarrow> Num \<bar>d\<bar> | NegInf \<Rightarrow> PosInf | y \<Rightarrow> y)"
proof -
  have "0 \<le> round_half_even y" if "0 \<le> y" for y
    using that by (auto simp: round_half_even_def Let_def)
  then have "0 \<le> rat_of_int (round_half_even (\<bar>x\<bar> / pow2 u)) * pow2 u" for u
    by (simp add: pow2_def)
  moreover define v where
    "v = rat_of_int (round_half_even (\<bar>x\<bar> / pow2 (max (floor_log2 \<bar>x\<bar> - 52) (-1074)))) * pow2 (max (floor_log2 \<bar>x\<bar> - 52) (-1074))"
  ultimately have "0 \<le> v" by blast
  then show ?thesis unfolding to_double_def Let_def abs_idempotent v_def [symmetric] by auto
qed

lemma near_integer_exact:
  "near_integer q \<longleftrightarrow>
     (case to_double (q - of_int \<lfloor>q + 1 / 2\<rfloor>) of Num d \<Rightarrow> \<bar>d\<bar> \<le> pow2 (-52) * max 1 \<bar>q\<bar> * 8 | _ \<Rightarrow> False)"
proof -
  let ?k = "\<lfloor>q + 1 / 2\<rfloor>"
  have near: "\<bar>q - of_int ?k\<bar> \<le> 1 / 2" by linarith
  have same: "\<bar>q - of_int z\<bar> = \<bar>q - of_int ?k\<bar>" if "\<bar>q - of_int z\<bar> \<le> 1 / 2" for z
  proof (cases "z = ?k")
    case False
    from that have "rat_of_int z - 1 < rat_of_int ?k" "rat_of_int ?k \<le> rat_of_int z + 1" by linarith+
    then have "z - 1 < ?k \<and> ?k \<le> z + 1" by linarith
    with False have "?k = z + 1" by linarith
    then have k: "rat_of_int ?k = rat_of_int z + 1" by simp
    have "rat_of_int ?k \<le> q + 1 / 2" by linarith
    with k that have "q - of_int z = 1 / 2" by linarith
    with k show ?thesis by simp
  qed simp
  have "near_integer q \<longleftrightarrow> (\<exists>d. to_double \<bar>q - of_int ?k\<bar> = Num d \<and> d \<le> 8 / 2 ^ 52 * max 1 \<bar>q\<bar>)"
    unfolding near_integer_def using near same by metis
  then show ?thesis
    by (simp add: rounded_abs pow2_def split: double.split)
qed

lemma multiple_exact:
  assumes "smaller (Num 0) m"
  shows "isMultipleOf x m \<longleftrightarrow> (\<exists>q. rounded_quotient x m q \<and> near_integer q)"
proof -
  have "isMultipleOf x m \<longleftrightarrow> (\<exists>q. quotient x m = Num q \<and> near_integer q)"
    by (simp add: isMultipleOf_def near_integer_exact split: double.split)
  moreover have "quotient x m = Num q \<longleftrightarrow> rounded_quotient x m q" for q
    using assms by (cases x; cases m) (auto simp: rounded_quotient.simps smaller.simps)
  ultimately show ?thesis by simp
qed

lemma number_issue_None: "number_issue x schema path = None \<longleftrightarrow> number_holds x schema"
proof -
  have k: "\<not> number_keyword schema name p \<longleftrightarrow> (\<forall>m. obj_get schema name = Some (JNum m) \<longrightarrow> \<not> p m)" for name p
    by (auto simp: number_keyword_def split: option.split json.split)
  show ?thesis
    unfolding number_issue_def number_holds_def or_else_None issue_when_None k
    by (auto simp: smaller_total multiple_exact simp flip: smaller_iff)
qed

lemma array_issue_None: "array_issue vs schema path = None \<longleftrightarrow> array_holds vs schema"
proof -
  have "hasDuplicateJsonValues vs \<longleftrightarrow> \<not> (\<forall>i j. i < j \<longrightarrow> j < length vs \<longrightarrow> \<not> same_json (vs ! i) (vs ! j))"
  proof -
    have "distinct (map canonicalJson vs) \<longleftrightarrow>
        (\<forall>i j. i < length vs \<longrightarrow> j < length vs \<longrightarrow> i \<noteq> j \<longrightarrow> \<not> same_json (vs ! i) (vs ! j))"
      by (auto simp: distinct_conv_nth simp flip: same_json_exact simp: jsonValuesEqual_def)
    moreover have "same_json a b \<longleftrightarrow> same_json b a" for a b
      unfolding same_json_exact [symmetric] jsonValuesEqual_def by (rule eq_commute)
    ultimately show ?thesis unfolding hasDuplicateJsonValues_def by (metis less_trans nat_neq_iff)
  qed
  then show ?thesis
    unfolding array_issue_def array_holds_def or_else_None issue_when_None length_issue_None [symmetric] by blast
qed

lemma required_None:
  "list_all (\<lambda>n. (case n of JStr name \<Rightarrow>
       issue_when (map_of ps name = None) (schemaPropertyPath path name) Property_Missing | _ \<Rightarrow> None) = None) names
   \<longleftrightarrow> (\<forall>name. JStr name \<in> set names \<longrightarrow> name \<in> fst ` set ps)"
  by (induction names) (auto simp: map_of_eq_None_iff split: json.splits)

lemma object_issue_None: "object_issue ps schema path = None \<longleftrightarrow> object_holds ps schema"
  unfolding object_issue_def object_holds_def or_else_None issue_when_None length_issue_None [symmetric]
  by (cases "obj_get schema ''required''") (simp_all add: required_None split: json.split)

lemma branches_None:
  "validateSchemaBranches valid raw path All_Of = None \<longleftrightarrow>
     (case raw of None \<Rightarrow> True | Some x \<Rightarrow> branches_hold (list_all valid) x)"
  "validateSchemaBranches valid raw path Any_Of = None \<longleftrightarrow>
     (case raw of None \<Rightarrow> True | Some x \<Rightarrow> branches_hold (list_ex valid) x)"
  "validateSchemaBranches valid raw path One_Of = None \<longleftrightarrow>
     (case raw of None \<Rightarrow> True | Some x \<Rightarrow> branches_hold (\<lambda>bs. \<exists>!i. i < length bs \<and> valid (bs ! i)) x)"
proof -
  have all: "length (filter valid bs) = length bs \<longleftrightarrow> list_all valid bs" for bs
    by (metis filter_True filter_id_conv length_filter_less list_all_iff nat_neq_iff)
  have ex: "filter valid bs = [] \<longleftrightarrow> \<not> list_ex valid bs" for bs
    by (auto simp: filter_empty_conv list_ex_iff)
  have one: "length (filter valid bs) = Suc 0 \<longleftrightarrow> (\<exists>!i. i < length bs \<and> valid (bs ! i))" for bs
    unfolding length_filter_conv_card card_1_singleton_iff Ex1_def set_eq_iff by auto
  show "validateSchemaBranches valid raw path All_Of = None \<longleftrightarrow>
     (case raw of None \<Rightarrow> True | Some x \<Rightarrow> branches_hold (list_all valid) x)"
    by (auto simp: validateSchemaBranches_def branches_hold_def all split: option.splits json.splits)
  show "validateSchemaBranches valid raw path Any_Of = None \<longleftrightarrow>
     (case raw of None \<Rightarrow> True | Some x \<Rightarrow> branches_hold (list_ex valid) x)"
    by (auto simp: validateSchemaBranches_def branches_hold_def ex split: option.splits json.splits)
  show "validateSchemaBranches valid raw path One_Of = None \<longleftrightarrow>
     (case raw of None \<Rightarrow> True | Some x \<Rightarrow> branches_hold (\<lambda>bs. \<exists>!i. i < length bs \<and> valid (bs ! i)) x)"
    unfolding validateSchemaBranches_def branches_hold_def Let_def branch_keyword.case One_nat_def one [symmetric]
    by (cases raw) (simp_all split: json.split)
qed

lemma property_None:
  assumes "\<And>s. p s = (check s = None)" and "p (JBool False) = False"
  shows "(case rule_of_property schema name of Check_With s \<Rightarrow> check s | Reject_Property \<Rightarrow> Some i | Accept_Property \<Rightarrow> None)
      = None \<longleftrightarrow> property_holds p schema name"
proof (cases "declared_schema schema name")
  case (Some x)
  then show ?thesis using assms by (simp add: rule_of_property_def declared_schema_def property_holds_def)
next
  case None
  then show ?thesis using assms
    by (auto simp: rule_of_property_def declared_schema_def property_holds_def split: option.splits json.splits bool.splits)
qed

lemma first_issue_enumerate:
  "list_all (\<lambda>(i, x). P x) (enumerate k xs) \<longleftrightarrow> list_all P xs"
  by (induction xs arbitrary: k) simp_all

section \<open>The validator decides the schema\<close>

lemma validator_reference:
  "validateSchemaValue re v s path depth = None \<longleftrightarrow> schema_holds (65 - depth) re v s"
proof (induction "65 - depth" arbitrary: v s path depth)
  case 0
  then show ?case
    by (simp add: validateSchemaValue.simps [of re v s path depth] MAX_SCHEMA_VALIDATION_DEPTH_def)
next
  case (Suc n)
  then have n: "n = 65 - (depth + 1)" "\<not> depth > MAX_SCHEMA_VALIDATION_DEPTH"
    by (auto simp: MAX_SCHEMA_VALIDATION_DEPTH_def)
  note IH = Suc.hyps(1) [OF n(1), unfolded n(1) [symmetric]]
  note IH' = IH [unfolded Suc_eq_plus1 [symmetric]]
  have false: "schema_holds n re w (JBool False) = False" for w by (cases n) simp_all
  have items: "(case obj_get schema ''items'' of
        None \<Rightarrow> None
      | Some s \<Rightarrow> first_issue (\<lambda>(i, item). validateSchemaValue re item s (itemPath path i) (depth + 1)) (enumerate 0 vs)) = None
      \<longleftrightarrow> keyword_holds schema ''items'' (\<lambda>x. list_all (\<lambda>w. schema_holds n re w x) vs)" for vs schema
    by (simp add: keyword_holds_def case_prod_beta IH'
        first_issue_enumerate [of "\<lambda>x. schema_holds n re x y" for y, unfolded case_prod_beta] split: option.split)
  have properties: "first_issue
        (\<lambda>(name, w). case rule_of_property schema name of
             Check_With s \<Rightarrow> validateSchemaValue re w s (schemaPropertyPath path name) (depth + 1)
           | Reject_Property \<Rightarrow> Some (schemaPropertyPath path name, Property_Not_Allowed)
           | Accept_Property \<Rightarrow> None) ps = None
      \<longleftrightarrow> list_all (\<lambda>(name, w). property_holds (schema_holds n re w) schema name) ps" for ps schema
  proof -
    have "(case rule_of_property schema name of
             Check_With s \<Rightarrow> validateSchemaValue re w s (schemaPropertyPath path name) (depth + 1)
           | Reject_Property \<Rightarrow> Some (schemaPropertyPath path name, Property_Not_Allowed)
           | Accept_Property \<Rightarrow> None) = None \<longleftrightarrow> property_holds (schema_holds n re w) schema name" for name w
      by (rule property_None) (use IH false in simp_all)
    then show ?thesis by (simp only: first_issue_None case_prod_unfold)
  qed
  have rest: "(case v of
             JStr s \<Rightarrow> string_issue re s schema path
           | JNum x \<Rightarrow> number_issue x schema path
           | JArr vs \<Rightarrow>
               or_else (array_issue vs schema path)
                 (case obj_get schema ''items'' of
                    None \<Rightarrow> None
                  | Some s \<Rightarrow>
                      first_issue
                        (\<lambda>(i, item). validateSchemaValue re item s (itemPath path i) (depth + 1))
                        (enumerate 0 vs))
           | JObj ps \<Rightarrow>
               or_else (object_issue ps schema path)
                 (first_issue
                   (\<lambda>(name, w).
                     case rule_of_property schema name of
                       Check_With s \<Rightarrow>
                         validateSchemaValue re w s (schemaPropertyPath path name) (depth + 1)
                     | Reject_Property \<Rightarrow> Some (schemaPropertyPath path name, Property_Not_Allowed)
                     | Accept_Property \<Rightarrow> None)
                   ps)
           | _ \<Rightarrow> None) = None \<longleftrightarrow>
      (\<forall>s. v = JStr s \<longrightarrow> string_holds re s schema)
      \<and> (\<forall>x. v = JNum x \<longrightarrow> number_holds x schema)
      \<and> (\<forall>vs. v = JArr vs \<longrightarrow> array_holds vs schema
           \<and> keyword_holds schema ''items'' (\<lambda>x. list_all (\<lambda>w. schema_holds n re w x) vs))
      \<and> (\<forall>ps. v = JObj ps \<longrightarrow> object_holds ps schema
           \<and> list_all (\<lambda>(name, w). property_holds (schema_holds n re w) schema name) ps)" for schema
    unfolding items [symmetric] properties [symmetric]
    by (cases v) (simp_all only: json.case json.inject json.distinct or_else_None string_issue_None number_issue_None
        array_issue_None object_issue_None simp_thms)
  have negated: "(case obj_get schema ''not'' of
               None \<Rightarrow> None
             | Some s \<Rightarrow>
                 issue_when (validateSchemaValue re v s path (depth + 1) = None) path Matches_Forbidden) = None
      \<longleftrightarrow> keyword_holds schema ''not'' (\<lambda>x. \<not> schema_holds n re v x)" for schema
    by (simp add: keyword_holds_def IH' split: option.split)
  have branches:
    "validateSchemaBranches (\<lambda>b. validateSchemaValue re v b path (depth + 1) = None)
       (obj_get schema ''allOf'') path All_Of = None
     \<longleftrightarrow> keyword_holds schema ''allOf'' (branches_hold (list_all (schema_holds n re v)))"
    "validateSchemaBranches (\<lambda>b. validateSchemaValue re v b path (depth + 1) = None)
       (obj_get schema ''anyOf'') path Any_Of = None
     \<longleftrightarrow> keyword_holds schema ''anyOf'' (branches_hold (list_ex (schema_holds n re v)))"
    "validateSchemaBranches (\<lambda>b. validateSchemaValue re v b path (depth + 1) = None)
       (obj_get schema ''oneOf'') path One_Of = None
     \<longleftrightarrow> keyword_holds schema ''oneOf''
           (branches_hold (\<lambda>bs. \<exists>!i. i < length bs \<and> schema_holds n re v (bs ! i)))"
    for schema
    unfolding branches_None keyword_holds_def IH by (rule refl)+
  have "schema_holds (65 - depth) re v s = schema_holds (Suc n) re v s" using Suc.hyps(2) by simp
  also have "\<dots> = (validateSchemaValue re v s path depth = None)"
  proof (cases s)
    case (JObj schema)
    show ?thesis
      unfolding JObj validateSchemaValue.simps [of re v "JObj schema" path depth] schema_holds.simps if_not_P [OF n(2)]
        json.case or_else_None type_issue_None branches negated rest conj_assoc
      by (rule refl)
  qed (use n(2) in \<open>simp_all add: validateSchemaValue.simps [of re v _ path depth] split: bool.split\<close>)
  finally show ?case by simp
qed

end
