(* ===== verification/Byte_Proofs.thy ===== *)
theory Byte_Proofs
  imports Event_Bytes
begin

unbundle bit_operations_syntax

text \<open>
  The CRC of the byte layer as a shift register. One table step is eight steps of
  \<^const>\<open>crc32_shift\<close>, which is linear and injective; hence the table-driven checksum is the
  bitwise one, and a change of up to four consecutive bytes always changes it.
\<close>

section \<open>The shift register\<close>

lemma xor_cancel: "x XOR z = y XOR z \<longleftrightarrow> x = y" for x :: "32 word"
proof
  assume "x XOR z = y XOR z"
  then have "(x XOR z) XOR z = (y XOR z) XOR z" by simp
  then show "x = y" by (simp add: xor.assoc)
qed simp

lemma crc32_shift_xor: "crc32_shift (a XOR b) = crc32_shift a XOR crc32_shift b"
proof -
  have parity: "x AND 1 \<noteq> 0 \<longleftrightarrow> bit x 0" for x :: "32 word"
    by (simp add: and_one_eq mod2_eq_if bit_0)
  show ?thesis
    unfolding crc32_shift_def parity by (auto simp: bit_eq_iff bit_simps)
qed

lemma crc32_shift_even: "\<not> bit v 0 \<Longrightarrow> crc32_shift v = drop_bit 1 v"
  by (simp add: crc32_shift_def and_one_eq mod2_eq_if bit_0)

lemma crc32_shift_top: "bit (crc32_shift v) 31 = bit v 0"
proof -
  have "bit (0xedb88320 :: 32 word) 31" by simp
  moreover have "\<not> bit (drop_bit 1 v) 31"
    by (auto simp: bit_simps dest: bit_imp_le_length)
  ultimately show ?thesis
    by (auto simp: crc32_shift_def and_one_eq mod2_eq_if bit_0 bit_simps)
qed

lemma crc32_shifts_xor: "(crc32_shift ^^ k) (a XOR b) = (crc32_shift ^^ k) a XOR (crc32_shift ^^ k) b"
  by (induction k) (simp_all add: crc32_shift_xor)

lemma crc32_shift_zero [simp]: "crc32_shift 0 = 0"
  by (simp add: crc32_shift_def)

lemma crc32_shifts_zero [simp]: "(crc32_shift ^^ k) 0 = 0"
  by (induction k) simp_all

lemma crc32_shift_inject: "crc32_shift a = crc32_shift b \<longleftrightarrow> a = b"
proof
  assume "crc32_shift a = crc32_shift b"
  then have z: "crc32_shift (a XOR b) = 0" by (simp add: crc32_shift_xor)
  then have low: "\<not> bit (a XOR b) 0" using crc32_shift_top [of "a XOR b"] by simp
  have drop: "drop_bit 1 (a XOR b) = 0" using z low by (simp add: crc32_shift_even)
  have high: "\<not> bit (a XOR b) (Suc n)" for n
  proof -
    have "bit (drop_bit 1 (a XOR b)) n = bit (a XOR b) (Suc n)"
      by (simp only: bit_drop_bit_eq comp_apply plus_1_eq_Suc)
    with drop show ?thesis by simp
  qed
  have "a XOR b = 0"
  proof (rule bit_eqI)
    fix n show "bit (a XOR b) n = bit 0 n" using low high by (cases n) simp_all
  qed
  then have "a XOR b = b XOR b" by simp
  then show "a = b" by (simp only: xor_cancel)
qed simp

lemma crc32_shifts_inject: "(crc32_shift ^^ k) a = (crc32_shift ^^ k) b \<longleftrightarrow> a = b"
  by (induction k) (simp_all add: crc32_shift_inject)

text \<open>Shifting out zeros only moves the register.\<close>

lemma crc32_shifts_push:
  assumes "\<And>i. i < k \<Longrightarrow> \<not> bit v i"
  shows "(crc32_shift ^^ k) v = drop_bit k v"
  using assms
proof (induction k)
  case 0
  then show ?case by simp
next
  case (Suc k)
  then have "(crc32_shift ^^ k) v = drop_bit k v" by simp
  moreover have "\<not> bit (drop_bit k v) 0" using Suc.prems [of k] by (simp add: bit_simps)
  ultimately show ?case by (simp add: crc32_shift_even drop_bit_drop_bit)
qed

lemma drop_push_ucast: "drop_bit 8 (push_bit 8 (w :: 32 word)) = w AND mask 24"
  by (rule bit_word_eqI) (auto simp: bit_simps)

section \<open>The table step\<close>

lemma table_lookup: "CRC32_IEEE_TABLE ! unat (x AND 0xff) = (crc32_shift ^^ 8) (x AND 0xff)"
proof -
  have "unat (x AND 0xff) < 256"
    using word_and_le1 [of x "0xff"] by (simp add: word_le_nat_alt)
  then have "CRC32_IEEE_TABLE ! unat (x AND 0xff) = crc32_entry (of_nat (unat (x AND 0xff)))"
    by (simp add: CRC32_IEEE_TABLE_def createCrc32IeeeTable_def)
  then show ?thesis by (simp add: crc32_entry_def)
qed

lemma table_step: "CRC32_IEEE_TABLE ! unat (x AND 0xff) XOR drop_bit 8 x = (crc32_shift ^^ 8) x"
proof -
  have ff: "(0xff :: 32 word) = mask 8" by (simp add: mask_eq_exp_minus_1)
  have split: "x = (x AND 0xff) XOR (x AND NOT 0xff)"
    by (rule bit_word_eqI) (auto simp: bit_simps)
  have "(crc32_shift ^^ 8) (x AND NOT 0xff) = drop_bit 8 (x AND NOT 0xff)"
    by (rule crc32_shifts_push) (simp add: ff bit_simps)
  also have "\<dots> = drop_bit 8 x"
    by (rule bit_word_eqI) (auto simp: ff bit_simps dest: bit_imp_le_length)
  finally have "(crc32_shift ^^ 8) (x AND NOT 0xff) = drop_bit 8 x" .
  then show ?thesis
    by (subst (3) split) (simp only: crc32_shifts_xor table_lookup)
qed

lemma crc32_step_shifts: "crc32_step crc b = (crc32_shift ^^ 8) (crc XOR ucast b)"
proof -
  have "drop_bit 8 (crc XOR ucast b) = drop_bit 8 crc"
    by (rule bit_word_eqI) (auto simp: bit_simps dest: bit_imp_le_length)
  then show ?thesis
    using table_step [of "crc XOR ucast b"] by (simp add: crc32_step_def)
qed

lemma crc32_step_inject: "crc32_step c b = crc32_step d b \<longleftrightarrow> c = d"
  by (simp only: crc32_step_shifts crc32_shifts_inject xor_cancel)

lemma crc32_steps_inject: "foldl crc32_step c bs = foldl crc32_step d bs \<longleftrightarrow> c = d"
  by (induction bs arbitrary: c d) (simp_all add: crc32_step_inject)

section \<open>Bitwise reference\<close>

text \<open>The checksum as the standard defines it: the bits of each byte, least significant first,
  enter a register of 32 bits one by one.\<close>

definition byte_bits :: "byte \<Rightarrow> bool list" where
  "byte_bits b = map (bit b) [0..<8]"

definition crc32_bit :: "32 word \<Rightarrow> bool \<Rightarrow> 32 word" where
  "crc32_bit crc d =
     (if bit crc 0 \<noteq> d then 0xedb88320 XOR drop_bit 1 crc else drop_bit 1 crc)"

definition crc32_reference :: "byte list \<Rightarrow> 32 word" where
  "crc32_reference bytes = NOT (foldl crc32_bit (NOT 0) (concat (map byte_bits bytes)))"

lemma crc32_bit_shift: "crc32_bit crc d = crc32_shift (crc XOR of_bool d)"
proof -
  have b0: "bit (crc XOR of_bool d) 0 \<longleftrightarrow> (bit crc 0 \<noteq> d)"
    by (simp add: bit_simps)
  have parity: "x AND 1 \<noteq> 0 \<longleftrightarrow> bit x 0" for x :: "32 word"
    by (simp add: and_one_eq mod2_eq_if bit_0)
  have "drop_bit 1 (crc XOR of_bool d) = drop_bit 1 crc"
    by (rule bit_word_eqI) (auto simp: bit_simps)
  then show ?thesis
    unfolding crc32_bit_def crc32_shift_def parity b0 by simp
qed

lemma crc32_bits_shifts:
  "foldl crc32_bit crc (map (bit v) [k..<k + n]) =
     (crc32_shift ^^ n) (crc XOR (drop_bit k v AND mask n))"
  for v :: "32 word"
proof (induction n)
  case 0
  then show ?case by simp
next
  case (Suc n)
  have split: "drop_bit k v AND mask (Suc n)
    = (drop_bit k v AND mask n) XOR push_bit n (of_bool (bit v (k + n)))"
    by (rule bit_word_eqI) (auto simp: bit_simps less_Suc_eq)
  have "(crc32_shift ^^ n) (push_bit n (of_bool (bit v (k + n))))
      = drop_bit n (push_bit n (of_bool (bit v (k + n))))"
    by (rule crc32_shifts_push) (simp add: bit_simps)
  also have "\<dots> = of_bool (bit v (k + n))"
    by (rule bit_word_eqI) (auto simp: bit_simps dest: bit_imp_le_length)
  finally have push: "(crc32_shift ^^ n) (push_bit n (of_bool (bit v (k + n)))) = of_bool (bit v (k + n))" .
  have "foldl crc32_bit crc (map (bit v) [k..<k + Suc n])
      = crc32_bit ((crc32_shift ^^ n) (crc XOR (drop_bit k v AND mask n))) (bit v (k + n))"
    using Suc by simp
  also have "\<dots> = crc32_shift ((crc32_shift ^^ n) (crc XOR (drop_bit k v AND mask (Suc n))))"
    unfolding split by (simp only: crc32_bit_shift crc32_shifts_xor push xor.assoc)
  finally show ?case by simp
qed

lemma crc32_byte_bits: "foldl crc32_bit crc (byte_bits b) = crc32_step crc b"
proof -
  have "map (bit b) [0..<8] = map (bit (ucast b :: 32 word)) [0..<0 + 8]"
    by (rule map_cong) (auto simp: bit_simps)
  moreover have "drop_bit 0 (ucast b) AND mask 8 = (ucast b :: 32 word)"
    by (rule bit_word_eqI) (auto simp: bit_simps dest: bit_imp_le_length)
  ultimately show ?thesis
    by (simp only: byte_bits_def crc32_bits_shifts crc32_step_shifts)
qed

lemma crc32_steps_bits: "foldl crc32_step crc bs = foldl crc32_bit crc (concat (map byte_bits bs))"
  by (induction bs arbitrary: crc) (simp_all add: crc32_byte_bits)

lemma crc32Ieee_reference: "crc32Ieee bytes = crc32_reference bytes"
proof -
  have ones: "(0xffffffff :: 32 word) = NOT 0" by simp
  show ?thesis
    unfolding crc32Ieee_def crc32_reference_def crc32_steps_bits ones
    by (rule bit_word_eqI) (simp only: bit_xor_iff bit_not_iff bit_0_eq bot_apply, simp)
qed

section \<open>Detection of bursts\<close>

fun burst_word :: "byte list \<Rightarrow> 32 word" where
  "burst_word [] = 0"
| "burst_word (b # bs) = ucast b XOR push_bit 8 (burst_word bs)"

lemma burst_word_bit:
  "length bs \<le> 4 \<Longrightarrow> bit (burst_word bs) n \<longleftrightarrow> n < 8 * length bs \<and> bit (bs ! (n div 8)) (n mod 8)"
proof (induction bs arbitrary: n)
  case Nil
  then show ?case by simp
next
  case (Cons b bs)
  then have IH: "bit (burst_word bs) m \<longleftrightarrow> m < 8 * length bs \<and> bit (bs ! (m div 8)) (m mod 8)" for m
    by simp
  show ?case
  proof (cases "n < 8")
    case True
    then show ?thesis by (auto simp: bit_simps)
  next
    case False
    then obtain m where n: "n = 8 + m" by (metis add_diff_inverse_nat)
    have "\<not> bit b n" using False by (auto dest: bit_imp_le_length)
    moreover have "m < 8 * length bs \<Longrightarrow> n < 32" using Cons.prems n by simp
    ultimately show ?thesis
      using IH [of m] n by (auto simp: bit_simps)
  qed
qed

lemma burst_word_inject:
  assumes "length xs = length ys" "length ys \<le> 4" "burst_word xs = burst_word ys"
  shows "xs = ys"
proof (rule nth_equalityI)
  show "length xs = length ys" by (rule assms)
  fix i assume i: "i < length xs"
  show "xs ! i = ys ! i"
  proof (rule bit_word_eqI)
    fix j assume j: "j < LENGTH(8)"
    have "bit (burst_word xs) (8 * i + j) = bit (burst_word ys) (8 * i + j)"
      using assms(3) by simp
    moreover have "bit (burst_word zs) (8 * i + j) = bit (zs ! i) j"
      if "length zs = length xs" for zs
      using that assms(1,2) i j by (simp add: burst_word_bit div_mult_self4 mod_mult_self4)
    ultimately show "bit (xs ! i) j = bit (ys ! i) j"
      using assms(1) by simp
  qed
qed

lemma crc32_steps_burst:
  "length bs \<le> 4 \<Longrightarrow> foldl crc32_step crc bs = (crc32_shift ^^ (8 * length bs)) (crc XOR burst_word bs)"
proof (induction bs arbitrary: crc)
  case Nil
  then show ?case by simp
next
  case (Cons b bs)
  have up: "(crc32_shift ^^ 8) (push_bit 8 (burst_word bs)) = burst_word bs"
  proof -
    have "(crc32_shift ^^ 8) (push_bit 8 (burst_word bs)) = drop_bit 8 (push_bit 8 (burst_word bs))"
      by (rule crc32_shifts_push) (simp add: bit_simps)
    also have "\<dots> = burst_word bs"
    proof (rule bit_word_eqI)
      fix n assume "n < LENGTH(32)"
      have "bit (burst_word bs) n \<Longrightarrow> n + 8 < 32"
        using Cons.prems by (simp add: burst_word_bit)
      then show "bit (drop_bit 8 (push_bit 8 (burst_word bs))) n = bit (burst_word bs) n"
        by (auto simp: bit_simps)
    qed
    finally show ?thesis .
  qed
  have "foldl crc32_step crc (b # bs)
    = (crc32_shift ^^ (8 * length bs)) ((crc32_shift ^^ 8) (crc XOR ucast b) XOR burst_word bs)"
    using Cons by (simp add: crc32_step_shifts del: foldl_Cons) (simp add: Cons crc32_step_shifts)
  also have "\<dots> = (crc32_shift ^^ (8 * length bs))
      ((crc32_shift ^^ 8) (crc XOR ucast b) XOR (crc32_shift ^^ 8) (push_bit 8 (burst_word bs)))"
    by (simp only: up)
  also have "\<dots> = (crc32_shift ^^ (8 * length bs + 8)) (crc XOR burst_word (b # bs))"
    by (simp only: crc32_shifts_xor [symmetric] funpow_add o_apply burst_word.simps xor.assoc)
  finally show ?case by (simp add: add.commute)
qed

lemma crc32_burst_changes:
  assumes "length ys = length zs" "length zs \<le> 4" "ys \<noteq> zs"
  shows "crc32Ieee (xs @ ys @ ws) \<noteq> crc32Ieee (xs @ zs @ ws)"
proof
  assume "crc32Ieee (xs @ ys @ ws) = crc32Ieee (xs @ zs @ ws)"
  then have "foldl crc32_step (foldl crc32_step 0xffffffff xs) ys
      = foldl crc32_step (foldl crc32_step 0xffffffff xs) zs"
    by (simp only: crc32Ieee_def foldl_append xor_cancel crc32_steps_inject)
  with assms have "burst_word ys XOR foldl crc32_step 0xffffffff xs
      = burst_word zs XOR foldl crc32_step 0xffffffff xs"
    by (simp add: crc32_steps_burst crc32_shifts_inject xor.commute)
  then have "burst_word ys = burst_word zs" by (simp only: xor_cancel)
  with assms show False using burst_word_inject by blast
qed

end
