(* ===== verification/Frame_Proofs.thy ===== *)
theory Frame_Proofs
  imports Kiro_Parser Byte_Proofs
begin

unbundle bit_operations_syntax

text \<open>
  The wire format of AWS event streams as an encoder, and what the frame layer makes of encoded
  frames: it reads back exactly what was encoded, accepts nothing else, and rejects a frame in
  which up to four neighbouring bytes changed.
\<close>

section \<open>Integers on the wire\<close>

definition word_bytes :: "32 word \<Rightarrow> byte list" where
  "word_bytes w = [ucast (drop_bit 24 w), ucast (drop_bit 16 w), ucast (drop_bit 8 w), ucast w]"

lemma length_word_bytes [simp]: "length (word_bytes w) = 4"
  by (simp add: word_bytes_def)

lemma uint_drop: "uint (drop_bit n w) = uint w div 2 ^ n" for w :: "'a :: len word"
proof -
  have "take_bit LENGTH('a) (uint w) = uint w"
    by (rule take_bit_int_eq_self) (simp_all add: uint_lt2p)
  then show ?thesis by (simp add: unsigned_drop_bit_eq drop_bit_eq_div [of n "uint w"])
qed

lemma uint_byte_of: "uint (ucast (drop_bit n w) :: byte) = uint w div 2 ^ n mod 256" for w :: "'a :: len word"
  by (simp add: unsigned_ucast_eq take_bit_eq_mod uint_drop)

lemma uint_low_byte: "uint (ucast w :: byte) = uint w mod 256" for w :: "'a :: len word"
  using uint_byte_of [of 0 w] by simp

lemma base256:
  fixes x :: int
  assumes "0 \<le> x" "x < 2 ^ 32"
  shows "x div 2 ^ 24 mod 256 * 16777216 + x div 2 ^ 16 mod 256 * 65536 + x div 2 ^ 8 mod 256 * 256
    + x mod 256 = x"
proof -
  define y where "y = x div 256"
  define z where "z = y div 256"
  define u where "u = z div 256"
  have d: "x div 2 ^ 16 = z" "x div 2 ^ 24 = u" "x div 2 ^ 8 = y"
    by (simp_all add: y_def z_def u_def flip: zdiv_zmult2_eq)
  have "u < 256" "0 \<le> u"
    using assms by (simp_all flip: d(2))
  then have "u mod 256 = u" by simp
  moreover have "x = y * 256 + x mod 256" "y = z * 256 + y mod 256" "z = u * 256 + z mod 256"
    unfolding y_def z_def u_def by (rule div_mult_mod_eq [symmetric])+
  ultimately show ?thesis unfolding d by linarith
qed

lemma digit256_unique:
  fixes q q' r r' :: int
  assumes "q * 256 + r = q' * 256 + r'" "0 \<le> r" "r < 256" "0 \<le> r'" "r' < 256"
  shows "q = q' \<and> r = r'"
proof -
  have "(q * 256 + r) mod 256 = r" "(q' * 256 + r') mod 256 = r'" using assms(2-5) by simp_all
  with assms(1) have "r = r'" by metis
  with assms(1) show ?thesis by simp
qed

lemma readUint32_at:
  "(pre @ word_bytes w @ post) ! length pre = ucast (drop_bit 24 w)"
  "(pre @ word_bytes w @ post) ! (length pre + 1) = ucast (drop_bit 16 w)"
  "(pre @ word_bytes w @ post) ! (length pre + 2) = ucast (drop_bit 8 w)"
  "(pre @ word_bytes w @ post) ! (length pre + 3) = ucast w"
  by (simp_all add: word_bytes_def nth_append numeral_3_eq_3)

lemma readUint32_word: "readUint32 (pre @ word_bytes w @ post) (length pre) = uint w"
proof -
  have "readUint32 (pre @ word_bytes w @ post) (length pre)
      = uint w div 2 ^ 24 mod 256 * 16777216 + uint w div 2 ^ 16 mod 256 * 65536
        + uint w div 2 ^ 8 mod 256 * 256 + uint w mod 256"
    unfolding readUint32_sum readUint32_at uint_byte_of
    by (simp only: uint_low_byte power_one_right) simp
  also have "\<dots> = uint w"
    using uint_lt2p [of w] by (intro base256) simp_all
  finally show ?thesis .
qed

lemmas readUint32_word_0 = readUint32_word [of "[]", simplified]

lemma word_bytes_inject: "word_bytes v = word_bytes w \<longleftrightarrow> v = w"
  by (metis append_Nil readUint32_word unsigned_word_eqI)

lemma readUint32_horner:
  "readUint32 [a, b, c, d] 0 = ((uint a * 256 + uint b) * 256 + uint c) * 256 + uint d"
  by (simp add: readUint32_sum numeral_3_eq_3)

lemma readUint32_unique:
  assumes "readUint32 [a, b, c, d] 0 = readUint32 [a', b', c', d'] 0"
  shows "[a, b, c, d] = [a', b', c', d']"
proof -
  have step: "q * 256 + uint x = q' * 256 + uint y \<Longrightarrow> q = q' \<and> uint x = uint y"
    for q q' and x y :: byte
    using uint_byte_bounds [of x] uint_byte_bounds [of y] by (intro digit256_unique)
  have 1: "(uint a * 256 + uint b) * 256 + uint c = (uint a' * 256 + uint b') * 256 + uint c'
    \<and> uint d = uint d'"
    using assms unfolding readUint32_horner by (rule step)
  then have 2: "uint a * 256 + uint b = uint a' * 256 + uint b' \<and> uint c = uint c'"
    by (intro step) simp
  then have "uint a = uint a' \<and> uint b = uint b'"
    by (intro step) simp
  with 1 2 have "a = a'" "b = b'" "c = c'" "d = d'"
    by (auto intro: unsigned_word_eqI)
  then show ?thesis by simp
qed

lemma readUint32_bytes:
  assumes "length bs = 4" "readUint32 bs 0 = uint w"
  shows "bs = word_bytes w"
proof -
  obtain a b c d where bs: "bs = [a, b, c, d]"
    using assms(1) by (auto simp: length_Suc_conv numeral_eq_Suc)
  have "readUint32 bs 0 = readUint32 (word_bytes w) 0"
    using assms(2) readUint32_word_0 [of w "[]"] by simp
  then show ?thesis unfolding bs word_bytes_def by (rule readUint32_unique)
qed

definition half_bytes :: "16 word \<Rightarrow> byte list" where
  "half_bytes w = [ucast (drop_bit 8 w), ucast w]"

lemma readUint16_half: "readUint16 (pre @ half_bytes w @ post) (length pre) = uint w"
proof -
  have "uint w div 256 mod 256 = uint w div 256"
    using uint_lt2p [of w] by (intro mod_pos_pos_trivial) (simp_all add: pos_imp_zdiv_nonneg_iff)
  then show ?thesis
    using uint_byte_of [of 8 w]
    by (simp add: readUint16_sum half_bytes_def nth_append uint_low_byte)
qed

lemma two_complement:
  fixes x :: int
  assumes "0 \<le> x" "x < 2 ^ Suc n"
  shows "signed_take_bit n x = (if x AND 2 ^ n \<noteq> 0 then x - 2 ^ Suc n else x)"
  using assms
  by (simp add: signed_take_bit_eq_take_bit_minus take_bit_int_eq_self and_exp_eq_0_iff_not_bit)

lemma readInt16_half: "readInt16 (half_bytes w) 0 = sint w"
  using readUint16_half [of "[]" w "[]"] two_complement [of "uint w" 15] uint_lt2p [of w]
  by (simp add: readInt16_def Let_def sint_uint)

lemma readInt32_word: "readInt32 (word_bytes w) 0 = sint w"
  using readUint32_word_0 [of w "[]"] by (simp add: readInt32_def sint_uint)

definition long_bytes :: "64 word \<Rightarrow> byte list" where
  "long_bytes w = word_bytes (ucast (drop_bit 32 w)) @ word_bytes (ucast w)"

lemma readBigInt64_long: "readBigInt64 (long_bytes w) 0 = sint w"
proof -
  let ?hi = "ucast (drop_bit 32 w) :: 32 word" and ?lo = "ucast w :: 32 word"
  have r: "readUint32 (long_bytes w) 0 = uint ?hi" "readUint32 (long_bytes w) 4 = uint ?lo"
    using readUint32_word_0 [of ?hi "word_bytes ?lo"] readUint32_word [of "word_bytes ?hi" ?lo "[]"]
    by (simp_all add: long_bytes_def)
  have "push_bit 32 (uint ?hi) OR uint ?lo = uint w"
    by (rule bit_eqI) (auto simp: bit_simps bit_uint_iff dest: bit_imp_le_length)
  then show ?thesis
    using two_complement [of "uint w" 63] uint_lt2p [of w]
    by (simp add: readBigInt64_def r Let_def sint_uint push_bit_eq_mult)
qed

section \<open>Headers on the wire\<close>

text \<open>A header value with its type code, body and meaning; strings carry their UTF-8 bytes.\<close>

datatype wire_value =
  W_Bool bool | W_Byte byte | W_Int16 "16 word" | W_Int32 "32 word" | W_Int64 "64 word"
| W_Bytes "byte list" | W_String "byte list" | W_Timestamp "64 word" | W_Uuid "byte list"

fun wire_type :: "wire_value \<Rightarrow> nat" where
  "wire_type (W_Bool b) = (if b then 0 else 1)"
| "wire_type (W_Byte b) = 2"
| "wire_type (W_Int16 w) = 3"
| "wire_type (W_Int32 w) = 4"
| "wire_type (W_Int64 w) = 5"
| "wire_type (W_Bytes bs) = 6"
| "wire_type (W_String bs) = 7"
| "wire_type (W_Timestamp w) = 8"
| "wire_type (W_Uuid bs) = 9"

fun wire_body :: "wire_value \<Rightarrow> byte list" where
  "wire_body (W_Bool b) = []"
| "wire_body (W_Byte b) = [b]"
| "wire_body (W_Int16 w) = half_bytes w"
| "wire_body (W_Int32 w) = word_bytes w"
| "wire_body (W_Int64 w) = long_bytes w"
| "wire_body (W_Bytes bs) = half_bytes (of_nat (length bs)) @ bs"
| "wire_body (W_String bs) = half_bytes (of_nat (length bs)) @ bs"
| "wire_body (W_Timestamp w) = long_bytes w"
| "wire_body (W_Uuid bs) = bs"

fun wire_ok :: "wire_value \<Rightarrow> bool" where
  "wire_ok (W_Bytes bs) = (length bs < 2 ^ 16)"
| "wire_ok (W_String bs) = (length bs < 2 ^ 16)"
| "wire_ok (W_Uuid bs) = (length bs = 16)"
| "wire_ok v = True"

fun wire_meaning :: "wire_value \<Rightarrow> header_value result" where
  "wire_meaning (W_Bool b) = Inr (HBool b)"
| "wire_meaning (W_Byte b) = Inr (HNumber (uint b))"
| "wire_meaning (W_Int16 w) = Inr (HNumber (sint w))"
| "wire_meaning (W_Int32 w) = Inr (HNumber (sint w))"
| "wire_meaning (W_Int64 w) = Inr (HBigInt (sint w))"
| "wire_meaning (W_Bytes bs) = Inr (HBytes bs)"
| "wire_meaning (W_String bs) = and_then (decodeUtf8 bs) (\<lambda>s. Inr (HString s))"
| "wire_meaning (W_Timestamp w) = Inr (HBigInt (sint w))"
| "wire_meaning (W_Uuid bs) = Inr (HBytes bs)"

definition encode_header :: "byte list \<times> wire_value \<Rightarrow> byte list" where
  "encode_header h =
     of_nat (length (fst h)) # fst h @ of_nat (wire_type (snd h)) # wire_body (snd h)"

definition encode_headers :: "(byte list \<times> wire_value) list \<Rightarrow> byte list" where
  "encode_headers hs = concat (map encode_header hs)"

definition header_ok :: "byte list \<times> wire_value \<Rightarrow> bool" where
  "header_ok h \<longleftrightarrow> fst h \<noteq> [] \<and> length (fst h) < 256 \<and> wire_ok (snd h)"

text \<open>What a header list means: names and strings are decoded in order, no name occurs twice.\<close>

fun interpret_headers :: "(byte list \<times> wire_value) list \<Rightarrow> headers \<Rightarrow> headers result" where
  "interpret_headers [] m = Inr m"
| "interpret_headers ((name, v) # hs) m =
     and_then (decodeUtf8 name) (\<lambda>n.
     if map_get m n \<noteq> None then Inl (kiro_fail ''kiro_event_stream_header_duplicate'')
     else and_then (wire_meaning v) (\<lambda>x. interpret_headers hs (map_set m n x)))"

lemma and_then_assoc [simp]: "and_then (and_then r f) g = and_then r (\<lambda>x. and_then (f x) g)"
  by (cases r) simp_all

lemma subarray_middle [simp]:
  "i = length pre \<Longrightarrow> j = length pre + length xs \<Longrightarrow> subarray (pre @ xs @ post) i j = xs"
  by (simp add: subarray_def)

lemma length_long_bytes [simp]: "length (long_bytes w) = 8"
  by (simp add: long_bytes_def)

lemma length_half_bytes [simp]: "length (half_bytes w) = 2"
  by (simp add: half_bytes_def)

lemma unat_of_small:
  "n < 256 \<Longrightarrow> unat (of_nat n :: byte) = n"
  by (simp add: unat_of_nat take_bit_nat_eq_self)

lemma parse_fixed_value:
  assumes "fixed_length t = Some (length xs)" "1 < t"
  shows "parseHeaderValue (pre @ xs @ post) (length pre) t
    = Inr (fixed_value t xs, length pre + length xs)"
  using assms by (auto simp: parseHeaderValue_def ensureHeaderBytes_def)

lemma parse_counted_value:
  assumes "length xs < 2 ^ 16" "t = 6 \<or> t = 7"
  shows "parseHeaderValue (pre @ half_bytes (of_nat (length xs)) @ xs @ post) (length pre) t
    = and_then (if t = 7 then and_then (decodeUtf8 xs) (\<lambda>s. Inr (HString s)) else Inr (HBytes xs))
        (\<lambda>v. Inr (v, length pre + 2 + length xs))"
proof -
  let ?w = "of_nat (length xs) :: 16 word"
  let ?all = "pre @ half_bytes ?w @ xs @ post"
  have "uint ?w = int (length xs)"
    using assms(1) by (simp add: uint_nat unat_of_nat take_bit_nat_eq_self)
  then have len: "nat (readUint16 ?all (length pre)) = length xs"
    by (simp add: readUint16_half)
  have sub: "subarray ?all (length pre + 2) (length pre + 2 + length xs) = xs"
    using subarray_middle [of "length pre + 2" "pre @ half_bytes ?w"] by simp
  show ?thesis
    using assms(2) len sub
    by (auto simp: parseHeaderValue_def ensureHeaderBytes_def fixed_length_def Let_def)
qed

lemma parse_wire_value:
  assumes "wire_ok v"
  shows "parseHeaderValue (pre @ wire_body v @ post) (length pre) (wire_type v)
    = and_then (wire_meaning v) (\<lambda>x. Inr (x, length pre + length (wire_body v)))"
proof (cases v)
  case (W_Bool b)
  then show ?thesis by (simp add: parseHeaderValue_def)
next
  case (W_Byte b)
  then show ?thesis
    using parse_fixed_value [of 2 "[b]" pre post] by (simp add: fixed_length_def fixed_value_def)
next
  case (W_Int16 w)
  then show ?thesis
    using parse_fixed_value [of 3 "half_bytes w" pre post]
    by (simp add: fixed_length_def fixed_value_def readInt16_half)
next
  case (W_Int32 w)
  then show ?thesis
    using parse_fixed_value [of 4 "word_bytes w" pre post]
    by (simp add: fixed_length_def fixed_value_def readInt32_word)
next
  case (W_Int64 w)
  then show ?thesis
    using parse_fixed_value [of 5 "long_bytes w" pre post]
    by (simp add: fixed_length_def fixed_value_def readBigInt64_long)
next
  case (W_Timestamp w)
  then show ?thesis
    using parse_fixed_value [of 8 "long_bytes w" pre post]
    by (simp add: fixed_length_def fixed_value_def readBigInt64_long)
next
  case (W_Uuid bs)
  then show ?thesis
    using parse_fixed_value [of 9 bs pre post] assms by (simp add: fixed_length_def fixed_value_def)
next
  case (W_Bytes bs)
  then show ?thesis
    using parse_counted_value [of bs 6 pre post] assms by (simp add: add.assoc)
next
  case (W_String bs)
  then show ?thesis
    using parse_counted_value [of bs 7 pre post] assms by (simp add: add.assoc)
qed

lemma wire_type_small: "wire_type v < 256"
  by (cases v) auto

lemma parse_encoded_headers:
  assumes "list_all header_ok hs"
  shows "parse_headers (pre @ encode_headers hs) (length pre) m = interpret_headers hs m"
  using assms
proof (induction hs arbitrary: pre m)
  case Nil
  then show ?case by (simp add: encode_headers_def parse_headers.simps)
next
  case (Cons h hs)
  obtain name v where h: "h = (name, v)" by (cases h)
  have ok: "name \<noteq> []" "length name < 256" "wire_ok v" and rest: "list_all header_ok hs"
    using Cons.prems h by (auto simp: header_ok_def [of "(name, v)"])
  define all where "all = pre @ encode_headers (h # hs)"
  let ?pre1 = "pre @ [of_nat (length name)]"
  let ?pre2 = "?pre1 @ name @ [of_nat (wire_type v)]"
  have all1: "all = ?pre1 @ name @ (of_nat (wire_type v) # wire_body v @ encode_headers hs)"
    by (simp add: all_def encode_headers_def encode_header_def h)
  have all2: "all = ?pre2 @ wire_body v @ encode_headers hs"
    by (simp add: all1)
  have all3: "all = (?pre2 @ wire_body v) @ encode_headers hs"
    by (simp add: all1)
  have n: "unat (all ! length pre) = length name"
    using ok by (simp add: all1 nth_append unat_of_small)
  have t: "unat (all ! (length pre + 1 + length name)) = wire_type v"
    by (simp add: all1 nth_append unat_of_small [OF wire_type_small])
  have sub: "subarray all (length pre + 1) (length pre + 1 + length name) = name"
    unfolding all1 by (rule subarray_middle) simp_all
  have val: "parseHeaderValue all (length pre + 1 + length name + 1) (wire_type v)
      = and_then (wire_meaning v) (\<lambda>x. Inr (x, length (?pre2 @ wire_body v)))"
    using parse_wire_value [OF ok(3), of ?pre2 "encode_headers hs"] by (simp add: all2 add.assoc)
  have len: "length pre < length all" "\<not> length pre + 1 + length name + 1 > length all"
    by (simp_all add: all1)
  have IH: "parse_headers all (length (?pre2 @ wire_body v)) m' = interpret_headers hs m'" for m'
    unfolding all3 by (rule Cons.IH [OF rest])
  show ?case
    unfolding all_def [symmetric] unfolding h interpret_headers.simps
    by (subst parse_headers.simps)
      (use len ok in \<open>simp only: n t sub val IH Let_def if_True if_False length_0_conv simp_thms
        and_then_assoc and_then_simps fst_conv snd_conv\<close>)
qed

section \<open>Frames on the wire\<close>

definition frame_prelude :: "byte list \<Rightarrow> byte list \<Rightarrow> byte list" where
  "frame_prelude hb payload =
     word_bytes (of_nat (16 + length hb + length payload)) @ word_bytes (of_nat (length hb))"

definition frame_body :: "byte list \<Rightarrow> byte list \<Rightarrow> byte list" where
  "frame_body hb payload =
     frame_prelude hb payload @ word_bytes (crc32Ieee (frame_prelude hb payload)) @ hb @ payload"

definition encode_frame :: "byte list \<Rightarrow> byte list \<Rightarrow> byte list" where
  "encode_frame hb payload = frame_body hb payload @ word_bytes (crc32Ieee (frame_body hb payload))"

lemma length_encode_frame [simp]: "length (encode_frame hb payload) = 16 + length hb + length payload"
  by (simp add: encode_frame_def frame_body_def frame_prelude_def)

lemma uint_of_nat_32: "n < 2 ^ 32 \<Longrightarrow> nat (uint (of_nat n :: 32 word)) = n"
  by (simp add: uint_nat unat_of_nat take_bit_nat_eq_self)

lemma read_encoded_prelude:
  assumes "16 + length hb + length payload < 2 ^ 32" "16 + length hb + length payload \<le> maxFrameBytes c"
  shows "readPrelude c (take 12 (encode_frame hb payload @ rest))
    = Inr (16 + length hb + length payload, length hb)"
proof -
  let ?p = "frame_prelude hb payload"
  let ?crc = "crc32Ieee ?p"
  have prelude: "take 12 (encode_frame hb payload @ rest) = ?p @ word_bytes ?crc"
    by (simp add: encode_frame_def frame_body_def frame_prelude_def)
  have p: "length ?p = 8" "subarray (?p @ word_bytes ?crc) 0 8 = ?p"
    by (simp_all add: frame_prelude_def subarray_def)
  have crc: "readUint32 (?p @ word_bytes ?crc) 8 = uint ?crc"
    using readUint32_word [of ?p ?crc "[]"] p by simp
  let ?total = "of_nat (16 + length hb + length payload) :: 32 word"
  let ?len = "of_nat (length hb) :: 32 word"
  have "readUint32 (?p @ word_bytes ?crc) 0 = uint ?total"
    using readUint32_word [of "[]" ?total "word_bytes ?len @ word_bytes ?crc"]
    by (simp add: frame_prelude_def)
  moreover have "readUint32 (?p @ word_bytes ?crc) 4 = uint ?len"
    using readUint32_word [of "word_bytes ?total" ?len "word_bytes ?crc"]
    by (simp add: frame_prelude_def)
  moreover have "nat (uint ?total) = 16 + length hb + length payload" "nat (uint ?len) = length hb"
    using assms(1) by (simp_all only: uint_of_nat_32)
  ultimately show ?thesis
    unfolding prelude using assms(2)
    by (simp add: readPrelude_def validatePreludeCrc_def p crc validateFrameLengths_def
        MIN_FRAME_BYTES_def Let_def del: of_nat_add)
qed

lemma parse_encoded_frame:
  "parseFrame (encode_frame hb payload) (length hb)
    = and_then (parseHeaders hb) (\<lambda>hs. Inr \<lparr>frame_headers = hs, frame_payload = payload\<rparr>)"
proof -
  let ?b = "frame_body hb payload"
  let ?pre = "frame_prelude hb payload @ word_bytes (crc32Ieee (frame_prelude hb payload))"
  have n: "length (encode_frame hb payload) - 4 = length ?b"
    by (simp add: encode_frame_def)
  have pre: "length ?pre = 12" by (simp add: frame_prelude_def)
  have frame: "encode_frame hb payload = ?pre @ hb @ payload @ word_bytes (crc32Ieee ?b)"
    "encode_frame hb payload = (?pre @ hb) @ payload @ word_bytes (crc32Ieee ?b)"
    by (simp_all add: encode_frame_def frame_body_def)
  have b: "length ?b = 12 + length hb + length payload"
    by (simp add: frame_body_def frame_prelude_def)
  have "subarray (encode_frame hb payload) 0 (length ?b) = ?b"
    by (simp add: encode_frame_def subarray_def)
  moreover have "readUint32 (encode_frame hb payload) (length ?b) = uint (crc32Ieee ?b)"
    using readUint32_word [of ?b "crc32Ieee ?b" "[]"] by (simp add: encode_frame_def)
  moreover have "subarray (encode_frame hb payload) 12 (12 + length hb) = hb"
    unfolding frame(1) by (rule subarray_middle) (simp_all add: pre del: length_append)
  moreover have "subarray (encode_frame hb payload) (12 + length hb) (length ?b) = payload"
    unfolding frame(2) by (rule subarray_middle) (use pre b in simp_all)
  ultimately show ?thesis
    unfolding parseFrame_def validateMessageCrc_def n Let_def by simp
qed

text \<open>Conversely, what passes the checks is the encoding of its headers block and payload.\<close>

lemma readUint32_take: "i + 4 \<le> m \<Longrightarrow> readUint32 (take m xs) i = readUint32 xs i"
  by (simp add: readUint32_def)

lemma readUint32_field:
  assumes "i + 4 \<le> length xs" "readUint32 xs i = uint w"
  shows "take 4 (drop i xs) = word_bytes w"
proof (rule readUint32_bytes)
  show "length (take 4 (drop i xs)) = 4" using assms(1) by simp
  show "readUint32 (take 4 (drop i xs)) 0 = uint w"
    using assms by (simp add: readUint32_def)
qed

lemma readUint32_of_nat:
  assumes "nat (readUint32 xs i) = n"
  shows "readUint32 xs i = uint (of_nat n :: 32 word)"
proof -
  have n: "readUint32 xs i = int n" "n < 2 ^ 32"
    using assms readUint32_bounds [of xs i] by (simp_all add: nat_less_iff flip: assms)
  then show ?thesis
    using uint_of_nat_32 [OF n(2)] by (metis nat_0_le uint_ge_0)
qed

lemma accepted_frame_encoded:
  assumes "readPrelude c (take 12 bs) = Inr (n, h)" "n \<le> length bs"
    "parseFrame (take n bs) h = Inr f"
  shows "\<exists>hb. length hb = h \<and> take n bs = encode_frame hb (frame_payload f)
    \<and> parseHeaders hb = Inr (frame_headers f)"
proof -
  note bounds = readPrelude_bounds [OF assms(1)]
  define fr where "fr = take n bs"
  define hb where "hb = take h (drop 12 fr)"
  define pl where "pl = take (n - 16 - h) (drop (12 + h) fr)"
  have lens: "length fr = n" "take 12 bs = take 12 fr" "length hb = h" "length pl = n - 16 - h"
    using bounds assms(2) unfolding fr_def hb_def pl_def by (simp_all, linarith+)
  have pr: "uint (crc32Ieee (take 8 fr)) = readUint32 fr 8" "nat (readUint32 fr 0) = n"
    "nat (readUint32 fr 4) = h"
    using assms(1) unfolding lens(2)
    by (auto simp: readPrelude_def and_then_Inr Let_def validatePreludeCrc_def subarray_def
        readUint32_take split: if_splits)
  have fr: "uint (crc32Ieee (take (n - 4) fr)) = readUint32 fr (n - 4)"
    "parseHeaders hb = Inr (frame_headers f)" "frame_payload f = pl"
    using assms(3) lens unfolding fr_def [symmetric] hb_def pl_def
    by (auto simp: parseFrame_def and_then_Inr Let_def validateMessageCrc_def subarray_def
        split: if_splits)
  have total: "16 + length hb + length pl = n" using lens bounds by simp
  have prelude: "take 8 fr = frame_prelude hb pl"
  proof -
    have "take 8 fr = take 4 (drop 0 fr) @ take 4 (drop 4 fr)"
      by (simp flip: take_add)
    also have "take 4 (drop 0 fr) = word_bytes (of_nat n)"
      using bounds lens by (intro readUint32_field readUint32_of_nat [OF pr(2)]) simp
    also have "take 4 (drop 4 fr) = word_bytes (of_nat h)"
      using bounds lens by (intro readUint32_field readUint32_of_nat [OF pr(3)]) simp
    also have "word_bytes (of_nat n) @ word_bytes (of_nat h) = frame_prelude hb pl"
      unfolding frame_prelude_def total by (simp only: lens(3))
    finally show ?thesis .
  qed
  have crc1: "take 4 (drop 8 fr) = word_bytes (crc32Ieee (frame_prelude hb pl))"
    using readUint32_field [of 8 fr] pr(1) bounds lens(1) prelude by simp
  have crc2: "drop (n - 4) fr = word_bytes (crc32Ieee (take (n - 4) fr))"
    using readUint32_field [of "n - 4" fr] fr(1) bounds lens(1) by simp
  have body: "take (n - 4) fr = take 8 fr @ take 4 (drop 8 fr) @ hb @ pl"
  proof -
    have n: "n - 4 = 8 + (4 + (h + (n - 16 - h)))" using bounds by simp
    show ?thesis unfolding n hb_def pl_def by (simp only: take_add drop_drop) (simp add: add.commute)
  qed
  have "fr = take (n - 4) fr @ drop (n - 4) fr" by simp
  also have "\<dots> = encode_frame hb pl"
    unfolding crc2 unfolding body prelude crc1 by (simp add: encode_frame_def frame_body_def)
  finally show ?thesis
    using fr lens by (auto simp: fr_def)
qed

section \<open>Changed bytes\<close>

lemma readUint32_tail: "readUint32 (xs @ crc) (length xs) = readUint32 crc 0"
  unfolding readUint32_def nth_append_length_plus
  using nth_append_length_plus [of xs crc 0] by (simp add: numeral_2_eq_2)

lemma prelude_burst_rejected:
  assumes "validatePreludeCrc (xs @ ys @ ws @ crc) = Inr ()" "length (xs @ ys @ ws) = 8"
    "length crc = 4" "length zs = length ys" "length ys \<le> 4" "zs \<noteq> ys"
  shows "validatePreludeCrc (xs @ zs @ ws @ crc) = Inl (kiro_fail ''kiro_event_stream_prelude_crc'')"
proof -
  have sub: "subarray (xs @ vs @ ws @ crc) 0 8 = xs @ vs @ ws"
    "readUint32 (xs @ vs @ ws @ crc) 8 = readUint32 crc 0" if "length vs = length ys" for vs
  proof -
    have n: "length (xs @ vs @ ws) = 8" using that assms(2) by simp
    show "subarray (xs @ vs @ ws @ crc) 0 8 = xs @ vs @ ws"
      using subarray_middle [of 0 "[]" 8 "xs @ vs @ ws" crc] n by simp
    have "readUint32 ((xs @ vs @ ws) @ crc) (length (xs @ vs @ ws)) = readUint32 crc 0"
      by (rule readUint32_tail)
    then show "readUint32 (xs @ vs @ ws @ crc) 8 = readUint32 crc 0" unfolding n by simp
  qed
  have "crc32Ieee (xs @ zs @ ws) \<noteq> crc32Ieee (xs @ ys @ ws)"
    using assms by (intro crc32_burst_changes) auto
  with assms(1) show ?thesis
    using sub [of ys] sub [OF assms(4)]
    by (auto simp: validatePreludeCrc_def split: if_splits) (metis unsigned_word_eqI)
qed

lemma message_burst_rejected:
  assumes "validateMessageCrc (xs @ ys @ ws @ crc) = Inr ()"
    "length crc = 4" "length zs = length ys" "length ys \<le> 4" "zs \<noteq> ys"
  shows "validateMessageCrc (xs @ zs @ ws @ crc) = Inl (kiro_fail ''kiro_event_stream_message_crc'')"
proof -
  have sub: "subarray (xs @ vs @ ws @ crc) 0 (length (xs @ vs @ ws @ crc) - 4) = xs @ vs @ ws"
    "readUint32 (xs @ vs @ ws @ crc) (length (xs @ vs @ ws @ crc) - 4) = readUint32 crc 0" for vs
  proof -
    have n: "length (xs @ vs @ ws @ crc) - 4 = length (xs @ vs @ ws)" using assms(2) by simp
    show "subarray (xs @ vs @ ws @ crc) 0 (length (xs @ vs @ ws @ crc) - 4) = xs @ vs @ ws"
      unfolding n using subarray_middle [of 0 "[]" _ "xs @ vs @ ws" crc] by simp
    have "readUint32 ((xs @ vs @ ws) @ crc) (length (xs @ vs @ ws)) = readUint32 crc 0"
      by (rule readUint32_tail)
    then show "readUint32 (xs @ vs @ ws @ crc) (length (xs @ vs @ ws @ crc) - 4) = readUint32 crc 0"
      unfolding n by simp
  qed
  have "crc32Ieee (xs @ zs @ ws) \<noteq> crc32Ieee (xs @ ys @ ws)"
    using assms by (intro crc32_burst_changes) auto
  with assms(1) show ?thesis
    unfolding validateMessageCrc_def sub by (auto split: if_splits) (metis unsigned_word_eqI)
qed

end
