(* ===== verification/Stream_Properties.thy ===== *)
theory Stream_Properties
  imports Collector_Proofs Limit_Proofs Schema_Meaning Frame_Proofs Byte_Proofs
begin

text \<open>
  The properties of the Kiro event stream, over whole runs: what a client sees of a response does
  not depend on how it was cut into chunks, is whole and in order, ends once, and corrupted input
  is an error and nothing else.
\<close>

section \<open>Sample data\<close>

definition no_patterns :: regexp_engine where
  "no_patterns s = None"

definition sample_kiro_options :: kiro_options where
  "sample_kiro_options =
     \<lparr>o_declaredToolNames = [], o_declaredTools = [(utf16 ''search'', JObj [])],
      o_maxFrameBytes = Some (Num 64), o_maxCumulativeTextCharacters = None, o_maxToolCount = Some (Num 2),
      o_maxTotalToolInputBytes = None, o_maxActiveToolCount = None, o_maxPendingToolCount = None,
      o_maxCompletedToolCount = None\<rparr>"

definition sample_config :: kiro_config where
  "sample_config =
     \<lparr>declaredToolNames = [utf16 ''search''], declaredToolSchemas = [(utf16 ''search'', JObj [])],
      maxFrameBytes = 64, maxCumulativeTextCharacters = 100, maxToolCount = 2, maxTotalToolInputBytes = 100,
      maxActiveToolCount = 1, maxPendingToolCount = 1, maxCompletedToolCount = 2, regexp = no_patterns\<rparr>"

section \<open>Whole frames on the wire\<close>

type_synonym wire_frame = "(byte list \<times> wire_value) list \<times> byte list"

definition frame_wire :: "wire_frame \<Rightarrow> byte list" where
  "frame_wire f = encode_frame (encode_headers (fst f)) (snd f)"

definition frame_fits :: "kiro_config \<Rightarrow> wire_frame \<Rightarrow> bool" where
  "frame_fits c f \<longleftrightarrow>
     list_all header_ok (fst f) \<and> length (frame_wire f) \<le> maxFrameBytes c \<and> length (frame_wire f) < 2 ^ 32"

text \<open>The frames one by one; headers that mean nothing are a failure.\<close>

fun handle_all :: "kiro_config \<Rightarrow> kiro_parser \<Rightarrow> wire_frame list \<Rightarrow> kiro_parser" where
  "handle_all c p [] = p"
| "handle_all c p (f # fs) =
     (if failed p then p
      else case interpret_headers (fst f) [] of
          Inl e \<Rightarrow> emitFailure p e
        | Inr hs \<Rightarrow>
            handle_all c (fail_on (handleFrame c (p\<lparr>sawFrame := True\<rparr>)
              \<lparr>frame_headers = hs, frame_payload = snd f\<rparr>)) fs)"

lemma parse_headers_encoded:
  "list_all header_ok hs \<Longrightarrow> parseHeaders (encode_headers hs) = interpret_headers hs []"
  using parse_encoded_headers [of hs "[]" "[]"] by (simp add: parseHeaders_def)

lemma drain_frames:
  "list_all (frame_fits c) fs \<Longrightarrow> flat_drain c p (concat (map frame_wire fs)) = (handle_all c p fs, [])"
proof (induction fs arbitrary: p)
  case Nil
  then show ?case by (simp add: flat_drain.simps)
next
  case (Cons f fs)
  let ?hb = "encode_headers (fst f)" and ?rest = "concat (map frame_wire fs)"
  let ?n = "16 + length ?hb + length (snd f)"
  define bs where "bs = frame_wire f @ ?rest"
  have fits: "list_all header_ok (fst f)" "?n \<le> maxFrameBytes c" "?n < 2 ^ 32"
    using Cons.prems by (simp_all add: frame_fits_def frame_wire_def)
  have prelude: "readPrelude c (take 12 bs) = Inr (?n, length ?hb)"
    unfolding bs_def frame_wire_def by (rule read_encoded_prelude) (use fits in simp_all)
  have len: "length (frame_wire f) = ?n" by (simp add: frame_wire_def)
  have frame: "parseFrame (take ?n bs) (length ?hb)
      = and_then (interpret_headers (fst f) []) (\<lambda>hs. Inr \<lparr>frame_headers = hs, frame_payload = snd f\<rparr>)"
    using parse_encoded_frame [of ?hb "snd f"] parse_headers_encoded [OF fits(1)]
    by (simp add: bs_def frame_wire_def)
  have rest: "drop ?n bs = ?rest" "\<not> length bs < 12" "\<not> length bs < ?n" using len by (simp_all add: bs_def)
  have whole: "concat (map frame_wire (f # fs)) = bs" by (simp add: bs_def)
  show ?case
  proof (cases "failed p")
    case True
    then show ?thesis by (simp add: flat_drain.simps)
  next
    case False
    then show ?thesis
      unfolding whole using Cons.IH Cons.prems
      by (cases "interpret_headers (fst f) []")
        (simp_all add: flat_drain.simps [of c p bs] prelude frame rest)
  qed
qed

section \<open>Properties of the byte level\<close>

text \<open>
  The table-driven checksum is the CRC-32 of IEEE 802.3, computed bit by bit with the
  reflected polynomial, for every byte string.
\<close>
theorem crc_is_crc32: "crc32Ieee bs = crc32_reference bs"
  by (rule crc32Ieee_reference)

text \<open>
  C23. Frames written back to back on the wire, however the transport cuts them, are handled one
  by one in their order, with the headers and payloads that were encoded.
\<close>
theorem frames_handled_in_order:
  assumes "list_all (frame_fits c) fs" "concat received = concat (map frame_wire fs)"
  shows "stream_events c received = events (flat_finish c (handle_all c new_parser fs) 0)"
  unfolding stream_events_flat flat_run_def assms(2) drain_frames [OF assms(1)] by simp

definition sample_frames :: "wire_frame list" where
  "sample_frames = [([([58], W_Bool True)], [123, 125]), ([], [])]"

theorem frames_handled_in_order_witness:
  "stream_events sample_config [frame_wire (sample_frames ! 0), frame_wire (sample_frames ! 1)]
     = events (flat_finish sample_config (handle_all sample_config new_parser sample_frames) 0)"
  by (rule frames_handled_in_order)
    (simp_all add: sample_frames_def frame_fits_def frame_wire_def sample_config_def header_ok_def
      encode_headers_def encode_header_def)

text \<open>
  C17. A frame in which up to four neighbouring bytes of headers and payload were changed reaches no
  handler: a stream that starts with it is one checksum failure, whatever follows.
\<close>
theorem corrupted_frame_rejected:
  assumes "frame_body hb payload = xs @ ys @ ws" "12 \<le> length xs"
    and "length zs = length ys" "length ys \<le> 4" "zs \<noteq> ys"
    and "16 + length hb + length payload \<le> maxFrameBytes c" "16 + length hb + length payload < 2 ^ 32"
    and "concat received = xs @ zs @ ws @ word_bytes (crc32Ieee (frame_body hb payload)) @ rest"
  shows "stream_events c received =
    [Error_Event None (Some (utf16 ''kiro_event_stream_message_crc''))
       (Some (utf16 ''invalid_upstream_response'')),
     Stop Stop_Error (Some (utf16 ''kiro_event_stream_message_crc'')), Done]"
proof -
  let ?crc = "word_bytes (crc32Ieee (frame_body hb payload))" and ?n = "16 + length hb + length payload"
  let ?bs = "xs @ zs @ ws @ ?crc @ rest"
  have "take 12 ?bs = take 12 xs" using assms(2) by simp
  also have "\<dots> = take 12 (encode_frame hb payload @ rest)"
    using assms(2) by (simp add: encode_frame_def assms(1))
  finally have prelude: "readPrelude c (take 12 ?bs) = Inr (?n, length hb)"
    using read_encoded_prelude [OF assms(7,6)] by simp
  have "length (xs @ ys @ ws) + 4 = ?n"
    unfolding assms(1) [symmetric] by (simp add: frame_body_def frame_prelude_def)
  then have len: "length (xs @ zs @ ws @ ?crc) = ?n" using assms(3) by simp
  then have frame: "take ?n ?bs = xs @ zs @ ws @ ?crc" "\<not> length ?bs < ?n" "\<not> length ?bs < 12" by simp_all
  have whole: "validateMessageCrc (encode_frame hb payload) = Inr ()"
    using readUint32_word [of "frame_body hb payload" "crc32Ieee (frame_body hb payload)" "[]"]
    by (simp add: validateMessageCrc_def encode_frame_def subarray_def)
  have "validateMessageCrc (xs @ zs @ ws @ ?crc) = Inl (kiro_fail ''kiro_event_stream_message_crc'')"
    by (rule message_burst_rejected [of xs ys])
      (use assms(3-5) whole in \<open>simp_all add: encode_frame_def assms(1)\<close>)
  then have parsed: "parseFrame (take ?n ?bs) (length hb) = Inl (kiro_fail ''kiro_event_stream_message_crc'')"
    unfolding frame(1) parseFrame_def by simp
  have "flat_drain c new_parser ?bs = (emitFailure new_parser (kiro_fail ''kiro_event_stream_message_crc''), [])"
  proof -
    define bs where "bs = ?bs"
    have "\<not> failed new_parser" by (simp add: new_parser_def)
    then show ?thesis
      using frame(2,3) prelude parsed unfolding bs_def [symmetric]
      by (simp add: flat_drain.simps [of c new_parser bs])
  qed
  then show ?thesis
    unfolding stream_events_flat flat_run_def assms(8)
    by (simp add: flat_finish_def) (simp add: emitFailure_def new_parser_def kiro_fail_def kiro_fail_as_def)
qed

definition corrupted_sample :: "byte list" where
  "corrupted_sample =
     frame_prelude [] [123, 125] @ word_bytes (crc32Ieee (frame_prelude [] [123, 125])) @ [91, 125]
     @ word_bytes (crc32Ieee (frame_body [] [123, 125]))"

theorem corrupted_frame_rejected_witness:
  "stream_events sample_config [corrupted_sample, [0, 0]] =
    [Error_Event None (Some (utf16 ''kiro_event_stream_message_crc''))
       (Some (utf16 ''invalid_upstream_response'')),
     Stop Stop_Error (Some (utf16 ''kiro_event_stream_message_crc'')), Done]"
  by (rule corrupted_frame_rejected [of "[]" "[123, 125]"
        "frame_prelude [] [123, 125] @ word_bytes (crc32Ieee (frame_prelude [] [123, 125]))" "[123]" "[125]" "[91]"
        _ _ "[0, 0]"])
    (simp_all add: frame_body_def corrupted_sample_def sample_config_def, simp add: frame_prelude_def)

section \<open>Properties of the stream\<close>

lemma run_fields:
  "failed (fst (run_stream c received)) = failed (flat_run c (concat received))"
  "lastAssistantContent (fst (run_stream c received)) = lastAssistantContent (flat_run c (concat received))"
  "nextToolIndex (fst (run_stream c received)) = nextToolIndex (flat_run c (concat received))"
proof -
  obtain p es where "run_stream c received = (p, es)" by fastforce
  note flat = run_stream_flat(1) [OF this] and run = this
  from arg_cong [OF flat, of failed] arg_cong [OF flat, of lastAssistantContent] arg_cong [OF flat, of nextToolIndex]
  show "failed (fst (run_stream c received)) = failed (flat_run c (concat received))"
    "lastAssistantContent (fst (run_stream c received)) = lastAssistantContent (flat_run c (concat received))"
    "nextToolIndex (fst (run_stream c received)) = nextToolIndex (flat_run c (concat received))"
    by (simp_all add: run unbuffered_def)
qed

text \<open>
  C15. What a client sees of a response, events and diagnostics, depends on its bytes alone and not
  on the chunks they arrive in.
\<close>
theorem chunks_do_not_matter:
  "stream_events c received = stream_events c [concat received]
   \<and> stream_diagnostics c received = stream_diagnostics c [concat received]"
  using run_stream_chunks [of received "[concat received]"] by simp

text \<open>
  C18. Whatever bytes arrive, the events are progress followed by exactly one ending: the stop reason
  of a regular end and done, or one error, an error stop with its code and done.
\<close>
theorem every_stream_ends_once: "well_ended (stream_events c received)"
  by (rule stream_well_ended)

text \<open>
  C14. The tool calls of a stream leave whole, in the order of their indices from zero without gaps,
  with different ids, under declared names and with arguments their schema accepts. A stream that
  does not fail has delivered every call it started, and stops for tool calls exactly if there are any.
\<close>
theorem tool_calls_whole_and_ordered:
  "\<exists>ts. delivered c (stream_events c received) ts
     \<and> (if failed (fst (run_stream c received)) then stop_reasons (stream_events c received) = [Stop_Error]
        else length ts = nextToolIndex (fst (run_stream c received))
          \<and> stop_reasons (stream_events c received) = [if ts = [] then Stop_Normal else Stop_Tool_Calls])"
  using flat_run_calls [of c "concat received"]
  unfolding calls_outcome_def run_fields stream_events_flat .

text \<open>
  C21. The text of a stream is the visible part of the last snapshot: everything outside the thinking
  tags and nothing inside. A stream that fails has shown a prefix of it.
\<close>
theorem only_visible_text_leaves:
  "if failed (fst (run_stream c received))
   then \<exists>k rest. visible_text (take k (lastAssistantContent (fst (run_stream c received))))
          = text_of (stream_events c received) @ rest
   else text_of (stream_events c received) = visible_text (lastAssistantContent (fst (run_stream c received)))"
  using flat_run_text [of c "concat received"]
  unfolding text_outcome_def run_fields stream_events_flat .

text \<open>
  C27. Whatever bytes arrive, the parser holds no more tools, pending calls and completed ids, no
  longer snapshots and no more tool input than configured, and fewer unread bytes than one frame;
  a failed parser holds no bytes.
\<close>
theorem stream_within_limits:
  assumes "new_config re opts = Inr c"
  shows "within_stream_limits c (fst (feed c new_parser received))
    \<and> length (queue_bytes (bytes (fst (feed c new_parser received)))) < maxFrameBytes c
    \<and> (if failed (fst (feed c new_parser received))
       then queue_bytes (bytes (fst (feed c new_parser received))) = [] else True)"
  using feed_within [OF config_frame_bytes [OF assms], of received] by (cases "feed c new_parser received") simp

definition configured_sample :: kiro_config where
  "configured_sample =
     \<lparr>declaredToolNames = [utf16 ''search''], declaredToolSchemas = [(utf16 ''search'', JObj [])],
      maxFrameBytes = 64, maxCumulativeTextCharacters = DEFAULT_MAX_CUMULATIVE_TEXT_CHARACTERS,
      maxToolCount = 2, maxTotalToolInputBytes = DEFAULT_MAX_TOTAL_TOOL_INPUT_BYTES,
      maxActiveToolCount = DEFAULT_MAX_ACTIVE_TOOL_COUNT, maxPendingToolCount = DEFAULT_MAX_PENDING_TOOL_COUNT,
      maxCompletedToolCount = DEFAULT_MAX_COMPLETED_TOOL_COUNT, regexp = no_patterns\<rparr>"

lemma sample_configured: "new_config no_patterns sample_kiro_options = Inr configured_sample"
  by (simp add: new_config_def sample_kiro_options_def configured_sample_def opt_then_def normalizeLimit_def
      utf16_def MIN_FRAME_BYTES_def unique_def)

theorem stream_within_limits_witness:
  "length (queue_bytes (bytes (fst (feed configured_sample new_parser [[1, 2], [3]])))) < 64
   \<and> length (tools (fst (feed configured_sample new_parser [[1, 2], [3]]))) \<le> 64"
  using stream_within_limits [OF sample_configured, of "[[1, 2], [3]]"]
  by (simp add: within_stream_limits_def counts_def configured_sample_def DEFAULT_MAX_ACTIVE_TOOL_COUNT_def)

lemma drain_stops:
  "\<not> failed (fst (flat_drain c p bs)) \<Longrightarrow>
     (let r = snd (flat_drain c p bs)
      in length r < 12 \<or> (case readPrelude c (take 12 r) of Inl e \<Rightarrow> False | Inr (n, h) \<Rightarrow> length r < n))"
proof (induction c p bs rule: flat_drain.induct)
  case (1 c p bs)
  show ?case
  proof (cases "failed p \<or> length bs < 12")
    case True
    with 1(2) show ?thesis by (auto simp: flat_drain.simps [of c p bs])
  next
    case going: False
    show ?thesis
    proof (cases "readPrelude c (take 12 bs)")
      case (Inl e)
      with going 1(2) show ?thesis by (simp add: flat_drain.simps [of c p bs])
    next
      case (Inr nh)
      then obtain n h where nh: "readPrelude c (take 12 bs) = Inr (n, h)" by (cases nh) auto
      with 1(1) [OF _ _ nh refl] 1(2) going show ?thesis
        by (cases "length bs < n") (auto simp: flat_drain.simps [of c p bs] Let_def split: sum.splits)
    qed
  qed
qed

text \<open>
  C39. The loop over the buffered bytes ends, for any input, only when it has failed or when less
  than one complete frame is left: no complete frame waits for later bytes.
\<close>
theorem complete_frames_are_consumed:
  "let p = fst (feed c new_parser received); left = queue_bytes (bytes p)
   in if failed p then left = []
      else length left < 12
        \<or> (case readPrelude c (take 12 left) of Inl e \<Rightarrow> False | Inr (n, h) \<Rightarrow> length left < n)"
proof -
  obtain p es where f: "feed c new_parser received = (p, es)" by fastforce
  have "unbuffered new_parser = new_parser" "queue_bytes (bytes new_parser) = []"
    by (simp_all add: unbuffered_def new_parser_def)
  with feed_flat [OF stream_ok_new f]
  have "flat_drain c new_parser (concat received) = (rebase emptyQueue es p, queue_bytes (bytes p))"
    and "stream_ok c p" by simp_all
  with drain_stops [of c new_parser "concat received"] show ?thesis
    by (auto simp: f stream_ok_def Let_def)
qed

text \<open>
  C22. The collected response of a whole body is a function of the events of its stream: its text,
  its calls with their parsed arguments, its usage and stop reason; a stream with an error has no
  calls, and reading on after the end changes nothing.
\<close>
theorem collected_response_of_stream:
  "\<exists>ts. delivered c (stream_events c received) ts
     \<and> collectKiroEventStreamBody c received
       = Some (summary (stream_events c received) (stream_diagnostics c received) ts)"
  by (rule collected_summary)

text \<open>
  C26. A value passes the schema validator exactly if it satisfies the schema as \<open>schema_holds\<close> states it,
  keyword by keyword and with none of the validator's helpers: types by name, lengths against limits that are
  whole numbers, numbers in their order, multiples up to rounding, values that are the same whatever the order
  of their properties, properties by their declared schema or else \<^verbatim>\<open>additionalProperties\<close>. At most 64 levels of
  schemas lie below the first; the path only names the place.
\<close>
theorem schema_validation_exact:
  "validateSchemaValue re v s path depth = None \<longleftrightarrow> schema_holds (65 - depth) re v s"
  by (rule validator_reference)

end
