(* ===== verification/Sse_Framer.thy ===== *)
theory Sse_Framer
  imports Canonical_Events
begin

text \<open>
  \<open>SseFramer\<close> of \<^verbatim>\<open>src/main/gateway/streaming.ts\<close>: it cuts the decoded text of a response into
  server-sent events and bounds what an unfinished event may take. What it calls back is the list
  \<open>sse_calls\<close>, in order.
\<close>

datatype sse_call = Sse_Event "js_text option" js_text | Sse_Too_Large

record sse_framer =
  sse_buffer :: js_text
  sse_eventName :: "js_text option"
  dataLines :: "js_text list"
  frameCharacters :: nat
  sse_failed :: bool
  sse_calls :: "sse_call list"

definition new_sse_framer :: sse_framer where
  "new_sse_framer =
     \<lparr>sse_buffer = [], sse_eventName = None, dataLines = [], frameCharacters = 0, sse_failed = False,
      sse_calls = []\<rparr>"

definition CR :: nat where "CR = 13"
definition LF :: nat where "LF = 10"

fun join_lines :: "js_text list \<Rightarrow> js_text" where
  "join_lines [] = []"
| "join_lines [l] = l"
| "join_lines (l # ls) = l @ [LF] @ join_lines ls"

definition sse_dispatch :: "sse_framer \<Rightarrow> sse_framer" where
  "sse_dispatch f =
     (let f = (if dataLines f \<noteq> []
               then f\<lparr>sse_calls := sse_calls f @ [Sse_Event (sse_eventName f) (join_lines (dataLines f))]\<rparr>
               else f)
      in f\<lparr>sse_eventName := None, dataLines := [], frameCharacters := 0\<rparr>)"

text \<open>Field and value of a line, at its first colon.\<close>

definition split_field :: "js_text \<Rightarrow> js_text \<times> js_text" where
  "split_field line =
     (let field = takeWhile (\<lambda>u. u \<noteq> 58) line; value = drop (Suc (length field)) line
      in (field, if text_starts value (utf16 '' '') then drop 1 value else value))"

definition sse_processLine :: "sse_framer \<Rightarrow> js_text \<Rightarrow> sse_framer" where
  "sse_processLine f line =
     (if line = [] then sse_dispatch f
      else if hd line = 58 then f
      else let (field, value) = split_field line;
               f = (if field = utf16 ''event'' then f\<lparr>sse_eventName := Some value\<rparr> else f)
           in if field = utf16 ''data'' then f\<lparr>dataLines := dataLines f @ [value]\<rparr> else f)"

text \<open>The state and whether the limit holds.\<close>

definition sse_ensureWithinLimit :: "nat \<Rightarrow> sse_framer \<Rightarrow> nat \<Rightarrow> sse_framer \<times> bool" where
  "sse_ensureWithinLimit m f characters =
     (if characters \<le> m then (f, True)
      else (f\<lparr>sse_failed := True, sse_buffer := [], sse_eventName := None, dataLines := [],
              frameCharacters := 0, sse_calls := sse_calls f @ [Sse_Too_Large]\<rparr>, False))"

text \<open>The place of the first line terminator.\<close>

fun newline_index :: "js_text \<Rightarrow> nat option" where
  "newline_index [] = None"
| "newline_index (u # s) = (if u = CR \<or> u = LF then Some 0 else map_option Suc (newline_index s))"

lemma newline_index_less: "newline_index s = Some n \<Longrightarrow> n < length s \<and> (s ! n = CR \<or> s ! n = LF)"
  by (induction s arbitrary: n) (auto split: if_splits)

definition terminator_length :: "js_text \<Rightarrow> nat \<Rightarrow> nat" where
  "terminator_length s n = (if s ! n = CR \<and> Suc n < length s \<and> s ! Suc n = LF then 2 else 1)"

function sse_drain :: "nat \<Rightarrow> bool \<Rightarrow> sse_framer \<Rightarrow> sse_framer" where
  "sse_drain m final f =
     (case newline_index (sse_buffer f) of
        None \<Rightarrow> fst (sse_ensureWithinLimit m f (frameCharacters f + length (sse_buffer f)))
      | Some n \<Rightarrow>
          if \<not> final \<and> Suc n = length (sse_buffer f) \<and> sse_buffer f ! n = CR
          then fst (sse_ensureWithinLimit m f (frameCharacters f + length (sse_buffer f)))
          else let k = terminator_length (sse_buffer f) n;
                   line = take n (sse_buffer f);
                   (f, ok) = sse_ensureWithinLimit m
                     (f\<lparr>sse_buffer := drop (n + k) (sse_buffer f), frameCharacters := frameCharacters f + n + k\<rparr>)
                     (frameCharacters f + n + k)
               in if ok then sse_drain m final (sse_processLine f line) else f)"
  by auto

lemma dispatch_buffer [simp]:
  "sse_buffer (sse_dispatch f) = sse_buffer f" "sse_failed (sse_dispatch f) = sse_failed f"
  by (simp_all add: sse_dispatch_def Let_def)

lemma processLine_buffer [simp]:
  "sse_buffer (sse_processLine f line) = sse_buffer f" "sse_failed (sse_processLine f line) = sse_failed f"
  by (simp_all add: sse_processLine_def Let_def split: prod.splits)

termination sse_drain
proof (relation "measure (\<lambda>(m, final, f). length (sse_buffer f))", goal_cases)
  case (2 m final f n k line ff f' ok)
  then have "sse_buffer f' = drop (n + k) (sse_buffer f)"
    by (auto simp: sse_ensureWithinLimit_def split: if_splits)
  moreover have "n < length (sse_buffer f)" "0 < k"
    using 2 newline_index_less by (auto simp: terminator_length_def)
  ultimately show ?case by simp
qed simp

declare sse_drain.simps [simp del]

text \<open>\<open>push\<close> takes no more at once than may be retained, and one more.\<close>

function sse_push :: "nat \<Rightarrow> sse_framer \<Rightarrow> js_text \<Rightarrow> sse_framer" where
  "sse_push m f s =
     (if s = [] \<or> sse_failed f then f
      else let n = Suc (m - (frameCharacters f + length (sse_buffer f)))
           in sse_push m (sse_drain m False (f\<lparr>sse_buffer := sse_buffer f @ take n s\<rparr>)) (drop n s))"
  by auto
termination
  by (relation "measure (\<lambda>(m, f, s). length s)") auto

declare sse_push.simps [simp del]

definition sse_finish :: "nat \<Rightarrow> sse_framer \<Rightarrow> sse_framer" where
  "sse_finish m f =
     (if sse_failed f then f
      else let f = sse_drain m True f;
               f = (if sse_buffer f \<noteq> [] then sse_processLine f (sse_buffer f) else f)
           in sse_dispatch (f\<lparr>sse_buffer := []\<rparr>))"

end
