(* ===== verification/Sse_Proofs.thy ===== *)
theory Sse_Proofs
  imports Sse_Framer
begin

text \<open>
  Framing does not depend on how the text arrives: taking it in pieces is taking it character by
  character. Without an overflow the calls are those of a line-by-line reference.
  The last section shows that the framer does not look at what it called back before, and keeps the
  contract of a framer.
\<close>

section \<open>The contract of a framer\<close>

text \<open>
  What \<open>ProtocolParser\<close> of \<^verbatim>\<open>src/main/gateway/streaming.ts\<close> relies on in a framer, whether it reads server-sent
  events or JSON values: what it calls back for two texts is what it calls back for their concatenation, and
  it does not look at what it called back before. Handling the calls after each text, as the code does, is
  then handling them after the whole text.
\<close>

locale framer =
  fixes push :: "'f \<Rightarrow> js_text \<Rightarrow> 'f" and valid :: "'f \<Rightarrow> bool"
    and calls :: "'f \<Rightarrow> 'c list" and taken :: "'f \<Rightarrow> 'f"
  assumes push_append: "valid f \<Longrightarrow> push (push f s) t = push f (s @ t)"
    and valid_push: "valid f \<Longrightarrow> valid (push f s)"
    and valid_taken: "valid f \<Longrightarrow> valid (taken f)"
    and calls_taken: "calls (taken f) = []"
    and push_calls: "valid f \<Longrightarrow> calls (push f s) = calls f @ calls (push (taken f) s)"
    and push_taken: "valid f \<Longrightarrow> taken (push (taken f) s) = taken (push f s)"
begin

text \<open>A text pushed and its calls handled.\<close>

definition fed :: "('p \<Rightarrow> 'c \<Rightarrow> 'p) \<Rightarrow> 'f \<times> 'p \<Rightarrow> js_text \<Rightarrow> 'f \<times> 'p" where
  "fed handle st s = (let f = push (fst st) s in (taken f, foldl handle (snd st) (calls f)))"

lemma fed_append:
  assumes "valid (fst st)"
  shows "fed handle (fed handle st s) t = fed handle st (s @ t)"
  using push_calls [OF valid_push [OF assms], of s t] push_taken [OF valid_push [OF assms], of s t]
  by (simp add: fed_def Let_def push_append [OF assms])

lemma fed_valid: "valid (fst st) \<Longrightarrow> valid (fst (fed handle st s))"
  by (simp add: fed_def Let_def valid_push valid_taken)

lemma fed_taken: "calls (fst (fed handle st s)) = []"
  by (simp add: fed_def Let_def calls_taken)

end

section \<open>Character by character\<close>

abbreviation add_text :: "sse_framer \<Rightarrow> js_text \<Rightarrow> sse_framer" where
  "add_text f s \<equiv> f\<lparr>sse_buffer := sse_buffer f @ s\<rparr>"

definition retained :: "sse_framer \<Rightarrow> nat" where
  "retained f = frameCharacters f + length (sse_buffer f)"

definition sse_step :: "nat \<Rightarrow> sse_framer \<Rightarrow> nat \<Rightarrow> sse_framer" where
  "sse_step m f u = (if sse_failed f then f else sse_drain m False (add_text f [u]))"

definition framer_ok :: "nat \<Rightarrow> sse_framer \<Rightarrow> bool" where
  "framer_ok m f \<longleftrightarrow>
     retained f \<le> m \<and> sum_list (map length (dataLines f)) \<le> frameCharacters f"

lemma processLine_with_buffer:
  "sse_processLine (f\<lparr>sse_buffer := s\<rparr>) line = (sse_processLine f line)\<lparr>sse_buffer := s\<rparr>"
  by (simp add: sse_processLine_def sse_dispatch_def Let_def split: prod.splits)

lemma split_field_length: "length (snd (split_field line)) \<le> length line"
  by (auto simp: split_field_def Let_def)

lemma processLine_data:
  assumes "sum_list (map length (dataLines f)) + length line \<le> frameCharacters f"
  shows "frameCharacters (sse_processLine f line) \<le> frameCharacters f
    \<and> sum_list (map length (dataLines (sse_processLine f line))) \<le> frameCharacters (sse_processLine f line)"
  using assms split_field_length [of line]
  by (auto simp: sse_processLine_def sse_dispatch_def Let_def split: prod.splits)

lemma newline_index_append:
  "newline_index s = Some n \<Longrightarrow> newline_index (s @ t) = Some n"
  by (induction s arbitrary: n) (auto split: if_splits)

lemma terminator_bounds: "0 < terminator_length s n" "n < length s \<Longrightarrow> n + terminator_length s n \<le> length s"
  by (auto simp: terminator_length_def)

text \<open>The framer after its first line.\<close>

definition after_line :: "sse_framer \<Rightarrow> nat \<Rightarrow> sse_framer" where
  "after_line f n =
     (let k = terminator_length (sse_buffer f) n
      in sse_processLine
        (f\<lparr>sse_buffer := drop (n + k) (sse_buffer f), frameCharacters := frameCharacters f + n + k\<rparr>)
        (take n (sse_buffer f)))"

lemma after_line_buffer:
  "sse_buffer (after_line f n) = drop (n + terminator_length (sse_buffer f) n) (sse_buffer f)"
  "sse_failed (after_line f n) = sse_failed f"
  by (simp_all add: after_line_def Let_def)

lemma after_line_shorter:
  assumes "newline_index (sse_buffer f) = Some n"
  shows "length (sse_buffer (after_line f n)) < length (sse_buffer f)"
  using newline_index_less [OF assms] terminator_bounds(1) [of "sse_buffer f" n]
  by (auto simp: after_line_buffer intro: diff_less)

lemma after_line_append:
  assumes "newline_index (sse_buffer f) = Some n" "\<not> (Suc n = length (sse_buffer f) \<and> sse_buffer f ! n = CR)"
  shows "after_line (add_text f s) n = add_text (after_line f n) s"
proof -
  let ?b = "sse_buffer f" and ?k = "terminator_length (sse_buffer f) n"
  have n: "n < length ?b" using newline_index_less [OF assms(1)] by simp
  have k: "terminator_length (?b @ s) n = ?k"
    using n assms(2) by (auto simp: terminator_length_def nth_append)
  have le: "n + ?k \<le> length ?b" using terminator_bounds(2) [OF n] .
  let ?g = "f\<lparr>frameCharacters := frameCharacters f + n + ?k\<rparr>"
  have swap: "f\<lparr>sse_buffer := b, frameCharacters := c\<rparr> = f\<lparr>frameCharacters := c, sse_buffer := b\<rparr>" for b c
    by simp
  have "after_line f n = (sse_processLine ?g (take n ?b))\<lparr>sse_buffer := drop (n + ?k) ?b\<rparr>"
    unfolding processLine_with_buffer [symmetric] by (simp only: after_line_def Let_def swap)
  moreover have "after_line (add_text f s) n = (sse_processLine ?g (take n ?b))\<lparr>sse_buffer := drop (n + ?k) ?b @ s\<rparr>"
    using n k le unfolding processLine_with_buffer [symmetric] by (simp add: after_line_def Let_def swap)
  ultimately show ?thesis by simp
qed

text \<open>The three ways a round of draining goes.\<close>

definition waiting :: "bool \<Rightarrow> js_text \<Rightarrow> bool" where
  "waiting final b \<longleftrightarrow>
     (case newline_index b of None \<Rightarrow> True | Some n \<Rightarrow> \<not> final \<and> Suc n = length b \<and> b ! n = CR)"

definition line_size :: "sse_framer \<Rightarrow> nat \<Rightarrow> nat" where
  "line_size f n = frameCharacters f + n + terminator_length (sse_buffer f) n"

lemma not_waiting: "\<not> waiting final b \<longleftrightarrow>
  (\<exists>n. newline_index b = Some n \<and> (final \<or> \<not> (Suc n = length b \<and> b ! n = CR)))"
  by (auto simp: waiting_def split: option.splits)

lemma drain_waits:
  "waiting final (sse_buffer f) \<Longrightarrow> sse_drain m final f = fst (sse_ensureWithinLimit m f (retained f))"
  by (subst sse_drain.simps) (auto simp: waiting_def retained_def split: option.splits)

lemma drain_line:
  assumes "newline_index (sse_buffer f) = Some n" "\<not> waiting final (sse_buffer f)" "line_size f n \<le> m"
  shows "sse_drain m final f = sse_drain m final (after_line f n)"
  using assms
  by (subst sse_drain.simps)
    (auto simp: waiting_def line_size_def after_line_def sse_ensureWithinLimit_def Let_def)

lemma drain_overflows:
  assumes "newline_index (sse_buffer f) = Some n" "\<not> waiting final (sse_buffer f)" "\<not> line_size f n \<le> m"
  shows "sse_failed (sse_drain m final f)" "dataLines (sse_drain m final f) = []"
    "retained (sse_drain m final f) = 0" "sse_calls (sse_drain m final f) = sse_calls f @ [Sse_Too_Large]"
  using assms
  by (subst sse_drain.simps,
      auto simp: waiting_def line_size_def sse_ensureWithinLimit_def retained_def Let_def)+

lemma line_size_retained:
  assumes "newline_index (sse_buffer f) = Some n"
  shows "line_size f n \<le> retained f"
  using terminator_bounds(2) [of n "sse_buffer f"] newline_index_less [OF assms]
  by (simp add: line_size_def retained_def)

lemma after_line_retained:
  assumes "newline_index (sse_buffer f) = Some n"
    and "sum_list (map length (dataLines f)) \<le> frameCharacters f"
  shows "retained (after_line f n) \<le> retained f"
    and "sum_list (map length (dataLines (after_line f n))) \<le> frameCharacters (after_line f n)"
proof -
  let ?k = "terminator_length (sse_buffer f) n"
  have n: "n < length (sse_buffer f)" using newline_index_less [OF assms(1)] by simp
  have k: "n + ?k \<le> length (sse_buffer f)" using terminator_bounds(2) [OF n] .
  have *: "frameCharacters (after_line f n) \<le> frameCharacters f + n + ?k
    \<and> sum_list (map length (dataLines (after_line f n))) \<le> frameCharacters (after_line f n)"
    unfolding after_line_def Let_def using processLine_data [of "f\<lparr>sse_buffer := drop (n + ?k) (sse_buffer f),
      frameCharacters := frameCharacters f + n + ?k\<rparr>" "take n (sse_buffer f)"] assms(2) n by simp
  then show "sum_list (map length (dataLines (after_line f n))) \<le> frameCharacters (after_line f n)" by simp
  show "retained (after_line f n) \<le> retained f"
    using * k unfolding retained_def after_line_buffer length_drop by linarith
qed

lemma drain_induct [case_names wait line overflow]:
  assumes "\<And>f. waiting final (sse_buffer f) \<Longrightarrow> P f"
    and "\<And>f n. newline_index (sse_buffer f) = Some n \<Longrightarrow> \<not> waiting final (sse_buffer f) \<Longrightarrow>
      line_size f n \<le> m \<Longrightarrow> P (after_line f n) \<Longrightarrow> P f"
    and "\<And>f n. newline_index (sse_buffer f) = Some n \<Longrightarrow> \<not> waiting final (sse_buffer f) \<Longrightarrow>
      \<not> line_size f n \<le> m \<Longrightarrow> P f"
  shows "P f"
proof (induction "length (sse_buffer f)" arbitrary: f rule: less_induct)
  case less
  show ?case
  proof (cases "waiting final (sse_buffer f)")
    case False
    then obtain n where n: "newline_index (sse_buffer f) = Some n" unfolding not_waiting by blast
    then show ?thesis
      using assms(2,3) [OF n False] less [OF after_line_shorter [OF n]] by (cases "line_size f n \<le> m") simp_all
  qed (rule assms(1))
qed

text \<open>Draining keeps the bounds, and ends in a settled buffer.\<close>

lemma drain_ok:
  "sum_list (map length (dataLines f)) \<le> frameCharacters f \<Longrightarrow> framer_ok m (sse_drain m final f)"
proof (induction f rule: drain_induct [where m = m and final = final])
  case (wait f)
  then show ?case by (auto simp: drain_waits sse_ensureWithinLimit_def framer_ok_def retained_def)
next
  case (line f n)
  then show ?case using after_line_retained(2) [OF line(1)] by (simp add: drain_line)
next
  case (overflow f n)
  then show ?case by (simp add: drain_overflows framer_ok_def)
qed

lemma drain_unfailed:
  assumes "sum_list (map length (dataLines f)) \<le> frameCharacters f" "\<not> sse_failed f" "retained f \<le> m"
  shows "\<not> sse_failed (sse_drain m final f)"
  using assms
proof (induction f rule: drain_induct [where m = m and final = final])
  case (wait f)
  then show ?case by (simp add: drain_waits sse_ensureWithinLimit_def)
next
  case (line f n)
  then show ?case using after_line_retained [OF line(1)] by (simp add: drain_line after_line_buffer)
next
  case (overflow f n)
  then show ?case using line_size_retained [of f n] by simp
qed

lemma drain_more:
  "\<not> sse_failed (sse_drain m False f) \<Longrightarrow>
    sse_drain m final (add_text f s) = sse_drain m final (add_text (sse_drain m False f) s)"
proof (induction f rule: drain_induct [where m = m and final = False])
  case (wait f)
  then have "sse_drain m False f = f" by (auto simp: drain_waits sse_ensureWithinLimit_def split: if_splits)
  then show ?case by simp
next
  case (line f n)
  have cr: "\<not> (Suc n = length (sse_buffer f) \<and> sse_buffer f ! n = CR)" and n: "n < length (sse_buffer f)"
    using line(1,2) newline_index_less [OF line(1)] by (auto simp: not_waiting)
  have nl: "newline_index (sse_buffer (add_text f s)) = Some n"
    using newline_index_append [OF line(1)] by simp
  have w: "\<not> waiting final (sse_buffer (add_text f s))"
    unfolding not_waiting using nl cr n by (auto simp: nth_append)
  have "terminator_length (sse_buffer f @ s) n = terminator_length (sse_buffer f) n"
    using n cr by (auto simp: terminator_length_def nth_append)
  then have "line_size (add_text f s) n \<le> m" using line(3) by (simp add: line_size_def)
  then have "sse_drain m final (add_text f s) = sse_drain m final (add_text (after_line f n) s)"
    using drain_line [OF nl w] after_line_append [OF line(1) cr] by simp
  then show ?case using line by (simp add: drain_line)
next
  case (overflow f n)
  then show ?case by (simp add: drain_overflows)
qed

lemma drain_retained:
  "sum_list (map length (dataLines f)) \<le> frameCharacters f \<Longrightarrow> retained (sse_drain m final f) \<le> retained f"
proof (induction f rule: drain_induct [where m = m and final = final])
  case (wait f)
  then show ?case by (auto simp: drain_waits sse_ensureWithinLimit_def retained_def)
next
  case (line f n)
  then show ?case using after_line_retained [OF line(1)] by (simp add: drain_line)
next
  case (overflow f n)
  then show ?case by (simp add: drain_overflows)
qed

lemma drain_chunk:
  assumes "framer_ok m f" "\<not> sse_failed f" "s \<noteq> []" "length s \<le> Suc (m - retained f)"
  shows "sse_drain m False (add_text f s) = foldl (sse_step m) f s"
  using assms
proof (induction s arbitrary: f)
  case (Cons u s)
  let ?d = "sse_drain m False (add_text f [u])"
  have data: "sum_list (map length (dataLines (add_text f [u]))) \<le> frameCharacters (add_text f [u])"
    and le: "retained f \<le> m" using Cons.prems by (auto simp: framer_ok_def)
  have one: "retained (add_text f [u]) = Suc (retained f)" by (simp add: retained_def)
  show ?case
  proof (cases "s = []")
    case True
    then show ?thesis using Cons.prems by (simp add: sse_step_def)
  next
    case False
    then have room: "Suc (retained f) \<le> m" using Cons.prems(4) le by (cases s) auto
    have ok: "\<not> sse_failed ?d" using drain_unfailed [OF data] one room Cons.prems(2) by simp
    have "length s \<le> Suc (m - retained ?d)"
      using Cons.prems(4) drain_retained [OF data, of m False] one room by simp
    then have "foldl (sse_step m) ?d s = sse_drain m False (add_text ?d s)"
      using Cons.IH [OF drain_ok [OF data] ok False] by simp
    moreover have "sse_step m f u = ?d" using Cons.prems(2) by (simp add: sse_step_def)
    ultimately show ?thesis using drain_more [OF ok, of False s] by simp
  qed
qed simp

lemma step_failed: "sse_failed f \<Longrightarrow> foldl (sse_step m) f s = f"
  by (induction s) (simp_all add: sse_step_def)

lemma push_steps: "framer_ok m f \<Longrightarrow> sse_push m f s = foldl (sse_step m) f s"
proof (induction m f s rule: sse_push.induct)
  case (1 m f s)
  show ?case
  proof (cases "s = [] \<or> sse_failed f")
    case True
    then show ?thesis by (subst sse_push.simps) (auto simp: step_failed)
  next
    case False
    define n where "n = Suc (m - (frameCharacters f + length (sse_buffer f)))"
    let ?d = "sse_drain m False (add_text f (take n s))"
    have "framer_ok m ?d" using "1.prems" by (intro drain_ok) (simp add: framer_ok_def)
    then have "sse_push m f s = foldl (sse_step m) ?d (drop n s)"
      using "1.IH" [OF False n_def] False by (subst sse_push.simps) (simp add: n_def Let_def)
    also have "?d = foldl (sse_step m) f (take n s)"
      using False "1.prems" by (intro drain_chunk) (auto simp: n_def retained_def)
    finally show ?thesis by (simp flip: foldl_append)
  qed
qed

lemma step_ok: "framer_ok m f \<Longrightarrow> framer_ok m (sse_step m f u)"
  unfolding sse_step_def by (auto intro!: drain_ok) (simp add: framer_ok_def)

lemma steps_ok: "framer_ok m f \<Longrightarrow> framer_ok m (foldl (sse_step m) f s)"
  by (induction s arbitrary: f) (auto intro: step_ok)

lemma pushes_steps: "framer_ok m f \<Longrightarrow> foldl (sse_push m) f cs = foldl (sse_step m) f (concat cs)"
  by (induction cs arbitrary: f) (simp_all add: push_steps steps_ok)

lemma new_ok: "framer_ok m new_sse_framer" by (simp add: framer_ok_def new_sse_framer_def retained_def)

section \<open>The lines of the text\<close>

text \<open>A line ends at a line feed, or at a carriage return that no line feed follows; a carriage return
  before a line feed belongs to neither line.\<close>

fun sse_lines :: "js_text \<Rightarrow> js_text \<Rightarrow> js_text list" where
  "sse_lines l [] = (if l = [] then [] else [l])"
| "sse_lines l (u # s) =
     (if u = LF \<or> u = CR \<and> (s = [] \<or> hd s \<noteq> LF) then l # sse_lines [] s
      else if u = CR then sse_lines l s
      else sse_lines (l @ [u]) s)"

definition sse_reference :: "js_text \<Rightarrow> sse_call list" where
  "sse_reference s = sse_calls (sse_dispatch (foldl sse_processLine new_sse_framer (sse_lines [] s)))"

lemma lines_first:
  "newline_index s = Some n \<Longrightarrow>
    sse_lines l s = (l @ take n s) # sse_lines [] (drop (n + terminator_length s n) s)"
proof (induction s arbitrary: l n)
  case (Cons u s)
  show ?case
  proof (cases "u = CR \<or> u = LF")
    case True
    then show ?thesis using Cons.prems
      by (cases s) (auto simp: terminator_length_def CR_def LF_def)
  next
    case False
    then obtain n' where "newline_index s = Some n'" "n = Suc n'" using Cons.prems by (auto split: if_splits)
    then show ?thesis using Cons.IH [of n' "l @ [u]"] False by (simp add: terminator_length_def)
  qed
qed simp

lemma lines_none: "newline_index s = None \<Longrightarrow> sse_lines l s = (if l @ s = [] then [] else [l @ s])"
  by (induction s arbitrary: l) (auto split: if_splits)

text \<open>Lines are handled the same whatever is buffered.\<close>

definition erased :: "sse_framer \<Rightarrow> sse_framer" where
  "erased f = f\<lparr>sse_buffer := [], frameCharacters := 0\<rparr>"

lemma erased_line: "erased (sse_processLine f l) = sse_processLine (erased f) l"
  by (simp add: erased_def sse_processLine_def sse_dispatch_def Let_def split: prod.splits)

lemma erased_dispatch: "erased (sse_dispatch f) = sse_dispatch (erased f)"
  by (simp add: erased_def sse_dispatch_def Let_def)

lemma erased_calls [simp]: "sse_calls (erased f) = sse_calls f" "erased (f\<lparr>sse_buffer := b\<rparr>) = erased f"
  by (simp_all add: erased_def)

lemma erased_after_line: "erased (after_line f n) = sse_processLine (erased f) (take n (sse_buffer f))"
  unfolding after_line_def Let_def erased_line by (simp add: erased_def)

lemma drain_lines:
  "\<not> sse_failed (sse_drain m True f) \<Longrightarrow>
    foldl sse_processLine (erased f) (sse_lines [] (sse_buffer f)) =
    (let d = sse_drain m True f
     in if sse_buffer d = [] then erased d else sse_processLine (erased d) (sse_buffer d))"
proof (induction f rule: drain_induct [where m = m and final = True])
  case (wait f)
  then have "sse_drain m True f = f" by (auto simp: drain_waits sse_ensureWithinLimit_def split: if_splits)
  moreover have "newline_index (sse_buffer f) = None" using wait(1) by (simp add: waiting_def split: option.splits)
  ultimately show ?case using lines_none [of "sse_buffer f" "[]"] by simp
next
  case (line f n)
  then show ?case
    using lines_first [OF line(1), of "[]"] by (simp add: drain_line erased_after_line after_line_buffer)
next
  case (overflow f n)
  then show ?case by (simp add: drain_overflows)
qed

lemma drain_steps:
  "\<not> sse_failed (foldl (sse_step m) f s) \<Longrightarrow>
    sse_drain m final (add_text (foldl (sse_step m) f s) t) = sse_drain m final (add_text f (s @ t))"
proof (induction s arbitrary: f)
  case (Cons u s)
  have "\<not> sse_failed (sse_step m f u)" using Cons.prems step_failed by fastforce
  then have "\<not> sse_failed f" "\<not> sse_failed (sse_drain m False (add_text f [u]))"
    "sse_step m f u = sse_drain m False (add_text f [u])" by (auto simp: sse_step_def split: if_splits)
  then show ?case using Cons drain_more [of m "add_text f [u]" final "s @ t"] by simp
qed simp

lemma finish_calls:
  assumes "\<not> sse_failed (sse_finish m (foldl (sse_step m) new_sse_framer s))"
  shows "sse_calls (sse_finish m (foldl (sse_step m) new_sse_framer s)) = sse_reference s"
proof -
  let ?p = "foldl (sse_step m) new_sse_framer s"
  let ?d = "sse_drain m True ?p"
  have p: "\<not> sse_failed ?p" using assms by (auto simp: sse_finish_def)
  then have d: "\<not> sse_failed ?d" using assms by (auto simp: sse_finish_def Let_def split: if_splits)
  have e: "?d = sse_drain m True (add_text new_sse_framer s)" using drain_steps [OF p, of True "[]"] by simp
  have "erased (sse_finish m ?p) = sse_dispatch (if sse_buffer ?d = [] then erased ?d
      else sse_processLine (erased ?d) (sse_buffer ?d))"
    using p by (simp add: sse_finish_def Let_def erased_dispatch erased_line)
  also have "\<dots> = sse_dispatch (foldl sse_processLine (erased (add_text new_sse_framer s)) (sse_lines [] s))"
    using drain_lines [of m "add_text new_sse_framer s"] d e by (simp add: Let_def new_sse_framer_def)
  finally have e: "erased (sse_finish m ?p)
      = sse_dispatch (foldl sse_processLine (erased (add_text new_sse_framer s)) (sse_lines [] s))" .
  have "erased (add_text new_sse_framer s) = new_sse_framer" by (simp add: erased_def new_sse_framer_def)
  then have "sse_calls (erased (sse_finish m ?p)) = sse_reference s" unfolding e sse_reference_def by simp
  then show ?thesis by simp
qed

lemma line_calls: "\<exists>es. sse_calls (sse_processLine f l) = sse_calls f @ es"
  by (auto simp: sse_processLine_def sse_dispatch_def Let_def split: prod.splits)

lemma lines_calls: "\<exists>es. sse_calls (foldl sse_processLine f ls) = sse_calls f @ es"
proof (induction ls arbitrary: f)
  case (Cons l ls)
  then show ?case using line_calls [of f l] by (metis append.assoc foldl_Cons)
qed simp

lemma reference_grows:
  "\<exists>es. sse_reference s = sse_calls (foldl sse_processLine new_sse_framer (take k (sse_lines [] s))) @ es"
proof -
  let ?f = "foldl sse_processLine new_sse_framer (take k (sse_lines [] s))"
  have "foldl sse_processLine new_sse_framer (sse_lines [] s)
      = foldl sse_processLine ?f (drop k (sse_lines [] s))" by (metis append_take_drop_id foldl_append)
  then show ?thesis
    using lines_calls [of ?f "drop k (sse_lines [] s)"] by (auto simp: sse_reference_def sse_dispatch_def Let_def)
qed

lemma drain_fails:
  "sse_failed (sse_drain m final f) \<Longrightarrow> \<not> sse_failed f \<Longrightarrow> \<not> final \<or> t = [] \<Longrightarrow>
    \<exists>k. sse_calls (sse_drain m final f)
      = sse_calls (foldl sse_processLine (erased f) (take k (sse_lines [] (sse_buffer f @ t)))) @ [Sse_Too_Large]"
proof (induction f rule: drain_induct [where m = m and final = final])
  case (wait f)
  then have "sse_calls (sse_drain m final f) = sse_calls f @ [Sse_Too_Large]"
    by (auto simp: drain_waits sse_ensureWithinLimit_def split: if_splits)
  then show ?case by (intro exI [of _ 0]) simp
next
  case (line f n)
  let ?b = "sse_buffer f" and ?k = "terminator_length (sse_buffer f) n"
  have n: "n < length ?b" using newline_index_less [OF line(1)] by simp
  have k: "terminator_length (?b @ t) n = ?k"
    using line(1,2,7) n by (auto simp: not_waiting terminator_length_def nth_append)
  obtain k' where k': "sse_calls (sse_drain m final (after_line f n)) = sse_calls (foldl sse_processLine
      (erased (after_line f n)) (take k' (sse_lines [] (drop (n + ?k) ?b @ t)))) @ [Sse_Too_Large]"
    using line by (auto simp: drain_line after_line_buffer)
  have "take n (?b @ t) = take n ?b" "drop (n + ?k) (?b @ t) = drop (n + ?k) ?b @ t"
    using n terminator_bounds(2) [OF n] by simp_all
  then have "sse_lines [] (?b @ t) = take n ?b # sse_lines [] (drop (n + ?k) ?b @ t)"
    using lines_first [OF newline_index_append [OF line(1)], of "[]" t] k by simp
  then show ?case
    using k' line(1-3) by (intro exI [of _ "Suc k'"]) (simp add: drain_line erased_after_line)
next
  case (overflow f n)
  then show ?case by (intro exI [of _ 0]) (simp add: drain_overflows)
qed

lemma drain_cleared:
  "sse_failed (sse_drain m final f) \<Longrightarrow> \<not> sse_failed f \<Longrightarrow>
    sse_buffer (sse_drain m final f) = [] \<and> dataLines (sse_drain m final f) = []"
proof (induction f rule: drain_induct [where m = m and final = final])
  case (wait f)
  then show ?case by (auto simp: drain_waits sse_ensureWithinLimit_def split: if_splits)
next
  case (line f n)
  then show ?case by (simp add: drain_line after_line_buffer)
next
  case (overflow f n)
  then show ?case using drain_overflows(2,3) [OF overflow(1-3)] by (simp add: retained_def)
qed

lemma first_failure:
  assumes "sse_failed (foldl (sse_step m) f s)" "\<not> sse_failed f"
  shows "\<exists>p u t. s = p @ u # t \<and> \<not> sse_failed (foldl (sse_step m) f p)
    \<and> foldl (sse_step m) f s = sse_drain m False (add_text (foldl (sse_step m) f p) [u])"
  using assms
proof (induction s rule: rev_induct)
  case (snoc u s)
  show ?case
  proof (cases "sse_failed (foldl (sse_step m) f s)")
    case True
    then obtain p v t where "s = p @ v # t" "\<not> sse_failed (foldl (sse_step m) f p)"
      "foldl (sse_step m) f s = sse_drain m False (add_text (foldl (sse_step m) f p) [v])"
      using snoc by blast
    moreover have "foldl (sse_step m) f (s @ [u]) = foldl (sse_step m) f s" using True by (simp add: sse_step_def)
    ultimately show ?thesis by (intro exI [of _ p] exI [of _ v] exI [of _ "t @ [u]"]) simp
  next
    case False
    then show ?thesis by (intro exI [of _ s] exI [of _ u] exI [of _ "[]"]) (simp, simp add: sse_step_def [of m "foldl (sse_step m) f s"])
  qed
qed simp

lemma finish_fails:
  assumes "sse_failed (sse_finish m (foldl (sse_step m) new_sse_framer s))"
  shows "\<exists>es rest. sse_reference s = es @ rest
    \<and> sse_calls (sse_finish m (foldl (sse_step m) new_sse_framer s)) = es @ [Sse_Too_Large]"
proof -
  let ?p = "foldl (sse_step m) new_sse_framer s"
  have new: "\<not> sse_failed new_sse_framer" "erased (add_text new_sse_framer t) = new_sse_framer"
    "sse_buffer (add_text new_sse_framer t) = t" for t by (simp_all add: new_sse_framer_def erased_def)
  show ?thesis
  proof (cases "sse_failed ?p")
    case True
    then obtain p u t where p: "s = p @ u # t" "\<not> sse_failed (foldl (sse_step m) new_sse_framer p)"
      "?p = sse_drain m False (add_text (foldl (sse_step m) new_sse_framer p) [u])"
      using first_failure [OF _ new(1)] by blast
    then have d: "?p = sse_drain m False (add_text new_sse_framer (p @ [u]))"
      using drain_steps [OF p(2), of False "[u]"] by simp
    then obtain k where "sse_calls ?p = sse_calls (foldl sse_processLine new_sse_framer
        (take k (sse_lines [] s))) @ [Sse_Too_Large]"
      using drain_fails [of m False "add_text new_sse_framer (p @ [u])" t] True new p(1) by auto
    then show ?thesis using reference_grows [of s k] True by (auto simp: sse_finish_def)
  next
    case False
    have e: "sse_drain m True ?p = sse_drain m True (add_text new_sse_framer s)"
      using drain_steps [OF False, of True "[]"] by simp
    have f: "sse_failed (sse_drain m True ?p)" using assms False by (auto simp: sse_finish_def Let_def split: if_splits)
    then obtain k where "sse_calls (sse_drain m True ?p) = sse_calls (foldl sse_processLine new_sse_framer
        (take k (sse_lines [] s))) @ [Sse_Too_Large]"
      using drain_fails [of m True "add_text new_sse_framer s" "[]"] new e by auto
    moreover have "sse_calls (sse_finish m ?p) = sse_calls (sse_drain m True ?p)"
      using False drain_cleared [OF f False] by (simp add: sse_finish_def sse_dispatch_def Let_def)
    ultimately show ?thesis using reference_grows [of s k] by auto
  qed
qed

text \<open>Nothing fails while the whole text fits.\<close>

lemma steps_fit:
  "framer_ok m f \<Longrightarrow> \<not> sse_failed f \<Longrightarrow> retained f + length s \<le> m \<Longrightarrow>
    \<not> sse_failed (foldl (sse_step m) f s) \<and> retained (foldl (sse_step m) f s) \<le> retained f + length s"
proof (induction s arbitrary: f)
  case (Cons u s)
  let ?g = "add_text f [u]"
  have g: "sum_list (map length (dataLines ?g)) \<le> frameCharacters ?g" "retained ?g = Suc (retained f)"
    using Cons.prems(1) by (simp_all add: framer_ok_def retained_def)
  have "sse_step m f u = sse_drain m False ?g" using Cons.prems(2) by (simp add: sse_step_def)
  moreover have "\<not> sse_failed (sse_drain m False ?g)"
    using drain_unfailed [OF g(1), of m False] Cons.prems(2,3) g(2) by simp
  ultimately show ?case
    using Cons.IH [of "sse_step m f u"] step_ok [OF Cons.prems(1), of u] drain_retained [OF g(1), of m False]
      Cons.prems(3) g(2) by simp
qed simp

lemma finish_fits:
  assumes "length s \<le> m"
  shows "\<not> sse_failed (sse_finish m (foldl (sse_step m) new_sse_framer s))"
proof -
  let ?p = "foldl (sse_step m) new_sse_framer s"
  have new: "\<not> sse_failed new_sse_framer" "retained new_sse_framer = 0"
    by (simp_all add: new_sse_framer_def retained_def)
  have p: "\<not> sse_failed ?p \<and> retained ?p \<le> m" using steps_fit [of m new_sse_framer s, OF new_ok new(1)] new(2) assms by fastforce
  then have "\<not> sse_failed (sse_drain m True ?p)"
    using drain_unfailed [of ?p m True] steps_ok [OF new_ok, of m s] by (simp add: framer_ok_def)
  then show ?thesis using p by (simp add: sse_finish_def Let_def)
qed

section \<open>Framing\<close>

text \<open>
  C10. However a response is cut into pieces, the framer reports exactly the events of its lines, in order;
  when it fails the text was longer than the limit, and it has reported the first of them and then the
  failure, once and last.
\<close>

theorem sse_framing_exact:
  "let f = sse_finish m (foldl (sse_push m) new_sse_framer cs); ref = sse_reference (concat cs)
   in if sse_failed f
      then m < length (concat cs) \<and> (\<exists>es rest. ref = es @ rest \<and> sse_calls f = es @ [Sse_Too_Large])
      else sse_calls f = ref"
  using finish_fails [of m "concat cs"] finish_calls [of m "concat cs"] finish_fits [of "concat cs" m]
  by (auto simp: Let_def pushes_steps [OF new_ok] not_le [symmetric])

text \<open>
  C11. Between any two pieces the framer holds at most the limit: the characters counted for the unfinished
  event, which cover its data lines, and the undelivered text. What it holds does not depend on the cutting.
\<close>

theorem sse_memory_bounded:
  "let f = foldl (sse_push m) new_sse_framer cs
   in frameCharacters f + length (sse_buffer f) \<le> m
    \<and> sum_list (map length (dataLines f)) \<le> frameCharacters f
    \<and> f = sse_push m new_sse_framer (concat cs)"
  using steps_ok [OF new_ok, of m "concat cs"]
  by (simp add: Let_def pushes_steps [OF new_ok] push_steps [OF new_ok] framer_ok_def retained_def)

section \<open>The contract of a framer\<close>

text \<open>The SSE framer does not look at the events it called back before, and keeps the contract of a framer.\<close>

definition sse_after :: "sse_call list \<Rightarrow> sse_framer \<Rightarrow> sse_framer" where
  "sse_after cs f = f\<lparr>sse_calls := cs @ sse_calls f\<rparr>"

definition sse_taken :: "sse_framer \<Rightarrow> sse_framer" where
  "sse_taken f = f\<lparr>sse_calls := []\<rparr>"

lemma sse_after_fields [simp]:
  "sse_buffer (sse_after cs f) = sse_buffer f" "frameCharacters (sse_after cs f) = frameCharacters f"
  "sse_failed (sse_after cs f) = sse_failed f" "dataLines (sse_after cs f) = dataLines f"
  "sse_calls (sse_after cs f) = cs @ sse_calls f" "retained (sse_after cs f) = retained f"
  "line_size (sse_after cs f) n = line_size f n" "sse_taken (sse_after cs f) = sse_taken f"
  "sse_calls (sse_taken f) = []" "framer_ok m (sse_taken f) = framer_ok m f"
  by (simp_all add: sse_after_def sse_taken_def retained_def line_size_def framer_ok_def)

lemma sse_after_processed: "sse_processLine (sse_after cs f) l = sse_after cs (sse_processLine f l)"
  by (simp add: sse_processLine_def sse_dispatch_def sse_after_def Let_def split: prod.split)

lemma sse_after_line: "after_line (sse_after cs f) n = sse_after cs (after_line f n)"
proof -
  have "(sse_after cs f)\<lparr>sse_buffer := b, frameCharacters := c\<rparr> = sse_after cs (f\<lparr>sse_buffer := b, frameCharacters := c\<rparr>)"
    for b c by (simp add: sse_after_def)
  then show ?thesis by (simp add: after_line_def Let_def sse_after_processed)
qed

lemma sse_after_limit:
  "sse_ensureWithinLimit m (sse_after cs f) n = map_prod (sse_after cs) id (sse_ensureWithinLimit m f n)"
  by (simp add: sse_ensureWithinLimit_def sse_after_def)

lemma drain_too_large:
  assumes "newline_index (sse_buffer f) = Some n" "\<not> waiting final (sse_buffer f)" "\<not> line_size f n \<le> m"
  shows "sse_drain m final f = fst (sse_ensureWithinLimit m
    (f\<lparr>sse_buffer := drop (n + terminator_length (sse_buffer f) n) (sse_buffer f), frameCharacters := line_size f n\<rparr>)
    (line_size f n))"
  using assms by (subst sse_drain.simps) (auto simp: waiting_def line_size_def Let_def sse_ensureWithinLimit_def)

lemma sse_after_drain: "sse_drain m final (sse_after cs f) = sse_after cs (sse_drain m final f)"
proof (induction f rule: drain_induct [where m = m and final = final])
  case (wait f)
  then show ?case by (simp add: drain_waits sse_after_limit)
next
  case (line f n)
  then show ?case by (simp add: drain_line [of _ n] sse_after_line)
next
  case (overflow f n)
  then show ?case
    by (simp add: drain_too_large [of _ n] sse_ensureWithinLimit_def) (simp add: sse_after_def)
qed

lemma sse_after_steps: "foldl (sse_step m) (sse_after cs f) s = sse_after cs (foldl (sse_step m) f s)"
proof (induction s arbitrary: f)
  case (Cons u s)
  have "add_text (sse_after cs f) [u] = sse_after cs (add_text f [u])" by (simp add: sse_after_def)
  then have "sse_step m (sse_after cs f) u = sse_after cs (sse_step m f u)"
    by (simp add: sse_step_def sse_after_drain)
  then show ?case by (simp add: Cons.IH)
qed simp

lemma sse_calls_first: "f = sse_after (sse_calls f) (sse_taken f)"
  by (simp add: sse_taken_def sse_after_def)

lemma sse_push_first:
  assumes "framer_ok m f"
  shows "sse_push m f s = sse_after (sse_calls f) (sse_push m (sse_taken f) s)"
  using assms sse_after_steps [of m "sse_calls f" "sse_taken f" s]
  by (simp add: push_steps sse_calls_first [symmetric])

interpretation sse_framing: framer "sse_push m" "framer_ok m" sse_calls sse_taken for m
proof
  fix f s t
  assume f: "framer_ok m f"
  show "sse_push m (sse_push m f s) t = sse_push m f (s @ t)" "framer_ok m (sse_push m f s)"
    using f by (simp_all add: push_steps steps_ok)
  show "framer_ok m (sse_taken f)" using f by simp
  show "sse_calls (sse_push m f s) = sse_calls f @ sse_calls (sse_push m (sse_taken f) s)"
    "sse_taken (sse_push m (sse_taken f) s) = sse_taken (sse_push m f s)"
    unfolding sse_push_first [OF f, of s] by simp_all
next
  fix f
  show "sse_calls (sse_taken f) = []" by simp
qed

end
