(* ===== verification/Harness_Tools.thy ===== *)
theory Harness_Tools
  imports Json_Text
begin

text \<open>
  \<^verbatim>\<open>src/main/gateway/deepseek-harness-tools.ts\<close>: hiding the sandbox escalation parameters of the
  DeepSeek harness from the tools a request declares, and removing them from the tool calls an
  answer makes. Objects are property lists in the order of \<^verbatim>\<open>Object.keys\<close>.
  The proofs after it say what hiding and restoring keep.
\<close>

definition SANDBOX_PERMISSION_KEY :: js_text where
  "SANDBOX_PERMISSION_KEY = utf16 ''sandbox_permissions''"

definition SANDBOX_JUSTIFICATION_KEY :: js_text where
  "SANDBOX_JUSTIFICATION_KEY = utf16 ''justification''"

definition DSH_COMPATIBILITY_NOTE :: js_text where
  "DSH_COMPATIBILITY_NOTE =
     utf16 ''Stone+ compatibility: invoke this tool without sandbox_permissions or justification.''"

fun objectValue :: "json option \<Rightarrow> (js_text \<times> json) list option" where
  "objectValue (Some (JObj ps)) = Some ps"
| "objectValue v = None"

text \<open>\<^verbatim>\<open>{ ...ps, ...qs }\<close> and \<^verbatim>\<open>delete ps[k]\<close>.\<close>

definition obj_spread :: "(js_text \<times> json) list \<Rightarrow> (js_text \<times> json) list \<Rightarrow> (js_text \<times> json) list" where
  "obj_spread ps qs = foldl (\<lambda>ps (k, v). obj_set ps k v) ps qs"

definition obj_delete :: "(js_text \<times> json) list \<Rightarrow> js_text \<Rightarrow> (js_text \<times> json) list" where
  "obj_delete ps k = filter (\<lambda>(k', v). k' \<noteq> k) ps"

definition has_sandbox_key :: "(js_text \<times> json) list \<Rightarrow> bool" where
  "has_sandbox_key ps \<longleftrightarrow>
     SANDBOX_PERMISSION_KEY \<in> set (map fst ps) \<or> SANDBOX_JUSTIFICATION_KEY \<in> set (map fst ps)"

definition without_sandbox_keys :: "(js_text \<times> json) list \<Rightarrow> (js_text \<times> json) list" where
  "without_sandbox_keys ps = obj_delete (obj_delete ps SANDBOX_PERMISSION_KEY) SANDBOX_JUSTIFICATION_KEY"

section \<open>Requests\<close>

text \<open>The schema with the fields hidden, \<^const>\<open>None\<close> when nothing changes.\<close>

definition sanitizeToolSchema :: "json option \<Rightarrow> json option" where
  "sanitizeToolSchema value =
     (case objectValue value of
        None \<Rightarrow> None
      | Some schema \<Rightarrow>
          (case objectValue (obj_get schema ''properties'') of
             None \<Rightarrow> None
           | Some properties \<Rightarrow>
               if \<not> has_sandbox_key properties then None
               else let nextSchema = obj_set schema (utf16 ''properties'') (JObj (without_sandbox_keys properties))
                    in Some (JObj (case obj_get schema ''required'' of
                         Some (JArr names) \<Rightarrow>
                           obj_set nextSchema (utf16 ''required'')
                             (JArr (filter (\<lambda>n. n \<noteq> JStr SANDBOX_PERMISSION_KEY
                                              \<and> n \<noteq> JStr SANDBOX_JUSTIFICATION_KEY) names))
                       | _ \<Rightarrow> nextSchema))))"

text \<open>One declared tool, \<^const>\<open>None\<close> when it stays as it is.\<close>

definition sanitize_tool :: "json \<Rightarrow> json option" where
  "sanitize_tool toolValue =
     (case objectValue (Some toolValue) of
        None \<Rightarrow> None
      | Some tool \<Rightarrow>
          let wrapped = objectValue (obj_get tool ''function'');
              tool_definition = (case wrapped of Some d \<Rightarrow> d | None \<Rightarrow> tool)
          in case sanitizeToolSchema (obj_get tool_definition ''parameters'') of
               None \<Rightarrow> None
             | Some schema \<Rightarrow>
                 let description = (case obj_get tool_definition ''description'' of
                       Some (JStr d) \<Rightarrow> d @ [10, 10] @ DSH_COMPATIBILITY_NOTE
                     | _ \<Rightarrow> DSH_COMPATIBILITY_NOTE);
                     sanitized = obj_set (obj_set tool_definition (utf16 ''description'') (JStr description))
                       (utf16 ''parameters'') schema
                 in Some (JObj (if wrapped \<noteq> None then obj_set tool (utf16 ''function'') (JObj sanitized)
                                else obj_spread tool_definition sanitized)))"

text \<open>Rewriting the elements of a list, \<^const>\<open>None\<close> when none of them changes.\<close>

definition map_changed :: "(json \<Rightarrow> json option) \<Rightarrow> json list \<Rightarrow> json list option" where
  "map_changed f vs =
     (if list_all (\<lambda>v. f v = None) vs then None
      else Some (map (\<lambda>v. case f v of None \<Rightarrow> v | Some w \<Rightarrow> w) vs))"

definition rewrite_array ::
  "string \<Rightarrow> (json \<Rightarrow> json option) \<Rightarrow> (js_text \<times> json) list \<Rightarrow> (js_text \<times> json) list" where
  "rewrite_array name f body =
     (case obj_get body name of
        Some (JArr vs) \<Rightarrow>
          (case map_changed f vs of
             None \<Rightarrow> body
           | Some ws \<Rightarrow> obj_set body (utf16 name) (JArr ws))
      | _ \<Rightarrow> body)"

definition sanitizeDeepSeekHarnessRequestTools :: "(js_text \<times> json) list \<Rightarrow> (js_text \<times> json) list" where
  "sanitizeDeepSeekHarnessRequestTools body = rewrite_array ''tools'' sanitize_tool body"

section \<open>Answers\<close>

definition sanitizeDeepSeekHarnessToolArguments :: "js_text \<Rightarrow> js_text" where
  "sanitizeDeepSeekHarnessToolArguments value =
     (case objectValue (json_parse value) of
        None \<Rightarrow> value
      | Some object \<Rightarrow>
          if \<not> has_sandbox_key object then value
          else json_stringify (JObj (without_sandbox_keys object)))"

definition sanitize_call :: "json \<Rightarrow> json option" where
  "sanitize_call callValue =
     (case objectValue (Some callValue) of
        None \<Rightarrow> None
      | Some call \<Rightarrow>
          (case objectValue (obj_get call ''function'') of
             None \<Rightarrow> None
           | Some tool_definition \<Rightarrow>
               (case obj_get tool_definition ''arguments'' of
                  Some (JStr arguments) \<Rightarrow>
                    let argumentsValue = sanitizeDeepSeekHarnessToolArguments arguments
                    in if argumentsValue = arguments then None
                       else Some (JObj (obj_set call (utf16 ''function'')
                         (JObj (obj_set tool_definition (utf16 ''arguments'') (JStr argumentsValue)))))
                | _ \<Rightarrow> None)))"

definition sanitize_choice :: "json \<Rightarrow> json option" where
  "sanitize_choice choiceValue =
     (case objectValue (Some choiceValue) of
        None \<Rightarrow> None
      | Some choice \<Rightarrow>
          (case objectValue (obj_get choice ''message'') of
             None \<Rightarrow> None
           | Some message \<Rightarrow>
               (case obj_get message ''tool_calls'' of
                  Some (JArr calls) \<Rightarrow>
                    (case map_changed sanitize_call calls of
                       None \<Rightarrow> None
                     | Some toolCalls \<Rightarrow>
                         Some (JObj (obj_set choice (utf16 ''message'')
                           (JObj (obj_set message (utf16 ''tool_calls'') (JArr toolCalls))))))
                | _ \<Rightarrow> None)))"

definition sanitizeDeepSeekHarnessChatResponse :: "(js_text \<times> json) list \<Rightarrow> (js_text \<times> json) list" where
  "sanitizeDeepSeekHarnessChatResponse body = rewrite_array ''choices'' sanitize_choice body"

definition sanitize_item :: "json \<Rightarrow> json option" where
  "sanitize_item itemValue =
     (case objectValue (Some itemValue) of
        None \<Rightarrow> None
      | Some item \<Rightarrow>
          let kind = (case obj_get item ''type'' of Some (JStr t) \<Rightarrow> t | _ \<Rightarrow> []);
              field = (if kind = utf16 ''custom_tool_call'' then Some ''input''
                       else if kind = utf16 ''function_call'' then Some ''arguments'' else None)
          in case field of
               None \<Rightarrow> None
             | Some name \<Rightarrow>
                 (case obj_get item name of
                    Some (JStr s) \<Rightarrow>
                      let sanitized = sanitizeDeepSeekHarnessToolArguments s
                      in if sanitized = s then None else Some (JObj (obj_set item (utf16 name) (JStr sanitized)))
                  | _ \<Rightarrow> None))"

definition sanitizeDeepSeekHarnessResponsesResponse :: "(js_text \<times> json) list \<Rightarrow> (js_text \<times> json) list" where
  "sanitizeDeepSeekHarnessResponsesResponse body = rewrite_array ''output'' sanitize_item body"

section \<open>What hiding and restoring keep\<close>

text \<open>
  Hiding the sandbox parameters from declared tools: what is left of a declared_fields, and that hiding
  them again changes nothing.
\<close>

section \<open>Objects\<close>

lemma index_insert_get: "k \<notin> fst ` set ps \<Longrightarrow> map_of (index_insert i k v ps) = (map_of ps)(k \<mapsto> v)"
proof (induction ps)
  case (Cons p ps)
  obtain l w where p: "p = (l, w)" by fastforce
  with Cons have "map_of (index_insert i k v ps) = (map_of ps)(k \<mapsto> v)" "l \<noteq> k" by auto
  then show ?case by (auto simp: p fun_upd_twist split: option.split)
qed simp

lemma get_append_new: "k \<notin> fst ` set ps \<Longrightarrow> map_of (ps @ [(k, v)]) = (map_of ps)(k \<mapsto> v)"
  by (induction ps) (auto simp: fun_upd_twist)

lemma obj_set_get [simp]: "map_of (obj_set ps k v) = (map_of ps)(k \<mapsto> v)"
  by (simp add: obj_set_def update_conv' index_insert_get get_append_new del: map_of_append split: option.split)

lemma index_insert_keys: "fst ` set (index_insert i k v ps) = insert k (fst ` set ps)"
  by (induction ps) (force split: option.split)+

lemma index_insert_distinct:
  "k \<notin> fst ` set ps \<Longrightarrow> distinct (map fst ps) \<Longrightarrow> distinct (map fst (index_insert i k v ps))"
proof (induction ps)
  case (Cons p ps)
  then have "distinct (map fst (index_insert i k v ps))" by simp
  moreover obtain l w where "p = (l, w)" by fastforce
  ultimately show ?case using Cons.prems index_insert_keys [of i k v ps] by (auto split: option.split)
qed simp

lemma obj_set_distinct: "distinct (map fst ps) \<Longrightarrow> distinct (map fst (obj_set ps k v))"
  by (auto simp: obj_set_def distinct_update index_insert_distinct split: option.split)

lemma obj_spread_get: "distinct (map fst qs) \<Longrightarrow> map_of (obj_spread ps qs) = map_of ps ++ map_of qs"
proof (induction qs arbitrary: ps)
  case (Cons q qs)
  obtain l w where q: "q = (l, w)" by fastforce
  with Cons.prems have "map_of qs l = None" "distinct (map fst qs)" by (auto simp: map_of_eq_None_iff)
  with Cons.IH [of "obj_set ps l w"] show ?case
    by (auto simp: q obj_spread_def map_add_def fun_eq_iff split: option.split)
qed (simp add: obj_spread_def)

section \<open>Declared tools\<close>

text \<open>The part of a declared tool that says what it is, and the properties of its parameters.\<close>

definition declared_fields :: "(js_text \<times> json) list \<Rightarrow> (js_text \<times> json) list" where
  "declared_fields tool = (case obj_get tool ''function'' of Some (JObj d) \<Rightarrow> d | _ \<Rightarrow> tool)"

fun parameter_properties :: "json option \<Rightarrow> (js_text \<times> json) list" where
  "parameter_properties (Some (JObj schema)) =
     (case obj_get schema ''properties'' of Some (JObj ps) \<Rightarrow> ps | _ \<Rightarrow> [])"
| "parameter_properties v = []"

fun tool_fields :: "json \<Rightarrow> (js_text \<times> json) list" where
  "tool_fields (JObj tool) = declared_fields tool"
| "tool_fields v = []"

definition tool_properties :: "json \<Rightarrow> (js_text \<times> json) list" where
  "tool_properties t = parameter_properties (obj_get (tool_fields t) ''parameters'')"

text \<open>Keys written once, as in every parsed object.\<close>

fun keyed_once :: "json \<Rightarrow> bool" where
  "keyed_once (JObj ps) = distinct (map fst ps)"
| "keyed_once v = True"

definition other_fields :: "json \<Rightarrow> js_text \<Rightarrow> json option" where
  "other_fields t = (map_of (tool_fields t))(utf16 ''parameters'' := None, utf16 ''description'' := None)"

text \<open>What is left of a tool.\<close>

definition tool_hidden :: "json \<Rightarrow> json \<Rightarrow> bool" where
  "tool_hidden t t' \<longleftrightarrow>
     (if has_sandbox_key (tool_properties t)
      then tool_properties t' = without_sandbox_keys (tool_properties t) \<and> other_fields t' = other_fields t
      else t' = t)"

lemma objectValue_eq: "objectValue v = Some ps \<longleftrightarrow> v = Some (JObj ps)"
  "objectValue v = None \<longleftrightarrow> \<not> (\<exists>ps. v = Some (JObj ps))"
  by (cases v rule: objectValue.cases; simp)+

lemma no_sandbox_key [simp]: "\<not> has_sandbox_key (without_sandbox_keys ps)" "\<not> has_sandbox_key []"
  by (auto simp: has_sandbox_key_def without_sandbox_keys_def obj_delete_def)

lemma key_names [simp]: "utf16 ''required'' \<noteq> utf16 ''properties''" "utf16 ''properties'' \<noteq> utf16 ''required''"
  "utf16 ''description'' \<noteq> utf16 ''parameters''" "utf16 ''parameters'' \<noteq> utf16 ''description''"
  "utf16 ''function'' \<noteq> utf16 ''parameters''" "utf16 ''function'' \<noteq> utf16 ''description''"
  by (simp_all add: utf16_def)

lemma schema_unchanged: "sanitizeToolSchema v = None \<longleftrightarrow> \<not> has_sandbox_key (parameter_properties v)"
  by (cases v rule: parameter_properties.cases)
    (simp_all add: sanitizeToolSchema_def Let_def objectValue_eq split: option.split json.split)

lemma schema_changed:
  "sanitizeToolSchema v = Some w \<Longrightarrow> parameter_properties (Some w) = without_sandbox_keys (parameter_properties v)"
  by (cases v rule: parameter_properties.cases)
    (auto simp: sanitizeToolSchema_def Let_def objectValue_eq split: option.splits json.splits if_splits)

lemma tool_unchanged: "sanitize_tool t = None \<longleftrightarrow> \<not> has_sandbox_key (tool_properties t)"
proof (cases t)
  case (JObj tool)
  have "(case objectValue (obj_get tool ''function'') of Some d \<Rightarrow> d | None \<Rightarrow> tool) = declared_fields tool"
    by (auto simp: declared_fields_def split: option.split json.split)
  then show ?thesis
    unfolding JObj tool_properties_def
    by (simp add: sanitize_tool_def Let_def schema_unchanged [symmetric] split: option.split)
qed (simp_all add: sanitize_tool_def tool_properties_def)

lemma tool_changed:
  assumes "keyed_once t" "sanitize_tool t = Some t'"
  shows "tool_properties t' = without_sandbox_keys (tool_properties t) \<and> other_fields t' = other_fields t"
proof (cases t)
  case (JObj tool)
  let ?d = "declared_fields tool"
  have once: "distinct (map fst tool)" using assms(1) JObj by simp
  have d: "(case objectValue (obj_get tool ''function'') of Some d \<Rightarrow> d | None \<Rightarrow> tool) = ?d"
    by (auto simp: declared_fields_def split: option.split json.split)
  have plain: "objectValue (obj_get tool ''function'') = None \<Longrightarrow> ?d = tool"
    by (auto simp: declared_fields_def objectValue_eq split: option.split json.split)
  obtain schema where schema: "sanitizeToolSchema (obj_get ?d ''parameters'') = Some schema"
    using assms(2) by (auto simp: JObj sanitize_tool_def Let_def d split: option.splits)
  obtain description where
    t': "t' = JObj (let sanitized = obj_set (obj_set ?d (utf16 ''description'') description) (utf16 ''parameters'') schema
      in if objectValue (obj_get tool ''function'') \<noteq> None then obj_set tool (utf16 ''function'') (JObj sanitized)
         else obj_spread ?d sanitized)"
    using assms(2) d plain by (auto simp: JObj sanitize_tool_def Let_def schema split: option.splits if_splits)
  let ?get = "(map_of ?d)(utf16 ''description'' \<mapsto> description, utf16 ''parameters'' \<mapsto> schema)"
  have "map_of (tool_fields t') = ?get"
  proof (cases "objectValue (obj_get tool ''function'')")
    case None
    note plain = plain [OF None]
    let ?s = "obj_spread tool (obj_set (obj_set tool (utf16 ''description'') description) (utf16 ''parameters'') schema)"
    have s: "map_of ?s = ?get" using once
      by (auto simp: plain obj_spread_get obj_set_distinct map_add_def fun_eq_iff split: option.split)
    then have "obj_get ?s ''function'' = obj_get tool ''function''" by (simp add: plain)
    with None have "declared_fields ?s = ?s"
      by (auto simp: declared_fields_def objectValue_eq split: option.split json.split)
    with s None show ?thesis by (simp add: t' plain)
  qed (simp add: t' declared_fields_def)
  then show ?thesis using schema_changed [OF schema]
    by (auto simp: tool_properties_def other_fields_def JObj fun_eq_iff)
qed (use assms in \<open>simp_all add: sanitize_tool_def\<close>)

definition hide_tool :: "json \<Rightarrow> json" where
  "hide_tool t = (case sanitize_tool t of None \<Rightarrow> t | Some t' \<Rightarrow> t')"

lemma hide_tool_hidden: "keyed_once t \<Longrightarrow> tool_hidden t (hide_tool t)"
  using tool_changed [of t] tool_unchanged [of t]
  by (auto simp: hide_tool_def tool_hidden_def split: option.split)

lemma hide_tool_again: "keyed_once t \<Longrightarrow> sanitize_tool (hide_tool t) = None"
  using hide_tool_hidden [of t] unfolding tool_unchanged by (auto simp: tool_hidden_def split: if_splits)

text \<open>The tools of a request.\<close>

definition declared_tools :: "(js_text \<times> json) list \<Rightarrow> json list option" where
  "declared_tools body = (case obj_get body ''tools'' of Some (JArr ts) \<Rightarrow> Some ts | _ \<Rightarrow> None)"

lemma request_tools:
  "sanitizeDeepSeekHarnessRequestTools body =
     (case declared_tools body of
        Some ts \<Rightarrow> if list_all (\<lambda>t. sanitize_tool t = None) ts then body
          else obj_set body (utf16 ''tools'') (JArr (map hide_tool ts))
      | None \<Rightarrow> body)"
  by (auto simp: sanitizeDeepSeekHarnessRequestTools_def rewrite_array_def map_changed_def declared_tools_def
      hide_tool_def [abs_def] split: option.split json.split)

lemma tools_after:
  "declared_tools (sanitizeDeepSeekHarnessRequestTools body) = map_option (map hide_tool) (declared_tools body)"
proof -
  have "map hide_tool ts = ts" if "list_all (\<lambda>t. sanitize_tool t = None) ts" for ts
    using that by (induction ts) (simp_all add: hide_tool_def)
  moreover have "declared_tools (obj_set body (utf16 ''tools'') (JArr ts)) = Some ts" for ts
    by (simp add: declared_tools_def)
  ultimately show ?thesis by (auto simp: request_tools split: option.split)
qed

lemma tools_again:
  assumes "case declared_tools body of None \<Rightarrow> True | Some ts \<Rightarrow> list_all keyed_once ts"
  defines "body' \<equiv> sanitizeDeepSeekHarnessRequestTools body"
  shows "sanitizeDeepSeekHarnessRequestTools body' = body'"
proof (cases "declared_tools body")
  case (Some ts)
  then have "list_all (\<lambda>t. sanitize_tool t = None) (map hide_tool ts)"
    using assms(1) hide_tool_again by (induction ts arbitrary: body) (auto simp: list_all_iff)
  moreover have "declared_tools body' = Some (map hide_tool ts)" by (simp add: body'_def tools_after Some)
  ultimately show ?thesis by (simp add: request_tools [of body'])
qed (simp add: body'_def tools_after request_tools)

lemma tools_hidden:
  "list_all keyed_once ts \<Longrightarrow> list_all2 tool_hidden ts (map hide_tool ts)"
  by (induction ts) (simp_all add: hide_tool_hidden)

end
