(* ===== verification/Tool_Bridge.thy ===== *)
theory Tool_Bridge
  imports Harness_Tools Event_Frames
begin

text \<open>
  The tool bridge between Responses tools and the tools of an upstream dialect: the plan of a request
  (\<^verbatim>\<open>src/main/gateway/types.ts\<close>) and the functions of \<^verbatim>\<open>src/main/gateway/deepseek-dsml.ts\<close> that resolve
  a tool name against it. A thrown \<^verbatim>\<open>DeepSeekDsmlError\<close> is the left summand of a result.
\<close>

section \<open>The plan\<close>

datatype bridge_source = Function_Tool | Custom_Tool | Search_Tool

datatype bridge_dialect = Xai_Grok | Deepseek_Chat | Deepseek_Dsml

record tool_binding =
  tb_sourceType :: bridge_source
  tb_sourceName :: js_text
  tb_sourceNamespace :: "js_text option"
  tb_wireName :: js_text
  tb_deferredToolName :: "js_text option"
  tb_declared :: "bool option"

record tool_call_binding =
  tcb_callId :: js_text
  tcb_sourceType :: bridge_source
  tcb_sourceName :: "js_text option"
  tcb_sourceNamespace :: "js_text option"
  tcb_wireName :: "js_text option"

record tool_bridge_plan =
  plan_dialect :: bridge_dialect
  plan_tools :: "tool_binding list"
  plan_calls :: "tool_call_binding list"
  plan_deferredExecSourceName :: "js_text option"
  plan_requiresResponseBridge :: "bool option"
  plan_parallelToolCalls :: "bool option"

text \<open>An optional string that is present and not empty, \<^const>\<open>None\<close> otherwise.\<close>

definition nonempty_text :: "js_text option \<Rightarrow> js_text option" where
  "nonempty_text s = (if s = Some [] then None else s)"

definition binding_declared :: "tool_binding \<Rightarrow> bool" where
  "binding_declared b \<longleftrightarrow> tb_declared b \<noteq> Some False"

definition deepseek_dialect :: "tool_bridge_plan \<Rightarrow> bool" where
  "deepseek_dialect plan \<longleftrightarrow> plan_dialect plan = Deepseek_Dsml \<or> plan_dialect plan = Deepseek_Chat"

section \<open>Errors\<close>

record dsml_error =
  dsml_code :: string
  dsml_message :: js_text

definition dsml_fail :: "string \<Rightarrow> js_text \<Rightarrow> dsml_error" where
  "dsml_fail code message = \<lparr>dsml_code = code, dsml_message = message\<rparr>"

type_synonym 'a dsml_result = "dsml_error + 'a"

section \<open>Names\<close>

definition control_unit :: "nat \<Rightarrow> bool" where
  "control_unit u \<longleftrightarrow> u < 32 \<or> u = 127"

definition validateDeferredToolName :: "js_text \<Rightarrow> unit dsml_result" where
  "validateDeferredToolName name =
     (if name = [] \<or> 256 < length name \<or> list_ex control_unit name
      then Inl (dsml_fail ''invalid_tool_name'' (utf16 ''DeepSeek returned an invalid deferred tool name.''))
      else Inr ())"

definition resolveDeepSeekToolBinding :: "tool_bridge_plan \<Rightarrow> js_text \<Rightarrow> tool_binding option dsml_result" where
  "resolveDeepSeekToolBinding plan name =
     (case find (\<lambda>b. binding_declared b \<and> tb_wireName b = name) (plan_tools plan) of
        Some b \<Rightarrow> Inr (Some b)
      | None \<Rightarrow>
          (case (if deepseek_dialect plan then nonempty_text (plan_deferredExecSourceName plan) else None) of
             None \<Rightarrow> Inr None
           | Some source \<Rightarrow>
               and_then (validateDeferredToolName name) (\<lambda>_. Inr (Some
                 \<lparr>tb_sourceType = Custom_Tool, tb_sourceName = source, tb_sourceNamespace = None,
                  tb_wireName = name, tb_deferredToolName = Some name, tb_declared = Some True\<rparr>))))"

section \<open>Running a deferred tool\<close>

text \<open>\<^verbatim>\<open>lines.join('\n')\<close>.\<close>

fun newline_join :: "js_text list \<Rightarrow> js_text" where
  "newline_join [] = []"
| "newline_join [s] = s"
| "newline_join (s # t # ss) = s @ [10] @ newline_join (t # ss)"

definition deferred_exec_lines :: "js_text \<Rightarrow> js_text \<Rightarrow> js_text list" where
  "deferred_exec_lines serializedName serializedArgs =
     [utf16 ''const requestedName = '' @ serializedName @ utf16 '';'',
      utf16 ''const normalizedName = requestedName.replaceAll('.', '__');'',
      utf16 ''const availableTools = typeof ALL_TOOLS === 'undefined'' @ [39],
      utf16 ''  ? Object.keys(tools).map((name) => ({ name }))'',
      utf16 ''  : ALL_TOOLS;'',
      utf16 ''const exact = availableTools.find((entry) => entry.name === requestedName)'',
      utf16 ''  ?? availableTools.find((entry) => entry.name === normalizedName);'',
      utf16 ''const suffixMatches = exact ? [] : availableTools.filter((entry) => entry.name.endsWith('__' + requestedName));'',
      utf16 ''if (!exact && suffixMatches.length !== 1) throw new Error('Deferred tool is unavailable or ambiguous: ' + requestedName);'',
      utf16 ''const resolvedName = exact?.name ?? suffixMatches[0].name;'',
      utf16 ''const deferredTool = tools[resolvedName];'',
      utf16 ''if (typeof deferredTool !== 'function') throw new Error('Deferred tool is unavailable: ' + resolvedName);'',
      utf16 ''const result = await deferredTool('' @ serializedArgs @ utf16 '');'',
      utf16 ''text(typeof result === 'string' ? result : JSON.stringify(result));'']"

definition deepSeekDeferredToolExecInput :: "js_text \<Rightarrow> (js_text \<times> json) list \<Rightarrow> js_text dsml_result" where
  "deepSeekDeferredToolExecInput name args =
     and_then (validateDeferredToolName name) (\<lambda>_.
       Inr (newline_join (deferred_exec_lines (json_quote name) (json_stringify (JObj args)))))"

section \<open>Tool search\<close>

definition search_fail :: "string \<Rightarrow> 'a dsml_result" where
  "search_fail message = Inl (dsml_fail ''invalid_tool_search_arguments'' (utf16 message))"

fun positive_number :: "json \<Rightarrow> bool" where
  "positive_number (JNum (Num q)) = (0 < q)"
| "positive_number v = False"

definition parseToolSearchArguments :: "js_text \<Rightarrow> json dsml_result" where
  "parseToolSearchArguments value =
     (case json_parse value of
        None \<Rightarrow> search_fail ''DeepSeek tool search arguments must be valid JSON.''
      | Some (JObj args) \<Rightarrow>
          (case obj_get args ''query'' of
             Some (JStr query) \<Rightarrow>
               if text_trim query = [] then search_fail ''DeepSeek tool search requires a non-empty query.''
               else if (case obj_get args ''limit'' of None \<Rightarrow> False | Some v \<Rightarrow> \<not> positive_number v)
               then search_fail ''DeepSeek tool search limit must be a positive number.''
               else if \<not> set (map fst args) \<subseteq> {utf16 ''query'', utf16 ''limit''}
               then search_fail ''DeepSeek tool search accepts only query and limit.''
               else Inr (JObj ((utf16 ''query'', JStr (text_trim query)) #
                 (case obj_get args ''limit'' of None \<Rightarrow> [] | Some v \<Rightarrow> [(utf16 ''limit'', v)])))
           | _ \<Rightarrow> search_fail ''DeepSeek tool search requires a non-empty query.'')
      | _ \<Rightarrow> search_fail ''DeepSeek tool search arguments must be an object.'')"

end
