(* ===== verification/Encoder_State.thy ===== *)
theory Encoder_State
  imports Canonical_Events Tool_Bridge Tool_Schema Domain_Types
begin

text \<open>
  What \<^verbatim>\<open>ProtocolEncoder\<close> of \<^verbatim>\<open>src/main/gateway/streaming.ts\<close> keeps and the helpers its four protocols
  share: the frames it writes, the accumulated tool calls, the token counts and the stop reasons. The
  index of an event is a natural number. A frame is its event name and its data; \<open>frame_text\<close> is the
  text sent.
\<close>

section \<open>Frames\<close>

datatype frame_data = Json_Data json | Text_Data js_text

datatype out_frame = Out_Frame "js_text option" frame_data

fun data_text :: "frame_data \<Rightarrow> js_text" where
  "data_text (Json_Data v) = json_stringify v"
| "data_text (Text_Data s) = s"

fun frame_text :: "out_frame \<Rightarrow> js_text" where
  "frame_text (Out_Frame None d) = utf16 ''data: '' @ data_text d @ [10, 10]"
| "frame_text (Out_Frame (Some event) d) =
     utf16 ''event: '' @ event @ [10] @ utf16 ''data: '' @ data_text d @ [10, 10]"

text \<open>An object literal whose undefined properties are omitted. The names used here are no array indices.\<close>

definition js_object :: "(string \<times> json option) list \<Rightarrow> json" where
  "js_object ps = JObj (concat (map (\<lambda>(k, v). case v of None \<Rightarrow> [] | Some w \<Rightarrow> [(utf16 k, w)]) ps))"

abbreviation (input) Lit :: "string \<Rightarrow> json option" where "Lit s \<equiv> Some (JStr (utf16 s))"
abbreviation (input) Txt :: "js_text \<Rightarrow> json option" where "Txt s \<equiv> Some (JStr s)"

definition jnat :: "nat \<Rightarrow> json" where "jnat n = JNum (Num (of_nat n))"

definition sseFrame :: "json \<Rightarrow> out_frame" where
  "sseFrame data = Out_Frame None (Json_Data data)"

definition responsesSse :: "string \<Rightarrow> (string \<times> json option) list \<Rightarrow> out_frame" where
  "responsesSse kind data = Out_Frame (Some (utf16 kind)) (Json_Data (js_object (data @ [(''type'', Lit kind)])))"

definition anthropicSse :: "string \<Rightarrow> (string \<times> json option) list \<Rightarrow> out_frame" where
  "anthropicSse event data = Out_Frame (Some (utf16 event)) (Json_Data (js_object data))"

section \<open>Token counts\<close>

definition double_neg :: "double \<Rightarrow> double" where
  "double_neg x = (case x of Num q \<Rightarrow> Num (- q) | PosInf \<Rightarrow> NegInf | NegInf \<Rightarrow> PosInf | NaN \<Rightarrow> NaN)"

definition double_sub :: "double \<Rightarrow> double \<Rightarrow> double" where
  "double_sub a b = double_add a (double_neg b)"

text \<open>\<^verbatim>\<open>Math.max(0, x)\<close> and \<^verbatim>\<open>Math.floor\<close>.\<close>

definition at_least_zero :: "double \<Rightarrow> double" where
  "at_least_zero x = (if double_less x (Num 0) then Num 0 else x)"

definition double_floor :: "double \<Rightarrow> double" where
  "double_floor x = (case x of Num q \<Rightarrow> Num (of_int \<lfloor>q\<rfloor>) | _ \<Rightarrow> x)"

definition or_count :: "'a option \<Rightarrow> 'a option \<Rightarrow> 'a option" where
  "or_count a b = (case a of None \<Rightarrow> b | Some x \<Rightarrow> Some x)"

definition or_zero_count :: "double option \<Rightarrow> double" where
  "or_zero_count a = (case a of None \<Rightarrow> Num 0 | Some x \<Rightarrow> x)"

definition stream_sumDefined :: "double option \<Rightarrow> double option \<Rightarrow> double option" where
  "stream_sumDefined first second =
     (case (first, second) of (Some a, Some b) \<Rightarrow> Some (double_add a b) | _ \<Rightarrow> None)"

definition sumOptional :: "double option \<Rightarrow> double option \<Rightarrow> double option" where
  "sumOptional first second =
     (if first = None \<and> second = None then None else Some (double_add (or_zero_count first) (or_zero_count second)))"

definition total_count :: "usage_counts \<Rightarrow> double option" where
  "total_count u = or_count (totalTokens u) (stream_sumDefined (inputTokens u) (outputTokens u))"

definition openAiUsage :: "usage_counts \<Rightarrow> json" where
  "openAiUsage u = js_object
     [(''prompt_tokens'', map_option JNum (inputTokens u)),
      (''completion_tokens'', map_option JNum (outputTokens u)),
      (''total_tokens'', map_option JNum (total_count u)),
      (''prompt_tokens_details'',
        map_option (\<lambda>n. js_object [(''cached_tokens'', Some (JNum n))]) (cachedInputTokens u)),
      (''completion_tokens_details'',
        map_option (\<lambda>n. js_object [(''reasoning_tokens'', Some (JNum n))]) (reasoningTokens u))]"

definition responsesUsage :: "usage_counts \<Rightarrow> json" where
  "responsesUsage u = js_object
     [(''input_tokens'', map_option JNum (inputTokens u)),
      (''output_tokens'', map_option JNum (outputTokens u)),
      (''total_tokens'', map_option JNum (total_count u)),
      (''input_tokens_details'',
        map_option (\<lambda>n. js_object [(''cached_tokens'', Some (JNum n))]) (cachedInputTokens u)),
      (''output_tokens_details'',
        map_option (\<lambda>n. js_object [(''reasoning_tokens'', Some (JNum n))]) (reasoningTokens u))]"

definition anthropicUsage :: "usage_counts \<Rightarrow> json" where
  "anthropicUsage u =
     (let cacheCreation = or_count (cacheCreationInputTokens u)
            (sumOptional (cacheCreation5mInputTokens u) (cacheCreation1hInputTokens u));
          uncachedInput = map_option (\<lambda>n. at_least_zero
            (double_sub (double_sub n (or_zero_count (cachedInputTokens u))) (or_zero_count cacheCreation))) (inputTokens u)
      in js_object
        [(''input_tokens'', map_option JNum uncachedInput),
         (''output_tokens'', map_option JNum (outputTokens u)),
         (''cache_read_input_tokens'', map_option JNum (cachedInputTokens u)),
         (''cache_creation_input_tokens'', map_option JNum (cacheCreationInputTokens u)),
         (''cache_creation'',
           if cacheCreation5mInputTokens u = None \<and> cacheCreation1hInputTokens u = None then None
           else Some (js_object
             [(''ephemeral_5m_input_tokens'', map_option JNum (cacheCreation5mInputTokens u)),
              (''ephemeral_1h_input_tokens'', map_option JNum (cacheCreation1hInputTokens u))]))])"

definition geminiUsage :: "usage_counts \<Rightarrow> json" where
  "geminiUsage u = js_object
     [(''promptTokenCount'', map_option JNum (inputTokens u)),
      (''candidatesTokenCount'', map_option JNum (outputTokens u)),
      (''totalTokenCount'', map_option JNum (total_count u))]"

definition hasUsage :: "usage_counts \<Rightarrow> bool" where
  "hasUsage u \<longleftrightarrow>
     inputTokens u \<noteq> None \<or> outputTokens u \<noteq> None \<or> totalTokens u \<noteq> None \<or> cachedInputTokens u \<noteq> None
     \<or> cacheCreationInputTokens u \<noteq> None \<or> cacheCreation5mInputTokens u \<noteq> None
     \<or> cacheCreation1hInputTokens u \<noteq> None \<or> reasoningTokens u \<noteq> None"

section \<open>Errors, stop reasons and identifiers\<close>

definition canonicalError ::
  "js_text option \<Rightarrow> js_text option \<Rightarrow> js_text option \<Rightarrow> (string \<times> json option) list" where
  "canonicalError message code kind =
     [(''message'', map_option JStr message), (''type'', map_option JStr kind),
      (''code'', map_option JStr code)]"

fun canonicalToChatStop :: "stop_reason \<Rightarrow> string" where
  "canonicalToChatStop Stop_Length = ''length''"
| "canonicalToChatStop Stop_Tool_Calls = ''tool_calls''"
| "canonicalToChatStop Stop_Content_Filter = ''content_filter''"
| "canonicalToChatStop r = ''stop''"

fun canonicalToAnthropicStop :: "stop_reason \<Rightarrow> string" where
  "canonicalToAnthropicStop Stop_Length = ''max_tokens''"
| "canonicalToAnthropicStop Stop_Tool_Calls = ''tool_use''"
| "canonicalToAnthropicStop Stop_Content_Filter = ''refusal''"
| "canonicalToAnthropicStop r = ''end_turn''"

fun canonicalToGeminiStop :: "stop_reason \<Rightarrow> string" where
  "canonicalToGeminiStop Stop_Length = ''MAX_TOKENS''"
| "canonicalToGeminiStop Stop_Content_Filter = ''SAFETY''"
| "canonicalToGeminiStop r = ''STOP''"

definition stream_parseJsonObject :: "js_text \<Rightarrow> json option" where
  "stream_parseJsonObject value =
     (if value = [] then None
      else map_option JObj (objectValue (json_parse value)))"

definition mergeStreamedIdentity :: "js_text \<Rightarrow> js_text \<Rightarrow> js_text" where
  "mergeStreamedIdentity current incoming =
     (if incoming = [] \<or> incoming = current \<or> text_starts current incoming then current
      else if current = [] \<or> text_starts incoming current then incoming
      else current @ incoming)"

definition identifier_unit :: "nat \<Rightarrow> bool" where
  "identifier_unit u \<longleftrightarrow> 97 \<le> u \<and> u \<le> 122 \<or> 65 \<le> u \<and> u \<le> 90 \<or> 48 \<le> u \<and> u \<le> 57 \<or> u = 95 \<or> u = 45"

definition safeIdentifier :: "js_text \<Rightarrow> js_text" where
  "safeIdentifier value =
     (if value = [] then utf16 ''stream'' else map (\<lambda>u. if identifier_unit u then u else 95) value)"

text \<open>\<^verbatim>\<open>a || b\<close> on strings.\<close>

definition or_text :: "js_text \<Rightarrow> js_text \<Rightarrow> js_text" where
  "or_text a b = (if a = [] then b else a)"

text \<open>\<^verbatim>\<open>String(x)\<close> of a number.\<close>

definition number_text :: "double \<Rightarrow> js_text" where
  "number_text x = (case x of
     Num q \<Rightarrow> json_number x
   | PosInf \<Rightarrow> utf16 ''Infinity'' | NegInf \<Rightarrow> utf16 ''-Infinity'' | NaN \<Rightarrow> utf16 ''NaN'')"

section \<open>The encoder\<close>

record encoded_tool =
  tool_index :: nat
  tool_id :: js_text
  tool_name :: js_text
  tool_arguments :: js_text
  tool_started :: bool
  tool_outputIndex :: "nat option"
  tool_itemId :: "js_text option"
  tool_contentIndex :: "nat option"
  emittedArguments :: nat
  tool_emitted :: bool
  tool_completed :: bool
  tool_toolType :: "tool_type option"
  bridgeBinding :: "tool_binding option"
  customInput :: "js_text option"
  toolSearchArguments :: "json option"

definition new_tool :: "nat \<Rightarrow> encoded_tool" where
  "new_tool i =
     \<lparr>tool_index = i, tool_id = [], tool_name = [], tool_arguments = [], tool_started = False,
      tool_outputIndex = None, tool_itemId = None, tool_contentIndex = None, emittedArguments = 0,
      tool_emitted = False, tool_completed = False, tool_toolType = None,
      bridgeBinding = None, customInput = None, toolSearchArguments = None\<rparr>"

record stream_encoder =
  enc_protocol :: protocol
  enc_sanitize :: bool
  enc_frames :: "out_frame list"
  enc_id :: js_text
  enc_model :: js_text
  enc_createdAt :: double
  enc_started :: bool
  enc_stopped :: bool
  enc_done :: bool
  enc_failed :: bool
  encodingFailure :: "canonical_event option"
  pendingStop :: "stop_reason option"
  enc_usage :: usage_counts
  enc_tools :: "(nat \<times> encoded_tool) list"
  anthropicNextContentIndex :: nat
  anthropicTextIndex :: "nat option"
  anthropicTextStarted :: bool
  anthropicTextClosed :: bool
  responsesNextOutputIndex :: nat
  responsesTextOutputIndex :: "nat option"
  responsesText :: js_text
  responsesTextStarted :: bool
  responsesTextSourceIndices :: "nat list"
  responsesCompletedMessageIndices :: "nat list"
  responsesFailureEmitted :: bool
  chatUsageEmitted :: bool
  chatToolIds :: "(nat \<times> js_text) list"
  enc_toolBridgePlan :: "tool_bridge_plan option"

record encoding_options =
  option_id :: "js_text option"
  option_model :: "js_text option"
  option_responsesAlreadyStarted :: bool
  option_sanitize :: bool
  option_toolBridgePlan :: "tool_bridge_plan option"

text \<open>\<open>now\<close> is the clock when the encoder is created.\<close>

definition new_encoder :: "double \<Rightarrow> protocol \<Rightarrow> encoding_options \<Rightarrow> stream_encoder" where
  "new_encoder now p opts =
     \<lparr>enc_protocol = p, enc_sanitize = option_sanitize opts, enc_frames = [],
      enc_id = (case option_id opts of Some i \<Rightarrow> i | None \<Rightarrow> utf16 ''stream_'' @ number_text now),
      enc_model = (case option_model opts of Some m \<Rightarrow> m | None \<Rightarrow> []),
      enc_createdAt = now,
      enc_started = (p = Openai_Responses \<and> option_responsesAlreadyStarted opts),
      enc_stopped = False, enc_done = False, enc_failed = False, encodingFailure = None,
      pendingStop = None, enc_usage = no_usage, enc_tools = [],
      anthropicNextContentIndex = 0, anthropicTextIndex = None, anthropicTextStarted = False,
      anthropicTextClosed = False, responsesNextOutputIndex = 0, responsesTextOutputIndex = None,
      responsesText = [], responsesTextStarted = False, responsesTextSourceIndices = [],
      responsesCompletedMessageIndices = [], responsesFailureEmitted = False, chatUsageEmitted = False,
      chatToolIds = [], enc_toolBridgePlan = option_toolBridgePlan opts\<rparr>"

text \<open>The dedicated Kiro bridge is no canonical stream: creating such an encoder throws.\<close>

definition createCanonicalStreamEncoder ::
  "double \<Rightarrow> protocol \<Rightarrow> encoding_options \<Rightarrow> stream_encoder option" where
  "createCanonicalStreamEncoder now p opts = (if p = Kiro_Claude then None else Some (new_encoder now p opts))"

definition push_frame :: "out_frame \<Rightarrow> stream_encoder \<Rightarrow> stream_encoder" where
  "push_frame f e = e\<lparr>enc_frames := enc_frames e @ [f]\<rparr>"

text \<open>The tool of an index; the map keeps the order in which indices were first set.\<close>

definition tool_at :: "stream_encoder \<Rightarrow> nat \<Rightarrow> encoded_tool" where
  "tool_at e i = (case map_of (enc_tools e) i of Some t \<Rightarrow> t | None \<Rightarrow> new_tool i)"

definition change_tool :: "nat \<Rightarrow> (encoded_tool \<Rightarrow> encoded_tool) \<Rightarrow> stream_encoder \<Rightarrow> stream_encoder" where
  "change_tool i f e = e\<lparr>enc_tools := AList.update i (f (tool_at e i)) (enc_tools e)\<rparr>"

definition tool_indices :: "stream_encoder \<Rightarrow> nat list" where
  "tool_indices e = map fst (enc_tools e)"

definition updateTool ::
  "nat \<Rightarrow> js_text option \<Rightarrow> js_text option \<Rightarrow> js_text option \<Rightarrow> tool_type option \<Rightarrow> stream_encoder \<Rightarrow> stream_encoder"
  where
  "updateTool i ident name arguments kind =
     change_tool i (\<lambda>t. t\<lparr>
       tool_id := (case ident of None \<Rightarrow> tool_id t | Some s \<Rightarrow> mergeStreamedIdentity (tool_id t) s),
       tool_name := (case name of None \<Rightarrow> tool_name t | Some s \<Rightarrow> mergeStreamedIdentity (tool_name t) s),
       tool_arguments := (case arguments of None \<Rightarrow> tool_arguments t | Some s \<Rightarrow> tool_arguments t @ s),
       tool_toolType := (case kind of None \<Rightarrow> tool_toolType t | Some x \<Rightarrow> Some x)\<rparr>)"

text \<open>\<^verbatim>\<open>tool.completed = true\<close> for a known tool.\<close>

definition complete_tool :: "nat \<Rightarrow> stream_encoder \<Rightarrow> stream_encoder" where
  "complete_tool i e =
     (if i \<in> set (tool_indices e) then change_tool i (\<lambda>t. t\<lparr>tool_completed := True\<rparr>) e else e)"

definition mergeEncoderUsage :: "usage_counts \<Rightarrow> stream_encoder \<Rightarrow> stream_encoder" where
  "mergeEncoderUsage u e =
     (let old = enc_usage e;
          input = or_count (inputTokens u) (inputTokens old);
          output = or_count (outputTokens u) (outputTokens old)
      in e\<lparr>enc_usage :=
        \<lparr>inputTokens = input, outputTokens = output,
         totalTokens = or_count (totalTokens u) (or_count (stream_sumDefined input output) (totalTokens old)),
         cachedInputTokens = or_count (cachedInputTokens u) (cachedInputTokens old),
         cacheCreationInputTokens = or_count (cacheCreationInputTokens u) (cacheCreationInputTokens old),
         cacheCreation5mInputTokens = or_count (cacheCreation5mInputTokens u) (cacheCreation5mInputTokens old),
         cacheCreation1hInputTokens = or_count (cacheCreation1hInputTokens u) (cacheCreation1hInputTokens old),
         reasoningTokens = or_count (reasoningTokens u) (reasoningTokens old)\<rparr>\<rparr>)"

end
