(* ===== verification/Stream_Encoder.thy ===== *)
theory Stream_Encoder
  imports Encoder_State
begin

text \<open>
  \<^verbatim>\<open>ProtocolEncoder\<close> of \<^verbatim>\<open>src/main/gateway/streaming.ts\<close>: one function per protocol writes the
  frames of a canonical event, \<open>encode\<close> composes them and hands over what was written.
\<close>

section \<open>OpenAI chat completions\<close>

definition openAiChatEnvelope :: "stream_encoder \<Rightarrow> (string \<times> json option) list" where
  "openAiChatEnvelope e =
     [(''id'', Txt (enc_id e)), (''object'', Lit ''chat.completion.chunk''),
      (''created'', Some (JNum (double_floor (quotient (enc_createdAt e) (Num 1000))))),
      (''model'', Txt (enc_model e))]"

text \<open>A chunk with one choice.\<close>

definition chat_chunk :: "stream_encoder \<Rightarrow> json \<Rightarrow> json \<Rightarrow> out_frame" where
  "chat_chunk e delta reason = sseFrame (js_object (openAiChatEnvelope e @
     [(''choices'', Some (JArr [js_object
        [(''index'', Some (jnat 0)), (''delta'', Some delta), (''finish_reason'', Some reason)]]))]))"

definition ensureOpenAiChatStart :: "stream_encoder \<Rightarrow> stream_encoder" where
  "ensureOpenAiChatStart e =
     (if enc_started e then e
      else let e = e\<lparr>enc_started := True\<rparr>
           in push_frame (chat_chunk e
                (js_object [(''role'', Lit ''assistant''), (''content'', Lit '''')]) JNull) e)"

definition chat_tool_delta ::
  "nat \<Rightarrow> js_text option \<Rightarrow> js_text option \<Rightarrow> js_text option \<Rightarrow> stream_encoder \<Rightarrow> stream_encoder" where
  "chat_tool_delta i ident name arguments e =
     (let known = map_of (chatToolIds e) i;
          callId = (case known of
              Some c \<Rightarrow> c
            | None \<Rightarrow> (case ident of
                Some c \<Rightarrow> c
              | None \<Rightarrow> utf16 ''call_'' @ safeIdentifier (enc_id e) @ utf16 ''_'' @ text_of_nat i));
          e = (if known = None then e\<lparr>chatToolIds := AList.update i callId (chatToolIds e)\<rparr> else e);
          tool_definition =
            (if name = None \<and> arguments = None then None
             else Some (js_object [(''name'', map_option JStr name), (''arguments'', map_option JStr arguments)]));
          toolCall = js_object
            [(''index'', Some (jnat i)),
             (''id'', if known = None then Txt callId else None),
             (''type'', if known = None then Lit ''function'' else None),
             (''function'', tool_definition)]
      in push_frame (chat_chunk e (js_object [(''tool_calls'', Some (JArr [toolCall]))]) JNull) e)"

definition emit_chat_tool :: "stream_encoder \<Rightarrow> nat \<Rightarrow> stream_encoder" where
  "emit_chat_tool e i =
     (let t = tool_at e i
      in if tool_emitted t \<or> \<not> tool_completed t then e
         else let callId = or_text (tool_id t)
                    (utf16 ''call_'' @ safeIdentifier (enc_id e) @ utf16 ''_'' @ text_of_nat i);
                  e = e\<lparr>chatToolIds := AList.update i callId (chatToolIds e)\<rparr>;
                  e = change_tool i (\<lambda>t. t\<lparr>tool_emitted := True\<rparr>) e;
                  toolCall = js_object
                    [(''index'', Some (jnat i)), (''id'', Txt callId), (''type'', Lit ''function''),
                     (''function'', Some (js_object
                        [(''name'', Txt (tool_name t)),
                         (''arguments'', Txt (sanitizeDeepSeekHarnessToolArguments
                            (or_text (tool_arguments t) (utf16 ''{}''))))]))]
              in push_frame (chat_chunk e (js_object [(''tool_calls'', Some (JArr [toolCall]))]) JNull) e)"

definition emitDeepSeekHarnessChatTools :: "stream_encoder \<Rightarrow> stream_encoder" where
  "emitDeepSeekHarnessChatTools e = foldl emit_chat_tool e (sort (tool_indices e))"

definition chat_stop :: "stop_reason \<Rightarrow> stream_encoder \<Rightarrow> stream_encoder" where
  "chat_stop reason e =
     (if enc_failed e \<or> enc_stopped e then e
      else let e = ensureOpenAiChatStart e;
               e = (if enc_sanitize e
                    then emitDeepSeekHarnessChatTools
                      (if reason = Stop_Tool_Calls then foldl (\<lambda>e i. complete_tool i e) e (tool_indices e) else e)
                    else e);
               e = e\<lparr>enc_stopped := True\<rparr>
           in push_frame (chat_chunk e (js_object []) (JStr (utf16 (canonicalToChatStop reason)))) e)"

definition chat_done :: "stream_encoder \<Rightarrow> stream_encoder" where
  "chat_done e =
     (if enc_failed e then e\<lparr>enc_done := True\<rparr>
      else let e = (if \<not> chatUsageEmitted e \<and> hasUsage (enc_usage e)
                    then let e = (ensureOpenAiChatStart e)\<lparr>chatUsageEmitted := True\<rparr>
                         in push_frame (sseFrame (js_object (openAiChatEnvelope e @
                              [(''choices'', Some (JArr [])), (''usage'', Some (openAiUsage (enc_usage e)))]))) e
                    else e)
           in push_frame (Out_Frame None (Text_Data (utf16 ''[DONE]''))) (e\<lparr>enc_done := True\<rparr>))"

fun encodeOpenAiChat :: "canonical_event \<Rightarrow> stream_encoder \<Rightarrow> stream_encoder" where
  "encodeOpenAiChat (Start _ _ _) e = ensureOpenAiChatStart e"
| "encodeOpenAiChat (Text_Delta shown _ _) e =
     (let e = ensureOpenAiChatStart e
      in push_frame (chat_chunk e (js_object [(''content'', Txt shown)]) JNull) e)"
| "encodeOpenAiChat (Tool_Call_Delta i ident name arguments kind _) e =
     (let e = ensureOpenAiChatStart e
      in if enc_sanitize e then updateTool i ident name arguments kind e
         else chat_tool_delta i ident name arguments e)"
| "encodeOpenAiChat (Tool_Call_Complete i) e = complete_tool i e"
| "encodeOpenAiChat (Usage u) e = mergeEncoderUsage u e"
| "encodeOpenAiChat (Stop reason _) e = chat_stop reason e"
| "encodeOpenAiChat (Error_Event message code kind) e =
     push_frame (sseFrame (js_object [(''error'', Some (js_object (canonicalError message code kind)))]))
       (e\<lparr>enc_failed := True\<rparr>)"
| "encodeOpenAiChat Done e = (if enc_done e then e else chat_done e)"
| "encodeOpenAiChat _ e = e"

section \<open>Anthropic messages\<close>

definition ensureAnthropicStart :: "stream_encoder \<Rightarrow> stream_encoder" where
  "ensureAnthropicStart e =
     (if enc_started e then e
      else push_frame (anthropicSse ''message_start''
        [(''type'', Lit ''message_start''),
         (''message'', Some (js_object
            [(''id'', Txt (enc_id e)), (''type'', Lit ''message''), (''role'', Lit ''assistant''),
             (''model'', Txt (enc_model e)), (''content'', Some (JArr [])), (''stop_reason'', Some JNull),
             (''stop_sequence'', Some JNull),
             (''usage'', Some (js_object
                [(''input_tokens'', Some (JNum (or_zero_count (inputTokens (enc_usage e))))),
                 (''output_tokens'', Some (jnat 0))]))]))])
        (e\<lparr>enc_started := True\<rparr>))"

definition content_block_start :: "nat option \<Rightarrow> json \<Rightarrow> out_frame" where
  "content_block_start i block = anthropicSse ''content_block_start''
     [(''type'', Lit ''content_block_start''), (''index'', map_option jnat i), (''content_block'', Some block)]"

definition content_block_delta :: "nat option \<Rightarrow> json \<Rightarrow> out_frame" where
  "content_block_delta i delta = anthropicSse ''content_block_delta''
     [(''type'', Lit ''content_block_delta''), (''index'', map_option jnat i), (''delta'', Some delta)]"

definition content_block_stop :: "nat option \<Rightarrow> out_frame" where
  "content_block_stop i = anthropicSse ''content_block_stop''
     [(''type'', Lit ''content_block_stop''), (''index'', map_option jnat i)]"

definition input_json_delta :: "js_text \<Rightarrow> json" where
  "input_json_delta s = js_object [(''type'', Lit ''input_json_delta''), (''partial_json'', Txt s)]"

definition close_anthropic_text :: "stream_encoder \<Rightarrow> stream_encoder" where
  "close_anthropic_text e =
     (if anthropicTextStarted e \<and> \<not> anthropicTextClosed e
      then push_frame (content_block_stop (anthropicTextIndex e)) (e\<lparr>anthropicTextClosed := True\<rparr>)
      else e)"

definition ensureAnthropicToolStarted :: "bool \<Rightarrow> nat \<Rightarrow> stream_encoder \<Rightarrow> stream_encoder" where
  "ensureAnthropicToolStarted force i e =
     (let t = tool_at e i
      in if tool_started t \<or> \<not> force \<and> (tool_id t = [] \<or> tool_name t = []) then e
         else let e = close_anthropic_text e;
                  n = anthropicNextContentIndex e;
                  e = (change_tool i (\<lambda>t. t\<lparr>tool_started := True, tool_contentIndex := Some n\<rparr>) e)
                        \<lparr>anthropicNextContentIndex := Suc n\<rparr>
              in push_frame (content_block_start (Some n) (js_object
                   [(''type'', Lit ''tool_use''),
                    (''id'', Txt (or_text (tool_id t) (enc_id e @ utf16 ''_tool_'' @ text_of_nat i))),
                    (''name'', Txt (tool_name t)), (''input'', Some (js_object []))])) e)"

text \<open>The arguments not yet emitted.\<close>

definition pending_arguments :: "encoded_tool \<Rightarrow> js_text" where
  "pending_arguments t = drop (emittedArguments t) (tool_arguments t)"

definition emit_anthropic_arguments :: "js_text \<Rightarrow> nat \<Rightarrow> stream_encoder \<Rightarrow> stream_encoder" where
  "emit_anthropic_arguments delta i e =
     (if delta = [] then e
      else change_tool i (\<lambda>t. t\<lparr>emittedArguments := length (tool_arguments t)\<rparr>)
        (push_frame (content_block_delta (tool_contentIndex (tool_at e i)) (input_json_delta delta)) e))"

definition anthropic_text :: "js_text \<Rightarrow> stream_encoder \<Rightarrow> stream_encoder" where
  "anthropic_text s e =
     (let e = ensureAnthropicStart e;
          e = (if \<not> anthropicTextStarted e \<or> anthropicTextClosed e
               then let n = anthropicNextContentIndex e
                    in push_frame (content_block_start (Some n)
                         (js_object [(''type'', Lit ''text''), (''text'', Lit '''')]))
                       (e\<lparr>anthropicTextStarted := True, anthropicTextClosed := False,
                          anthropicTextIndex := Some n, anthropicNextContentIndex := Suc n\<rparr>)
               else e)
      in push_frame (content_block_delta (anthropicTextIndex e)
           (js_object [(''type'', Lit ''text_delta''), (''text'', Txt s)])) e)"

definition anthropic_tool ::
  "nat \<Rightarrow> js_text option \<Rightarrow> js_text option \<Rightarrow> js_text option \<Rightarrow> tool_type option \<Rightarrow> stream_encoder \<Rightarrow> stream_encoder"
  where
  "anthropic_tool i ident name arguments kind e =
     (let e = updateTool i ident name arguments kind (ensureAnthropicStart e);
          wasStarted = tool_started (tool_at e i);
          e = ensureAnthropicToolStarted False i e;
          t = tool_at e i
      in case arguments of
           Some s \<Rightarrow>
             if tool_started t then emit_anthropic_arguments (if wasStarted then s else pending_arguments t) i e else e
         | None \<Rightarrow> e)"

definition closeAnthropicTool :: "stream_encoder \<Rightarrow> nat \<Rightarrow> stream_encoder" where
  "closeAnthropicTool e i =
     (let e = ensureAnthropicToolStarted True i e;
          e = emit_anthropic_arguments (pending_arguments (tool_at e i)) i e
      in push_frame (content_block_stop (tool_contentIndex (tool_at e i))) e)"

definition closeAnthropicBlocks :: "stream_encoder \<Rightarrow> stream_encoder" where
  "closeAnthropicBlocks e = foldl closeAnthropicTool (close_anthropic_text e) (tool_indices e)"

definition finalizeAnthropic :: "stop_reason \<Rightarrow> stream_encoder \<Rightarrow> stream_encoder" where
  "finalizeAnthropic reason e =
     (let e = (closeAnthropicBlocks (ensureAnthropicStart e))\<lparr>enc_stopped := True\<rparr>
      in push_frame (anthropicSse ''message_delta''
        [(''type'', Lit ''message_delta''),
         (''delta'', Some (js_object
            [(''stop_reason'', Lit (canonicalToAnthropicStop reason)), (''stop_sequence'', Some JNull)])),
         (''usage'', Some (anthropicUsage (enc_usage e)))]) e)"

definition anthropicUsageFrame :: "stream_encoder \<Rightarrow> out_frame" where
  "anthropicUsageFrame e = anthropicSse ''message_delta''
     [(''type'', Lit ''message_delta''), (''delta'', Some (js_object [])),
      (''usage'', Some (anthropicUsage (enc_usage e)))]"

text \<open>\<^verbatim>\<open>this.pendingStop ??= event\<close>, and the stop taken when there was none.\<close>

definition hold_stop :: "stop_reason \<Rightarrow> stream_encoder \<Rightarrow> stream_encoder" where
  "hold_stop reason e = e\<lparr>pendingStop := or_count (pendingStop e) (Some reason)\<rparr>"

definition held_stop :: "stream_encoder \<Rightarrow> stop_reason" where
  "held_stop e = (case pendingStop e of Some r \<Rightarrow> r | None \<Rightarrow> Stop_Normal)"

fun encodeAnthropic :: "canonical_event \<Rightarrow> stream_encoder \<Rightarrow> stream_encoder" where
  "encodeAnthropic (Text_Delta s _ _) e = anthropic_text s e"
| "encodeAnthropic (Tool_Call_Delta i ident name arguments kind _) e =
     anthropic_tool i ident name arguments kind e"
| "encodeAnthropic (Usage u) e =
     (let e = mergeEncoderUsage u e in if enc_stopped e then push_frame (anthropicUsageFrame e) e else e)"
| "encodeAnthropic (Stop reason _) e = hold_stop reason e"
| "encodeAnthropic (Error_Event message code kind) e =
     push_frame (anthropicSse ''error''
       [(''type'', Lit ''error''), (''error'', Some (js_object (canonicalError message code kind)))])
       (e\<lparr>enc_failed := True\<rparr>)"
| "encodeAnthropic Done e =
     (if enc_done e then e
      else if enc_failed e then e\<lparr>enc_done := True\<rparr>
      else let e = (if enc_stopped e then e else finalizeAnthropic (held_stop e) e)
           in push_frame (anthropicSse ''message_stop'' [(''type'', Lit ''message_stop'')]) (e\<lparr>enc_done := True\<rparr>))"
| "encodeAnthropic _ e = e"

section \<open>Gemini\<close>

definition or_undefined :: "js_text \<Rightarrow> json option" where
  "or_undefined s = (if s = [] then None else Some (JStr s))"

text \<open>A chunk with one candidate and the given further properties.\<close>

definition gemini_chunk ::
  "stream_encoder \<Rightarrow> json list \<Rightarrow> json option \<Rightarrow> json option \<Rightarrow> out_frame" where
  "gemini_chunk e parts reason usage = sseFrame (js_object
     [(''candidates'', Some (JArr [js_object
         [(''content'', Some (js_object [(''role'', Lit ''model''), (''parts'', Some (JArr parts))])),
          (''finishReason'', reason)]])),
      (''modelVersion'', or_undefined (enc_model e)), (''usageMetadata'', usage)])"

definition tool_label :: "nat \<Rightarrow> encoded_tool \<Rightarrow> js_text" where
  "tool_label i t = or_text (tool_name t) (or_text (tool_id t) (text_of_nat i))"

text \<open>Whether the tool is emitted; otherwise the encoding has failed.\<close>

definition emitGeminiTool :: "nat \<Rightarrow> stream_encoder \<Rightarrow> stream_encoder \<times> bool" where
  "emitGeminiTool i e =
     (let t = tool_at e i
      in if tool_emitted t then (e, True)
         else case stream_parseJsonObject (tool_arguments t) of
           None \<Rightarrow>
             let message = utf16 ''Tool call '' @ tool_label i t @ utf16 '' arguments are not a valid JSON object'';
                 code = utf16 ''invalid_tool_arguments'';
                 e = e\<lparr>enc_failed := True,
                       encodingFailure := or_count (encodingFailure e)
                         (Some (Error_Event (Some message) (Some code) (Some code)))\<rparr>
             in (push_frame (sseFrame (js_object [(''error'', Some (js_object
                   [(''message'', Txt message), (''type'', Txt code), (''code'', Txt code)]))])) e, False)
         | Some args \<Rightarrow>
             (push_frame (gemini_chunk e [js_object [(''functionCall'', Some (js_object
                   [(''id'', or_undefined (tool_id t)), (''name'', Txt (tool_name t)), (''args'', Some args)]))]]
                None None)
                (change_tool i (\<lambda>t. t\<lparr>tool_emitted := True\<rparr>) e), True))"

fun emit_gemini_tools :: "nat list \<Rightarrow> stream_encoder \<Rightarrow> stream_encoder \<times> bool" where
  "emit_gemini_tools [] e = (e, True)"
| "emit_gemini_tools (i # is) e =
     (case emitGeminiTool i e of (e, ok) \<Rightarrow> if ok then emit_gemini_tools is e else (e, False))"

definition finalizeGemini :: "stop_reason \<Rightarrow> stream_encoder \<Rightarrow> stream_encoder" where
  "finalizeGemini reason e =
     (case emit_gemini_tools (tool_indices e) e of
        (e, ok) \<Rightarrow>
          if \<not> ok then e
          else push_frame (gemini_chunk e [] (Lit (canonicalToGeminiStop reason))
                 (Some (geminiUsage (enc_usage e)))) (e\<lparr>enc_stopped := True\<rparr>))"

fun encodeGemini :: "canonical_event \<Rightarrow> stream_encoder \<Rightarrow> stream_encoder" where
  "encodeGemini (Start _ _ _) e = e\<lparr>enc_started := True\<rparr>"
| "encodeGemini (Text_Delta s _ _) e =
     push_frame (gemini_chunk e [js_object [(''text'', Txt s)]] None None) e"
| "encodeGemini (Tool_Call_Delta i ident name arguments kind _) e = updateTool i ident name arguments kind e"
| "encodeGemini (Tool_Call_Complete i) e =
     (if i \<in> set (tool_indices e) then fst (emitGeminiTool i e) else e)"
| "encodeGemini (Usage u) e =
     (let e = mergeEncoderUsage u e
      in if enc_stopped e then push_frame (sseFrame (js_object [(''usageMetadata'', Some (geminiUsage (enc_usage e)))])) e
         else e)"
| "encodeGemini (Stop reason _) e = hold_stop reason e"
| "encodeGemini (Error_Event message code kind) e =
     push_frame (sseFrame (js_object [(''error'', Some (js_object (canonicalError message code kind)))]))
       (e\<lparr>enc_failed := True\<rparr>)"
| "encodeGemini Done e =
     (if enc_done e then e
      else if enc_failed e then e\<lparr>enc_done := True\<rparr>
      else (if enc_stopped e then e else finalizeGemini (held_stop e) e)\<lparr>enc_done := True\<rparr>)"
| "encodeGemini _ e = e"

section \<open>OpenAI responses\<close>

definition responses_object ::
  "stream_encoder \<Rightarrow> string \<Rightarrow> json list \<Rightarrow> (string \<times> json option) list" where
  "responses_object e status output =
     [(''id'', Txt (enc_id e)), (''object'', Lit ''response''),
      (''created_at'', Some (JNum (double_floor (quotient (enc_createdAt e) (Num 1000))))),
      (''status'', Lit status), (''model'', Txt (enc_model e)), (''output'', Some (JArr output)),
      (''usage'', Some (responsesUsage (enc_usage e)))]"

definition responsesEnvelope :: "stream_encoder \<Rightarrow> string \<Rightarrow> json list \<Rightarrow> json" where
  "responsesEnvelope e status output = js_object (responses_object e status output)"

definition ensureResponsesStart :: "stream_encoder \<Rightarrow> stream_encoder" where
  "ensureResponsesStart e =
     (if enc_started e then e
      else push_frame (responsesSse ''response.created''
             [(''response'', Some (responsesEnvelope e ''in_progress'' []))]) (e\<lparr>enc_started := True\<rparr>))"

definition message_id :: "stream_encoder \<Rightarrow> js_text" where
  "message_id e = enc_id e @ utf16 ''_message''"

definition output_item_frame :: "string \<Rightarrow> stream_encoder \<Rightarrow> nat option \<Rightarrow> json \<Rightarrow> out_frame" where
  "output_item_frame kind e i item = responsesSse kind
     [(''response_id'', Txt (enc_id e)), (''output_index'', map_option jnat i), (''item'', Some item)]"

definition ensureResponsesTextStarted :: "stream_encoder \<Rightarrow> stream_encoder" where
  "ensureResponsesTextStarted e =
     (if responsesTextStarted e then e
      else let n = responsesNextOutputIndex e;
               e = e\<lparr>responsesTextStarted := True, responsesTextOutputIndex := Some n,
                     responsesNextOutputIndex := Suc n\<rparr>;
               e = push_frame (output_item_frame ''response.output_item.added'' e (Some n) (js_object
                     [(''id'', Txt (message_id e)), (''type'', Lit ''message''), (''status'', Lit ''in_progress''),
                      (''role'', Lit ''assistant''), (''content'', Some (JArr []))])) e
           in push_frame (responsesSse ''response.content_part.added''
                [(''response_id'', Txt (enc_id e)), (''item_id'', Txt (message_id e)),
                 (''output_index'', Some (jnat n)), (''content_index'', Some (jnat 0)),
                 (''part'', Some (js_object
                    [(''type'', Lit ''output_text''), (''text'', Lit ''''), (''annotations'', Some (JArr []))]))]) e)"

definition reserveResponsesToolOutputIndex :: "nat \<Rightarrow> stream_encoder \<Rightarrow> stream_encoder" where
  "reserveResponsesToolOutputIndex i e =
     (if tool_outputIndex (tool_at e i) \<noteq> None then e
      else let n = responsesNextOutputIndex e
           in (change_tool i (\<lambda>t. t\<lparr>tool_outputIndex := Some n\<rparr>) e)\<lparr>responsesNextOutputIndex := Suc n\<rparr>)"

definition bridged_as :: "bridge_source \<Rightarrow> encoded_tool \<Rightarrow> bool" where
  "bridged_as kind t \<longleftrightarrow> (case bridgeBinding t of None \<Rightarrow> False | Some b \<Rightarrow> tb_sourceType b = kind)"

definition custom_tool :: "encoded_tool \<Rightarrow> bool" where
  "custom_tool t \<longleftrightarrow> bridged_as Custom_Tool t \<or> tool_toolType t = Some Custom_Tool_Call"

definition bridged_name :: "encoded_tool \<Rightarrow> js_text" where
  "bridged_name t = (case bridgeBinding t of None \<Rightarrow> tool_name t | Some b \<Rightarrow> tb_sourceName b)"

text \<open>The item of a tool call with a status and its input or arguments.\<close>

definition responses_tool_item :: "encoded_tool \<Rightarrow> string \<Rightarrow> js_text \<Rightarrow> json" where
  "responses_tool_item t status streamed =
     (let itemId = (case tool_itemId t of None \<Rightarrow> [] | Some s \<Rightarrow> s);
          call_id = or_text (tool_id t) itemId
      in if bridged_as Search_Tool t
         then js_object
           [(''id'', map_option JStr (tool_itemId t)), (''type'', Lit ''tool_search_call''), (''status'', Lit status),
            (''execution'', Lit ''client''), (''call_id'', Txt call_id), (''arguments'', toolSearchArguments t)]
         else if custom_tool t
         then js_object
           [(''id'', map_option JStr (tool_itemId t)), (''type'', Lit ''custom_tool_call''), (''status'', Lit status),
            (''call_id'', Txt call_id), (''name'', Txt (bridged_name t)), (''input'', Txt streamed)]
         else js_object
           [(''id'', map_option JStr (tool_itemId t)), (''type'', Lit ''function_call''), (''status'', Lit status),
            (''call_id'', Txt call_id), (''name'', Txt (bridged_name t)),
            (''namespace'', map_option JStr (case bridgeBinding t of
               None \<Rightarrow> None | Some b \<Rightarrow> nonempty_text (tb_sourceNamespace b))),
            (''arguments'', Txt streamed)])"

definition ensureResponsesToolStarted :: "bool \<Rightarrow> nat \<Rightarrow> stream_encoder \<Rightarrow> stream_encoder" where
  "ensureResponsesToolStarted force i e =
     (let t = tool_at e i
      in if tool_started t \<or> \<not> force \<and> tool_name t = [] then e
         else let e = change_tool i (\<lambda>t. t\<lparr>tool_started := True\<rparr>) e;
                  e = reserveResponsesToolOutputIndex i e;
                  e = change_tool i (\<lambda>t. t\<lparr>tool_itemId := Some (enc_id e
                    @ utf16 (if bridged_as Search_Tool t then ''_tsc_'' else ''_fc_'') @ text_of_nat i)\<rparr>) e;
                  t = tool_at e i
              in push_frame (output_item_frame ''response.output_item.added'' e (tool_outputIndex t)
                   (responses_tool_item t ''in_progress'' [])) e)"

text \<open>A frame about the input or the arguments of a tool.\<close>

definition tool_stream_frame :: "string \<Rightarrow> string \<Rightarrow> stream_encoder \<Rightarrow> encoded_tool \<Rightarrow> js_text \<Rightarrow> out_frame" where
  "tool_stream_frame kind property_name e t s = responsesSse kind
     [(''response_id'', Txt (enc_id e)), (''item_id'', map_option JStr (tool_itemId t)),
      (''output_index'', map_option jnat (tool_outputIndex t)), (property_name, Txt s)]"

definition delta_kind :: "encoded_tool \<Rightarrow> string" where
  "delta_kind t = (if custom_tool t then ''response.custom_tool_call_input.delta''
                   else ''response.function_call_arguments.delta'')"

definition done_kind :: "encoded_tool \<Rightarrow> string" where
  "done_kind t = (if custom_tool t then ''response.custom_tool_call_input.done''
                  else ''response.function_call_arguments.done'')"

definition responses_text :: "js_text \<Rightarrow> nat option \<Rightarrow> stream_encoder \<Rightarrow> stream_encoder" where
  "responses_text s index e =
     (let e = ensureResponsesTextStarted (ensureResponsesStart e);
          e = e\<lparr>responsesText := responsesText e @ s,
                responsesTextSourceIndices := (case index of
                    None \<Rightarrow> responsesTextSourceIndices e
                  | Some i \<Rightarrow> List.insert i (responsesTextSourceIndices e))\<rparr>
      in push_frame (responsesSse ''response.output_text.delta''
        [(''response_id'', Txt (enc_id e)), (''item_id'', Txt (message_id e)),
         (''output_index'', map_option jnat (responsesTextOutputIndex e)),
         (''content_index'', Some (jnat 0)), (''delta'', Txt s)]) e)"

definition responses_tool ::
  "nat \<Rightarrow> js_text option \<Rightarrow> js_text option \<Rightarrow> js_text option \<Rightarrow> tool_type option \<Rightarrow> stream_encoder \<Rightarrow> stream_encoder"
  where
  "responses_tool i ident name arguments kind e =
     (let e = updateTool i ident name arguments kind (ensureResponsesStart e);
          e = reserveResponsesToolOutputIndex i e
      in if enc_toolBridgePlan e \<noteq> None \<or> enc_sanitize e then e
         else let wasStarted = tool_started (tool_at e i);
                  e = ensureResponsesToolStarted False i e;
                  t = tool_at e i
              in case arguments of
                   Some s \<Rightarrow>
                     let delta = (if wasStarted then s else pending_arguments t)
                     in if tool_started t \<and> delta \<noteq> []
                        then change_tool i (\<lambda>t. t\<lparr>emittedArguments := length (tool_arguments t)\<rparr>)
                          (push_frame (tool_stream_frame (delta_kind t) ''delta'' e t delta) e)
                        else e
                 | None \<Rightarrow> e)"

text \<open>\<^verbatim>\<open>output[n] = item\<close>: the places left out are holes, which print as \<^verbatim>\<open>null\<close>.\<close>

definition array_set :: "json list \<Rightarrow> nat \<Rightarrow> json \<Rightarrow> json list" where
  "array_set vs n v =
     (if n < length vs then vs[n := v] else vs @ replicate (n - length vs) JNull @ [v])"

definition incomplete_reason :: "stop_reason \<Rightarrow> string option" where
  "incomplete_reason r = (case r of Stop_Length \<Rightarrow> Some ''max_output_tokens''
     | Stop_Content_Filter \<Rightarrow> Some ''content_filter'' | _ \<Rightarrow> None)"

definition item_status :: "stop_reason \<Rightarrow> string" where
  "item_status r = (if incomplete_reason r = None then ''completed'' else ''incomplete'')"

definition close_responses_text :: "stop_reason \<Rightarrow> stream_encoder \<Rightarrow> stream_encoder \<times> json list" where
  "close_responses_text reason e =
     (if \<not> responsesTextStarted e then (e, [])
      else let allSourceMessagesCompleted = (responsesTextSourceIndices e \<noteq> []
                 \<and> list_all (\<lambda>i. i \<in> set (responsesCompletedMessageIndices e)) (responsesTextSourceIndices e));
               item = js_object
                 [(''id'', Txt (message_id e)), (''type'', Lit ''message''),
                  (''status'', Lit (if allSourceMessagesCompleted then ''completed'' else item_status reason)),
                  (''role'', Lit ''assistant''),
                  (''content'', Some (JArr [js_object
                     [(''type'', Lit ''output_text''), (''text'', Txt (responsesText e)),
                      (''annotations'', Some (JArr []))]]))];
               e = push_frame (responsesSse ''response.output_text.done''
                 [(''response_id'', Txt (enc_id e)), (''item_id'', Txt (message_id e)),
                  (''output_index'', map_option jnat (responsesTextOutputIndex e)),
                  (''content_index'', Some (jnat 0)), (''text'', Txt (responsesText e))]) e;
               e = push_frame (output_item_frame ''response.output_item.done'' e (responsesTextOutputIndex e) item) e
           in (e, array_set [] (case responsesTextOutputIndex e of Some n \<Rightarrow> n | None \<Rightarrow> 0) item))"

definition streamed_value :: "stream_encoder \<Rightarrow> encoded_tool \<Rightarrow> js_text" where
  "streamed_value e t =
     (let raw = (if custom_tool t then (case customInput t of Some s \<Rightarrow> s | None \<Rightarrow> tool_arguments t)
                 else tool_arguments t)
      in if enc_sanitize e then sanitizeDeepSeekHarnessToolArguments raw else raw)"

definition close_responses_tool ::
  "stop_reason \<Rightarrow> stream_encoder \<times> json list \<Rightarrow> nat \<Rightarrow> stream_encoder \<times> json list" where
  "close_responses_tool reason = (\<lambda>(e, output) i.
     (let e = ensureResponsesToolStarted True i e;
          t = tool_at e i;
          toolSearch = bridged_as Search_Tool t;
          streamed = streamed_value e t;
          e = (if \<not> toolSearch \<and> emittedArguments t < length streamed
               then change_tool i (\<lambda>t. t\<lparr>emittedArguments := length streamed\<rparr>)
                 (push_frame (tool_stream_frame (delta_kind t) ''delta'' e t (drop (emittedArguments t) streamed)) e)
               else e);
          item = responses_tool_item t (if tool_completed t then ''completed'' else item_status reason) streamed;
          e = (if toolSearch then e
               else push_frame (tool_stream_frame (done_kind t) (if custom_tool t then ''input'' else ''arguments'')
                 e t streamed) e);
          e = push_frame (output_item_frame ''response.output_item.done'' e (tool_outputIndex t) item) e
      in (e, array_set output (case tool_outputIndex t of Some n \<Rightarrow> n | None \<Rightarrow> length output) item)))"

definition closeResponsesOutput :: "stop_reason \<Rightarrow> stream_encoder \<Rightarrow> stream_encoder" where
  "closeResponsesOutput reason e =
     (case foldl (close_responses_tool reason) (close_responses_text reason e) (tool_indices e) of
        (e, output) \<Rightarrow>
          (case incomplete_reason reason of
             None \<Rightarrow> push_frame (responsesSse ''response.completed''
                 [(''response'', Some (responsesEnvelope e ''completed'' output))]) e
           | Some why \<Rightarrow> push_frame (responsesSse ''response.incomplete''
                 [(''response'', Some (js_object (responses_object e ''incomplete'' output @
                    [(''incomplete_details'', Some (js_object [(''reason'', Lit why)]))])))]) e))"

definition responses_error ::
  "js_text option \<Rightarrow> js_text option \<Rightarrow> js_text option \<Rightarrow> stream_encoder \<Rightarrow> stream_encoder" where
  "responses_error message code kind e =
     (let e = e\<lparr>enc_failed := True\<rparr>;
          emitFailure = (\<not> responsesFailureEmitted e);
          e = (if emitFailure then ensureResponsesStart e else e);
          e = push_frame (responsesSse ''error''
                [(''message'', map_option JStr message), (''code'', map_option JStr code),
                 (''error_type'', map_option JStr kind)]) e
      in if emitFailure
         then (push_frame (responsesSse ''response.failed''
                 [(''response'', Some (js_object (responses_object e ''failed'' [] @
                    [(''error'', Some (js_object (canonicalError message code kind)))])))]) e)
                \<lparr>responsesFailureEmitted := True\<rparr>
         else e)"

subsection \<open>The tool bridge\<close>

text \<open>The declared tools by their names on the wire, \<^const>\<open>None\<close> when two share one.\<close>

fun declared_aliases :: "tool_binding list \<Rightarrow> (js_text \<times> tool_binding) list \<Rightarrow> (js_text \<times> tool_binding) list option" where
  "declared_aliases [] aliases = Some aliases"
| "declared_aliases (b # bs) aliases =
     (if \<not> binding_declared b then declared_aliases bs aliases
      else if tb_wireName b \<in> set (map fst aliases) then None
      else declared_aliases bs (aliases @ [(tb_wireName b, b)]))"

text \<open>A failure of the bridge: its message and its code.\<close>

type_synonym bridge_failure = "js_text \<times> string"

definition resolve_bridged ::
  "tool_bridge_plan \<Rightarrow> (js_text \<times> tool_binding) list \<Rightarrow> js_text \<Rightarrow> bridge_failure + tool_binding" where
  "resolve_bridged plan aliases name =
     (case map_of aliases name of
        Some b \<Rightarrow> Inr b
      | None \<Rightarrow>
          (case (if deepseek_dialect plan then resolveDeepSeekToolBinding plan name else Inr None) of
             Inl e \<Rightarrow> Inl (dsml_message e, ''invalid_deferred_tool'')
           | Inr None \<Rightarrow>
               Inl (utf16 ''Upstream returned a tool that was not declared by the current request'', ''unknown_tool_alias'')
           | Inr (Some b) \<Rightarrow> Inr b))"

text \<open>The raw input of a call of a custom tool.\<close>

definition bridged_input :: "tool_binding \<Rightarrow> encoded_tool \<Rightarrow> bridge_failure + js_text" where
  "bridged_input b t =
     (let parsed = objectValue (stream_parseJsonObject (tool_arguments t));
          native = (tool_toolType t = Some Custom_Tool_Call)
      in case nonempty_text (tb_deferredToolName b) of
           Some deferred \<Rightarrow>
             (case (if parsed = None \<and> native then Some [(utf16 ''input'', JStr (tool_arguments t))] else parsed) of
                None \<Rightarrow>
                  Inl (utf16 ''Deferred Codex tool arguments must be a JSON object'', ''invalid_deferred_tool_arguments'')
              | Some args \<Rightarrow>
                  (case deepSeekDeferredToolExecInput deferred args of
                     Inl e \<Rightarrow> Inl (dsml_message e, ''invalid_deferred_tool'')
                   | Inr s \<Rightarrow> Inr s))
         | None \<Rightarrow>
             if native then Inr (tool_arguments t)
             else (case parsed of
                 Some args \<Rightarrow>
                   (case obj_get args ''input'' of
                      Some (JStr s) \<Rightarrow>
                        if set (map fst args) \<subseteq> {utf16 ''input''} then Inr s
                        else Inl (utf16 ''Upstream custom tool arguments must be exactly { input: string }'',
                          ''invalid_custom_tool_arguments'')
                    | _ \<Rightarrow> Inl (utf16 ''Upstream custom tool arguments must be exactly { input: string }'',
                        ''invalid_custom_tool_arguments''))
               | None \<Rightarrow> Inl (utf16 ''Upstream custom tool arguments must be exactly { input: string }'',
                   ''invalid_custom_tool_arguments'')))"

text \<open>One tool: its binding and what it restores of the arguments.\<close>

definition bridge_tool ::
  "tool_bridge_plan \<Rightarrow> (js_text \<times> tool_binding) list \<Rightarrow> js_text list \<Rightarrow> encoded_tool \<Rightarrow> bridge_failure option \<times> encoded_tool"
  where
  "bridge_tool plan aliases usedCallIds t =
     (case resolve_bridged plan aliases (tool_name t) of
        Inl f \<Rightarrow> (Some f, t)
      | Inr b \<Rightarrow>
          if tool_id t = []
          then (Some (utf16 ''Upstream returned a tool call without an id'', ''missing_tool_call_id''), t)
          else if tool_id t \<in> set usedCallIds
          then (Some (utf16 ''Upstream returned a duplicate tool call id'', ''duplicate_tool_call_id''), t)
          else let t = t\<lparr>bridgeBinding := Some b\<rparr>
               in case tb_sourceType b of
                    Search_Tool \<Rightarrow>
                      (case parseToolSearchArguments (tool_arguments t) of
                         Inl e \<Rightarrow> (Some (dsml_message e, ''invalid_tool_search_arguments''), t)
                       | Inr args \<Rightarrow> (None, t\<lparr>toolSearchArguments := Some args\<rparr>))
                  | Custom_Tool \<Rightarrow>
                      (case bridged_input b t of
                         Inl f \<Rightarrow> (Some f, t)
                       | Inr s \<Rightarrow> (None, t\<lparr>customInput := Some s\<rparr>))
                  | Function_Tool \<Rightarrow> (None, t))"

definition failResponsesToolBridge :: "bridge_failure \<Rightarrow> stream_encoder \<Rightarrow> stream_encoder" where
  "failResponsesToolBridge = (\<lambda>(message, code) e.
     push_frame (responsesSse ''error''
         [(''message'', Txt message), (''error_type'', Lit ''invalid_tool_bridge''), (''code'', Lit code)])
       (e\<lparr>enc_failed := True,
          encodingFailure := (case encodingFailure e of
              Some ev \<Rightarrow> Some ev
            | None \<Rightarrow> Some (Error_Event (Some message) (Some (utf16 code)) (Some (utf16 ''invalid_tool_bridge''))))\<rparr>))"

fun bridge_tools ::
  "tool_bridge_plan \<Rightarrow> (js_text \<times> tool_binding) list \<Rightarrow> js_text list \<Rightarrow> nat list \<Rightarrow> stream_encoder \<Rightarrow> stream_encoder \<times> bool"
  where
  "bridge_tools plan aliases usedCallIds [] e = (e, True)"
| "bridge_tools plan aliases usedCallIds (i # is) e =
     (case bridge_tool plan aliases usedCallIds (tool_at e i) of
        (failure, t) \<Rightarrow>
          let e = change_tool i (\<lambda>_. t) e
          in case failure of
               Some f \<Rightarrow> (failResponsesToolBridge f e, False)
             | None \<Rightarrow> bridge_tools plan aliases (tool_id t # usedCallIds) is e)"

definition prepareResponsesToolBridge :: "stream_encoder \<Rightarrow> stream_encoder \<times> bool" where
  "prepareResponsesToolBridge e =
     (case enc_toolBridgePlan e of
        None \<Rightarrow> (e, True)
      | Some plan \<Rightarrow>
          if enc_protocol e \<noteq> Openai_Responses then (e, True)
          else if plan_dialect plan \<noteq> Deepseek_Dsml \<and> plan_parallelToolCalls plan = Some False
            \<and> 1 < length (enc_tools e)
          then (failResponsesToolBridge
             (utf16 ''Upstream returned parallel tool calls when parallel tool calls were disabled'',
              ''invalid_tool_bridge'') e, False)
          else (case declared_aliases (plan_tools plan) [] of
              None \<Rightarrow> (failResponsesToolBridge
                (utf16 ''The current request contains an ambiguous tool alias'', ''duplicate_tool_alias'') e, False)
            | Some aliases \<Rightarrow>
                bridge_tools plan aliases (map tcb_callId (plan_calls plan)) (tool_indices e) e))"

fun encodeOpenAiResponses :: "canonical_event \<Rightarrow> stream_encoder \<Rightarrow> stream_encoder" where
  "encodeOpenAiResponses (Start _ _ _) e = ensureResponsesStart e"
| "encodeOpenAiResponses (Text_Delta s index _) e = responses_text s index e"
| "encodeOpenAiResponses (Tool_Call_Delta i ident name arguments kind _) e =
     responses_tool i ident name arguments kind e"
| "encodeOpenAiResponses (Tool_Call_Complete i) e = complete_tool i e"
| "encodeOpenAiResponses (Message_Complete i) e =
     e\<lparr>responsesCompletedMessageIndices := List.insert i (responsesCompletedMessageIndices e)\<rparr>"
| "encodeOpenAiResponses (Usage u) e = mergeEncoderUsage u e"
| "encodeOpenAiResponses (Stop reason _) e = hold_stop reason e"
| "encodeOpenAiResponses (Error_Event message code kind) e = responses_error message code kind e"
| "encodeOpenAiResponses Done e =
     (if enc_done e then e
      else if enc_failed e then e\<lparr>enc_done := True\<rparr>
      else (if enc_stopped e then e
            else case prepareResponsesToolBridge (ensureResponsesStart e) of
                (e, ok) \<Rightarrow> if ok then (closeResponsesOutput (held_stop e) e)\<lparr>enc_stopped := True\<rparr> else e)
             \<lparr>enc_done := True\<rparr>)"
| "encodeOpenAiResponses Reasoning_Progress e = e"

section \<open>Encoding\<close>

fun note_start :: "canonical_event \<Rightarrow> stream_encoder \<Rightarrow> stream_encoder" where
  "note_start (Start ident model createdAt) e =
     e\<lparr>enc_id := (case ident of Some s \<Rightarrow> or_text s (enc_id e) | None \<Rightarrow> enc_id e),
       enc_model := (case model of Some s \<Rightarrow> or_text s (enc_model e) | None \<Rightarrow> enc_model e),
       enc_createdAt := (case createdAt of Some x \<Rightarrow> x | None \<Rightarrow> enc_createdAt e)\<rparr>"
| "note_start _ e = e"

definition encode_event :: "canonical_event \<Rightarrow> stream_encoder \<Rightarrow> stream_encoder" where
  "encode_event ev e =
     (case enc_protocol e of
        Openai_Chat \<Rightarrow> encodeOpenAiChat ev e
      | Openai_Responses \<Rightarrow> encodeOpenAiResponses ev e
      | Anthropic_Messages \<Rightarrow> encodeAnthropic ev e
      | Gemini \<Rightarrow> encodeGemini ev e
      | Kiro_Claude \<Rightarrow> e)"

definition drainEncoderFrames :: "stream_encoder \<Rightarrow> stream_encoder \<times> out_frame list" where
  "drainEncoderFrames e = (e\<lparr>enc_frames := []\<rparr>, enc_frames e)"

text \<open>\<^const>\<open>None\<close> is the error thrown for the protocol of the dedicated bridge.\<close>

definition encode :: "stream_encoder \<Rightarrow> canonical_event \<Rightarrow> (stream_encoder \<times> out_frame list) option" where
  "encode e ev =
     (if enc_done e then Some (e, [])
      else if enc_protocol e = Kiro_Claude then None
      else Some (drainEncoderFrames (encode_event ev (note_start ev e))))"

definition finish_encoder :: "stream_encoder \<Rightarrow> (stream_encoder \<times> out_frame list) option" where
  "finish_encoder e = (if \<not> enc_done e then encode e Done else Some (drainEncoderFrames e))"

text \<open>What a transform writes for a stream of events: the frames of every event, then of \<open>finish\<close>.\<close>

fun encode_all :: "stream_encoder \<Rightarrow> canonical_event list \<Rightarrow> (stream_encoder \<times> out_frame list) option" where
  "encode_all e [] = finish_encoder e"
| "encode_all e (ev # evs) =
     (case encode e ev of
        None \<Rightarrow> None
      | Some (e, fs) \<Rightarrow> map_option (\<lambda>(e, gs). (e, fs @ gs)) (encode_all e evs))"

end
