(* ===== verification/Text_Coding.thy ===== *)
theory Text_Coding
  imports Canonical_Events
begin

text \<open>
  The streaming \<^verbatim>\<open>TextDecoder\<close> and the \<^verbatim>\<open>TextEncoder\<close> that \<^verbatim>\<open>src/main/gateway/streaming.ts\<close> puts between
  bytes and text: UTF-8 as the Encoding Standard decodes it, with U+FFFD for what is malformed and without
  a leading byte order mark, and what decoding does to encoded text.
\<close>

section \<open>Decoding\<close>

record text_decoder =
  dec_point :: nat
  dec_missing :: nat
  dec_lower :: nat
  dec_upper :: nat
  dec_begun :: bool

definition new_text_decoder :: text_decoder where
  "new_text_decoder = \<lparr>dec_point = 0, dec_missing = 0, dec_lower = 0x80, dec_upper = 0xBF, dec_begun = False\<rparr>"

text \<open>The decoder between two code points, and its code points for a byte there.\<close>

definition decoder_rest :: "text_decoder \<Rightarrow> text_decoder" where
  "decoder_rest d = d\<lparr>dec_point := 0, dec_missing := 0, dec_lower := 0x80, dec_upper := 0xBF\<rparr>"

definition lead_byte :: "text_decoder \<Rightarrow> nat \<Rightarrow> text_decoder \<times> nat list" where
  "lead_byte d b =
     (if b < 0x80 then (d, [b])
      else if 0xC2 \<le> b \<and> b \<le> 0xDF then (d\<lparr>dec_point := b - 0xC0, dec_missing := 1\<rparr>, [])
      else if 0xE0 \<le> b \<and> b \<le> 0xEF then
        (d\<lparr>dec_point := b - 0xE0, dec_missing := 2, dec_lower := (if b = 0xE0 then 0xA0 else 0x80),
           dec_upper := (if b = 0xED then 0x9F else 0xBF)\<rparr>, [])
      else if 0xF0 \<le> b \<and> b \<le> 0xF4 then
        (d\<lparr>dec_point := b - 0xF0, dec_missing := 3, dec_lower := (if b = 0xF0 then 0x90 else 0x80),
           dec_upper := (if b = 0xF4 then 0x8F else 0xBF)\<rparr>, [])
      else (d, [0xFFFD]))"

definition decode_byte :: "text_decoder \<Rightarrow> nat \<Rightarrow> text_decoder \<times> nat list" where
  "decode_byte d b =
     (if dec_missing d = 0 then lead_byte d b
      else if \<not> cont (dec_lower d) (dec_upper d) b
      then (case lead_byte (decoder_rest d) b of (d, ps) \<Rightarrow> (d, 0xFFFD # ps))
      else let p = dec_point d * 64 + (b - 0x80)
           in if dec_missing d = 1 then (decoder_rest d, [p])
              else (d\<lparr>dec_point := p, dec_missing := dec_missing d - 1, dec_lower := 0x80, dec_upper := 0xBF\<rparr>, []))"

fun decode_points :: "text_decoder \<Rightarrow> nat list \<Rightarrow> text_decoder \<times> nat list" where
  "decode_points d [] = (d, [])"
| "decode_points d (b # bs) =
     (case decode_byte d b of (d, ps) \<Rightarrow> (case decode_points d bs of (d, qs) \<Rightarrow> (d, ps @ qs)))"

text \<open>The first code point is dropped when it is the byte order mark.\<close>

definition decoded_text :: "text_decoder \<Rightarrow> nat list \<Rightarrow> text_decoder \<times> js_text" where
  "decoded_text d ps =
     (if ps = [] then (d, [])
      else (d\<lparr>dec_begun := True\<rparr>,
            concat (map point_units (if \<not> dec_begun d \<and> hd ps = 0xFEFF then tl ps else ps))))"

text \<open>\<^verbatim>\<open>decode(chunk, { stream: true })\<close> and \<^verbatim>\<open>decode()\<close>.\<close>

definition decode_chunk :: "text_decoder \<Rightarrow> byte list \<Rightarrow> text_decoder \<times> js_text" where
  "decode_chunk d chunk = (case decode_points d (map unat chunk) of (d, ps) \<Rightarrow> decoded_text d ps)"

definition decode_end :: "text_decoder \<Rightarrow> js_text" where
  "decode_end d = (if dec_missing d = 0 then [] else [0xFFFD])"

section \<open>Encoding\<close>

definition point_bytes :: "nat \<Rightarrow> nat list" where
  "point_bytes p =
     (if p < 0x80 then [p]
      else if p < 0x800 then [0xC0 + p div 64, 0x80 + p mod 64]
      else if p < 0x10000 then [0xE0 + p div 4096, 0x80 + p div 64 mod 64, 0x80 + p mod 64]
      else [0xF0 + p div 262144, 0x80 + p div 4096 mod 64, 0x80 + p div 64 mod 64, 0x80 + p mod 64])"

text \<open>The code points of a text; an unpaired surrogate becomes U+FFFD.\<close>

fun text_points :: "js_text \<Rightarrow> nat list" where
  "text_points [] = []"
| "text_points (u # s) =
     (if high_surrogate u then
        (case s of
           v # r \<Rightarrow> if low_surrogate v then (0x10000 + (u - 0xD800) * 1024 + (v - 0xDC00)) # text_points r
                   else 0xFFFD # text_points s
         | [] \<Rightarrow> [0xFFFD])
      else if low_surrogate u then 0xFFFD # text_points s
      else u # text_points s)"

definition utf8_encode :: "js_text \<Rightarrow> byte list" where
  "utf8_encode s = map of_nat (concat (map point_bytes (text_points s)))"

section \<open>Decoding encoded text\<close>

lemma decode_points_append:
  "decode_points d (bs @ cs) =
    (case decode_points d bs of (d, ps) \<Rightarrow> (case decode_points d cs of (d, qs) \<Rightarrow> (d, ps @ qs)))"
  by (induction bs arbitrary: d) (simp_all split: prod.split)

text \<open>Scalar values: what a text without unpaired surrogates is made of.\<close>

definition scalar_value :: "nat \<Rightarrow> bool" where
  "scalar_value p \<longleftrightarrow> p < 0xD800 \<or> 0xDFFF < p \<and> p < 0x110000"

definition resting :: "text_decoder \<Rightarrow> bool" where
  "resting d \<longleftrightarrow> dec_missing d = 0 \<and> dec_lower d = 0x80 \<and> dec_upper d = 0xBF \<and> dec_point d = 0"

lemma rest_resting: "resting d \<Longrightarrow> decoder_rest d = d" "resting (decoder_rest d)"
  by (simp_all add: resting_def decoder_rest_def)

lemma rest_changed [simp]:
  "decoder_rest (d\<lparr>dec_point := p\<rparr>) = decoder_rest d" "decoder_rest (d\<lparr>dec_missing := n\<rparr>) = decoder_rest d"
  "decoder_rest (d\<lparr>dec_lower := l\<rparr>) = decoder_rest d" "decoder_rest (d\<lparr>dec_upper := u\<rparr>) = decoder_rest d"
  by (simp_all add: decoder_rest_def)

lemma base64_digits:
  fixes p :: nat
  shows "p = p div 4096 * 4096 + p div 64 mod 64 * 64 + p mod 64"
    "p = p div 262144 * 262144 + p div 4096 mod 64 * 4096 + p div 64 mod 64 * 64 + p mod 64"
proof -
  have a: "p = p div 64 * 64 + p mod 64" for p :: nat by simp
  have "p div 4096 = p div 64 div 64" "p div 262144 = p div 4096 div 64" by (simp_all flip: div_mult2_eq)
  then have "p div 64 = p div 4096 * 64 + p div 64 mod 64" "p div 4096 = p div 262144 * 64 + p div 4096 mod 64"
    using a [of "p div 64"] a [of "p div 4096"] by simp_all
  then show "p = p div 4096 * 4096 + p div 64 mod 64 * 64 + p mod 64"
    "p = p div 262144 * 262144 + p div 4096 mod 64 * 4096 + p div 64 mod 64 * 64 + p mod 64"
    using a [of p] by linarith+
qed

lemma decode_point:
  assumes "scalar_value p" "resting d"
  shows "decode_points d (point_bytes p) = (d, [p])"
proof -
  have d: "dec_missing d = 0" "dec_lower d = 0x80" "dec_upper d = 0xBF" "decoder_rest d = d"
    using assms(2) rest_resting(1) by (simp_all add: resting_def)
  consider "p < 0x80" | "0x80 \<le> p" "p < 0x800" | "0x800 \<le> p" "p < 0x10000" | "0x10000 \<le> p" by linarith
  then show ?thesis
  proof cases
    case 1
    then show ?thesis using d by (simp add: point_bytes_def decode_byte_def lead_byte_def)
  next
    case 2
    define a b where "a = p div 64" "b = p mod 64"
    then have "p = a * 64 + b" "b < 64" "2 \<le> a" "a < 32" using 2 by simp_all
    then show ?thesis
      using d 2 unfolding point_bytes_def a_b_def [symmetric]
      by (auto simp: decode_byte_def lead_byte_def cont_def Let_def)
  next
    case 3
    define a b c where "a = p div 4096" "b = p div 64 mod 64" "c = p mod 64"
    have p: "p = a * 4096 + b * 64 + c" using base64_digits(1) [of p] by (simp only: a_b_c_def)
    have small: "b < 64" "c < 64" "a < 16" using 3 by (simp_all add: a_b_c_def)
    have "a = 0 \<longrightarrow> 32 \<le> b" using p small 3 by auto
    moreover have "a = 13 \<longrightarrow> b < 32" using p small assms(1) 3 by (auto simp: scalar_value_def)
    ultimately show ?thesis
      using d 3 p small unfolding point_bytes_def a_b_c_def [symmetric]
      by (auto simp: decode_byte_def lead_byte_def cont_def Let_def)
  next
    case 4
    define a b c e where "a = p div 262144" "b = p div 4096 mod 64" "c = p div 64 mod 64" "e = p mod 64"
    have p: "p = a * 262144 + b * 4096 + c * 64 + e" using base64_digits(2) [of p] by (simp only: a_b_c_e_def)
    have small: "b < 64" "c < 64" "e < 64" by (simp_all add: a_b_c_e_def)
    have a: "a \<le> 4" "a = 0 \<longrightarrow> 16 \<le> b" "a = 4 \<longrightarrow> b < 16" using p small assms(1) 4 by (auto simp: scalar_value_def)
    show ?thesis
      using d 4 p small a unfolding point_bytes_def a_b_c_e_def [symmetric]
      by (auto simp: decode_byte_def lead_byte_def cont_def Let_def)
  qed
qed

lemma decode_all_points:
  "list_all scalar_value ps \<Longrightarrow> resting d \<Longrightarrow> decode_points d (concat (map point_bytes ps)) = (d, ps)"
  by (induction ps) (simp_all add: decode_points_append decode_point)

text \<open>A text that can be written as UTF-8.\<close>

fun well_paired :: "js_text \<Rightarrow> bool" where
  "well_paired [] = True"
| "well_paired (u # s) =
     (if high_surrogate u then (case s of [] \<Rightarrow> False | v # r \<Rightarrow> low_surrogate v \<and> well_paired r)
      else \<not> low_surrogate u \<and> u < 0x10000 \<and> well_paired s)"

lemma surrogate_pair:
  assumes "high_surrogate u" "low_surrogate v"
  obtains a b where "u = 0xD800 + a" "v = 0xDC00 + b" "a < 1024" "b < 1024"
proof
  show "u = 0xD800 + (u - 0xD800)" "v = 0xDC00 + (v - 0xDC00)" "u - 0xD800 < 1024" "v - 0xDC00 < 1024"
    using assms by (auto simp: high_surrogate_def low_surrogate_def)
qed

lemma points_of_text:
  "well_paired s \<Longrightarrow> list_all scalar_value (text_points s) \<and> concat (map point_units (text_points s)) = s"
proof (induction s rule: well_paired.induct)
  case (2 u s)
  show ?case
  proof (cases "high_surrogate u")
    case True
    then obtain v r where s: "s = v # r" "low_surrogate v" "well_paired r" using "2.prems" by (auto split: list.splits)
    obtain a b where p: "u = 0xD800 + a" "v = 0xDC00 + b" "a < 1024" "b < 1024"
      using surrogate_pair [OF True s(2)] .
    let ?p = "0x10000 + a * 1024 + b"
    have "scalar_value ?p" "point_units ?p = [u, v]" using p by (simp_all add: scalar_value_def point_units_def)
    moreover have "text_points (u # s) = ?p # text_points r" using True s(1,2) p by simp
    ultimately show ?thesis using "2.IH"(1) [OF True s(1)] s by simp
  next
    case False
    then have u: "\<not> low_surrogate u" "u < 0x10000" "well_paired s" using "2.prems" by simp_all
    then have "scalar_value u" "point_units u = [u]"
      using False by (auto simp: scalar_value_def point_units_def high_surrogate_def low_surrogate_def)
    then show ?thesis using "2.IH"(2) [OF False u(3)] u(1) False by simp
  qed
qed simp

lemmas points_scalar = points_of_text [THEN conjunct1]
lemmas points_units = points_of_text [THEN conjunct2]

lemma point_bytes_small: "p < 0x110000 \<Longrightarrow> b \<in> set (point_bytes p) \<Longrightarrow> b < 256"
  by (auto simp: point_bytes_def split: if_splits)

lemma scalar_small: "scalar_value p \<Longrightarrow> p < 0x110000"
  by (auto simp: scalar_value_def)

lemma encoded_values:
  assumes "well_paired s"
  shows "map unat (utf8_encode s) = concat (map point_bytes (text_points s))"
proof -
  have "map (\<lambda>b. unat (of_nat b :: byte)) bs = bs" if "\<forall>b \<in> set bs. b < 256" for bs
    using that by (induction bs) (simp_all add: unat_of_nat)
  moreover have "\<forall>b \<in> set (concat (map point_bytes (text_points s))). b < 256"
    using points_scalar [OF assms] scalar_small point_bytes_small by (fastforce simp: list_all_iff)
  ultimately show ?thesis by (simp add: utf8_encode_def comp_def)
qed

text \<open>Texts decoded chunk by chunk.\<close>

fun decode_chunks :: "text_decoder \<Rightarrow> byte list list \<Rightarrow> text_decoder \<times> js_text list" where
  "decode_chunks d [] = (d, [])"
| "decode_chunks d (c # cs) =
     (case decode_chunk d c of (d, s) \<Rightarrow> (case decode_chunks d cs of (d, ss) \<Rightarrow> (d, s # ss)))"

lemma begun_points: "decode_points (d\<lparr>dec_begun := x\<rparr>) bs = (case decode_points d bs of (d, ps) \<Rightarrow> (d\<lparr>dec_begun := x\<rparr>, ps))"
proof (induction bs arbitrary: d)
  case (Cons b bs)
  have "decode_byte (d\<lparr>dec_begun := x\<rparr>) b = (case decode_byte d b of (d, ps) \<Rightarrow> (d\<lparr>dec_begun := x\<rparr>, ps))"
    by (simp add: decode_byte_def lead_byte_def decoder_rest_def Let_def)
  then show ?case using Cons.IH by (simp split: prod.split)
qed simp

lemma decode_points_begun: "decode_points d bs = (d', ps) \<Longrightarrow> dec_begun d' = dec_begun d"
proof (induction bs arbitrary: d ps)
  case (Cons b bs)
  have "dec_begun (fst (decode_byte d b)) = dec_begun d"
    by (simp add: decode_byte_def lead_byte_def decoder_rest_def Let_def)
  with Cons show ?case by (fastforce split: prod.splits)
qed simp

lemma chunk_append:
  "decode_chunk d (b @ c) =
    (case decode_chunk d b of (d, s) \<Rightarrow> (case decode_chunk d c of (d, t) \<Rightarrow> (d, s @ t)))"
proof -
  obtain d1 ps where 1: "decode_points d (map unat b) = (d1, ps)" by fastforce
  obtain d2 qs where 2: "decode_points d1 (map unat c) = (d2, qs)" by fastforce
  have begun: "dec_begun d1 = dec_begun d" "dec_begun d2 = dec_begun d"
    using decode_points_begun [OF 1] decode_points_begun [OF 2] by simp_all
  show ?thesis
    using 1 2 begun begun_points [of True d1 "map unat c"]
    by (cases ps; cases qs) (simp_all add: decode_chunk_def decode_points_append decoded_text_def)
qed

lemma decode_chunks_concat:
  "decode_chunks d cs = (d', ss) \<Longrightarrow> decode_chunk d (concat cs) = (d', concat ss)"
proof (induction cs arbitrary: d ss)
  case Nil
  then show ?case by (simp add: decode_chunk_def decoded_text_def)
next
  case (Cons c cs)
  then show ?case by (fastforce simp: chunk_append split: prod.splits)
qed

text \<open>What was encoded is decoded, however it is cut.\<close>

lemma decode_encoded:
  assumes "well_paired s" "concat cs = utf8_encode s" "s \<noteq> []" "hd s \<noteq> 0xFEFF"
  shows "\<exists>d ss. decode_chunks new_text_decoder cs = (d, ss) \<and> concat ss = s \<and> decode_end d = []"
proof -
  obtain d ss where d: "decode_chunks new_text_decoder cs = (d, ss)" by fastforce
  have points: "text_points s \<noteq> []" "hd (text_points s) \<noteq> 0xFEFF"
    using assms(1,3,4) by (cases s; auto simp: high_surrogate_def low_surrogate_def split: list.splits)+
  have "decode_points new_text_decoder (map unat (utf8_encode s)) = (new_text_decoder, text_points s)"
    unfolding encoded_values [OF assms(1)]
    by (rule decode_all_points [OF points_scalar [OF assms(1)]]) (simp add: resting_def new_text_decoder_def)
  then have "decode_chunk new_text_decoder (concat cs) = (new_text_decoder\<lparr>dec_begun := True\<rparr>, s)"
    using points points_units [OF assms(1)] by (simp add: decode_chunk_def assms(2) decoded_text_def)
  then show ?thesis
    using d decode_chunks_concat [OF d] by (auto simp: decode_end_def new_text_decoder_def)
qed

end
