(* ===== verification/Encoder_Frames.thy ===== *)
theory Encoder_Frames
  imports Stream_Encoder Sse_Proofs Text_Coding
begin

text \<open>
  What an encoder writes is what a client reads: no frame breaks a line, and the framer of
  \<^verbatim>\<open>src/main/gateway/streaming.ts\<close> gets back the event name and the data of every frame.
\<close>

section \<open>JSON texts are lines\<close>

definition printable :: "js_text \<Rightarrow> bool" where
  "printable s = list_all (\<lambda>u. 32 \<le> u) s"

lemma printable_append [simp]: "printable (s @ t) \<longleftrightarrow> printable s \<and> printable t"
  "printable (u # s) \<longleftrightarrow> 32 \<le> u \<and> printable s" "printable []"
  by (simp_all add: printable_def)

lemma printable_utf16: "list_all (\<lambda>c. 32 \<le> (of_char c :: nat)) s \<Longrightarrow> printable (utf16 s)"
  by (simp add: printable_def utf16_def list_all_iff)

lemma printable_nat [simp]: "printable (text_of_nat n)"
proof (induction n rule: show_nat.induct)
  case (1 n)
  then show ?case
    by (subst text_of_nat_def, subst show_nat.simps)
      (auto simp: text_of_nat_def utf16_def printable_def list_all_iff of_char_digit_char)
qed

lemma printable_take: "printable s \<Longrightarrow> printable (take n s)" "printable s \<Longrightarrow> printable (drop n s)"
  "32 \<le> u \<Longrightarrow> printable (replicate n u)"
  by (auto simp: printable_def list_all_iff dest: in_set_takeD in_set_dropD)

lemma printable_number: "printable (json_number x)"
  by (cases x) (auto simp: positive_text_def Let_def printable_take split: prod.splits intro!: printable_utf16)

lemma printable_escape: "printable (unicode_escape u)"
  by (simp add: unicode_escape_def hex_char_def)

lemma printable_quote: "printable (quote_units s)"
proof (induction s rule: quote_units.induct)
  case (2 u s)
  then show ?case
    by (auto simp: printable_escape quote_unit_def high_surrogate_def low_surrogate_def split: list.split option.split)
qed simp

lemma printable_commas: "list_all printable ss \<Longrightarrow> printable (comma_join ss)"
  by (induction ss rule: comma_join.induct) simp_all

lemma printable_json: "printable (json_stringify v)"
  by (induction v rule: json_stringify.induct)
    (auto simp: printable_number json_quote_def printable_quote list_all_iff intro!: printable_utf16 printable_commas)

section \<open>JSON texts can be sent as UTF-8\<close>

text \<open>A text of 16-bit units whose surrogates are paired.\<close>

definition sendable :: "js_text \<Rightarrow> bool" where
  "sendable s = (if list_all (\<lambda>u. u < 0x10000) s then well_paired s else True)"

lemma paired_append: "well_paired s \<Longrightarrow> well_paired t \<Longrightarrow> well_paired (s @ t)"
  by (induction s rule: well_paired.induct) (auto split: list.splits)

lemma sendable_append: "sendable s \<Longrightarrow> sendable t \<Longrightarrow> sendable (s @ t)"
  by (auto simp: sendable_def paired_append split: if_splits)

text \<open>Units below the surrogates, which all but the strings of a JSON text is made of.\<close>

definition low_units :: "js_text \<Rightarrow> bool" where
  "low_units s = list_all (\<lambda>u. u < 0xD800) s"

lemma low_append [simp]: "low_units (s @ t) \<longleftrightarrow> low_units s \<and> low_units t"
  "low_units (u # s) \<longleftrightarrow> u < 0xD800 \<and> low_units s" "low_units []"
  by (simp_all add: low_units_def)

lemma low_take: "low_units s \<Longrightarrow> low_units (take n s)" "low_units s \<Longrightarrow> low_units (drop n s)"
  "u < 0xD800 \<Longrightarrow> low_units (replicate n u)"
  by (auto simp: low_units_def list_all_iff dest: in_set_takeD in_set_dropD)

lemma low_paired: "low_units s \<Longrightarrow> well_paired s"
  by (induction s) (auto simp: high_surrogate_def low_surrogate_def)

lemma sendable_low: "low_units s \<Longrightarrow> sendable s"
  by (simp add: sendable_def low_paired)

lemma sendable_cons: "u < 0xD800 \<Longrightarrow> sendable s \<Longrightarrow> sendable (u # s)"
  using sendable_append [of "[u]" s] sendable_low [of "[u]"] by simp

lemma low_utf16 [simp]: "low_units (utf16 s)"
proof -
  have "(of_char c :: nat) < 0xD800" for c :: char
    using nat_of_char_less_256 [of c] by (rule less_trans) simp
  then show ?thesis by (simp add: utf16_def low_units_def list_all_iff)
qed

lemma sendable_utf16 [simp]: "sendable (utf16 s)"
  by (rule sendable_low [OF low_utf16])

lemma low_nat [simp]: "low_units (text_of_nat n)"
  by (simp add: text_of_nat_def)

lemma low_number: "low_units (json_number x)"
  by (cases x) (auto simp: positive_text_def Let_def low_take split: prod.splits)

lemma sendable_escape: "u < 0x10000 \<Longrightarrow> sendable (unicode_escape u)"
proof (rule sendable_low)
  have low: "n < 16 \<Longrightarrow> hex_char n < 0xD800" for n by (simp add: hex_char_def)
  assume "u < 0x10000"
  then have "u div 4096 < 16" by simp
  then show "low_units (unicode_escape u)" by (simp add: unicode_escape_def low)
qed

lemma sendable_unit:
  assumes "\<not> high_surrogate u" "\<not> low_surrogate u"
  shows "sendable (quote_unit u)"
proof (cases "map_of [(8 :: nat, 98 :: nat), (9, 116), (10, 110), (12, 102), (13, 114), (34, 34), (92, 92)] u")
  case None
  moreover have "sendable (if u < 32 then unicode_escape u else [u])"
    using assms by (simp add: sendable_escape) (simp add: sendable_def)
  ultimately show ?thesis by (simp add: quote_unit_def del: map_of.simps)
next
  case (Some e)
  then have "e < 0xD800" by (auto split: if_splits)
  then show ?thesis using Some by (simp add: quote_unit_def sendable_low del: map_of.simps)
qed

lemma sendable_pair: "high_surrogate u \<Longrightarrow> low_surrogate v \<Longrightarrow> sendable s \<Longrightarrow> sendable (u # v # s)"
  by (auto simp: sendable_def)

lemma surrogate_small: "high_surrogate u \<Longrightarrow> u < 0x10000" "low_surrogate u \<Longrightarrow> u < 0x10000"
  by (simp_all add: high_surrogate_def low_surrogate_def)

lemma sendable_quote: "sendable (quote_units s)"
proof (induction s rule: quote_units.induct)
  case (2 u s)
  then show ?case
    by (cases s) (auto simp: sendable_append sendable_pair sendable_unit sendable_escape surrogate_small)
qed (simp add: sendable_low)

lemma sendable_quoted: "sendable (json_quote s)"
  unfolding json_quote_def by (intro sendable_cons sendable_append sendable_quote sendable_low) simp_all

lemma sendable_commas: "list_all sendable ss \<Longrightarrow> sendable (comma_join ss)"
  by (induction ss rule: comma_join.induct) (simp_all add: sendable_append sendable_cons sendable_low)

lemma sendable_json: "sendable (json_stringify v)"
proof (induction v rule: json_stringify.induct)
  case (5 vs)
  then show ?case
    unfolding json_stringify.simps by (intro sendable_append sendable_commas) (simp_all add: list_all_iff sendable_low)
next
  case (6 ps)
  have "sendable (json_quote k @ [58] @ json_stringify v)" if "(k, v) \<in> set ps" for k v
    using 6 that by (intro sendable_append sendable_quoted) (auto simp: sendable_low)
  then show ?case
    unfolding json_stringify.simps by (intro sendable_append sendable_commas) (auto simp: list_all_iff sendable_low)
qed (simp_all add: sendable_low low_number sendable_quoted)

section \<open>A frame is one event\<close>

fun clean_frame :: "out_frame \<Rightarrow> bool" where
  "clean_frame (Out_Frame event d) =
     ((case event of None \<Rightarrow> True | Some s \<Rightarrow> printable s \<and> sendable s) \<and> printable (data_text d) \<and> sendable (data_text d))"

fun client_event :: "out_frame \<Rightarrow> sse_call" where
  "client_event (Out_Frame event d) = Sse_Event event (data_text d)"

lemma newline_after_line: "printable l \<Longrightarrow> newline_index (l @ LF # r) = Some (length l)"
  by (induction l) (auto simp: CR_def LF_def)

lemma drain_printable_line:
  assumes "printable l" "sse_buffer f = l @ LF # r" "frameCharacters f + length l + 1 \<le> m"
  shows "sse_drain m final f = sse_drain m final
    (sse_processLine (f\<lparr>sse_buffer := r, frameCharacters := frameCharacters f + length l + 1\<rparr>) l)"
proof -
  have n: "newline_index (sse_buffer f) = Some (length l)" using assms by (simp add: newline_after_line)
  have k: "terminator_length (sse_buffer f) (length l) = 1"
    using assms(2) by (simp add: terminator_length_def CR_def LF_def nth_append)
  have "\<not> waiting final (sse_buffer f)"
    using n assms(2) by (simp add: waiting_def CR_def LF_def nth_append)
  from drain_line [OF n this] show ?thesis
    using k assms(2,3) by (simp add: line_size_def after_line_def)
qed

definition idle_framer :: "sse_call list \<Rightarrow> sse_framer" where
  "idle_framer cs = new_sse_framer\<lparr>sse_calls := cs\<rparr>"

lemma split_data: "split_field (utf16 ''data: '' @ s) = (utf16 ''data'', s)"
  "split_field (utf16 ''event: '' @ s) = (utf16 ''event'', s)"
  by (simp_all add: split_field_def utf16_def text_starts_def)

lemma process_data:
  "sse_processLine f (utf16 ''data: '' @ s) = f\<lparr>dataLines := dataLines f @ [s]\<rparr>"
  "sse_processLine f (utf16 ''event: '' @ s) = f\<lparr>sse_eventName := Some s\<rparr>"
  by (simp_all add: sse_processLine_def split_data Let_def) (simp_all add: utf16_def)

lemma process_blank: "sse_processLine f [] = sse_dispatch f"
  by (simp add: sse_processLine_def)

lemma printable_fields: "printable (utf16 ''data: '')" "printable (utf16 ''event: '')"
  by (simp_all add: printable_def utf16_def)

lemma drain_data:
  assumes "printable d" "sse_buffer f = utf16 ''data: '' @ d @ [10, 10]" "dataLines f = []"
    and "frameCharacters f + length (sse_buffer f) \<le> m"
  shows "sse_drain m False f = f\<lparr>sse_buffer := [], sse_eventName := None, dataLines := [], frameCharacters := 0,
    sse_calls := sse_calls f @ [Sse_Event (sse_eventName f) d]\<rparr>"
proof -
  let ?l = "utf16 ''data: '' @ d"
  let ?f = "f\<lparr>sse_buffer := [10], frameCharacters := frameCharacters f + length ?l + 1, dataLines := [d]\<rparr>"
  have "sse_drain m False f = sse_drain m False ?f"
    using drain_printable_line [of ?l f "[10]" m False] assms by (simp add: printable_fields process_data LF_def)
  also have "\<dots> = sse_drain m False (sse_dispatch (?f\<lparr>sse_buffer := [], frameCharacters := frameCharacters ?f + 1\<rparr>))"
    using drain_printable_line [of "[]" ?f "[]" m False] assms(2,4) by (simp add: process_blank LF_def)
  also have "\<dots> = f\<lparr>sse_buffer := [], sse_eventName := None, dataLines := [], frameCharacters := 0,
    sse_calls := sse_calls f @ [Sse_Event (sse_eventName f) d]\<rparr>"
    by (subst sse_drain.simps) (simp add: sse_dispatch_def sse_ensureWithinLimit_def)
  finally show ?thesis .
qed

lemma drain_frame:
  assumes "clean_frame x" "length (frame_text x) \<le> m"
  shows "sse_drain m False (add_text (idle_framer cs) (frame_text x)) = idle_framer (cs @ [client_event x])"
proof (cases x)
  case (Out_Frame event d)
  show ?thesis
  proof (cases event)
    case None
    then show ?thesis
      using drain_data [of "data_text d" "add_text (idle_framer cs) (frame_text x)" m] assms Out_Frame
      by (simp add: idle_framer_def new_sse_framer_def)
  next
    case (Some name)
    let ?l = "utf16 ''event: '' @ name" and ?r = "utf16 ''data: '' @ data_text d @ [10, 10]"
    let ?f = "(idle_framer cs)\<lparr>sse_buffer := ?r, frameCharacters := length ?l + 1, sse_eventName := Some name\<rparr>"
    have "sse_drain m False (add_text (idle_framer cs) (frame_text x)) = sse_drain m False ?f"
      using drain_printable_line [of ?l "add_text (idle_framer cs) (frame_text x)" ?r m False] assms Out_Frame Some
      by (simp add: printable_fields process_data idle_framer_def new_sse_framer_def LF_def)
    also have "\<dots> = idle_framer (cs @ [client_event x])"
      using drain_data [of "data_text d" ?f m] assms Out_Frame Some
      by (simp add: idle_framer_def new_sse_framer_def)
    finally show ?thesis .
  qed
qed

lemma idle_ok: "framer_ok m (idle_framer cs)" "\<not> sse_failed (idle_framer cs)" "retained (idle_framer cs) = 0"
  by (simp_all add: framer_ok_def idle_framer_def new_sse_framer_def retained_def)

lemma frame_text_nonempty: "frame_text x \<noteq> []"
  by (cases x rule: frame_text.cases) simp_all

lemma frames_steps:
  assumes "list_all clean_frame xs" "list_all (\<lambda>x. length (frame_text x) \<le> m) xs"
  shows "foldl (sse_step m) (idle_framer cs) (concat (map frame_text xs)) = idle_framer (cs @ map client_event xs)"
  using assms
proof (induction xs arbitrary: cs)
  case (Cons x xs)
  have "foldl (sse_step m) (idle_framer cs) (frame_text x) = idle_framer (cs @ [client_event x])"
    using drain_chunk [OF idle_ok(1,2) frame_text_nonempty, of x m cs] drain_frame [of x m cs] Cons.prems idle_ok(3)
    by simp
  then show ?case using Cons.IH [of "cs @ [client_event x]"] Cons.prems by simp
qed simp

lemma finish_idle: "sse_finish m (idle_framer cs) = idle_framer cs"
proof -
  have "sse_drain m True (idle_framer cs) = idle_framer cs"
    by (subst sse_drain.simps) (simp add: idle_framer_def new_sse_framer_def sse_ensureWithinLimit_def)
  then show ?thesis by (simp add: sse_finish_def Let_def sse_dispatch_def) (simp add: idle_framer_def new_sse_framer_def)
qed

lemma frames_round_trip:
  assumes "list_all clean_frame xs" "list_all (\<lambda>x. length (frame_text x) \<le> m) xs"
    "concat cs = concat (map frame_text xs)"
  shows "sse_calls (sse_finish m (foldl (sse_push m) new_sse_framer cs)) = map client_event xs"
proof -
  have "new_sse_framer = idle_framer []" by (simp add: idle_framer_def new_sse_framer_def)
  then have "foldl (sse_push m) new_sse_framer cs = idle_framer (map client_event xs)"
    using frames_steps [OF assms(1,2), of "[]"] pushes_steps [OF new_ok, of m cs] assms(3) by simp
  then show ?thesis using finish_idle by (simp add: idle_framer_def new_sse_framer_def)
qed

section \<open>Every frame written is clean\<close>

lemma clean_sse [simp]: "clean_frame (sseFrame v)" by (simp add: sseFrame_def printable_json sendable_json)

lemma clean_named:
  "list_all (\<lambda>c. 32 \<le> (of_char c :: nat)) k \<Longrightarrow> clean_frame (responsesSse k ps)"
  "list_all (\<lambda>c. 32 \<le> (of_char c :: nat)) k \<Longrightarrow> clean_frame (anthropicSse k ps)"
  by (simp_all add: responsesSse_def anthropicSse_def printable_json printable_utf16 sendable_json)

lemma clean_done [simp]: "printable (utf16 ''[DONE]'')"
  by (simp add: printable_def utf16_def)

lemma push_frames [simp]: "enc_frames (push_frame x e) = enc_frames e @ [x]"
  "enc_frames (change_tool i f e) = enc_frames e" "enc_frames (updateTool i a b c d e) = enc_frames e"
  "enc_frames (complete_tool i e) = enc_frames e" "enc_frames (mergeEncoderUsage u e) = enc_frames e"
  "enc_frames (hold_stop r e) = enc_frames e" "enc_frames (note_start ev e) = enc_frames e"
  "enc_frames (reserveResponsesToolOutputIndex i e) = enc_frames e"
  by (simp_all add: push_frame_def change_tool_def updateTool_def complete_tool_def mergeEncoderUsage_def hold_stop_def
      reserveResponsesToolOutputIndex_def Let_def)
    (cases ev; simp)

abbreviation clean_encoder :: "stream_encoder \<Rightarrow> bool" where
  "clean_encoder e \<equiv> list_all clean_frame (enc_frames e)"

lemma clean_foldl:
  "(\<And>e x. clean_encoder e \<Longrightarrow> clean_encoder (g e x)) \<Longrightarrow> clean_encoder e \<Longrightarrow> clean_encoder (foldl g e xs)"
  by (induction xs arbitrary: e) auto

subsection \<open>OpenAI chat completions\<close>

lemma clean_chunk [simp]: "clean_frame (chat_chunk e d r)" by (simp add: chat_chunk_def)

lemma clean_chat [simp]:
  "clean_encoder (ensureOpenAiChatStart e) = clean_encoder e"
  "clean_encoder (chat_tool_delta i a b c e) = clean_encoder e"
  "clean_encoder (emit_chat_tool e i) = clean_encoder e"
  by (simp_all add: ensureOpenAiChatStart_def chat_tool_delta_def emit_chat_tool_def Let_def)

lemma complete_frames [simp]: "enc_frames (foldl (\<lambda>e i. complete_tool i e) e is) = enc_frames e"
  by (induction "is" arbitrary: e) simp_all

lemma clean_chat_tools [simp]: "clean_encoder e \<Longrightarrow> clean_encoder (emitDeepSeekHarnessChatTools e)"
  unfolding emitDeepSeekHarnessChatTools_def by (rule clean_foldl) simp_all

lemma clean_chat_event: "clean_encoder e \<Longrightarrow> clean_encoder (encodeOpenAiChat ev e)"
  by (cases ev) (simp_all add: Let_def chat_stop_def chat_done_def)

subsection \<open>Anthropic messages\<close>

lemma clean_blocks [simp]: "clean_frame (content_block_start i b)" "clean_frame (content_block_delta i b)"
  "clean_frame (content_block_stop i)"
  by (simp_all add: content_block_start_def content_block_delta_def content_block_stop_def clean_named)

lemma clean_anthropic [simp]:
  "clean_encoder (ensureAnthropicStart e) = clean_encoder e"
  "clean_encoder (close_anthropic_text e) = clean_encoder e"
  "clean_encoder (emit_anthropic_arguments d i e) = clean_encoder e"
  by (simp_all add: ensureAnthropicStart_def close_anthropic_text_def emit_anthropic_arguments_def Let_def clean_named)

lemma clean_anthropic_tool [simp]: "clean_encoder (ensureAnthropicToolStarted b i e) = clean_encoder e"
  by (simp add: ensureAnthropicToolStarted_def Let_def)

lemma clean_anthropic_close [simp]: "clean_encoder (closeAnthropicTool e i) = clean_encoder e"
  by (simp add: closeAnthropicTool_def Let_def)

lemma clean_anthropic_blocks [simp]: "clean_encoder e \<Longrightarrow> clean_encoder (closeAnthropicBlocks e)"
  unfolding closeAnthropicBlocks_def by (rule clean_foldl) simp_all

lemma clean_anthropic_event: "clean_encoder e \<Longrightarrow> clean_encoder (encodeAnthropic ev e)"
  by (cases ev) (simp_all add: Let_def anthropic_text_def anthropic_tool_def finalizeAnthropic_def
      anthropicUsageFrame_def clean_named split: option.split)

subsection \<open>Gemini\<close>

lemma clean_gemini [simp]: "clean_frame (gemini_chunk e ps r u)" by (simp add: gemini_chunk_def)

lemma clean_gemini_tool [simp]: "clean_encoder (fst (emitGeminiTool i e)) = clean_encoder e"
  by (simp add: emitGeminiTool_def Let_def split: option.split)

lemma clean_gemini_tools [simp]: "clean_encoder (fst (emit_gemini_tools is e)) = clean_encoder e"
proof (induction "is" arbitrary: e)
  case (Cons i "is")
  then show ?case
    using clean_gemini_tool [of i e] by (cases "emitGeminiTool i e") (simp del: clean_gemini_tool)
qed simp

lemma clean_gemini_end [simp]: "clean_encoder (finalizeGemini r e) = clean_encoder e"
  using clean_gemini_tools [of "tool_indices e" e]
  by (cases "emit_gemini_tools (tool_indices e) e") (simp add: finalizeGemini_def del: clean_gemini_tools)

lemma clean_gemini_event: "clean_encoder e \<Longrightarrow> clean_encoder (encodeGemini ev e)"
  by (cases ev) (simp_all add: Let_def)

subsection \<open>OpenAI responses\<close>

lemma clean_items [simp]:
  "list_all (\<lambda>c. 32 \<le> (of_char c :: nat)) k \<Longrightarrow> clean_frame (output_item_frame k e i item)"
  "list_all (\<lambda>c. 32 \<le> (of_char c :: nat)) k \<Longrightarrow> clean_frame (tool_stream_frame k p e t s)"
  by (simp_all add: output_item_frame_def tool_stream_frame_def clean_named)

lemma clean_responses [simp]:
  "clean_encoder (ensureResponsesStart e) = clean_encoder e"
  "clean_encoder (ensureResponsesTextStarted e) = clean_encoder e"
  "clean_encoder (ensureResponsesToolStarted b i e) = clean_encoder e"
  by (simp_all add: ensureResponsesStart_def ensureResponsesTextStarted_def ensureResponsesToolStarted_def Let_def
      clean_named)

lemma clean_responses_tool: "clean_encoder e \<Longrightarrow> clean_encoder (responses_tool i a b c d e)"
  by (simp add: responses_tool_def Let_def delta_kind_def split: option.split)

lemma clean_close_text: "clean_encoder e \<Longrightarrow> clean_encoder (fst (close_responses_text r e))"
  by (simp add: close_responses_text_def Let_def clean_named)

lemma clean_close_tool: "clean_encoder (fst p) \<Longrightarrow> clean_encoder (fst (close_responses_tool r p i))"
  by (cases p) (simp add: close_responses_tool_def Let_def delta_kind_def done_kind_def)

lemma clean_close_tools: "clean_encoder (fst p) \<Longrightarrow> clean_encoder (fst (foldl (close_responses_tool r) p is))"
  by (induction "is" arbitrary: p) (simp_all add: clean_close_tool)

lemma clean_close: "clean_encoder e \<Longrightarrow> clean_encoder (closeResponsesOutput r e)"
  using clean_close_tools [OF clean_close_text, of e r r "tool_indices e"]
  by (cases "foldl (close_responses_tool r) (close_responses_text r e) (tool_indices e)")
    (simp add: closeResponsesOutput_def clean_named split: option.split)

lemma clean_bridge_failure [simp]: "clean_encoder (failResponsesToolBridge f e) = clean_encoder e"
  by (cases f) (simp add: failResponsesToolBridge_def clean_named)

lemma clean_bridge_tools [simp]: "clean_encoder (fst (bridge_tools plan aliases used is e)) = clean_encoder e"
  by (induction plan aliases used "is" e rule: bridge_tools.induct) (simp_all add: Let_def split: prod.split option.split)

lemma clean_bridge [simp]: "clean_encoder (fst (prepareResponsesToolBridge e)) = clean_encoder e"
  by (simp add: prepareResponsesToolBridge_def split: option.split)

lemma clean_responses_done:
  assumes "clean_encoder e"
  shows "clean_encoder (encodeOpenAiResponses Done e)"
  using assms clean_bridge [of "ensureResponsesStart e"]
  by (cases "prepareResponsesToolBridge (ensureResponsesStart e)") (simp add: clean_close del: clean_bridge)

lemma clean_responses_event: "clean_encoder e \<Longrightarrow> clean_encoder (encodeOpenAiResponses ev e)"
  by (cases "ev = Done", simp only: clean_responses_done, cases ev)
    (simp_all add: Let_def responses_text_def clean_responses_tool responses_error_def clean_named)

subsection \<open>Encoding\<close>

lemma clean_event: "clean_encoder e \<Longrightarrow> clean_encoder (encode_event ev e)"
  by (simp add: encode_event_def clean_chat_event clean_anthropic_event clean_gemini_event clean_responses_event
      split: protocol.split)

lemma encode_clean:
  "clean_encoder e \<Longrightarrow> encode e ev = Some (e', fs) \<Longrightarrow> list_all clean_frame fs \<and> clean_encoder e'"
  using clean_event [of "note_start ev e" ev] by (auto simp: encode_def drainEncoderFrames_def split: if_splits)

lemma encode_all_clean:
  "clean_encoder e \<Longrightarrow> encode_all e evs = Some (e', fs) \<Longrightarrow> list_all clean_frame fs"
proof (induction evs arbitrary: e fs)
  case Nil
  then show ?case using encode_clean [of e Done e' fs]
    by (auto simp: finish_encoder_def drainEncoderFrames_def split: if_splits)
next
  case (Cons ev evs)
  then obtain e1 fs1 fs2 where 1: "encode e ev = Some (e1, fs1)" "encode_all e1 evs = Some (e', fs2)"
    "fs = fs1 @ fs2" by (auto split: option.splits)
  have "list_all clean_frame fs1" and c: "clean_encoder e1" using encode_clean [OF Cons.prems(1) 1(1)] by simp_all
  with Cons.IH [OF c 1(2)] 1(3) show ?case by simp
qed

end
