(* ===== verification/Encoder_Runs.thy ===== *)
theory Encoder_Runs
  imports Stream_Encoder
begin

text \<open>
  How the encoder's operations change its state, and the rule by which an invariant of the state and of
  everything written so far carries over a whole stream.
  The last section reads what a sequence of events says: its text and the input of each tool.
\<close>

section \<open>Selectors\<close>

definition tool_of :: "(nat \<times> encoded_tool) list \<Rightarrow> nat \<Rightarrow> encoded_tool" where
  "tool_of ts i = (case map_of ts i of Some t \<Rightarrow> t | None \<Rightarrow> new_tool i)"

lemma tool_at_of [simp]: "tool_at e i = tool_of (enc_tools e) i"
  by (simp add: tool_at_def tool_of_def)

lemma tool_of_Nil [simp]: "tool_of [] i = new_tool i" by (simp add: tool_of_def)

lemma tool_of_update [simp]: "tool_of (AList.update j t ts) i = (if i = j then t else tool_of ts i)"
  by (simp add: tool_of_def update_conv)

lemma change_tool_simps [simp]:
  "enc_protocol (change_tool i f e) = enc_protocol e" "enc_sanitize (change_tool i f e) = enc_sanitize e"
  "enc_frames (change_tool i f e) = enc_frames e" "enc_id (change_tool i f e) = enc_id e"
  "enc_model (change_tool i f e) = enc_model e" "enc_createdAt (change_tool i f e) = enc_createdAt e"
  "enc_started (change_tool i f e) = enc_started e" "enc_stopped (change_tool i f e) = enc_stopped e"
  "enc_done (change_tool i f e) = enc_done e" "enc_failed (change_tool i f e) = enc_failed e"
  "encodingFailure (change_tool i f e) = encodingFailure e" "pendingStop (change_tool i f e) = pendingStop e"
  "enc_usage (change_tool i f e) = enc_usage e"
  "enc_tools (change_tool i f e) = AList.update i (f (tool_of (enc_tools e) i)) (enc_tools e)"
  "anthropicNextContentIndex (change_tool i f e) = anthropicNextContentIndex e"
  "anthropicTextIndex (change_tool i f e) = anthropicTextIndex e"
  "anthropicTextStarted (change_tool i f e) = anthropicTextStarted e"
  "anthropicTextClosed (change_tool i f e) = anthropicTextClosed e"
  "responsesNextOutputIndex (change_tool i f e) = responsesNextOutputIndex e"
  "responsesTextOutputIndex (change_tool i f e) = responsesTextOutputIndex e"
  "responsesText (change_tool i f e) = responsesText e"
  "responsesTextStarted (change_tool i f e) = responsesTextStarted e"
  "responsesTextSourceIndices (change_tool i f e) = responsesTextSourceIndices e"
  "responsesCompletedMessageIndices (change_tool i f e) = responsesCompletedMessageIndices e"
  "responsesFailureEmitted (change_tool i f e) = responsesFailureEmitted e"
  "chatUsageEmitted (change_tool i f e) = chatUsageEmitted e" "chatToolIds (change_tool i f e) = chatToolIds e"
  "enc_toolBridgePlan (change_tool i f e) = enc_toolBridgePlan e"
  by (simp_all add: change_tool_def)

lemma push_frame_simps [simp]:
  "enc_protocol (push_frame x e) = enc_protocol e" "enc_sanitize (push_frame x e) = enc_sanitize e"
  "enc_frames (push_frame x e) = enc_frames e @ [x]" "enc_id (push_frame x e) = enc_id e"
  "enc_model (push_frame x e) = enc_model e" "enc_createdAt (push_frame x e) = enc_createdAt e"
  "enc_started (push_frame x e) = enc_started e" "enc_stopped (push_frame x e) = enc_stopped e"
  "enc_done (push_frame x e) = enc_done e" "enc_failed (push_frame x e) = enc_failed e"
  "encodingFailure (push_frame x e) = encodingFailure e" "pendingStop (push_frame x e) = pendingStop e"
  "enc_usage (push_frame x e) = enc_usage e" "enc_tools (push_frame x e) = enc_tools e"
  "anthropicNextContentIndex (push_frame x e) = anthropicNextContentIndex e"
  "anthropicTextIndex (push_frame x e) = anthropicTextIndex e"
  "anthropicTextStarted (push_frame x e) = anthropicTextStarted e"
  "anthropicTextClosed (push_frame x e) = anthropicTextClosed e"
  "responsesNextOutputIndex (push_frame x e) = responsesNextOutputIndex e"
  "responsesTextOutputIndex (push_frame x e) = responsesTextOutputIndex e"
  "responsesText (push_frame x e) = responsesText e"
  "responsesTextStarted (push_frame x e) = responsesTextStarted e"
  "responsesTextSourceIndices (push_frame x e) = responsesTextSourceIndices e"
  "responsesCompletedMessageIndices (push_frame x e) = responsesCompletedMessageIndices e"
  "responsesFailureEmitted (push_frame x e) = responsesFailureEmitted e"
  "chatUsageEmitted (push_frame x e) = chatUsageEmitted e" "chatToolIds (push_frame x e) = chatToolIds e"
  "enc_toolBridgePlan (push_frame x e) = enc_toolBridgePlan e"
  by (simp_all add: push_frame_def)

lemma mergeEncoderUsage_eq: "\<exists>u'. mergeEncoderUsage u e = e\<lparr>enc_usage := u'\<rparr>"
  by (auto simp: mergeEncoderUsage_def Let_def)

lemma note_start_eq: "\<exists>i m c. note_start ev e = e\<lparr>enc_id := i, enc_model := m, enc_createdAt := c\<rparr>"
proof (cases "note_start ev e = e")
  case True
  then show ?thesis by (intro exI [of _ "enc_id e"] exI [of _ "enc_model e"] exI [of _ "enc_createdAt e"]) simp
next
  case False
  then show ?thesis by (cases ev) auto
qed

lemma keys_update [simp]: "fst ` set (AList.update i t ts) = insert i (fst ` set ts)"
  by (induction ts) auto

lemma map_of_eq_tool: "i \<in> set (map fst ts) \<Longrightarrow> map_of ts i = Some (tool_of ts i)"
  by (auto simp: tool_of_def map_of_eq_None_iff split: option.split)

section \<open>Streams\<close>

text \<open>
  An invariant \<open>K\<close> of the events handled, the frames written since the start and the state is kept by
  the events before \<^const>\<open>Done\<close>, and the last call turns it into \<open>L\<close>. Neither looks at the frames the
  state still holds.
\<close>

locale encoder_invariant =
  fixes K L :: "canonical_event list \<Rightarrow> out_frame list \<Rightarrow> stream_encoder \<Rightarrow> bool"
  assumes handed_over: "K seen fs e \<Longrightarrow> K seen fs (e\<lparr>enc_frames := []\<rparr>)"
    and proper: "K seen fs e \<Longrightarrow> enc_protocol e \<noteq> Kiro_Claude \<and> \<not> enc_done e"
    and one_event: "K seen (h @ enc_frames e) e \<Longrightarrow> ev \<noteq> Done \<Longrightarrow>
      K (seen @ [ev]) (h @ enc_frames (encode_event ev (note_start ev e))) (encode_event ev (note_start ev e))"
    and last_event: "K seen (h @ enc_frames e) e \<Longrightarrow>
      enc_done (encode_event Done e) \<and>
      L seen (h @ enc_frames (encode_event Done e)) ((encode_event Done e)\<lparr>enc_frames := []\<rparr>)"
begin

lemma last_call:
  assumes "K seen h e" "enc_frames e = []"
  shows "\<exists>e' fs. encode e Done = Some (e', fs) \<and> enc_done e' \<and> enc_frames e' = [] \<and> L seen (h @ fs) e'"
  using assms last_event [of seen h e] proper [of seen h e] by (auto simp: encode_def drainEncoderFrames_def)

lemma after_done: "enc_done e \<Longrightarrow> enc_frames e = [] \<Longrightarrow> encode_all e evs = Some (e, [])"
  by (induction evs) (simp_all add: finish_encoder_def drainEncoderFrames_def encode_def)

lemma whole_stream:
  assumes "K seen h e" "enc_frames e = []"
  shows "\<exists>e' fs. encode_all e evs = Some (e', fs) \<and> L (seen @ takeWhile (\<lambda>ev. ev \<noteq> Done) evs) (h @ fs) e'"
  using assms
proof (induction evs arbitrary: seen h e)
  case Nil
  then show ?case using last_call [OF Nil] proper [OF Nil(1)] by (auto simp: finish_encoder_def)
next
  case (Cons ev evs)
  show ?case
  proof (cases "ev = Done")
    case True
    obtain e' fs where e': "encode e Done = Some (e', fs)" "enc_done e'" "enc_frames e' = []" "L seen (h @ fs) e'"
      using last_call [OF Cons.prems] by blast
    then show ?thesis using after_done [OF e'(2,3), of evs] True by simp
  next
    case False
    let ?e = "encode_event ev (note_start ev e)"
    have k: "K (seen @ [ev]) (h @ enc_frames ?e) (?e\<lparr>enc_frames := []\<rparr>)"
      using one_event [of seen h e ev] Cons.prems False by (intro handed_over) simp
    have "encode e ev = Some (?e\<lparr>enc_frames := []\<rparr>, enc_frames ?e)"
      using proper [OF Cons.prems(1)] by (simp add: encode_def drainEncoderFrames_def)
    moreover obtain e' fs where "encode_all (?e\<lparr>enc_frames := []\<rparr>) evs = Some (e', fs)"
      "L ((seen @ [ev]) @ takeWhile (\<lambda>ev. ev \<noteq> Done) evs) ((h @ enc_frames ?e) @ fs) e'"
      using Cons.IH [OF k] by auto
    ultimately show ?thesis using False by simp
  qed
qed

end

section \<open>What events say\<close>

text \<open>
  What a stream of canonical events says, and that the tool calls the encoder accumulates record it.
\<close>

section \<open>Events\<close>

text \<open>What a list of events says.\<close>

fun said_text :: "canonical_event list \<Rightarrow> js_text" where
  "said_text [] = []"
| "said_text (Text_Delta s _ _ # evs) = s @ said_text evs"
| "said_text (ev # evs) = said_text evs"

fun said_input :: "nat \<Rightarrow> canonical_event list \<Rightarrow> js_text" where
  "said_input i [] = []"
| "said_input i (Tool_Call_Delta j _ _ (Some s) _ _ # evs) = (if i = j then s @ said_input i evs else said_input i evs)"
| "said_input i (ev # evs) = said_input i evs"

fun called_tool :: "canonical_event \<Rightarrow> nat option" where
  "called_tool (Tool_Call_Delta i _ _ _ _ _) = Some i"
| "called_tool ev = None"

fun tool_identified :: "nat \<Rightarrow> canonical_event \<Rightarrow> bool" where
  "tool_identified i (Tool_Call_Delta j (Some ident) _ _ _ _) = (i = j \<and> ident \<noteq> [])"
| "tool_identified i ev = False"

fun tool_named :: "nat \<Rightarrow> canonical_event \<Rightarrow> bool" where
  "tool_named i (Tool_Call_Delta j _ (Some name) _ _ _) = (i = j \<and> name \<noteq> [])"
| "tool_named i ev = False"

text \<open>A tool call is identified and named no later than its first argument text.\<close>

fun named_before :: "canonical_event list \<Rightarrow> canonical_event \<Rightarrow> bool" where
  "named_before seen (Tool_Call_Delta i ident name (Some (u # s)) kind out) =
     (let seen = seen @ [Tool_Call_Delta i ident name (Some (u # s)) kind out]
      in list_ex (tool_identified i) seen \<and> list_ex (tool_named i) seen)"
| "named_before seen ev = True"

fun named_first :: "canonical_event list \<Rightarrow> canonical_event list \<Rightarrow> bool" where
  "named_first seen [] = True"
| "named_first seen (ev # evs) = (named_before seen ev \<and> named_first (seen @ [ev]) evs)"

lemma said_text_append [simp]: "said_text (evs @ evs') = said_text evs @ said_text evs'"
  by (induction evs rule: said_text.induct) simp_all

lemma said_input_append [simp]: "said_input i (evs @ evs') = said_input i evs @ said_input i evs'"
  by (induction i evs rule: said_input.induct) simp_all

lemma named_first_append [simp]:
  "named_first seen (evs @ evs') = (named_first seen evs \<and> named_first (seen @ evs) evs')"
  by (induction evs arbitrary: seen) simp_all

lemma merged_nonempty: "mergeStreamedIdentity a b = [] \<longleftrightarrow> a = [] \<and> b = []"
  by (auto simp: mergeStreamedIdentity_def text_starts_def)

text \<open>What the tools of the state say of the events seen.\<close>

definition tools_recorded :: "canonical_event list \<Rightarrow> stream_encoder \<Rightarrow> bool" where
  "tools_recorded seen e \<longleftrightarrow>
     distinct (tool_indices e)
     \<and> set (tool_indices e) = {i. Some i \<in> called_tool ` set seen}
     \<and> (\<forall>i. tool_arguments (tool_of (enc_tools e) i) = said_input i seen
          \<and> (tool_id (tool_of (enc_tools e) i) \<noteq> [] \<longleftrightarrow> list_ex (tool_identified i) seen)
          \<and> (tool_name (tool_of (enc_tools e) i) \<noteq> [] \<longleftrightarrow> list_ex (tool_named i) seen))"

lemma recorded_update:
  assumes "tools_recorded seen e"
  shows "tools_recorded (seen @ [Tool_Call_Delta i a b c d out]) (updateTool i a b c d e)"
proof -
  let ?e = "updateTool i a b c d e"
  have keys: "distinct (tool_indices ?e)" "set (tool_indices ?e) = insert i (set (tool_indices e))"
    using assms distinct_update [of "enc_tools e" i]
    by (simp_all add: tools_recorded_def updateTool_def tool_indices_def)
  show ?thesis
    using assms keys unfolding tools_recorded_def
    by (cases a; cases b; cases c) (auto simp: updateTool_def merged_nonempty)
qed

lemma recorded_other:
  assumes "tools_recorded seen e" "called_tool ev = None" "enc_tools e' = enc_tools e"
  shows "tools_recorded (seen @ [ev]) e'"
  using assms by (cases ev) (auto simp: tools_recorded_def tool_indices_def)

lemma recorded_change:
  assumes "tools_recorded seen e" "i \<in> set (tool_indices e)"
    "\<And>t. tool_arguments (f t) = tool_arguments t" "\<And>t. tool_id (f t) = tool_id t" "\<And>t. tool_name (f t) = tool_name t"
  shows "tools_recorded seen (change_tool i f e)"
  using assms distinct_update [of "enc_tools e" i "f (tool_of (enc_tools e) i)"]
  by (auto simp: tools_recorded_def tool_indices_def insert_absorb)

lemma recorded_same: "tools_recorded seen e \<Longrightarrow> enc_tools e' = enc_tools e \<Longrightarrow> tools_recorded seen e'"
  by (simp add: tools_recorded_def tool_indices_def)

fun failure_event :: "canonical_event \<Rightarrow> bool" where
  "failure_event (Error_Event _ _ _) = True"
| "failure_event ev = False"

lemma indices_push [simp]: "tool_indices (push_frame x e) = tool_indices e" by (simp add: tool_indices_def)

text \<open>The state without the frames it still holds.\<close>

abbreviation settled :: "(out_frame list \<Rightarrow> stream_encoder \<Rightarrow> bool) \<Rightarrow> out_frame list \<Rightarrow> stream_encoder \<Rightarrow> bool" where
  "settled P fs e \<equiv> P fs (e\<lparr>enc_frames := []\<rparr>)"

end
