(* ===== verification/Anthropic_Proofs.thy ===== *)
theory Anthropic_Proofs
  imports Encoder_Runs
begin

text \<open>
  The Anthropic stream: what its frames say to a client, the order of message and content blocks the
  protocol prescribes, and that the encoder keeps it.
\<close>

section \<open>The client's view\<close>

datatype anthropic_frame =
  Message_Start | Text_Block nat | Tool_Block nat | Text_Piece nat js_text | Json_Piece nat js_text
| Block_Stop nat | Message_Delta | Message_Stop | Other_Frame

fun json_index :: "(js_text \<times> json) list \<Rightarrow> nat option" where
  "json_index ps = (case obj_get ps ''index'' of Some (JNum (Num q)) \<Rightarrow> Some (nat \<lfloor>q\<rfloor>) | _ \<Rightarrow> None)"

definition json_member :: "(js_text \<times> json) list \<Rightarrow> string \<Rightarrow> (js_text \<times> json) list" where
  "json_member ps k = (case obj_get ps k of Some (JObj qs) \<Rightarrow> qs | _ \<Rightarrow> [])"

definition json_text :: "(js_text \<times> json) list \<Rightarrow> string \<Rightarrow> js_text" where
  "json_text ps k = (case obj_get ps k of Some (JStr s) \<Rightarrow> s | _ \<Rightarrow> [])"

definition block_frame :: "js_text \<Rightarrow> (js_text \<times> json) list \<Rightarrow> nat \<Rightarrow> anthropic_frame" where
  "block_frame event ps n =
     (if event = utf16 ''content_block_start''
      then if json_text (json_member ps ''content_block'') ''type'' = utf16 ''text'' then Text_Block n else Tool_Block n
      else if event = utf16 ''content_block_delta''
      then let delta = json_member ps ''delta''
           in if json_text delta ''type'' = utf16 ''text_delta'' then Text_Piece n (json_text delta ''text'')
              else Json_Piece n (json_text delta ''partial_json'')
      else if event = utf16 ''content_block_stop'' then Block_Stop n else Other_Frame)"

fun anthropic_view :: "out_frame \<Rightarrow> anthropic_frame" where
  "anthropic_view (Out_Frame (Some event) (Json_Data (JObj ps))) =
     (if event = utf16 ''message_start'' then Message_Start
      else if event = utf16 ''message_delta'' then Message_Delta
      else if event = utf16 ''message_stop'' then Message_Stop
      else case json_index ps of Some n \<Rightarrow> block_frame event ps n | None \<Rightarrow> Other_Frame)"
| "anthropic_view f = Other_Frame"

text \<open>The order of an Anthropic stream: blocks are numbered from zero as they start, take their pieces
  while open, and are all closed when the message ends.\<close>

datatype message_phase = Not_Started | In_Blocks nat "nat list" | Blocks_Over | Message_Over

fun anthropic_step :: "message_phase \<Rightarrow> anthropic_frame \<Rightarrow> message_phase option" where
  "anthropic_step Not_Started Message_Start = Some (In_Blocks 0 [])"
| "anthropic_step (In_Blocks n os) (Text_Block i) = (if i = n then Some (In_Blocks (Suc n) (n # os)) else None)"
| "anthropic_step (In_Blocks n os) (Tool_Block i) = (if i = n then Some (In_Blocks (Suc n) (n # os)) else None)"
| "anthropic_step (In_Blocks n os) (Text_Piece i s) = (if i \<in> set os then Some (In_Blocks n os) else None)"
| "anthropic_step (In_Blocks n os) (Json_Piece i s) = (if i \<in> set os then Some (In_Blocks n os) else None)"
| "anthropic_step (In_Blocks n os) (Block_Stop i) = (if i \<in> set os then Some (In_Blocks n (remove1 i os)) else None)"
| "anthropic_step (In_Blocks n []) Message_Delta = Some Blocks_Over"
| "anthropic_step Blocks_Over Message_Stop = Some Message_Over"
| "anthropic_step p Other_Frame = (if p = Message_Over then None else Some p)"
| "anthropic_step p f = None"

fun anthropic_run :: "message_phase \<Rightarrow> anthropic_frame list \<Rightarrow> message_phase option" where
  "anthropic_run p [] = Some p"
| "anthropic_run p (f # fs) = (case anthropic_step p f of None \<Rightarrow> None | Some q \<Rightarrow> anthropic_run q fs)"

lemma anthropic_run_append:
  "anthropic_run p (fs @ gs) = (case anthropic_run p fs of None \<Rightarrow> None | Some q \<Rightarrow> anthropic_run q gs)"
  by (induction fs arbitrary: p) (auto split: option.split)

lemma anthropic_run_snoc [simp]:
  "anthropic_run p (fs @ [f]) = (case anthropic_run p fs of None \<Rightarrow> None | Some q \<Rightarrow> anthropic_step q f)"
  by (simp add: anthropic_run_append split: option.split)

text \<open>The text of the answer and the input of the tool call in a block.\<close>

fun shown_text :: "anthropic_frame list \<Rightarrow> js_text" where
  "shown_text [] = []"
| "shown_text (Text_Piece n s # fs) = s @ shown_text fs"
| "shown_text (f # fs) = shown_text fs"

fun shown_input :: "nat \<Rightarrow> anthropic_frame list \<Rightarrow> js_text" where
  "shown_input i [] = []"
| "shown_input i (Json_Piece n s # fs) = (if n = i then s @ shown_input i fs else shown_input i fs)"
| "shown_input i (f # fs) = shown_input i fs"

lemma shown_text_append [simp]: "shown_text (fs @ gs) = shown_text fs @ shown_text gs"
  by (induction fs rule: shown_text.induct) simp_all

lemma shown_input_append [simp]: "shown_input i (fs @ gs) = shown_input i fs @ shown_input i gs"
  by (induction i fs rule: shown_input.induct) simp_all

lemma views [simp]:
  "anthropic_view (content_block_start (Some n) (js_object [(''type'', Lit ''text''), (''text'', Lit '''')])) = Text_Block n"
  "anthropic_view (content_block_start (Some n) (js_object [(''type'', Lit ''tool_use''), (''id'', a), (''name'', b), (''input'', c)])) = Tool_Block n"
  "anthropic_view (content_block_delta (Some n) (js_object [(''type'', Lit ''text_delta''), (''text'', Txt s)])) = Text_Piece n s"
  "anthropic_view (content_block_delta (Some n) (input_json_delta s)) = Json_Piece n s"
  "anthropic_view (content_block_stop (Some n)) = Block_Stop n"
  "anthropic_view (anthropicSse ''message_start'' ps) = Message_Start"
  "anthropic_view (anthropicSse ''message_delta'' ps) = Message_Delta"
  "anthropic_view (anthropicSse ''message_stop'' ps) = Message_Stop"
  "anthropic_view (anthropicSse ''error'' [(''type'', a), (''error'', b)]) = Other_Frame"
  by (simp_all add: content_block_start_def content_block_delta_def content_block_stop_def input_json_delta_def
      anthropicSse_def js_object_def block_frame_def json_member_def json_text_def jnat_def Let_def split: option.split)

section \<open>Blocks and frames\<close>

text \<open>The blocks an encoder has open: its text block, and those of the started tools among \<open>R\<close>.\<close>

definition open_text :: "stream_encoder \<Rightarrow> nat set" where
  "open_text e = {n. anthropicTextStarted e \<and> \<not> anthropicTextClosed e \<and> anthropicTextIndex e = Some n}"

definition tool_block :: "(nat \<times> encoded_tool) list \<Rightarrow> nat \<Rightarrow> nat option" where
  "tool_block ts i = (if tool_started (tool_of ts i) then tool_contentIndex (tool_of ts i) else None)"

definition open_tools :: "nat set \<Rightarrow> (nat \<times> encoded_tool) list \<Rightarrow> nat set" where
  "open_tools R ts = {n. \<exists>i\<in>R. tool_block ts i = Some n}"

text \<open>Every started block has an index of its own, below the next one.\<close>

definition text_block_ok :: "stream_encoder \<Rightarrow> bool" where
  "text_block_ok e \<longleftrightarrow>
     (anthropicTextStarted e \<longrightarrow> (\<exists>n < anthropicNextContentIndex e. anthropicTextIndex e = Some n))"

definition tool_blocks_ok :: "stream_encoder \<Rightarrow> bool" where
  "tool_blocks_ok e \<longleftrightarrow>
     (\<forall>i. tool_started (tool_of (enc_tools e) i) \<longrightarrow> tool_contentIndex (tool_of (enc_tools e) i) \<noteq> None)
     \<and> (\<forall>i n. tool_block (enc_tools e) i = Some n \<longrightarrow> n < anthropicNextContentIndex e)
     \<and> (\<forall>i j n. tool_block (enc_tools e) i = Some n \<and> tool_block (enc_tools e) j = Some n \<longrightarrow> i = j)"

definition apart :: "stream_encoder \<Rightarrow> bool" where
  "apart e \<longleftrightarrow> (anthropicTextStarted e \<longrightarrow> (\<forall>i. tool_block (enc_tools e) i \<noteq> anthropicTextIndex e))"

definition blocks_ok :: "stream_encoder \<Rightarrow> bool" where
  "blocks_ok e \<longleftrightarrow> text_block_ok e \<and> tool_blocks_ok e \<and> apart e"

lemmas blocks_defs = blocks_ok_def text_block_ok_def tool_blocks_ok_def apart_def

text \<open>What the frames \<open>fs\<close> add to those handed over.\<close>

definition written :: "out_frame list \<Rightarrow> out_frame list \<Rightarrow> anthropic_frame list" where
  "written h fs = map anthropic_view (h @ fs)"

lemma written_append: "written h (fs @ gs) = written h fs @ map anthropic_view gs"
  by (simp add: written_def)

lemma written_push [simp]: "written h (fs @ [f]) = written h fs @ [anthropic_view f]"
  by (simp add: written_def)

text \<open>The phase the frames lead to.\<close>

definition phase_ok :: "nat set \<Rightarrow> anthropic_frame list \<Rightarrow> stream_encoder \<Rightarrow> bool" where
  "phase_ok R vs e \<longleftrightarrow>
     (if enc_started e
      then \<exists>os. anthropic_run Not_Started vs = Some (In_Blocks (anthropicNextContentIndex e) os)
         \<and> distinct os \<and> set os = open_text e \<union> open_tools R (enc_tools e)
      else anthropic_run Not_Started vs = Some Not_Started
         \<and> anthropicNextContentIndex e = 0 \<and> \<not> anthropicTextStarted e
         \<and> (\<forall>i. \<not> tool_started (tool_of (enc_tools e) i)))"

definition anthropic_ok :: "nat set \<Rightarrow> out_frame list \<Rightarrow> stream_encoder \<Rightarrow> bool" where
  "anthropic_ok R h e \<longleftrightarrow> blocks_ok e \<and> phase_ok R (written h (enc_frames e)) e"

lemma start_ok:
  assumes "anthropic_ok R h e"
  shows "anthropic_ok R h (ensureAnthropicStart e) \<and> enc_started (ensureAnthropicStart e)"
proof (cases "enc_started e")
  case False
  then have "open_text e = {}" "open_tools R (enc_tools e) = {}" "blocks_ok (e\<lparr>enc_started := True\<rparr>)"
    using assms by (auto simp: anthropic_ok_def phase_ok_def open_text_def open_tools_def blocks_defs tool_block_def)
  with False assms show ?thesis
    by (auto simp: ensureAnthropicStart_def anthropic_ok_def phase_ok_def blocks_defs open_text_def open_tools_def tool_block_def)
qed (use assms in \<open>simp add: ensureAnthropicStart_def\<close>)

lemma close_text_ok:
  assumes "anthropic_ok R h e" "enc_started e"
  shows "anthropic_ok R h (close_anthropic_text e)" "open_text (close_anthropic_text e) = {}"
proof -
  show "anthropic_ok R h (close_anthropic_text e)"
  proof (cases "anthropicTextStarted e \<and> \<not> anthropicTextClosed e")
    case True
    then obtain n where n: "anthropicTextIndex e = Some n" using assms by (auto simp: anthropic_ok_def blocks_defs)
    obtain os where os: "anthropic_run Not_Started (written h (enc_frames e))
        = Some (In_Blocks (anthropicNextContentIndex e) os)" "distinct os" "set os = open_text e \<union> open_tools R (enc_tools e)"
      using assms by (auto simp: anthropic_ok_def phase_ok_def)
    have "open_text e = {n}" "n \<notin> open_tools R (enc_tools e)"
      using True n assms by (auto simp: open_text_def open_tools_def anthropic_ok_def blocks_defs)
    then show ?thesis
      using True n os assms
      by (auto simp: close_anthropic_text_def anthropic_ok_def phase_ok_def blocks_defs open_text_def)
  qed (use assms in \<open>auto simp: close_anthropic_text_def\<close>)
qed (auto simp: close_anthropic_text_def open_text_def)

text \<open>A started tool has a block; one closed before takes no more part.\<close>

lemma tool_block_new:
  "i \<in> R \<Longrightarrow> tool_block ts' = (tool_block ts)(i := Some n) \<Longrightarrow> tool_block ts i = None \<Longrightarrow>
    open_tools R ts' = insert n (open_tools R ts)"
  by (force simp: open_tools_def)

lemma blocks_ok_new:
  assumes "blocks_ok e" "tool_block (enc_tools e') = (tool_block (enc_tools e))(i := Some (anthropicNextContentIndex e))"
    and "\<And>j. tool_started (tool_of (enc_tools e') j) \<Longrightarrow> tool_contentIndex (tool_of (enc_tools e') j) \<noteq> None"
    and "anthropicNextContentIndex e' = Suc (anthropicNextContentIndex e)"
    and "anthropicTextStarted e' = anthropicTextStarted e" "anthropicTextIndex e' = anthropicTextIndex e"
  shows "blocks_ok e'"
proof -
  have "text_block_ok e'" using assms by (auto simp: blocks_ok_def text_block_ok_def less_Suc_eq)
  moreover have "tool_blocks_ok e'" using assms(1-4)
    by (auto simp: blocks_ok_def tool_blocks_ok_def less_Suc_eq)
  moreover have "apart e'" using assms by (auto simp: blocks_defs)
  ultimately show ?thesis by (simp add: blocks_ok_def)
qed

lemma tool_started_ok:
  assumes "anthropic_ok R h e" "enc_started e" "i \<in> R"
  shows "anthropic_ok R h (ensureAnthropicToolStarted b i e)" "enc_started (ensureAnthropicToolStarted b i e)"
proof -
  let ?t = "tool_of (enc_tools e) i" and ?e = "ensureAnthropicToolStarted b i e"
  show "enc_started ?e" using assms(2)
    by (simp add: ensureAnthropicToolStarted_def Let_def close_anthropic_text_def)
  show "anthropic_ok R h ?e"
  proof (cases "tool_started ?t \<or> \<not> b \<and> (tool_id ?t = [] \<or> tool_name ?t = [])")
    case False
    let ?c = "close_anthropic_text e"
    have c: "anthropic_ok R h ?c" "open_text ?c = {}" using close_text_ok [OF assms(1,2)] .
    have same: "enc_tools ?c = enc_tools e" "enc_started ?c" "enc_id ?c = enc_id e"
      using assms(2) by (simp_all add: close_anthropic_text_def)
    obtain os where os: "anthropic_run Not_Started (written h (enc_frames ?c))
        = Some (In_Blocks (anthropicNextContentIndex ?c) os)" "distinct os" "set os = open_tools R (enc_tools ?c)"
      using c same(2) by (auto simp: anthropic_ok_def phase_ok_def)
    have fresh: "anthropicNextContentIndex ?c \<notin> set os"
      using c(1) os(3) by (fastforce simp: anthropic_ok_def blocks_defs open_tools_def)
    have new: "tool_block (enc_tools ?e) = (tool_block (enc_tools ?c))(i := Some (anthropicNextContentIndex ?c))"
      "tool_block (enc_tools ?c) i = None"
      using False same by (auto simp: ensureAnthropicToolStarted_def Let_def tool_block_def fun_eq_iff)
    have "blocks_ok ?e"
      using c(1) False same
      by (intro blocks_ok_new [OF _ new(1)])
        (auto simp: ensureAnthropicToolStarted_def Let_def anthropic_ok_def blocks_defs split: if_splits)
    moreover have "open_text ?e = {}" using False c(2) same
      by (auto simp: ensureAnthropicToolStarted_def Let_def open_text_def)
    ultimately show ?thesis
      using False same os fresh tool_block_new [OF assms(3) new]
      by (auto simp: ensureAnthropicToolStarted_def Let_def anthropic_ok_def phase_ok_def)
  qed (use assms in \<open>simp add: ensureAnthropicToolStarted_def\<close>)
qed

lemma open_text_same [simp]: "open_text (push_frame x e) = open_text e" "open_text (change_tool i f e) = open_text e"
  by (simp_all add: open_text_def)

lemma update_ok:
  assumes "anthropic_ok R h e" "\<And>t. tool_started (f t) = tool_started t" "\<And>t. tool_contentIndex (f t) = tool_contentIndex t"
  shows "anthropic_ok R h (change_tool i f e)"
proof -
  have "tool_block (enc_tools (change_tool i f e)) = tool_block (enc_tools e)"
    using assms(2,3) by (simp add: tool_block_def fun_eq_iff)
  then have "tool_block (enc_tools (change_tool i f e)) = tool_block (enc_tools e)"
    "open_tools R (enc_tools (change_tool i f e)) = open_tools R (enc_tools e)" by (simp_all add: open_tools_def)
  then show ?thesis using assms unfolding anthropic_ok_def phase_ok_def blocks_defs by simp
qed

lemma piece_ok:
  assumes "anthropic_ok R h e" "enc_started e" "n \<in> open_text e \<union> open_tools R (enc_tools e)"
    and "anthropic_view x \<in> {Text_Piece n s, Json_Piece n s}"
  shows "anthropic_ok R h (push_frame x e)"
  using assms by (auto simp: anthropic_ok_def phase_ok_def blocks_defs open_text_def)

lemma stop_ok:
  assumes "anthropic_ok R h e" "enc_started e" "i \<in> R" "tool_block (enc_tools e) i = Some n" "open_text e = {}"
  shows "anthropic_ok (R - {i}) h (push_frame (content_block_stop (Some n)) e)"
proof -
  obtain os where os: "anthropic_run Not_Started (written h (enc_frames e))
      = Some (In_Blocks (anthropicNextContentIndex e) os)" "distinct os" "set os = open_tools R (enc_tools e)"
    using assms by (auto simp: anthropic_ok_def phase_ok_def)
  have "open_tools (R - {i}) (enc_tools e) = open_tools R (enc_tools e) - {n}" "n \<in> open_tools R (enc_tools e)"
    using assms by (auto simp: open_tools_def anthropic_ok_def blocks_defs)
  then show ?thesis using os assms by (simp add: anthropic_ok_def phase_ok_def blocks_defs)
qed

lemma anthropic_text_ok:
  assumes "anthropic_ok R h e"
  shows "anthropic_ok R h (anthropic_text s e)" "enc_started (anthropic_text s e)"
proof -
  let ?b = "ensureAnthropicStart e"
  have b: "anthropic_ok R h ?b" "enc_started ?b" using start_ok [OF assms] by simp_all
  define c where "c = (if \<not> anthropicTextStarted ?b \<or> anthropicTextClosed ?b
    then push_frame (content_block_start (Some (anthropicNextContentIndex ?b))
        (js_object [(''type'', Lit ''text''), (''text'', Lit '''')]))
      (?b\<lparr>anthropicTextStarted := True, anthropicTextClosed := False,
          anthropicTextIndex := Some (anthropicNextContentIndex ?b),
          anthropicNextContentIndex := Suc (anthropicNextContentIndex ?b)\<rparr>)
    else ?b)"
  have c: "anthropic_ok R h c \<and> enc_started c \<and> (\<exists>n. anthropicTextIndex c = Some n \<and> n \<in> open_text c)"
  proof (cases "\<not> anthropicTextStarted ?b \<or> anthropicTextClosed ?b")
    case True
    obtain os where os: "anthropic_run Not_Started (written h (enc_frames ?b))
        = Some (In_Blocks (anthropicNextContentIndex ?b) os)" "distinct os" "set os = open_tools R (enc_tools ?b)"
      using b True by (auto simp: anthropic_ok_def phase_ok_def open_text_def)
    have "anthropicNextContentIndex ?b \<notin> set os"
      using b(1) os(3) by (auto simp: anthropic_ok_def blocks_defs open_tools_def)
    moreover have "blocks_ok c" using b(1) True
      by (auto simp: c_def anthropic_ok_def blocks_defs less_Suc_eq)
    ultimately show ?thesis
      using True os b(2) by (auto simp: c_def anthropic_ok_def phase_ok_def open_text_def)
  next
    case False
    then show ?thesis using b by (auto simp: c_def anthropic_ok_def blocks_defs open_text_def)
  qed
  then obtain n where n: "anthropicTextIndex c = Some n" "n \<in> open_text c" by blast
  have e: "anthropic_text s e = push_frame (content_block_delta (anthropicTextIndex c)
      (js_object [(''type'', Lit ''text_delta''), (''text'', Txt s)])) c"
    by (simp add: anthropic_text_def c_def Let_def)
  show "anthropic_ok R h (anthropic_text s e)" "enc_started (anthropic_text s e)"
    unfolding e using c n by (auto intro!: piece_ok [where n = n and s = s])
qed

lemma arguments_ok:
  assumes "anthropic_ok R h e" "enc_started e" "i \<in> R" "tool_started (tool_of (enc_tools e) i)"
  shows "anthropic_ok R h (emit_anthropic_arguments d i e)" "enc_started (emit_anthropic_arguments d i e)"
proof -
  obtain n where n: "tool_contentIndex (tool_of (enc_tools e) i) = Some n"
    using assms by (auto simp: anthropic_ok_def blocks_defs)
  then have "n \<in> open_tools R (enc_tools e)" using assms by (auto simp: open_tools_def tool_block_def)
  then show "anthropic_ok R h (emit_anthropic_arguments d i e)"
    using assms n by (auto simp: emit_anthropic_arguments_def intro!: update_ok piece_ok [where n = n and s = d])
qed (use assms in \<open>simp add: emit_anthropic_arguments_def\<close>)

lemma tool_ok:
  assumes "anthropic_ok UNIV h e"
  shows "anthropic_ok UNIV h (anthropic_tool i a b c d e)"
proof -
  let ?u = "updateTool i a b c d (ensureAnthropicStart e)"
  have u: "anthropic_ok UNIV h ?u" "enc_started ?u"
    using start_ok [OF assms] by (auto simp: updateTool_def intro!: update_ok)
  show ?thesis
    using tool_started_ok [OF u, of i False]
    by (auto simp: anthropic_tool_def Let_def arguments_ok split: option.split)
qed

lemma started_open_text: "open_text e = {} \<Longrightarrow> anthropic_ok R h e \<Longrightarrow> open_text (ensureAnthropicToolStarted b i e) = {}"
proof -
  assume e: "open_text e = {}" "anthropic_ok R h e"
  then have "close_anthropic_text e = e" by (auto simp: close_anthropic_text_def open_text_def anthropic_ok_def blocks_defs)
  then show ?thesis using e(1) by (simp add: ensureAnthropicToolStarted_def Let_def) (simp add: open_text_def)
qed

lemma close_tool_ok:
  assumes "anthropic_ok R h e" "enc_started e" "i \<in> R" "open_text e = {}"
  shows "anthropic_ok (R - {i}) h (closeAnthropicTool e i) \<and> enc_started (closeAnthropicTool e i)
    \<and> open_text (closeAnthropicTool e i) = {}"
proof -
  let ?s = "ensureAnthropicToolStarted True i e"
  let ?a = "emit_anthropic_arguments (pending_arguments (tool_of (enc_tools ?s) i)) i ?s"
  have s: "anthropic_ok R h ?s" "enc_started ?s" using tool_started_ok [OF assms(1-3)] by simp_all
  have t: "tool_started (tool_of (enc_tools ?s) i)" by (simp add: ensureAnthropicToolStarted_def Let_def)
  have a: "anthropic_ok R h ?a" "enc_started ?a" using arguments_ok [OF s assms(3) t] by simp_all
  have "open_text ?s = {}" using started_open_text assms(1,4) by blast
  then have o: "open_text ?a = {}" by (simp add: emit_anthropic_arguments_def)
  have "tool_started (tool_of (enc_tools ?a) i)" using t by (simp add: emit_anthropic_arguments_def)
  then obtain n where "tool_block (enc_tools ?a) i = Some n" "tool_contentIndex (tool_of (enc_tools ?a) i) = Some n"
    using a(1) by (auto simp: anthropic_ok_def blocks_defs tool_block_def)
  with stop_ok [OF a assms(3) _ o] a o show ?thesis
    by (simp add: closeAnthropicTool_def Let_def)
qed

lemma close_tools_ok:
  "anthropic_ok R h e \<Longrightarrow> enc_started e \<Longrightarrow> open_text e = {} \<Longrightarrow> distinct is \<Longrightarrow> set is \<subseteq> R \<Longrightarrow>
    anthropic_ok (R - set is) h (foldl closeAnthropicTool e is) \<and> enc_started (foldl closeAnthropicTool e is)
    \<and> open_text (foldl closeAnthropicTool e is) = {}"
proof (induction "is" arbitrary: R e)
  case (Cons i "is")
  have "anthropic_ok (R - {i}) h (closeAnthropicTool e i) \<and> enc_started (closeAnthropicTool e i)
    \<and> open_text (closeAnthropicTool e i) = {}" using Cons.prems by (intro close_tool_ok) auto
  moreover have "set is \<subseteq> R - {i}" using Cons.prems by auto
  moreover have "R - set (i # is) = R - {i} - set is" by auto
  ultimately show ?case using Cons.IH [of "R - {i}" "closeAnthropicTool e i"] Cons.prems by simp
qed simp

section \<open>The input of the tool calls\<close>

definition started_when_known :: "stream_encoder \<Rightarrow> bool" where
  "started_when_known e \<longleftrightarrow>
     (\<forall>i. tool_started (tool_of (enc_tools e) i)
        \<longleftrightarrow> tool_id (tool_of (enc_tools e) i) \<noteq> [] \<and> tool_name (tool_of (enc_tools e) i) \<noteq> [])"

definition block_input_ok :: "anthropic_frame list \<Rightarrow> (nat \<times> encoded_tool) list \<Rightarrow> nat \<Rightarrow> bool" where
  "block_input_ok vs ts i \<longleftrightarrow>
     (case tool_block ts i of
        None \<Rightarrow> tool_arguments (tool_of ts i) = [] \<and> emittedArguments (tool_of ts i) = 0
      | Some n \<Rightarrow> shown_input n vs = tool_arguments (tool_of ts i)
          \<and> emittedArguments (tool_of ts i) = length (tool_arguments (tool_of ts i)))"

definition inputs_ok :: "out_frame list \<Rightarrow> stream_encoder \<Rightarrow> bool" where
  "inputs_ok h e \<longleftrightarrow>
     (\<forall>i. block_input_ok (written h (enc_frames e)) (enc_tools e) i)
     \<and> (\<forall>n \<ge> anthropicNextContentIndex e. shown_input n (written h (enc_frames e)) = [])"

lemma inputs_okI:
  "(\<And>i. block_input_ok (written h (enc_frames e)) (enc_tools e) i) \<Longrightarrow>
    (\<And>n. anthropicNextContentIndex e \<le> n \<Longrightarrow> shown_input n (written h (enc_frames e)) = []) \<Longrightarrow> inputs_ok h e"
  by (simp add: inputs_ok_def)

lemma close_text_same [simp]:
  "enc_tools (close_anthropic_text e) = enc_tools e"
  "enc_started (close_anthropic_text e) = enc_started e" "enc_id (close_anthropic_text e) = enc_id e"
  "anthropicNextContentIndex (close_anthropic_text e) = anthropicNextContentIndex e"
  by (simp_all add: close_anthropic_text_def)

lemma close_text_shown:
  assumes "blocks_ok e"
  shows "shown_input n (written h (enc_frames (close_anthropic_text e))) = shown_input n (written h (enc_frames e))"
    "shown_text (written h (enc_frames (close_anthropic_text e))) = shown_text (written h (enc_frames e))"
  using assms by (auto simp: close_anthropic_text_def blocks_defs)

lemma inputs_same:
  assumes "inputs_ok h e" "enc_tools e' = enc_tools e"
    "anthropicNextContentIndex e \<le> anthropicNextContentIndex e'"
    "\<And>n. shown_input n (written h (enc_frames e')) = shown_input n (written h (enc_frames e))"
  shows "inputs_ok h e'"
proof -
  have "shown_input n (written h (enc_frames e')) = []" if "anthropicNextContentIndex e' \<le> n" for n
    using assms(1,3,4) that by (simp add: inputs_ok_def)
  moreover have "block_input_ok (written h (enc_frames e')) (enc_tools e') i" for i
  proof -
    have "block_input_ok (written h (enc_frames e)) (enc_tools e) i" using assms(1) by (simp add: inputs_ok_def)
    then show ?thesis using assms(2,4) by (cases "tool_block (enc_tools e) i") (simp_all add: block_input_ok_def)
  qed
  ultimately show ?thesis by (simp add: inputs_ok_def)
qed

lemma inputs_start:
  assumes "inputs_ok h e"
  shows "inputs_ok h (ensureAnthropicStart e)"
  by (rule inputs_same [OF assms]) (auto simp: ensureAnthropicStart_def)

lemma inputs_text:
  assumes "inputs_ok h e" "blocks_ok (ensureAnthropicStart e)"
  shows "inputs_ok h (anthropic_text s e)"
  by (rule inputs_same [OF inputs_start [OF assms(1)]])
    (use assms(2) in \<open>auto simp: anthropic_text_def Let_def blocks_defs\<close>)

text \<open>A block starts for a tool of which nothing was emitted.\<close>

lemma tool_start_simps:
  assumes "\<not> tool_started (tool_of (enc_tools e) i)"
    "b \<or> tool_id (tool_of (enc_tools e) i) \<noteq> [] \<and> tool_name (tool_of (enc_tools e) i) \<noteq> []" "blocks_ok e"
  shows "enc_tools (ensureAnthropicToolStarted b i e)
      = AList.update i (tool_of (enc_tools e) i \<lparr>tool_started := True, tool_contentIndex := Some (anthropicNextContentIndex e)\<rparr>)
          (enc_tools e)"
    "anthropicNextContentIndex (ensureAnthropicToolStarted b i e) = Suc (anthropicNextContentIndex e)"
    "shown_input n (written h (enc_frames (ensureAnthropicToolStarted b i e))) = shown_input n (written h (enc_frames e))"
    "shown_text (written h (enc_frames (ensureAnthropicToolStarted b i e))) = shown_text (written h (enc_frames e))"
    "Tool_Block (anthropicNextContentIndex e) \<in> set (written h (enc_frames (ensureAnthropicToolStarted b i e)))"
  using assms close_text_shown [OF assms(3)] by (auto simp: ensureAnthropicToolStarted_def Let_def)

lemma tool_start_none:
  "tool_started (tool_of (enc_tools e) i)
    \<or> \<not> b \<and> (tool_id (tool_of (enc_tools e) i) = [] \<or> tool_name (tool_of (enc_tools e) i) = []) \<Longrightarrow>
    ensureAnthropicToolStarted b i e = e"
  by (auto simp: ensureAnthropicToolStarted_def)

lemma emit_simps:
  assumes "tool_contentIndex (tool_of (enc_tools e) i) = Some n"
  shows "shown_input k (written h (enc_frames (emit_anthropic_arguments d i e)))
      = shown_input k (written h (enc_frames e)) @ (if k = n then d else [])"
    "shown_text (written h (enc_frames (emit_anthropic_arguments d i e))) = shown_text (written h (enc_frames e))"
    "tool_block (enc_tools (emit_anthropic_arguments d i e)) = tool_block (enc_tools e)"
    "tool_arguments (tool_of (enc_tools (emit_anthropic_arguments d i e)) j) = tool_arguments (tool_of (enc_tools e) j)"
    "emittedArguments (tool_of (enc_tools (emit_anthropic_arguments d i e)) j)
      = (if j = i \<and> d \<noteq> [] then length (tool_arguments (tool_of (enc_tools e) i))
         else emittedArguments (tool_of (enc_tools e) j))"
    "anthropicNextContentIndex (emit_anthropic_arguments d i e) = anthropicNextContentIndex e"
  using assms by (auto simp: emit_anthropic_arguments_def tool_block_def fun_eq_iff)

lemma start_simps [simp]:
  "enc_tools (ensureAnthropicStart e) = enc_tools e"
  "anthropicNextContentIndex (ensureAnthropicStart e) = anthropicNextContentIndex e"
  "shown_text (written h (enc_frames (ensureAnthropicStart e))) = shown_text (written h (enc_frames e))"
  by (simp_all add: ensureAnthropicStart_def)

lemma emit_started [simp]: "tool_started (tool_of (enc_tools (emit_anthropic_arguments d i e)) j)
    = tool_started (tool_of (enc_tools e) j)"
  "tool_id (tool_of (enc_tools (emit_anthropic_arguments d i e)) j) = tool_id (tool_of (enc_tools e) j)"
  "tool_name (tool_of (enc_tools (emit_anthropic_arguments d i e)) j) = tool_name (tool_of (enc_tools e) j)"
  by (simp_all add: emit_anthropic_arguments_def)

lemma known_tool:
  assumes "started_when_known e"
  shows "started_when_known (anthropic_tool i a b c d e)"
proof -
  let ?u = "updateTool i a b c d (ensureAnthropicStart e)" and ?k = "ensureAnthropicToolStarted False i (updateTool i a b c d (ensureAnthropicStart e))"
  have other: "tool_of (enc_tools ?u) j = tool_of (enc_tools e) j" if "j \<noteq> i" for j
    using that by (simp add: updateTool_def)
  have old: "tool_id (tool_of (enc_tools ?u) i) \<noteq> [] \<and> tool_name (tool_of (enc_tools ?u) i) \<noteq> []"
    if "tool_started (tool_of (enc_tools ?u) i)"
    using that assms by (auto simp: updateTool_def started_when_known_def merged_nonempty split: option.split)
  have k: "started_when_known ?k"
    unfolding started_when_known_def
  proof
    fix j
    show "tool_started (tool_of (enc_tools ?k) j)
      \<longleftrightarrow> tool_id (tool_of (enc_tools ?k) j) \<noteq> [] \<and> tool_name (tool_of (enc_tools ?k) j) \<noteq> []"
      using other [of j] old assms
      by (cases "j = i") (auto simp: ensureAnthropicToolStarted_def Let_def started_when_known_def)
  qed
  then show ?thesis
    by (auto simp: anthropic_tool_def Let_def started_when_known_def split: option.split)
qed

definition argument_text :: "js_text option \<Rightarrow> js_text" where
  "argument_text c = (case c of None \<Rightarrow> [] | Some x \<Rightarrow> x)"

lemma input_ok_cong:
  "tool_of ts' i = tool_of ts i \<Longrightarrow> (\<And>n. shown_input n vs' = shown_input n vs) \<Longrightarrow>
    block_input_ok vs' ts' i = block_input_ok vs ts i"
  by (simp only: block_input_ok_def tool_block_def)

lemma input_okI:
  "tool_block ts i = Some n \<Longrightarrow> shown_input n vs = tool_arguments (tool_of ts i) \<Longrightarrow>
    emittedArguments (tool_of ts i) = length (tool_arguments (tool_of ts i)) \<Longrightarrow> block_input_ok vs ts i"
  "tool_block ts i = None \<Longrightarrow> tool_arguments (tool_of ts i) = [] \<Longrightarrow> emittedArguments (tool_of ts i) = 0 \<Longrightarrow>
    block_input_ok vs ts i"
  by (simp_all add: block_input_ok_def)

text \<open>Emitting what a tool still has to say, when the others have said everything.\<close>

lemma inputs_emit:
  assumes "blocks_ok e" "tool_block (enc_tools e) i = Some n"
    and "\<And>j. j \<noteq> i \<Longrightarrow> block_input_ok (written h (enc_frames e)) (enc_tools e) j"
    and "\<And>k. anthropicNextContentIndex e \<le> k \<Longrightarrow> shown_input k (written h (enc_frames e)) = []"
    and "shown_input n (written h (enc_frames e)) @ d = tool_arguments (tool_of (enc_tools e) i)"
    and "d = [] \<Longrightarrow> emittedArguments (tool_of (enc_tools e) i) = length (tool_arguments (tool_of (enc_tools e) i))"
  shows "inputs_ok h (emit_anthropic_arguments d i e)"
proof -
  let ?e = "emit_anthropic_arguments d i e"
  have n: "tool_contentIndex (tool_of (enc_tools e) i) = Some n"
    using assms(2) by (simp add: tool_block_def split: if_splits)
  note simps = emit_simps [OF n]
  have "block_input_ok (written h (enc_frames ?e)) (enc_tools ?e) j" for j
  proof (cases "j = i")
    case True
    then show ?thesis using assms(2,5,6) by (intro input_okI(1) [where n = n]) (auto simp: simps)
  next
    case False
    have "tool_block (enc_tools e) j \<noteq> Some n" using assms(1,2) False by (auto simp: blocks_defs)
    then show ?thesis
      using assms(3) [OF False] False unfolding block_input_ok_def simps
      by (cases "tool_block (enc_tools e) j") (auto simp: simps)
  qed
  moreover have "n < anthropicNextContentIndex e" using assms(1,2) by (auto simp: blocks_defs)
  ultimately show ?thesis using assms(4) by (auto simp: inputs_ok_def simps)
qed

text \<open>The first text of a tool whose block starts.\<close>

lemma inputs_first:
  assumes "anthropic_ok UNIV h u" "enc_started u" "\<not> tool_started (tool_of (enc_tools u) i)"
    and known: "tool_id (tool_of (enc_tools u) i) \<noteq> [] \<and> tool_name (tool_of (enc_tools u) i) \<noteq> []"
    and others: "\<forall>j. j \<noteq> i \<longrightarrow> block_input_ok (written h (enc_frames u)) (enc_tools u) j"
    and fresh: "\<forall>n \<ge> anthropicNextContentIndex u. shown_input n (written h (enc_frames u)) = []"
    and "emittedArguments (tool_of (enc_tools u) i) = 0"
  defines "k \<equiv> ensureAnthropicToolStarted False i u"
  shows "tool_started (tool_of (enc_tools k) i)" "emittedArguments (tool_of (enc_tools k) i) = 0"
    and "tool_arguments (tool_of (enc_tools k) i) = tool_arguments (tool_of (enc_tools u) i)"
    and "inputs_ok h (emit_anthropic_arguments (tool_arguments (tool_of (enc_tools u) i)) i k)"
proof -
  have blocks: "blocks_ok u" using assms(1) by (simp add: anthropic_ok_def)
  note start = tool_start_simps [where b = False, OF assms(3) disjI2 [OF known] blocks, folded k_def]
  let ?n = "anthropicNextContentIndex u"
  show on: "tool_started (tool_of (enc_tools k) i)" "emittedArguments (tool_of (enc_tools k) i) = 0"
    "tool_arguments (tool_of (enc_tools k) i) = tool_arguments (tool_of (enc_tools u) i)"
    using assms(7) by (simp_all add: start)
  have kb: "blocks_ok k" using tool_started_ok [OF assms(1,2), of i False] by (simp add: k_def anthropic_ok_def)
  have block: "tool_block (enc_tools k) i = Some ?n" by (simp add: start tool_block_def)
  have other: "block_input_ok (written h (enc_frames k)) (enc_tools k) j" if "j \<noteq> i" for j
  proof -
    have "block_input_ok (written h (enc_frames u)) (enc_tools u) j" using others that by blast
    then show ?thesis using that by (subst input_ok_cong [OF _ start(3)]) (simp_all add: start(1))
  qed
  have new: "shown_input n (written h (enc_frames k)) = []" if "anthropicNextContentIndex k \<le> n" for n
    using fresh that by (simp add: start)
  have "shown_input ?n (written h (enc_frames k)) = []" using fresh by (simp add: start)
  then show "inputs_ok h (emit_anthropic_arguments (tool_arguments (tool_of (enc_tools u) i)) i k)"
    using on by (intro inputs_emit [OF kb block other new]) simp_all
qed

lemma inputs_tool:
  assumes "anthropic_ok UNIV h e" "inputs_ok h e" "tools_recorded seen e"
    and "named_before seen (Tool_Call_Delta i a b c d out)"
  shows "inputs_ok h (anthropic_tool i a b c d e)"
proof -
  let ?s = "ensureAnthropicStart e"
  define u where "u = updateTool i a b c d ?s"
  let ?old = "tool_of (enc_tools e) i" and ?t = "tool_of (enc_tools u) i"
  have u: "anthropic_ok UNIV h u" "enc_started u"
    using start_ok [OF assms(1)] by (auto simp: u_def updateTool_def intro!: update_ok)
  then have blocks: "blocks_ok u" by (simp add: anthropic_ok_def)
  have t: "tool_started ?t = tool_started ?old" "tool_contentIndex ?t = tool_contentIndex ?old"
    "emittedArguments ?t = emittedArguments ?old" by (simp_all add: u_def updateTool_def)
  have arguments: "tool_arguments ?t = tool_arguments ?old @ argument_text c"
    by (cases c) (simp_all add: u_def updateTool_def argument_text_def)
  note t = t arguments
  have same: "tool_of (enc_tools u) j = tool_of (enc_tools e) j" if "j \<noteq> i" for j
    using that by (simp add: u_def updateTool_def)
  have w: "written h (enc_frames u) = written h (enc_frames ?s)" by (simp add: u_def updateTool_def)
  have nxt: "anthropicNextContentIndex u = anthropicNextContentIndex e" by (simp add: u_def updateTool_def)
  have s: "inputs_ok h ?s" by (rule inputs_start [OF assms(2)])
  have others: "block_input_ok (written h (enc_frames u)) (enc_tools u) j" if "j \<noteq> i" for j
    using s input_ok_cong [OF same [OF that] refl] unfolding w by (simp add: inputs_ok_def)
  have fresh: "shown_input n (written h (enc_frames u)) = []" if "anthropicNextContentIndex u \<le> n" for n
    using s that unfolding w nxt by (simp add: inputs_ok_def)
  have i: "block_input_ok (written h (enc_frames u)) (enc_tools e) i" using s unfolding w by (simp add: inputs_ok_def)
  let ?k = "ensureAnthropicToolStarted False i u"
  have result: "anthropic_tool i a b c d e = (case c of None \<Rightarrow> ?k | Some x \<Rightarrow>
      if tool_started (tool_of (enc_tools ?k) i)
      then emit_anthropic_arguments (if tool_started ?t then x else pending_arguments (tool_of (enc_tools ?k) i)) i ?k
      else ?k)"
    unfolding u_def by (simp add: anthropic_tool_def Let_def)
  show ?thesis
  proof (cases "tool_started ?old")
    case True
    then obtain n where n: "tool_block (enc_tools e) i = Some n"
      using assms(1) by (auto simp: anthropic_ok_def blocks_defs tool_block_def)
    have k: "?k = u" using True t by (intro tool_start_none) simp
    have block: "tool_block (enc_tools u) i = Some n" using n t by (simp add: tool_block_def split: if_splits)
    have emit: "inputs_ok h (emit_anthropic_arguments (argument_text c) i u)"
      using i n t by (intro inputs_emit [OF blocks block others fresh]) (auto simp: block_input_ok_def)
    then show ?thesis
      using True t unfolding result k
      by (cases c) (simp_all add: argument_text_def emit_anthropic_arguments_def)
  next
    case False
    have empty: "tool_arguments ?old = []" "emittedArguments ?old = 0"
      using i False by (simp_all add: block_input_ok_def tool_block_def)
    show ?thesis
    proof (cases "tool_id ?t = [] \<or> tool_name ?t = []")
      case True
      have k: "?k = u" using True by (intro tool_start_none) simp
      have "tools_recorded seen ?s" using assms(3) by (rule recorded_same) simp
      from recorded_update [OF this, of i a b c d out] have "argument_text c = []"
        using True assms(4) unfolding u_def [symmetric]
        by (cases c; cases "argument_text c") (auto simp: tools_recorded_def argument_text_def)
      then have "block_input_ok (written h (enc_frames u)) (enc_tools u) i"
        using False empty t by (intro input_okI(2)) (simp_all add: tool_block_def)
      then show ?thesis using others fresh False t unfolding result k
        by (cases c) (auto simp: inputs_ok_def, (metis+)?)
    next
      case known: False
      have off: "\<not> tool_started ?t" "emittedArguments ?t = 0" "tool_arguments ?t = argument_text c"
        using False t empty by simp_all
      have "tool_id ?t \<noteq> [] \<and> tool_name ?t \<noteq> []"
        "\<forall>j. j \<noteq> i \<longrightarrow> block_input_ok (written h (enc_frames u)) (enc_tools u) j"
        "\<forall>n \<ge> anthropicNextContentIndex u. shown_input n (written h (enc_frames u)) = []"
        using known others fresh by blast+
      from inputs_first [OF u off(1) this off(2)]
      have "tool_started (tool_of (enc_tools ?k) i)" "emittedArguments (tool_of (enc_tools ?k) i) = 0"
        "tool_arguments (tool_of (enc_tools ?k) i) = argument_text c"
        "inputs_ok h (emit_anthropic_arguments (argument_text c) i ?k)"
        by (simp_all only: off(3))
      moreover have "emit_anthropic_arguments [] i ?k = ?k" by (simp add: emit_anthropic_arguments_def)
      ultimately show ?thesis
        using off unfolding result by (cases c) (simp_all add: argument_text_def pending_arguments_def)
    qed
  qed
qed

section \<open>Ending the message\<close>

lemma tool_text:
  assumes "blocks_ok (updateTool i a b c d (ensureAnthropicStart e))"
  shows "shown_text (written h (enc_frames (anthropic_tool i a b c d e))) = shown_text (written h (enc_frames e))"
proof -
  define u where "u = updateTool i a b c d (ensureAnthropicStart e)"
  let ?k = "ensureAnthropicToolStarted False i u"
  have blocks: "blocks_ok u" using assms by (simp add: u_def)
  have u: "shown_text (written h (enc_frames u)) = shown_text (written h (enc_frames e))"
    by (simp add: u_def updateTool_def)
  have k: "shown_text (written h (enc_frames ?k)) = shown_text (written h (enc_frames u))"
    using tool_start_simps(4) [OF _ _ blocks, of i False h] tool_start_none [of u i False]
    by (cases "tool_started (tool_of (enc_tools u) i)
      \<or> tool_id (tool_of (enc_tools u) i) = [] \<or> tool_name (tool_of (enc_tools u) i) = []") auto
  have e: "shown_text (written h (enc_frames (emit_anthropic_arguments x i ?k))) = shown_text (written h (enc_frames ?k))"
    if "tool_started (tool_of (enc_tools ?k) i)" for x
  proof -
    have "tool_contentIndex (tool_of (enc_tools ?k) i) \<noteq> None"
      using that blocks by (auto simp: ensureAnthropicToolStarted_def Let_def blocks_defs split: if_splits)
    then show ?thesis using emit_simps(2) [of ?k i] by fastforce
  qed
  have "enc_frames (anthropic_tool i a b c d e) = enc_frames ?k
    \<or> tool_started (tool_of (enc_tools ?k) i)
      \<and> (\<exists>x. enc_frames (anthropic_tool i a b c d e) = enc_frames (emit_anthropic_arguments x i ?k))"
    unfolding u_def by (auto simp: anthropic_tool_def Let_def split: option.split)
  then show ?thesis using e k u by auto
qed

text \<open>Closing a tool, when its arguments are emitted as they come.\<close>

lemma close_tool_content:
  assumes "anthropic_ok R h e" "enc_started e" "i \<in> R"
  shows "shown_text (written h (enc_frames (closeAnthropicTool e i))) = shown_text (written h (enc_frames e))"
    and "inputs_ok h e \<Longrightarrow> inputs_ok h (closeAnthropicTool e i)"
    and "tool_started (tool_of (enc_tools (closeAnthropicTool e i)) i)"
    and "tool_started (tool_of (enc_tools e) j) \<Longrightarrow> tool_started (tool_of (enc_tools (closeAnthropicTool e i)) j)"
    and "tool_arguments (tool_of (enc_tools (closeAnthropicTool e i)) j) = tool_arguments (tool_of (enc_tools e) j)"
proof -
  let ?k = "ensureAnthropicToolStarted True i e"
  define d where "d = pending_arguments (tool_of (enc_tools ?k) i)"
  let ?a = "emit_anthropic_arguments d i ?k"
  have result: "closeAnthropicTool e i = push_frame (content_block_stop (tool_contentIndex (tool_of (enc_tools ?a) i))) ?a"
    by (simp add: closeAnthropicTool_def Let_def d_def)
  have blocks: "blocks_ok e" using assms by (simp add: anthropic_ok_def)
  have k: "anthropic_ok R h ?k" "enc_started ?k" using tool_started_ok [OF assms] by simp_all
  have on: "tool_started (tool_of (enc_tools ?k) i)" by (simp add: ensureAnthropicToolStarted_def Let_def)
  then obtain n where n: "tool_contentIndex (tool_of (enc_tools ?k) i) = Some n"
    using k by (auto simp: anthropic_ok_def blocks_defs)
  have an: "tool_contentIndex (tool_of (enc_tools ?a) i) = Some n" using n by (simp add: emit_anthropic_arguments_def)
  have kt: "shown_text (written h (enc_frames ?k)) = shown_text (written h (enc_frames e))"
    using tool_start_simps(4) [OF _ _ blocks, of i True h] tool_start_none [of e i True]
    by (cases "tool_started (tool_of (enc_tools e) i)") auto
  then show "shown_text (written h (enc_frames (closeAnthropicTool e i))) = shown_text (written h (enc_frames e))"
    using emit_simps(2) [OF n] an unfolding result by simp
  show "tool_started (tool_of (enc_tools (closeAnthropicTool e i)) i)" using on unfolding result by simp
  show "tool_started (tool_of (enc_tools (closeAnthropicTool e i)) j)" if "tool_started (tool_of (enc_tools e) j)"
    using that unfolding result by (simp add: ensureAnthropicToolStarted_def Let_def)
  show "tool_arguments (tool_of (enc_tools (closeAnthropicTool e i)) j) = tool_arguments (tool_of (enc_tools e) j)"
    unfolding result using emit_simps(4) [OF n] by (simp add: ensureAnthropicToolStarted_def Let_def)
  show "inputs_ok h (closeAnthropicTool e i)" if in_ok: "inputs_ok h e"
  proof -
    have ik: "inputs_ok h ?k"
    proof (cases "tool_started (tool_of (enc_tools e) i)")
      case True
      then show ?thesis using in_ok tool_start_none [of e i True] by simp
    next
      case False
      note start = tool_start_simps [OF False _ blocks, of True]
      have "block_input_ok (written h (enc_frames e)) (enc_tools e) i" using in_ok by (simp add: inputs_ok_def)
      then have "tool_arguments (tool_of (enc_tools e) i) = []" "emittedArguments (tool_of (enc_tools e) i) = 0"
        using False by (simp_all add: block_input_ok_def tool_block_def)
      moreover have "shown_input (anthropicNextContentIndex e) (written h (enc_frames e)) = []"
        using in_ok by (simp add: inputs_ok_def)
      ultimately have "block_input_ok (written h (enc_frames ?k)) (enc_tools ?k) i"
        by (intro input_okI(1) [where n = "anthropicNextContentIndex e"]) (simp_all add: start tool_block_def)
      moreover have "block_input_ok (written h (enc_frames ?k)) (enc_tools ?k) j" if "j \<noteq> i" for j
      proof -
        have "block_input_ok (written h (enc_frames e)) (enc_tools e) j" using in_ok unfolding inputs_ok_def by blast
        then show ?thesis using that by (subst input_ok_cong [OF _ start(3)]) (simp_all add: start(1))
      qed
      moreover have "shown_input m (written h (enc_frames ?k)) = []" if "anthropicNextContentIndex ?k \<le> m" for m
        using in_ok that by (simp add: start inputs_ok_def)
      ultimately show ?thesis by (intro inputs_okI) (metis, simp)
    qed
    then have "block_input_ok (written h (enc_frames ?k)) (enc_tools ?k) i" by (simp add: inputs_ok_def)
    then have "d = []" using on n by (simp add: d_def pending_arguments_def block_input_ok_def tool_block_def)
    then have a: "?a = ?k" by (simp add: emit_anthropic_arguments_def)
    show ?thesis unfolding result a by (rule inputs_same [OF ik]) (simp_all add: n)
  qed
qed

lemma close_tools_content:
  assumes "anthropic_ok R h e" "enc_started e" "open_text e = {}" "distinct is" "set is \<subseteq> R"
  defines "e' \<equiv> foldl closeAnthropicTool e is"
  shows "shown_text (written h (enc_frames e')) = shown_text (written h (enc_frames e))
    \<and> (inputs_ok h e \<longrightarrow> inputs_ok h e')
    \<and> (\<forall>i\<in>set is. tool_started (tool_of (enc_tools e') i))
    \<and> (\<forall>j. tool_started (tool_of (enc_tools e) j) \<longrightarrow> tool_started (tool_of (enc_tools e') j))
    \<and> (\<forall>j. tool_arguments (tool_of (enc_tools e') j) = tool_arguments (tool_of (enc_tools e) j))"
  using assms(1-5) unfolding e'_def
proof (induction "is" arbitrary: R e)
  case (Cons i "is")
  let ?c = "closeAnthropicTool e i"
  have i: "i \<in> R" using Cons.prems(5) by simp
  have c: "anthropic_ok (R - {i}) h ?c \<and> enc_started ?c \<and> open_text ?c = {}"
    using close_tool_ok [OF Cons.prems(1,2) i Cons.prems(3)] .
  have "set is \<subseteq> R - {i}" "distinct is" using Cons.prems(4,5) by auto
  with Cons.IH [of "R - {i}" ?c] c have IH: "shown_text (written h (enc_frames (foldl closeAnthropicTool ?c is)))
      = shown_text (written h (enc_frames ?c))
    \<and> (inputs_ok h ?c \<longrightarrow> inputs_ok h (foldl closeAnthropicTool ?c is))
    \<and> (\<forall>i\<in>set is. tool_started (tool_of (enc_tools (foldl closeAnthropicTool ?c is)) i))
    \<and> (\<forall>j. tool_started (tool_of (enc_tools ?c) j) \<longrightarrow>
          tool_started (tool_of (enc_tools (foldl closeAnthropicTool ?c is)) j))
    \<and> (\<forall>j. tool_arguments (tool_of (enc_tools (foldl closeAnthropicTool ?c is)) j)
          = tool_arguments (tool_of (enc_tools ?c) j))" by blast
  note content = close_tool_content [OF Cons.prems(1,2) i]
  show ?case using IH content by simp
qed simp

definition anthropic_running :: "canonical_event list \<Rightarrow> out_frame list \<Rightarrow> stream_encoder \<Rightarrow> bool" where
  "anthropic_running seen h e \<longleftrightarrow>
     enc_protocol e = Anthropic_Messages \<and> \<not> enc_done e \<and> \<not> enc_stopped e
     \<and> (enc_failed e \<longleftrightarrow> list_ex failure_event seen)
     \<and> anthropic_ok UNIV h e \<and> tools_recorded seen e \<and> started_when_known e
     \<and> shown_text (written h (enc_frames e)) = said_text seen
     \<and> (named_first [] seen \<longrightarrow> inputs_ok h e)"

definition anthropic_over :: "canonical_event list \<Rightarrow> out_frame list \<Rightarrow> stream_encoder \<Rightarrow> bool" where
  "anthropic_over seen h e \<longleftrightarrow>
     (let vs = written h (enc_frames e)
      in shown_text vs = said_text seen
       \<and> (\<exists>p. anthropic_run Not_Started vs = Some p \<and> (p = Message_Over \<longleftrightarrow> \<not> list_ex failure_event seen))
       \<and> (\<not> list_ex failure_event seen \<longrightarrow>
            distinct (map (\<lambda>i. tool_contentIndex (tool_of (enc_tools e) i)) (tool_indices e))
            \<and> set (tool_indices e) = {i. Some i \<in> called_tool ` set seen}
            \<and> (named_first [] seen \<longrightarrow>
                (\<forall>i \<in> set (tool_indices e). \<exists>n. tool_contentIndex (tool_of (enc_tools e) i) = Some n
                   \<and> shown_input n vs = said_input i seen))))"

text \<open>Parts of the state the invariant does not look at.\<close>

lemma running_same:
  assumes "anthropic_running seen h e"
    "enc_protocol e' = enc_protocol e" "enc_done e' = enc_done e" "enc_stopped e' = enc_stopped e"
    "enc_failed e' = enc_failed e" "enc_started e' = enc_started e" "enc_tools e' = enc_tools e"
    "anthropicNextContentIndex e' = anthropicNextContentIndex e" "anthropicTextIndex e' = anthropicTextIndex e"
    "anthropicTextStarted e' = anthropicTextStarted e" "anthropicTextClosed e' = anthropicTextClosed e"
    "written h' (enc_frames e') = written h (enc_frames e)"
  shows "anthropic_running seen h' e'"
proof -
  have o: "open_text e' = open_text e" using assms by (simp add: open_text_def)
  show ?thesis
    using assms(1) unfolding anthropic_running_def anthropic_ok_def phase_ok_def blocks_defs tools_recorded_def
      started_when_known_def inputs_ok_def tool_indices_def assms(2-) o .
qed

lemma running_note:
  assumes "anthropic_running seen h e"
  shows "anthropic_running seen h (note_start ev e)"
proof -
  obtain i m c where n: "note_start ev e = e\<lparr>enc_id := i, enc_model := m, enc_createdAt := c\<rparr>"
    using note_start_eq [of ev e] by blast
  show ?thesis unfolding n by (rule running_same [OF assms]) simp_all
qed

lemma running_plain:
  assumes "anthropic_running seen h e" "called_tool ev = None" "\<not> failure_event ev" "said_text [ev] = []"
  shows "anthropic_running (seen @ [ev]) h e"
proof -
  have "tools_recorded (seen @ [ev]) e" using assms by (auto simp: anthropic_running_def intro: recorded_other)
  then show ?thesis using assms by (simp add: anthropic_running_def)
qed

lemma running_failure:
  assumes "anthropic_running seen h e" "failure_event ev" "anthropic_view x = Other_Frame"
  shows "anthropic_running (seen @ [ev]) h (push_frame x (e\<lparr>enc_failed := True\<rparr>))"
proof -
  let ?e = "push_frame x (e\<lparr>enc_failed := True\<rparr>)"
  have plain: "called_tool ev = None" "said_text [ev] = []" using assms(2) by (cases ev; simp)+
  then have "tools_recorded (seen @ [ev]) ?e"
    using assms(1) by (auto simp: anthropic_running_def intro: recorded_other)
  moreover have "anthropic_ok UNIV h ?e"
    using assms(1,3) by (auto simp: anthropic_running_def anthropic_ok_def phase_ok_def blocks_defs open_text_def)
  moreover have "inputs_ok h ?e" if "inputs_ok h e"
    by (rule inputs_same [OF that]) (simp_all add: assms(3))
  ultimately show ?thesis
    using assms plain by (auto simp: anthropic_running_def started_when_known_def)
qed

lemma running_text:
  assumes "anthropic_running seen h e"
  shows "anthropic_running (seen @ [Text_Delta s i k]) h (anthropic_text s e)"
proof -
  have ok: "anthropic_ok UNIV h e" using assms by (simp add: anthropic_running_def)
  have s: "anthropic_ok UNIV h (ensureAnthropicStart e)" using start_ok [OF ok] by simp
  have tools: "enc_tools (anthropic_text s e) = enc_tools e" by (simp add: anthropic_text_def Let_def)
  have flags: "enc_protocol (anthropic_text s e) = enc_protocol e" "enc_done (anthropic_text s e) = enc_done e"
    "enc_stopped (anthropic_text s e) = enc_stopped e" "enc_failed (anthropic_text s e) = enc_failed e"
    by (simp_all add: anthropic_text_def ensureAnthropicStart_def Let_def)
  have "shown_text (written h (enc_frames (anthropic_text s e))) = shown_text (written h (enc_frames e)) @ s"
    using s by (auto simp: anthropic_text_def Let_def anthropic_ok_def blocks_defs)
  moreover have "tools_recorded (seen @ [Text_Delta s i k]) (anthropic_text s e)"
    using assms tools by (auto simp: anthropic_running_def intro: recorded_other)
  moreover have "inputs_ok h (anthropic_text s e)" if "inputs_ok h e"
    using inputs_text [OF that] s by (simp add: anthropic_ok_def)
  ultimately show ?thesis
    using assms anthropic_text_ok [OF ok] flags tools by (simp add: anthropic_running_def started_when_known_def)
qed

lemma flags_step [simp]:
  "enc_protocol (updateTool i a b c d e) = enc_protocol e" "enc_done (updateTool i a b c d e) = enc_done e"
  "enc_stopped (updateTool i a b c d e) = enc_stopped e" "enc_failed (updateTool i a b c d e) = enc_failed e"
  "enc_protocol (ensureAnthropicStart e) = enc_protocol e" "enc_done (ensureAnthropicStart e) = enc_done e"
  "enc_stopped (ensureAnthropicStart e) = enc_stopped e" "enc_failed (ensureAnthropicStart e) = enc_failed e"
  "enc_protocol (close_anthropic_text e) = enc_protocol e" "enc_done (close_anthropic_text e) = enc_done e"
  "enc_stopped (close_anthropic_text e) = enc_stopped e" "enc_failed (close_anthropic_text e) = enc_failed e"
  "enc_protocol (emit_anthropic_arguments x i e) = enc_protocol e"
  "enc_done (emit_anthropic_arguments x i e) = enc_done e"
  "enc_stopped (emit_anthropic_arguments x i e) = enc_stopped e"
  "enc_failed (emit_anthropic_arguments x i e) = enc_failed e"
  by (simp_all add: updateTool_def ensureAnthropicStart_def close_anthropic_text_def emit_anthropic_arguments_def)

lemma flags_tool [simp]:
  "enc_protocol (ensureAnthropicToolStarted g i e) = enc_protocol e"
  "enc_done (ensureAnthropicToolStarted g i e) = enc_done e"
  "enc_stopped (ensureAnthropicToolStarted g i e) = enc_stopped e"
  "enc_failed (ensureAnthropicToolStarted g i e) = enc_failed e"
  by (simp_all add: ensureAnthropicToolStarted_def Let_def)

lemma recorded_started:
  assumes "tools_recorded seen e" "i \<in> set (tool_indices e)"
  shows "tools_recorded seen (ensureAnthropicToolStarted g i e)"
    "set (tool_indices (ensureAnthropicToolStarted g i e)) = set (tool_indices e)"
proof -
  let ?f = "\<lambda>t. t\<lparr>tool_started := True, tool_contentIndex := Some (anthropicNextContentIndex e)\<rparr>"
  have "enc_tools (ensureAnthropicToolStarted g i e) = enc_tools e
    \<or> enc_tools (ensureAnthropicToolStarted g i e) = enc_tools (change_tool i ?f e)"
    by (simp add: ensureAnthropicToolStarted_def Let_def)
  moreover have "tools_recorded seen (change_tool i ?f e)" using assms by (rule recorded_change) simp_all
  ultimately show "tools_recorded seen (ensureAnthropicToolStarted g i e)"
    using recorded_same [OF assms(1)] recorded_same by blast
  then show "set (tool_indices (ensureAnthropicToolStarted g i e)) = set (tool_indices e)"
    using assms(1) by (simp add: tools_recorded_def)
qed

lemma recorded_emit:
  assumes "tools_recorded seen e" "i \<in> set (tool_indices e)"
  shows "tools_recorded seen (emit_anthropic_arguments x i e)"
  using assms recorded_same [OF assms(1)]
  by (auto simp: emit_anthropic_arguments_def intro!: recorded_change)

lemma anthropic_tool_emits:
  "\<exists>x. anthropic_tool i a b c d e = emit_anthropic_arguments x i
    (ensureAnthropicToolStarted False i (updateTool i a b c d (ensureAnthropicStart e)))"
proof -
  define k where "k = ensureAnthropicToolStarted False i (updateTool i a b c d (ensureAnthropicStart e))"
  have "k = emit_anthropic_arguments [] i k" by (simp add: emit_anthropic_arguments_def)
  then have "(case c of None \<Rightarrow> k | Some s \<Rightarrow> if p then emit_anthropic_arguments (f s) i k else k)
      = emit_anthropic_arguments (case c of None \<Rightarrow> [] | Some s \<Rightarrow> if p then f s else []) i k" for p f
    by (simp split: option.split)
  moreover have "anthropic_tool i a b c d e = (case c of None \<Rightarrow> k | Some s \<Rightarrow>
      if tool_started (tool_of (enc_tools k) i)
      then emit_anthropic_arguments (if tool_started (tool_of (enc_tools (updateTool i a b c d (ensureAnthropicStart e))) i)
        then s else pending_arguments (tool_of (enc_tools k) i)) i k
      else k)" unfolding k_def by (simp add: anthropic_tool_def Let_def)
  ultimately show ?thesis unfolding k_def [symmetric] by auto
qed

lemma running_tool:
  assumes "anthropic_running seen h e"
  shows "anthropic_running (seen @ [Tool_Call_Delta i a b c d out]) h (anthropic_tool i a b c d e)"
proof -
  let ?ev = "Tool_Call_Delta i a b c d out" and ?u = "updateTool i a b c d (ensureAnthropicStart e)"
  let ?e = "anthropic_tool i a b c d e"
  have ok: "anthropic_ok UNIV h e" and known: "started_when_known e" and rec: "tools_recorded seen e"
    using assms by (simp_all add: anthropic_running_def)
  have u: "anthropic_ok UNIV h ?u" using start_ok [OF ok] by (auto simp: updateTool_def intro!: update_ok)
  have flags: "enc_protocol ?e = enc_protocol e" "enc_done ?e = enc_done e"
    "enc_stopped ?e = enc_stopped e" "enc_failed ?e = enc_failed e"
    by (simp_all add: anthropic_tool_def Let_def split: option.split)
  have "tools_recorded seen (ensureAnthropicStart e)" using rec by (rule recorded_same) simp
  from recorded_update [OF this, of i a b c d out] have ur: "tools_recorded (seen @ [?ev]) ?u" .
  then have i: "i \<in> set (tool_indices ?u)" by (simp add: tools_recorded_def)
  have "i \<in> set (tool_indices (ensureAnthropicToolStarted False i ?u))" using i recorded_started(2) [OF ur i] by simp
  then have "tools_recorded (seen @ [?ev]) (emit_anthropic_arguments x i (ensureAnthropicToolStarted False i ?u))" for x
    by (rule recorded_emit [OF recorded_started(1) [OF ur i]])
  then have r: "tools_recorded (seen @ [?ev]) ?e"
    using anthropic_tool_emits [of i a b c d e] by metis
  show ?thesis
    using assms r tool_ok [OF ok, of i a b c d] known_tool [OF known, of i a b c d]
      inputs_tool [OF ok _ rec, of i a b c d out] tool_text [of i a b c d e h] u flags
    by (auto simp: anthropic_running_def anthropic_ok_def)
qed

section \<open>The whole stream\<close>

lemma open_tools_none: "(\<And>i. i \<in> R \<Longrightarrow> \<not> tool_started (tool_of ts i)) \<Longrightarrow> open_tools R ts = {}"
  by (simp add: open_tools_def tool_block_def)

lemma unknown_not_started: "i \<notin> fst ` set ts \<Longrightarrow> \<not> tool_started (tool_of ts i)"
  by (simp add: tool_of_def new_tool_def map_of_eq_None_iff [symmetric])

lemma close_tool_keys:
  "i \<in> fst ` set (enc_tools e) \<Longrightarrow> tool_indices (closeAnthropicTool e i) = tool_indices e"
  by (simp add: closeAnthropicTool_def ensureAnthropicToolStarted_def emit_anthropic_arguments_def Let_def
      tool_indices_def update_keys)

lemma close_tools_keys:
  "set is \<subseteq> set (tool_indices e) \<Longrightarrow> tool_indices (foldl closeAnthropicTool e is) = tool_indices e"
proof (induction "is" arbitrary: e)
  case (Cons i "is")
  then have "tool_indices (closeAnthropicTool e i) = tool_indices e"
    by (intro close_tool_keys) (auto simp: tool_indices_def)
  then show ?case using Cons by simp
qed simp

lemma flags_close [simp]:
  "enc_protocol (foldl closeAnthropicTool e is) = enc_protocol e" "enc_done (foldl closeAnthropicTool e is) = enc_done e"
  "enc_stopped (foldl closeAnthropicTool e is) = enc_stopped e" "enc_failed (foldl closeAnthropicTool e is) = enc_failed e"
  by (induction "is" arbitrary: e) (simp_all add: closeAnthropicTool_def Let_def)

text \<open>The state in which every block is closed.\<close>

lemma blocks_closed:
  assumes "anthropic_running seen h e"
  defines "k \<equiv> closeAnthropicBlocks (ensureAnthropicStart e)"
  shows "anthropic_run Not_Started (written h (enc_frames k)) = Some (In_Blocks (anthropicNextContentIndex k) [])"
    and "shown_text (written h (enc_frames k)) = said_text seen" and "tool_indices k = tool_indices e"
    and "tool_blocks_ok k" and "i \<in> set (tool_indices e) \<Longrightarrow> tool_started (tool_of (enc_tools k) i)"
    and "inputs_ok h e \<Longrightarrow> inputs_ok h k" and "tool_arguments (tool_of (enc_tools k) i) = said_input i seen"
proof -
  define s where "s = close_anthropic_text (ensureAnthropicStart e)"
  have k_eq: "k = foldl closeAnthropicTool s (tool_indices s)"
    by (simp add: closeAnthropicBlocks_def k_def s_def tool_indices_def)
  have ok: "anthropic_ok UNIV h e" and rec: "tools_recorded seen e" using assms by (simp_all add: anthropic_running_def)
  have s: "anthropic_ok UNIV h s" "enc_started s" "open_text s = {}" "tool_indices s = tool_indices e"
    using start_ok [OF ok] close_text_ok [of UNIV h "ensureAnthropicStart e"] by (simp_all add: s_def tool_indices_def)
  have sb: "blocks_ok (ensureAnthropicStart e)" using start_ok [OF ok] by (simp add: anthropic_ok_def)
  have text_s: "shown_text (written h (enc_frames s)) = shown_text (written h (enc_frames e))"
    using close_text_shown(2) [OF sb] by (simp add: s_def)
  have indices: "distinct (tool_indices s)" using rec s(4) by (simp add: tools_recorded_def)
  have k: "anthropic_ok (UNIV - set (tool_indices s)) h k \<and> enc_started k \<and> open_text k = {}"
    using close_tools_ok [OF s(1-3) indices] by (simp add: k_eq)
  note content = close_tools_content [OF s(1-3) indices subset_UNIV, folded k_eq]
  show keys: "tool_indices k = tool_indices e"
    using close_tools_keys [of "tool_indices s" s] s(4) by (simp add: k_eq)
  have "open_tools (UNIV - set (tool_indices s)) (enc_tools k) = {}"
  proof (intro open_tools_none unknown_not_started)
    fix i assume "i \<in> UNIV - set (tool_indices s)"
    then have "i \<notin> set (tool_indices k)" using keys s(4) by simp
    then show "i \<notin> fst ` set (enc_tools k)" by (simp add: tool_indices_def)
  qed
  then show "anthropic_run Not_Started (written h (enc_frames k)) = Some (In_Blocks (anthropicNextContentIndex k) [])"
    using k by (auto simp: anthropic_ok_def phase_ok_def)
  show "shown_text (written h (enc_frames k)) = said_text seen"
    using assms(1) content text_s by (simp add: anthropic_running_def)
  show "tool_started (tool_of (enc_tools k) i)" if "i \<in> set (tool_indices e)"
    using content that s(4) by simp
  show "tool_blocks_ok k" using k by (simp add: anthropic_ok_def blocks_ok_def)
  show "inputs_ok h k" if "inputs_ok h e"
    using content inputs_same [OF inputs_start [OF that], of s] close_text_shown(1) [OF sb, of _ h]
    by (simp add: s_def)
  show "tool_arguments (tool_of (enc_tools k) i) = said_input i seen"
    using content rec by (simp add: tools_recorded_def s_def)
qed

lemma blocks_distinct:
  assumes "tool_blocks_ok k" "\<forall>i \<in> set is. tool_started (tool_of (enc_tools k) i)" "distinct is"
  shows "distinct (map (\<lambda>i. tool_contentIndex (tool_of (enc_tools k) i)) is)"
    and "i \<in> set is \<Longrightarrow> \<exists>n. tool_contentIndex (tool_of (enc_tools k) i) = Some n \<and> tool_block (enc_tools k) i = Some n"
proof -
  show block: "\<exists>n. tool_contentIndex (tool_of (enc_tools k) i) = Some n \<and> tool_block (enc_tools k) i = Some n"
    if "i \<in> set is" for i
    using assms(2) that assms(1) by (auto simp: tool_blocks_ok_def tool_block_def)
  have "inj_on (\<lambda>i. tool_contentIndex (tool_of (enc_tools k) i)) (set is)"
  proof (rule inj_onI)
    fix i j assume ij: "i \<in> set is" "j \<in> set is"
      "tool_contentIndex (tool_of (enc_tools k) i) = tool_contentIndex (tool_of (enc_tools k) j)"
    then obtain n where "tool_block (enc_tools k) i = Some n" "tool_block (enc_tools k) j = Some n"
      using block [OF ij(1)] block [OF ij(2)] by auto
    then show "i = j" using assms(1) unfolding tool_blocks_ok_def by blast
  qed
  then show "distinct (map (\<lambda>i. tool_contentIndex (tool_of (enc_tools k) i)) is)"
    using assms(3) by (simp add: distinct_map)
qed

lemma done_frames:
  assumes "anthropic_running seen h e" "\<not> enc_failed e"
  defines "k \<equiv> closeAnthropicBlocks (ensureAnthropicStart e)"
  shows "enc_tools (encodeAnthropic Done e) = enc_tools k" "enc_done (encodeAnthropic Done e)"
    "written h (enc_frames (encodeAnthropic Done e)) = written h (enc_frames k) @ [Message_Delta, Message_Stop]"
  using assms by (simp_all add: anthropic_running_def finalizeAnthropic_def Let_def written_append)

lemma running_done:
  assumes "anthropic_running seen h e"
  shows "enc_done (encodeAnthropic Done e) \<and> anthropic_over seen h (encodeAnthropic Done e)"
proof (cases "enc_failed e")
  case True
  have "anthropic_run Not_Started (written h (enc_frames e)) \<noteq> None
      \<and> anthropic_run Not_Started (written h (enc_frames e)) \<noteq> Some Message_Over"
    using assms by (auto simp: anthropic_running_def anthropic_ok_def phase_ok_def split: if_splits)
  then show ?thesis
    using assms True by (auto simp: anthropic_running_def anthropic_over_def Let_def)
next
  case False
  define k where "k = closeAnthropicBlocks (ensureAnthropicStart e)"
  have rec: "tools_recorded seen e" and no_failure: "\<not> list_ex failure_event seen"
    using assms False by (simp_all add: anthropic_running_def)
  let ?d = "encodeAnthropic Done e"
  note d = done_frames [OF assms False, folded k_def]
  note k = blocks_closed [OF assms, folded k_def]
  have indices: "tool_indices ?d = tool_indices e" "distinct (tool_indices e)"
    using d(1) k(3) rec by (simp_all add: tool_indices_def tools_recorded_def)
  have "\<forall>i \<in> set (tool_indices e). tool_started (tool_of (enc_tools k) i)" using k(5) by blast
  note blocks = blocks_distinct [OF k(4) this indices(2)]
  have inputs: "\<exists>n. tool_contentIndex (tool_of (enc_tools k) i) = Some n
      \<and> shown_input n (written h (enc_frames k)) = said_input i seen"
    if named: "named_first [] seen" and i: "i \<in> set (tool_indices e)" for i
  proof -
    have "inputs_ok h k" using assms named k(6) by (simp add: anthropic_running_def)
    then have "block_input_ok (written h (enc_frames k)) (enc_tools k) i" by (simp add: inputs_ok_def)
    then show ?thesis using blocks(2) [OF i] k(7) by (auto simp: block_input_ok_def)
  qed
  have "shown_input n (written h (enc_frames ?d)) = shown_input n (written h (enc_frames k))" for n
    unfolding d by simp
  moreover have "anthropic_run Not_Started (written h (enc_frames ?d)) = Some Message_Over"
    using k(1) unfolding d by (simp add: anthropic_run_append)
  ultimately show ?thesis
    using d indices(1) blocks(1) inputs rec k(2) no_failure
    by (simp add: anthropic_over_def Let_def tools_recorded_def)
qed

lemma written_all: "written (h @ fs) [] = written h fs" by (simp add: written_def)

lemma running_settled: "settled (anthropic_running seen) (h @ enc_frames e) e \<longleftrightarrow> anthropic_running seen h e"
  by (rule iffI; erule running_same) (simp_all add: written_all)

lemma over_settled: "settled (anthropic_over seen) (h @ enc_frames e) e \<longleftrightarrow> anthropic_over seen h e"
  by (simp add: anthropic_over_def written_all tool_indices_def)

interpretation anthropic: encoder_invariant "\<lambda>seen. settled (anthropic_running seen)" "\<lambda>seen. settled (anthropic_over seen)"
proof
  fix seen h e ev
  assume "settled (anthropic_running seen) (h @ enc_frames e) e" "ev \<noteq> Done"
  then have r: "anthropic_running seen h (note_start ev e)" using running_note running_settled by blast
  then have p: "enc_protocol (note_start ev e) = Anthropic_Messages" by (simp add: anthropic_running_def)
  have "anthropic_running (seen @ [ev]) h (encodeAnthropic ev (note_start ev e))"
    using \<open>ev \<noteq> Done\<close>
  proof (cases ev)
    case (Text_Delta s i k)
    then show ?thesis using running_text r by simp
  next
    case (Tool_Call_Delta i a b c d out)
    then show ?thesis using running_tool r by simp
  next
    case (Usage u)
    then have "anthropic_running (seen @ [ev]) h (mergeEncoderUsage u (note_start ev e))"
      using running_plain [OF r, of ev] mergeEncoderUsage_eq [of u "note_start ev e"] running_same by fastforce
    moreover have "\<not> enc_stopped (mergeEncoderUsage u (note_start ev e))" using calculation by (simp add: anthropic_running_def)
    ultimately show ?thesis using Usage by (simp add: Let_def)
  next
    case (Stop q raw)
    then show ?thesis
      using running_plain [OF r, of ev] by (auto simp: hold_stop_def elim!: running_same)
  next
    case (Error_Event m c k)
    then show ?thesis using running_failure [OF r, of ev] by simp
  qed (use running_plain [OF r, of ev] in simp_all)
  then show "settled (anthropic_running (seen @ [ev])) (h @ enc_frames (encode_event ev (note_start ev e)))
      (encode_event ev (note_start ev e))"
    using running_settled p by (simp add: encode_event_def)
next
  fix seen h e
  assume "settled (anthropic_running seen) (h @ enc_frames e) e"
  then have r: "anthropic_running seen h e" using running_settled by blast
  then show "enc_done (encode_event Done e)
    \<and> settled (anthropic_over seen) (h @ enc_frames (encode_event Done e)) ((encode_event Done e)\<lparr>enc_frames := []\<rparr>)"
    using running_done [OF r] over_settled [of seen h "encode_event Done e"]
    by (simp add: encode_event_def anthropic_running_def)
qed (auto simp: anthropic_running_def)

lemma anthropic_new: "settled (anthropic_running []) [] (new_encoder now Anthropic_Messages opts)"
  by (simp add: anthropic_running_def new_encoder_def anthropic_ok_def blocks_defs phase_ok_def written_def
      tools_recorded_def started_when_known_def inputs_ok_def block_input_ok_def tool_indices_def tool_block_def new_tool_def)

lemma anthropic_stream:
  "\<exists>e fs. encode_all (new_encoder now Anthropic_Messages opts) evs = Some (e, fs)
    \<and> anthropic_over (takeWhile (\<lambda>ev. ev \<noteq> Done) evs) fs (e\<lparr>enc_frames := []\<rparr>)"
  using anthropic.whole_stream [OF anthropic_new, of now opts evs] by (simp add: new_encoder_def)

end
