(* ===== verification/Encoder_Properties.thy ===== *)
theory Encoder_Properties
  imports Sse_Proofs Encoder_Frames Anthropic_Proofs Harness_Tools Stream_Properties
begin

text \<open>
  The properties of what the gateway writes to its clients: its frames arrive as they were written, an
  Anthropic client sees a well-formed message with the text and tool input of the answer, also when
  the answer came from Kiro, and the tools of a DeepSeek harness lose their sandbox parameters.
\<close>

section \<open>Frames\<close>

text \<open>No operation changes the protocol.\<close>

lemma protocol_foldl:
  "(\<And>e x. enc_protocol (g e x) = enc_protocol e) \<Longrightarrow> enc_protocol (foldl g e xs) = enc_protocol e"
  by (induction xs arbitrary: e) simp_all

lemma protocol_shared:
  "enc_protocol (mergeEncoderUsage u e) = enc_protocol e" "enc_protocol (updateTool i a b c d e) = enc_protocol e"
  "enc_protocol (complete_tool i e) = enc_protocol e" "enc_protocol (note_start ev e) = enc_protocol e"
  "enc_protocol (hold_stop r e) = enc_protocol e"
  using mergeEncoderUsage_eq [of u e] note_start_eq [of ev e]
  by (auto simp: updateTool_def complete_tool_def hold_stop_def)

lemma protocol_chat: "enc_protocol (encodeOpenAiChat ev e) = enc_protocol e"
proof -
  have start: "enc_protocol (ensureOpenAiChatStart e) = enc_protocol e" for e
    by (simp add: ensureOpenAiChatStart_def Let_def)
  have delta: "enc_protocol (chat_tool_delta i a b c e) = enc_protocol e" for i a b c e
    by (simp add: chat_tool_delta_def Let_def)
  have tools: "enc_protocol (emitDeepSeekHarnessChatTools e) = enc_protocol e" for e
    unfolding emitDeepSeekHarnessChatTools_def by (rule protocol_foldl) (simp add: emit_chat_tool_def Let_def)
  have complete: "enc_protocol (foldl (\<lambda>e i. complete_tool i e) e is) = enc_protocol e" for e "is"
    by (rule protocol_foldl) (rule protocol_shared)
  show ?thesis
    by (cases ev) (simp_all add: Let_def chat_stop_def chat_done_def start delta tools complete protocol_shared)
qed

lemma protocol_anthropic: "enc_protocol (encodeAnthropic ev e) = enc_protocol e"
proof -
  have start: "enc_protocol (ensureAnthropicStart e) = enc_protocol e" for e
    by (simp add: ensureAnthropicStart_def)
  have tool: "enc_protocol (ensureAnthropicToolStarted b i e) = enc_protocol e" for b i e
    by (simp add: ensureAnthropicToolStarted_def Let_def)
  have emit: "enc_protocol (emit_anthropic_arguments d i e) = enc_protocol e" for d i e
    by (simp add: emit_anthropic_arguments_def)
  have text_closed: "enc_protocol (close_anthropic_text e) = enc_protocol e" for e
    by (simp add: close_anthropic_text_def)
  have blocks: "enc_protocol (closeAnthropicBlocks e) = enc_protocol e" for e
    unfolding closeAnthropicBlocks_def text_closed [of e, symmetric]
    by (rule protocol_foldl) (simp add: closeAnthropicTool_def Let_def emit tool)
  show ?thesis
    by (cases ev) (simp_all add: Let_def anthropic_text_def anthropic_tool_def finalizeAnthropic_def
        start tool emit blocks protocol_shared split: option.split)
qed

lemma protocol_gemini: "enc_protocol (encodeGemini ev e) = enc_protocol e"
proof -
  have tool: "enc_protocol (fst (emitGeminiTool i e)) = enc_protocol e" for i e
    by (simp add: emitGeminiTool_def Let_def split: option.split)
  have tools: "enc_protocol (fst (emit_gemini_tools is e)) = enc_protocol e" for "is" e
  proof (induction "is" arbitrary: e)
    case (Cons i "is")
    then show ?case using tool [of i e] by (cases "emitGeminiTool i e") simp
  qed simp
  have final: "enc_protocol (finalizeGemini r e) = enc_protocol e" for r e
    using tools [of "tool_indices e" e]
    by (cases "emit_gemini_tools (tool_indices e) e") (simp add: finalizeGemini_def)
  show ?thesis by (cases ev) (simp_all add: Let_def final tool protocol_shared)
qed

lemma protocol_responses: "enc_protocol (encodeOpenAiResponses ev e) = enc_protocol e"
proof -
  have start: "enc_protocol (ensureResponsesStart e) = enc_protocol e"
    "enc_protocol (ensureResponsesTextStarted e) = enc_protocol e" for e
    by (simp_all add: ensureResponsesStart_def ensureResponsesTextStarted_def Let_def)
  have reserve: "enc_protocol (reserveResponsesToolOutputIndex i e) = enc_protocol e" for i e
    by (simp add: reserveResponsesToolOutputIndex_def Let_def)
  have tool: "enc_protocol (ensureResponsesToolStarted b i e) = enc_protocol e" for b i e
    by (simp add: ensureResponsesToolStarted_def Let_def reserve)
  have text_closed: "enc_protocol (fst (close_responses_text r e)) = enc_protocol e" for r e
    by (simp add: close_responses_text_def Let_def)
  have tools: "enc_protocol (fst (foldl (close_responses_tool r) q is)) = enc_protocol (fst q)" for r q "is"
    by (induction "is" arbitrary: q) (simp_all add: close_responses_tool_def Let_def tool split: prod.split)
  have closed: "enc_protocol (closeResponsesOutput r e) = enc_protocol e" for r e
    using tools [of r "close_responses_text r e" "tool_indices e"] text_closed [of r e]
    by (cases "foldl (close_responses_tool r) (close_responses_text r e) (tool_indices e)")
      (simp add: closeResponsesOutput_def split: option.split)
  have bridge: "enc_protocol (failResponsesToolBridge f e) = enc_protocol e" for f e
    by (cases f) (simp add: failResponsesToolBridge_def)
  have tools: "enc_protocol (fst (bridge_tools plan aliases used is e)) = enc_protocol e" for plan aliases used "is" e
    by (induction plan aliases used "is" e rule: bridge_tools.induct)
      (simp_all add: Let_def bridge split: prod.split option.split)
  have "enc_protocol (fst (prepareResponsesToolBridge e)) = enc_protocol e" for e
    by (simp add: prepareResponsesToolBridge_def bridge tools split: option.split)
  from this [of "ensureResponsesStart e"] have over: "enc_protocol (encodeOpenAiResponses Done e) = enc_protocol e"
    by (cases "prepareResponsesToolBridge (ensureResponsesStart e)") (simp add: closed start)
  show ?thesis
    by (cases "ev = Done", simp only: over, cases ev)
      (simp_all add: Let_def responses_text_def responses_tool_def responses_error_def start reserve tool
        protocol_shared split: option.split)
qed

lemma encode_protocol: "encode e ev = Some (e', fs) \<Longrightarrow> enc_protocol e' = enc_protocol e"
  by (auto simp: encode_def drainEncoderFrames_def encode_event_def protocol_chat protocol_anthropic protocol_gemini
      protocol_responses protocol_shared split: if_splits protocol.splits)

lemma encode_all_some: "enc_protocol e \<noteq> Kiro_Claude \<Longrightarrow> \<exists>e' fs. encode_all e evs = Some (e', fs)"
proof (induction evs arbitrary: e)
  case Nil
  then show ?case by (simp add: finish_encoder_def encode_def drainEncoderFrames_def)
next
  case (Cons ev evs)
  obtain e1 fs1 where 1: "encode e ev = Some (e1, fs1)"
    using Cons.prems by (cases "encode e ev") (auto simp: encode_def split: if_splits)
  then have "enc_protocol e1 \<noteq> Kiro_Claude" using Cons.prems encode_protocol by simp
  then obtain e2 fs2 where "encode_all e1 evs = Some (e2, fs2)" using Cons.IH by blast
  with 1 show ?case by simp
qed

text \<open>
  C9. The frames an encoder writes for any stream of events, to any of its protocols, arrive as they were
  written: a reader that frames server-sent events, with room for the longest of them, gets one event per
  frame, with its name and data, however the bytes are cut. Only the Kiro protocol has no encoder.
\<close>

theorem frames_reach_the_client:
  "case encode_all (new_encoder now p opts) evs of
     None \<Rightarrow> p = Kiro_Claude
   | Some (e, fs) \<Rightarrow> p \<noteq> Kiro_Claude
       \<and> (if concat cs = concat (map frame_text fs) \<and> list_all (\<lambda>f. length (frame_text f) \<le> m) fs
          then sse_calls (sse_finish m (foldl (sse_push m) new_sse_framer cs)) = map client_event fs
          else True)"
proof (cases "p = Kiro_Claude")
  case True
  have "encode_all (new_encoder now Kiro_Claude opts) evs = None"
    by (cases evs) (simp_all add: finish_encoder_def encode_def new_encoder_def)
  then show ?thesis using True by simp
next
  case False
  then obtain e fs where e: "encode_all (new_encoder now p opts) evs = Some (e, fs)"
    using encode_all_some [of "new_encoder now p opts" evs] by (auto simp: new_encoder_def)
  have "list_all clean_frame fs" using encode_all_clean [OF _ e] by (simp add: new_encoder_def)
  then show ?thesis using e False frames_round_trip [of fs m cs] by simp
qed

section \<open>An Anthropic client\<close>

lemma is_some_case: "(case x of None \<Rightarrow> False | Some y \<Rightarrow> P y) \<longleftrightarrow> (\<exists>y. x = Some y \<and> P y)"
  by (cases x) simp_all

lemma anthropic_content:
  obtains e fs where "encode_all (new_encoder now Anthropic_Messages opts) evs = Some (e, fs)"
    "anthropic_over (takeWhile (\<lambda>ev. ev \<noteq> Done) evs) fs (e\<lparr>enc_frames := []\<rparr>)"
    "tool_indices (e\<lparr>enc_frames := []\<rparr>) = tool_indices e"
  using anthropic_stream [of now opts evs] by (auto simp: tool_indices_def)

text \<open>
  C8. Whatever events arrive, the frames for an Anthropic client form a message: it starts once, content
  blocks are numbered from zero as they open, take pieces only while open and are all closed before the
  message ends. It ends unless the stream reported an error before its end.
\<close>

theorem anthropic_message_order:
  "case encode_all (new_encoder now Anthropic_Messages opts) evs of
     None \<Rightarrow> False
   | Some (e, fs) \<Rightarrow>
       (case anthropic_run Not_Started (map anthropic_view fs) of
          None \<Rightarrow> False
        | Some p \<Rightarrow> p = Message_Over \<longleftrightarrow> \<not> list_ex failure_event (takeWhile (\<lambda>ev. ev \<noteq> Done) evs))"
  using anthropic_stream [of now opts evs] by (auto simp: anthropic_over_def written_def Let_def)

text \<open>
  C7. The text an Anthropic client is shown is the text of the events before their end, in order. Unless an
  error was reported, every tool called has a block of its own, and when each tool is identified and named no later
  than its first arguments, the input in its block is the concatenation of its argument deltas.
\<close>

theorem anthropic_content_preserved:
  "case encode_all (new_encoder now Anthropic_Messages opts) evs of
     None \<Rightarrow> False
   | Some (e, fs) \<Rightarrow>
       let seen = takeWhile (\<lambda>ev. ev \<noteq> Done) evs; shown = map anthropic_view fs;
           block = (\<lambda>i. tool_contentIndex (tool_at e i))
       in shown_text shown = said_text seen
        \<and> (if list_ex failure_event seen then True
           else set (tool_indices e) = {i. Some i \<in> called_tool ` set seen} \<and> distinct (map block (tool_indices e))
              \<and> (if named_first [] seen
                 then list_all (\<lambda>i. case block i of
                     None \<Rightarrow> False | Some n \<Rightarrow> shown_input n shown = said_input i seen) (tool_indices e)
                 else True))"
proof (rule anthropic_content [of now opts evs])
  fix e fs
  let ?seen = "takeWhile (\<lambda>ev. ev \<noteq> Done) evs"
  assume "encode_all (new_encoder now Anthropic_Messages opts) evs = Some (e, fs)"
    "anthropic_over ?seen fs (e\<lparr>enc_frames := []\<rparr>)" "tool_indices (e\<lparr>enc_frames := []\<rparr>) = tool_indices e"
  then show ?thesis
    by (cases "list_ex failure_event ?seen")
      (simp_all add: anthropic_over_def written_def Let_def list_all_iff is_some_case)
qed

section \<open>A Kiro answer at an Anthropic client\<close>

text \<open>The events of a Kiro stream before its end.\<close>

lemma kiro_before_done:
  assumes "well_ended es"
  shows "es = takeWhile (\<lambda>ev. ev \<noteq> Done) es @ [Done]"
proof -
  obtain pre fin where es: "es = pre @ fin" "list_all progress pre" "failure_ending fin \<or> regular_ending fin"
    using assms by (auto simp: well_ended_def)
  have "ev \<noteq> Done" if "ev \<in> set pre" for ev using es(2) that by (auto simp: list_all_iff)
  then have "takeWhile (\<lambda>ev. ev \<noteq> Done) es = pre @ takeWhile (\<lambda>ev. ev \<noteq> Done) fin"
    unfolding es(1) by (intro takeWhile_append2) blast
  then show ?thesis using es(1,3) by (auto simp: failure_ending_def regular_ending_def)
qed

lemma kiro_failed_events:
  assumes "well_ended es"
  shows "list_ex failure_event (takeWhile (\<lambda>ev. ev \<noteq> Done) es) \<longleftrightarrow> stop_reasons es = [Stop_Error]"
proof -
  obtain pre fin where es: "es = pre @ fin" "list_all progress pre" "failure_ending fin \<or> regular_ending fin"
    using assms by (auto simp: well_ended_def)
  have pre: "ev \<noteq> Done" "\<not> failure_event ev" if "ev \<in> set pre" for ev
    using es(2) that by (cases ev; auto simp: list_all_iff)+
  then have "takeWhile (\<lambda>ev. ev \<noteq> Done) es = pre @ takeWhile (\<lambda>ev. ev \<noteq> Done) fin"
    unfolding es(1) by (intro takeWhile_append2) blast
  moreover have "\<not> list_ex failure_event pre" using pre(2) by (auto simp: list_ex_iff)
  ultimately show ?thesis
    using es(1,3) stop_reasons_progress [OF es(2)]
    by (auto simp: failure_ending_def regular_ending_def) (simp_all add: stop_reasons_def)
qed

lemma said_text_of: "said_text es = text_of es"
  by (induction es rule: said_text.induct) (simp_all add: text_of_def)

lemma said_input_tools: "said_input i es = said_input i (filter is_tool_event es)"
  by (induction i es rule: said_input.induct) simp_all

lemma called_is_tool: "called_tool ev = Some i \<Longrightarrow> is_tool_event ev"
  by (cases ev) simp_all

lemma called_calls:
  assumes "filter is_tool_event es = concat (map call_events ts)"
  shows "{i. Some i \<in> called_tool ` set es} = c_index ` set ts"
proof -
  have "Some i \<in> called_tool ` set es \<longleftrightarrow> Some i \<in> called_tool ` set (filter is_tool_event es)" for i
    using called_is_tool [of _ i] by (force simp: image_iff)
  also have "\<dots> i \<longleftrightarrow> i \<in> c_index ` set ts" for i
    unfolding assms by (induction ts) (auto simp: call_events_def)
  finally show ?thesis by blast
qed

lemma said_input_none: "i \<notin> c_index ` set ts \<Longrightarrow> said_input i (concat (map call_events ts)) = []"
  by (induction ts) (auto simp: call_events_def)

lemma said_input_calls:
  "distinct (map c_index ts) \<Longrightarrow> t \<in> set ts \<Longrightarrow> said_input (c_index t) (concat (map call_events ts)) = c_arguments t"
proof (induction ts)
  case (Cons u ts)
  show ?case
  proof (cases "t = u")
    case True
    then show ?thesis using Cons.prems(1) said_input_none [of "c_index u" ts] by (simp add: call_events_def [of u])
  next
    case False
    with Cons have "t \<in> set ts" "c_index t \<noteq> c_index u" by (auto simp: image_iff)
    then show ?thesis using Cons by (simp add: call_events_def [of u])
  qed
qed simp

lemma named_first_calls:
  assumes "list_all (valid_call c) ts" "filter is_tool_event es = concat (map call_events ts)"
  shows "named_first seen es"
proof -
  have "named_before seen ev" if "ev \<in> set es" for ev seen
  proof (cases "is_tool_event ev")
    case True
    then have "ev \<in> set (concat (map call_events ts))" using that assms(2) [symmetric] by simp
    then obtain t where "t \<in> set ts" "ev \<in> set (call_events t)" by auto
    then show ?thesis using assms(1)
      by (cases "c_arguments t"; cases ev) (auto simp: call_events_def valid_call_def list_all_iff Let_def)
  qed (cases ev; simp)
  then show ?thesis by (induction es arbitrary: seen) auto
qed

text \<open>
  C3. What a Kiro answer says reaches an Anthropic client unchanged, however its bytes are cut: the text
  shown is the visible text of the stream, the message ends exactly if the stream did not fail, and then the
  calls the stream delivered are exactly the tool blocks, each with the whole arguments as its input.
\<close>

theorem kiro_answer_for_anthropic:
  "\<exists>ts. delivered c (stream_events c received) ts
     \<and> (case encode_all (new_encoder now Anthropic_Messages opts) (stream_events c received) of
          None \<Rightarrow> False
        | Some (e, fs) \<Rightarrow>
            let shown = map anthropic_view fs; block = (\<lambda>i. tool_contentIndex (tool_at e i));
                whole = (\<not> failed (fst (run_stream c received)))
            in shown_text shown = text_of (stream_events c received)
             \<and> (case anthropic_run Not_Started shown of None \<Rightarrow> False | Some p \<Rightarrow> p = Message_Over \<longleftrightarrow> whole)
             \<and> (if whole
                then set (tool_indices e) = c_index ` set ts \<and> distinct (map block (tool_indices e))
                   \<and> list_all (\<lambda>t. case block (c_index t) of
                       None \<Rightarrow> False | Some n \<Rightarrow> shown_input n shown = c_arguments t) ts
                else True))"
proof -
  let ?es = "stream_events c received" and ?whole = "\<not> failed (fst (run_stream c received))"
  define seen where "seen = takeWhile (\<lambda>ev. ev \<noteq> Done) ?es"
  obtain ts where ts: "delivered c ?es ts"
    "if ?whole then stop_reasons ?es = [if ts = [] then Stop_Normal else Stop_Tool_Calls]
     else stop_reasons ?es = [Stop_Error]"
    using flat_run_calls [of c "concat received"]
    unfolding calls_outcome_def run_fields [symmetric] stream_events_flat by (metis (full_types))
  have ended: "?es = seen @ [Done]" "list_ex failure_event seen \<longleftrightarrow> \<not> ?whole"
    using kiro_before_done [OF stream_well_ended] kiro_failed_events [OF stream_well_ended] ts(2)
    by (auto simp: seen_def split: if_splits)
  have calls: "filter is_tool_event seen = concat (map call_events ts)" "distinct (map c_index ts)"
    "list_all (valid_call c) ts"
    using ts(1) arg_cong [OF ended(1), of "filter is_tool_event"] by (simp_all add: delivered_def)
  have said: "said_text seen = text_of ?es" "t \<in> set ts \<Longrightarrow> said_input (c_index t) seen = c_arguments t" for t
    using arg_cong [OF ended(1), of text_of] said_input_calls [OF calls(2), of t]
    by (simp_all add: said_text_of said_input_tools [of _ seen] calls(1))
  show ?thesis
  proof (rule anthropic_content [of now opts ?es, folded seen_def])
    fix e fs
    assume e: "encode_all (new_encoder now Anthropic_Messages opts) ?es = Some (e, fs)"
      "anthropic_over seen fs (e\<lparr>enc_frames := []\<rparr>)" "tool_indices (e\<lparr>enc_frames := []\<rparr>) = tool_indices e"
    have named: "named_first [] seen" by (rule named_first_calls [OF calls(3,1)])
    have "\<exists>n. tool_contentIndex (tool_at e (c_index t)) = Some n
        \<and> shown_input n (map anthropic_view fs) = c_arguments t" if ?whole "t \<in> set ts" for t
    proof -
      have "c_index t \<in> set (tool_indices e)"
        "\<forall>i \<in> set (tool_indices e). \<exists>n. tool_contentIndex (tool_at e i) = Some n
          \<and> shown_input n (map anthropic_view fs) = said_input i seen"
        using e(2,3) ended(2) that named called_calls [OF calls(1)] by (simp_all add: anthropic_over_def Let_def written_def)
      then show ?thesis using said(2) [OF that(2)] by metis
    qed
    then show ?thesis
      using ts(1) e ended(2) said(1) called_calls [OF calls(1)]
      by (intro exI [of _ ts]) (cases ?whole; simp add: anthropic_over_def Let_def written_def list_all_iff is_some_case)
  qed
qed

section \<open>The DeepSeek harness\<close>

text \<open>
  Hiding the sandbox parameters from the tools of a request takes exactly the two properties out of the
  parameters of the tools that declare one, leaves every other tool as it is and every other field of those,
  and doing it again changes nothing.
\<close>

theorem harness_parameters_hidden:
  assumes "case declared_tools body of None \<Rightarrow> True | Some ts \<Rightarrow> list_all keyed_once ts"
  shows "let body' = sanitizeDeepSeekHarnessRequestTools body
    in (case declared_tools body of
          None \<Rightarrow> body' = body
        | Some ts \<Rightarrow> (case declared_tools body' of None \<Rightarrow> False | Some ts' \<Rightarrow> list_all2 tool_hidden ts ts'))
     \<and> sanitizeDeepSeekHarnessRequestTools body' = body'"
  using assms tools_again [OF assms] tools_after [of body]
  by (cases "declared_tools body") (simp_all add: Let_def tools_hidden, simp add: request_tools)

definition sample_tool :: json where
  "sample_tool = JObj
     [(utf16 ''name'', JStr (utf16 ''bash'')),
      (utf16 ''parameters'', JObj
         [(utf16 ''properties'', JObj
            [(utf16 ''command'', JObj []), (SANDBOX_PERMISSION_KEY, JObj []), (SANDBOX_JUSTIFICATION_KEY, JObj [])])])]"

theorem harness_parameters_hidden_witness:
  "(case declared_tools (sanitizeDeepSeekHarnessRequestTools [(utf16 ''tools'', JArr [sample_tool])]) of
      Some [t] \<Rightarrow> tool_properties t = [(utf16 ''command'', JObj [])]
    | _ \<Rightarrow> False)"
proof -
  let ?body = "[(utf16 ''tools'', JArr [sample_tool])]"
  have once: "declared_tools ?body = Some [sample_tool]" "keyed_once sample_tool"
    by (simp_all add: declared_tools_def sample_tool_def utf16_def)
  then have "case declared_tools (sanitizeDeepSeekHarnessRequestTools ?body) of
      None \<Rightarrow> False | Some ts' \<Rightarrow> list_all2 tool_hidden [sample_tool] ts'"
    using harness_parameters_hidden [of ?body] by (simp add: Let_def)
  moreover have "tool_properties sample_tool
      = [(utf16 ''command'', JObj []), (SANDBOX_PERMISSION_KEY, JObj []), (SANDBOX_JUSTIFICATION_KEY, JObj [])]"
    by (simp add: tool_properties_def sample_tool_def declared_fields_def utf16_def)
  ultimately show ?thesis
    by (auto simp: tool_hidden_def has_sandbox_key_def without_sandbox_keys_def obj_delete_def utf16_def
        SANDBOX_PERMISSION_KEY_def SANDBOX_JUSTIFICATION_KEY_def list_all2_Cons1 split: option.splits)
qed

end
