(* ===== verification/Dsml.thy ===== *)
theory Dsml
  imports Encoder_State Json_Text
begin

text \<open>
  \<^verbatim>\<open>src/main/gateway/deepseek-dsml.ts\<close>: tool calls that DeepSeek writes as a block of markup in its
  answer text, and the tool calls of its native output. Where the code moves a cursor over the body, the
  functions here pass on the rest of the body. \<open>uuid\<close> is the sequence of identifiers \<^verbatim>\<open>randomUUID\<close>
  returns; a block takes them from the \<open>n\<close>-th on, one per call. Reading an argument through a prototype
  set by a parameter named \<^verbatim>\<open>__proto__\<close> is not modelled; the parameter itself creates no property.
\<close>

section \<open>Markers\<close>

definition DSML_TOKENS :: "js_text list" where
  "DSML_TOKENS =
     (let bar = 0xFF5C; word = utf16 ''DSML''
      in [[bar, bar] @ word @ [bar, bar], utf16 ''||DSML||'', [bar] @ word @ [bar], utf16 ''|DSML|''])"

definition start_marker :: "js_text \<Rightarrow> js_text" where
  "start_marker token = utf16 ''<'' @ token @ utf16 ''tool_calls>''"

definition end_marker :: "js_text \<Rightarrow> js_text" where
  "end_marker token = utf16 ''</'' @ token @ utf16 ''tool_calls>''"

definition DEEPSEEK_DSML_START_MARKERS :: "js_text list" where
  "DEEPSEEK_DSML_START_MARKERS = map start_marker DSML_TOKENS"

definition DEEPSEEK_DSML_END_MARKERS :: "js_text list" where
  "DEEPSEEK_DSML_END_MARKERS = map end_marker DSML_TOKENS"

definition matchingEndMarker :: "js_text \<Rightarrow> js_text" where
  "matchingEndMarker startMarker =
     (case map_of (zip DEEPSEEK_DSML_START_MARKERS DEEPSEEK_DSML_END_MARKERS) startMarker of
        Some m \<Rightarrow> m
      | None \<Rightarrow> [])"

definition closer_marker :: "js_text \<Rightarrow> (nat \<times> js_text) option \<Rightarrow> js_text \<Rightarrow> (nat \<times> js_text) option" where
  "closer_marker s best m =
     (case text_index m s of
        None \<Rightarrow> best
      | Some i \<Rightarrow> (case best of None \<Rightarrow> Some (i, m) | Some (j, k) \<Rightarrow> if i < j then Some (i, m) else best))"

definition earliestMarker :: "js_text \<Rightarrow> js_text list \<Rightarrow> (nat \<times> js_text) option" where
  "earliestMarker s markers = foldl (closer_marker s) None markers"

definition containsDsmlStart :: "js_text \<Rightarrow> bool" where
  "containsDsmlStart s \<longleftrightarrow> list_ex (\<lambda>m. text_index m s \<noteq> None) DEEPSEEK_DSML_START_MARKERS"

text \<open>What stands before the first occurrence of a marker, and what after it.\<close>

definition split_at :: "js_text \<Rightarrow> js_text \<Rightarrow> (js_text \<times> js_text) option" where
  "split_at m s = map_option (\<lambda>i. (take i s, drop (i + length m) s)) (text_index m s)"

lemma split_at_length: "split_at m s = Some (a, b) \<Longrightarrow> length b \<le> length s"
  by (auto simp: split_at_def)

section \<open>Attributes\<close>

text \<open>\<^verbatim>\<open>\s+key="([^"]+)"\<close> at the start: the value and what follows.\<close>

definition attribute :: "string \<Rightarrow> js_text \<Rightarrow> (js_text \<times> js_text) option" where
  "attribute key s =
     (let r = dropWhile text_space s; p = utf16 key @ [61, 34]; v = takeWhile (\<lambda>u. u \<noteq> 34) (drop (length p) r);
          t = drop (length p + length v) r
      in if r = s \<or> \<not> text_starts r p \<or> v = [] \<or> t = [] then None else Some (v, tl t))"

definition invocation_name :: "js_text \<Rightarrow> js_text option" where
  "invocation_name s =
     (case attribute ''name'' s of
        Some (name, r) \<Rightarrow> if list_all text_space r then Some name else None
      | None \<Rightarrow> None)"

definition parameter_header :: "js_text \<Rightarrow> (js_text \<times> bool) option" where
  "parameter_header s =
     (case attribute ''name'' s of
        Some (name, r) \<Rightarrow>
          (case attribute ''string'' r of
             Some (flag, r) \<Rightarrow>
               if (flag = utf16 ''true'' \<or> flag = utf16 ''false'') \<and> list_all text_space r
               then Some (name, flag = utf16 ''true'') else None
           | None \<Rightarrow> None)
      | None \<Rightarrow> None)"

section \<open>Invocations\<close>

text \<open>\<^verbatim>\<open>args[name] = value\<close>.\<close>

definition assign_property :: "(js_text \<times> json) list \<Rightarrow> js_text \<Rightarrow> json \<Rightarrow> (js_text \<times> json) list" where
  "assign_property ps k v = (if k = utf16 ''__proto__'' then ps else obj_set ps k v)"

definition parseJsonParameter :: "js_text \<Rightarrow> js_text \<Rightarrow> js_text \<Rightarrow> json dsml_result" where
  "parseJsonParameter raw tool parameter =
     (case json_parse raw of
        Some v \<Rightarrow> Inr v
      | None \<Rightarrow> Inl (dsml_fail ''invalid_parameter_json''
          (utf16 ''DeepSeek returned invalid JSON for '' @ tool @ utf16 ''.'' @ parameter @ utf16 ''.'')))"

definition open_tag :: "js_text \<Rightarrow> string \<Rightarrow> js_text" where
  "open_tag token tag = utf16 ''<'' @ token @ utf16 tag"

definition close_tag :: "js_text \<Rightarrow> string \<Rightarrow> js_text" where
  "close_tag token tag = utf16 ''</'' @ token @ utf16 tag @ utf16 ''>''"

text \<open>The parameters up to the end of the invocation \<open>name\<close>, and the rest of the body.\<close>

function parse_parameters ::
  "js_text \<Rightarrow> js_text \<Rightarrow> (js_text \<times> json) list \<Rightarrow> js_text \<Rightarrow> ((js_text \<times> json) list \<times> js_text) dsml_result" where
  "parse_parameters token name args body =
     (let s = dropWhile text_space body; parameterOpen = open_tag token ''parameter'' in
      if text_starts s (close_tag token ''invoke'') then Inr (args, drop (length (close_tag token ''invoke'')) s)
      else if \<not> text_starts s parameterOpen
      then Inl (dsml_fail ''invalid_parameter''
        (utf16 ''DeepSeek returned malformed parameters for tool '' @ name @ utf16 ''.''))
      else (case split_at (utf16 ''>'') (drop (length parameterOpen) s) of
          None \<Rightarrow> Inl (dsml_fail ''truncated_dsml''
            (utf16 ''DeepSeek returned a truncated parameter for tool '' @ name @ utf16 ''.''))
        | Some (attributes, s) \<Rightarrow>
            (case parameter_header attributes of
               None \<Rightarrow> Inl (dsml_fail ''invalid_parameter''
                 (utf16 ''DeepSeek returned an invalid parameter header for tool '' @ name @ utf16 ''.''))
             | Some (parameterName, is_string) \<Rightarrow>
                 if parameterName \<in> set (map fst args)
                 then Inl (dsml_fail ''duplicate_parameter''
                   (utf16 ''DeepSeek repeated parameter '' @ parameterName @ utf16 '' for tool '' @ name @ utf16 ''.''))
                 else (case split_at (close_tag token ''parameter'') s of
                     None \<Rightarrow> Inl (dsml_fail ''truncated_dsml''
                       (utf16 ''DeepSeek returned a truncated parameter for tool '' @ name @ utf16 ''.''))
                   | Some (rawValue, s) \<Rightarrow>
                       (case (if is_string then Inr (JStr rawValue) else parseJsonParameter rawValue name parameterName) of
                          Inl e \<Rightarrow> Inl e
                        | Inr v \<Rightarrow> parse_parameters token name (assign_property args parameterName v) s)))))"
  by auto

lemma skipped_tag_shorter:
  assumes "text_starts (dropWhile text_space body) m" "m \<noteq> []"
  shows "length (drop (length m) (dropWhile text_space body)) < length body"
proof -
  have "dropWhile text_space body \<noteq> []" using assms by (cases "dropWhile text_space body") (simp_all add: text_starts_def)
  then show ?thesis using assms(2) length_dropWhile_le [of text_space body]
    by (cases m; cases "dropWhile text_space body") simp_all
qed

termination parse_parameters
proof (relation "measure (\<lambda>(token, name, args, body). length body)", goal_cases)
  case (2 token name args body s parameterOpen p attributes s1 h parameterName is_string r rawValue s2 v)
  have "open_tag token ''parameter'' \<noteq> []" by (simp add: open_tag_def utf16_def)
  with 2 have "length (drop (length parameterOpen) s) < length body"
    using skipped_tag_shorter [of body parameterOpen] by simp
  with 2 split_at_length [of "utf16 ''>''" "drop (length parameterOpen) s" attributes s1]
    split_at_length [of "close_tag token ''parameter''" s1 rawValue s2]
  show ?case by auto
qed simp

declare parse_parameters.simps [simp del]

definition normalizeCustomArguments ::
  "(js_text \<times> json) list \<Rightarrow> js_text \<Rightarrow> tool_binding \<Rightarrow> (js_text \<times> json) list dsml_result" where
  "normalizeCustomArguments args name b =
     (case nonempty_text (tb_deferredToolName b) of
        Some deferred \<Rightarrow>
          and_then (deepSeekDeferredToolExecInput deferred args) (\<lambda>input. Inr [(utf16 ''input'', JStr input)])
      | None \<Rightarrow>
          (case obj_get args ''input'' of
             Some (JStr s) \<Rightarrow> if set (map fst args) \<subseteq> {utf16 ''input''} then Inr args
               else Inl (dsml_fail ''invalid_custom_tool_arguments'' (utf16 ''DeepSeek custom tool '' @ name
                 @ utf16 '' must provide exactly one string input parameter.''))
           | _ \<Rightarrow> Inl (dsml_fail ''invalid_custom_tool_arguments'' (utf16 ''DeepSeek custom tool '' @ name
                 @ utf16 '' must provide exactly one string input parameter.''))))"

record parsed_call =
  pc_binding :: tool_binding
  pc_callId :: js_text
  pc_arguments :: js_text

definition dsml_callId :: "js_text \<Rightarrow> js_text" where
  "dsml_callId uuid = utf16 ''call_dsml_'' @ filter (\<lambda>u. u \<noteq> 45) uuid"

text \<open>One invocation, whose opening tag the body starts with: its binding, its arguments, the rest.\<close>

definition parse_invocation ::
  "tool_bridge_plan \<Rightarrow> js_text \<Rightarrow> js_text \<Rightarrow> (tool_binding \<times> (js_text \<times> json) list \<times> js_text) dsml_result" where
  "parse_invocation plan token s =
     (case split_at (utf16 ''>'') (drop (length (open_tag token ''invoke'')) s) of
        None \<Rightarrow> Inl (dsml_fail ''truncated_dsml'' (utf16 ''DeepSeek returned a truncated DSML invocation.''))
      | Some (attributes, s) \<Rightarrow>
          (case invocation_name attributes of
             None \<Rightarrow> Inl (dsml_fail ''invalid_tool_name'' (utf16 ''DeepSeek returned an invalid DSML tool name.''))
           | Some name \<Rightarrow>
               (case resolveDeepSeekToolBinding plan name of
                  Inl e \<Rightarrow> Inl e
                | Inr None \<Rightarrow> Inl (dsml_fail ''undeclared_tool''
                    (utf16 ''DeepSeek attempted to call undeclared tool '' @ name @ utf16 ''.''))
                | Inr (Some b) \<Rightarrow>
                    (case parse_parameters token name [] s of
                       Inl e \<Rightarrow> Inl e
                     | Inr (args, s) \<Rightarrow>
                         and_then (if tb_sourceType b = Custom_Tool then normalizeCustomArguments args name b else Inr args)
                           (\<lambda>args. Inr (b, args, s))))))"

lemma parse_parameters_length:
  "parse_parameters token name args body = Inr (args', r) \<Longrightarrow> length r \<le> length body"
proof (induction token name args body rule: parse_parameters.induct)
  case (1 token name args body)
  let ?s = "dropWhile text_space body" and ?po = "open_tag token ''parameter''"
  have le: "length ?s \<le> length body" by (rule length_dropWhile_le)
  show ?case
  proof (cases "text_starts ?s (close_tag token ''invoke'') \<or> \<not> text_starts ?s ?po")
    case True
    then show ?thesis using "1.prems" le by (auto simp: parse_parameters.simps [of token name args body] Let_def split: if_splits)
  next
    case False
    then obtain attributes s1 parameterName is_string rawValue s2 v where *:
      "split_at (utf16 ''>'') (drop (length ?po) ?s) = Some (attributes, s1)"
      "parameter_header attributes = Some (parameterName, is_string)" "parameterName \<notin> set (map fst args)"
      "split_at (close_tag token ''parameter'') s1 = Some (rawValue, s2)"
      "(if is_string then Inr (JStr rawValue) else parseJsonParameter rawValue name parameterName) = Inr v"
      "parse_parameters token name (assign_property args parameterName v) s2 = Inr (args', r)"
      using "1.prems" unfolding parse_parameters.simps [of token name args body] Let_def
      by (force split: option.splits prod.splits if_splits sum.splits)
    have "length r \<le> length s2"
      by (rule "1.IH" [OF refl refl _ _ *(1) refl *(2) refl *(3,4) refl *(5,6)]) (use False in simp_all)
    also have "\<dots> \<le> length body"
      using split_at_length [OF *(1)] split_at_length [OF *(4)] le by simp
    finally show ?thesis .
  qed
qed

lemma parse_invocation_length:
  "parse_invocation plan token s = Inr (b, args, r) \<Longrightarrow> length r \<le> length (drop (length (open_tag token ''invoke'')) s)"
  using split_at_length parse_parameters_length
  by (fastforce simp: parse_invocation_def and_then_Inr split: option.splits prod.splits sum.splits if_splits)

function parseInvocations ::
  "(nat \<Rightarrow> js_text) \<Rightarrow> nat \<Rightarrow> tool_bridge_plan \<Rightarrow> js_text \<Rightarrow> js_text \<Rightarrow> parsed_call list dsml_result" where
  "parseInvocations uuid n plan token body =
     (let s = dropWhile text_space body in
      if s = [] then Inr []
      else if \<not> text_starts s (open_tag token ''invoke'')
      then Inl (dsml_fail ''invalid_dsml'' (utf16 ''DeepSeek returned malformed content inside a DSML tool-call block.''))
      else (case parse_invocation plan token s of
          Inl e \<Rightarrow> Inl e
        | Inr (b, args, s) \<Rightarrow>
            and_then (parseInvocations uuid (Suc n) plan token s) (\<lambda>calls.
              Inr (\<lparr>pc_binding = b, pc_callId = dsml_callId (uuid n), pc_arguments = json_stringify (JObj args)\<rparr>
                   # calls))))"
  by auto

termination parseInvocations
proof (relation "measure (\<lambda>(uuid, n, plan, token, body). length body)", goal_cases)
  case (2 uuid n plan token body s p b q args r)
  have "open_tag token ''invoke'' \<noteq> []" by (simp add: open_tag_def utf16_def)
  with 2 have "length (drop (length (open_tag token ''invoke'')) s) < length body"
    using skipped_tag_shorter [of body "open_tag token ''invoke''"] by simp
  with 2 parse_invocation_length [of plan token s b args r] show ?case by simp
qed simp

declare parseInvocations.simps [simp del]

section \<open>Blocks\<close>

record dsml_block =
  db_prefix :: js_text
  db_suffix :: js_text
  db_calls :: "parsed_call list"

text \<open>\<^verbatim>\<open>startMarker.slice(1, -'tool_calls>'.length)\<close>.\<close>

definition marker_token :: "js_text \<Rightarrow> js_text" where
  "marker_token m = drop 1 (take (length m - length (utf16 ''tool_calls>'')) m)"

definition parseDeepSeekDsmlBlock ::
  "(nat \<Rightarrow> js_text) \<Rightarrow> nat \<Rightarrow> tool_bridge_plan \<Rightarrow> js_text \<Rightarrow> dsml_block option dsml_result" where
  "parseDeepSeekDsmlBlock uuid n plan s =
     (case earliestMarker s DEEPSEEK_DSML_START_MARKERS of
        None \<Rightarrow> Inr None
      | Some (i, m) \<Rightarrow>
          (case split_at (matchingEndMarker m) (drop (i + length m) s) of
             None \<Rightarrow> Inl (dsml_fail ''truncated_dsml'' (utf16 ''DeepSeek returned an incomplete DSML tool-call block.''))
           | Some (body, suffix) \<Rightarrow>
               if containsDsmlStart suffix
               then Inl (dsml_fail ''multiple_dsml_blocks''
                 (utf16 ''DeepSeek returned more than one DSML tool-call block.''))
               else if text_trim suffix \<noteq> []
               then Inl (dsml_fail ''content_after_dsml''
                 (utf16 ''DeepSeek returned unexpected content after its DSML tool calls.''))
               else and_then (parseInvocations uuid n plan (marker_token m) body) (\<lambda>calls.
                 if calls = []
                 then Inl (dsml_fail ''empty_dsml_block'' (utf16 ''DeepSeek returned an empty DSML tool-call block.''))
                 else Inr (Some \<lparr>db_prefix = take i s, db_suffix = suffix, db_calls = calls\<rparr>))))"

section \<open>Buffered payloads\<close>

definition string_property :: "(js_text \<times> json) list \<Rightarrow> string \<Rightarrow> js_text" where
  "string_property ps k = (case obj_get ps k of Some (JStr s) \<Rightarrow> s | _ \<Rightarrow> [])"

fun arrayOfObjects :: "json option \<Rightarrow> (js_text \<times> json) list list" where
  "arrayOfObjects (Some (JArr vs)) = concat (map (\<lambda>v. case v of JObj ps \<Rightarrow> [ps] | _ \<Rightarrow> []) vs)"
| "arrayOfObjects v = []"

text \<open>The arguments of a call are printed by the functions above, so \<^verbatim>\<open>JSON.parse\<close> of them does not throw; the
  error here stands for its \<^verbatim>\<open>SyntaxError\<close>.\<close>

definition deepSeekCallToResponsesItem :: "parsed_call \<Rightarrow> (js_text \<times> json) list dsml_result" where
  "deepSeekCallToResponsesItem call =
     (let b = pc_binding call; callId = pc_callId call;
          item = (\<lambda>ident kind rest. (utf16 ''id'', JStr (utf16 ident @ callId)) # (utf16 ''type'', JStr (utf16 kind))
            # (utf16 ''status'', JStr (utf16 ''completed'')) # rest)
      in case tb_sourceType b of
           Search_Tool \<Rightarrow>
             and_then (parseToolSearchArguments (pc_arguments call)) (\<lambda>args. Inr (item ''tsc_'' ''tool_search_call''
               [(utf16 ''execution'', JStr (utf16 ''client'')), (utf16 ''call_id'', JStr callId), (utf16 ''arguments'', args)]))
         | Custom_Tool \<Rightarrow>
             (case objectValue (json_parse (pc_arguments call)) of
                None \<Rightarrow> Inl (dsml_fail ''SyntaxError'' [])
              | Some parsed \<Rightarrow> Inr (item ''ctc_'' ''custom_tool_call''
                  ([(utf16 ''call_id'', JStr callId), (utf16 ''name'', JStr (tb_sourceName b))] @
                   (case obj_get parsed ''input'' of None \<Rightarrow> [] | Some v \<Rightarrow> [(utf16 ''input'', v)]))))
         | Function_Tool \<Rightarrow> Inr (item ''fc_'' ''function_call''
             ([(utf16 ''call_id'', JStr callId), (utf16 ''name'', JStr (tb_sourceName b))] @
              (case nonempty_text (tb_sourceNamespace b) of None \<Rightarrow> [] | Some ns \<Rightarrow> [(utf16 ''namespace'', JStr ns)]) @
              [(utf16 ''arguments'', JStr (pc_arguments call))])))"

definition singleDeclaredToolSearchBinding :: "tool_bridge_plan \<Rightarrow> tool_binding option" where
  "singleDeclaredToolSearchBinding plan =
     (case filter (\<lambda>b. binding_declared b \<and> tb_sourceType b = Search_Tool) (plan_tools plan) of
        [b] \<Rightarrow> Some b
      | _ \<Rightarrow> None)"

definition native_fail :: "string \<Rightarrow> nat \<Rightarrow> string \<Rightarrow> 'a dsml_result" where
  "native_fail code itemIndex what =
     Inl (dsml_fail code (utf16 ''DeepSeek native tool output '' @ text_of_nat itemIndex @ utf16 what))"

definition parseNativeToolArguments :: "json \<Rightarrow> nat \<Rightarrow> (js_text \<times> json) list dsml_result" where
  "parseNativeToolArguments value itemIndex =
     (case (case value of JStr s \<Rightarrow> json_parse s | _ \<Rightarrow> Some value) of
        None \<Rightarrow> native_fail ''invalid_tool_arguments'' itemIndex '' contains invalid JSON arguments.''
      | Some (JObj ps) \<Rightarrow> Inr ps
      | Some v \<Rightarrow> native_fail ''invalid_tool_arguments'' itemIndex '' arguments must be an object.'')"

text \<open>The input of a native call of a custom tool.\<close>

definition native_input ::
  "(js_text \<times> json) list \<Rightarrow> nat \<Rightarrow> js_text \<Rightarrow> json \<Rightarrow> tool_binding \<Rightarrow> js_text dsml_result" where
  "native_input item itemIndex itemType argumentsValue b =
     (case nonempty_text (tb_deferredToolName b) of
        Some deferred \<Rightarrow>
          and_then (parseNativeToolArguments argumentsValue itemIndex) (deepSeekDeferredToolExecInput deferred)
      | None \<Rightarrow>
          if itemType = utf16 ''custom_tool_call''
          then (case obj_get item ''input'' of
              Some (JStr s) \<Rightarrow> Inr s
            | _ \<Rightarrow> Inl (dsml_fail ''invalid_custom_tool_arguments'' (utf16 ''DeepSeek custom tool output ''
                @ text_of_nat itemIndex @ utf16 '' must contain a string input.'')))
          else and_then (parseNativeToolArguments argumentsValue itemIndex) (\<lambda>wrapper.
            case obj_get wrapper ''input'' of
              Some (JStr s) \<Rightarrow> if set (map fst wrapper) \<subseteq> {utf16 ''input''} then Inr s
                else Inl (dsml_fail ''invalid_custom_tool_arguments'' (utf16 ''DeepSeek custom tool '' @ tb_sourceName b
                  @ utf16 '' must provide exactly one string input parameter.''))
            | _ \<Rightarrow> Inl (dsml_fail ''invalid_custom_tool_arguments'' (utf16 ''DeepSeek custom tool '' @ tb_sourceName b
                  @ utf16 '' must provide exactly one string input parameter.''))))"

definition native_binding :: "tool_bridge_plan \<Rightarrow> (js_text \<times> json) list \<Rightarrow> js_text \<Rightarrow> tool_binding dsml_result" where
  "native_binding plan item itemType =
     and_then (if itemType = utf16 ''tool_search_call'' then Inr (singleDeclaredToolSearchBinding plan)
               else resolveDeepSeekToolBinding plan (string_property item ''name''))
       (\<lambda>found. case found of
          None \<Rightarrow> Inl (dsml_fail ''undeclared_tool'' (utf16 ''DeepSeek attempted to call undeclared tool ''
            @ or_text (string_property item ''name'') itemType @ utf16 ''.''))
        | Some b \<Rightarrow>
            if itemType = utf16 ''custom_tool_call'' \<and> tb_sourceType b \<noteq> Custom_Tool
            then Inl (dsml_fail ''tool_kind_mismatch'' (utf16 ''DeepSeek returned custom tool output for non-custom tool ''
              @ tb_sourceName b @ utf16 ''.''))
            else Inr b)"

text \<open>The restored item and its call id.\<close>

definition restoreDeepSeekNativeToolCall ::
  "(js_text \<times> json) list \<Rightarrow> nat \<Rightarrow> tool_bridge_plan \<Rightarrow> js_text list \<Rightarrow> ((js_text \<times> json) list \<times> js_text) dsml_result" where
  "restoreDeepSeekNativeToolCall item itemIndex plan usedCallIds =
     (let itemType = string_property item ''type'';
          callId = or_text (string_property item ''call_id'') (string_property item ''id'');
          argumentsValue = (case obj_get item ''arguments'' of Some v \<Rightarrow> v | None \<Rightarrow> JObj [])
      in if callId = [] then native_fail ''missing_tool_call_id'' itemIndex '' has no call id.''
         else if callId \<in> set usedCallIds
         then Inl (dsml_fail ''duplicate_tool_call_id'' (utf16 ''DeepSeek repeated tool call id '' @ callId @ utf16 ''.''))
         else and_then (native_binding plan item itemType) (\<lambda>b.
           and_then
             (if tb_sourceType b = Custom_Tool
              then and_then (native_input item itemIndex itemType argumentsValue b) (\<lambda>input.
                Inr (json_stringify (JObj [(utf16 ''input'', JStr input)])))
              else Inr (case argumentsValue of JStr s \<Rightarrow> or_text s (utf16 ''{}'') | v \<Rightarrow> json_stringify v))
             (\<lambda>argumentsText.
               and_then (deepSeekCallToResponsesItem
                   \<lparr>pc_binding = b, pc_callId = callId, pc_arguments = argumentsText\<rparr>) (\<lambda>restored.
                 Inr (obj_set (obj_set restored (utf16 ''id'') (JStr (or_text (string_property item ''id'')
                          (string_property restored ''id''))))
                        (utf16 ''status'') (JStr (or_text (string_property item ''status'') (utf16 ''completed''))),
                      callId)))))"

record restore_state =
  rs_restored :: "json list"
  rs_calls :: "parsed_call list"
  rs_foundBlock :: bool
  rs_foundNativeTool :: bool
  rs_usedCallIds :: "js_text list"

definition mixed_formats :: "dsml_error" where
  "mixed_formats = dsml_fail ''mixed_tool_formats''
     (utf16 ''DeepSeek mixed native tool output with a DSML tool-call block.'')"

text \<open>The parts of a message: those kept, and the calls of the block among them.\<close>

fun restore_parts ::
  "(nat \<Rightarrow> js_text) \<Rightarrow> tool_bridge_plan \<Rightarrow> restore_state \<Rightarrow> json list \<Rightarrow> (js_text \<times> json) list list
    \<Rightarrow> (restore_state \<times> json list) dsml_result" where
  "restore_parts uuid plan st content [] = Inr (st, content)"
| "restore_parts uuid plan st content (part # parts) =
     (case obj_get part ''text'' of
        Some (JStr s) \<Rightarrow>
          if string_property part ''type'' \<noteq> utf16 ''output_text''
          then restore_parts uuid plan st (content @ [JObj part]) parts
          else and_then (parseDeepSeekDsmlBlock uuid (length (rs_calls st)) plan s) (\<lambda>parsed.
            case parsed of
              None \<Rightarrow> restore_parts uuid plan st (content @ [JObj part]) parts
            | Some block \<Rightarrow>
                if rs_foundBlock st
                then Inl (dsml_fail ''multiple_dsml_blocks''
                  (utf16 ''DeepSeek returned more than one DSML tool-call block.''))
                else if rs_foundNativeTool st then Inl mixed_formats
                else restore_parts uuid plan (st\<lparr>rs_foundBlock := True, rs_calls := rs_calls st @ db_calls block\<rparr>)
                  (content @ (if db_prefix block = [] then []
                              else [JObj (obj_set part (utf16 ''text'') (JStr (db_prefix block)))])) parts)
      | _ \<Rightarrow> restore_parts uuid plan st (content @ [JObj part]) parts)"

definition tool_item_types :: "string list" where
  "tool_item_types = [''function_call'', ''custom_tool_call'', ''tool_search_call'']"

definition restore_item ::
  "(nat \<Rightarrow> js_text) \<Rightarrow> tool_bridge_plan \<Rightarrow> restore_state \<Rightarrow> nat \<Rightarrow> (js_text \<times> json) list \<Rightarrow> restore_state dsml_result" where
  "restore_item uuid plan st itemIndex item =
     (let itemType = string_property item ''type''
      in if itemType \<in> utf16 ` set tool_item_types
         then if rs_foundBlock st then Inl mixed_formats
              else and_then (restoreDeepSeekNativeToolCall item itemIndex plan (rs_usedCallIds st)) (\<lambda>(restored, callId).
                Inr (st\<lparr>rs_foundNativeTool := True, rs_restored := rs_restored st @ [JObj restored],
                        rs_usedCallIds := callId # rs_usedCallIds st\<rparr>))
         else if itemType \<noteq> utf16 ''message'' then Inr (st\<lparr>rs_restored := rs_restored st @ [JObj item]\<rparr>)
         else and_then (restore_parts uuid plan st [] (arrayOfObjects (obj_get item ''content''))) (\<lambda>(st, content).
           Inr (if content = [] then st
                else st\<lparr>rs_restored := rs_restored st @ [JObj (obj_set item (utf16 ''content'') (JArr content))]\<rparr>)))"

fun restore_items ::
  "(nat \<Rightarrow> js_text) \<Rightarrow> tool_bridge_plan \<Rightarrow> restore_state \<Rightarrow> nat \<Rightarrow> (js_text \<times> json) list list \<Rightarrow> restore_state dsml_result" where
  "restore_items uuid plan st k [] = Inr st"
| "restore_items uuid plan st k (item # items) =
     and_then (restore_item uuid plan st k item) (\<lambda>st. restore_items uuid plan st (Suc k) items)"

fun restored_calls :: "parsed_call list \<Rightarrow> json list dsml_result" where
  "restored_calls [] = Inr []"
| "restored_calls (c # cs) =
     and_then (deepSeekCallToResponsesItem c) (\<lambda>item.
       and_then (restored_calls cs) (\<lambda>items. Inr (JObj item # items)))"

definition restoreDeepSeekResponsesDsml ::
  "(nat \<Rightarrow> js_text) \<Rightarrow> (js_text \<times> json) list \<Rightarrow> tool_bridge_plan \<Rightarrow> (js_text \<times> json) list dsml_result" where
  "restoreDeepSeekResponsesDsml uuid body plan =
     (let output = arrayOfObjects (obj_get body ''output'')
      in if output = [] then Inr body
         else and_then (restore_items uuid plan
             \<lparr>rs_restored = [], rs_calls = [], rs_foundBlock = False, rs_foundNativeTool = False,
              rs_usedCallIds = map tcb_callId (plan_calls plan)\<rparr> 0 output) (\<lambda>st.
           if \<not> rs_foundBlock st \<and> \<not> rs_foundNativeTool st then Inr body
           else and_then (restored_calls (rs_calls st)) (\<lambda>items.
             Inr (obj_set body (utf16 ''output'') (JArr (rs_restored st @ items))))))"

end
