(* ===== verification/Dsml_Stream.thy ===== *)
theory Dsml_Stream
  imports Dsml
begin

text \<open>
  \<^verbatim>\<open>src/main/gateway/deepseek-dsml-stream.ts\<close>: the stream parser that turns a block of DSML markup inside
  the answer text into tool calls while it arrives. The parser of the Responses events it wraps is not part
  of the file; \<open>transform\<close> takes the events it returns.
\<close>

record dsml_stream =
  ds_pendingText :: js_text
  ds_pendingTextIndex :: "nat option"
  ds_pendingContentType :: "content_type option"
  ds_block :: js_text
  ds_activeStartMarker :: "js_text option"
  ds_sawDsml :: bool
  ds_sawNativeTool :: bool
  ds_failed :: bool
  ds_delayedMessageComplete :: "canonical_event list"
  ds_nextToolIndex :: nat
  ds_draws :: nat

definition new_dsml_stream :: dsml_stream where
  "new_dsml_stream =
     \<lparr>ds_pendingText = [], ds_pendingTextIndex = None, ds_pendingContentType = None, ds_block = [],
      ds_activeStartMarker = None, ds_sawDsml = False, ds_sawNativeTool = False, ds_failed = False,
      ds_delayedMessageComplete = [], ds_nextToolIndex = 0, ds_draws = 0\<rparr>"

text \<open>How much of the end of a text may be the beginning of a marker.\<close>

definition longestPossibleMarkerPrefix :: "js_text \<Rightarrow> nat" where
  "longestPossibleMarkerPrefix s =
     (let limit = min (length s) (foldl max 0 (map (\<lambda>m. length m - 1) DEEPSEEK_DSML_START_MARKERS))
      in case find (\<lambda>n. list_ex (\<lambda>m. text_starts m (drop (length s - n) s)) DEEPSEEK_DSML_START_MARKERS)
             (rev [1..<Suc limit]) of
           Some n \<Rightarrow> n
         | None \<Rightarrow> 0)"

definition pendingTextEvent :: "dsml_stream \<Rightarrow> js_text \<Rightarrow> canonical_event" where
  "pendingTextEvent st s = Text_Delta s (ds_pendingTextIndex st) (ds_pendingContentType st)"

definition dsml_stream_fail :: "dsml_error \<Rightarrow> dsml_stream \<Rightarrow> dsml_stream \<times> canonical_event list" where
  "dsml_stream_fail e st =
     (st\<lparr>ds_failed := True, ds_pendingText := [], ds_block := [], ds_delayedMessageComplete := []\<rparr>,
      [Error_Event (Some (dsml_message e)) (Some (utf16 (dsml_code e))) (Some (utf16 ''invalid_deepseek_dsml''))])"

definition mixed_stream_formats :: "dsml_error" where
  "mixed_stream_formats = dsml_fail ''mixed_tool_formats''
     (utf16 ''DeepSeek mixed native tool events with a DSML tool-call block.'')"

definition content_after_calls :: "dsml_error" where
  "content_after_calls = dsml_fail ''content_after_dsml''
     (utf16 ''DeepSeek returned unexpected content after its DSML tool calls.'')"

definition unfinished_block :: "dsml_error" where
  "unfinished_block = dsml_fail ''truncated_dsml''
     (utf16 ''DeepSeek ended the response inside a DSML tool-call block.'')"

text \<open>The events of the calls of a block, from the next tool index on.\<close>

fun dsml_call_events :: "nat \<Rightarrow> parsed_call list \<Rightarrow> canonical_event list" where
  "dsml_call_events n [] = []"
| "dsml_call_events n (c # cs) =
     Tool_Call_Delta n (Some (pc_callId c)) (Some (tb_wireName (pc_binding c))) (Some (pc_arguments c)) None None
     # Tool_Call_Complete n # dsml_call_events (Suc n) cs"

definition restore_block ::
  "(nat \<Rightarrow> js_text) \<Rightarrow> tool_bridge_plan \<Rightarrow> js_text \<Rightarrow> js_text \<Rightarrow> dsml_stream \<Rightarrow> dsml_stream \<times> canonical_event list" where
  "restore_block uuid plan completeBlock trailing st =
     (case parseDeepSeekDsmlBlock uuid (ds_draws st) plan completeBlock of
        Inl e \<Rightarrow> dsml_stream_fail e st
      | Inr None \<Rightarrow> dsml_stream_fail
          (dsml_fail ''invalid_dsml'' (utf16 ''DeepSeek returned an invalid DSML tool-call block.'')) st
      | Inr (Some parsed) \<Rightarrow>
          let output = dsml_call_events (ds_nextToolIndex st) (db_calls parsed);
              st = st\<lparr>ds_sawDsml := True, ds_nextToolIndex := ds_nextToolIndex st + length (db_calls parsed),
                      ds_draws := ds_draws st + length (db_calls parsed)\<rparr>
          in if text_trim trailing \<noteq> []
             then (case dsml_stream_fail content_after_calls st of (st, es) \<Rightarrow> (st, output @ es))
             else (st, output))"

definition consumeBlockText ::
  "(nat \<Rightarrow> js_text) \<Rightarrow> tool_bridge_plan \<Rightarrow> js_text \<Rightarrow> dsml_stream \<Rightarrow> dsml_stream \<times> canonical_event list" where
  "consumeBlockText uuid plan s st =
     (let st = st\<lparr>ds_block := ds_block st @ s\<rparr>;
          endMarker = matchingEndMarker (case ds_activeStartMarker st of Some m \<Rightarrow> m | None \<Rightarrow> [])
      in case text_index endMarker (ds_block st) of
           None \<Rightarrow> (st, [])
         | Some endIndex \<Rightarrow>
             let blockEnd = endIndex + length endMarker;
                 completeBlock = take blockEnd (ds_block st);
                 trailing = drop blockEnd (ds_block st);
                 st = st\<lparr>ds_block := [], ds_activeStartMarker := None\<rparr>
             in if ds_sawNativeTool st then dsml_stream_fail mixed_stream_formats st
                else restore_block uuid plan completeBlock trailing st)"

text \<open>A text delta when no text of another part is pending.\<close>

definition consume_same_text ::
  "(nat \<Rightarrow> js_text) \<Rightarrow> tool_bridge_plan \<Rightarrow> js_text \<Rightarrow> nat option \<Rightarrow> content_type option \<Rightarrow> dsml_stream
    \<Rightarrow> dsml_stream \<times> canonical_event list" where
  "consume_same_text uuid plan s index kind st =
     (let st = st\<lparr>ds_pendingTextIndex := index, ds_pendingContentType := kind\<rparr>
      in if ds_sawDsml st
         then (if text_trim s = [] then (st, []) else dsml_stream_fail content_after_calls st)
         else if ds_activeStartMarker st \<noteq> None then consumeBlockText uuid plan s st
         else let buffered = ds_pendingText st @ s
              in case earliestMarker buffered DEEPSEEK_DSML_START_MARKERS of
                   Some (i, m) \<Rightarrow>
                     let output = (if take i buffered = [] then [] else [pendingTextEvent st (take i buffered)])
                     in (case consumeBlockText uuid plan (drop i buffered)
                           (st\<lparr>ds_pendingText := [], ds_activeStartMarker := Some m\<rparr>) of
                           (st, es) \<Rightarrow> (st, output @ es))
                 | None \<Rightarrow>
                     let safeLength = length buffered - longestPossibleMarkerPrefix buffered
                     in if safeLength = 0 then (st\<lparr>ds_pendingText := buffered\<rparr>, [])
                        else (st\<lparr>ds_pendingText := drop safeLength buffered\<rparr>,
                              [pendingTextEvent st (take safeLength buffered)]))"

definition consumeText ::
  "(nat \<Rightarrow> js_text) \<Rightarrow> tool_bridge_plan \<Rightarrow> js_text \<Rightarrow> nat option \<Rightarrow> content_type option \<Rightarrow> dsml_stream
    \<Rightarrow> dsml_stream \<times> canonical_event list" where
  "consumeText uuid plan s index kind st =
     (if ds_pendingText st \<noteq> [] \<and> (index \<noteq> ds_pendingTextIndex st \<or> kind \<noteq> ds_pendingContentType st)
      then let flushed = pendingTextEvent st (ds_pendingText st)
           in (case consume_same_text uuid plan s index kind (st\<lparr>ds_pendingText := []\<rparr>) of
                 (st, es) \<Rightarrow> (st, flushed # es))
      else consume_same_text uuid plan s index kind st)"

definition finishTextAtStop :: "dsml_stream \<Rightarrow> dsml_stream \<times> canonical_event list" where
  "finishTextAtStop st =
     (if ds_activeStartMarker st \<noteq> None then dsml_stream_fail unfinished_block st
      else if ds_pendingText st = [] then (st, [])
      else let pending = ds_pendingText st; st = st\<lparr>ds_pendingText := []\<rparr>
           in if ds_sawDsml st \<and> text_trim pending \<noteq> [] then dsml_stream_fail content_after_calls st
              else (st, if ds_sawDsml st then [] else [pendingTextEvent st pending]))"

definition invalid_stop :: canonical_event where
  "invalid_stop = Stop Stop_Error (Some (utf16 ''invalid_dsml''))"

definition dsml_stop :: "canonical_event \<Rightarrow> dsml_stream \<Rightarrow> dsml_stream \<times> canonical_event list" where
  "dsml_stop ev st =
     (case finishTextAtStop st of (st, es) \<Rightarrow>
        if ds_failed st then (st, es @ [invalid_stop])
        else (st\<lparr>ds_delayedMessageComplete := []\<rparr>,
              es @ ds_delayedMessageComplete st @
              [if ds_sawDsml st then Stop Stop_Tool_Calls (Some (utf16 ''dsml_tool_calls'')) else ev]))"

fun after_failure :: "canonical_event \<Rightarrow> canonical_event list" where
  "after_failure (Usage u) = [Usage u]"
| "after_failure Done = [Done]"
| "after_failure (Error_Event m c t) = [Error_Event m c t]"
| "after_failure (Stop r raw) = [invalid_stop]"
| "after_failure ev = []"

fun dsml_event ::
  "(nat \<Rightarrow> js_text) \<Rightarrow> tool_bridge_plan \<Rightarrow> dsml_stream \<Rightarrow> canonical_event \<Rightarrow> dsml_stream \<times> canonical_event list" where
  "dsml_event uuid plan st (Text_Delta s index kind) =
     (if kind = Some Refusal_Content then (st, [Text_Delta s index kind])
      else consumeText uuid plan s index kind st)"
| "dsml_event uuid plan st (Tool_Call_Delta i ident name arguments kind out) =
     (if ds_sawDsml st \<or> ds_activeStartMarker st \<noteq> None then dsml_stream_fail mixed_stream_formats st
      else (st\<lparr>ds_sawNativeTool := True, ds_nextToolIndex := max (ds_nextToolIndex st) (Suc i)\<rparr>,
            [Tool_Call_Delta i ident name arguments kind out]))"
| "dsml_event uuid plan st (Message_Complete i) =
     (st\<lparr>ds_delayedMessageComplete := ds_delayedMessageComplete st @ [Message_Complete i]\<rparr>, [])"
| "dsml_event uuid plan st (Stop r raw) = dsml_stop (Stop r raw) st"
| "dsml_event uuid plan st ev = (st, [ev])"

fun transform ::
  "(nat \<Rightarrow> js_text) \<Rightarrow> tool_bridge_plan \<Rightarrow> dsml_stream \<Rightarrow> canonical_event list \<Rightarrow> dsml_stream \<times> canonical_event list" where
  "transform uuid plan st [] = (st, [])"
| "transform uuid plan st (ev # evs) =
     (case (if ds_failed st then (st, after_failure ev) else dsml_event uuid plan st ev) of
        (st, es) \<Rightarrow> (case transform uuid plan st evs of (st, es') \<Rightarrow> (st, es @ es')))"

text \<open>\<^verbatim>\<open>finish\<close>, given what the wrapped parser returns at its end.\<close>

definition dsml_finish ::
  "(nat \<Rightarrow> js_text) \<Rightarrow> tool_bridge_plan \<Rightarrow> dsml_stream \<Rightarrow> canonical_event list \<Rightarrow> dsml_stream \<times> canonical_event list" where
  "dsml_finish uuid plan st evs =
     (case transform uuid plan st evs of (st, es) \<Rightarrow>
        if \<not> ds_failed st \<and> ds_activeStartMarker st \<noteq> None
        then (case dsml_stream_fail unfinished_block st of (st, fs) \<Rightarrow> (st, fs @ es))
        else if \<not> ds_failed st \<and> ds_pendingText st \<noteq> []
        then (st\<lparr>ds_pendingText := []\<rparr>, pendingTextEvent st (ds_pendingText st) # es)
        else (st, es))"

end
