(* ===== verification/Dsml_Proofs.thy ===== *)
theory Dsml_Proofs
  imports Dsml_Stream
begin

text \<open>
  Finding the markup while it arrives is finding it in the whole text: what the stream parser emits for the
  deltas of one text part is what the parser of buffered text makes of their concatenation.
\<close>

section \<open>Markers\<close>

abbreviation markers :: "js_text list" where "markers \<equiv> DEEPSEEK_DSML_START_MARKERS"

abbreviation occurs :: "js_text \<Rightarrow> js_text \<Rightarrow> nat \<Rightarrow> bool" where
  "occurs m s j \<equiv> text_starts (drop j s) m"

lemmas marker_defs = DEEPSEEK_DSML_START_MARKERS_def DEEPSEEK_DSML_END_MARKERS_def DSML_TOKENS_def
  start_marker_def end_marker_def utf16_def Let_def

lemma token_cases:
  assumes "m \<in> set markers"
  obtains token where "token \<in> set DSML_TOKENS" "m = start_marker token"
  using assms by (auto simp: DEEPSEEK_DSML_START_MARKERS_def)

lemma token_facts:
  assumes "token \<in> set DSML_TOKENS"
  shows "token \<noteq> []" "60 \<notin> set token" "hd token \<noteq> 47"
  using assms by (auto simp: DSML_TOKENS_def Let_def utf16_def)

lemma end_of_start: "token \<in> set DSML_TOKENS \<Longrightarrow> matchingEndMarker (start_marker token) = end_marker token"
  by (auto simp: matchingEndMarker_def marker_defs)

lemma token_of_start: "marker_token (start_marker token) = token"
  by (simp add: marker_token_def start_marker_def utf16_def)

text \<open>A marker begins with the only \<open><\<close> in it.\<close>

definition sharp :: "js_text \<Rightarrow> bool" where
  "sharp m \<longleftrightarrow> (\<exists>r. m = 60 # r \<and> 60 \<notin> set r)"

lemma start_sharp: "m \<in> set markers \<Longrightarrow> sharp m"
  by (erule token_cases) (auto simp: sharp_def start_marker_def utf16_def dest: token_facts(2))

lemma end_sharp: "token \<in> set DSML_TOKENS \<Longrightarrow> sharp (end_marker token)"
  by (auto simp: sharp_def end_marker_def utf16_def dest: token_facts(2))

lemma occurs_length:
  assumes "occurs m s j" "m \<noteq> []"
  shows "j + length m \<le> length s"
proof -
  have "length (take (length m) (drop j s)) = length m" using assms(1) by (simp add: text_starts_def)
  then show ?thesis using assms(2) by (cases m) simp_all
qed

lemma occurs_append: "occurs m s j \<Longrightarrow> m \<noteq> [] \<Longrightarrow> occurs m (s @ t) j"
  using occurs_length [where m = m and s = s and j = j] by (simp add: text_starts_def)

lemma occurs_before: "occurs m (s @ t) j \<Longrightarrow> j + length m \<le> length s \<Longrightarrow> occurs m s j"
  by (simp add: text_starts_def)

lemma occurs_nth:
  assumes "occurs m s j" "i < length m"
  shows "s ! (j + i) = m ! i"
proof -
  have "m ! i = take (length m) (drop j s) ! i" using assms(1) by (simp add: text_starts_def)
  also have "\<dots> = s ! (j + i)" using assms occurs_length [where m = m and s = s and j = j] by (cases m) simp_all
  finally show ?thesis by simp
qed

text \<open>Occurrences of sharp markers do not overlap.\<close>

lemma no_overlap:
  assumes "sharp m" "sharp m'" "occurs m s i" "occurs m' s j" "j < i"
  shows "j + length m' \<le> i"
proof (rule ccontr)
  assume "\<not> j + length m' \<le> i"
  then have k: "i - j < length m'" using assms(5) by arith
  obtain r where r: "m' = 60 # r" "60 \<notin> set r" using assms(2) by (auto simp: sharp_def)
  have "s ! i = 60" using occurs_nth [OF assms(3), where i = 0] assms(1) by (auto simp: sharp_def)
  then have "m' ! (i - j) = 60" using occurs_nth [OF assms(4) k] assms(5) by simp
  then have "r ! (i - j - 1) = 60" using r(1) assms(5) by simp
  moreover have "i - j - 1 < length r" using k r(1) assms(5) by simp
  ultimately show False using r(2) nth_mem by metis
qed

lemma prefix_free:
  assumes "m \<in> set markers" "m' \<in> set markers" "text_starts s m" "text_starts s m'"
  shows "m = m'"
proof -
  have long: "3 \<le> length k" if "k \<in> set markers" for k using that by (auto simp: marker_defs)
  have "take 3 k = take 3 s" if "k \<in> set markers" "text_starts s k" for k
  proof -
    have "take 3 (take (length k) s) = take 3 s" using long [OF that(1)] by (simp add: min_def)
    then show ?thesis using that(2) by (simp only: text_starts_def)
  qed
  then have "take 3 m = take 3 m'" using assms by metis
  then show ?thesis using assms(1,2) by (auto simp: marker_defs)
qed

section \<open>The earliest marker\<close>

lemma closer_found:
  assumes "foldl (closer_marker s) best ms = Some (i, m)"
  shows "(best = Some (i, m) \<or> (m \<in> set ms \<and> text_index m s = Some i))
    \<and> (\<forall>m' \<in> set ms. \<forall>j. text_index m' s = Some j \<longrightarrow> i \<le> j)
    \<and> (\<forall>j m'. best = Some (j, m') \<longrightarrow> i \<le> j)"
  using assms
proof (induction ms arbitrary: best)
  case (Cons k ms)
  from Cons.prems have "foldl (closer_marker s) (closer_marker s best k) ms = Some (i, m)" by simp
  from Cons.IH [OF this] show ?case
    by (cases "text_index k s"; cases best) (auto simp: closer_marker_def split: if_splits; fastforce)+
qed simp

lemma closer_none:
  "foldl (closer_marker s) best ms = None \<longleftrightarrow> best = None \<and> (\<forall>m \<in> set ms. text_index m s = None)"
  by (induction ms arbitrary: best) (auto simp: closer_marker_def split: option.splits)

lemma occurs_index: "occurs m s j \<Longrightarrow> \<exists>i \<le> j. text_index m s = Some i"
  using text_index_None [of m s j] text_index_Some [of m s] by (cases "text_index m s") (auto simp: not_less [symmetric])

lemma earliest_None: "earliestMarker s markers = None \<longleftrightarrow> (\<forall>m \<in> set markers. \<forall>j. \<not> occurs m s j)"
  unfolding earliestMarker_def closer_none
  using text_index_None text_index_Some by (metis not_None_eq)

lemma earliest_Some:
  "earliestMarker s markers = Some (i, m) \<longleftrightarrow>
     m \<in> set markers \<and> occurs m s i \<and> (\<forall>m' \<in> set markers. \<forall>j < i. \<not> occurs m' s j)"
proof
  assume "earliestMarker s markers = Some (i, m)"
  from closer_found [OF this [unfolded earliestMarker_def]]
  have *: "m \<in> set markers" "text_index m s = Some i"
    and least: "\<And>m' j. m' \<in> set markers \<Longrightarrow> text_index m' s = Some j \<Longrightarrow> i \<le> j" by blast+
  have "\<not> occurs m' s j" if "m' \<in> set markers" "j < i" for m' j
    using occurs_index [where m = m' and s = s and j = j] least [OF that(1)] that(2) by fastforce
  with * text_index_Some [OF *(2)]
  show "m \<in> set markers \<and> occurs m s i \<and> (\<forall>m' \<in> set markers. \<forall>j < i. \<not> occurs m' s j)" by blast
next
  assume *: "m \<in> set markers \<and> occurs m s i \<and> (\<forall>m' \<in> set markers. \<forall>j < i. \<not> occurs m' s j)"
  then obtain i' m' where e: "earliestMarker s markers = Some (i', m')"
    using earliest_None by (metis old.prod.exhaust option.exhaust)
  from closer_found [OF this [unfolded earliestMarker_def]]
  have **: "m' \<in> set markers" "text_index m' s = Some i'"
    and least: "\<And>k j. k \<in> set markers \<Longrightarrow> text_index k s = Some j \<Longrightarrow> i' \<le> j" by blast+
  have "i' \<le> i" using occurs_index [where m = m and s = s and j = i] least [of m] * by fastforce
  moreover have "\<not> i' < i" using * ** text_index_Some [OF **(2)] by blast
  ultimately have "i' = i" by simp
  with prefix_free [of m m' "drop i s"] * ** text_index_Some [OF **(2)] e
  show "earliestMarker s markers = Some (i, m)" by simp
qed

section \<open>Growing texts\<close>

lemma earliest_append:
  assumes "earliestMarker s markers = Some (i, m)"
  shows "earliestMarker (s @ t) markers = Some (i, m)"
proof -
  have m: "m \<in> set markers" "occurs m s i" "\<And>k j. k \<in> set markers \<Longrightarrow> j < i \<Longrightarrow> \<not> occurs k s j"
    using assms by (auto simp: earliest_Some)
  have nonempty: "k \<noteq> []" if "k \<in> set markers" for k using start_sharp [OF that] by (auto simp: sharp_def)
  have late: "occurs m (s @ t) i" using occurs_append [OF m(2) nonempty [OF m(1)]] .
  have "\<not> occurs k (s @ t) j" if "k \<in> set markers" "j < i" for k j
  proof
    assume o: "occurs k (s @ t) j"
    have "j + length k \<le> i" by (rule no_overlap [OF start_sharp [OF m(1)] start_sharp [OF that(1)] late o that(2)])
    then have "j + length k \<le> length s"
      using occurs_length [OF m(2) nonempty [OF m(1)]] by simp
    with o that m(3) show False using occurs_before by blast
  qed
  with m(1) late show ?thesis unfolding earliest_Some by blast
qed

text \<open>Nothing kept back can be part of a marker.\<close>

definition released :: "nat \<Rightarrow> js_text \<Rightarrow> bool" where
  "released n s \<longleftrightarrow> n \<le> length s \<and> (\<forall>t. \<forall>m \<in> set markers. \<forall>j < n. \<not> occurs m (s @ t) j)"

lemma longest_possible:
  assumes "m \<in> set markers" "n < length m" "0 < n" "n \<le> length s" "text_starts m (drop (length s - n) s)"
  shows "n \<le> longestPossibleMarkerPrefix s"
proof -
  let ?P = "\<lambda>n. list_ex (\<lambda>m. text_starts m (drop (length s - n) s)) markers"
  let ?limit = "min (length s) (foldl max 0 (map (\<lambda>m. length m - 1) markers))"
  have "k \<le> foldl max a ks" if "k \<in> set ks" for k a and ks :: "nat list"
  proof -
    have up: "a \<le> foldl max a ks" for a and ks :: "nat list" by (induction ks arbitrary: a) (simp, metis foldl_Cons max.bounded_iff)
    show ?thesis using that by (induction ks arbitrary: a) (auto intro: order_trans [OF _ up])
  qed
  then have "length m - 1 \<le> foldl max 0 (map (\<lambda>m. length m - 1) markers)" using assms(1) by force
  then have n: "n \<le> ?limit" "?P n" using assms by (auto simp: list_ex_iff)
  show ?thesis
    using find_longest [of ?P ?limit] n assms(3) unfolding longestPossibleMarkerPrefix_def Let_def
    by (cases "find ?P (rev [1..<Suc ?limit])") (auto simp del: upt_Suc min.bounded_iff)
qed

lemma longest_possible_le: "longestPossibleMarkerPrefix s \<le> length s"
  using find_longest [of "\<lambda>n. list_ex (\<lambda>m. text_starts m (drop (length s - n) s)) markers"
      "min (length s) (foldl max 0 (map (\<lambda>m. length m - 1) markers))"]
  unfolding longestPossibleMarkerPrefix_def Let_def by (auto split: option.splits simp del: upt_Suc)

lemma released_safe:
  assumes "earliestMarker s markers = None"
  shows "released (length s - longestPossibleMarkerPrefix s) s"
  unfolding released_def
proof (intro conjI allI ballI impI notI)
  fix t m j assume m: "m \<in> set markers" "j < length s - longestPossibleMarkerPrefix s" "occurs m (s @ t) j"
  have "\<not> occurs m s j" using assms m(1) by (auto simp: earliest_None)
  then have long: "length s < j + length m" using occurs_before m(3) by (meson not_le)
  let ?n = "length s - j"
  have n: "0 < ?n" "?n \<le> length s" "?n < length m" using m(2) long by auto
  have "take (length m) (drop j s @ t) = m" using m(2,3) by (simp add: text_starts_def)
  then have "take ?n m = take ?n (take (length m) (drop j s @ t))" by simp
  also have "\<dots> = drop j s" using n by simp
  finally have "text_starts m (drop (length s - ?n) s)" using m(2) by (simp add: text_starts_def)
  from longest_possible [OF m(1) n(3,1,2) this] m(2) show False by simp
qed simp

lemma earliest_released:
  assumes "released n s"
  shows "earliestMarker (s @ t) markers =
    map_option (\<lambda>(i, m). (n + i, m)) (earliestMarker (drop n s @ t) markers)"
proof -
  have n: "n \<le> length s" and none: "\<And>m j. m \<in> set markers \<Longrightarrow> j < n \<Longrightarrow> \<not> occurs m (s @ t) j"
    using assms by (auto simp: released_def)
  have shift: "occurs m (s @ t) (n + j) = occurs m (drop n s @ t) j" for m j
    using n by (simp add: add.commute drop_drop [symmetric] del: drop_drop)
  show ?thesis
  proof (cases "earliestMarker (drop n s @ t) markers")
    case None
    have "\<not> occurs m (s @ t) j" if "m \<in> set markers" for m j
    proof (cases "j < n")
      case False
      then obtain k where j: "j = n + k" using le_Suc_ex not_less by blast
      show ?thesis using None that unfolding j shift earliest_None by blast
    qed (use none [OF that] in blast)
    then show ?thesis using None earliest_None [of "s @ t"] by simp
  next
    case (Some im)
    then obtain i m where im: "earliestMarker (drop n s @ t) markers = Some (i, m)" by (cases im) simp
    then have f: "m \<in> set markers" "occurs m (drop n s @ t) i"
      "\<And>k j. k \<in> set markers \<Longrightarrow> j < i \<Longrightarrow> \<not> occurs k (drop n s @ t) j" by (auto simp: earliest_Some)
    have "\<not> occurs k (s @ t) j" if "k \<in> set markers" "j < n + i" for k j
    proof (cases "j < n")
      case False
      then obtain l where j: "j = n + l" using le_Suc_ex not_less by blast
      show ?thesis using f(3) [OF that(1), of l] that(2) unfolding j shift by simp
    qed (use none [OF that(1)] in blast)
    then have "earliestMarker (s @ t) markers = Some (n + i, m)"
      using f(1,2) unfolding earliest_Some shift by blast
    then show ?thesis using im by simp
  qed
qed

section \<open>Blocks\<close>

lemma split_append: "split_at m s = Some (a, b) \<Longrightarrow> m \<noteq> [] \<Longrightarrow> split_at m (s @ t) = Some (a, b @ t)"
proof -
  assume "split_at m s = Some (a, b)" "m \<noteq> []"
  then obtain i where i: "text_index m s = Some i" "a = take i s" "b = drop (i + length m) s"
    by (auto simp: split_at_def)
  note at = text_index_Some [OF i(1)]
  have len: "i + length m \<le> length s" using at \<open>m \<noteq> []\<close> occurs_length by blast
  have "occurs m (s @ t) i" using at \<open>m \<noteq> []\<close> occurs_append by blast
  then obtain k where k: "text_index m (s @ t) = Some k" "k \<le> i" using occurs_index by blast
  have "\<not> k < i"
  proof
    assume "k < i"
    then have "occurs m s k" using occurs_before text_index_Some [OF k(1)] len by fastforce
    with at \<open>k < i\<close> show False by blast
  qed
  with k i len show "split_at m (s @ t) = Some (a, b @ t)" by (simp add: split_at_def)
qed

lemma split_index: "split_at m s = Some (a, b) \<Longrightarrow> text_index m s = Some (length a)"
  using text_index_Some [of m s] by (auto simp: split_at_def min_def)

lemma split_parts:
  assumes "split_at m s = Some (a, b)"
  shows "s = a @ m @ b"
proof -
  obtain i where i: "text_index m s = Some i" "a = take i s" "b = drop (i + length m) s"
    using assms by (auto simp: split_at_def)
  have "drop i s = take (length m) (drop i s) @ drop (length m) (drop i s)" by (simp only: append_take_drop_id)
  also have "\<dots> = m @ b" using text_index_Some [OF i(1)] i(3) by (simp add: text_starts_def add.commute)
  finally show ?thesis using i(2) by (metis append_take_drop_id)
qed

text \<open>The end marker is not found inside the start marker.\<close>

lemma index_after_start:
  assumes "token \<in> set DSML_TOKENS"
  shows "text_index (end_marker token) (start_marker token @ s)
    = map_option (\<lambda>i. length (start_marker token) + i) (text_index (end_marker token) s)"
proof -
  let ?m = "start_marker token" and ?e = "end_marker token"
  obtain u r where token: "token = u # r" "u \<noteq> 47" using token_facts [OF assms] by (cases token) auto
  have m: "?m ! 1 = u" "?m = 60 # tl ?m" "60 \<notin> set (tl ?m)"
    using token token_facts(2) [OF assms] by (auto simp: start_marker_def utf16_def)
  have e: "?e = 60 # 47 # drop 2 ?e" by (simp add: end_marker_def utf16_def)
  have "\<not> occurs ?e (?m @ s) j" if "j < length ?m" for j
  proof
    assume o: "occurs ?e (?m @ s) j"
    have two: "(?m @ s) ! j = 60" "(?m @ s) ! Suc j = 47"
      using occurs_nth [OF o, where i = 0] occurs_nth [OF o, where i = 1] e by (metis One_nat_def add.right_neutral add_Suc_right length_Cons nth_Cons_0 nth_Cons_Suc zero_less_Suc Suc_less_eq)+
    show False
    proof (cases j)
      case 0
      then show ?thesis using two(2) m(1) token by (simp add: start_marker_def utf16_def)
    next
      case (Suc k)
      then have "tl ?m ! k = 60" using two(1) that m(2) by (metis Suc_less_eq length_Cons nth_Cons_Suc nth_append)
      then show ?thesis using m(2,3) that Suc nth_mem [of k "tl ?m"] by (metis Suc_less_eq length_Cons)
    qed
  qed
  then have "text_index ?e (drop k ?m @ s) = map_option (\<lambda>i. length ?m - k + i) (text_index ?e s)" if "k \<le> length ?m" for k
    using that
  proof (induction "length ?m - k" arbitrary: k)
    case (Suc n)
    then have k: "k < length ?m" by simp
    then have d: "drop k ?m @ s = (?m ! k) # (drop (Suc k) ?m @ s)" by (simp add: Cons_nth_drop_Suc)
    have "\<not> text_starts (drop k ?m @ s) ?e" using Suc.prems(1) [OF k] k by simp
    then have "text_index ?e (drop k ?m @ s) = map_option Suc (text_index ?e (drop (Suc k) ?m @ s))"
      unfolding d by simp
    moreover have "text_index ?e (drop (Suc k) ?m @ s) = map_option (\<lambda>i. length ?m - Suc k + i) (text_index ?e s)"
      by (rule Suc.hyps(1)) (use Suc.hyps(2) Suc.prems(1) k in simp_all)
    ultimately show ?case using k by (cases "text_index ?e s") simp_all
  qed (cases "text_index ?e s"; simp)
  from this [of 0] show ?thesis by simp
qed

lemma split_after_start:
  assumes "token \<in> set DSML_TOKENS"
  shows "split_at (end_marker token) (start_marker token @ s)
    = map_option (\<lambda>(a, b). (start_marker token @ a, b)) (split_at (end_marker token) s)"
  by (simp add: split_at_def index_after_start [OF assms] option.map_comp comp_def add.assoc)

text \<open>What a block means, given its marker and its body.\<close>

definition body_calls :: "(nat \<Rightarrow> js_text) \<Rightarrow> tool_bridge_plan \<Rightarrow> js_text \<Rightarrow> js_text \<Rightarrow> parsed_call list dsml_result" where
  "body_calls uuid plan token body =
     and_then (parseInvocations uuid 0 plan token body) (\<lambda>calls.
       if calls = []
       then Inl (dsml_fail ''empty_dsml_block'' (utf16 ''DeepSeek returned an empty DSML tool-call block.''))
       else Inr calls)"

lemma parse_no_marker: "earliestMarker s markers = None \<Longrightarrow> parseDeepSeekDsmlBlock uuid n plan s = Inr None"
  by (simp add: parseDeepSeekDsmlBlock_def)

lemma parse_marker:
  assumes "earliestMarker s markers = Some (i, start_marker token)" "token \<in> set DSML_TOKENS"
  shows "parseDeepSeekDsmlBlock uuid 0 plan s =
    (case split_at (end_marker token) (drop (i + length (start_marker token)) s) of
       None \<Rightarrow> Inl (dsml_fail ''truncated_dsml'' (utf16 ''DeepSeek returned an incomplete DSML tool-call block.''))
     | Some (body, suffix) \<Rightarrow>
         if containsDsmlStart suffix
         then Inl (dsml_fail ''multiple_dsml_blocks'' (utf16 ''DeepSeek returned more than one DSML tool-call block.''))
         else if text_trim suffix \<noteq> []
         then Inl (dsml_fail ''content_after_dsml''
           (utf16 ''DeepSeek returned unexpected content after its DSML tool calls.''))
         else and_then (body_calls uuid plan token body)
           (\<lambda>calls. Inr (Some \<lparr>db_prefix = take i s, db_suffix = suffix, db_calls = calls\<rparr>)))"
  using assms
  by (simp add: parseDeepSeekDsmlBlock_def end_of_start token_of_start body_calls_def and_then_def
      split: option.split sum.split)

lemma whole_block:
  assumes "token \<in> set DSML_TOKENS" "split_at (end_marker token) (body @ end_marker token) = Some (body, [])"
  shows "parseDeepSeekDsmlBlock uuid 0 plan (start_marker token @ body @ end_marker token) =
    and_then (body_calls uuid plan token body)
      (\<lambda>calls. Inr (Some \<lparr>db_prefix = [], db_suffix = [], db_calls = calls\<rparr>))"
proof -
  let ?s = "start_marker token @ body @ end_marker token"
  have "earliestMarker ?s markers = Some (0, start_marker token)"
    unfolding earliest_Some using assms(1) by (simp add: DEEPSEEK_DSML_START_MARKERS_def text_starts_def)
  from parse_marker [OF this assms(1)] show ?thesis
    using assms(2)
    by (simp add: containsDsmlStart_def text_trim_def DEEPSEEK_DSML_START_MARKERS_def list_ex_iff start_marker_def utf16_def)
qed

lemma split_prefix:
  assumes "split_at m s = Some (a, b)" "m \<noteq> []"
  shows "split_at m (a @ m) = Some (a, [])"
proof -
  have s: "s = (a @ m) @ b" using split_parts [OF assms(1)] by simp
  have "occurs m (a @ m) (length a)" by (simp add: text_starts_def)
  then obtain i where i: "text_index m (a @ m) = Some i" "i \<le> length a" using occurs_index by blast
  have at: "text_index m s = Some (length a)"
    using split_index [OF assms(1)] .
  have "\<not> i < length a"
    using text_index_Some [OF at] text_index_Some [OF i(1)] occurs_append [where m = m and s = "a @ m" and t = b] assms(2)
    unfolding s by blast
  with i show ?thesis by (simp add: split_at_def)
qed

section \<open>The stream\<close>

definition dsml_error_event :: "dsml_error \<Rightarrow> canonical_event" where
  "dsml_error_event e =
     Error_Event (Some (dsml_message e)) (Some (utf16 (dsml_code e))) (Some (utf16 ''invalid_deepseek_dsml''))"

definition text_events :: "nat option \<Rightarrow> content_type option \<Rightarrow> js_text list \<Rightarrow> canonical_event list" where
  "text_events index kind ss = map (\<lambda>s. Text_Delta s index kind) ss"

lemma fail_eq: "dsml_stream_fail e st =
  (st\<lparr>ds_failed := True, ds_pendingText := [], ds_block := [], ds_delayedMessageComplete := []\<rparr>, [dsml_error_event e])"
  by (simp add: dsml_stream_fail_def dsml_error_event_def)

lemma block_text:
  assumes "ds_activeStartMarker st = Some (start_marker token)" "token \<in> set DSML_TOKENS"
    "ds_block st @ s = start_marker token @ r" "\<not> ds_sawNativeTool st"
  shows "consumeBlockText uuid plan s st = (case split_at (end_marker token) r of
      None \<Rightarrow> (st\<lparr>ds_block := start_marker token @ r\<rparr>, [])
    | Some (body, suffix) \<Rightarrow> restore_block uuid plan (start_marker token @ body @ end_marker token) suffix
        (st\<lparr>ds_block := [], ds_activeStartMarker := None\<rparr>))"
proof (cases "split_at (end_marker token) r")
  case None
  then show ?thesis
    using assms split_after_start [OF assms(2), of r]
    by (simp add: consumeBlockText_def Let_def end_of_start split_at_def)
next
  case (Some p)
  then obtain body suffix where p: "split_at (end_marker token) r = Some (body, suffix)" by (cases p) simp
  note r = split_parts [OF p]
  have "text_index (end_marker token) (start_marker token @ r) = Some (length (start_marker token) + length body)"
    using split_index [OF p] index_after_start [OF assms(2), of r] by simp
  then show ?thesis
    using assms p r by (simp add: consumeBlockText_def Let_def end_of_start)
qed

lemma restored_block:
  assumes "token \<in> set DSML_TOKENS" "split_at (end_marker token) r = Some (body, suffix)"
    "ds_draws st = 0" "ds_nextToolIndex st = 0"
  shows "restore_block uuid plan (start_marker token @ body @ end_marker token) suffix st =
    (case body_calls uuid plan token body of
       Inl e \<Rightarrow> dsml_stream_fail e st
     | Inr calls \<Rightarrow>
         let st = st\<lparr>ds_sawDsml := True, ds_nextToolIndex := length calls, ds_draws := length calls\<rparr>
         in if text_trim suffix \<noteq> []
            then (fst (dsml_stream_fail content_after_calls st),
              dsml_call_events 0 calls @ [dsml_error_event content_after_calls])
            else (st, dsml_call_events 0 calls))"
proof -
  have "end_marker token \<noteq> []" by (simp add: end_marker_def utf16_def)
  from whole_block [OF assms(1) split_prefix [OF assms(2) this], of uuid plan] show ?thesis
    using assms(3,4) by (simp add: restore_block_def and_then_def Let_def fail_eq split: sum.split)
qed

text \<open>The state after the deltas of a text, and what has been emitted.\<close>

definition block_seen ::
  "(nat \<Rightarrow> js_text) \<Rightarrow> tool_bridge_plan \<Rightarrow> js_text \<Rightarrow> js_text \<Rightarrow> dsml_stream \<Rightarrow> canonical_event list \<Rightarrow> bool" where
  "block_seen uuid plan token r st es \<longleftrightarrow>
     (case split_at (end_marker token) r of
        None \<Rightarrow> \<not> ds_failed st \<and> ds_activeStartMarker st = Some (start_marker token) \<and> \<not> ds_sawDsml st
          \<and> ds_block st = start_marker token @ r \<and> ds_nextToolIndex st = 0 \<and> ds_draws st = 0 \<and> es = []
      | Some (body, suffix) \<Rightarrow>
          (case body_calls uuid plan token body of
             Inl e \<Rightarrow> ds_failed st \<and> es = [dsml_error_event e]
           | Inr calls \<Rightarrow>
               if text_trim suffix = []
               then \<not> ds_failed st \<and> ds_sawDsml st \<and> ds_activeStartMarker st = None \<and> es = dsml_call_events 0 calls
               else ds_failed st \<and> es = dsml_call_events 0 calls @ [dsml_error_event content_after_calls]))"

definition stream_after ::
  "(nat \<Rightarrow> js_text) \<Rightarrow> tool_bridge_plan \<Rightarrow> nat option \<Rightarrow> content_type option \<Rightarrow> js_text \<Rightarrow> dsml_stream
    \<Rightarrow> canonical_event list \<Rightarrow> bool" where
  "stream_after uuid plan index kind u st out \<longleftrightarrow>
     \<not> ds_sawNativeTool st \<and> ds_delayedMessageComplete st = [] \<and>
     (\<exists>ss es. out = text_events index kind ss @ es \<and>
       (case earliestMarker u markers of
          None \<Rightarrow> es = [] \<and> concat ss @ ds_pendingText st = u \<and> released (length (concat ss)) u
            \<and> \<not> ds_failed st \<and> ds_activeStartMarker st = None \<and> \<not> ds_sawDsml st \<and> ds_block st = []
            \<and> ds_nextToolIndex st = 0 \<and> ds_draws st = 0
            \<and> (ds_pendingText st \<noteq> [] \<longrightarrow> ds_pendingTextIndex st = index \<and> ds_pendingContentType st = kind)
        | Some (i, m) \<Rightarrow> concat ss = take i u \<and> ds_pendingText st = []
            \<and> (\<exists>token \<in> set DSML_TOKENS. m = start_marker token
                \<and> block_seen uuid plan token (drop (i + length m) u) st es)))"

lemma consumed_block:
  assumes "ds_activeStartMarker st = Some (start_marker token)" "token \<in> set DSML_TOKENS"
    "ds_block st @ s = start_marker token @ r" "\<not> ds_sawNativeTool st" "ds_delayedMessageComplete st = []"
    "ds_pendingText st = []" "\<not> ds_failed st" "\<not> ds_sawDsml st" "ds_nextToolIndex st = 0" "ds_draws st = 0"
    "consumeBlockText uuid plan s st = (st', es)"
  shows "block_seen uuid plan token r st' es \<and> \<not> ds_sawNativeTool st' \<and> ds_delayedMessageComplete st' = []
    \<and> ds_pendingText st' = []"
proof (cases "split_at (end_marker token) r")
  case None
  then show ?thesis using assms block_text [OF assms(1-4)] by (auto simp: block_seen_def)
next
  case (Some p)
  then obtain body suffix where p: "split_at (end_marker token) r = Some (body, suffix)" by (cases p) simp
  have "(st', es) = restore_block uuid plan (start_marker token @ body @ end_marker token) suffix
      (st\<lparr>ds_block := [], ds_activeStartMarker := None\<rparr>)"
    using assms(11) block_text [OF assms(1-4)] p by simp
  then show ?thesis
    using assms p restored_block [OF assms(2) p, of "st\<lparr>ds_block := [], ds_activeStartMarker := None\<rparr>"]
    by (auto simp: block_seen_def fail_eq Let_def split: sum.splits if_splits)
qed

lemma trim_empty: "text_trim s = [] \<longleftrightarrow> list_all text_space s"
proof (cases "dropWhile text_space s")
  case Nil
  then have "list_all text_space s" by (simp add: dropWhile_eq_Nil_conv list_all_iff)
  with Nil show ?thesis by (simp add: text_trim_def del: dropWhile_eq_Nil_conv)
next
  case (Cons u t)
  then have u: "\<not> text_space u" using hd_dropWhile [of text_space s] by simp
  have "u \<in> set s" using Cons set_dropWhileD by (metis list.set_intros(1))
  with u have "\<not> list_all text_space s" by (auto simp: list_all_iff)
  moreover have "dropWhile text_space (rev t @ [u]) \<noteq> []" using u by (simp add: dropWhile_eq_Nil_conv)
  ultimately show ?thesis using Cons by (simp add: text_trim_def)
qed

lemma block_seen_append:
  assumes "block_seen uuid plan token r st es" "token \<in> set DSML_TOKENS" "kind \<noteq> Some Refusal_Content"
    "\<not> ds_sawNativeTool st" "ds_delayedMessageComplete st = []" "ds_pendingText st = []"
    "(if ds_failed st then (st, after_failure (Text_Delta s index kind))
      else dsml_event uuid plan st (Text_Delta s index kind)) = (st', es')"
  shows "block_seen uuid plan token (r @ s) st' (es @ es') \<and> \<not> ds_sawNativeTool st'
    \<and> ds_delayedMessageComplete st' = [] \<and> ds_pendingText st' = []"
proof (cases "split_at (end_marker token) r")
  case None
  then have st: "\<not> ds_failed st" "ds_activeStartMarker st = Some (start_marker token)" "\<not> ds_sawDsml st"
    "ds_block st = start_marker token @ r" "ds_nextToolIndex st = 0" "ds_draws st = 0" "es = []"
    using assms(1) by (simp_all add: block_seen_def)
  let ?st = "st\<lparr>ds_pendingTextIndex := index, ds_pendingContentType := kind\<rparr>"
  have "consumeBlockText uuid plan s ?st = (st', es')"
    using assms(3,6,7) st by (simp add: consumeText_def consume_same_text_def)
  from consumed_block [OF _ assms(2) _ _ _ _ _ _ _ _ this, of "r @ s"] show ?thesis
    using st assms(4-6) by simp
next
  case (Some p)
  then obtain body suffix where p: "split_at (end_marker token) r = Some (body, suffix)" by (cases p) simp
  have "end_marker token \<noteq> []" by (simp add: end_marker_def utf16_def)
  from split_append [OF p this, of s] have p': "split_at (end_marker token) (r @ s) = Some (body, suffix @ s)" .
  have trimmed: "text_trim (x @ y) = [] \<longleftrightarrow> text_trim x = [] \<and> text_trim y = []" for x y
    by (simp add: trim_empty)
  show ?thesis
  proof (cases "ds_failed st")
    case True
    then show ?thesis using assms p p' by (auto simp: block_seen_def trimmed split: sum.splits if_splits)
  next
    case False
    then obtain calls where c: "body_calls uuid plan token body = Inr calls" "text_trim suffix = []"
      "ds_sawDsml st" "ds_activeStartMarker st = None" "es = dsml_call_events 0 calls"
      using assms(1) p by (auto simp: block_seen_def split: sum.splits if_splits)
    then have e: "(st', es') = (if text_trim s = [] then (st\<lparr>ds_pendingTextIndex := index, ds_pendingContentType := kind\<rparr>, [])
        else dsml_stream_fail content_after_calls (st\<lparr>ds_pendingTextIndex := index, ds_pendingContentType := kind\<rparr>))"
      using assms(3,6,7) False by (auto simp: consumeText_def consume_same_text_def Let_def split: if_splits)
    show ?thesis
      using e c assms(4-6) p' False
      by (cases "text_trim s = []") (simp_all add: block_seen_def trimmed fail_eq)
  qed
qed

lemma text_events_append [simp]: "text_events index kind (ss @ ts) = text_events index kind ss @ text_events index kind ts"
  "text_events index kind [] = []"
  by (simp_all add: text_events_def)

lemma released_append: "released n s \<Longrightarrow> released n (s @ t)"
  unfolding released_def append_assoc by (auto simp del: drop_append)

lemma released_shift:
  assumes "released n s" "released k (drop n s)"
  shows "released (n + k) s"
  unfolding released_def
proof (intro conjI allI ballI impI)
  have "n \<le> length s" "k \<le> length s - n" using assms by (simp_all add: released_def)
  then show "n + k \<le> length s" by arith
  fix t m j assume m: "m \<in> set markers" "j < n + k"
  have n: "n \<le> length s" using assms(1) by (simp add: released_def)
  show "\<not> occurs m (s @ t) j"
  proof (cases "j < n")
    case False
    then obtain l where j: "j = n + l" using le_Suc_ex not_less by blast
    have "drop j (s @ t) = drop l (drop n s @ t)" using n by (simp add: j add.commute)
    moreover have "l < k" using m(2) j by simp
    then have "\<not> occurs m (drop n s @ t) l" using assms(2) m(1) unfolding released_def by blast
    ultimately show ?thesis by (simp only: not_False_eq_True)
  qed (use assms(1) m in \<open>auto simp: released_def\<close>)
qed

lemma stream_after_text:
  assumes after: "stream_after uuid plan index kind u st out" and kind: "kind \<noteq> Some Refusal_Content"
    and ev: "(if ds_failed st then (st, after_failure (Text_Delta s index kind))
      else dsml_event uuid plan st (Text_Delta s index kind)) = (st', es')"
  shows "stream_after uuid plan index kind (u @ s) st' (out @ es')"
proof -
  obtain ss es where flags: "\<not> ds_sawNativeTool st" "ds_delayedMessageComplete st = []"
    and out: "out = text_events index kind ss @ es" using after by (auto simp: stream_after_def)
  show ?thesis
  proof (cases "earliestMarker u markers")
    case (Some im)
    then obtain i m where im: "earliestMarker u markers = Some (i, m)" by (cases im) simp
    then obtain ss es token where *: "out = text_events index kind ss @ es" "concat ss = take i u"
      "ds_pendingText st = []" "token \<in> set DSML_TOKENS" "m = start_marker token"
      "block_seen uuid plan token (drop (i + length m) u) st es"
      using after by (auto simp: stream_after_def)
    have "i + length m \<le> length u"
      using im occurs_length [where m = m and s = u and j = i] start_sharp by (auto simp: earliest_Some sharp_def)
    moreover note block_seen_append [OF *(6,4) kind flags *(3) ev]
    ultimately show ?thesis
      using * earliest_append [OF im, of s] unfolding stream_after_def
      by (auto intro!: exI [of _ ss] exI [of _ "es @ es'"])
  next
    case None
    then obtain ss where st: "out = text_events index kind ss" "concat ss @ ds_pendingText st = u"
      "released (length (concat ss)) u" "\<not> ds_failed st" "ds_activeStartMarker st = None" "\<not> ds_sawDsml st"
      "ds_block st = []" "ds_nextToolIndex st = 0" "ds_draws st = 0"
      "ds_pendingText st \<noteq> [] \<longrightarrow> ds_pendingTextIndex st = index \<and> ds_pendingContentType st = kind"
      using after by (auto simp: stream_after_def)
    let ?st = "st\<lparr>ds_pendingTextIndex := index, ds_pendingContentType := kind\<rparr>" and ?b = "ds_pendingText st @ s"
    have same: "consume_same_text uuid plan s index kind st = (st', es')"
      using ev kind st(4,10) by (auto simp: consumeText_def)
    have us: "u @ s = concat ss @ ?b" using st(2) by simp
    have shifted: "earliestMarker (u @ s) markers = map_option (\<lambda>(i, m). (length (concat ss) + i, m)) (earliestMarker ?b markers)"
      using earliest_released [OF st(3), of s] st(2) by (metis append_eq_conv_conj)
    show ?thesis
    proof (cases "earliestMarker ?b markers")
      case (Some im)
      then obtain i token where im: "earliestMarker ?b markers = Some (i, start_marker token)" "token \<in> set DSML_TOKENS"
        by (cases im) (auto simp: earliest_Some elim: token_cases)
      let ?m = "start_marker token"
      define r where "r = drop (i + length ?m) ?b"
      have b: "drop i ?b = ?m @ r"
        using im(1) append_take_drop_id [of "length ?m" "drop i ?b"]
        by (simp add: earliest_Some text_starts_def r_def add.commute del: drop_append)
      obtain st2 es2 where c: "consumeBlockText uuid plan (drop i ?b)
          (?st\<lparr>ds_pendingText := [], ds_activeStartMarker := Some ?m\<rparr>) = (st2, es2)" by fastforce
      have r: "st' = st2" "es' = text_events index kind (if take i ?b = [] then [] else [take i ?b]) @ es2"
        using same c im st(5,6) by (auto simp: consume_same_text_def Let_def text_events_def pendingTextEvent_def)
      have "block_seen uuid plan token r st2 es2 \<and> \<not> ds_sawNativeTool st2
          \<and> ds_delayedMessageComplete st2 = [] \<and> ds_pendingText st2 = []"
        by (rule consumed_block [OF _ im(2) _ _ _ _ _ _ _ _ c]) (use b st flags in simp_all)
      moreover have "r = drop (length (concat ss) + i + length ?m) (u @ s)"
        unfolding us r_def by simp
      ultimately show ?thesis
        using shifted im r st(1) us unfolding stream_after_def
        by (auto intro!: exI [of _ "ss @ (if take i ?b = [] then [] else [take i ?b])"] exI [of _ es2])
    next
      case none: None
      define b where "b = ?b"
      define k where "k = length b - longestPossibleMarkerPrefix b"
      have out': "st' = ?st\<lparr>ds_pendingText := drop k b\<rparr>"
        "es' = text_events index kind (if take k b = [] then [] else [take k b])"
        using same none st(5,6)
        by (auto simp: consume_same_text_def Let_def text_events_def pendingTextEvent_def b_def [symmetric]
            k_def [symmetric] split: if_splits) (simp add: k_def)
      have "released k (drop (length (concat ss)) (u @ s))"
        using released_safe [OF none] unfolding us by (simp add: k_def b_def)
      then have "released (length (concat ss) + k) (u @ s)"
        by (rule released_shift [OF released_append [OF st(3)]])
      moreover have "length (take k b) = k" by (simp add: k_def)
      ultimately show ?thesis
        using shifted none st flags us out' unfolding stream_after_def b_def [symmetric]
        by (auto intro!: exI [of _ "ss @ (if take k b = [] then [] else [take k b])"])
    qed
  qed
qed

lemma transform_append:
  "transform uuid plan st (evs @ evs') =
    (case transform uuid plan st evs of (st', es) \<Rightarrow>
      (case transform uuid plan st' evs' of (st'', es') \<Rightarrow> (st'', es @ es')))"
  by (induction evs arbitrary: st) (simp_all split: prod.split)

lemma transform_texts:
  assumes "stream_after uuid plan index kind u st out" "kind \<noteq> Some Refusal_Content"
    "transform uuid plan st (text_events index kind ts) = (st', es)"
  shows "stream_after uuid plan index kind (u @ concat ts) st' (out @ es)"
  using assms
proof (induction ts arbitrary: u st out es)
  case (Cons s ts)
  obtain st1 es1 where 1: "(if ds_failed st then (st, after_failure (Text_Delta s index kind))
      else dsml_event uuid plan st (Text_Delta s index kind)) = (st1, es1)" by fastforce
  obtain es2 where 2: "transform uuid plan st1 (text_events index kind ts) = (st', es2)" "es = es1 @ es2"
    using Cons.prems(3) 1 by (auto simp: text_events_def split: prod.splits)
  from Cons.IH [OF stream_after_text [OF Cons.prems(1,2) 1] Cons.prems(2) 2(1)] 2(2) show ?case by simp
qed simp

lemma stream_after_new: "stream_after uuid plan index kind [] new_dsml_stream []"
proof -
  have "earliestMarker [] markers = None"
    unfolding earliest_None using start_sharp by (auto simp: sharp_def text_starts_def)
  then show ?thesis
    by (auto simp: stream_after_def new_dsml_stream_def released_def intro!: exI [of _ "[]"])
qed

text \<open>The end of the response.\<close>

definition dsml_stopped :: canonical_event where
  "dsml_stopped = Stop Stop_Tool_Calls (Some (utf16 ''dsml_tool_calls''))"

lemma stop_without_block:
  assumes "stream_after uuid plan index kind u st out" "earliestMarker u markers = None"
  shows "\<exists>ss st' es. transform uuid plan st [Stop r raw] = (st', es)
    \<and> out @ es = text_events index kind ss @ [Stop r raw] \<and> concat ss = u"
proof -
  obtain ss where st: "out = text_events index kind ss" "concat ss @ ds_pendingText st = u" "\<not> ds_failed st"
    "ds_activeStartMarker st = None" "\<not> ds_sawDsml st" "ds_delayedMessageComplete st = []"
    "ds_pendingText st \<noteq> [] \<longrightarrow> ds_pendingTextIndex st = index \<and> ds_pendingContentType st = kind"
    using assms by (auto simp: stream_after_def)
  let ?ss = "ss @ (if ds_pendingText st = [] then [] else [ds_pendingText st])"
  have "\<exists>st' es. transform uuid plan st [Stop r raw] = (st', es) \<and> out @ es = text_events index kind ?ss @ [Stop r raw]"
    using st by (auto simp: dsml_stop_def finishTextAtStop_def Let_def text_events_def pendingTextEvent_def)
  moreover have "concat ?ss = u" using st(2) by auto
  ultimately show ?thesis by blast
qed

lemma stop_with_block:
  assumes "stream_after uuid plan index kind u st out" "earliestMarker u markers = Some (i, start_marker token)"
    "token \<in> set DSML_TOKENS"
  shows "\<exists>ss st' es. transform uuid plan st [Stop r raw] = (st', es) \<and> concat ss = take i u
    \<and> out @ es = text_events index kind ss @
      (case split_at (end_marker token) (drop (i + length (start_marker token)) u) of
         None \<Rightarrow> [dsml_error_event unfinished_block, invalid_stop]
       | Some (body, suffix) \<Rightarrow>
           (case body_calls uuid plan token body of
              Inl e \<Rightarrow> [dsml_error_event e, invalid_stop]
            | Inr calls \<Rightarrow> dsml_call_events 0 calls @
                (if text_trim suffix = [] then [dsml_stopped]
                 else [dsml_error_event content_after_calls, invalid_stop])))"
proof -
  have inj: "start_marker a = start_marker b \<Longrightarrow> a = b" for a b by (simp add: start_marker_def utf16_def)
  obtain ss es where st: "out = text_events index kind ss @ es" "concat ss = take i u" "ds_pendingText st = []"
    "block_seen uuid plan token (drop (i + length (start_marker token)) u) st es" "ds_delayedMessageComplete st = []"
    using assms inj by (fastforce simp: stream_after_def)
  show ?thesis
    using st unfolding block_seen_def
    by (intro exI [of _ ss])
      (auto simp: dsml_stop_def finishTextAtStop_def fail_eq dsml_stopped_def
        split: option.splits prod.splits sum.splits if_splits)
qed

text \<open>The stream against the parser of buffered text.\<close>

definition streamed_as_buffered ::
  "nat option \<Rightarrow> content_type option \<Rightarrow> canonical_event \<Rightarrow> js_text \<Rightarrow> dsml_block option dsml_result \<Rightarrow> canonical_event list \<Rightarrow> bool"
  where
  "streamed_as_buffered index kind stop whole buffered out \<longleftrightarrow>
     (case buffered of
        Inr None \<Rightarrow> (\<exists>ss. out = text_events index kind ss @ [stop] \<and> concat ss = whole)
      | Inr (Some b) \<Rightarrow> (\<exists>ss. out = text_events index kind ss @ dsml_call_events 0 (db_calls b) @ [dsml_stopped]
          \<and> concat ss = db_prefix b)
      | Inl e \<Rightarrow> (\<exists>ss cs e' rest. out = text_events index kind ss @ dsml_call_events 0 cs @ [dsml_error_event e', invalid_stop]
          \<and> whole = concat ss @ rest
          \<and> (dsml_code e' = dsml_code e \<or> dsml_code e \<in> {''multiple_dsml_blocks'', ''content_after_dsml''})))"

lemma streamed_failure:
  assumes "out = text_events index kind ss @ dsml_call_events 0 cs @ [dsml_error_event e', invalid_stop]"
    "whole = concat ss @ rest"
    "dsml_code e' = dsml_code e \<or> dsml_code e \<in> {''multiple_dsml_blocks'', ''content_after_dsml''}"
  shows "streamed_as_buffered index kind stop whole (Inl e) out"
  unfolding streamed_as_buffered_def using assms by auto

lemma streamed:
  assumes "kind \<noteq> Some Refusal_Content"
  shows "streamed_as_buffered index kind (Stop r raw) (concat ts) (parseDeepSeekDsmlBlock uuid 0 plan (concat ts))
    (snd (transform uuid plan new_dsml_stream (text_events index kind ts @ [Stop r raw])))"
proof -
  let ?u = "concat ts"
  obtain st out where t: "transform uuid plan new_dsml_stream (text_events index kind ts) = (st, out)" by fastforce
  have after: "stream_after uuid plan index kind ?u st out"
    using transform_texts [OF stream_after_new assms t] by simp
  show ?thesis
  proof (cases "earliestMarker ?u markers")
    case None
    from stop_without_block [OF after None, of r raw] obtain ss st' es where
      "transform uuid plan st [Stop r raw] = (st', es)" "out @ es = text_events index kind ss @ [Stop r raw]" "concat ss = ?u"
      by blast
    then show ?thesis
      using t parse_no_marker [OF None, of uuid 0 plan] by (auto simp: streamed_as_buffered_def transform_append)
  next
    case (Some im)
    then obtain i token where im: "earliestMarker ?u markers = Some (i, start_marker token)" "token \<in> set DSML_TOKENS"
      by (cases im) (auto simp: earliest_Some elim: token_cases)
    from stop_with_block [OF after im, of r raw] obtain ss st' es where
      s: "transform uuid plan st [Stop r raw] = (st', es)" "concat ss = take i ?u"
      "out @ es = text_events index kind ss @
        (case split_at (end_marker token) (drop (i + length (start_marker token)) ?u) of
           None \<Rightarrow> [dsml_error_event unfinished_block, invalid_stop]
         | Some (body, suffix) \<Rightarrow>
             (case body_calls uuid plan token body of
                Inl e \<Rightarrow> [dsml_error_event e, invalid_stop]
              | Inr calls \<Rightarrow> dsml_call_events 0 calls @
                  (if text_trim suffix = [] then [dsml_stopped]
                   else [dsml_error_event content_after_calls, invalid_stop])))" by blast
    have whole: "?u = concat ss @ drop i ?u" using s(2) by simp
    have out: "snd (transform uuid plan new_dsml_stream (text_events index kind ts @ [Stop r raw])) = out @ es"
      using t s(1) by (simp add: transform_append)
    define p where "p = split_at (end_marker token) (drop (i + length (start_marker token)) ?u)"
    have blank: "text_trim suffix \<noteq> []" if marked: "containsDsmlStart suffix" for suffix
    proof -
      obtain m j where "m \<in> set markers" "text_index m suffix = Some j"
        using marked unfolding containsDsmlStart_def list_ex_iff by blast
      then have "suffix ! j = 60" "j < length suffix"
        using text_index_Some [of m suffix j] start_sharp [of m] occurs_nth [where m = m and s = suffix and j = j and i = 0]
          occurs_length [where m = m and s = suffix and j = j] by (auto simp: sharp_def)
      then have "60 \<in> set suffix" using nth_mem by metis
      moreover have "\<not> text_space 60" by (simp add: text_space_def)
      ultimately show ?thesis by (auto simp only: trim_empty list_all_iff)
    qed
    note known = parse_marker [OF im] out s(3) p_def [symmetric]
    show ?thesis
    proof (cases p)
      case None
      show ?thesis
        unfolding known None option.case
        by (rule streamed_failure [OF _ whole, where cs = "[]" and e' = unfinished_block])
          (simp_all add: unfinished_block_def dsml_fail_def)
    next
      case (Some bs)
      then obtain body suffix where p: "p = Some (body, suffix)" by (cases bs) simp
      show ?thesis
      proof (cases "body_calls uuid plan token body")
        case (Inl e)
        have "streamed_as_buffered index kind (Stop r raw) ?u (Inl e0)
            (text_events index kind ss @ dsml_call_events 0 [] @ [dsml_error_event e, invalid_stop])"
          if "e0 = e \<or> dsml_code e0 \<in> {''multiple_dsml_blocks'', ''content_after_dsml''}" for e0
          by (rule streamed_failure [OF refl whole]) (use that in auto)
        then show ?thesis
          unfolding known p by (simp add: Inl dsml_fail_def)
      next
        case (Inr calls)
        show ?thesis
        proof (cases "text_trim suffix = []")
          case True
          then show ?thesis
            unfolding known p using blank [of suffix] s(2)
            by (auto simp: Inr streamed_as_buffered_def)
        next
          case False
          have "streamed_as_buffered index kind (Stop r raw) ?u (Inl e0)
              (text_events index kind ss @ dsml_call_events 0 calls @ [dsml_error_event content_after_calls, invalid_stop])"
            if "dsml_code e0 \<in> {''multiple_dsml_blocks'', ''content_after_dsml''}" for e0
            by (rule streamed_failure [OF refl whole]) (use that in auto)
          then show ?thesis
            unfolding known p by (simp add: Inr False dsml_fail_def)
        qed
      qed
    qed
  qed
qed

end
