(* ===== verification/Dsml_Properties.thy ===== *)
theory Dsml_Properties
  imports Dsml_Proofs Harness_Tools
begin

text \<open>
  What the properties of the DSML bridge rest on: the calls of a block and of a stream name tools the
  request declared. The properties of both stand at the end.
\<close>

section \<open>Calls\<close>

text \<open>
  What a plan lets the model call: a declared tool by its name; or, if the plan has an executor for
  deferred tools, a name that is no declared tool's, as a custom tool that stands for the executor.
\<close>

definition deferred_binding :: "tool_bridge_plan \<Rightarrow> tool_binding \<Rightarrow> bool" where
  "deferred_binding plan b \<longleftrightarrow>
     deepseek_dialect plan \<and> plan_deferredExecSourceName plan = Some (tb_sourceName b) \<and> tb_sourceName b \<noteq> []
     \<and> tb_sourceType b = Custom_Tool \<and> tb_deferredToolName b = Some (tb_wireName b)
     \<and> 1 \<le> length (tb_wireName b) \<and> length (tb_wireName b) \<le> 256
     \<and> (\<forall>u \<in> set (tb_wireName b). 32 \<le> u \<and> u \<noteq> 127)
     \<and> (\<forall>d \<in> set (plan_tools plan). binding_declared d \<longrightarrow> tb_wireName d \<noteq> tb_wireName b)"

definition authorised :: "tool_bridge_plan \<Rightarrow> tool_binding \<Rightarrow> bool" where
  "authorised plan b \<longleftrightarrow> b \<in> set (plan_tools plan) \<and> binding_declared b \<or> deferred_binding plan b"

text \<open>
  A call with the arguments its tool takes: a custom tool takes one text, which for a deferred tool is
  the script that makes the executor look the name up and call it.
\<close>

definition proper_call :: "tool_bridge_plan \<Rightarrow> parsed_call \<Rightarrow> bool" where
  "proper_call plan c \<longleftrightarrow> authorised plan (pc_binding c) \<and>
     (\<exists>args. pc_arguments c = json_stringify (JObj args) \<and> distinct (map fst args) \<and>
       (tb_sourceType (pc_binding c) = Custom_Tool \<longrightarrow> (\<exists>s. args = [(utf16 ''input'', JStr s)]
          \<and> (\<forall>name. tb_deferredToolName (pc_binding c) = Some name \<longrightarrow> name \<noteq> [] \<longrightarrow>
               (\<exists>ps. s = newline_join (deferred_exec_lines (json_quote name) (json_stringify (JObj ps))))))))"

lemma resolved_authorised:
  assumes "resolveDeepSeekToolBinding plan name = Inr (Some b)"
  shows "authorised plan b \<and> tb_wireName b = name"
proof (cases "find (\<lambda>b. binding_declared b \<and> tb_wireName b = name) (plan_tools plan)")
  case (Some b')
  then have "b' \<in> set (plan_tools plan) \<and> binding_declared b' \<and> tb_wireName b' = name"
    by (auto simp: find_Some_iff)
  with Some assms show ?thesis by (simp add: resolveDeepSeekToolBinding_def authorised_def)
next
  case None
  then have "\<forall>d \<in> set (plan_tools plan). binding_declared d \<longrightarrow> tb_wireName d \<noteq> name" by (auto simp: find_None_iff)
  moreover have "1 \<le> length name \<and> length name \<le> 256 \<and> (\<forall>u \<in> set name. 32 \<le> u \<and> u \<noteq> 127)"
    if "validateDeferredToolName name = Inr ()"
    using that by (auto simp: validateDeferredToolName_def list_ex_iff control_unit_def not_less Suc_le_eq split: if_splits)
  ultimately show ?thesis using None assms
    by (auto simp: resolveDeepSeekToolBinding_def authorised_def deferred_binding_def nonempty_text_def and_then_Inr
        split: option.splits if_splits)
qed

lemma assigned_distinct: "distinct (map fst args) \<Longrightarrow> distinct (map fst (assign_property args k v))"
  by (simp add: assign_property_def obj_set_distinct)

lemma parameters_distinct:
  "parse_parameters token name args body = Inr (args', r) \<Longrightarrow> distinct (map fst args) \<Longrightarrow> distinct (map fst args')"
proof (induction token name args body rule: parse_parameters.induct)
  case (1 token name args body)
  let ?s = "dropWhile text_space body" and ?po = "open_tag token ''parameter''"
  show ?case
  proof (cases "text_starts ?s (close_tag token ''invoke'') \<or> \<not> text_starts ?s ?po")
    case True
    then show ?thesis using "1.prems" by (auto simp: parse_parameters.simps [of token name args body] Let_def split: if_splits)
  next
    case False
    then obtain attributes s1 parameterName is_string rawValue s2 v where *:
      "split_at (utf16 ''>'') (drop (length ?po) ?s) = Some (attributes, s1)"
      "parameter_header attributes = Some (parameterName, is_string)" "parameterName \<notin> set (map fst args)"
      "split_at (close_tag token ''parameter'') s1 = Some (rawValue, s2)"
      "(if is_string then Inr (JStr rawValue) else parseJsonParameter rawValue name parameterName) = Inr v"
      "parse_parameters token name (assign_property args parameterName v) s2 = Inr (args', r)"
      using "1.prems"(1) unfolding parse_parameters.simps [of token name args body] Let_def
      by (force split: option.splits prod.splits if_splits sum.splits)
    show ?thesis
      by (rule "1.IH" [OF refl refl _ _ *(1) refl *(2) refl *(3,4) refl *(5,6)])
        (use False assigned_distinct [OF "1.prems"(2)] in simp_all)
  qed
qed

lemma one_key:
  assumes "distinct (map fst args)" "set (map fst args) \<subseteq> {k}" "map_of args k = Some v"
  shows "args = [(k, v)]"
proof (cases args)
  case (Cons p ps)
  then have "ps = []" using assms(1,2) by (cases ps) auto
  with Cons assms(2,3) show ?thesis by (cases p) auto
qed (use assms(3) in simp)

lemma custom_arguments:
  assumes "normalizeCustomArguments args name b = Inr args'" "distinct (map fst args)"
  shows "\<exists>s. args' = [(utf16 ''input'', JStr s)] \<and> (\<forall>d. tb_deferredToolName b = Some d \<longrightarrow> d \<noteq> [] \<longrightarrow>
      (\<exists>ps. s = newline_join (deferred_exec_lines (json_quote d) (json_stringify (JObj ps)))))"
proof (cases "nonempty_text (tb_deferredToolName b)")
  case None
  then have "tb_deferredToolName b = None \<or> tb_deferredToolName b = Some []" by (simp add: nonempty_text_def split: if_splits)
  moreover have "\<exists>s. args' = [(utf16 ''input'', JStr s)]"
    using assms None one_key [of args "utf16 ''input''"]
    by (fastforce simp: normalizeCustomArguments_def split: option.splits json.splits if_splits)
  ultimately show ?thesis by auto
next
  case (Some d)
  then have "tb_deferredToolName b = Some d" by (simp add: nonempty_text_def split: if_splits)
  with Some show ?thesis
    using assms(1) by (auto simp: normalizeCustomArguments_def and_then_Inr deepSeekDeferredToolExecInput_def)
qed

lemma invocation_proper:
  assumes "parse_invocation plan token s = Inr (b, args, r)"
  shows "proper_call plan \<lparr>pc_binding = b, pc_callId = ident, pc_arguments = json_stringify (JObj args)\<rparr>"
proof -
  obtain name args0 s' where *: "resolveDeepSeekToolBinding plan name = Inr (Some b)"
    "parse_parameters token name [] s' = Inr (args0, r)"
    "(if tb_sourceType b = Custom_Tool then normalizeCustomArguments args0 name b else Inr args0) = Inr args"
    using assms by (auto simp: parse_invocation_def and_then_Inr split: option.splits prod.splits sum.splits)
  have d: "distinct (map fst args0)" using parameters_distinct [OF *(2)] by simp
  show ?thesis
  proof (cases "tb_sourceType b = Custom_Tool")
    case True
    then have "normalizeCustomArguments args0 name b = Inr args" using *(3) by simp
    note script = custom_arguments [OF this d]
    then have "distinct (map fst args)" by auto
    then show ?thesis
      using script resolved_authorised [OF *(1)] unfolding proper_call_def parsed_call.simps by (intro conjI exI [of _ args]) auto
  next
    case False
    then show ?thesis using *(3) d resolved_authorised [OF *(1)] by (auto simp: proper_call_def)
  qed
qed

lemma invocations_proper:
  "parseInvocations uuid n plan token body = Inr calls \<Longrightarrow>
    list_all (proper_call plan) calls \<and> map pc_callId calls = map (\<lambda>i. dsml_callId (uuid i)) [n..<n + length calls]"
proof (induction uuid n plan token body arbitrary: calls rule: parseInvocations.induct)
  case (1 uuid n plan token body)
  let ?s = "dropWhile text_space body"
  show ?case
  proof (cases "?s = [] \<or> \<not> text_starts ?s (open_tag token ''invoke'')")
    case True
    then show ?thesis
      using "1.prems" by (auto simp: parseInvocations.simps [of uuid n plan token body] Let_def split: if_splits)
  next
    case False
    then obtain b args r calls' where *: "parse_invocation plan token ?s = Inr (b, args, r)"
      "parseInvocations uuid (Suc n) plan token r = Inr calls'"
      "calls = \<lparr>pc_binding = b, pc_callId = dsml_callId (uuid n), pc_arguments = json_stringify (JObj args)\<rparr> # calls'"
      using "1.prems" unfolding parseInvocations.simps [of uuid n plan token body] Let_def
      by (auto simp: and_then_Inr split: sum.splits prod.splits if_splits)
    have "list_all (proper_call plan) calls' \<and> map pc_callId calls' = map (\<lambda>i. dsml_callId (uuid i)) [Suc n..<Suc n + length calls']"
      by (rule "1.IH" [OF refl _ _ *(1) refl refl *(2)]) (use False in simp_all)
    moreover have "[n..<n + length calls] = n # [Suc n..<Suc n + length calls']"
      unfolding *(3) by (subst upt_conv_Cons) (simp_all del: upt_Suc)
    ultimately show ?thesis
      using invocation_proper [OF *(1)] *(3) by (simp del: upt_Suc)
  qed
qed

lemma block_proper:
  assumes "parseDeepSeekDsmlBlock uuid n plan s = Inr (Some b)"
  shows "list_all (proper_call plan) (db_calls b) \<and> db_calls b \<noteq> []
    \<and> map pc_callId (db_calls b) = map (\<lambda>i. dsml_callId (uuid i)) [n..<n + length (db_calls b)]"
  using assms invocations_proper
  by (fastforce simp: parseDeepSeekDsmlBlock_def and_then_Inr split: option.splits prod.splits if_splits)

section \<open>Streams\<close>

text \<open>An event of the output that no tool the model is not allowed to call can cause.\<close>

definition call_event :: "(nat \<Rightarrow> js_text) \<Rightarrow> tool_bridge_plan \<Rightarrow> canonical_event \<Rightarrow> bool" where
  "call_event uuid plan ev \<longleftrightarrow>
     (case ev of
        Tool_Call_Delta i ident name arguments kind out \<Rightarrow>
          kind = None \<and> out = None \<and>
          (\<exists>c n. proper_call plan c \<and> pc_callId c = dsml_callId (uuid n) \<and> ident = Some (pc_callId c)
            \<and> name = Some (tb_wireName (pc_binding c)) \<and> arguments = Some (pc_arguments c))
      | _ \<Rightarrow> False)"

fun tool_delta :: "canonical_event \<Rightarrow> bool" where
  "tool_delta (Tool_Call_Delta i ident name arguments kind out) = True"
| "tool_delta ev = False"

definition lawful :: "(nat \<Rightarrow> js_text) \<Rightarrow> tool_bridge_plan \<Rightarrow> canonical_event list \<Rightarrow> canonical_event list \<Rightarrow> bool" where
  "lawful uuid plan evs out \<longleftrightarrow> (\<forall>ev \<in> set out. tool_delta ev \<longrightarrow> ev \<in> set evs \<or> call_event uuid plan ev)"

lemma lawful_simps [simp]: "lawful uuid plan evs []"
  "lawful uuid plan evs (out @ out') \<longleftrightarrow> lawful uuid plan evs out \<and> lawful uuid plan evs out'"
  "lawful uuid plan evs (ev # out) \<longleftrightarrow> (tool_delta ev \<longrightarrow> ev \<in> set evs \<or> call_event uuid plan ev) \<and> lawful uuid plan evs out"
  by (auto simp: lawful_def)

lemma lawful_mono: "lawful uuid plan evs out \<Longrightarrow> set evs \<subseteq> set evs' \<Longrightarrow> lawful uuid plan evs' out"
  by (auto simp: lawful_def)

lemma call_events_lawful:
  "list_all (proper_call plan) calls \<Longrightarrow> \<forall>c \<in> set calls. \<exists>n. pc_callId c = dsml_callId (uuid n) \<Longrightarrow>
    lawful uuid plan evs (dsml_call_events k calls)"
  by (induction calls arbitrary: k) (auto simp: call_event_def)

definition plain_delayed :: "dsml_stream \<Rightarrow> bool" where
  "plain_delayed st \<longleftrightarrow> \<not> list_ex tool_delta (ds_delayedMessageComplete st)"

lemma plain_delayed_simps [simp]:
  "plain_delayed (st\<lparr>ds_delayedMessageComplete := []\<rparr>)"
  "plain_delayed (st\<lparr>ds_delayedMessageComplete := ds_delayedMessageComplete st @ [Message_Complete i]\<rparr>) = plain_delayed st"
  "plain_delayed (st\<lparr>ds_pendingText := s\<rparr>) = plain_delayed st"
  "plain_delayed (st\<lparr>ds_block := s\<rparr>) = plain_delayed st"
  "plain_delayed (st\<lparr>ds_activeStartMarker := m\<rparr>) = plain_delayed st"
  "plain_delayed (st\<lparr>ds_sawDsml := f\<rparr>) = plain_delayed st"
  "plain_delayed (st\<lparr>ds_sawNativeTool := f\<rparr>) = plain_delayed st"
  "plain_delayed (st\<lparr>ds_failed := f\<rparr>) = plain_delayed st"
  "plain_delayed (st\<lparr>ds_nextToolIndex := n\<rparr>) = plain_delayed st"
  "plain_delayed (st\<lparr>ds_draws := n\<rparr>) = plain_delayed st"
  "plain_delayed (st\<lparr>ds_pendingTextIndex := j\<rparr>) = plain_delayed st"
  "plain_delayed (st\<lparr>ds_pendingContentType := k\<rparr>) = plain_delayed st"
  by (auto simp: plain_delayed_def)

lemma fail_lawful [simp]:
  "plain_delayed (fst (dsml_stream_fail e st))" "lawful uuid plan evs (snd (dsml_stream_fail e st))"
  by (simp_all add: dsml_stream_fail_def plain_delayed_def)

lemma pending_plain [simp]: "\<not> tool_delta (pendingTextEvent st s)"
  by (simp add: pendingTextEvent_def)

lemma restore_lawful:
  "plain_delayed st \<Longrightarrow> plain_delayed (fst (restore_block uuid plan s trailing st))"
  "lawful uuid plan evs (snd (restore_block uuid plan s trailing st))"
proof -
  have drawn: "list_all (proper_call plan) (db_calls b) \<and> (\<forall>c \<in> set (db_calls b). \<exists>n. pc_callId c = dsml_callId (uuid n))"
    if parsed: "parseDeepSeekDsmlBlock uuid m plan s = Inr (Some b)" for m b
  proof -
    note p = block_proper [OF parsed]
    have "pc_callId c \<in> (\<lambda>n. dsml_callId (uuid n)) ` {m..<m + length (db_calls b)}" if "c \<in> set (db_calls b)" for c
    proof -
      have "pc_callId c \<in> set (map pc_callId (db_calls b))" using that by simp
      then show ?thesis using p by simp
    qed
    with p show ?thesis by blast
  qed
  show "plain_delayed st \<Longrightarrow> plain_delayed (fst (restore_block uuid plan s trailing st))"
    by (auto simp: restore_block_def Let_def fail_eq plain_delayed_def split: sum.split option.split)
  show "lawful uuid plan evs (snd (restore_block uuid plan s trailing st))"
    using drawn call_events_lawful [of plan _ uuid evs]
    by (auto simp: restore_block_def Let_def fail_eq dsml_error_event_def split: sum.split option.split)
qed

lemma block_lawful:
  "plain_delayed st \<Longrightarrow> plain_delayed (fst (consumeBlockText uuid plan s st))"
  "lawful uuid plan evs (snd (consumeBlockText uuid plan s st))"
  by (simp_all add: consumeBlockText_def Let_def restore_lawful split: option.split)

lemma same_text_lawful:
  "plain_delayed st \<Longrightarrow> plain_delayed (fst (consume_same_text uuid plan s index kind st))"
  "lawful uuid plan evs (snd (consume_same_text uuid plan s index kind st))"
  by (auto simp: consume_same_text_def Let_def case_prod_beta block_lawful split: option.split)

lemma text_lawful:
  "plain_delayed st \<Longrightarrow> plain_delayed (fst (consumeText uuid plan s index kind st))"
  "lawful uuid plan evs (snd (consumeText uuid plan s index kind st))"
  by (simp_all add: consumeText_def Let_def case_prod_beta same_text_lawful)

lemma event_lawful:
  assumes "plain_delayed st"
  shows "plain_delayed (fst (dsml_event uuid plan st ev)) \<and> lawful uuid plan [ev] (snd (dsml_event uuid plan st ev))"
proof (cases "\<exists>s index kind. ev = Text_Delta s index kind")
  case True
  then show ?thesis using text_lawful assms by auto
next
  case False
  with assms show ?thesis
    by (cases ev)
      (auto simp: dsml_stop_def finishTextAtStop_def Let_def fail_eq invalid_stop_def dsml_error_event_def
        plain_delayed_def list_ex_iff lawful_def pendingTextEvent_def)
qed

lemma after_failure_lawful: "lawful uuid plan [ev] (after_failure ev)"
  by (cases ev) (simp_all add: invalid_stop_def)

lemma transform_lawful:
  "plain_delayed st \<Longrightarrow> lawful uuid plan evs (snd (transform uuid plan st evs))"
proof (induction evs arbitrary: st)
  case (Cons ev evs)
  define step where "step = (if ds_failed st then (st, after_failure ev) else dsml_event uuid plan st ev)"
  have "plain_delayed (fst step) \<and> lawful uuid plan [ev] (snd step)"
    using event_lawful [OF Cons.prems] after_failure_lawful Cons.prems by (simp add: step_def)
  with Cons.IH [of "fst step"] show ?case
    by (auto simp: step_def [symmetric] case_prod_beta intro: lawful_mono)
qed simp

section \<open>Properties\<close>

text \<open>
  C12. Streaming is buffering: when an answer text arrives in any deltas, what the stream parser emits for them
  and the end of the response is what the parser of buffered text makes of the whole text. Without a block the
  deltas carry the whole text; with one, they carry the text before it, followed by its tool calls and a stop
  for tool calls; and a text the buffered parser refuses ends in one error event and an error stop, with the
  same error unless something followed the block.
\<close>

theorem dsml_streaming_is_buffering:
  assumes "kind \<noteq> Some Refusal_Content"
  shows "streamed_as_buffered index kind (Stop r raw) (concat ts) (parseDeepSeekDsmlBlock uuid 0 plan (concat ts))
    (snd (transform uuid plan new_dsml_stream (text_events index kind ts @ [Stop r raw])))"
  using assms by (rule streamed)

text \<open>The deltas \<^verbatim>\<open>a<\<close> and \<^verbatim>\<open>b\<close>: the second shows that the first did not begin a marker.\<close>

lemma dsml_streaming_is_buffering_witness:
  "streamed_as_buffered (Some 0) None (Stop Stop_Normal None) (utf16 ''a<b'')
    (parseDeepSeekDsmlBlock (\<lambda>_. []) 0 \<lparr>plan_dialect = Deepseek_Chat, plan_tools = [], plan_calls = [],
      plan_deferredExecSourceName = None, plan_requiresResponseBridge = None, plan_parallelToolCalls = None\<rparr> (utf16 ''a<b''))
    (snd (transform (\<lambda>_. []) \<lparr>plan_dialect = Deepseek_Chat, plan_tools = [], plan_calls = [],
      plan_deferredExecSourceName = None, plan_requiresResponseBridge = None, plan_parallelToolCalls = None\<rparr>
      new_dsml_stream (text_events (Some 0) None [utf16 ''a<'', utf16 ''b''] @ [Stop Stop_Normal None])))"
  using dsml_streaming_is_buffering [of None "Some 0" Stop_Normal None "[utf16 ''a<'', utf16 ''b'']"]
  by (simp add: utf16_def)

text \<open>
  C13. The model calls only what the plan of its request allows: whatever events an upstream sends, a tool
  call in the output of the stream parser either was a native tool call of the upstream or comes from a block
  of markup, with an identifier of its own drawing and arguments with distinct names. Then it names a declared
  tool of the plan, a custom tool getting exactly one text; or the plan has an executor for deferred tools, the
  name is not a declared tool's, at most 256 units long and free of control characters, and the call's one
  text is the executor's script for that name. A plan without such an executor allows declared tools only.
\<close>

theorem dsml_calls_authorised:
  "lawful uuid plan evs (snd (transform uuid plan new_dsml_stream evs))"
  by (rule transform_lawful) (simp add: new_dsml_stream_def plain_delayed_def)

end
