(* ===== verification/Parser_State.thy ===== *)
theory Parser_State
  imports Dsml
begin

text \<open>
  What the payload handlers of \<open>ProtocolParser\<close> (\<^verbatim>\<open>src/main/gateway/streaming.ts\<close>) keep, and what the four
  protocols share; the fields of the class that only turn bytes into payloads are those of \<open>stream_parser\<close>
  in \<open>Protocol_Parser\<close>. Reading properties of a payload, and emitting starts, token counts, stops, errors and the end. An index of an
  event is a natural number: an upstream index that is none has no event here, and \<open>pp_unnumbered\<close> notes
  that one was left out. Signatures and keys the code builds as texts to compare them are the tuples of
  what goes into them; \<^verbatim>\<open>String\<close> tells the numbers in them apart.
\<close>

type_synonym js_record = "(js_text \<times> json) list"

section \<open>Reading payloads\<close>

definition stream_optionalString :: "json option \<Rightarrow> js_text option" where
  "stream_optionalString v = (case v of Some (JStr s) \<Rightarrow> nonempty_text (Some s) | _ \<Rightarrow> None)"

definition stringValue :: "json option \<Rightarrow> js_text \<Rightarrow> js_text" where
  "stringValue v fallback = (case v of Some (JStr s) \<Rightarrow> s | _ \<Rightarrow> fallback)"

definition numberValue :: "json option \<Rightarrow> double option" where
  "numberValue v = (case v of Some (JNum (Num q)) \<Rightarrow> Some (Num q) | _ \<Rightarrow> None)"

definition nonNegativeSafeInteger :: "json option \<Rightarrow> nat option" where
  "nonNegativeSafeInteger v =
     (case v of Some (JNum (Num q)) \<Rightarrow> if isSafeInteger (Num q) \<and> 0 \<le> q then Some (nat \<lfloor>q\<rfloor>) else None | _ \<Rightarrow> None)"

definition nonNegativeFiniteNumber :: "json option \<Rightarrow> double option" where
  "nonNegativeFiniteNumber v =
     (case v of Some (JNum (Num q)) \<Rightarrow> if 0 \<le> q then Some (Num q) else None | _ \<Rightarrow> None)"

text \<open>\<^verbatim>\<open>a ?? b\<close>, \<^verbatim>\<open>Boolean(v)\<close>, and the properties of an object that may be absent.\<close>

definition nullish_or :: "json option \<Rightarrow> json option \<Rightarrow> json option" where
  "nullish_or a b = (if a = None \<or> a = Some JNull then b else a)"

definition json_truthy :: "json option \<Rightarrow> bool" where
  "json_truthy v =
     (case v of
        None \<Rightarrow> False | Some JNull \<Rightarrow> False | Some (JBool b) \<Rightarrow> b
      | Some (JNum x) \<Rightarrow> x \<noteq> Num 0 \<and> x \<noteq> NaN | Some (JStr s) \<Rightarrow> s \<noteq> [] | Some _ \<Rightarrow> True)"

definition opt_get :: "js_record option \<Rightarrow> string \<Rightarrow> json option" where
  "opt_get ps k = (case ps of None \<Rightarrow> None | Some ps \<Rightarrow> obj_get ps k)"

definition object_or_empty :: "json option \<Rightarrow> js_record" where
  "object_or_empty v = (case objectValue v of None \<Rightarrow> [] | Some ps \<Rightarrow> ps)"

text \<open>The natural number a double is.\<close>

definition natural_index :: "double \<Rightarrow> nat option" where
  "natural_index x = (case x of Num q \<Rightarrow> if 0 \<le> q \<and> of_int \<lfloor>q\<rfloor> = q then Some (nat \<lfloor>q\<rfloor>) else None | _ \<Rightarrow> None)"

definition text_among :: "js_text \<Rightarrow> string list \<Rightarrow> bool" where
  "text_among s names \<longleftrightarrow> list_ex (\<lambda>n. s = utf16 n) names"

section \<open>The parser\<close>

datatype responses_terminal = Responses_Completed | Responses_Incomplete | Responses_Failed

record protocol_parser =
  pp_protocol :: protocol
  suppressGeminiThoughtText :: bool
  emitReasoningProgress :: bool
  pp_events :: "canonical_event list"
  pp_started :: bool
  pp_stopped :: bool
  pp_done :: bool
  pp_errored :: bool
  pp_finishing :: bool
  sawToolCall :: bool
  sawRefusal :: bool
  nextToolIndex :: nat
  anthropicToolIndices :: "(double \<times> nat) list"
  responsesToolIndices :: "(int \<times> nat) list"
  responsesToolMetadataSeen :: "int list"
  responsesArguments :: "(int \<times> js_text) list"
  responsesToolCompleted :: "int list"
  responsesToolIdentityIndices :: "(js_text \<times> int) list"
  nextSyntheticResponsesOutputIndex :: int
  geminiToolIndices :: "(js_text \<times> nat) list"
  lastUsage :: "usage_counts option"
  pp_usage :: usage_counts
  responsesEventCount :: nat
  responsesProgressEventCount :: nat
  responsesTerminalEvent :: "responses_terminal option"
  responsesResponseId :: "js_text option"
  responsesLastEventType :: "js_text option"
  responsesLastSequenceNumber :: "nat option"
  responsesTerminalResponse :: "js_record option"
  responsesTextDeltaKeys :: "(content_type \<times> nat \<times> nat) list"
  responsesTextDoneKeys :: "(content_type \<times> nat \<times> nat) list"
  recognizedEventCount :: nat
  responsesLastProgressUsage :: "double option list"
  pp_unnumbered :: bool

record parsing_options =
  option_maxBufferedCharacters :: "double option"
  option_suppressGeminiThoughtText :: bool
  option_emitReasoningProgress :: bool

definition new_protocol_parser :: "protocol \<Rightarrow> parsing_options \<Rightarrow> protocol_parser" where
  "new_protocol_parser p opts =
     \<lparr>pp_protocol = p, suppressGeminiThoughtText = option_suppressGeminiThoughtText opts,
      emitReasoningProgress = option_emitReasoningProgress opts,
      pp_events = [],
      pp_started = False, pp_stopped = False, pp_done = False, pp_errored = False, pp_finishing = False,
      sawToolCall = False, sawRefusal = False, nextToolIndex = 0, anthropicToolIndices = [],
      responsesToolIndices = [], responsesToolMetadataSeen = [], responsesArguments = [],
      responsesToolCompleted = [], responsesToolIdentityIndices = [], nextSyntheticResponsesOutputIndex = -1,
      geminiToolIndices = [], lastUsage = None, pp_usage = no_usage, responsesEventCount = 0,
      responsesProgressEventCount = 0, responsesTerminalEvent = None, responsesResponseId = None,
      responsesLastEventType = None, responsesLastSequenceNumber = None, responsesTerminalResponse = None,
      responsesTextDeltaKeys = [], responsesTextDoneKeys = [], recognizedEventCount = 0,
      responsesLastProgressUsage = [], pp_unnumbered = False\<rparr>"

section \<open>Emitting\<close>

definition emit_event :: "canonical_event \<Rightarrow> protocol_parser \<Rightarrow> protocol_parser" where
  "emit_event ev p = p\<lparr>pp_events := pp_events p @ [ev]\<rparr>"

definition normalizeTimestamp :: "double \<Rightarrow> double" where
  "normalizeTimestamp x =
     (case x of Num q \<Rightarrow> if q < 10000000000 then to_double (q * 1000) else x | _ \<Rightarrow> x)"

definition emitStart :: "json option \<Rightarrow> json option \<Rightarrow> json option \<Rightarrow> protocol_parser \<Rightarrow> protocol_parser" where
  "emitStart idValue modelValue createdValue p =
     (let ident = stream_optionalString idValue; model = stream_optionalString modelValue; created = numberValue createdValue
      in if pp_started p \<or> ident = None \<and> model = None \<and> created = None then p
         else emit_event (Start ident model (map_option normalizeTimestamp created)) (p\<lparr>pp_started := True\<rparr>))"

definition emitStop :: "stop_reason \<Rightarrow> js_text option \<Rightarrow> protocol_parser \<Rightarrow> protocol_parser" where
  "emitStop reason raw p =
     (if pp_stopped p then p else emit_event (Stop reason raw) (p\<lparr>pp_stopped := True\<rparr>))"

definition emitDone :: "protocol_parser \<Rightarrow> protocol_parser" where
  "emitDone p = (if pp_done p then p else emit_event Done (p\<lparr>pp_done := True\<rparr>))"

definition emitError ::
  "js_text option \<Rightarrow> js_text option \<Rightarrow> js_text option \<Rightarrow> protocol_parser \<Rightarrow> protocol_parser" where
  "emitError message code kind p = emit_event (Error_Event message code kind) (p\<lparr>pp_errored := True\<rparr>)"

definition emitErrorObject :: "json option \<Rightarrow> protocol_parser \<Rightarrow> protocol_parser" where
  "emitErrorObject value =
     (let unknown = utf16 ''Unknown streaming error''
      in case objectValue value of
           None \<Rightarrow> emitError (Some (stringValue value unknown)) None None
         | Some err \<Rightarrow> emitError (Some (stringValue (obj_get err ''message'') unknown))
             (stream_optionalString (obj_get err ''code''))
             (or_count (stream_optionalString (obj_get err ''type'')) (stream_optionalString (obj_get err ''status''))))"

definition emitIncompleteStream :: "js_text option \<Rightarrow> protocol_parser \<Rightarrow> protocol_parser" where
  "emitIncompleteStream message p =
     emitStop Stop_Error (Some (utf16 ''incomplete_stream''))
       (emitError message None (Some (utf16 ''incomplete_stream'')) p)"

definition emitResponsesProtocolError :: "js_text \<Rightarrow> string \<Rightarrow> protocol_parser \<Rightarrow> protocol_parser" where
  "emitResponsesProtocolError message code p =
     emitDone (emitStop Stop_Error (Some (utf16 code))
       (emitError (Some message) (Some (utf16 code)) (Some (utf16 ''invalid_stream_event'')) p))"

definition frameTooLarge :: "js_text \<Rightarrow> protocol_parser \<Rightarrow> protocol_parser" where
  "frameTooLarge message p =
     (let code = Some (utf16 ''frame_too_large'')
      in emitDone (emitStop Stop_Error code (emitError (Some message) code code p)))"

section \<open>Token counts\<close>

definition merged_usage :: "js_record \<Rightarrow> string \<Rightarrow> string \<Rightarrow> string option \<Rightarrow> usage_counts \<Rightarrow> usage_counts option" where
  "merged_usage usage inputKey outputKey totalKey u =
     (let number = (\<lambda>k. numberValue (obj_get usage k));
          details = (\<lambda>k l. case objectValue (obj_get usage k) of
             None \<Rightarrow> objectValue (obj_get usage l) | Some ps \<Rightarrow> Some ps);
          inputDetails = details ''input_tokens_details'' ''prompt_tokens_details'';
          outputDetails = details ''output_tokens_details'' ''completion_tokens_details'';
          cacheCreation = objectValue (obj_get usage ''cache_creation'');
          parsed = \<lparr>inputTokens = number inputKey, outputTokens = number outputKey,
            totalTokens = (case totalKey of None \<Rightarrow> None | Some k \<Rightarrow> number k),
            cachedInputTokens = numberValue (opt_get inputDetails ''cached_tokens''),
            cacheCreationInputTokens = number ''cache_creation_input_tokens'',
            cacheCreation5mInputTokens = numberValue (opt_get cacheCreation ''ephemeral_5m_input_tokens''),
            cacheCreation1hInputTokens = numberValue (opt_get cacheCreation ''ephemeral_1h_input_tokens''),
            reasoningTokens = numberValue (opt_get outputDetails ''reasoning_tokens'')\<rparr>;
          merged = (\<lambda>f. or_count (f parsed) (f u))
      in if \<not> hasUsage parsed then None
         else Some \<lparr>inputTokens = merged inputTokens, outputTokens = merged outputTokens,
            totalTokens = or_count (or_count (totalTokens parsed)
              (stream_sumDefined (merged inputTokens) (merged outputTokens))) (totalTokens u),
            cachedInputTokens = merged cachedInputTokens,
            cacheCreationInputTokens = merged cacheCreationInputTokens,
            cacheCreation5mInputTokens = merged cacheCreation5mInputTokens,
            cacheCreation1hInputTokens = merged cacheCreation1hInputTokens,
            reasoningTokens = merged reasoningTokens\<rparr>)"

definition emitUsage ::
  "js_record option \<Rightarrow> string \<Rightarrow> string \<Rightarrow> string option \<Rightarrow> protocol_parser \<Rightarrow> protocol_parser" where
  "emitUsage usage inputKey outputKey totalKey p =
     (case usage of
        None \<Rightarrow> p
      | Some usage \<Rightarrow>
          (case merged_usage usage inputKey outputKey totalKey (pp_usage p) of
             None \<Rightarrow> p
           | Some u \<Rightarrow>
               if lastUsage p = Some u then p\<lparr>pp_usage := u\<rparr>
               else emit_event (Usage u) (p\<lparr>pp_usage := u, lastUsage := Some u\<rparr>)))"

definition emitAnthropicUsage :: "js_record option \<Rightarrow> protocol_parser \<Rightarrow> protocol_parser" where
  "emitAnthropicUsage usage p =
     (case usage of
        None \<Rightarrow> p
      | Some usage \<Rightarrow>
          let number = (\<lambda>k. numberValue (obj_get usage k));
              details = objectValue (obj_get usage ''cache_creation'');
              cacheRead = number ''cache_read_input_tokens'';
              cacheCreation5m = numberValue (opt_get details ''ephemeral_5m_input_tokens'');
              cacheCreation1h = numberValue (opt_get details ''ephemeral_1h_input_tokens'');
              cacheCreation = or_count (number ''cache_creation_input_tokens'') (sumOptional cacheCreation5m cacheCreation1h);
              inputParts = concat (map (\<lambda>v. case v of None \<Rightarrow> [] | Some x \<Rightarrow> [x]) [number ''input_tokens'', cacheRead, cacheCreation]);
              input = (if inputParts = [] then None else Some (foldl double_add (Num 0) inputParts));
              thinking = numberValue (opt_get (objectValue (obj_get usage ''output_tokens_details'')) ''thinking_tokens'')
          in emitUsage (objectValue (Some (js_object
               [(''input_tokens'', map_option JNum input),
                (''output_tokens'', map_option JNum (number ''output_tokens'')),
                (''input_tokens_details'', map_option (\<lambda>n. js_object [(''cached_tokens'', Some (JNum n))]) cacheRead),
                (''cache_creation_input_tokens'', map_option JNum cacheCreation),
                (''cache_creation'',
                  if cacheCreation5m = None \<and> cacheCreation1h = None then None
                  else Some (js_object [(''ephemeral_5m_input_tokens'', map_option JNum cacheCreation5m),
                                        (''ephemeral_1h_input_tokens'', map_option JNum cacheCreation1h)])),
                (''output_tokens_details'', map_option (\<lambda>n. js_object [(''reasoning_tokens'', Some (JNum n))]) thinking)])))
             ''input_tokens'' ''output_tokens'' None p)"

section \<open>Stop reasons\<close>

definition chatStopReason :: "js_text \<Rightarrow> stop_reason" where
  "chatStopReason r =
     (if r = utf16 ''length'' then Stop_Length
      else if text_among r [''tool_calls'', ''function_call''] then Stop_Tool_Calls
      else if r = utf16 ''content_filter'' then Stop_Content_Filter
      else if r = utf16 ''stop'' then Stop_Normal else Stop_Other)"

definition anthropicStopReason :: "js_text \<Rightarrow> stop_reason" where
  "anthropicStopReason r =
     (if r = utf16 ''max_tokens'' then Stop_Length
      else if r = utf16 ''tool_use'' then Stop_Tool_Calls
      else if text_among r [''end_turn'', ''stop_sequence''] then Stop_Normal
      else if r = utf16 ''refusal'' then Stop_Content_Filter else Stop_Other)"

definition geminiStopReason :: "js_text \<Rightarrow> stop_reason" where
  "geminiStopReason r =
     (if r = utf16 ''MAX_TOKENS'' then Stop_Length
      else if text_among r [''SAFETY'', ''RECITATION'', ''BLOCKLIST'', ''PROHIBITED_CONTENT''] then Stop_Content_Filter
      else if r = utf16 ''STOP'' then Stop_Normal else Stop_Other)"

end
