(* ===== verification/Responses_Parser.thy ===== *)
theory Responses_Parser
  imports Parser_State
begin

text \<open>
  The Responses events of \<open>ProtocolParser\<close> (\<^verbatim>\<open>src/main/gateway/streaming.ts\<close>): which payloads count, the
  indices of tool calls whose items may come without one, and \<open>handleOpenAiResponses\<close>. A step that ends
  the handling of a payload returns \<open>False\<close> next to the state.
\<close>

section \<open>Which payloads count\<close>

definition responses_progress_prefixes :: "string list" where
  "responses_progress_prefixes =
     [''response.output_'', ''response.content_part.'', ''response.reasoning'', ''response.refusal'',
      ''response.audio'', ''response.usage'', ''response.function_call'', ''response.custom_tool_call'',
      ''response.file_search_call'', ''response.web_search_call'', ''response.code_interpreter_call'',
      ''response.image_generation_call'', ''response.mcp_'', ''response.tool_'']"

definition responsesEventAdvancesProgress :: "js_text \<Rightarrow> bool" where
  "responsesEventAdvancesProgress type \<longleftrightarrow>
     text_among type [''response.completed'', ''response.incomplete'', ''response.failed'', ''response.error'', ''error'']
     \<or> list_ex (\<lambda>p. text_starts type (utf16 p)) responses_progress_prefixes"

definition responsesUsageProgressSignature :: "js_record \<Rightarrow> double option list option" where
  "responsesUsageProgressSignature payload =
     (let usage = (case objectValue (obj_get payload ''usage'') of
            Some ps \<Rightarrow> Some (JObj ps)
          | None \<Rightarrow> opt_get (objectValue (obj_get payload ''response'')) ''usage'')
      in case objectValue usage of
           None \<Rightarrow> None
         | Some u \<Rightarrow>
             let inputDetails = objectValue (obj_get u ''input_tokens_details'');
                 outputDetails = objectValue (obj_get u ''output_tokens_details'');
                 values = map nonNegativeFiniteNumber
                   [obj_get u ''input_tokens'', obj_get u ''output_tokens'', obj_get u ''total_tokens'',
                    opt_get inputDetails ''cached_tokens'', opt_get outputDetails ''reasoning_tokens'']
             in if list_all (\<lambda>v. v = None) values then None else Some values)"

definition recognizedResponsesPayload :: "js_text \<Rightarrow> js_record \<Rightarrow> bool" where
  "recognizedResponsesPayload type payload \<longleftrightarrow>
     (let response = objectValue (obj_get payload ''response'');
          present = (\<lambda>k. objectValue (obj_get payload k) \<noteq> None);
          a_text = (\<lambda>k. case obj_get payload k of Some (JStr s) \<Rightarrow> True | _ \<Rightarrow> False)
      in if type = utf16 ''response.queued'' then True
         else if text_among type [''response.created'', ''response.in_progress''] then response \<noteq> None
         else if text_among type [''response.completed'', ''response.incomplete'']
         then response \<noteq> None \<and> (opt_get response ''status'' = None \<or> stringValue (opt_get response ''status'') [] \<noteq> [])
         else if type = utf16 ''response.failed''
         then response \<noteq> None \<and> (objectValue (opt_get response ''error'') \<noteq> None
            \<or> opt_get response ''status'' = Some (JStr (utf16 ''failed'')))
         else if text_among type [''response.error'', ''error'']
         then present ''error'' \<or> stream_optionalString (obj_get payload ''message'') \<noteq> None
         else if \<not> responsesEventAdvancesProgress type then False
         else if text_starts type (utf16 ''response.usage'') then responsesUsageProgressSignature payload \<noteq> None
         else if text_ends type (utf16 ''.delta'') then stream_optionalString (obj_get payload ''delta'') \<noteq> None
         else if type = utf16 ''response.output_text.done'' then stream_optionalString (obj_get payload ''text'') \<noteq> None
         else if type = utf16 ''response.refusal.done'' then stream_optionalString (obj_get payload ''refusal'') \<noteq> None
         else if text_starts type (utf16 ''response.output_item.'') then present ''item''
         else if text_starts type (utf16 ''response.content_part.'') then present ''part''
         else if type = utf16 ''response.function_call_arguments.done'' then a_text ''arguments''
         else if type = utf16 ''response.custom_tool_call_input.done'' then a_text ''input''
         else nonNegativeSafeInteger (obj_get payload ''output_index'') \<noteq> None
           \<or> stream_optionalString (obj_get payload ''item_id'') \<noteq> None
           \<or> stream_optionalString (obj_get payload ''call_id'') \<noteq> None
           \<or> present ''item'' \<or> present ''part'')"

definition responsesOutputIndex :: "js_record \<Rightarrow> nat" where
  "responsesOutputIndex payload =
     (case nonNegativeSafeInteger (obj_get payload ''output_index'') of None \<Rightarrow> 0 | Some n \<Rightarrow> n)"

definition responsesTextKey :: "js_record \<Rightarrow> content_type \<Rightarrow> content_type \<times> nat \<times> nat" where
  "responsesTextKey payload kind =
     (kind, responsesOutputIndex payload,
      case nonNegativeSafeInteger (obj_get payload ''content_index'') of None \<Rightarrow> 0 | Some n \<Rightarrow> n)"

text \<open>With the signature of the last usage noted.\<close>

definition responsesPayloadAdvancesProgress :: "js_text \<Rightarrow> js_record \<Rightarrow> protocol_parser \<Rightarrow> protocol_parser \<times> bool" where
  "responsesPayloadAdvancesProgress type payload p =
     (if \<not> responsesEventAdvancesProgress type then (p, False)
      else if text_starts type (utf16 ''response.usage'')
      then (case responsesUsageProgressSignature payload of
              None \<Rightarrow> (p, False)
            | Some signature \<Rightarrow>
                if signature = responsesLastProgressUsage p then (p, False)
                else (p\<lparr>responsesLastProgressUsage := signature\<rparr>, True))
      else (p, True))"

section \<open>Indices of tool calls\<close>

definition responseToolIndex :: "int \<Rightarrow> protocol_parser \<Rightarrow> protocol_parser \<times> nat" where
  "responseToolIndex outputIndex p =
     (case map_of (responsesToolIndices p) outputIndex of
        Some i \<Rightarrow> (p, i)
      | None \<Rightarrow> (p\<lparr>nextToolIndex := Suc (nextToolIndex p),
                   responsesToolIndices := AList.update outputIndex (nextToolIndex p) (responsesToolIndices p)\<rparr>,
                 nextToolIndex p))"

text \<open>\<^verbatim>\<open>map.set(k, v)\<close> when \<open>v\<close> is there.\<close>

definition update_opt :: "'k \<Rightarrow> 'v option \<Rightarrow> ('k \<times> 'v) list \<Rightarrow> ('k \<times> 'v) list" where
  "update_opt k v m = (case v of None \<Rightarrow> m | Some x \<Rightarrow> AList.update k x m)"

text \<open>Moving an entry of a set to another key.\<close>

definition rename_member :: "int \<Rightarrow> int \<Rightarrow> int list \<Rightarrow> int list" where
  "rename_member synthetic explicit s =
     (if synthetic \<in> set s then removeAll synthetic (List.insert explicit s) else s)"

definition merged_arguments :: "js_text option \<Rightarrow> js_text option \<Rightarrow> js_text option" where
  "merged_arguments synthetic explicit =
     (case (synthetic, explicit) of
        (None, _) \<Rightarrow> explicit
      | (_, None) \<Rightarrow> synthetic
      | (Some s, Some e) \<Rightarrow> if length e \<le> length s then Some s else Some e)"

definition conflicting_arguments :: "js_text option \<Rightarrow> js_text option \<Rightarrow> bool" where
  "conflicting_arguments synthetic explicit =
     (case (synthetic, explicit) of
        (Some s, Some e) \<Rightarrow> s \<noteq> e \<and> \<not> text_starts s e \<and> \<not> text_starts e s
      | _ \<Rightarrow> False)"

definition move_tool_index :: "int \<Rightarrow> int \<Rightarrow> protocol_parser \<Rightarrow> protocol_parser" where
  "move_tool_index synthetic explicit p =
     (case map_of (responsesToolIndices p) synthetic of
        None \<Rightarrow> p
      | Some i \<Rightarrow> p\<lparr>responsesToolIndices := AList.delete synthetic (AList.update explicit i (responsesToolIndices p))\<rparr>)"

definition move_tool_state :: "int \<Rightarrow> int \<Rightarrow> protocol_parser \<Rightarrow> protocol_parser" where
  "move_tool_state synthetic explicit p =
     p\<lparr>responsesArguments := AList.delete synthetic (update_opt explicit
         (merged_arguments (map_of (responsesArguments p) synthetic) (map_of (responsesArguments p) explicit))
         (responsesArguments p)),
       responsesToolMetadataSeen := rename_member synthetic explicit (responsesToolMetadataSeen p),
       responsesToolCompleted := rename_member synthetic explicit (responsesToolCompleted p),
       responsesToolIdentityIndices := map (\<lambda>(k, i). (k, if i = synthetic then explicit else i))
         (responsesToolIdentityIndices p)\<rparr>"

definition rebindResponsesToolOutputIndex :: "int \<Rightarrow> int \<Rightarrow> protocol_parser \<Rightarrow> protocol_parser" where
  "rebindResponsesToolOutputIndex synthetic explicit p =
     (let syntheticToolIndex = map_of (responsesToolIndices p) synthetic;
          explicitToolIndex = map_of (responsesToolIndices p) explicit
      in if syntheticToolIndex \<noteq> None \<and> explicitToolIndex \<noteq> None \<and> syntheticToolIndex \<noteq> explicitToolIndex
         then emitResponsesProtocolError
           (utf16 ''Responses output_index '' @ text_of_nat (nat explicit)
            @ utf16 '' is already bound to a different tool call'') ''conflicting_tool_identity'' p
         else if conflicting_arguments (map_of (responsesArguments p) synthetic) (map_of (responsesArguments p) explicit)
         then emitResponsesProtocolError
           (utf16 ''Responses tool arguments conflict while assigning a late output_index'')
           ''inconsistent_tool_arguments'' (move_tool_index synthetic explicit p)
         else move_tool_state synthetic explicit (move_tool_index synthetic explicit p))"

definition tool_identities :: "js_record \<Rightarrow> js_record option \<Rightarrow> js_text list" where
  "tool_identities payload item =
     concat (map (\<lambda>v. case stream_optionalString v of None \<Rightarrow> [] | Some s \<Rightarrow> [s])
       [obj_get payload ''item_id'', obj_get payload ''call_id'', opt_get item ''id'', opt_get item ''call_id''])"

definition bind_identities :: "js_text list \<Rightarrow> int \<Rightarrow> protocol_parser \<Rightarrow> protocol_parser" where
  "bind_identities ids i p =
     p\<lparr>responsesToolIdentityIndices := foldl (\<lambda>m k. AList.update k i m) (responsesToolIdentityIndices p) ids\<rparr>"

text \<open>The indices identities were bound to before, in the order of the identities.\<close>

definition bound_indices :: "js_text list \<Rightarrow> protocol_parser \<Rightarrow> int list" where
  "bound_indices ids p =
     concat (map (\<lambda>k. case map_of (responsesToolIdentityIndices p) k of None \<Rightarrow> [] | Some i \<Rightarrow> [i]) ids)"

definition explicit_tool_index :: "js_text list \<Rightarrow> int \<Rightarrow> protocol_parser \<Rightarrow> protocol_parser" where
  "explicit_tool_index ids explicit p =
     (case remdups (bound_indices ids p) of
        i # j # is \<Rightarrow> emitResponsesProtocolError
          (utf16 ''Responses tool identities resolve to conflicting output indices'') ''conflicting_tool_identity'' p
      | [] \<Rightarrow> bind_identities ids explicit p
      | [prior] \<Rightarrow>
          if prior = explicit then bind_identities ids explicit p
          else if 0 \<le> prior
          then bind_identities (filter (\<lambda>k. map_of (responsesToolIdentityIndices p) k = None) ids) explicit p
          else let p = rebindResponsesToolOutputIndex prior explicit p
               in if pp_done p then p else bind_identities ids explicit p)"

definition responsesToolOutputIndex ::
  "json option \<Rightarrow> js_text list \<Rightarrow> protocol_parser \<Rightarrow> protocol_parser \<times> int" where
  "responsesToolOutputIndex output_index ids p =
     (case nonNegativeSafeInteger output_index of
        Some explicit \<Rightarrow> (explicit_tool_index ids (int explicit) p, int explicit)
      | None \<Rightarrow>
          (case bound_indices ids p of
             i # is \<Rightarrow> (p, i)
           | [] \<Rightarrow>
               let i = nextSyntheticResponsesOutputIndex p
               in (bind_identities ids i (p\<lparr>nextSyntheticResponsesOutputIndex := i - 1\<rparr>), i)))"

section \<open>Arguments of tool calls\<close>

definition seen_arguments :: "int \<Rightarrow> protocol_parser \<Rightarrow> js_text" where
  "seen_arguments outputIndex p = (case map_of (responsesArguments p) outputIndex of None \<Rightarrow> [] | Some s \<Rightarrow> s)"

definition appendResponsesToolArguments ::
  "int \<Rightarrow> js_text option \<Rightarrow> protocol_parser \<Rightarrow> protocol_parser \<times> js_text option" where
  "appendResponsesToolArguments outputIndex delta p =
     (case nonempty_text delta of
        None \<Rightarrow> (p, None)
      | Some s \<Rightarrow> (p\<lparr>responsesArguments := AList.update outputIndex (seen_arguments outputIndex p @ s) (responsesArguments p)\<rparr>,
                   Some s))"

definition reconcileResponsesToolArguments ::
  "int \<Rightarrow> js_text option \<Rightarrow> protocol_parser \<Rightarrow> protocol_parser \<times> js_text option" where
  "reconcileResponsesToolArguments outputIndex snapshot p =
     (case nonempty_text snapshot of
        None \<Rightarrow> (p, None)
      | Some s \<Rightarrow>
          let current = seen_arguments outputIndex p
          in if s = current then (p, None)
             else if text_starts s current
             then (p\<lparr>responsesArguments := AList.update outputIndex s (responsesArguments p)\<rparr>,
                   nonempty_text (Some (drop (length current) s)))
             else (emitResponsesProtocolError
                     (utf16 ''Responses tool argument snapshots do not match streamed deltas'')
                     ''inconsistent_tool_arguments'' p, None))"

section \<open>The events\<close>

text \<open>The output index an event carries besides its tool index.\<close>

definition carried_index :: "int \<Rightarrow> nat \<Rightarrow> nat option" where
  "carried_index outputIndex index =
     (if 0 \<le> outputIndex \<and> outputIndex \<noteq> int index then Some (nat outputIndex) else None)"

definition tool_items :: "string list" where "tool_items = [''function_call'', ''custom_tool_call'']"

definition item_tool_type :: "js_text \<Rightarrow> tool_type option" where
  "item_tool_type itemType = (if itemType = utf16 ''custom_tool_call'' then Some Custom_Tool_Call else None)"

definition item_arguments :: "js_text \<Rightarrow> js_record \<Rightarrow> js_text option" where
  "item_arguments itemType item =
     stream_optionalString (obj_get item (if itemType = utf16 ''custom_tool_call'' then ''input'' else ''arguments''))"

definition item_finished :: "js_record \<Rightarrow> bool" where
  "item_finished item =
     (case stream_optionalString (obj_get item ''status'') of None \<Rightarrow> True | Some s \<Rightarrow> s = utf16 ''completed'')"

definition complete_tool_call :: "int \<Rightarrow> nat \<Rightarrow> protocol_parser \<Rightarrow> protocol_parser" where
  "complete_tool_call outputIndex index p =
     (if outputIndex \<in> set (responsesToolCompleted p) then p
      else emit_event (Tool_Call_Complete index)
        (p\<lparr>responsesToolCompleted := List.insert outputIndex (responsesToolCompleted p)\<rparr>))"

text \<open>What a snapshot of a tool item adds: its id and name when they are new, and the rest of its arguments.\<close>

definition emit_tool_item ::
  "js_record \<Rightarrow> js_text \<Rightarrow> int \<Rightarrow> nat \<Rightarrow> bool \<Rightarrow> js_text option \<Rightarrow> protocol_parser \<Rightarrow> protocol_parser" where
  "emit_tool_item item itemType outputIndex index includeMetadata suffix p =
     (if includeMetadata \<or> suffix \<noteq> None
      then emit_event (Tool_Call_Delta index
             (if includeMetadata
              then or_count (stream_optionalString (obj_get item ''call_id'')) (stream_optionalString (obj_get item ''id'')) else None)
             (if includeMetadata then stream_optionalString (obj_get item ''name'') else None)
             suffix (item_tool_type itemType) (carried_index outputIndex index))
           (p\<lparr>sawToolCall := True\<rparr>)
      else p)"

definition note_metadata :: "int \<Rightarrow> protocol_parser \<Rightarrow> protocol_parser" where
  "note_metadata outputIndex p =
     p\<lparr>responsesToolMetadataSeen := List.insert outputIndex (responsesToolMetadataSeen p)\<rparr>"

text \<open>\<^verbatim>\<open>output_item.added\<close>, \<^verbatim>\<open>output_item.done\<close> and the items of a terminal response; \<open>finishing\<close> says whether
  the item may complete its call.\<close>

definition responses_tool_snapshot ::
  "bool \<Rightarrow> json option \<Rightarrow> js_record \<Rightarrow> js_text list \<Rightarrow> protocol_parser \<Rightarrow> protocol_parser" where
  "responses_tool_snapshot finishing output_index item ids p =
     (let itemType = stringValue (obj_get item ''type'') [];
          (p, outputIndex) = responsesToolOutputIndex output_index ids p;
          (p, index) = responseToolIndex outputIndex p;
          includeMetadata = (outputIndex \<notin> set (responsesToolMetadataSeen p));
          (p, suffix) = reconcileResponsesToolArguments outputIndex (item_arguments itemType item) p
      in if pp_done p then p
         else let p = (if finishing then p else p\<lparr>sawToolCall := True\<rparr>);
                  p = note_metadata outputIndex (emit_tool_item item itemType outputIndex index includeMetadata suffix p)
              in if finishing \<and> item_finished item then complete_tool_call outputIndex index p else p)"

definition responses_text_delta :: "js_record \<Rightarrow> content_type \<Rightarrow> protocol_parser \<Rightarrow> protocol_parser" where
  "responses_text_delta payload kind p =
     (let s = stringValue (obj_get payload ''delta'') []; key = responsesTextKey payload kind
      in if s = [] \<or> key \<in> set (responsesTextDoneKeys p) then p
         else emit_event (Text_Delta s (Some (responsesOutputIndex payload)) (Some kind))
           (p\<lparr>sawRefusal := sawRefusal p \<or> kind = Refusal_Content,
              responsesTextDeltaKeys := List.insert key (responsesTextDeltaKeys p)\<rparr>))"

definition note_text_done :: "content_type \<times> nat \<times> nat \<Rightarrow> protocol_parser \<Rightarrow> protocol_parser" where
  "note_text_done key p = p\<lparr>responsesTextDoneKeys := List.insert key (responsesTextDoneKeys p)\<rparr>"

definition whole_text :: "content_type \<times> nat \<times> nat \<Rightarrow> nat \<Rightarrow> js_text \<Rightarrow> protocol_parser \<Rightarrow> protocol_parser" where
  "whole_text key index s p =
     (if key \<in> set (responsesTextDoneKeys p) \<or> key \<in> set (responsesTextDeltaKeys p) then p
      else emit_event (Text_Delta s (Some index) (Some (fst key))) p)"

definition responses_text_done :: "js_record \<Rightarrow> string \<Rightarrow> content_type \<Rightarrow> protocol_parser \<Rightarrow> protocol_parser" where
  "responses_text_done payload property_name kind p =
     (let key = responsesTextKey payload kind
      in note_text_done key
        (case stream_optionalString (obj_get payload property_name) of
           None \<Rightarrow> p
         | Some s \<Rightarrow>
             let p = whole_text key (responsesOutputIndex payload) s p
             in p\<lparr>sawRefusal := sawRefusal p \<or> kind = Refusal_Content\<rparr>))"

definition responses_arguments_delta :: "js_record \<Rightarrow> tool_type option \<Rightarrow> protocol_parser \<Rightarrow> protocol_parser" where
  "responses_arguments_delta payload kind p =
     (let (p, outputIndex) = responsesToolOutputIndex (obj_get payload ''output_index'') (tool_identities payload None) p;
          (p, index) = responseToolIndex outputIndex p;
          (p, added) = appendResponsesToolArguments outputIndex (stream_optionalString (obj_get payload ''delta'')) p
      in emit_event (Tool_Call_Delta index None None added kind (carried_index outputIndex index)) (p\<lparr>sawToolCall := True\<rparr>))"

definition responses_arguments_done :: "js_record \<Rightarrow> string \<Rightarrow> tool_type option \<Rightarrow> protocol_parser \<Rightarrow> protocol_parser" where
  "responses_arguments_done payload property_name kind p =
     (let (p, outputIndex) = responsesToolOutputIndex (obj_get payload ''output_index'') (tool_identities payload None) p;
          (p, index) = responseToolIndex outputIndex p;
          (p, suffix) = reconcileResponsesToolArguments outputIndex (stream_optionalString (obj_get payload property_name)) p
      in if pp_done p then p
         else complete_tool_call outputIndex index
           (case suffix of
              None \<Rightarrow> p
            | Some s \<Rightarrow> emit_event (Tool_Call_Delta index None None (Some s) kind (carried_index outputIndex index)) p))"

text \<open>A message is complete; an index that is no natural number has no event.\<close>

definition emit_message_complete :: "double \<Rightarrow> protocol_parser \<Rightarrow> protocol_parser" where
  "emit_message_complete x p =
     (case natural_index x of
        Some i \<Rightarrow> emit_event (Message_Complete i) p
      | None \<Rightarrow> p\<lparr>pp_unnumbered := True\<rparr>)"

definition responses_item_done :: "js_record \<Rightarrow> protocol_parser \<Rightarrow> protocol_parser" where
  "responses_item_done payload p =
     (let item = object_or_empty (obj_get payload ''item''); itemType = stringValue (obj_get item ''type'') [];
          ids = tool_identities payload (Some item)
      in if itemType = utf16 ''message''
         then (if item_finished item
               then emit_message_complete (case numberValue (obj_get payload ''output_index'') of
                 None \<Rightarrow> Num 0 | Some x \<Rightarrow> x) p
               else p)
         else if text_among itemType tool_items
         then responses_tool_snapshot True (obj_get payload ''output_index'') item ids p
         else fst (responsesToolOutputIndex (obj_get payload ''output_index'') ids p))"

text \<open>The text parts of a message of a terminal response, by their places.\<close>

fun terminal_parts :: "nat \<Rightarrow> nat \<Rightarrow> js_record list \<Rightarrow> protocol_parser \<Rightarrow> protocol_parser" where
  "terminal_parts outputIndex contentIndex [] p = p"
| "terminal_parts outputIndex contentIndex (part # parts) p =
     (let kind = (if stringValue (obj_get part ''type'') [] = utf16 ''refusal'' then Refusal_Content else Text_Content);
          key = (kind, outputIndex, contentIndex);
          p = (case stream_optionalString (obj_get part (if kind = Refusal_Content then ''refusal'' else ''text'')) of
                 None \<Rightarrow> p
               | Some s \<Rightarrow>
                   let p = whole_text key outputIndex s p
                   in note_text_done key (p\<lparr>sawRefusal := sawRefusal p \<or> kind = Refusal_Content\<rparr>))
      in terminal_parts outputIndex (Suc contentIndex) parts p)"

definition terminal_item :: "nat \<Rightarrow> js_record \<Rightarrow> protocol_parser \<Rightarrow> protocol_parser" where
  "terminal_item outputIndex item p =
     (let itemType = stringValue (obj_get item ''type'') []
      in if itemType = utf16 ''message''
         then let p = terminal_parts outputIndex 0 (arrayOfObjects (obj_get item ''content'')) p
              in if item_finished item then emit_event (Message_Complete outputIndex) p else p
         else if text_among itemType tool_items
         then responses_tool_snapshot True (Some (jnat outputIndex)) item (tool_identities [] (Some item)) p
         else p)"

text \<open>A conflict among the tools ends the loop.\<close>

fun terminal_items :: "nat \<Rightarrow> js_record list \<Rightarrow> protocol_parser \<Rightarrow> protocol_parser \<times> bool" where
  "terminal_items outputIndex [] p = (p, True)"
| "terminal_items outputIndex (item # items) p =
     (let p = terminal_item outputIndex item p
      in if pp_done p then (p, False) else terminal_items (Suc outputIndex) items p)"

definition text_includes :: "js_text \<Rightarrow> string \<Rightarrow> bool" where
  "text_includes s t \<longleftrightarrow> text_index (utf16 t) s \<noteq> None"

definition terminal_reason :: "js_text \<Rightarrow> js_text \<Rightarrow> protocol_parser \<Rightarrow> stop_reason" where
  "terminal_reason type rawReason p =
     (let normalizedReason = text_lower (text_trim rawReason)
      in if type = utf16 ''response.incomplete''
         then (if text_includes normalizedReason ''content_filter'' then Stop_Content_Filter
               else if text_includes normalizedReason ''max'' then Stop_Length else Stop_Other)
         else if sawRefusal p then Stop_Content_Filter
         else if sawToolCall p then Stop_Tool_Calls else Stop_Normal)"

definition responses_terminal_output :: "js_text \<Rightarrow> js_record option \<Rightarrow> protocol_parser \<Rightarrow> protocol_parser" where
  "responses_terminal_output type response p =
     (case terminal_items 0 (arrayOfObjects (opt_get response ''output'')) p of (p, consistent) \<Rightarrow>
        if \<not> consistent then p
        else let p = emitUsage (objectValue (opt_get response ''usage'')) ''input_tokens'' ''output_tokens''
                   (Some ''total_tokens'') p;
                 rawReason = stringValue (opt_get (objectValue (opt_get response ''incomplete_details'')) ''reason'') []
             in emitDone (emitStop (terminal_reason type rawReason p)
                  (if rawReason \<noteq> [] then Some rawReason
                   else if sawRefusal p then Some (utf16 ''refusal'') else None) p))"

section \<open>Handling a payload\<close>

definition terminal_types :: "(string \<times> responses_terminal) list" where
  "terminal_types = [(''response.completed'', Responses_Completed), (''response.incomplete'', Responses_Incomplete),
     (''response.failed'', Responses_Failed)]"

definition terminal_type :: "js_text \<Rightarrow> responses_terminal option" where
  "terminal_type type = map_option snd (find (\<lambda>(name, t). type = utf16 name) terminal_types)"

definition count_progress :: "js_text \<Rightarrow> js_record \<Rightarrow> protocol_parser \<Rightarrow> protocol_parser" where
  "count_progress type payload p =
     (case responsesPayloadAdvancesProgress type payload p of (p, advances) \<Rightarrow>
        if advances then p\<lparr>responsesProgressEventCount := Suc (responsesProgressEventCount p)\<rparr> else p)"

text \<open>A replayed sequence number or a malformed one ends the handling.\<close>

definition check_sequence :: "js_record \<Rightarrow> protocol_parser \<Rightarrow> protocol_parser \<times> bool" where
  "check_sequence payload p =
     (if obj_get payload ''sequence_number'' = None then (p, True)
      else case nonNegativeSafeInteger (obj_get payload ''sequence_number'') of
          None \<Rightarrow> (emitResponsesProtocolError
            (utf16 ''Responses sequence_number must be a non-negative safe integer when present'')
            ''invalid_sequence_number'' p, False)
        | Some n \<Rightarrow>
            if (case responsesLastSequenceNumber p of None \<Rightarrow> False | Some l \<Rightarrow> n \<le> l) then (p, False)
            else (p\<lparr>responsesLastSequenceNumber := Some n\<rparr>, True))"

text \<open>Counting the event.\<close>

definition count_responses_event :: "js_text \<Rightarrow> js_record \<Rightarrow> protocol_parser \<Rightarrow> protocol_parser \<times> bool" where
  "count_responses_event type payload p =
     (if type = [] then (p, True)
      else let p = p\<lparr>responsesEventCount := Suc (responsesEventCount p), responsesLastEventType := Some type\<rparr>
           in if \<not> recognizedResponsesPayload type payload then (p, True)
              else case check_sequence payload p of (p, fresh) \<Rightarrow>
                   if fresh then (count_progress type payload p, True) else (p, False))"

definition expected_status :: "responses_terminal \<Rightarrow> string" where
  "expected_status t = (case t of Responses_Completed \<Rightarrow> ''completed'' | Responses_Incomplete \<Rightarrow> ''incomplete''
     | Responses_Failed \<Rightarrow> ''failed'')"

text \<open>A terminal event needs its response, in the right status, and no earlier error.\<close>

definition check_terminal ::
  "js_text \<Rightarrow> responses_terminal \<Rightarrow> js_record option \<Rightarrow> protocol_parser \<Rightarrow> protocol_parser \<times> bool" where
  "check_terminal type t response p =
     (case response of
        None \<Rightarrow> (emitResponsesProtocolError (utf16 ''Responses terminal event '' @ type
          @ utf16 '' is missing its required response payload'') ''invalid_terminal_event'' p, False)
      | Some r \<Rightarrow>
          let actual = text_lower (text_trim (stringValue (obj_get r ''status'') []))
          in if actual \<noteq> utf16 (expected_status t)
             then (emitResponsesProtocolError (utf16 ''Responses terminal event '' @ type
               @ utf16 '' requires response.status='' @ utf16 (expected_status t) @ utf16 ''; received ''
               @ or_text actual (utf16 ''<missing>'')) ''invalid_terminal_status'' p, False)
             else if pp_errored p
             then (emitDone (emitStop Stop_Error (Some (utf16 ''prior_stream_error'')) p), False)
             else (p\<lparr>responsesTerminalEvent := Some t, responsesTerminalResponse := Some r\<rparr>, True))"

definition responses_event :: "js_text \<Rightarrow> js_record \<Rightarrow> js_record option \<Rightarrow> protocol_parser \<Rightarrow> protocol_parser" where
  "responses_event type payload response p =
     (if type = utf16 ''response.output_text.delta'' then responses_text_delta payload Text_Content p
      else if type = utf16 ''response.output_text.done'' then responses_text_done payload ''text'' Text_Content p
      else if type = utf16 ''response.refusal.delta'' then responses_text_delta payload Refusal_Content p
      else if type = utf16 ''response.refusal.done'' then responses_text_done payload ''refusal'' Refusal_Content p
      else if type = utf16 ''response.output_item.added''
      then let item = object_or_empty (obj_get payload ''item'')
           in if text_among (stringValue (obj_get item ''type'') []) tool_items
              then responses_tool_snapshot False (obj_get payload ''output_index'') item (tool_identities payload (Some item)) p
              else p
      else if type = utf16 ''response.function_call_arguments.delta'' then responses_arguments_delta payload None p
      else if type = utf16 ''response.custom_tool_call_input.delta''
      then responses_arguments_delta payload (Some Custom_Tool_Call) p
      else if type = utf16 ''response.function_call_arguments.done''
      then responses_arguments_done payload ''arguments'' None p
      else if type = utf16 ''response.custom_tool_call_input.done''
      then responses_arguments_done payload ''input'' (Some Custom_Tool_Call) p
      else if type = utf16 ''response.output_item.done'' then responses_item_done payload p
      else if text_among type [''response.completed'', ''response.incomplete'']
      then responses_terminal_output type response p
      else if text_starts type (utf16 ''response.usage'')
      then emitUsage (case objectValue (obj_get payload ''usage'') of
               Some u \<Rightarrow> Some u | None \<Rightarrow> objectValue (opt_get response ''usage''))
             ''input_tokens'' ''output_tokens'' (Some ''total_tokens'') p
      else if type = utf16 ''response.failed''
      then emitDone (emitStop Stop_Error (Some (utf16 ''failed''))
             (emitErrorObject (nullish_or (opt_get response ''error'')
                (nullish_or (obj_get payload ''error'') (Some (JObj payload)))) p))
      else p)"

text \<open>An event that is counted and, if terminal, valid.\<close>

definition accepted_event :: "js_text \<Rightarrow> js_record \<Rightarrow> js_record option \<Rightarrow> protocol_parser \<Rightarrow> protocol_parser" where
  "accepted_event type payload response p =
     (if text_among type [''error'', ''response.error'']
      then emitDone (emitStop Stop_Error (Some type)
        (emitErrorObject (nullish_or (obj_get payload ''error'') (Some (JObj payload))) p))
      else if text_among type [''response.created'', ''response.in_progress'']
      then emitStart (opt_get response ''id'') (opt_get response ''model'') (opt_get response ''created_at'') p
      else responses_event type payload response
        (emitStart (obj_get payload ''response_id'') (opt_get response ''model'') (opt_get response ''created_at'') p))"

definition note_response_id :: "js_record \<Rightarrow> js_record option \<Rightarrow> protocol_parser \<Rightarrow> protocol_parser" where
  "note_response_id payload response p =
     (case or_count (stream_optionalString (opt_get response ''id'')) (stream_optionalString (obj_get payload ''response_id'')) of
        None \<Rightarrow> p
      | Some i \<Rightarrow> p\<lparr>responsesResponseId := Some i\<rparr>)"

definition handleOpenAiResponses :: "js_text option \<Rightarrow> js_record \<Rightarrow> protocol_parser \<Rightarrow> protocol_parser" where
  "handleOpenAiResponses eventName payload p =
     (let payloadType = stream_optionalString (obj_get payload ''type'');
          type = (case or_count payloadType eventName of None \<Rightarrow> [] | Some t \<Rightarrow> t);
          response = objectValue (obj_get payload ''response'');
          mismatch = (case (eventName, payloadType) of
             (Some e, Some t) \<Rightarrow> terminal_type e \<noteq> None \<and> e \<noteq> t | _ \<Rightarrow> False)
      in if mismatch
         then emitResponsesProtocolError (utf16 ''Responses SSE event '' @ (case eventName of None \<Rightarrow> [] | Some e \<Rightarrow> e)
           @ utf16 '' disagrees with payload type '' @ type) ''mismatched_event_type'' p
         else case count_responses_event type payload (note_response_id payload response p) of (p, counted) \<Rightarrow>
           if \<not> counted then p
           else case (case terminal_type type of None \<Rightarrow> (p, True) | Some t \<Rightarrow> check_terminal type t response p) of (p, valid) \<Rightarrow>
             if valid then accepted_event type payload response p else p)"

end
