(* ===== verification/Json_Framer.thy ===== *)
theory Json_Framer
  imports Canonical_Events
begin

text \<open>
  \<open>JsonFramer\<close> of \<^verbatim>\<open>src/main/gateway/streaming.ts\<close>: it cuts the text of a Gemini response that is no event
  stream into JSON values, one root value or the elements of one array, and bounds what an unfinished value
  may take. What it calls back is the list \<open>json_calls\<close>, in order. A syntax error's wording is left out.
\<close>

datatype json_call = Json_Value json | Json_Too_Large | Json_Incomplete | Json_Misplaced string | Json_Syntax

datatype json_mode = Json_Pending | Json_Single | Json_Array | Json_Complete

datatype array_state = Value_Or_End | Value_Wanted | Comma_Or_End

record json_framer =
  json_buffer :: js_text
  json_mode_of :: json_mode
  arrayState :: array_state
  json_failed :: bool
  json_calls :: "json_call list"

definition new_json_framer :: json_framer where
  "new_json_framer =
     \<lparr>json_buffer = [], json_mode_of = Json_Pending, arrayState = Value_Or_End, json_failed = False, json_calls = []\<rparr>"

definition trimStart :: "js_text \<Rightarrow> js_text" where
  "trimStart s = dropWhile text_space s"

definition json_fail :: "json_call \<Rightarrow> json_framer \<Rightarrow> json_framer" where
  "json_fail c f = (if json_failed f then f
     else f\<lparr>json_failed := True, json_buffer := [], json_calls := json_calls f @ [c]\<rparr>)"

text \<open>The end of the array or object that begins here; \<open>in_text\<close> and \<open>esc\<close> are the code's flags.\<close>

fun close_index :: "nat \<Rightarrow> bool \<Rightarrow> bool \<Rightarrow> js_text \<Rightarrow> nat option" where
  "close_index depth in_text esc [] = None"
| "close_index depth in_text esc (u # s) =
     map_option Suc
       (if in_text then
          close_index depth (esc \<or> u \<noteq> 34) (\<not> esc \<and> u = 92) s
        else if u = 34 then close_index depth True esc s
        else if u = 123 \<or> u = 91 then close_index (Suc depth) False esc s
        else if u = 125 \<or> u = 93
        then (if depth = 1 then Some 0 else close_index (depth - 1) False esc s)
        else close_index depth False esc s)"

fun delimiter_index :: "js_text \<Rightarrow> nat option" where
  "delimiter_index [] = None"
| "delimiter_index (u # s) = (if text_space u \<or> u = 44 then Some 0 else map_option Suc (delimiter_index s))"

definition findJsonValueBoundary :: "js_text \<Rightarrow> nat option" where
  "findJsonValueBoundary value =
     (if value \<noteq> [] \<and> (hd value = 123 \<or> hd value = 91) then close_index 0 False False value
      else delimiter_index value)"

text \<open>The mode the first character selects.\<close>

definition json_select :: "json_framer \<Rightarrow> json_framer" where
  "json_select f =
     (if json_mode_of f \<noteq> Json_Pending then f
      else if hd (json_buffer f) = 91
      then f\<lparr>json_mode_of := Json_Array, arrayState := Value_Or_End, json_buffer := trimStart (tl (json_buffer f))\<rparr>
      else f\<lparr>json_mode_of := Json_Single\<rparr>)"

text \<open>Reading one value: the framer after it, and whether the loop goes on.\<close>

definition json_value :: "nat \<Rightarrow> bool \<Rightarrow> json_framer \<Rightarrow> json_framer \<times> bool" where
  "json_value m final f =
     (if json_buffer f = [] then (if final then json_fail Json_Incomplete f else f, False)
      else case findJsonValueBoundary (json_buffer f) of
          None \<Rightarrow>
            (if m < length (json_buffer f) then json_fail Json_Too_Large f
             else if final then json_fail Json_Incomplete f else f, False)
        | Some n \<Rightarrow>
            if m < n then (json_fail Json_Too_Large f, False)
            else (case json_parse (take n (json_buffer f)) of
                None \<Rightarrow> (json_fail Json_Syntax (f\<lparr>json_buffer := drop n (json_buffer f)\<rparr>), False)
              | Some v \<Rightarrow>
                  let f = f\<lparr>json_buffer := drop n (json_buffer f), json_calls := json_calls f @ [Json_Value v]\<rparr>
                  in (if json_mode_of f = Json_Array then f\<lparr>arrayState := Comma_Or_End\<rparr>
                      else f\<lparr>json_mode_of := Json_Complete\<rparr>, True)))"

definition begins_with :: "nat \<Rightarrow> json_framer \<Rightarrow> bool" where
  "begins_with u f \<longleftrightarrow> json_buffer f \<noteq> [] \<and> hd (json_buffer f) = u"

definition json_skip :: "json_framer \<Rightarrow> json_framer" where
  "json_skip f = f\<lparr>json_buffer := tl (json_buffer f)\<rparr>"

text \<open>A round in an array, and whether the loop goes on.\<close>

definition json_element :: "nat \<Rightarrow> bool \<Rightarrow> json_framer \<Rightarrow> json_framer \<times> bool" where
  "json_element m final f =
     (if arrayState f = Comma_Or_End
      then (if begins_with 44 f then ((json_skip f)\<lparr>arrayState := Value_Wanted\<rparr>, True)
            else if begins_with 93 f then ((json_skip f)\<lparr>json_mode_of := Json_Complete\<rparr>, True)
            else if json_buffer f = [] then (f, False)
            else (json_fail (Json_Misplaced ''Expected a comma or closing bracket between JSON array values'') f, False))
      else if arrayState f = Value_Or_End \<and> begins_with 93 f
      then ((json_skip f)\<lparr>json_mode_of := Json_Complete\<rparr>, True)
      else if begins_with 44 f then (json_fail (Json_Misplaced ''Unexpected leading comma in JSON array'') f, False)
      else if arrayState f = Value_Wanted \<and> begins_with 93 f
      then (json_fail (Json_Misplaced ''Unexpected trailing comma in JSON array'') f, False)
      else json_value m final f)"

text \<open>One round of the loop, and whether it goes on.\<close>

definition json_round :: "nat \<Rightarrow> bool \<Rightarrow> json_framer \<Rightarrow> json_framer \<times> bool" where
  "json_round m final f =
     (let f = f\<lparr>json_buffer := trimStart (json_buffer f)\<rparr>
      in if json_mode_of f = Json_Complete
         then (if json_buffer f \<noteq> []
               then json_fail (Json_Misplaced ''Unexpected JSON value after the completed stream root'') f else f, False)
         else if json_mode_of f = Json_Pending \<and> json_buffer f = [] then (f, False)
         else if json_mode_of (json_select f) = Json_Array then json_element m final (json_select f)
         else json_value m final (json_select f))"

lemma trimStart_length: "length (trimStart s) \<le> length s"
  by (simp add: trimStart_def length_dropWhile_le)

lemma fail_buffer: "length (json_buffer (json_fail c f)) \<le> length (json_buffer f)"
  by (simp add: json_fail_def)

lemma select_buffer: "length (json_buffer (json_select f)) \<le> length (json_buffer f)"
  using trimStart_length [of "tl (json_buffer f)"] by (auto simp: json_select_def)

lemma parse_empty [simp]: "json_parse [] = None"
  by (simp add: json_parse_def)

lemma value_shorter:
  assumes "json_value m final f = (f', True)"
  shows "length (json_buffer f') < length (json_buffer f)"
proof -
  obtain n v where n: "findJsonValueBoundary (json_buffer f) = Some n" "json_buffer f \<noteq> []"
    "json_parse (take n (json_buffer f)) = Some v" "json_buffer f' = drop n (json_buffer f)"
    using assms by (auto simp: json_value_def Let_def split: if_splits option.splits)
  have "n \<noteq> 0" using n(3) by (cases n) simp_all
  with n(2,4) show ?thesis by (cases "json_buffer f") simp_all
qed

lemma skip_shorter: "begins_with u f \<Longrightarrow> length (json_buffer (json_skip f)) < length (json_buffer f)"
  by (cases "json_buffer f") (simp_all add: begins_with_def json_skip_def)

lemma element_shorter:
  "json_element m final f = (f', True) \<Longrightarrow> length (json_buffer f') < length (json_buffer f)"
  by (auto simp: json_element_def split: if_splits dest: skip_shorter value_shorter)

lemma round_shorter:
  assumes "json_round m final f = (f', True)"
  shows "length (json_buffer f') < length (json_buffer f)"
proof -
  let ?f = "f\<lparr>json_buffer := trimStart (json_buffer f)\<rparr>"
  have "json_element m final (json_select ?f) = (f', True) \<or> json_value m final (json_select ?f) = (f', True)"
    using assms by (simp add: json_round_def Let_def split: if_splits)
  then have "length (json_buffer f') < length (json_buffer (json_select ?f))"
    using element_shorter value_shorter by blast
  then show ?thesis using select_buffer [of ?f] trimStart_length [of "json_buffer f"] by simp
qed

function json_drain :: "nat \<Rightarrow> bool \<Rightarrow> json_framer \<Rightarrow> json_framer" where
  "json_drain m final f =
     (if json_failed f then f
      else case json_round m final f of (f, goes_on) \<Rightarrow> if goes_on then json_drain m final f else f)"
  by auto
termination
  by (relation "measure (\<lambda>(m, final, f). length (json_buffer f))") (simp_all add: round_shorter)

declare json_drain.simps [simp del]

text \<open>\<open>push\<close> takes no more at once than may be retained, and one more.\<close>

function json_push :: "nat \<Rightarrow> json_framer \<Rightarrow> js_text \<Rightarrow> json_framer" where
  "json_push m f s =
     (if s = [] \<or> json_failed f then f
      else let n = Suc (m - length (json_buffer f))
           in json_push m (json_drain m False (f\<lparr>json_buffer := json_buffer f @ take n s\<rparr>)) (drop n s))"
  by auto
termination
  by (relation "measure (\<lambda>(m, f, s). length s)") auto

declare json_push.simps [simp del]

definition json_finish :: "nat \<Rightarrow> json_framer \<Rightarrow> json_framer" where
  "json_finish m f = json_drain m True f"

end
