(* ===== verification/Protocol_Parser.thy ===== *)
theory Protocol_Parser
  imports Responses_Parser Sse_Framer Json_Framer Text_Coding
begin

text \<open>
  \<open>ProtocolParser\<close> of \<^verbatim>\<open>src/main/gateway/streaming.ts\<close>: the Chat, Anthropic and Gemini events, the framing of
  the decoded text, and \<open>push\<close> and \<open>finish\<close>. What a framer calls back is handled in order after its step,
  which does not depend on the handlers.
\<close>

section \<open>Chat\<close>

definition emit_tool_call ::
  "double option \<Rightarrow> js_text option \<Rightarrow> js_text option \<Rightarrow> js_text option \<Rightarrow> protocol_parser \<Rightarrow> protocol_parser" where
  "emit_tool_call index ident name arguments p =
     (case natural_index (case index of None \<Rightarrow> Num 0 | Some x \<Rightarrow> x) of
        Some i \<Rightarrow> emit_event (Tool_Call_Delta i ident name arguments None None) (p\<lparr>sawToolCall := True\<rparr>)
      | None \<Rightarrow> p\<lparr>sawToolCall := True, pp_unnumbered := True\<rparr>)"

definition chat_tool_call :: "protocol_parser \<Rightarrow> js_record \<Rightarrow> protocol_parser" where
  "chat_tool_call p toolCall =
     (let f = object_or_empty (obj_get toolCall ''function'')
      in emit_tool_call (numberValue (obj_get toolCall ''index'')) (stream_optionalString (obj_get toolCall ''id''))
           (stream_optionalString (obj_get f ''name'')) (stream_optionalString (obj_get f ''arguments'')) p)"

fun reasoning_detail :: "json \<Rightarrow> bool" where
  "reasoning_detail (JStr s) = (text_trim s \<noteq> [])"
| "reasoning_detail (JObj ps) = (ps \<noteq> [])"
| "reasoning_detail v = False"

definition chat_reasoning :: "js_record \<Rightarrow> bool" where
  "chat_reasoning delta \<longleftrightarrow>
     stringValue (nullish_or (obj_get delta ''reasoning_content'') (obj_get delta ''reasoning'')) [] \<noteq> []
     \<or> (case obj_get delta ''reasoning_details'' of Some (JArr vs) \<Rightarrow> list_ex reasoning_detail vs | _ \<Rightarrow> False)"

definition emit_text :: "js_text \<Rightarrow> protocol_parser \<Rightarrow> protocol_parser" where
  "emit_text s p = (if s = [] then p else emit_event (Text_Delta s None None) p)"

definition emit_reasoning :: "bool \<Rightarrow> protocol_parser \<Rightarrow> protocol_parser" where
  "emit_reasoning seen p = (if seen \<and> emitReasoningProgress p then emit_event Reasoning_Progress p else p)"

definition chat_choice :: "protocol_parser \<Rightarrow> js_record \<Rightarrow> protocol_parser" where
  "chat_choice p choice =
     (if pp_stopped p then p
      else let delta = object_or_empty (obj_get choice ''delta'');
               p = emit_text (stringValue (obj_get delta ''content'') []) p;
               p = emit_reasoning (chat_reasoning delta) p;
               p = foldl chat_tool_call p (arrayOfObjects (obj_get delta ''tool_calls''));
               p = (case objectValue (obj_get delta ''function_call'') of
                      None \<Rightarrow> p
                    | Some call \<Rightarrow> emit_tool_call None None (stream_optionalString (obj_get call ''name''))
                        (stream_optionalString (obj_get call ''arguments'')) p)
           in (case stream_optionalString (obj_get choice ''finish_reason'') of
                 None \<Rightarrow> p
               | Some r \<Rightarrow> emitStop (chatStopReason r) (Some r) p))"

definition first_choice :: "js_record \<Rightarrow> bool" where
  "first_choice choice \<longleftrightarrow> (case numberValue (obj_get choice ''index'') of None \<Rightarrow> True | Some x \<Rightarrow> x = Num 0)"

definition handleOpenAiChat :: "js_text option \<Rightarrow> js_record \<Rightarrow> protocol_parser \<Rightarrow> protocol_parser" where
  "handleOpenAiChat eventName payload p =
     (if json_truthy (obj_get payload ''error'')
      then (case obj_get payload ''error'' of
              Some (JStr e) \<Rightarrow> emitError (Some (stringValue (obj_get payload ''message'') e))
                (stream_optionalString (obj_get payload ''code'')) (stream_optionalString (obj_get payload ''type'')) p
            | v \<Rightarrow> emitErrorObject v p)
      else if eventName = Some (utf16 ''error'') then emitErrorObject (Some (JObj payload)) p
      else let choices = arrayOfObjects (obj_get payload ''choices''); selected = filter first_choice choices;
               p = (if choices = [] \<or> selected \<noteq> []
                    then emitStart (obj_get payload ''id'') (obj_get payload ''model'') (obj_get payload ''created'') p
                    else p)
           in emitUsage (objectValue (obj_get payload ''usage'')) ''prompt_tokens'' ''completion_tokens''
                (Some ''total_tokens'') (foldl chat_choice p selected))"

section \<open>Anthropic\<close>

definition anthropicToolIndex :: "double \<Rightarrow> protocol_parser \<Rightarrow> protocol_parser \<times> nat" where
  "anthropicToolIndex blockIndex p =
     (case map_of (anthropicToolIndices p) blockIndex of
        Some i \<Rightarrow> (p, i)
      | None \<Rightarrow> (p\<lparr>nextToolIndex := Suc (nextToolIndex p),
                   anthropicToolIndices := AList.update blockIndex (nextToolIndex p) (anthropicToolIndices p)\<rparr>,
                 nextToolIndex p))"

definition block_index :: "js_record \<Rightarrow> double" where
  "block_index payload = (case numberValue (obj_get payload ''index'') of None \<Rightarrow> Num 0 | Some x \<Rightarrow> x)"

definition emit_block_call ::
  "js_record \<Rightarrow> js_text option \<Rightarrow> js_text option \<Rightarrow> js_text option \<Rightarrow> protocol_parser \<Rightarrow> protocol_parser" where
  "emit_block_call payload ident name arguments p =
     (case anthropicToolIndex (block_index payload) p of (p, i) \<Rightarrow>
        emit_event (Tool_Call_Delta i ident name arguments None None) (p\<lparr>sawToolCall := True\<rparr>))"

definition anthropic_block :: "js_record \<Rightarrow> protocol_parser \<Rightarrow> protocol_parser" where
  "anthropic_block payload p =
     (let block = object_or_empty (obj_get payload ''content_block''); kind = stringValue (obj_get block ''type'') []
      in if kind = utf16 ''text'' then emit_text (stringValue (obj_get block ''text'') []) p
         else if kind = utf16 ''tool_use''
         then emit_block_call payload (stream_optionalString (obj_get block ''id'')) (stream_optionalString (obj_get block ''name''))
           (case objectValue (obj_get block ''input'') of
              None \<Rightarrow> None | Some input \<Rightarrow> if input = [] then None else Some (json_stringify (JObj input))) p
         else p)"

definition anthropic_delta :: "js_record \<Rightarrow> protocol_parser \<Rightarrow> protocol_parser" where
  "anthropic_delta payload p =
     (let delta = object_or_empty (obj_get payload ''delta''); kind = stringValue (obj_get delta ''type'') []
      in if kind = utf16 ''text_delta'' then emit_text (stringValue (obj_get delta ''text'') []) p
         else if kind = utf16 ''thinking_delta''
         then emit_reasoning (stringValue (obj_get delta ''thinking'') [] \<noteq> []) p
         else if kind = utf16 ''input_json_delta''
         then emit_block_call payload None None (stream_optionalString (obj_get delta ''partial_json'')) p
         else p)"

definition anthropic_message_delta :: "js_record \<Rightarrow> protocol_parser \<Rightarrow> protocol_parser" where
  "anthropic_message_delta payload p =
     (let p = emitAnthropicUsage (objectValue (obj_get payload ''usage'')) p
      in case stream_optionalString (obj_get (object_or_empty (obj_get payload ''delta'')) ''stop_reason'') of
           None \<Rightarrow> p
         | Some r \<Rightarrow>
             if r = utf16 ''pause_turn''
             then emitStop Stop_Error (Some (utf16 ''unsupported_pause_turn''))
               (emitError (Some (utf16 ''Anthropic pause_turn requires native continuation and cannot be converted safely''))
                 (Some (utf16 ''unsupported_pause_turn'')) (Some (utf16 ''invalid_stream_event'')) p)
             else emitStop (anthropicStopReason r) (Some r) p)"

definition handleAnthropic :: "js_text option \<Rightarrow> js_record \<Rightarrow> protocol_parser \<Rightarrow> protocol_parser" where
  "handleAnthropic eventName payload p =
     (let type = stringValue (obj_get payload ''type'') (case eventName of None \<Rightarrow> [] | Some e \<Rightarrow> e);
          incomplete = Some (utf16 ''incomplete_stream'')
      in if type = utf16 ''error''
         then emitErrorObject (nullish_or (obj_get payload ''error'') (Some (JObj payload))) p
         else if type = utf16 ''message_start''
         then let message = object_or_empty (obj_get payload ''message'')
              in emitAnthropicUsage (objectValue (obj_get message ''usage''))
                   (emitStart (obj_get message ''id'') (obj_get message ''model'') None p)
         else if type = utf16 ''content_block_start'' then anthropic_block payload p
         else if type = utf16 ''content_block_delta'' then anthropic_delta payload p
         else if type = utf16 ''message_delta'' then anthropic_message_delta payload p
         else if type = utf16 ''message_stop''
         then emitDone (if pp_stopped p then p
           else emitStop Stop_Error incomplete
             (emitError (Some (utf16 ''Anthropic message_stop arrived before a stop_reason'')) incomplete incomplete p))
         else p)"

section \<open>Gemini\<close>

definition geminiToolIndex :: "js_text \<Rightarrow> protocol_parser \<Rightarrow> protocol_parser \<times> nat" where
  "geminiToolIndex key p =
     (case map_of (geminiToolIndices p) key of
        Some i \<Rightarrow> (p, i)
      | None \<Rightarrow> (p\<lparr>nextToolIndex := Suc (nextToolIndex p),
                   geminiToolIndices := AList.update key (nextToolIndex p) (geminiToolIndices p)\<rparr>,
                 nextToolIndex p))"

definition gemini_call :: "nat \<Rightarrow> nat \<Rightarrow> js_record \<Rightarrow> protocol_parser \<Rightarrow> protocol_parser" where
  "gemini_call candidateIndex partIndex call p =
     (let ident = stream_optionalString (obj_get call ''id'');
          key = (case ident of Some i \<Rightarrow> i | None \<Rightarrow> text_of_nat candidateIndex @ [58] @ text_of_nat partIndex)
      in case geminiToolIndex key p of (p, i) \<Rightarrow>
           emit_event (Tool_Call_Delta i ident (stream_optionalString (obj_get call ''name''))
             (map_option json_stringify (obj_get call ''args'')) None None) (p\<lparr>sawToolCall := True\<rparr>))"

definition gemini_part :: "nat \<Rightarrow> nat \<Rightarrow> js_record \<Rightarrow> protocol_parser \<Rightarrow> protocol_parser" where
  "gemini_part candidateIndex partIndex part p =
     (let s = stringValue (obj_get part ''text'') [];
          p = (if s \<noteq> [] \<and> suppressGeminiThoughtText p \<and> obj_get part ''thought'' = Some (JBool True)
               then emit_reasoning True p else emit_text s p)
      in case (case objectValue (obj_get part ''functionCall'') of
               Some call \<Rightarrow> Some call | None \<Rightarrow> objectValue (obj_get part ''function_call'')) of
           None \<Rightarrow> p
         | Some call \<Rightarrow> gemini_call candidateIndex partIndex call p)"

fun gemini_parts :: "nat \<Rightarrow> nat \<Rightarrow> js_record list \<Rightarrow> protocol_parser \<Rightarrow> protocol_parser" where
  "gemini_parts candidateIndex partIndex [] p = p"
| "gemini_parts candidateIndex partIndex (part # parts) p =
     gemini_parts candidateIndex (Suc partIndex) parts (gemini_part candidateIndex partIndex part p)"

text \<open>The candidates, and the last finish reason among them.\<close>

fun gemini_candidates ::
  "nat \<Rightarrow> js_text option \<Rightarrow> js_record list \<Rightarrow> protocol_parser \<Rightarrow> protocol_parser \<times> js_text option" where
  "gemini_candidates candidateIndex finishReason [] p = (p, finishReason)"
| "gemini_candidates candidateIndex finishReason (candidate # candidates) p =
     gemini_candidates (Suc candidateIndex)
       (or_count (stream_optionalString (nullish_or (obj_get candidate ''finishReason'') (obj_get candidate ''finish_reason'')))
         finishReason)
       candidates
       (gemini_parts candidateIndex 0
         (arrayOfObjects (obj_get (object_or_empty (obj_get candidate ''content'')) ''parts'')) p)"

definition handleGemini :: "js_record \<Rightarrow> protocol_parser \<Rightarrow> protocol_parser" where
  "handleGemini payload p =
     (if json_truthy (obj_get payload ''error'') then emitErrorObject (obj_get payload ''error'') p
      else let p = emitStart (nullish_or (obj_get payload ''responseId'') (obj_get payload ''response_id''))
                 (nullish_or (obj_get payload ''modelVersion'') (obj_get payload ''model_version'')) None p
           in case gemini_candidates 0 None (arrayOfObjects (obj_get payload ''candidates'')) p of (p, finishReason) \<Rightarrow>
              let p = emitUsage (case objectValue (obj_get payload ''usageMetadata'') of
                          Some u \<Rightarrow> Some u | None \<Rightarrow> objectValue (obj_get payload ''usage_metadata''))
                        ''promptTokenCount'' ''candidatesTokenCount'' (Some ''totalTokenCount'') p
              in case finishReason of
                   None \<Rightarrow> p
                 | Some r \<Rightarrow>
                     emitDone (emitStop (if r = utf16 ''STOP'' \<and> sawToolCall p then Stop_Tool_Calls
                       else geminiStopReason r) (Some r) p))"

section \<open>Payloads\<close>

definition anthropic_recognized_events :: "string list" where
  "anthropic_recognized_events =
     [''error'', ''message_start'', ''content_block_start'', ''content_block_delta'', ''content_block_stop'',
      ''message_delta'', ''message_stop'']"

definition recognizedProtocolPayload :: "protocol \<Rightarrow> js_text option \<Rightarrow> js_record \<Rightarrow> bool" where
  "recognizedProtocolPayload protocol eventName payload \<longleftrightarrow>
     (let type = stringValue (obj_get payload ''type'') (case eventName of None \<Rightarrow> [] | Some e \<Rightarrow> e)
      in case protocol of
           Openai_Responses \<Rightarrow> recognizedResponsesPayload type payload
         | Openai_Chat \<Rightarrow> eventName = Some (utf16 ''error'') \<or> json_truthy (obj_get payload ''error'')
             \<or> list_ex first_choice (arrayOfObjects (obj_get payload ''choices''))
             \<or> objectValue (obj_get payload ''usage'') \<noteq> None
         | Anthropic_Messages \<Rightarrow> text_among type anthropic_recognized_events
         | Gemini \<Rightarrow> json_truthy (obj_get payload ''error'')
             \<or> (case obj_get payload ''candidates'' of Some (JArr vs) \<Rightarrow> True | _ \<Rightarrow> False)
             \<or> objectValue (nullish_or (obj_get payload ''usageMetadata'') (obj_get payload ''usage_metadata'')) \<noteq> None
             \<or> objectValue (nullish_or (obj_get payload ''promptFeedback'') (obj_get payload ''prompt_feedback'')) \<noteq> None
         | Kiro_Claude \<Rightarrow> False)"

text \<open>The Kiro protocol has no parser.\<close>

definition handlePayload :: "js_text option \<Rightarrow> json \<Rightarrow> protocol_parser \<Rightarrow> protocol_parser" where
  "handlePayload eventName v p =
     (case objectValue (Some v) of
        None \<Rightarrow> emitError (Some (utf16 ''Stream payload must be a JSON object'')) (Some (utf16 ''invalid_payload'')) None p
      | Some payload \<Rightarrow>
          let p = (if recognizedProtocolPayload (pp_protocol p) eventName payload
                   then p\<lparr>recognizedEventCount := Suc (recognizedEventCount p)\<rparr> else p)
          in (case pp_protocol p of
                Openai_Chat \<Rightarrow> handleOpenAiChat eventName payload p
              | Openai_Responses \<Rightarrow> handleOpenAiResponses eventName payload p
              | Anthropic_Messages \<Rightarrow> handleAnthropic eventName payload p
              | Gemini \<Rightarrow> handleGemini payload p
              | Kiro_Claude \<Rightarrow> p))"

definition handleSse :: "js_text option \<Rightarrow> js_text \<Rightarrow> protocol_parser \<Rightarrow> protocol_parser" where
  "handleSse eventName data p =
     (if pp_protocol p = Openai_Responses \<and> pp_done p then p
      else if text_trim data = utf16 ''[DONE]''
      then (if pp_protocol p = Openai_Responses then p\<lparr>responsesLastEventType := Some (utf16 ''[DONE]'')\<rparr>
            else emitDone (if pp_protocol p = Openai_Chat \<and> \<not> pp_stopped p \<and> \<not> pp_errored p
              then emitIncompleteStream (Some (utf16 ''Stream ended before a semantic finish reason'')) p else p))
      else case json_parse data of
          Some v \<Rightarrow> handlePayload eventName v p
        | None \<Rightarrow> if pp_finishing p then emitIncompleteStream None p
                  else emitError None None (Some (utf16 ''invalid_json'')) p)"

section \<open>The parser\<close>

datatype framing = Sse_Framing | Json_Framing

text \<open>The fields of \<open>ProtocolParser\<close>: those of the handlers are \<open>sp_inner\<close>.\<close>

record stream_parser =
  maxBufferedCharacters :: nat
  sp_decoder :: text_decoder
  sp_sse :: sse_framer
  sp_json :: json_framer
  sp_framing :: "framing option"
  framingBuffer :: js_text
  sp_inner :: protocol_parser

definition DEFAULT_MAX_BUFFERED_STREAM_CHARACTERS :: nat where
  "DEFAULT_MAX_BUFFERED_STREAM_CHARACTERS = 16 * 1024 * 1024"

definition normalizeBufferedCharacterLimit :: "double option \<Rightarrow> nat" where
  "normalizeBufferedCharacterLimit v =
     (case v of
        Some (Num q) \<Rightarrow> if isSafeInteger (Num q) \<and> 0 < q then nat \<lfloor>q\<rfloor> else DEFAULT_MAX_BUFFERED_STREAM_CHARACTERS
      | _ \<Rightarrow> DEFAULT_MAX_BUFFERED_STREAM_CHARACTERS)"

definition new_stream_parser :: "protocol \<Rightarrow> parsing_options \<Rightarrow> stream_parser" where
  "new_stream_parser p opts =
     \<lparr>maxBufferedCharacters = normalizeBufferedCharacterLimit (option_maxBufferedCharacters opts),
      sp_decoder = new_text_decoder, sp_sse = new_sse_framer, sp_json = new_json_framer,
      sp_framing = (if p \<noteq> Gemini then Some Sse_Framing else None), framingBuffer = [],
      sp_inner = new_protocol_parser p opts\<rparr>"

text \<open>The dedicated Kiro bridge is no canonical stream: creating such a parser throws.\<close>

definition createCanonicalStreamParser :: "protocol \<Rightarrow> parsing_options \<Rightarrow> stream_parser option" where
  "createCanonicalStreamParser p opts = (if p = Kiro_Claude then None else Some (new_stream_parser p opts))"

section \<open>Framing\<close>

definition too_large_message :: "string \<Rightarrow> nat \<Rightarrow> js_text" where
  "too_large_message what m = utf16 what @ utf16 '' exceeded '' @ text_of_nat m @ utf16 '' buffered characters''"

fun handle_sse_call :: "nat \<Rightarrow> protocol_parser \<Rightarrow> sse_call \<Rightarrow> protocol_parser" where
  "handle_sse_call m p (Sse_Event eventName data) = handleSse eventName data p"
| "handle_sse_call m p Sse_Too_Large = frameTooLarge (too_large_message ''SSE frame'' m) p"

fun handle_json_call :: "nat \<Rightarrow> protocol_parser \<Rightarrow> json_call \<Rightarrow> protocol_parser" where
  "handle_json_call m p (Json_Value v) = handlePayload None v p"
| "handle_json_call m p Json_Too_Large = frameTooLarge (too_large_message ''JSON value'' m) p"
| "handle_json_call m p Json_Incomplete =
     emitIncompleteStream (Some (utf16 ''Incomplete JSON value at end of stream'')) p"
| "handle_json_call m p (Json_Misplaced message) = emitError (Some (utf16 message)) None (Some (utf16 ''invalid_json'')) p"
| "handle_json_call m p Json_Syntax = emitError None None (Some (utf16 ''invalid_json'')) p"

text \<open>A step of a framer and the handling of its calls.\<close>

definition with_sse :: "(nat \<Rightarrow> sse_framer \<Rightarrow> sse_framer) \<Rightarrow> stream_parser \<Rightarrow> stream_parser" where
  "with_sse step p =
     (let m = maxBufferedCharacters p; f = step m (sp_sse p)
      in p\<lparr>sp_sse := f\<lparr>sse_calls := []\<rparr>, sp_inner := foldl (handle_sse_call m) (sp_inner p) (sse_calls f)\<rparr>)"

definition with_json :: "(nat \<Rightarrow> json_framer \<Rightarrow> json_framer) \<Rightarrow> stream_parser \<Rightarrow> stream_parser" where
  "with_json step p =
     (let m = maxBufferedCharacters p; f = step m (sp_json p)
      in p\<lparr>sp_json := f\<lparr>json_calls := []\<rparr>, sp_inner := foldl (handle_json_call m) (sp_inner p) (json_calls f)\<rparr>)"

definition pushFramed :: "js_text \<Rightarrow> stream_parser \<Rightarrow> stream_parser" where
  "pushFramed s p =
     (if sp_framing p = Some Json_Framing then with_json (\<lambda>m f. json_push m f s) p
      else with_sse (\<lambda>m f. sse_push m f s) p)"

definition selectGeminiFraming :: "stream_parser \<Rightarrow> stream_parser" where
  "selectGeminiFraming p =
     (case trimStart (framingBuffer p) of
        [] \<Rightarrow> p
      | u # s \<Rightarrow> pushFramed (framingBuffer p)
          (p\<lparr>sp_framing := Some (if u = 123 \<or> u = 91 then Json_Framing else Sse_Framing), framingBuffer := []\<rparr>))"

definition parser_consumeText :: "js_text \<Rightarrow> stream_parser \<Rightarrow> stream_parser" where
  "parser_consumeText s p =
     (if s = [] then p
      else if sp_framing p = None then selectGeminiFraming (p\<lparr>framingBuffer := framingBuffer p @ s\<rparr>)
      else pushFramed s p)"

section \<open>\<^verbatim>\<open>push\<close> and \<^verbatim>\<open>finish\<close>\<close>

definition parser_drainEvents :: "stream_parser \<Rightarrow> stream_parser \<times> canonical_event list" where
  "parser_drainEvents p = (p\<lparr>sp_inner := (sp_inner p)\<lparr>pp_events := []\<rparr>\<rparr>, pp_events (sp_inner p))"

definition parser_push :: "byte list \<Rightarrow> stream_parser \<Rightarrow> stream_parser \<times> canonical_event list" where
  "parser_push chunk p =
     (case decode_chunk (sp_decoder p) chunk of (d, s) \<Rightarrow>
        parser_drainEvents (parser_consumeText s (p\<lparr>sp_decoder := d\<rparr>)))"

definition with_finishing :: "bool \<Rightarrow> stream_parser \<Rightarrow> stream_parser" where
  "with_finishing b p = p\<lparr>sp_inner := (sp_inner p)\<lparr>pp_finishing := b\<rparr>\<rparr>"

definition finish_framing :: "stream_parser \<Rightarrow> stream_parser" where
  "finish_framing p =
     (let p = (if sp_framing p = None \<and> text_trim (framingBuffer p) \<noteq> [] then selectGeminiFraming p else p);
          p = with_finishing True p
      in with_finishing False
        (case sp_framing p of
           None \<Rightarrow> p
         | Some Sse_Framing \<Rightarrow> with_sse sse_finish p
         | Some Json_Framing \<Rightarrow> with_json json_finish p))"

definition finish_parsing :: "protocol_parser \<Rightarrow> protocol_parser" where
  "finish_parsing p =
     (if pp_done p then p
      else emitDone (if pp_stopped p \<or> pp_errored p then p
        else emitIncompleteStream (Some (utf16 ''Stream ended before a stop or done event'')) p))"

definition parser_finish :: "stream_parser \<Rightarrow> stream_parser \<times> canonical_event list" where
  "parser_finish p =
     (let p = finish_framing (parser_consumeText (decode_end (sp_decoder p)) (p\<lparr>sp_decoder := new_text_decoder\<rparr>))
      in parser_drainEvents (p\<lparr>sp_inner := finish_parsing (sp_inner p)\<rparr>))"

text \<open>All the events of a response, chunk by chunk.\<close>

fun parse_chunks :: "stream_parser \<Rightarrow> byte list list \<Rightarrow> stream_parser \<times> canonical_event list" where
  "parse_chunks p [] = parser_finish p"
| "parse_chunks p (c # cs) =
     (case parser_push c p of (p, evs) \<Rightarrow> (case parse_chunks p cs of (p, evs') \<Rightarrow> (p, evs @ evs')))"

end
