(* ===== verification/Protocol_Transform.thy ===== *)
theory Protocol_Transform
  imports Protocol_Parser Stream_Encoder
begin

text \<open>
  \<open>createProtocolStreamTransform\<close> of \<^verbatim>\<open>src/main/gateway/streaming.ts\<close>: the parser of one protocol and the
  encoder of another, joined into a transform of chunks of bytes.
\<close>

text \<open>The frames of a list of events, \<^const>\<open>None\<close> where the encoder throws.\<close>

fun forward :: "stream_encoder \<Rightarrow> canonical_event list \<Rightarrow> (stream_encoder \<times> out_frame list) option" where
  "forward e [] = Some (e, [])"
| "forward e (ev # evs) =
     (case encode e ev of
        None \<Rightarrow> None
      | Some (e, fs) \<Rightarrow> (case forward e evs of None \<Rightarrow> None | Some (e, gs) \<Rightarrow> Some (e, fs @ gs)))"

definition frame_bytes :: "out_frame \<Rightarrow> byte list" where
  "frame_bytes f = utf8_encode (frame_text f)"

text \<open>A chunk, and the flush at the end.\<close>

definition transform_chunk ::
  "byte list \<Rightarrow> stream_parser \<times> stream_encoder \<Rightarrow> ((stream_parser \<times> stream_encoder) \<times> byte list list) option" where
  "transform_chunk chunk = (\<lambda>(p, e).
     case parser_push chunk p of (p, evs) \<Rightarrow>
       map_option (\<lambda>(e, fs). ((p, e), map frame_bytes fs)) (forward e evs))"

definition transform_flush ::
  "stream_parser \<times> stream_encoder \<Rightarrow> ((stream_parser \<times> stream_encoder) \<times> byte list list) option" where
  "transform_flush = (\<lambda>(p, e).
     case parser_finish p of (p, evs) \<Rightarrow>
       (case forward e evs of
          None \<Rightarrow> None
        | Some (e, fs) \<Rightarrow>
            map_option (\<lambda>(e, gs). ((p, e), map frame_bytes (fs @ gs))) (finish_encoder e)))"

fun transform_chunks ::
  "stream_parser \<times> stream_encoder \<Rightarrow> byte list list \<Rightarrow> ((stream_parser \<times> stream_encoder) \<times> byte list list) option"
  where
  "transform_chunks st [] = transform_flush st"
| "transform_chunks st (c # cs) =
     (case transform_chunk c st of
        None \<Rightarrow> None
      | Some (st, bs) \<Rightarrow> map_option (\<lambda>(st, bs'). (st, bs @ bs')) (transform_chunks st cs))"

definition createProtocolStreamTransform ::
  "double \<Rightarrow> protocol \<Rightarrow> protocol \<Rightarrow> encoding_options \<Rightarrow> (stream_parser \<times> stream_encoder) option" where
  "createProtocolStreamTransform now source target opts =
     (case createCanonicalStreamParser source
         \<lparr>option_maxBufferedCharacters = None, option_suppressGeminiThoughtText = False, option_emitReasoningProgress = False\<rparr> of
        None \<Rightarrow> None
      | Some p \<Rightarrow> map_option (\<lambda>e. (p, e)) (createCanonicalStreamEncoder now target opts))"

lemma forward_append:
  "forward e (xs @ ys) =
    (case forward e xs of
       None \<Rightarrow> None
     | Some (e, fs) \<Rightarrow> (case forward e ys of None \<Rightarrow> None | Some (e, gs) \<Rightarrow> Some (e, fs @ gs)))"
  by (induction xs arbitrary: e) (auto split: option.split)

lemma encode_all_forward:
  "encode_all e evs =
    (case forward e evs of
       None \<Rightarrow> None
     | Some (e, fs) \<Rightarrow> map_option (\<lambda>(e, gs). (e, fs @ gs)) (finish_encoder e))"
  by (induction evs arbitrary: e) (auto simp: map_option_case split: option.split)

text \<open>The transform encodes all the events of the response.\<close>

lemma transform_encodes:
  "map_option (\<lambda>(st, bs). (fst st, snd st, bs)) (transform_chunks (p, e) cs) =
    (case parse_chunks p cs of (p, evs) \<Rightarrow> map_option (\<lambda>(e, fs). (p, e, map frame_bytes fs)) (encode_all e evs))"
proof (induction cs arbitrary: p e)
  case Nil
  show ?case
    by (auto simp: transform_flush_def encode_all_forward map_option_case split: prod.split option.split)
next
  case (Cons c cs)
  obtain p1 evs where 1: "parser_push c p = (p1, evs)" by fastforce
  obtain p2 evs' where 2: "parse_chunks p1 cs = (p2, evs')" by fastforce
  show ?case
  proof (cases "forward e evs")
    case None
    then show ?thesis by (simp add: transform_chunk_def 1 2 encode_all_forward forward_append)
  next
    case (Some r)
    then obtain e1 fs where f: "forward e evs = Some (e1, fs)" by (cases r) simp
    have "encode_all e (evs @ evs') = map_option (\<lambda>(e, gs). (e, fs @ gs)) (encode_all e1 evs')"
      by (auto simp: encode_all_forward forward_append f map_option_case split: option.split)
    then show ?thesis
      using Cons.IH [of p1 e1] f
      by (cases "transform_chunks (p1, e1) cs"; cases "encode_all e1 evs'")
        (auto simp: transform_chunk_def 1 2 option.map_comp comp_def case_prod_beta)
  qed
qed

end
