(* ===== verification/Json_Proofs.thy ===== *)
theory Json_Proofs
  imports Json_Framer Sse_Proofs
begin

text \<open>
  The JSON framer reads a text the same whatever chunks it comes in: pushing a text is stepping through its
  characters, and the limit is hit at the same character.
\<close>

section \<open>More text\<close>

definition add_json :: "json_framer \<Rightarrow> js_text \<Rightarrow> json_framer" where
  "add_json f s = f\<lparr>json_buffer := json_buffer f @ s\<rparr>"

lemma add_json_fields [simp]:
  "json_buffer (add_json f s) = json_buffer f @ s" "json_mode_of (add_json f s) = json_mode_of f"
  "arrayState (add_json f s) = arrayState f" "json_failed (add_json f s) = json_failed f"
  "json_calls (add_json f s) = json_calls f" "add_json f [] = f" "add_json (add_json f s) t = add_json f (s @ t)"
  by (simp_all add: add_json_def)

lemma trimStart_append: "trimStart (s @ t) = (if trimStart s = [] then trimStart t else trimStart s @ t)"
  by (auto simp: trimStart_def dropWhile_append)

lemma trimStart_trim [simp]: "trimStart (trimStart s) = trimStart s" "trimStart (trimStart s @ t) = trimStart (s @ t)"
  by (simp_all add: trimStart_append) (simp_all add: trimStart_def)

lemma trimStart_hd: "trimStart s = u # r \<Longrightarrow> trimStart (u # r') = u # r'"
  unfolding trimStart_def by (metis dropWhile.simps(2) hd_dropWhile list.sel(1) list.distinct(1))

lemma close_append: "close_index d b e s = Some n \<Longrightarrow> close_index d b e (s @ t) = Some n"
  by (induction s arbitrary: d b e n) (auto split: if_splits)

lemma delimiter_append: "delimiter_index s = Some n \<Longrightarrow> delimiter_index (s @ t) = Some n"
  by (induction s arbitrary: n) (auto split: if_splits)

lemma close_bound: "close_index d b e s = Some n \<Longrightarrow> n \<le> length s"
  by (induction s arbitrary: d b e n) (auto split: if_splits)

lemma delimiter_bound: "delimiter_index s = Some n \<Longrightarrow> n \<le> length s"
  by (induction s arbitrary: n) (auto split: if_splits)

lemma boundary_append: "findJsonValueBoundary s = Some n \<Longrightarrow> findJsonValueBoundary (s @ t) = Some n"
  by (cases s) (auto simp: findJsonValueBoundary_def close_append delimiter_append split: if_splits
    dest: close_append [of _ _ _ _ _ t] delimiter_append [of _ _ t])

lemma boundary_bound: "findJsonValueBoundary s = Some n \<Longrightarrow> n \<le> length s"
  by (auto simp: findJsonValueBoundary_def dest: close_bound delimiter_bound split: if_splits)

section \<open>A round\<close>

text \<open>What a round looks at: the text without leading spaces, its mode selected.\<close>

definition prepared :: "json_framer \<Rightarrow> json_framer" where
  "prepared f =
     (let f = f\<lparr>json_buffer := trimStart (json_buffer f)\<rparr>
      in if json_mode_of f = Json_Pending \<and> json_buffer f = [] then f else json_select f)"

definition json_act :: "nat \<Rightarrow> bool \<Rightarrow> json_framer \<Rightarrow> json_framer \<times> bool" where
  "json_act m final f =
     (if json_mode_of f = Json_Complete
      then (if json_buffer f \<noteq> []
            then json_fail (Json_Misplaced ''Unexpected JSON value after the completed stream root'') f else f, False)
      else if json_mode_of f = Json_Pending then (f, False)
      else if json_mode_of f = Json_Array then json_element m final f else json_value m final f)"

lemma round_acts: "json_round m final f = json_act m final (prepared f)"
  by (cases "json_mode_of f") (simp_all add: json_round_def json_act_def prepared_def json_select_def Let_def)

lemma prepared_failed [simp]: "json_failed (prepared f) = json_failed f"
  by (simp add: prepared_def json_select_def Let_def)

lemma prepared_length: "length (json_buffer (prepared f)) \<le> length (json_buffer f)"
  using select_buffer [of "f\<lparr>json_buffer := trimStart (json_buffer f)\<rparr>"] trimStart_length [of "json_buffer f"]
  by (simp add: prepared_def Let_def)

lemma prepared_add: "prepared (add_json (prepared f) t) = prepared (add_json f t)"
proof (cases "trimStart (json_buffer f)")
  case Nil
  then show ?thesis
    by (cases "json_mode_of f") (simp_all add: prepared_def json_select_def add_json_def Let_def trimStart_append)
next
  case (Cons u r)
  then show ?thesis using trimStart_hd [OF Cons]
    by (cases "json_mode_of f") (simp_all add: prepared_def json_select_def add_json_def Let_def trimStart_append)
qed

lemma prepared_more: "json_buffer (prepared f) \<noteq> [] \<Longrightarrow> prepared (add_json f t) = add_json (prepared f) t"
  by (cases "trimStart (json_buffer f)"; cases "json_mode_of f")
    (auto simp: prepared_def json_select_def add_json_def Let_def trimStart_append split: if_splits)

lemma begins_more: "json_buffer f \<noteq> [] \<Longrightarrow> begins_with u (add_json f t) = begins_with u f"
  by (simp add: begins_with_def)

lemma skip_more: "json_buffer f \<noteq> [] \<Longrightarrow> json_skip (add_json f t) = add_json (json_skip f) t"
  by (simp add: json_skip_def add_json_def)

lemma value_goes: "json_value m final f = (f', True) \<Longrightarrow> json_value m final' (add_json f t) = (add_json f' t, True)"
  by (auto simp: json_value_def Let_def add_json_def boundary_append boundary_bound split: if_splits option.splits)

lemma act_nonempty: "json_act m final f = (f', True) \<Longrightarrow> json_buffer f \<noteq> []"
  by (auto simp: json_act_def json_element_def json_value_def begins_with_def split: if_splits)

lemma act_goes:
  assumes "json_act m final f = (f', True)"
  shows "json_act m final' (add_json f t) = (add_json f' t, True)"
  using assms act_nonempty [OF assms]
  by (auto simp: json_act_def json_element_def begins_more skip_more value_goes split: if_splits)

lemma round_goes:
  assumes "json_round m final f = (f', True)"
  shows "json_round m final' (add_json f t) = (add_json f' t, True)"
  using assms act_nonempty act_goes unfolding round_acts by (metis prepared_more)

text \<open>A round that waits has only prepared the framer; one that fails has used none of the text after it.\<close>

lemma fail_failed [simp]: "json_failed (json_fail c f)"
  by (simp add: json_fail_def)

lemma value_waits:
  "json_value m False f = (f', False) \<Longrightarrow> \<not> json_failed f'
    \<Longrightarrow> f' = f \<and> length (json_buffer f) \<le> m"
  by (auto simp: json_value_def Let_def split: if_splits option.splits)

lemma act_waits:
  "json_act m False f = (f', False) \<Longrightarrow> \<not> json_failed f'
    \<Longrightarrow> f' = f \<and> (json_mode_of f = Json_Pending \<or> length (json_buffer f) \<le> m)"
  by (auto simp: json_act_def json_element_def begins_with_def dest: value_waits split: if_splits)

lemma prepared_pending: "json_mode_of (prepared f) = Json_Pending \<Longrightarrow> json_buffer (prepared f) = []"
  by (auto simp: prepared_def json_select_def Let_def split: if_splits)

lemma round_waits:
  assumes "json_round m False f = (f', False)" "\<not> json_failed f'"
  shows "f' = prepared f" "length (json_buffer f') \<le> m"
  using assms act_waits [of m "prepared f" f'] prepared_pending [of f] unfolding round_acts by auto

lemma round_unfailed: "json_round m final f = (f', True) \<Longrightarrow> json_failed f' = json_failed f"
  unfolding round_acts prepared_failed [of f, symmetric]
  by (auto simp: json_act_def json_element_def json_value_def json_skip_def Let_def split: if_splits option.splits)

text \<open>Failing drops the text, whatever it was.\<close>

lemma fail_drops [simp]: "\<not> json_failed f \<Longrightarrow> json_fail c (f\<lparr>json_buffer := s\<rparr>) = json_fail c f"
  by (simp add: json_fail_def)

lemma fail_more: "\<not> json_failed f \<Longrightarrow> json_fail c (add_json f t) = json_fail c f"
  by (simp add: add_json_def)

lemma value_fails:
  assumes "json_value m False f = (f', False)" "json_failed f'" "\<not> json_failed f" "length (json_buffer f) \<le> m"
  shows "json_value m False (add_json f t) = (f', False)"
  using assms boundary_append [of "json_buffer f" _ t] boundary_bound [of "json_buffer f"]
  by (auto simp: json_value_def Let_def fail_more split: if_splits option.splits)

lemma act_fails:
  assumes "json_act m False f = (f', False)" "json_failed f'" "\<not> json_failed f" "length (json_buffer f) \<le> m"
  shows "json_act m False (add_json f t) = (f', False) \<and> json_buffer f \<noteq> []"
proof -
  have "json_buffer f \<noteq> []" using assms
    by (auto simp: json_act_def json_element_def json_value_def begins_with_def split: if_splits)
  then show ?thesis using assms
    by (auto simp: json_act_def json_element_def begins_more fail_more value_fails split: if_splits)
qed

lemma round_fails:
  assumes "json_round m False f = (f', False)" "json_failed f'" "\<not> json_failed f" "length (json_buffer f) \<le> m"
  shows "json_round m False (add_json f t) = (f', False)"
  using assms act_fails [of m "prepared f" f' t] prepared_length [of f] prepared_more
  unfolding round_acts by fastforce

section \<open>Draining\<close>

lemma json_drain_stays [simp]: "json_failed f \<Longrightarrow> json_drain m final f = f"
  by (simp add: json_drain.simps)

lemma json_drain_goes:
  "\<not> json_failed f \<Longrightarrow> json_round m final f = (f', True) \<Longrightarrow> json_drain m final f = json_drain m final f'"
  by (simp add: json_drain.simps)

lemma json_drain_stops:
  "\<not> json_failed f \<Longrightarrow> json_round m final f = (f', False) \<Longrightarrow> json_drain m final f = f'"
  by (simp add: json_drain.simps)

lemma json_drain_induct [case_names failed goes stops]:
  assumes "\<And>f. json_failed f \<Longrightarrow> P f"
    and "\<And>f f'. \<not> json_failed f \<Longrightarrow> json_round m final f = (f', True) \<Longrightarrow> P f' \<Longrightarrow> P f"
    and "\<And>f f'. \<not> json_failed f \<Longrightarrow> json_round m final f = (f', False) \<Longrightarrow> P f"
  shows "P f"
proof (induction f rule: measure_induct_rule [of "\<lambda>f. length (json_buffer f)"])
  case (less f)
  then show ?case
    using assms round_shorter by (metis (full_types) surj_pair)
qed

lemma json_drain_more:
  "\<not> json_failed (json_drain m False f) \<Longrightarrow>
    json_drain m final (add_json f t) = json_drain m final (add_json (json_drain m False f) t)"
proof (induction f rule: json_drain_induct [where m = m and final = False])
  case (goes f f')
  then show ?case by (simp add: json_drain_goes [OF _ round_goes] json_drain_goes)
next
  case (stops f f')
  then have f': "f' = prepared f"
    using round_waits by (simp add: json_drain_stops)
  have "json_round m final (add_json f t) = json_round m final (add_json f' t)"
    by (simp add: round_acts f' prepared_add)
  then have "json_drain m final (add_json f t) = json_drain m final (add_json f' t)"
    by (simp add: json_drain.simps [of m final "add_json f t"]
        json_drain.simps [of m final "add_json (prepared f) t"]
        f' stops(1))
  then show ?case using stops by (simp add: json_drain_stops)
qed simp

lemma json_drain_fails:
  "json_failed (json_drain m False f) \<Longrightarrow> \<not> json_failed f \<Longrightarrow> length (json_buffer f) \<le> m \<Longrightarrow>
    json_drain m False (add_json f t) = json_drain m False f"
proof (induction f rule: json_drain_induct [where m = m and final = False])
  case (goes f f')
  then show ?case using round_shorter [OF goes(2)] round_unfailed [OF goes(2)]
    by (simp add: json_drain_goes [OF _ round_goes] json_drain_goes)
next
  case (stops f f')
  then show ?case by (simp add: json_drain_stops json_drain_stops [OF _ round_fails])
qed simp

text \<open>What a framer may keep.\<close>

definition json_ok :: "nat \<Rightarrow> json_framer \<Rightarrow> bool" where
  "json_ok m f \<longleftrightarrow> length (json_buffer f) \<le> m"

lemma json_drain_shorter: "length (json_buffer (json_drain m final f)) \<le> length (json_buffer f)"
proof (induction f rule: json_drain_induct [where m = m and final = final])
  case (goes f f')
  then show ?case using round_shorter [OF goes(2)] by (simp add: json_drain_goes)
next
  case (stops f f')
  have "length (json_buffer f') \<le> length (json_buffer (prepared f))"
    using stops(2) unfolding round_acts
    by (auto simp: json_act_def json_element_def json_value_def Let_def json_fail_def split: if_splits option.splits)
  then show ?case using prepared_length [of f] stops by (simp add: json_drain_stops)
qed simp

lemma round_failed_empty: "json_round m False f = (f', False) \<Longrightarrow> \<not> json_failed f \<Longrightarrow> json_failed f' \<Longrightarrow> json_buffer f' = []"
  unfolding round_acts prepared_failed [of f, symmetric]
  by (auto simp: json_act_def json_element_def json_value_def json_fail_def Let_def split: if_splits option.splits)

lemma json_drain_ok: "\<not> json_failed f \<Longrightarrow> json_ok m (json_drain m False f)"
proof (induction f rule: json_drain_induct [where m = m and final = False])
  case (goes f f')
  then show ?case by (simp add: json_drain_goes round_unfailed)
next
  case (stops f f')
  then show ?case using round_waits(2) [OF stops(2)] round_failed_empty [OF stops(2)]
    by (cases "json_failed f'") (simp_all add: json_drain_stops json_ok_def)
qed simp

section \<open>Steps\<close>

definition json_framer_step :: "nat \<Rightarrow> json_framer \<Rightarrow> nat \<Rightarrow> json_framer" where
  "json_framer_step m f u = (if json_failed f then f else json_drain m False (add_json f [u]))"

lemma json_step_failed: "json_failed f \<Longrightarrow> foldl (json_framer_step m) f s = f"
  by (induction s) (simp_all add: json_framer_step_def)

lemma json_drain_chunk:
  "json_ok m f \<Longrightarrow> \<not> json_failed f \<Longrightarrow> s \<noteq> [] \<Longrightarrow> length s \<le> Suc (m - length (json_buffer f))
    \<Longrightarrow> json_drain m False (add_json f s) = foldl (json_framer_step m) f s"
proof (induction s arbitrary: f)
  case (Cons u s)
  let ?d = "json_drain m False (add_json f [u])"
  have d: "json_ok m ?d" "length (json_buffer ?d) \<le> Suc (length (json_buffer f))"
    using json_drain_ok [of "add_json f [u]" m] json_drain_shorter [of m False "add_json f [u]"] Cons.prems by simp_all
  show ?case
  proof (cases "s = []")
    case True
    then show ?thesis using Cons.prems by (simp add: json_framer_step_def)
  next
    case False
    then have room: "length (json_buffer (add_json f [u])) \<le> m"
      using Cons.prems by (cases s) (auto simp: json_ok_def)
    have step: "json_framer_step m f u = ?d" using Cons.prems by (simp add: json_framer_step_def)
    have whole: "add_json f (u # s) = add_json (add_json f [u]) s" by simp
    show ?thesis
    proof (cases "json_failed ?d")
      case True
      then show ?thesis using Cons.prems json_drain_fails [OF True _ room, of s]
        by (simp add: step json_step_failed)
    next
      case unfailed: False
      have "json_drain m False (add_json ?d s) = foldl (json_framer_step m) ?d s"
        using Cons.prems d False unfailed by (intro Cons.IH) auto
      then show ?thesis using Cons.prems json_drain_more [OF unfailed, of False s] by (simp add: step)
    qed
  qed
qed simp

lemma json_step_ok: "json_ok m f \<Longrightarrow> json_ok m (json_framer_step m f u)"
  by (simp add: json_framer_step_def json_drain_ok)

lemma json_steps_ok: "json_ok m f \<Longrightarrow> json_ok m (foldl (json_framer_step m) f s)"
  by (induction s arbitrary: f) (simp_all add: json_step_ok)

lemma json_push_steps: "json_ok m f \<Longrightarrow> json_push m f s = foldl (json_framer_step m) f s"
proof (induction m f s rule: json_push.induct)
  case (1 m f s)
  show ?case
  proof (cases "s = [] \<or> json_failed f")
    case True
    then show ?thesis by (auto simp: json_push.simps json_step_failed)
  next
    case False
    let ?n = "Suc (m - length (json_buffer f))"
    let ?f = "json_drain m False (add_json f (take ?n s))"
    have "?f = foldl (json_framer_step m) f (take ?n s)"
      using 1(2) False by (intro json_drain_chunk) auto
    moreover have "json_push m ?f (drop ?n s) = foldl (json_framer_step m) ?f (drop ?n s)"
      using 1(1) [OF False refl] json_drain_ok [of "add_json f (take ?n s)" m] False by (simp add: add_json_def)
    ultimately have "json_push m ?f (drop ?n s) = foldl (json_framer_step m) f (take ?n s @ drop ?n s)"
      by (simp only: foldl_append)
    then show ?thesis using False by (subst json_push.simps) (simp add: Let_def add_json_def)
  qed
qed

section \<open>Earlier calls\<close>

definition json_after :: "json_call list \<Rightarrow> json_framer \<Rightarrow> json_framer" where
  "json_after cs f = f\<lparr>json_calls := cs @ json_calls f\<rparr>"

lemma json_after_fields [simp]:
  "json_buffer (json_after cs f) = json_buffer f" "json_mode_of (json_after cs f) = json_mode_of f"
  "arrayState (json_after cs f) = arrayState f" "json_failed (json_after cs f) = json_failed f"
  "json_calls (json_after cs f) = cs @ json_calls f"
  "prepared (json_after cs f) = json_after cs (prepared f)" "add_json (json_after cs f) s = json_after cs (add_json f s)"
  "json_fail c (json_after cs f) = json_after cs (json_fail c f)"
  by (simp_all add: json_after_def prepared_def json_select_def add_json_def json_fail_def Let_def)

lemma json_after_value: "json_value m final (json_after cs f) = map_prod (json_after cs) id (json_value m final f)"
  by (auto simp: json_value_def Let_def json_after_def json_fail_def split: option.split)

lemma json_after_act: "json_act m final (json_after cs f) = map_prod (json_after cs) id (json_act m final f)"
  by (simp add: json_act_def json_element_def json_after_value begins_with_def)
    (simp add: json_skip_def json_after_def)

lemma json_after_drain: "json_drain m final (json_after cs f) = json_after cs (json_drain m final f)"
proof (induction f rule: json_drain_induct [where m = m and final = final])
  case (goes f f')
  then have "json_round m final (json_after cs f) = (json_after cs f', True)"
    by (simp add: round_acts json_after_act)
  then show ?case using goes by (simp add: json_drain_goes)
next
  case (stops f f')
  then have "json_round m final (json_after cs f) = (json_after cs f', False)"
    by (simp add: round_acts json_after_act)
  then show ?case using stops by (simp add: json_drain_stops)
qed simp

lemma json_after_steps: "foldl (json_framer_step m) (json_after cs f) s = json_after cs (foldl (json_framer_step m) f s)"
  by (induction s arbitrary: f) (simp_all add: json_framer_step_def json_after_drain)

definition json_taken :: "json_framer \<Rightarrow> json_framer" where
  "json_taken f = f\<lparr>json_calls := []\<rparr>"

lemma json_taken_after [simp]: "json_taken (json_after cs f) = json_taken f" "json_calls (json_taken f) = []"
  by (simp_all add: json_taken_def json_after_def)

lemma json_calls_first: "f = json_after (json_calls f) (json_taken f)"
  by (simp add: json_taken_def json_after_def)

lemma json_push_first:
  assumes "json_ok m f"
  shows "json_push m f s = json_after (json_calls f) (json_push m (json_taken f) s)"
proof -
  have "json_ok m (json_taken f)" using assms by (simp add: json_ok_def json_taken_def)
  then show ?thesis using assms json_after_steps [of m "json_calls f" "json_taken f" s]
    by (simp add: json_push_steps json_calls_first [symmetric])
qed

interpretation json_framing: framer "json_push m" "json_ok m" json_calls json_taken for m
proof
  fix f s t
  assume f: "json_ok m f"
  show "json_push m (json_push m f s) t = json_push m f (s @ t)" "json_ok m (json_push m f s)"
    using f by (simp_all add: json_push_steps json_steps_ok)
  show "json_ok m (json_taken f)" using f by (simp add: json_ok_def json_taken_def)
  show "json_calls (json_push m f s) = json_calls f @ json_calls (json_push m (json_taken f) s)"
    "json_taken (json_push m (json_taken f) s) = json_taken (json_push m f s)"
    unfolding json_push_first [OF f, of s] by simp_all
next
  fix f
  show "json_calls (json_taken f) = []" by simp
qed

end
