(* ===== verification/Parser_Cutting.thy ===== *)
theory Parser_Cutting
  imports Protocol_Transform Sse_Proofs Json_Proofs
begin

text \<open>
  The handlers of a payload only append to the events that wait to be drained: draining them earlier changes
  nothing. Hence what \<open>ProtocolParser\<close> emits does not depend on the chunks its bytes arrive in.
  Nor do the bytes that the transform writes.
\<close>

section \<open>Events that wait\<close>

definition after_events :: "canonical_event list \<Rightarrow> protocol_parser \<Rightarrow> protocol_parser" where
  "after_events es p = p\<lparr>pp_events := es @ pp_events p\<rparr>"

lemma after_fields [simp]:
  "pp_protocol (after_events es p) = pp_protocol p"
  "suppressGeminiThoughtText (after_events es p) = suppressGeminiThoughtText p"
  "emitReasoningProgress (after_events es p) = emitReasoningProgress p"
  "pp_started (after_events es p) = pp_started p" "pp_stopped (after_events es p) = pp_stopped p"
  "pp_done (after_events es p) = pp_done p" "pp_errored (after_events es p) = pp_errored p"
  "pp_finishing (after_events es p) = pp_finishing p" "sawToolCall (after_events es p) = sawToolCall p"
  "sawRefusal (after_events es p) = sawRefusal p" "nextToolIndex (after_events es p) = nextToolIndex p"
  "anthropicToolIndices (after_events es p) = anthropicToolIndices p"
  "responsesToolIndices (after_events es p) = responsesToolIndices p"
  "responsesToolMetadataSeen (after_events es p) = responsesToolMetadataSeen p"
  "responsesArguments (after_events es p) = responsesArguments p"
  "responsesToolCompleted (after_events es p) = responsesToolCompleted p"
  "responsesToolIdentityIndices (after_events es p) = responsesToolIdentityIndices p"
  "nextSyntheticResponsesOutputIndex (after_events es p) = nextSyntheticResponsesOutputIndex p"
  "geminiToolIndices (after_events es p) = geminiToolIndices p" "lastUsage (after_events es p) = lastUsage p"
  "pp_usage (after_events es p) = pp_usage p" "responsesEventCount (after_events es p) = responsesEventCount p"
  "responsesProgressEventCount (after_events es p) = responsesProgressEventCount p"
  "responsesLastSequenceNumber (after_events es p) = responsesLastSequenceNumber p"
  "responsesTextDeltaKeys (after_events es p) = responsesTextDeltaKeys p"
  "responsesTextDoneKeys (after_events es p) = responsesTextDoneKeys p"
  "recognizedEventCount (after_events es p) = recognizedEventCount p"
  "responsesLastProgressUsage (after_events es p) = responsesLastProgressUsage p"
  by (simp_all add: after_events_def)

lemma after_updates [simp]:
  "(after_events es p)\<lparr>pp_started := a\<rparr> = after_events es (p\<lparr>pp_started := a\<rparr>)"
  "(after_events es p)\<lparr>pp_stopped := a\<rparr> = after_events es (p\<lparr>pp_stopped := a\<rparr>)"
  "(after_events es p)\<lparr>pp_done := a\<rparr> = after_events es (p\<lparr>pp_done := a\<rparr>)"
  "(after_events es p)\<lparr>pp_errored := a\<rparr> = after_events es (p\<lparr>pp_errored := a\<rparr>)"
  "(after_events es p)\<lparr>pp_finishing := a\<rparr> = after_events es (p\<lparr>pp_finishing := a\<rparr>)"
  "(after_events es p)\<lparr>sawToolCall := a\<rparr> = after_events es (p\<lparr>sawToolCall := a\<rparr>)"
  "(after_events es p)\<lparr>sawRefusal := a\<rparr> = after_events es (p\<lparr>sawRefusal := a\<rparr>)"
  "(after_events es p)\<lparr>nextToolIndex := n\<rparr> = after_events es (p\<lparr>nextToolIndex := n\<rparr>)"
  "(after_events es p)\<lparr>anthropicToolIndices := m\<rparr> = after_events es (p\<lparr>anthropicToolIndices := m\<rparr>)"
  "(after_events es p)\<lparr>responsesToolIndices := m1\<rparr> = after_events es (p\<lparr>responsesToolIndices := m1\<rparr>)"
  "(after_events es p)\<lparr>responsesToolMetadataSeen := s\<rparr> = after_events es (p\<lparr>responsesToolMetadataSeen := s\<rparr>)"
  "(after_events es p)\<lparr>responsesArguments := m2\<rparr> = after_events es (p\<lparr>responsesArguments := m2\<rparr>)"
  "(after_events es p)\<lparr>responsesToolCompleted := s\<rparr> = after_events es (p\<lparr>responsesToolCompleted := s\<rparr>)"
  "(after_events es p)\<lparr>responsesToolIdentityIndices := m3\<rparr> = after_events es (p\<lparr>responsesToolIdentityIndices := m3\<rparr>)"
  "(after_events es p)\<lparr>nextSyntheticResponsesOutputIndex := i\<rparr>
    = after_events es (p\<lparr>nextSyntheticResponsesOutputIndex := i\<rparr>)"
  "(after_events es p)\<lparr>geminiToolIndices := m4\<rparr> = after_events es (p\<lparr>geminiToolIndices := m4\<rparr>)"
  "(after_events es p)\<lparr>lastUsage := u\<rparr> = after_events es (p\<lparr>lastUsage := u\<rparr>)"
  "(after_events es p)\<lparr>pp_usage := v\<rparr> = after_events es (p\<lparr>pp_usage := v\<rparr>)"
  "(after_events es p)\<lparr>responsesEventCount := n\<rparr> = after_events es (p\<lparr>responsesEventCount := n\<rparr>)"
  "(after_events es p)\<lparr>responsesProgressEventCount := n\<rparr> = after_events es (p\<lparr>responsesProgressEventCount := n\<rparr>)"
  "(after_events es p)\<lparr>responsesTerminalEvent := t\<rparr> = after_events es (p\<lparr>responsesTerminalEvent := t\<rparr>)"
  "(after_events es p)\<lparr>responsesResponseId := x\<rparr> = after_events es (p\<lparr>responsesResponseId := x\<rparr>)"
  "(after_events es p)\<lparr>responsesLastEventType := x\<rparr> = after_events es (p\<lparr>responsesLastEventType := x\<rparr>)"
  "(after_events es p)\<lparr>responsesLastSequenceNumber := k\<rparr> = after_events es (p\<lparr>responsesLastSequenceNumber := k\<rparr>)"
  "(after_events es p)\<lparr>responsesTerminalResponse := r\<rparr> = after_events es (p\<lparr>responsesTerminalResponse := r\<rparr>)"
  "(after_events es p)\<lparr>responsesTextDeltaKeys := ks\<rparr> = after_events es (p\<lparr>responsesTextDeltaKeys := ks\<rparr>)"
  "(after_events es p)\<lparr>responsesTextDoneKeys := ks\<rparr> = after_events es (p\<lparr>responsesTextDoneKeys := ks\<rparr>)"
  "(after_events es p)\<lparr>recognizedEventCount := n\<rparr> = after_events es (p\<lparr>recognizedEventCount := n\<rparr>)"
  "(after_events es p)\<lparr>responsesLastProgressUsage := w\<rparr> = after_events es (p\<lparr>responsesLastProgressUsage := w\<rparr>)"
  "(after_events es p)\<lparr>pp_unnumbered := a\<rparr> = after_events es (p\<lparr>pp_unnumbered := a\<rparr>)"
  by (simp_all add: after_events_def)

lemma after_emit [simp]: "emit_event ev (after_events es p) = after_events es (emit_event ev p)"
  by (simp add: after_events_def emit_event_def)

lemma after_cases [simp]:
  "after_events es (if b then p else q) = (if b then after_events es p else after_events es q)"
  "after_events es (case v of None \<Rightarrow> p | Some x \<Rightarrow> f x) = (case v of None \<Rightarrow> after_events es p | Some x \<Rightarrow> after_events es (f x))"
  by (simp_all split: option.split)

named_theorems after "handlers only append to the events that wait"

text \<open>The same through the constructs the handlers are made of; conditions do not depend on what waits.\<close>

lemma after_branch:
  "c' = c \<Longrightarrow> a' = after_events es a \<Longrightarrow> b' = after_events es b \<Longrightarrow>
    (if c' then a' else b') = after_events es (if c then a else b)"
  by simp

lemma after_option:
  "a' = after_events es a \<Longrightarrow> (\<And>x. f' x = after_events es (f x)) \<Longrightarrow>
    (case v of None \<Rightarrow> a' | Some x \<Rightarrow> f' x) = after_events es (case v of None \<Rightarrow> a | Some x \<Rightarrow> f x)"
  by (simp split: option.split)

lemma after_value:
  "v' = v \<Longrightarrow> (\<And>x. f' x = after_events es (f x)) \<Longrightarrow> (let x = v' in f' x) = after_events es (let x = v in f x)"
  by simp

lemma after_next:
  "q' = after_events es q \<Longrightarrow> (\<And>q. f' (after_events es q) = after_events es (f q)) \<Longrightarrow>
    (let q = q' in f' q) = after_events es (let q = q in f q)"
  by simp

lemma after_pair:
  "r' = map_prod (after_events es) id r \<Longrightarrow> (\<And>q b. f' (after_events es q) b = after_events es (f q b)) \<Longrightarrow>
    (case r' of (q, b) \<Rightarrow> f' q b) = after_events es (case r of (q, b) \<Rightarrow> f q b)"
  by (simp add: case_prod_beta)

lemma after_pair_value:
  "r' = map_prod (after_events es) id r \<Longrightarrow> (\<And>q b. f' (after_events es q) b = after_events es (f q b)) \<Longrightarrow>
    (let (q, b) = r' in f' q b) = after_events es (let (q, b) = r in f q b)"
  by (simp add: case_prod_beta)

lemma after_json:
  "a' = after_events es a \<Longrightarrow> (\<And>x. f1' x = after_events es (f1 x)) \<Longrightarrow> (\<And>x. f2' x = after_events es (f2 x)) \<Longrightarrow>
    (\<And>x. f3' x = after_events es (f3 x)) \<Longrightarrow> (\<And>x. f4' x = after_events es (f4 x)) \<Longrightarrow>
    (\<And>x. f5' x = after_events es (f5 x)) \<Longrightarrow>
    (case v of JNull \<Rightarrow> a' | JBool x \<Rightarrow> f1' x | JNum x \<Rightarrow> f2' x | JStr x \<Rightarrow> f3' x | JArr x \<Rightarrow> f4' x | JObj x \<Rightarrow> f5' x)
    = after_events es
      (case v of JNull \<Rightarrow> a | JBool x \<Rightarrow> f1 x | JNum x \<Rightarrow> f2 x | JStr x \<Rightarrow> f3 x | JArr x \<Rightarrow> f4 x | JObj x \<Rightarrow> f5 x)"
  by (cases v) simp_all

lemmas after_steps = after_branch after_option after_pair_value after_next after_value after_pair after_json

lemma after_emitters [after]:
  "emitStart i m c (after_events es p) = after_events es (emitStart i m c p)"
  "emitStop reason raw (after_events es p) = after_events es (emitStop reason raw p)"
  "emitDone (after_events es p) = after_events es (emitDone p)"
  "emitError msg code kind (after_events es p) = after_events es (emitError msg code kind p)"
  by (simp_all add: emitStart_def emitStop_def emitDone_def emitError_def Let_def)

lemma after_errors [after]:
  "emitErrorObject v (after_events es p) = after_events es (emitErrorObject v p)"
  "emitIncompleteStream msg (after_events es p) = after_events es (emitIncompleteStream msg p)"
  "emitResponsesProtocolError t c (after_events es p) = after_events es (emitResponsesProtocolError t c p)"
  "frameTooLarge t (after_events es p) = after_events es (frameTooLarge t p)"
  by (simp_all add: emitErrorObject_def emitIncompleteStream_def emitResponsesProtocolError_def frameTooLarge_def
      Let_def after split: option.split)

lemma after_usage [after]:
  "emitUsage u a b c (after_events es p) = after_events es (emitUsage u a b c p)"
  by (simp add: emitUsage_def split: option.split)

lemma after_anthropic_usage [after]:
  "emitAnthropicUsage v (after_events es p) = after_events es (emitAnthropicUsage v p)"
  unfolding emitAnthropicUsage_def by (intro after_steps; (simp only: after)?)

section \<open>Chat, Anthropic and Gemini\<close>

lemma after_emit_tool [after]:
  "emit_tool_call index i n a (after_events es p) = after_events es (emit_tool_call index i n a p)"
  "chat_tool_call (after_events es p) toolCall = after_events es (chat_tool_call p toolCall)"
  by (simp_all add: emit_tool_call_def chat_tool_call_def Let_def split: option.split)

lemma after_emit_text [after]:
  "emit_text s (after_events es p) = after_events es (emit_text s p)"
  "emit_reasoning b (after_events es p) = after_events es (emit_reasoning b p)"
  by (simp_all add: emit_text_def emit_reasoning_def)

lemma after_foldl:
  "(\<And>p x. h (after_events es p) x = after_events es (h p x)) \<Longrightarrow>
    foldl h (after_events es p) xs = after_events es (foldl h p xs)"
  by (induction xs arbitrary: p) simp_all

lemma after_tool_calls [after]:
  "foldl chat_tool_call (after_events es p) calls = after_events es (foldl chat_tool_call p calls)"
  by (rule after_foldl) (rule after_emit_tool)

lemma after_choice [after]: "chat_choice (after_events es p) choice = after_events es (chat_choice p choice)"
  unfolding chat_choice_def
  by (intro after_steps; simp only: after after_fields)

lemma after_choices [after]:
  "foldl chat_choice (after_events es p) choices = after_events es (foldl chat_choice p choices)"
  by (rule after_foldl) (rule after_choice)

lemma after_chat [after]: "handleOpenAiChat name payload (after_events es p) = after_events es (handleOpenAiChat name payload p)"
  unfolding handleOpenAiChat_def
  by (intro after_steps; simp only: after after_fields)

lemma after_block_call [after]:
  "emit_block_call payload i n a (after_events es p) = after_events es (emit_block_call payload i n a p)"
  by (simp add: emit_block_call_def anthropicToolIndex_def split: option.split)

lemma after_anthropic_parts [after]:
  "anthropic_block payload (after_events es p) = after_events es (anthropic_block payload p)"
  "anthropic_delta payload (after_events es p) = after_events es (anthropic_delta payload p)"
  "anthropic_message_delta payload (after_events es p) = after_events es (anthropic_message_delta payload p)"
  unfolding anthropic_block_def anthropic_delta_def anthropic_message_delta_def
  by (intro after_steps; simp only: after after_fields)+

lemma after_anthropic [after]:
  "handleAnthropic name payload (after_events es p) = after_events es (handleAnthropic name payload p)"
  unfolding handleAnthropic_def by (intro after_steps; simp only: after after_fields flip: after_cases)

lemma after_gemini_call [after]:
  "gemini_call i j call (after_events es p) = after_events es (gemini_call i j call p)"
  by (simp add: gemini_call_def geminiToolIndex_def Let_def split: option.split)

lemma after_gemini_part [after]:
  "gemini_part i j part (after_events es p) = after_events es (gemini_part i j part p)"
  unfolding gemini_part_def by (intro after_steps; simp only: after after_fields)

lemma after_gemini_parts [after]:
  "gemini_parts i j parts (after_events es p) = after_events es (gemini_parts i j parts p)"
  by (induction parts arbitrary: j p) (simp_all add: after)

lemma after_candidates [after]:
  "gemini_candidates i r cs (after_events es p) = map_prod (after_events es) id (gemini_candidates i r cs p)"
  by (induction cs arbitrary: i r p) (simp_all add: after)

lemma after_gemini [after]: "handleGemini payload (after_events es p) = after_events es (handleGemini payload p)"
  unfolding handleGemini_def by (intro after_steps; simp only: after after_fields)

section \<open>Responses\<close>

lemma after_tool_index [after]:
  "responseToolIndex i (after_events es p) = map_prod (after_events es) id (responseToolIndex i p)"
  by (simp add: responseToolIndex_def split: option.split)

lemma after_moves [after]:
  "move_tool_index i j (after_events es p) = after_events es (move_tool_index i j p)"
  "move_tool_state i j (after_events es p) = after_events es (move_tool_state i j p)"
  by (simp_all add: move_tool_index_def move_tool_state_def split: option.split)

lemma after_rebind [after]:
  "rebindResponsesToolOutputIndex i j (after_events es p) = after_events es (rebindResponsesToolOutputIndex i j p)"
  by (simp only: rebindResponsesToolOutputIndex_def Let_def after after_fields after_cases)

lemma after_identities [after]:
  "bind_identities ids i (after_events es p) = after_events es (bind_identities ids i p)"
  "bound_indices ids (after_events es p) = bound_indices ids p"
  by (simp_all add: bind_identities_def bound_indices_def)

lemma after_explicit [after]:
  "explicit_tool_index ids i (after_events es p) = after_events es (explicit_tool_index ids i p)"
proof (cases "remdups (bound_indices ids p)")
  case Nil
  then show ?thesis by (simp only: explicit_tool_index_def after_identities list.case after)
next
  case (Cons k ks)
  then show ?thesis
    by (cases ks; simp only: explicit_tool_index_def after_identities list.case)
      ((intro after_steps)?; simp only: after after_fields)+
qed

lemma after_output_index [after]:
  "responsesToolOutputIndex v ids (after_events es p) = map_prod (after_events es) id (responsesToolOutputIndex v ids p)"
  by (simp add: responsesToolOutputIndex_def Let_def after split: list.split option.split)

lemma after_arguments [after]:
  "appendResponsesToolArguments i d (after_events es p) = map_prod (after_events es) id (appendResponsesToolArguments i d p)"
  "reconcileResponsesToolArguments i d (after_events es p) = map_prod (after_events es) id (reconcileResponsesToolArguments i d p)"
  by (simp_all add: appendResponsesToolArguments_def reconcileResponsesToolArguments_def seen_arguments_def Let_def after
      split: option.split)

lemma after_tool_events [after]:
  "complete_tool_call i n (after_events es p) = after_events es (complete_tool_call i n p)"
  "emit_tool_item item t i n b a (after_events es p) = after_events es (emit_tool_item item t i n b a p)"
  "note_metadata i (after_events es p) = after_events es (note_metadata i p)"
  by (simp_all add: complete_tool_call_def emit_tool_item_def note_metadata_def)

lemma after_snapshot [after]:
  "responses_tool_snapshot b v item ids (after_events es p) = after_events es (responses_tool_snapshot b v item ids p)"
  unfolding responses_tool_snapshot_def by (intro after_steps; simp only: after after_emit after_fields after_updates)

lemma after_texts [after]:
  "responses_text_delta payload k (after_events es p) = after_events es (responses_text_delta payload k p)"
  "note_text_done key (after_events es p) = after_events es (note_text_done key p)"
  "whole_text key i s (after_events es p) = after_events es (whole_text key i s p)"
  by (simp_all add: responses_text_delta_def note_text_done_def whole_text_def Let_def)

lemma after_text_done [after]:
  "responses_text_done payload n k (after_events es p) = after_events es (responses_text_done payload n k p)"
  by (simp add: responses_text_done_def Let_def after split: option.split)

lemma after_argument_events [after]:
  "responses_arguments_delta payload t (after_events es p) = after_events es (responses_arguments_delta payload t p)"
  "responses_arguments_done payload n t (after_events es p) = after_events es (responses_arguments_done payload n t p)"
  unfolding responses_arguments_delta_def responses_arguments_done_def
  by (intro after_steps; simp only: after after_emit after_fields after_updates flip: after_cases)+

lemma after_item_done [after]:
  "emit_message_complete x (after_events es p) = after_events es (emit_message_complete x p)"
  "responses_item_done payload (after_events es p) = after_events es (responses_item_done payload p)"
  unfolding emit_message_complete_def responses_item_done_def
  by (intro after_steps; simp only: after after_emit after_fields after_updates fst_map_prod)+

lemma after_parts [after]:
  "terminal_parts i j parts (after_events es p) = after_events es (terminal_parts i j parts p)"
proof (induction parts arbitrary: j p)
  case (Cons part parts)
  then show ?case by (simp add: Let_def after split: option.split)
qed simp

lemma after_item [after]: "terminal_item i item (after_events es p) = after_events es (terminal_item i item p)"
  by (simp add: terminal_item_def Let_def after)

lemma after_items [after]:
  "terminal_items i items (after_events es p) = map_prod (after_events es) id (terminal_items i items p)"
  by (induction items arbitrary: i p) (simp_all add: Let_def after)

lemma after_terminal [after]:
  "responses_terminal_output t r (after_events es p) = after_events es (responses_terminal_output t r p)"
  unfolding responses_terminal_output_def terminal_reason_def
  by (intro after_steps; simp only: after after_fields)

lemma after_count_parts [after]:
  "count_progress t payload (after_events es p) = after_events es (count_progress t payload p)"
  "check_sequence payload (after_events es p) = map_prod (after_events es) id (check_sequence payload p)"
  by (simp_all add: count_progress_def check_sequence_def responsesPayloadAdvancesProgress_def after split: option.split)

lemma after_count [after]:
  "count_responses_event t payload (after_events es p) = map_prod (after_events es) id (count_responses_event t payload p)"
  by (simp add: count_responses_event_def Let_def case_prod_beta after)

lemma after_check [after]:
  "check_terminal t k r (after_events es p) = map_prod (after_events es) id (check_terminal t k r p)"
  by (cases r) (simp_all add: check_terminal_def Let_def after)

lemma after_responses_event [after]:
  "responses_event t payload r (after_events es p) = after_events es (responses_event t payload r p)"
  by (simp only: responses_event_def Let_def) (intro after_branch; (simp only: after)?)

lemma after_accepted [after]:
  "accepted_event t payload r (after_events es p) = after_events es (accepted_event t payload r p)"
  by (simp only: accepted_event_def) (intro after_branch; simp only: after)

lemma after_response_id [after]:
  "note_response_id payload r (after_events es p) = after_events es (note_response_id payload r p)"
  by (simp add: note_response_id_def split: option.split)

lemma after_terminal_check:
  "(case k of None \<Rightarrow> (after_events es q, True) | Some t \<Rightarrow> check_terminal type t r (after_events es q))
    = map_prod (after_events es) id (case k of None \<Rightarrow> (q, True) | Some t \<Rightarrow> check_terminal type t r q)"
  by (cases k) (simp_all add: after_check)

lemma after_responses [after]:
  "handleOpenAiResponses name payload (after_events es p) = after_events es (handleOpenAiResponses name payload p)"
  unfolding handleOpenAiResponses_def Let_def
  by (intro after_branch after_pair after_terminal_check; (simp only: after)?)

section \<open>Payloads and framing\<close>

lemma after_payload [after]: "handlePayload name v (after_events es p) = after_events es (handlePayload name v p)"
  by (simp add: handlePayload_def Let_def after split: option.split protocol.split)

lemma after_sse [after]: "handleSse name data (after_events es p) = after_events es (handleSse name data p)"
  unfolding handleSse_def by (intro after_steps; simp only: after after_emit after_fields after_updates flip: after_cases)

lemma after_sse_call [after]: "handle_sse_call m (after_events es p) c = after_events es (handle_sse_call m p c)"
  by (cases c) (simp_all add: after)

lemma after_finish [after]: "finish_parsing (after_events es p) = after_events es (finish_parsing p)"
  by (simp add: finish_parsing_def after)

section \<open>Cutting a response\<close>

text \<open>
  What \<open>ProtocolParser\<close> emits, and what the transform writes, do not depend on the chunks the bytes of a
  response arrive in: the framers keep the contract of a framer, the handlers only append to the events that
  wait, and the decoder carries an unfinished character over.
\<close>

section \<open>Text by text\<close>

definition stream_ready :: "stream_parser \<Rightarrow> bool" where
  "stream_ready p \<longleftrightarrow>
     framer_ok (maxBufferedCharacters p) (sp_sse p) \<and> json_ok (maxBufferedCharacters p) (sp_json p)
     \<and> (sp_framing p = None \<longrightarrow> trimStart (framingBuffer p) = [])"

lemma new_ready: "stream_ready (new_stream_parser p opts)"
  by (simp add: stream_ready_def new_stream_parser_def new_ok json_ok_def new_json_framer_def trimStart_def)

lemma push_fed:
  "with_sse (\<lambda>m f. sse_push m f s) p =
    (case framer.fed (sse_push (maxBufferedCharacters p)) sse_calls sse_taken
       (handle_sse_call (maxBufferedCharacters p)) (sp_sse p, sp_inner p) s of (f, q) \<Rightarrow> p\<lparr>sp_sse := f, sp_inner := q\<rparr>)"
  "with_json (\<lambda>m f. json_push m f s) p =
    (case framer.fed (json_push (maxBufferedCharacters p)) json_calls json_taken
       (handle_json_call (maxBufferedCharacters p)) (sp_json p, sp_inner p) s of (f, q) \<Rightarrow> p\<lparr>sp_json := f, sp_inner := q\<rparr>)"
  by (simp_all add: with_sse_def with_json_def sse_framing.fed_def json_framing.fed_def Let_def sse_taken_def json_taken_def)

lemma framed_fields [simp]:
  "maxBufferedCharacters (pushFramed s p) = maxBufferedCharacters p" "sp_framing (pushFramed s p) = sp_framing p"
  "framingBuffer (pushFramed s p) = framingBuffer p" "sp_decoder (pushFramed s p) = sp_decoder p"
  by (simp_all add: pushFramed_def with_sse_def with_json_def Let_def)

lemma framed_valid:
  assumes "framer_ok (maxBufferedCharacters p) (sp_sse p)" "json_ok (maxBufferedCharacters p) (sp_json p)"
  shows "framer_ok (maxBufferedCharacters p) (sp_sse (pushFramed s p))"
    "json_ok (maxBufferedCharacters p) (sp_json (pushFramed s p))"
  using assms sse_framing.fed_valid [of "maxBufferedCharacters p" "(sp_sse p, sp_inner p)"]
    json_framing.fed_valid [of "maxBufferedCharacters p" "(sp_json p, sp_inner p)"]
  by (simp_all add: pushFramed_def push_fed case_prod_beta)

lemma framed_append:
  assumes "framer_ok (maxBufferedCharacters p) (sp_sse p)" "json_ok (maxBufferedCharacters p) (sp_json p)"
  shows "pushFramed t (pushFramed s p) = pushFramed (s @ t) p"
  using assms sse_framing.fed_append [of "maxBufferedCharacters p" "(sp_sse p, sp_inner p)"]
    json_framing.fed_append [of "maxBufferedCharacters p" "(sp_json p, sp_inner p)"]
  by (simp add: pushFramed_def push_fed case_prod_beta)

text \<open>A stream that starts with spaces waits for the character that says how it is framed.\<close>

lemma select_waits: "trimStart (framingBuffer p) = [] \<Longrightarrow> selectGeminiFraming p = p"
  by (simp add: selectGeminiFraming_def)

lemma select_append:
  assumes "trimStart b \<noteq> []" "s \<noteq> []"
    and "framer_ok (maxBufferedCharacters p) (sp_sse p)" "json_ok (maxBufferedCharacters p) (sp_json p)"
  shows "selectGeminiFraming (p\<lparr>framingBuffer := b @ s\<rparr>) = parser_consumeText s (selectGeminiFraming (p\<lparr>framingBuffer := b\<rparr>))"
proof -
  obtain u r where b: "trimStart b = u # r" using assms(1) by (cases "trimStart b") auto
  let ?p = "p\<lparr>framingBuffer := b, sp_framing := Some (if u = 123 \<or> u = 91 then Json_Framing else Sse_Framing), framingBuffer := []\<rparr>"
  have "selectGeminiFraming (p\<lparr>framingBuffer := b @ s\<rparr>) = pushFramed (b @ s) ?p"
    by (simp add: selectGeminiFraming_def trimStart_append b)
  moreover have "selectGeminiFraming (p\<lparr>framingBuffer := b\<rparr>) = pushFramed b ?p"
    by (simp add: selectGeminiFraming_def b)
  ultimately show ?thesis using assms framed_append [of ?p s b] by (simp add: parser_consumeText_def)
qed

lemma consume_text_append:
  assumes "stream_ready p"
  shows "parser_consumeText t (parser_consumeText s p) = parser_consumeText (s @ t) p"
proof (cases "s = [] \<or> t = []")
  case True
  then show ?thesis by (auto simp: parser_consumeText_def)
next
  case False
  have ok: "framer_ok (maxBufferedCharacters p) (sp_sse p)" "json_ok (maxBufferedCharacters p) (sp_json p)"
    using assms by (simp_all add: stream_ready_def)
  show ?thesis
  proof (cases "sp_framing p")
    case (Some x)
    then show ?thesis using False framed_append [OF ok, of t s] by (simp add: parser_consumeText_def)
  next
    case None
    show ?thesis
    proof (cases "trimStart (framingBuffer p @ s) = []")
      case True
      then show ?thesis using False None by (simp add: parser_consumeText_def select_waits)
    next
      case starts: False
      then show ?thesis using False None select_append [OF starts _ ok, of t] by (simp add: parser_consumeText_def)
    qed
  qed
qed

lemma select_fields [simp]:
  "maxBufferedCharacters (selectGeminiFraming p) = maxBufferedCharacters p"
  "sp_decoder (selectGeminiFraming p) = sp_decoder p"
  by (simp_all add: selectGeminiFraming_def split: list.split)

lemma select_ready:
  assumes "framer_ok (maxBufferedCharacters p) (sp_sse p)" "json_ok (maxBufferedCharacters p) (sp_json p)"
  shows "stream_ready (selectGeminiFraming p)"
  using assms framed_valid [of "p\<lparr>sp_framing := Some x, framingBuffer := []\<rparr>" for x]
  by (auto simp: selectGeminiFraming_def stream_ready_def split: list.split)

lemma consume_ready: "stream_ready p \<Longrightarrow> stream_ready (parser_consumeText s p)"
  using framed_valid [of p s] select_ready [of "p\<lparr>framingBuffer := framingBuffer p @ s\<rparr>"]
  by (auto simp: parser_consumeText_def stream_ready_def)

section \<open>Draining between texts\<close>

definition queued :: "canonical_event list \<Rightarrow> stream_parser \<Rightarrow> stream_parser" where
  "queued es p = p\<lparr>sp_inner := after_events es (sp_inner p)\<rparr>"

lemma queued_fields [simp]:
  "maxBufferedCharacters (queued es p) = maxBufferedCharacters p" "sp_decoder (queued es p) = sp_decoder p"
  "sp_sse (queued es p) = sp_sse p" "sp_json (queued es p) = sp_json p" "sp_framing (queued es p) = sp_framing p"
  "framingBuffer (queued es p) = framingBuffer p" "sp_inner (queued es p) = after_events es (sp_inner p)"
  "(queued es p)\<lparr>sp_decoder := d\<rparr> = queued es (p\<lparr>sp_decoder := d\<rparr>)"
  "(queued es p)\<lparr>framingBuffer := b\<rparr> = queued es (p\<lparr>framingBuffer := b\<rparr>)"
  "(queued es p)\<lparr>sp_framing := fr\<rparr> = queued es (p\<lparr>sp_framing := fr\<rparr>)"
  by (simp_all add: queued_def)

lemma after_json_call [after]: "handle_json_call m (after_events es p) c = after_events es (handle_json_call m p c)"
  by (cases c) (simp_all add: after)

lemma after_calls:
  "foldl (handle_sse_call m) (after_events es p) cs = after_events es (foldl (handle_sse_call m) p cs)"
  "foldl (handle_json_call m) (after_events es p) ds = after_events es (foldl (handle_json_call m) p ds)"
  by (induction cs arbitrary: p) (simp_all add: after, induction ds arbitrary: p, simp_all add: after)

lemma queued_with:
  "with_sse step (queued es p) = queued es (with_sse step p)"
  "with_json step' (queued es p) = queued es (with_json step' p)"
  by (simp_all add: with_sse_def with_json_def Let_def after_calls queued_def)

lemma queued_framed: "pushFramed s (queued es p) = queued es (pushFramed s p)"
  by (simp add: pushFramed_def queued_with)

lemma queued_select: "selectGeminiFraming (queued es p) = queued es (selectGeminiFraming p)"
  by (simp add: selectGeminiFraming_def queued_framed split: list.split)

lemma queued_consume: "parser_consumeText s (queued es p) = queued es (parser_consumeText s p)"
  by (simp add: parser_consumeText_def queued_framed queued_select)

lemma queued_finishing: "with_finishing b (queued es p) = queued es (with_finishing b p)"
  by (simp add: with_finishing_def queued_def)

lemma queued_finish_framing: "finish_framing (queued es p) = queued es (finish_framing p)"
  by (simp add: finish_framing_def Let_def queued_select queued_finishing queued_with split: option.split framing.split)

lemma queued_drain: "parser_drainEvents (queued es p) = map_prod id (append es) (parser_drainEvents p)"
  by (simp add: parser_drainEvents_def queued_def after_events_def)

lemma drained_queue: "parser_drainEvents p = (q, es) \<Longrightarrow> p = queued es q"
  by (auto simp: parser_drainEvents_def queued_def after_events_def)

lemma queued_push: "parser_push c (queued es p) = map_prod id (append es) (parser_push c p)"
  by (simp add: parser_push_def queued_consume queued_drain split: prod.split)

lemma queued_finish: "parser_finish (queued es p) = map_prod id (append es) (parser_finish p)"
proof -
  have "q\<lparr>sp_inner := finish_parsing (sp_inner q)\<rparr> = queued es (r\<lparr>sp_inner := finish_parsing (sp_inner r)\<rparr>)"
    if "q = queued es r" for q r using that by (simp add: after queued_def)
  then show ?thesis
    by (simp add: parser_finish_def Let_def queued_consume queued_finish_framing queued_drain)
qed

lemma queued_chunks: "parse_chunks (queued es p) cs = map_prod id (append es) (parse_chunks p cs)"
  by (cases cs) (simp_all add: queued_finish queued_push split: prod.split)

section \<open>Chunk by chunk\<close>

lemma consume_decoder:
  "parser_consumeText s (p\<lparr>sp_decoder := d\<rparr>) = (parser_consumeText s p)\<lparr>sp_decoder := d\<rparr>"
  unfolding parser_consumeText_def selectGeminiFraming_def pushFramed_def with_sse_def with_json_def Let_def
  by (cases "trimStart (framingBuffer p @ s)") (simp_all)

lemma push_two:
  assumes "stream_ready p"
  shows "parse_chunks p (c # d # cs) = parse_chunks p ((c @ d) # cs)"
proof -
  obtain d1 s where 1: "decode_chunk (sp_decoder p) c = (d1, s)" by fastforce
  obtain d2 t where 2: "decode_chunk d1 d = (d2, t)" by fastforce
  let ?p = "parser_consumeText s (p\<lparr>sp_decoder := d1\<rparr>)"
  obtain q es where q: "parser_drainEvents ?p = (q, es)" by fastforce
  have "sp_decoder ?p = d1" by (simp add: parser_consumeText_def)
  then have q1: "sp_decoder q = d1" using drained_queue [OF q] by simp
  have whole: "parser_consumeText (s @ t) (p\<lparr>sp_decoder := d2\<rparr>)
      = queued es (parser_consumeText t (q\<lparr>sp_decoder := d2\<rparr>))"
  proof -
    have "parser_consumeText (s @ t) (p\<lparr>sp_decoder := d2\<rparr>) = (parser_consumeText t ?p)\<lparr>sp_decoder := d2\<rparr>"
      by (simp add: consume_decoder consume_text_append [OF assms])
    then show ?thesis unfolding drained_queue [OF q] by (simp add: queued_consume consume_decoder)
  qed
  show ?thesis
    using chunk_append [of "sp_decoder p" c d]
    by (simp add: parser_push_def 1 2 q q1 whole queued_drain case_prod_beta)
qed

lemma push_none: "parse_chunks p ([] # cs) = parse_chunks p cs"
proof -
  obtain q es where q: "parser_drainEvents p = (q, es)" by fastforce
  have "decode_chunk (sp_decoder p) [] = (sp_decoder p, [])"
    by (simp add: decode_chunk_def decoded_text_def)
  then have "parser_push [] p = (q, es)" by (simp add: parser_push_def parser_consumeText_def q)
  then show ?thesis using queued_chunks [of es q cs] unfolding drained_queue [OF q, symmetric]
    by (simp add: case_prod_beta map_prod_def)
qed

lemma parse_joined:
  assumes "stream_ready p"
  shows "parse_chunks p (c # cs) = parse_chunks p [c @ concat cs]"
proof (induction cs arbitrary: c)
  case (Cons d cs)
  then show ?case by (simp only: push_two [OF assms] concat.simps append_assoc)
qed simp

lemma parse_whole: "stream_ready p \<Longrightarrow> parse_chunks p cs = parse_chunks p [concat cs]"
  using parse_joined [of p "[]" cs] by (simp only: push_none append_Nil)

lemma transform_whole:
  assumes "stream_ready p"
  shows "transform_chunks (p, e) cs = transform_chunks (p, e) [concat cs]"
proof -
  have inj: "inj (map_option (\<lambda>(st, bs). (fst st, snd st, bs)))"
    for f :: "(stream_parser \<times> stream_encoder) \<times> byte list list \<Rightarrow> stream_parser \<times> stream_encoder \<times> byte list list"
    by (intro option.inj_map injI) (auto split: prod.splits)
  show ?thesis
    by (rule injD [OF inj]) (simp only: transform_encodes parse_whole [OF assms, of cs])
qed

end
