(* ===== verification/Parser_Lifecycle.thy ===== *)
theory Parser_Lifecycle
  imports Parser_Cutting Encoder_Runs
begin

text \<open>
  What the events of a parsed stream keep to: one end, at most one start and one stop, no empty text. An
  invariant that the emitters keep is kept by every handler, whatever the payloads are.
\<close>

section \<open>Invariants of the handlers\<close>

fun plain_event :: "canonical_event \<Rightarrow> bool" where
  "plain_event (Start i m c) = False"
| "plain_event (Stop r raw) = False"
| "plain_event (Error_Event m c k) = False"
| "plain_event Done = False"
| "plain_event (Text_Delta s i k) = (s \<noteq> [])"
| "plain_event ev = True"

text \<open>What the emitters look at.\<close>

definition stream_state :: "protocol_parser \<Rightarrow> protocol \<times> canonical_event list \<times> bool \<times> bool \<times> bool \<times> bool" where
  "stream_state p = (pp_protocol p, pp_events p, pp_started p, pp_stopped p, pp_done p, pp_errored p)"

text \<open>The protocols whose end has to be announced by a stop or an error.\<close>

definition strict_protocol :: "protocol \<Rightarrow> bool" where
  "strict_protocol p \<longleftrightarrow> p = Openai_Chat \<or> p = Openai_Responses"

named_theorems kept "what keeps an invariant of the handlers"

lemma optional_nonempty: "stream_optionalString v = Some s \<Longrightarrow> s \<noteq> []"
  by (auto simp: stream_optionalString_def nonempty_text_def split: option.splits json.splits if_splits)

lemma emitted_stop [simp]: "pp_stopped (emitStop r raw p)" "pp_errored (emitError m c k p)"
  "pp_errored (emitStop r raw p) = pp_errored p" "pp_stopped (emitError m c k p) = pp_stopped p"
  by (simp_all add: emitStop_def emitError_def emit_event_def)

lemma emitted_incomplete [simp]: "pp_stopped (emitIncompleteStream msg p)"
  by (simp add: emitIncompleteStream_def)

locale handler_invariant =
  fixes I :: "protocol_parser \<Rightarrow> bool"
  assumes plain: "I p \<Longrightarrow> plain_event ev \<Longrightarrow> I (emit_event ev p)"
    and unseen: "I p \<Longrightarrow> stream_state q = stream_state p \<Longrightarrow> I q"
    and started: "I p \<Longrightarrow> I (emitStart i m c p)"
    and stopped: "I p \<Longrightarrow> I (emitStop r raw p)"
    and errored: "I p \<Longrightarrow> I (emitError msg code kind p)"
    and ended: "I p \<Longrightarrow> pp_stopped p \<or> pp_errored p \<or> \<not> strict_protocol (pp_protocol p) \<Longrightarrow> I (emitDone p)"
begin

declare plain [kept] started [kept] stopped [kept] errored [kept] ended [kept]

lemma unseen_updates [simp]:
  "I (p\<lparr>pp_finishing := a\<rparr>) = I p" "I (p\<lparr>sawToolCall := a\<rparr>) = I p" "I (p\<lparr>sawRefusal := a\<rparr>) = I p"
  "I (p\<lparr>nextToolIndex := n\<rparr>) = I p" "I (p\<lparr>anthropicToolIndices := t1\<rparr>) = I p" "I (p\<lparr>responsesToolIndices := t2\<rparr>) = I p"
  "I (p\<lparr>responsesToolMetadataSeen := is\<rparr>) = I p" "I (p\<lparr>responsesArguments := t3\<rparr>) = I p"
  "I (p\<lparr>responsesToolCompleted := is\<rparr>) = I p" "I (p\<lparr>responsesToolIdentityIndices := t4\<rparr>) = I p"
  "I (p\<lparr>nextSyntheticResponsesOutputIndex := i\<rparr>) = I p" "I (p\<lparr>geminiToolIndices := t5\<rparr>) = I p"
  "I (p\<lparr>lastUsage := u\<rparr>) = I p" "I (p\<lparr>pp_usage := v\<rparr>) = I p" "I (p\<lparr>responsesEventCount := n\<rparr>) = I p"
  "I (p\<lparr>responsesProgressEventCount := n\<rparr>) = I p" "I (p\<lparr>responsesTerminalEvent := t6\<rparr>) = I p"
  "I (p\<lparr>responsesResponseId := s\<rparr>) = I p" "I (p\<lparr>responsesLastEventType := s\<rparr>) = I p"
  "I (p\<lparr>responsesLastSequenceNumber := t7\<rparr>) = I p" "I (p\<lparr>responsesTerminalResponse := t8\<rparr>) = I p"
  "I (p\<lparr>responsesTextDeltaKeys := ks\<rparr>) = I p" "I (p\<lparr>responsesTextDoneKeys := ks\<rparr>) = I p"
  "I (p\<lparr>recognizedEventCount := n\<rparr>) = I p" "I (p\<lparr>responsesLastProgressUsage := t9\<rparr>) = I p"
  "I (p\<lparr>pp_unnumbered := a\<rparr>) = I p"
  by (rule iffI; erule unseen; simp add: stream_state_def)+

lemma kept_errors [kept]:
  "I p \<Longrightarrow> I (emitErrorObject v p)" "I p \<Longrightarrow> I (emitIncompleteStream msg p)"
  "I p \<Longrightarrow> I (emitResponsesProtocolError t c p)" "I p \<Longrightarrow> I (frameTooLarge t p)"
  by (simp_all add: emitErrorObject_def emitIncompleteStream_def emitResponsesProtocolError_def frameTooLarge_def
      Let_def kept split: option.split)

lemma kept_usage [kept]: "I p \<Longrightarrow> I (emitUsage u a b c p)"
  by (simp add: emitUsage_def kept split: option.split)

lemma kept_anthropic_usage [kept]: "I p \<Longrightarrow> I (emitAnthropicUsage v p)"
  by (simp add: emitAnthropicUsage_def Let_def kept split: option.split)

lemma kept_foldl: "I p \<Longrightarrow> (\<And>p x. I p \<Longrightarrow> I (h p x)) \<Longrightarrow> I (foldl h p xs)"
  by (induction xs arbitrary: p) simp_all

lemma kept_emit_tool [kept]: "I p \<Longrightarrow> I (emit_tool_call index i n a p)" "I p \<Longrightarrow> I (chat_tool_call p toolCall)"
  by (simp_all add: emit_tool_call_def chat_tool_call_def Let_def kept split: option.split)

lemma kept_emit_text [kept]: "I p \<Longrightarrow> I (emit_text s p)" "I p \<Longrightarrow> I (emit_reasoning b p)"
  by (simp_all add: emit_text_def emit_reasoning_def kept)

lemma kept_choice [kept]: "I p \<Longrightarrow> I (chat_choice p choice)"
  by (simp add: chat_choice_def Let_def kept kept_foldl split: option.split)

lemma kept_chat [kept]: "I p \<Longrightarrow> I (handleOpenAiChat name payload p)"
  by (simp add: handleOpenAiChat_def Let_def kept kept_foldl split: option.split json.split)

lemma kept_block_call [kept]: "I p \<Longrightarrow> I (emit_block_call payload i n a p)"
  by (simp add: emit_block_call_def anthropicToolIndex_def kept split: option.split)

lemma kept_anthropic_parts [kept]:
  "I p \<Longrightarrow> I (anthropic_block payload p)" "I p \<Longrightarrow> I (anthropic_delta payload p)"
  "I p \<Longrightarrow> I (anthropic_message_delta payload p)"
  by (simp_all add: anthropic_block_def anthropic_delta_def anthropic_message_delta_def Let_def kept split: option.split)

lemma kept_anthropic [kept]: "I p \<Longrightarrow> I (handleAnthropic name payload p)"
  by (simp add: handleAnthropic_def Let_def kept)

lemma kept_gemini_call [kept]: "I p \<Longrightarrow> I (gemini_call i j call p)"
  by (simp add: gemini_call_def geminiToolIndex_def Let_def kept split: option.split)

lemma kept_gemini_part [kept]: "I p \<Longrightarrow> I (gemini_part i j part p)"
  by (simp add: gemini_part_def Let_def kept split: option.split)

lemma kept_gemini_parts [kept]: "I p \<Longrightarrow> I (gemini_parts i j parts p)"
  by (induction parts arbitrary: j p) (simp_all add: kept)

lemma kept_candidates [kept]: "I p \<Longrightarrow> I (fst (gemini_candidates i r cs p))"
  by (induction cs arbitrary: i r p) (simp_all add: kept)

lemma kept_gemini [kept]: "I p \<Longrightarrow> I (handleGemini payload p)"
  by (simp add: handleGemini_def Let_def kept case_prod_beta split: option.split)

lemma kept_tool_index [kept]: "I p \<Longrightarrow> I (fst (responseToolIndex i p))"
  by (simp add: responseToolIndex_def split: option.split)

lemma kept_moves [kept]: "I p \<Longrightarrow> I (move_tool_index i j p)" "I p \<Longrightarrow> I (move_tool_state i j p)"
  by (simp_all add: move_tool_index_def move_tool_state_def split: option.split)

lemma kept_rebind [kept]: "I p \<Longrightarrow> I (rebindResponsesToolOutputIndex i j p)"
  by (simp add: rebindResponsesToolOutputIndex_def Let_def kept)

lemma kept_identities [kept]: "I p \<Longrightarrow> I (bind_identities ids i p)"
  by (simp add: bind_identities_def)

lemma kept_explicit [kept]: "I p \<Longrightarrow> I (explicit_tool_index ids i p)"
  by (simp add: explicit_tool_index_def Let_def kept split: list.split)

lemma kept_output_index [kept]: "I p \<Longrightarrow> I (fst (responsesToolOutputIndex v ids p))"
  by (simp add: responsesToolOutputIndex_def Let_def kept split: list.split option.split)

lemma kept_arguments [kept]:
  "I p \<Longrightarrow> I (fst (appendResponsesToolArguments i d p))" "I p \<Longrightarrow> I (fst (reconcileResponsesToolArguments i d p))"
  by (simp_all add: appendResponsesToolArguments_def reconcileResponsesToolArguments_def Let_def kept split: option.split)

lemma kept_tool_events [kept]:
  "I p \<Longrightarrow> I (complete_tool_call i n p)" "I p \<Longrightarrow> I (emit_tool_item item t i n b a p)" "I p \<Longrightarrow> I (note_metadata i p)"
  by (simp_all add: complete_tool_call_def emit_tool_item_def note_metadata_def kept)

lemma kept_snapshot [kept]: "I p \<Longrightarrow> I (responses_tool_snapshot b v item ids p)"
  by (simp add: responses_tool_snapshot_def Let_def case_prod_beta kept)

lemma kept_texts [kept]:
  "I p \<Longrightarrow> I (responses_text_delta payload k p)" "I p \<Longrightarrow> I (note_text_done key p)"
  "I p \<Longrightarrow> s \<noteq> [] \<Longrightarrow> I (whole_text key i s p)"
  by (simp_all add: responses_text_delta_def note_text_done_def whole_text_def Let_def kept)

lemma kept_text_done [kept]: "I p \<Longrightarrow> I (responses_text_done payload n k p)"
  by (auto simp: responses_text_done_def Let_def kept dest: optional_nonempty split: option.split)

lemma kept_argument_events [kept]:
  "I p \<Longrightarrow> I (responses_arguments_delta payload t p)" "I p \<Longrightarrow> I (responses_arguments_done payload n t p)"
  by (simp_all add: responses_arguments_delta_def responses_arguments_done_def Let_def case_prod_beta kept
      split: option.split)

lemma kept_item_done [kept]: "I p \<Longrightarrow> I (emit_message_complete x p)" "I p \<Longrightarrow> I (responses_item_done payload p)"
  by (simp_all add: emit_message_complete_def responses_item_done_def Let_def kept split: option.split)

lemma kept_parts [kept]: "I p \<Longrightarrow> I (terminal_parts i j parts p)"
proof (induction parts arbitrary: j p)
  case (Cons part parts)
  then show ?case by (auto simp: Let_def kept dest: optional_nonempty split: option.split)
qed simp

lemma kept_item [kept]: "I p \<Longrightarrow> I (terminal_item i item p)"
  by (simp add: terminal_item_def Let_def kept)

lemma kept_items [kept]: "I p \<Longrightarrow> I (fst (terminal_items i items p))"
  by (induction items arbitrary: i p) (simp_all add: Let_def kept)

lemma kept_terminal [kept]: "I p \<Longrightarrow> I (responses_terminal_output t r p)"
  by (simp add: responses_terminal_output_def Let_def case_prod_beta kept)

lemma kept_count [kept]: "I p \<Longrightarrow> I (fst (count_responses_event t payload p))"
  by (simp add: count_responses_event_def count_progress_def check_sequence_def responsesPayloadAdvancesProgress_def
      Let_def case_prod_beta kept split: option.split)

lemma kept_check [kept]: "I p \<Longrightarrow> I (fst (check_terminal t k r p))"
  by (cases r) (simp_all add: check_terminal_def Let_def kept)

lemma kept_branch: "I a \<Longrightarrow> I b \<Longrightarrow> I (if c then a else b)"
  by simp

lemma kept_responses_event [kept]: "I p \<Longrightarrow> I (responses_event t payload r p)"
  unfolding responses_event_def Let_def by (intro kept_branch; (simp only: kept emitted_stop simp_thms)?)

lemma kept_accepted [kept]: "I p \<Longrightarrow> I (accepted_event t payload r p)"
  unfolding accepted_event_def by (intro kept_branch; simp add: kept)

lemma kept_response_id [kept]: "I p \<Longrightarrow> I (note_response_id payload r p)"
  by (simp add: note_response_id_def split: option.split)

lemma kept_responses [kept]: "I p \<Longrightarrow> I (handleOpenAiResponses name payload p)"
  unfolding handleOpenAiResponses_def Let_def case_prod_beta
  by (intro kept_branch; simp add: kept split: option.split)

lemma kept_payload [kept]: "I p \<Longrightarrow> I (handlePayload name v p)"
  by (simp add: handlePayload_def Let_def kept split: option.split protocol.split)

lemma kept_sse [kept]: "I p \<Longrightarrow> I (handleSse name data p)"
  by (auto simp: handleSse_def strict_protocol_def kept split: option.split)

lemma kept_sse_call: "I p \<Longrightarrow> I (handle_sse_call m p c)"
  by (cases c) (simp_all add: kept)

lemma kept_json_call: "I p \<Longrightarrow> I (handle_json_call m p c)"
  by (cases c) (simp_all add: kept)

lemma kept_finish: "I p \<Longrightarrow> I (finish_parsing p)"
  by (simp add: finish_parsing_def kept)

lemma kept_framed: "I (sp_inner p) \<Longrightarrow> I (sp_inner (pushFramed s p))"
  by (simp add: pushFramed_def with_sse_def with_json_def Let_def kept_foldl kept_sse_call kept_json_call)

lemma kept_select: "I (sp_inner p) \<Longrightarrow> I (sp_inner (selectGeminiFraming p))"
  by (simp add: selectGeminiFraming_def kept_framed split: list.split)

lemma kept_consume: "I (sp_inner p) \<Longrightarrow> I (sp_inner (parser_consumeText s p))"
  by (simp add: parser_consumeText_def kept_framed kept_select)

lemma kept_finish_framing: "I (sp_inner p) \<Longrightarrow> I (sp_inner (finish_framing p))"
  by (simp add: finish_framing_def Let_def with_finishing_def with_sse_def with_json_def kept_select kept_foldl
      kept_sse_call kept_json_call split: option.split framing.split)

end

section \<open>The life of a stream\<close>

fun starts_stream :: "canonical_event \<Rightarrow> bool" where
  "starts_stream (Start i m c) = True" | "starts_stream ev = False"

fun stops_stream :: "canonical_event \<Rightarrow> bool" where
  "stops_stream (Stop r raw) = True" | "stops_stream ev = False"

fun empty_text :: "canonical_event \<Rightarrow> bool" where
  "empty_text (Text_Delta s i k) = (s = [])" | "empty_text ev = False"

definition times_of :: "(canonical_event \<Rightarrow> bool) \<Rightarrow> canonical_event list \<Rightarrow> nat" where
  "times_of P evs = length (filter P evs)"

text \<open>A stop or an error comes before the end.\<close>

definition end_announced :: "canonical_event list \<Rightarrow> bool" where
  "end_announced evs \<longleftrightarrow> list_ex (\<lambda>ev. stops_stream ev \<or> failure_event ev) (takeWhile (\<lambda>ev. ev \<noteq> Done) evs)"

definition in_order :: "protocol_parser \<Rightarrow> bool" where
  "in_order p \<longleftrightarrow>
     times_of starts_stream (pp_events p) = of_bool (pp_started p)
     \<and> times_of stops_stream (pp_events p) = of_bool (pp_stopped p)
     \<and> times_of (\<lambda>ev. ev = Done) (pp_events p) = of_bool (pp_done p)
     \<and> (list_ex failure_event (pp_events p) \<longleftrightarrow> pp_errored p)
     \<and> times_of empty_text (pp_events p) = 0
     \<and> (strict_protocol (pp_protocol p) \<and> pp_done p \<longrightarrow> end_announced (pp_events p))"

lemma times_of_snoc [simp]: "times_of P (evs @ [ev]) = times_of P evs + of_bool (P ev)" "times_of P [] = 0"
  by (simp_all add: times_of_def)

lemma times_of_none: "times_of P evs = 0 \<longleftrightarrow> \<not> list_ex P evs"
  by (auto simp: times_of_def filter_empty_conv list_ex_iff)

lemma before_done_snoc:
  "takeWhile (\<lambda>ev. ev \<noteq> Done) (evs @ [ev]) =
    (if Done \<in> set evs \<or> ev = Done then takeWhile (\<lambda>ev. ev \<noteq> Done) evs else evs @ [ev])"
  by (induction evs) auto

lemma before_done_all: "Done \<notin> set evs \<Longrightarrow> takeWhile (\<lambda>ev. ev \<noteq> Done) evs = evs"
  by (induction evs) auto

lemma announced_snoc: "end_announced evs \<Longrightarrow> end_announced (evs @ [ev])"
  by (cases "Done \<in> set evs") (auto simp: end_announced_def before_done_snoc before_done_all)

lemma announced_done:
  "times_of (\<lambda>ev. ev = Done) evs = 0 \<Longrightarrow> list_ex stops_stream evs \<or> list_ex failure_event evs \<Longrightarrow> end_announced (evs @ [Done])"
  by (auto simp: end_announced_def times_of_none list_ex_iff before_done_snoc before_done_all)

lemma plain_unlike:
  "plain_event ev \<Longrightarrow> \<not> starts_stream ev \<and> \<not> stops_stream ev \<and> \<not> failure_event ev \<and> ev \<noteq> Done \<and> \<not> empty_text ev"
  by (cases ev) simp_all

lemma emit_event_fields [simp]:
  "pp_events (emit_event ev p) = pp_events p @ [ev]" "pp_started (emit_event ev p) = pp_started p"
  "pp_stopped (emit_event ev p) = pp_stopped p" "pp_done (emit_event ev p) = pp_done p"
  "pp_errored (emit_event ev p) = pp_errored p" "pp_protocol (emit_event ev p) = pp_protocol p"
  by (simp_all add: emit_event_def)

interpretation lifecycle: handler_invariant in_order
proof
  fix p q ev i m c r raw msg code kind
  assume p: "in_order p"
  show "in_order (emit_event ev p)" if "plain_event ev"
    using p plain_unlike [OF that] by (auto simp: in_order_def announced_snoc)
  show "in_order q" if "stream_state q = stream_state p"
    using p that by (simp add: in_order_def stream_state_def)
  show "in_order (emitStart i m c p)" using p by (auto simp: emitStart_def Let_def in_order_def announced_snoc)
  show "in_order (emitStop r raw p)" using p by (auto simp: emitStop_def in_order_def announced_snoc)
  show "in_order (emitError msg code kind p)" using p by (auto simp: emitError_def in_order_def announced_snoc)
  show "in_order (emitDone p)" if "pp_stopped p \<or> pp_errored p \<or> \<not> strict_protocol (pp_protocol p)"
    using p that times_of_none [of stops_stream "pp_events p"]
    by (auto simp: emitDone_def in_order_def intro!: announced_done split: if_splits)
qed

interpretation same_protocol: handler_invariant "\<lambda>p. pp_protocol p = x" for x
  by unfold_locales (auto simp: stream_state_def emitStart_def emitStop_def emitError_def emitDone_def Let_def)

section \<open>Whole streams\<close>

text \<open>The handlers of the whole response, without draining.\<close>

definition parsed_response :: "stream_parser \<Rightarrow> byte list \<Rightarrow> protocol_parser" where
  "parsed_response p bs =
     (case decode_chunk (sp_decoder p) bs of (d, s) \<Rightarrow>
        finish_parsing (sp_inner (finish_framing (parser_consumeText (decode_end d)
          (parser_consumeText s (p\<lparr>sp_decoder := new_text_decoder\<rparr>))))))"

lemma parsed_events: "snd (parse_chunks p [bs]) = pp_events (parsed_response p bs)"
proof -
  obtain d s where d: "decode_chunk (sp_decoder p) bs = (d, s)" by fastforce
  let ?p = "parser_consumeText s (p\<lparr>sp_decoder := d\<rparr>)"
  obtain q es where q: "parser_drainEvents ?p = (q, es)" by fastforce
  have "snd (parse_chunks p [bs]) = snd (parser_finish ?p)"
    unfolding drained_queue [OF q] by (simp add: parser_push_def d q queued_finish case_prod_beta)
  then show ?thesis
    by (simp add: parser_finish_def parsed_response_def d consume_decoder parser_drainEvents_def Let_def)
qed

context handler_invariant
begin

lemma kept_response: "I (sp_inner p) \<Longrightarrow> I (parsed_response p bs)"
  by (simp add: parsed_response_def kept_finish kept_finish_framing kept_consume split: prod.split)

end

lemma response_done: "pp_done (parsed_response p bs)"
  by (simp add: parsed_response_def finish_parsing_def emitDone_def split: prod.split)

lemma new_parsed:
  "in_order (parsed_response (new_stream_parser protocol opts) bs)"
  "pp_protocol (parsed_response (new_stream_parser protocol opts) bs) = protocol"
  by (rule lifecycle.kept_response) (simp add: new_stream_parser_def new_protocol_parser_def in_order_def,
    rule same_protocol.kept_response, simp add: new_stream_parser_def new_protocol_parser_def)

lemma chunks_in_order:
  assumes "parse_chunks (new_stream_parser protocol opts) cs = (p, evs)"
  shows "\<exists>q. in_order q \<and> pp_protocol q = protocol \<and> pp_done q \<and> pp_events q = evs"
  using assms parse_whole [OF new_ready, of protocol opts cs] parsed_events new_parsed response_done by (metis snd_conv)

end
