(* ===== verification/Translation_Properties.thy ===== *)
theory Translation_Properties
  imports Parser_Lifecycle Encoder_Properties
begin

text \<open>
  The properties of the streams the gateway translates from one protocol to another: they depend on the
  bytes of the upstream and not on how these arrive, what was parsed ends once and in order, and an
  Anthropic client sees the message end exactly if no error was parsed, from an OpenAI upstream only after a
  stop was announced.
\<close>

section \<open>Cutting\<close>

text \<open>What a transform writes are the frames of all the events.\<close>

lemma translated_frames:
  assumes "target \<noteq> Kiro_Claude"
  obtains st e fs where
    "encode_all (new_encoder now target opts) (snd (parse_chunks (new_stream_parser source p) cs)) = Some (e, fs)"
    "transform_chunks (new_stream_parser source p, new_encoder now target opts) cs = Some (st, map frame_bytes fs)"
proof -
  let ?p = "new_stream_parser source p" and ?e = "new_encoder now target opts"
  obtain e fs where e: "encode_all ?e (snd (parse_chunks ?p cs)) = Some (e, fs)"
    using assms encode_all_some [of ?e "snd (parse_chunks ?p cs)"] by (auto simp: new_encoder_def)
  then obtain st where "transform_chunks (?p, ?e) cs = Some (st, map frame_bytes fs)"
    using transform_encodes [of ?p ?e cs] by (auto simp: case_prod_beta)
  with e that show ?thesis by blast
qed

text \<open>
  C5. The events parsed from a response, and all the chunks a translated stream writes, are those of the
  response taken in one chunk: for every protocol, with any options, and wherever the bytes are cut, inside
  a character, a line end, an event or a JSON value, also where a limit is exceeded or the input is malformed.
  A stream between protocols other than the Kiro protocol never throws.
\<close>

theorem translation_ignores_cutting:
  "parse_chunks (new_stream_parser protocol parsing) cs = parse_chunks (new_stream_parser protocol parsing) [concat cs]
   \<and> (case createProtocolStreamTransform now source target opts of
        None \<Rightarrow> source = Kiro_Claude \<or> target = Kiro_Claude
      | Some st \<Rightarrow> (case transform_chunks st cs of
          None \<Rightarrow> False | Some out \<Rightarrow> transform_chunks st [concat cs] = Some out))"
proof (cases "source = Kiro_Claude \<or> target = Kiro_Claude")
  case True
  then show ?thesis
    using parse_whole [OF new_ready, of protocol parsing cs]
    by (auto simp: createProtocolStreamTransform_def createCanonicalStreamParser_def createCanonicalStreamEncoder_def
        simp del: parse_chunks.simps)
next
  case False
  obtain p where p: "createProtocolStreamTransform now source target opts
      = Some (new_stream_parser source p, new_encoder now target opts)"
    using False by (auto simp: createProtocolStreamTransform_def createCanonicalStreamParser_def
        createCanonicalStreamEncoder_def)
  obtain st fs where "transform_chunks (new_stream_parser source p, new_encoder now target opts) cs
      = Some (st, map frame_bytes fs)"
    using translated_frames False by meson
  then show ?thesis
    unfolding p option.case transform_whole [OF new_ready, of source p "new_encoder now target opts" cs]
    using False parse_whole [OF new_ready, of protocol parsing cs] by (simp del: parse_chunks.simps transform_chunks.simps)
qed

section \<open>The events of a response\<close>

text \<open>
  C6. The events parsed from any bytes contain the end exactly once, at most one start and at most one stop,
  and no empty text. For the two OpenAI protocols a stop or an error always comes before the end, so that a
  truncated response is never an unmarked end.
\<close>

theorem parsed_stream_lifecycle:
  "case parse_chunks (new_stream_parser protocol parsing) cs of (p, evs) \<Rightarrow>
     times_of (\<lambda>ev. ev = Done) evs = 1
     \<and> times_of starts_stream evs \<le> 1 \<and> times_of stops_stream evs \<le> 1 \<and> times_of empty_text evs = 0
     \<and> (if strict_protocol protocol then end_announced evs else True)"
proof -
  obtain p evs where p: "parse_chunks (new_stream_parser protocol parsing) cs = (p, evs)" by fastforce
  show ?thesis using chunks_in_order [OF p] by (auto simp: p in_order_def)
qed

section \<open>Translation for an Anthropic client\<close>

text \<open>What a client reads from bytes that arrive in chunks: it decodes them and frames the text.\<close>

definition client_reads :: "nat \<Rightarrow> byte list list \<Rightarrow> sse_call list" where
  "client_reads m cs =
     (case decode_chunks new_text_decoder cs of (d, ss) \<Rightarrow>
        sse_calls (sse_finish m (foldl (sse_push m) new_sse_framer (ss @ [decode_end d]))))"

definition fits :: "nat \<Rightarrow> out_frame \<Rightarrow> bool" where
  "fits m f \<longleftrightarrow> length (frame_text f) \<le> m \<and> list_all (\<lambda>u. u < 0x10000) (frame_text f)"

lemma text_points_append: "well_paired s \<Longrightarrow> text_points (s @ t) = text_points s @ text_points t"
proof (induction s rule: well_paired.induct)
  case (2 u s)
  then show ?case by (cases "high_surrogate u"; cases s) simp_all
qed simp

lemma encode_append: "well_paired s \<Longrightarrow> utf8_encode (s @ t) = utf8_encode s @ utf8_encode t"
  by (simp add: utf8_encode_def text_points_append)

lemma frame_paired:
  assumes "clean_frame f" "list_all (\<lambda>u. u < 0x10000) (frame_text f)"
  shows "well_paired (frame_text f)"
proof -
  have "sendable (frame_text f)" using assms(1)
    by (cases f rule: frame_text.cases) (auto intro!: sendable_append sendable_cons simp: sendable_low)
  then show ?thesis using assms(2) by (simp add: sendable_def)
qed

lemma frames_paired:
  assumes "list_all clean_frame fs" "list_all (fits m) fs"
  shows "well_paired (concat (map frame_text fs))"
    and "concat (map frame_bytes fs) = utf8_encode (concat (map frame_text fs))"
proof -
  have "well_paired (concat (map frame_text fs))
      \<and> concat (map frame_bytes fs) = utf8_encode (concat (map frame_text fs))"
    using assms
  proof (induction fs)
    case (Cons f fs)
    then have "well_paired (frame_text f)" by (simp add: frame_paired fits_def)
    with Cons show ?case by (simp add: paired_append encode_append frame_bytes_def)
  qed (simp add: utf8_encode_def)
  then show "well_paired (concat (map frame_text fs))"
    "concat (map frame_bytes fs) = utf8_encode (concat (map frame_text fs))" by simp_all
qed

lemma frame_starts: "frame_text f \<noteq> [] \<and> hd (frame_text f) \<noteq> 0xFEFF"
  by (cases f rule: frame_text.cases) (simp_all add: utf16_def)

lemma client_reads_frames:
  assumes "list_all clean_frame fs" "list_all (fits m) fs" "concat cs = concat (map frame_bytes fs)"
  shows "client_reads m cs = map client_event fs"
proof -
  let ?s = "concat (map frame_text fs)"
  obtain d ss where d: "decode_chunks new_text_decoder cs = (d, ss)" by fastforce
  have "concat ss = ?s \<and> decode_end d = []"
  proof (cases fs)
    case Nil
    then have "decode_chunk new_text_decoder [] = (d, concat ss)"
      using decode_chunks_concat [OF d] assms(3) by simp
    then show ?thesis
      using Nil by (auto simp: decode_chunk_def decoded_text_def decode_end_def new_text_decoder_def)
  next
    case (Cons f gs)
    then show ?thesis
      using decode_encoded [of ?s cs] frames_paired [OF assms(1,2)] assms(3) frame_starts [of f] d by auto
  qed
  moreover have "list_all (\<lambda>f. length (frame_text f) \<le> m) fs"
    using assms(2) by (auto simp: fits_def list_all_iff)
  ultimately show ?thesis
    using frames_round_trip [OF assms(1), of m "ss @ [decode_end d]"] by (simp add: client_reads_def d)
qed

text \<open>
  C4. What an Anthropic client reads of a translated response, however the bytes are cut on both sides: one
  well-formed message that shows the text parsed from the upstream, in order. The message ends exactly if no error was
  parsed before the end; from an upstream with an OpenAI protocol it ends only if the upstream announced its stop
  (an Anthropic or Gemini upstream that sends the bare end marker ends the message as well).
  The client is assumed to have room for the longest event.
\<close>

theorem translated_message_complete:
  "case createProtocolStreamTransform now source Anthropic_Messages opts of
     None \<Rightarrow> source = Kiro_Claude
   | Some st \<Rightarrow>
       let seen = takeWhile (\<lambda>ev. ev \<noteq> Done) (snd (parse_chunks (fst st) cs))
       in \<exists>st' fs. transform_chunks st cs = Some (st', map frame_bytes fs)
          \<and> (if list_all (fits m) fs \<and> concat ds = concat (map frame_bytes fs)
             then client_reads m ds = map client_event fs else True)
          \<and> shown_text (map anthropic_view fs) = said_text seen
          \<and> (case anthropic_run Not_Started (map anthropic_view fs) of
               None \<Rightarrow> False
             | Some phase \<Rightarrow>
                 (phase = Message_Over \<longleftrightarrow> \<not> list_ex failure_event seen)
                 \<and> (if phase = Message_Over \<and> strict_protocol source then list_ex stops_stream seen else True))"
proof (cases "source = Kiro_Claude")
  case True
  then show ?thesis by (simp add: createProtocolStreamTransform_def createCanonicalStreamParser_def)
next
  case False
  obtain p where p: "createProtocolStreamTransform now source Anthropic_Messages opts
      = Some (new_stream_parser source p, new_encoder now Anthropic_Messages opts)"
    using False by (auto simp: createProtocolStreamTransform_def createCanonicalStreamParser_def
        createCanonicalStreamEncoder_def)
  let ?p = "new_stream_parser source p"
  obtain q evs where evs: "parse_chunks ?p cs = (q, evs)" by fastforce
  obtain st' e fs where
    e: "encode_all (new_encoder now Anthropic_Messages opts) (snd (parse_chunks ?p cs)) = Some (e, fs)"
    and out: "transform_chunks (?p, new_encoder now Anthropic_Messages opts) cs = Some (st', map frame_bytes fs)"
    by (rule translated_frames [of Anthropic_Messages now opts source p cs], simp) (rule that, assumption+)
  note e = e [unfolded evs snd_conv]
  define seen where "seen = takeWhile (\<lambda>ev. ev \<noteq> Done) evs"
  have "anthropic_over seen fs (e\<lparr>enc_frames := []\<rparr>)"
    using anthropic_stream [of now opts evs] e by (simp add: seen_def)
  then obtain phase where shown: "shown_text (map anthropic_view fs) = said_text seen"
    and phase: "anthropic_run Not_Started (map anthropic_view fs) = Some phase"
      "phase = Message_Over \<longleftrightarrow> \<not> list_ex failure_event seen"
    by (auto simp: anthropic_over_def written_def Let_def)
  have stop: "if phase = Message_Over \<and> strict_protocol source then list_ex stops_stream seen else True"
    using chunks_in_order [OF evs] phase(2) by (auto simp: in_order_def end_announced_def seen_def list_ex_iff)
  have "list_all clean_frame fs" using encode_all_clean [OF _ e] by (simp add: new_encoder_def)
  then have client: "if list_all (fits m) fs \<and> concat ds = concat (map frame_bytes fs)
      then client_reads m ds = map client_event fs else True"
    using client_reads_frames by simp
  show ?thesis
    unfolding p option.case Let_def fst_conv evs snd_conv seen_def [symmetric]
    by (intro exI [of _ st'] exI [of _ fs] conjI out client shown, unfold phase(1) option.case)
      (intro conjI phase(2) stop)
qed

end
