(* ===== verification/Responses_Collector.thy ===== *)
theory Responses_Collector
  imports Protocol_Parser
begin

text \<open>
  \<open>ResponsesStreamCollector\<close> of \<^verbatim>\<open>src/main/gateway/streaming.ts\<close>: one Responses object made of the events of
  a streamed response. \<open>now\<close> is the clock when the result is built. The error of the collector is a message
  that is itself absent when its wording is not modelled.
\<close>

section \<open>State\<close>

record collected_tool_call =
  ct_id :: "js_text option"
  ct_name :: "js_text option"
  argumentChunks :: "js_text list"
  ct_completed :: bool
  ct_toolType :: "tool_type option"
  ct_outputIndex :: "nat option"

record collected_message =
  cm_chunks :: "js_text list"
  cm_completed :: bool
  cm_contentType :: "content_type option"

record responses_result =
  rr_response :: "js_record option"
  rr_usage :: "usage_counts option"
  rr_error :: "js_text option option"
  rr_errorCode :: "js_text option"
  rr_errorType :: "js_text option"
  upstreamSemanticObserved :: bool

record responses_collector =
  rc_parser :: stream_parser
  rc_options :: encoding_options
  rc_tools :: "(nat \<times> collected_tool_call) list"
  rc_id :: "js_text option"
  rc_model :: "js_text option"
  rc_createdAt :: "double option"
  rc_messages :: "(nat \<times> collected_message) list"
  rc_usage :: usage_counts
  rc_stopReason :: "stop_reason option"
  terminalResponse :: "js_record option"
  terminalType :: "responses_terminal option"
  rc_error :: "js_text option option"
  rc_errorCode :: "js_text option"
  rc_errorType :: "js_text option"
  rc_done :: bool
  rc_finished :: bool
  rc_result :: "responses_result option"

definition no_parsing_options :: parsing_options where
  "no_parsing_options = \<lparr>option_maxBufferedCharacters = None, option_suppressGeminiThoughtText = False,
     option_emitReasoningProgress = False\<rparr>"

definition createOpenAiResponsesStreamCollector :: "encoding_options \<Rightarrow> responses_collector" where
  "createOpenAiResponsesStreamCollector opts =
     \<lparr>rc_parser = new_stream_parser Openai_Responses no_parsing_options, rc_options = opts, rc_tools = [], rc_id = None,
      rc_model = None, rc_createdAt = None, rc_messages = [], rc_usage = no_usage, rc_stopReason = None,
      terminalResponse = None, terminalType = None, rc_error = None, rc_errorCode = None, rc_errorType = None,
      rc_done = False, rc_finished = False, rc_result = None\<rparr>"

section \<open>Events\<close>

definition collected_tool_at :: "nat \<Rightarrow> responses_collector \<Rightarrow> collected_tool_call" where
  "collected_tool_at i r =
     (case map_of (rc_tools r) i of
        Some t \<Rightarrow> t
      | None \<Rightarrow> \<lparr>ct_id = None, ct_name = None, argumentChunks = [], ct_completed = False, ct_toolType = None,
                 ct_outputIndex = None\<rparr>)"

definition message_at :: "nat \<Rightarrow> responses_collector \<Rightarrow> collected_message" where
  "message_at i r =
     (case map_of (rc_messages r) i of
        Some m \<Rightarrow> m
      | None \<Rightarrow> \<lparr>cm_chunks = [], cm_completed = False, cm_contentType = None\<rparr>)"

definition set_tool :: "nat \<Rightarrow> collected_tool_call \<Rightarrow> responses_collector \<Rightarrow> responses_collector" where
  "set_tool i t r = r\<lparr>rc_tools := AList.update i t (rc_tools r)\<rparr>"

definition set_message :: "nat \<Rightarrow> collected_message \<Rightarrow> responses_collector \<Rightarrow> responses_collector" where
  "set_message i m r = r\<lparr>rc_messages := AList.update i m (rc_messages r)\<rparr>"

definition collect_usage :: "usage_counts \<Rightarrow> usage_counts \<Rightarrow> usage_counts" where
  "collect_usage v u =
     (let newer = (\<lambda>f. or_count (f v) (f u))
      in \<lparr>inputTokens = newer inputTokens, outputTokens = newer outputTokens, totalTokens = newer totalTokens,
          cachedInputTokens = newer cachedInputTokens, cacheCreationInputTokens = newer cacheCreationInputTokens,
          cacheCreation5mInputTokens = newer cacheCreation5mInputTokens,
          cacheCreation1hInputTokens = newer cacheCreation1hInputTokens, reasoningTokens = newer reasoningTokens\<rparr>)"

fun collect_event :: "responses_collector \<Rightarrow> canonical_event \<Rightarrow> responses_collector" where
  "collect_event r (Start ident model createdAt) =
     r\<lparr>rc_id := or_count ident (rc_id r), rc_model := or_count model (rc_model r),
       rc_createdAt := or_count createdAt (rc_createdAt r)\<rparr>"
| "collect_event r (Text_Delta s index kind) =
     (let i = (case index of None \<Rightarrow> 0 | Some i \<Rightarrow> i); m = message_at i r
      in set_message i (m\<lparr>cm_chunks := cm_chunks m @ [s],
           cm_contentType := Some (if kind = Some Refusal_Content \<or> cm_contentType m = Some Refusal_Content
             then Refusal_Content else Text_Content)\<rparr>) r)"
| "collect_event r (Tool_Call_Delta i ident name arguments kind out) =
     (let t = collected_tool_at i r
      in set_tool i \<lparr>ct_id = or_count ident (ct_id t), ct_name = or_count name (ct_name t),
           argumentChunks = argumentChunks t @ (case nonempty_text arguments of None \<Rightarrow> [] | Some s \<Rightarrow> [s]),
           ct_completed = ct_completed t, ct_toolType = or_count kind (ct_toolType t),
           ct_outputIndex = or_count out (ct_outputIndex t)\<rparr> r)"
| "collect_event r (Tool_Call_Complete i) = set_tool i ((collected_tool_at i r)\<lparr>ct_completed := True\<rparr>) r"
| "collect_event r (Message_Complete i) = set_message i ((message_at i r)\<lparr>cm_completed := True\<rparr>) r"
| "collect_event r (Usage u) = r\<lparr>rc_usage := collect_usage u (rc_usage r)\<rparr>"
| "collect_event r (Stop reason raw) = r\<lparr>rc_stopReason := Some reason\<rparr>"
| "collect_event r (Error_Event message code kind) =
     r\<lparr>rc_error := or_count (rc_error r) (Some message), rc_errorCode := or_count (rc_errorCode r) code,
       rc_errorType := or_count (rc_errorType r) kind\<rparr>"
| "collect_event r Done = r\<lparr>rc_done := True\<rparr>"
| "collect_event r Reasoning_Progress = r"

definition rc_consume :: "responses_collector \<Rightarrow> canonical_event list \<Rightarrow> responses_collector" where
  "rc_consume r events = foldl (\<lambda>r ev. if rc_done r then r else collect_event r ev) r events"

text \<open>Appending to a finished stream throws.\<close>

definition rc_push :: "byte list \<Rightarrow> responses_collector \<Rightarrow> responses_collector option" where
  "rc_push chunk r =
     (if rc_finished r then None
      else if rc_done r then Some r
      else (case parser_push chunk (rc_parser r) of (p, events) \<Rightarrow> Some (rc_consume (r\<lparr>rc_parser := p\<rparr>) events)))"

definition rc_isComplete :: "responses_collector \<Rightarrow> bool" where
  "rc_isComplete r \<longleftrightarrow> rc_error r \<noteq> None \<or> rc_done r \<and> rc_stopReason r \<noteq> None"

section \<open>The response\<close>

definition captureTerminalResponse :: "responses_collector \<Rightarrow> responses_collector" where
  "captureTerminalResponse r =
     (case (responsesTerminalEvent (sp_inner (rc_parser r)), responsesTerminalResponse (sp_inner (rc_parser r))) of
        (Some t, Some response) \<Rightarrow>
          if t = Responses_Failed then r else r\<lparr>terminalType := Some t, terminalResponse := Some response\<rparr>
      | _ \<Rightarrow> r)"

definition part_has_text :: "json \<Rightarrow> bool" where
  "part_has_text v =
     (case objectValue (Some v) of
        None \<Rightarrow> False
      | Some part \<Rightarrow>
          (obj_get part ''type'' = Some (JStr (utf16 ''output_text'')) \<or> obj_get part ''type'' = Some (JStr (utf16 ''text'')))
            \<and> stream_optionalString (obj_get part ''text'') \<noteq> None
          \<or> obj_get part ''type'' = Some (JStr (utf16 ''refusal'')) \<and> stream_optionalString (obj_get part ''refusal'') \<noteq> None)"

definition responsesOutputContainsText :: "json list \<Rightarrow> bool" where
  "responsesOutputContainsText output =
     list_ex (\<lambda>v. case objectValue (Some v) of
         None \<Rightarrow> False
       | Some item \<Rightarrow> obj_get item ''type'' = Some (JStr (utf16 ''message''))
           \<and> (case obj_get item ''content'' of Some (JArr parts) \<Rightarrow> list_ex part_has_text parts | _ \<Rightarrow> False)) output"

definition object_of :: "(string \<times> json option) list \<Rightarrow> js_record" where
  "object_of ps = object_or_empty (Some (js_object ps))"

definition cached_detail :: "string \<Rightarrow> double option \<Rightarrow> json option" where
  "cached_detail k v = map_option (\<lambda>n. js_object [(k, Some (JNum n))]) v"

definition aggregate_usage :: "usage_counts \<Rightarrow> js_record" where
  "aggregate_usage u = object_of
     [(''input_tokens'', map_option JNum (inputTokens u)), (''output_tokens'', map_option JNum (outputTokens u)),
      (''total_tokens'', map_option JNum (totalTokens u)),
      (''input_tokens_details'', cached_detail ''cached_tokens'' (cachedInputTokens u)),
      (''output_tokens_details'', cached_detail ''reasoning_tokens'' (reasoningTokens u))]"

definition response_id :: "double \<Rightarrow> responses_collector \<Rightarrow> js_text" where
  "response_id now r =
     (case or_count (rc_id r) (option_id (rc_options r)) of
        Some i \<Rightarrow> i | None \<Rightarrow> utf16 ''resp_'' @ number_text now)"

definition response_status :: "responses_collector \<Rightarrow> string" where
  "response_status r =
     (if terminalType r = Some Responses_Incomplete
         \<or> terminalType r = None \<and> (rc_stopReason r = Some Stop_Length \<or> rc_stopReason r = Some Stop_Content_Filter)
      then ''incomplete'' else ''completed'')"

definition incomplete_details :: "responses_collector \<Rightarrow> json option" where
  "incomplete_details r =
     (if response_status r = ''incomplete''
      then Some (js_object [(''reason'', Lit (if rc_stopReason r = Some Stop_Content_Filter then ''content_filter''
        else ''max_output_tokens''))])
      else None)"

definition response_base :: "double \<Rightarrow> responses_collector \<Rightarrow> (string \<times> json option) list" where
  "response_base now r =
     [(''id'', Txt (response_id now r)), (''object'', Lit ''response''),
      (''created_at'', Some (JNum (double_floor (quotient (case rc_createdAt r of None \<Rightarrow> now | Some t \<Rightarrow> t) (Num 1000))))),
      (''status'', Lit (response_status r)),
      (''model'', Txt (case or_count (rc_model r) (option_model (rc_options r)) of None \<Rightarrow> [] | Some m \<Rightarrow> m))]"

definition aggregate_message :: "js_text \<Rightarrow> string \<Rightarrow> nat \<Rightarrow> collected_message \<Rightarrow> js_record" where
  "aggregate_message ident status index m =
     (let s = concat (cm_chunks m)
      in object_of
        [(''id'', Txt (utf16 ''msg_'' @ safeIdentifier ident @ (if index = 0 then [] else [95] @ text_of_nat index))),
         (''type'', Lit ''message''), (''status'', Lit (if cm_completed m then ''completed'' else status)),
         (''role'', Lit ''assistant''),
         (''content'', Some (JArr [if cm_contentType m = Some Refusal_Content
           then js_object [(''type'', Lit ''refusal''), (''refusal'', Txt s)]
           else js_object [(''type'', Lit ''output_text''), (''text'', Txt s), (''annotations'', Some (JArr []))]]))])"

definition aggregate_tool :: "js_text \<Rightarrow> string \<Rightarrow> nat \<Rightarrow> collected_tool_call \<Rightarrow> js_record" where
  "aggregate_tool ident status index t =
     (let custom = (ct_toolType t = Some Custom_Tool_Call); suffix = safeIdentifier ident @ [95] @ text_of_nat index
      in object_of
        [(''id'', Txt (utf16 ''fc_'' @ suffix)), (''type'', Lit (if custom then ''custom_tool_call'' else ''function_call'')),
         (''status'', Lit (if ct_completed t then ''completed'' else status)),
         (''call_id'', Txt (case ct_id t of None \<Rightarrow> utf16 ''call_'' @ suffix | Some i \<Rightarrow> i)),
         (''name'', Txt (case ct_name t of None \<Rightarrow> [] | Some n \<Rightarrow> n)),
         (if custom then ''input'' else ''arguments'', Txt (concat (argumentChunks t)))])"

text \<open>The output items by their output index, messages before tools of the same index.\<close>

definition aggregate_output :: "double \<Rightarrow> responses_collector \<Rightarrow> js_record list" where
  "aggregate_output now r =
     (let ident = response_id now r; status = response_status r;
          messages = map (\<lambda>(i, m). (i, aggregate_message ident status i m))
            (filter (\<lambda>(i, m). cm_chunks m \<noteq> []) (sort_key fst (rc_messages r)));
          tools = map (\<lambda>(i, t). (case ct_outputIndex t of None \<Rightarrow> i | Some j \<Rightarrow> j, aggregate_tool ident status i t))
            (sort_key fst (rc_tools r))
      in map snd (sort_key fst (messages @ tools)))"

definition terminal_usage :: "js_record \<Rightarrow> js_record" where
  "terminal_usage terminal =
     obj_delete (obj_delete (object_or_empty (obj_get terminal ''usage'')) (utf16 ''cached_input_tokens''))
       (utf16 ''reasoning_tokens'')"

definition is_message_item :: "js_record \<Rightarrow> bool" where
  "is_message_item item \<longleftrightarrow> obj_get item ''type'' = Some (JStr (utf16 ''message''))"

definition buildResponse :: "double \<Rightarrow> responses_collector \<Rightarrow> js_record" where
  "buildResponse now r =
     (let terminalOutput = (case opt_get (terminalResponse r) ''output'' of Some (JArr vs) \<Rightarrow> Some vs | _ \<Rightarrow> None);
          collected = list_ex (\<lambda>(i, m). cm_chunks m \<noteq> []) (rc_messages r);
          aggregateUsage = aggregate_usage (rc_usage r);
          usage = (\<lambda>terminal. JObj (obj_spread aggregateUsage (terminal_usage terminal)));
          items = aggregate_output now r;
          aggregate = object_of (response_base now r @ [(''output'', Some (JArr (map JObj items))),
            (''usage'', Some (JObj aggregateUsage)), (''incomplete_details'', incomplete_details r)])
      in case terminalResponse r of
           None \<Rightarrow> aggregate
         | Some terminal \<Rightarrow>
             (case terminalOutput of
                Some (v # vs) \<Rightarrow>
                  if \<not> collected \<or> responsesOutputContainsText (v # vs)
                  then obj_set (obj_spread (object_of (response_base now r @ [(''incomplete_details'', incomplete_details r)]))
                    terminal) (utf16 ''usage'') (usage terminal)
                  else obj_set (obj_set (obj_spread aggregate terminal) (utf16 ''output'')
                    (JArr ((v # vs) @ map JObj (filter is_message_item items)))) (utf16 ''usage'') (usage terminal)
              | _ \<Rightarrow> obj_set (obj_set (obj_spread aggregate terminal) (utf16 ''output'') (JArr (map JObj items)))
                  (utf16 ''usage'') (usage terminal)))"

section \<open>The result\<close>

definition valid_tool :: "collected_tool_call \<Rightarrow> bool" where
  "valid_tool t \<longleftrightarrow> ct_completed t
     \<and> (ct_toolType t = Some Custom_Tool_Call \<or> stream_parseJsonObject (concat (argumentChunks t)) \<noteq> None)"

definition validateCompletedTools :: "responses_collector \<Rightarrow> responses_collector" where
  "validateCompletedTools r =
     (let status = text_lower (text_trim (stringValue (opt_get (terminalResponse r) ''status'') []));
          completed = (terminalType r = Some Responses_Completed
            \<or> terminalType r = None \<and> status \<noteq> utf16 ''incomplete''
              \<and> rc_stopReason r \<noteq> Some Stop_Length \<and> rc_stopReason r \<noteq> Some Stop_Content_Filter)
      in if \<not> completed then r
         else case find (\<lambda>(i, t). \<not> valid_tool t) (rc_tools r) of
             None \<Rightarrow> r
           | Some (i, t) \<Rightarrow>
               let callId = (case ct_id t of None \<Rightarrow> utf16 ''tool index '' @ text_of_nat i | Some s \<Rightarrow> s)
               in r\<lparr>rc_error := Some (Some (if ct_completed t
                      then utf16 ''Completed Responses tool call '' @ callId @ utf16 '' has invalid or truncated JSON arguments''
                      else utf16 ''Completed Responses stream left tool call '' @ callId @ utf16 '' unfinished'')),
                    rc_errorCode := Some (utf16 ''incomplete_tool_call''),
                    rc_errorType := Some (utf16 ''invalid_stream_event'')\<rparr>)"

text \<open>An error whose message is empty counts as none when the result is made.\<close>

definition error_counts :: "js_text option option \<Rightarrow> bool" where
  "error_counts e \<longleftrightarrow> e \<noteq> None \<and> e \<noteq> Some (Some [])"

definition finished_result :: "double \<Rightarrow> responses_collector \<Rightarrow> responses_result" where
  "finished_result now r =
     (let failure = (case rc_error r of
            Some e \<Rightarrow> Some e
          | None \<Rightarrow> if rc_stopReason r = None \<or> \<not> rc_done r
                    then Some (Some (utf16 ''Upstream Responses stream ended before a terminal response'')) else None)
      in \<lparr>rr_response = (if error_counts failure then None else Some (buildResponse now r)),
          rr_usage = (if hasUsage (rc_usage r) then Some (rc_usage r) else None),
          rr_error = (if error_counts failure then failure else None),
          rr_errorCode = (if error_counts failure then nonempty_text (rc_errorCode r) else None),
          rr_errorType = (if error_counts failure then nonempty_text (rc_errorType r) else None),
          upstreamSemanticObserved = (0 < responsesProgressEventCount (sp_inner (rc_parser r)))\<rparr>)"

definition rc_finish :: "double \<Rightarrow> responses_collector \<Rightarrow> responses_collector \<times> responses_result" where
  "rc_finish now r =
     (case rc_result r of
        Some result \<Rightarrow> (r, result)
      | None \<Rightarrow>
          let r = r\<lparr>rc_finished := True\<rparr>;
              r = (if rc_done r then r
                   else case parser_finish (rc_parser r) of (p, events) \<Rightarrow> rc_consume (r\<lparr>rc_parser := p\<rparr>) events);
              r = captureTerminalResponse r;
              r = (if error_counts (rc_error r) then r else validateCompletedTools r);
              result = finished_result now r
          in (r\<lparr>rc_result := Some result\<rparr>, result))"

end
