(* ===== verification/Spec2Isabelle.thy ===== *)
theory Spec2Isabelle
  imports Health_Properties Queue_Properties Strategy_Properties Session_Properties
    Service_Properties Routing_Properties Capabilities Stream_Properties Encoder_Properties
    Dsml_Properties Translation_Properties Responses_Collector
begin

text \<open>
  A verification development of the core of the stone-plus gateway: the scheduler that decides which
  upstream account serves a request, the shared rules that decide which sources, pools and models a
  route may use, the policies next to them, the parser of the binary event stream in which the
  Kiro upstream answers, the parser of the event streams of the other vendors, the restoring of tool calls
  DeepSeek writes as markup, and the encoder that turns the events of any upstream into the event stream of
  the client's protocol.

  The program and its parts. A local gateway (\<^verbatim>\<open>src/main/gateway/server.ts\<close>) accepts requests of
  client tools and forwards them to upstream accounts. A route names a source: a persisted pool of
  accounts, or a single relay or API account seen as a pool. \<^verbatim>\<open>src/shared/\<close> holds the rules about
  sources, models and capabilities, used by the gateway and by the settings pages alike;
  \<^verbatim>\<open>PoolScheduler\<close> (\<^verbatim>\<open>src/main/gateway/scheduler.ts\<close>) holds the state: slots in use, rotations,
  sessions, circuit states, statistics and the requests waiting for capacity. The server selects an
  account (\<^verbatim>\<open>selectAndAcquire\<close> or \<^verbatim>\<open>selectAndAcquireWhenAvailable\<close>), runs the attempt, reports its
  outcome (\<^verbatim>\<open>recordSuccess\<close>, \<^verbatim>\<open>recordFailure\<close>, \<^verbatim>\<open>setCooldown\<close>, \<^verbatim>\<open>recordPerformance\<close>) with the
  generations the selection returned, and calls the lease's \<^verbatim>\<open>release\<close>. When the upstream is Kiro,
  the response body goes through \<^verbatim>\<open>KiroEventStreamParser\<close> (\<^verbatim>\<open>src/main/gateway/kiro-event-stream.ts\<close>)
  chunk by chunk, which turns it into the protocol-neutral events of \<^verbatim>\<open>streaming.ts\<close>, or, for requests
  that do not stream, through \<^verbatim>\<open>KiroEventStreamCollector\<close>. When the upstream is DeepSeek, tool calls
  found in its text become events of the same kind (\<^verbatim>\<open>deepseek-dsml.ts\<close>, \<^verbatim>\<open>deepseek-dsml-stream.ts\<close>).
  \<^verbatim>\<open>ProtocolParser\<close> (\<^verbatim>\<open>streaming.ts\<close>) reads the streams of Chat, Responses, Anthropic and Gemini upstreams:
  it decodes the bytes, frames them as server-sent events or JSON values and turns their payloads into the
  neutral events; for a client that does not stream, \<^verbatim>\<open>ResponsesStreamCollector\<close> gathers them into a response.
  \<^verbatim>\<open>ProtocolEncoder\<close> (\<^verbatim>\<open>streaming.ts\<close>) writes the events as server-sent events for clients of the Chat,
  Responses, Anthropic and Gemini protocols; \<^verbatim>\<open>createProtocolStreamTransform\<close> joins a parser and an encoder.

  The model, theory by theory.
    \<^item> \<open>Prelude\<close>: JavaScript numbers, strings, insertion-ordered maps and array functions with
      callbacks that change state; the simplification collections.
    \<^item> \<open>Domain_Types\<close> (\<^verbatim>\<open>shared/types.ts\<close>), \<open>Source_Protocols\<close> (\<^verbatim>\<open>source-family.ts\<close>,
      \<^verbatim>\<open>pool-protocol.ts\<close>, \<^verbatim>\<open>wm-routing.ts\<close>), \<open>Capabilities\<close> (\<^verbatim>\<open>source-capabilities.ts\<close>),
      \<open>Eligibility\<close> (\<^verbatim>\<open>source-eligibility.ts\<close>): the data and the static rules.
    \<^item> \<open>Expiry_Heap\<close>, \<open>Sticky_Cache\<close>, \<open>Quota\<close>, \<open>Performance\<close>, \<open>Health\<close>, \<open>Selection\<close>,
      \<open>Scheduler\<close>: the fields and methods of \<^verbatim>\<open>PoolScheduler\<close>, in the order they build on each
      other. The record \<open>scheduler\<close> has the fields of the class; each operation is a function of
      the same name on it.
    \<^item> \<open>Route_Models\<close>, \<open>Route_Sources\<close>, \<open>Route_Preview\<close>: \<^verbatim>\<open>shared/route-models.ts\<close>,
      \<^verbatim>\<open>route-sources.ts\<close>, \<^verbatim>\<open>route-preview.ts\<close>.
    \<^item> \<open>Reasoning_Policy\<close> (\<^verbatim>\<open>shared/reasoning-policy.ts\<close>) and \<open>OAuth_Gate\<close>
      (\<^verbatim>\<open>main/auth/oauth-refresh-gate.ts\<close>).
    \<^item> \<open>Event_Bytes\<close>, \<open>Event_Frames\<close>, \<open>Tool_Schema\<close>, \<open>Thinking_Filter\<close>, \<open>Kiro_Stream\<close>, \<open>Kiro_Parser\<close>:
      \<^verbatim>\<open>kiro-event-stream.ts\<close> from the bottom up. Byte readers, CRC-32 and the byte queue; preludes,
      frames and typed headers; the JSON Schema validator; the filter of thinking tags; the parser's
      state and handlers; its frame loop, \<^verbatim>\<open>push\<close>, \<^verbatim>\<open>finish\<close> (\<open>finish_stream\<close>) and the collector. The
      read-only fields of the class are a \<open>kiro_config\<close>, which \<open>new_config\<close> computes as the constructor
      does, the mutable ones a \<open>kiro_parser\<close>. \<open>Json_Text\<close> has what they use of the language: UTF-16
      strings, \<^verbatim>\<open>TextDecoder\<close>, IEEE doubles, \<^verbatim>\<open>JSON.parse\<close> and \<^verbatim>\<open>JSON.stringify\<close>.

    \<^item> \<open>Canonical_Events\<close>, \<open>Sse_Framer\<close>, \<open>Encoder_State\<close>, \<open>Stream_Encoder\<close>: the parts of \<^verbatim>\<open>streaming.ts\<close>
      below and above the vendors' payloads. The neutral events; \<^verbatim>\<open>SseFramer\<close>, whose record holds what the
      class buffers and whose operations return the events they report; the state of \<^verbatim>\<open>ProtocolEncoder\<close>
      (\<open>stream_encoder\<close>), and \<open>encode\<close> with one function per protocol, its closing of open items and the tool
      bridge of converted Responses requests.
    \<^item> \<open>Text_Coding\<close>, \<open>Json_Framer\<close>, \<open>Parser_State\<close>, \<open>Responses_Parser\<close>, \<open>Protocol_Parser\<close>: the rest of
      \<^verbatim>\<open>streaming.ts\<close>. The streaming \<^verbatim>\<open>TextDecoder\<close> and \<^verbatim>\<open>TextEncoder\<close>; \<^verbatim>\<open>JsonFramer\<close>; the fields of \<^verbatim>\<open>ProtocolParser\<close>
      its handlers change (\<open>protocol_parser\<close>) and its emitters; \<^verbatim>\<open>handleOpenAiResponses\<close>; the other handlers and
      the class itself (\<open>stream_parser\<close>, whose field \<open>sp_inner\<close> is the former record) with \<open>parser_push\<close> and
      \<open>parser_finish\<close>. \<open>Responses_Collector\<close>: \<^verbatim>\<open>ResponsesStreamCollector\<close>. \<open>Protocol_Transform\<close>:
      \<^verbatim>\<open>createProtocolStreamTransform\<close>.
    \<^item> \<open>Harness_Tools\<close> (\<^verbatim>\<open>deepseek-harness-tools.ts\<close>): hiding the sandbox parameters. \<open>Tool_Bridge\<close>
      (\<^verbatim>\<open>types.ts\<close> and the name resolution of \<^verbatim>\<open>deepseek-dsml.ts\<close>), \<open>Dsml\<close> (the rest of that file: markers,
      invocations, blocks, buffered responses) and \<open>Dsml_Stream\<close> (\<^verbatim>\<open>deepseek-dsml-stream.ts\<close>: the record
      \<open>dsml_stream\<close> and its \<open>transform\<close> and \<open>dsml_finish\<close>).

  What is proved.
    \<^item> \<open>Sticky_Proofs\<close>, \<open>Session_Proofs\<close>: the session cache keeps its invariant
      (indices, LRU order, expiry heaps, bounds); what each of its operations does to the two maps;
      the counts of running sessions. \<open>Health_Runs\<close> begins with what a failure does to it.
    \<^item> \<open>Health_Proofs\<close>, \<open>Health_Runs\<close>, \<open>Performance_Proofs\<close>: outcomes are a compare-and-set on
      generations (the locale \<open>generation_guard\<close>), cooldowns, availability, model cooldowns, and
      the invariant of every run of the health operations; the ranges of the statistics and ratings.
    \<^item> \<open>Selection_Proofs\<close>, \<open>Fairness_Proofs\<close>: each strategy returns a candidate and meets its
      objective; rotations are exact.
    \<^item> \<open>Scheduler_Proofs\<close>, \<open>Waiter_Proofs\<close>, \<open>Scheduler_Runs\<close>: selection as one
      equation, the wait queue, and whole runs. \<open>sched_step\<close> is the step relation of the
      operations over a fixed set of configured accounts; the locales \<open>slot_property\<close> and
      \<open>slot_invariant\<close> state what an invariant has to satisfy, and are interpreted for the queue, the
      limits and the session cache. Reports that only touch the health state are over-approximated
      there by an arbitrary new health state; \<open>health_step\<close> has them one by one. \<open>Waiter_Order\<close>: which
      waiting requests a freed slot serves, refuses and leaves waiting, without the loop.
    \<^item> \<open>Byte_Proofs\<close>: the table-driven checksum is the bitwise one and changes with every burst of up to
      four bytes. \<open>Frame_Proofs\<close>: encoders of headers and frames, what the parser reads of them, and that
      it accepts nothing else. \<open>Thinking_Filter\<close> also has the filter against a reference on the whole text.
      \<open>Schema_Meaning\<close>: the schema validator against a specification of JSON Schema that uses none of its
      helpers; canonical texts are equal exactly for JSON values of the same structure.
    \<^item> \<open>Drain_Proofs\<close>: the loop over the queue refines \<open>flat_drain\<close> on one byte string, hence chunks do
      not matter; the locale \<open>byte_buffer\<close> is what the loop relies on. \<open>Event_Shape\<close>: the locale
      \<open>parser_invariant\<close> says what an invariant has to show of the handlers and carries it through whole
      streams; it is interpreted for the shape of the events, in \<open>Call_Proofs\<close> for the tool calls, in
      \<open>Text_Proofs\<close> for the visible text and in \<open>Limit_Proofs\<close> for the limits. The locale \<open>tool_frame\<close>
      collects what the operations on tools leave alone. \<open>Collector_Proofs\<close>: the collected response.
    \<^item> \<open>Route_Proofs\<close>: topology, resolution, menus, compatibility, preview.
    \<^item> \<open>Sse_Proofs\<close>: the framer against a reference that splits the whole text into lines, and its limit.
      \<open>Encoder_Frames\<close>: every frame an encoder emits is read back as its name and data. \<open>Encoder_Runs\<close>: the
      locale \<open>encoder_invariant\<close> says what an invariant has to show of the encoder of a protocol and carries it
      through whole runs; \<open>Anthropic_Proofs\<close> interprets it for the order and the content of the message.
      \<open>Harness_Tools\<close> also shows that the parameters are hidden and nothing else changes. \<open>Dsml_Proofs\<close>: markers do not overlap, text that may begin one is
      kept back, and so the stream parser equals the buffered parser on any cutting of the text.
    \<^item> The locale \<open>framer\<close> in \<open>Sse_Proofs\<close> is what the parser relies on in a framer; \<open>Sse_Proofs\<close> and
      \<open>Json_Proofs\<close> interpret it for the two framers of the code. \<open>Parser_Cutting\<close>: every handler only appends
      to the events that wait, the decoder carries characters over, and so the parser and the transform do not
      depend on the chunks. \<open>Parser_Lifecycle\<close>: the locale \<open>handler_invariant\<close> carries an invariant of the
      emitters through all handlers and whole responses; it is interpreted for the order of the events and for the protocol.
    \<^item> \<open>Scheduling_Properties\<close>, \<open>Session_Properties\<close>, \<open>Health_Properties\<close>, \<open>Queue_Properties\<close>,
      \<open>Strategy_Properties\<close>, \<open>Service_Properties\<close>, \<open>Routing_Properties\<close>,
      \<open>Stream_Properties\<close>, \<open>Encoder_Properties\<close>, \<open>Dsml_Properties\<close>, \<open>Translation_Properties\<close> and this theory: the numbered
      properties, with witnesses on the sample data at the head of \<open>Scheduling_Properties\<close>.

  How the code is rendered.
    \<^item> Numbers the scheduler computes with are exact reals: rounding of floating point is not modelled
      there. In the event stream a number is an IEEE double, rounded to even after each operation.
      Where the code tests \<^verbatim>\<open>Number.isFinite\<close>, the argument is a \<open>js_number\<close> that may be non-finite.
      Counters are natural numbers. Strings are sequences of code units below 256;
      those of the event stream are sequences of UTF-16 code units, decoded from its bytes.
    \<^item> One synchronous call reads the clock once: \<open>env_now\<close>. The injected random source is
      \<open>env_random\<close>, a function of the number of draws made, \<open>sd_draws\<close>; where it matters its values
      lie in \<open>[0, 1)\<close>, the documented range of \<^verbatim>\<open>Math.random\<close> (\<open>draws_ok\<close>). \<^verbatim>\<open>localeCompare\<close> is
      \<open>env_compare\<close>, an aborted signal \<open>env_aborted\<close>.
    \<^item> Maps and objects whose order is never observed are partial functions, those whose order is
      observed insertion-ordered association lists. The order JavaScript gives to
      integer-like object keys is not modelled. \<^verbatim>\<open>WeakMap\<close> caches of pure functions are dropped.
    \<^item> A call that throws returns the error next to the state it leaves. A \<^verbatim>\<open>release\<close> closure is a
      lease record with its flag. A pending promise is a waiter of the queue, settled once in the
      log \<open>sd_settled\<close>; timers and abort events are the steps \<open>waiterTimeout\<close> and \<open>signalAborted\<close>.
    \<^item> Bytes are \<open>8 word\<close>, the checksum is computed on \<open>32 word\<close>. A handler of the event stream that
      throws returns the state it leaves and the failure: code, type and the message if the upstream
      sent one; the wording of the parser's own messages is left out. The engine behind
      \<^verbatim>\<open>new RegExp(pattern, 'u')\<close> is the field \<open>regexp\<close> of the configuration, any function; no property
      assumes anything of it. The body of a response is the list of chunks its reader delivers.
    \<^item> Frames are texts of UTF-16 code units; \<open>frame_bytes\<close> encodes them. Malformed UTF-8 decodes to U+FFFD as
      the Encoding Standard has it. What a framer calls back is a list, handled in order after the framer's
      step. The indices of events are natural numbers: an upstream index that is none has no event and sets
      \<open>pp_unnumbered\<close>. Signatures and keys the code builds as texts only to compare them are tuples. \<^verbatim>\<open>toLowerCase\<close> is
      the one of ASCII, the messages of \<^verbatim>\<open>JSON.parse\<close> are left out. The identifiers of
      \<^verbatim>\<open>randomUUID\<close> are a sequence \<open>uuid\<close>, any function, drawn in order. The events the DSML stream takes from
      the parser it wraps are an argument of \<open>transform\<close>. The lookup of properties through prototypes is
      not modelled.
    \<^item> Loops are recursions over their list; loops that delete from the map they run over take as
      many rounds as the map has entries at the start, which the exit lemmas show to be enough.

  Not modelled: the gateway server itself, the translation of request and response bodies between
  protocols (\<^verbatim>\<open>protocol.ts\<close>), a native stack that overflows on deeply nested JSON and a read of the body that fails, the stores, the OAuth
  flows, agents, client configuration, the desktop shell and the renderer (network, files, processes
  and user interface), the localised messages of the preview, and the display-only properties of the
  persisted records.
\<close>

section \<open>From the preview of a route to the selection of an account\<close>

lemma routed_model_nonempty:
  assumes "preview_routed_model input = Some m"
  shows "m \<noteq> []"
proof -
  obtain r where r: "normalizeModel (pin_requestedModel input) = Some r"
      and m: "m = resolveRouteModel (Some (route_modelMap (pin_route input))) r"
    using assms by (auto simp: preview_routed_model_def)
  have "r \<noteq> []" using r by (auto simp: normalizeModel_def truthy_def split: option.splits if_splits)
  moreover have "t \<noteq> []" if "readOwnMapping q k = Some t" for q k t
    using that normalizeTarget_safe
    by (fastforce simp: readOwnMapping_def isSafeRouteModelMapTarget_def Let_def split: option.splits if_splits)
  ultimately show ?thesis unfolding m by (auto simp: resolveRouteModel_def split: option.split)
qed

text \<open>
  A selection asks, over a source's members, what the preview asked over those it considered: what
  the preview counts as schedulable is offered to the selection.
\<close>

lemma preview_offers:
  assumes "in_pool i = res_pool src" and "in_model i = m" and "\<not> in_skipAccountModelCatalog i"
    and "in_providers i = Some (col_providers c)" and "in_requiredCapabilities i = pin_requiredCapabilities input"
    and "\<not> isChatGptWebWmPoolProtocol (pool_protocol (res_pool src))" and "preview_routed_model input = Some m"
    and "set (preview_accounts (pin_route input) src c now) \<subseteq> set (in_accounts i)"
    and "a \<in> set (er_schedulable (preview_tiers input src c now))"
  shows "a \<in> set (er_verified (source_eligibility i)) \<union> set (er_unknown (source_eligibility i))"
    and "a \<in> set (er_modelEligible (source_eligibility i))"
  using assms
  by (auto simp: preview_tiers_def preview_eligibility_def source_eligibility_def evaluateSourceEligibility_def
      Let_def split: if_splits)

lemma offered_model_exposed:
  assumes "a \<in> set (er_modelEligible (source_eligibility i))" and "\<not> in_skipAccountModelCatalog i"
    and "in_model i \<noteq> []"
  shows "model_exposed i"
proof -
  have "accountSupportsModel a (Some (in_model i)) p (Some (pool_modelPolicy (in_pool i)))
      (Some (pool_modelAllowlist (in_pool i))) q \<Longrightarrow>
    pool_modelPolicy (in_pool i) = Selected_Models \<Longrightarrow> in_model i \<in> set (pool_modelAllowlist (in_pool i))" for p q
    using assms(3) by (simp add: accountSupportsModel_def truthy_def split: if_splits)
  moreover have "\<exists>p q. accountSupportsModel a (Some (in_model i)) p (Some (pool_modelPolicy (in_pool i)))
      (Some (pool_modelAllowlist (in_pool i))) q"
    using assms(1,2) by (auto simp: source_eligibility_def evaluateSourceEligibility_def Let_def)
  ultimately show ?thesis using assms(1) by (auto simp: model_exposed_def)
qed

lemma selection_error_or_member:
  assumes "draws_ok e" and "distinct (map acc_id (in_accounts i))"
    and strategy: "isSupportedPoolStrategy (pool_strategy (in_pool i))" and "model_exposed i"
  shows "fst (selectAndAcquire e i s) \<noteq> Inl Model_Not_Exposed
    \<and> (runnable_tier e i s \<noteq> [] \<longrightarrow> (\<exists>sel t. selectAndAcquire e i s = (Inr sel, t)))"
proof (rule selectAndAcquire_eq [OF strategy assms(2), where e = e and s = s])
  fix t u
  assume eq: "selectAndAcquire e i s =
    (if \<not> model_exposed i then (Inl Model_Not_Exposed, t)
     else if runnable_tier e i s = [] then
       (Inl (No_Eligible_Account (map acc_id (er_verified (source_eligibility i))
          @ map acc_id (er_unknown (source_eligibility i))) no_eligible_message), u)
     else choose_and_commit e i (runnable_tier e i s) u)"
  show ?thesis
  proof (cases "runnable_tier e i s = []")
    case False
    from choose_and_commit_spec [OF False strategy assms(1), of u] show ?thesis
      using False eq assms(4) by (auto simp: committed_def)
  qed (use eq assms(4) in simp)
qed

text \<open>
  C20. What the preview of a route promises, the scheduler keeps: when a preview with a requested
  model is not blocked, it found the source and counts at least one schedulable account; a
  selection on that source, for the model the route maps the request to and with the same
  capabilities, then never reports that no member exposes the model, and it succeeds as soon as one
  of the accounts counted can run.
\<close>

theorem preview_then_select:
  assumes "pv_status (previewRoute input c now) \<noteq> Blocked"
    and "resolveRouteSource (preview_source_id input) c = Some src"
    and "\<not> isChatGptWebWmPoolProtocol (pool_protocol (res_pool src))"
    and "preview_routed_model input = Some (in_model i)"
    and "in_pool i = res_pool src" and "\<not> in_skipAccountModelCatalog i"
    and "in_providers i = Some (col_providers c)" and "in_requiredCapabilities i = pin_requiredCapabilities input"
    and "set (preview_accounts (pin_route input) src c now) \<subseteq> set (in_accounts i)"
    and "distinct (map acc_id (in_accounts i))" and "draws_ok e"
    and "isSupportedPoolStrategy (pool_strategy (res_pool src))"
  shows "0 < pv_eligibleAccountCount (previewRoute input c now)
    \<and> pv_eligibleAccountCount (previewRoute input c now) = length (er_schedulable (preview_tiers input src c now))
    \<and> fst (selectAndAcquire e i s) \<noteq> Inl Model_Not_Exposed
    \<and> (if list_ex (runnable e i s) (er_schedulable (preview_tiers input src c now))
       then \<exists>sel t. selectAndAcquire e i s = (Inr sel, t) else True)"
proof -
  have some: "er_schedulable (preview_tiers input src c now) \<noteq> []"
    and n: "pv_eligibleAccountCount (previewRoute input c now) = length (er_schedulable (preview_tiers input src c now))"
    using previewRoute_schedulable [OF assms(1)] assms(2) by auto
  note offers = preview_offers [OF assms(5) refl assms(6-8,3,4,9)]
  obtain a where "a \<in> set (er_schedulable (preview_tiers input src c now))" using some by (meson list.set_sel(1))
  then have exposed: "model_exposed i"
    using offers(2) offered_model_exposed [OF _ assms(6) routed_model_nonempty [OF assms(4)]] by blast
  have strategy: "isSupportedPoolStrategy (pool_strategy (in_pool i))" using assms(5,12) by simp
  have "runnable_tier e i s \<noteq> []" if some_runs: "list_ex (runnable e i s) (er_schedulable (preview_tiers input src c now))"
  proof -
    obtain b where "b \<in> set (er_schedulable (preview_tiers input src c now))" "runnable e i s b"
      using some_runs by (auto simp: list_ex_iff)
    then show ?thesis
      using offers(1) by (auto simp: runnable_tier_def Let_def filter_empty_conv)
  qed
  then show ?thesis
    using selection_error_or_member [OF assms(11,10) strategy exposed, of s] some n by auto
qed

text \<open>A Codex route to the sample pool, previewed for the model the pool serves.\<close>

definition sample_preview :: preview_input where
  "sample_preview = \<lparr>pin_route = \<lparr>route_id = ''r'', route_client = Codex, route_enabled = True,
     route_poolId = ''q'', route_inboundProtocol = Openai_Responses, route_modelMap = [],
     route_modelSourceMap = None\<rparr>, pin_requestedModel = Some '' m'', pin_requiredCapabilities = None\<rparr>"

lemma sample_preview_facts:
  "pv_status (previewRoute sample_preview sample_collections 1000) \<noteq> Blocked"
  "preview_source_id sample_preview = ''q''"
  "preview_routed_model sample_preview = Some ''m''"
  by code_simp+

theorem preview_then_select_witness:
  "0 < pv_eligibleAccountCount (previewRoute sample_preview sample_collections 1000)
   \<and> fst (selectAndAcquire sample_env ((sample_input Priority None [account_a, account_b])
        \<lparr>in_providers := Some [sample_provider ''p'' Relay]\<rparr>) fresh_scheduler) \<noteq> Inl Model_Not_Exposed"
proof -
  let ?i = "(sample_input Priority None [account_a, account_b])\<lparr>in_providers := Some [sample_provider ''p'' Relay]\<rparr>"
  let ?src = "persisted_source (sample_pool Priority False) [account_a, account_b]"
  have src: "resolveRouteSource (preview_source_id sample_preview) sample_collections = Some ?src"
    unfolding sample_preview_facts(2) by (rule sample_resolves)
  have pool: "res_pool ?src = sample_pool Priority False" "\<not> isChatGptWebWmPoolProtocol (pool_protocol (res_pool ?src))"
    "isSupportedPoolStrategy (pool_strategy (res_pool ?src))"
    by (simp_all add: persisted_source_def Let_def)
      (simp_all add: sample_pool_def isChatGptWebWmPoolProtocol_def isSupportedPoolStrategy_def)
  have accounts: "set (preview_accounts (pin_route sample_preview) ?src sample_collections 1000) \<subseteq> set (in_accounts ?i)"
    by (auto simp: preview_accounts_def persisted_source_def sample_input_def Let_def)
  have i: "preview_routed_model sample_preview = Some (in_model ?i)" "in_pool ?i = res_pool ?src"
    "\<not> in_skipAccountModelCatalog ?i" "in_providers ?i = Some (col_providers sample_collections)"
    "in_requiredCapabilities ?i = pin_requiredCapabilities sample_preview"
    "distinct (map acc_id (in_accounts ?i))"
    by (simp_all add: pool(1) sample_preview_facts(3))
      (simp_all add: sample_input_def sample_collections_def sample_preview_def sample_account_def)
  show ?thesis
    using preview_then_select [OF sample_preview_facts(1) src pool(2) i(1-5) accounts i(6) sample_draws pool(3),
        of fresh_scheduler] by blast
qed

end
